(* ===== verification/Prelude.thy ===== *)
theory Prelude
  imports Main "HOL-Library.Word" "HOL-Library.List_Lexorder" "HOL-Library.Monad_Syntax"
begin

text \<open>
  Shared vocabulary of the development: Go values and Go control flow.

  \<^item> A function that may fail returns \<open>'e + 'a\<close>, \<open>Inl\<close> being the returned error.
    \<open>bindE\<close> is the \<open>if err != nil { return err }\<close> of the code and \<open>foldE\<close> is a
    \<open>for ... range\<close> loop whose body may return an error.
  \<^item> A byte slice is a list of 8-bit words; \<open>putUintN\<close> and \<open>uintN\<close> are the methods of
    Go's \<open>binary.BigEndian\<close>; \<open>copyN\<close> and \<open>patch\<close> are \<open>copy\<close> into a fresh
    zeroed array and the in-place update of a sub-slice.
  \<^item> Time is an integer number of nanoseconds since the Unix epoch; \<open>unixSec\<close> and
    \<open>fromUnix\<close> are \<open>Time.Unix()\<close> and \<open>time.Unix(s, 0)\<close>.
\<close>

named_theorems codec_simps "lengths and projections of the fixed-width encodings"
named_theorems db_defs "database access functions, unfolded to bucket operations"

section \<open>Errors as values\<close>

definition bindE :: "'e + 'a \<Rightarrow> ('a \<Rightarrow> 'e + 'b) \<Rightarrow> 'e + 'b" where
  "bindE m f = (case m of Inl e \<Rightarrow> Inl e | Inr x \<Rightarrow> f x)"

lemma bindE_simps [simp]:
  "bindE (Inl e) f = Inl e"
  "bindE (Inr x) f = f x"
  by (simp_all add: bindE_def)

lemma bindE_eq_Inr [simp]: "bindE m f = Inr y \<longleftrightarrow> (\<exists>x. m = Inr x \<and> f x = Inr y)"
  by (cases m) auto

lemma bindE_eq_Inl: "bindE m f = Inl e \<longleftrightarrow> m = Inl e \<or> (\<exists>x. m = Inr x \<and> f x = Inl e)"
  by (cases m) auto

lemma bindE_cong [fundef_cong]:
  "m = m' \<Longrightarrow> (\<And>x. m' = Inr x \<Longrightarrow> f x = f' x) \<Longrightarrow> bindE m f = bindE m' f'"
  by (cases m') auto

definition guardE :: "bool \<Rightarrow> 'e \<Rightarrow> 'e + unit" where
  "guardE b e = (if b then Inr () else Inl e)"

lemma guardE_eq_Inr [simp]: "guardE b e = Inr u \<longleftrightarrow> b"
  by (simp add: guardE_def)

fun foldE :: "('a \<Rightarrow> 's \<Rightarrow> 'e + 's) \<Rightarrow> 'a list \<Rightarrow> 's \<Rightarrow> 'e + 's" where
  "foldE f [] s = Inr s"
| "foldE f (x # xs) s = bindE (f x s) (foldE f xs)"

lemma foldE_cong [fundef_cong]:
  "xs = ys \<Longrightarrow> s = t \<Longrightarrow> (\<And>x u. x \<in> set ys \<Longrightarrow> f x u = g x u) \<Longrightarrow> foldE f xs s = foldE g ys t"
  by (induction ys arbitrary: xs s t) (auto intro: bindE_cong)

lemma foldE_append: "foldE f (xs @ ys) s = bindE (foldE f xs s) (foldE f ys)"
proof (induction xs arbitrary: s)
  case (Cons x xs)
  then show ?case by (cases "f x s") auto
qed simp

lemma foldE_invariant:
  assumes "foldE f xs s = Inr t" and "P s"
    and "\<And>x u v. x \<in> set xs \<Longrightarrow> P u \<Longrightarrow> f x u = Inr v \<Longrightarrow> P v"
  shows "P t"
  using assms
proof (induction xs arbitrary: s)
  case (Cons x xs)
  then obtain u where u: "f x s = Inr u" and rest: "foldE f xs u = Inr t" by auto
  have "P u" by (rule Cons.prems(3)[OF _ Cons.prems(2) u]) simp
  then show ?case by (rule Cons.IH[OF rest]) (auto intro: Cons.prems(3))
qed simp

text \<open>An invariant indexed by the part of the list still to be processed.\<close>

lemma foldE_progress:
  assumes "foldE f xs s = Inr t" and "P xs s"
    and "\<And>x ys u v. set (x # ys) \<subseteq> set xs \<Longrightarrow> P (x # ys) u \<Longrightarrow> f x u = Inr v \<Longrightarrow> P ys v"
  shows "P [] t"
  using assms
proof (induction xs arbitrary: s)
  case (Cons x xs)
  then obtain u where u: "f x s = Inr u" and rest: "foldE f xs u = Inr t" by auto
  have "P xs u" by (rule Cons.prems(3)[OF _ Cons.prems(2) u]) simp
  moreover have "\<And>y ys w v. set (y # ys) \<subseteq> set xs \<Longrightarrow> P (y # ys) w \<Longrightarrow> f y w = Inr v \<Longrightarrow> P ys v"
    by (rule Cons.prems(3)) auto
  ultimately show ?case by (rule Cons.IH[OF rest])
qed simp

lemma foldE_total:
  assumes "P s" and "\<And>x u. x \<in> set xs \<Longrightarrow> P u \<Longrightarrow> \<exists>v. f x u = Inr v \<and> P v"
  shows "\<exists>t. foldE f xs s = Inr t \<and> P t"
  using assms
proof (induction xs arbitrary: s)
  case (Cons x xs)
  obtain u where "f x s = Inr u" and "P u" using Cons.prems(2)[OF _ Cons.prems(1)] by auto
  then show ?case using Cons.IH[of u] Cons.prems(2) by auto
qed simp

fun mapE :: "('a \<Rightarrow> 'e + 'b) \<Rightarrow> 'a list \<Rightarrow> 'e + 'b list" where
  "mapE f [] = Inr []"
| "mapE f (x # xs) = bindE (f x) (\<lambda>y. bindE (mapE f xs) (\<lambda>ys. Inr (y # ys)))"

lemma mapE_eq_Inr: "mapE f xs = Inr ys \<longleftrightarrow> list_all2 (\<lambda>x y. f x = Inr y) xs ys"
  by (induction xs arbitrary: ys) (auto simp: list_all2_Cons1)

text \<open>\<open>for i, x := range xs\<close>: the elements paired with their \<open>uint32\<close> index.\<close>

definition indexed :: "'a list \<Rightarrow> (32 word \<times> 'a) list" where
  "indexed xs = map (\<lambda>i. (word_of_nat i, xs ! i)) [0..<length xs]"

lemma indexed_Nil [simp]: "indexed [] = []"
  by (simp add: indexed_def)

lemma set_indexed: "set (indexed xs) = {(word_of_nat i, xs ! i) | i. i < length xs}"
  by (auto simp: indexed_def)

lemma map_snd_indexed [simp]: "map snd (indexed xs) = xs"
  by (simp add: indexed_def comp_def map_nth)

lemma length_indexed [simp]: "length (indexed xs) = length xs"
  by (simp add: indexed_def)

section \<open>Bytes and big-endian integers\<close>

type_synonym byte = "8 word"
type_synonym bytes = "byte list"

fun nat_be :: "nat \<Rightarrow> nat \<Rightarrow> bytes" where
  "nat_be 0 m = []"
| "nat_be (Suc n) m = word_of_nat (m div 256 ^ n) # nat_be n m"

definition be_nat :: "bytes \<Rightarrow> nat" where
  "be_nat bs = foldl (\<lambda>a b. a * 256 + unat b) 0 bs"

lemma length_nat_be [simp, codec_simps]: "length (nat_be n m) = n"
  by (induction n) auto

lemma foldl_be: "foldl (\<lambda>a (b::byte). a * 256 + unat b) a bs = a * 256 ^ length bs + be_nat bs"
proof (induction bs arbitrary: a)
  case (Cons b bs)
  show ?case
    using Cons[of "a * 256 + unat b"] Cons[of "unat b"]
    by (simp add: be_nat_def algebra_simps)
qed (simp add: be_nat_def)

lemma be_nat_simps [simp]:
  "be_nat [] = 0"
  "be_nat (b # bs) = unat b * 256 ^ length bs + be_nat bs"
  using foldl_be[of "unat b" bs] by (simp_all add: be_nat_def)

lemma unat_byte_less: "unat (b::byte) < 256"
  using unsigned_less[of b, where ?'a = nat] by simp

lemma be_nat_less: "be_nat bs < 256 ^ length bs"
proof (induction bs)
  case (Cons b bs)
  have "unat b \<le> 255" using unat_byte_less[of b] by simp
  then have "unat b * 256 ^ length bs \<le> 255 * 256 ^ length bs" by (rule mult_right_mono) simp
  with Cons have "unat b * 256 ^ length bs + be_nat bs < 256 * 256 ^ length bs" by linarith
  then show ?case by simp
qed simp

lemma be_nat_nat_be [simp]: "be_nat (nat_be n m) = m mod 256 ^ n"
proof (induction n)
  case (Suc n)
  have "unat (word_of_nat (m div 256 ^ n) :: byte) = (m div 256 ^ n) mod 256"
    by (simp add: unat_of_nat)
  then show ?case
    using Suc mod_mult2_eq[of m "256 ^ n" 256] by (simp add: mult.commute)
qed simp

lemma nat_be_add: "nat_be (length bs) (k * 256 ^ length bs + m) = nat_be (length bs) m"
proof -
  have "nat_be n (k * 256 ^ n * 256 ^ j + m) = nat_be n m" for n j k m
  proof (induction n arbitrary: j k)
    case (Suc n)
    have dv: "(k * 256 ^ Suc n * 256 ^ j + m) div 256 ^ n = k * 256 * 256 ^ j + m div 256 ^ n"
      by (subst div_mult_self3 [symmetric]) (auto simp: algebra_simps)
    have "word_of_nat ((k * 256 ^ Suc n * 256 ^ j + m) div 256 ^ n)
        = (word_of_nat (m div 256 ^ n) :: byte)"
      unfolding dv by (intro word_of_nat_eq_iff [THEN iffD2])
        (simp add: take_bit_eq_mod mult.assoc [symmetric] mult.commute [of _ 256] mod_add_left_eq [symmetric])
    moreover have "nat_be n (k * 256 ^ Suc n * 256 ^ j + m) = nat_be n m"
      using Suc[of k "Suc j"] by (simp add: algebra_simps)
    ultimately show ?case by simp
  qed simp
  from this[where j = 0] show ?thesis by simp
qed

lemma nat_be_be_nat [simp]: "nat_be (length bs) (be_nat bs) = bs"
proof (induction bs)
  case (Cons b bs)
  have "(unat b * 256 ^ length bs + be_nat bs) div 256 ^ length bs = unat b"
    using be_nat_less[of bs] by simp
  then show ?case using Cons nat_be_add[of bs "unat b" "be_nat bs"] by simp
qed simp

lemma nat_be_inj: "m < 256 ^ n \<Longrightarrow> k < 256 ^ n \<Longrightarrow> nat_be n m = nat_be n k \<longleftrightarrow> m = k"
  by (metis be_nat_nat_be mod_less)

definition putUint16 :: "16 word \<Rightarrow> bytes" where "putUint16 w = nat_be 2 (unat w)"
definition putUint32 :: "32 word \<Rightarrow> bytes" where "putUint32 w = nat_be 4 (unat w)"
definition putUint64 :: "64 word \<Rightarrow> bytes" where "putUint64 w = nat_be 8 (unat w)"
definition uint16_of :: "bytes \<Rightarrow> 16 word" where "uint16_of bs = word_of_nat (be_nat (take 2 bs))"
definition uint32_of :: "bytes \<Rightarrow> 32 word" where "uint32_of bs = word_of_nat (be_nat (take 4 bs))"
definition uint64_of :: "bytes \<Rightarrow> 64 word" where "uint64_of bs = word_of_nat (be_nat (take 8 bs))"

lemma length_putUint [simp, codec_simps]:
  "length (putUint16 w16) = 2" "length (putUint32 w32) = 4" "length (putUint64 w64) = 8"
  by (simp_all add: putUint16_def putUint32_def putUint64_def)

lemma uint_putUint [simp]:
  "uint16_of (putUint16 w16) = w16"
  "uint32_of (putUint32 w32) = w32"
  "uint64_of (putUint64 w64) = w64"
proof -
  have "unat w16 mod 256 ^ 2 = unat w16" using unsigned_less[of w16, where ?'a = nat] by simp
  then show "uint16_of (putUint16 w16) = w16" by (simp add: uint16_of_def putUint16_def)
  have "unat w32 mod 256 ^ 4 = unat w32" using unsigned_less[of w32, where ?'a = nat] by simp
  then show "uint32_of (putUint32 w32) = w32" by (simp add: uint32_of_def putUint32_def)
  have "unat w64 mod 256 ^ 8 = unat w64" using unsigned_less[of w64, where ?'a = nat] by simp
  then show "uint64_of (putUint64 w64) = w64" by (simp add: uint64_of_def putUint64_def)
qed

lemma uint_putUint_append [simp]:
  "uint16_of (putUint16 w16 @ xs) = w16"
  "uint32_of (putUint32 w32 @ xs) = w32"
  "uint64_of (putUint64 w64 @ xs) = w64"
proof -
  show "uint16_of (putUint16 w16 @ xs) = w16"
    using uint_putUint(1)[of w16] by (simp add: uint16_of_def)
  show "uint32_of (putUint32 w32 @ xs) = w32"
    using uint_putUint(2)[of w32] by (simp add: uint32_of_def)
  show "uint64_of (putUint64 w64 @ xs) = w64"
    using uint_putUint(3)[of w64] by (simp add: uint64_of_def)
qed

lemma putUint_uint [simp]:
  "length bs = 4 \<Longrightarrow> putUint32 (uint32_of bs) = bs"
  "length bs' = 8 \<Longrightarrow> putUint64 (uint64_of bs') = bs'"
proof -
  assume l: "length bs = 4"
  then have "unat (word_of_nat (be_nat bs) :: 32 word) = be_nat bs"
    using be_nat_less[of bs] by (simp add: unat_of_nat)
  then show "putUint32 (uint32_of bs) = bs"
    using l nat_be_be_nat[of bs] by (simp add: putUint32_def uint32_of_def)
next
  assume l: "length bs' = 8"
  then have "unat (word_of_nat (be_nat bs') :: 64 word) = be_nat bs'"
    using be_nat_less[of bs'] by (simp add: unat_of_nat)
  then show "putUint64 (uint64_of bs') = bs'"
    using l nat_be_be_nat[of bs'] by (simp add: putUint64_def uint64_of_def)
qed

lemma putUint_inj [simp]:
  "putUint32 a = putUint32 b \<longleftrightarrow> a = b"
  "putUint64 c = putUint64 d \<longleftrightarrow> c = d"
  by (metis uint_putUint(2), metis uint_putUint(3))

section \<open>Slices\<close>

text \<open>\<open>copy\<close> into a fresh zeroed array of \<open>n\<close> bytes.\<close>

definition copyN :: "nat \<Rightarrow> bytes \<Rightarrow> bytes" where
  "copyN n v = take n v @ replicate (n - length v) 0"

text \<open>Overwriting the bytes of \<open>v\<close> from offset \<open>off\<close> on with \<open>bs\<close> (which fits).\<close>

definition patch :: "bytes \<Rightarrow> nat \<Rightarrow> bytes \<Rightarrow> bytes" where
  "patch v off bs = take off v @ bs @ drop (off + length bs) v"

text \<open>The Go slice expression \<open>v[a:b]\<close> for \<open>a \<le> b \<le> len(v)\<close>.\<close>

definition slice :: "bytes \<Rightarrow> nat \<Rightarrow> nat \<Rightarrow> bytes" where
  "slice v a b = take (b - a) (drop a v)"

lemma length_copyN [simp, codec_simps]: "length (copyN n v) = n"
  by (simp add: copyN_def)

lemma copyN_id [simp]: "length v = n \<Longrightarrow> copyN n v = v"
  by (simp add: copyN_def)

lemma length_patch [simp, codec_simps]: "off + length bs \<le> length v \<Longrightarrow> length (patch v off bs) = length v"
  by (simp add: patch_def)

lemma length_slice [simp, codec_simps]: "a \<le> b \<Longrightarrow> b \<le> length v \<Longrightarrow> length (slice v a b) = b - a"
  by (simp add: slice_def)

text \<open>The length of a slice that may be nil.\<close>

definition glen :: "bytes option \<Rightarrow> nat" where
  "glen v = (case v of None \<Rightarrow> 0 | Some bs \<Rightarrow> length bs)"

lemma glen_simps [simp]: "glen None = 0" "glen (Some bs) = length bs"
  by (simp_all add: glen_def)

text \<open>A nil slice reads as the empty one.\<close>

definition orNil :: "bytes option \<Rightarrow> bytes" where
  "orNil v = (case v of None \<Rightarrow> [] | Some bs \<Rightarrow> bs)"

lemma orNil_simps [simp]: "orNil None = []" "orNil (Some bs) = bs"
  by (simp_all add: orNil_def)

definition hasPrefix :: "bytes \<Rightarrow> bytes \<Rightarrow> bool" where
  "hasPrefix s p \<longleftrightarrow> take (length p) s = p"

lemma hasPrefix_append [simp]: "hasPrefix (p @ s) p"
  by (simp add: hasPrefix_def)

lemma hasPrefix_iff: "hasPrefix s p \<longleftrightarrow> (\<exists>r. s = p @ r)"
  by (metis append_eq_conv_conj hasPrefix_append hasPrefix_def append_take_drop_id)

text \<open>In byte order, a prefix is monotone, so the keys with a given prefix are contiguous.\<close>

lemma take_mono_lex: "(xs::bytes) \<le> ys \<Longrightarrow> take n xs \<le> take n ys"
proof (induction n arbitrary: xs ys)
  case (Suc n)
  then show ?case by (cases xs; cases ys) auto
qed simp

lemma hasPrefix_ge: "hasPrefix k p \<Longrightarrow> p \<le> k"
proof -
  have "p \<le> p @ r" for r :: bytes by (induction p) auto
  then show "hasPrefix k p \<Longrightarrow> p \<le> k" by (auto simp: hasPrefix_iff)
qed

lemma hasPrefix_convex: "p \<le> j \<Longrightarrow> j \<le> k \<Longrightarrow> hasPrefix k p \<Longrightarrow> hasPrefix j p"
  using take_mono_lex[of p j "length p"] take_mono_lex[of j k "length p"]
  by (simp add: hasPrefix_def)

section \<open>Time\<close>

type_synonym gotime = int

definition unixSec :: "gotime \<Rightarrow> int" where "unixSec t = t div 1000000000"
definition fromUnix :: "int \<Rightarrow> gotime" where "fromUnix s = s * 1000000000"

text \<open>The zero \<open>time.Time\<close>: the start of year 1.\<close>

definition zeroTime :: gotime where "zeroTime = - 62135596800000000000"

text \<open>\<open>uint64(t.Unix())\<close> and \<open>time.Unix(int64(u), 0)\<close>.\<close>

definition timeWord :: "gotime \<Rightarrow> 64 word" where "timeWord t = word_of_int (unixSec t)"
definition wordTime :: "64 word \<Rightarrow> gotime" where "wordTime w = fromUnix (sint w)"

lemma wordTime_timeWord:
  assumes "- (2 ^ 63) \<le> unixSec t" "unixSec t < 2 ^ 63"
  shows "wordTime (timeWord t) = t - t mod 1000000000"
proof -
  have "sint (word_of_int (unixSec t) :: 64 word) = unixSec t"
    using assms by (intro signed_take_bit_int_eq_self[THEN trans[OF sint_sbintrunc']] ) auto
  then show ?thesis
    by (simp add: wordTime_def timeWord_def fromUnix_def unixSec_def minus_mod_eq_div_mult)
qed

end
