(* ===== verification/Bucket.thy ===== *)
theory Bucket
  imports Prelude
begin

text \<open>
  The key/value bucket of \<open>walletdb/interface.go\<close> as the packages above it see it: a finite
  map from byte strings to byte strings whose cursors and \<open>ForEach\<close> visit the keys in
  byte order.  A bucket is the strictly sorted list of its entries, so equal contents are
  equal buckets.  The storage engine behind the interface (bbolt) is not in the repository; what
  the code relies on is the documented contract of the interface, stated as the locale
  \<open>kv_bucket\<close> and discharged for the operations below.

  A cursor holds its bucket and the position key; \<open>cursorSeek\<close>, \<open>cursorNext\<close> and
  \<open>cursorPrev\<close> return the pair moved to (\<open>None\<close> for nil) and the moved cursor.
\<close>

section \<open>Sorted association lists\<close>

type_synonym entry = "bytes \<times> bytes"

fun upd_entry :: "bytes \<Rightarrow> 'v \<Rightarrow> (bytes \<times> 'v) list \<Rightarrow> (bytes \<times> 'v) list" where
  "upd_entry k v [] = [(k, v)]"
| "upd_entry k v ((k', v') # es) =
     (if k < k' then (k, v) # (k', v') # es
      else if k = k' then (k, v) # es
      else (k', v') # upd_entry k v es)"

definition del_entry :: "bytes \<Rightarrow> entry list \<Rightarrow> entry list" where
  "del_entry k es = filter (\<lambda>e. fst e \<noteq> k) es"

definition keys_sorted :: "(bytes \<times> 'v) list \<Rightarrow> bool" where
  "keys_sorted es \<longleftrightarrow> sorted_wrt (<) (map fst es)"

lemma fst_set_upd_entry: "fst ` set (upd_entry k v es) = insert k (fst ` set es)"
  by (induction k v es rule: upd_entry.induct) auto

lemma keys_sorted_upd: "keys_sorted es \<Longrightarrow> keys_sorted (upd_entry k v es)"
proof (induction k v es rule: upd_entry.induct)
  case (2 k v k' v' es)
  have "fst ` set (upd_entry k v es) = insert k (fst ` set es)" by (rule fst_set_upd_entry)
  with 2 show ?case by (auto simp: keys_sorted_def)
qed (simp add: keys_sorted_def)

lemma keys_sorted_del: "keys_sorted es \<Longrightarrow> keys_sorted (del_entry k es)"
  by (induction es) (auto simp: keys_sorted_def del_entry_def)

lemma keys_sorted_distinct: "keys_sorted es \<Longrightarrow> distinct (map fst es)"
  by (auto simp: keys_sorted_def strict_sorted_iff)

lemma map_of_upd_entry: "map_of (upd_entry k v es) = (map_of es)(k \<mapsto> v)"
  by (induction k v es rule: upd_entry.induct) (auto simp: fun_eq_iff)

lemma map_of_del_entry: "map_of (del_entry k es) = (map_of es)(k := None)"
  by (induction es) (auto simp: del_entry_def fun_eq_iff)

lemma map_of_canonical:
  "distinct (map fst es) \<Longrightarrow> map (\<lambda>k. (k, the (map_of es k))) (map fst es) = es"
  unfolding map_map by (rule map_idI) (auto simp: comp_def)

lemma keys_sorted_unique:
  assumes "keys_sorted es" "keys_sorted fs" "map_of es = map_of fs"
  shows "es = fs"
proof -
  have d: "distinct (map fst es)" "distinct (map fst fs)"
    using assms(1,2) by (simp_all add: keys_sorted_distinct)
  have "fst ` set es = fst ` set fs"
    using assms(3) by (simp add: dom_map_of_conv_image_fst [symmetric])
  then have "map fst es = map fst fs"
    using assms(1,2) by (intro strict_sorted_equal) (auto simp: keys_sorted_def)
  then show ?thesis
    using map_of_canonical[OF d(1)] map_of_canonical[OF d(2)] assms(3) by metis
qed

section \<open>Buckets\<close>

typedef bucket = "{es :: entry list. keys_sorted es}"
  by (rule exI[of _ "[]"]) (simp add: keys_sorted_def)

definition entries :: "bucket \<Rightarrow> entry list" where
  "entries = Rep_bucket"
definition bucketEmpty :: bucket where
  "bucketEmpty = Abs_bucket []"
definition bucketPut :: "bucket \<Rightarrow> bytes \<Rightarrow> bytes \<Rightarrow> bucket" where
  "bucketPut b k v = Abs_bucket (upd_entry k v (entries b))"
definition bucketDelete :: "bucket \<Rightarrow> bytes \<Rightarrow> bucket" where
  "bucketDelete b k = Abs_bucket (del_entry k (entries b))"
definition bucketGet :: "bucket \<Rightarrow> bytes \<Rightarrow> bytes option" where
  "bucketGet b k = map_of (entries b) k"

lemma keys_sorted_entries [simp]: "keys_sorted (entries b)"
  using Rep_bucket[of b] by (simp add: entries_def)

lemma bucket_abs [code abstype]: "Abs_bucket (entries b) = b"
  by (simp add: entries_def Rep_bucket_inverse)

lemma entries_empty [simp, code abstract]: "entries bucketEmpty = []"
  by (simp add: entries_def bucketEmpty_def keys_sorted_def Abs_bucket_inverse)

lemma entries_put [code abstract]: "entries (bucketPut b k v) = upd_entry k v (entries b)"
  using keys_sorted_upd[of "entries b" k v] keys_sorted_entries[of b] by (simp add: bucketPut_def Abs_bucket_inverse entries_def)

lemma entries_delete [code abstract]: "entries (bucketDelete b k) = del_entry k (entries b)"
  using keys_sorted_del[of "entries b" k] keys_sorted_entries[of b] by (simp add: bucketDelete_def Abs_bucket_inverse entries_def)

lemma bucket_eq_iff: "b = c \<longleftrightarrow> entries b = entries c"
  by (simp add: entries_def Rep_bucket_inject)

instantiation bucket :: equal
begin
definition equal_bucket :: "bucket \<Rightarrow> bucket \<Rightarrow> bool" where
  "equal_bucket b c \<longleftrightarrow> entries b = entries c"
instance
  by standard (simp add: equal_bucket_def bucket_eq_iff)
end

section \<open>The contract of the interface\<close>

locale kv_bucket =
  fixes get :: "'b \<Rightarrow> bytes \<Rightarrow> bytes option"
    and put :: "'b \<Rightarrow> bytes \<Rightarrow> bytes \<Rightarrow> 'b"
    and del :: "'b \<Rightarrow> bytes \<Rightarrow> 'b"
    and items :: "'b \<Rightarrow> entry list"
  assumes get_put: "get (put b k v) = (get b)(k \<mapsto> v)"
    and get_del: "get (del b k) = (get b)(k := None)"
    and get_items: "get b = map_of (items b)"
    and items_sorted: "keys_sorted (items b)"
    and ext: "get b = get c \<Longrightarrow> b = c"
begin

lemma distinct_items: "distinct (map fst (items b))"
  using items_sorted by (rule keys_sorted_distinct)

lemma mem_items_iff: "(k, v) \<in> set (items b) \<longleftrightarrow> get b k = Some v"
  by (simp add: get_items distinct_items)

lemma get_eq: "get (put b k v) k = Some v" "get (del b k) k = None"
  "k' \<noteq> k \<Longrightarrow> get (put b k v) k' = get b k'" "k' \<noteq> k \<Longrightarrow> get (del b k) k' = get b k'"
  by (simp_all add: get_put get_del)

lemma put_put: "put (put b k v) k w = put b k w"
  by (rule ext) (simp add: get_put)

lemma del_put: "get b k = None \<Longrightarrow> del (put b k v) k = b"
  by (rule ext) (auto simp: get_put get_del fun_eq_iff)

lemma put_same: "get b k = Some v \<Longrightarrow> put b k v = b"
  by (rule ext) (auto simp: get_put fun_eq_iff)

lemma del_absent: "get b k = None \<Longrightarrow> del b k = b"
  by (rule ext) (auto simp: get_del fun_eq_iff)

lemma put_commute: "j \<noteq> k \<Longrightarrow> put (put b j v) k w = put (put b k w) j v"
  by (rule ext) (auto simp: get_put fun_eq_iff)

lemma items_put:
  "get b k = None \<Longrightarrow> \<exists>xs ys. items b = xs @ ys \<and> items (put b k v) = xs @ (k, v) # ys"
proof -
  assume n: "get b k = None"
  have "keys_sorted (upd_entry k v (items b))" using items_sorted by (rule keys_sorted_upd)
  moreover have "map_of (upd_entry k v (items b)) = map_of (items (put b k v))"
    using get_put[of b k v] by (simp add: map_of_upd_entry get_items)
  ultimately have e: "items (put b k v) = upd_entry k v (items b)"
    using items_sorted keys_sorted_unique by metis
  have "map_of es k = None \<Longrightarrow> \<exists>xs ys. es = xs @ ys \<and> upd_entry k v es = xs @ (k, v) # ys" for es
  proof (induction es)
    case (Cons e es)
    obtain k' v' where kv: "e = (k', v')" by (cases e)
    show ?case
    proof (cases "k < k'")
      case True
      with kv have "e # es = [] @ (e # es) \<and> upd_entry k v (e # es) = [] @ (k, v) # (e # es)"
        by simp
      then show ?thesis by blast
    next
      case False
      from Cons.prems kv have ne: "k \<noteq> k'" by auto
      with Cons kv obtain xs ys where "es = xs @ ys" "upd_entry k v es = xs @ (k, v) # ys" by auto
      with False ne kv have "e # es = (e # xs) @ ys \<and> upd_entry k v (e # es) = (e # xs) @ (k, v) # ys"
        by auto
      then show ?thesis by blast
    qed
  qed auto
  from this[of "items b"] n e show ?thesis by (simp add: get_items)
qed

text \<open>Sums over the entries of a bucket, under insertion and removal.\<close>

lemma sum_items_put:
  fixes f :: "entry \<Rightarrow> 'm::comm_monoid_add"
  assumes "get b k = None"
  shows "sum_list (map f (items (put b k v))) = f (k, v) + sum_list (map f (items b))"
  using items_put[OF assms, of v] by (auto simp: algebra_simps)

lemma sum_items_del:
  fixes f :: "entry \<Rightarrow> 'm::comm_monoid_add"
  assumes "get b k = Some v"
  shows "sum_list (map f (items b)) = f (k, v) + sum_list (map f (items (del b k)))"
proof -
  have "put (del b k) k v = b"
    by (rule ext) (use assms in \<open>auto simp: get_put get_del fun_eq_iff\<close>)
  then show ?thesis using sum_items_put[of "del b k" k f v] by (simp add: get_eq)
qed

lemma sum_items_cong:
  "(\<And>k v. get b k = Some v \<Longrightarrow> f (k, v) = g (k, v)) \<Longrightarrow>
    sum_list (map f (items b)) = sum_list (map g (items b))"
  by (intro arg_cong[where f = sum_list] map_cong refl) (auto simp: mem_items_iff)

end

interpretation kv: kv_bucket bucketGet bucketPut bucketDelete entries
proof unfold_locales
  fix b c k v
  show "bucketGet (bucketPut b k v) = (bucketGet b)(k \<mapsto> v)"
    by (simp add: bucketGet_def fun_eq_iff entries_put map_of_upd_entry)
  show "bucketGet (bucketDelete b k) = (bucketGet b)(k := None)"
    by (simp add: bucketGet_def fun_eq_iff entries_delete map_of_del_entry)
  show "bucketGet b = map_of (entries b)" by (simp add: bucketGet_def fun_eq_iff)
  show "keys_sorted (entries b)" by simp
  assume "bucketGet b = bucketGet c"
  then have "map_of (entries b) = map_of (entries c)" by (simp add: bucketGet_def fun_eq_iff)
  then show "b = c" using keys_sorted_unique[OF keys_sorted_entries keys_sorted_entries] by (simp add: bucket_eq_iff)
qed

lemma bucketGet_empty [simp]: "bucketGet bucketEmpty k = None"
  by (simp add: bucketGet_def)

lemmas bucketGet_upd = kv.get_put kv.get_del

declare kv.get_eq [simp]

section \<open>Cursors\<close>

record cursor =
  curBucket :: bucket
  curPos :: bytes

definition readCursor :: "bucket \<Rightarrow> cursor" where
  "readCursor b = \<lparr>curBucket = b, curPos = []\<rparr>"

definition cursorFirst :: "cursor \<Rightarrow> entry option \<times> cursor" where
  "cursorFirst c = (case entries (curBucket c) of
     [] \<Rightarrow> (None, c)
   | e # _ \<Rightarrow> (Some e, c\<lparr>curPos := fst e\<rparr>))"

definition cursorSeek :: "cursor \<Rightarrow> bytes \<Rightarrow> entry option \<times> cursor" where
  "cursorSeek c s = (case find (\<lambda>e. s \<le> fst e) (entries (curBucket c)) of
     None \<Rightarrow> (None, c\<lparr>curPos := s\<rparr>)
   | Some e \<Rightarrow> (Some e, c\<lparr>curPos := fst e\<rparr>))"

definition cursorNext :: "cursor \<Rightarrow> entry option \<times> cursor" where
  "cursorNext c = (case find (\<lambda>e. curPos c < fst e) (entries (curBucket c)) of
     None \<Rightarrow> (None, c)
   | Some e \<Rightarrow> (Some e, c\<lparr>curPos := fst e\<rparr>))"

definition cursorPrev :: "cursor \<Rightarrow> entry option \<times> cursor" where
  "cursorPrev c = (case find (\<lambda>e. fst e < curPos c) (rev (entries (curBucket c))) of
     None \<Rightarrow> (None, c)
   | Some e \<Rightarrow> (Some e, c\<lparr>curPos := fst e\<rparr>))"

text \<open>What is still ahead of, or behind, a position.\<close>

definition entries_from :: "bucket \<Rightarrow> bytes \<Rightarrow> entry list" where
  "entries_from b s = filter (\<lambda>e. s \<le> fst e) (entries b)"
definition entries_after :: "bucket \<Rightarrow> bytes \<Rightarrow> entry list" where
  "entries_after b s = filter (\<lambda>e. s < fst e) (entries b)"
definition entries_before :: "bucket \<Rightarrow> bytes \<Rightarrow> entry list" where
  "entries_before b s = filter (\<lambda>e. fst e < s) (rev (entries b))"

lemma find_filter: "find P xs = (case filter P xs of [] \<Rightarrow> None | x # _ \<Rightarrow> Some x)"
  by (induction xs) auto

lemma cursorSeek_eq: "cursorSeek c s = (case entries_from (curBucket c) s of
     [] \<Rightarrow> (None, c\<lparr>curPos := s\<rparr>) | e # _ \<Rightarrow> (Some e, c\<lparr>curPos := fst e\<rparr>))"
  by (simp add: cursorSeek_def entries_from_def find_filter split: list.splits)

lemma cursorNext_eq: "cursorNext c = (case entries_after (curBucket c) (curPos c) of
     [] \<Rightarrow> (None, c) | e # _ \<Rightarrow> (Some e, c\<lparr>curPos := fst e\<rparr>))"
  by (simp add: cursorNext_def entries_after_def find_filter split: list.splits)

lemma cursorPrev_eq: "cursorPrev c = (case entries_before (curBucket c) (curPos c) of
     [] \<Rightarrow> (None, c) | e # _ \<Rightarrow> (Some e, c\<lparr>curPos := fst e\<rparr>))"
  by (simp add: cursorPrev_def entries_before_def find_filter split: list.splits)

lemma filter_tail_sorted:
  "keys_sorted es \<Longrightarrow> filter P es = e # fs \<Longrightarrow>
    fs = filter (\<lambda>e'. P e' \<and> fst e < fst e') es"
proof (induction es)
  case (Cons x xs)
  show ?case
  proof (cases "P x")
    case True
    with Cons.prems have ex: "e = x" and fs: "fs = filter P xs" by auto
    have "\<forall>y \<in> set xs. fst x < fst y" using Cons.prems(1) by (auto simp: keys_sorted_def)
    then have "filter (\<lambda>e'. P e' \<and> fst x < fst e') xs = filter P xs"
      by (intro filter_cong) auto
    then show ?thesis by (simp add: ex fs)
  next
    case False
    with Cons.prems have "filter P xs = e # fs" "keys_sorted xs" by (auto simp: keys_sorted_def)
    with Cons.IH False show ?thesis by auto
  qed
qed simp

lemma entries_after_tail:
  assumes "entries_after b s = e # es" shows "entries_after b (fst e) = es"
proof -
  have "es = filter (\<lambda>e'. s < fst e' \<and> fst e < fst e') (entries b)"
    using filter_tail_sorted[OF keys_sorted_entries, of "\<lambda>e. s < fst e" b e es] assms
    by (simp add: entries_after_def)
  moreover have "s < fst e" using assms by (auto simp: entries_after_def filter_eq_Cons_iff)
  ultimately show ?thesis unfolding entries_after_def by (auto intro!: filter_cong)
qed

lemma entries_from_tail:
  assumes "entries_from b s = e # es" shows "entries_after b (fst e) = es"
proof -
  have "es = filter (\<lambda>e'. s \<le> fst e' \<and> fst e < fst e') (entries b)"
    using filter_tail_sorted[OF keys_sorted_entries, of "\<lambda>e. s \<le> fst e" b e es] assms
    by (simp add: entries_from_def)
  moreover have "s \<le> fst e" using assms by (auto simp: entries_from_def filter_eq_Cons_iff)
  ultimately show ?thesis unfolding entries_after_def by (auto intro!: filter_cong)
qed

lemma entries_before_tail:
  assumes "entries_before b s = e # es" shows "entries_before b (fst e) = es"
proof -
  have "filter P (rev es') = e # fs \<Longrightarrow> keys_sorted es' \<Longrightarrow>
      fs = filter (\<lambda>e'. P e' \<and> fst e' < fst e) (rev es')" for P es' fs
  proof (induction es' rule: rev_induct)
    case (snoc x xs)
    have ks: "keys_sorted xs" and lt: "\<forall>y \<in> set xs. fst y < fst x"
      using snoc.prems(2) by (auto simp: keys_sorted_def sorted_wrt_append)
    show ?case
    proof (cases "P x")
      case True
      with snoc.prems have "e = x" "fs = filter P (rev xs)" by auto
      moreover have "filter (\<lambda>e'. P e' \<and> fst e' < fst x) (rev xs) = filter P (rev xs)"
        using lt by (intro filter_cong) auto
      ultimately show ?thesis by simp
    next
      case False
      with snoc ks show ?thesis by auto
    qed
  qed simp
  from this[of "\<lambda>e. fst e < s" "entries b" es] assms
  have "es = filter (\<lambda>e'. fst e' < s \<and> fst e' < fst e) (rev (entries b))"
    by (simp add: entries_before_def)
  moreover have "fst e < s" using assms by (auto simp: entries_before_def filter_eq_Cons_iff)
  ultimately show ?thesis unfolding entries_before_def by (auto intro!: filter_cong)
qed

text \<open>Scanning by prefix from the prefix itself visits exactly the keys that carry it.\<close>

lemma takeWhile_sorted_convex:
  assumes "sorted_wrt (<) (map fst (es :: entry list))"
    and "\<And>e e'. e \<in> set es \<Longrightarrow> e' \<in> set es \<Longrightarrow> fst e \<le> fst e' \<Longrightarrow> P e' \<Longrightarrow> P e"
  shows "takeWhile P es = filter P es"
  using assms
proof (induction es)
  case (Cons x xs)
  show ?case
  proof (cases "P x")
    case True
    have "sorted_wrt (<) (map fst xs)" using Cons.prems(1) by simp
    then have "takeWhile P xs = filter P xs"
      by (rule Cons.IH) (rule Cons.prems(2), simp_all)
    with True show ?thesis by simp
  next
    case False
    have "\<not> P y" if "y \<in> set xs" for y
    proof -
      have "fst x \<le> fst y" using Cons.prems(1) that by (simp add: less_imp_le)
      then show ?thesis using Cons.prems(2)[of x y] that False by (meson list.set_intros)
    qed
    then show ?thesis using False by (auto simp: filter_empty_conv)
  qed
qed simp

definition prefix_entries :: "bucket \<Rightarrow> bytes \<Rightarrow> entry list" where
  "prefix_entries b p = filter (\<lambda>e. hasPrefix (fst e) p) (entries b)"

lemma takeWhile_prefix_from:
  "takeWhile (\<lambda>e. hasPrefix (fst e) p) (entries_from b p) = prefix_entries b p"
proof -
  have srt: "sorted_wrt (<) (map fst (entries_from b p))"
    using keys_sorted_entries[of b] unfolding keys_sorted_def entries_from_def sorted_wrt_map
    by (rule sorted_wrt_filter)
  have "takeWhile (\<lambda>e. hasPrefix (fst e) p) (entries_from b p)
      = filter (\<lambda>e. hasPrefix (fst e) p) (entries_from b p)"
    by (rule takeWhile_sorted_convex[OF srt])
      (auto simp: entries_from_def intro: hasPrefix_convex)
  also have "\<dots> = prefix_entries b p"
    unfolding entries_from_def prefix_entries_def filter_filter
    by (intro filter_cong refl) (auto dest: hasPrefix_ge)
  finally show ?thesis .
qed

end
