(* ===== verification/Tx_Types.thy ===== *)
theory Tx_Types
  imports Bucket
begin

text \<open>
  The data types of package \<open>wtxmgr\<close> (tx.go, query.go, error.go) and the parts of the
  \<open>wire\<close>, \<open>chainhash\<close> and \<open>chainutil\<close> types it reads.  A 32-byte hash is a
  256-bit word (its big-endian bytes are the array), an \<open>int32\<close> height and a \<open>uint32\<close>
  index are 32-bit words (heights are compared as signed), an \<open>Amount\<close> is a 64-bit word
  with Go's wrap-around.  The embedded structs of Go are fields here.

  \<open>env\<close> collects what the package calls but does not define: the transaction codec and the
  coinbase test of go-flokicoin, the clock, the chain parameter used, and the writes the database
  may refuse.
\<close>

section \<open>Errors\<close>

datatype errorCode =
    ErrDatabase
  | ErrData
  | ErrInput
  | ErrAlreadyExists
  | ErrNoExists
  | ErrNeedsUpgrade
  | ErrUnknownVersion

text \<open>
  The errors of the package. \<open>StoreErr\<close> is the struct \<open>Error\<close> without its message;
  \<open>DbErr\<close> is an error of the database passed on unwrapped, \<open>GoPanic\<close> a run-time panic
  (index or slice out of range) and \<open>GoDiverges\<close> a recursion that does not return.
\<close>

datatype goerr =
    StoreErr errorCode
  | ErrEmptyLabel
  | ErrLabelTooLong
  | ErrNoLabelBucket
  | ErrTxLabelNotFound
  | ErrUnknownOutput
  | ErrOutputAlreadyLocked
  | ErrOutputUnlockNotAllowed
  | ErrDuplicateTx
  | ErrReversion
  | DbErr
  | CallbackErr nat
  | GoPanic
  | GoDiverges

definition storeError :: "errorCode \<Rightarrow> goerr" where
  "storeError c = StoreErr c"

definition IsNoExists :: "goerr \<Rightarrow> bool" where
  "IsNoExists e = (case e of StoreErr c \<Rightarrow> c = ErrNoExists | _ \<Rightarrow> False)"

type_synonym 'a res = "goerr + 'a"

section \<open>Chain data\<close>

type_synonym hash = "256 word"
type_synonym amount = "64 word"
type_synonym u32 = "32 word"
type_synonym height = "32 word"

definition hashBytes :: "hash \<Rightarrow> bytes" where
  "hashBytes h = nat_be 32 (unat h)"

definition hashOf :: "bytes \<Rightarrow> hash" where
  "hashOf bs = word_of_nat (be_nat (copyN 32 bs))"

lemma length_hashBytes [simp, codec_simps]: "length (hashBytes h) = 32"
  by (simp add: hashBytes_def)

lemma hashOf_hashBytes [simp]: "hashOf (hashBytes h) = h"
proof -
  have "unat h mod 256 ^ 32 = unat h" using unsigned_less[of h, where ?'a = nat] by simp
  then show ?thesis by (simp add: hashOf_def hashBytes_def)
qed

lemma hashOf_append [simp]: "hashOf (hashBytes h @ r) = h"
proof -
  have "copyN 32 (hashBytes h @ r) = hashBytes h" by (simp add: copyN_def)
  then show ?thesis using hashOf_hashBytes[of h] by (simp add: hashOf_def)
qed

lemma hashBytes_hashOf [simp]: "length bs = 32 \<Longrightarrow> hashBytes (hashOf bs) = bs"
proof -
  assume l: "length bs = 32"
  then have "unat (word_of_nat (be_nat bs) :: hash) = be_nat bs"
    using be_nat_less[of bs] by (simp add: unat_of_nat)
  then show ?thesis using l nat_be_be_nat[of bs] by (simp add: hashBytes_def hashOf_def)
qed

lemma hashBytes_inj [simp]: "hashBytes a = hashBytes b \<longleftrightarrow> a = b"
  by (metis hashOf_hashBytes)

record outPoint =
  opHash :: hash
  opIndex :: u32

record txIn =
  PreviousOutPoint :: outPoint
  SignatureScript :: bytes
  Witness :: "bytes list"
  Sequence :: u32

record txOut =
  Value :: amount
  PkScript :: bytes

record msgTx =
  Version :: u32
  TxIn :: "txIn list"
  TxOut :: "txOut list"
  LockTime :: u32

section \<open>Records of the store\<close>

record block =
  bHash :: hash
  bHeight :: height

record blockMeta =
  metaBlock :: block
  metaTime :: gotime

record blockRecord =
  recBlock :: block
  recTime :: gotime
  recTransactions :: "hash list"

record indexedIncidence =
  incTxHash :: hash
  incBlock :: block
  incIndex :: u32

record credit =
  credOutPoint :: outPoint
  credBlock :: block
  credAmount :: amount
  credChange :: bool
  credSpentBy :: indexedIncidence

record txRecord =
  MsgTx :: msgTx
  Hash :: hash
  Received :: gotime
  SerializedTx :: "bytes option"

type_synonym lockID = hash

record lockedOutput =
  lockOutpoint :: outPoint
  lockLockID :: lockID
  lockExpiration :: gotime

record creditInfo =
  ciOutPoint :: outPoint
  ciBlockMeta :: blockMeta
  ciAmount :: amount
  ciPkScript :: bytes
  ciReceived :: gotime
  ciFromCoinBase :: bool

record creditRecord =
  crAmount :: amount
  crIndex :: u32
  crSpent :: bool
  crChange :: bool

record debitRecord =
  drAmount :: amount
  drIndex :: u32

record txDetails =
  tdTxRecord :: txRecord
  tdBlock :: blockMeta
  tdCredits :: "creditRecord list"
  tdDebits :: "debitRecord list"
  tdLabel :: bytes

section \<open>What the package is given\<close>

datatype bname = Root | Blocks | TxRecords | TxLabels | Credits | Unspent | Debits | Unmined
  | UnminedCredits | UnminedInputs | LockedOutputs

datatype dbOp = DbPut bname bytes bytes | DbDelete bname bytes | DbCreate bname | DbDrop bname

record env =
  dbFails :: "dbOp \<Rightarrow> bool"
  serializeTx :: "msgTx \<Rightarrow> bytes option"
  deserializeTx :: "bytes \<Rightarrow> msgTx option"
  txHashOf :: "msgTx \<Rightarrow> hash"
  doubleHash :: "bytes \<Rightarrow> hash"
  isCoinBaseTx :: "msgTx \<Rightarrow> bool"
  clockNow :: gotime
  coinbaseMaturity :: "16 word"

text \<open>The database accepts every write.\<close>

definition db_ok :: "env \<Rightarrow> bool" where
  "db_ok E \<longleftrightarrow> (\<forall>op. \<not> dbFails E op)"

text \<open>Deserialising what was serialised gives the transaction back.\<close>

definition wire_ok :: "env \<Rightarrow> bool" where
  "wire_ok E \<longleftrightarrow> (\<forall>tx bs. serializeTx E tx = Some bs \<longrightarrow> deserializeTx E bs = Some tx)"

text \<open>
  \<open>rec.MsgTx.Deserialize\<close> reads the memoised bytes of a record back to its message: what
  \<open>NewTxRecord\<close> and \<open>NewTxRecordFromMsgTx\<close> establish.
\<close>

definition rec_ok :: "env \<Rightarrow> txRecord \<Rightarrow> bool" where
  "rec_ok E r \<longleftrightarrow> (case SerializedTx r of
      Some bs \<Rightarrow> deserializeTx E bs = Some (MsgTx r)
    | None \<Rightarrow> (\<exists>bs. serializeTx E (MsgTx r) = Some bs \<and> deserializeTx E bs = Some (MsgTx r)))"

definition NewTxRecord :: "env \<Rightarrow> bytes \<Rightarrow> gotime \<Rightarrow> txRecord res" where
  "NewTxRecord E serializedTx received =
     (case deserializeTx E serializedTx of
        None \<Rightarrow> Inl (storeError ErrInput)
      | Some tx \<Rightarrow> Inr \<lparr>MsgTx = tx, Hash = doubleHash E serializedTx, Received = received,
                       SerializedTx = Some serializedTx\<rparr>)"

definition NewTxRecordFromMsgTx :: "env \<Rightarrow> msgTx \<Rightarrow> gotime \<Rightarrow> txRecord res" where
  "NewTxRecordFromMsgTx E msgTx received =
     (case serializeTx E msgTx of
        None \<Rightarrow> Inl (storeError ErrInput)
      | Some buf \<Rightarrow> Inr \<lparr>MsgTx = msgTx, Hash = txHashOf E msgTx, Received = received,
                       SerializedTx = Some buf\<rparr>)"

lemma NewTxRecord_ok: "NewTxRecord E bs t = Inr r \<Longrightarrow> rec_ok E r"
  by (auto simp: NewTxRecord_def rec_ok_def split: option.splits)

lemma NewTxRecordFromMsgTx_ok: "wire_ok E \<Longrightarrow> NewTxRecordFromMsgTx E tx t = Inr r \<Longrightarrow> rec_ok E r"
  by (auto simp: NewTxRecordFromMsgTx_def rec_ok_def wire_ok_def split: option.splits)

end
