(* ===== verification/Author.thy ===== *)
theory Author
  imports Tx_Types "HOL-Library.Multiset"
begin

text \<open>
  Authoring of transactions: \<open>wallet/txsizes\<close> (worst-case sizes), \<open>wallet/txrules\<close>
  (fees and output checks), \<open>wallet/txauthor\<close> (input selection and change) and the input
  sources and coin arrangements of \<open>wallet/createtx.go\<close>.  Amounts are \<open>int64\<close>, that is
  64-bit words read as signed numbers, so their wrap-around is that of Go; sizes are Go's
  \<open>int\<close>, here unbounded integers.  What the \<open>wire\<close>, \<open>txscript\<close>,
  \<open>mempool\<close> and \<open>chainutil\<close> packages of go-flokicoin supply is the record
  \<open>wireLib\<close>.
\<close>

record wireLib =
  VarIntSerializeSize :: "nat \<Rightarrow> int"
  TxOutSerializeSize :: "txOut \<Rightarrow> int"
  NewTxOut :: "amount \<Rightarrow> bytes \<Rightarrow> txOut"
  NewTxIn :: "outPoint \<Rightarrow> txIn"
  TxVersion :: u32
  IsPayToScriptHash :: "bytes \<Rightarrow> bool"
  IsPayToWitnessPubKeyHash :: "bytes \<Rightarrow> bool"
  IsPayToTaproot :: "bytes \<Rightarrow> bool"
  isNullData :: "bytes \<Rightarrow> bool"
  mempoolIsDust :: "txOut \<Rightarrow> amount \<Rightarrow> bool"
  MaxLoki :: amount
  WitnessScaleFactor :: int

text \<open>Go's \<open>/\<close> on integers truncates towards zero; on \<open>int64\<close> it wraps.\<close>

definition goDiv :: "int \<Rightarrow> int \<Rightarrow> int" where
  "goDiv a b = sgn a * sgn b * (\<bar>a\<bar> div \<bar>b\<bar>)"

definition quot64 :: "amount \<Rightarrow> int \<Rightarrow> amount" where
  "quot64 a b = word_of_int (goDiv (sint a) b)"

section \<open>Sizes\<close>

definition RedeemP2PKHSigScriptSize :: int where "RedeemP2PKHSigScriptSize = 1 + 73 + 1 + 33"
definition P2PKHPkScriptSize :: int where "P2PKHPkScriptSize = 1 + 1 + 1 + 20 + 1 + 1"
definition RedeemP2PKHInputSize :: int where
  "RedeemP2PKHInputSize = 32 + 4 + 1 + RedeemP2PKHSigScriptSize + 4"
definition P2PKHOutputSize :: int where "P2PKHOutputSize = 8 + 1 + P2PKHPkScriptSize"
definition P2WPKHPkScriptSize :: int where "P2WPKHPkScriptSize = 1 + 1 + 20"
definition P2WPKHOutputSize :: int where "P2WPKHOutputSize = 8 + 1 + P2WPKHPkScriptSize"
definition RedeemP2WPKHScriptSize :: int where "RedeemP2WPKHScriptSize = 0"
definition RedeemP2WPKHInputSize :: int where
  "RedeemP2WPKHInputSize = 32 + 4 + 1 + RedeemP2WPKHScriptSize + 4"
definition P2TRPkScriptSize :: int where "P2TRPkScriptSize = 1 + 1 + 32"
definition P2TROutputSize :: int where "P2TROutputSize = 8 + 1 + P2TRPkScriptSize"
definition RedeemP2TRScriptSize :: int where "RedeemP2TRScriptSize = 0"
definition RedeemP2TRInputSize :: int where
  "RedeemP2TRInputSize = 32 + 4 + 1 + RedeemP2TRScriptSize + 4"
definition NestedP2WPKHPkScriptSize :: int where "NestedP2WPKHPkScriptSize = 1 + 1 + 20 + 1"
definition RedeemNestedP2WPKHScriptSize :: int where "RedeemNestedP2WPKHScriptSize = 1 + 1 + 1 + 20"
definition RedeemNestedP2WPKHInputSize :: int where
  "RedeemNestedP2WPKHInputSize = 32 + 4 + 1 + RedeemNestedP2WPKHScriptSize + 4"
definition RedeemP2WPKHInputWitnessWeight :: int where
  "RedeemP2WPKHInputWitnessWeight = 1 + 1 + 73 + 1 + 33"
definition RedeemP2TRInputWitnessWeight :: int where "RedeemP2TRInputWitnessWeight = 1 + 1 + 65"

lemmas size_consts = RedeemP2PKHSigScriptSize_def P2PKHPkScriptSize_def RedeemP2PKHInputSize_def
  P2PKHOutputSize_def P2WPKHPkScriptSize_def P2WPKHOutputSize_def RedeemP2WPKHScriptSize_def
  RedeemP2WPKHInputSize_def P2TRPkScriptSize_def P2TROutputSize_def RedeemP2TRScriptSize_def
  RedeemP2TRInputSize_def NestedP2WPKHPkScriptSize_def RedeemNestedP2WPKHScriptSize_def
  RedeemNestedP2WPKHInputSize_def RedeemP2WPKHInputWitnessWeight_def RedeemP2TRInputWitnessWeight_def

text \<open>\<open>uint64(n)\<close> of a Go \<open>int\<close>.\<close>

definition varInt :: "wireLib \<Rightarrow> int \<Rightarrow> int" where
  "varInt W n = VarIntSerializeSize W (nat (n mod 2 ^ 64))"

definition SumOutputSerializeSizes :: "wireLib \<Rightarrow> txOut list \<Rightarrow> int" where
  "SumOutputSerializeSizes W outputs = foldl (\<lambda>s txOut. s + TxOutSerializeSize W txOut) 0 outputs"

definition EstimateInputSize :: "wireLib \<Rightarrow> int \<Rightarrow> int" where
  "EstimateInputSize W scriptSize = 32 + 4 + varInt W scriptSize + scriptSize + 4"

definition EstimateOutputSize :: "wireLib \<Rightarrow> int \<Rightarrow> int" where
  "EstimateOutputSize W scriptSize = 8 + varInt W scriptSize + scriptSize"

definition EstimateSerializeSizeFromScriptSizes :: "wireLib \<Rightarrow> int list \<Rightarrow> int list \<Rightarrow> int \<Rightarrow> int" where
  "EstimateSerializeSizeFromScriptSizes W inputSizes outputSizes changeScriptSize =
     (let txInsSize = foldl (\<lambda>s n. s + EstimateInputSize W n) 0 inputSizes;
          txOutsSize = foldl (\<lambda>s n. s + EstimateOutputSize W n) 0 outputSizes;
          inputCount = int (length inputSizes);
          (changeSize, outputCount) =
            (if changeScriptSize > 0
             then (EstimateOutputSize W changeScriptSize, int (length outputSizes) + 1)
             else (0, int (length outputSizes)))
      in 12 + 2 * varInt W inputCount + varInt W outputCount + txInsSize + txOutsSize + changeSize)"

definition EstimateSerializeSize :: "wireLib \<Rightarrow> int \<Rightarrow> txOut list \<Rightarrow> bool \<Rightarrow> int" where
  "EstimateSerializeSize W inputCount txOuts addChangeOutput =
     (let (changeSize, outputCount) =
            (if addChangeOutput then (P2PKHOutputSize, int (length txOuts) + 1)
             else (0, int (length txOuts)))
      in 8 + varInt W inputCount + varInt W outputCount + inputCount * RedeemP2PKHInputSize +
         SumOutputSerializeSizes W txOuts + changeSize)"

definition EstimateVirtualSize ::
    "wireLib \<Rightarrow> int \<Rightarrow> int \<Rightarrow> int \<Rightarrow> int \<Rightarrow> txOut list \<Rightarrow> int \<Rightarrow> int" where
  "EstimateVirtualSize W numP2PKHIns numP2TRIns numP2WPKHIns numNestedP2WPKHIns txOuts changeScriptSize =
     (let changeOutputSize = (if changeScriptSize > 0
            then 8 + varInt W changeScriptSize + changeScriptSize else 0);
          baseSize = 8 + varInt W (numP2PKHIns + numP2TRIns + numP2WPKHIns + numNestedP2WPKHIns)
            + varInt W (int (length txOuts))
            + numP2PKHIns * RedeemP2PKHInputSize + numP2WPKHIns * RedeemP2WPKHInputSize
            + numP2TRIns * RedeemP2TRInputSize + numNestedP2WPKHIns * RedeemNestedP2WPKHInputSize
            + SumOutputSerializeSizes W txOuts + changeOutputSize;
          witnessWeight = (if numP2WPKHIns + numNestedP2WPKHIns + numP2TRIns > 0
            then 2 + varInt W (numP2WPKHIns + numNestedP2WPKHIns + numP2TRIns)
              + numP2WPKHIns * RedeemP2WPKHInputWitnessWeight
              + numP2TRIns * RedeemP2TRInputWitnessWeight
              + numNestedP2WPKHIns * RedeemP2WPKHInputWitnessWeight
            else 0)
      in baseSize + goDiv (witnessWeight + 3) (WitnessScaleFactor W))"

definition GetMinInputVirtualSize :: "wireLib \<Rightarrow> bytes \<Rightarrow> int" where
  "GetMinInputVirtualSize W pkScript =
     (let (baseSize, witnessWeight) =
            (if IsPayToScriptHash W pkScript
             then (RedeemNestedP2WPKHInputSize, RedeemP2WPKHInputWitnessWeight)
             else if IsPayToWitnessPubKeyHash W pkScript
             then (RedeemP2WPKHInputSize, RedeemP2WPKHInputWitnessWeight)
             else if IsPayToTaproot W pkScript
             then (RedeemP2TRInputSize, RedeemP2TRInputWitnessWeight)
             else (RedeemP2PKHInputSize, 0))
      in baseSize + goDiv (witnessWeight + WitnessScaleFactor W - 1) (WitnessScaleFactor W))"

section \<open>Rules\<close>

datatype authorErr = ErrAmountNegative | ErrAmountExceedsMax | ErrOutputIsDust
  | InsufficientFunds | SourceError nat | ErrDuplicateSelected | ErrNotEligible outPoint | LoopForever

definition DefaultRelayFeePerKb :: amount where "DefaultRelayFeePerKb = 1000"

definition IsDustAmount :: "wireLib \<Rightarrow> amount \<Rightarrow> int \<Rightarrow> amount \<Rightarrow> bool" where
  "IsDustAmount W amt scriptSize relayFeePerKb \<longleftrightarrow>
     (let totalSize = 8 + 2 + varInt W scriptSize + scriptSize + 165
      in quot64 (amt * 1000) (sint (3 * word_of_int totalSize :: amount)) <s relayFeePerKb)"

definition IsDustOutput :: "wireLib \<Rightarrow> txOut \<Rightarrow> amount \<Rightarrow> bool" where
  "IsDustOutput W output relayFeePerKb =
     (if isNullData W (PkScript output) then False else mempoolIsDust W output relayFeePerKb)"

definition CheckOutput :: "wireLib \<Rightarrow> txOut \<Rightarrow> amount \<Rightarrow> authorErr + unit" where
  "CheckOutput W output relayFeePerKb =
     (if Value output <s 0 then Inl ErrAmountNegative
      else if MaxLoki W <s Value output then Inl ErrAmountExceedsMax
      else if IsDustOutput W output relayFeePerKb then Inl ErrOutputIsDust
      else Inr ())"

definition FeeForSerializeSize :: "wireLib \<Rightarrow> amount \<Rightarrow> int \<Rightarrow> amount" where
  "FeeForSerializeSize W relayFeePerKb txSerializeSize =
     (let fee = quot64 (relayFeePerKb * word_of_int txSerializeSize) 1000;
          fee = (if fee = 0 \<and> 0 <s relayFeePerKb then relayFeePerKb else fee)
      in if fee <s 0 \<or> MaxLoki W <s fee then MaxLoki W else fee)"

lemma fee_bounds:
  assumes "0 <s MaxLoki W"
  shows "0 \<le>s FeeForSerializeSize W rate sz \<and> FeeForSerializeSize W rate sz \<le>s MaxLoki W
    \<and> (0 <s rate \<longrightarrow> 0 <s FeeForSerializeSize W rate sz)"
proof -
  have nz: "f \<noteq> 0 \<Longrightarrow> \<not> sint f < 0 \<Longrightarrow> 0 < sint f" for f :: amount
    using signed_eq_0_iff[of f, where ?'a = int] by linarith
  show ?thesis using assms nz
    by (auto simp: FeeForSerializeSize_def Let_def word_sless_alt word_sle_eq sint_0)
qed

text \<open>The fee is never negative and never above the money supply, and a positive fee rate gives
  a positive fee, whatever the size, even when the product of rate and size overflows.\<close>

lemma FeeForSerializeSize_bounds:
  assumes "0 <s MaxLoki W"
  shows "0 \<le>s FeeForSerializeSize W rate sz \<and> FeeForSerializeSize W rate sz \<le>s MaxLoki W
    \<and> (0 <s rate \<longrightarrow> 0 <s FeeForSerializeSize W rate sz)"
  by (rule fee_bounds[OF assms])

text \<open>\<open>CheckOutput\<close> accepts exactly the outputs whose value is between zero and the money
  supply and that are not dust.\<close>

lemma CheckOutput_iff:
  "CheckOutput W output rate = Inr () \<longleftrightarrow> 0 \<le>s Value output \<and> Value output \<le>s MaxLoki W
     \<and> \<not> (\<not> isNullData W (PkScript output) \<and> mempoolIsDust W output rate)"
  by (auto simp: CheckOutput_def IsDustOutput_def word_sless_alt word_sle_eq sint_0)

section \<open>Authoring a transaction\<close>

definition SumOutputValues :: "txOut list \<Rightarrow> amount" where
  "SumOutputValues outputs = foldl (\<lambda>total txOut. total + Value txOut) 0 outputs"

lemma foldl_sum: "foldl (\<lambda>total x. total + f x) a xs = (a :: 'a :: comm_monoid_add) + sum_list (map f xs)"
  by (induction xs arbitrary: a) (auto simp: add.assoc)

lemma SumOutputValues_sum: "SumOutputValues outputs = sum_list (map Value outputs)"
  by (simp add: SumOutputValues_def foldl_sum)

record authoredTx =
  Tx :: msgTx
  PrevScripts :: "bytes list"
  PrevInputValues :: "amount list"
  TotalInput :: amount
  ChangeIndex :: int

text \<open>An input source: given its state and a target it returns its new state, the total, the inputs,
  their values and the scripts they redeem.\<close>

type_synonym fetched = "amount \<times> txIn list \<times> amount list \<times> bytes list"
type_synonym 's inputSource = "'s \<Rightarrow> amount \<Rightarrow> authorErr + 's \<times> fetched"

text \<open>The four counters of the loop over the scripts: p2pkh, p2tr, p2wpkh, nested.\<close>

definition countScripts :: "wireLib \<Rightarrow> bytes list \<Rightarrow> int \<times> int \<times> int \<times> int" where
  "countScripts W scripts = foldl (\<lambda>(p2pkh, p2tr, p2wpkh, nested) pkScript.
      if IsPayToScriptHash W pkScript then (p2pkh, p2tr, p2wpkh, nested + 1)
      else if IsPayToWitnessPubKeyHash W pkScript then (p2pkh, p2tr, p2wpkh + 1, nested)
      else if IsPayToTaproot W pkScript then (p2pkh, p2tr + 1, p2wpkh, nested)
      else (p2pkh + 1, p2tr, p2wpkh, nested)) (0, 0, 0, 0) scripts"

text \<open>\<open>maxRequiredFee\<close> for a selection of inputs.\<close>

definition requiredFee :: "wireLib \<Rightarrow> txOut list \<Rightarrow> amount \<Rightarrow> int \<Rightarrow> bytes list \<Rightarrow> amount" where
  "requiredFee W outputs feeRatePerKb scriptSize scripts =
     (case countScripts W scripts of (p2pkh, p2tr, p2wpkh, nested) \<Rightarrow>
        FeeForSerializeSize W feeRatePerKb
          (EstimateVirtualSize W p2pkh p2tr p2wpkh nested outputs scriptSize))"

text \<open>
  The loop that \<open>NewUnsignedTransaction\<close> and \<open>CalculateTransactionFee\<close> share: fetch
  inputs for the target and the current fee, and start over with the required fee of that selection
  when what remains does not cover it.  \<open>None\<close> is a loop that never ends.
\<close>

partial_function (option) authorLoop :: "wireLib \<Rightarrow> txOut list \<Rightarrow> amount \<Rightarrow> int \<Rightarrow> 's inputSource \<Rightarrow>
    amount \<Rightarrow> 's \<Rightarrow> (authorErr + fetched \<times> amount) option" where
  "authorLoop W outputs feeRatePerKb scriptSize fetchInputs targetFee s =
     (let targetAmount = SumOutputValues outputs in
      case fetchInputs s (targetAmount + targetFee) of
        Inl e \<Rightarrow> Some (Inl e)
      | Inr (s, inputAmount, inputs, inputValues, scripts) \<Rightarrow>
          if inputAmount <s targetAmount + targetFee then Some (Inl InsufficientFunds)
          else
            let maxRequiredFee = requiredFee W outputs feeRatePerKb scriptSize scripts;
                remainingAmount = inputAmount - targetAmount
            in if remainingAmount <s maxRequiredFee
               then authorLoop W outputs feeRatePerKb scriptSize fetchInputs maxRequiredFee s
               else Some (Inr ((inputAmount, inputs, inputValues, scripts), maxRequiredFee)))"

definition initialFee :: "wireLib \<Rightarrow> txOut list \<Rightarrow> amount \<Rightarrow> int \<Rightarrow> amount" where
  "initialFee W outputs feeRatePerKb scriptSize =
     FeeForSerializeSize W feeRatePerKb (EstimateVirtualSize W 0 0 1 0 outputs scriptSize)"

definition NewUnsignedTransaction :: "wireLib \<Rightarrow> txOut list \<Rightarrow> amount \<Rightarrow> 's inputSource \<Rightarrow> 's \<Rightarrow>
    int \<Rightarrow> authorErr + bytes \<Rightarrow> (authorErr + authoredTx) option" where
  "NewUnsignedTransaction W outputs feeRatePerKb fetchInputs s scriptSize newScript =
     (case authorLoop W outputs feeRatePerKb scriptSize fetchInputs
             (initialFee W outputs feeRatePerKb scriptSize) s of
        None \<Rightarrow> None
      | Some r \<Rightarrow> Some (bindE r (\<lambda>((inputAmount, inputs, inputValues, scripts), maxRequiredFee).
          let changeAmount = inputAmount - SumOutputValues outputs - maxRequiredFee in
          bindE newScript (\<lambda>changeScript.
          let change = NewTxOut W changeAmount changeScript;
              (txOut, changeIndex) =
                (if changeAmount \<noteq> 0 \<and> \<not> IsDustOutput W change DefaultRelayFeePerKb
                 then (outputs @ [change], int (length outputs)) else (outputs, - 1))
          in Inr \<lparr>Tx = \<lparr>Version = TxVersion W, TxIn = inputs, TxOut = txOut, LockTime = 0\<rparr>,
                  PrevScripts = scripts, PrevInputValues = inputValues,
                  TotalInput = inputAmount, ChangeIndex = changeIndex\<rparr>))))"

definition CalculateTransactionFee :: "wireLib \<Rightarrow> txOut list \<Rightarrow> amount \<Rightarrow> 's inputSource \<Rightarrow> 's \<Rightarrow>
    int \<Rightarrow> (authorErr + amount) option" where
  "CalculateTransactionFee W outputs feeRatePerKb fetchInputs s scriptSize =
     map_option (\<lambda>r. bindE r (\<lambda>(_, maxRequiredFee). Inr maxRequiredFee))
       (authorLoop W outputs feeRatePerKb scriptSize fetchInputs
          (initialFee W outputs feeRatePerKb scriptSize) s)"

text \<open>\<open>r\<close> is the number drawn by \<open>cprng.Int31n(len(outputs))\<close>.\<close>

definition RandomizeOutputPosition :: "nat \<Rightarrow> txOut list \<Rightarrow> nat \<Rightarrow> txOut list \<times> nat" where
  "RandomizeOutputPosition r outputs index =
     (outputs[r := outputs ! index, index := outputs ! r], r)"

definition RandomizeChangePosition :: "nat \<Rightarrow> authoredTx \<Rightarrow> authoredTx" where
  "RandomizeChangePosition r tx =
     (case RandomizeOutputPosition r (TxOut (Tx tx)) (nat (ChangeIndex tx)) of (outs, i) \<Rightarrow>
        tx\<lparr>Tx := (Tx tx)\<lparr>TxOut := outs\<rparr>, ChangeIndex := int i\<rparr>)"

section \<open>Input sources\<close>

record coin =
  coinTxOut :: txOut
  coinOutPoint :: outPoint

text \<open>The variables the closure of \<open>makeInputSource\<close> captures.\<close>

record sourceState =
  eligible :: "coin list"
  currentTotal :: amount
  currentInputs :: "txIn list"
  currentInputValues :: "amount list"
  currentScripts :: "bytes list"

definition takeCoin :: "wireLib \<Rightarrow> coin \<Rightarrow> coin list \<Rightarrow> sourceState \<Rightarrow> sourceState" where
  "takeCoin W c cs st = st\<lparr>eligible := cs, currentTotal := currentTotal st + Value (coinTxOut c),
     currentInputs := currentInputs st @ [NewTxIn W (coinOutPoint c)],
     currentInputValues := currentInputValues st @ [Value (coinTxOut c)],
     currentScripts := currentScripts st @ [PkScript (coinTxOut c)]\<rparr>"

function fillInputs :: "wireLib \<Rightarrow> amount \<Rightarrow> sourceState \<Rightarrow> sourceState" where
  "fillInputs W target st =
     (case eligible st of
        [] \<Rightarrow> st
      | c # cs \<Rightarrow> if currentTotal st <s target then fillInputs W target (takeCoin W c cs st) else st)"
  by pat_completeness auto
termination
  by (relation "measure (\<lambda>(_, _, st). length (eligible st))") (auto simp: takeCoin_def)

declare fillInputs.simps [simp del]

definition fetchedOf :: "sourceState \<Rightarrow> fetched" where
  "fetchedOf st = (currentTotal st, currentInputs st, currentInputValues st, currentScripts st)"

definition makeInputSource :: "wireLib \<Rightarrow> sourceState inputSource" where
  "makeInputSource W st target = (let st = fillInputs W target st in Inr (st, fetchedOf st))"

definition initSource :: "coin list \<Rightarrow> sourceState" where
  "initSource cs = \<lparr>eligible = cs, currentTotal = 0, currentInputs = [], currentInputValues = [],
     currentScripts = []\<rparr>"

definition takeCredit :: "wireLib \<Rightarrow> sourceState \<Rightarrow> creditInfo \<Rightarrow> sourceState" where
  "takeCredit W st c = st\<lparr>currentTotal := currentTotal st + ciAmount c,
     currentInputs := currentInputs st @ [NewTxIn W (ciOutPoint c)],
     currentInputValues := currentInputValues st @ [ciAmount c],
     currentScripts := currentScripts st @ [ciPkScript c]\<rparr>"

definition constantInputSource :: "wireLib \<Rightarrow> creditInfo list \<Rightarrow> unit inputSource" where
  "constantInputSource W credits s target = Inr ((), fetchedOf (foldl (takeCredit W) (initSource []) credits))"

section \<open>What an input source promises\<close>

text \<open>The values it returns add up to the total, and there is one value and one script per input.\<close>

definition fetched_ok :: "fetched \<Rightarrow> bool" where
  "fetched_ok f \<longleftrightarrow> (case f of (tot, ins, vals, scripts) \<Rightarrow>
     tot = sum_list vals \<and> length vals = length ins \<and> length scripts = length ins)"

definition fee_covered :: "wireLib \<Rightarrow> txOut list \<Rightarrow> amount \<Rightarrow> int \<Rightarrow> fetched \<Rightarrow> amount \<Rightarrow> bool" where
  "fee_covered W outputs rate sz f req \<longleftrightarrow> (case f of (tot, ins, vals, scripts) \<Rightarrow>
     req = requiredFee W outputs rate sz scripts \<and> req \<le>s tot - SumOutputValues outputs)"

lemma not_sless: "\<not> (a :: amount) <s b \<longleftrightarrow> b \<le>s a"
  by (auto simp: word_sless_alt word_sle_eq)

locale input_source =
  fixes fetch :: "'s inputSource"
    and good :: "'s \<Rightarrow> bool"
  assumes fetch_ok: "good s \<Longrightarrow> fetch s target = Inr (s', f) \<Longrightarrow> good s' \<and> fetched_ok f"
begin

lemma loop_ok_aux:
  assumes "authorLoop W outputs rate sz fetch' fee s = Some y"
  shows "fetch' = fetch \<longrightarrow> good s \<longrightarrow>
    (\<forall>f req. y = Inr (f, req) \<longrightarrow> fetched_ok f \<and> fee_covered W outputs rate sz f req)"
proof (rule authorLoop.raw_induct[where P = "\<lambda>W outputs rate sz fetch' fee s y. fetch' = fetch \<longrightarrow> good s \<longrightarrow>
    (\<forall>f req. y = Inr (f, req) \<longrightarrow> fetched_ok f \<and> fee_covered W outputs rate sz f req)", OF _ assms], goal_cases)
  case (1 authorLoop W outputs rate sz fetch' fee s y)
  show ?case
  proof (intro impI allI)
    fix f req assume fe: "fetch' = fetch" and g: "good s" and y: "y = Inr (f, req)"
    let ?t = "SumOutputValues outputs"
    obtain s' f1 where f1: "fetch s (?t + fee) = Inr (s', f1)"
      using 1(2) fe y by (cases "fetch s (?t + fee)") (auto simp: Let_def)
    obtain tot ins vals scripts where f1': "f1 = (tot, ins, vals, scripts)" by (cases f1)
    have ok: "good s'" "fetched_ok f1" using fetch_ok[OF g f1] by auto
    let ?r = "requiredFee W outputs rate sz scripts"
    have enough: "\<not> tot <s ?t + fee" using 1(2) fe y f1 f1' by (auto simp: Let_def split: if_splits)
    show "fetched_ok f \<and> fee_covered W outputs rate sz f req"
    proof (cases "tot - ?t <s ?r")
      case True
      then have "authorLoop W outputs rate sz fetch' ?r s' = Some y"
        using 1(2) fe f1 f1' enough by (simp add: Let_def)
      from 1(1)[OF this] show ?thesis using fe ok(1) y by blast
    next
      case False
      then have "f = f1" "req = ?r" using 1(2) fe f1 f1' enough y by (simp_all add: Let_def)
      then show ?thesis using ok(2) False f1' by (simp add: fee_covered_def not_sless)
    qed
  qed
qed

lemma loop_ok:
  "authorLoop W outputs rate sz fetch fee s = Some (Inr (f, req)) \<Longrightarrow> good s \<Longrightarrow>
    fetched_ok f \<and> fee_covered W outputs rate sz f req"
  using loop_ok_aux by blast

text \<open>A transaction authored from the source: its inputs, and what it pays.\<close>

lemma authored_ok:
  assumes a: "NewUnsignedTransaction W outputs rate fetch s sz newScript = Some (Inr tx)" and g: "good s"
    and v: "\<And>v sc. Value (NewTxOut W v sc) = v"
  defines "fee \<equiv> TotalInput tx - SumOutputValues (TxOut (Tx tx))"
  shows "TotalInput tx = sum_list (PrevInputValues tx)
    \<and> length (PrevInputValues tx) = length (TxIn (Tx tx)) \<and> length (PrevScripts tx) = length (TxIn (Tx tx))
    \<and> take (length outputs) (TxOut (Tx tx)) = outputs
    \<and> requiredFee W outputs rate sz (PrevScripts tx) \<le>s fee
    \<and> (0 \<le> ChangeIndex tx \<longrightarrow> fee = requiredFee W outputs rate sz (PrevScripts tx))"
proof -
  obtain tot ins vals scripts req script where l: "authorLoop W outputs rate sz fetch
      (initialFee W outputs rate sz) s = Some (Inr ((tot, ins, vals, scripts), req))" "newScript = Inr script"
    and tx: "tx = (let change = NewTxOut W (tot - SumOutputValues outputs - req) script;
              (txOut, changeIndex) =
                (if tot - SumOutputValues outputs - req \<noteq> 0 \<and> \<not> IsDustOutput W change DefaultRelayFeePerKb
                 then (outputs @ [change], int (length outputs)) else (outputs, - 1))
          in \<lparr>Tx = \<lparr>Version = TxVersion W, TxIn = ins, TxOut = txOut, LockTime = 0\<rparr>,
                  PrevScripts = scripts, PrevInputValues = vals, TotalInput = tot, ChangeIndex = changeIndex\<rparr>)"
    using a by (auto simp: NewUnsignedTransaction_def Let_def split: option.splits if_splits prod.splits)
  have "fetched_ok (tot, ins, vals, scripts)" "fee_covered W outputs rate sz (tot, ins, vals, scripts) req"
    using loop_ok[OF l(1) g] by auto
  then show ?thesis unfolding fee_def tx
    by (auto simp: fetched_ok_def fee_covered_def Let_def SumOutputValues_sum v word_sle_eq algebra_simps)
qed

end

text \<open>The two sources of \<open>createtx.go\<close> keep the promise.\<close>

definition source_wf :: "sourceState \<Rightarrow> bool" where
  "source_wf st \<longleftrightarrow> fetched_ok (fetchedOf st)"

lemma source_wf_take: "source_wf st \<Longrightarrow> source_wf (takeCoin W c cs st)"
  by (simp add: source_wf_def fetched_ok_def fetchedOf_def takeCoin_def)

lemma source_wf_fill: "source_wf st \<Longrightarrow> source_wf (fillInputs W target st)"
proof (induction W target st rule: fillInputs.induct)
  case (1 W target st)
  show ?case
  proof (cases "eligible st")
    case Nil
    then show ?thesis using 1(2) by (simp add: fillInputs.simps)
  next
    case (Cons c cs)
    then show ?thesis using 1 source_wf_take by (simp add: fillInputs.simps[of W target st])
  qed
qed

lemma source_wf_init [simp]: "source_wf (initSource cs)"
  by (simp add: source_wf_def fetched_ok_def fetchedOf_def initSource_def)

interpretation coin_source: input_source "makeInputSource W" source_wf for W
  using source_wf_fill by unfold_locales (auto simp: makeInputSource_def Let_def source_wf_def)

lemma source_wf_credits: "source_wf st \<Longrightarrow> source_wf (foldl (takeCredit W) st credits)"
  by (induction credits arbitrary: st) (auto simp: source_wf_def fetched_ok_def fetchedOf_def takeCredit_def)

interpretation constant_source: input_source "constantInputSource W credits" "\<lambda>_. True" for W credits
  using source_wf_credits[OF source_wf_init[of "[]"], of W credits, unfolded source_wf_def]
  by unfold_locales (simp add: constantInputSource_def)

section \<open>Arithmetic on amounts that do not overflow\<close>

lemma sint_add_small:
  fixes a b :: amount
  assumes "- (2 ^ 63) \<le> sint a + sint b" "sint a + sint b < 2 ^ 63"
  shows "sint (a + b) = sint a + sint b"
  using assms by (simp add: sint_word_ariths signed_take_bit_int_eq_self)

lemma sint_sub_small:
  fixes a b :: amount
  assumes "- (2 ^ 63) \<le> sint a - sint b" "sint a - sint b < 2 ^ 63"
  shows "sint (a - b) = sint a - sint b"
  using assms by (simp add: sint_word_ariths signed_take_bit_int_eq_self)

lemma sint_sum_small:
  fixes ws :: "amount list"
  assumes "\<forall>w \<in> set ws. 0 \<le> sint w" "sum_list (map sint ws) < 2 ^ 63"
  shows "sint (sum_list ws) = sum_list (map sint ws)"
  using assms
proof (induction ws)
  case (Cons w ws)
  have nn: "0 \<le> sum_list (map sint ws)" using Cons.prems(1) by (intro sum_list_nonneg) auto
  then have "sint (sum_list ws) = sum_list (map sint ws)" using Cons by auto
  then show ?case using Cons.prems nn sint_add_small[of w "sum_list ws"] by auto
qed simp

section \<open>Coins are taken in order, and no more than needed\<close>

definition coinValue :: "coin \<Rightarrow> amount" where "coinValue c = Value (coinTxOut c)"

text \<open>The state of the source after the first \<open>k\<close> coins.\<close>

definition sourceAt :: "wireLib \<Rightarrow> coin list \<Rightarrow> nat \<Rightarrow> sourceState" where
  "sourceAt W coins k = \<lparr>eligible = drop k coins, currentTotal = sum_list (map coinValue (take k coins)),
     currentInputs = map (NewTxIn W \<circ> coinOutPoint) (take k coins),
     currentInputValues = map coinValue (take k coins),
     currentScripts = map (PkScript \<circ> coinTxOut) (take k coins)\<rparr>"

lemma sourceAt_0: "sourceAt W coins 0 = initSource coins"
  by (simp add: sourceAt_def initSource_def)

lemma takeCoin_sourceAt:
  assumes "k < length coins"
  shows "takeCoin W (coins ! k) (drop (Suc k) coins) (sourceAt W coins k) = sourceAt W coins (Suc k)"
  using assms by (simp add: takeCoin_def sourceAt_def take_Suc_conv_app_nth coinValue_def)

lemma fillInputs_step:
  assumes "k < length coins" "currentTotal (sourceAt W coins k) <s target"
  shows "fillInputs W target (sourceAt W coins k) = fillInputs W target (sourceAt W coins (Suc k))"
proof -
  have "drop k coins = coins ! k # drop (Suc k) coins" using assms(1) by (simp add: Cons_nth_drop_Suc)
  then have "eligible (sourceAt W coins k) = coins ! k # drop (Suc k) coins" by (simp add: sourceAt_def)
  then show ?thesis using assms takeCoin_sourceAt[OF assms(1), of W] by (simp add: fillInputs.simps[of W target "sourceAt W coins k"])
qed

lemma fillInputs_stop:
  assumes "length coins \<le> k \<or> \<not> currentTotal (sourceAt W coins k) <s target"
  shows "fillInputs W target (sourceAt W coins k) = sourceAt W coins k"
proof (cases "eligible (sourceAt W coins k)")
  case Nil
  then show ?thesis by (subst fillInputs.simps) simp
next
  case (Cons c cs)
  then have "\<not> length coins \<le> k" by (auto simp: sourceAt_def)
  then have "\<not> currentTotal (sourceAt W coins k) <s target" using assms by blast
  then show ?thesis using Cons by (subst fillInputs.simps) simp
qed

lemma fillInputs_sourceAt:
  assumes "k \<le> length coins"
  shows "\<exists>k'. k \<le> k' \<and> k' \<le> length coins \<and> fillInputs W target (sourceAt W coins k) = sourceAt W coins k'
    \<and> (k' < length coins \<longrightarrow> target \<le>s currentTotal (sourceAt W coins k'))
    \<and> (\<forall>j. k \<le> j \<longrightarrow> j < k' \<longrightarrow> currentTotal (sourceAt W coins j) <s target)"
  using assms
proof (induction "length coins - k" arbitrary: k)
  case 0
  then show ?case using fillInputs_stop[of coins k W target] by (intro exI[of _ k]) auto
next
  case (Suc n)
  show ?case
  proof (cases "currentTotal (sourceAt W coins k) <s target")
    case False
    then show ?thesis using fillInputs_stop[of coins k W target] Suc.prems by (intro exI[of _ k]) (auto simp: not_sless)
  next
    case True
    have k: "k < length coins" using Suc.hyps(2) by simp
    have "n = length coins - Suc k" "Suc k \<le> length coins" using Suc.hyps(2) by auto
    from Suc.hyps(1)[OF this] obtain k' where k': "Suc k \<le> k'" "k' \<le> length coins"
      "fillInputs W target (sourceAt W coins (Suc k)) = sourceAt W coins k'"
      "k' < length coins \<longrightarrow> target \<le>s currentTotal (sourceAt W coins k')"
      "\<forall>j. Suc k \<le> j \<longrightarrow> j < k' \<longrightarrow> currentTotal (sourceAt W coins j) <s target" by (elim exE conjE)
    have "\<forall>j. k \<le> j \<longrightarrow> j < k' \<longrightarrow> currentTotal (sourceAt W coins j) <s target"
      using k'(5) True by (metis Suc_leI le_neq_implies_less)
    then show ?thesis using k' fillInputs_step[OF k True] by (intro exI[of _ k']) auto
  qed
qed

text \<open>\<open>makeInputSource\<close> hands out the eligible coins in their order, each at most once over all
  calls; a call takes the fewest further coins that reach the target, and all of them when it cannot be
  reached.\<close>

lemma makeInputSource_minimal:
  assumes "k \<le> length coins"
  shows "\<exists>k'. makeInputSource W (sourceAt W coins k) target = Inr (sourceAt W coins k', fetchedOf (sourceAt W coins k'))
    \<and> k \<le> k' \<and> k' \<le> length coins \<and> (k' < length coins \<longrightarrow> target \<le>s currentTotal (sourceAt W coins k'))
    \<and> (\<forall>j. k \<le> j \<longrightarrow> j < k' \<longrightarrow> currentTotal (sourceAt W coins j) <s target)"
  using fillInputs_sourceAt[OF assms, of W target] by (auto simp: makeInputSource_def Let_def)

text \<open>C32: a transaction authored from eligible coins spends what it pays: its total input is the sum of
  the values of its inputs, it contains the requested outputs, and what is left for the fee is at least
  the required fee of its own inputs and outputs, and exactly that fee when it has a change output.\<close>

theorem NewUnsignedTransaction_pays:
  assumes "NewUnsignedTransaction W outputs rate (makeInputSource W) (initSource coins) sz newScript = Some (Inr tx)"
    and "\<And>v sc. Value (NewTxOut W v sc) = v"
    and "fee = TotalInput tx - SumOutputValues (TxOut (Tx tx))"
  shows "TotalInput tx = sum_list (PrevInputValues tx)
    \<and> length (PrevInputValues tx) = length (TxIn (Tx tx)) \<and> length (PrevScripts tx) = length (TxIn (Tx tx))
    \<and> take (length outputs) (TxOut (Tx tx)) = outputs
    \<and> requiredFee W outputs rate sz (PrevScripts tx) \<le>s fee
    \<and> (0 \<le> ChangeIndex tx \<longrightarrow> fee = requiredFee W outputs rate sz (PrevScripts tx))"
  unfolding assms(3) by (rule coin_source.authored_ok[OF assms(1) source_wf_init assms(2)])

section \<open>The loop ends\<close>

definition amounts_fit :: "wireLib \<Rightarrow> txOut list \<Rightarrow> coin list \<Rightarrow> bool" where
  "amounts_fit W outputs coins \<longleftrightarrow>
     (\<forall>c \<in> set coins. 0 \<le> sint (coinValue c)) \<and> 0 \<le> sint (SumOutputValues outputs) \<and> 0 < sint (MaxLoki W)
     \<and> sum_list (map (sint \<circ> coinValue) coins) + sint (SumOutputValues outputs) + sint (MaxLoki W) < 2 ^ 63"

lemma currentTotal_sums:
  assumes "amounts_fit W outputs coins"
  shows "0 \<le> sum_list (map (sint \<circ> coinValue) (take k coins))
    \<and> sum_list (map (sint \<circ> coinValue) (take k coins)) \<le> sum_list (map (sint \<circ> coinValue) coins)"
proof -
  let ?f = "sint \<circ> coinValue"
  have nn: "0 \<le> sum_list (map ?f cs)" if "set cs \<subseteq> set coins" for cs
    using assms that by (intro sum_list_nonneg) (auto simp: amounts_fit_def)
  have "sum_list (map ?f coins) = sum_list (map ?f (take k coins)) + sum_list (map ?f (drop k coins))"
    by (metis append_take_drop_id map_append sum_list_append)
  moreover have "0 \<le> sum_list (map ?f (take k coins))" "0 \<le> sum_list (map ?f (drop k coins))"
    using nn set_take_subset set_drop_subset by metis+
  ultimately show ?thesis by simp
qed

lemma currentTotal_sint:
  assumes "amounts_fit W outputs coins"
  shows "sint (currentTotal (sourceAt W coins k)) = sum_list (map (sint \<circ> coinValue) (take k coins))"
proof -
  have "sint (sum_list (map coinValue (take k coins))) = sum_list (map sint (map coinValue (take k coins)))"
  proof (rule sint_sum_small)
    show "\<forall>w \<in> set (map coinValue (take k coins)). 0 \<le> sint w"
      using assms set_take_subset[of k coins] by (auto simp: amounts_fit_def)
    show "sum_list (map sint (map coinValue (take k coins))) < 2 ^ 63"
      using currentTotal_sums[OF assms, of k] assms by (simp add: amounts_fit_def)
  qed
  then show ?thesis by (simp add: sourceAt_def)
qed

lemma currentTotal_bounds:
  assumes "amounts_fit W outputs coins"
  shows "0 \<le> sint (currentTotal (sourceAt W coins k))
    \<and> sint (currentTotal (sourceAt W coins k)) \<le> sum_list (map (sint \<circ> coinValue) coins)"
  using currentTotal_sums[OF assms, of k] by (simp add: currentTotal_sint[OF assms])

lemma requiredFee_bounds:
  "0 < sint (MaxLoki W) \<Longrightarrow> 0 \<le> sint (requiredFee W outputs rate sz scripts)
    \<and> sint (requiredFee W outputs rate sz scripts) \<le> sint (MaxLoki W)"
  using fee_bounds[of W rate] by (auto simp: requiredFee_def word_sless_alt word_sle_eq sint_0 split: prod.split)

text \<open>When the coins taken so far do not reach the target, another call makes progress, so the loop ends
  by induction on the coins that are left.\<close>

lemma authorLoop_ends_short:
  assumes fit: "amounts_fit W outputs coins"
  shows "k \<le> length coins \<Longrightarrow> currentTotal (sourceAt W coins k) <s SumOutputValues outputs + fee \<Longrightarrow>
    \<exists>r. authorLoop W outputs rate sz (makeInputSource W) fee (sourceAt W coins k) = Some r"
proof (induction "length coins - k" arbitrary: k fee rule: less_induct)
  case less
  let ?t = "SumOutputValues outputs" and ?T = "\<lambda>k. currentTotal (sourceAt W coins k)"
  let ?st = "\<lambda>k. sourceAt W coins k"
  obtain k' where k': "fillInputs W (?t + fee) (?st k) = ?st k'" "k \<le> k'" "k' \<le> length coins"
    "k' < length coins \<longrightarrow> ?t + fee \<le>s ?T k'"
    using fillInputs_sourceAt[OF less.prems(1), of W "?t + fee"] by (elim exE conjE)
  have fetch: "makeInputSource W (?st k) (?t + fee) = Inr (?st k', fetchedOf (?st k'))"
    by (simp add: makeInputSource_def Let_def k'(1))
  let ?r = "requiredFee W outputs rate sz (currentScripts (?st k'))"
  show ?case
  proof (cases "?T k' <s ?t + fee")
    case True
    then show ?thesis using fetch by (subst authorLoop.simps) (simp add: fetchedOf_def)
  next
    case False
    then have kk: "k < k'" using k'(2) less.prems(2) by (cases "k = k'") auto
    show ?thesis
    proof (cases "?T k' - ?t <s ?r")
      case True
      have b: "0 \<le> sint (?T k')" "sint (?T k') \<le> sum_list (map (sint \<circ> coinValue) coins)"
        using currentTotal_bounds[OF fit, of k'] by auto
      have f: "0 < sint (MaxLoki W)" "0 \<le> sint ?t" "0 \<le> sum_list (map (sint \<circ> coinValue) coins)"
        "sum_list (map (sint \<circ> coinValue) coins) + sint ?t + sint (MaxLoki W) < 2 ^ 63"
        using fit by (auto simp: amounts_fit_def intro!: sum_list_nonneg)
      have r: "0 \<le> sint ?r" "sint ?r \<le> sint (MaxLoki W)" using requiredFee_bounds[OF f(1)] by auto
      have "sint (?T k' - ?t) = sint (?T k') - sint ?t" using b f by (intro sint_sub_small) auto
      moreover have "sint (?t + ?r) = sint ?t + sint ?r" using r f by (intro sint_add_small) auto
      ultimately have "?T k' <s ?t + ?r" using True by (simp add: word_sless_alt)
      moreover have "length coins - k' < length coins - k" using kk k'(3) by simp
      ultimately obtain r where "authorLoop W outputs rate sz (makeInputSource W) ?r (?st k') = Some r"
        using less.hyps[of k' ?r] k'(3) by blast
      then show ?thesis using fetch False True by (subst authorLoop.simps) (simp add: fetchedOf_def Let_def)
    next
      case False': False
      then show ?thesis using fetch False by (subst authorLoop.simps) (simp add: fetchedOf_def Let_def)
    qed
  qed
qed

lemma authorLoop_ends:
  assumes fit: "amounts_fit W outputs coins"
  shows "\<exists>r. authorLoop W outputs rate sz (makeInputSource W) fee (initSource coins) = Some r"
proof -
  let ?t = "SumOutputValues outputs" and ?T = "\<lambda>k. currentTotal (sourceAt W coins k)"
  let ?st = "\<lambda>k. sourceAt W coins k"
  obtain k where k: "fillInputs W (?t + fee) (?st 0) = ?st k" "k \<le> length coins"
    using fillInputs_sourceAt[of 0 coins W "?t + fee"] by auto
  have fetch: "makeInputSource W (?st 0) (?t + fee) = Inr (?st k, fetchedOf (?st k))"
    by (simp add: makeInputSource_def Let_def k(1))
  let ?r = "requiredFee W outputs rate sz (currentScripts (?st k))"
  have "\<exists>r. authorLoop W outputs rate sz (makeInputSource W) fee (?st 0) = Some r"
  proof (cases "?T k <s ?t + fee \<or> \<not> ?T k - ?t <s ?r")
    case True
    then show ?thesis using fetch by (subst authorLoop.simps) (auto simp: fetchedOf_def Let_def)
  next
    case False
    have b: "0 \<le> sint (?T k)" "sint (?T k) \<le> sum_list (map (sint \<circ> coinValue) coins)"
      using currentTotal_bounds[OF fit, of k] by auto
    have f: "0 < sint (MaxLoki W)" "0 \<le> sint ?t" "0 \<le> sum_list (map (sint \<circ> coinValue) coins)"
      "sum_list (map (sint \<circ> coinValue) coins) + sint ?t + sint (MaxLoki W) < 2 ^ 63"
      using fit by (auto simp: amounts_fit_def intro!: sum_list_nonneg)
    have r: "0 \<le> sint ?r" "sint ?r \<le> sint (MaxLoki W)" using requiredFee_bounds[OF f(1)] by auto
    have "sint (?T k - ?t) = sint (?T k) - sint ?t" using b f by (intro sint_sub_small) auto
    moreover have "sint (?t + ?r) = sint ?t + sint ?r" using r f by (intro sint_add_small) auto
    ultimately have "?T k <s ?t + ?r" using False by (simp add: word_sless_alt)
    then obtain r where "authorLoop W outputs rate sz (makeInputSource W) ?r (?st k) = Some r"
      using authorLoop_ends_short[OF fit k(2)] by blast
    then show ?thesis using fetch False by (subst authorLoop.simps) (simp add: fetchedOf_def Let_def)
  qed
  then show ?thesis by (simp add: sourceAt_0)
qed

text \<open>C33: when no sum of the amounts involved can overflow, selecting coins with
  \<open>makeInputSource\<close> always ends, for \<open>NewUnsignedTransaction\<close> and for
  \<open>CalculateTransactionFee\<close>, and the two agree on whether the coins suffice: the fee computed in
  advance is the fee the authored transaction is required to pay.\<close>

theorem authoring_terminates:
  assumes "amounts_fit W outputs coins"
  shows "\<exists>r. CalculateTransactionFee W outputs rate (makeInputSource W) (initSource coins) sz = Some r
    \<and> (case r of
         Inl e \<Rightarrow> NewUnsignedTransaction W outputs rate (makeInputSource W) (initSource coins) sz (Inr script) = Some (Inl e)
       | Inr fee \<Rightarrow> \<exists>tx. NewUnsignedTransaction W outputs rate (makeInputSource W) (initSource coins) sz (Inr script) = Some (Inr tx)
           \<and> requiredFee W outputs rate sz (PrevScripts tx) = fee)"
proof -
  obtain r where r: "authorLoop W outputs rate sz (makeInputSource W) (initialFee W outputs rate sz) (initSource coins) = Some r"
    using authorLoop_ends[OF assms] by blast
  show ?thesis
  proof (cases r)
    case (Inl e)
    then show ?thesis using r by (simp add: CalculateTransactionFee_def NewUnsignedTransaction_def)
  next
    case (Inr x)
    obtain f req where x: "x = (f, req)" by (cases x)
    have "fee_covered W outputs rate sz f req"
      using coin_source.loop_ok[OF r[unfolded Inr x] source_wf_init] by blast
    then show ?thesis using r
      by (cases f) (auto simp: Inr x CalculateTransactionFee_def NewUnsignedTransaction_def Let_def fee_covered_def)
  qed
qed

text \<open>Moving the change output to a random place permutes the outputs and keeps track of the
  change output.\<close>

lemma RandomizeChangePosition_tracks:
  assumes "r < length (TxOut (Tx tx))" "0 \<le> ChangeIndex tx" "nat (ChangeIndex tx) < length (TxOut (Tx tx))"
  shows "mset (TxOut (Tx (RandomizeChangePosition r tx))) = mset (TxOut (Tx tx))
    \<and> TxOut (Tx (RandomizeChangePosition r tx)) ! nat (ChangeIndex (RandomizeChangePosition r tx))
        = TxOut (Tx tx) ! nat (ChangeIndex tx)
    \<and> TotalInput (RandomizeChangePosition r tx) = TotalInput tx"
proof -
  let ?o = "TxOut (Tx tx)" and ?i = "nat (ChangeIndex tx)"
  have "?o[r := ?o ! ?i, ?i := ?o ! r] ! r = ?o ! ?i" using assms by (cases "r = ?i") auto
  then show ?thesis using assms mset_swap[of ?i ?o r]
    by (simp add: RandomizeChangePosition_def RandomizeOutputPosition_def)
qed

end
