(* ===== verification/Coin_Select.thy ===== *)
theory Coin_Select
  imports Author
begin

text \<open>
  Coin selection in \<open>wallet/createtx.go\<close>: the outputs eligible for spending, the selection by
  explicit outpoints and the two coin arrangements.  \<open>sort.Sort\<close> and \<open>rand.Shuffle\<close> leave
  open which permutation they produce, so an arrangement is a relation between the eligible coins and the
  arranged ones; a theorem about it holds for every permutation Go may pick.
\<close>

section \<open>Confirmations\<close>

definition calcConf :: "height \<Rightarrow> height \<Rightarrow> height" where
  "calcConf txHeight curHeight =
     (if txHeight = - 1 then 0
      else if curHeight <s txHeight then 0
      else curHeight - txHeight + 1)"

definition hasMinConfs :: "height \<Rightarrow> height \<Rightarrow> height \<Rightarrow> bool" where
  "hasMinConfs minConf txHeight curHeight \<longleftrightarrow> minConf \<le>s calcConf txHeight curHeight"

text \<open>Confirmations are counted from the block of the transaction, inclusive, for any two
  non-negative heights short of the largest; an unmined transaction has none.\<close>

lemma calcConf_exact:
  assumes "0 \<le> sint txHeight" "0 \<le> sint curHeight" "sint curHeight < 2 ^ 31 - 1"
  shows "sint (calcConf txHeight curHeight) =
      (if sint curHeight < sint txHeight then 0 else sint curHeight - sint txHeight + 1)
    \<and> calcConf (- 1) curHeight = 0"
proof -
  have "txHeight \<noteq> - 1" using assms(1) by auto
  moreover have "sint (curHeight - txHeight + 1) = sint curHeight - sint txHeight + 1"
    if "\<not> sint curHeight < sint txHeight"
    using that assms by (simp add: sint_word_ariths signed_take_bit_int_eq_self)
  ultimately show ?thesis by (simp add: calcConf_def word_sless_alt)
qed

section \<open>Eligible outputs\<close>

text \<open>What \<open>findEligibleOutputs\<close> asks of the rest of the wallet.\<close>

record ('a, 'k) eligibility =
  allowUtxo :: "(creditInfo \<Rightarrow> bool) option"
  lockedOutpoint :: "outPoint \<Rightarrow> bool"
  extractAddrs :: "bytes \<Rightarrow> 'a list option"
  addrAccount :: "'a \<Rightarrow> ('k \<times> u32) option"
  elKeyScope :: "'k option"
  elAccount :: u32
  elMinConf :: height
  elMaturity :: height
  elCurHeight :: height

definition eligibleOutput :: "('a, 'k) eligibility \<Rightarrow> creditInfo \<Rightarrow> bool" where
  "eligibleOutput P output \<longleftrightarrow>
     (if (case allowUtxo P of None \<Rightarrow> False | Some allow \<Rightarrow> \<not> allow output) then False
      else
        let h = bHeight (metaBlock (ciBlockMeta output)) in
        if \<not> hasMinConfs (elMinConf P) h (elCurHeight P) then False
        else if ciFromCoinBase output \<and> \<not> hasMinConfs (elMaturity P) h (elCurHeight P) then False
        else if lockedOutpoint P (ciOutPoint output) then False
        else
          (case extractAddrs P (ciPkScript output) of
             Some [addr] \<Rightarrow>
               (case addrAccount P addr of
                  None \<Rightarrow> False
                | Some (scope, addrAcct) \<Rightarrow>
                    if (case elKeyScope P of None \<Rightarrow> False | Some k \<Rightarrow> scope \<noteq> k) then False
                    else if addrAcct \<noteq> elAccount P then False else True)
           | _ \<Rightarrow> False))"

definition findEligibleOutputs :: "('a, 'k) eligibility \<Rightarrow> creditInfo list \<Rightarrow> creditInfo list" where
  "findEligibleOutputs P unspent = filter (eligibleOutput P) unspent"

text \<open>Every eligible output is an unspent one with enough confirmations, is mature if it comes from
  a coinbase, is not locked in the wallet, passes the caller's filter and belongs to the account (and the
  key scope) that pays.\<close>

lemma findEligibleOutputs_sound:
  assumes "output \<in> set (findEligibleOutputs P unspent)"
  shows "output \<in> set unspent
    \<and> elMinConf P \<le>s calcConf (bHeight (metaBlock (ciBlockMeta output))) (elCurHeight P)
    \<and> (ciFromCoinBase output \<longrightarrow>
         elMaturity P \<le>s calcConf (bHeight (metaBlock (ciBlockMeta output))) (elCurHeight P))
    \<and> \<not> lockedOutpoint P (ciOutPoint output)
    \<and> (\<forall>allow. allowUtxo P = Some allow \<longrightarrow> allow output)
    \<and> (\<exists>addr scope. extractAddrs P (ciPkScript output) = Some [addr]
         \<and> addrAccount P addr = Some (scope, elAccount P)
         \<and> (\<forall>k. elKeyScope P = Some k \<longrightarrow> scope = k))"
  using assms
  by (auto simp: findEligibleOutputs_def eligibleOutput_def hasMinConfs_def Let_def
      split: if_splits option.splits list.splits)

section \<open>Selected outpoints\<close>

text \<open>\<open>eligibleByOutpoint\<close>: a later output with the same outpoint replaces an earlier one.\<close>

definition eligibleByOutpoint :: "creditInfo list \<Rightarrow> (outPoint \<rightharpoonup> creditInfo)" where
  "eligibleByOutpoint outs = foldl (\<lambda>m e. m(ciOutPoint e \<mapsto> e)) Map.empty outs"

definition selectUtxos :: "creditInfo list \<Rightarrow> outPoint list \<Rightarrow> authorErr + creditInfo list" where
  "selectUtxos outs selectedUtxos =
     (if length (remdups selectedUtxos) \<noteq> length selectedUtxos then Inl ErrDuplicateSelected
      else mapE (\<lambda>outpoint. case eligibleByOutpoint outs outpoint of
              None \<Rightarrow> Inl (ErrNotEligible outpoint)
            | Some e \<Rightarrow> Inr e) selectedUtxos)"

definition coinOfCredit :: "wireLib \<Rightarrow> creditInfo \<Rightarrow> coin" where
  "coinOfCredit W e = \<lparr>coinTxOut = \<lparr>Value = ciAmount e, PkScript = ciPkScript e\<rparr>, coinOutPoint = ciOutPoint e\<rparr>"

lemma eligibleByOutpoint_snoc:
  "eligibleByOutpoint (es @ [e]) = (eligibleByOutpoint es)(ciOutPoint e \<mapsto> e)"
  by (simp add: eligibleByOutpoint_def)

lemma eligibleByOutpoint_Some:
  "eligibleByOutpoint es p = Some e \<Longrightarrow> e \<in> set es \<and> ciOutPoint e = p"
  by (induction es rule: rev_induct) (auto simp: eligibleByOutpoint_snoc eligibleByOutpoint_def split: if_splits)

lemma eligibleByOutpoint_None: "eligibleByOutpoint es p = None \<longleftrightarrow> p \<notin> ciOutPoint ` set es"
  by (induction es rule: rev_induct) (auto simp: eligibleByOutpoint_snoc eligibleByOutpoint_def)

text \<open>Selecting by outpoint succeeds exactly when the outpoints are distinct and eligible, and then
  spends exactly these outpoints, in order, from the eligible outputs.\<close>

lemma selectUtxos_exact:
  "((\<exists>cs. selectUtxos outs sel = Inr cs) \<longleftrightarrow> distinct sel \<and> set sel \<subseteq> ciOutPoint ` set outs)
   \<and> (\<forall>cs. selectUtxos outs sel = Inr cs \<longrightarrow> map ciOutPoint cs = sel \<and> set cs \<subseteq> set outs)"
proof -
  have d: "length (remdups sel) = length sel \<longleftrightarrow> distinct sel"
    by (metis length_remdups_card_conv card_distinct distinct_card)
  let ?f = "\<lambda>outpoint. case eligibleByOutpoint outs outpoint of
      None \<Rightarrow> Inl (ErrNotEligible outpoint) | Some e \<Rightarrow> Inr e"
  have f: "?f p = Inr e \<longleftrightarrow> eligibleByOutpoint outs p = Some e" for p e by (simp split: option.split)
  have "(\<exists>cs. mapE ?f ps = Inr cs) \<longleftrightarrow> set ps \<subseteq> ciOutPoint ` set outs" for ps
  proof (induction ps)
    case (Cons p ps)
    have "p \<in> ciOutPoint ` set outs \<longleftrightarrow> (\<exists>e. eligibleByOutpoint outs p = Some e)"
      using eligibleByOutpoint_None[of outs p] by auto
    then show ?case using Cons by (auto simp: f)
  qed simp
  then have "(\<exists>cs. selectUtxos outs sel = Inr cs) \<longleftrightarrow> distinct sel \<and> set sel \<subseteq> ciOutPoint ` set outs"
    using d by (simp add: selectUtxos_def)
  moreover have "mapE ?f ps = Inr cs \<Longrightarrow> map ciOutPoint cs = ps \<and> set cs \<subseteq> set outs" for ps cs
    by (induction ps arbitrary: cs) (auto simp: f dest!: eligibleByOutpoint_Some)
  then have "map ciOutPoint cs = sel \<and> set cs \<subseteq> set outs" if "selectUtxos outs sel = Inr cs" for cs
    using that by (simp add: selectUtxos_def split: if_splits)
  ultimately show ?thesis by blast
qed

section \<open>Arrangements\<close>

definition inputYieldsPositively :: "wireLib \<Rightarrow> txOut \<Rightarrow> amount \<Rightarrow> bool" where
  "inputYieldsPositively W credit feeRatePerKb \<longleftrightarrow>
     quot64 (feeRatePerKb * word_of_int (GetMinInputVirtualSize W (PkScript credit))) 1000 <s Value credit"

text \<open>\<open>sort.Sort(sort.Reverse(sortByAmount(eligible)))\<close>: a permutation in which no coin is
  smaller than a later one.\<close>

definition arrangedLargest :: "coin list \<Rightarrow> coin list \<Rightarrow> bool" where
  "arrangedLargest coins arranged \<longleftrightarrow> mset arranged = mset coins
     \<and> sorted_wrt (\<lambda>a b. \<not> coinValue a <s coinValue b) arranged"

definition positivelyYielding :: "wireLib \<Rightarrow> amount \<Rightarrow> coin list \<Rightarrow> coin list" where
  "positivelyYielding W feeRatePerKb coins =
     filter (\<lambda>output. inputYieldsPositively W (coinTxOut output) feeRatePerKb) coins"

definition arrangedRandom :: "wireLib \<Rightarrow> amount \<Rightarrow> coin list \<Rightarrow> coin list \<Rightarrow> bool" where
  "arrangedRandom W feeRatePerKb coins arranged \<longleftrightarrow>
     mset arranged = mset (positivelyYielding W feeRatePerKb coins)"

lemma sum_take_mono:
  fixes f :: "coin \<Rightarrow> int"
  assumes "sorted_wrt (\<lambda>a b. f b \<le> f a) (c # cs)" "\<forall>x \<in> set (c # cs). 0 \<le> f x"
  shows "sum_list (map f (take n cs)) \<le> sum_list (map f (take n (c # cs)))"
proof (cases n)
  case (Suc m)
  have "sum_list (map f (take (Suc m) cs)) \<le> sum_list (map f (take m cs)) + f c"
  proof (cases "m < length cs")
    case True
    then show ?thesis using assms(1) by (simp add: take_Suc_conv_app_nth)
  next
    case False
    then show ?thesis using assms(2) by simp
  qed
  then show ?thesis by (simp add: Suc)
qed simp

lemma sum_largest:
  fixes f :: "coin \<Rightarrow> int"
  assumes "sorted_wrt (\<lambda>a b. f b \<le> f a) cs" "\<forall>x \<in> set cs. 0 \<le> f x" "S \<subseteq># mset cs"
  shows "sum_mset (image_mset f S) \<le> sum_list (map f (take (size S) cs))"
  using assms
proof (induction cs arbitrary: S)
  case (Cons c cs)
  show ?case
  proof (cases "c \<in># S")
    case True
    then obtain T where T: "S = add_mset c T" by (metis multi_member_split)
    then have "T \<subseteq># mset cs" using Cons.prems(3) by simp
    moreover have "sorted_wrt (\<lambda>a b. f b \<le> f a) cs" "\<forall>x \<in> set cs. 0 \<le> f x" using Cons.prems(1,2) by simp_all
    ultimately have "sum_mset (image_mset f T) \<le> sum_list (map f (take (size T) cs))" by (intro Cons.IH)
    then show ?thesis by (simp add: T)
  next
    case False
    have "S \<subseteq># mset cs"
    proof (rule mset_subset_eqI)
      fix x
      have "count S x \<le> count (add_mset c (mset cs)) x" using Cons.prems(3) mset_subset_eq_count[of S "mset (c # cs)" x] by simp
      then show "count S x \<le> count (mset cs) x" using False by (cases "x = c") (auto simp: not_in_iff)
    qed
    moreover have "sorted_wrt (\<lambda>a b. f b \<le> f a) cs" "\<forall>x \<in> set cs. 0 \<le> f x" using Cons.prems(1,2) by simp_all
    ultimately have "sum_mset (image_mset f S) \<le> sum_list (map f (take (size S) cs))" by (intro Cons.IH)
    also have "\<dots> \<le> sum_list (map f (take (size S) (c # cs)))" by (rule sum_take_mono[OF Cons.prems(1,2)])
    finally show ?thesis .
  qed
qed simp

text \<open>Taking the largest coins first spends the fewest coins: no set of eligible coins smaller than
  the one \<open>makeInputSource\<close> takes reaches the target.\<close>

lemma largest_first_fewest:
  assumes "arrangedLargest coins arranged" "amounts_fit W outputs coins"
    and "makeInputSource W (initSource arranged) target = Inr (st, f)"
    and "S \<subseteq># mset coins" "sint target \<le> (\<Sum>c \<in># S. sint (coinValue c))"
  shows "length (currentInputs st) \<le> size S"
proof -
  let ?f = "sint \<circ> coinValue"
  have ms: "mset arranged = mset coins" and srt: "sorted_wrt (\<lambda>a b. \<not> coinValue a <s coinValue b) arranged"
    using assms(1) by (auto simp: arrangedLargest_def)
  then have sc: "set arranged = set coins" by (metis set_mset_mset)
  have sl: "sum_list (map ?f arranged) = sum_list (map ?f coins)"
    using ms by (metis mset_map sum_mset_sum_list)
  have fit: "amounts_fit W outputs arranged" using assms(2) sc sl by (simp add: amounts_fit_def)
  obtain k where k: "k \<le> length arranged" "st = sourceAt W arranged k"
    "\<forall>j. 0 \<le> j \<longrightarrow> j < k \<longrightarrow> currentTotal (sourceAt W arranged j) <s target"
    using fillInputs_sourceAt[of 0 arranged W target] assms(3) by (auto simp: makeInputSource_def Let_def sourceAt_0)
  have "k \<le> size S"
  proof (rule ccontr)
    assume "\<not> k \<le> size S"
    then have "sint (currentTotal (sourceAt W arranged (size S))) < sint target" using k(3) by (simp add: word_sless_alt)
    moreover have "sint (currentTotal (sourceAt W arranged (size S))) = sum_list (map ?f (take (size S) arranged))"
      by (rule currentTotal_sint[OF fit])
    moreover have "(\<Sum>c \<in># S. sint (coinValue c)) \<le> sum_list (map ?f (take (size S) arranged))"
    proof -
      have "sorted_wrt (\<lambda>a b. ?f b \<le> ?f a) arranged"
        using srt by (rule sorted_wrt_mono_rel[rotated]) (simp add: word_sless_alt)
      moreover have "\<forall>x \<in> set arranged. 0 \<le> ?f x" using fit by (simp add: amounts_fit_def)
      ultimately show ?thesis using sum_largest[of ?f arranged S] assms(4) ms by (simp add: comp_def)
    qed
    ultimately show False using assms(5) by linarith
  qed
  then show ?thesis using k(1,2) by (simp add: sourceAt_def)
qed

end
