(* ===== verification/Witness_Wallet.thy ===== *)
theory Witness_Wallet
  imports Coin_Select
begin

text \<open>
  Concrete inputs for the theorems about authoring and coin selection: a script library with
  fixed answers and two coins.
\<close>

section \<open>Authoring\<close>

definition lib1 :: wireLib where
  "lib1 = \<lparr>VarIntSerializeSize = (\<lambda>n. if n < 253 then 1 else if n \<le> 65535 then 3 else if n < 2 ^ 32 then 5 else 9),
     TxOutSerializeSize = (\<lambda>out. 8 + 1 + int (length (PkScript out))),
     NewTxOut = (\<lambda>v s. \<lparr>Value = v, PkScript = s\<rparr>),
     NewTxIn = (\<lambda>op. \<lparr>PreviousOutPoint = op, SignatureScript = [], Witness = [], Sequence = - 1\<rparr>),
     TxVersion = 1, IsPayToScriptHash = (\<lambda>_. False), IsPayToWitnessPubKeyHash = (\<lambda>s. length s = 22),
     IsPayToTaproot = (\<lambda>s. length s = 34), isNullData = (\<lambda>_. False),
     mempoolIsDust = (\<lambda>out _. Value out <s 294), MaxLoki = 10000000, WitnessScaleFactor = 4\<rparr>"

definition coin1 :: coin where
  "coin1 = \<lparr>coinTxOut = \<lparr>Value = 5000, PkScript = replicate 22 0\<rparr>, coinOutPoint = \<lparr>opHash = 1, opIndex = 0\<rparr>\<rparr>"
definition coin2 :: coin where
  "coin2 = \<lparr>coinTxOut = \<lparr>Value = 3000, PkScript = replicate 22 0\<rparr>, coinOutPoint = \<lparr>opHash = 2, opIndex = 1\<rparr>\<rparr>"
definition pay1 :: txOut where "pay1 = \<lparr>Value = 4000, PkScript = replicate 22 1\<rparr>"

lemma fits1: "amounts_fit lib1 [pay1] [coin1, coin2]"
proof -
  have v: "sint (5000 :: amount) = 5000" "sint (3000 :: amount) = 3000" "sint (4000 :: amount) = 4000"
    "sint (10000000 :: amount) = 10000000" by code_simp+
  have s: "sint (SumOutputValues [pay1]) = 4000" by (simp add: SumOutputValues_def pay1_def v)
  show ?thesis
    by (simp add: amounts_fit_def s) (simp add: coinValue_def coin1_def coin2_def lib1_def v)
qed

lemma authoring_terminates_witness:
  "\<exists>r. CalculateTransactionFee lib1 [pay1] 1000 (makeInputSource lib1) (initSource [coin1, coin2]) 22 = Some r"
  using authoring_terminates[OF fits1, of 1000 22 "replicate 22 1"] by (elim exE conjE) (rule exI)

lemma tx1_run:
  "case NewUnsignedTransaction lib1 [pay1] 1000 (makeInputSource lib1) (initSource [coin1, coin2]) 22
      (Inr (replicate 22 2)) of
     Some (Inr tx) \<Rightarrow> TotalInput tx = 5000 \<and> ChangeIndex tx = 1 | _ \<Rightarrow> False"
  unfolding NewUnsignedTransaction_def by (subst authorLoop.simps) code_simp

lemma NewUnsignedTransaction_pays_witness:
  "\<exists>tx. NewUnsignedTransaction lib1 [pay1] 1000 (makeInputSource lib1) (initSource [coin1, coin2]) 22
      (Inr (replicate 22 2)) = Some (Inr tx)
    \<and> take 1 (TxOut (Tx tx)) = [pay1]
    \<and> TotalInput tx - SumOutputValues (TxOut (Tx tx)) = requiredFee lib1 [pay1] 1000 22 (PrevScripts tx)"
proof -
  from tx1_run obtain tx where r: "NewUnsignedTransaction lib1 [pay1] 1000 (makeInputSource lib1)
      (initSource [coin1, coin2]) 22 (Inr (replicate 22 2)) = Some (Inr tx)" and c: "ChangeIndex tx = 1"
    by (auto split: option.splits sum.splits)
  have n: "Value (NewTxOut lib1 v sc) = v" for v sc by (simp add: lib1_def)
  note p = NewUnsignedTransaction_pays[OF r n refl]
  have "take 1 (TxOut (Tx tx)) = [pay1]" using p by simp
  moreover have "0 \<le> ChangeIndex tx" using c by simp
  ultimately show ?thesis using p r by blast
qed

section \<open>Coin selection\<close>

definition out1 :: creditInfo where
  "out1 = \<lparr>ciOutPoint = \<lparr>opHash = 1, opIndex = 0\<rparr>,
     ciBlockMeta = \<lparr>metaBlock = \<lparr>bHash = 7, bHeight = 100\<rparr>, metaTime = 0\<rparr>, ciAmount = 5000,
     ciPkScript = [1], ciReceived = 0, ciFromCoinBase = False\<rparr>"

definition el1 :: "(nat, nat) eligibility" where
  "el1 = \<lparr>allowUtxo = None, lockedOutpoint = (\<lambda>op. opHash op = 9), extractAddrs = (\<lambda>s. Some [length s]),
     addrAccount = (\<lambda>a. Some (a, 0)), elKeyScope = Some 1, elAccount = 0, elMinConf = 6, elMaturity = 100,
     elCurHeight = 105\<rparr>"

end
