(* ===== verification/Tx_Codec.thy ===== *)
theory Tx_Codec
  imports Tx_Types
begin

unbundle bit_operations_syntax

text \<open>
  The keys and values that \<open>wtxmgr/db.go\<close> writes into its buckets, byte by byte, in the order
  of the file, with the length checks of the readers.  Reading past the end of a slice whose length
  the code does not check is \<open>GoPanic\<close>.  The locale \<open>fixed_codec\<close> states what a
  fixed-width encoding promises (width and round trip) and derives injectivity and
  prefix-freeness once; every key encoding is an interpretation of it.
\<close>

section \<open>Outpoints and blocks\<close>

definition canonicalOutPoint :: "hash \<Rightarrow> u32 \<Rightarrow> bytes" where
  "canonicalOutPoint txHash index = hashBytes txHash @ putUint32 index"

definition readCanonicalOutPoint :: "bytes \<Rightarrow> outPoint res" where
  "readCanonicalOutPoint k =
     (if length k < 36 then Inl (storeError ErrData)
      else Inr \<lparr>opHash = hashOf k, opIndex = uint32_of (slice k 32 36)\<rparr>)"

definition keyBlockRecord :: "height \<Rightarrow> bytes" where
  "keyBlockRecord height = putUint32 height"

definition valueBlockRecord :: "blockMeta \<Rightarrow> hash \<Rightarrow> bytes" where
  "valueBlockRecord block txHash =
     hashBytes (bHash (metaBlock block)) @ putUint64 (timeWord (metaTime block)) @
     putUint32 1 @ hashBytes txHash"

definition appendRawBlockRecord :: "bytes \<Rightarrow> hash \<Rightarrow> bytes res" where
  "appendRawBlockRecord v txHash =
     (if length v < 44 then Inl (storeError ErrData)
      else
        let newv = v @ hashBytes txHash;
            n = uint32_of (slice newv 40 44)
        in Inr (patch newv 40 (putUint32 (n + 1))))"

definition readRawBlockRecord :: "bytes \<Rightarrow> bytes \<Rightarrow> blockRecord res" where
  "readRawBlockRecord k v =
     (if length k < 4 then Inl (storeError ErrData)
      else if length v < 44 then Inl (storeError ErrData)
      else
        let numTransactions = unat (uint32_of (slice v 40 44));
            expectedLen = 44 + 32 * numTransactions
        in if length v < expectedLen then Inl (storeError ErrData)
           else Inr \<lparr>recBlock = \<lparr>bHash = hashOf v, bHeight = uint32_of k\<rparr>,
                     recTime = wordTime (uint64_of (slice v 32 40)),
                     recTransactions =
                       map (\<lambda>i. hashOf (drop (44 + 32 * i) v)) [0..<numTransactions]\<rparr>)"

section \<open>Transaction records\<close>

definition keyTxRecord :: "hash \<Rightarrow> block \<Rightarrow> bytes" where
  "keyTxRecord txHash block = hashBytes txHash @ putUint32 (bHeight block) @ hashBytes (bHash block)"

definition valueTxRecord :: "env \<Rightarrow> txRecord \<Rightarrow> bytes res" where
  "valueTxRecord E rec =
     (case SerializedTx rec of
        None \<Rightarrow> (case serializeTx E (MsgTx rec) of
            None \<Rightarrow> Inl (storeError ErrInput)
          | Some bs \<Rightarrow> Inr (putUint64 (timeWord (Received rec)) @ bs))
      | Some bs \<Rightarrow> Inr (putUint64 (timeWord (Received rec)) @ bs))"

definition readRawTxRecord :: "env \<Rightarrow> hash \<Rightarrow> bytes \<Rightarrow> txRecord res" where
  "readRawTxRecord E txHash v =
     (if length v < 8 then Inl (storeError ErrData)
      else case deserializeTx E (drop 8 v) of
          None \<Rightarrow> Inl (storeError ErrData)
        | Some tx \<Rightarrow> Inr \<lparr>MsgTx = tx, Hash = txHash, Received = wordTime (uint64_of v),
                         SerializedTx = None\<rparr>)"

definition readRawTxRecordBlock :: "bytes \<Rightarrow> block res" where
  "readRawTxRecordBlock k =
     (if length k < 68 then Inl (storeError ErrData)
      else Inr \<lparr>bHash = hashOf (slice k 36 68), bHeight = uint32_of (slice k 32 36)\<rparr>)"

definition fetchRawTxRecordPkScript :: "env \<Rightarrow> bytes \<Rightarrow> bytes \<Rightarrow> u32 \<Rightarrow> bytes res" where
  "fetchRawTxRecordPkScript E k v index =
     bindE (readRawTxRecord E (hashOf k) v) (\<lambda>rec.
       if unat index \<ge> length (TxOut (MsgTx rec)) then Inl (storeError ErrData)
       else Inr (PkScript (TxOut (MsgTx rec) ! unat index)))"

section \<open>Credits\<close>

definition keyCredit :: "hash \<Rightarrow> u32 \<Rightarrow> block \<Rightarrow> bytes" where
  "keyCredit txHash index block =
     hashBytes txHash @ putUint32 (bHeight block) @ hashBytes (bHash block) @ putUint32 index"

definition valueUnspentCredit :: "credit \<Rightarrow> bytes" where
  "valueUnspentCredit cred =
     putUint64 (credAmount cred) @ [if credChange cred then push_bit 1 1 else 0]"

definition extractRawCreditTxRecordKey :: "bytes \<Rightarrow> bytes res" where
  "extractRawCreditTxRecordKey k = (if length k < 68 then Inl GoPanic else Inr (slice k 0 68))"

definition extractRawCreditIndex :: "bytes \<Rightarrow> u32 res" where
  "extractRawCreditIndex k =
     (if length k < 72 then Inl GoPanic else Inr (uint32_of (slice k 68 72)))"

definition flagSpent :: "bytes \<Rightarrow> bool" where
  "flagSpent v \<longleftrightarrow> v ! 8 AND push_bit 0 1 \<noteq> 0"

definition flagChange :: "bytes \<Rightarrow> bool" where
  "flagChange v \<longleftrightarrow> v ! 8 AND push_bit 1 1 \<noteq> 0"

definition fetchRawCreditAmount :: "bytes \<Rightarrow> amount res" where
  "fetchRawCreditAmount v =
     (if length v < 9 then Inl (storeError ErrData) else Inr (uint64_of v))"

definition fetchRawCreditAmountSpent :: "bytes \<Rightarrow> (amount \<times> bool) res" where
  "fetchRawCreditAmountSpent v =
     (if length v < 9 then Inl (storeError ErrData) else Inr (uint64_of v, flagSpent v))"

definition fetchRawCreditAmountChange :: "bytes \<Rightarrow> (amount \<times> bool) res" where
  "fetchRawCreditAmountChange v =
     (if length v < 9 then Inl (storeError ErrData) else Inr (uint64_of v, flagChange v))"

definition fetchRawCreditUnspentValue :: "bytes \<Rightarrow> bytes res" where
  "fetchRawCreditUnspentValue k =
     (if length k < 72 then Inl (storeError ErrData) else Inr (slice k 32 68))"

text \<open>The value \<open>spendCredit\<close> writes, and the one \<open>unspendRawCredit\<close> writes.\<close>

definition valueSpentCredit :: "bytes \<Rightarrow> indexedIncidence \<Rightarrow> bytes" where
  "valueSpentCredit v spender =
     (let v1 = copyN 81 v;
          v2 = v1[8 := v1 ! 8 OR push_bit 0 1];
          v3 = patch v2 9 (hashBytes (incTxHash spender));
          v4 = patch v3 41 (putUint32 (bHeight (incBlock spender)));
          v5 = patch v4 45 (hashBytes (bHash (incBlock spender)))
      in patch v5 77 (putUint32 (incIndex spender)))"

definition valueRestoredCredit :: "bytes \<Rightarrow> bytes" where
  "valueRestoredCredit v =
     (let newv = copyN 9 v in newv[8 := newv ! 8 AND NOT (push_bit 0 1)])"

section \<open>Unspent index and debits\<close>

definition valueUnspent :: "block \<Rightarrow> bytes" where
  "valueUnspent block = putUint32 (bHeight block) @ hashBytes (bHash block)"

definition readUnspentBlock :: "bytes \<Rightarrow> block res" where
  "readUnspentBlock v =
     (if length v < 36 then Inl (storeError ErrData)
      else Inr \<lparr>bHash = hashOf (slice v 4 36), bHeight = uint32_of v\<rparr>)"

text \<open>The credit key \<open>existsRawUnspent\<close> assembles from an unspent entry.\<close>

definition unspentCredKey :: "bytes \<Rightarrow> bytes \<Rightarrow> bytes" where
  "unspentCredKey k v = slice k 0 32 @ take 36 v @ slice k 32 36"

definition keyDebit :: "hash \<Rightarrow> u32 \<Rightarrow> block \<Rightarrow> bytes" where
  "keyDebit txHash index block =
     hashBytes txHash @ putUint32 (bHeight block) @ hashBytes (bHash block) @ putUint32 index"

definition valueDebit :: "amount \<Rightarrow> bytes \<Rightarrow> bytes" where
  "valueDebit amount credKey = putUint64 amount @ copyN 72 credKey"

definition extractRawDebitCreditKey :: "bytes \<Rightarrow> bytes res" where
  "extractRawDebitCreditKey v = (if length v < 80 then Inl GoPanic else Inr (slice v 8 80))"

section \<open>Unmined records\<close>

definition readRawUnminedHash :: "bytes \<Rightarrow> hash res" where
  "readRawUnminedHash k = (if length k < 32 then Inl (storeError ErrData) else Inr (hashOf k))"

definition valueUnminedCredit :: "amount \<Rightarrow> bool \<Rightarrow> bytes" where
  "valueUnminedCredit amount change = putUint64 amount @ [if change then push_bit 1 1 else 0]"

definition fetchRawUnminedCreditIndex :: "bytes \<Rightarrow> u32 res" where
  "fetchRawUnminedCreditIndex k =
     (if length k < 36 then Inl (storeError ErrData) else Inr (uint32_of (slice k 32 36)))"

definition fetchRawUnminedCreditAmount :: "bytes \<Rightarrow> amount res" where
  "fetchRawUnminedCreditAmount v =
     (if length v < 9 then Inl (storeError ErrData) else Inr (uint64_of v))"

definition fetchRawUnminedCreditAmountChange :: "bytes \<Rightarrow> (amount \<times> bool) res" where
  "fetchRawUnminedCreditAmountChange v =
     (if length v < 9 then Inl (storeError ErrData) else Inr (uint64_of v, flagChange v))"

section \<open>Output locks and labels\<close>

definition serializeLockedOutput :: "lockID \<Rightarrow> gotime \<Rightarrow> bytes" where
  "serializeLockedOutput lid expiry = hashBytes lid @ putUint64 (timeWord expiry)"

definition deserializeLockedOutput :: "bytes \<Rightarrow> (lockID \<times> gotime) res" where
  "deserializeLockedOutput v =
     (if length v < 40 then Inl GoPanic
      else Inr (hashOf (take 32 v), wordTime (uint64_of (drop 32 v))))"

definition serializeLabel :: "bytes \<Rightarrow> bytes" where
  "serializeLabel label = putUint16 (word_of_nat (length label)) @ label"

definition DeserializeLabel :: "bytes \<Rightarrow> bytes res" where
  "DeserializeLabel v =
     (if length v < 2 then Inl GoPanic
      else if uint16_of (slice v 0 2) = 0 then Inl ErrEmptyLabel
      else Inr (drop 2 v))"

section \<open>What a fixed-width encoding promises\<close>

locale fixed_codec =
  fixes enc :: "'a \<Rightarrow> bytes"
    and dec :: "bytes \<Rightarrow> 'a res"
    and width :: nat
  assumes length_enc: "length (enc x) = width"
    and dec_enc: "dec (enc x) = Inr x"
begin

lemma enc_inj: "enc x = enc y \<longleftrightarrow> x = y"
  by (metis dec_enc sum.inject(2))

lemma enc_append_inj: "enc x @ r = enc y @ s \<longleftrightarrow> x = y \<and> r = s"
  using enc_inj by (auto simp: append_eq_append_conv length_enc)

lemma hasPrefix_enc: "hasPrefix (enc x @ r) (enc y) \<longleftrightarrow> x = y"
  by (auto simp: hasPrefix_iff enc_append_inj)

end

text \<open>An exact encoding also loses nothing: every string of the width is the encoding of its reading.\<close>

locale exact_codec = fixed_codec +
  assumes enc_dec: "length bs = width \<Longrightarrow> dec bs = Inr x \<Longrightarrow> enc x = bs"
    and dec_total: "length bs = width \<Longrightarrow> \<exists>x. dec bs = Inr x"
begin

lemma enc_surj: "length bs = width \<longleftrightarrow> (\<exists>x. bs = enc x)"
  using dec_total enc_dec length_enc by metis

end

lemma take_hashBytes_append [simp, codec_simps]:
  "take 32 (hashBytes h @ r) = hashBytes h" "drop 32 (hashBytes h @ r) = r"
  "slice (hashBytes h @ r) 0 32 = hashBytes h"
  by (simp_all add: slice_def)

lemma split_at: "length bs = a + b \<Longrightarrow> bs = take a bs @ drop a bs \<and> length (take a bs) = a \<and> length (drop a bs) = b"
  by simp

lemma take_drop_join: "a \<le> b \<Longrightarrow> take a xs @ slice xs a b = take b xs"
  by (metis slice_def take_add le_add_diff_inverse)

definition encOutPoint :: "outPoint \<Rightarrow> bytes" where
  "encOutPoint op = canonicalOutPoint (opHash op) (opIndex op)"

lemma length_canonicalOutPoint [simp, codec_simps]: "length (canonicalOutPoint h i) = 36"
  by (simp add: canonicalOutPoint_def)

interpretation outpoint_codec: exact_codec encOutPoint readCanonicalOutPoint 36
proof unfold_locales
  show "length (encOutPoint x) = 36" for x by (simp add: encOutPoint_def)
  show "readCanonicalOutPoint (encOutPoint x) = Inr x" for x
    by (simp add: encOutPoint_def readCanonicalOutPoint_def canonicalOutPoint_def slice_def)
  show "\<exists>x. readCanonicalOutPoint bs = Inr x" if "length bs = 36" for bs
    using that by (simp add: readCanonicalOutPoint_def)
  show "encOutPoint x = bs" if l: "length bs = 36" and d: "readCanonicalOutPoint bs = Inr x" for bs x
  proof -
    have hh: "hashOf bs = hashOf (take 32 bs)" using l by (simp add: hashOf_def copyN_def)
    have "slice bs 32 36 = drop 32 bs" using l by (simp add: slice_def)
    moreover have "length (drop 32 bs) = 4" using l by simp
    ultimately have "putUint32 (uint32_of (slice bs 32 36)) = drop 32 bs" by simp
    moreover have "hashBytes (hashOf bs) = take 32 bs" using l unfolding hh by simp
    ultimately show ?thesis
      using d l by (auto simp: readCanonicalOutPoint_def encOutPoint_def canonicalOutPoint_def)
  qed
qed

lemma canonicalOutPoint_inj [simp]:
  "canonicalOutPoint h i = canonicalOutPoint h' i' \<longleftrightarrow> h = h' \<and> i = i'"
  using outpoint_codec.enc_inj[of "\<lparr>opHash = h, opIndex = i\<rparr>" "\<lparr>opHash = h', opIndex = i'\<rparr>"]
  by (simp add: encOutPoint_def)

lemma hasPrefix_canonicalOutPoint [simp]:
  "hasPrefix (canonicalOutPoint h i) (hashBytes h') \<longleftrightarrow> h = h'"
  by (auto simp: hasPrefix_def canonicalOutPoint_def)

section \<open>Keys of mined records\<close>

definition encTxKey :: "hash \<times> block \<Rightarrow> bytes" where
  "encTxKey p = keyTxRecord (fst p) (snd p)"

definition decTxKey :: "bytes \<Rightarrow> (hash \<times> block) res" where
  "decTxKey k = bindE (readRawTxRecordBlock k) (\<lambda>b. Inr (hashOf k, b))"

definition encCreditKey :: "hash \<times> block \<times> u32 \<Rightarrow> bytes" where
  "encCreditKey p = (case p of (h, b, i) \<Rightarrow> keyCredit h i b)"

definition decCreditKey :: "bytes \<Rightarrow> (hash \<times> block \<times> u32) res" where
  "decCreditKey k =
     bindE (extractRawCreditIndex k) (\<lambda>i. bindE (decTxKey k) (\<lambda>(h, b). Inr (h, b, i)))"

lemma length_keys [simp, codec_simps]:
  "length (keyBlockRecord ht) = 4"
  "length (keyTxRecord h b) = 68"
  "length (keyCredit h i b) = 72"
  "length (keyDebit h i b) = 72"
  "length (valueUnspent b) = 36"
  "length (valueUnspentCredit c) = 9"
  "length (valueUnminedCredit a ch) = 9"
  "length (valueDebit a ck) = 80"
  "length (serializeLockedOutput lid t) = 40"
  "length (valueBlockRecord bm h) = 76"
  by (simp_all add: keyBlockRecord_def keyTxRecord_def keyCredit_def keyDebit_def valueUnspent_def
      valueUnspentCredit_def valueUnminedCredit_def valueDebit_def serializeLockedOutput_def
      valueBlockRecord_def)

lemma keyDebit_eq: "keyDebit = keyCredit"
  by (simp add: fun_eq_iff keyDebit_def keyCredit_def)

lemma keyCredit_eq: "keyCredit h i b = keyTxRecord h b @ putUint32 i"
  by (simp add: keyCredit_def keyTxRecord_def)

lemma readRawTxRecordBlock_key [simp]:
  "readRawTxRecordBlock (keyTxRecord h b) = Inr b"
  "readRawTxRecordBlock (keyTxRecord h b @ r) = Inr b"
  by (simp_all add: readRawTxRecordBlock_def keyTxRecord_def slice_def)

interpretation txkey_codec: fixed_codec encTxKey decTxKey 68
  by unfold_locales (auto simp: encTxKey_def decTxKey_def, simp add: keyTxRecord_def)

interpretation creditkey_codec: fixed_codec encCreditKey decCreditKey 72
proof unfold_locales
  fix x :: "hash \<times> block \<times> u32"
  obtain h b i where x: "x = (h, b, i)" by (cases x)
  show "length (encCreditKey x) = 72" by (simp add: encCreditKey_def x)
  have "extractRawCreditIndex (keyCredit h i b) = Inr i"
    by (simp add: extractRawCreditIndex_def keyCredit_def slice_def)
  moreover have "decTxKey (keyCredit h i b) = Inr (h, b)"
    by (simp add: decTxKey_def keyCredit_eq) (simp add: keyTxRecord_def)
  ultimately show "decCreditKey (encCreditKey x) = Inr x"
    by (simp add: decCreditKey_def encCreditKey_def x)
qed

interpretation unspent_codec: exact_codec valueUnspent readUnspentBlock 36
proof unfold_locales
  show "length (valueUnspent x) = 36" for x by simp
  show "readUnspentBlock (valueUnspent x) = Inr x" for x
    by (simp add: readUnspentBlock_def valueUnspent_def slice_def)
  show "\<exists>x. readUnspentBlock bs = Inr x" if "length bs = 36" for bs
    using that by (simp add: readUnspentBlock_def)
  show "valueUnspent x = bs" if l: "length bs = 36" and d: "readUnspentBlock bs = Inr x" for bs x
  proof -
    have "hashBytes (hashOf (slice bs 4 36)) = drop 4 bs" using l by (simp add: slice_def)
    moreover have "uint32_of bs = uint32_of (take 4 bs)" by (simp add: uint32_of_def)
    moreover have "putUint32 (uint32_of (take 4 bs)) = take 4 bs" using l by simp
    ultimately show ?thesis using d l by (auto simp: readUnspentBlock_def valueUnspent_def)
  qed
qed

lemma keyTxRecord_inj [simp]: "keyTxRecord h b = keyTxRecord h' b' \<longleftrightarrow> h = h' \<and> b = b'"
  using txkey_codec.enc_inj[of "(h, b)" "(h', b')"] by (simp add: encTxKey_def)

lemma keyCredit_inj [simp]: "keyCredit h i b = keyCredit h' i' b' \<longleftrightarrow> h = h' \<and> i = i' \<and> b = b'"
  using creditkey_codec.enc_inj[of "(h, b, i)" "(h', b', i')"] by (auto simp: encCreditKey_def)

lemma keyBlockRecord_inj [simp]: "keyBlockRecord a = keyBlockRecord b \<longleftrightarrow> a = b"
  by (simp add: keyBlockRecord_def)

lemma hasPrefix_keyCredit [simp]: "hasPrefix (keyCredit h i b) (keyTxRecord h' b') \<longleftrightarrow> h = h' \<and> b = b'"
  using txkey_codec.hasPrefix_enc[of "(h, b)" "putUint32 i" "(h', b')"]
  by (simp add: keyCredit_eq encTxKey_def)

lemma hasPrefix_keyTxRecord [simp]: "hasPrefix (keyTxRecord h b) (hashBytes h') \<longleftrightarrow> h = h'"
  by (auto simp: hasPrefix_def keyTxRecord_def)

lemma unspentCredKey_enc [simp]:
  "unspentCredKey (canonicalOutPoint h i) (valueUnspent b) = keyCredit h i b"
  by (simp add: unspentCredKey_def canonicalOutPoint_def slice_def keyCredit_def valueUnspent_def)

lemma unspentCredKey_inj:
  assumes "length k = 36" "length k' = 36" "length v = 36" "length v' = 36"
    and "unspentCredKey k v = unspentCredKey k' v'"
  shows "k = k'"
proof -
  obtain p p' where k: "k = encOutPoint p" "k' = encOutPoint p'"
    using assms(1,2) outpoint_codec.enc_surj by blast
  obtain b b' where v: "v = valueUnspent b" "v' = valueUnspent b'"
    using assms(3,4) unspent_codec.enc_surj by blast
  show ?thesis using assms(5) by (auto simp: k v encOutPoint_def)
qed

lemma length_unspentCredKey [simp]:
  "length k = 36 \<Longrightarrow> length v = 36 \<Longrightarrow> length (unspentCredKey k v) = 72"
  by (simp add: unspentCredKey_def slice_def)

lemma fetchRawCreditUnspentValue_key [simp]:
  "fetchRawCreditUnspentValue (keyCredit h i b) = Inr (valueUnspent b)"
  by (simp add: fetchRawCreditUnspentValue_def keyCredit_def valueUnspent_def slice_def)

section \<open>Credit values\<close>

lemma uint64_of_cong: "take 8 v = take 8 w \<Longrightarrow> uint64_of v = uint64_of w"
  by (simp add: uint64_of_def)

lemma uint64_of_values [simp]:
  "uint64_of (valueUnspentCredit c) = credAmount c"
  "uint64_of (valueUnminedCredit a ch) = a"
  "uint64_of (valueDebit a ck) = a"
  by (simp_all add: valueUnspentCredit_def valueUnminedCredit_def valueDebit_def)

lemma flags_values [simp]:
  "\<not> flagSpent (valueUnspentCredit c)"
  "flagChange (valueUnspentCredit c) = credChange c"
  "\<not> flagSpent (valueUnminedCredit a ch)"
  "flagChange (valueUnminedCredit a ch) = ch"
  by (simp_all add: flagSpent_def flagChange_def valueUnspentCredit_def valueUnminedCredit_def nth_append)

lemma nth_patch_before: "i < off \<Longrightarrow> off \<le> length v \<Longrightarrow> patch v off bs ! i = v ! i"
  by (simp add: patch_def nth_append)

lemma take_patch_before: "n \<le> off \<Longrightarrow> off \<le> length v \<Longrightarrow> take n (patch v off bs) = take n v"
  by (simp add: patch_def min_def)

lemma length_valueSpentCredit [simp, codec_simps]: "length (valueSpentCredit v s) = 81"
  by (simp add: valueSpentCredit_def Let_def)

lemma valueSpentCredit_head:
  "take 9 (valueSpentCredit v s) = (take 9 (copyN 81 v))[8 := copyN 81 v ! 8 OR 1]"
  by (simp add: valueSpentCredit_def Let_def take_patch_before take_update_swap)

lemma valueSpentCredit_nth8: "valueSpentCredit v s ! 8 = copyN 81 v ! 8 OR 1"
  by (simp add: valueSpentCredit_def Let_def nth_patch_before)

lemma take_copyN: "m \<le> n \<Longrightarrow> m \<le> length v \<Longrightarrow> take m (copyN n v) = take m v"
  by (simp add: copyN_def min_def)

lemma nth_copyN: "i < n \<Longrightarrow> i < length v \<Longrightarrow> copyN n v ! i = v ! i"
  by (simp add: copyN_def nth_append)

lemma valueSpentCredit_fields:
  assumes "9 \<le> length v"
  shows "uint64_of (valueSpentCredit v s) = uint64_of v"
    and "flagSpent (valueSpentCredit v s)"
    and "flagChange (valueSpentCredit v s) = flagChange v"
proof -
  have "take 8 (valueSpentCredit v s) = take 8 (take 9 (valueSpentCredit v s))" by (simp add: min_def)
  also have "\<dots> = take 8 v"
    using assms by (simp add: valueSpentCredit_head take_copyN min_def)
  finally show "uint64_of (valueSpentCredit v s) = uint64_of v" by (rule uint64_of_cong)
  have "(x OR 1) AND 1 \<noteq> (0::byte)" for x by (simp add: bit_eq_iff bit_simps) (auto intro!: exI[of _ 0])
  then show "flagSpent (valueSpentCredit v s)" by (simp add: flagSpent_def valueSpentCredit_nth8)
  have "(x OR 1) AND 2 = x AND (2::byte)" for x by (simp add: bit.conj_disj_distrib2)
  then show "flagChange (valueSpentCredit v s) = flagChange v"
    using assms by (simp add: flagChange_def valueSpentCredit_nth8 nth_copyN)
qed

lemma length_valueRestoredCredit [simp, codec_simps]: "length (valueRestoredCredit v) = 9"
  by (simp add: valueRestoredCredit_def Let_def)

lemma valueRestoredCredit_fields:
  assumes "9 \<le> length v"
  shows "uint64_of (valueRestoredCredit v) = uint64_of v"
    and "\<not> flagSpent (valueRestoredCredit v)"
    and "flagChange (valueRestoredCredit v) = flagChange v"
proof -
  have n8: "valueRestoredCredit v ! 8 = v ! 8 AND NOT 1"
    using assms by (simp add: valueRestoredCredit_def Let_def nth_copyN)
  show "uint64_of (valueRestoredCredit v) = uint64_of v"
    using assms by (intro uint64_of_cong) (simp add: valueRestoredCredit_def Let_def take_copyN)
  have "(x AND NOT 1) AND 1 = (0::byte)" for x
    by (simp add: and.assoc)
  then show "\<not> flagSpent (valueRestoredCredit v)" by (simp add: flagSpent_def n8)
  have "(x AND NOT 1) AND 2 = x AND (2::byte)" for x by (simp add: and.assoc)
  then show "flagChange (valueRestoredCredit v) = flagChange v" by (simp add: flagChange_def n8)
qed

text \<open>Restoring a credit that was marked spent gives back the unspent value byte for byte.\<close>

lemma valueRestored_valueSpent:
  assumes "length v = 9" "\<not> flagSpent v"
  shows "valueRestoredCredit (valueSpentCredit v s) = v"
proof -
  have "copyN 9 (valueSpentCredit v s) = take 9 (valueSpentCredit v s)" by (simp add: copyN_def)
  also have "\<dots> = v[8 := v ! 8 OR 1]"
    using assms(1) by (simp add: valueSpentCredit_head take_copyN nth_copyN)
  finally have c: "copyN 9 (valueSpentCredit v s) = v[8 := v ! 8 OR 1]" .
  have "(x OR 1) AND NOT 1 = x" if "x AND 1 = (0::byte)" for x
  proof -
    have "(x OR 1) AND NOT 1 = x AND NOT 1" by (simp add: bit.conj_disj_distrib2)
    also have "\<dots> = (x AND NOT 1) OR (x AND 1)" using that by simp
    also have "\<dots> = x" by (simp add: bit.conj_disj_distrib [symmetric])
    finally show ?thesis .
  qed
  moreover have "v ! 8 AND 1 = 0" using assms(2) by (simp add: flagSpent_def)
  ultimately show ?thesis
    using assms(1) by (simp add: valueRestoredCredit_def Let_def c list_update_same_conv)
qed

section \<open>Transaction, block, lock and label values\<close>

lemma valueTxRecord_eq:
  "valueTxRecord E r = Inr v \<Longrightarrow> rec_ok E r \<Longrightarrow>
    \<exists>bs. v = putUint64 (timeWord (Received r)) @ bs \<and> deserializeTx E bs = Some (MsgTx r)"
  by (auto simp: valueTxRecord_def rec_ok_def split: option.splits)

lemma valueTxRecord_total: "rec_ok E r \<Longrightarrow> \<exists>v. valueTxRecord E r = Inr v"
  by (auto simp: valueTxRecord_def rec_ok_def split: option.splits)

lemma readRawTxRecord_value:
  assumes "valueTxRecord E r = Inr v" "rec_ok E r"
  shows "readRawTxRecord E h v = Inr \<lparr>MsgTx = MsgTx r, Hash = h,
    Received = wordTime (timeWord (Received r)), SerializedTx = None\<rparr>"
  using valueTxRecord_eq[OF assms] by (auto simp: readRawTxRecord_def)

lemma readRawTxRecord_Hash: "readRawTxRecord E h v = Inr r \<Longrightarrow> Hash r = h"
  by (auto simp: readRawTxRecord_def split: option.splits if_splits)

lemma appendRawBlockRecord_length:
  "appendRawBlockRecord v h = Inr w \<Longrightarrow> length w = length v + 32"
  by (auto simp: appendRawBlockRecord_def Let_def split: if_splits)

lemma readRawBlockRecord_value:
  "readRawBlockRecord (keyBlockRecord (bHeight (metaBlock bm))) (valueBlockRecord bm h) =
    Inr \<lparr>recBlock = metaBlock bm, recTime = wordTime (timeWord (metaTime bm)), recTransactions = [h]\<rparr>"
proof -
  let ?v = "valueBlockRecord bm h"
  have n: "slice ?v 40 44 = putUint32 1" "slice ?v 32 40 = putUint64 (timeWord (metaTime bm))"
    by (simp_all add: valueBlockRecord_def slice_def)
  have "hashOf ?v = bHash (metaBlock bm)" "drop 44 ?v = hashBytes h"
    by (simp_all add: valueBlockRecord_def)
  then show ?thesis by (simp add: readRawBlockRecord_def n keyBlockRecord_def)
qed

definition block_value_ok :: "bytes \<Rightarrow> bool" where
  "block_value_ok v \<longleftrightarrow> 44 \<le> length v \<and> length v = 44 + 32 * unat (uint32_of (slice v 40 44))"

lemma block_value_ok_new: "block_value_ok (valueBlockRecord bm h)"
  by (simp add: block_value_ok_def valueBlockRecord_def slice_def)

lemma appendRawBlockRecord_fields:
  assumes "appendRawBlockRecord v h = Inr w"
  shows "take 40 w = take 40 v" "slice w 40 44 = putUint32 (uint32_of (slice v 40 44) + 1)"
    "drop 44 w = drop 44 v @ hashBytes h" "44 \<le> length v" "slice w 32 40 = slice v 32 40"
    "hashOf w = hashOf v"
proof -
  have l: "44 \<le> length v" using assms by (auto simp: appendRawBlockRecord_def split: if_splits)
  have sl: "slice (v @ hashBytes h) 40 44 = slice v 40 44" using l by (simp add: slice_def)
  have w: "w = take 40 v @ putUint32 (uint32_of (slice v 40 44) + 1) @ drop 44 v @ hashBytes h"
    using assms l sl by (auto simp: appendRawBlockRecord_def Let_def patch_def)
  show t: "take 40 w = take 40 v" using l by (simp add: w)
  show "slice w 40 44 = putUint32 (uint32_of (slice v 40 44) + 1)" "drop 44 w = drop 44 v @ hashBytes h"
    using l by (simp_all add: w slice_def)
  show "44 \<le> length v" by (rule l)
  have "slice w 32 40 = drop 32 (take 40 w)" "slice v 32 40 = drop 32 (take 40 v)"
    by (simp_all add: slice_def drop_take)
  then show "slice w 32 40 = slice v 32 40" using t by simp
  have "take 32 w = take 32 v" using t by (metis min.absorb1 numeral_le_iff take_take semiring_norm(68,71,72,73))
  moreover have "32 \<le> length w" using l by (simp add: w)
  ultimately show "hashOf w = hashOf v" using l by (simp add: hashOf_def copyN_def)
qed

text \<open>
  Appending a hash to a well-formed block record yields a well-formed record that reads back as
  the same block with one more transaction, as long as the 32-bit counter does not wrap.
\<close>

lemma readRawBlockRecord_append:
  assumes rd: "readRawBlockRecord k v = Inr b" and ok: "block_value_ok v"
    and app: "appendRawBlockRecord v h = Inr w"
    and small: "unat (uint32_of (slice v 40 44)) + 1 < 2 ^ 32"
  shows "readRawBlockRecord k w = Inr (b\<lparr>recTransactions := recTransactions b @ [h]\<rparr>)"
    and "block_value_ok w"
proof -
  note f = appendRawBlockRecord_fields[OF app]
  let ?n = "unat (uint32_of (slice v 40 44))"
  have n': "unat (uint32_of (slice w 40 44)) = Suc ?n"
    using small by (simp add: f unat_word_ariths)
  have lw: "length w = length v + 32" by (rule appendRawBlockRecord_length[OF app])
  have lv: "length v = 44 + 32 * ?n" using ok by (simp add: block_value_ok_def)
  show "block_value_ok w" using lw lv f(4) by (simp add: block_value_ok_def n')
  have dw: "drop (44 + j) w = drop j (drop 44 v @ hashBytes h)" for j
    using f(3) drop_drop[of j 44 w] by (simp add: add.commute)
  have old: "hashOf (drop (44 + 32 * i) w) = hashOf (drop (44 + 32 * i) v)" if "i < ?n" for i
  proof -
    have "drop (44 + 32 * i) w = drop (32 * i) (drop 44 v @ hashBytes h)" by (rule dw)
    also have "\<dots> = drop (44 + 32 * i) v @ hashBytes h"
      using that lv by (simp add: add.commute)
    finally have d: "drop (44 + 32 * i) w = drop (44 + 32 * i) v @ hashBytes h" .
    have "32 \<le> length (drop (44 + 32 * i) v)" using that lv by simp
    then show ?thesis unfolding d by (simp add: hashOf_def copyN_def)
  qed
  have new: "hashOf (drop (44 + 32 * ?n) w) = h"
  proof -
    have "drop (44 + 32 * ?n) w = drop (32 * ?n) (drop 44 v @ hashBytes h)" by (rule dw)
    also have "\<dots> = hashBytes h" using lv by simp
    finally show ?thesis by simp
  qed
  have ts: "map (\<lambda>i. hashOf (drop (44 + 32 * i) w)) [0..<Suc ?n]
      = map (\<lambda>i. hashOf (drop (44 + 32 * i) v)) [0..<?n] @ [h]"
    using old new by simp
  have "\<not> length k < 4" using rd by (auto simp: readRawBlockRecord_def split: if_splits)
  with rd lv lw show "readRawBlockRecord k w = Inr (b\<lparr>recTransactions := recTransactions b @ [h]\<rparr>)"
    unfolding readRawBlockRecord_def Let_def n' ts f(5,6) by auto
qed

lemma deserializeLockedOutput_serialize:
  "deserializeLockedOutput (serializeLockedOutput lid t) = Inr (lid, wordTime (timeWord t))"
  by (simp add: deserializeLockedOutput_def serializeLockedOutput_def)

lemma DeserializeLabel_serialize:
  assumes "label \<noteq> []" "length label < 2 ^ 16"
  shows "DeserializeLabel (serializeLabel label) = Inr label"
proof -
  have "(word_of_nat (length label) :: 16 word) \<noteq> 0"
    using assms by (simp add: word_of_nat_eq_0_iff nat_dvd_not_less)
  then show ?thesis
    by (simp add: DeserializeLabel_def serializeLabel_def slice_def)
qed

end
