(* ===== verification/Tx_Db.thy ===== *)
theory Tx_Db
  imports Tx_Codec
begin

text \<open>
  The open transaction store and the primitive accesses of \<open>wtxmgr/db.go\<close>: one field per
  nested bucket that \<open>createBuckets\<close> makes, the two buckets that may be missing as options,
  and the root key/value pairs in \<open>sRoot\<close>.  Every \<open>put\<close> and \<open>delete\<close> asks the
  environment whether the database refuses it; a refused write is the error the code returns.
\<close>

record store =
  sRoot :: bucket
  sBlocks :: bucket
  sTxRecords :: bucket
  sCredits :: bucket
  sUnspent :: bucket
  sDebits :: bucket
  sUnmined :: bucket
  sUnminedCredits :: bucket
  sUnminedInputs :: bucket
  sLockedOutputs :: "bucket option"
  sTxLabels :: "bucket option"

definition rootMinedBalance :: bytes where "rootMinedBalance = [0x62, 0x61, 0x6c]"
definition rootVersion :: bytes where "rootVersion = [0x76, 0x65, 0x72, 0x73]"
definition rootCreateDate :: bytes where "rootCreateDate = [0x64, 0x61, 0x74, 0x65]"

definition dbGuard :: "env \<Rightarrow> dbOp \<Rightarrow> goerr \<Rightarrow> unit res" where
  "dbGuard E op e = (if dbFails E op then Inl e else Inr ())"

lemma dbGuard_Inr [simp]: "dbGuard E op e = Inr u \<longleftrightarrow> \<not> dbFails E op"
  by (simp add: dbGuard_def)

lemma dbGuard_ok [simp]: "db_ok E \<Longrightarrow> dbGuard E op e = Inr ()"
  by (simp add: dbGuard_def db_ok_def)

section \<open>Mined balance\<close>

definition fetchMinedBalance :: "store \<Rightarrow> amount res" where
  "fetchMinedBalance ns =
     (let v = bucketGet (sRoot ns) rootMinedBalance in
      if glen v \<noteq> 8 then Inl (storeError ErrData) else Inr (uint64_of (orNil v)))"

definition putMinedBalance :: "env \<Rightarrow> store \<Rightarrow> amount \<Rightarrow> store res" where
  "putMinedBalance E ns amt =
     (let v = putUint64 amt in
      bindE (dbGuard E (DbPut Root rootMinedBalance v) (storeError ErrDatabase)) (\<lambda>_.
      Inr (ns\<lparr>sRoot := bucketPut (sRoot ns) rootMinedBalance v\<rparr>)))"

section \<open>Block records\<close>

definition putRawBlockRecord :: "env \<Rightarrow> store \<Rightarrow> bytes \<Rightarrow> bytes \<Rightarrow> store res" where
  "putRawBlockRecord E ns k v =
     bindE (dbGuard E (DbPut Blocks k v) (storeError ErrDatabase)) (\<lambda>_.
     Inr (ns\<lparr>sBlocks := bucketPut (sBlocks ns) k v\<rparr>))"

definition putBlockRecord :: "env \<Rightarrow> store \<Rightarrow> blockMeta \<Rightarrow> hash \<Rightarrow> store res" where
  "putBlockRecord E ns block txHash =
     putRawBlockRecord E ns (keyBlockRecord (bHeight (metaBlock block))) (valueBlockRecord block txHash)"

definition fetchBlockTime :: "store \<Rightarrow> height \<Rightarrow> gotime res" where
  "fetchBlockTime ns height =
     (let v = bucketGet (sBlocks ns) (keyBlockRecord height) in
      if glen v < 44 then Inl (storeError ErrData)
      else Inr (wordTime (uint64_of (slice (orNil v) 32 40))))"

definition existsBlockRecord :: "store \<Rightarrow> height \<Rightarrow> bytes \<times> bytes option" where
  "existsBlockRecord ns height =
     (let k = keyBlockRecord height in (k, bucketGet (sBlocks ns) k))"

definition deleteBlockRecord :: "env \<Rightarrow> store \<Rightarrow> height \<Rightarrow> store res" where
  "deleteBlockRecord E ns height =
     (let k = keyBlockRecord height in
      bindE (dbGuard E (DbDelete Blocks k) DbErr) (\<lambda>_.
      Inr (ns\<lparr>sBlocks := bucketDelete (sBlocks ns) k\<rparr>)))"

section \<open>Transaction records\<close>

definition putTxRecord :: "env \<Rightarrow> store \<Rightarrow> txRecord \<Rightarrow> block \<Rightarrow> store res" where
  "putTxRecord E ns rec block =
     (let k = keyTxRecord (Hash rec) block in
      bindE (valueTxRecord E rec) (\<lambda>v.
      bindE (dbGuard E (DbPut TxRecords k v) (storeError ErrDatabase)) (\<lambda>_.
      Inr (ns\<lparr>sTxRecords := bucketPut (sTxRecords ns) k v\<rparr>))))"

definition putRawTxRecord :: "env \<Rightarrow> store \<Rightarrow> bytes \<Rightarrow> bytes \<Rightarrow> store res" where
  "putRawTxRecord E ns k v =
     bindE (dbGuard E (DbPut TxRecords k v) (storeError ErrDatabase)) (\<lambda>_.
     Inr (ns\<lparr>sTxRecords := bucketPut (sTxRecords ns) k v\<rparr>))"

definition existsTxRecord :: "store \<Rightarrow> hash \<Rightarrow> block \<Rightarrow> bytes \<times> bytes option" where
  "existsTxRecord ns txHash block =
     (let k = keyTxRecord txHash block in (k, bucketGet (sTxRecords ns) k))"

definition existsRawTxRecord :: "store \<Rightarrow> bytes \<Rightarrow> bytes option" where
  "existsRawTxRecord ns k = bucketGet (sTxRecords ns) k"

definition fetchTxRecord :: "env \<Rightarrow> store \<Rightarrow> hash \<Rightarrow> block \<Rightarrow> txRecord res" where
  "fetchTxRecord E ns txHash block =
     readRawTxRecord E txHash (orNil (bucketGet (sTxRecords ns) (keyTxRecord txHash block)))"

definition deleteTxRecord :: "env \<Rightarrow> store \<Rightarrow> hash \<Rightarrow> block \<Rightarrow> store res" where
  "deleteTxRecord E ns txHash block =
     (let k = keyTxRecord txHash block in
      bindE (dbGuard E (DbDelete TxRecords k) DbErr) (\<lambda>_.
      Inr (ns\<lparr>sTxRecords := bucketDelete (sTxRecords ns) k\<rparr>)))"

text \<open>\<open>for bytes.HasPrefix(ck, prefix) { last = ck, cv; ck, cv = c.Next() }\<close>, from a cursor.\<close>

lemma cursorNext_some:
  "cursorNext c = (Some e, c') \<Longrightarrow>
    length (entries_after (curBucket c') (curPos c')) < length (entries_after (curBucket c) (curPos c))"
  by (auto simp: cursorNext_eq split: list.splits dest!: entries_after_tail)

function latestLoop :: "bytes \<Rightarrow> cursor \<Rightarrow> entry option \<Rightarrow> entry option \<Rightarrow> entry option" where
  "latestLoop pre c cur lst =
     (case cur of
        None \<Rightarrow> lst
      | Some e \<Rightarrow>
          if hasPrefix (fst e) pre
          then (case cursorNext c of
                  (None, c') \<Rightarrow> Some e
                | (Some e', c') \<Rightarrow> latestLoop pre c' (Some e') (Some e))
          else lst)"
  by pat_completeness auto
termination
  by (relation "measure (\<lambda>(_, c, _, _). length (entries_after (curBucket c) (curPos c)))")
    (auto dest: sym dest!: cursorNext_some)

declare latestLoop.simps [simp del]

definition latestTxRecord :: "store \<Rightarrow> hash \<Rightarrow> entry option" where
  "latestTxRecord ns txHash =
     (let prefix = hashBytes txHash;
          (cur, c) = cursorSeek (readCursor (sTxRecords ns)) prefix
      in latestLoop prefix c cur None)"

section \<open>Credits\<close>

definition putRawCredit :: "env \<Rightarrow> store \<Rightarrow> bytes \<Rightarrow> bytes \<Rightarrow> store res" where
  "putRawCredit E ns k v =
     bindE (dbGuard E (DbPut Credits k v) (storeError ErrDatabase)) (\<lambda>_.
     Inr (ns\<lparr>sCredits := bucketPut (sCredits ns) k v\<rparr>))"

definition putUnspentCredit :: "env \<Rightarrow> store \<Rightarrow> credit \<Rightarrow> store res" where
  "putUnspentCredit E ns cred =
     putRawCredit E ns (keyCredit (opHash (credOutPoint cred)) (opIndex (credOutPoint cred)) (credBlock cred))
       (valueUnspentCredit cred)"

definition spendCredit :: "env \<Rightarrow> store \<Rightarrow> bytes \<Rightarrow> indexedIncidence \<Rightarrow> (amount \<times> store) res" where
  "spendCredit E ns k spender =
     (let v = valueSpentCredit (orNil (bucketGet (sCredits ns) k)) spender in
      bindE (putRawCredit E ns k v) (\<lambda>ns. Inr (uint64_of (slice v 0 8), ns)))"

definition unspendRawCredit :: "env \<Rightarrow> store \<Rightarrow> bytes \<Rightarrow> (amount \<times> store) res" where
  "unspendRawCredit E ns k =
     (case bucketGet (sCredits ns) k of
        None \<Rightarrow> Inr (0, ns)
      | Some v \<Rightarrow>
          let newv = valueRestoredCredit v in
          bindE (dbGuard E (DbPut Credits k newv) (storeError ErrDatabase)) (\<lambda>_.
          if length v < 8 then Inl GoPanic
          else Inr (uint64_of (slice v 0 8), ns\<lparr>sCredits := bucketPut (sCredits ns) k newv\<rparr>)))"

definition existsCredit :: "store \<Rightarrow> hash \<Rightarrow> u32 \<Rightarrow> block \<Rightarrow> bytes \<times> bytes option" where
  "existsCredit ns txHash index block =
     (let k = keyCredit txHash index block in (k, bucketGet (sCredits ns) k))"

definition existsRawCredit :: "store \<Rightarrow> bytes \<Rightarrow> bytes option" where
  "existsRawCredit ns k = bucketGet (sCredits ns) k"

definition deleteRawCredit :: "env \<Rightarrow> store \<Rightarrow> bytes \<Rightarrow> store res" where
  "deleteRawCredit E ns k =
     bindE (dbGuard E (DbDelete Credits k) (storeError ErrDatabase)) (\<lambda>_.
     Inr (ns\<lparr>sCredits := bucketDelete (sCredits ns) k\<rparr>))"

section \<open>Unspent index\<close>

definition putUnspent :: "env \<Rightarrow> store \<Rightarrow> outPoint \<Rightarrow> block \<Rightarrow> store res" where
  "putUnspent E ns outPoint block =
     (let k = canonicalOutPoint (opHash outPoint) (opIndex outPoint); v = valueUnspent block in
      bindE (dbGuard E (DbPut Unspent k v) (storeError ErrDatabase)) (\<lambda>_.
      Inr (ns\<lparr>sUnspent := bucketPut (sUnspent ns) k v\<rparr>)))"

definition putRawUnspent :: "env \<Rightarrow> store \<Rightarrow> bytes \<Rightarrow> bytes \<Rightarrow> store res" where
  "putRawUnspent E ns k v =
     bindE (dbGuard E (DbPut Unspent k v) (storeError ErrDatabase)) (\<lambda>_.
     Inr (ns\<lparr>sUnspent := bucketPut (sUnspent ns) k v\<rparr>))"

definition existsRawUnspent :: "store \<Rightarrow> bytes \<Rightarrow> bytes option" where
  "existsRawUnspent ns k =
     (if length k < 36 then None
      else let v = bucketGet (sUnspent ns) k in
           if glen v < 36 then None else Some (unspentCredKey k (orNil v)))"

definition existsUnspent :: "store \<Rightarrow> outPoint \<Rightarrow> bytes \<times> bytes option" where
  "existsUnspent ns outPoint =
     (let k = canonicalOutPoint (opHash outPoint) (opIndex outPoint) in (k, existsRawUnspent ns k))"

definition deleteRawUnspent :: "env \<Rightarrow> store \<Rightarrow> bytes \<Rightarrow> store res" where
  "deleteRawUnspent E ns k =
     bindE (dbGuard E (DbDelete Unspent k) (storeError ErrDatabase)) (\<lambda>_.
     Inr (ns\<lparr>sUnspent := bucketDelete (sUnspent ns) k\<rparr>))"

section \<open>Debits\<close>

definition putDebit :: "env \<Rightarrow> store \<Rightarrow> hash \<Rightarrow> u32 \<Rightarrow> amount \<Rightarrow> block \<Rightarrow> bytes \<Rightarrow> store res" where
  "putDebit E ns txHash index amount block credKey =
     (let k = keyDebit txHash index block; v = valueDebit amount credKey in
      bindE (dbGuard E (DbPut Debits k v) (storeError ErrDatabase)) (\<lambda>_.
      Inr (ns\<lparr>sDebits := bucketPut (sDebits ns) k v\<rparr>)))"

definition existsDebit :: "store \<Rightarrow> hash \<Rightarrow> u32 \<Rightarrow> block \<Rightarrow> (bytes \<times> bytes) option res" where
  "existsDebit ns txHash index block =
     (let k = keyDebit txHash index block in
      case bucketGet (sDebits ns) k of
        None \<Rightarrow> Inr None
      | Some v \<Rightarrow>
          if length v < 80 then Inl (storeError ErrData) else Inr (Some (k, slice v 8 80)))"

definition deleteRawDebit :: "env \<Rightarrow> store \<Rightarrow> bytes \<Rightarrow> store res" where
  "deleteRawDebit E ns k =
     bindE (dbGuard E (DbDelete Debits k) (storeError ErrDatabase)) (\<lambda>_.
     Inr (ns\<lparr>sDebits := bucketDelete (sDebits ns) k\<rparr>))"

section \<open>Unmined transactions, credits and inputs\<close>

definition putRawUnmined :: "env \<Rightarrow> store \<Rightarrow> bytes \<Rightarrow> bytes \<Rightarrow> store res" where
  "putRawUnmined E ns k v =
     bindE (dbGuard E (DbPut Unmined k v) (storeError ErrDatabase)) (\<lambda>_.
     Inr (ns\<lparr>sUnmined := bucketPut (sUnmined ns) k v\<rparr>))"

definition existsRawUnmined :: "store \<Rightarrow> bytes \<Rightarrow> bytes option" where
  "existsRawUnmined ns k = bucketGet (sUnmined ns) k"

definition deleteRawUnmined :: "env \<Rightarrow> store \<Rightarrow> bytes \<Rightarrow> store res" where
  "deleteRawUnmined E ns k =
     bindE (dbGuard E (DbDelete Unmined k) (storeError ErrDatabase)) (\<lambda>_.
     Inr (ns\<lparr>sUnmined := bucketDelete (sUnmined ns) k\<rparr>))"

definition putRawUnminedCredit :: "env \<Rightarrow> store \<Rightarrow> bytes \<Rightarrow> bytes \<Rightarrow> store res" where
  "putRawUnminedCredit E ns k v =
     bindE (dbGuard E (DbPut UnminedCredits k v) (storeError ErrDatabase)) (\<lambda>_.
     Inr (ns\<lparr>sUnminedCredits := bucketPut (sUnminedCredits ns) k v\<rparr>))"

definition existsRawUnminedCredit :: "store \<Rightarrow> bytes \<Rightarrow> bytes option" where
  "existsRawUnminedCredit ns k = bucketGet (sUnminedCredits ns) k"

definition deleteRawUnminedCredit :: "env \<Rightarrow> store \<Rightarrow> bytes \<Rightarrow> store res" where
  "deleteRawUnminedCredit E ns k =
     bindE (dbGuard E (DbDelete UnminedCredits k) (storeError ErrDatabase)) (\<lambda>_.
     Inr (ns\<lparr>sUnminedCredits := bucketDelete (sUnminedCredits ns) k\<rparr>))"

definition putRawUnminedInput :: "env \<Rightarrow> store \<Rightarrow> bytes \<Rightarrow> bytes \<Rightarrow> store res" where
  "putRawUnminedInput E ns k v =
     (let spendTxHashes = orNil (bucketGet (sUnminedInputs ns) k) @ v in
      bindE (dbGuard E (DbPut UnminedInputs k spendTxHashes) (storeError ErrDatabase)) (\<lambda>_.
      Inr (ns\<lparr>sUnminedInputs := bucketPut (sUnminedInputs ns) k spendTxHashes\<rparr>)))"

definition existsRawUnminedInput :: "store \<Rightarrow> bytes \<Rightarrow> bytes option" where
  "existsRawUnminedInput ns k = bucketGet (sUnminedInputs ns) k"

text \<open>The loop that reads 32 bytes at a time, and panics on a shorter rest.\<close>

function spendHashes :: "bytes \<Rightarrow> hash list res" where
  "spendHashes raw =
     (if length raw = 0 then Inr []
      else if length raw < 32 then Inl GoPanic
      else bindE (spendHashes (drop 32 raw)) (\<lambda>hs. Inr (hashOf (take 32 raw) # hs)))"
  by pat_completeness auto
termination by (relation "measure length") auto

declare spendHashes.simps [simp del]

definition fetchUnminedInputSpendTxHashes :: "store \<Rightarrow> bytes \<Rightarrow> hash list res" where
  "fetchUnminedInputSpendTxHashes ns k =
     (case bucketGet (sUnminedInputs ns) k of None \<Rightarrow> Inr [] | Some raw \<Rightarrow> spendHashes raw)"

definition chunks32 :: "bytes \<Rightarrow> bytes list" where
  "chunks32 v = map (\<lambda>i. slice v (32 * i) (32 * i + 32)) [0..<length v div 32]"

definition deleteRawUnminedInput :: "env \<Rightarrow> store \<Rightarrow> bytes \<Rightarrow> hash \<Rightarrow> store res" where
  "deleteRawUnminedInput E ns outPointKey targetSpendHash =
     (let spendHashes = orNil (bucketGet (sUnminedInputs ns) outPointKey) in
      if length spendHashes = 0 then Inr ns
      else
        let newSpendHashes = concat (filter (\<lambda>h. hashBytes targetSpendHash \<noteq> h) (chunks32 spendHashes)) in
        if length newSpendHashes = 0 then
          bindE (dbGuard E (DbDelete UnminedInputs outPointKey) (storeError ErrDatabase)) (\<lambda>_.
          Inr (ns\<lparr>sUnminedInputs := bucketDelete (sUnminedInputs ns) outPointKey\<rparr>))
        else
          bindE (dbGuard E (DbPut UnminedInputs outPointKey newSpendHashes) (storeError ErrDatabase)) (\<lambda>_.
          Inr (ns\<lparr>sUnminedInputs := bucketPut (sUnminedInputs ns) outPointKey newSpendHashes\<rparr>)))"

section \<open>Locked outputs\<close>

definition isLockedOutput :: "store \<Rightarrow> outPoint \<Rightarrow> gotime \<Rightarrow> (lockID \<times> gotime \<times> bool) res" where
  "isLockedOutput ns op timeNow =
     (case sLockedOutputs ns of
        None \<Rightarrow> Inr (0, zeroTime, False)
      | Some lockedOutputs \<Rightarrow>
          (case bucketGet lockedOutputs (canonicalOutPoint (opHash op) (opIndex op)) of
             None \<Rightarrow> Inr (0, zeroTime, False)
           | Some v \<Rightarrow>
               bindE (deserializeLockedOutput v) (\<lambda>(lockID, expiry).
               if \<not> timeNow < expiry then Inr (0, zeroTime, False)
               else Inr (lockID, expiry, True))))"

definition lockOutput :: "env \<Rightarrow> store \<Rightarrow> lockID \<Rightarrow> outPoint \<Rightarrow> gotime \<Rightarrow> store res" where
  "lockOutput E ns lockid op expiry =
     bindE (dbGuard E (DbCreate LockedOutputs) (storeError ErrDatabase)) (\<lambda>_.
     let lockedOutputs = (case sLockedOutputs ns of None \<Rightarrow> bucketEmpty | Some b \<Rightarrow> b);
         k = canonicalOutPoint (opHash op) (opIndex op); v = serializeLockedOutput lockid expiry in
     bindE (dbGuard E (DbPut LockedOutputs k v) (storeError ErrDatabase)) (\<lambda>_.
     Inr (ns\<lparr>sLockedOutputs := Some (bucketPut lockedOutputs k v)\<rparr>)))"

definition unlockOutput :: "env \<Rightarrow> store \<Rightarrow> outPoint \<Rightarrow> store res" where
  "unlockOutput E ns op =
     (case sLockedOutputs ns of
        None \<Rightarrow> Inr ns
      | Some lockedOutputs \<Rightarrow>
          let k = canonicalOutPoint (opHash op) (opIndex op) in
          bindE (dbGuard E (DbDelete LockedOutputs k) (storeError ErrDatabase)) (\<lambda>_.
          Inr (ns\<lparr>sLockedOutputs := Some (bucketDelete lockedOutputs k)\<rparr>)))"

text \<open>The triples passed to the callback of \<open>forEachLockedOutput\<close>, in order.\<close>

definition forEachLockedOutput :: "store \<Rightarrow> (outPoint \<times> lockID \<times> gotime) list res" where
  "forEachLockedOutput ns =
     (case sLockedOutputs ns of
        None \<Rightarrow> Inr []
      | Some lockedOutputs \<Rightarrow>
          mapE (\<lambda>(k, v).
            bindE (readCanonicalOutPoint k) (\<lambda>op.
            bindE (deserializeLockedOutput v) (\<lambda>(lockID, expiry).
            Inr (op, lockID, expiry)))) (entries lockedOutputs))"

end
