(* ===== verification/Tx_Iter.thy ===== *)
theory Tx_Iter
  imports Tx_Db
begin

unbundle bit_operations_syntax

text \<open>
  The iterators of \<open>wtxmgr/db.go\<close>.  The three prefix iterators (credits, debits, unmined
  credits) have the same fields and the same \<open>next\<close> up to their \<open>readElem\<close>, so they
  share the record \<open>iter\<close> and \<open>iterNext\<close>; \<open>iterRun\<close> is the loop
  \<open>for it.next()\<close>, returning the visited keys, values and elements and the final iterator.
  The locale \<open>prefix_iterator\<close> shows once that such a loop visits exactly the entries with
  the prefix, in key order, up to the first one that does not decode.  The block iterator moves
  both ways.
\<close>

lemma length_entries_after_le: "length (entries_after b s) \<le> length (entries b)"
  by (simp add: entries_after_def)

lemma length_entries_before_le: "length (entries_before b s) \<le> length (entries b)"
  using length_filter_le[of _ "rev (entries b)"] by (simp add: entries_before_def)

section \<open>Prefix iterators\<close>

record 'e iter =
  itC :: "cursor option"
  itPrefix :: bytes
  itCk :: "bytes option"
  itCv :: "bytes option"
  itElem :: 'e
  itErr :: "goerr option"

definition iterNext :: "('e iter \<Rightarrow> 'e res) \<Rightarrow> 'e iter \<Rightarrow> bool \<times> 'e iter" where
  "iterNext readElem it =
     (case itC it of
        None \<Rightarrow> (False, it)
      | Some c \<Rightarrow>
          let (e, c') = (if itCk it = None then cursorSeek c (itPrefix it) else cursorNext c);
              it = it\<lparr>itC := Some c', itCk := map_option fst e, itCv := map_option snd e\<rparr>
          in if \<not> hasPrefix (orNil (itCk it)) (itPrefix it) then (False, it\<lparr>itC := None\<rparr>)
             else (case readElem it of
                     Inl err \<Rightarrow> (False, it\<lparr>itErr := Some err\<rparr>)
                   | Inr el \<Rightarrow> (True, it\<lparr>itElem := el\<rparr>)))"

definition iterLeft :: "'e iter \<Rightarrow> nat" where
  "iterLeft it = (case itC it of None \<Rightarrow> 0 | Some c \<Rightarrow>
     (if itCk it = None then Suc (length (entries (curBucket c)))
      else length (entries_after (curBucket c) (curPos c))))"

lemma iterNext_left:
  assumes "iterNext f it = (True, it')" "itCk it' \<noteq> None"
  shows "iterLeft it' < iterLeft it"
proof -
  obtain c where c: "itC it = Some c" using assms(1) by (auto simp: iterNext_def split: option.splits)
  obtain e c' where ec: "(if itCk it = None then cursorSeek c (itPrefix it) else cursorNext c) = (e, c')"
    by fastforce
  from assms c ec have e: "e \<noteq> None" and it': "itC it' = Some c'" "itCk it' = map_option fst e"
    by (auto simp: iterNext_def Let_def split: if_splits sum.splits)
  then obtain e' where e': "e = Some e'" by blast
  show ?thesis
  proof (cases "itCk it = None")
    case True
    with ec e' have "cursorSeek c (itPrefix it) = (Some e', c')" by simp
    then have "curBucket c' = curBucket c" by (auto simp: cursorSeek_eq split: list.splits)
    then show ?thesis
      using True c it' e' length_entries_after_le[of "curBucket c" "curPos c'"]
      by (simp add: iterLeft_def)
  next
    case False
    with ec e' have "cursorNext c = (Some e', c')" by auto
    from cursorNext_some[OF this] show ?thesis using False c it' e' by (auto simp: iterLeft_def)
  qed
qed

function iterRun :: "('e iter \<Rightarrow> 'e res) \<Rightarrow> 'e iter \<Rightarrow> (bytes \<times> bytes \<times> 'e) list \<times> 'e iter" where
  "iterRun readElem it =
     (case iterNext readElem it of
        (cont, it') \<Rightarrow>
          if cont \<and> itCk it' \<noteq> None
          then (case iterRun readElem it' of
                  (xs, fin) \<Rightarrow> ((orNil (itCk it'), orNil (itCv it'), itElem it') # xs, fin))
          else ([], it'))"
  by pat_completeness auto
termination
proof (relation "measure (\<lambda>(_, it). iterLeft it)", goal_cases)
  case (2 f it cont it')
  then show ?case using iterNext_left[of f it it'] by (cases cont) auto
qed simp

declare iterRun.simps [simp del]

text \<open>The entries a run visits, and the error it stops with.\<close>

fun scanAll :: "(bytes \<Rightarrow> bytes \<Rightarrow> 'e res) \<Rightarrow> entry list \<Rightarrow>
    (bytes \<times> bytes \<times> 'e) list \<times> goerr option" where
  "scanAll rd [] = ([], None)"
| "scanAll rd ((k, v) # es) =
     (case rd k v of
        Inl err \<Rightarrow> ([], Some err)
      | Inr x \<Rightarrow> (case scanAll rd es of (xs, err) \<Rightarrow> ((k, v, x) # xs, err)))"

locale prefix_iterator =
  fixes readElem :: "'e iter \<Rightarrow> 'e res"
    and rd :: "bytes \<Rightarrow> bytes \<Rightarrow> 'e res"
    and ok :: "'e \<Rightarrow> bool"
  assumes readElem_eq: "ok (itElem it) \<Longrightarrow> readElem it = rd (orNil (itCk it)) (orNil (itCv it))"
    and rd_ok: "rd k v = Inr e \<Longrightarrow> ok e"
begin

abbreviation visited :: "(bytes \<times> bytes \<times> 'e) list \<times> 'e iter \<Rightarrow>
    (bytes \<times> bytes \<times> 'e) list \<times> goerr option" where
  "visited r \<equiv> (fst r, itErr (snd r))"

lemma run_after:
  assumes "itC it = Some c" "itCk it \<noteq> None" "itPrefix it = p" "p \<noteq> []" "itErr it = None"
    and "ok (itElem it)"
  shows "visited (iterRun readElem it) =
    scanAll rd (takeWhile (\<lambda>e. hasPrefix (fst e) p) (entries_after (curBucket c) (curPos c)))"
  using assms
proof (induction "length (entries_after (curBucket c) (curPos c))" arbitrary: it c rule: less_induct)
  case less
  let ?b = "curBucket c"
  obtain ck where ck: "itCk it = Some ck" using less.prems(2) by blast
  show ?case
  proof (cases "entries_after ?b (curPos c)")
    case Nil
    then have "cursorNext c = (None, c)" by (simp add: cursorNext_eq)
    then have "iterNext readElem it = (False, it\<lparr>itC := None, itCk := None, itCv := None\<rparr>)"
      using less.prems ck by (simp add: iterNext_def hasPrefix_def)
    then show ?thesis using Nil less.prems by (simp add: iterRun.simps)
  next
    case (Cons e es)
    let ?c' = "c\<lparr>curPos := fst e\<rparr>"
    have tl: "entries_after ?b (fst e) = es" by (rule entries_after_tail[OF Cons])
    have nx: "cursorNext c = (Some e, ?c')" by (simp add: cursorNext_eq Cons)
    let ?it1 = "it\<lparr>itC := Some ?c', itCk := Some (fst e), itCv := Some (snd e)\<rparr>"
    have re: "readElem ?it1 = rd (fst e) (snd e)" using readElem_eq[of ?it1] less.prems(6) by simp
    show ?thesis
    proof (cases "hasPrefix (fst e) p")
      case False
      then have "iterNext readElem it = (False, ?it1\<lparr>itC := None\<rparr>)"
        using less.prems ck nx by (simp add: iterNext_def)
      then show ?thesis using False Cons less.prems by (simp add: iterRun.simps)
    next
      case True
      show ?thesis
      proof (cases "rd (fst e) (snd e)")
        case (Inl err)
        then have "iterNext readElem it = (False, ?it1\<lparr>itErr := Some err\<rparr>)"
          using less.prems ck nx True re by (simp add: iterNext_def)
        then show ?thesis using True Cons Inl by (cases e) (simp add: iterRun.simps)
      next
        case (Inr x)
        let ?it2 = "?it1\<lparr>itElem := x\<rparr>"
        have n: "iterNext readElem it = (True, ?it2)"
          using less.prems ck nx True re Inr by (simp add: iterNext_def)
        have "visited (iterRun readElem ?it2) =
            scanAll rd (takeWhile (\<lambda>e. hasPrefix (fst e) p) (entries_after ?b (fst e)))"
          using less.hyps[of ?c' ?it2] less.prems tl Cons rd_ok[OF Inr] by simp
        then show ?thesis
          using True Cons Inr tl by (cases e) (auto simp: iterRun.simps[of _ it] n split: prod.splits)
      qed
    qed
  qed
qed

text \<open>A fresh iterator visits exactly the entries carrying its prefix, in key order.\<close>

lemma run_fresh:
  assumes "p \<noteq> []" "ok el"
  shows "visited (iterRun readElem
      \<lparr>itC = Some (readCursor b), itPrefix = p, itCk = None, itCv = None, itElem = el, itErr = None\<rparr>)
    = scanAll rd (prefix_entries b p)"
proof -
  let ?it = "\<lparr>itC = Some (readCursor b), itPrefix = p, itCk = None, itCv = None, itElem = el, itErr = None\<rparr>"
  let ?c = "readCursor b"
  have cb: "curBucket ?c = b" by (simp add: readCursor_def)
  show ?thesis
  proof (cases "entries_from b p")
    case Nil
    then have "cursorSeek ?c p = (None, ?c\<lparr>curPos := p\<rparr>)" by (simp add: cursorSeek_eq cb)
    then have "iterNext readElem ?it = (False, ?it\<lparr>itC := None\<rparr>)"
      using assms by (simp add: iterNext_def hasPrefix_def)
    then show ?thesis using takeWhile_prefix_from[of p b] Nil by (simp add: iterRun.simps)
  next
    case (Cons e es)
    let ?c' = "?c\<lparr>curPos := fst e\<rparr>"
    let ?it1 = "?it\<lparr>itC := Some ?c', itCk := Some (fst e), itCv := Some (snd e)\<rparr>"
    have tl: "entries_after b (fst e) = es" by (rule entries_from_tail[OF Cons])
    have nx: "cursorSeek ?c p = (Some e, ?c')" by (simp add: cursorSeek_eq cb Cons)
    have re: "readElem ?it1 = rd (fst e) (snd e)" using readElem_eq[of ?it1] assms(2) by simp
    note pe = takeWhile_prefix_from[of p b, symmetric]
    show ?thesis
    proof (cases "hasPrefix (fst e) p")
      case False
      then have "iterNext readElem ?it = (False, ?it1\<lparr>itC := None\<rparr>)"
        using nx by (simp add: iterNext_def)
      then show ?thesis using False by (simp add: iterRun.simps pe Cons)
    next
      case True
      show ?thesis
      proof (cases "rd (fst e) (snd e)")
        case (Inl err)
        then have "iterNext readElem ?it = (False, ?it1\<lparr>itErr := Some err\<rparr>)"
          using nx True re by (simp add: iterNext_def)
        then show ?thesis using True Inl by (cases e) (simp add: iterRun.simps pe Cons)
      next
        case (Inr x)
        let ?it2 = "?it1\<lparr>itElem := x\<rparr>"
        have n: "iterNext readElem ?it = (True, ?it2)"
          using nx True re Inr by (simp add: iterNext_def)
        have "visited (iterRun readElem ?it2) =
            scanAll rd (takeWhile (\<lambda>e. hasPrefix (fst e) p) (entries_after b (fst e)))"
          using run_after[of ?it2 ?c' p] assms rd_ok[OF Inr] cb by simp
        then show ?thesis
          using True Inr tl by (cases e) (auto simp: iterRun.simps[of _ ?it] n pe Cons split: prod.splits)
      qed
    qed
  qed
qed

end

section \<open>The three prefix iterators\<close>

definition creditIterator_readElem :: "creditRecord iter \<Rightarrow> creditRecord res" where
  "creditIterator_readElem it =
     (let ck = orNil (itCk it); cv = orNil (itCv it) in
      if length ck < 72 then Inl (storeError ErrData)
      else if length cv < 9 then Inl (storeError ErrData)
      else Inr \<lparr>crAmount = uint64_of cv, crIndex = uint32_of (slice ck 68 72),
                crSpent = flagSpent cv, crChange = flagChange cv\<rparr>)"

definition debitIterator_readElem :: "debitRecord iter \<Rightarrow> debitRecord res" where
  "debitIterator_readElem it =
     (let ck = orNil (itCk it); cv = orNil (itCv it) in
      if length ck < 72 then Inl (storeError ErrData)
      else if length cv < 80 then Inl (storeError ErrData)
      else Inr \<lparr>drAmount = uint64_of cv, drIndex = uint32_of (slice ck 68 72)\<rparr>)"

definition unminedCreditIterator_readElem :: "creditRecord iter \<Rightarrow> creditRecord res" where
  "unminedCreditIterator_readElem it =
     bindE (fetchRawUnminedCreditIndex (orNil (itCk it))) (\<lambda>index.
     bindE (fetchRawUnminedCreditAmountChange (orNil (itCv it))) (\<lambda>(amount, change).
     Inr \<lparr>crAmount = amount, crIndex = index, crSpent = crSpent (itElem it), crChange = change\<rparr>))"

definition zeroCreditRecord :: creditRecord where
  "zeroCreditRecord = \<lparr>crAmount = 0, crIndex = 0, crSpent = False, crChange = False\<rparr>"
definition zeroDebitRecord :: debitRecord where
  "zeroDebitRecord = \<lparr>drAmount = 0, drIndex = 0\<rparr>"

definition makeCreditIterator :: "store \<Rightarrow> bytes \<Rightarrow> creditRecord iter" where
  "makeCreditIterator ns prefix = \<lparr>itC = Some (readCursor (sCredits ns)), itPrefix = prefix,
     itCk = None, itCv = None, itElem = zeroCreditRecord, itErr = None\<rparr>"

definition makeDebitIterator :: "store \<Rightarrow> bytes \<Rightarrow> debitRecord iter" where
  "makeDebitIterator ns prefix = \<lparr>itC = Some (readCursor (sDebits ns)), itPrefix = prefix,
     itCk = None, itCv = None, itElem = zeroDebitRecord, itErr = None\<rparr>"

definition makeUnminedCreditIterator :: "store \<Rightarrow> hash \<Rightarrow> creditRecord iter" where
  "makeUnminedCreditIterator ns txHash = \<lparr>itC = Some (readCursor (sUnminedCredits ns)),
     itPrefix = hashBytes txHash, itCk = None, itCv = None, itElem = zeroCreditRecord, itErr = None\<rparr>"

definition creditIterator_next :: "creditRecord iter \<Rightarrow> bool \<times> creditRecord iter" where
  "creditIterator_next = iterNext creditIterator_readElem"
definition debitIterator_next :: "debitRecord iter \<Rightarrow> bool \<times> debitRecord iter" where
  "debitIterator_next = iterNext debitIterator_readElem"
definition unminedCreditIterator_next :: "creditRecord iter \<Rightarrow> bool \<times> creditRecord iter" where
  "unminedCreditIterator_next = iterNext unminedCreditIterator_readElem"

text \<open>Decoding of one entry by each of them.\<close>

definition readCreditEntry :: "bytes \<Rightarrow> bytes \<Rightarrow> creditRecord res" where
  "readCreditEntry k v =
     (if length k < 72 \<or> length v < 9 then Inl (storeError ErrData)
      else Inr \<lparr>crAmount = uint64_of v, crIndex = uint32_of (slice k 68 72),
                crSpent = flagSpent v, crChange = flagChange v\<rparr>)"

definition readDebitEntry :: "bytes \<Rightarrow> bytes \<Rightarrow> debitRecord res" where
  "readDebitEntry k v =
     (if length k < 72 \<or> length v < 80 then Inl (storeError ErrData)
      else Inr \<lparr>drAmount = uint64_of v, drIndex = uint32_of (slice k 68 72)\<rparr>)"

definition readUnminedCreditEntry :: "bytes \<Rightarrow> bytes \<Rightarrow> creditRecord res" where
  "readUnminedCreditEntry k v =
     (if length k < 36 \<or> length v < 9 then Inl (storeError ErrData)
      else Inr \<lparr>crAmount = uint64_of v, crIndex = uint32_of (slice k 32 36),
                crSpent = False, crChange = flagChange v\<rparr>)"

interpretation credit_iter: prefix_iterator creditIterator_readElem readCreditEntry "\<lambda>_. True"
  by unfold_locales (simp_all add: creditIterator_readElem_def readCreditEntry_def Let_def)

interpretation debit_iter: prefix_iterator debitIterator_readElem readDebitEntry "\<lambda>_. True"
  by unfold_locales (simp_all add: debitIterator_readElem_def readDebitEntry_def Let_def)

interpretation unmined_credit_iter:
  prefix_iterator unminedCreditIterator_readElem readUnminedCreditEntry "\<lambda>e. \<not> crSpent e"
  by unfold_locales
    (auto simp: unminedCreditIterator_readElem_def readUnminedCreditEntry_def
      fetchRawUnminedCreditIndex_def fetchRawUnminedCreditAmountChange_def split: if_splits)

lemma hashBytes_nonempty [simp]: "hashBytes h \<noteq> []"
  using length_hashBytes[of h] by (metis list.size(3) zero_neq_numeral)

lemma unminedCreditIterator_run:
  "(fst (iterRun unminedCreditIterator_readElem (makeUnminedCreditIterator ns h)),
    itErr (snd (iterRun unminedCreditIterator_readElem (makeUnminedCreditIterator ns h))))
   = scanAll readUnminedCreditEntry (prefix_entries (sUnminedCredits ns) (hashBytes h))"
  unfolding makeUnminedCreditIterator_def
  by (rule unmined_credit_iter.run_fresh) (simp_all add: zeroCreditRecord_def)

lemma creditIterator_run:
  "p \<noteq> [] \<Longrightarrow> (fst (iterRun creditIterator_readElem (makeCreditIterator ns p)),
    itErr (snd (iterRun creditIterator_readElem (makeCreditIterator ns p))))
   = scanAll readCreditEntry (prefix_entries (sCredits ns) p)"
  unfolding makeCreditIterator_def by (rule credit_iter.run_fresh) simp_all

lemma debitIterator_run:
  "p \<noteq> [] \<Longrightarrow> (fst (iterRun debitIterator_readElem (makeDebitIterator ns p)),
    itErr (snd (iterRun debitIterator_readElem (makeDebitIterator ns p))))
   = scanAll readDebitEntry (prefix_entries (sDebits ns) p)"
  unfolding makeDebitIterator_def by (rule debit_iter.run_fresh) simp_all

text \<open>When every entry decodes, the scan returns them all.\<close>

lemma scanAll_ok:
  "(\<And>k v. (k, v) \<in> set es \<Longrightarrow> \<exists>x. rd k v = Inr x) \<Longrightarrow>
    snd (scanAll rd es) = None \<and> map (\<lambda>(k, v, x). (k, v)) (fst (scanAll rd es)) = es"
proof (induction rd es rule: scanAll.induct)
  case (2 rd k v es)
  then obtain x where "rd k v = Inr x" by fastforce
  moreover have "snd (scanAll rd es) = None \<and> map (\<lambda>(k, v, x). (k, v)) (fst (scanAll rd es)) = es"
    using 2 \<open>rd k v = Inr x\<close> by auto
  ultimately show ?case by (auto split: prod.splits)
qed simp

lemma scanAll_mem: "(k, v, x) \<in> set (fst (scanAll rd es)) \<Longrightarrow> (k, v) \<in> set es \<and> rd k v = Inr x"
  by (induction rd es rule: scanAll.induct) (auto split: sum.splits prod.splits)

section \<open>The block iterator\<close>

record blockIterator =
  biC :: "cursor option"
  biSeek :: bytes
  biCk :: "bytes option"
  biCv :: "bytes option"
  biElem :: blockRecord
  biErr :: "goerr option"

definition zeroBlockRecord :: blockRecord where
  "zeroBlockRecord = \<lparr>recBlock = \<lparr>bHash = 0, bHeight = 0\<rparr>, recTime = zeroTime, recTransactions = []\<rparr>"

definition makeBlockIterator :: "store \<Rightarrow> height \<Rightarrow> blockIterator" where
  "makeBlockIterator ns height = \<lparr>biC = Some (readCursor (sBlocks ns)), biSeek = putUint32 height,
     biCk = None, biCv = None, biElem = zeroBlockRecord, biErr = None\<rparr>"

definition makeReverseBlockIterator :: "store \<Rightarrow> blockIterator" where
  "makeReverseBlockIterator ns = \<lparr>biC = Some (readCursor (sBlocks ns)), biSeek = putUint32 (NOT 0),
     biCk = None, biCv = None, biElem = zeroBlockRecord, biErr = None\<rparr>"

text \<open>The common end of \<open>next\<close> and \<open>prev\<close>: stop on nil, else read the record.\<close>

definition biRead :: "blockIterator \<Rightarrow> entry option \<Rightarrow> cursor \<Rightarrow> bool \<times> blockIterator" where
  "biRead it e c =
     (let it = it\<lparr>biC := Some c, biCk := map_option fst e, biCv := map_option snd e\<rparr> in
      case e of
        None \<Rightarrow> (False, it\<lparr>biC := None\<rparr>)
      | Some (ck, cv) \<Rightarrow>
          (case readRawBlockRecord ck cv of
             Inl err \<Rightarrow> (False, it\<lparr>biC := None, biErr := Some err\<rparr>)
           | Inr b \<Rightarrow> (True, it\<lparr>biElem := b\<rparr>)))"

definition blockIterator_next :: "blockIterator \<Rightarrow> bool \<times> blockIterator" where
  "blockIterator_next it =
     (case biC it of
        None \<Rightarrow> (False, it)
      | Some c \<Rightarrow>
          (case (if biCk it = None then cursorSeek c (biSeek it) else cursorNext c) of
             (e, c') \<Rightarrow> biRead it e c'))"

definition blockIterator_prev :: "blockIterator \<Rightarrow> bool \<times> blockIterator" where
  "blockIterator_prev it =
     (case biC it of
        None \<Rightarrow> (False, it)
      | Some c \<Rightarrow>
          (case (if biCk it = None
                 then (case cursorSeek c (biSeek it) of
                         (e, c') \<Rightarrow>
                           if hasPrefix (orNil (map_option fst e)) (biSeek it) then (e, c')
                           else cursorPrev c')
                 else cursorPrev c) of
             (e, c') \<Rightarrow> biRead it e c'))"

definition blockIterator_reposition :: "blockIterator \<Rightarrow> height \<Rightarrow> blockIterator" where
  "blockIterator_reposition it height =
     (case biC it of
        None \<Rightarrow> it
      | Some c \<Rightarrow> it\<lparr>biC := Some (snd (cursorSeek c (keyBlockRecord height)))\<rparr>)"

lemma biRead_True:
  "biRead it e c = (True, it') \<Longrightarrow> \<exists>k v. e = Some (k, v) \<and> biC it' = Some c \<and> biCk it' = Some k
     \<and> biCv it' = Some v \<and> readRawBlockRecord k v = Inr (biElem it') \<and> biErr it' = biErr it
     \<and> biSeek it' = biSeek it"
  by (auto simp: biRead_def Let_def split: option.splits sum.splits)

definition biLeftNext :: "blockIterator \<Rightarrow> nat" where
  "biLeftNext it = (case biC it of None \<Rightarrow> 0 | Some c \<Rightarrow>
     (if biCk it = None then Suc (length (entries (curBucket c)))
      else length (entries_after (curBucket c) (curPos c))))"

definition biLeftPrev :: "blockIterator \<Rightarrow> nat" where
  "biLeftPrev it = (case biC it of None \<Rightarrow> 0 | Some c \<Rightarrow>
     (if biCk it = None then Suc (length (entries (curBucket c)))
      else length (entries_before (curBucket c) (curPos c))))"

lemma cursor_bucket [simp]:
  "curBucket (snd (cursorSeek c s)) = curBucket c"
  "curBucket (snd (cursorNext c)) = curBucket c"
  "curBucket (snd (cursorPrev c)) = curBucket c"
  by (simp_all add: cursorSeek_eq cursorNext_eq cursorPrev_eq split: list.splits)

lemma cursorPrev_some:
  "cursorPrev c = (Some e, c') \<Longrightarrow> curPos c' = fst e \<and> curBucket c' = curBucket c \<and>
    length (entries_before (curBucket c') (curPos c')) < length (entries_before (curBucket c) (curPos c))"
  by (auto simp: cursorPrev_eq split: list.splits dest!: entries_before_tail)

lemma blockIterator_next_left:
  assumes "blockIterator_next it = (True, it')" shows "biLeftNext it' < biLeftNext it"
proof -
  obtain c where c: "biC it = Some c"
    using assms by (auto simp: blockIterator_next_def split: option.splits)
  obtain e c' where ec: "(if biCk it = None then cursorSeek c (biSeek it) else cursorNext c) = (e, c')"
    by fastforce
  with assms c have "biRead it e c' = (True, it')" by (simp add: blockIterator_next_def)
  from biRead_True[OF this] obtain k v where
    it': "e = Some (k, v)" "biC it' = Some c'" "biCk it' = Some k" by auto
  have b: "curBucket c' = curBucket c"
    using ec by (metis cursor_bucket(1,2) snd_conv)
  show ?thesis
  proof (cases "biCk it")
    case None
    then show ?thesis using c it' b length_entries_after_le[of "curBucket c" "curPos c'"]
      by (simp add: biLeftNext_def)
  next
    case (Some k0)
    then have "cursorNext c = (Some (k, v), c')" using ec it' by simp
    from cursorNext_some[OF this] show ?thesis using Some c it' by (simp add: biLeftNext_def)
  qed
qed

lemma blockIterator_prev_left:
  assumes "blockIterator_prev it = (True, it')" shows "biLeftPrev it' < biLeftPrev it"
proof -
  obtain c where c: "biC it = Some c"
    using assms by (auto simp: blockIterator_prev_def split: option.splits)
  obtain e c' where ec: "(if biCk it = None then (case cursorSeek c (biSeek it) of (e, c') \<Rightarrow>
      if hasPrefix (orNil (map_option fst e)) (biSeek it) then (e, c') else cursorPrev c')
      else cursorPrev c) = (e, c')" by fastforce
  with assms c have "biRead it e c' = (True, it')" by (simp add: blockIterator_prev_def)
  from biRead_True[OF this] obtain k v where
    it': "e = Some (k, v)" "biC it' = Some c'" "biCk it' = Some k" by auto
  show ?thesis
  proof (cases "biCk it")
    case None
    obtain e1 c1 where s: "cursorSeek c (biSeek it) = (e1, c1)" by fastforce
    have b1: "curBucket c1 = curBucket c" using cursor_bucket(1)[of c "biSeek it"] by (simp add: s)
    have "curBucket c' = curBucket c"
      using ec None s b1 cursor_bucket(3)[of c1] by (cases "cursorPrev c1") (auto split: if_splits)
    then show ?thesis
      using None c it' length_entries_before_le[of "curBucket c" "curPos c'"] by (simp add: biLeftPrev_def)
  next
    case (Some k0)
    then have "cursorPrev c = (Some (k, v), c')" using ec it' by simp
    from cursorPrev_some[OF this] show ?thesis using Some c it' by (auto simp: biLeftPrev_def)
  qed
qed

text \<open>
  The loops \<open>for it.next()\<close> and \<open>for it.prev()\<close> with an early \<open>break\<close> when the
  element no longer satisfies \<open>P\<close>: the elements the body is run on, and the final iterator.
\<close>

function blockRunNext :: "(blockRecord \<Rightarrow> bool) \<Rightarrow> blockIterator \<Rightarrow> blockRecord list \<times> blockIterator" where
  "blockRunNext P it =
     (case blockIterator_next it of
        (cont, it') \<Rightarrow>
          if cont \<and> P (biElem it')
          then (case blockRunNext P it' of (xs, fin) \<Rightarrow> (biElem it' # xs, fin))
          else ([], it'))"
  by pat_completeness auto
termination
proof (relation "measure (\<lambda>(_, it). biLeftNext it)", goal_cases)
  case (2 P it cont it')
  then show ?case using blockIterator_next_left[of it it'] by (cases cont) auto
qed simp

function blockRunPrev :: "(blockRecord \<Rightarrow> bool) \<Rightarrow> blockIterator \<Rightarrow> blockRecord list \<times> blockIterator" where
  "blockRunPrev P it =
     (case blockIterator_prev it of
        (cont, it') \<Rightarrow>
          if cont \<and> P (biElem it')
          then (case blockRunPrev P it' of (xs, fin) \<Rightarrow> (biElem it' # xs, fin))
          else ([], it'))"
  by pat_completeness auto
termination
proof (relation "measure (\<lambda>(_, it). biLeftPrev it)", goal_cases)
  case (2 P it cont it')
  then show ?case using blockIterator_prev_left[of it it'] by (cases cont) auto
qed simp

declare blockRunNext.simps [simp del] blockRunPrev.simps [simp del]

text \<open>
  Repositioning an iterator that stands on a well-formed record is where it already is, as the
  record's height is its key.
\<close>

lemma reposition_same:
  assumes "biC it = Some c" "biCk it = Some k" "curPos c = k" "length k = 4"
    and "(k, v) \<in> set (entries (curBucket c))" "readRawBlockRecord k v = Inr (biElem it)"
  shows "blockIterator_reposition it (bHeight (recBlock (biElem it))) = it"
proof -
  have h: "keyBlockRecord (bHeight (recBlock (biElem it))) = k"
    using assms(4,6) by (auto simp: readRawBlockRecord_def Let_def keyBlockRecord_def
        dest: sym[where t = "biElem it"] split: if_splits)
  obtain e es where ef: "entries_from (curBucket c) k = e # es"
    using assms(5) by (cases "entries_from (curBucket c) k") (auto simp: entries_from_def filter_empty_conv)
  have "k = fst e"
  proof (rule ccontr)
    assume ne: "k \<noteq> fst e"
    have ge: "k \<le> fst e" using ef by (auto simp: entries_from_def filter_eq_Cons_iff)
    have "(k, v) \<in> set (e # es)" using assms(5) ef by (metis (mono_tags, lifting) entries_from_def fst_conv mem_Collect_eq order_refl set_filter)
    then have "(k, v) \<in> set (entries_after (curBucket c) (fst e))"
      using ne entries_from_tail[OF ef] by auto
    then have "fst e < k" by (simp add: entries_after_def)
    then show False using ge by simp
  qed
  then show ?thesis using assms(1,3) h ef
    by (simp add: blockIterator_reposition_def cursorSeek_eq)
qed

end
