(* ===== verification/Tx_Lease.thy ===== *)
theory Tx_Lease
  imports Tx_Iter
begin

text \<open>
  Transaction labels and output leases of \<open>wtxmgr/tx.go\<close>: \<open>PutTxLabel\<close>,
  \<open>FetchTxLabel\<close>, \<open>LockOutput\<close>, \<open>UnlockOutput\<close>,
  \<open>DeleteExpiredLockedOutputs\<close> and \<open>ListLockedOutputs\<close>.  A lease is stored with its
  expiry truncated to whole seconds; the lemmas state what each operation returns and stores on
  every branch, and that a live lease of one owner excludes every other owner.
\<close>

section \<open>Labels\<close>

definition TxLabelLimit :: nat where "TxLabelLimit = 500"

definition putTxLabelBucket :: "env \<Rightarrow> bucket \<Rightarrow> hash \<Rightarrow> bytes \<Rightarrow> bucket res" where
  "putTxLabelBucket E labelBucket txid label =
     (let v = serializeLabel label in
      bindE (dbGuard E (DbPut TxLabels (hashBytes txid) v) DbErr) (\<lambda>_.
      Inr (bucketPut labelBucket (hashBytes txid) v)))"

definition PutTxLabel :: "env \<Rightarrow> store \<Rightarrow> hash \<Rightarrow> bytes \<Rightarrow> store res" where
  "PutTxLabel E ns txid label =
     (if length label = 0 then Inl ErrEmptyLabel
      else if length label > TxLabelLimit then Inl ErrLabelTooLong
      else
        bindE (dbGuard E (DbCreate TxLabels) DbErr) (\<lambda>_.
        let labelBucket = (case sTxLabels ns of None \<Rightarrow> bucketEmpty | Some b \<Rightarrow> b) in
        bindE (putTxLabelBucket E labelBucket txid label) (\<lambda>labelBucket.
        Inr (ns\<lparr>sTxLabels := Some labelBucket\<rparr>))))"

definition FetchTxLabel :: "store \<Rightarrow> hash \<Rightarrow> bytes res" where
  "FetchTxLabel ns txid =
     (case sTxLabels ns of
        None \<Rightarrow> Inl ErrNoLabelBucket
      | Some labelBucket \<Rightarrow>
          (case bucketGet labelBucket (hashBytes txid) of
             None \<Rightarrow> Inl ErrTxLabelNotFound
           | Some v \<Rightarrow> DeserializeLabel v))"

definition TxLabel :: "store \<Rightarrow> hash \<Rightarrow> bytes res" where
  "TxLabel ns txHash =
     (case FetchTxLabel ns txHash of
        Inr label \<Rightarrow> Inr label
      | Inl e \<Rightarrow> (if e = ErrNoLabelBucket \<or> e = ErrTxLabelNotFound then Inr [] else Inl e))"

section \<open>Leases\<close>

definition isKnownOutput :: "store \<Rightarrow> outPoint \<Rightarrow> bool" where
  "isKnownOutput ns op =
     (let k = canonicalOutPoint (opHash op) (opIndex op) in
      if existsRawUnminedCredit ns k \<noteq> None then True
      else if existsRawUnspent ns k \<noteq> None then True
      else False)"

definition LockOutput :: "env \<Rightarrow> store \<Rightarrow> lockID \<Rightarrow> outPoint \<Rightarrow> int \<Rightarrow> (gotime \<times> store) res" where
  "LockOutput E ns lid op duration =
     (if \<not> isKnownOutput ns op then Inl ErrUnknownOutput
      else
        bindE (isLockedOutput ns op (clockNow E)) (\<lambda>(lockedID, _, isLocked).
        if isLocked \<and> lockedID \<noteq> lid then Inl ErrOutputAlreadyLocked
        else
          let expiry = clockNow E + duration in
          bindE (lockOutput E ns lid op expiry) (\<lambda>ns. Inr (expiry, ns))))"

definition UnlockOutput :: "env \<Rightarrow> store \<Rightarrow> lockID \<Rightarrow> outPoint \<Rightarrow> store res" where
  "UnlockOutput E ns lid op =
     (if \<not> isKnownOutput ns op then Inl ErrUnknownOutput
      else
        bindE (isLockedOutput ns op (clockNow E)) (\<lambda>(lockedID, _, isLocked).
        if \<not> isLocked then Inr ns
        else if lockedID \<noteq> lid then Inl ErrOutputUnlockNotAllowed
        else unlockOutput E ns op))"

definition DeleteExpiredLockedOutputs :: "env \<Rightarrow> store \<Rightarrow> store res" where
  "DeleteExpiredLockedOutputs E ns =
     bindE (forEachLockedOutput ns) (\<lambda>locks.
     let expiredOutputs =
       map (\<lambda>(op, _, _). op) (filter (\<lambda>(_, _, expiration). \<not> clockNow E < expiration) locks)
     in foldE (\<lambda>op ns. unlockOutput E ns op) expiredOutputs ns)"

definition ListLockedOutputs :: "env \<Rightarrow> store \<Rightarrow> lockedOutput list res" where
  "ListLockedOutputs E ns =
     bindE (forEachLockedOutput ns) (\<lambda>locks.
     Inr (map (\<lambda>(op, lid, expiration).
            \<lparr>lockOutpoint = op, lockLockID = lid, lockExpiration = expiration\<rparr>)
          (filter (\<lambda>(_, _, expiration). clockNow E < expiration) locks)))"

section \<open>Properties of labels\<close>

lemma label_fits: "length l \<le> TxLabelLimit \<Longrightarrow> length l < 2 ^ 16"
  by (simp add: TxLabelLimit_def)

text \<open>A label that is stored is the label fetched afterwards, byte for byte.\<close>

lemma PutTxLabel_FetchTxLabel:
  assumes "PutTxLabel E ns txid label = Inr ns'"
  shows "FetchTxLabel ns' txid = Inr label \<and> TxLabel ns' txid = Inr label
    \<and> (\<forall>t. t \<noteq> txid \<longrightarrow> TxLabel ns' t = TxLabel ns t)"
proof -
  have ne: "label \<noteq> []" and len: "length label < 2 ^ 16"
    using assms label_fits[of label] by (auto simp: PutTxLabel_def Let_def split: if_splits)
  let ?b = "case sTxLabels ns of None \<Rightarrow> bucketEmpty | Some b \<Rightarrow> b"
  have lb: "sTxLabels ns' = Some (bucketPut ?b (hashBytes txid) (serializeLabel label))"
    using assms by (auto simp: PutTxLabel_def putTxLabelBucket_def Let_def split: if_splits)
  have f: "FetchTxLabel ns' txid = Inr label"
    using DeserializeLabel_serialize[OF ne len] by (simp add: FetchTxLabel_def lb)
  moreover have "TxLabel ns' txid = Inr label" using f by (simp add: TxLabel_def)
  moreover have "TxLabel ns' t = TxLabel ns t" if "t \<noteq> txid" for t
    using that by (cases "sTxLabels ns") (simp_all add: TxLabel_def FetchTxLabel_def lb)
  ultimately show ?thesis by blast
qed

section \<open>Well-formed lease bucket\<close>

definition leases_wf :: "store \<Rightarrow> bool" where
  "leases_wf ns \<longleftrightarrow> (case sLockedOutputs ns of
      None \<Rightarrow> True
    | Some b \<Rightarrow> (\<forall>k v. bucketGet b k = Some v \<longrightarrow> length k = 36 \<and> length v = 40))"

text \<open>The lease recorded for an output: its owner and its stored expiry.\<close>

definition lease :: "store \<Rightarrow> outPoint \<Rightarrow> (lockID \<times> gotime) option" where
  "lease ns op = (case sLockedOutputs ns of
      None \<Rightarrow> None
    | Some b \<Rightarrow> map_option (\<lambda>v. (hashOf (take 32 v), wordTime (uint64_of (drop 32 v))))
        (bucketGet b (canonicalOutPoint (opHash op) (opIndex op))))"

lemma deserializeLockedOutput_40:
  "length v = 40 \<Longrightarrow>
    deserializeLockedOutput v = Inr (hashOf (take 32 v), wordTime (uint64_of (drop 32 v)))"
  by (simp add: deserializeLockedOutput_def)

lemma isLockedOutput_lease:
  assumes "leases_wf ns"
  shows "isLockedOutput ns op now = Inr (case lease ns op of
      None \<Rightarrow> (0, zeroTime, False)
    | Some (lid, expiry) \<Rightarrow> if now < expiry then (lid, expiry, True) else (0, zeroTime, False))"
  using assms
  by (auto simp: isLockedOutput_def lease_def leases_wf_def deserializeLockedOutput_40
      split: option.splits)

lemma outPoint_key_inj [simp]:
  "canonicalOutPoint (opHash p) (opIndex p) = canonicalOutPoint (opHash q) (opIndex q)
    \<longleftrightarrow> p = (q :: outPoint)"
  by (cases p; cases q) simp

lemma lockOutput_effect:
  assumes "lockOutput E ns lid op t = Inr ns'"
  shows "lease ns' = (lease ns)(op \<mapsto> (lid, wordTime (timeWord t)))"
    and "leases_wf ns \<Longrightarrow> leases_wf ns'"
    and "ns'\<lparr>sLockedOutputs := None\<rparr> = ns\<lparr>sLockedOutputs := None\<rparr>"
proof -
  let ?b = "case sLockedOutputs ns of None \<Rightarrow> bucketEmpty | Some b \<Rightarrow> b"
  have ns': "ns' = ns\<lparr>sLockedOutputs :=
      Some (bucketPut ?b (canonicalOutPoint (opHash op) (opIndex op)) (serializeLockedOutput lid t))\<rparr>"
    using assms by (auto simp: lockOutput_def Let_def)
  have f: "hashOf (take 32 (serializeLockedOutput lid t)) = lid"
    "uint64_of (drop 32 (serializeLockedOutput lid t)) = timeWord t"
    by (simp_all add: serializeLockedOutput_def)
  show "lease ns' = (lease ns)(op \<mapsto> (lid, wordTime (timeWord t)))"
    by (auto simp: fun_eq_iff ns' lease_def f bucketGet_upd split: option.splits)
  show "leases_wf ns \<Longrightarrow> leases_wf ns'"
    by (auto simp: ns' leases_wf_def bucketGet_upd split: option.splits if_splits)
  show "ns'\<lparr>sLockedOutputs := None\<rparr> = ns\<lparr>sLockedOutputs := None\<rparr>" by (simp add: ns')
qed

lemma unlockOutput_effect:
  assumes "unlockOutput E ns op = Inr ns'"
  shows "lease ns' = (lease ns)(op := None)"
    and "leases_wf ns \<Longrightarrow> leases_wf ns'"
    and "ns'\<lparr>sLockedOutputs := None\<rparr> = ns\<lparr>sLockedOutputs := None\<rparr>"
  using assms
  by (auto simp: unlockOutput_def Let_def lease_def leases_wf_def fun_eq_iff bucketGet_upd
      split: option.splits if_splits)

lemma unlockOutput_total: "db_ok E \<Longrightarrow> \<exists>ns'. unlockOutput E ns op = Inr ns'"
  by (auto simp: unlockOutput_def Let_def split: option.splits)

lemma isKnownOutput_frame:
  "ns'\<lparr>sLockedOutputs := None\<rparr> = ns\<lparr>sLockedOutputs := None\<rparr> \<Longrightarrow> isKnownOutput ns' op = isKnownOutput ns op"
proof -
  assume a: "ns'\<lparr>sLockedOutputs := None\<rparr> = ns\<lparr>sLockedOutputs := None\<rparr>"
  then have "sUnspent ns' = sUnspent ns" "sUnminedCredits ns' = sUnminedCredits ns"
    by (metis store.select_convs store.surjective store.update_convs(10))+
  then show ?thesis by (simp add: isKnownOutput_def existsRawUnminedCredit_def existsRawUnspent_def)
qed

section \<open>Properties of leases\<close>

text \<open>A lease is live at a time if it has been recorded and its stored expiry lies ahead.\<close>

definition live_lease :: "store \<Rightarrow> outPoint \<Rightarrow> gotime \<Rightarrow> lockID option" where
  "live_lease ns op now = (case lease ns op of
      None \<Rightarrow> None | Some (lid, t) \<Rightarrow> if now < t then Some lid else None)"

lemma isLockedOutput_live:
  assumes "leases_wf ns"
  shows "\<exists>l t b. isLockedOutput ns op now = Inr (l, t, b) \<and> b = (live_lease ns op now \<noteq> None)
    \<and> (b \<longrightarrow> live_lease ns op now = Some l)"
  by (auto simp: isLockedOutput_lease[OF assms] live_lease_def split: option.splits)

lemma LockOutput_cases:
  assumes "leases_wf ns" "db_ok E"
  shows "case LockOutput E ns lid op d of
      Inl e \<Rightarrow>
        (\<not> isKnownOutput ns op \<and> e = ErrUnknownOutput)
        \<or> (isKnownOutput ns op \<and> e = ErrOutputAlreadyLocked \<and>
            (\<exists>other. live_lease ns op (clockNow E) = Some other \<and> other \<noteq> lid))
    | Inr (expiry, ns') \<Rightarrow>
        isKnownOutput ns op \<and> live_lease ns op (clockNow E) \<in> {None, Some lid}
        \<and> expiry = clockNow E + d
        \<and> lease ns' = (lease ns)(op \<mapsto> (lid, wordTime (timeWord expiry)))
        \<and> leases_wf ns' \<and> ns'\<lparr>sLockedOutputs := None\<rparr> = ns\<lparr>sLockedOutputs := None\<rparr>"
proof (cases "isKnownOutput ns op")
  case False
  then show ?thesis by (simp add: LockOutput_def)
next
  case known: True
  obtain l t b where lk: "isLockedOutput ns op (clockNow E) = Inr (l, t, b)"
    and b: "b = (live_lease ns op (clockNow E) \<noteq> None)"
    and bl: "b \<longrightarrow> live_lease ns op (clockNow E) = Some l"
    using isLockedOutput_live[OF assms(1)] by blast
  show ?thesis
  proof (cases "b \<and> l \<noteq> lid")
    case True
    then show ?thesis using known lk bl by (simp add: LockOutput_def)
  next
    case False
    obtain ns' where ns': "lockOutput E ns lid op (clockNow E + d) = Inr ns'"
      using assms(2) by (auto simp: lockOutput_def Let_def)
    then have "LockOutput E ns lid op d = Inr (clockNow E + d, ns')"
      using known lk False by (auto simp: LockOutput_def)
    then show ?thesis using known b bl False lockOutput_effect[OF ns'] assms(1) by auto
  qed
qed

text \<open>
  Leasing an output fails exactly for an unknown output or one under a live lease of another
  owner; otherwise it records the new owner and expiry for that output, leaves every other lease
  and every other bucket as it was, and returns the requested expiry.
\<close>

lemma LockOutput_spec:
  assumes "leases_wf ns" "db_ok E"
  shows "case LockOutput E ns lid op d of
      Inl e \<Rightarrow>
        (\<not> isKnownOutput ns op \<and> e = ErrUnknownOutput)
        \<or> (isKnownOutput ns op \<and> e = ErrOutputAlreadyLocked \<and>
            (\<exists>other. live_lease ns op (clockNow E) = Some other \<and> other \<noteq> lid))
    | Inr (expiry, ns') \<Rightarrow>
        isKnownOutput ns op \<and> live_lease ns op (clockNow E) \<in> {None, Some lid}
        \<and> expiry = clockNow E + d
        \<and> lease ns' = (lease ns)(op \<mapsto> (lid, wordTime (timeWord expiry)))
        \<and> leases_wf ns' \<and> ns'\<lparr>sLockedOutputs := None\<rparr> = ns\<lparr>sLockedOutputs := None\<rparr>"
  by (rule LockOutput_cases[OF assms])

lemma UnlockOutput_cases:
  assumes "leases_wf ns" "db_ok E"
  shows "case UnlockOutput E ns lid op of
      Inl e \<Rightarrow>
        (\<not> isKnownOutput ns op \<and> e = ErrUnknownOutput)
        \<or> (isKnownOutput ns op \<and> e = ErrOutputUnlockNotAllowed \<and>
            (\<exists>other. live_lease ns op (clockNow E) = Some other \<and> other \<noteq> lid))
    | Inr ns' \<Rightarrow>
        isKnownOutput ns op \<and>
        (live_lease ns op (clockNow E) = None \<and> ns' = ns
         \<or> live_lease ns op (clockNow E) = Some lid \<and> lease ns' = (lease ns)(op := None)
           \<and> leases_wf ns' \<and> ns'\<lparr>sLockedOutputs := None\<rparr> = ns\<lparr>sLockedOutputs := None\<rparr>)"
proof (cases "isKnownOutput ns op")
  case False
  then show ?thesis by (simp add: UnlockOutput_def)
next
  case known: True
  obtain l t b where lk: "isLockedOutput ns op (clockNow E) = Inr (l, t, b)"
    and b: "b = (live_lease ns op (clockNow E) \<noteq> None)"
    and bl: "b \<longrightarrow> live_lease ns op (clockNow E) = Some l"
    using isLockedOutput_live[OF assms(1)] by blast
  obtain ns' where ns': "unlockOutput E ns op = Inr ns'" using unlockOutput_total[OF assms(2)] by blast
  consider "\<not> b" | "b" "l \<noteq> lid" | "b" "l = lid" by blast
  then show ?thesis
  proof cases
    case 1
    then show ?thesis using known lk b by (simp add: UnlockOutput_def)
  next
    case 2
    then show ?thesis using known lk bl by (simp add: UnlockOutput_def)
  next
    case 3
    then have "UnlockOutput E ns lid op = Inr ns'" using known lk ns' by (simp add: UnlockOutput_def)
    then show ?thesis using known bl 3 unlockOutput_effect[OF ns'] assms(1) by simp
  qed
qed

text \<open>
  Releasing an output fails exactly for an unknown output or a live lease of another owner; it
  removes the caller's live lease, and does nothing when there is no live lease.
\<close>

lemma UnlockOutput_spec:
  assumes "leases_wf ns" "db_ok E"
  shows "case UnlockOutput E ns lid op of
      Inl e \<Rightarrow>
        (\<not> isKnownOutput ns op \<and> e = ErrUnknownOutput)
        \<or> (isKnownOutput ns op \<and> e = ErrOutputUnlockNotAllowed \<and>
            (\<exists>other. live_lease ns op (clockNow E) = Some other \<and> other \<noteq> lid))
    | Inr ns' \<Rightarrow>
        isKnownOutput ns op \<and>
        (live_lease ns op (clockNow E) = None \<and> ns' = ns
         \<or> live_lease ns op (clockNow E) = Some lid \<and> lease ns' = (lease ns)(op := None)
           \<and> leases_wf ns' \<and> ns'\<lparr>sLockedOutputs := None\<rparr> = ns\<lparr>sLockedOutputs := None\<rparr>)"
  by (rule UnlockOutput_cases[OF assms])

text \<open>
  C39: after a successful \<open>LockOutput\<close>, until the stored expiry is reached no other owner can
  lease or release the output, whatever the clock shows in between.
\<close>

theorem lease_excludes_others:
  assumes "LockOutput E ns lid op d = Inr (expiry, ns')" "leases_wf ns" "db_ok E"
    and "now < wordTime (timeWord expiry)" "other \<noteq> lid"
  shows "LockOutput (E\<lparr>clockNow := now\<rparr>) ns' other op d' = Inl ErrOutputAlreadyLocked
    \<and> UnlockOutput (E\<lparr>clockNow := now\<rparr>) ns' other op = Inl ErrOutputUnlockNotAllowed"
proof -
  from LockOutput_cases[OF assms(2,3), where lid = lid and op = op and d = d] assms(1)
  have k: "isKnownOutput ns op" and l: "lease ns' = (lease ns)(op \<mapsto> (lid, wordTime (timeWord expiry)))"
    and wf: "leases_wf ns'" and fr: "ns'\<lparr>sLockedOutputs := None\<rparr> = ns\<lparr>sLockedOutputs := None\<rparr>"
    by simp_all
  have "isLockedOutput ns' op now = Inr (lid, wordTime (timeWord expiry), True)"
    using assms(4) by (simp add: isLockedOutput_lease[OF wf] l)
  moreover have "isKnownOutput ns' op" using k isKnownOutput_frame[OF fr] by simp
  ultimately show ?thesis using assms(5) by (simp add: LockOutput_def UnlockOutput_def)
qed

text \<open>
  The lease ends at the expiry truncated to whole seconds, so from that second on the output
  counts as unlocked although the time returned by \<open>LockOutput\<close> may still lie ahead.
\<close>

lemma LockOutput_expiry_truncated:
  assumes "LockOutput E ns lid op d = Inr (expiry, ns')" "leases_wf ns" "db_ok E"
    and "- (2 ^ 63) \<le> unixSec expiry" "unixSec expiry < 2 ^ 63"
    and "expiry - expiry mod 1000000000 \<le> now"
  shows "isLockedOutput ns' op now = Inr (0, zeroTime, False)"
proof -
  from LockOutput_cases[OF assms(2,3), where lid = lid and op = op and d = d] assms(1)
  have l: "lease ns' = (lease ns)(op \<mapsto> (lid, wordTime (timeWord expiry)))" and wf: "leases_wf ns'"
    by simp_all
  show ?thesis
    using assms(6) by (simp add: isLockedOutput_lease[OF wf] l wordTime_timeWord[OF assms(4,5)])
qed

text \<open>The decoded entries of the lease bucket.\<close>

definition leaseEntry :: "entry \<Rightarrow> outPoint \<times> lockID \<times> gotime" where
  "leaseEntry e = (\<lparr>opHash = hashOf (fst e), opIndex = uint32_of (slice (fst e) 32 36)\<rparr>,
     hashOf (take 32 (snd e)), wordTime (uint64_of (drop 32 (snd e))))"

lemma outPoint_key_cases:
  assumes "length k = 36"
  obtains op :: outPoint where "k = canonicalOutPoint (opHash op) (opIndex op)"
    "\<lparr>opHash = hashOf k, opIndex = uint32_of (slice k 32 36)\<rparr> = op"
proof -
  obtain op where op: "k = encOutPoint op" using assms outpoint_codec.enc_surj by blast
  have "readCanonicalOutPoint k = Inr op" unfolding op by (rule outpoint_codec.dec_enc)
  then show thesis using assms op that by (auto simp: encOutPoint_def readCanonicalOutPoint_def)
qed

lemma leaseEntry_mem:
  assumes wf: "leases_wf ns" and b: "sLockedOutputs ns = Some b"
  shows "leaseEntry ` set (entries b) = {(op, lid, t) | op lid t. lease ns op = Some (lid, t)}"
proof (intro set_eqI iffI)
  fix x assume "x \<in> leaseEntry ` set (entries b)"
  then obtain k v where kv: "bucketGet b k = Some v" and x: "x = leaseEntry (k, v)"
    by (auto simp: kv.mem_items_iff)
  then have "length k = 36" using wf b by (simp add: leases_wf_def)
  then obtain op :: outPoint where "k = canonicalOutPoint (opHash op) (opIndex op)"
    "\<lparr>opHash = hashOf k, opIndex = uint32_of (slice k 32 36)\<rparr> = op" by (rule outPoint_key_cases)
  then show "x \<in> {(op, lid, t) | op lid t. lease ns op = Some (lid, t)}"
    using kv x b by (auto simp: lease_def leaseEntry_def)
next
  fix x assume "x \<in> {(op, lid, t) | op lid t. lease ns op = Some (lid, t)}"
  then obtain op v where kv: "bucketGet b (canonicalOutPoint (opHash op) (opIndex op)) = Some v"
    and x: "x = (op, hashOf (take 32 v), wordTime (uint64_of (drop 32 v)))"
    using b by (auto simp: lease_def)
  let ?k = "canonicalOutPoint (opHash op) (opIndex op)"
  have "readCanonicalOutPoint ?k = Inr op"
    using outpoint_codec.dec_enc[of op] by (simp add: encOutPoint_def)
  then have "x = leaseEntry (?k, v)"
    by (simp add: x leaseEntry_def readCanonicalOutPoint_def)
  then show "x \<in> leaseEntry ` set (entries b)" using kv by (simp add: kv.mem_items_iff [symmetric])
qed

lemma forEachLockedOutput_leases:
  assumes "leases_wf ns"
  shows "\<exists>ls. forEachLockedOutput ns = Inr ls \<and>
    set ls = {(op, lid, t) | op lid t. lease ns op = Some (lid, t)}"
proof (cases "sLockedOutputs ns")
  case None
  then show ?thesis by (simp add: forEachLockedOutput_def lease_def)
next
  case (Some b)
  let ?f = "\<lambda>(k, v). bindE (readCanonicalOutPoint k) (\<lambda>op. bindE (deserializeLockedOutput v)
      (\<lambda>(lockID, expiry). Inr (op, lockID, expiry)))"
  have "mapE ?f (entries b) = Inr (map leaseEntry (entries b))"
    unfolding mapE_eq_Inr list_all2_conv_all_nth
  proof (intro conjI allI impI)
    fix i assume i: "i < length (entries b)"
    obtain k v where kv: "entries b ! i = (k, v)" by fastforce
    then have "bucketGet b k = Some v" using i nth_mem by (fastforce simp: kv.mem_items_iff [symmetric])
    then have "length k = 36" "length v = 40" using assms Some by (auto simp: leases_wf_def)
    with i kv show "?f (entries b ! i) = Inr (map leaseEntry (entries b) ! i)"
      by (simp add: readCanonicalOutPoint_def deserializeLockedOutput_def leaseEntry_def)
  qed simp
  then have "forEachLockedOutput ns = Inr (map leaseEntry (entries b))"
    by (simp add: forEachLockedOutput_def Some)
  then show ?thesis using leaseEntry_mem[OF assms Some] by simp
qed

text \<open>
  The cleanup removes exactly the leases whose expiry has been reached and keeps every other
  lease, and the listing returns exactly the leases still live.
\<close>

lemma expired_leases:
  assumes "leases_wf ns" "db_ok E"
  shows "\<exists>ns' ls. DeleteExpiredLockedOutputs E ns = Inr ns' \<and> ListLockedOutputs E ns = Inr ls
    \<and> (\<forall>op. lease ns' op =
        (case lease ns op of Some (lid, t) \<Rightarrow> if clockNow E < t then Some (lid, t) else None | None \<Rightarrow> None))
    \<and> set ls = {\<lparr>lockOutpoint = op, lockLockID = lid, lockExpiration = t\<rparr> | op lid t.
        lease ns op = Some (lid, t) \<and> clockNow E < t}"
proof -
  obtain ls where fe: "forEachLockedOutput ns = Inr ls"
    and st: "set ls = {(op, lid, t) | op lid t. lease ns op = Some (lid, t)}"
    using forEachLockedOutput_leases[OF assms(1)] by blast
  let ?ex = "map (\<lambda>(op, _, _). op) (filter (\<lambda>(_, _, expiration). \<not> clockNow E < expiration) ls)"
  have unl: "\<exists>ns'. foldE (\<lambda>op ns. unlockOutput E ns op) ops m = Inr ns' \<and>
      lease ns' = (\<lambda>op. if op \<in> set ops then None else lease m op)" for ops m
  proof (induction ops arbitrary: m)
    case (Cons op ops)
    obtain m1 where m1: "unlockOutput E m op = Inr m1" using unlockOutput_total[OF assms(2)] by blast
    from Cons[of m1] unlockOutput_effect(1)[OF m1] m1 show ?case by (auto simp: fun_eq_iff)
  qed (simp add: fun_eq_iff)
  obtain ns' where ns': "foldE (\<lambda>op ns. unlockOutput E ns op) ?ex ns = Inr ns'"
    "lease ns' = (\<lambda>op. if op \<in> set ?ex then None else lease ns op)" using unl by blast
  have "DeleteExpiredLockedOutputs E ns = Inr ns'"
    using fe ns'(1) by (simp add: DeleteExpiredLockedOutputs_def)
  moreover have "lease ns' op = (case lease ns op of
      Some (lid, t) \<Rightarrow> if clockNow E < t then Some (lid, t) else None | None \<Rightarrow> None)" for op
    using ns'(2) st by (auto simp: split: option.splits) force+
  moreover have "ListLockedOutputs E ns = Inr (map (\<lambda>(op, lid, expiration).
      \<lparr>lockOutpoint = op, lockLockID = lid, lockExpiration = expiration\<rparr>)
      (filter (\<lambda>(_, _, expiration). clockNow E < expiration) ls))" (is "_ = Inr ?ll")
    using fe by (simp add: ListLockedOutputs_def)
  moreover have "set ?ll = {\<lparr>lockOutpoint = op, lockLockID = lid, lockExpiration = t\<rparr> | op lid t.
      lease ns op = Some (lid, t) \<and> clockNow E < t}"
    using st by (force simp: image_iff)
  ultimately show ?thesis by blast
qed

end
