(* ===== verification/Tx_Query.thy ===== *)
theory Tx_Query
  imports Tx_Lease
begin

text \<open>
  \<open>wtxmgr/query.go\<close>: the details of mined and unmined transactions, range queries over the
  blocks and the scripts of previous outputs.  The callback of the range queries is a function
  \<open>f\<close> that gets the details and the caller's state and returns the break flag and the new
  state, or an error.
\<close>

definition checkErr :: "goerr option \<Rightarrow> unit res" where
  "checkErr e = (case e of None \<Rightarrow> Inr () | Some err \<Rightarrow> Inl err)"

lemma checkErr_simps [simp]: "checkErr None = Inr ()" "checkErr (Some e) = Inl e"
  "checkErr x = Inr u \<longleftrightarrow> x = None"
  by (simp_all add: checkErr_def split: option.splits)

definition minedTxDetails :: "env \<Rightarrow> store \<Rightarrow> hash \<Rightarrow> bytes \<Rightarrow> bytes \<Rightarrow> txDetails res" where
  "minedTxDetails E ns txHash recKey recVal =
     bindE (readRawTxRecord E txHash recVal) (\<lambda>rec.
     bindE (readRawTxRecordBlock recKey) (\<lambda>block.
     bindE (fetchBlockTime ns (bHeight block)) (\<lambda>t.
     let (creds, credIter) = iterRun creditIterator_readElem (makeCreditIterator ns recKey) in
     bindE (mapE (\<lambda>(_, _, elem).
         if unat (crIndex elem) \<ge> length (TxOut (MsgTx rec)) then Inl (storeError ErrData)
         else Inr (if \<not> crSpent elem
                   then elem\<lparr>crSpent := existsRawUnminedInput ns
                          (canonicalOutPoint txHash (crIndex elem)) \<noteq> None\<rparr>
                   else elem)) creds) (\<lambda>credits.
     bindE (checkErr (itErr credIter)) (\<lambda>_.
     let (debs, debIter) = iterRun debitIterator_readElem (makeDebitIterator ns recKey) in
     bindE (mapE (\<lambda>(_, _, elem).
         if unat (drIndex elem) \<ge> length (TxIn (MsgTx rec)) then Inl (storeError ErrData)
         else Inr elem) debs) (\<lambda>debits.
     bindE (checkErr (itErr debIter)) (\<lambda>_.
     bindE (TxLabel ns txHash) (\<lambda>label.
     Inr \<lparr>tdTxRecord = rec, tdBlock = \<lparr>metaBlock = block, metaTime = t\<rparr>,
          tdCredits = credits, tdDebits = debits, tdLabel = label\<rparr>))))))))"

text \<open>The debit record of one input of an unmined transaction, if it spends a known credit.\<close>

definition unminedDebit :: "store \<Rightarrow> u32 \<Rightarrow> txIn \<Rightarrow> debitRecord list res" where
  "unminedDebit ns i input =
     (let opKey = canonicalOutPoint (opHash (PreviousOutPoint input)) (opIndex (PreviousOutPoint input))
      in case existsRawUnspent ns opKey of
           Some credKey \<Rightarrow>
             bindE (fetchRawCreditAmount (orNil (existsRawCredit ns credKey))) (\<lambda>amount.
             Inr [\<lparr>drAmount = amount, drIndex = i\<rparr>])
         | None \<Rightarrow>
             (case existsRawUnminedCredit ns opKey of
                None \<Rightarrow> Inr []
              | Some v \<Rightarrow>
                  bindE (fetchRawCreditAmount v) (\<lambda>amount.
                  Inr [\<lparr>drAmount = amount, drIndex = i\<rparr>])))"

definition unminedTxDetails :: "env \<Rightarrow> store \<Rightarrow> hash \<Rightarrow> bytes \<Rightarrow> txDetails res" where
  "unminedTxDetails E ns txHash v =
     bindE (readRawTxRecord E txHash v) (\<lambda>rec.
     let (creds, it) = iterRun unminedCreditIterator_readElem (makeUnminedCreditIterator ns txHash) in
     bindE (mapE (\<lambda>(ck, _, elem).
         if unat (crIndex elem) \<ge> length (TxOut (MsgTx rec)) then Inl (storeError ErrData)
         else Inr (elem\<lparr>crSpent := existsRawUnminedInput ns ck \<noteq> None\<rparr>)) creds) (\<lambda>credits.
     bindE (checkErr (itErr it)) (\<lambda>_.
     bindE (mapE (\<lambda>(i, input). unminedDebit ns i input) (indexed (TxIn (MsgTx rec)))) (\<lambda>debits.
     bindE (TxLabel ns txHash) (\<lambda>label.
     Inr \<lparr>tdTxRecord = rec,
          tdBlock = \<lparr>metaBlock = \<lparr>bHash = 0, bHeight = - 1\<rparr>, metaTime = zeroTime\<rparr>,
          tdCredits = credits, tdDebits = concat debits, tdLabel = label\<rparr>)))))"

definition TxDetails :: "env \<Rightarrow> store \<Rightarrow> hash \<Rightarrow> txDetails option res" where
  "TxDetails E ns txHash =
     (case existsRawUnmined ns (hashBytes txHash) of
        Some v \<Rightarrow> bindE (unminedTxDetails E ns txHash v) (\<lambda>d. Inr (Some d))
      | None \<Rightarrow>
          (case latestTxRecord ns txHash of
             None \<Rightarrow> Inr None
           | Some (k, v) \<Rightarrow> bindE (minedTxDetails E ns txHash k v) (\<lambda>d. Inr (Some d))))"

definition UniqueTxDetails :: "env \<Rightarrow> store \<Rightarrow> hash \<Rightarrow> block option \<Rightarrow> txDetails option res" where
  "UniqueTxDetails E ns txHash blk =
     (case blk of
        None \<Rightarrow>
          (case existsRawUnmined ns (hashBytes txHash) of
             None \<Rightarrow> Inr None
           | Some v \<Rightarrow> bindE (unminedTxDetails E ns txHash v) (\<lambda>d. Inr (Some d)))
      | Some block \<Rightarrow>
          (case existsTxRecord ns txHash block of
             (k, None) \<Rightarrow> Inr None
           | (k, Some v) \<Rightarrow> bindE (minedTxDetails E ns txHash k v) (\<lambda>d. Inr (Some d))))"

section \<open>Range queries\<close>

type_synonym 's rangeFn = "txDetails list \<Rightarrow> 's \<Rightarrow> (bool \<times> 's) res"

definition rangeUnminedTransactions :: "env \<Rightarrow> store \<Rightarrow> 's rangeFn \<Rightarrow> 's \<Rightarrow> (bool \<times> 's) res" where
  "rangeUnminedTransactions E ns f s =
     bindE (mapE (\<lambda>(k, v).
         if length k < 32 then Inl (storeError ErrData)
         else unminedTxDetails E ns (hashOf k) v) (entries (sUnmined ns))) (\<lambda>details.
     if length details > 0 then f details s else Inr (False, s))"

definition blockDetails :: "env \<Rightarrow> store \<Rightarrow> blockRecord \<Rightarrow> txDetails list res" where
  "blockDetails E ns b =
     mapE (\<lambda>txHash.
       let k = keyTxRecord txHash (recBlock b) in
       case existsRawTxRecord ns k of
         None \<Rightarrow> Inl (storeError ErrData)
       | Some v \<Rightarrow> minedTxDetails E ns txHash k v) (recTransactions b)"

fun rangeLoop :: "env \<Rightarrow> store \<Rightarrow> 's rangeFn \<Rightarrow> blockRecord list \<Rightarrow> 's \<Rightarrow> (bool \<times> 's) res" where
  "rangeLoop E ns f [] s = Inr (False, s)"
| "rangeLoop E ns f (b # bs) s =
     bindE (blockDetails E ns b) (\<lambda>details.
     bindE (f details s) (\<lambda>(brk, s). if brk then Inr (True, s) else rangeLoop E ns f bs s))"

definition rangeBlockTransactions ::
    "env \<Rightarrow> store \<Rightarrow> height \<Rightarrow> height \<Rightarrow> 's rangeFn \<Rightarrow> 's \<Rightarrow> (bool \<times> 's) res" where
  "rangeBlockTransactions E ns first last' f s =
     (let first = (if first <s 0 then drop_bit 1 (- 1) else first);
          last' = (if last' <s 0 then drop_bit 1 (- 1) else last');
          (bs, it) =
            (if first <s last'
             then blockRunNext (\<lambda>b. bHeight (recBlock b) \<le>s last') (makeBlockIterator ns first)
             else blockRunPrev (\<lambda>b. last' \<le>s bHeight (recBlock b)) (makeBlockIterator ns first))
      in bindE (rangeLoop E ns f bs s) (\<lambda>(brk, s).
         if brk then Inr (True, s)
         else bindE (checkErr (biErr it)) (\<lambda>_. Inr (False, s))))"

definition RangeTransactions :: "env \<Rightarrow> store \<Rightarrow> height \<Rightarrow> height \<Rightarrow> 's rangeFn \<Rightarrow> 's \<Rightarrow> 's res" where
  "RangeTransactions E ns first last' f s =
     bindE (if first <s 0
            then bindE (rangeUnminedTransactions E ns f s) (\<lambda>(brk, s). Inr (brk, True, s))
            else Inr (False, False, s)) (\<lambda>(brk, addedUnmined, s).
     if brk then Inr s
     else bindE (rangeBlockTransactions E ns first last' f s) (\<lambda>(brk, s).
          if \<not> brk \<and> \<not> addedUnmined \<and> last' <s 0
          then bindE (rangeUnminedTransactions E ns f s) (\<lambda>(_, s). Inr s)
          else Inr s))"

section \<open>Previous output scripts\<close>

definition previousUnminedScript :: "env \<Rightarrow> store \<Rightarrow> outPoint \<Rightarrow> bytes list res" where
  "previousUnminedScript E ns prevOut =
     (case existsRawUnmined ns (hashBytes (opHash prevOut)) of
        Some v \<Rightarrow>
          if existsRawUnminedCredit ns (canonicalOutPoint (opHash prevOut) (opIndex prevOut)) = None
          then Inr []
          else bindE (fetchRawTxRecordPkScript E (hashBytes (opHash prevOut)) v (opIndex prevOut))
                 (\<lambda>pkScript. Inr [pkScript])
      | None \<Rightarrow>
          (case snd (existsUnspent ns prevOut) of
             Some credKey \<Rightarrow>
               bindE (extractRawCreditTxRecordKey credKey) (\<lambda>k.
               bindE (fetchRawTxRecordPkScript E k (orNil (existsRawTxRecord ns k)) (opIndex prevOut))
                 (\<lambda>pkScript. Inr [pkScript]))
           | None \<Rightarrow> Inr []))"

definition PreviousPkScripts :: "env \<Rightarrow> store \<Rightarrow> txRecord \<Rightarrow> block option \<Rightarrow> bytes list res" where
  "PreviousPkScripts E ns rec blk =
     (case blk of
        None \<Rightarrow>
          bindE (mapE (\<lambda>input. previousUnminedScript E ns (PreviousOutPoint input)) (TxIn (MsgTx rec)))
            (\<lambda>scripts. Inr (concat scripts))
      | Some block \<Rightarrow>
          let (debs, it) = iterRun debitIterator_readElem (makeDebitIterator ns (keyTxRecord (Hash rec) block))
          in bindE (mapE (\<lambda>(_, cv, _).
                 bindE (extractRawDebitCreditKey cv) (\<lambda>credKey.
                 bindE (extractRawCreditIndex credKey) (\<lambda>index.
                 bindE (extractRawCreditTxRecordKey credKey) (\<lambda>k.
                 fetchRawTxRecordPkScript E k (orNil (existsRawTxRecord ns k)) index)))) debs) (\<lambda>scripts.
             bindE (checkErr (itErr it)) (\<lambda>_. Inr scripts)))"

end
