(* ===== verification/Tx_Unmined.thy ===== *)
theory Tx_Unmined
  imports Tx_Query
begin

text \<open>
  \<open>wtxmgr/unconfirmed.go\<close>: insertion of unmined transactions and the removal of conflicting
  ones with everything that spends them.  \<open>removeConflict\<close> recurses along the spending
  relation between unmined transactions; the model recurses on fuel, one unit per nested call, and
  \<open>removeConflict\<close> itself starts with one unit more than there are unmined transactions.
\<close>

definition insertMemPoolTx :: "env \<Rightarrow> store \<Rightarrow> txRecord \<Rightarrow> store res" where
  "insertMemPoolTx E ns rec =
     (let insert =
        (if \<exists>(i, _) \<in> set (indexed (TxOut (MsgTx rec))).
              existsRawUnspent ns (canonicalOutPoint (Hash rec) i) \<noteq> None
         then Inr ns
         else
           bindE (valueTxRecord E rec) (\<lambda>v.
           bindE (putRawUnmined E ns (hashBytes (Hash rec)) v) (\<lambda>ns.
           foldE (\<lambda>input ns.
               putRawUnminedInput E ns
                 (canonicalOutPoint (opHash (PreviousOutPoint input)) (opIndex (PreviousOutPoint input)))
                 (hashBytes (Hash rec)))
             (TxIn (MsgTx rec)) ns)))
      in case TxDetails E ns (Hash rec) of
           Inr (Some _) \<Rightarrow> Inl ErrDuplicateTx
         | Inr None \<Rightarrow> insert
         | Inl e \<Rightarrow> if e = GoPanic then Inl GoPanic else insert)"

text \<open>One spender of a removed output: skipped when it is no longer recorded.\<close>

definition removeSpender ::
    "(store \<Rightarrow> txRecord \<Rightarrow> store res) \<Rightarrow> env \<Rightarrow> hash \<Rightarrow> store \<Rightarrow> store res" where
  "removeSpender remove E spenderHash ns =
     (case existsRawUnmined ns (hashBytes spenderHash) of
        None \<Rightarrow> Inr ns
      | Some spenderVal \<Rightarrow>
          bindE (readRawTxRecord E spenderHash spenderVal) (\<lambda>spender. remove ns spender))"

fun removeConflictFuel :: "nat \<Rightarrow> env \<Rightarrow> store \<Rightarrow> txRecord \<Rightarrow> store res" where
  "removeConflictFuel 0 E ns rec = Inl GoDiverges"
| "removeConflictFuel (Suc n) E ns rec =
     bindE (foldE (\<lambda>(i, _) ns.
         let k = canonicalOutPoint (Hash rec) i in
         bindE (fetchUnminedInputSpendTxHashes ns k) (\<lambda>spenderHashes.
         bindE (foldE (removeSpender (removeConflictFuel n E) E) spenderHashes ns) (\<lambda>ns.
         deleteRawUnminedCredit E ns k)))
       (indexed (TxOut (MsgTx rec))) ns) (\<lambda>ns.
     bindE (foldE (\<lambda>input ns.
         deleteRawUnminedInput E ns
           (canonicalOutPoint (opHash (PreviousOutPoint input)) (opIndex (PreviousOutPoint input)))
           (Hash rec))
       (TxIn (MsgTx rec)) ns) (\<lambda>ns.
     deleteRawUnmined E ns (hashBytes (Hash rec))))"

definition removeConflict :: "env \<Rightarrow> store \<Rightarrow> txRecord \<Rightarrow> store res" where
  "removeConflict E ns rec = removeConflictFuel (Suc (length (entries (sUnmined ns)))) E ns rec"

definition removeDoubleSpends :: "env \<Rightarrow> store \<Rightarrow> txRecord \<Rightarrow> store res" where
  "removeDoubleSpends E ns rec =
     foldE (\<lambda>input ns.
         let prevOutKey = canonicalOutPoint (opHash (PreviousOutPoint input)) (opIndex (PreviousOutPoint input))
         in bindE (fetchUnminedInputSpendTxHashes ns prevOutKey) (\<lambda>doubleSpendHashes.
            foldE (\<lambda>doubleSpendHash ns.
                if Hash rec = doubleSpendHash then Inr ns
                else removeSpender (removeConflict E) E doubleSpendHash ns)
              doubleSpendHashes ns))
       (TxIn (MsgTx rec)) ns"

definition unminedTxRecords :: "env \<Rightarrow> store \<Rightarrow> (hash \<times> txRecord) list res" where
  "unminedTxRecords E ns =
     mapE (\<lambda>(k, v).
         bindE (readRawUnminedHash k) (\<lambda>txHash.
         bindE (readRawTxRecord E txHash v) (\<lambda>rec. Inr (Hash rec, rec))))
       (entries (sUnmined ns))"

definition unminedTxHashes :: "store \<Rightarrow> hash list res" where
  "unminedTxHashes ns = mapE (\<lambda>(k, v). readRawUnminedHash k) (entries (sUnmined ns))"

end
