(* ===== verification/Kahn_Sort.thy ===== *)
theory Kahn_Sort
  imports Tx_Unmined "HOL-Library.AList" "HOL-Library.Multiset"
begin

text \<open>
  \<open>wtxmgr/kahnsort.go\<close>: ordering a set of transactions so that every transaction comes
  after the ones it spends.  A Go map is an association list; its iteration order, which Go leaves
  open, is the order of the list \<open>txs\<close> and, for the loop over the graph, the list
  \<open>order\<close> of its keys, so a statement for all lists holds for every order.  A node that is
  present in the graph has a non-nil value.
\<close>

record graphNode =
  gnValue :: msgTx
  gnOutEdges :: "hash list"
  gnInDegree :: nat

type_synonym hashGraph = "(hash \<times> graphNode) list"
type_synonym txSet = "(hash \<times> msgTx) list"

definition graphAddInput :: "txSet \<Rightarrow> msgTx \<Rightarrow> hash \<Rightarrow> txIn \<Rightarrow> hashGraph \<Rightarrow> hashGraph" where
  "graphAddInput txs tx txHash input graph =
     (let prev = opHash (PreviousOutPoint input) in
      case map_of txs prev of
        None \<Rightarrow> graph
      | Some prevTx \<Rightarrow>
          let inputNode = (case map_of graph prev of
                None \<Rightarrow> \<lparr>gnValue = prevTx, gnOutEdges = [], gnInDegree = 0\<rparr> | Some n \<Rightarrow> n)
          in if prev \<in> set (gnOutEdges inputNode) then graph
             else
               let graph = AList.update prev
                     (inputNode\<lparr>gnOutEdges := gnOutEdges inputNode @ [txHash]\<rparr>) graph;
                   node = (case map_of graph txHash of
                     None \<Rightarrow> \<lparr>gnValue = tx, gnOutEdges = [], gnInDegree = 0\<rparr> | Some n \<Rightarrow> n)
               in AList.update txHash
                    \<lparr>gnValue = tx, gnOutEdges = gnOutEdges node, gnInDegree = gnInDegree node + 1\<rparr> graph)"

definition graphAddTx :: "env \<Rightarrow> txSet \<Rightarrow> msgTx \<Rightarrow> hashGraph \<Rightarrow> hashGraph" where
  "graphAddTx E txs tx graph =
     (let txHash = txHashOf E tx;
          graph = (if map_of graph txHash = None
                   then AList.update txHash \<lparr>gnValue = tx, gnOutEdges = [], gnInDegree = 0\<rparr> graph
                   else graph)
      in fold (graphAddInput txs tx txHash) (TxIn tx) graph)"

definition makeGraph :: "env \<Rightarrow> txSet \<Rightarrow> hashGraph" where
  "makeGraph E txs = fold (\<lambda>(_, tx). graphAddTx E txs tx) txs []"

definition graphRoots :: "hashGraph \<Rightarrow> hash list \<Rightarrow> msgTx list" where
  "graphRoots graph order =
     concat (map (\<lambda>h. case map_of graph h of
         None \<Rightarrow> []
       | Some node \<Rightarrow> if gnInDegree node = 0 then [gnValue node] else []) order)"

fun relaxEdges :: "hash list \<Rightarrow> hashGraph \<Rightarrow> msgTx list \<Rightarrow> hashGraph \<times> msgTx list" where
  "relaxEdges [] graph s = (graph, s)"
| "relaxEdges (mHash # ms) graph s =
     (case map_of graph mHash of
        None \<Rightarrow> relaxEdges ms graph s
      | Some m \<Rightarrow>
          if gnInDegree m \<noteq> 0 then
            let m = m\<lparr>gnInDegree := gnInDegree m - 1\<rparr>;
                graph = AList.update mHash m graph;
                s = (if gnInDegree m = 0 then s @ [gnValue m] else s)
            in relaxEdges ms graph s
          else relaxEdges ms graph s)"

definition inDegrees :: "hashGraph \<Rightarrow> nat" where
  "inDegrees graph = sum_list (map (\<lambda>(_, n). gnInDegree n) graph)"

lemma inDegrees_update:
  "map_of graph h = Some n \<Longrightarrow> gnInDegree n = Suc d \<Longrightarrow>
    inDegrees graph = Suc (inDegrees (AList.update h (n\<lparr>gnInDegree := d\<rparr>) graph))"
  by (induction graph) (auto simp: inDegrees_def split: if_splits)

lemma relaxEdges_step:
  assumes "map_of graph h = Some m" "gnInDegree m = Suc d"
  shows "relaxEdges (h # ms) graph s =
    relaxEdges ms (AList.update h (m\<lparr>gnInDegree := d\<rparr>) graph) (if d = 0 then s @ [gnValue m] else s)"
  using assms by (simp add: Let_def)

lemma relaxEdges_skip:
  assumes "\<forall>m. map_of graph h = Some m \<longrightarrow> gnInDegree m = 0"
  shows "relaxEdges (h # ms) graph s = relaxEdges ms graph s"
  using assms by (simp split: option.split)

lemma relaxEdges_measure:
  "relaxEdges ms graph s = (graph', s') \<Longrightarrow>
    inDegrees graph' + length s' \<le> inDegrees graph + length s"
proof (induction ms arbitrary: graph s)
  case (Cons h ms)
  show ?case
  proof (cases "\<exists>m d. map_of graph h = Some m \<and> gnInDegree m = Suc d")
    case True
    then obtain m d where m: "map_of graph h = Some m" "gnInDegree m = Suc d" by blast
    have "inDegrees graph' + length s' \<le> inDegrees (AList.update h (m\<lparr>gnInDegree := d\<rparr>) graph)
        + length (if d = 0 then s @ [gnValue m] else s)"
      using Cons.prems by (intro Cons.IH) (simp only: relaxEdges_step[OF m])
    with inDegrees_update[OF m] show ?thesis by (simp split: if_splits)
  next
    case False
    then have "\<forall>m. map_of graph h = Some m \<longrightarrow> gnInDegree m = 0" using not0_implies_Suc by blast
    then show ?thesis using Cons by (simp only: relaxEdges_skip)
  qed
qed simp

function kahnLoop :: "env \<Rightarrow> hashGraph \<Rightarrow> msgTx list \<Rightarrow> msgTx list \<Rightarrow> msgTx list" where
  "kahnLoop E graph [] out = out"
| "kahnLoop E graph (tx # s) out =
     (let n = (case map_of graph (txHashOf E tx) of None \<Rightarrow> [] | Some n \<Rightarrow> gnOutEdges n)
      in case relaxEdges n graph s of
           (graph, s) \<Rightarrow> kahnLoop E graph s (out @ [tx]))"
  by pat_completeness auto
termination
proof (relation "measure (\<lambda>(_, graph, s, _). inDegrees graph + length s)", goal_cases)
  case (2 E graph tx s out n graph' s')
  then have "inDegrees graph' + length s' \<le> inDegrees graph + length s"
    by (intro relaxEdges_measure[of n]) simp
  then show ?case by simp
qed simp

definition DependencySort :: "env \<Rightarrow> txSet \<Rightarrow> hash list \<Rightarrow> msgTx list" where
  "DependencySort E txs order =
     (let graph = makeGraph E txs;
          s = graphRoots graph order
      in if length s = length txs then s else kahnLoop E graph s [])"

text \<open>\<open>UnminedTxs\<close>, with the iteration orders of its two maps as arguments.\<close>

definition UnminedTxs :: "env \<Rightarrow> store \<Rightarrow> hash list \<Rightarrow> msgTx list res" where
  "UnminedTxs E ns order =
     bindE (unminedTxRecords E ns) (\<lambda>recSet.
     Inr (DependencySort E (map (\<lambda>(h, r). (h, MsgTx r)) recSet) order))"

section \<open>What the graph holds\<close>

text \<open>An edge \<open>(child, parent)\<close> for every input that spends a transaction of the set.\<close>

definition inputEdges :: "txSet \<Rightarrow> hash \<Rightarrow> txIn list \<Rightarrow> (hash \<times> hash) list" where
  "inputEdges txs h ins =
     map (\<lambda>i. (h, opHash (PreviousOutPoint i)))
       (filter (\<lambda>i. map_of txs (opHash (PreviousOutPoint i)) \<noteq> None) ins)"

definition allEdges :: "txSet \<Rightarrow> txSet \<Rightarrow> (hash \<times> hash) list" where
  "allEdges txs part = concat (map (\<lambda>(h, tx). inputEdges txs h (TxIn tx)) part)"

definition node_ok :: "txSet \<Rightarrow> (hash \<times> hash) list \<Rightarrow> hash \<Rightarrow> graphNode \<Rightarrow> bool" where
  "node_ok txs es h n \<longleftrightarrow> map_of txs h = Some (gnValue n)
     \<and> gnOutEdges n = map fst (filter (\<lambda>e. snd e = h) es)
     \<and> gnInDegree n = length (filter (\<lambda>e. fst e = h) es)"

definition graph_ok :: "txSet \<Rightarrow> (hash \<times> hash) list \<Rightarrow> hashGraph \<Rightarrow> bool" where
  "graph_ok txs es graph \<longleftrightarrow> (\<forall>h. case map_of graph h of
      None \<Rightarrow> \<forall>e \<in> set es. fst e \<noteq> h \<and> snd e \<noteq> h
    | Some n \<Rightarrow> node_ok txs es h n)"

lemma graph_okD:
  "graph_ok txs es graph \<Longrightarrow> map_of graph h = Some n \<Longrightarrow> node_ok txs es h n"
  "graph_ok txs es graph \<Longrightarrow> map_of graph h = None \<Longrightarrow> filter (\<lambda>e. fst e = h) es = []"
  "graph_ok txs es graph \<Longrightarrow> map_of graph h = None \<Longrightarrow> filter (\<lambda>e. snd e = h) es = []"
  unfolding graph_ok_def by (drule spec[of _ h], simp add: filter_empty_conv; fail)+

lemma graph_ok_addInput:
  assumes ok: "graph_ok txs es graph" and tx: "map_of txs h = Some tx"
    and pr: "map_of graph h \<noteq> None" and ne: "opHash (PreviousOutPoint i) \<noteq> h"
    and irr: "\<forall>e \<in> set es. fst e \<noteq> snd e"
  shows "graph_ok txs (es @ inputEdges txs h [i]) (graphAddInput txs tx h i graph)
    \<and> map_of (graphAddInput txs tx h i graph) h \<noteq> None"
proof (cases "map_of txs (opHash (PreviousOutPoint i))")
  case None
  then show ?thesis using ok pr by (simp add: graphAddInput_def inputEdges_def)
next
  case (Some ptx)
  let ?p = "opHash (PreviousOutPoint i)"
  obtain hn where hn: "map_of graph h = Some hn" using pr by blast
  obtain pn where pn: "(case map_of graph ?p of
      None \<Rightarrow> \<lparr>gnValue = ptx, gnOutEdges = [], gnInDegree = 0\<rparr> | Some n \<Rightarrow> n) = pn" by simp
  have pok: "node_ok txs es ?p pn"
    using pn Some graph_okD[OF ok, of ?p] by (auto simp: node_ok_def split: option.splits)
  have nin: "?p \<notin> set (gnOutEdges pn)" using pok irr by (auto simp: node_ok_def)
  have hok: "node_ok txs es h hn" by (rule graph_okD(1)[OF ok hn])
  have m: "map_of (graphAddInput txs tx h i graph) = (map_of graph)
      (?p \<mapsto> pn\<lparr>gnOutEdges := gnOutEdges pn @ [h]\<rparr>,
       h \<mapsto> \<lparr>gnValue = tx, gnOutEdges = gnOutEdges hn, gnInDegree = gnInDegree hn + 1\<rparr>)"
    using Some pn nin hn ne by (auto simp: graphAddInput_def Let_def update_conv fun_eq_iff)
  have e: "inputEdges txs h [i] = [(h, ?p)]" using Some by (simp add: inputEdges_def)
  have "graph_ok txs (es @ [(h, ?p)]) (graphAddInput txs tx h i graph)"
    unfolding graph_ok_def
  proof
    fix g
    consider "g = h" | "g = ?p" | "g \<noteq> h" "g \<noteq> ?p" by blast
    then show "case map_of (graphAddInput txs tx h i graph) g of
        None \<Rightarrow> \<forall>e \<in> set (es @ [(h, ?p)]). fst e \<noteq> g \<and> snd e \<noteq> g
      | Some n \<Rightarrow> node_ok txs (es @ [(h, ?p)]) g n"
    proof cases
      case 1
      then show ?thesis using hok tx ne unfolding m 1 by (auto simp: node_ok_def)
    next
      case 2
      then show ?thesis using pok ne unfolding m 2 by (auto simp: node_ok_def)
    next
      case 3
      then show ?thesis using ok[unfolded graph_ok_def, THEN spec, of g]
        by (auto simp: m node_ok_def split: option.splits)
    qed
  qed
  then show ?thesis by (simp add: e m)
qed

lemma graph_ok_addInputs:
  assumes "graph_ok txs es graph" "map_of txs h = Some tx" "map_of graph h \<noteq> None"
    and "\<forall>i \<in> set ins. opHash (PreviousOutPoint i) \<noteq> h" "\<forall>e \<in> set es. fst e \<noteq> snd e"
  shows "graph_ok txs (es @ inputEdges txs h ins) (fold (graphAddInput txs tx h) ins graph)
    \<and> map_of (fold (graphAddInput txs tx h) ins graph) h \<noteq> None"
  using assms
proof (induction ins arbitrary: es graph)
  case (Cons i ins)
  let ?g = "graphAddInput txs tx h i graph"
  have s: "graph_ok txs (es @ inputEdges txs h [i]) ?g \<and> map_of ?g h \<noteq> None"
    using Cons.prems by (intro graph_ok_addInput) auto
  have "\<forall>e \<in> set (es @ inputEdges txs h [i]). fst e \<noteq> snd e"
    using Cons.prems(4,5) by (auto simp: inputEdges_def)
  with s Cons.prems have "graph_ok txs ((es @ inputEdges txs h [i]) @ inputEdges txs h ins)
      (fold (graphAddInput txs tx h) ins ?g) \<and> map_of (fold (graphAddInput txs tx h) ins ?g) h \<noteq> None"
    by (intro Cons.IH) auto
  moreover have "inputEdges txs h [i] @ inputEdges txs h ins = inputEdges txs h (i # ins)"
    by (simp add: inputEdges_def)
  ultimately show ?case by simp
qed (simp add: inputEdges_def)

lemma dom_addInput: "dom (map_of graph) \<subseteq> dom (map_of (graphAddInput txs tx h i graph))"
  by (auto simp: graphAddInput_def Let_def update_conv split: option.splits if_splits)

lemma dom_addInputs: "dom (map_of graph) \<subseteq> dom (map_of (fold (graphAddInput txs tx h) ins graph))"
proof (induction ins arbitrary: graph)
  case (Cons i ins)
  show ?case using dom_addInput[of graph txs tx h i] Cons.IH[of "graphAddInput txs tx h i graph"] by simp
qed simp

text \<open>The set is keyed by transaction hash, and no transaction spends itself.\<close>

definition keyed :: "env \<Rightarrow> txSet \<Rightarrow> bool" where
  "keyed E txs \<longleftrightarrow> distinct (map fst txs) \<and> (\<forall>(h, tx) \<in> set txs. txHashOf E tx = h)"

definition no_self_spend :: "txSet \<Rightarrow> bool" where
  "no_self_spend txs \<longleftrightarrow> (\<forall>(h, tx) \<in> set txs. \<forall>i \<in> set (TxIn tx). opHash (PreviousOutPoint i) \<noteq> h)"

lemma graph_ok_newNode:
  assumes ok: "graph_ok txs es graph" and mh: "map_of txs h = Some tx"
  defines "g1 \<equiv> if map_of graph h = None
      then AList.update h \<lparr>gnValue = tx, gnOutEdges = [], gnInDegree = 0\<rparr> graph else graph"
  shows "graph_ok txs es g1 \<and> map_of g1 h \<noteq> None \<and> dom (map_of graph) \<subseteq> dom (map_of g1)"
proof (cases "map_of graph h")
  case None
  have "node_ok txs es h \<lparr>gnValue = tx, gnOutEdges = [], gnInDegree = 0\<rparr>"
    using mh graph_okD(2,3)[OF ok None] by (simp add: node_ok_def)
  then have "graph_ok txs es g1" using ok None by (simp add: graph_ok_def g1_def update_conv)
  then show ?thesis using None by (auto simp: g1_def update_conv)
qed (use ok in \<open>simp add: g1_def\<close>)

lemma makeGraph_ok_part:
  assumes k: "keyed E txs" and ns: "no_self_spend txs" and part: "set part \<subseteq> set txs"
    and ok: "graph_ok txs es graph" and irr: "\<forall>e \<in> set es. fst e \<noteq> snd e"
  shows "graph_ok txs (es @ allEdges txs part) (fold (\<lambda>(_, tx). graphAddTx E txs tx) part graph)
    \<and> fst ` set part \<union> dom (map_of graph) \<subseteq> dom (map_of (fold (\<lambda>(_, tx). graphAddTx E txs tx) part graph))"
  using part ok irr
proof (induction part arbitrary: es graph)
  case (Cons p part)
  obtain h tx where p: "p = (h, tx)" by fastforce
  have mem: "(h, tx) \<in> set txs" using Cons.prems(1) p by simp
  then have mh: "map_of txs h = Some tx" and hh: "txHashOf E tx = h"
    using k by (auto simp: keyed_def)
  let ?g1 = "if map_of graph h = None
      then AList.update h \<lparr>gnValue = tx, gnOutEdges = [], gnInDegree = 0\<rparr> graph else graph"
  let ?g2 = "fold (graphAddInput txs tx h) (TxIn tx) ?g1"
  have g1: "graph_ok txs es ?g1 \<and> map_of ?g1 h \<noteq> None \<and> dom (map_of graph) \<subseteq> dom (map_of ?g1)"
    by (rule graph_ok_newNode[OF Cons.prems(2) mh])
  have self: "\<forall>i \<in> set (TxIn tx). opHash (PreviousOutPoint i) \<noteq> h" using ns mem by (auto simp: no_self_spend_def)
  have g2: "graph_ok txs (es @ inputEdges txs h (TxIn tx)) ?g2 \<and> map_of ?g2 h \<noteq> None"
    using conjunct1[OF g1] conjunct1[OF conjunct2[OF g1]] mh self Cons.prems(3)
    by (intro graph_ok_addInputs)
  have irr': "\<forall>e \<in> set (es @ inputEdges txs h (TxIn tx)). fst e \<noteq> snd e"
    using Cons.prems(3) self by (auto simp: inputEdges_def)
  have eq: "graphAddTx E txs tx graph = ?g2" by (simp add: graphAddTx_def Let_def hh)
  have d: "dom (map_of graph) \<subseteq> dom (map_of ?g2)" using g1 dom_addInputs[of ?g1] by blast
  have hd: "h \<in> dom (map_of ?g2)" using g2 by blast
  have "set part \<subseteq> set txs" using Cons.prems(1) by simp
  note IH = Cons.IH[OF this conjunct1[OF g2] irr']
  have f: "fold (\<lambda>(_, tx). graphAddTx E txs tx) (p # part) graph
      = fold (\<lambda>(_, tx). graphAddTx E txs tx) part ?g2" by (simp add: p eq)
  have a: "es @ allEdges txs (p # part) = (es @ inputEdges txs h (TxIn tx)) @ allEdges txs part"
    by (simp add: p allEdges_def)
  have s: "fst ` set (p # part) = insert h (fst ` set part)" by (simp add: p)
  show ?case unfolding f a s using IH d hd by blast
qed (simp add: allEdges_def)

lemma makeGraph_ok:
  assumes "keyed E txs" "no_self_spend txs"
  shows "graph_ok txs (allEdges txs txs) (makeGraph E txs)"
    and "dom (map_of (makeGraph E txs)) = fst ` set txs"
proof -
  have ok0: "graph_ok txs [] []" by (simp add: graph_ok_def)
  have r: "graph_ok txs (allEdges txs txs) (makeGraph E txs)"
    "fst ` set txs \<subseteq> dom (map_of (makeGraph E txs))"
    using makeGraph_ok_part[OF assms order_refl ok0] by (simp_all add: makeGraph_def)
  then show "graph_ok txs (allEdges txs txs) (makeGraph E txs)" by simp
  have "h \<in> fst ` set txs" if "map_of (makeGraph E txs) h = Some n" for h n
  proof -
    have "map_of txs h = Some (gnValue n)" using graph_okD(1)[OF r(1) that] by (simp add: node_ok_def)
    then show ?thesis by (metis map_of_SomeD fst_conv image_eqI)
  qed
  with r(2) show "dom (map_of (makeGraph E txs)) = fst ` set txs" by blast
qed

section \<open>One pass over the out edges\<close>

lemma relaxEdges_spec:
  assumes "\<forall>h \<in> set ms. \<exists>n. map_of graph h = Some n \<and> count_list ms h \<le> gnInDegree n"
    and "\<forall>h n. map_of graph h = Some n \<longrightarrow> txHashOf E (gnValue n) = h"
  shows "\<exists>new graph'. relaxEdges ms graph s = (graph', s @ new)
    \<and> map_of graph' = (\<lambda>h. map_option (\<lambda>n. n\<lparr>gnInDegree := gnInDegree n - count_list ms h\<rparr>) (map_of graph h))
    \<and> distinct (map (txHashOf E) new)
    \<and> (\<forall>tx \<in> set new. \<exists>n. map_of graph (txHashOf E tx) = Some n \<and> gnValue n = tx)
    \<and> txHashOf E ` set new = {h \<in> set ms. \<exists>n. map_of graph h = Some n \<and> gnInDegree n = count_list ms h}"
  using assms
proof (induction ms arbitrary: graph s)
  case (Cons h ms)
  obtain m where m: "map_of graph h = Some m" and c: "Suc (count_list ms h) \<le> gnInDegree m"
    using Cons.prems(1) by auto
  then obtain d where d: "gnInDegree m = Suc d" using not0_implies_Suc by fastforce
  let ?g = "AList.update h (m\<lparr>gnInDegree := d\<rparr>) graph"
  let ?s = "if d = 0 then s @ [gnValue m] else s"
  have mg: "map_of ?g = (map_of graph)(h \<mapsto> m\<lparr>gnInDegree := d\<rparr>)" by (simp add: update_conv fun_eq_iff)
  have vh: "txHashOf E (gnValue m) = h" using Cons.prems(2) m by blast
  have "\<forall>g \<in> set ms. \<exists>n. map_of ?g g = Some n \<and> count_list ms g \<le> gnInDegree n"
    using Cons.prems(1) c d by (auto simp: mg)
  moreover have "\<forall>g n. map_of ?g g = Some n \<longrightarrow> txHashOf E (gnValue n) = g"
    using Cons.prems(2) vh by (simp add: mg)
  ultimately obtain new g' where r: "relaxEdges ms ?g ?s = (g', ?s @ new)"
    and mg': "map_of g' = (\<lambda>h. map_option (\<lambda>n. n\<lparr>gnInDegree := gnInDegree n - count_list ms h\<rparr>) (map_of ?g h))"
    and dn: "distinct (map (txHashOf E) new)"
    and nv: "\<forall>tx \<in> set new. \<exists>n. map_of ?g (txHashOf E tx) = Some n \<and> gnValue n = tx"
    and ns: "txHashOf E ` set new = {h \<in> set ms. \<exists>n. map_of ?g h = Some n \<and> gnInDegree n = count_list ms h}"
    using Cons.IH by blast
  let ?new = "if d = 0 then gnValue m # new else new"
  have cm: "count_list ms h = 0 \<longleftrightarrow> h \<notin> set ms" by (simp add: count_list_0_iff)
  have set_new: "txHashOf E ` set ?new
      = {g \<in> set (h # ms). \<exists>n. map_of graph g = Some n \<and> gnInDegree n = count_list (h # ms) g}"
  proof -
    have "g \<in> txHashOf E ` set ?new \<longleftrightarrow> g \<in> set (h # ms)
        \<and> (\<exists>n. map_of graph g = Some n \<and> gnInDegree n = count_list (h # ms) g)" for g
    proof (cases "g = h")
      case True
      have "g \<in> txHashOf E ` set new \<longleftrightarrow> h \<in> set ms \<and> d = count_list ms h" using True by (simp add: ns mg)
      then show ?thesis using True vh m d cm c by auto
    next
      case False
      have "g \<in> txHashOf E ` set ?new \<longleftrightarrow> g \<in> txHashOf E ` set new" using False vh by auto
      also have "\<dots> \<longleftrightarrow> g \<in> set ms \<and> (\<exists>n. map_of graph g = Some n \<and> gnInDegree n = count_list ms g)"
        using False by (simp add: ns mg)
      finally show ?thesis using False by simp
    qed
    then show ?thesis by blast
  qed
  have "relaxEdges (h # ms) graph s = (g', s @ ?new)"
    unfolding relaxEdges_step[OF m d] r by simp
  moreover have "map_of g' = (\<lambda>g. map_option (\<lambda>n. n\<lparr>gnInDegree := gnInDegree n - count_list (h # ms) g\<rparr>) (map_of graph g))"
    unfolding mg' using m d by (auto simp: mg fun_eq_iff)
  moreover have "h \<notin> txHashOf E ` set new" if "d = 0" using ns that c d cm by auto
  then have "distinct (map (txHashOf E) ?new)" using dn vh by auto
  moreover have "\<forall>tx \<in> set ?new. \<exists>n. map_of graph (txHashOf E tx) = Some n \<and> gnValue n = tx"
    using nv m vh by (auto simp: mg split: if_splits)
  ultimately show ?case using set_new by blast
qed (simp add: fun_eq_iff option.map_ident)

section \<open>The loop\<close>

text \<open>The edges into \<open>h\<close> that no output transaction has removed.\<close>

definition pending :: "(hash \<times> hash) list \<Rightarrow> hash set \<Rightarrow> hash \<Rightarrow> nat" where
  "pending es D h = length (filter (\<lambda>e. fst e = h \<and> snd e \<notin> D) es)"

definition parents_first :: "(hash \<times> hash) list \<Rightarrow> hash list \<Rightarrow> bool" where
  "parents_first es hs \<longleftrightarrow> (\<forall>as h bs. hs = as @ h # bs \<longrightarrow> (\<forall>e \<in> set es. fst e = h \<longrightarrow> snd e \<in> set as))"

lemma parents_first_Nil: "parents_first es []" by (simp add: parents_first_def)

lemma parents_first_snoc:
  assumes "parents_first es hs" "\<forall>e \<in> set es. fst e = h \<longrightarrow> snd e \<in> set hs"
  shows "parents_first es (hs @ [h])"
proof -
  have "\<forall>e \<in> set es. fst e = g \<longrightarrow> snd e \<in> set as" if "hs @ [h] = as @ g # bs" for as g bs
  proof (cases bs rule: rev_cases)
    case Nil
    then show ?thesis using that assms(2) by simp
  next
    case (snoc bs' b)
    then show ?thesis using that assms(1) by (simp add: parents_first_def)
  qed
  then show ?thesis by (simp add: parents_first_def)
qed

lemma pending_0: "pending es D h = 0 \<longleftrightarrow> (\<forall>e \<in> set es. fst e = h \<longrightarrow> snd e \<in> D)"
  by (auto simp: pending_def filter_empty_conv)

lemma pending_insert:
  "p \<notin> D \<Longrightarrow> pending es D h = pending es (insert p D) h + count_list (map fst (filter (\<lambda>e. snd e = p) es)) h"
  by (induction es) (auto simp: pending_def)

definition kahn_inv :: "env \<Rightarrow> txSet \<Rightarrow> (hash \<times> hash) list \<Rightarrow> hashGraph \<Rightarrow> msgTx list \<Rightarrow> msgTx list \<Rightarrow> bool" where
  "kahn_inv E txs es graph q out \<longleftrightarrow>
     (\<forall>h n. map_of graph h = Some n \<longrightarrow> map_of txs h = Some (gnValue n)
        \<and> gnOutEdges n = map fst (filter (\<lambda>e. snd e = h) es)
        \<and> gnInDegree n = pending es (txHashOf E ` set out) h)
     \<and> dom (map_of graph) = fst ` set txs
     \<and> distinct (map (txHashOf E) (out @ q))
     \<and> txHashOf E ` set (out @ q) = {h \<in> fst ` set txs. pending es (txHashOf E ` set out) h = 0}
     \<and> parents_first es (map (txHashOf E) out)
     \<and> (\<forall>tx \<in> set (out @ q). map_of txs (txHashOf E tx) = Some tx)"

lemma keyedD: "keyed E txs \<Longrightarrow> map_of txs h = Some tx \<Longrightarrow> txHashOf E tx = h"
  using map_of_SomeD by (fastforce simp: keyed_def)

lemma kahn_inv_step:
  assumes k: "keyed E txs" and es: "\<forall>e \<in> set es. fst e \<in> fst ` set txs"
    and inv: "kahn_inv E txs es graph (tx # q) out"
  shows "\<exists>graph' q'. relaxEdges (case map_of graph (txHashOf E tx) of None \<Rightarrow> [] | Some n \<Rightarrow> gnOutEdges n)
      graph q = (graph', q') \<and> kahn_inv E txs es graph' q' (out @ [tx])"
proof -
  let ?p = "txHashOf E tx" and ?D = "txHashOf E ` set out"
  let ?D' = "insert ?p ?D"
  let ?ms = "map fst (filter (\<lambda>e. snd e = ?p) es)"
  have node: "map_of graph h = Some n \<Longrightarrow> map_of txs h = Some (gnValue n)
      \<and> gnOutEdges n = map fst (filter (\<lambda>e. snd e = h) es) \<and> gnInDegree n = pending es ?D h" for h n
    using inv unfolding kahn_inv_def by blast
  have dg: "dom (map_of graph) = fst ` set txs" and dist: "distinct (map (txHashOf E) (out @ tx # q))"
    and front: "txHashOf E ` set (out @ tx # q) = {h \<in> fst ` set txs. pending es ?D h = 0}"
    and pf: "parents_first es (map (txHashOf E) out)"
    and mem: "\<forall>t \<in> set (out @ tx # q). map_of txs (txHashOf E t) = Some t"
    using inv unfolding kahn_inv_def by - ((elim conjE)?, assumption)+
  have pD: "?p \<notin> ?D" using dist by auto
  have p0: "?p \<in> fst ` set txs" "pending es ?D ?p = 0" using front by auto
  then obtain pn where pn: "map_of graph ?p = Some pn" using dg by auto
  have pend: "pending es ?D h = pending es ?D' h + count_list ?ms h" for h by (rule pending_insert[OF pD])
  have pre1: "\<forall>h \<in> set ?ms. \<exists>n. map_of graph h = Some n \<and> count_list ?ms h \<le> gnInDegree n"
  proof
    fix h assume "h \<in> set ?ms"
    then have "h \<in> dom (map_of graph)" using es dg by auto
    then show "\<exists>n. map_of graph h = Some n \<and> count_list ?ms h \<le> gnInDegree n"
      using node pend[of h] by auto
  qed
  have pre2: "\<forall>h n. map_of graph h = Some n \<longrightarrow> txHashOf E (gnValue n) = h"
    using node keyedD[OF k] by blast
  obtain new graph' where r: "relaxEdges ?ms graph q = (graph', q @ new)"
    and mg: "map_of graph' = (\<lambda>h. map_option (\<lambda>n. n\<lparr>gnInDegree := gnInDegree n - count_list ?ms h\<rparr>) (map_of graph h))"
    and dn: "distinct (map (txHashOf E) new)"
    and nv: "\<forall>t \<in> set new. \<exists>n. map_of graph (txHashOf E t) = Some n \<and> gnValue n = t"
    and sn: "txHashOf E ` set new = {h \<in> set ?ms. \<exists>n. map_of graph h = Some n \<and> gnInDegree n = count_list ?ms h}"
    using relaxEdges_spec[OF pre1 pre2] by blast
  have sn': "txHashOf E ` set new = {h \<in> fst ` set txs. pending es ?D' h = 0 \<and> pending es ?D h \<noteq> 0}"
  proof -
    have "h \<in> set ?ms \<and> (\<exists>n. map_of graph h = Some n \<and> gnInDegree n = count_list ?ms h)
        \<longleftrightarrow> h \<in> fst ` set txs \<and> pending es ?D' h = 0 \<and> pending es ?D h \<noteq> 0" for h
    proof (cases "map_of graph h")
      case None
      then show ?thesis using dg by blast
    next
      case (Some n)
      then have h: "h \<in> fst ` set txs" using dg by blast
      have "h \<in> set ?ms \<longleftrightarrow> count_list ?ms h \<noteq> 0" by (simp only: count_list_0_iff[of ?ms h] not_not)
      then show ?thesis using h Some node[OF Some] pend[of h] by (simp del: set_map) linarith
    qed
    then show ?thesis unfolding sn by blast
  qed
  have "kahn_inv E txs es graph' (q @ new) (out @ [tx])"
    unfolding kahn_inv_def
  proof (intro conjI)
    show "\<forall>h n. map_of graph' h = Some n \<longrightarrow> map_of txs h = Some (gnValue n)
        \<and> gnOutEdges n = map fst (filter (\<lambda>e. snd e = h) es)
        \<and> gnInDegree n = pending es (txHashOf E ` set (out @ [tx])) h"
      using node pend by (auto simp: mg simp del: set_map)
    have "dom (map_of graph') = dom (map_of graph)" by (auto simp: mg)
    then show "dom (map_of graph') = fst ` set txs" using dg by simp
    have "txHashOf E ` set new \<inter> txHashOf E ` set (out @ tx # q) = {}" unfolding sn' front by (auto simp del: set_map)
    then show "distinct (map (txHashOf E) ((out @ [tx]) @ q @ new))" using dist dn by auto
    have "pending es ?D' h = 0" if "pending es ?D h = 0" for h using pend[of h] that by simp
    then have "{h \<in> fst ` set txs. pending es ?D' h = 0}
        = txHashOf E ` set (out @ tx # q) \<union> txHashOf E ` set new" unfolding sn' front by auto
    then show "txHashOf E ` set ((out @ [tx]) @ q @ new)
        = {h \<in> fst ` set txs. pending es (txHashOf E ` set (out @ [tx])) h = 0}" by auto
    show "parents_first es (map (txHashOf E) (out @ [tx]))"
      using parents_first_snoc[OF pf, of ?p] p0(2) by (simp add: pending_0)
    have "\<forall>t \<in> set new. map_of txs (txHashOf E t) = Some t" using nv node by fastforce
    then show "\<forall>t \<in> set ((out @ [tx]) @ q @ new). map_of txs (txHashOf E t) = Some t" using mem by auto
  qed
  moreover have "(case map_of graph ?p of None \<Rightarrow> [] | Some n \<Rightarrow> gnOutEdges n) = ?ms"
    using pn node[OF pn] by simp
  ultimately show ?thesis using r by auto
qed

lemma kahnLoop_inv:
  assumes "keyed E txs" "\<forall>e \<in> set es. fst e \<in> fst ` set txs"
  shows "kahn_inv E txs es graph q out \<Longrightarrow> \<exists>graph'. kahn_inv E txs es graph' [] (kahnLoop E graph q out)"
  using assms
proof (induction E graph q out rule: kahnLoop.induct)
  case (2 E graph tx q out)
  from kahn_inv_step[OF 2(3,4,2)] obtain graph' q' where
    r: "relaxEdges (case map_of graph (txHashOf E tx) of None \<Rightarrow> [] | Some n \<Rightarrow> gnOutEdges n)
      graph q = (graph', q')" and i: "kahn_inv E txs es graph' q' (out @ [tx])" by blast
  have "kahnLoop E graph (tx # q) out = kahnLoop E graph' q' (out @ [tx])" using r by (simp add: Let_def)
  with 2(1)[OF refl r[symmetric] i 2(3,4)] show ?case by simp
qed auto

section \<open>The sort\<close>

lemma allEdges_mem:
  "(h, p) \<in> set (allEdges txs part) \<longleftrightarrow> (\<exists>tx. (h, tx) \<in> set part
     \<and> p \<in> (\<lambda>i. opHash (PreviousOutPoint i)) ` set (TxIn tx) \<and> p \<in> fst ` set txs)"
proof -
  have "(h, p) \<in> set (allEdges txs part) \<longleftrightarrow> (\<exists>tx. (h, tx) \<in> set part \<and> (h, p) \<in> set (inputEdges txs h (TxIn tx)))"
    by (induction part) (auto simp: allEdges_def inputEdges_def)
  moreover have "(h, p) \<in> set (inputEdges txs h ins) \<longleftrightarrow>
      p \<in> (\<lambda>i. opHash (PreviousOutPoint i)) ` set ins \<and> p \<in> fst ` set txs" for ins
    by (induction ins) (auto simp: inputEdges_def map_of_eq_None_iff image_iff)
  ultimately show ?thesis by blast
qed

definition iteration_order :: "txSet \<Rightarrow> hash list \<Rightarrow> bool" where
  "iteration_order txs order \<longleftrightarrow> distinct order \<and> set order = fst ` set txs"

lemma graphRoots_alt:
  assumes k: "keyed E txs" and ok: "graph_ok txs es graph" and d: "dom (map_of graph) = fst ` set txs"
    and o: "set order \<subseteq> fst ` set txs"
  shows "graphRoots graph order = map (\<lambda>h. the (map_of txs h)) (filter (\<lambda>h. pending es {} h = 0) order)"
  using o
proof (induction order)
  case (Cons h order)
  then obtain n where n: "map_of graph h = Some n" using d by auto
  have "node_ok txs es h n" by (rule graph_okD(1)[OF ok n])
  then have "gnInDegree n = pending es {} h" "map_of txs h = Some (gnValue n)"
    by (simp_all add: node_ok_def pending_def)
  then show ?case using Cons n by (simp add: graphRoots_def)
qed (simp add: graphRoots_def)

lemma hashes_of_keys:
  assumes "keyed E txs" "set hs \<subseteq> fst ` set txs"
  shows "map (txHashOf E) (map (\<lambda>h. the (map_of txs h)) hs) = hs"
    and "tx \<in> set (map (\<lambda>h. the (map_of txs h)) hs) \<Longrightarrow> map_of txs (txHashOf E tx) = Some tx"
proof -
  have *: "\<exists>tx. map_of txs h = Some tx \<and> txHashOf E tx = h" if "h \<in> set hs" for h
    using that assms(2) keyedD[OF assms(1), of h] by (metis map_of_eq_None_iff not_Some_eq subsetD)
  then show "map (txHashOf E) (map (\<lambda>h. the (map_of txs h)) hs) = hs" by (fastforce intro!: map_idI)
  show "map_of txs (txHashOf E tx) = Some tx" if "tx \<in> set (map (\<lambda>h. the (map_of txs h)) hs)"
    using that * by fastforce
qed

lemma DependencySort_inv:
  assumes k: "keyed E txs" and ns: "no_self_spend txs" and o: "iteration_order txs order"
  defines "es \<equiv> allEdges txs txs"
  shows "\<exists>graph. kahn_inv E txs es graph [] (DependencySort E txs order)"
proof -
  let ?roots = "graphRoots (makeGraph E txs) order"
  let ?hs = "filter (\<lambda>h. pending es {} h = 0) order"
  have ok: "graph_ok txs es (makeGraph E txs)" and d: "dom (map_of (makeGraph E txs)) = fst ` set txs"
    using makeGraph_ok[OF k ns] by (simp_all add: es_def)
  have so: "set order = fst ` set txs" and dist: "distinct order" using o by (simp_all add: iteration_order_def)
  have r: "?roots = map (\<lambda>h. the (map_of txs h)) ?hs" by (rule graphRoots_alt[OF k ok d]) (simp add: so)
  have hs: "set ?hs \<subseteq> fst ` set txs" using so by auto
  have mr: "map (txHashOf E) ?roots = ?hs" unfolding r by (rule hashes_of_keys(1)[OF k hs])
  then have sr: "txHashOf E ` set ?roots = set ?hs" by (metis set_map)
  have node: "\<forall>h n. map_of (makeGraph E txs) h = Some n \<longrightarrow> map_of txs h = Some (gnValue n)
        \<and> gnOutEdges n = map fst (filter (\<lambda>e. snd e = h) es) \<and> gnInDegree n = pending es {} h"
    using graph_okD(1)[OF ok] by (simp add: node_ok_def pending_def)
  have init: "kahn_inv E txs es (makeGraph E txs) ?roots []"
    unfolding kahn_inv_def
    using node d mr sr dist so hashes_of_keys(2)[OF k hs] by (simp add: parents_first_Nil r)
  have ein: "\<forall>e \<in> set es. fst e \<in> fst ` set txs" by (force simp: es_def allEdges_mem)
  show ?thesis
  proof (cases "length ?roots = length txs")
    case False
    then show ?thesis using kahnLoop_inv[OF k ein init] by (simp add: DependencySort_def Let_def)
  next
    case True
    have "length ?hs = length order"
    proof -
      have "length ?hs = length txs" using True mr by (metis length_map)
      also have "\<dots> = card (fst ` set txs)" using k by (metis keyed_def distinct_card length_map set_map)
      finally show ?thesis using dist so distinct_card by metis
    qed
    then have "\<forall>h \<in> set order. pending es {} h = 0" using length_filter_less[of _ order] by (metis (mono_tags, lifting) less_irrefl)
    then have p0: "\<forall>h \<in> fst ` set txs. pending es {} h = 0" using so by simp
    then have "es = []" using ein by (cases es) (auto simp: pending_def)
    then have "kahn_inv E txs es (makeGraph E txs) [] ?roots"
      using init by (simp add: kahn_inv_def parents_first_def pending_def)
    then show ?thesis using True by (auto simp: DependencySort_def Let_def)
  qed
qed

text \<open>The input spends an output of a transaction of the set.\<close>

definition spends_member :: "txSet \<Rightarrow> msgTx \<Rightarrow> hash \<Rightarrow> bool" where
  "spends_member txs tx p \<longleftrightarrow> p \<in> fst ` set txs \<and> (\<exists>i \<in> set (TxIn tx). opHash (PreviousOutPoint i) = p)"

text \<open>C30: whatever order Go iterates its maps in, \<open>DependencySort\<close> never lists a transaction before
  a transaction of the set that it spends: each parent of an output element occurs earlier in the
  output.\<close>

theorem DependencySort_parents_first:
  assumes "keyed E txs" "no_self_spend txs" "iteration_order txs order"
    and "DependencySort E txs order = as @ tx # bs" "spends_member txs tx p"
  shows "p \<in> txHashOf E ` set as"
proof -
  obtain graph where inv: "kahn_inv E txs (allEdges txs txs) graph [] (as @ tx # bs)"
    using DependencySort_inv[OF assms(1-3)] assms(4) by auto
  then have "map_of txs (txHashOf E tx) = Some tx" by (simp add: kahn_inv_def)
  then have "(txHashOf E tx, p) \<in> set (allEdges txs txs)"
    using assms(5) map_of_SomeD by (fastforce simp: allEdges_mem spends_member_def)
  moreover have "parents_first (allEdges txs txs) (map (txHashOf E) as @ txHashOf E tx # map (txHashOf E) bs)"
    using inv by (simp add: kahn_inv_def)
  ultimately show ?thesis by (fastforce simp: parents_first_def)
qed

text \<open>C31: when the spends of the set are acyclic (a rank exists under which every parent is below
  its child, as for real transactions, whose hashes commit to their parents), \<open>DependencySort\<close>
  returns every transaction of the set exactly once.\<close>

theorem DependencySort_complete:
  assumes k: "keyed E txs" and o: "iteration_order txs order"
    and rank: "\<forall>(h, tx) \<in> set txs. \<forall>p. spends_member txs tx p \<longrightarrow> rank p < (rank h :: nat)"
  shows "mset (DependencySort E txs order) = mset (map snd txs)"
proof -
  let ?es = "allEdges txs txs" and ?out = "DependencySort E txs order"
  let ?D = "txHashOf E ` set ?out"
  have rk: "rank (snd e) < rank (fst e)" if "e \<in> set ?es" for e
  proof -
    have "(fst e, snd e) \<in> set ?es" using that by simp
    then have "\<exists>tx. (fst e, tx) \<in> set txs \<and> spends_member txs tx (snd e)"
      unfolding allEdges_mem spends_member_def by (fastforce simp: image_iff)
    then obtain tx where "(fst e, tx) \<in> set txs" "spends_member txs tx (snd e)" by blast
    then show ?thesis using rank by blast
  qed
  have ns: "no_self_spend txs" using rank by (fastforce simp: no_self_spend_def spends_member_def)
  obtain graph where inv: "kahn_inv E txs ?es graph [] ?out" using DependencySort_inv[OF k ns o] by auto
  then have D: "?D = {h \<in> fst ` set txs. pending ?es ?D h = 0}" by (simp add: kahn_inv_def)
  have all: "h \<in> fst ` set txs \<longrightarrow> h \<in> ?D" for h
  proof (induction "rank h" arbitrary: h rule: less_induct)
    case less
    have "\<forall>e \<in> set ?es. fst e = h \<longrightarrow> snd e \<in> ?D" 
    proof (intro ballI impI)
      fix e assume e: "e \<in> set ?es" "fst e = h"
      then have "(h, snd e) \<in> set ?es" by auto
      then have "snd e \<in> fst ` set txs" unfolding allEdges_mem by blast
      then show "snd e \<in> ?D" using less rk[OF e(1)] e(2) by simp
    qed
    then have "pending ?es ?D h = 0" unfolding pending_0 .
    then show ?case by (subst D) blast
  qed
  have out: "set ?out = snd ` set txs"
  proof -
    have mo: "\<forall>tx \<in> set ?out. map_of txs (txHashOf E tx) = Some tx" using inv by (simp add: kahn_inv_def)
    have "tx \<in> set ?out" if "(h, tx) \<in> set txs" for h tx
    proof -
      have "h \<in> fst ` set txs" using that by (metis fst_conv image_eqI)
      then have "h \<in> ?D" using all[of h] by blast
      then obtain t where t: "t \<in> set ?out" "txHashOf E t = h" by blast
      then have "map_of txs h = Some t" using mo by blast
      then show ?thesis using t(1) that k by (simp add: keyed_def)
    qed
    then have "snd ` set txs \<subseteq> set ?out" by auto
    moreover have "tx \<in> snd ` set txs" if "tx \<in> set ?out" for tx
    proof -
      have "(txHashOf E tx, tx) \<in> set txs" using mo that map_of_SomeD by metis
      then show ?thesis by (metis image_eqI snd_conv)
    qed
    ultimately show ?thesis by blast
  qed
  have "distinct (map (txHashOf E) (map snd txs))"
  proof -
    have "map (txHashOf E) (map snd txs) = map fst txs" using k by (force simp: keyed_def)
    moreover have "distinct (map fst txs)" using k unfolding keyed_def by blast
    ultimately show ?thesis by (simp only:)
  qed
  then have "distinct (map snd txs)" unfolding distinct_map by blast
  moreover have "distinct ?out" using inv by (simp add: kahn_inv_def distinct_map)
  ultimately show ?thesis using out by (metis set_eq_iff_mset_eq_distinct set_map)
qed

end
