(* ===== verification/Tx_Store.thy ===== *)
theory Tx_Store
  imports Tx_Unmined
begin

text \<open>
  The operations of the transaction store in \<open>wtxmgr/tx.go\<close>: recording mined and unmined
  transactions and credits, rolling blocks back, listing spendable outputs and computing the
  balance.  The mined balance lives under a root key and is updated by the operations; the local
  variables of a Go function that its loops update are threaded next to the store.
\<close>

section \<open>Recording mined transactions\<close>

definition spendInput :: "env \<Rightarrow> txRecord \<Rightarrow> blockMeta \<Rightarrow> u32 \<times> txIn \<Rightarrow> store \<times> amount \<Rightarrow>
    (store \<times> amount) res" where
  "spendInput E rec block ii s =
     (case ii of (i, input) \<Rightarrow> case s of (ns, newMinedBalance) \<Rightarrow>
        case existsUnspent ns (PreviousOutPoint input) of
          (_, None) \<Rightarrow> Inr (ns, newMinedBalance)
        | (unspentKey, Some credKey) \<Rightarrow>
            let spender = \<lparr>incTxHash = Hash rec, incBlock = metaBlock block, incIndex = i\<rparr> in
            bindE (spendCredit E ns credKey spender) (\<lambda>(amt, ns).
            bindE (putDebit E ns (Hash rec) i amt (metaBlock block) credKey) (\<lambda>ns.
            bindE (deleteRawUnspent E ns unspentKey) (\<lambda>ns.
            Inr (ns, newMinedBalance - amt)))))"

definition moveUnminedCredit :: "env \<Rightarrow> txRecord \<Rightarrow> blockMeta \<Rightarrow> bytes \<times> bytes \<times> creditRecord \<Rightarrow>
    store \<times> amount \<Rightarrow> (store \<times> amount) res" where
  "moveUnminedCredit E rec block kve s =
     (case kve of (ck, cv, _) \<Rightarrow> case s of (ns, newMinedBalance) \<Rightarrow>
        bindE (fetchRawUnminedCreditIndex ck) (\<lambda>index.
        bindE (fetchRawUnminedCreditAmountChange cv) (\<lambda>(amount, change).
        let cred = \<lparr>credOutPoint = \<lparr>opHash = Hash rec, opIndex = index\<rparr>,
                    credBlock = metaBlock block, credAmount = amount, credChange = change,
                    credSpentBy = \<lparr>incTxHash = 0, incBlock = \<lparr>bHash = 0, bHeight = 0\<rparr>, incIndex = - 1\<rparr>\<rparr>
        in bindE (putUnspentCredit E ns cred) (\<lambda>ns.
           bindE (putUnspent E ns (credOutPoint cred) (metaBlock block)) (\<lambda>ns.
           Inr (ns, newMinedBalance + amount))))))"

definition updateMinedBalance :: "env \<Rightarrow> store \<Rightarrow> txRecord \<Rightarrow> blockMeta \<Rightarrow> store res" where
  "updateMinedBalance E ns rec block =
     bindE (fetchMinedBalance ns) (\<lambda>minedBalance.
     bindE (foldE (spendInput E rec block) (indexed (TxIn (MsgTx rec))) (ns, minedBalance))
       (\<lambda>(ns, newMinedBalance).
     let (creds, it) = iterRun unminedCreditIterator_readElem (makeUnminedCreditIterator ns (Hash rec)) in
     bindE (foldE (moveUnminedCredit E rec block) creds (ns, newMinedBalance)) (\<lambda>(ns, newMinedBalance).
     bindE (checkErr (itErr it)) (\<lambda>_.
     if newMinedBalance \<noteq> minedBalance then putMinedBalance E ns newMinedBalance else Inr ns))))"

definition deleteUnminedTx :: "env \<Rightarrow> store \<Rightarrow> txRecord \<Rightarrow> store res" where
  "deleteUnminedTx E ns rec =
     bindE (foldE (\<lambda>input ns.
         deleteRawUnminedInput E ns
           (canonicalOutPoint (opHash (PreviousOutPoint input)) (opIndex (PreviousOutPoint input)))
           (Hash rec))
       (TxIn (MsgTx rec)) ns) (\<lambda>ns.
     bindE (foldE (\<lambda>(i, _) ns. deleteRawUnminedCredit E ns (canonicalOutPoint (Hash rec) i))
       (indexed (TxOut (MsgTx rec))) ns) (\<lambda>ns.
     deleteRawUnmined E ns (hashBytes (Hash rec))))"

text \<open>Adding the transaction to its block's record, creating the record if it is the first.\<close>

definition recordInBlock :: "env \<Rightarrow> store \<Rightarrow> txRecord \<Rightarrow> blockMeta \<Rightarrow> store res" where
  "recordInBlock E ns rec block =
     (case existsBlockRecord ns (bHeight (metaBlock block)) of
        (_, None) \<Rightarrow> putBlockRecord E ns block (Hash rec)
      | (blockKey, Some blockValue) \<Rightarrow>
          bindE (appendRawBlockRecord blockValue (Hash rec)) (\<lambda>blockValue.
          putRawBlockRecord E ns blockKey blockValue))"

definition insertMinedTx :: "env \<Rightarrow> store \<Rightarrow> txRecord \<Rightarrow> blockMeta \<Rightarrow> store res" where
  "insertMinedTx E ns rec block =
     (if snd (existsTxRecord ns (Hash rec) (metaBlock block)) \<noteq> None then Inl ErrDuplicateTx
      else
        bindE (recordInBlock E ns rec block) (\<lambda>ns.
        bindE (putTxRecord E ns rec (metaBlock block)) (\<lambda>ns.
        bindE (updateMinedBalance E ns rec block) (\<lambda>ns.
        bindE (if existsRawUnmined ns (hashBytes (Hash rec)) \<noteq> None
               then deleteUnminedTx E ns rec else Inr ns) (\<lambda>ns.
        bindE (removeDoubleSpends E ns rec) (\<lambda>ns.
        foldE (\<lambda>input ns. unlockOutput E ns (PreviousOutPoint input)) (TxIn (MsgTx rec)) ns))))))"

definition InsertTxCheckIfExists :: "env \<Rightarrow> store \<Rightarrow> txRecord \<Rightarrow> blockMeta option \<Rightarrow> (bool \<times> store) res" where
  "InsertTxCheckIfExists E ns rec blk =
     (case (case blk of None \<Rightarrow> insertMemPoolTx E ns rec | Some block \<Rightarrow> insertMinedTx E ns rec block) of
        Inr ns' \<Rightarrow> Inr (False, ns')
      | Inl e \<Rightarrow> if e = ErrDuplicateTx then Inr (True, ns) else Inl e)"

definition InsertTx :: "env \<Rightarrow> store \<Rightarrow> txRecord \<Rightarrow> blockMeta option \<Rightarrow> store res" where
  "InsertTx E ns rec blk = bindE (InsertTxCheckIfExists E ns rec blk) (\<lambda>(_, ns). Inr ns)"

definition RemoveUnminedTx :: "env \<Rightarrow> store \<Rightarrow> txRecord \<Rightarrow> store res" where
  "RemoveUnminedTx E ns rec = removeConflict E ns rec"

section \<open>Recording credits\<close>

definition addCredit :: "env \<Rightarrow> store \<Rightarrow> txRecord \<Rightarrow> blockMeta option \<Rightarrow> u32 \<Rightarrow> bool \<Rightarrow> (bool \<times> store) res" where
  "addCredit E ns rec blk index change =
     (if unat index \<ge> length (TxOut (MsgTx rec)) then Inl GoPanic
      else
        let txOutAmt = Value (TxOut (MsgTx rec) ! unat index) in
        case blk of
          None \<Rightarrow>
            let k = canonicalOutPoint (Hash rec) index in
            if existsRawUnminedCredit ns k \<noteq> None then Inr (False, ns)
            else if latestTxRecord ns (Hash rec) \<noteq> None then Inr (False, ns)
            else
              let v = valueUnminedCredit txOutAmt change in
              bindE (putRawUnminedCredit E ns k v) (\<lambda>ns. Inr (True, ns))
        | Some block \<Rightarrow>
            (case existsCredit ns (Hash rec) index (metaBlock block) of
               (k, Some _) \<Rightarrow> Inr (False, ns)
             | (k, None) \<Rightarrow>
                 let cred = \<lparr>credOutPoint = \<lparr>opHash = Hash rec, opIndex = index\<rparr>,
                       credBlock = metaBlock block, credAmount = txOutAmt, credChange = change,
                       credSpentBy = \<lparr>incTxHash = 0, incBlock = \<lparr>bHash = 0, bHeight = 0\<rparr>, incIndex = - 1\<rparr>\<rparr>;
                     v = valueUnspentCredit cred
                 in bindE (putRawCredit E ns k v) (\<lambda>ns.
                    bindE (fetchMinedBalance ns) (\<lambda>minedBalance.
                    bindE (putMinedBalance E ns (minedBalance + txOutAmt)) (\<lambda>ns.
                    bindE (putUnspent E ns (credOutPoint cred) (metaBlock block)) (\<lambda>ns.
                    Inr (True, ns)))))))"

text \<open>
  \<open>notify\<close> tells whether the store has a \<open>NotifyUnspent\<close> callback; the outpoint it is
  called with, if it is called, is returned next to the new store.
\<close>

definition AddCredit :: "env \<Rightarrow> bool \<Rightarrow> store \<Rightarrow> txRecord \<Rightarrow> blockMeta option \<Rightarrow> u32 \<Rightarrow> bool \<Rightarrow>
    (outPoint option \<times> store) res" where
  "AddCredit E notify ns rec blk index change =
     (if unat index \<ge> length (TxOut (MsgTx rec)) then Inl (storeError ErrInput)
      else bindE (addCredit E ns rec blk index change) (\<lambda>(isNew, ns).
        Inr (if isNew \<and> notify then Some \<lparr>opHash = Hash rec, opIndex = index\<rparr> else None, ns)))"

section \<open>Rolling back\<close>

text \<open>What the loops of \<open>rollback\<close> update: the store, the mined balance, the coinbase credits.\<close>

type_synonym rollState = "store \<times> amount \<times> outPoint list"

definition rollbackCoinbaseOutput :: "env \<Rightarrow> hash \<Rightarrow> block \<Rightarrow> u32 \<times> txOut \<Rightarrow> rollState \<Rightarrow> rollState res" where
  "rollbackCoinbaseOutput E txHash block io s =
     (case io of (i, output) \<Rightarrow> case s of (ns, minedBalance, coinBaseCredits) \<Rightarrow>
        case existsCredit ns txHash i block of
          (_, None) \<Rightarrow> Inr s
        | (k, Some _) \<Rightarrow>
            let op = \<lparr>opHash = txHash, opIndex = i\<rparr> in
            bindE (case existsUnspent ns op of
                (_, None) \<Rightarrow> Inr (ns, minedBalance)
              | (unspentKey, Some _) \<Rightarrow>
                  bindE (deleteRawUnspent E ns unspentKey) (\<lambda>ns.
                  Inr (ns, minedBalance - Value output))) (\<lambda>(ns, minedBalance).
            bindE (deleteRawCredit E ns k) (\<lambda>ns.
            Inr (ns, minedBalance, coinBaseCredits @ [op]))))"

definition rollbackInput :: "env \<Rightarrow> hash \<Rightarrow> block \<Rightarrow> u32 \<times> txIn \<Rightarrow> store \<times> amount \<Rightarrow> (store \<times> amount) res" where
  "rollbackInput E txHash block ii s =
     (case ii of (i, input) \<Rightarrow> case s of (ns, minedBalance) \<Rightarrow>
        let prevOutKey = canonicalOutPoint (opHash (PreviousOutPoint input)) (opIndex (PreviousOutPoint input)) in
        bindE (putRawUnminedInput E ns prevOutKey (hashBytes txHash)) (\<lambda>ns.
        bindE (existsDebit ns txHash i block) (\<lambda>deb.
        case deb of
          None \<Rightarrow> Inr (ns, minedBalance)
        | Some (debKey, credKey) \<Rightarrow>
            bindE (unspendRawCredit E ns credKey) (\<lambda>(amt, ns).
            bindE (deleteRawDebit E ns debKey) (\<lambda>ns.
            if amt = 0 then Inr (ns, minedBalance)
            else
              bindE (fetchRawCreditUnspentValue credKey) (\<lambda>unspentVal.
              bindE (putRawUnspent E ns prevOutKey unspentVal) (\<lambda>ns.
              Inr (ns, minedBalance + amt))))))))"

definition rollbackOutput :: "env \<Rightarrow> hash \<Rightarrow> block \<Rightarrow> u32 \<times> txOut \<Rightarrow> store \<times> amount \<Rightarrow> (store \<times> amount) res" where
  "rollbackOutput E txHash block io s =
     (case io of (i, output) \<Rightarrow> case s of (ns, minedBalance) \<Rightarrow>
        case existsCredit ns txHash i block of
          (_, None) \<Rightarrow> Inr (ns, minedBalance)
        | (k, Some v) \<Rightarrow>
            bindE (fetchRawCreditAmountChange v) (\<lambda>(amt, change).
            let outPointKey = canonicalOutPoint txHash i;
                unminedCredVal = valueUnminedCredit amt change
            in bindE (putRawUnminedCredit E ns outPointKey unminedCredVal) (\<lambda>ns.
               bindE (deleteRawCredit E ns k) (\<lambda>ns.
               case existsRawUnspent ns outPointKey of
                 None \<Rightarrow> Inr (ns, minedBalance)
               | Some _ \<Rightarrow>
                   bindE (deleteRawUnspent E ns outPointKey) (\<lambda>ns.
                   Inr (ns, minedBalance - Value output))))))"

definition rollbackTx :: "env \<Rightarrow> block \<Rightarrow> hash \<Rightarrow> rollState \<Rightarrow> rollState res" where
  "rollbackTx E block txHash s =
     (case s of (ns, minedBalance, coinBaseCredits) \<Rightarrow>
        let recVal = existsRawTxRecord ns (keyTxRecord txHash block) in
        bindE (readRawTxRecord E txHash (orNil recVal)) (\<lambda>rec.
        bindE (deleteTxRecord E ns txHash block) (\<lambda>ns.
        if isCoinBaseTx E (MsgTx rec)
        then foldE (rollbackCoinbaseOutput E (Hash rec) block) (indexed (TxOut (MsgTx rec)))
               (ns, minedBalance, coinBaseCredits)
        else
          bindE (putRawUnmined E ns (hashBytes txHash) (orNil recVal)) (\<lambda>ns.
          bindE (foldE (rollbackInput E (Hash rec) block) (indexed (TxIn (MsgTx rec))) (ns, minedBalance))
            (\<lambda>s.
          bindE (foldE (rollbackOutput E (Hash rec) block) (indexed (TxOut (MsgTx rec))) s)
            (\<lambda>(ns, minedBalance).
          Inr (ns, minedBalance, coinBaseCredits)))))))"

lemma blockIterator_prev_at:
  assumes "blockIterator_prev it = (True, it')"
  shows "\<exists>c k v. biC it' = Some c \<and> biCk it' = Some k \<and> curPos c = k \<and> (k, v) \<in> set (entries (curBucket c))
    \<and> readRawBlockRecord k v = Inr (biElem it')"
proof -
  obtain c where c: "biC it = Some c"
    using assms by (auto simp: blockIterator_prev_def split: option.splits)
  obtain e c' where ec: "(if biCk it = None then (case cursorSeek c (biSeek it) of (e, c') \<Rightarrow>
      if hasPrefix (orNil (map_option fst e)) (biSeek it) then (e, c') else cursorPrev c')
      else cursorPrev c) = (e, c')" by fastforce
  with assms c have "biRead it e c' = (True, it')" by (simp add: blockIterator_prev_def)
  from biRead_True[OF this] obtain k v where
    it': "e = Some (k, v)" "biC it' = Some c'" "biCk it' = Some k" "readRawBlockRecord k v = Inr (biElem it')"
    by auto
  have sk: "cursorSeek d s = (Some (k, v), c') \<Longrightarrow> curPos c' = k \<and> (k, v) \<in> set (entries (curBucket c'))" for d s
    by (auto simp: cursorSeek_def find_Some_iff nth_mem split: option.splits)
  have pr: "cursorPrev d = (Some (k, v), c') \<Longrightarrow> curPos c' = k \<and> (k, v) \<in> set (entries (curBucket c'))" for d
    by (auto simp: cursorPrev_eq entries_before_def filter_eq_Cons_iff split: list.splits)
      (metis (no_types) UnCI list.set_intros(1) set_append set_rev)+
  have "curPos c' = k \<and> (k, v) \<in> set (entries (curBucket c'))"
    using ec it'(1) sk pr by (auto split: if_splits prod.splits)
  then show ?thesis using it' by blast
qed

lemma entries_from_head_le:
  assumes "(k, v) \<in> set (entries b)" "s \<le> k"
  shows "\<exists>e es. entries_from b s = e # es \<and> fst e \<le> k"
proof -
  have m: "(k, v) \<in> set (entries_from b s)" using assms by (simp add: entries_from_def)
  then obtain e es where ef: "entries_from b s = e # es" by (cases "entries_from b s") auto
  have "fst e \<le> k"
  proof (cases "(k, v) = e")
    case False
    then have "(k, v) \<in> set (entries_after b (fst e))" using m ef entries_from_tail[OF ef] by simp
    then show ?thesis by (simp add: entries_after_def less_imp_le)
  qed (metis fst_conv order_refl)
  with ef show ?thesis by blast
qed

lemma take_le_self: "take n (k :: bytes) \<le> k"
  by (rule hasPrefix_ge) (simp add: hasPrefix_def min_def)

lemma keyBlockRecord_of_key: "4 \<le> length k \<Longrightarrow> keyBlockRecord (uint32_of k) = take 4 k"
proof -
  assume "4 \<le> length k"
  then have "putUint32 (uint32_of (take 4 k)) = take 4 k" by simp
  then show ?thesis by (simp add: keyBlockRecord_def uint32_of_def)
qed

lemma length_entries_before_mono: "s \<le> t \<Longrightarrow> length (entries_before b s) \<le> length (entries_before b t)"
  unfolding entries_before_def by (induction "rev (entries b)") (auto simp: length_filter_conv_card intro!: card_mono)

lemma reposition_left:
  assumes "blockIterator_prev it = (True, it')"
  shows "biLeftPrev (blockIterator_reposition it' (bHeight (recBlock (biElem it')))) \<le> biLeftPrev it'"
proof -
  from blockIterator_prev_at[OF assms] obtain c k v where
    c: "biC it' = Some c" "biCk it' = Some k" "curPos c = k" "(k, v) \<in> set (entries (curBucket c))"
      "readRawBlockRecord k v = Inr (biElem it')" by blast
  then have "4 \<le> length k" "bHeight (recBlock (biElem it')) = uint32_of k"
    by (auto simp: readRawBlockRecord_def Let_def dest: sym[where t = "biElem it'"] split: if_splits)
  then have key: "keyBlockRecord (bHeight (recBlock (biElem it'))) = take 4 k"
    by (simp add: keyBlockRecord_of_key)
  obtain e es where e: "entries_from (curBucket c) (take 4 k) = e # es" "fst e \<le> k"
    using entries_from_head_le[OF c(4) take_le_self] by blast
  then have "blockIterator_reposition it' (bHeight (recBlock (biElem it')))
      = it'\<lparr>biC := Some (c\<lparr>curPos := fst e\<rparr>)\<rparr>"
    by (simp add: blockIterator_reposition_def c(1) key cursorSeek_eq)
  then show ?thesis
    using c(1,2,3) length_entries_before_mono[OF e(2), of "curBucket c"] by (simp add: biLeftPrev_def)
qed

text \<open>The blocks \<open>rollback\<close> detaches, with the iterator repositioned after each of them.\<close>

function rollbackRun :: "height \<Rightarrow> blockIterator \<Rightarrow> blockRecord list \<times> blockIterator" where
  "rollbackRun height it =
     (case blockIterator_prev it of
        (cont, it') \<Rightarrow>
          if cont \<and> \<not> bHeight (recBlock (biElem it')) <s height
          then (case rollbackRun height
                  (blockIterator_reposition it' (bHeight (recBlock (biElem it')))) of
                  (xs, fin) \<Rightarrow> (biElem it' # xs, fin))
          else ([], it'))"
  by pat_completeness auto
termination
proof (relation "measure (\<lambda>(_, it). biLeftPrev it)", goal_cases)
  case (2 height it cont it')
  then have p: "blockIterator_prev it = (True, it')" by (cases cont) auto
  show ?case using blockIterator_prev_left[OF p] reposition_left[OF p] by simp
qed simp

declare rollbackRun.simps [simp del]

definition removeCoinbaseSpends :: "env \<Rightarrow> outPoint \<Rightarrow> store \<Rightarrow> store res" where
  "removeCoinbaseSpends E op ns =
     bindE (fetchUnminedInputSpendTxHashes ns (canonicalOutPoint (opHash op) (opIndex op))) (\<lambda>hs.
     foldE (removeSpender (removeConflict E) E) hs ns)"

definition Rollback :: "env \<Rightarrow> store \<Rightarrow> height \<Rightarrow> store res" where
  "Rollback E ns height =
     bindE (fetchMinedBalance ns) (\<lambda>minedBalance.
     let (bs, it) = rollbackRun height (makeReverseBlockIterator ns);
         heightsToRemove = map (\<lambda>b. bHeight (recBlock b)) bs
     in bindE (foldE (\<lambda>b. foldE (rollbackTx E (recBlock b)) (recTransactions b)) bs (ns, minedBalance, []))
          (\<lambda>(ns, minedBalance, coinBaseCredits).
        bindE (checkErr (biErr it)) (\<lambda>_.
        bindE (foldE (\<lambda>h ns. deleteBlockRecord E ns h) heightsToRemove ns) (\<lambda>ns.
        bindE (foldE (removeCoinbaseSpends E) coinBaseCredits ns) (\<lambda>ns.
        putMinedBalance E ns minedBalance)))))"

section \<open>Listing outputs\<close>

text \<open>An error that is not the package's own \<open>Error\<close> is wrapped as a database error.\<close>

definition wrapErr :: "'a res \<Rightarrow> 'a res" where
  "wrapErr m = (case m of
      Inr x \<Rightarrow> Inr x
    | Inl e \<Rightarrow> if e = GoPanic then Inl GoPanic else Inl (storeError ErrDatabase))"

text \<open>\<open>rec.MsgTx.TxOut[op.Index]\<close>, which panics past the end.\<close>

definition txOutAt :: "txRecord \<Rightarrow> u32 \<Rightarrow> txOut res" where
  "txOutAt rec i = (if unat i < length (TxOut (MsgTx rec)) then Inr (TxOut (MsgTx rec) ! unat i)
     else Inl GoPanic)"

text \<open>The two skips at the head of both loops of \<open>fetchCredits\<close>.\<close>

definition skipCredit :: "env \<Rightarrow> store \<Rightarrow> bool \<Rightarrow> bool \<Rightarrow> outPoint \<Rightarrow> bytes \<Rightarrow> bool res" where
  "skipCredit E ns includeLocked includeSpentByUnmined op k =
     bindE (if includeLocked then Inr False
            else bindE (isLockedOutput ns op (clockNow E)) (\<lambda>(_, _, isLocked). Inr isLocked)) (\<lambda>locked.
     Inr (locked \<or> \<not> includeSpentByUnmined \<and> existsRawUnminedInput ns k \<noteq> None))"

definition fetchMinedCredit :: "env \<Rightarrow> store \<Rightarrow> bool \<Rightarrow> bool \<Rightarrow> bool \<Rightarrow> entry \<Rightarrow> creditInfo list res" where
  "fetchMinedCredit E ns includeLocked includeSpentByUnmined populateFullDetails kv =
     (case kv of (k, v) \<Rightarrow>
        bindE (readCanonicalOutPoint k) (\<lambda>op.
        bindE (skipCredit E ns includeLocked includeSpentByUnmined op k) (\<lambda>skip.
        if skip then Inr []
        else
          bindE (readUnspentBlock v) (\<lambda>block.
          bindE (wrapErr (fetchTxRecord E ns (opHash op) block)) (\<lambda>rec.
          bindE (txOutAt rec (opIndex op)) (\<lambda>txOut.
          if populateFullDetails
          then bindE (wrapErr (fetchBlockTime ns (bHeight block))) (\<lambda>blockTime.
            Inr [\<lparr>ciOutPoint = op, ciBlockMeta = \<lparr>metaBlock = block, metaTime = blockTime\<rparr>,
                  ciAmount = Value txOut, ciPkScript = PkScript txOut, ciReceived = Received rec,
                  ciFromCoinBase = isCoinBaseTx E (MsgTx rec)\<rparr>])
          else Inr [\<lparr>ciOutPoint = op,
                  ciBlockMeta = \<lparr>metaBlock = \<lparr>bHash = 0, bHeight = 0\<rparr>, metaTime = zeroTime\<rparr>,
                  ciAmount = 0, ciPkScript = PkScript txOut, ciReceived = zeroTime,
                  ciFromCoinBase = False\<rparr>]))))))"

definition fetchUnminedCredit :: "env \<Rightarrow> store \<Rightarrow> bool \<Rightarrow> bool \<Rightarrow> bool \<Rightarrow> entry \<Rightarrow> creditInfo list res" where
  "fetchUnminedCredit E ns includeLocked includeSpentByUnmined populateFullDetails kv =
     (case kv of (k, v) \<Rightarrow>
        bindE (readCanonicalOutPoint k) (\<lambda>op.
        bindE (skipCredit E ns includeLocked includeSpentByUnmined op k) (\<lambda>skip.
        if skip then Inr []
        else
          (case existsRawUnmined ns (hashBytes (opHash op)) of
             None \<Rightarrow> Inr []
           | Some recVal \<Rightarrow>
               bindE (wrapErr (readRawTxRecord E (opHash op) recVal)) (\<lambda>rec.
               bindE (txOutAt rec (opIndex op)) (\<lambda>txOut.
               if populateFullDetails
               then Inr [\<lparr>ciOutPoint = op,
                     ciBlockMeta = \<lparr>metaBlock = \<lparr>bHash = 0, bHeight = - 1\<rparr>, metaTime = zeroTime\<rparr>,
                     ciAmount = Value txOut, ciPkScript = PkScript txOut, ciReceived = Received rec,
                     ciFromCoinBase = isCoinBaseTx E (MsgTx rec)\<rparr>]
               else Inr [\<lparr>ciOutPoint = op,
                     ciBlockMeta = \<lparr>metaBlock = \<lparr>bHash = 0, bHeight = 0\<rparr>, metaTime = zeroTime\<rparr>,
                     ciAmount = 0, ciPkScript = PkScript txOut, ciReceived = zeroTime,
                     ciFromCoinBase = False\<rparr>]))))))"

definition fetchCredits :: "env \<Rightarrow> store \<Rightarrow> bool \<Rightarrow> bool \<Rightarrow> bool \<Rightarrow> creditInfo list res" where
  "fetchCredits E ns includeLocked includeSpentByUnmined populateFullDetails =
     bindE (mapE (fetchMinedCredit E ns includeLocked includeSpentByUnmined populateFullDetails)
              (entries (sUnspent ns))) (\<lambda>mined.
     bindE (mapE (fetchUnminedCredit E ns includeLocked includeSpentByUnmined populateFullDetails)
              (entries (sUnminedCredits ns))) (\<lambda>unmined.
     Inr (concat mined @ concat unmined)))"

definition OutputsToWatch :: "env \<Rightarrow> store \<Rightarrow> creditInfo list res" where
  "OutputsToWatch E ns = fetchCredits E ns True True False"

definition UnspentOutputs :: "env \<Rightarrow> store \<Rightarrow> creditInfo list res" where
  "UnspentOutputs E ns = fetchCredits E ns False False True"

section \<open>Balance\<close>

definition lockedNow :: "env \<Rightarrow> store \<Rightarrow> outPoint \<Rightarrow> bool res" where
  "lockedNow E ns op = bindE (isLockedOutput ns op (clockNow E)) (\<lambda>(_, _, isLocked). Inr isLocked)"

text \<open>First loop: subtract the unspent outputs that are locked or spent by an unmined transaction.\<close>

definition balanceUnspent :: "env \<Rightarrow> store \<Rightarrow> entry \<Rightarrow> amount \<Rightarrow> amount res" where
  "balanceUnspent E ns kv bal =
     (case kv of (k, v) \<Rightarrow>
        bindE (readCanonicalOutPoint k) (\<lambda>op.
        bindE (readUnspentBlock v) (\<lambda>block.
        bindE (lockedNow E ns op) (\<lambda>isLocked.
        if isLocked \<or> existsRawUnminedInput ns k \<noteq> None
        then bindE (fetchRawCreditAmount (orNil (snd (existsCredit ns (opHash op) (opIndex op) block))))
               (\<lambda>amt. Inr (bal - amt))
        else Inr bal))))"

text \<open>Second loop: subtract unspent outputs with too few confirmations.\<close>

definition balanceOutput :: "env \<Rightarrow> store \<Rightarrow> height \<Rightarrow> height \<Rightarrow> height \<Rightarrow> hash \<Rightarrow> block \<Rightarrow> txRecord \<Rightarrow>
    u32 \<times> txOut \<Rightarrow> amount \<Rightarrow> amount res" where
  "balanceOutput E ns minConf coinbaseMat syncHeight txHash block rec io bal =
     (case io of (i, _) \<Rightarrow>
        let op = \<lparr>opHash = txHash, opIndex = i\<rparr> in
        bindE (lockedNow E ns op) (\<lambda>isLocked.
        if isLocked then Inr bal
        else if existsRawUnminedInput ns (canonicalOutPoint txHash i) \<noteq> None then Inr bal
        else
          (case existsCredit ns txHash i block of
             (_, None) \<Rightarrow> Inr bal
           | (_, Some v) \<Rightarrow>
               bindE (fetchRawCreditAmountSpent v) (\<lambda>(amt, spent).
               if spent then Inr bal
               else
                 let confs = syncHeight - bHeight block + 1 in
                 if confs <s minConf \<or> isCoinBaseTx E (MsgTx rec) \<and> confs <s coinbaseMat
                 then Inr (bal - amt) else Inr bal))))"

definition balanceBlock :: "env \<Rightarrow> store \<Rightarrow> height \<Rightarrow> height \<Rightarrow> height \<Rightarrow> blockRecord \<Rightarrow> amount \<Rightarrow> amount res" where
  "balanceBlock E ns minConf coinbaseMat syncHeight b =
     foldE (\<lambda>txHash bal.
       bindE (fetchTxRecord E ns txHash (recBlock b)) (\<lambda>rec.
       foldE (balanceOutput E ns minConf coinbaseMat syncHeight txHash (recBlock b) rec)
         (indexed (TxOut (MsgTx rec))) bal)) (recTransactions b)"

text \<open>Third loop, for \<open>minConf = 0\<close>: add the spendable unmined credits.\<close>

definition balanceUnmined :: "env \<Rightarrow> store \<Rightarrow> entry \<Rightarrow> amount \<Rightarrow> amount res" where
  "balanceUnmined E ns kv bal =
     (case kv of (k, v) \<Rightarrow>
        bindE (readCanonicalOutPoint k) (\<lambda>op.
        bindE (lockedNow E ns op) (\<lambda>isLocked.
        if isLocked then Inr bal
        else if existsRawUnminedInput ns k \<noteq> None then Inr bal
        else bindE (fetchRawUnminedCreditAmount v) (\<lambda>amount. Inr (bal + amount)))))"

definition Balance :: "env \<Rightarrow> store \<Rightarrow> height \<Rightarrow> height \<Rightarrow> amount res" where
  "Balance E ns minConf syncHeight =
     bindE (fetchMinedBalance ns) (\<lambda>bal.
     bindE (foldE (balanceUnspent E ns) (entries (sUnspent ns)) bal) (\<lambda>bal.
     let coinbaseMat = ucast (coinbaseMaturity E);
         stopConf = (if minConf <s coinbaseMat then coinbaseMat else minConf);
         lastHeight = syncHeight - stopConf;
         (bs, it) = blockRunPrev (\<lambda>b. \<not> bHeight (recBlock b) <s lastHeight) (makeReverseBlockIterator ns)
     in bindE (foldE (balanceBlock E ns minConf coinbaseMat syncHeight) bs bal) (\<lambda>bal.
        bindE (checkErr (biErr it)) (\<lambda>_.
        if minConf = 0 then foldE (balanceUnmined E ns) (entries (sUnminedCredits ns)) bal
        else Inr bal))))"

end
