(* ===== verification/Tx_Conflict.thy ===== *)
theory Tx_Conflict
  imports Tx_Unmined
begin

text \<open>
  The contract of \<open>wtxmgr/unconfirmed.go\<close>.  A set of unmined transactions is, for the caller,
  a finite map \<open>U\<close> from hashes to messages; \<open>mempool E ns U\<close> says that the store holds
  exactly that map: the records of \<open>bucketUnmined\<close> read back to it and
  \<open>bucketUnminedInputs\<close> lists, for every outpoint, exactly the transactions of \<open>U\<close> that
  spend it.  The theorems say which map each operation leaves: insertion adds one transaction,
  \<open>removeConflict\<close> removes a transaction with all its descendants and nothing else,
  \<open>removeDoubleSpends\<close> leaves no rival spender of the inputs of a transaction.
\<close>

section \<open>Lists of spending hashes\<close>

lemma spendHashes_concat [simp]: "spendHashes (concat (map hashBytes hs)) = Inr hs"
proof (induction hs)
  case Nil
  then show ?case by (simp add: spendHashes.simps)
next
  case (Cons h hs)
  then show ?case by (subst spendHashes.simps) simp
qed

lemma spendHashes_Nil [simp]: "spendHashes [] = Inr []"
  by (simp add: spendHashes.simps)

lemma spendHashes_Inr: "spendHashes raw = Inr hs \<longleftrightarrow> raw = concat (map hashBytes hs)"
proof
  show "spendHashes raw = Inr hs \<Longrightarrow> raw = concat (map hashBytes hs)"
  proof (induction raw arbitrary: hs rule: spendHashes.induct)
    case (1 raw)
    consider "raw = []" | "raw \<noteq> []" "length raw < 32" | "raw \<noteq> []" "\<not> length raw < 32" by blast
    then show ?case
    proof cases
      case 3
      then obtain hs' where hs': "spendHashes (drop 32 raw) = Inr hs'" "hs = hashOf (take 32 raw) # hs'"
        using 1(2) by (subst (asm) spendHashes.simps) auto
      have "drop 32 raw = concat (map hashBytes hs')" by (rule 1(1)) (use 3 hs'(1) in auto)
      moreover have "hashBytes (hashOf (take 32 raw)) = take 32 raw" using 3 by simp
      ultimately show ?thesis using hs'(2) append_take_drop_id[of 32 raw] by simp
    qed (use 1(2) in \<open>simp_all add: spendHashes.simps\<close>)
  qed
qed simp

lemma length_concat_hashBytes: "length (concat (map hashBytes hs)) = 32 * length hs"
  by (induction hs) auto

lemma slice_concat_hashBytes:
  "i < length hs \<Longrightarrow> slice (concat (map hashBytes hs)) (32 * i) (32 * i + 32) = hashBytes (hs ! i)"
proof (induction hs arbitrary: i)
  case (Cons h hs)
  show ?case
  proof (cases i)
    case 0
    then show ?thesis by (simp add: slice_def)
  next
    case (Suc j)
    then have "slice (concat (map hashBytes hs)) (32 * j) (32 * j + 32) = hashBytes (hs ! j)"
      using Cons by simp
    then show ?thesis using Suc by (simp add: slice_def)
  qed
qed simp

lemma chunks32_concat [simp]: "chunks32 (concat (map hashBytes hs)) = map hashBytes hs"
  by (rule nth_equalityI) (simp_all add: chunks32_def length_concat_hashBytes slice_concat_hashBytes)

lemma filter_map_hashBytes:
  "filter (\<lambda>b. hashBytes h \<noteq> b) (map hashBytes hs) = map hashBytes (filter (\<lambda>g. g \<noteq> h) hs)"
  by (induction hs) auto

lemma concat_hashBytes_Nil [simp]: "concat (map hashBytes hs) = [] \<longleftrightarrow> hs = []"
  by (cases hs) (auto dest: arg_cong[of _ _ length])

section \<open>The store as a map of unmined transactions\<close>

type_synonym txMap = "hash \<rightharpoonup> msgTx"

definition inputKey :: "txIn \<Rightarrow> bytes" where
  "inputKey i = canonicalOutPoint (opHash (PreviousOutPoint i)) (opIndex (PreviousOutPoint i))"

definition inputKeys :: "msgTx \<Rightarrow> bytes set" where
  "inputKeys tx = inputKey ` set (TxIn tx)"

definition outputKeys :: "hash \<Rightarrow> msgTx \<Rightarrow> bytes set" where
  "outputKeys h tx = (\<lambda>(i, _). canonicalOutPoint h i) ` set (indexed (TxOut tx))"

definition unmined_holds :: "env \<Rightarrow> store \<Rightarrow> txMap \<Rightarrow> bool" where
  "unmined_holds E ns U \<longleftrightarrow> (\<forall>h. case U h of
      None \<Rightarrow> bucketGet (sUnmined ns) (hashBytes h) = None
    | Some tx \<Rightarrow> \<exists>v r. bucketGet (sUnmined ns) (hashBytes h) = Some v
        \<and> readRawTxRecord E h v = Inr r \<and> MsgTx r = tx)"

definition spends_indexed :: "store \<Rightarrow> (bytes \<Rightarrow> hash set) \<Rightarrow> bool" where
  "spends_indexed ns S \<longleftrightarrow> (\<forall>k. \<exists>hs. fetchUnminedInputSpendTxHashes ns k = Inr hs \<and> set hs = S k)"

definition spenders :: "txMap \<Rightarrow> bytes \<Rightarrow> hash set" where
  "spenders U k = {h. \<exists>tx. U h = Some tx \<and> k \<in> inputKeys tx}"

definition mempool :: "env \<Rightarrow> store \<Rightarrow> txMap \<Rightarrow> bool" where
  "mempool E ns U \<longleftrightarrow> unmined_holds E ns U \<and> spends_indexed ns (spenders U)"

text \<open>A transaction of the map that spends an output of another one, and everything it reaches.\<close>

definition spend_rel :: "txMap \<Rightarrow> (hash \<times> hash) set" where
  "spend_rel U = {(p, c). \<exists>ptx. U p = Some ptx \<and> (\<exists>k \<in> outputKeys p ptx. c \<in> spenders U k)}"

definition descendants :: "txMap \<Rightarrow> hash \<Rightarrow> hash set" where
  "descendants U h = (spend_rel U)\<^sup>* `` {h}"

text \<open>What the removal of transactions changes: nothing but the three unmined buckets, and the
  unmined credits exactly at the given keys.\<close>

definition removed :: "bytes set \<Rightarrow> store \<Rightarrow> store \<Rightarrow> bool" where
  "removed K ns ns' \<longleftrightarrow>
     ns' = ns\<lparr>sUnmined := sUnmined ns', sUnminedCredits := sUnminedCredits ns',
              sUnminedInputs := sUnminedInputs ns'\<rparr>
     \<and> (\<forall>k. bucketGet (sUnminedCredits ns') k =
          (if k \<in> K then None else bucketGet (sUnminedCredits ns) k))"

definition creditKeys :: "txMap \<Rightarrow> hash set \<Rightarrow> bytes set" where
  "creditKeys U R = {k. \<exists>h \<in> R. \<exists>tx. U h = Some tx \<and> k \<in> outputKeys h tx}"

lemma removed_refl [simp]: "removed {} ns ns"
  by (simp add: removed_def)

lemma removed_trans:
  assumes "removed K ns ns1" "removed L ns1 ns2"
  shows "removed (K \<union> L) ns ns2"
proof -
  have f: "ns1 = ns\<lparr>sUnmined := sUnmined ns1, sUnminedCredits := sUnminedCredits ns1,
      sUnminedInputs := sUnminedInputs ns1\<rparr>" "ns2 = ns1\<lparr>sUnmined := sUnmined ns2,
      sUnminedCredits := sUnminedCredits ns2, sUnminedInputs := sUnminedInputs ns2\<rparr>"
    using assms unfolding removed_def by - ((elim conjE)?, assumption)+
  have "ns2 = ns\<lparr>sUnmined := sUnmined ns2, sUnminedCredits := sUnminedCredits ns2,
      sUnminedInputs := sUnminedInputs ns2\<rparr>" by (subst f(2), subst f(1)) simp
  then show ?thesis using assms by (simp add: removed_def)
qed

lemma creditKeys_Un: "creditKeys U (A \<union> B) = creditKeys U A \<union> creditKeys U B"
  by (auto simp: creditKeys_def)

lemma creditKeys_empty [simp]: "creditKeys U {} = {}"
  by (simp add: creditKeys_def)

lemma mempool_get:
  assumes "mempool E ns U" "U h = Some tx"
  obtains v r where "bucketGet (sUnmined ns) (hashBytes h) = Some v" "readRawTxRecord E h v = Inr r"
    "MsgTx r = tx" "Hash r = h"
proof -
  have "\<exists>v r. bucketGet (sUnmined ns) (hashBytes h) = Some v \<and> readRawTxRecord E h v = Inr r \<and> MsgTx r = tx"
    using assms(1)[unfolded mempool_def unmined_holds_def, THEN conjunct1, THEN spec, of h] assms(2) by simp
  then show ?thesis using that readRawTxRecord_Hash by blast
qed

lemma mempool_get_None: "mempool E ns U \<Longrightarrow> U h = None \<Longrightarrow> bucketGet (sUnmined ns) (hashBytes h) = None"
  unfolding mempool_def unmined_holds_def by (drule conjunct1, drule spec[of _ h]) simp

lemma mempool_spenders:
  "mempool E ns U \<Longrightarrow> \<exists>hs. fetchUnminedInputSpendTxHashes ns k = Inr hs \<and> set hs = spenders U k"
  by (simp add: mempool_def spends_indexed_def)

lemma spenders_restrict: "spenders (U |` A) k = spenders U k \<inter> A"
  by (auto simp: spenders_def restrict_map_def)

lemma descendants_closed: "x \<in> descendants U h \<Longrightarrow> (x, y) \<in> spend_rel U \<Longrightarrow> y \<in> descendants U h"
  by (auto simp: descendants_def)

lemma descendants_child: "(h, x) \<in> spend_rel U \<Longrightarrow> descendants U x \<subseteq> descendants U h"
  by (auto simp: descendants_def intro: converse_rtrancl_into_rtrancl)

lemma descendants_self [simp]: "h \<in> descendants U h"
  by (simp add: descendants_def)

lemma descendants_unfold: "descendants U h = insert h (\<Union>x \<in> spend_rel U `` {h}. descendants U x)"
  by (auto simp: descendants_def elim: converse_rtranclE intro: converse_rtrancl_into_rtrancl)

lemma spend_rel_dom: "(p, c) \<in> spend_rel U \<Longrightarrow> c \<in> dom U"
  by (auto simp: spend_rel_def spenders_def)

lemma descendants_dom: "h \<in> dom U \<Longrightarrow> descendants U h \<subseteq> dom U"
  by (auto simp: descendants_def elim: rtranclE dest: spend_rel_dom)

lemma mempool_finite:
  assumes "mempool E ns U"
  shows "finite (dom U)" "card (dom U) \<le> length (entries (sUnmined ns))"
proof -
  have sub: "hashBytes ` dom U \<subseteq> set (map fst (entries (sUnmined ns)))"
  proof
    fix k assume "k \<in> hashBytes ` dom U"
    then obtain h tx where "k = hashBytes h" "U h = Some tx" by auto
    then obtain v where "bucketGet (sUnmined ns) k = Some v" using mempool_get[OF assms] by metis
    then have "(k, v) \<in> set (entries (sUnmined ns))" by (simp add: kv.mem_items_iff)
    then show "k \<in> set (map fst (entries (sUnmined ns)))" by force
  qed
  have inj: "inj_on hashBytes (dom U)" by (simp add: inj_on_def)
  show "finite (dom U)" using finite_subset[OF sub] finite_image_iff[OF inj] by simp
  have "card (dom U) = card (hashBytes ` dom U)" using card_image[OF inj] by simp
  also have "\<dots> \<le> card (set (map fst (entries (sUnmined ns))))" by (intro card_mono sub) simp
  also have "\<dots> \<le> length (entries (sUnmined ns))" using card_length[of "map fst (entries (sUnmined ns))"] by simp
  finally show "card (dom U) \<le> length (entries (sUnmined ns))" .
qed

section \<open>Removing one spending record\<close>

lemma deleteRawUnminedInput_spec:
  assumes "db_ok E" "fetchUnminedInputSpendTxHashes ns k = Inr hs"
  shows "\<exists>ns'. deleteRawUnminedInput E ns k h = Inr ns' \<and> ns' = ns\<lparr>sUnminedInputs := sUnminedInputs ns'\<rparr>
    \<and> fetchUnminedInputSpendTxHashes ns' k = Inr (filter (\<lambda>g. g \<noteq> h) hs)
    \<and> (\<forall>k'. k' \<noteq> k \<longrightarrow> fetchUnminedInputSpendTxHashes ns' k' = fetchUnminedInputSpendTxHashes ns k')"
proof (cases "bucketGet (sUnminedInputs ns) k")
  case None
  then show ?thesis using assms
    by (simp add: deleteRawUnminedInput_def fetchUnminedInputSpendTxHashes_def orNil_def)
next
  case (Some raw)
  then have raw: "raw = concat (map hashBytes hs)"
    using assms(2) by (simp add: fetchUnminedInputSpendTxHashes_def spendHashes_Inr)
  then show ?thesis using Some assms(1)
    by (auto simp: deleteRawUnminedInput_def fetchUnminedInputSpendTxHashes_def orNil_def Let_def
        filter_map_hashBytes)
qed

lemma spends_indexed_delete:
  assumes "db_ok E" "spends_indexed ns S"
  shows "\<exists>ns'. deleteRawUnminedInput E ns k h = Inr ns' \<and> ns' = ns\<lparr>sUnminedInputs := sUnminedInputs ns'\<rparr>
    \<and> spends_indexed ns' (\<lambda>k'. if k' = k then S k' - {h} else S k')"
proof -
  obtain hs where hs: "fetchUnminedInputSpendTxHashes ns k = Inr hs" "set hs = S k"
    using assms(2) by (auto simp: spends_indexed_def)
  have f: "set (filter (\<lambda>g. g \<noteq> h) hs) = S k - {h}" using hs(2) by auto
  show ?thesis using deleteRawUnminedInput_spec[OF assms(1) hs(1), of h] assms(2) f
    by (auto simp: spends_indexed_def)
qed

lemma spends_indexed_deletes:
  assumes "db_ok E" "spends_indexed ns S"
  shows "\<exists>ns'. foldE (\<lambda>input ns. deleteRawUnminedInput E ns
        (canonicalOutPoint (opHash (PreviousOutPoint input)) (opIndex (PreviousOutPoint input))) h) ins ns = Inr ns'
    \<and> ns' = ns\<lparr>sUnminedInputs := sUnminedInputs ns'\<rparr>
    \<and> spends_indexed ns' (\<lambda>k. if k \<in> inputKey ` set ins then S k - {h} else S k)"
  using assms(2)
proof (induction ins arbitrary: ns S)
  case (Cons i ins)
  let ?k = "canonicalOutPoint (opHash (PreviousOutPoint i)) (opIndex (PreviousOutPoint i))"
  let ?S = "\<lambda>k. if k = ?k then S k - {h} else S k"
  obtain ns1 where 1: "deleteRawUnminedInput E ns ?k h = Inr ns1"
    "ns1 = ns\<lparr>sUnminedInputs := sUnminedInputs ns1\<rparr>" "spends_indexed ns1 ?S"
    using spends_indexed_delete[OF assms(1) Cons.prems] by blast
  obtain ns2 where 2: "foldE (\<lambda>input ns. deleteRawUnminedInput E ns
        (canonicalOutPoint (opHash (PreviousOutPoint input)) (opIndex (PreviousOutPoint input))) h) ins ns1 = Inr ns2"
    "ns2 = ns1\<lparr>sUnminedInputs := sUnminedInputs ns2\<rparr>"
    "spends_indexed ns2 (\<lambda>k. if k \<in> inputKey ` set ins then ?S k - {h} else ?S k)"
    using Cons.IH[OF 1(3)] by blast
  have "ns2 = ns\<lparr>sUnminedInputs := sUnminedInputs ns2\<rparr>" by (subst 2(2), subst 1(2)) simp
  moreover have "(\<lambda>k. if k \<in> inputKey ` set ins then ?S k - {h} else ?S k)
      = (\<lambda>k. if k \<in> inputKey ` set (i # ins) then S k - {h} else S k)"
    by (auto simp: fun_eq_iff inputKey_def)
  ultimately show ?case using 1(1) 2(1,3) by simp
qed simp

lemma unmined_holds_frame: "sUnmined ns' = sUnmined ns \<Longrightarrow> unmined_holds E ns' U = unmined_holds E ns U"
  by (simp add: unmined_holds_def cong: option.case_cong)

text \<open>The last two steps of \<open>removeConflict\<close>: the inputs and the record itself.\<close>

lemma remove_record:
  assumes db: "db_ok E" and m: "mempool E ns U" and u: "U h = Some tx"
  shows "\<exists>ns'. bindE (foldE (\<lambda>input ns. deleteRawUnminedInput E ns
        (canonicalOutPoint (opHash (PreviousOutPoint input)) (opIndex (PreviousOutPoint input))) h) (TxIn tx) ns)
      (\<lambda>ns. deleteRawUnmined E ns (hashBytes h)) = Inr ns'
    \<and> mempool E ns' (U(h := None)) \<and> removed {} ns ns'"
proof -
  let ?S = "\<lambda>k. if k \<in> inputKey ` set (TxIn tx) then spenders U k - {h} else spenders U k"
  have m': "unmined_holds E ns U" "spends_indexed ns (spenders U)" using m by (simp_all add: mempool_def)
  obtain ns1 where 1: "foldE (\<lambda>input ns. deleteRawUnminedInput E ns
        (canonicalOutPoint (opHash (PreviousOutPoint input)) (opIndex (PreviousOutPoint input))) h) (TxIn tx) ns = Inr ns1"
    "ns1 = ns\<lparr>sUnminedInputs := sUnminedInputs ns1\<rparr>" "spends_indexed ns1 ?S"
    using spends_indexed_deletes[OF db m'(2)] by blast
  let ?ns2 = "ns1\<lparr>sUnmined := bucketDelete (sUnmined ns1) (hashBytes h)\<rparr>"
  have "?S = spenders (U(h := None))" using u by (auto simp: fun_eq_iff spenders_def inputKeys_def)
  then have si: "spends_indexed ?ns2 (spenders (U(h := None)))"
    using 1(3) by (simp add: spends_indexed_def fetchUnminedInputSpendTxHashes_def)
  have s: "sUnmined ns1 = sUnmined ns" by (subst 1(2)) simp
  have uh: "unmined_holds E ?ns2 (U(h := None))"
    unfolding unmined_holds_def
  proof
    fix g
    show "case (U(h := None)) g of None \<Rightarrow> bucketGet (sUnmined ?ns2) (hashBytes g) = None
      | Some tx \<Rightarrow> \<exists>v r. bucketGet (sUnmined ?ns2) (hashBytes g) = Some v
        \<and> readRawTxRecord E g v = Inr r \<and> MsgTx r = tx"
      using m'(1)[unfolded unmined_holds_def, THEN spec, of g] by (cases "g = h"; cases "U g") (simp_all add: s)
  qed
  obtain b where "ns1 = ns\<lparr>sUnminedInputs := b\<rparr>" using 1(2) by blast
  then have "removed {} ns ?ns2" by (simp add: removed_def)
  then show ?thesis using 1(1) db si uh by (simp add: deleteRawUnmined_def mempool_def)
qed

section \<open>Removing a transaction and its descendants\<close>

definition closed_under :: "txMap \<Rightarrow> hash set \<Rightarrow> bool" where
  "closed_under U R \<longleftrightarrow> (\<forall>x y. x \<in> R \<longrightarrow> (x, y) \<in> spend_rel U \<longrightarrow> y \<in> R)"

lemma closed_under_Un: "closed_under U R \<Longrightarrow> closed_under U (R \<union> descendants U x)"
  unfolding closed_under_def using descendants_closed by blast

lemma closed_under_descendants: "closed_under U R \<Longrightarrow> x \<in> R \<Longrightarrow> descendants U x \<subseteq> R"
proof
  fix y assume "closed_under U R" "x \<in> R" "y \<in> descendants U x"
  then have "(x, y) \<in> (spend_rel U)\<^sup>*" by (simp add: descendants_def)
  then show "y \<in> R" using \<open>closed_under U R\<close> \<open>x \<in> R\<close>
    by (induction rule: rtrancl_induct) (auto simp: closed_under_def)
qed

text \<open>What a removal function must do: with \<open>R\<close> already gone, remove a transaction and its
  descendants.  \<open>X\<close> bounds the transactions it is called on.\<close>

definition removes :: "env \<Rightarrow> txMap \<Rightarrow> hash set \<Rightarrow> (store \<Rightarrow> txRecord \<Rightarrow> store res) \<Rightarrow> bool" where
  "removes E U X rm \<longleftrightarrow> (\<forall>ns R rec. mempool E ns (U |` (- R)) \<longrightarrow> closed_under U R \<longrightarrow>
      U (Hash rec) = Some (MsgTx rec) \<longrightarrow> Hash rec \<in> X \<longrightarrow> Hash rec \<notin> R \<longrightarrow>
      (\<exists>ns'. rm ns rec = Inr ns' \<and> mempool E ns' (U |` (- (R \<union> descendants U (Hash rec))))
        \<and> removed (creditKeys U (descendants U (Hash rec) - R)) ns ns'))"

lemma removesD:
  assumes "removes E U X rm" "mempool E ns (U |` (- R))" "closed_under U R"
    "U (Hash rec) = Some (MsgTx rec)" "Hash rec \<in> X" "Hash rec \<notin> R"
  shows "\<exists>ns'. rm ns rec = Inr ns' \<and> mempool E ns' (U |` (- (R \<union> descendants U (Hash rec))))
        \<and> removed (creditKeys U (descendants U (Hash rec) - R)) ns ns'"
  using assms unfolding removes_def by blast

lemma removeSpender_spec:
  assumes rm: "removes E U X rm" and m: "mempool E ns (U |` (- R))" and c: "closed_under U R"
    and x: "x \<in> X" "x \<in> dom U"
  shows "\<exists>ns'. removeSpender rm E x ns = Inr ns' \<and> mempool E ns' (U |` (- (R \<union> descendants U x)))
        \<and> removed (creditKeys U (descendants U x - R)) ns ns'"
proof (cases "x \<in> R")
  case True
  then have "(U |` (- R)) x = None" "descendants U x \<subseteq> R" using closed_under_descendants[OF c] by auto
  then have "R \<union> descendants U x = R" "descendants U x - R = {}"
    "removeSpender rm E x ns = Inr ns"
    using mempool_get_None[OF m, of x] by (auto simp: removeSpender_def existsRawUnmined_def)
  then have "creditKeys U (descendants U x - R) = {}" by (simp only: creditKeys_empty)
  then show ?thesis using m \<open>R \<union> descendants U x = R\<close> \<open>removeSpender rm E x ns = Inr ns\<close> by simp
next
  case False
  obtain tx where tx: "U x = Some tx" using x(2) by blast
  then have "(U |` (- R)) x = Some tx" using False by simp
  from mempool_get[OF m this] obtain v r where r: "bucketGet (sUnmined ns) (hashBytes x) = Some v"
    "readRawTxRecord E x v = Inr r" "MsgTx r = tx" "Hash r = x" .
  then have "removeSpender rm E x ns = rm ns r" by (simp add: removeSpender_def existsRawUnmined_def)
  moreover have "U (Hash r) = Some (MsgTx r)" "Hash r \<in> X" "Hash r \<notin> R" using r tx x False by simp_all
  ultimately show ?thesis using removesD[OF rm m c, of r] r(4) by simp
qed

lemma removeSpenders_spec:
  assumes rm: "removes E U X rm"
  shows "mempool E ns (U |` (- R)) \<Longrightarrow> closed_under U R \<Longrightarrow> set hs \<subseteq> X \<inter> dom U \<Longrightarrow>
    \<exists>ns'. foldE (removeSpender rm E) hs ns = Inr ns'
      \<and> mempool E ns' (U |` (- (R \<union> (\<Union>x \<in> set hs. descendants U x))))
      \<and> removed (creditKeys U ((\<Union>x \<in> set hs. descendants U x) - R)) ns ns'"
proof (induction hs arbitrary: ns R)
  case (Cons x hs)
  let ?R = "R \<union> descendants U x"
  have "x \<in> X" "x \<in> dom U" using Cons.prems(3) by auto
  from removeSpender_spec[OF rm Cons.prems(1,2) this] obtain ns1 where
    1: "removeSpender rm E x ns = Inr ns1" "mempool E ns1 (U |` (- ?R))"
      "removed (creditKeys U (descendants U x - R)) ns ns1" by blast
  have "closed_under U ?R" using closed_under_Un[OF Cons.prems(2)] .
  from Cons.IH[OF 1(2) this] Cons.prems(3) obtain ns2 where
    2: "foldE (removeSpender rm E) hs ns1 = Inr ns2"
      "mempool E ns2 (U |` (- (?R \<union> (\<Union>x \<in> set hs. descendants U x))))"
      "removed (creditKeys U ((\<Union>x \<in> set hs. descendants U x) - ?R)) ns1 ns2" by auto
  have "removed (creditKeys U ((\<Union>x \<in> set (x # hs). descendants U x) - R)) ns ns2"
  proof -
    have "(\<Union>x \<in> set (x # hs). descendants U x) - R
        = (descendants U x - R) \<union> ((\<Union>x \<in> set hs. descendants U x) - ?R)" by auto
    then show ?thesis using removed_trans[OF 1(3) 2(3)] by (simp only: creditKeys_Un)
  qed
  then show ?case using 1(1) 2(1,2) by (simp add: Un_assoc)
qed simp

lemma deleteRawUnminedCredit_spec:
  assumes "db_ok E" "mempool E ns U"
  shows "\<exists>ns'. deleteRawUnminedCredit E ns k = Inr ns' \<and> mempool E ns' U \<and> removed {k} ns ns'"
proof -
  let ?ns' = "ns\<lparr>sUnminedCredits := bucketDelete (sUnminedCredits ns) k\<rparr>"
  have "mempool E ?ns' U" using assms(2)
    by (simp add: mempool_def spends_indexed_def fetchUnminedInputSpendTxHashes_def
        unmined_holds_frame[of ?ns' ns])
  moreover have "removed {k} ns ?ns'" by (simp add: removed_def bucketGet_upd)
  ultimately show ?thesis using assms(1) by (simp add: deleteRawUnminedCredit_def)
qed

text \<open>The descendants through a list of outputs, and the loop over the outputs.\<close>

definition spendersOf :: "txMap \<Rightarrow> hash \<Rightarrow> (u32 \<times> txOut) list \<Rightarrow> hash set" where
  "spendersOf U h outs = (\<Union>(i, _) \<in> set outs. spenders U (canonicalOutPoint h i))"

lemma removeOutputs_spec:
  assumes rm: "removes E U X rm" and db: "db_ok E"
  shows "mempool E ns (U |` (- R)) \<Longrightarrow> closed_under U R \<Longrightarrow> spendersOf U h outs \<subseteq> X \<Longrightarrow>
    \<exists>ns'. foldE (\<lambda>(i, _) ns.
         let k = canonicalOutPoint h i in
         bindE (fetchUnminedInputSpendTxHashes ns k) (\<lambda>spenderHashes.
         bindE (foldE (removeSpender rm E) spenderHashes ns) (\<lambda>ns.
         deleteRawUnminedCredit E ns k))) outs ns = Inr ns'
      \<and> mempool E ns' (U |` (- (R \<union> (\<Union>x \<in> spendersOf U h outs. descendants U x))))
      \<and> removed (creditKeys U ((\<Union>x \<in> spendersOf U h outs. descendants U x) - R)
          \<union> (\<lambda>(i, _). canonicalOutPoint h i) ` set outs) ns ns'"
proof (induction outs arbitrary: ns R)
  case (Cons p outs)
  obtain i out where p: "p = (i, out)" by fastforce
  let ?k = "canonicalOutPoint h i"
  let ?D = "\<Union>x \<in> spenders U ?k. descendants U x"
  let ?R = "R \<union> ?D"
  obtain hs where hs: "fetchUnminedInputSpendTxHashes ns ?k = Inr hs" "set hs = spenders U ?k \<inter> - R"
    using mempool_spenders[OF Cons.prems(1), of ?k] by (auto simp: spenders_restrict)
  have sub: "set hs \<subseteq> X \<inter> dom U"
    using hs(2) Cons.prems(3) by (auto simp: spendersOf_def p spenders_def)
  from removeSpenders_spec[OF rm Cons.prems(1,2) this] obtain ns1 where
    1: "foldE (removeSpender rm E) hs ns = Inr ns1"
      "mempool E ns1 (U |` (- (R \<union> (\<Union>x \<in> set hs. descendants U x))))"
      "removed (creditKeys U ((\<Union>x \<in> set hs. descendants U x) - R)) ns ns1" by blast
  have D: "R \<union> (\<Union>x \<in> set hs. descendants U x) = ?R"
    using hs(2) closed_under_descendants[OF Cons.prems(2)] by blast
  then have D': "(\<Union>x \<in> set hs. descendants U x) - R = ?D - R" by blast
  from deleteRawUnminedCredit_spec[OF db, of ns1 "U |` (- ?R)" ?k] 1(2) D obtain ns2 where
    2: "deleteRawUnminedCredit E ns1 ?k = Inr ns2" "mempool E ns2 (U |` (- ?R))" "removed {?k} ns1 ns2"
    by auto
  have "closed_under U ?R"
    unfolding closed_under_def
  proof (intro allI impI)
    fix x y assume "x \<in> ?R" and e: "(x, y) \<in> spend_rel U"
    then consider "x \<in> R" | g where "g \<in> spenders U ?k" "x \<in> descendants U g" by blast
    then show "y \<in> ?R"
    proof cases
      case 1
      then show ?thesis using Cons.prems(2) e by (simp add: closed_under_def)
    next
      case 2
      then show ?thesis using descendants_closed[OF 2(2) e] by blast
    qed
  qed
  from Cons.IH[OF 2(2) this] Cons.prems(3) obtain ns3 where
    3: "foldE (\<lambda>(i, _) ns.
         let k = canonicalOutPoint h i in
         bindE (fetchUnminedInputSpendTxHashes ns k) (\<lambda>spenderHashes.
         bindE (foldE (removeSpender rm E) spenderHashes ns) (\<lambda>ns.
         deleteRawUnminedCredit E ns k))) outs ns2 = Inr ns3"
      "mempool E ns3 (U |` (- (?R \<union> (\<Union>x \<in> spendersOf U h outs. descendants U x))))"
      "removed (creditKeys U ((\<Union>x \<in> spendersOf U h outs. descendants U x) - ?R)
          \<union> (\<lambda>(i, _). canonicalOutPoint h i) ` set outs) ns2 ns3"
    by (auto simp: spendersOf_def p)
  have u: "(\<Union>x \<in> spendersOf U h (p # outs). descendants U x)
      = ?D \<union> (\<Union>x \<in> spendersOf U h outs. descendants U x)" by (auto simp: spendersOf_def p)
  have r: "removed (creditKeys U (?D - R) \<union> {?k} \<union> (creditKeys U ((\<Union>x \<in> spendersOf U h outs. descendants U x) - ?R)
      \<union> (\<lambda>(i, _). canonicalOutPoint h i) ` set outs)) ns ns3"
    by (rule removed_trans[OF removed_trans[OF 1(3)[unfolded D'] 2(3)] 3(3)])
  have "(?D \<union> (\<Union>x \<in> spendersOf U h outs. descendants U x)) - R
      = (?D - R) \<union> ((\<Union>x \<in> spendersOf U h outs. descendants U x) - ?R)" by auto
  then have "creditKeys U (?D - R) \<union> {?k} \<union> (creditKeys U ((\<Union>x \<in> spendersOf U h outs. descendants U x) - ?R)
      \<union> (\<lambda>(i, _). canonicalOutPoint h i) ` set outs)
    = creditKeys U ((\<Union>x \<in> spendersOf U h (p # outs). descendants U x) - R)
      \<union> (\<lambda>(i, _). canonicalOutPoint h i) ` set (p # outs)"
    unfolding u by (simp only: creditKeys_Un) (auto simp: p)
  with r 3(1,2) hs(1) 1(1) 2(1) show ?case unfolding u by (auto simp: p Un_assoc)
qed (simp add: spendersOf_def)

lemma spendersOf_indexed:
  "U h = Some tx \<Longrightarrow> spendersOf U h (indexed (TxOut tx)) = spend_rel U `` {h}"
  unfolding spendersOf_def spend_rel_def outputKeys_def by (fastforce simp: case_prod_unfold)

lemma descendants_child_less:
  assumes "acyclic (spend_rel U)" "finite (dom U)" "h \<in> dom U" "(h, x) \<in> spend_rel U"
  shows "card (descendants U x) < card (descendants U h)"
proof (rule psubset_card_mono)
  show "finite (descendants U h)" by (rule finite_subset[OF descendants_dom[OF assms(3)] assms(2)])
  have "h \<notin> descendants U x"
    using assms(1,4) rtrancl_into_trancl2[of h x "spend_rel U" h] by (auto simp: descendants_def acyclic_def)
  then show "descendants U x \<subset> descendants U h" using descendants_child[OF assms(4)] by auto
qed

lemma restrict_minus_insert: "(U |` (- R))(h := None) = U |` (- insert h R)"
  by (auto simp: restrict_map_def fun_eq_iff)

lemma restrict_UNIV [simp]: "U |` UNIV = U"
  by (simp add: restrict_map_def)

lemma removeConflictFuel_removes:
  assumes db: "db_ok E" and ac: "acyclic (spend_rel U)" and fin: "finite (dom U)"
  shows "\<forall>x \<in> X \<inter> dom U. card (descendants U x) \<le> n \<Longrightarrow> removes E U X (removeConflictFuel n E)"
proof (induction n arbitrary: X)
  case 0
  have "card (descendants U x) > 0" if "x \<in> dom U" for x
    using finite_subset[OF descendants_dom[OF that] fin] by (simp add: card_gt_0_iff) (use descendants_self in blast)
  then have "X \<inter> dom U = {}" using 0 by (meson disjoint_iff IntI not_le)
  then show ?case by (auto simp: removes_def)
next
  case (Suc n)
  show ?case
    unfolding removes_def
  proof (intro allI impI)
    fix ns R and rec :: txRecord
    assume m: "mempool E ns (U |` (- R))" and c: "closed_under U R" and u: "U (Hash rec) = Some (MsgTx rec)"
      and x: "Hash rec \<in> X" and r: "Hash rec \<notin> R"
    let ?h = "Hash rec" and ?os = "indexed (TxOut (MsgTx rec))"
    let ?C = "spend_rel U `` {?h}"
    let ?D = "\<Union>x \<in> ?C. descendants U x"
    have dom: "?h \<in> dom U" using u by blast
    have C: "spendersOf U ?h ?os = ?C" by (rule spendersOf_indexed[where U = U and h = ?h, OF u])
    have "removes E U ?C (removeConflictFuel n E)"
    proof (rule Suc.IH, rule ballI)
      fix y assume "y \<in> ?C \<inter> dom U"
      then have "card (descendants U y) < card (descendants U ?h)"
        by (intro descendants_child_less[OF ac fin dom]) auto
      moreover have "card (descendants U ?h) \<le> Suc n" using Suc.prems x dom by blast
      ultimately show "card (descendants U y) \<le> n" by linarith
    qed
    from removeOutputs_spec[OF this db m c, of ?h ?os] C obtain ns1 where
      1: "foldE (\<lambda>(i, _) ns.
         let k = canonicalOutPoint ?h i in
         bindE (fetchUnminedInputSpendTxHashes ns k) (\<lambda>spenderHashes.
         bindE (foldE (removeSpender (removeConflictFuel n E) E) spenderHashes ns) (\<lambda>ns.
         deleteRawUnminedCredit E ns k))) ?os ns = Inr ns1"
        "mempool E ns1 (U |` (- (R \<union> ?D)))"
        "removed (creditKeys U (?D - R) \<union> outputKeys ?h (MsgTx rec)) ns ns1"
      by (auto simp: outputKeys_def)
    have "?h \<notin> descendants U y" if "(?h, y) \<in> spend_rel U" for y
      using ac that rtrancl_into_trancl2[of ?h y "spend_rel U" ?h] by (auto simp: descendants_def acyclic_def)
    then have "?h \<notin> ?D" by blast
    then have "(U |` (- (R \<union> ?D))) ?h = Some (MsgTx rec)" using u r by simp
    from remove_record[OF db 1(2) this, unfolded restrict_minus_insert] obtain ns2 where
      2: "bindE (foldE (\<lambda>input ns. deleteRawUnminedInput E ns
        (canonicalOutPoint (opHash (PreviousOutPoint input)) (opIndex (PreviousOutPoint input))) ?h)
          (TxIn (MsgTx rec)) ns1) (\<lambda>ns. deleteRawUnmined E ns (hashBytes ?h)) = Inr ns2"
        "mempool E ns2 (U |` (- insert ?h (R \<union> ?D)))" "removed {} ns1 ns2"
      by blast
    have d: "descendants U ?h = insert ?h ?D" by (rule descendants_unfold)
    have e1: "insert ?h (R \<union> ?D) = R \<union> descendants U ?h" unfolding d by blast
    have "descendants U ?h - R = (?D - R) \<union> {?h}" unfolding d using r by blast
    then have e2: "creditKeys U (descendants U ?h - R) = creditKeys U (?D - R) \<union> outputKeys ?h (MsgTx rec)"
      by (simp only: creditKeys_Un) (auto simp: creditKeys_def u)
    have "removed (creditKeys U (descendants U ?h - R)) ns ns2"
      using removed_trans[OF 1(3) 2(3)] by (simp add: e2)
    moreover have "removeConflictFuel (Suc n) E ns rec = Inr ns2" using 1(1) 2(1) by simp
    ultimately show "\<exists>ns'. removeConflictFuel (Suc n) E ns rec = Inr ns'
        \<and> mempool E ns' (U |` (- (R \<union> descendants U ?h)))
        \<and> removed (creditKeys U (descendants U ?h - R)) ns ns'"
      using 2(2) by (auto simp only: e1)
  qed
qed

lemma descendants_card:
  "mempool E ns U \<Longrightarrow> h \<in> dom U \<Longrightarrow> card (descendants U h) \<le> length (entries (sUnmined ns))"
  using mempool_finite[of E ns U] card_mono[OF _ descendants_dom[of h U]] by fastforce

lemma spend_rel_restrict: "spend_rel (U |` (- R)) = {(p, c) \<in> spend_rel U. p \<notin> R \<and> c \<notin> R}"
proof -
  have "(U |` (- R)) p = Some t \<longleftrightarrow> U p = Some t \<and> p \<notin> R" for p t by (auto simp: restrict_map_def)
  then show ?thesis unfolding spend_rel_def spenders_restrict by auto
qed

lemma acyclic_restrict: "acyclic (spend_rel U) \<Longrightarrow> acyclic (spend_rel (U |` (- R)))"
  by (rule acyclic_subset[of "spend_rel U"]) (auto simp: spend_rel_restrict)

lemma descendants_restrict:
  assumes c: "closed_under U R" and h: "h \<notin> R"
  shows "descendants (U |` (- R)) h = descendants U h - R"
proof
  have "(h, y) \<in> (spend_rel (U |` (- R)))\<^sup>* \<Longrightarrow> y \<in> descendants U h - R" for y
    by (induction rule: rtrancl_induct) (use h in \<open>auto simp: spend_rel_restrict dest: descendants_closed\<close>)
  then show "descendants (U |` (- R)) h \<subseteq> descendants U h - R" by (auto simp: descendants_def)
  have "(h, y) \<in> (spend_rel U)\<^sup>* \<Longrightarrow> y \<in> R \<or> y \<in> descendants (U |` (- R)) h" for y
  proof (induction rule: rtrancl_induct)
    case (step y z)
    show ?case
    proof (cases "z \<in> R")
      case False
      then have "y \<notin> R" using c step.hyps(2) by (auto simp: closed_under_def)
      then have "(y, z) \<in> spend_rel (U |` (- R))" using step.hyps(2) False by (simp add: spend_rel_restrict)
      then show ?thesis using step.IH \<open>y \<notin> R\<close> descendants_closed by blast
    qed simp
  qed simp
  then show "descendants U h - R \<subseteq> descendants (U |` (- R)) h" by (auto simp: descendants_def[of U])
qed

lemma removeConflict_spec:
  assumes "db_ok E" "mempool E ns U" "acyclic (spend_rel U)" "U (Hash rec) = Some (MsgTx rec)"
  shows "\<exists>ns'. removeConflict E ns rec = Inr ns' \<and> mempool E ns' (U |` (- descendants U (Hash rec)))
    \<and> removed (creditKeys U (descendants U (Hash rec))) ns ns'"
proof -
  have "removes E U UNIV (removeConflictFuel (Suc (length (entries (sUnmined ns)))) E)"
    using descendants_card[OF assms(2)] mempool_finite(1)[OF assms(2)]
    by (intro removeConflictFuel_removes[OF assms(1,3)]) (auto simp: le_SucI)
  from removesD[OF this, of ns "{}" rec] show ?thesis
    using assms(2,4) by (simp add: removeConflict_def closed_under_def del: removeConflictFuel.simps)
qed

text \<open>C28: \<open>removeConflict\<close> terminates with success and removes the given unmined transaction
  and, recursively, every unmined transaction that spends from it, together with their unmined
  credits and their entries in the spend index; every other transaction, credit and every mined
  bucket is left as it was.\<close>

theorem removeConflict_removes_descendants:
  assumes "db_ok E" "mempool E ns U" "acyclic (spend_rel U)" "U (Hash rec) = Some (MsgTx rec)"
  shows "\<exists>ns'. removeConflict E ns rec = Inr ns' \<and> mempool E ns' (U |` (- descendants U (Hash rec)))
    \<and> removed (creditKeys U (descendants U (Hash rec))) ns ns'"
  by (rule removeConflict_spec[OF assms])

lemma removeConflict_removes:
  assumes "db_ok E" "acyclic (spend_rel U)"
  shows "removes E U UNIV (removeConflict E)"
  unfolding removes_def
proof (intro allI impI)
  fix ns R and rec :: txRecord
  assume m: "mempool E ns (U |` (- R))" and c: "closed_under U R" and u: "U (Hash rec) = Some (MsgTx rec)"
    and r: "Hash rec \<notin> R"
  let ?V = "U |` (- R)" and ?h = "Hash rec"
  have v: "?V ?h = Some (MsgTx rec)" using u r by simp
  have d: "descendants ?V ?h = descendants U ?h - R" by (rule descendants_restrict[OF c r])
  have "?V |` (- (descendants U ?h - R)) = U |` (- (R \<union> descendants U ?h))"
    by (auto simp: restrict_map_def fun_eq_iff)
  moreover have "creditKeys ?V (descendants U ?h - R) = creditKeys U (descendants U ?h - R)"
    by (auto simp: creditKeys_def restrict_map_def split: if_splits)
  ultimately show "\<exists>ns'. removeConflict E ns rec = Inr ns'
      \<and> mempool E ns' (U |` (- (R \<union> descendants U ?h)))
      \<and> removed (creditKeys U (descendants U ?h - R)) ns ns'"
    using removeConflict_spec[OF assms(1) m acyclic_restrict[OF assms(2)] v] d by simp
qed

section \<open>Removing double spends\<close>

definition rivals :: "txMap \<Rightarrow> txRecord \<Rightarrow> hash set" where
  "rivals U rec = (\<Union>k \<in> inputKeys (MsgTx rec). spenders U k) - {Hash rec}"

definition doomed :: "txMap \<Rightarrow> hash set \<Rightarrow> hash set" where
  "doomed U A = (\<Union>x \<in> A. descendants U x)"

lemma foldE_skip:
  "foldE (\<lambda>x s. if a = x then Inr s else f x s) xs s = foldE f (filter (\<lambda>x. x \<noteq> a) xs) s"
  by (induction xs arbitrary: s) (auto intro: bindE_cong)

lemma closed_doomed: "closed_under U (doomed U A)"
  unfolding closed_under_def doomed_def using descendants_closed by fastforce

lemma doomed_Un: "doomed U (A \<union> B) = doomed U A \<union> doomed U B"
  by (auto simp: doomed_def)

text \<open>Removing those of \<open>B\<close> that are not already gone completes the removal of \<open>B\<close>.\<close>

lemma doomed_step:
  assumes "S = B - doomed U A"
  shows "doomed U A \<union> doomed U S = doomed U (A \<union> B)"
proof -
  have "doomed U (B \<inter> doomed U A) \<subseteq> doomed U A"
    using closed_under_descendants[OF closed_doomed[of U A]] by (auto simp: doomed_def[of U "B \<inter> doomed U A"])
  moreover have "doomed U B = doomed U S \<union> doomed U (B \<inter> doomed U A)"
    unfolding doomed_Un[symmetric] assms by (rule arg_cong[of _ _ "doomed U"]) blast
  ultimately show ?thesis unfolding doomed_Un by blast
qed

lemma removeDoubleSpends_inputs:
  assumes db: "db_ok E" and ac: "acyclic (spend_rel U)"
  shows "mempool E ns (U |` (- doomed U A)) \<Longrightarrow>
    \<exists>ns'. foldE (\<lambda>input ns.
         let prevOutKey = canonicalOutPoint (opHash (PreviousOutPoint input)) (opIndex (PreviousOutPoint input))
         in bindE (fetchUnminedInputSpendTxHashes ns prevOutKey) (\<lambda>doubleSpendHashes.
            foldE (\<lambda>doubleSpendHash ns.
                if h = doubleSpendHash then Inr ns
                else removeSpender (removeConflict E) E doubleSpendHash ns)
              doubleSpendHashes ns)) ins ns = Inr ns'
      \<and> mempool E ns' (U |` (- doomed U (A \<union> ((\<Union>k \<in> inputKey ` set ins. spenders U k) - {h}))))
      \<and> removed (creditKeys U (doomed U ((\<Union>k \<in> inputKey ` set ins. spenders U k) - {h}) - doomed U A)) ns ns'"
proof (induction ins arbitrary: ns A)
  case (Cons i ins)
  let ?k = "inputKey i"
  let ?R = "doomed U A" and ?B = "spenders U ?k - {h}"
  obtain hs where hs: "fetchUnminedInputSpendTxHashes ns ?k = Inr hs" "set hs = spenders U ?k \<inter> - ?R"
    using mempool_spenders[OF Cons.prems, of ?k] by (auto simp: spenders_restrict)
  let ?hs = "filter (\<lambda>x. x \<noteq> h) hs"
  have "set ?hs \<subseteq> UNIV \<inter> dom U" using hs(2) by (auto simp: spenders_def)
  from removeSpenders_spec[OF removeConflict_removes[OF db ac] Cons.prems closed_doomed this] obtain ns1 where
    1: "foldE (removeSpender (removeConflict E) E) ?hs ns = Inr ns1"
      "mempool E ns1 (U |` (- (?R \<union> doomed U (set ?hs))))"
      "removed (creditKeys U (doomed U (set ?hs) - ?R)) ns ns1" by (auto simp: doomed_def)
  have sh: "?R \<union> doomed U (set ?hs) = doomed U (A \<union> ?B)"
    by (rule doomed_step) (use hs(2) in auto)
  then have sh': "doomed U (set ?hs) - ?R = doomed U ?B - ?R" unfolding doomed_Un by blast
  let ?C = "(\<Union>k \<in> inputKey ` set ins. spenders U k) - {h}"
  from Cons.IH[OF 1(2)[unfolded sh]] obtain ns2 where
    2: "foldE (\<lambda>input ns.
         let prevOutKey = canonicalOutPoint (opHash (PreviousOutPoint input)) (opIndex (PreviousOutPoint input))
         in bindE (fetchUnminedInputSpendTxHashes ns prevOutKey) (\<lambda>doubleSpendHashes.
            foldE (\<lambda>doubleSpendHash ns.
                if h = doubleSpendHash then Inr ns
                else removeSpender (removeConflict E) E doubleSpendHash ns)
              doubleSpendHashes ns)) ins ns1 = Inr ns2"
      "mempool E ns2 (U |` (- doomed U (A \<union> ?B \<union> ?C)))"
      "removed (creditKeys U (doomed U ?C - doomed U (A \<union> ?B))) ns1 ns2" by blast
  have u: "(\<Union>k \<in> inputKey ` set (i # ins). spenders U k) - {h} = ?B \<union> ?C" by auto
  have "doomed U (?B \<union> ?C) - ?R = (doomed U ?B - ?R) \<union> (doomed U ?C - doomed U (A \<union> ?B))"
    unfolding doomed_Un by blast
  then have "removed (creditKeys U (doomed U (?B \<union> ?C) - ?R)) ns ns2"
    using removed_trans[OF 1(3)[unfolded sh'] 2(3)] by (simp only: creditKeys_Un)
  moreover have "A \<union> (?B \<union> ?C) = A \<union> ?B \<union> ?C" by blast
  ultimately show ?case using 2(1,2) 1(1) hs(1) unfolding u
    by (simp add: foldE_skip inputKey_def)
qed (simp add: doomed_def)

text \<open>\<open>removeDoubleSpends\<close> removes the unmined transactions other than the given one that
  spend one of its inputs, with all their descendants, and nothing else; afterwards no other unmined
  transaction spends any of its inputs.\<close>

lemma removeDoubleSpends_no_rivals:
  assumes "db_ok E" "mempool E ns U" "acyclic (spend_rel U)"
    and "D = doomed U (rivals U rec)"
  shows "\<exists>ns'. removeDoubleSpends E ns rec = Inr ns' \<and> mempool E ns' (U |` (- D))
    \<and> removed (creditKeys U D) ns ns'
    \<and> (\<forall>k \<in> inputKeys (MsgTx rec). spenders (U |` (- D)) k \<subseteq> {Hash rec})"
proof -
  have e: "doomed U {} = {}" by (simp add: doomed_def)
  have "rivals U rec \<subseteq> D" by (auto simp: assms(4) doomed_def)
  then have "\<forall>k \<in> inputKeys (MsgTx rec). spenders (U |` (- D)) k \<subseteq> {Hash rec}"
    by (auto simp: rivals_def spenders_restrict)
  then show ?thesis
    using removeDoubleSpends_inputs[OF assms(1,3), of ns "{}" "Hash rec" "TxIn (MsgTx rec)"] assms(2)
    by (simp add: e removeDoubleSpends_def assms(4) rivals_def inputKeys_def)
qed

section \<open>Inserting an unmined transaction\<close>

lemma spends_indexed_put:
  assumes "db_ok E" "spends_indexed ns S"
  shows "\<exists>ns'. putRawUnminedInput E ns k (hashBytes h) = Inr ns' \<and> ns' = ns\<lparr>sUnminedInputs := sUnminedInputs ns'\<rparr>
    \<and> spends_indexed ns' (\<lambda>k'. if k' = k then insert h (S k') else S k')"
proof -
  obtain hs where hs: "fetchUnminedInputSpendTxHashes ns k = Inr hs" "set hs = S k"
    using assms(2) by (auto simp: spends_indexed_def)
  then have "orNil (bucketGet (sUnminedInputs ns) k) = concat (map hashBytes hs)"
    by (auto simp: fetchUnminedInputSpendTxHashes_def orNil_def spendHashes_Inr split: option.splits)
  then have v: "orNil (bucketGet (sUnminedInputs ns) k) @ hashBytes h = concat (map hashBytes (hs @ [h]))" by simp
  let ?ns' = "ns\<lparr>sUnminedInputs := bucketPut (sUnminedInputs ns) k (concat (map hashBytes (hs @ [h])))\<rparr>"
  have f: "fetchUnminedInputSpendTxHashes ?ns' k = Inr (hs @ [h])"
    using spendHashes_concat[of "hs @ [h]"] by (simp add: fetchUnminedInputSpendTxHashes_def del: spendHashes_concat)
  have "fetchUnminedInputSpendTxHashes ?ns' k' = fetchUnminedInputSpendTxHashes ns k'" if "k' \<noteq> k" for k'
    using that by (simp add: fetchUnminedInputSpendTxHashes_def)
  then have "spends_indexed ?ns' (\<lambda>k'. if k' = k then insert h (S k') else S k')"
    using assms(2) f hs(2) by (auto simp: spends_indexed_def)
  then show ?thesis using assms(1) unfolding putRawUnminedInput_def v by simp
qed

lemma spends_indexed_puts:
  assumes "db_ok E" "spends_indexed ns S"
  shows "\<exists>ns'. foldE (\<lambda>input ns. putRawUnminedInput E ns
        (canonicalOutPoint (opHash (PreviousOutPoint input)) (opIndex (PreviousOutPoint input))) (hashBytes h)) ins ns = Inr ns'
    \<and> ns' = ns\<lparr>sUnminedInputs := sUnminedInputs ns'\<rparr>
    \<and> spends_indexed ns' (\<lambda>k. if k \<in> inputKey ` set ins then insert h (S k) else S k)"
  using assms(2)
proof (induction ins arbitrary: ns S)
  case (Cons i ins)
  let ?k = "canonicalOutPoint (opHash (PreviousOutPoint i)) (opIndex (PreviousOutPoint i))"
  let ?S = "\<lambda>k. if k = ?k then insert h (S k) else S k"
  obtain ns1 where 1: "putRawUnminedInput E ns ?k (hashBytes h) = Inr ns1"
    "ns1 = ns\<lparr>sUnminedInputs := sUnminedInputs ns1\<rparr>" "spends_indexed ns1 ?S"
    using spends_indexed_put[OF assms(1) Cons.prems] by blast
  obtain ns2 where 2: "foldE (\<lambda>input ns. putRawUnminedInput E ns
        (canonicalOutPoint (opHash (PreviousOutPoint input)) (opIndex (PreviousOutPoint input))) (hashBytes h)) ins ns1 = Inr ns2"
    "ns2 = ns1\<lparr>sUnminedInputs := sUnminedInputs ns2\<rparr>"
    "spends_indexed ns2 (\<lambda>k. if k \<in> inputKey ` set ins then insert h (?S k) else ?S k)"
    using Cons.IH[OF 1(3)] by blast
  have "ns2 = ns\<lparr>sUnminedInputs := sUnminedInputs ns2\<rparr>" by (subst 2(2), subst 1(2)) simp
  moreover have "(\<lambda>k. if k \<in> inputKey ` set ins then insert h (?S k) else ?S k)
      = (\<lambda>k. if k \<in> inputKey ` set (i # ins) then insert h (S k) else S k)"
    by (auto simp: fun_eq_iff inputKey_def)
  ultimately show ?case using 1(1) 2(1,3) by simp
qed simp

text \<open>The record is unknown, and none of its outputs is already an unspent mined output.\<close>

definition insertable :: "env \<Rightarrow> store \<Rightarrow> txRecord \<Rightarrow> bool" where
  "insertable E ns rec \<longleftrightarrow> TxDetails E ns (Hash rec) = Inr None \<and> rec_ok E rec
     \<and> (\<forall>k \<in> outputKeys (Hash rec) (MsgTx rec). existsRawUnspent ns k = None)"

lemma TxDetails_None: "TxDetails E ns h = Inr None \<Longrightarrow> bucketGet (sUnmined ns) (hashBytes h) = None"
  by (auto simp: TxDetails_def existsRawUnmined_def split: option.splits)

lemma insertMemPoolTx_spec:
  assumes db: "db_ok E" and m: "mempool E ns U" and ok: "insertable E ns rec"
  shows "\<exists>ns'. insertMemPoolTx E ns rec = Inr ns' \<and> mempool E ns' (U(Hash rec \<mapsto> MsgTx rec))
    \<and> ns' = ns\<lparr>sUnmined := sUnmined ns', sUnminedInputs := sUnminedInputs ns'\<rparr>"
proof -
  let ?h = "Hash rec" and ?U = "U(Hash rec \<mapsto> MsgTx rec)"
  have td: "TxDetails E ns ?h = Inr None" and r: "rec_ok E rec"
    and uns: "\<forall>(i, t) \<in> set (indexed (TxOut (MsgTx rec))). existsRawUnspent ns (canonicalOutPoint ?h i) = None"
    using ok by (auto simp: insertable_def outputKeys_def)
  obtain v where v: "valueTxRecord E rec = Inr v" using valueTxRecord_total[OF r] by blast
  have uh: "U ?h = None"
  proof (rule ccontr)
    assume "U ?h \<noteq> None"
    then obtain tx where "U ?h = Some tx" by blast
    from mempool_get[OF m this] show False using TxDetails_None[OF td] by simp
  qed
  have m': "unmined_holds E ns U" "spends_indexed ns (spenders U)" using m by (simp_all add: mempool_def)
  let ?ns1 = "ns\<lparr>sUnmined := bucketPut (sUnmined ns) (hashBytes ?h) v\<rparr>"
  have "spends_indexed ?ns1 (spenders U)" using m'(2) by (simp add: spends_indexed_def fetchUnminedInputSpendTxHashes_def)
  from spends_indexed_puts[OF db this, of ?h "TxIn (MsgTx rec)"] obtain ns2 where
    2: "foldE (\<lambda>input ns. putRawUnminedInput E ns
        (canonicalOutPoint (opHash (PreviousOutPoint input)) (opIndex (PreviousOutPoint input))) (hashBytes ?h))
        (TxIn (MsgTx rec)) ?ns1 = Inr ns2" "ns2 = ?ns1\<lparr>sUnminedInputs := sUnminedInputs ns2\<rparr>"
      "spends_indexed ns2 (\<lambda>k. if k \<in> inputKey ` set (TxIn (MsgTx rec)) then insert ?h (spenders U k) else spenders U k)"
    by blast
  have "(\<lambda>k. if k \<in> inputKey ` set (TxIn (MsgTx rec)) then insert ?h (spenders U k) else spenders U k) = spenders ?U"
    using uh by (auto simp: fun_eq_iff spenders_def inputKeys_def)
  then have si: "spends_indexed ns2 (spenders ?U)" using 2(3) by simp
  obtain b where ns2: "ns2 = ?ns1\<lparr>sUnminedInputs := b\<rparr>" using 2(2) by blast
  have "unmined_holds E ns2 ?U"
    unfolding unmined_holds_def
  proof
    fix g
    show "case ?U g of None \<Rightarrow> bucketGet (sUnmined ns2) (hashBytes g) = None
      | Some tx \<Rightarrow> \<exists>v r. bucketGet (sUnmined ns2) (hashBytes g) = Some v
        \<and> readRawTxRecord E g v = Inr r \<and> MsgTx r = tx"
      using m'(1)[unfolded unmined_holds_def, THEN spec, of g] readRawTxRecord_value[OF v r, of ?h]
      by (cases "g = ?h"; cases "U g") (simp_all add: ns2)
  qed
  moreover have "insertMemPoolTx E ns rec = Inr ns2"
  proof -
    have "\<not> (\<exists>(i, _) \<in> set (indexed (TxOut (MsgTx rec))). existsRawUnspent ns (canonicalOutPoint ?h i) \<noteq> None)"
      using uns by auto
    then show ?thesis using 2(1) td v db by (simp add: insertMemPoolTx_def putRawUnmined_def)
  qed
  moreover have "ns2 = ns\<lparr>sUnmined := sUnmined ns2, sUnminedInputs := sUnminedInputs ns2\<rparr>" by (simp add: ns2)
  ultimately show ?thesis using si by (auto simp: mempool_def)
qed

text \<open>Inserting an unknown unmined transaction adds exactly that transaction to the unmined
  set, indexes all its inputs, and changes nothing else of the store.\<close>

lemma insertMemPoolTx_inserts:
  assumes "db_ok E" "mempool E ns U" "insertable E ns rec"
  shows "\<exists>ns'. insertMemPoolTx E ns rec = Inr ns' \<and> mempool E ns' (U(Hash rec \<mapsto> MsgTx rec))
    \<and> ns' = ns\<lparr>sUnmined := sUnmined ns', sUnminedInputs := sUnminedInputs ns'\<rparr>"
  by (rule insertMemPoolTx_spec[OF assms])

text \<open>A transaction that is already known, mined or unmined, is refused as a duplicate, and one
  whose outputs are already recorded as unspent mined outputs is ignored.\<close>

lemma insertMemPoolTx_known:
  "(TxDetails E ns (Hash rec) = Inr (Some d) \<longrightarrow> insertMemPoolTx E ns rec = Inl ErrDuplicateTx)
   \<and> (TxDetails E ns (Hash rec) = Inr None \<and> k \<in> outputKeys (Hash rec) (MsgTx rec)
        \<and> existsRawUnspent ns k \<noteq> None \<longrightarrow> insertMemPoolTx E ns rec = Inr ns)"
proof -
  have "(\<exists>(i, _) \<in> set (indexed (TxOut (MsgTx rec))).
      existsRawUnspent ns (canonicalOutPoint (Hash rec) i) \<noteq> None)"
    if "k \<in> outputKeys (Hash rec) (MsgTx rec)" "existsRawUnspent ns k \<noteq> None"
    using that by (auto simp: outputKeys_def)
  then show ?thesis by (auto simp: insertMemPoolTx_def)
qed

end
