(* ===== verification/Tx_Balance.thy ===== *)
theory Tx_Balance
  imports Tx_Store Tx_Conflict
begin

text \<open>
  The mined balance.  \<open>wtxmgr\<close> keeps it under a root key and adjusts it at every operation
  instead of summing the unspent outputs.  The invariant \<open>ledger_ok\<close> says that this number is
  the sum of the amounts of the credits in the unspent index, and that every entry of the index leads to
  a recorded credit that is not marked spent; the theorems show that recording transactions and credits
  keeps it.
\<close>

section \<open>The invariant\<close>

definition creditAt :: "store \<Rightarrow> hash \<Rightarrow> u32 \<Rightarrow> block \<Rightarrow> bytes option" where
  "creditAt ns h i b = bucketGet (sCredits ns) (keyCredit h i b)"

definition unspentAt :: "store \<Rightarrow> hash \<Rightarrow> u32 \<Rightarrow> bytes option" where
  "unspentAt ns h i = bucketGet (sUnspent ns) (canonicalOutPoint h i)"

definition unspentEntry :: "store \<Rightarrow> bytes \<Rightarrow> bytes \<Rightarrow> bool" where
  "unspentEntry ns k v \<longleftrightarrow> (\<exists>h i b cv. k = canonicalOutPoint h i \<and> v = valueUnspent b
     \<and> creditAt ns h i b = Some cv \<and> 9 \<le> length cv \<and> \<not> flagSpent cv)"

definition ledger_wf :: "store \<Rightarrow> bool" where
  "ledger_wf ns \<longleftrightarrow> (\<forall>k v. bucketGet (sUnspent ns) k = Some v \<longrightarrow> unspentEntry ns k v)"

definition unspentAmount :: "store \<Rightarrow> entry \<Rightarrow> amount" where
  "unspentAmount ns e = (case bucketGet (sCredits ns) (unspentCredKey (fst e) (snd e)) of
     None \<Rightarrow> 0 | Some cv \<Rightarrow> uint64_of cv)"

definition unspentTotal :: "store \<Rightarrow> amount" where
  "unspentTotal ns = sum_list (map (unspentAmount ns) (entries (sUnspent ns)))"

definition ledger :: "store \<Rightarrow> amount \<Rightarrow> bool" where
  "ledger ns bal \<longleftrightarrow> ledger_wf ns \<and> unspentTotal ns = bal"

definition ledger_ok :: "store \<Rightarrow> bool" where
  "ledger_ok ns \<longleftrightarrow> (\<exists>bal. fetchMinedBalance ns = Inr bal \<and> ledger ns bal)"

lemma ledger_cong:
  "sCredits ns' = sCredits ns \<Longrightarrow> sUnspent ns' = sUnspent ns \<Longrightarrow> ledger ns' bal = ledger ns bal"
  by (simp add: ledger_def ledger_wf_def unspentEntry_def creditAt_def unspentTotal_def unspentAmount_def[abs_def])

lemma fetchMinedBalance_cong: "sRoot ns' = sRoot ns \<Longrightarrow> fetchMinedBalance ns' = fetchMinedBalance ns"
  by (simp add: fetchMinedBalance_def)

lemma fetch_putMinedBalance:
  "db_ok E \<Longrightarrow> \<exists>ns'. putMinedBalance E ns bal = Inr ns' \<and> fetchMinedBalance ns' = Inr bal
    \<and> ns' = ns\<lparr>sRoot := sRoot ns'\<rparr>"
  by (simp add: putMinedBalance_def fetchMinedBalance_def Let_def orNil_def glen_def)

lemma ledgerD:
  assumes "ledger ns bal" "bucketGet (sUnspent ns) k = Some v"
  obtains h i b cv where "k = canonicalOutPoint h i" "v = valueUnspent b"
    "creditAt ns h i b = Some cv" "9 \<le> length cv" "\<not> flagSpent cv"
  using assms unfolding ledger_def ledger_wf_def unspentEntry_def by blast

text \<open>Marking or adding a credit changes the amount of no other entry of the index.\<close>

lemma unspentAmount_sum:
  assumes "\<And>k v. bucketGet B k = Some v \<Longrightarrow>
      bucketGet (sCredits ns') (unspentCredKey k v) = bucketGet (sCredits ns) (unspentCredKey k v)"
  shows "sum_list (map (unspentAmount ns') (entries B)) = sum_list (map (unspentAmount ns) (entries B))"
  by (rule kv.sum_items_cong) (use assms in \<open>simp add: unspentAmount_def\<close>)

lemma unspent_credit_keys:
  assumes "ledger ns bal" "bucketGet (sUnspent ns) k = Some v" "unspentCredKey k v = keyCredit h i b"
  shows "k = canonicalOutPoint h i \<and> v = valueUnspent b"
proof -
  from ledgerD[OF assms(1,2)] obtain h' i' b' where kv: "k = canonicalOutPoint h' i'" "v = valueUnspent b'"
    by metis
  then have "keyCredit h' i' b' = keyCredit h i b" using assms(3) by simp
  then show ?thesis using kv by simp
qed

section \<open>Spending an output\<close>

lemma existsUnspent_ledger:
  assumes "ledger ns bal"
  shows "existsUnspent ns op = (case unspentAt ns (opHash op) (opIndex op) of
      None \<Rightarrow> (canonicalOutPoint (opHash op) (opIndex op), None)
    | Some v \<Rightarrow> (canonicalOutPoint (opHash op) (opIndex op),
        Some (unspentCredKey (canonicalOutPoint (opHash op) (opIndex op)) v)))"
proof (cases "unspentAt ns (opHash op) (opIndex op)")
  case (Some v)
  then have s: "bucketGet (sUnspent ns) (canonicalOutPoint (opHash op) (opIndex op)) = Some v"
    by (simp add: unspentAt_def)
  from ledgerD[OF assms this] obtain b where "v = valueUnspent b" by metis
  then show ?thesis using Some s by (simp add: existsUnspent_def existsRawUnspent_def Let_def glen_def orNil_def)
qed (simp add: existsUnspent_def existsRawUnspent_def unspentAt_def Let_def glen_def)

lemma spendInput_ledger:
  assumes db: "db_ok E" and l: "ledger ns bal"
  shows "\<exists>ns' bal'. spendInput E rec block ii (ns, bal) = Inr (ns', bal') \<and> ledger ns' bal'
    \<and> ns' = ns\<lparr>sCredits := sCredits ns', sUnspent := sUnspent ns', sDebits := sDebits ns'\<rparr>
    \<and> (\<forall>k. bucketGet (sCredits ns') k = None \<longleftrightarrow> bucketGet (sCredits ns) k = None)"
proof -
  obtain i inp where ii: "ii = (i, inp)" by fastforce
  let ?op = "PreviousOutPoint inp"
  show ?thesis
  proof (cases "unspentAt ns (opHash ?op) (opIndex ?op)")
    case None
    then have "spendInput E rec block ii (ns, bal) = Inr (ns, bal)"
      by (simp add: spendInput_def ii existsUnspent_ledger[OF l])
    then show ?thesis using l by simp
  next
    case (Some v)
    let ?k = "canonicalOutPoint (opHash ?op) (opIndex ?op)"
    have kv: "bucketGet (sUnspent ns) ?k = Some v" using Some by (simp add: unspentAt_def)
    from ledgerD[OF l this] obtain b cv where v: "v = valueUnspent b"
      and cv: "creditAt ns (opHash ?op) (opIndex ?op) b = Some cv" "9 \<le> length cv" "\<not> flagSpent cv"
      by (metis canonicalOutPoint_inj)
    let ?ck = "keyCredit (opHash ?op) (opIndex ?op) b"
    have ck: "bucketGet (sCredits ns) ?ck = Some cv" using cv(1) by (simp add: creditAt_def)
    let ?sp = "\<lparr>incTxHash = Hash rec, incBlock = metaBlock block, incIndex = i\<rparr>"
    let ?cv' = "valueSpentCredit cv ?sp"
    have amt: "uint64_of (slice ?cv' 0 8) = uint64_of cv"
      using valueSpentCredit_fields(1)[OF cv(2), of ?sp] by (simp add: uint64_of_def slice_def)
    let ?ns' = "ns\<lparr>sCredits := bucketPut (sCredits ns) ?ck ?cv',
      sDebits := bucketPut (sDebits ns) (keyDebit (Hash rec) i (metaBlock block)) (valueDebit (uint64_of cv) ?ck),
      sUnspent := bucketDelete (sUnspent ns) ?k\<rparr>"
    have step: "spendInput E rec block ii (ns, bal) = Inr (?ns', bal - uint64_of cv)"
      using db Some v ck amt
      by (simp add: spendInput_def ii existsUnspent_ledger[OF l] spendCredit_def putRawCredit_def
          putDebit_def deleteRawUnspent_def orNil_def Let_def)
    have other: "unspentCredKey k' v' \<noteq> ?ck" if "bucketGet (sUnspent ns) k' = Some v'" "k' \<noteq> ?k" for k' v'
      using unspent_credit_keys[OF l that(1)] that(2) by blast
    have wf: "ledger_wf ?ns'"
      unfolding ledger_wf_def
    proof (intro allI impI)
      fix k' v' assume a: "bucketGet (sUnspent ?ns') k' = Some v'"
      then have ne: "k' \<noteq> ?k" and g: "bucketGet (sUnspent ns) k' = Some v'"
        by (auto simp: bucketGet_upd split: if_splits)
      from ledgerD[OF l g] obtain h' i' b' cv' where p: "k' = canonicalOutPoint h' i'" "v' = valueUnspent b'"
        "creditAt ns h' i' b' = Some cv'" "9 \<le> length cv'" "\<not> flagSpent cv'" .
      then have "keyCredit h' i' b' \<noteq> ?ck" using ne by auto
      then have "creditAt ?ns' h' i' b' = Some cv'" using p(3) by (simp add: creditAt_def del: keyCredit_inj)
      then show "unspentEntry ?ns' k' v'" using p unfolding unspentEntry_def by blast
    qed
    have "unspentTotal ?ns' = sum_list (map (unspentAmount ?ns') (entries (bucketDelete (sUnspent ns) ?k)))"
      by (simp add: unspentTotal_def)
    also have "\<dots> = sum_list (map (unspentAmount ns) (entries (bucketDelete (sUnspent ns) ?k)))"
    proof (rule unspentAmount_sum)
      fix k' v' assume "bucketGet (bucketDelete (sUnspent ns) ?k) k' = Some v'"
      then have "unspentCredKey k' v' \<noteq> ?ck" using other by (auto simp: bucketGet_upd split: if_splits)
      then show "bucketGet (sCredits ?ns') (unspentCredKey k' v') = bucketGet (sCredits ns) (unspentCredKey k' v')"
        by simp
    qed
    finally have "unspentTotal ?ns' = sum_list (map (unspentAmount ns) (entries (bucketDelete (sUnspent ns) ?k)))" .
    moreover have "unspentTotal ns = unspentAmount ns (?k, v)
        + sum_list (map (unspentAmount ns) (entries (bucketDelete (sUnspent ns) ?k)))"
      unfolding unspentTotal_def by (rule kv.sum_items_del[OF kv])
    moreover have "unspentAmount ns (?k, v) = uint64_of cv" by (simp add: unspentAmount_def v ck)
    moreover have "unspentTotal ns = bal" using l by (simp add: ledger_def)
    ultimately have "ledger ?ns' (bal - uint64_of cv)" using wf by (auto simp: ledger_def)
    moreover have "\<forall>k. bucketGet (sCredits ?ns') k = None \<longleftrightarrow> bucketGet (sCredits ns) k = None"
      using ck by (auto simp: bucketGet_upd)
    moreover have "?ns' = ns\<lparr>sCredits := sCredits ?ns', sUnspent := sUnspent ?ns', sDebits := sDebits ?ns'\<rparr>"
      by simp
    ultimately show ?thesis using step by blast
  qed
qed

section \<open>Adding an unspent credit\<close>

definition addUnspent :: "store \<Rightarrow> credit \<Rightarrow> store" where
  "addUnspent ns c =
     (let h = opHash (credOutPoint c); i = opIndex (credOutPoint c); b = credBlock c in
      ns\<lparr>sCredits := bucketPut (sCredits ns) (keyCredit h i b) (valueUnspentCredit c),
         sUnspent := bucketPut (sUnspent ns) (canonicalOutPoint h i) (valueUnspent b)\<rparr>)"

definition no_credit :: "store \<Rightarrow> hash \<Rightarrow> u32 \<Rightarrow> bool" where
  "no_credit ns h i \<longleftrightarrow> (\<forall>b. creditAt ns h i b = None)"

lemma no_credit_unspent:
  assumes "ledger ns bal" "no_credit ns h i"
  shows "unspentAt ns h i = None"
proof (rule ccontr)
  assume "unspentAt ns h i \<noteq> None"
  then obtain v where "bucketGet (sUnspent ns) (canonicalOutPoint h i) = Some v" by (auto simp: unspentAt_def)
  from ledgerD[OF assms(1) this] obtain h' i' b cv where "canonicalOutPoint h i = canonicalOutPoint h' i'"
    "creditAt ns h' i' b = Some cv" .
  then show False using assms(2) by (simp add: no_credit_def)
qed

lemma addUnspent_ledger:
  assumes l: "ledger ns bal" and n: "no_credit ns (opHash (credOutPoint c)) (opIndex (credOutPoint c))"
  shows "ledger (addUnspent ns c) (bal + credAmount c)"
proof -
  let ?h = "opHash (credOutPoint c)" and ?i = "opIndex (credOutPoint c)" and ?b = "credBlock c"
  let ?ck = "keyCredit ?h ?i ?b" and ?k = "canonicalOutPoint ?h ?i" and ?ns' = "addUnspent ns c"
  have f: "sCredits ?ns' = bucketPut (sCredits ns) ?ck (valueUnspentCredit c)"
    "sUnspent ?ns' = bucketPut (sUnspent ns) ?k (valueUnspent ?b)" by (simp_all add: addUnspent_def Let_def)
  have un: "bucketGet (sUnspent ns) ?k = None" using no_credit_unspent[OF l n] by (simp add: unspentAt_def)
  have wf: "ledger_wf ?ns'"
    unfolding ledger_wf_def
  proof (intro allI impI)
    fix k v assume a: "bucketGet (sUnspent ?ns') k = Some v"
    show "unspentEntry ?ns' k v"
    proof (cases "k = ?k")
      case True
      then have "v = valueUnspent ?b" using a f by simp
      moreover have "creditAt ?ns' ?h ?i ?b = Some (valueUnspentCredit c)" by (simp add: creditAt_def f)
      ultimately show ?thesis using True unfolding unspentEntry_def by fastforce
    next
      case False
      then have "bucketGet (sUnspent ns) k = Some v" using a f by simp
      from ledgerD[OF l this] obtain h' i' b' cv' where p: "k = canonicalOutPoint h' i'" "v = valueUnspent b'"
        "creditAt ns h' i' b' = Some cv'" "9 \<le> length cv'" "\<not> flagSpent cv'" .
      then have "creditAt ?ns' h' i' b' = Some cv'" using False by (auto simp: creditAt_def f bucketGet_upd)
      then show ?thesis using p unfolding unspentEntry_def by blast
    qed
  qed
  have "unspentTotal ?ns' = unspentAmount ?ns' (?k, valueUnspent ?b) + sum_list (map (unspentAmount ?ns') (entries (sUnspent ns)))"
    unfolding unspentTotal_def f(2) by (rule kv.sum_items_put[OF un])
  also have "sum_list (map (unspentAmount ?ns') (entries (sUnspent ns))) = sum_list (map (unspentAmount ns) (entries (sUnspent ns)))"
  proof (rule unspentAmount_sum)
    fix k v assume g: "bucketGet (sUnspent ns) k = Some v"
    have "unspentCredKey k v \<noteq> ?ck" using unspent_credit_keys[OF l g] g un by (metis option.distinct(1))
    then show "bucketGet (sCredits ?ns') (unspentCredKey k v) = bucketGet (sCredits ns) (unspentCredKey k v)"
      by (simp add: f)
  qed
  also have "unspentAmount ?ns' (?k, valueUnspent ?b) = credAmount c" by (simp add: unspentAmount_def f)
  finally show ?thesis using wf l by (simp add: ledger_def unspentTotal_def add.commute)
qed

lemma addUnspent_no_credit:
  "no_credit ns h i \<Longrightarrow> canonicalOutPoint h i \<noteq> canonicalOutPoint (opHash (credOutPoint c)) (opIndex (credOutPoint c)) \<Longrightarrow>
    no_credit (addUnspent ns c) h i"
  by (auto simp: no_credit_def creditAt_def addUnspent_def Let_def bucketGet_upd)

lemma addUnspent_frame:
  "addUnspent ns c = ns\<lparr>sCredits := sCredits (addUnspent ns c), sUnspent := sUnspent (addUnspent ns c)\<rparr>"
  by (simp add: addUnspent_def Let_def)

text \<open>An unmined credit as \<open>addCredit\<close> stores it.\<close>

definition unminedCredits_wf :: "store \<Rightarrow> bool" where
  "unminedCredits_wf ns \<longleftrightarrow> (\<forall>k v. bucketGet (sUnminedCredits ns) k = Some v \<longrightarrow>
     (\<exists>h i a ch. k = canonicalOutPoint h i \<and> v = valueUnminedCredit a ch))"

definition newCredit :: "hash \<Rightarrow> u32 \<Rightarrow> block \<Rightarrow> amount \<Rightarrow> bool \<Rightarrow> credit" where
  "newCredit h i b a ch = \<lparr>credOutPoint = \<lparr>opHash = h, opIndex = i\<rparr>, credBlock = b, credAmount = a,
     credChange = ch, credSpentBy = \<lparr>incTxHash = 0, incBlock = \<lparr>bHash = 0, bHeight = 0\<rparr>, incIndex = - 1\<rparr>\<rparr>"

lemma moveUnminedCredit_eq:
  assumes "db_ok E"
  shows "moveUnminedCredit E rec block (canonicalOutPoint h i, valueUnminedCredit a ch, el) (ns, bal)
      = Inr (addUnspent ns (newCredit (Hash rec) i (metaBlock block) a ch), bal + a)"
proof -
  have "fetchRawUnminedCreditIndex (canonicalOutPoint h i) = Inr i"
    by (simp add: fetchRawUnminedCreditIndex_def canonicalOutPoint_def slice_def)
  moreover have "fetchRawUnminedCreditAmountChange (valueUnminedCredit a ch) = Inr (a, ch)"
    by (simp add: fetchRawUnminedCreditAmountChange_def)
  ultimately show ?thesis using assms
    by (simp add: moveUnminedCredit_def putUnspentCredit_def putRawCredit_def putUnspent_def
        addUnspent_def newCredit_def Let_def)
qed

lemma moveUnminedCredits_ledger:
  assumes db: "db_ok E"
  shows "ledger ns bal \<Longrightarrow> distinct (map fst cs) \<Longrightarrow>
    \<forall>(k, v, el) \<in> set cs. \<exists>i a ch. k = canonicalOutPoint (Hash rec) i \<and> v = valueUnminedCredit a ch
      \<and> no_credit ns (Hash rec) i \<Longrightarrow>
    \<exists>ns' bal'. foldE (moveUnminedCredit E rec block) cs (ns, bal) = Inr (ns', bal') \<and> ledger ns' bal'
      \<and> ns' = ns\<lparr>sCredits := sCredits ns', sUnspent := sUnspent ns'\<rparr>"
proof (induction cs arbitrary: ns bal)
  case (Cons x cs)
  obtain i a ch el where x: "x = (canonicalOutPoint (Hash rec) i, valueUnminedCredit a ch, el)"
    and nc: "no_credit ns (Hash rec) i" using Cons.prems(3) by (cases x) auto
  obtain c where cd: "c = newCredit (Hash rec) i (metaBlock block) a ch" by blast
  then have c: "moveUnminedCredit E rec block x (ns, bal) = Inr (addUnspent ns c, bal + credAmount c)"
    "credOutPoint c = \<lparr>opHash = Hash rec, opIndex = i\<rparr>"
    using moveUnminedCredit_eq[OF db] unfolding x by (simp_all add: newCredit_def)
  let ?ns1 = "addUnspent ns c"
  have l1: "ledger ?ns1 (bal + credAmount c)" using addUnspent_ledger[OF Cons.prems(1)] nc c(2) by simp
  have "\<forall>(k, v, el) \<in> set cs. \<exists>i a ch. k = canonicalOutPoint (Hash rec) i \<and> v = valueUnminedCredit a ch
      \<and> no_credit ?ns1 (Hash rec) i"
  proof
    fix y assume y: "y \<in> set cs"
    then obtain j a' ch' el' where y': "y = (canonicalOutPoint (Hash rec) j, valueUnminedCredit a' ch', el')"
      and nj: "no_credit ns (Hash rec) j" using Cons.prems(3) by (cases y) auto
    have "j \<noteq> i" using Cons.prems(2) y x y' by force
    then have "no_credit ?ns1 (Hash rec) j" using addUnspent_no_credit[OF nj, of c] c(2) by simp
    then show "case y of (k, v, el) \<Rightarrow> \<exists>i a ch. k = canonicalOutPoint (Hash rec) i
        \<and> v = valueUnminedCredit a ch \<and> no_credit ?ns1 (Hash rec) i" using y' by auto
  qed
  from Cons.IH[OF l1 _ this] Cons.prems(2) obtain ns' bal' where
    r: "foldE (moveUnminedCredit E rec block) cs (?ns1, bal + credAmount c) = Inr (ns', bal')" "ledger ns' bal'"
      "ns' = ?ns1\<lparr>sCredits := sCredits ns', sUnspent := sUnspent ns'\<rparr>" by auto
  have "ns' = ns\<lparr>sCredits := sCredits ns', sUnspent := sUnspent ns'\<rparr>"
    by (subst r(3), subst addUnspent_frame) simp
  then show ?case using c(1) r(1,2) by auto
qed simp

lemma spendInputs_ledger:
  assumes db: "db_ok E"
  shows "ledger ns bal \<Longrightarrow> \<exists>ns' bal'. foldE (spendInput E rec block) is (ns, bal) = Inr (ns', bal') \<and> ledger ns' bal'
    \<and> ns' = ns\<lparr>sCredits := sCredits ns', sUnspent := sUnspent ns', sDebits := sDebits ns'\<rparr>
    \<and> (\<forall>k. bucketGet (sCredits ns') k = None \<longleftrightarrow> bucketGet (sCredits ns) k = None)"
proof (induction "is" arbitrary: ns bal)
  case (Cons x xs)
  obtain ns1 b1 where 1: "spendInput E rec block x (ns, bal) = Inr (ns1, b1)" "ledger ns1 b1"
    "ns1 = ns\<lparr>sCredits := sCredits ns1, sUnspent := sUnspent ns1, sDebits := sDebits ns1\<rparr>"
    "\<forall>k. bucketGet (sCredits ns1) k = None \<longleftrightarrow> bucketGet (sCredits ns) k = None"
    using spendInput_ledger[OF db Cons.prems, of rec block x] by (elim exE conjE)
  obtain ns2 b2 where 2: "foldE (spendInput E rec block) xs (ns1, b1) = Inr (ns2, b2)" "ledger ns2 b2"
    "ns2 = ns1\<lparr>sCredits := sCredits ns2, sUnspent := sUnspent ns2, sDebits := sDebits ns2\<rparr>"
    "\<forall>k. bucketGet (sCredits ns2) k = None \<longleftrightarrow> bucketGet (sCredits ns1) k = None"
    using Cons.IH[OF 1(2)] by (elim exE conjE)
  have "ns2 = ns\<lparr>sCredits := sCredits ns2, sUnspent := sUnspent ns2, sDebits := sDebits ns2\<rparr>"
    by (subst 2(3), subst 1(3)) simp
  moreover have "\<forall>k. bucketGet (sCredits ns2) k = None \<longleftrightarrow> bucketGet (sCredits ns) k = None"
    using 1(4) 2(4) by simp
  ultimately show ?case using 1(1) 2(1,2) by simp
qed simp

section \<open>Recording a mined transaction\<close>

lemma unminedCredits_scan:
  assumes "unminedCredits_wf ns" and r_def: "r = scanAll readUnminedCreditEntry (prefix_entries (sUnminedCredits ns) (hashBytes h))"
  shows "snd r = None" "distinct (map fst (fst r))"
    "(k, v, el) \<in> set (fst r) \<Longrightarrow> \<exists>i a ch. k = canonicalOutPoint h i \<and> v = valueUnminedCredit a ch"
proof -
  let ?es = "prefix_entries (sUnminedCredits ns) (hashBytes h)"
  have e: "\<exists>h' i a ch. k = canonicalOutPoint h' i \<and> v = valueUnminedCredit a ch \<and> hasPrefix k (hashBytes h)"
    if "(k, v) \<in> set ?es" for k v
    using that assms(1) by (auto simp: prefix_entries_def unminedCredits_wf_def kv.mem_items_iff)
  have rd: "\<exists>x. readUnminedCreditEntry k v = Inr x" if "(k, v) \<in> set ?es" for k v
    using e[OF that] by (auto simp: readUnminedCreditEntry_def valueUnminedCredit_def)
  have ok: "snd r = None" "map (\<lambda>(k, v, x). (k, v)) (fst r) = ?es"
    using scanAll_ok[of ?es readUnminedCreditEntry] rd unfolding r_def by blast+
  then show "snd r = None" by blast
  have "map fst (fst r) = map fst (map (\<lambda>(k, v, x). (k, v)) (fst r))" by (auto simp: comp_def case_prod_unfold)
  also have "\<dots> = map fst ?es" by (simp only: ok(2))
  finally show "distinct (map fst (fst r))"
    using distinct_map_filter[OF keys_sorted_distinct[OF keys_sorted_entries]] by (simp add: prefix_entries_def)
  show "\<exists>i a ch. k = canonicalOutPoint h i \<and> v = valueUnminedCredit a ch" if "(k, v, el) \<in> set (fst r)"
    using scanAll_mem[of k v el readUnminedCreditEntry ?es] that e[of k v] unfolding r_def by auto
qed

lemma updateMinedBalance_ledger:
  assumes db: "db_ok E" and l: "ledger_ok ns" and uc: "unminedCredits_wf ns"
    and nc: "\<forall>i. no_credit ns (Hash rec) i"
  shows "\<exists>ns'. updateMinedBalance E ns rec block = Inr ns' \<and> ledger_ok ns'
    \<and> ns' = ns\<lparr>sRoot := sRoot ns', sCredits := sCredits ns', sUnspent := sUnspent ns', sDebits := sDebits ns'\<rparr>"
proof -
  obtain bal where b: "fetchMinedBalance ns = Inr bal" "ledger ns bal" using l by (auto simp: ledger_ok_def)
  let ?is = "indexed (TxIn (MsgTx rec))"
  obtain ns1 b1 where 1: "foldE (spendInput E rec block) ?is (ns, bal) = Inr (ns1, b1)" "ledger ns1 b1"
    "ns1 = ns\<lparr>sCredits := sCredits ns1, sUnspent := sUnspent ns1, sDebits := sDebits ns1\<rparr>"
    "\<forall>k. bucketGet (sCredits ns1) k = None \<longleftrightarrow> bucketGet (sCredits ns) k = None"
    using spendInputs_ledger[OF db b(2), of rec block ?is] by (elim exE conjE)
  have nc1: "no_credit ns1 (Hash rec) i" for i
    using nc 1(4) by (simp add: no_credit_def creditAt_def)
  have e1: "sUnminedCredits ns1 = sUnminedCredits ns" "sRoot ns1 = sRoot ns" by (subst 1(3), simp)+
  then have uc1: "unminedCredits_wf ns1" using uc by (simp add: unminedCredits_wf_def)
  let ?run = "iterRun unminedCreditIterator_readElem (makeUnminedCreditIterator ns1 (Hash rec))"
  have scan: "fst ?run = fst (scanAll readUnminedCreditEntry (prefix_entries (sUnminedCredits ns1) (hashBytes (Hash rec))))"
    "itErr (snd ?run) = None"
    using unminedCreditIterator_run[of ns1 "Hash rec"] unminedCredits_scan(1)[OF uc1 refl, of "Hash rec"]
    by (metis fst_conv, metis snd_conv)
  have m: "\<forall>(k, v, el) \<in> set (fst ?run). \<exists>i a ch. k = canonicalOutPoint (Hash rec) i
      \<and> v = valueUnminedCredit a ch \<and> no_credit ns1 (Hash rec) i"
    using unminedCredits_scan(3)[OF uc1 refl] nc1 unfolding scan(1) by blast
  have d: "distinct (map fst (fst ?run))" unfolding scan(1) by (rule unminedCredits_scan(2)[OF uc1 refl])
  obtain ns2 b2 where 2: "foldE (moveUnminedCredit E rec block) (fst ?run) (ns1, b1) = Inr (ns2, b2)" "ledger ns2 b2"
    "ns2 = ns1\<lparr>sCredits := sCredits ns2, sUnspent := sUnspent ns2\<rparr>"
    using moveUnminedCredits_ledger[OF db 1(2) d m, of block] by (elim exE conjE)
  have e2: "sRoot ns2 = sRoot ns" by (subst 2(3)) (simp add: e1)
  have f2: "ns2 = ns\<lparr>sCredits := sCredits ns2, sUnspent := sUnspent ns2, sDebits := sDebits ns2\<rparr>"
  proof -
    have d: "sDebits ns2 = sDebits ns1" by (subst 2(3)) simp
    show ?thesis by (subst 2(3), subst 1(3)) (simp add: d)
  qed
  have upd: "updateMinedBalance E ns rec block = (if b2 \<noteq> bal then putMinedBalance E ns2 b2 else Inr ns2)"
    using b(1) 1(1) 2(1) scan(2) by (simp add: updateMinedBalance_def case_prod_unfold)
  show ?thesis
  proof (cases "b2 = bal")
    case True
    have "ledger_ok ns2" using b(1) 2(2) True fetchMinedBalance_cong[OF e2] by (simp add: ledger_ok_def)
    moreover have "ns2 = ns\<lparr>sRoot := sRoot ns2, sCredits := sCredits ns2, sUnspent := sUnspent ns2, sDebits := sDebits ns2\<rparr>"
      by (subst f2) (simp add: e2)
    ultimately show ?thesis using upd True by auto
  next
    case False
    obtain ns3 where 3: "putMinedBalance E ns2 b2 = Inr ns3" "fetchMinedBalance ns3 = Inr b2"
      "ns3 = ns2\<lparr>sRoot := sRoot ns3\<rparr>" using fetch_putMinedBalance[OF db, of ns2 b2] by (elim exE conjE)
    have s: "sCredits ns3 = sCredits ns2" "sUnspent ns3 = sUnspent ns2" "sDebits ns3 = sDebits ns2"
      by (subst 3(3), simp)+
    have "ledger ns3 b2" using 2(2) ledger_cong[OF s(1,2)] by simp
    then have "ledger_ok ns3" using 3(2) by (auto simp: ledger_ok_def)
    moreover have "ns3 = ns\<lparr>sRoot := sRoot ns3, sCredits := sCredits ns3, sUnspent := sUnspent ns3, sDebits := sDebits ns3\<rparr>"
      by (subst 3(3), subst f2) (simp add: s)
    ultimately show ?thesis using upd False 3(1) by auto
  qed
qed

section \<open>The invariant of the store\<close>

definition store_inv :: "env \<Rightarrow> store \<Rightarrow> txMap \<Rightarrow> bool" where
  "store_inv E ns U \<longleftrightarrow> mempool E ns U \<and> ledger_ok ns \<and> unminedCredits_wf ns"

lemma mempool_cong:
  "sUnmined ns' = sUnmined ns \<Longrightarrow> sUnminedInputs ns' = sUnminedInputs ns \<Longrightarrow> mempool E ns' U = mempool E ns U"
  using unmined_holds_frame[of ns' ns E U]
  by (simp add: mempool_def spends_indexed_def fetchUnminedInputSpendTxHashes_def)

lemma ledger_ok_cong:
  "sRoot ns' = sRoot ns \<Longrightarrow> sCredits ns' = sCredits ns \<Longrightarrow> sUnspent ns' = sUnspent ns \<Longrightarrow> ledger_ok ns' = ledger_ok ns"
  unfolding ledger_ok_def by (simp only: ledger_cong[of ns' ns] fetchMinedBalance_cong[of ns' ns])

lemma unminedCredits_wf_cong:
  "sUnminedCredits ns' = sUnminedCredits ns \<Longrightarrow> unminedCredits_wf ns' = unminedCredits_wf ns"
  by (simp add: unminedCredits_wf_def)

lemma removed_mined:
  assumes "removed K ns ns'"
  shows "sRoot ns' = sRoot ns" "sCredits ns' = sCredits ns" "sUnspent ns' = sUnspent ns"
    "sTxRecords ns' = sTxRecords ns" "sLockedOutputs ns' = sLockedOutputs ns" "sBlocks ns' = sBlocks ns"
    "sDebits ns' = sDebits ns"
proof -
  obtain a b c where "ns' = ns\<lparr>sUnmined := a, sUnminedCredits := b, sUnminedInputs := c\<rparr>"
    using assms unfolding removed_def by blast
  then show "sRoot ns' = sRoot ns" "sCredits ns' = sCredits ns" "sUnspent ns' = sUnspent ns"
    "sTxRecords ns' = sTxRecords ns" "sLockedOutputs ns' = sLockedOutputs ns" "sBlocks ns' = sBlocks ns"
    "sDebits ns' = sDebits ns" by simp_all
qed

lemma removed_ledger_ok: "removed K ns ns' \<Longrightarrow> ledger_ok ns' = ledger_ok ns"
  by (rule ledger_ok_cong) (simp_all add: removed_mined)

lemma removed_unminedCredits_wf: "removed K ns ns' \<Longrightarrow> unminedCredits_wf ns \<Longrightarrow> unminedCredits_wf ns'"
  unfolding removed_def unminedCredits_wf_def by (metis option.distinct(1))

lemma deleteUnminedCredits_eq:
  assumes "db_ok E"
  shows "foldE (\<lambda>(i, _) ns. deleteRawUnminedCredit E ns (canonicalOutPoint h i)) os ns
    = Inr (ns\<lparr>sUnminedCredits := fold (\<lambda>(i, _) b. bucketDelete b (canonicalOutPoint h i)) os (sUnminedCredits ns)\<rparr>)"
  using assms by (induction os arbitrary: ns) (auto simp: deleteRawUnminedCredit_def)

lemma bucketGet_deletes:
  "bucketGet (fold (\<lambda>(i, _) b. bucketDelete b (canonicalOutPoint h i)) os b) k
    = (if k \<in> (\<lambda>(i, _). canonicalOutPoint h i) ` set os then None else bucketGet b k)"
  by (induction os arbitrary: b) (auto simp: bucketGet_upd)

lemma deleteUnminedTx_spec:
  assumes db: "db_ok E" and m: "mempool E ns U" and u: "U (Hash rec) = Some (MsgTx rec)"
  shows "\<exists>ns'. deleteUnminedTx E ns rec = Inr ns' \<and> mempool E ns' (U(Hash rec := None))
    \<and> removed (outputKeys (Hash rec) (MsgTx rec)) ns ns'"
proof -
  let ?F = "\<lambda>input ns. deleteRawUnminedInput E ns
        (canonicalOutPoint (opHash (PreviousOutPoint input)) (opIndex (PreviousOutPoint input))) (Hash rec)"
  let ?C = "fold (\<lambda>(i, _) b. bucketDelete b (canonicalOutPoint (Hash rec) i)) (indexed (TxOut (MsgTx rec)))"
  obtain ns2 where 2: "bindE (foldE ?F (TxIn (MsgTx rec)) ns) (\<lambda>ns. deleteRawUnmined E ns (hashBytes (Hash rec))) = Inr ns2"
    "mempool E ns2 (U(Hash rec := None))" "removed {} ns ns2" using remove_record[OF db m u] by blast
  then obtain ns1 where 1: "foldE ?F (TxIn (MsgTx rec)) ns = Inr ns1"
    "deleteRawUnmined E ns1 (hashBytes (Hash rec)) = Inr ns2" by auto
  let ?ns3 = "ns2\<lparr>sUnminedCredits := ?C (sUnminedCredits ns1)\<rparr>"
  have ns2: "ns2 = ns1\<lparr>sUnmined := sUnmined ns2\<rparr>" using 1(2) by (auto simp: deleteRawUnmined_def)
  have "deleteUnminedTx E ns rec = Inr ?ns3"
    using 1 db unfolding deleteUnminedTx_def by (auto simp: deleteUnminedCredits_eq deleteRawUnmined_def)
  moreover have "mempool E ?ns3 (U(Hash rec := None))" using 2(2) mempool_cong[of ?ns3 ns2] by simp
  moreover have "removed (outputKeys (Hash rec) (MsgTx rec)) ns ?ns3"
  proof -
    have c: "sUnminedCredits ns2 = sUnminedCredits ns1" by (subst ns2) simp
    have f: "ns2 = ns\<lparr>sUnmined := sUnmined ns2, sUnminedCredits := sUnminedCredits ns2, sUnminedInputs := sUnminedInputs ns2\<rparr>"
      "\<forall>k. bucketGet (sUnminedCredits ns2) k = bucketGet (sUnminedCredits ns) k"
      using 2(3) unfolding removed_def by simp_all
    have "?ns3 = ns\<lparr>sUnmined := sUnmined ?ns3, sUnminedCredits := sUnminedCredits ?ns3, sUnminedInputs := sUnminedInputs ?ns3\<rparr>"
      by (subst f(1)) simp
    then show ?thesis using f(2) c unfolding removed_def by (simp add: bucketGet_deletes outputKeys_def)
  qed
  ultimately show ?thesis by blast
qed

section \<open>Insertion of a mined transaction\<close>

text \<open>What the caller of \<open>insertMinedTx\<close> guarantees: the transaction is not recorded in this
  block and has no mined credits yet, the block's record, if there is one, is not truncated, and an
  unmined transaction with its hash is the same transaction.\<close>

definition minable :: "env \<Rightarrow> store \<Rightarrow> txMap \<Rightarrow> txRecord \<Rightarrow> blockMeta \<Rightarrow> bool" where
  "minable E ns U rec block \<longleftrightarrow>
     bucketGet (sTxRecords ns) (keyTxRecord (Hash rec) (metaBlock block)) = None
     \<and> (\<forall>v. bucketGet (sBlocks ns) (keyBlockRecord (bHeight (metaBlock block))) = Some v \<longrightarrow> 44 \<le> length v)
     \<and> rec_ok E rec \<and> (\<forall>i. no_credit ns (Hash rec) i)
     \<and> (U (Hash rec) = None \<or> U (Hash rec) = Some (MsgTx rec))"

text \<open>The unmined transactions that stay: all but the mined one and its conflicts.\<close>

definition survivors :: "txMap \<Rightarrow> txRecord \<Rightarrow> txMap" where
  "survivors U rec = (let V = U(Hash rec := None) in V |` (- doomed V (rivals V rec)))"

lemma recordInBlock_total:
  assumes "db_ok E" "\<forall>v. bucketGet (sBlocks ns) (keyBlockRecord (bHeight (metaBlock block))) = Some v \<longrightarrow> 44 \<le> length v"
  shows "\<exists>b. recordInBlock E ns rec block = Inr (ns\<lparr>sBlocks := b\<rparr>)"
proof (cases "bucketGet (sBlocks ns) (keyBlockRecord (bHeight (metaBlock block)))")
  case None
  then show ?thesis using assms(1)
    by (auto simp: recordInBlock_def existsBlockRecord_def putBlockRecord_def putRawBlockRecord_def Let_def)
next
  case (Some v)
  then have "44 \<le> length v" using assms(2) by blast
  then show ?thesis using assms(1) Some
    by (auto simp: recordInBlock_def existsBlockRecord_def appendRawBlockRecord_def putRawBlockRecord_def Let_def)
qed

lemma unlockOutputs_eq:
  assumes "db_ok E"
  shows "foldE (\<lambda>input ns. unlockOutput E ns (PreviousOutPoint input)) ins ns
    = Inr (ns\<lparr>sLockedOutputs := map_option (fold (\<lambda>input b. bucketDelete b (inputKey input)) ins) (sLockedOutputs ns)\<rparr>)"
  using assms
proof (induction ins arbitrary: ns)
  case (Cons i ins)
  show ?case
  proof (cases "sLockedOutputs ns")
    case None
    then show ?thesis using Cons by (simp add: unlockOutput_def)
  next
    case (Some b)
    then show ?thesis using Cons by (simp add: unlockOutput_def inputKey_def Let_def)
  qed
qed (simp add: option.map_id)

lemma bucketGet_unlocks:
  "bucketGet (fold (\<lambda>input b. bucketDelete b (inputKey input)) ins b) k
    = (if k \<in> inputKey ` set ins then None else bucketGet b k)"
  by (induction ins arbitrary: b) (auto simp: bucketGet_upd)

lemma acyclic_remove: "acyclic (spend_rel U) \<Longrightarrow> acyclic (spend_rel (U(h := None)))"
proof -
  have "U(h := None) = U |` (- {h})" by (auto simp: restrict_map_def fun_eq_iff)
  then show "acyclic (spend_rel U) \<Longrightarrow> acyclic (spend_rel (U(h := None)))"
    using acyclic_restrict[of U "{h}"] by simp
qed

lemma insertMinedTx_spec:
  assumes db: "db_ok E" and inv: "store_inv E ns U" and ac: "acyclic (spend_rel U)"
    and mn: "minable E ns U rec block"
  shows "\<exists>ns'. insertMinedTx E ns rec block = Inr ns' \<and> store_inv E ns' (survivors U rec)
    \<and> bucketGet (sTxRecords ns') (keyTxRecord (Hash rec) (metaBlock block)) \<noteq> None
    \<and> (\<forall>input \<in> set (TxIn (MsgTx rec)). \<forall>b. sLockedOutputs ns' = Some b \<longrightarrow> bucketGet b (inputKey input) = None)"
proof -
  have inv': "mempool E ns U" "ledger_ok ns" "unminedCredits_wf ns" using inv by (simp_all add: store_inv_def)
  have m: "rec_ok E rec" "\<forall>i. no_credit ns (Hash rec) i" "U (Hash rec) = None \<or> U (Hash rec) = Some (MsgTx rec)"
    "snd (existsTxRecord ns (Hash rec) (metaBlock block)) = None"
    using mn by (simp_all add: minable_def existsTxRecord_def Let_def)
  obtain b1 where 1: "recordInBlock E ns rec block = Inr (ns\<lparr>sBlocks := b1\<rparr>)"
    using recordInBlock_total[OF db, of ns block rec] mn unfolding minable_def by blast
  obtain v where v: "valueTxRecord E rec = Inr v" using valueTxRecord_total[OF m(1)] by blast
  let ?ns2 = "ns\<lparr>sBlocks := b1, sTxRecords := bucketPut (sTxRecords ns) (keyTxRecord (Hash rec) (metaBlock block)) v\<rparr>"
  have 2: "putTxRecord E (ns\<lparr>sBlocks := b1\<rparr>) rec (metaBlock block) = Inr ?ns2"
    using v db by (simp add: putTxRecord_def Let_def)
  have i2: "mempool E ?ns2 U" "ledger_ok ?ns2" "unminedCredits_wf ?ns2" "\<forall>i. no_credit ?ns2 (Hash rec) i"
    using inv' m(2) mempool_cong[of ?ns2 ns] ledger_ok_cong[of ?ns2 ns] unminedCredits_wf_cong[of ?ns2 ns]
    by (simp_all add: no_credit_def creditAt_def)
  obtain ns3 where 3: "updateMinedBalance E ?ns2 rec block = Inr ns3" "ledger_ok ns3"
    "ns3 = ?ns2\<lparr>sRoot := sRoot ns3, sCredits := sCredits ns3, sUnspent := sUnspent ns3, sDebits := sDebits ns3\<rparr>"
    using updateMinedBalance_ledger[OF db i2(2-4), of block] by (elim exE conjE)
  obtain r3 c3 u3 d3 where f3: "ns3 = ?ns2\<lparr>sRoot := r3, sCredits := c3, sUnspent := u3, sDebits := d3\<rparr>"
    using 3(3) by blast
  have i3: "mempool E ns3 U" "unminedCredits_wf ns3"
    using i2 mempool_cong[of ns3 ?ns2] unminedCredits_wf_cong[of ns3 ?ns2] by (simp_all add: f3)
  let ?V = "U(Hash rec := None)"
  have ex4: "\<exists>ns4 K. (if existsRawUnmined ns3 (hashBytes (Hash rec)) \<noteq> None then deleteUnminedTx E ns3 rec else Inr ns3) = Inr ns4
      \<and> mempool E ns4 ?V \<and> removed K ns3 ns4"
  proof (cases "U (Hash rec)")
    case None
    then have "?V = U" by auto
    moreover have "existsRawUnmined ns3 (hashBytes (Hash rec)) = None"
      using mempool_get_None[OF i3(1) None] by (simp add: existsRawUnmined_def)
    ultimately show ?thesis using i3(1) by (intro exI[of _ ns3] exI[of _ "{}"]) simp
  next
    case (Some tx)
    then have u: "U (Hash rec) = Some (MsgTx rec)" using m(3) by auto
    from mempool_get[OF i3(1) u] have "existsRawUnmined ns3 (hashBytes (Hash rec)) \<noteq> None"
      by (auto simp: existsRawUnmined_def)
    then show ?thesis using deleteUnminedTx_spec[OF db i3(1) u] by auto
  qed
  then obtain ns4 K where 4: "(if existsRawUnmined ns3 (hashBytes (Hash rec)) \<noteq> None then deleteUnminedTx E ns3 rec else Inr ns3) = Inr ns4"
    "mempool E ns4 ?V" "removed K ns3 ns4" by blast
  let ?D = "doomed ?V (rivals ?V rec)"
  have e: "doomed ?V {} = {}" by (simp add: doomed_def)
  obtain ns5 where 5: "removeDoubleSpends E ns4 rec = Inr ns5" "mempool E ns5 (?V |` (- ?D))"
    "removed (creditKeys ?V ?D) ns4 ns5"
    using removeDoubleSpends_inputs[OF db acyclic_remove[OF ac, of "Hash rec"], of ns4 "{}" "Hash rec" "TxIn (MsgTx rec)"] 4(2)
    by (auto simp: e removeDoubleSpends_def rivals_def inputKeys_def)
  let ?ns6 = "ns5\<lparr>sLockedOutputs := map_option (fold (\<lambda>input b. bucketDelete b (inputKey input)) (TxIn (MsgTx rec))) (sLockedOutputs ns5)\<rparr>"
  have step: "insertMinedTx E ns rec block = Inr ?ns6"
    using 1 2 3(1) 4(1) 5(1) m(4) db by (simp add: insertMinedTx_def unlockOutputs_eq)
  have "ledger_ok ns5" using 3(2) removed_ledger_ok[OF 4(3)] removed_ledger_ok[OF 5(3)] by simp
  then have "ledger_ok ?ns6" using ledger_ok_cong[of ?ns6 ns5] by simp
  moreover have "unminedCredits_wf ?ns6"
    using removed_unminedCredits_wf[OF 5(3) removed_unminedCredits_wf[OF 4(3) i3(2)]] unminedCredits_wf_cong[of ?ns6 ns5] by simp
  moreover have "mempool E ?ns6 (survivors U rec)"
    using 5(2) mempool_cong[of ?ns6 ns5] by (simp add: survivors_def Let_def)
  moreover have "sTxRecords ns5 = sTxRecords ?ns2"
    using removed_mined(4)[OF 4(3)] removed_mined(4)[OF 5(3)] by (simp add: f3)
  moreover have "\<forall>input \<in> set (TxIn (MsgTx rec)). \<forall>b. sLockedOutputs ?ns6 = Some b \<longrightarrow> bucketGet b (inputKey input) = None"
    by (auto simp: bucketGet_unlocks)
  ultimately show ?thesis using step by (auto simp: store_inv_def)
qed

text \<open>Recording the same transaction in the same block a second time reports that it exists and
  leaves the store unchanged.\<close>

lemma InsertTx_twice:
  assumes "db_ok E" "store_inv E ns U" "acyclic (spend_rel U)" "minable E ns U rec block"
    and "InsertTxCheckIfExists E ns rec (Some block) = Inr (ex, ns')"
  shows "\<not> ex \<and> InsertTxCheckIfExists E ns' rec (Some block) = Inr (True, ns')"
proof -
  obtain ns1 where 1: "insertMinedTx E ns rec block = Inr ns1"
    "bucketGet (sTxRecords ns1) (keyTxRecord (Hash rec) (metaBlock block)) \<noteq> None"
    using insertMinedTx_spec[OF assms(1-4)] by blast
  then have "ex = False" "ns' = ns1" using assms(5) by (simp_all add: InsertTxCheckIfExists_def)
  moreover have "insertMinedTx E ns1 rec block = Inl ErrDuplicateTx"
    using 1(2) by (simp add: insertMinedTx_def existsTxRecord_def Let_def)
  ultimately show ?thesis by (simp add: InsertTxCheckIfExists_def)
qed

text \<open>Once a transaction is mined, none of the outputs it spends is leased any more.\<close>

lemma insertMinedTx_releases_leases:
  assumes "db_ok E" "store_inv E ns U" "acyclic (spend_rel U)" "minable E ns U rec block"
    and "InsertTx E ns rec (Some block) = Inr ns'" "input \<in> set (TxIn (MsgTx rec))"
  shows "isLockedOutput ns' (PreviousOutPoint input) now = Inr (0, zeroTime, False)"
proof -
  obtain ns1 where 1: "insertMinedTx E ns rec block = Inr ns1"
    "\<forall>input \<in> set (TxIn (MsgTx rec)). \<forall>b. sLockedOutputs ns1 = Some b \<longrightarrow> bucketGet b (inputKey input) = None"
    using insertMinedTx_spec[OF assms(1-4)] by blast
  then have "ns' = ns1" using assms(5) by (simp add: InsertTx_def InsertTxCheckIfExists_def)
  then show ?thesis using 1(2) assms(6)
    by (auto simp: isLockedOutput_def inputKey_def split: option.splits)
qed

section \<open>Recording a credit\<close>

lemma AddCredit_spec:
  assumes db: "db_ok E" and inv: "store_inv E ns U" and i: "unat index < length (TxOut (MsgTx rec))"
    and nc: "no_credit ns (Hash rec) index"
  shows "\<exists>ns'. AddCredit E notify ns rec (Some block) index change
        = Inr (if notify then Some \<lparr>opHash = Hash rec, opIndex = index\<rparr> else None, ns')
    \<and> store_inv E ns' U \<and> unspentAt ns' (Hash rec) index = Some (valueUnspent (metaBlock block))
    \<and> AddCredit E notify ns' rec (Some block) index change = Inr (None, ns')"
proof -
  let ?a = "Value (TxOut (MsgTx rec) ! unat index)"
  let ?c = "newCredit (Hash rec) index (metaBlock block) ?a change"
  obtain bal where b: "fetchMinedBalance ns = Inr bal" "ledger ns bal" using inv by (auto simp: store_inv_def ledger_ok_def)
  let ?ns' = "(addUnspent ns ?c)\<lparr>sRoot := bucketPut (sRoot ns) rootMinedBalance (putUint64 (bal + ?a))\<rparr>"
  have nk: "bucketGet (sCredits ns) (keyCredit (Hash rec) index (metaBlock block)) = None"
    using nc by (simp add: no_credit_def creditAt_def)
  have bc: "fetchMinedBalance (ns\<lparr>sCredits := x\<rparr>) = Inr bal" for x using b(1) by (simp add: fetchMinedBalance_def)
  have step: "addCredit E ns rec (Some block) index change = Inr (True, ?ns')"
    using i db nk bc
    by (simp add: addCredit_def existsCredit_def putRawCredit_def putMinedBalance_def putUnspent_def
        addUnspent_def newCredit_def Let_def)
  have cp: "credOutPoint ?c = \<lparr>opHash = Hash rec, opIndex = index\<rparr>" "credBlock ?c = metaBlock block" "credAmount ?c = ?a"
    by (simp_all add: newCredit_def)
  have "ledger (addUnspent ns ?c) (bal + ?a)" using addUnspent_ledger[OF b(2), of ?c] nc cp by simp
  then have "ledger ?ns' (bal + ?a)" using ledger_cong[of ?ns' "addUnspent ns ?c"] by simp
  moreover have "fetchMinedBalance ?ns' = Inr (bal + ?a)" by (simp add: fetchMinedBalance_def Let_def orNil_def glen_def)
  moreover have "mempool E ?ns' U" "unminedCredits_wf ?ns'"
    using inv mempool_cong[of ?ns' ns] unminedCredits_wf_cong[of ?ns' ns]
    by (simp_all add: store_inv_def addUnspent_def Let_def)
  ultimately have "store_inv E ?ns' U" by (simp add: store_inv_def ledger_ok_def)
  moreover have "unspentAt ?ns' (Hash rec) index = Some (valueUnspent (metaBlock block))"
    by (simp add: unspentAt_def addUnspent_def cp Let_def)
  moreover have "addCredit E ?ns' rec (Some block) index change = Inr (False, ?ns')"
    using i by (simp add: addCredit_def existsCredit_def addUnspent_def cp Let_def)
  ultimately show ?thesis using i step by (intro exI[of _ ?ns']) (simp add: AddCredit_def)
qed

end
