(* ===== verification/Tx_Listing.thy ===== *)
theory Tx_Listing
  imports Tx_Balance
begin

text \<open>
  What \<open>UnspentOutputs\<close> and \<open>OutputsToWatch\<close> (\<open>fetchCredits\<close> of
  \<open>wtxmgr/tx.go\<close>) list: which outpoints, and that no spent or leased output is ever among them.
\<close>

definition spentByUnmined :: "store \<Rightarrow> outPoint \<Rightarrow> bool" where
  "spentByUnmined ns op \<longleftrightarrow> existsRawUnminedInput ns (canonicalOutPoint (opHash op) (opIndex op)) \<noteq> None"

definition leasedNow :: "env \<Rightarrow> store \<Rightarrow> outPoint \<Rightarrow> bool" where
  "leasedNow E ns op \<longleftrightarrow> (\<exists>lid t. isLockedOutput ns op (clockNow E) = Inr (lid, t, True))"

text \<open>An output the store knows as unspent: in the unspent index, or a credit of an unmined transaction.\<close>

definition knownOutput :: "store \<Rightarrow> outPoint \<Rightarrow> bool" where
  "knownOutput ns op \<longleftrightarrow> unspentAt ns (opHash op) (opIndex op) \<noteq> None
     \<or> (bucketGet (sUnminedCredits ns) (canonicalOutPoint (opHash op) (opIndex op)) \<noteq> None
        \<and> existsRawUnmined ns (hashBytes (opHash op)) \<noteq> None)"

lemma mapE_concat_mem:
  assumes "mapE f xs = Inr yss"
  shows "y \<in> set (concat yss) \<longleftrightarrow> (\<exists>x \<in> set xs. \<exists>ys. f x = Inr ys \<and> y \<in> set ys)"
  using assms
proof (induction xs arbitrary: yss)
  case (Cons x xs)
  then show ?case by auto
qed simp

lemma readCanonicalOutPoint_key [simp]:
  "readCanonicalOutPoint (canonicalOutPoint h i) = Inr \<lparr>opHash = h, opIndex = i\<rparr>"
  using outpoint_codec.dec_enc[of "\<lparr>opHash = h, opIndex = i\<rparr>"] by (simp add: encOutPoint_def)

lemma skipCredit_cases:
  assumes "skipCredit E ns includeLocked includeSpent op (canonicalOutPoint (opHash op) (opIndex op)) = Inr skip"
  shows "skip \<longleftrightarrow> \<not> includeLocked \<and> leasedNow E ns op \<or> \<not> includeSpent \<and> spentByUnmined ns op"
  using assms by (auto simp: skipCredit_def leasedNow_def spentByUnmined_def split: if_splits)

lemma fetchMinedCredit_mem:
  assumes "fetchMinedCredit E ns il is full (canonicalOutPoint h i, v) = Inr cs"
  defines "op \<equiv> \<lparr>opHash = h, opIndex = i\<rparr>"
  shows "ciOutPoint ` set cs = (if \<not> il \<and> leasedNow E ns op \<or> \<not> is \<and> spentByUnmined ns op then {} else {op})"
proof -
  obtain skip where sk: "skipCredit E ns il is op (canonicalOutPoint (opHash op) (opIndex op)) = Inr skip"
    using assms by (auto simp: fetchMinedCredit_def)
  show ?thesis
  proof (cases skip)
    case True
    then show ?thesis using assms sk skipCredit_cases[OF sk] by (auto simp: fetchMinedCredit_def op_def)
  next
    case False
    then show ?thesis using assms sk skipCredit_cases[OF sk]
      by (auto simp: fetchMinedCredit_def op_def Let_def split: if_splits)
  qed
qed

lemma fetchUnminedCredit_mem:
  assumes "fetchUnminedCredit E ns il is full (canonicalOutPoint h i, v) = Inr cs"
  defines "op \<equiv> \<lparr>opHash = h, opIndex = i\<rparr>"
  shows "ciOutPoint ` set cs = (if \<not> il \<and> leasedNow E ns op \<or> \<not> is \<and> spentByUnmined ns op
      \<or> existsRawUnmined ns (hashBytes h) = None then {} else {op})"
proof -
  obtain skip where sk: "skipCredit E ns il is op (canonicalOutPoint (opHash op) (opIndex op)) = Inr skip"
    using assms by (auto simp: fetchUnminedCredit_def)
  show ?thesis
  proof (cases skip)
    case True
    then show ?thesis using assms sk skipCredit_cases[OF sk] by (auto simp: fetchUnminedCredit_def op_def)
  next
    case False
    then show ?thesis using assms sk skipCredit_cases[OF sk]
      by (auto simp: fetchUnminedCredit_def op_def Let_def split: if_splits option.splits)
  qed
qed

lemma fetchCredits_mem:
  assumes wf: "ledger_wf ns" "unminedCredits_wf ns" and r: "fetchCredits E ns il is full = Inr cs"
  shows "op \<in> ciOutPoint ` set cs \<longleftrightarrow> knownOutput ns op \<and> (il \<or> \<not> leasedNow E ns op) \<and> (is \<or> \<not> spentByUnmined ns op)"
proof -
  obtain ms us where m: "mapE (fetchMinedCredit E ns il is full) (entries (sUnspent ns)) = Inr ms"
    and u: "mapE (fetchUnminedCredit E ns il is full) (entries (sUnminedCredits ns)) = Inr us"
    and cs: "cs = concat ms @ concat us" using r by (auto simp: fetchCredits_def)
  have tot: "\<exists>ys. f x = Inr ys" if "mapE f xs = Inr yss" "x \<in> set xs"
    for f :: "entry \<Rightarrow> creditInfo list res" and xs yss x
    using that by (induction xs arbitrary: yss) auto
  obtain h i where op: "op = \<lparr>opHash = h, opIndex = i\<rparr>" by (cases op) auto
  let ?ok = "(il \<or> \<not> leasedNow E ns op) \<and> (is \<or> \<not> spentByUnmined ns op)"
  have M: "op \<in> ciOutPoint ` set (concat ms) \<longleftrightarrow> unspentAt ns h i \<noteq> None \<and> ?ok"
  proof
    assume "op \<in> ciOutPoint ` set (concat ms)"
    then obtain c where "c \<in> set (concat ms)" "ciOutPoint c = op" by blast
    then obtain k v ys where e: "(k, v) \<in> set (entries (sUnspent ns))" "fetchMinedCredit E ns il is full (k, v) = Inr ys" "c \<in> set ys"
      using mapE_concat_mem[OF m] by auto
    from e(1) obtain h' i' where k: "k = canonicalOutPoint h' i'"
      using wf(1) unfolding kv.mem_items_iff ledger_wf_def unspentEntry_def by blast
    have "op \<in> ciOutPoint ` set ys" using e(3) \<open>ciOutPoint c = op\<close> by blast
    then have "op = \<lparr>opHash = h', opIndex = i'\<rparr>" "?ok"
      using fetchMinedCredit_mem[OF e(2)[unfolded k]] by (auto split: if_splits)
    then show "unspentAt ns h i \<noteq> None \<and> ?ok" using e(1) op by (simp add: unspentAt_def k kv.mem_items_iff)
  next
    assume a: "unspentAt ns h i \<noteq> None \<and> ?ok"
    then obtain v where e: "(canonicalOutPoint h i, v) \<in> set (entries (sUnspent ns))"
      by (auto simp: unspentAt_def kv.mem_items_iff)
    obtain ys where ys: "fetchMinedCredit E ns il is full (canonicalOutPoint h i, v) = Inr ys" using tot[OF m e] by blast
    then have "op \<in> ciOutPoint ` set ys" using fetchMinedCredit_mem[OF ys] a op by auto
    then obtain c where "c \<in> set ys" "op = ciOutPoint c" by blast
    moreover have "c \<in> set (concat ms)" using mapE_concat_mem[OF m, of c] e ys calculation(1) by blast
    ultimately show "op \<in> ciOutPoint ` set (concat ms)" by blast
  qed
  have U: "op \<in> ciOutPoint ` set (concat us) \<longleftrightarrow> bucketGet (sUnminedCredits ns) (canonicalOutPoint h i) \<noteq> None
      \<and> existsRawUnmined ns (hashBytes h) \<noteq> None \<and> ?ok"
  proof
    assume "op \<in> ciOutPoint ` set (concat us)"
    then obtain c where "c \<in> set (concat us)" "ciOutPoint c = op" by blast
    then obtain k v ys where e: "(k, v) \<in> set (entries (sUnminedCredits ns))" "fetchUnminedCredit E ns il is full (k, v) = Inr ys" "c \<in> set ys"
      using mapE_concat_mem[OF u] by auto
    from e(1) obtain h' i' where k: "k = canonicalOutPoint h' i'"
      using wf(2) unfolding kv.mem_items_iff unminedCredits_wf_def by blast
    have "op \<in> ciOutPoint ` set ys" using e(3) \<open>ciOutPoint c = op\<close> by blast
    then have "op = \<lparr>opHash = h', opIndex = i'\<rparr>" "?ok" "existsRawUnmined ns (hashBytes h') \<noteq> None"
      using fetchUnminedCredit_mem[OF e(2)[unfolded k]] by (auto split: if_splits)
    then show "bucketGet (sUnminedCredits ns) (canonicalOutPoint h i) \<noteq> None \<and> existsRawUnmined ns (hashBytes h) \<noteq> None \<and> ?ok"
      using e(1) op by (simp add: k kv.mem_items_iff)
  next
    assume a: "bucketGet (sUnminedCredits ns) (canonicalOutPoint h i) \<noteq> None \<and> existsRawUnmined ns (hashBytes h) \<noteq> None \<and> ?ok"
    then obtain v where e: "(canonicalOutPoint h i, v) \<in> set (entries (sUnminedCredits ns))"
      by (auto simp: kv.mem_items_iff)
    obtain ys where ys: "fetchUnminedCredit E ns il is full (canonicalOutPoint h i, v) = Inr ys" using tot[OF u e] by blast
    then have "op \<in> ciOutPoint ` set ys" using fetchUnminedCredit_mem[OF ys] a op by auto
    then obtain c where "c \<in> set ys" "op = ciOutPoint c" by blast
    moreover have "c \<in> set (concat us)" using mapE_concat_mem[OF u, of c] e ys calculation(1) by blast
    ultimately show "op \<in> ciOutPoint ` set (concat us)" by blast
  qed
  have "op \<in> ciOutPoint ` set cs \<longleftrightarrow> op \<in> ciOutPoint ` set (concat ms) \<or> op \<in> ciOutPoint ` set (concat us)"
    unfolding cs set_append image_Un by blast
  moreover have "knownOutput ns op \<longleftrightarrow> unspentAt ns h i \<noteq> None \<or> (bucketGet (sUnminedCredits ns) (canonicalOutPoint h i) \<noteq> None
      \<and> existsRawUnmined ns (hashBytes h) \<noteq> None)" by (simp add: knownOutput_def op del: not_None_eq)
  ultimately show ?thesis unfolding M U by blast
qed

text \<open>
  Every output the store knows can be listed: the transaction it belongs to is recorded with that
  output, and the block of a mined one has a header.
\<close>

definition listable :: "env \<Rightarrow> store \<Rightarrow> bool" where
  "listable E ns \<longleftrightarrow> leases_wf ns
     \<and> (\<forall>h i b. unspentAt ns h i = Some (valueUnspent b) \<longrightarrow>
          (\<exists>rec t. fetchTxRecord E ns h b = Inr rec \<and> unat i < length (TxOut (MsgTx rec))
             \<and> fetchBlockTime ns (bHeight b) = Inr t))
     \<and> (\<forall>h i v. bucketGet (sUnminedCredits ns) (canonicalOutPoint h i) \<noteq> None
          \<longrightarrow> existsRawUnmined ns (hashBytes h) = Some v
          \<longrightarrow> (\<exists>rec. readRawTxRecord E h v = Inr rec \<and> unat i < length (TxOut (MsgTx rec))))"

lemma skipCredit_total:
  assumes "leases_wf ns"
  shows "\<exists>skip. skipCredit E ns il is op k = Inr skip"
  using isLockedOutput_lease[OF assms, of op "clockNow E"] by (auto simp: skipCredit_def split: option.splits)

lemma fetchMinedCredit_total:
  assumes "listable E ns" "ledger_wf ns" "e \<in> set (entries (sUnspent ns))"
  shows "\<exists>cs. fetchMinedCredit E ns il is full e = Inr cs"
proof -
  have lw: "leases_wf ns" using assms(1) by (simp add: listable_def)
  obtain k v where e: "e = (k, v)" by fastforce
  then have g: "bucketGet (sUnspent ns) k = Some v" using assms(3) by (simp add: kv.mem_items_iff)
  then obtain h i b where k: "k = canonicalOutPoint h i" and v: "v = valueUnspent b"
    using assms(2) unfolding ledger_wf_def unspentEntry_def by blast
  have "unspentAt ns h i = Some (valueUnspent b)" using g by (simp add: unspentAt_def k v)
  then obtain rec t where r: "fetchTxRecord E ns h b = Inr rec" "unat i < length (TxOut (MsgTx rec))"
    "fetchBlockTime ns (bHeight b) = Inr t" using assms(1) unfolding listable_def by blast
  obtain skip where "skipCredit E ns il is \<lparr>opHash = h, opIndex = i\<rparr> k = Inr skip"
    using skipCredit_total[OF lw] by blast
  then show ?thesis using r by (cases skip; cases full) (simp_all add: fetchMinedCredit_def e k v wrapErr_def txOutAt_def unspent_codec.dec_enc)
qed

lemma fetchUnminedCredit_total:
  assumes "listable E ns" "unminedCredits_wf ns" "e \<in> set (entries (sUnminedCredits ns))"
  shows "\<exists>cs. fetchUnminedCredit E ns il is full e = Inr cs"
proof -
  have lw: "leases_wf ns" using assms(1) by (simp add: listable_def)
  obtain k v where e: "e = (k, v)" by fastforce
  then have g: "bucketGet (sUnminedCredits ns) k = Some v" using assms(3) by (simp add: kv.mem_items_iff)
  then obtain h i where k: "k = canonicalOutPoint h i" using assms(2) unfolding unminedCredits_wf_def by blast
  obtain skip where sk: "skipCredit E ns il is \<lparr>opHash = h, opIndex = i\<rparr> k = Inr skip"
    using skipCredit_total[OF lw] by blast
  show ?thesis
  proof (cases "existsRawUnmined ns (hashBytes h)")
    case None
    then show ?thesis using sk by (simp add: fetchUnminedCredit_def e k)
  next
    case (Some w)
    then obtain rec where "readRawTxRecord E h w = Inr rec" "unat i < length (TxOut (MsgTx rec))"
      using assms(1) g unfolding listable_def k by blast
    then show ?thesis using sk Some by (cases skip; cases full) (simp_all add: fetchUnminedCredit_def e k wrapErr_def txOutAt_def)
  qed
qed

lemma mapE_total: "(\<And>x. x \<in> set xs \<Longrightarrow> \<exists>y. f x = Inr y) \<Longrightarrow> \<exists>ys. mapE f xs = Inr ys"
  by (induction xs) auto

lemma fetchCredits_total:
  assumes "listable E ns" "ledger_wf ns" "unminedCredits_wf ns"
  shows "\<exists>cs. fetchCredits E ns il is full = Inr cs"
proof -
  obtain ms where "mapE (fetchMinedCredit E ns il is full) (entries (sUnspent ns)) = Inr ms"
    using mapE_total[of "entries (sUnspent ns)"] fetchMinedCredit_total[OF assms(1,2)] by metis
  moreover obtain us where "mapE (fetchUnminedCredit E ns il is full) (entries (sUnminedCredits ns)) = Inr us"
    using mapE_total[of "entries (sUnminedCredits ns)"] fetchUnminedCredit_total[OF assms(1,3)] by metis
  ultimately show ?thesis by (simp add: fetchCredits_def)
qed

text \<open>C29: \<open>UnspentOutputs\<close> and \<open>OutputsToWatch\<close> succeed on a store whose outputs have
  their transactions recorded; the first lists exactly the known outputs that are neither leased at the
  moment of the call nor spent by an unmined transaction, the second all known outputs.\<close>

theorem UnspentOutputs_exact:
  assumes "store_inv E ns U" "listable E ns"
  shows "\<exists>spendable watched. UnspentOutputs E ns = Inr spendable \<and> OutputsToWatch E ns = Inr watched
    \<and> ciOutPoint ` set spendable = {op. knownOutput ns op \<and> \<not> leasedNow E ns op \<and> \<not> spentByUnmined ns op}
    \<and> ciOutPoint ` set watched = {op. knownOutput ns op}"
proof -
  have wf: "ledger_wf ns" "unminedCredits_wf ns"
    using assms(1) by (auto simp: store_inv_def ledger_ok_def ledger_def)
  obtain spendable watched where s: "UnspentOutputs E ns = Inr spendable" and w: "OutputsToWatch E ns = Inr watched"
    using fetchCredits_total[OF assms(2) wf] unfolding UnspentOutputs_def OutputsToWatch_def by meson
  show ?thesis
    using s w fetchCredits_mem[OF wf s[unfolded UnspentOutputs_def]]
      fetchCredits_mem[OF wf w[unfolded OutputsToWatch_def]] by blast
qed

end
