(* ===== verification/Tx_Spend.thy ===== *)
theory Tx_Spend
  imports Tx_Balance
begin

text \<open>
  Spending and giving back: what \<open>updateMinedBalance\<close> does to one input of a mined
  transaction, and what \<open>rollback\<close> undoes of it (\<open>wtxmgr/tx.go\<close>); and the
  records of \<open>wtxmgr/db.go\<close> read back after they are written.
\<close>

section \<open>Buckets after a detour\<close>

lemma put_put_back: "bucketGet b k = Some v \<Longrightarrow> bucketPut (bucketPut b k w) k v = b"
  by (rule kv.ext) (auto simp: bucketGet_upd)

lemma put_delete_back: "bucketGet b k = None \<Longrightarrow> bucketDelete (bucketPut b k w) k = b"
  by (rule kv.ext) (auto simp: bucketGet_upd)

lemma delete_put_back: "bucketGet b k = Some v \<Longrightarrow> bucketPut (bucketDelete b k) k v = b"
  by (rule kv.ext) (auto simp: bucketGet_upd)

section \<open>A credit spent and restored\<close>

lemma unspendRawCredit_spendCredit:
  assumes "db_ok E" "bucketGet (sCredits ns) ck = Some cv" "length cv = 9" "\<not> flagSpent cv"
  shows "spendCredit E ns ck sp = Inr (uint64_of cv, ns\<lparr>sCredits := bucketPut (sCredits ns) ck (valueSpentCredit cv sp)\<rparr>)"
    and "sCredits ns' = bucketPut (sCredits ns) ck (valueSpentCredit cv sp) \<Longrightarrow>
      unspendRawCredit E ns' ck = Inr (uint64_of cv, ns'\<lparr>sCredits := sCredits ns\<rparr>)"
proof -
  have amt: "uint64_of (slice (valueSpentCredit cv sp) 0 8) = uint64_of cv"
    using valueSpentCredit_fields(1)[of cv sp] assms(3) by (simp add: uint64_of_def slice_def)
  show "spendCredit E ns ck sp = Inr (uint64_of cv, ns\<lparr>sCredits := bucketPut (sCredits ns) ck (valueSpentCredit cv sp)\<rparr>)"
    using assms amt by (simp add: spendCredit_def putRawCredit_def orNil_def)
  show "sCredits ns' = bucketPut (sCredits ns) ck (valueSpentCredit cv sp) \<Longrightarrow>
      unspendRawCredit E ns' ck = Inr (uint64_of cv, ns'\<lparr>sCredits := sCredits ns\<rparr>)"
    using assms amt
    by (simp add: unspendRawCredit_def Let_def valueRestored_valueSpent put_put_back)
qed

text \<open>An unspent output with a credit of the form \<open>addCredit\<close> writes.\<close>

definition spendable :: "store \<Rightarrow> outPoint \<Rightarrow> block \<Rightarrow> bytes \<Rightarrow> bool" where
  "spendable ns op b cv \<longleftrightarrow> unspentAt ns (opHash op) (opIndex op) = Some (valueUnspent b)
     \<and> creditAt ns (opHash op) (opIndex op) b = Some cv \<and> length cv = 9 \<and> \<not> flagSpent cv"

lemma spendInput_eq:
  assumes "db_ok E" "spendable ns (PreviousOutPoint inp) b cv"
  defines "op \<equiv> PreviousOutPoint inp"
  defines "ck \<equiv> keyCredit (opHash op) (opIndex op) b"
  shows "spendInput E rec block (i, inp) (ns, bal) = Inr (ns\<lparr>
      sCredits := bucketPut (sCredits ns) ck
        (valueSpentCredit cv \<lparr>incTxHash = Hash rec, incBlock = metaBlock block, incIndex = i\<rparr>),
      sDebits := bucketPut (sDebits ns) (keyDebit (Hash rec) i (metaBlock block)) (valueDebit (uint64_of cv) ck),
      sUnspent := bucketDelete (sUnspent ns) (canonicalOutPoint (opHash op) (opIndex op))\<rparr>, bal - uint64_of cv)"
proof -
  have ck: "bucketGet (sCredits ns) ck = Some cv" and u: "bucketGet (sUnspent ns) (canonicalOutPoint (opHash op) (opIndex op)) = Some (valueUnspent b)"
    and l: "length cv = 9" "\<not> flagSpent cv"
    using assms(2) by (auto simp: spendable_def creditAt_def unspentAt_def op_def ck_def)
  have ex: "existsUnspent ns op = (canonicalOutPoint (opHash op) (opIndex op), Some ck)"
    using u by (simp add: existsUnspent_def existsRawUnspent_def Let_def glen_def orNil_def ck_def)
  show ?thesis
    using unspendRawCredit_spendCredit(1)[OF assms(1) ck l] ex[unfolded op_def] assms(1)
    by (simp add: spendInput_def putDebit_def deleteRawUnspent_def Let_def op_def)
qed

text \<open>Rolling back the input that spent an output restores the credit, the debits and the mined
  balance exactly and puts the output back into the unspent index, unless its amount is zero: then the
  output stays out of the index although its credit is unspent again.\<close>

lemma rollbackInput_restores:
  assumes "db_ok E" "spendable ns (PreviousOutPoint inp) b cv"
    and "bucketGet (sDebits ns) (keyDebit (Hash rec) i (metaBlock block)) = None"
  shows "\<exists>ns1 bal1 ns2. spendInput E rec block (i, inp) (ns, bal) = Inr (ns1, bal1)
    \<and> rollbackInput E (Hash rec) (metaBlock block) (i, inp) (ns1, bal1) = Inr (ns2, bal)
    \<and> sCredits ns2 = sCredits ns \<and> sDebits ns2 = sDebits ns \<and> bal1 = bal - uint64_of cv
    \<and> sUnspent ns2 = (if uint64_of cv = 0
        then bucketDelete (sUnspent ns) (canonicalOutPoint (opHash (PreviousOutPoint inp)) (opIndex (PreviousOutPoint inp)))
        else sUnspent ns)"
proof -
  let ?op = "PreviousOutPoint inp"
  let ?k = "canonicalOutPoint (opHash ?op) (opIndex ?op)" and ?ck = "keyCredit (opHash ?op) (opIndex ?op) b"
  let ?dk = "keyDebit (Hash rec) i (metaBlock block)"
  let ?sp = "\<lparr>incTxHash = Hash rec, incBlock = metaBlock block, incIndex = i\<rparr>"
  let ?ns1 = "ns\<lparr>sCredits := bucketPut (sCredits ns) ?ck (valueSpentCredit cv ?sp),
      sDebits := bucketPut (sDebits ns) ?dk (valueDebit (uint64_of cv) ?ck), sUnspent := bucketDelete (sUnspent ns) ?k\<rparr>"
  have ck: "bucketGet (sCredits ns) ?ck = Some cv" and u: "bucketGet (sUnspent ns) ?k = Some (valueUnspent b)"
    and l: "length cv = 9" "\<not> flagSpent cv"
    using assms(2) by (auto simp: spendable_def creditAt_def unspentAt_def)
  let ?ns0 = "?ns1\<lparr>sUnminedInputs := bucketPut (sUnminedInputs ns) ?k (orNil (bucketGet (sUnminedInputs ns) ?k) @ hashBytes (Hash rec))\<rparr>"
  have pi: "putRawUnminedInput E ?ns1 ?k (hashBytes (Hash rec)) = Inr ?ns0"
    using assms(1) by (simp add: putRawUnminedInput_def Let_def)
  have deb: "existsDebit ?ns0 (Hash rec) i (metaBlock block) = Inr (Some (?dk, ?ck))"
    by (simp add: existsDebit_def Let_def valueDebit_def slice_def copyN_def)
  have un: "unspendRawCredit E ?ns0 ?ck = Inr (uint64_of cv, ?ns0\<lparr>sCredits := sCredits ns\<rparr>)"
    by (rule unspendRawCredit_spendCredit(2)[OF assms(1) ck l]) simp
  show ?thesis
    using spendInput_eq[OF assms(1,2), of rec block i bal] pi deb un assms(1,3) u
    by (simp add: rollbackInput_def deleteRawDebit_def putRawUnspent_def put_delete_back delete_put_back Let_def)
qed

section \<open>Records read back\<close>

text \<open>A transaction record that is stored is the one fetched, with its receive time cut to
  seconds, and \<open>latestTxRecord\<close> and the records of other transactions and blocks are not
  disturbed.\<close>

lemma putTxRecord_fetchTxRecord:
  assumes "putTxRecord E ns rec b = Inr ns'" "rec_ok E rec"
  shows "fetchTxRecord E ns' (Hash rec) b = Inr \<lparr>MsgTx = MsgTx rec, Hash = Hash rec,
      Received = wordTime (timeWord (Received rec)), SerializedTx = None\<rparr>
    \<and> (\<forall>h b'. (h, b') \<noteq> (Hash rec, b) \<longrightarrow> fetchTxRecord E ns' h b' = fetchTxRecord E ns h b')"
  using assms readRawTxRecord_value[OF _ assms(2)]
  by (auto simp: putTxRecord_def fetchTxRecord_def Let_def orNil_def bucketGet_upd)

text \<open>Appending a transaction to the record of its block keeps the block and its time and adds
  the hash at the end of the list of its transactions.\<close>

lemma appendRawBlockRecord_appends:
  assumes "readRawBlockRecord k v = Inr b" "block_value_ok v" "Suc (length (recTransactions b)) < 2 ^ 32"
  shows "\<exists>w. appendRawBlockRecord v h = Inr w \<and> block_value_ok w
    \<and> readRawBlockRecord k w = Inr (b\<lparr>recTransactions := recTransactions b @ [h]\<rparr>)"
proof -
  have n: "length (recTransactions b) = unat (uint32_of (slice v 40 44))" "44 \<le> length v"
    using assms(1) by (auto simp: readRawBlockRecord_def Let_def split: if_splits)
  then obtain w where w: "appendRawBlockRecord v h = Inr w" by (auto simp: appendRawBlockRecord_def Let_def)
  show ?thesis using w readRawBlockRecord_append[OF assms(1,2) w] assms(3) n by auto
qed

text \<open>The outpoint keys and the keys of transaction records, credits and debits read back to
  what they were made from, so no two records share a key, and the entries with the prefix of a record
  are exactly its credits (its debits).\<close>

lemma keys_read_back:
  "readCanonicalOutPoint (canonicalOutPoint h i) = Inr \<lparr>opHash = h, opIndex = i\<rparr>
   \<and> readRawTxRecordBlock (keyTxRecord h b) = Inr b
   \<and> extractRawCreditIndex (keyCredit h i b) = Inr i
   \<and> extractRawCreditTxRecordKey (keyCredit h i b) = Inr (keyTxRecord h b)
   \<and> (hasPrefix (keyCredit h i b) (keyTxRecord h' b') \<longleftrightarrow> h = h' \<and> b = b')
   \<and> (keyDebit h i b = keyDebit h' i' b' \<longleftrightarrow> h = h' \<and> i = i' \<and> b = b')"
proof -
  have "extractRawCreditIndex (keyCredit h i b) = Inr i"
    and "extractRawCreditTxRecordKey (keyCredit h i b) = Inr (keyTxRecord h b)"
    by (simp_all add: extractRawCreditIndex_def extractRawCreditTxRecordKey_def keyCredit_eq slice_def)
  moreover have "readCanonicalOutPoint (canonicalOutPoint h i) = Inr \<lparr>opHash = h, opIndex = i\<rparr>"
    using outpoint_codec.dec_enc[of "\<lparr>opHash = h, opIndex = i\<rparr>"] by (simp add: encOutPoint_def)
  ultimately show ?thesis by (auto simp: keyDebit_eq)
qed

end
