(* ===== verification/Migration.thy ===== *)
theory Migration
  imports Tx_Types "HOL-Library.Multiset"
begin

text \<open>
  \<open>walletdb/migration/manager.go\<close>: choosing and applying the migrations of a service.  The
  service's methods \<open>CurrentVersion\<close> and \<open>SetVersion\<close> are parameters of
  \<open>upgrade\<close>; the locale \<open>migration_manager\<close> states the one law they owe each other and
  derives what an upgrade achieves.  \<open>sort.Slice\<close> is the library sort by version number.
\<close>

record 'ns version =
  Number :: u32
  MigrationFn :: "('ns \<Rightarrow> 'ns res) option"

definition GetLatestVersion :: "'ns version list \<Rightarrow> u32" where
  "GetLatestVersion versions =
     (if length versions = 0 then 0 else Number (last (sort_key Number versions)))"

definition VersionsToApply :: "u32 \<Rightarrow> 'ns version list \<Rightarrow> 'ns version list" where
  "VersionsToApply currentVersion versions =
     sort_key Number (filter (\<lambda>version. Number version > currentVersion) versions)"

definition applyVersion :: "'ns version \<Rightarrow> 'ns \<Rightarrow> 'ns res" where
  "applyVersion version ns = (case MigrationFn version of None \<Rightarrow> Inr ns | Some m \<Rightarrow> m ns)"

definition upgrade ::
    "('ns \<Rightarrow> u32 res) \<Rightarrow> ('ns \<Rightarrow> u32 \<Rightarrow> 'ns res) \<Rightarrow> 'ns version list \<Rightarrow> 'ns \<Rightarrow> 'ns res" where
  "upgrade cur setv versions ns =
     bindE (cur ns) (\<lambda>currentVersion.
     let latestVersion = GetLatestVersion versions in
     if currentVersion > latestVersion then Inl ErrReversion
     else if currentVersion < latestVersion
     then bindE (foldE applyVersion (VersionsToApply currentVersion versions) ns) (\<lambda>ns.
          setv ns latestVersion)
     else Inr ns)"

definition Upgrade :: "('ns \<Rightarrow> 'ns res) list \<Rightarrow> 'ns \<Rightarrow> 'ns res" where
  "Upgrade mgrs ns = foldE (\<lambda>up ns. up ns) mgrs ns"

lemma sorted_le_last: "sorted (map f xs) \<Longrightarrow> x \<in> set xs \<Longrightarrow> f x \<le> f (last xs)"
  by (induction xs rule: rev_induct) (auto simp: sorted_append)

text \<open>
  The latest version is the greatest version number, and the versions to apply are exactly the
  newer ones, in increasing order of their numbers.
\<close>

lemma VersionsToApply_spec:
  "mset (VersionsToApply cur vs) = filter_mset (\<lambda>v. cur < Number v) (mset vs)
    \<and> sorted (map Number (VersionsToApply cur vs))
    \<and> GetLatestVersion vs = (if vs = [] then 0 else Max (Number ` set vs))"
proof (intro conjI)
  show "GetLatestVersion vs = (if vs = [] then 0 else Max (Number ` set vs))"
  proof (cases "vs = []")
    case False
    let ?s = "sort_key Number vs"
    have ne: "?s \<noteq> []" using False by (metis set_empty set_sort)
    have "Number x \<le> Number (last ?s)" if "x \<in> set ?s" for x
      using sorted_le_last[OF _ that, of Number] by simp
    then have "Number (last ?s) = Max (Number ` set ?s)"
      using last_in_set[OF ne] by (intro Max_eqI [symmetric]) auto
    then show ?thesis using False by (simp add: GetLatestVersion_def)
  qed (simp add: GetLatestVersion_def)
qed (simp_all add: VersionsToApply_def)

locale migration_manager =
  fixes cur :: "'ns \<Rightarrow> u32 res"
    and setv :: "'ns \<Rightarrow> u32 \<Rightarrow> 'ns res"
  assumes cur_setv: "setv ns v = Inr ns' \<Longrightarrow> cur ns' = Inr v"
begin

lemma upgrade_reaches_latest:
  assumes "upgrade cur setv vs ns = Inr ns'"
  shows "cur ns' = Inr (GetLatestVersion vs)"
proof -
  obtain c where c: "cur ns = Inr c" using assms by (auto simp: upgrade_def)
  consider "c > GetLatestVersion vs" | "c < GetLatestVersion vs" | "c = GetLatestVersion vs"
    by fastforce
  then show ?thesis
  proof cases
    case 2
    then show ?thesis using assms c by (auto simp: upgrade_def Let_def intro: cur_setv dest: less_asym split: if_splits)
  qed (use assms c in \<open>auto simp: upgrade_def Let_def\<close>)
qed

lemma upgrade_idempotent:
  "upgrade cur setv vs ns = Inr ns' \<Longrightarrow> upgrade cur setv vs ns' = Inr ns'"
  using upgrade_reaches_latest[of vs ns ns'] by (simp add: upgrade_def Let_def)

lemma upgrade_refuses_reversion:
  "cur ns = Inr c \<Longrightarrow> GetLatestVersion vs < c \<Longrightarrow> upgrade cur setv vs ns = Inl ErrReversion"
  by (simp add: upgrade_def Let_def)

end

end
