(* ===== verification/Tx_Create.thy ===== *)
theory Tx_Create
  imports Tx_Store Migration
begin

text \<open>
  Creating, opening and migrating the store (\<open>createStore\<close>, \<open>openStore\<close>,
  \<open>createBuckets\<close>, \<open>deleteBuckets\<close> of db.go and migrations.go).  A namespace is the
  root bucket and the nested buckets by name; \<open>storeOf\<close> is the open store on a namespace that
  has the buckets the rest of the package takes for granted.
\<close>

record namespace =
  nsRoot :: bucket
  nsNested :: "bname \<Rightarrow> bucket option"

definition emptyNamespace :: namespace where
  "emptyNamespace = \<lparr>nsRoot = bucketEmpty, nsNested = (\<lambda>_. None)\<rparr>"

definition bucketNames :: "bname list" where
  "bucketNames = [Blocks, TxRecords, TxLabels, Credits, Unspent, Debits, Unmined, UnminedCredits,
     UnminedInputs, LockedOutputs]"

definition createBucket :: "env \<Rightarrow> bname \<Rightarrow> namespace \<Rightarrow> namespace res" where
  "createBucket E b n =
     bindE (dbGuard E (DbCreate b) (storeError ErrDatabase)) (\<lambda>_.
     case nsNested n b of
       Some _ \<Rightarrow> Inl (storeError ErrDatabase)
     | None \<Rightarrow> Inr (n\<lparr>nsNested := (nsNested n)(b \<mapsto> bucketEmpty)\<rparr>))"

definition createBuckets :: "env \<Rightarrow> namespace \<Rightarrow> namespace res" where
  "createBuckets E n =
     foldE (createBucket E)
       [Blocks, TxRecords, Credits, Debits, Unspent, Unmined, UnminedCredits, UnminedInputs,
        LockedOutputs] n"

definition deleteNestedBucket :: "env \<Rightarrow> bname \<Rightarrow> namespace \<Rightarrow> namespace res" where
  "deleteNestedBucket E b n =
     bindE (dbGuard E (DbDrop b) (storeError ErrDatabase)) (\<lambda>_.
     case nsNested n b of
       None \<Rightarrow> Inl (storeError ErrDatabase)
     | Some _ \<Rightarrow> Inr (n\<lparr>nsNested := (nsNested n)(b := None)\<rparr>))"

definition deleteBuckets :: "env \<Rightarrow> namespace \<Rightarrow> namespace res" where
  "deleteBuckets E n =
     bindE (foldE (deleteNestedBucket E)
       [Blocks, TxRecords, Credits, Debits, Unspent, Unmined, UnminedCredits, UnminedInputs] n) (\<lambda>n.
     bindE (dbGuard E (DbDrop LockedOutputs) (storeError ErrDatabase)) (\<lambda>_.
     Inr (n\<lparr>nsNested := (nsNested n)(LockedOutputs := None)\<rparr>)))"

definition putVersion :: "env \<Rightarrow> namespace \<Rightarrow> u32 \<Rightarrow> namespace res" where
  "putVersion E n version =
     (let v = putUint32 version in
      bindE (dbGuard E (DbPut Root rootVersion v) (storeError ErrDatabase)) (\<lambda>_.
      Inr (n\<lparr>nsRoot := bucketPut (nsRoot n) rootVersion v\<rparr>)))"

definition fetchVersion :: "namespace \<Rightarrow> u32 res" where
  "fetchVersion n =
     (let v = bucketGet (nsRoot n) rootVersion in
      if glen v \<noteq> 4 then Inl (storeError ErrNoExists) else Inr (uint32_of (orNil v)))"

definition dropTransactionHistory :: "env \<Rightarrow> namespace \<Rightarrow> namespace res" where
  "dropTransactionHistory E n =
     bindE (deleteBuckets E n) (\<lambda>n.
     bindE (dbGuard E (DbDelete Root rootMinedBalance) DbErr) (\<lambda>_.
     let n = n\<lparr>nsRoot := bucketDelete (nsRoot n) rootMinedBalance\<rparr> in
     bindE (createBuckets E n) (\<lambda>n.
     let v = putUint64 0 in
     bindE (dbGuard E (DbPut Root rootMinedBalance v) (storeError ErrDatabase)) (\<lambda>_.
     Inr (n\<lparr>nsRoot := bucketPut (nsRoot n) rootMinedBalance v\<rparr>)))))"

definition versions :: "env \<Rightarrow> namespace version list" where
  "versions E = [\<lparr>Number = 1, MigrationFn = None\<rparr>,
     \<lparr>Number = 2, MigrationFn = Some (dropTransactionHistory E)\<rparr>]"

definition getLatestVersion :: "env \<Rightarrow> u32" where
  "getLatestVersion E = Number (versions E ! (length (versions E) - 1))"

definition openStore :: "env \<Rightarrow> namespace \<Rightarrow> unit res" where
  "openStore E n =
     bindE (fetchVersion n) (\<lambda>version.
     let latestVersion = getLatestVersion E in
     if version < latestVersion then Inl (storeError ErrNeedsUpgrade)
     else if version > latestVersion then Inl (storeError ErrUnknownVersion)
     else Inr ())"

definition createStore :: "env \<Rightarrow> namespace \<Rightarrow> namespace res" where
  "createStore E n =
     (if fst (cursorFirst (readCursor (nsRoot n))) \<noteq> None \<or> (\<exists>b \<in> set bucketNames. nsNested n b \<noteq> None)
      then Inl (storeError ErrAlreadyExists)
      else
        bindE (putVersion E n (getLatestVersion E)) (\<lambda>n.
        let v = putUint64 (timeWord (clockNow E)) in
        bindE (dbGuard E (DbPut Root rootCreateDate v) (storeError ErrDatabase)) (\<lambda>_.
        let n = n\<lparr>nsRoot := bucketPut (nsRoot n) rootCreateDate v\<rparr>; v = putUint64 0 in
        bindE (dbGuard E (DbPut Root rootMinedBalance v) (storeError ErrDatabase)) (\<lambda>_.
        createBuckets E (n\<lparr>nsRoot := bucketPut (nsRoot n) rootMinedBalance v\<rparr>)))))"

definition storeOf :: "namespace \<Rightarrow> store option" where
  "storeOf n =
     (case (nsNested n Blocks, nsNested n TxRecords, nsNested n Credits, nsNested n Unspent,
            nsNested n Debits, nsNested n Unmined, nsNested n UnminedCredits, nsNested n UnminedInputs) of
        (Some bl, Some tr, Some cr, Some us, Some de, Some um, Some uc, Some ui) \<Rightarrow>
          Some \<lparr>sRoot = nsRoot n, sBlocks = bl, sTxRecords = tr, sCredits = cr, sUnspent = us,
                sDebits = de, sUnmined = um, sUnminedCredits = uc, sUnminedInputs = ui,
                sLockedOutputs = nsNested n LockedOutputs, sTxLabels = nsNested n TxLabels\<rparr>
      | _ \<Rightarrow> None)"

text \<open>A store without history: every bucket empty and a zero mined balance.\<close>

definition no_history :: "store \<Rightarrow> bool" where
  "no_history ns \<longleftrightarrow> sBlocks ns = bucketEmpty \<and> sTxRecords ns = bucketEmpty \<and> sCredits ns = bucketEmpty
     \<and> sUnspent ns = bucketEmpty \<and> sDebits ns = bucketEmpty \<and> sUnmined ns = bucketEmpty
     \<and> sUnminedCredits ns = bucketEmpty \<and> sUnminedInputs ns = bucketEmpty
     \<and> sLockedOutputs ns = Some bucketEmpty \<and> fetchMinedBalance ns = Inr 0"

lemma root_keys_distinct [simp]:
  "rootMinedBalance \<noteq> rootVersion" "rootVersion \<noteq> rootMinedBalance"
  "rootCreateDate \<noteq> rootVersion" "rootVersion \<noteq> rootCreateDate"
  "rootCreateDate \<noteq> rootMinedBalance" "rootMinedBalance \<noteq> rootCreateDate"
  by (simp_all add: rootMinedBalance_def rootVersion_def rootCreateDate_def)

lemma getLatestVersion_2 [simp]: "getLatestVersion E = 2"
  by (simp add: getLatestVersion_def versions_def)

interpretation wtx_manager: migration_manager fetchVersion "putVersion E" for E
  by unfold_locales (auto simp: putVersion_def fetchVersion_def Let_def)

lemma foldE_createBucket:
  "db_ok E \<Longrightarrow> distinct bs \<Longrightarrow> \<forall>b \<in> set bs. nsNested n b = None \<Longrightarrow>
    foldE (createBucket E) bs n =
      Inr (n\<lparr>nsNested := (\<lambda>b. if b \<in> set bs then Some bucketEmpty else nsNested n b)\<rparr>)"
proof (induction bs arbitrary: n)
  case (Cons b bs)
  let ?n = "n\<lparr>nsNested := (nsNested n)(b \<mapsto> bucketEmpty)\<rparr>"
  have "createBucket E b n = Inr ?n" using Cons.prems by (simp add: createBucket_def)
  moreover have "\<forall>c \<in> set bs. nsNested ?n c = None" using Cons.prems by auto
  ultimately show ?case using Cons.IH[of ?n] Cons.prems by (auto simp: fun_eq_iff)
qed (simp add: fun_eq_iff)

lemma foldE_deleteNestedBucket:
  "db_ok E \<Longrightarrow> distinct bs \<Longrightarrow> \<forall>b \<in> set bs. nsNested n b \<noteq> None \<Longrightarrow>
    foldE (deleteNestedBucket E) bs n =
      Inr (n\<lparr>nsNested := (\<lambda>b. if b \<in> set bs then None else nsNested n b)\<rparr>)"
proof (induction bs arbitrary: n)
  case (Cons b bs)
  let ?n = "n\<lparr>nsNested := (nsNested n)(b := None)\<rparr>"
  have "deleteNestedBucket E b n = Inr ?n" using Cons.prems by (auto simp: deleteNestedBucket_def)
  moreover have "\<forall>c \<in> set bs. nsNested ?n c \<noteq> None" using Cons.prems by auto
  ultimately show ?case using Cons.IH[of ?n] Cons.prems by (auto simp: fun_eq_iff)
qed (simp add: fun_eq_iff)

text \<open>The buckets every store has.\<close>

definition storeBuckets :: "bname set" where
  "storeBuckets = {Blocks, TxRecords, Credits, Debits, Unspent, Unmined, UnminedCredits, UnminedInputs,
     LockedOutputs}"

lemma createBuckets_eq:
  "db_ok E \<Longrightarrow> \<forall>b \<in> storeBuckets. nsNested n b = None \<Longrightarrow>
    createBuckets E n =
      Inr (n\<lparr>nsNested := (\<lambda>b. if b \<in> storeBuckets then Some bucketEmpty else nsNested n b)\<rparr>)"
  unfolding createBuckets_def by (subst foldE_createBucket) (auto simp: storeBuckets_def)

lemma deleteBuckets_eq:
  assumes "db_ok E" "\<forall>b \<in> storeBuckets - {LockedOutputs}. nsNested n b \<noteq> None"
  shows "deleteBuckets E n =
    Inr (n\<lparr>nsNested := (\<lambda>b. if b \<in> storeBuckets then None else nsNested n b)\<rparr>)"
proof -
  let ?bs = "[Blocks, TxRecords, Credits, Debits, Unspent, Unmined, UnminedCredits, UnminedInputs]"
  have "foldE (deleteNestedBucket E) ?bs n
    = Inr (n\<lparr>nsNested := (\<lambda>b. if b \<in> set ?bs then None else nsNested n b)\<rparr>)"
    using assms by (intro foldE_deleteNestedBucket) (auto simp: storeBuckets_def)
  then show ?thesis using assms(1) by (auto simp: deleteBuckets_def storeBuckets_def fun_eq_iff)
qed

lemma storeOf_fresh:
  "(\<And>b. b \<in> storeBuckets \<Longrightarrow> nsNested n b = Some bucketEmpty) \<Longrightarrow>
    storeOf n = Some \<lparr>sRoot = nsRoot n, sBlocks = bucketEmpty, sTxRecords = bucketEmpty,
      sCredits = bucketEmpty, sUnspent = bucketEmpty, sDebits = bucketEmpty, sUnmined = bucketEmpty,
      sUnminedCredits = bucketEmpty, sUnminedInputs = bucketEmpty,
      sLockedOutputs = Some bucketEmpty, sTxLabels = nsNested n TxLabels\<rparr>"
  by (simp add: storeOf_def storeBuckets_def)

text \<open>
  Creating a store on an empty namespace succeeds, the result opens at the latest version and
  is a store without history; creating it a second time is refused.
\<close>

lemma createStore_spec:
  assumes "db_ok E"
  shows "\<exists>n ns. createStore E emptyNamespace = Inr n \<and> openStore E n = Inr ()
    \<and> storeOf n = Some ns \<and> no_history ns \<and> sTxLabels ns = None
    \<and> createStore E n = Inl (storeError ErrAlreadyExists)"
proof -
  let ?r = "bucketPut (bucketPut (bucketPut bucketEmpty rootVersion (putUint32 2)) rootCreateDate
      (putUint64 (timeWord (clockNow E)))) rootMinedBalance (putUint64 0)"
  let ?n = "\<lparr>nsRoot = ?r, nsNested = (\<lambda>b. if b \<in> storeBuckets then Some bucketEmpty else None)\<rparr>"
  have n: "createStore E emptyNamespace = Inr ?n"
    using assms by (simp add: createStore_def emptyNamespace_def cursorFirst_def readCursor_def
        putVersion_def Let_def createBuckets_eq fun_eq_iff)
  have "openStore E ?n = Inr ()" by (simp add: openStore_def fetchVersion_def)
  moreover have "createStore E ?n = Inl (storeError ErrAlreadyExists)"
    by (simp add: createStore_def bucketNames_def storeBuckets_def)
  moreover have "nsNested ?n TxLabels = None" by (simp add: storeBuckets_def)
  ultimately show ?thesis
    using n storeOf_fresh[of ?n] by (auto simp: no_history_def fetchMinedBalance_def)
qed

text \<open>
  Upgrading a store recorded at version 1 whose buckets are all there drops the history: it
  ends at version 2 with an empty store, and the root keys other than the balance and the labels are kept.
\<close>

lemma upgrade_drops_history:
  assumes "db_ok E" "fetchVersion n = Inr 1"
    and "\<forall>b \<in> set bucketNames. b \<noteq> TxLabels \<and> b \<noteq> LockedOutputs \<longrightarrow> nsNested n b \<noteq> None"
  shows "\<exists>n' ns. upgrade fetchVersion (putVersion E) (versions E) n = Inr n'
    \<and> openStore E n' = Inr () \<and> storeOf n' = Some ns \<and> no_history ns
    \<and> sTxLabels ns = nsNested n TxLabels
    \<and> bucketGet (sRoot ns) rootCreateDate = bucketGet (nsRoot n) rootCreateDate"
proof -
  let ?n' = "\<lparr>nsRoot = bucketPut (bucketPut (bucketDelete (nsRoot n) rootMinedBalance) rootMinedBalance
        (putUint64 0)) rootVersion (putUint32 2),
      nsNested = (\<lambda>b. if b \<in> storeBuckets then Some bucketEmpty else nsNested n b)\<rparr>"
  have glv: "GetLatestVersion (versions E) = 2" "VersionsToApply 1 (versions E) = [versions E ! 1]"
    by (simp_all add: GetLatestVersion_def VersionsToApply_def versions_def)
  have app: "applyVersion (versions E ! Suc 0) n = dropTransactionHistory E n"
    by (simp add: applyVersion_def versions_def)
  have "\<forall>b \<in> storeBuckets - {LockedOutputs}. nsNested n b \<noteq> None"
    using assms(3) by (auto simp: storeBuckets_def bucketNames_def)
  note del = deleteBuckets_eq[OF assms(1) this]
  have "dropTransactionHistory E n = Inr (?n'\<lparr>nsRoot := bucketPut (bucketDelete (nsRoot n) rootMinedBalance)
      rootMinedBalance (putUint64 0)\<rparr>)"
    using assms(1) by (simp add: dropTransactionHistory_def del Let_def createBuckets_eq if_distrib cong: if_cong)
  then have "upgrade fetchVersion (putVersion E) (versions E) n = Inr ?n'"
    using assms(1,2) by (simp add: upgrade_def glv app putVersion_def Let_def)
  moreover have "nsNested ?n' TxLabels = nsNested n TxLabels" by (simp add: storeBuckets_def)
  moreover have "openStore E ?n' = Inr ()" by (simp add: openStore_def fetchVersion_def)
  ultimately show ?thesis
    using storeOf_fresh[of ?n'] by (auto simp: no_history_def fetchMinedBalance_def)
qed

text \<open>A completed upgrade of the transaction store leaves it openable, and repeating it changes nothing.\<close>

lemma upgrade_opens:
  assumes "upgrade fetchVersion (putVersion E) (versions E) n = Inr n'"
  shows "openStore E n' = Inr () \<and> upgrade fetchVersion (putVersion E) (versions E) n' = Inr n'"
proof -
  have "fetchVersion n' = Inr (GetLatestVersion (versions E))"
    using assms by (rule wtx_manager.upgrade_reaches_latest)
  then have "fetchVersion n' = Inr 2" by (simp add: GetLatestVersion_def versions_def)
  then show ?thesis using wtx_manager.upgrade_idempotent[OF assms] by (simp add: openStore_def)
qed

end
