(* ===== verification/Key_Order.thy ===== *)
theory Key_Order
  imports Tx_Iter
begin

text \<open>
  Big-endian keys sort like the numbers they encode, so cursors meet blocks by increasing height and
  the record that \<open>latestTxRecord\<close> finds, the last one with the prefix of a transaction, is the one
  in the highest block.
\<close>

section \<open>Byte order and number order\<close>

lemma be_nat_less_iff:
  fixes xs ys :: bytes
  shows "length xs = length ys \<Longrightarrow> xs < ys \<longleftrightarrow> be_nat xs < be_nat ys"
proof (induction xs ys rule: list_induct2)
  case (Cons x xs y ys)
  have b: "be_nat xs < 256 ^ length ys" "be_nat ys < 256 ^ length ys"
    using be_nat_less[of xs] be_nat_less[of ys] Cons by simp_all
  have "x < y \<Longrightarrow> unat x * 256 ^ length ys + be_nat xs < unat y * 256 ^ length ys + be_nat ys"
  proof -
    assume "x < y"
    then have "Suc (unat x) \<le> unat y" by (simp add: word_less_nat_alt)
    then have "Suc (unat x) * 256 ^ length ys \<le> unat y * 256 ^ length ys" by (rule mult_right_mono) simp
    then show ?thesis using b by simp
  qed
  moreover have "y < x \<Longrightarrow> unat y * 256 ^ length ys + be_nat ys < unat x * 256 ^ length ys + be_nat xs"
  proof -
    assume "y < x"
    then have "Suc (unat y) \<le> unat x" by (simp add: word_less_nat_alt)
    then have "Suc (unat y) * 256 ^ length ys \<le> unat x * 256 ^ length ys" by (rule mult_right_mono) simp
    then show ?thesis using b by simp
  qed
  ultimately show ?case using Cons by (cases x y rule: linorder_cases) auto
qed simp

lemma append_less_iff:
  fixes xs ys us vs :: bytes
  shows "length xs = length ys \<Longrightarrow> xs @ us < ys @ vs \<longleftrightarrow> xs < ys \<or> xs = ys \<and> us < vs"
  by (induction xs ys rule: list_induct2) auto

lemma putUint32_less [simp]: "putUint32 a < putUint32 b \<longleftrightarrow> a < b"
  using unsigned_less[of a, where ?'a = nat] unsigned_less[of b, where ?'a = nat]
  by (simp add: be_nat_less_iff) (simp add: putUint32_def word_less_nat_alt)

lemma keyTxRecord_less:
  "bHeight b < bHeight b' \<Longrightarrow> keyTxRecord h b < keyTxRecord h b'"
  by (simp add: keyTxRecord_def append_less_iff)

text \<open>Block records are kept in the order of their heights: comparing keys is comparing heights.\<close>

lemma keyBlockRecord_order:
  "keyBlockRecord a < keyBlockRecord b \<longleftrightarrow> unat a < unat b"
  by (simp add: keyBlockRecord_def word_less_nat_alt)

section \<open>The latest record of a transaction\<close>

lemma latestLoop_run:
  assumes "curPos c = fst e"
  shows "latestLoop p c (Some e) lst =
    (case takeWhile (\<lambda>e. hasPrefix (fst e) p) (e # entries_after (curBucket c) (curPos c)) of
       [] \<Rightarrow> lst | x # xs \<Rightarrow> Some (last (x # xs)))"
  using assms
proof (induction "length (entries_after (curBucket c) (curPos c))" arbitrary: c e lst rule: less_induct)
  case less
  show ?case
  proof (cases "hasPrefix (fst e) p")
    case False
    then show ?thesis by (subst latestLoop.simps) simp
  next
    case True
    show ?thesis
    proof (cases "entries_after (curBucket c) (curPos c)")
      case Nil
      then have "cursorNext c = (None, c)" by (simp add: cursorNext_eq)
      then show ?thesis using True Nil by (subst latestLoop.simps) simp
    next
      case (Cons e' es)
      let ?c = "c\<lparr>curPos := fst e'\<rparr>"
      have n: "cursorNext c = (Some e', ?c)" by (simp add: cursorNext_eq Cons)
      have tl: "entries_after (curBucket ?c) (curPos ?c) = es" using entries_after_tail[OF Cons] by simp
      have "latestLoop p ?c (Some e') (Some e) =
        (case takeWhile (\<lambda>e. hasPrefix (fst e) p) (e' # entries_after (curBucket ?c) (curPos ?c)) of
           [] \<Rightarrow> Some e | x # xs \<Rightarrow> Some (last (x # xs)))"
        using less.hyps[of ?c e' "Some e"] tl Cons by simp
      then show ?thesis using True n Cons tl by (subst latestLoop.simps) (auto split: list.splits)
    qed
  qed
qed

lemma latestTxRecord_last:
  "latestTxRecord ns h = (case prefix_entries (sTxRecords ns) (hashBytes h) of
      [] \<Rightarrow> None | e # es \<Rightarrow> Some (last (e # es)))"
proof -
  let ?b = "sTxRecords ns" and ?p = "hashBytes h"
  let ?c = "readCursor ?b"
  have cb: "curBucket ?c = ?b" by (simp add: readCursor_def)
  show ?thesis
  proof (cases "entries_from ?b ?p")
    case Nil
    then have "cursorSeek ?c ?p = (None, ?c\<lparr>curPos := ?p\<rparr>)" by (simp add: cursorSeek_eq cb)
    then show ?thesis using takeWhile_prefix_from[of ?p ?b] Nil
      by (simp add: latestTxRecord_def Let_def latestLoop.simps)
  next
    case (Cons e es)
    let ?c' = "?c\<lparr>curPos := fst e\<rparr>"
    have s: "cursorSeek ?c ?p = (Some e, ?c')" by (simp add: cursorSeek_eq cb Cons)
    have tl: "entries_after (curBucket ?c') (curPos ?c') = es" using entries_from_tail[OF Cons] by (simp add: cb)
    have pe: "prefix_entries ?b ?p = takeWhile (\<lambda>e. hasPrefix (fst e) ?p) (e # es)"
      using takeWhile_prefix_from[of ?p ?b] Cons by simp
    show ?thesis
    proof (cases "hasPrefix (fst e) ?p")
      case True
      then show ?thesis using latestLoop_run[of ?c' e ?p None] tl s
        by (simp add: latestTxRecord_def Let_def pe last_def)
    next
      case False
      then show ?thesis using latestLoop_run[of ?c' e ?p None] tl s
        by (simp add: latestTxRecord_def Let_def pe)
    qed
  qed
qed

text \<open>Every record of the bucket is stored under a key that \<open>keyTxRecord\<close> makes.\<close>

definition txRecords_wf :: "store \<Rightarrow> bool" where
  "txRecords_wf ns \<longleftrightarrow> (\<forall>k v. bucketGet (sTxRecords ns) k = Some v \<longrightarrow> (\<exists>h b. k = keyTxRecord h b))"

lemma sorted_last_max:
  "sorted_wrt (<) (map fst (es :: entry list)) \<Longrightarrow> e \<in> set es \<Longrightarrow> fst e \<le> fst (last es)"
  by (induction es) (auto simp: less_imp_le)

text \<open>\<open>latestTxRecord\<close> finds a record of the transaction exactly when there is one, and the one
  it finds lies in the highest block, heights read as \<open>uint32\<close>.\<close>

lemma latestTxRecord_highest:
  assumes "txRecords_wf ns"
  shows "(latestTxRecord ns h = None \<longleftrightarrow> (\<forall>b. bucketGet (sTxRecords ns) (keyTxRecord h b) = None))
    \<and> (latestTxRecord ns h = Some (k, v) \<longrightarrow> bucketGet (sTxRecords ns) k = Some v
        \<and> (\<exists>b. k = keyTxRecord h b \<and>
             (\<forall>b'. bucketGet (sTxRecords ns) (keyTxRecord h b') \<noteq> None \<longrightarrow> bHeight b' \<le> bHeight b)))"
proof -
  let ?es = "prefix_entries (sTxRecords ns) (hashBytes h)"
  have mem: "(k, v) \<in> set ?es \<longleftrightarrow> bucketGet (sTxRecords ns) k = Some v \<and> (\<exists>b. k = keyTxRecord h b)" for k v
    using assms by (auto simp: prefix_entries_def kv.mem_items_iff txRecords_wf_def)
  have srt: "sorted_wrt (<) (map fst ?es)"
    using keys_sorted_entries[of "sTxRecords ns"] unfolding keys_sorted_def prefix_entries_def
    by (simp add: sorted_wrt_map sorted_wrt_filter)
  have none: "latestTxRecord ns h = None \<longleftrightarrow> ?es = []" by (auto simp: latestTxRecord_last split: list.splits)
  have "?es = [] \<longleftrightarrow> (\<forall>b. bucketGet (sTxRecords ns) (keyTxRecord h b) = None)"
    using mem by (metis list.set_intros(1) neq_Nil_conv not_None_eq surj_pair list.set(1) empty_iff)
  moreover have "bucketGet (sTxRecords ns) k = Some v
        \<and> (\<exists>b. k = keyTxRecord h b \<and>
             (\<forall>b'. bucketGet (sTxRecords ns) (keyTxRecord h b') \<noteq> None \<longrightarrow> bHeight b' \<le> bHeight b))"
    if "latestTxRecord ns h = Some (k, v)"
  proof -
    have l: "?es \<noteq> []" "last ?es = (k, v)" using that by (auto simp: latestTxRecord_last split: list.splits)
    then have "(k, v) \<in> set ?es" by (metis last_in_set)
    then obtain b where b: "bucketGet (sTxRecords ns) k = Some v" "k = keyTxRecord h b" using mem by blast
    have "bHeight b' \<le> bHeight b" if "bucketGet (sTxRecords ns) (keyTxRecord h b') \<noteq> None" for b'
    proof (rule ccontr)
      assume "\<not> bHeight b' \<le> bHeight b"
      then have "k < keyTxRecord h b'" using b(2) keyTxRecord_less by simp
      obtain v' where "(keyTxRecord h b', v') \<in> set ?es" using \<open>_ \<noteq> None\<close> mem by auto
      from sorted_last_max[OF srt this] l(2) have "keyTxRecord h b' \<le> k" by simp
      then show False using \<open>k < keyTxRecord h b'\<close> by simp
    qed
    then show ?thesis using b by blast
  qed
  ultimately show ?thesis using none by blast
qed

end
