(* ===== verification/Witness_Store.thy ===== *)
theory Witness_Store
  imports Kahn_Sort Tx_Listing Tx_Spend Tx_Create Key_Order
begin

text \<open>
  Concrete inputs for the theorems about the transaction store: an environment with three transactions,
  the empty store, and the store after its first operations.
\<close>

section \<open>The environment and the empty store\<close>

text \<open>A pays from outside, B spends the output of A, C spends the same outside output as A.\<close>

definition txA :: msgTx where
  "txA = \<lparr>Version = 1, TxIn = [\<lparr>PreviousOutPoint = \<lparr>opHash = 9, opIndex = 0\<rparr>, SignatureScript = [],
      Witness = [], Sequence = 0\<rparr>], TxOut = [\<lparr>Value = 700, PkScript = [1]\<rparr>], LockTime = 0\<rparr>"
definition txB :: msgTx where
  "txB = \<lparr>Version = 1, TxIn = [\<lparr>PreviousOutPoint = \<lparr>opHash = 1, opIndex = 0\<rparr>, SignatureScript = [],
      Witness = [], Sequence = 0\<rparr>], TxOut = [\<lparr>Value = 600, PkScript = [2]\<rparr>], LockTime = 0\<rparr>"
definition txC :: msgTx where
  "txC = \<lparr>Version = 1, TxIn = [\<lparr>PreviousOutPoint = \<lparr>opHash = 9, opIndex = 0\<rparr>, SignatureScript = [],
      Witness = [], Sequence = 0\<rparr>], TxOut = [\<lparr>Value = 650, PkScript = [3]\<rparr>], LockTime = 0\<rparr>"

definition env1 :: env where
  "env1 = \<lparr>dbFails = (\<lambda>_. False),
     serializeTx = (\<lambda>tx. if tx = txA then Some [1] else if tx = txB then Some [2] else if tx = txC then Some [3] else None),
     deserializeTx = (\<lambda>bs. if bs = [1] then Some txA else if bs = [2] then Some txB else if bs = [3] then Some txC else None),
     txHashOf = (\<lambda>tx. if tx = txA then 1 else if tx = txB then 2 else 3),
     doubleHash = (\<lambda>_. 0), isCoinBaseTx = (\<lambda>_. False), clockNow = 50000000000, coinbaseMaturity = 100\<rparr>"

definition recA :: txRecord where "recA = \<lparr>MsgTx = txA, Hash = 1, Received = 0, SerializedTx = Some [1]\<rparr>"
definition recB :: txRecord where "recB = \<lparr>MsgTx = txB, Hash = 2, Received = 0, SerializedTx = Some [2]\<rparr>"
definition recC :: txRecord where "recC = \<lparr>MsgTx = txC, Hash = 3, Received = 0, SerializedTx = Some [3]\<rparr>"

definition block1 :: blockMeta where "block1 = \<lparr>metaBlock = \<lparr>bHash = 77, bHeight = 100\<rparr>, metaTime = 0\<rparr>"

definition store0 :: store where
  "store0 = \<lparr>sRoot = bucketPut bucketEmpty rootMinedBalance (putUint64 0), sBlocks = bucketEmpty,
     sTxRecords = bucketEmpty, sCredits = bucketEmpty, sUnspent = bucketEmpty, sDebits = bucketEmpty,
     sUnmined = bucketEmpty, sUnminedCredits = bucketEmpty, sUnminedInputs = bucketEmpty,
     sLockedOutputs = Some bucketEmpty, sTxLabels = None\<rparr>"

lemma env1_ok [simp]: "db_ok env1"
  by (simp add: db_ok_def env1_def)

lemma recs_ok [simp]: "rec_ok env1 recA" "rec_ok env1 recB" "rec_ok env1 recC"
  by (simp_all add: rec_ok_def recA_def recB_def recC_def env1_def)

lemma recs_fields [simp]:
  "Hash recA = 1" "Hash recB = 2" "Hash recC = 3" "MsgTx recA = txA" "MsgTx recB = txB" "MsgTx recC = txC"
  by (simp_all add: recA_def recB_def recC_def)

lemma store0_fields [simp]:
  "sBlocks store0 = bucketEmpty" "sTxRecords store0 = bucketEmpty" "sCredits store0 = bucketEmpty"
  "sUnspent store0 = bucketEmpty" "sDebits store0 = bucketEmpty" "sUnmined store0 = bucketEmpty"
  "sUnminedCredits store0 = bucketEmpty" "sUnminedInputs store0 = bucketEmpty"
  "sLockedOutputs store0 = Some bucketEmpty" "fetchMinedBalance store0 = Inr 0"
  by (simp_all add: store0_def fetchMinedBalance_def Let_def orNil_def glen_def)

lemma mempool0: "mempool E store0 Map.empty"
  by (simp add: mempool_def unmined_holds_def spends_indexed_def spenders_def fetchUnminedInputSpendTxHashes_def)

lemma store0_inv: "store_inv E store0 Map.empty"
  using mempool0 by (simp add: store_inv_def ledger_ok_def ledger_def ledger_wf_def unspentTotal_def
      unminedCredits_wf_def)

lemma acyclic0: "acyclic (spend_rel Map.empty)"
  by (simp add: spend_rel_def acyclic_def spenders_def)

lemma leases0: "leases_wf store0"
  by (simp add: leases_wf_def)

section \<open>Unmined transactions\<close>

lemma latest_empty: "sTxRecords ns = bucketEmpty \<Longrightarrow> latestTxRecord ns h = None"
  by (simp add: latestTxRecord_def readCursor_def cursorSeek_def latestLoop.simps)

lemma insertable_fresh:
  assumes "sTxRecords ns = bucketEmpty" "sUnspent ns = bucketEmpty"
    and "bucketGet (sUnmined ns) (hashBytes (Hash rec)) = None" "rec_ok env1 rec"
  shows "insertable env1 ns rec"
  using assms latest_empty[OF assms(1)]
  by (simp add: insertable_def TxDetails_def existsRawUnmined_def existsRawUnspent_def glen_def Let_def)

lemma pool_A:
  obtains ns where "insertMemPoolTx env1 store0 recA = Inr ns" "mempool env1 ns [1 \<mapsto> txA]"
    "sTxRecords ns = bucketEmpty" "sUnspent ns = bucketEmpty" "sUnminedCredits ns = bucketEmpty"
    "sLockedOutputs ns = Some bucketEmpty"
proof -
  obtain ns where a: "insertMemPoolTx env1 store0 recA = Inr ns" "mempool env1 ns (Map.empty(Hash recA \<mapsto> MsgTx recA))"
    "ns = store0\<lparr>sUnmined := sUnmined ns, sUnminedInputs := sUnminedInputs ns\<rparr>"
    using insertMemPoolTx_spec[OF env1_ok mempool0 insertable_fresh[of store0 recA]] by auto
  then obtain u i where "ns = store0\<lparr>sUnmined := u, sUnminedInputs := i\<rparr>" by blast
  with a that show thesis by simp
qed

lemma pool_AB:
  obtains ns where "mempool env1 ns [1 \<mapsto> txA, 2 \<mapsto> txB]"
proof -
  obtain ns where a: "mempool env1 ns [1 \<mapsto> txA]" "sTxRecords ns = bucketEmpty" "sUnspent ns = bucketEmpty"
    using pool_A by metis
  have "bucketGet (sUnmined ns) (hashBytes (Hash recB)) = None"
    using mempool_get_None[OF a(1), of "Hash recB"] by simp
  then have "insertable env1 ns recB" by (rule insertable_fresh[OF a(2,3)]) simp
  then show thesis using insertMemPoolTx_spec[OF env1_ok a(1), of recB] that by auto
qed

lemma spend_rel_AB: "spend_rel [1 \<mapsto> txA, 2 \<mapsto> txB] = {(1, 2)}"
proof -
  have o: "outputKeys 1 txA = {canonicalOutPoint 1 0}" "outputKeys 2 txB = {canonicalOutPoint 2 0}"
    by (auto simp: outputKeys_def txA_def txB_def indexed_def)
  have i: "inputKeys txA = {canonicalOutPoint 9 0}" "inputKeys txB = {canonicalOutPoint 1 0}"
    by (auto simp: inputKeys_def inputKey_def txA_def txB_def)
  show ?thesis by (auto simp: spend_rel_def spenders_def o i split: if_splits)
qed

lemma acyclic_AB: "acyclic (spend_rel [1 \<mapsto> txA, 2 \<mapsto> txB])"
  unfolding spend_rel_AB using acyclic_insert[of 1 "2 :: hash" "{}"] by (simp add: acyclic_def)

lemma descendants_AB: "descendants [1 \<mapsto> txA, 2 \<mapsto> txB] 1 = {1, 2}"
proof -
  have "y \<in> {1, 2}" if "(1, y) \<in> {(1, 2)}\<^sup>*" for y :: hash
    using that by (induction rule: rtrancl_induct) auto
  then show ?thesis unfolding descendants_def spend_rel_AB by auto
qed

lemma removeConflict_removes_descendants_witness:
  "\<exists>ns ns'. mempool env1 ns [1 \<mapsto> txA, 2 \<mapsto> txB] \<and> removeConflict env1 ns recA = Inr ns'
    \<and> mempool env1 ns' Map.empty"
proof -
  obtain ns where ns: "mempool env1 ns [1 \<mapsto> txA, 2 \<mapsto> txB]" using pool_AB .
  have "[1 \<mapsto> txA, 2 \<mapsto> txB] |` (- {1, 2}) = (Map.empty :: txMap)" by (auto simp: restrict_map_def fun_eq_iff)
  then show ?thesis
    using removeConflict_removes_descendants[OF env1_ok ns acyclic_AB, of recA] ns descendants_AB by auto
qed

section \<open>Mined transactions\<close>

lemma minable_A: "minable env1 store0 Map.empty recA block1"
  by (simp add: minable_def no_credit_def creditAt_def)

lemma mined_A:
  obtains ns where "insertMinedTx env1 store0 recA block1 = Inr ns"
  using insertMinedTx_spec[OF env1_ok store0_inv acyclic0 minable_A] by blast

section \<open>Spending and listing\<close>

definition storeS :: store where
  "storeS = store0\<lparr>sCredits := bucketPut bucketEmpty (keyCredit 9 0 (metaBlock block1))
       (valueUnspentCredit (newCredit 9 0 (metaBlock block1) 800 False)),
     sUnspent := bucketPut bucketEmpty (canonicalOutPoint 9 0) (valueUnspent (metaBlock block1))\<rparr>"

text \<open>The store with the unmined transaction A and a credit for its output.\<close>

lemma UnspentOutputs_exact_witness:
  "\<exists>ns watched. OutputsToWatch env1 ns = Inr watched \<and> \<lparr>opHash = 1, opIndex = 0\<rparr> \<in> ciOutPoint ` set watched"
proof -
  obtain ns0 where a: "insertMemPoolTx env1 store0 recA = Inr ns0" "mempool env1 ns0 [1 \<mapsto> txA]"
    "ns0 = store0\<lparr>sUnmined := sUnmined ns0, sUnminedInputs := sUnminedInputs ns0\<rparr>"
    using insertMemPoolTx_spec[OF env1_ok mempool0 insertable_fresh[of store0 recA]] by auto
  then obtain u i where f: "ns0 = store0\<lparr>sUnmined := u, sUnminedInputs := i\<rparr>" by blast
  let ?ns = "ns0\<lparr>sUnminedCredits := bucketPut bucketEmpty (canonicalOutPoint 1 0) (valueUnminedCredit 700 False)\<rparr>"
  have m: "mempool env1 ?ns [1 \<mapsto> txA]" using a(2) mempool_cong[of ?ns ns0] by simp
  have lok: "ledger_ok ?ns"
    using store0_inv ledger_ok_cong[of ?ns store0] by (simp add: store_inv_def f)
  have uc: "unminedCredits_wf ?ns" by (auto simp: unminedCredits_wf_def f bucketGet_upd split: if_splits)
  have inv: "store_inv env1 ?ns [1 \<mapsto> txA]" using m lok uc by (simp add: store_inv_def)
  obtain v r where v: "bucketGet (sUnmined ns0) (hashBytes 1) = Some v" "readRawTxRecord env1 1 v = Inr r" "MsgTx r = txA"
    by (rule mempool_get[OF a(2), of 1 txA]) (auto simp: f)
  have "listable env1 ?ns"
    using v by (auto simp: listable_def leases_wf_def f unspentAt_def existsRawUnmined_def bucketGet_upd txA_def
        split: if_splits)
  from UnspentOutputs_exact[OF inv this] obtain watched where "OutputsToWatch env1 ?ns = Inr watched"
    "ciOutPoint ` set watched = {op. knownOutput ?ns op}" by blast
  moreover have "knownOutput ?ns \<lparr>opHash = 1, opIndex = 0\<rparr>"
    using v(1) by (simp add: knownOutput_def existsRawUnmined_def)
  ultimately show ?thesis by blast
qed

section \<open>Records, keys and order\<close>

definition storeT :: store where
  "storeT = store0\<lparr>sTxRecords := bucketPut bucketEmpty (keyTxRecord 1 (metaBlock block1)) []\<rparr>"

lemma txs_distinct [simp]: "txA \<noteq> txB" "txB \<noteq> txA"
  by (simp_all add: txA_def txB_def)

definition pair1 :: txSet where "pair1 = [(2, txB), (1, txA)]"

lemma pair1_keyed: "keyed env1 pair1"
  by (simp add: keyed_def pair1_def env1_def)

lemma pair1_order: "iteration_order pair1 [2, 1]"
  by (auto simp: iteration_order_def pair1_def)

lemma DependencySort_complete_witness: "mset (DependencySort env1 pair1 [2, 1]) = {#txB, txA#}"
proof -
  have "\<forall>(h, tx) \<in> set pair1. \<forall>p. spends_member pair1 tx p \<longrightarrow> unat p < unat h"
    by (auto simp: pair1_def spends_member_def txA_def txB_def)
  then show ?thesis using DependencySort_complete[OF pair1_keyed pair1_order, of unat] by (simp add: pair1_def)
qed

lemma DependencySort_parents_first_witness:
  "\<exists>as bs. DependencySort env1 pair1 [2, 1] = as @ txB # bs \<and> 1 \<in> txHashOf env1 ` set as"
proof -
  have s: "DependencySort env1 pair1 [2, 1] = [txA] @ txB # []" by code_simp
  have "no_self_spend pair1" by (auto simp: no_self_spend_def pair1_def txA_def txB_def)
  moreover have "spends_member pair1 txB 1" by (auto simp: spends_member_def pair1_def txB_def)
  ultimately show ?thesis using DependencySort_parents_first[OF pair1_keyed _ pair1_order s] s by blast
qed

section \<open>Creation and migration\<close>

definition oldNamespace :: namespace where
  "oldNamespace = \<lparr>nsRoot = bucketPut bucketEmpty rootVersion (putUint32 1), nsNested = (\<lambda>_. Some bucketEmpty)\<rparr>"

lemma oldNamespace_version: "fetchVersion oldNamespace = Inr 1"
  by (simp add: fetchVersion_def oldNamespace_def orNil_def glen_def Let_def)

section \<open>Labels and leases\<close>

definition op1 :: outPoint where "op1 = \<lparr>opHash = 1, opIndex = 0\<rparr>"

text \<open>A store that knows the output \<open>op1\<close>, without and with a lease of owner 5 up to second 60.\<close>

definition storeK :: store where
  "storeK = store0\<lparr>sUnminedCredits := bucketPut bucketEmpty (canonicalOutPoint 1 0) (valueUnminedCredit 700 False)\<rparr>"
definition storeL :: store where
  "storeL = storeK\<lparr>sLockedOutputs := Some (bucketPut bucketEmpty (canonicalOutPoint 1 0) (serializeLockedOutput 5 60000000000))\<rparr>"

lemma storeK_known: "isKnownOutput storeK op1"
  by (simp add: isKnownOutput_def existsRawUnminedCredit_def storeK_def op1_def)

lemma leasesK: "leases_wf storeK" "leases_wf storeL"
  by (auto simp: leases_wf_def storeK_def storeL_def bucketGet_upd split: if_splits)

lemma lockK: "LockOutput env1 storeK 5 op1 10000000000 = Inr (60000000000, storeL)"
proof -
  have "isLockedOutput storeK op1 t = Inr (0, zeroTime, False)" for t
    by (simp add: isLockedOutput_def storeK_def)
  then show ?thesis using storeK_known
    by (simp add: LockOutput_def lockOutput_def env1_def Let_def storeL_def)
      (simp add: storeK_def op1_def)
qed

lemma word60: "wordTime (timeWord 60000000000) = 60000000000"
  using wordTime_timeWord[of 60000000000] by (simp add: unixSec_def)

lemma lease_excludes_others_witness:
  "LockOutput (env1\<lparr>clockNow := 59000000000\<rparr>) storeL 6 op1 1 = Inl ErrOutputAlreadyLocked"
  using lease_excludes_others[OF lockK leasesK(1) env1_ok, of 59000000000 6 1] by (simp add: word60)

end
