(* ===== verification/Store_Books.thy ===== *)
theory Store_Books
  imports Tx_Spend Key_Order
begin

text \<open>
  The books of the transaction store: the credits and debits of the mined transactions and the index
  of unspent outputs, kept together by \<open>wtxmgr/tx.go\<close>.  A map \<open>M\<close> from the hash of a mined
  transaction to its block and message is what the store knows of the chain; \<open>books E ns M\<close> says
  that every credit is an output and every debit an input of a transaction of \<open>M\<close>, that a debit
  marks the credit it spends, and that no unspent credit is missing from the index.  One lemma per
  elementary change: spending an output, adding one, giving one back, deleting one.
\<close>

section \<open>What the books say\<close>

type_synonym minedMap = "hash \<rightharpoonup> block \<times> msgTx"

definition output_credit :: "msgTx \<Rightarrow> u32 \<Rightarrow> bytes \<Rightarrow> bool" where
  "output_credit tx i cv \<longleftrightarrow> unat i < length (TxOut tx) \<and> uint64_of cv = Value (TxOut tx ! unat i)
     \<and> length cv = (if flagSpent cv then 81 else 9)"

definition credits_hold :: "store \<Rightarrow> minedMap \<Rightarrow> bool" where
  "credits_hold ns M \<longleftrightarrow> (\<forall>k cv. bucketGet (sCredits ns) k = Some cv \<longrightarrow>
     (\<exists>h i b tx. k = keyCredit h i b \<and> M h = Some (b, tx) \<and> output_credit tx i cv))"

definition input_debit :: "store \<Rightarrow> outPoint \<Rightarrow> bytes \<Rightarrow> bool" where
  "input_debit ns op v \<longleftrightarrow> (\<exists>amt b. v = valueDebit amt (keyCredit (opHash op) (opIndex op) b)
     \<and> (\<forall>cv. creditAt ns (opHash op) (opIndex op) b = Some cv \<longrightarrow> flagSpent cv \<and> uint64_of cv = amt))"

definition debit_of :: "env \<Rightarrow> minedMap \<Rightarrow> bytes \<Rightarrow> outPoint \<Rightarrow> bool" where
  "debit_of E M k op \<longleftrightarrow> (\<exists>h j b tx. k = keyDebit h j b \<and> M h = Some (b, tx) \<and> unat j < length (TxIn tx)
     \<and> \<not> isCoinBaseTx E tx \<and> op = PreviousOutPoint (TxIn tx ! unat j))"

definition debits_hold :: "env \<Rightarrow> store \<Rightarrow> minedMap \<Rightarrow> bool" where
  "debits_hold E ns M \<longleftrightarrow> (\<forall>k v. bucketGet (sDebits ns) k = Some v \<longrightarrow>
     (\<exists>op. debit_of E M k op \<and> input_debit ns op v))"

text \<open>No two debits spend the same credit.\<close>

definition debits_unique :: "store \<Rightarrow> bool" where
  "debits_unique ns \<longleftrightarrow> (\<forall>k v k' v'. bucketGet (sDebits ns) k = Some v \<longrightarrow> bucketGet (sDebits ns) k' = Some v'
     \<longrightarrow> drop 8 v = drop 8 v' \<longrightarrow> k = k')"

text \<open>Every debit spends a credit that is there.  While a block is being detached this fails.\<close>

definition debits_backed :: "store \<Rightarrow> bool" where
  "debits_backed ns \<longleftrightarrow> (\<forall>k v. bucketGet (sDebits ns) k = Some v \<longrightarrow> bucketGet (sCredits ns) (drop 8 v) \<noteq> None)"

definition unspent_complete :: "store \<Rightarrow> bool" where
  "unspent_complete ns \<longleftrightarrow> (\<forall>h i b cv. creditAt ns h i b = Some cv \<longrightarrow> \<not> flagSpent cv \<longrightarrow> uint64_of cv \<noteq> 0
     \<longrightarrow> unspentAt ns h i \<noteq> None)"

definition books :: "env \<Rightarrow> store \<Rightarrow> minedMap \<Rightarrow> bool" where
  "books E ns M \<longleftrightarrow> credits_hold ns M \<and> debits_hold E ns M \<and> debits_unique ns \<and> unspent_complete ns"

lemma drop_valueDebit [simp]: "drop 8 (valueDebit a (keyCredit h i b)) = keyCredit h i b"
  by (simp add: valueDebit_def copyN_def)

lemma input_debit_mono:
  assumes "input_debit ns op v"
    and "\<And>cv. bucketGet (sCredits ns') (drop 8 v) = Some cv \<Longrightarrow> bucketGet (sCredits ns) (drop 8 v) = Some cv"
  shows "input_debit ns' op v"
proof -
  obtain amt b where "v = valueDebit amt (keyCredit (opHash op) (opIndex op) b)"
    "\<forall>cv. creditAt ns (opHash op) (opIndex op) b = Some cv \<longrightarrow> flagSpent cv \<and> uint64_of cv = amt"
    using assms(1) unfolding input_debit_def by blast
  then show ?thesis using assms(2) unfolding input_debit_def creditAt_def
    by (intro exI[of _ amt] exI[of _ b]) simp
qed

lemma books_cong:
  assumes "sCredits ns' = sCredits ns" "sUnspent ns' = sUnspent ns" "sDebits ns' = sDebits ns"
  shows "books E ns' M = books E ns M" "debits_backed ns' = debits_backed ns"
  using assms
  by (simp_all add: books_def credits_hold_def debits_hold_def input_debit_def debits_unique_def
      unspent_complete_def creditAt_def unspentAt_def debits_backed_def)

lemma creditAt_mined:
  assumes "books E ns M" "creditAt ns h i b = Some cv"
  obtains tx where "M h = Some (b, tx)" "output_credit tx i cv"
  using assms unfolding books_def credits_hold_def creditAt_def by (metis keyCredit_inj)

lemma creditAt_length:
  assumes "books E ns M" "creditAt ns h i b = Some cv" shows "9 \<le> length cv"
  by (rule creditAt_mined[OF assms]) (simp add: output_credit_def)

lemma creditAt_block:
  "books E ns M \<Longrightarrow> creditAt ns h i b = Some cv \<Longrightarrow> creditAt ns h i b' = Some cv' \<Longrightarrow> b = b'"
  by (metis creditAt_mined option.inject prod.inject)

lemma debit_get:
  assumes "books E ns M" "bucketGet (sDebits ns) (keyDebit h j b) = Some v"
  obtains tx amt b' where "M h = Some (b, tx)" "unat j < length (TxIn tx)" "\<not> isCoinBaseTx E tx"
    "v = valueDebit amt (keyCredit (opHash (PreviousOutPoint (TxIn tx ! unat j)))
       (opIndex (PreviousOutPoint (TxIn tx ! unat j))) b')"
    "\<And>cv. creditAt ns (opHash (PreviousOutPoint (TxIn tx ! unat j)))
       (opIndex (PreviousOutPoint (TxIn tx ! unat j))) b' = Some cv \<Longrightarrow> flagSpent cv \<and> uint64_of cv = amt"
proof -
  obtain op where op: "debit_of E M (keyDebit h j b) op" "input_debit ns op v"
    using assms unfolding books_def debits_hold_def by blast
  obtain tx where tx: "M h = Some (b, tx)" "unat j < length (TxIn tx)" "\<not> isCoinBaseTx E tx"
    "op = PreviousOutPoint (TxIn tx ! unat j)"
    using op(1) by (auto simp: debit_of_def keyDebit_eq)
  then show thesis using op(2) that[OF tx(1-3)] unfolding input_debit_def by blast
qed

text \<open>What an entry of the unspent index stands for.\<close>

lemma unspentAt_mined:
  assumes "books E ns M" "ledger ns bal" "unspentAt ns h i = Some v"
  obtains b tx cv where "v = valueUnspent b" "M h = Some (b, tx)" "creditAt ns h i b = Some cv"
    "\<not> flagSpent cv" "output_credit tx i cv" "length cv = 9"
proof -
  obtain b cv where 1: "v = valueUnspent b" "creditAt ns h i b = Some cv" "\<not> flagSpent cv"
    using assms(2,3) ledgerD[of ns bal "canonicalOutPoint h i" v] unfolding unspentAt_def
    by (metis canonicalOutPoint_inj)
  obtain tx where "M h = Some (b, tx)" "output_credit tx i cv" by (rule creditAt_mined[OF assms(1) 1(2)])
  then show thesis using that 1 by (simp add: output_credit_def)
qed

lemma unspentAt_spendable:
  assumes "books E ns M" "ledger ns bal" "unspentAt ns (opHash op) (opIndex op) = Some v"
  obtains b cv where "spendable ns op b cv" "v = valueUnspent b"
  using unspentAt_mined[OF assms] assms(3) unfolding spendable_def by metis

text \<open>A credit that is marked spent, or has been deleted, has no entry in the index.\<close>

lemma flagged_unspentAt:
  assumes "books E ns M" "ledger ns bal" "creditAt ns h i b = Some cv" "flagSpent cv"
  shows "unspentAt ns h i = None"
proof (rule ccontr)
  assume "unspentAt ns h i \<noteq> None"
  then obtain v where "unspentAt ns h i = Some v" by blast
  then obtain b' cv' where "creditAt ns h i b' = Some cv'" "\<not> flagSpent cv'"
    using unspentAt_mined[OF assms(1,2)] by metis
  then show False using assms creditAt_block[OF assms(1,3)] by force
qed

section \<open>The balance under elementary changes\<close>

lemma ledger_credits:
  assumes l: "ledger ns bal" and u: "sUnspent ns' = sUnspent ns"
    and c: "\<And>h i b cv. unspentAt ns h i = Some (valueUnspent b) \<Longrightarrow> creditAt ns' h i b = creditAt ns h i b"
  shows "ledger ns' bal"
proof -
  have wf: "ledger_wf ns'"
    unfolding ledger_wf_def
  proof (intro allI impI)
    fix k v assume "bucketGet (sUnspent ns') k = Some v"
    then have "bucketGet (sUnspent ns) k = Some v" using u by simp
    from ledgerD[OF l this] obtain h i b cv where p: "k = canonicalOutPoint h i" "v = valueUnspent b"
      "creditAt ns h i b = Some cv" "9 \<le> length cv" "\<not> flagSpent cv" .
    then have "creditAt ns' h i b = Some cv" using c[of h i b] \<open>bucketGet (sUnspent ns) k = Some v\<close>
      by (simp add: unspentAt_def)
    then show "unspentEntry ns' k v" using p unfolding unspentEntry_def by blast
  qed
  have "unspentTotal ns' = unspentTotal ns"
    unfolding unspentTotal_def u
  proof (rule unspentAmount_sum)
    fix k v assume g: "bucketGet (sUnspent ns) k = Some v"
    from ledgerD[OF l g] obtain h i b where "k = canonicalOutPoint h i" "v = valueUnspent b" by metis
    then show "bucketGet (sCredits ns') (unspentCredKey k v) = bucketGet (sCredits ns) (unspentCredKey k v)"
      using c[of h i b] g by (simp add: unspentAt_def creditAt_def)
  qed
  then show ?thesis using wf l by (simp add: ledger_def)
qed

lemma ledger_put:
  assumes l: "ledger ns bal" and n: "unspentAt ns h i = None"
    and c: "creditAt ns h i b = Some cv" "9 \<le> length cv" "\<not> flagSpent cv"
    and u: "sCredits ns' = sCredits ns" "sUnspent ns' = bucketPut (sUnspent ns) (canonicalOutPoint h i) (valueUnspent b)"
  shows "ledger ns' (bal + uint64_of cv)"
proof -
  let ?k = "canonicalOutPoint h i"
  have cr: "creditAt ns' = creditAt ns" by (simp add: creditAt_def u fun_eq_iff)
  have am: "unspentAmount ns' = unspentAmount ns" by (simp add: unspentAmount_def u fun_eq_iff)
  have "ledger_wf ns'"
    unfolding ledger_wf_def
  proof (intro allI impI)
    fix k v assume a: "bucketGet (sUnspent ns') k = Some v"
    show "unspentEntry ns' k v"
    proof (cases "k = ?k")
      case True
      then have "v = valueUnspent b" using a by (simp add: u)
      then show ?thesis using True c unfolding unspentEntry_def cr by blast
    next
      case False
      then have "bucketGet (sUnspent ns) k = Some v" using a by (simp add: u)
      then have "unspentEntry ns k v" using l by (simp add: ledger_def ledger_wf_def)
      then show ?thesis unfolding unspentEntry_def cr .
    qed
  qed
  moreover have "unspentTotal ns' = unspentAmount ns (?k, valueUnspent b) + unspentTotal ns"
    unfolding unspentTotal_def u(2) am by (rule kv.sum_items_put) (use n in \<open>simp add: unspentAt_def\<close>)
  moreover have "unspentAmount ns (?k, valueUnspent b) = uint64_of cv"
    using c by (simp add: unspentAmount_def creditAt_def)
  ultimately show ?thesis using l by (simp add: ledger_def add.commute)
qed

lemma ledger_delete:
  assumes l: "ledger ns bal" and n: "unspentAt ns h i = Some (valueUnspent b)"
    and c: "creditAt ns h i b = Some cv"
    and u: "sCredits ns' = sCredits ns" "sUnspent ns' = bucketDelete (sUnspent ns) (canonicalOutPoint h i)"
  shows "ledger ns' (bal - uint64_of cv)"
proof -
  let ?k = "canonicalOutPoint h i"
  have cr: "creditAt ns' = creditAt ns" by (simp add: creditAt_def u fun_eq_iff)
  have am: "unspentAmount ns' = unspentAmount ns" by (simp add: unspentAmount_def u fun_eq_iff)
  have "ledger_wf ns'"
    using l unfolding ledger_def ledger_wf_def unspentEntry_def cr u by (auto simp: bucketGet_upd split: if_splits)
  moreover have "unspentTotal ns = unspentAmount ns (?k, valueUnspent b) + unspentTotal ns'"
    unfolding unspentTotal_def u(2) am by (rule kv.sum_items_del) (use n in \<open>simp add: unspentAt_def\<close>)
  moreover have "unspentAmount ns (?k, valueUnspent b) = uint64_of cv"
    using c by (simp add: unspentAmount_def creditAt_def)
  ultimately show ?thesis using l by (auto simp: ledger_def eq_diff_eq add.commute)
qed

section \<open>Spending an output\<close>

definition spendStore :: "store \<Rightarrow> outPoint \<Rightarrow> block \<Rightarrow> bytes \<Rightarrow> indexedIncidence \<Rightarrow> store" where
  "spendStore ns op b cv sp =
     (let ck = keyCredit (opHash op) (opIndex op) b in
      ns\<lparr>sCredits := bucketPut (sCredits ns) ck (valueSpentCredit cv sp),
         sDebits := bucketPut (sDebits ns) (keyDebit (incTxHash sp) (incIndex sp) (incBlock sp)) (valueDebit (uint64_of cv) ck),
         sUnspent := bucketDelete (sUnspent ns) (canonicalOutPoint (opHash op) (opIndex op))\<rparr>)"

lemma spendInput_spendStore:
  assumes "db_ok E" "spendable ns (PreviousOutPoint inp) b cv"
  shows "spendInput E rec block (i, inp) (ns, bal) = Inr (spendStore ns (PreviousOutPoint inp) b cv
    \<lparr>incTxHash = Hash rec, incBlock = metaBlock block, incIndex = i\<rparr>, bal - uint64_of cv)"
  using spendInput_eq[OF assms, of rec block i bal] by (simp add: spendStore_def Let_def)

lemma creditAt_spendStore:
  "creditAt (spendStore ns op b cv sp) h i b' = (if h = opHash op \<and> i = opIndex op \<and> b' = b
     then Some (valueSpentCredit cv sp) else creditAt ns h i b')"
  by (simp add: creditAt_def spendStore_def Let_def bucketGet_upd)

lemma unspentAt_spendStore:
  "unspentAt (spendStore ns op b cv sp) h i = (if h = opHash op \<and> i = opIndex op then None else unspentAt ns h i)"
  by (simp add: unspentAt_def spendStore_def Let_def bucketGet_upd)

lemma sDebits_spendStore:
  "sDebits (spendStore ns op b cv sp) = bucketPut (sDebits ns) (keyDebit (incTxHash sp) (incIndex sp) (incBlock sp))
     (valueDebit (uint64_of cv) (keyCredit (opHash op) (opIndex op) b))"
  by (simp add: spendStore_def Let_def)

lemma spendable_no_debit:
  assumes "books E ns M" "spendable ns op b cv" "bucketGet (sDebits ns) k = Some v"
  shows "drop 8 v \<noteq> keyCredit (opHash op) (opIndex op) b"
proof
  assume "drop 8 v = keyCredit (opHash op) (opIndex op) b"
  moreover obtain op' where "input_debit ns op' v"
    using assms(1,3) unfolding books_def debits_hold_def by blast
  ultimately show False using assms(2) by (auto simp: input_debit_def spendable_def)
qed

lemma books_spendStore:
  assumes bk: "books E ns M" and s: "spendable ns op b cv"
    and d: "debit_of E M (keyDebit (incTxHash sp) (incIndex sp) (incBlock sp)) op"
  shows "books E (spendStore ns op b cv sp) M"
proof -
  let ?ns' = "spendStore ns op b cv sp"
  let ?ck = "keyCredit (opHash op) (opIndex op) b"
  have cv: "creditAt ns (opHash op) (opIndex op) b = Some cv" "length cv = 9" "\<not> flagSpent cv"
    using s by (auto simp: spendable_def)
  note f = valueSpentCredit_fields[of cv sp]
  have "credits_hold ?ns' M"
    unfolding credits_hold_def
  proof (intro allI impI)
    fix k w assume a: "bucketGet (sCredits ?ns') k = Some w"
    show "\<exists>h i b tx. k = keyCredit h i b \<and> M h = Some (b, tx) \<and> output_credit tx i w"
    proof (cases "k = ?ck")
      case True
      then have w: "w = valueSpentCredit cv sp" using a by (simp add: spendStore_def Let_def)
      obtain tx where "M (opHash op) = Some (b, tx)" "output_credit tx (opIndex op) cv" by (rule creditAt_mined[OF bk cv(1)])
      then have "output_credit tx (opIndex op) w" using f cv by (simp add: w output_credit_def)
      then show ?thesis using True \<open>M (opHash op) = _\<close> by blast
    next
      case False
      then have "bucketGet (sCredits ns) k = Some w" using a by (simp add: spendStore_def Let_def)
      then show ?thesis using bk by (simp add: books_def credits_hold_def)
    qed
  qed
  moreover have "debits_hold E ?ns' M"
    unfolding debits_hold_def
  proof (intro allI impI)
    fix k v assume a: "bucketGet (sDebits ?ns') k = Some v"
    show "\<exists>op. debit_of E M k op \<and> input_debit ?ns' op v"
    proof (cases "k = keyDebit (incTxHash sp) (incIndex sp) (incBlock sp)")
      case True
      then have "input_debit ?ns' op v" using a f cv by (auto simp: sDebits_spendStore input_debit_def creditAt_spendStore)
      then show ?thesis using d True by blast
    next
      case False
      then have g: "bucketGet (sDebits ns) k = Some v" using a by (simp add: sDebits_spendStore)
      obtain op' where op': "debit_of E M k op'" "input_debit ns op' v"
        using g bk unfolding books_def debits_hold_def by blast
      have "input_debit ?ns' op' v"
        using spendable_no_debit[OF bk s g]
        by (intro input_debit_mono[OF op'(2)]) (simp add: spendStore_def Let_def bucketGet_upd)
      then show ?thesis using op'(1) by blast
    qed
  qed
  moreover have "debits_unique ?ns'"
    using bk spendable_no_debit[OF bk s]
    by (auto simp: debits_unique_def sDebits_spendStore bucketGet_upd books_def dest!: sym[of "keyCredit _ _ _"])
  moreover have "unspent_complete ?ns'"
    unfolding unspent_complete_def
  proof (intro allI impI)
    fix h i b' w assume a: "creditAt ?ns' h i b' = Some w" "\<not> flagSpent w" "uint64_of w \<noteq> 0"
    then have "creditAt ns h i b' = Some w" and ne: "\<not> (h = opHash op \<and> i = opIndex op \<and> b' = b)"
      using f cv by (auto simp: creditAt_spendStore split: if_splits)
    then have "\<not> (h = opHash op \<and> i = opIndex op)" using creditAt_block[OF bk cv(1)] by auto
    moreover have "unspentAt ns h i \<noteq> None"
      using bk a \<open>creditAt ns h i b' = Some w\<close> by (auto simp: books_def unspent_complete_def)
    ultimately show "unspentAt ?ns' h i \<noteq> None" by (simp add: unspentAt_spendStore)
  qed
  ultimately show ?thesis by (simp add: books_def)
qed

section \<open>Adding a credit\<close>

lemma addUnspent_at:
  "creditAt (addUnspent ns c) h i b = (if h = opHash (credOutPoint c) \<and> i = opIndex (credOutPoint c) \<and> b = credBlock c
     then Some (valueUnspentCredit c) else creditAt ns h i b)"
  "unspentAt (addUnspent ns c) h i = (if h = opHash (credOutPoint c) \<and> i = opIndex (credOutPoint c)
     then Some (valueUnspent (credBlock c)) else unspentAt ns h i)"
  "sDebits (addUnspent ns c) = sDebits ns"
  by (auto simp: creditAt_def unspentAt_def addUnspent_def Let_def bucketGet_upd)

lemma valueUnspentCredit_output:
  "unat i < length (TxOut tx) \<Longrightarrow> credAmount c = Value (TxOut tx ! unat i) \<Longrightarrow> output_credit tx i (valueUnspentCredit c)"
  by (simp add: output_credit_def)

lemma books_addUnspent:
  assumes bk: "books E ns M" and db: "debits_backed ns"
    and n: "no_credit ns (opHash (credOutPoint c)) (opIndex (credOutPoint c))"
    and M: "M (opHash (credOutPoint c)) = Some (credBlock c, tx)"
    and i: "unat (opIndex (credOutPoint c)) < length (TxOut tx)"
      "credAmount c = Value (TxOut tx ! unat (opIndex (credOutPoint c)))"
  shows "books E (addUnspent ns c) M" "debits_backed (addUnspent ns c)"
proof -
  let ?ns' = "addUnspent ns c" and ?op = "credOutPoint c"
  let ?ck = "keyCredit (opHash ?op) (opIndex ?op) (credBlock c)"
  have sC: "sCredits ?ns' = bucketPut (sCredits ns) ?ck (valueUnspentCredit c)" by (simp add: addUnspent_def Let_def)
  have nk: "bucketGet (sCredits ns) ?ck = None" using n by (simp add: no_credit_def creditAt_def)
  have "credits_hold ?ns' M"
    using bk M valueUnspentCredit_output[OF i] by (auto simp: credits_hold_def books_def sC bucketGet_upd)
  moreover have "debits_hold E ?ns' M"
    unfolding debits_hold_def addUnspent_at
  proof (intro allI impI)
    fix k v assume g: "bucketGet (sDebits ns) k = Some v"
    then obtain op where op: "debit_of E M k op" "input_debit ns op v"
      using bk unfolding books_def debits_hold_def by blast
    have "drop 8 v \<noteq> ?ck" using db g nk unfolding debits_backed_def by metis
    then have "input_debit ?ns' op v" by (intro input_debit_mono[OF op(2)]) (simp add: sC)
    then show "\<exists>op. debit_of E M k op \<and> input_debit ?ns' op v" using op(1) by blast
  qed
  moreover have "debits_unique ?ns'" using bk by (simp add: books_def debits_unique_def addUnspent_at)
  moreover have "unspent_complete ?ns'"
    using bk by (auto simp: books_def unspent_complete_def addUnspent_at split: if_splits)
  ultimately show "books E ?ns' M" by (simp add: books_def)
  show "debits_backed ?ns'" using db by (auto simp: debits_backed_def addUnspent_at sC bucketGet_upd)
qed

section \<open>Giving an output back\<close>

definition restoreStore :: "store \<Rightarrow> outPoint \<Rightarrow> block \<Rightarrow> bytes \<Rightarrow> bytes \<Rightarrow> store" where
  "restoreStore ns op b cv dk =
     ns\<lparr>sCredits := bucketPut (sCredits ns) (keyCredit (opHash op) (opIndex op) b) (valueRestoredCredit cv),
        sDebits := bucketDelete (sDebits ns) dk,
        sUnspent := (if uint64_of cv = 0 then sUnspent ns
          else bucketPut (sUnspent ns) (canonicalOutPoint (opHash op) (opIndex op)) (valueUnspent b))\<rparr>"

lemma restoreStore_at:
  "creditAt (restoreStore ns op b cv dk) h i b' = (if h = opHash op \<and> i = opIndex op \<and> b' = b
     then Some (valueRestoredCredit cv) else creditAt ns h i b')"
  "unspentAt (restoreStore ns op b cv dk) h i = (if h = opHash op \<and> i = opIndex op \<and> uint64_of cv \<noteq> 0
     then Some (valueUnspent b) else unspentAt ns h i)"
  "sDebits (restoreStore ns op b cv dk) = bucketDelete (sDebits ns) dk"
  by (auto simp: creditAt_def unspentAt_def restoreStore_def bucketGet_upd)

lemma ledger_restoreStore:
  assumes bk: "books E ns M" and l: "ledger ns bal"
    and c: "creditAt ns (opHash op) (opIndex op) b = Some cv" "flagSpent cv"
  shows "ledger (restoreStore ns op b cv dk) (bal + uint64_of cv)"
proof -
  let ?ns' = "restoreStore ns op b cv dk"
  let ?ns1 = "ns\<lparr>sCredits := bucketPut (sCredits ns) (keyCredit (opHash op) (opIndex op) b) (valueRestoredCredit cv)\<rparr>"
  have cv9: "9 \<le> length cv" by (rule creditAt_length[OF bk c(1)])
  note f = valueRestoredCredit_fields[OF cv9]
  have un: "unspentAt ns (opHash op) (opIndex op) = None" by (rule flagged_unspentAt[OF bk l c])
  have l1: "ledger ?ns1 bal"
  proof (rule ledger_credits[OF l])
    fix h i b' assume "unspentAt ns h i = Some (valueUnspent b')"
    then have "keyCredit h i b' \<noteq> keyCredit (opHash op) (opIndex op) b" using un by auto
    then show "creditAt ?ns1 h i b' = creditAt ns h i b'" by (simp add: creditAt_def del: keyCredit_inj)
  qed simp
  show ?thesis
  proof (cases "uint64_of cv = 0")
    case True
    then show ?thesis using l1 ledger_cong[of ?ns' ?ns1] by (simp add: restoreStore_def)
  next
    case False
    have "unspentAt ?ns1 (opHash op) (opIndex op) = None" using un by (simp add: unspentAt_def)
    from ledger_put[OF l1 this, of b "valueRestoredCredit cv" ?ns'] False f
    show ?thesis by (simp add: restoreStore_def creditAt_def)
  qed
qed

lemma books_restoreStore:
  assumes bk: "books E ns M" and c: "creditAt ns (opHash op) (opIndex op) b = Some cv"
    and d: "bucketGet (sDebits ns) dk = Some (valueDebit amt (keyCredit (opHash op) (opIndex op) b))"
  shows "books E (restoreStore ns op b cv dk) M"
proof -
  let ?ns' = "restoreStore ns op b cv dk"
  let ?ck = "keyCredit (opHash op) (opIndex op) b"
  obtain tx where tx: "M (opHash op) = Some (b, tx)" "output_credit tx (opIndex op) cv" by (rule creditAt_mined[OF bk c])
  have cv9: "9 \<le> length cv" by (rule creditAt_length[OF bk c])
  note f = valueRestoredCredit_fields[OF cv9]
  have sC: "sCredits ?ns' = bucketPut (sCredits ns) ?ck (valueRestoredCredit cv)" by (simp add: restoreStore_def)
  have "output_credit tx (opIndex op) (valueRestoredCredit cv)" using tx(2) f by (simp add: output_credit_def)
  then have "credits_hold ?ns' M"
    using bk tx(1) by (auto simp: credits_hold_def books_def sC bucketGet_upd)
  moreover have "debits_hold E ?ns' M"
    unfolding debits_hold_def restoreStore_at
  proof (intro allI impI)
    fix k v assume a: "bucketGet (bucketDelete (sDebits ns) dk) k = Some v"
    then have g: "bucketGet (sDebits ns) k = Some v" and ne: "k \<noteq> dk" by (auto simp: bucketGet_upd split: if_splits)
    then obtain op' where op': "debit_of E M k op'" "input_debit ns op' v"
      using bk unfolding books_def debits_hold_def by blast
    have "debits_unique ns" using bk by (simp add: books_def)
    then have "drop 8 v \<noteq> ?ck" using g d ne unfolding debits_unique_def by (metis drop_valueDebit)
    then have "input_debit ?ns' op' v" by (intro input_debit_mono[OF op'(2)]) (simp add: sC)
    then show "\<exists>op. debit_of E M k op \<and> input_debit ?ns' op v" using op'(1) by blast
  qed
  moreover have "debits_unique ?ns'"
    using bk by (auto simp: books_def debits_unique_def restoreStore_at bucketGet_upd)
  moreover have "unspent_complete ?ns'"
    unfolding unspent_complete_def restoreStore_at
    using bk f by (auto simp: books_def unspent_complete_def split: if_splits)
  ultimately show ?thesis by (simp add: books_def)
qed

text \<open>A debit whose credit is gone is simply dropped.\<close>

lemma books_dropDebit:
  assumes "books E ns M"
  shows "books E (ns\<lparr>sDebits := bucketDelete (sDebits ns) dk\<rparr>) M"
  using assms
  by (auto simp: books_def credits_hold_def debits_hold_def input_debit_def debits_unique_def
      unspent_complete_def creditAt_def unspentAt_def bucketGet_upd)

section \<open>Deleting a credit\<close>

definition deleteStore :: "store \<Rightarrow> hash \<Rightarrow> u32 \<Rightarrow> block \<Rightarrow> store" where
  "deleteStore ns h i b = ns\<lparr>sCredits := bucketDelete (sCredits ns) (keyCredit h i b),
     sUnspent := bucketDelete (sUnspent ns) (canonicalOutPoint h i)\<rparr>"

lemma deleteStore_at:
  "creditAt (deleteStore ns h i b) h' i' b' = (if h' = h \<and> i' = i \<and> b' = b then None else creditAt ns h' i' b')"
  "unspentAt (deleteStore ns h i b) h' i' = (if h' = h \<and> i' = i then None else unspentAt ns h' i')"
  by (auto simp: creditAt_def unspentAt_def deleteStore_def bucketGet_upd)

lemma ledger_deleteStore:
  assumes bk: "books E ns M" and l: "ledger ns bal" and c: "creditAt ns h i b = Some cv"
  shows "ledger (deleteStore ns h i b) (if unspentAt ns h i = None then bal else bal - uint64_of cv)"
proof -
  let ?ns' = "deleteStore ns h i b"
  let ?ns1 = "ns\<lparr>sUnspent := bucketDelete (sUnspent ns) (canonicalOutPoint h i)\<rparr>"
  let ?bal = "if unspentAt ns h i = None then bal else bal - uint64_of cv"
  have l1: "ledger ?ns1 ?bal"
  proof (cases "unspentAt ns h i")
    case None
    then have "?ns1 = ns" by (simp add: unspentAt_def kv.del_absent)
    then show ?thesis using l None by simp
  next
    case (Some v)
    obtain b' cv' where v: "v = valueUnspent b'" "creditAt ns h i b' = Some cv'"
      by (rule unspentAt_mined[OF bk l Some])
    then have b: "b' = b" using creditAt_block[OF bk c v(2)] by simp
    have "unspentAt ns h i = Some (valueUnspent b)" using Some v b by simp
    from ledger_delete[OF l this c, of ?ns1] show ?thesis using Some by simp
  qed
  show ?thesis
  proof (rule ledger_credits[OF l1])
    fix h' i' b' assume "unspentAt ?ns1 h' i' = Some (valueUnspent b')"
    then have "\<not> (h' = h \<and> i' = i)" by (auto simp: unspentAt_def)
    then show "creditAt ?ns' h' i' b' = creditAt ?ns1 h' i' b'"
      by (auto simp: creditAt_def deleteStore_def bucketGet_upd)
  qed (simp add: deleteStore_def)
qed

lemma books_deleteStore:
  assumes bk: "books E ns M" and c: "creditAt ns h i b = Some cv"
  shows "books E (deleteStore ns h i b) M"
proof -
  let ?ns' = "deleteStore ns h i b"
  have sC: "sCredits ?ns' = bucketDelete (sCredits ns) (keyCredit h i b)" "sDebits ?ns' = sDebits ns"
    by (simp_all add: deleteStore_def)
  have "credits_hold ?ns' M" using bk by (auto simp: books_def credits_hold_def sC bucketGet_upd)
  moreover have "debits_hold E ?ns' M"
    unfolding debits_hold_def sC(2)
  proof (intro allI impI)
    fix k v assume "bucketGet (sDebits ns) k = Some v"
    then obtain op where op: "debit_of E M k op" "input_debit ns op v"
      using bk unfolding books_def debits_hold_def by blast
    have "input_debit ?ns' op v"
      by (rule input_debit_mono[OF op(2)]) (auto simp: sC bucketGet_upd split: if_splits)
    then show "\<exists>op. debit_of E M k op \<and> input_debit ?ns' op v" using op(1) by blast
  qed
  moreover have "debits_unique ?ns'" using bk by (simp add: books_def debits_unique_def sC)
  moreover have "unspent_complete ?ns'"
    unfolding unspent_complete_def
  proof (intro allI impI)
    fix h' i' b' w assume a: "creditAt ?ns' h' i' b' = Some w" "\<not> flagSpent w" "uint64_of w \<noteq> 0"
    then have g: "creditAt ns h' i' b' = Some w" and ne: "\<not> (h' = h \<and> i' = i \<and> b' = b)"
      by (auto simp: deleteStore_at split: if_splits)
    have "\<not> (h' = h \<and> i' = i)" using creditAt_block[OF bk c, of b' w] g ne by auto
    moreover have "unspentAt ns h' i' \<noteq> None" using bk g a by (auto simp: books_def unspent_complete_def)
    ultimately show "unspentAt ?ns' h' i' \<noteq> None" by (simp add: deleteStore_at)
  qed
  ultimately show ?thesis by (simp add: books_def)
qed

section \<open>Forgetting a transaction\<close>

text \<open>Once a transaction has neither credits nor debits it can leave the map.\<close>

lemma books_forget:
  assumes bk: "books E ns M" and c: "\<And>i b. creditAt ns h i b = None"
    and d: "\<And>j b. bucketGet (sDebits ns) (keyDebit h j b) = None"
  shows "books E ns (M(h := None))"
proof -
  have "credits_hold ns (M(h := None))"
    unfolding credits_hold_def
  proof (intro allI impI)
    fix k cv assume g: "bucketGet (sCredits ns) k = Some cv"
    then obtain g i b tx where p: "k = keyCredit g i b" "M g = Some (b, tx)" "output_credit tx i cv"
      using bk unfolding books_def credits_hold_def by blast
    then have "g \<noteq> h" using c[of i b] g by (auto simp: creditAt_def)
    then show "\<exists>g i b tx. k = keyCredit g i b \<and> (M(h := None)) g = Some (b, tx) \<and> output_credit tx i cv"
      using p by auto
  qed
  moreover have "debits_hold E ns (M(h := None))"
    unfolding debits_hold_def
  proof (intro allI impI)
    fix k v assume kv: "bucketGet (sDebits ns) k = Some v"
    then obtain op where op: "debit_of E M k op" "input_debit ns op v"
      using bk unfolding books_def debits_hold_def by blast
    obtain g j b tx where p: "k = keyDebit g j b" "M g = Some (b, tx)" "unat j < length (TxIn tx)"
      "\<not> isCoinBaseTx E tx" "op = PreviousOutPoint (TxIn tx ! unat j)" using op(1) unfolding debit_of_def by blast
    then have "g \<noteq> h" using d[of j b] kv by auto
    then have "debit_of E (M(h := None)) k op" using p unfolding debit_of_def by (metis fun_upd_other)
    then show "\<exists>op. debit_of E (M(h := None)) k op \<and> input_debit ns op v" using op(2) by blast
  qed
  ultimately show ?thesis using bk by (simp add: books_def)
qed

lemma books_extend:
  assumes bk: "books E ns M" and h: "M h = None"
  shows "books E ns (M(h \<mapsto> x))"
proof -
  have "credits_hold ns (M(h \<mapsto> x))" using bk h unfolding books_def credits_hold_def
    by (metis fun_upd_other option.distinct(1))
  moreover have "debit_of E (M(h \<mapsto> x)) k op" if "debit_of E M k op" for k op
    using that h unfolding debit_of_def by (metis fun_upd_other option.distinct(1))
  then have "debits_hold E ns (M(h \<mapsto> x))" using bk unfolding books_def debits_hold_def by blast
  ultimately show ?thesis using bk by (simp add: books_def)
qed

end
