(* ===== verification/Store_Inv.thy ===== *)
theory Store_Inv
  imports Store_Books Tx_Listing
begin

text \<open>
  The invariant of the whole transaction store: what every bucket holds, given the mined transactions
  \<open>M\<close> (with their blocks) and the unmined transactions \<open>U\<close>, and that recording a
  transaction or a credit keeps it.
\<close>

section \<open>The invariant\<close>

text \<open>
  What is assumed of a transaction with hash \<open>h\<close>: the hash is not zero, the lists of its inputs and
  outputs fit the 32-bit indexes, a coinbase refers to the zero hash only, and it spends from
  transactions of a lower rank.  A rank exists because the hash of a transaction is computed from the
  hashes it spends from.
\<close>

definition wf_tx :: "env \<Rightarrow> (hash \<Rightarrow> nat) \<Rightarrow> hash \<Rightarrow> msgTx \<Rightarrow> bool" where
  "wf_tx E r h tx \<longleftrightarrow> h \<noteq> 0 \<and> length (TxIn tx) < 2 ^ 32 \<and> length (TxOut tx) < 2 ^ 32
     \<and> (\<forall>inp \<in> set (TxIn tx). r (opHash (PreviousOutPoint inp)) < r h)
     \<and> (isCoinBaseTx E tx \<longrightarrow> (\<forall>inp \<in> set (TxIn tx). opHash (PreviousOutPoint inp) = 0))"

text \<open>A transaction is never mined below one it spends from.\<close>

definition ordered :: "minedMap \<Rightarrow> bool" where
  "ordered M \<longleftrightarrow> (\<forall>h b tx inp b' tx'. M h = Some (b, tx) \<longrightarrow> inp \<in> set (TxIn tx)
     \<longrightarrow> M (opHash (PreviousOutPoint inp)) = Some (b', tx') \<longrightarrow> bHeight b' \<le>s bHeight b)"

definition chain_wf :: "env \<Rightarrow> (hash \<Rightarrow> nat) \<Rightarrow> minedMap \<Rightarrow> txMap \<Rightarrow> bool" where
  "chain_wf E r M U \<longleftrightarrow> (\<forall>h. M h = None \<or> U h = None) \<and> (\<forall>h b tx. M h = Some (b, tx) \<longrightarrow> wf_tx E r h tx)
     \<and> (\<forall>h tx. U h = Some tx \<longrightarrow> wf_tx E r h tx) \<and> ordered M"

definition mined_holds :: "env \<Rightarrow> store \<Rightarrow> minedMap \<Rightarrow> bool" where
  "mined_holds E ns M \<longleftrightarrow>
     (\<forall>k v. bucketGet (sTxRecords ns) k = Some v \<longrightarrow> (\<exists>h b tx. k = keyTxRecord h b \<and> M h = Some (b, tx)))
     \<and> (\<forall>h b tx. M h = Some (b, tx) \<longrightarrow> (\<exists>v r. bucketGet (sTxRecords ns) (keyTxRecord h b) = Some v
          \<and> readRawTxRecord E h v = Inr r \<and> MsgTx r = tx))"

definition block_holds :: "minedMap \<Rightarrow> bytes \<Rightarrow> bytes \<Rightarrow> blockRecord \<Rightarrow> bool" where
  "block_holds M k v b \<longleftrightarrow> k = keyBlockRecord (bHeight (recBlock b)) \<and> 0 \<le>s bHeight (recBlock b)
     \<and> readRawBlockRecord k v = Inr b \<and> block_value_ok v \<and> distinct (recTransactions b)
     \<and> recTransactions b \<noteq> []
     \<and> set (recTransactions b) = {h. \<exists>tx. M h = Some (recBlock b, tx)}"

definition blocks_hold :: "store \<Rightarrow> minedMap \<Rightarrow> bool" where
  "blocks_hold ns M \<longleftrightarrow> (\<forall>k v. bucketGet (sBlocks ns) k = Some v \<longrightarrow> (\<exists>b. block_holds M k v b))
     \<and> (\<forall>h b tx. M h = Some (b, tx) \<longrightarrow> (\<exists>v r. bucketGet (sBlocks ns) (keyBlockRecord (bHeight b)) = Some v
          \<and> block_holds M (keyBlockRecord (bHeight b)) v r \<and> recBlock r = b))"

definition unmined_credits :: "store \<Rightarrow> txMap \<Rightarrow> bool" where
  "unmined_credits ns U \<longleftrightarrow> (\<forall>h i v. bucketGet (sUnminedCredits ns) (canonicalOutPoint h i) = Some v \<longrightarrow>
     (\<exists>tx ch. U h = Some tx \<and> unat i < length (TxOut tx) \<and> v = valueUnminedCredit (Value (TxOut tx ! unat i)) ch))"

definition wallet_inv :: "env \<Rightarrow> (hash \<Rightarrow> nat) \<Rightarrow> store \<Rightarrow> minedMap \<Rightarrow> txMap \<Rightarrow> bool" where
  "wallet_inv E r ns M U \<longleftrightarrow> store_inv E ns U \<and> books E ns M \<and> debits_backed ns \<and> mined_holds E ns M
     \<and> blocks_hold ns M \<and> unmined_credits ns U \<and> leases_wf ns \<and> chain_wf E r M U"

lemma wallet_invD:
  assumes "wallet_inv E r ns M U"
  shows "store_inv E ns U" "mempool E ns U" "ledger_ok ns" "unminedCredits_wf ns" "books E ns M" "debits_backed ns"
    "mined_holds E ns M" "blocks_hold ns M" "unmined_credits ns U" "leases_wf ns" "chain_wf E r M U"
  using assms by (simp_all add: wallet_inv_def store_inv_def)

lemma indexed_mem:
  assumes "length xs < 2 ^ 32"
  shows "(i, x) \<in> set (indexed xs) \<longleftrightarrow> unat i < length xs \<and> x = xs ! unat i"
proof -
  have "unat (word_of_nat n :: 32 word) = n" if "n < length xs" for n
    using that assms by (simp add: unat_of_nat)
  then show ?thesis by (auto simp: set_indexed intro!: exI[of _ "unat i"])
qed

lemma distinct_indexed: "length xs < 2 ^ 32 \<Longrightarrow> distinct (map fst (indexed xs))"
proof -
  assume l: "length xs < 2 ^ 32"
  have "inj_on (word_of_nat :: nat \<Rightarrow> 32 word) {0..<length xs}"
    using l by (intro inj_onI) (simp add: word_of_nat_eq_iff take_bit_eq_mod)
  then show ?thesis by (simp add: indexed_def comp_def distinct_map)
qed

text \<open>The spending relation of transactions with ranks has no cycles.\<close>

lemma ranked_acyclic:
  assumes "\<And>h tx. U h = Some tx \<Longrightarrow> wf_tx E r h tx"
  shows "acyclic (spend_rel U)"
proof (rule acyclic_subset)
  show "spend_rel U \<subseteq> measure r"
    using assms by (auto simp: spend_rel_def spenders_def outputKeys_def inputKeys_def inputKey_def wf_tx_def)
  show "acyclic (measure r)" by (simp add: wf_acyclic)
qed

lemma wallet_acyclic: "wallet_inv E r ns M U \<Longrightarrow> acyclic (spend_rel U)"
  by (rule ranked_acyclic) (auto simp: wallet_inv_def chain_wf_def)

lemma M_zero: "chain_wf E r M U \<Longrightarrow> M 0 = None"
  unfolding chain_wf_def wf_tx_def by (metis not_Some_eq surj_pair)

section \<open>Recording a mined transaction\<close>

lemma spendInput_books:
  assumes "db_ok E" and s: "spendInput E rec block (i, inp) (ns, bal) = Inr (ns', bal')"
    and l: "ledger ns bal" and bk: "books E ns M"
    and h: "M (Hash rec) = Some (metaBlock block, MsgTx rec)" and i: "(i, inp) \<in> set (indexed (TxIn (MsgTx rec)))"
    and wf: "wf_tx E r (Hash rec) (MsgTx rec)" "M 0 = None"
  shows "books E ns' M" "debits_backed ns \<Longrightarrow> debits_backed ns'"
proof -
  have "books E ns' M \<and> (debits_backed ns \<longrightarrow> debits_backed ns')"
  proof (cases "unspentAt ns (opHash (PreviousOutPoint inp)) (opIndex (PreviousOutPoint inp))")
    case None
    then have "ns' = ns" using s by (simp add: spendInput_def existsUnspent_ledger[OF l])
    then show ?thesis using bk by simp
  next
    case (Some v)
    obtain b cv where sp: "spendable ns (PreviousOutPoint inp) b cv" by (rule unspentAt_spendable[OF bk l Some])
    let ?sp = "\<lparr>incTxHash = Hash rec, incBlock = metaBlock block, incIndex = i\<rparr>"
    have ns': "ns' = spendStore ns (PreviousOutPoint inp) b cv ?sp"
      using s spendInput_spendStore[OF assms(1) sp] by simp
    have n: "length (TxIn (MsgTx rec)) < 2 ^ 32" using wf by (simp add: wf_tx_def)
    have i': "unat i < length (TxIn (MsgTx rec))" "inp = TxIn (MsgTx rec) ! unat i"
      using i indexed_mem[OF n, of i inp] by auto
    have "M (opHash (PreviousOutPoint inp)) \<noteq> None" by (rule unspentAt_mined[OF bk l Some]) simp
    moreover have "inp \<in> set (TxIn (MsgTx rec))" using i' by simp
    ultimately have "\<not> isCoinBaseTx E (MsgTx rec)" using wf by (auto simp: wf_tx_def)
    then have "debit_of E M (keyDebit (incTxHash ?sp) (incIndex ?sp) (incBlock ?sp)) (PreviousOutPoint inp)"
      using h i' unfolding debit_of_def by auto
    from books_spendStore[OF bk sp this] have "books E ns' M" by (simp add: ns')
    moreover have "debits_backed ns'" if "debits_backed ns"
      using that by (auto simp: ns' debits_backed_def spendStore_def Let_def bucketGet_upd)
    ultimately show ?thesis by blast
  qed
  then show "books E ns' M" "debits_backed ns \<Longrightarrow> debits_backed ns'" by blast+
qed

lemma spendInput_frame:
  assumes "spendInput E rec block ii (ns, bal) = Inr (ns', bal')"
  shows "ns' = ns\<lparr>sCredits := sCredits ns', sUnspent := sUnspent ns', sDebits := sDebits ns'\<rparr>"
  using assms
  by (auto simp: spendInput_def spendCredit_def putRawCredit_def putDebit_def deleteRawUnspent_def Let_def
      split: prod.splits option.splits)

text \<open>The unmined credits of one transaction, as the iterator delivers them.\<close>

lemma unminedCredits_run:
  assumes "unminedCredits_wf ns"
    and cs_def: "cs = fst (iterRun unminedCreditIterator_readElem (makeUnminedCreditIterator ns h))"
  shows "distinct (map fst cs)"
    and "(k, v, el) \<in> set cs \<Longrightarrow> bucketGet (sUnminedCredits ns) k = Some v
      \<and> (\<exists>i a ch. k = canonicalOutPoint h i \<and> v = valueUnminedCredit a ch)"
proof -
  have cs: "cs = fst (scanAll readUnminedCreditEntry (prefix_entries (sUnminedCredits ns) (hashBytes h)))"
    unfolding cs_def using unminedCreditIterator_run[of ns h] by (metis fst_conv)
  note sc = unminedCredits_scan[OF assms(1) refl, where h = h]
  show "distinct (map fst cs)" unfolding cs by (rule sc(2))
  show "(k, v, el) \<in> set cs \<Longrightarrow> bucketGet (sUnminedCredits ns) k = Some v
      \<and> (\<exists>i a ch. k = canonicalOutPoint h i \<and> v = valueUnminedCredit a ch)"
    using sc(3)[of k v el] scanAll_mem[of k v el readUnminedCreditEntry "prefix_entries (sUnminedCredits ns) (hashBytes h)"]
    unfolding cs
    by (auto simp: prefix_entries_def kv.mem_items_iff)
qed

lemma moveUnminedCredits_books:
  assumes db: "db_ok E" and M: "M (Hash rec) = Some (metaBlock block, MsgTx rec)"
  shows "foldE (moveUnminedCredit E rec block) cs (ns, bal) = Inr (ns', bal') \<Longrightarrow> books E ns M \<Longrightarrow>
    debits_backed ns \<Longrightarrow> distinct (map fst cs) \<Longrightarrow>
    \<forall>(k, v, el) \<in> set cs. \<exists>i ch. k = canonicalOutPoint (Hash rec) i \<and> unat i < length (TxOut (MsgTx rec))
      \<and> v = valueUnminedCredit (Value (TxOut (MsgTx rec) ! unat i)) ch \<and> no_credit ns (Hash rec) i \<Longrightarrow>
    books E ns' M \<and> debits_backed ns' \<and> ns' = ns\<lparr>sCredits := sCredits ns', sUnspent := sUnspent ns'\<rparr>"
proof (induction cs arbitrary: ns bal)
  case (Cons x cs)
  obtain i ch el where x: "x = (canonicalOutPoint (Hash rec) i, valueUnminedCredit (Value (TxOut (MsgTx rec) ! unat i)) ch, el)"
    and i: "unat i < length (TxOut (MsgTx rec))" and nc: "no_credit ns (Hash rec) i"
    using Cons.prems(5) by (cases x) auto
  define c where "c = newCredit (Hash rec) i (metaBlock block) (Value (TxOut (MsgTx rec) ! unat i)) ch"
  have c: "credOutPoint c = \<lparr>opHash = Hash rec, opIndex = i\<rparr>" "credBlock c = metaBlock block"
    "credAmount c = Value (TxOut (MsgTx rec) ! unat i)" by (simp_all add: c_def newCredit_def)
  let ?ns1 = "addUnspent ns c"
  have st: "moveUnminedCredit E rec block x (ns, bal) = Inr (?ns1, bal + credAmount c)"
    using moveUnminedCredit_eq[OF db] unfolding x c_def by (simp add: newCredit_def)
  have b1: "books E ?ns1 M" "debits_backed ?ns1"
    using books_addUnspent[OF Cons.prems(2,3), of c "MsgTx rec"] nc M i c by simp_all
  have "\<forall>(k, v, el) \<in> set cs. \<exists>i ch. k = canonicalOutPoint (Hash rec) i \<and> unat i < length (TxOut (MsgTx rec))
      \<and> v = valueUnminedCredit (Value (TxOut (MsgTx rec) ! unat i)) ch \<and> no_credit ?ns1 (Hash rec) i"
  proof
    fix y assume y: "y \<in> set cs"
    then obtain j ch' el' where y': "y = (canonicalOutPoint (Hash rec) j, valueUnminedCredit (Value (TxOut (MsgTx rec) ! unat j)) ch', el')"
      and nj: "unat j < length (TxOut (MsgTx rec))" "no_credit ns (Hash rec) j" using Cons.prems(5) by (cases y) auto
    have "j \<noteq> i" using Cons.prems(4) y x y' by force
    then have "no_credit ?ns1 (Hash rec) j" using addUnspent_no_credit[OF nj(2), of c] c by simp
    then show "case y of (k, v, el) \<Rightarrow> \<exists>i ch. k = canonicalOutPoint (Hash rec) i \<and> unat i < length (TxOut (MsgTx rec))
      \<and> v = valueUnminedCredit (Value (TxOut (MsgTx rec) ! unat i)) ch \<and> no_credit ?ns1 (Hash rec) i"
      using y' nj by auto
  qed
  from Cons.IH[OF _ b1 _ this, of "bal + credAmount c"] Cons.prems(1,4) st
  have r: "books E ns' M" "debits_backed ns'" "ns' = ?ns1\<lparr>sCredits := sCredits ns', sUnspent := sUnspent ns'\<rparr>" by auto
  have "ns' = ns\<lparr>sCredits := sCredits ns', sUnspent := sUnspent ns'\<rparr>"
    by (subst r(3), subst addUnspent_frame) simp
  then show ?case using r(1,2) by blast
qed simp

lemma spendInputs_books:
  assumes db: "db_ok E" and f: "foldE (spendInput E rec block) (indexed (TxIn (MsgTx rec))) (ns, bal) = Inr (ns', bal')"
    and l: "ledger ns bal" and bk: "books E ns M" "debits_backed ns"
    and h: "M (Hash rec) = Some (metaBlock block, MsgTx rec)"
    and wf: "wf_tx E r (Hash rec) (MsgTx rec)" "M 0 = None"
  shows "books E ns' M \<and> debits_backed ns'"
proof -
  have "(\<lambda>(s, b). ledger s b \<and> books E s M \<and> debits_backed s) (ns', bal')"
  proof (rule foldE_invariant[OF f])
    fix x u v
    assume x: "x \<in> set (indexed (TxIn (MsgTx rec)))" and st: "spendInput E rec block x u = Inr v"
      and P: "case u of (s, b) \<Rightarrow> ledger s b \<and> books E s M \<and> debits_backed s"
    obtain i inp where xi: "x = (i, inp)" by fastforce
    obtain s b where u: "u = (s, b)" by fastforce
    obtain s' b' where v: "v = (s', b')" by fastforce
    have lb: "ledger s b" "books E s M" "debits_backed s" using P by (simp_all add: u)
    obtain s'' b'' where "spendInput E rec block x (s, b) = Inr (s'', b'')" "ledger s'' b''"
      using spendInput_ledger[OF db lb(1), of rec block x] by blast
    then have "ledger s' b'" using st by (simp add: u v)
    moreover have "books E s' M" "debits_backed s'"
      using spendInput_books[OF db st[unfolded xi u v] lb(1,2) h x[unfolded xi] wf] lb(3) by blast+
    ultimately show "case v of (s, b) \<Rightarrow> ledger s b \<and> books E s M \<and> debits_backed s" by (simp add: v)
  qed (use l bk in simp)
  then show ?thesis by simp
qed

lemma updateMinedBalance_books:
  assumes db: "db_ok E" and up: "updateMinedBalance E ns rec block = Inr ns'"
    and inv: "ledger_ok ns" "unminedCredits_wf ns" "\<forall>i. no_credit ns (Hash rec) i"
    and bk: "books E ns M" "debits_backed ns"
    and h: "M (Hash rec) = Some (metaBlock block, MsgTx rec)"
    and wf: "wf_tx E r (Hash rec) (MsgTx rec)" "M 0 = None"
    and uc: "unmined_credits ns U" "U (Hash rec) = None \<or> U (Hash rec) = Some (MsgTx rec)"
  shows "books E ns' M \<and> debits_backed ns'"
proof -
  obtain bal where b: "fetchMinedBalance ns = Inr bal" "ledger ns bal" using inv(1) by (auto simp: ledger_ok_def)
  obtain ns1 b1 where 1: "foldE (spendInput E rec block) (indexed (TxIn (MsgTx rec))) (ns, bal) = Inr (ns1, b1)"
    "ns1 = ns\<lparr>sCredits := sCredits ns1, sUnspent := sUnspent ns1, sDebits := sDebits ns1\<rparr>"
    "\<forall>k. bucketGet (sCredits ns1) k = None \<longleftrightarrow> bucketGet (sCredits ns) k = None"
    using spendInputs_ledger[OF db b(2), of rec block "indexed (TxIn (MsgTx rec))"] by (elim exE conjE)
  have bk1: "books E ns1 M" "debits_backed ns1" using spendInputs_books[OF db 1(1) b(2) bk h wf] by blast+
  have e: "sUnminedCredits ns1 = sUnminedCredits ns" by (subst 1(2)) simp
  then have uw: "unminedCredits_wf ns1" using inv(2) by (simp add: unminedCredits_wf_def)
  let ?run = "iterRun unminedCreditIterator_readElem (makeUnminedCreditIterator ns1 (Hash rec))"
  obtain ns2 b2 where 2: "foldE (moveUnminedCredit E rec block) (fst ?run) (ns1, b1) = Inr (ns2, b2)"
    "ns' = (if b2 \<noteq> bal then ns2\<lparr>sRoot := bucketPut (sRoot ns2) rootMinedBalance (putUint64 b2)\<rparr> else ns2)"
    using up b(1) 1(1) by (auto simp: updateMinedBalance_def case_prod_unfold putMinedBalance_def Let_def split: if_splits)
  have "\<forall>(k, v, el) \<in> set (fst ?run). \<exists>i ch. k = canonicalOutPoint (Hash rec) i \<and> unat i < length (TxOut (MsgTx rec))
      \<and> v = valueUnminedCredit (Value (TxOut (MsgTx rec) ! unat i)) ch \<and> no_credit ns1 (Hash rec) i"
  proof (intro ballI, clarify)
    fix k v el assume "(k, v, el) \<in> set (fst ?run)"
    then obtain i where k: "bucketGet (sUnminedCredits ns) k = Some v" "k = canonicalOutPoint (Hash rec) i"
      using unminedCredits_run(2)[OF uw refl] e by fastforce
    then obtain ch where "unat i < length (TxOut (MsgTx rec))" "v = valueUnminedCredit (Value (TxOut (MsgTx rec) ! unat i)) ch"
      using uc unfolding unmined_credits_def by (metis option.distinct(1) option.inject)
    moreover have "no_credit ns1 (Hash rec) i" using inv(3) 1(3) by (simp add: no_credit_def creditAt_def)
    ultimately show "\<exists>i ch. k = canonicalOutPoint (Hash rec) i \<and> unat i < length (TxOut (MsgTx rec))
      \<and> v = valueUnminedCredit (Value (TxOut (MsgTx rec) ! unat i)) ch \<and> no_credit ns1 (Hash rec) i" using k by blast
  qed
  from moveUnminedCredits_books[OF db h 2(1) bk1 unminedCredits_run(1)[OF uw refl] this]
  have "books E ns2 M" "debits_backed ns2" by blast+
  then show ?thesis using books_cong[of ns' ns2] 2(2) by simp
qed

text \<open>What the caller of \<open>InsertTx\<close> guarantees for a mined transaction: it is not recorded as
  mined, the block is the only one of its height and has room for one more transaction, and the
  transaction is mined above those it spends from.\<close>

definition mineable :: "env \<Rightarrow> (hash \<Rightarrow> nat) \<Rightarrow> minedMap \<Rightarrow> txMap \<Rightarrow> txRecord \<Rightarrow> blockMeta \<Rightarrow> bool" where
  "mineable E r M U rec block \<longleftrightarrow> M (Hash rec) = None
     \<and> (U (Hash rec) = None \<or> U (Hash rec) = Some (MsgTx rec)) \<and> rec_ok E rec \<and> wf_tx E r (Hash rec) (MsgTx rec)
     \<and> ordered (M(Hash rec \<mapsto> (metaBlock block, MsgTx rec))) \<and> 0 \<le>s bHeight (metaBlock block)
     \<and> (\<forall>h b tx. M h = Some (b, tx) \<longrightarrow> bHeight b = bHeight (metaBlock block) \<longrightarrow> b = metaBlock block)
     \<and> Suc (card {h. \<exists>tx. M h = Some (metaBlock block, tx)}) < 2 ^ 32"

text \<open>The record of that height, if there is one, is the block's.\<close>

lemma mineable_record:
  assumes "mineable E r M U rec block" "block_holds M (keyBlockRecord (bHeight (metaBlock block))) v b"
  shows "recBlock b = metaBlock block" "Suc (length (recTransactions b)) < 2 ^ 32"
proof -
  have b: "bHeight (recBlock b) = bHeight (metaBlock block)" "recTransactions b \<noteq> []" "distinct (recTransactions b)"
    "set (recTransactions b) = {h. \<exists>tx. M h = Some (recBlock b, tx)}"
    using assms(2) by (simp_all add: block_holds_def)
  then have "hd (recTransactions b) \<in> {h. \<exists>tx. M h = Some (recBlock b, tx)}" by (metis list.set_sel(1))
  then obtain h tx where "M h = Some (recBlock b, tx)" by blast
  then show e: "recBlock b = metaBlock block" using assms(1) b(1) unfolding mineable_def by blast
  have "length (recTransactions b) = card {h. \<exists>tx. M h = Some (metaBlock block, tx)}"
    using b(4) distinct_card[OF b(3)] e by simp
  then show "Suc (length (recTransactions b)) < 2 ^ 32" using assms(1) by (simp add: mineable_def)
qed

lemma block_holds_other:
  assumes "block_holds M k v b" "recBlock b \<noteq> blk" "M h = None"
  shows "block_holds (M(h \<mapsto> (blk, tx))) k v b"
proof -
  have e: "{g. \<exists>t. (M(h \<mapsto> (blk, tx))) g = Some (recBlock b, t)} = {g. \<exists>t. M g = Some (recBlock b, t)}"
    using assms(2,3) by (auto split: if_splits)
  show ?thesis using assms(1) unfolding block_holds_def e .
qed

lemma length_recTransactions:
  "readRawBlockRecord k v = Inr b \<Longrightarrow> length (recTransactions b) = unat (uint32_of (slice v 40 44))"
  by (auto simp: readRawBlockRecord_def Let_def split: if_splits)

text \<open>The record of the block after the transaction is added.\<close>

lemma recordInBlock_holds:
  assumes db: "db_ok E" and bh: "blocks_hold ns M" and m: "mineable E r M U rec block"
  shows "\<exists>v b. recordInBlock E ns rec block = Inr (ns\<lparr>sBlocks := bucketPut (sBlocks ns) (keyBlockRecord (bHeight (metaBlock block))) v\<rparr>)
    \<and> block_holds (M(Hash rec \<mapsto> (metaBlock block, MsgTx rec))) (keyBlockRecord (bHeight (metaBlock block))) v b
    \<and> recBlock b = metaBlock block"
proof -
  let ?k = "keyBlockRecord (bHeight (metaBlock block))" and ?M' = "M(Hash rec \<mapsto> (metaBlock block, MsgTx rec))"
  have n: "M (Hash rec) = None" "0 \<le>s bHeight (metaBlock block)" using m by (simp_all add: mineable_def)
  have set': "{g. \<exists>t. ?M' g = Some (metaBlock block, t)} = insert (Hash rec) {g. \<exists>t. M g = Some (metaBlock block, t)}"
    using n by auto
  show ?thesis
  proof (cases "bucketGet (sBlocks ns) ?k")
    case None
    let ?v = "valueBlockRecord block (Hash rec)"
    have "{g. \<exists>t. M g = Some (metaBlock block, t)} = {}"
      using bh None unfolding blocks_hold_def by fastforce
    then have "block_holds ?M' ?k ?v \<lparr>recBlock = metaBlock block,
        recTime = wordTime (timeWord (metaTime block)), recTransactions = [Hash rec]\<rparr>" (is "block_holds _ _ _ ?b")
      using n readRawBlockRecord_value[of block "Hash rec"] block_value_ok_new set' by (simp add: block_holds_def)
    moreover have "recordInBlock E ns rec block = Inr (ns\<lparr>sBlocks := bucketPut (sBlocks ns) ?k ?v\<rparr>)" using None db
      by (simp add: recordInBlock_def existsBlockRecord_def putBlockRecord_def putRawBlockRecord_def Let_def)
    ultimately show ?thesis by (intro exI[of _ ?v] exI[of _ ?b]) simp
  next
    case (Some v)
    then obtain b where b: "block_holds M ?k v b" using bh unfolding blocks_hold_def by blast
    then have rd: "readRawBlockRecord ?k v = Inr b" "block_value_ok v" unfolding block_holds_def by blast+
    have rb: "recBlock b = metaBlock block" "Suc (length (recTransactions b)) < 2 ^ 32"
      using mineable_record[OF m b] by blast+
    have "44 \<le> length v" using rd(2) by (simp add: block_value_ok_def)
    then obtain w where w: "appendRawBlockRecord v (Hash rec) = Inr w" by (auto simp: appendRawBlockRecord_def Let_def)
    have "unat (uint32_of (slice v 40 44)) + 1 < 2 ^ 32" using rb(2) length_recTransactions[OF rd(1)] by simp
    note ap = readRawBlockRecord_append[OF rd w this]
    have "Hash rec \<notin> set (recTransactions b)" using b n by (auto simp: block_holds_def)
    then have "block_holds ?M' ?k w (b\<lparr>recTransactions := recTransactions b @ [Hash rec]\<rparr>)" (is "block_holds _ _ _ ?b")
      using ap b n rb(1) set' by (auto simp: block_holds_def)
    moreover have "recordInBlock E ns rec block = Inr (ns\<lparr>sBlocks := bucketPut (sBlocks ns) ?k w\<rparr>)" using Some w db
      by (simp add: recordInBlock_def existsBlockRecord_def putRawBlockRecord_def Let_def)
    ultimately show ?thesis using rb(1) by (intro exI[of _ w] exI[of _ ?b]) simp
  qed
qed

lemma blocks_hold_put:
  assumes bh: "blocks_hold ns M" and n: "M h = None"
    and b: "block_holds (M(h \<mapsto> (blk, tx))) (keyBlockRecord (bHeight blk)) v b" "recBlock b = blk"
    and old: "\<And>w c. bucketGet (sBlocks ns) (keyBlockRecord (bHeight blk)) = Some w \<Longrightarrow>
      block_holds M (keyBlockRecord (bHeight blk)) w c \<Longrightarrow> recBlock c = blk"
    and ns': "sBlocks ns' = bucketPut (sBlocks ns) (keyBlockRecord (bHeight blk)) v"
  shows "blocks_hold ns' (M(h \<mapsto> (blk, tx)))"
  unfolding blocks_hold_def
proof (intro conjI allI impI)
  fix k w assume a: "bucketGet (sBlocks ns') k = Some w"
  show "\<exists>b. block_holds (M(h \<mapsto> (blk, tx))) k w b"
  proof (cases "k = keyBlockRecord (bHeight blk)")
    case False
    then have "bucketGet (sBlocks ns) k = Some w" using a ns' by simp
    then obtain c where c: "block_holds M k w c" using bh unfolding blocks_hold_def by blast
    then have "recBlock c \<noteq> blk" using False by (auto simp: block_holds_def)
    then show ?thesis using block_holds_other[OF c _ n] by blast
  qed (use a b ns' in auto)
next
  fix g b' t assume a: "(M(h \<mapsto> (blk, tx))) g = Some (b', t)"
  show "\<exists>v r. bucketGet (sBlocks ns') (keyBlockRecord (bHeight b')) = Some v
      \<and> block_holds (M(h \<mapsto> (blk, tx))) (keyBlockRecord (bHeight b')) v r \<and> recBlock r = b'"
  proof (cases "b' = blk")
    case True
    then show ?thesis using b ns' by auto
  next
    case False
    then have "M g = Some (b', t)" using a by (auto split: if_splits)
    then obtain w c where w: "bucketGet (sBlocks ns) (keyBlockRecord (bHeight b')) = Some w"
      "block_holds M (keyBlockRecord (bHeight b')) w c" "recBlock c = b'" using bh unfolding blocks_hold_def by blast
    then have "bHeight b' \<noteq> bHeight blk" using old[of w c] False by auto
    moreover have "block_holds (M(h \<mapsto> (blk, tx))) (keyBlockRecord (bHeight b')) w c"
      using block_holds_other[OF w(2) _ n] w(3) False by simp
    ultimately show ?thesis using w ns' by auto
  qed
qed

lemma mined_holds_put:
  assumes mh: "mined_holds E ns M" and n: "M (Hash rec) = None" and v: "valueTxRecord E rec = Inr v" "rec_ok E rec"
    and ns': "sTxRecords ns' = bucketPut (sTxRecords ns) (keyTxRecord (Hash rec) blk) v"
  shows "mined_holds E ns' (M(Hash rec \<mapsto> (blk, MsgTx rec)))"
  unfolding mined_holds_def ns'
proof (intro conjI allI impI)
  fix k w assume a: "bucketGet (bucketPut (sTxRecords ns) (keyTxRecord (Hash rec) blk) v) k = Some w"
  show "\<exists>h b tx. k = keyTxRecord h b \<and> (M(Hash rec \<mapsto> (blk, MsgTx rec))) h = Some (b, tx)"
  proof (cases "k = keyTxRecord (Hash rec) blk")
    case False
    then have "bucketGet (sTxRecords ns) k = Some w" using a by simp
    then obtain h b tx where h: "k = keyTxRecord h b" "M h = Some (b, tx)" using mh unfolding mined_holds_def by blast
    then have "h \<noteq> Hash rec" using n by auto
    then show ?thesis using h by auto
  qed auto
next
  fix h b tx assume a: "(M(Hash rec \<mapsto> (blk, MsgTx rec))) h = Some (b, tx)"
  show "\<exists>w r. bucketGet (bucketPut (sTxRecords ns) (keyTxRecord (Hash rec) blk) v) (keyTxRecord h b) = Some w
          \<and> readRawTxRecord E h w = Inr r \<and> MsgTx r = tx"
  proof (cases "h = Hash rec")
    case True
    then show ?thesis using a readRawTxRecord_value[OF v] by simp
  next
    case False
    then have "M h = Some (b, tx)" using a by simp
    then show ?thesis using mh False unfolding mined_holds_def by simp
  qed
qed

lemma unmined_credits_removed:
  assumes uc: "unmined_credits ns U" and rm: "removed (creditKeys U D) ns ns'"
  shows "unmined_credits ns' (U |` (- D))"
  unfolding unmined_credits_def
proof (intro allI impI)
  fix h i v assume a: "bucketGet (sUnminedCredits ns') (canonicalOutPoint h i) = Some v"
  then have g: "bucketGet (sUnminedCredits ns) (canonicalOutPoint h i) = Some v"
    and nk: "canonicalOutPoint h i \<notin> creditKeys U D"
    using rm unfolding removed_def by (metis option.distinct(1))+
  then obtain tx ch where tx: "U h = Some tx" "unat i < length (TxOut tx)"
    "v = valueUnminedCredit (Value (TxOut tx ! unat i)) ch" using uc unfolding unmined_credits_def by blast
  have "(i, TxOut tx ! unat i) \<in> set (indexed (TxOut tx))"
    using tx(2) by (auto simp: set_indexed intro!: exI[of _ "unat i"])
  then have "canonicalOutPoint h i \<in> outputKeys h tx" by (force simp: outputKeys_def)
  then have "h \<notin> D" using nk tx(1) by (auto simp: creditKeys_def)
  then show "\<exists>tx ch. (U |` (- D)) h = Some tx \<and> unat i < length (TxOut tx)
      \<and> v = valueUnminedCredit (Value (TxOut tx ! unat i)) ch" using tx by auto
qed

lemma unmined_credits_one:
  assumes "unmined_credits ns U" "U h = Some tx" "removed (outputKeys h tx) ns ns'"
  shows "unmined_credits ns' (U(h := None))"
proof -
  have "creditKeys U {h} = outputKeys h tx" using assms(2) by (auto simp: creditKeys_def)
  moreover have "U |` (- {h}) = U(h := None)" by (auto simp: restrict_map_def fun_eq_iff)
  ultimately show ?thesis using unmined_credits_removed[of ns U "{h}" ns'] assms(1,3) by simp
qed

lemma unmined_credits_absent:
  "unmined_credits ns U \<Longrightarrow> U h = None \<Longrightarrow> U(h := None) = U" by auto

lemma removed_inv:
  assumes "removed K ns ns'"
  shows "books E ns' M = books E ns M" "debits_backed ns' = debits_backed ns" "mined_holds E ns' M = mined_holds E ns M"
    "blocks_hold ns' M = blocks_hold ns M" "leases_wf ns' = leases_wf ns"
  using removed_mined[OF assms] books_cong[of ns' ns]
  by (simp_all add: mined_holds_def blocks_hold_def leases_wf_def)

lemma ordered_subset: "ordered M \<Longrightarrow> (\<And>h x. M' h = Some x \<Longrightarrow> M h = Some x) \<Longrightarrow> ordered M'"
  unfolding ordered_def by metis

lemma survivors_subset: "survivors U rec h = Some tx \<Longrightarrow> h \<noteq> Hash rec \<and> U h = Some tx"
  by (auto simp: survivors_def Let_def restrict_map_def split: if_splits)

lemma mineable_minable:
  assumes "wallet_inv E r ns M U" "mineable E r M U rec block"
  shows "minable E ns U rec block"
proof -
  note inv = wallet_invD[OF assms(1)]
  have m: "M (Hash rec) = None" "rec_ok E rec" "U (Hash rec) = None \<or> U (Hash rec) = Some (MsgTx rec)"
    using assms(2) by (simp_all add: mineable_def)
  have "bucketGet (sTxRecords ns) (keyTxRecord (Hash rec) b) = None" for b
    using inv(7) m(1) unfolding mined_holds_def by (metis keyTxRecord_inj not_Some_eq)
  moreover have "no_credit ns (Hash rec) i" for i
    unfolding no_credit_def using creditAt_mined[OF inv(5), of "Hash rec"] m(1) by (metis option.distinct(1) option.exhaust)
  moreover have "44 \<le> length v" if "bucketGet (sBlocks ns) k = Some v" for k v
    using inv(8) that unfolding blocks_hold_def block_holds_def block_value_ok_def by metis
  ultimately show ?thesis using m by (simp add: minable_def)
qed

lemma unlockOutputs_leases:
  "leases_wf ns \<Longrightarrow> leases_wf (ns\<lparr>sLockedOutputs := map_option (fold (\<lambda>input b. bucketDelete b (inputKey input)) ins) (sLockedOutputs ns)\<rparr>)"
  by (auto simp: leases_wf_def bucketGet_unlocks split: option.splits if_splits)

text \<open>The parts of a successful \<open>insertMinedTx\<close>.\<close>

lemma insertMinedTx_parts:
  assumes db: "db_ok E" and s: "insertMinedTx E ns rec block = Inr ns'" 
  obtains ns1 v ns3 ns4 ns5 where "recordInBlock E ns rec block = Inr ns1" "valueTxRecord E rec = Inr v"
    "updateMinedBalance E (ns1\<lparr>sTxRecords := bucketPut (sTxRecords ns1) (keyTxRecord (Hash rec) (metaBlock block)) v\<rparr>)
       rec block = Inr ns3"
    "(if existsRawUnmined ns3 (hashBytes (Hash rec)) \<noteq> None then deleteUnminedTx E ns3 rec else Inr ns3) = Inr ns4"
    "removeDoubleSpends E ns4 rec = Inr ns5"
    "ns' = ns5\<lparr>sLockedOutputs := map_option (fold (\<lambda>input b. bucketDelete b (inputKey input)) (TxIn (MsgTx rec)))
       (sLockedOutputs ns5)\<rparr>"
proof -
  have n: "(snd (existsTxRecord ns (Hash rec) (metaBlock block)) \<noteq> None) = False"
    using s by (cases "snd (existsTxRecord ns (Hash rec) (metaBlock block))") (simp_all add: insertMinedTx_def)
  obtain ns1 ns2 ns3 ns4 ns5 where p: "recordInBlock E ns rec block = Inr ns1"
    "putTxRecord E ns1 rec (metaBlock block) = Inr ns2" "updateMinedBalance E ns2 rec block = Inr ns3"
    "(if existsRawUnmined ns3 (hashBytes (Hash rec)) \<noteq> None then deleteUnminedTx E ns3 rec else Inr ns3) = Inr ns4"
    "removeDoubleSpends E ns4 rec = Inr ns5"
    "foldE (\<lambda>input ns. unlockOutput E ns (PreviousOutPoint input)) (TxIn (MsgTx rec)) ns5 = Inr ns'"
    using s unfolding insertMinedTx_def n if_False bindE_eq_Inr by (elim exE conjE)
  obtain v where "valueTxRecord E rec = Inr v"
    "ns2 = ns1\<lparr>sTxRecords := bucketPut (sTxRecords ns1) (keyTxRecord (Hash rec) (metaBlock block)) v\<rparr>"
    using p(2) by (auto simp: putTxRecord_def Let_def)
  with p that show thesis by (simp add: unlockOutputs_eq[OF db])
qed

text \<open>First half: the block, the record and the books.\<close>

lemma recordMined_stage:
  assumes db: "db_ok E" and inv: "wallet_inv E r ns M U" and mn: "mineable E r M U rec block"
    and p: "recordInBlock E ns rec block = Inr ns1" "valueTxRecord E rec = Inr v"
      "updateMinedBalance E (ns1\<lparr>sTxRecords := bucketPut (sTxRecords ns1) (keyTxRecord (Hash rec) (metaBlock block)) v\<rparr>)
         rec block = Inr ns3"
    and M'_def: "M' = M(Hash rec \<mapsto> (metaBlock block, MsgTx rec))"
  shows "books E ns3 M' \<and> debits_backed ns3 \<and> mined_holds E ns3 M' \<and> blocks_hold ns3 M' \<and> leases_wf ns3
    \<and> mempool E ns3 U \<and> unmined_credits ns3 U"
proof -
  note iv = wallet_invD[OF inv]
  let ?h = "Hash rec" and ?blk = "metaBlock block"
  let ?k = "keyBlockRecord (bHeight ?blk)"
  have m: "M ?h = None" "U ?h = None \<or> U ?h = Some (MsgTx rec)" "rec_ok E rec" "wf_tx E r ?h (MsgTx rec)"
    using mn by (simp_all add: mineable_def)
  obtain w b where 1: "ns1 = ns\<lparr>sBlocks := bucketPut (sBlocks ns) ?k w\<rparr>" "block_holds M' ?k w b" "recBlock b = ?blk"
    using recordInBlock_holds[OF db iv(8) mn] p(1) by (auto simp: M'_def)
  let ?ns2 = "ns1\<lparr>sTxRecords := bucketPut (sTxRecords ns1) (keyTxRecord ?h ?blk) v\<rparr>"
  have old: "recBlock c = ?blk" if "bucketGet (sBlocks ns) ?k = Some w" "block_holds M ?k w c" for w c
    using mineable_record(1)[OF mn that(2)] .
  have bh: "blocks_hold ?ns2 M'" unfolding M'_def
    by (rule blocks_hold_put[OF iv(8) m(1) 1(2)[unfolded M'_def] 1(3) old]) (simp_all add: 1(1))
  have mh: "mined_holds E ?ns2 M'" unfolding M'_def
    by (rule mined_holds_put[OF iv(7) m(1) p(2) m(3)]) (simp add: 1(1))
  have bk: "books E ?ns2 M'" "debits_backed ?ns2"
    using books_extend[OF iv(5) m(1)] iv(6) books_cong[of ?ns2 ns] by (simp_all add: M'_def 1(1))
  have l2: "ledger_ok ?ns2" "unminedCredits_wf ?ns2" "unmined_credits ?ns2 U"
    using iv(3,4,9) ledger_ok_cong[of ?ns2 ns] unminedCredits_wf_cong[of ?ns2 ns] by (simp_all add: 1(1) unmined_credits_def)
  have nc: "\<forall>i. no_credit ?ns2 ?h i"
    using mineable_minable[OF inv mn] by (simp add: minable_def no_credit_def creditAt_def 1(1))
  have z: "M' 0 = None" using M_zero[OF iv(11)] m(4) by (simp add: M'_def wf_tx_def)
  have hM: "M' ?h = Some (?blk, MsgTx rec)" by (simp add: M'_def)
  have bk3: "books E ns3 M'" "debits_backed ns3"
    using updateMinedBalance_books[OF db p(3) l2(1,2) nc bk hM m(4) z l2(3) m(2)] by blast+
  have "ns3 = ?ns2\<lparr>sRoot := sRoot ns3, sCredits := sCredits ns3, sUnspent := sUnspent ns3, sDebits := sDebits ns3\<rparr>"
    using updateMinedBalance_ledger[OF db l2(1,2) nc, of block] p(3) by auto
  then obtain r3 c3 u3 d3 where ns3: "ns3 = ?ns2\<lparr>sRoot := r3, sCredits := c3, sUnspent := u3, sDebits := d3\<rparr>" by blast
  show ?thesis using mh bh l2(3) iv(10,2) bk3 mempool_cong[of ns3 ns]
    by (simp add: ns3 mined_holds_def blocks_hold_def unmined_credits_def leases_wf_def 1(1))
qed

text \<open>Second half: the transaction and its rivals leave the unmined buckets.\<close>

lemma clearUnmined_stage:
  assumes db: "db_ok E" and m: "mempool E ns3 U" "unmined_credits ns3 U" "acyclic (spend_rel U)"
    and u: "U (Hash rec) = None \<or> U (Hash rec) = Some (MsgTx rec)"
    and p: "(if existsRawUnmined ns3 (hashBytes (Hash rec)) \<noteq> None then deleteUnminedTx E ns3 rec else Inr ns3) = Inr ns4"
      "removeDoubleSpends E ns4 rec = Inr ns5"
  shows "\<exists>K L. removed K ns3 ns4 \<and> removed L ns4 ns5 \<and> unmined_credits ns5 (survivors U rec)"
proof -
  let ?h = "Hash rec" and ?V = "U(Hash rec := None)"
  have 4: "mempool E ns4 ?V \<and> unmined_credits ns4 ?V \<and> (\<exists>K. removed K ns3 ns4)"
  proof (cases "U ?h")
    case None
    then have "?V = U" by auto
    moreover have "ns4 = ns3" using p(1) mempool_get_None[OF m(1) None] by (simp add: existsRawUnmined_def)
    moreover have "removed {} ns3 ns3" by simp
    ultimately show ?thesis using m by metis
  next
    case (Some tx)
    then have u': "U ?h = Some (MsgTx rec)" using u by auto
    obtain x y where "bucketGet (sUnmined ns3) (hashBytes ?h) = Some x" by (rule mempool_get[OF m(1) u'])
    then have "deleteUnminedTx E ns3 rec = Inr ns4" using p(1) by (simp add: existsRawUnmined_def)
    then have "mempool E ns4 ?V" "removed (outputKeys ?h (MsgTx rec)) ns3 ns4"
      using deleteUnminedTx_spec[OF db m(1) u'] by auto
    then show ?thesis using unmined_credits_one[OF m(2) u'] by blast
  qed
  let ?D = "doomed ?V (rivals ?V rec)"
  have R: "removed (creditKeys ?V ?D) ns4 ns5"
    using removeDoubleSpends_inputs[OF db acyclic_remove[OF m(3), of ?h], of ns4 "{}" ?h "TxIn (MsgTx rec)"] 4 p(2)
    by (auto simp: removeDoubleSpends_def rivals_def inputKeys_def doomed_def)
  have "unmined_credits ns5 (?V |` (- ?D))" using unmined_credits_removed[OF _ R] 4 by blast
  then have "unmined_credits ns5 (survivors U rec)" by (simp add: survivors_def Let_def)
  then show ?thesis using 4 R by blast
qed

lemma insertMinedTx_mined_buckets:
  assumes db: "db_ok E" and inv: "wallet_inv E r ns M U" and mn: "mineable E r M U rec block"
    and s: "insertMinedTx E ns rec block = Inr ns'" and M': "M' = M(Hash rec \<mapsto> (metaBlock block, MsgTx rec))"
  shows "books E ns' M'" "debits_backed ns'" "mined_holds E ns' M'" "blocks_hold ns' M'" "leases_wf ns'"
    "unmined_credits ns' (survivors U rec)"
proof -
  have u: "U (Hash rec) = None \<or> U (Hash rec) = Some (MsgTx rec)" using mn by (simp add: mineable_def)
  obtain ns1 v ns3 ns4 ns5 where p: "recordInBlock E ns rec block = Inr ns1" "valueTxRecord E rec = Inr v"
    "updateMinedBalance E (ns1\<lparr>sTxRecords := bucketPut (sTxRecords ns1) (keyTxRecord (Hash rec) (metaBlock block)) v\<rparr>)
       rec block = Inr ns3"
    "(if existsRawUnmined ns3 (hashBytes (Hash rec)) \<noteq> None then deleteUnminedTx E ns3 rec else Inr ns3) = Inr ns4"
    "removeDoubleSpends E ns4 rec = Inr ns5"
    "ns' = ns5\<lparr>sLockedOutputs := map_option (fold (\<lambda>input b. bucketDelete b (inputKey input)) (TxIn (MsgTx rec)))
       (sLockedOutputs ns5)\<rparr>" by (rule insertMinedTx_parts[OF db s])
  note s3 = recordMined_stage[OF db inv mn p(1-3) M']
  obtain K L where R: "removed K ns3 ns4" "removed L ns4 ns5" "unmined_credits ns5 (survivors U rec)"
    using clearUnmined_stage[OF db _ _ wallet_acyclic[OF inv] u p(4,5)] s3 by blast
  note i4 = removed_inv[OF R(1)] and i5 = removed_inv[OF R(2)]
  have n6: "books E ns' M' = books E ns5 M'" "debits_backed ns' = debits_backed ns5"
    using books_cong[of ns' ns5] by (simp_all add: p(6))
  show "books E ns' M'" "debits_backed ns'" using s3 n6 i4 i5 by simp_all
  show "mined_holds E ns' M'" "blocks_hold ns' M'"
    using s3 i4(3,4) i5(3,4) by (simp_all add: p(6) mined_holds_def blocks_hold_def)
  show "leases_wf ns'" using s3 i4(5) i5(5) unlockOutputs_leases[of ns5] by (simp add: p(6))
  show "unmined_credits ns' (survivors U rec)" using R(3) by (simp add: p(6) unmined_credits_def)
qed

lemma chain_wf_mine:
  assumes "chain_wf E r M U" "mineable E r M U rec block"
  shows "chain_wf E r (M(Hash rec \<mapsto> (metaBlock block, MsgTx rec))) (survivors U rec)"
  using assms survivors_subset[of U rec] unfolding chain_wf_def mineable_def
  by (auto split: if_splits) (metis not_None_eq)+

lemma InsertTx_mined_inv:
  assumes "db_ok E" "wallet_inv E r ns M U" "mineable E r M U rec block"
  shows "\<exists>ns'. InsertTx E ns rec (Some block) = Inr ns'
    \<and> wallet_inv E r ns' (M(Hash rec \<mapsto> (metaBlock block, MsgTx rec))) (survivors U rec)"
proof -
  obtain ns' where s: "insertMinedTx E ns rec block = Inr ns'" "store_inv E ns' (survivors U rec)"
    using insertMinedTx_spec[OF assms(1) wallet_invD(1)[OF assms(2)] wallet_acyclic[OF assms(2)] mineable_minable[OF assms(2,3)]]
    by blast
  then show ?thesis
    using insertMinedTx_mined_buckets[OF assms s(1) refl] chain_wf_mine[OF wallet_invD(11)[OF assms(2)] assms(3)]
    by (auto simp: InsertTx_def InsertTxCheckIfExists_def wallet_inv_def)
qed

end
