(* ===== verification/Block_Iter.thy ===== *)
theory Block_Iter
  imports Tx_Store Key_Order
begin

text \<open>
  What the block iterators of \<open>wtxmgr/db.go\<close> visit.  On well-formed block records the backward
  iterator delivers the blocks from the highest one down, \<open>rollback\<close>'s repositioning after each
  block changes nothing, and a loop that stops at the first block below a height has seen exactly the
  blocks at or above it.
\<close>

section \<open>Well-formed block records\<close>

text \<open>Every key is the key of the height its record reads back to, and heights are not negative.\<close>

definition block_entry_ok :: "bytes \<Rightarrow> bytes \<Rightarrow> blockRecord \<Rightarrow> bool" where
  "block_entry_ok k v b \<longleftrightarrow> readRawBlockRecord k v = Inr b \<and> k = keyBlockRecord (bHeight (recBlock b))
     \<and> 0 \<le>s bHeight (recBlock b)"

definition blocks_wf :: "bucket \<Rightarrow> bool" where
  "blocks_wf B \<longleftrightarrow> (\<forall>(k, v) \<in> set (entries B). \<exists>b. block_entry_ok k v b)"

definition blockOf :: "entry \<Rightarrow> blockRecord" where
  "blockOf e = (case readRawBlockRecord (fst e) (snd e) of Inr b \<Rightarrow> b | Inl _ \<Rightarrow> zeroBlockRecord)"

lemma blockOf_ok: "block_entry_ok k v b \<Longrightarrow> blockOf (k, v) = b"
  unfolding block_entry_ok_def blockOf_def by (elim conjE) (simp only: fst_conv snd_conv sum.case)

lemma blocks_wfD:
  assumes "blocks_wf B" "e \<in> set (entries B)"
  shows "block_entry_ok (fst e) (snd e) (blockOf e)"
  using assms blockOf_ok unfolding blocks_wf_def by (cases e) fastforce

text \<open>The blocks of a bucket, highest first.\<close>

definition blocksDown :: "bucket \<Rightarrow> blockRecord list" where
  "blocksDown B = map blockOf (rev (entries B))"

lemma block_entry_okD:
  assumes "block_entry_ok k v b"
  shows "readRawBlockRecord k v = Inr b" "k = keyBlockRecord (bHeight (recBlock b))" "0 \<le>s bHeight (recBlock b)"
  using assms unfolding block_entry_ok_def by blast+

lemma signed_nonneg:
  assumes "0 \<le>s (w :: height)"
  shows "sint w = uint w"
proof -
  have "0 \<le> sint w" using assms by (simp add: word_sle_eq)
  moreover have "sint w < 2 ^ 31" using sint_less[of w] by simp
  ultimately have "take_bit 32 (sint w) = sint w" by (intro take_bit_int_eq_self) simp_all
  moreover have "uint w = take_bit 32 (sint w)" using uint_sint[of w] by simp
  ultimately show ?thesis by argo
qed

lemma height_order:
  "0 \<le>s (a :: height) \<Longrightarrow> 0 \<le>s b \<Longrightarrow> a <s b \<longleftrightarrow> keyBlockRecord a < keyBlockRecord b"
  by (simp add: word_sless_alt signed_nonneg keyBlockRecord_def word_less_def)

lemma key_below_max:
  assumes "0 \<le>s (w :: height)" shows "keyBlockRecord w < putUint32 (NOT 0)"
proof -
  have "sint w < 2 ^ 31" using sint_less[of w] by simp
  then have "uint w < 2 ^ 31" using signed_nonneg[OF assms] by simp
  moreover have "uint (- 1 :: height) = 2 ^ 32 - 1" by (simp add: unsigned_minus_1_eq_mask mask_eq_exp_minus_1)
  ultimately have "w < - 1" by (simp add: word_less_def)
  then show ?thesis by (simp add: keyBlockRecord_def)
qed

section \<open>Stepping backward\<close>

text \<open>What is still ahead of a backward iterator.\<close>

definition prevLeft :: "blockIterator \<Rightarrow> entry list" where
  "prevLeft it = (case biC it of None \<Rightarrow> [] | Some c \<Rightarrow>
     (if biCk it = None then rev (entries (curBucket c)) else entries_before (curBucket c) (curPos c)))"

text \<open>A fresh reverse iterator, or one that has just delivered an entry.\<close>

definition prevIt :: "bucket \<Rightarrow> blockIterator \<Rightarrow> bool" where
  "prevIt B it \<longleftrightarrow> blocks_wf B \<and> biErr it = None \<and> (\<exists>c. biC it = Some c \<and> curBucket c = B
     \<and> (biCk it = None \<and> biSeek it = putUint32 (NOT 0)
        \<or> (\<exists>v. biCk it = Some (curPos c) \<and> (curPos c, v) \<in> set (entries B) \<and> biElem it = blockOf (curPos c, v))))"

lemma prevIt_make: "blocks_wf (sBlocks ns) \<Longrightarrow> prevIt (sBlocks ns) (makeReverseBlockIterator ns)"
  by (simp add: prevIt_def makeReverseBlockIterator_def readCursor_def)

lemma prevLeft_make: "prevLeft (makeReverseBlockIterator ns) = rev (entries (sBlocks ns))"
  by (simp add: prevLeft_def makeReverseBlockIterator_def readCursor_def)

lemma prev_cursor:
  assumes "prevIt B it" "biC it = Some c"
  shows "(if biCk it = None then (case cursorSeek c (biSeek it) of (e, c') \<Rightarrow>
      if hasPrefix (orNil (map_option fst e)) (biSeek it) then (e, c') else cursorPrev c')
      else cursorPrev c) = (case prevLeft it of [] \<Rightarrow> (None, if biCk it = None then c\<lparr>curPos := biSeek it\<rparr> else c)
        | e # _ \<Rightarrow> (Some e, c\<lparr>curPos := fst e\<rparr>))"
proof (cases "biCk it")
  case None
  then have s: "biSeek it = putUint32 (NOT 0)" and B: "curBucket c = B" and wf: "blocks_wf B"
    using assms by (auto simp: prevIt_def)
  have lt: "fst e < biSeek it" if "e \<in> set (entries B)" for e
    unfolding s using key_below_max[OF block_entry_okD(3)[OF blocks_wfD[OF wf that]]] block_entry_okD(2)[OF blocks_wfD[OF wf that]] by simp
  have "entries_from B (biSeek it) = []" using lt by (auto simp: entries_from_def filter_empty_conv not_le)
  then have sk: "cursorSeek c (biSeek it) = (None, c\<lparr>curPos := biSeek it\<rparr>)" by (simp add: cursorSeek_eq B)
  have "entries_before B (biSeek it) = rev (entries B)"
    using lt by (auto simp: entries_before_def filter_id_conv)
  moreover have "\<not> hasPrefix [] (biSeek it)" by (auto simp: s hasPrefix_def dest: arg_cong[of _ _ length])
  ultimately show ?thesis using None assms(2) sk
    by (simp add: prevLeft_def cursorPrev_eq B orNil_def split: list.splits)
next
  case (Some k)
  then show ?thesis using assms(2) by (simp add: prevLeft_def cursorPrev_eq split: list.splits)
qed

lemma prevLeft_entries: "prevIt B it \<Longrightarrow> e \<in> set (prevLeft it) \<Longrightarrow> e \<in> set (entries B)"
  by (auto simp: prevIt_def prevLeft_def entries_before_def split: if_splits option.splits)

text \<open>One step: it stops without error at the end, or delivers the next lower block.\<close>

lemma prev_stop:
  assumes "prevIt B it" "prevLeft it = []"
  shows "\<exists>it'. blockIterator_prev it = (False, it') \<and> biErr it' = None"
proof -
  obtain c where c: "biC it = Some c" using assms(1) by (auto simp: prevIt_def)
  show ?thesis using prev_cursor[OF assms(1) c] assms c
    by (simp add: blockIterator_prev_def biRead_def prevIt_def Let_def)
qed

lemma prev_step:
  assumes p: "prevIt B it" and l: "prevLeft it = e # es"
  shows "\<exists>it'. blockIterator_prev it = (True, it') \<and> biElem it' = blockOf e \<and> prevIt B it' \<and> prevLeft it' = es"
proof -
  obtain c where c: "biC it = Some c" "curBucket c = B" using p by (auto simp: prevIt_def)
  have e: "e \<in> set (entries B)" using prevLeft_entries[OF p] l by simp
  have wf: "blocks_wf B" "biErr it = None" using p by (simp_all add: prevIt_def)
  have rd: "readRawBlockRecord (fst e) (snd e) = Inr (blockOf e)"
    by (rule block_entry_okD(1)[OF blocks_wfD[OF wf(1) e]])
  let ?it' = "it\<lparr>biC := Some (c\<lparr>curPos := fst e\<rparr>), biCk := Some (fst e), biCv := Some (snd e), biElem := blockOf e\<rparr>"
  have "blockIterator_prev it = biRead it (Some e) (c\<lparr>curPos := fst e\<rparr>)"
    using prev_cursor[OF p c(1)] l c(1) by (simp add: blockIterator_prev_def)
  also have "\<dots> = (True, ?it')" using rd by (simp add: biRead_def case_prod_unfold Let_def)
  finally have st: "blockIterator_prev it = (True, ?it')" .
  have "prevIt B ?it'" using wf c e unfolding prevIt_def by (auto intro!: exI[of _ "snd e"])
  moreover have "prevLeft ?it' = es"
  proof -
    have s: "\<exists>s. entries_before B s = e # es"
    proof (cases "biCk it")
      case None
      have "fst e < putUint32 (NOT 0)" if "e \<in> set (entries B)" for e
        using key_below_max[OF block_entry_okD(3)[OF blocks_wfD[OF wf(1) that]]] block_entry_okD(2)[OF blocks_wfD[OF wf(1) that]] by simp
      then have "entries_before B (putUint32 (NOT 0)) = rev (entries B)"
        by (auto simp: entries_before_def filter_id_conv)
      then show ?thesis using l None c by (auto simp: prevLeft_def)
    next
      case (Some k)
      then show ?thesis using l c by (auto simp: prevLeft_def)
    qed
    then have "entries_before B (fst e) = es" using entries_before_tail by blast
    then show ?thesis using c by (simp add: prevLeft_def)
  qed
  ultimately show ?thesis using st by auto
qed

section \<open>Whole loops\<close>

lemma blockRunPrev_eq:
  assumes "prevIt B it"
  shows "\<exists>it'. blockRunPrev P it = (takeWhile P (map blockOf (prevLeft it)), it') \<and> biErr it' = None"
  using assms
proof (induction "length (prevLeft it)" arbitrary: it)
  case 0
  then obtain it' where "blockIterator_prev it = (False, it')" "biErr it' = None" using prev_stop by fastforce
  then show ?case using 0 by (subst blockRunPrev.simps) simp
next
  case (Suc n)
  then obtain e es where l: "prevLeft it = e # es" by (cases "prevLeft it") auto
  obtain it1 where 1: "blockIterator_prev it = (True, it1)" "biElem it1 = blockOf e" "prevIt B it1" "prevLeft it1 = es"
    using prev_step[OF Suc.prems l] by blast
  obtain it2 where 2: "blockRunPrev P it1 = (takeWhile P (map blockOf es), it2)" "biErr it2 = None"
    using Suc.hyps(1)[of it1] Suc.hyps(2) 1(3,4) l by auto
  have "biErr it1 = None" using 1(3) by (simp add: prevIt_def)
  then show ?case using 1 2 l by (subst blockRunPrev.simps) simp
qed

lemma prevIt_reposition:
  assumes "prevIt B it" "biCk it \<noteq> None"
  shows "blockIterator_reposition it (bHeight (recBlock (biElem it))) = it"
proof -
  obtain c v where c: "biC it = Some c" "curBucket c = B" "biCk it = Some (curPos c)" "(curPos c, v) \<in> set (entries B)"
    "biElem it = blockOf (curPos c, v)" and wf: "blocks_wf B" using assms by (auto simp: prevIt_def)
  have ok: "block_entry_ok (curPos c) v (blockOf (curPos c, v))" using blocks_wfD[OF wf c(4)] by simp
  then have "length (curPos c) = 4" by (metis block_entry_ok_def length_keys(1))
  moreover have "readRawBlockRecord (curPos c) v = Inr (biElem it)" using ok c(5) by (simp only: block_entry_ok_def)
  ultimately show ?thesis using reposition_same[OF c(1) c(3) refl, of v] c(2,4) by simp
qed

lemma prev_true_started: "blockIterator_prev it = (True, it') \<Longrightarrow> biCk it' \<noteq> None"
  using blockIterator_prev_at by fastforce

lemma rollbackRun_eq:
  assumes "prevIt B it"
  shows "rollbackRun h it = blockRunPrev (\<lambda>b. \<not> bHeight (recBlock b) <s h) it"
  using assms
proof (induction "length (prevLeft it)" arbitrary: it)
  case 0
  then obtain it' where "blockIterator_prev it = (False, it')" using prev_stop by fastforce
  then show ?case by (subst blockRunPrev.simps, subst rollbackRun.simps) simp
next
  case (Suc n)
  then obtain e es where l: "prevLeft it = e # es" by (cases "prevLeft it") auto
  obtain it1 where 1: "blockIterator_prev it = (True, it1)" "prevIt B it1" "prevLeft it1 = es"
    using prev_step[OF Suc.prems l] by blast
  have "rollbackRun h it1 = blockRunPrev (\<lambda>b. \<not> bHeight (recBlock b) <s h) it1"
    using Suc.hyps(1)[of it1] Suc.hyps(2) 1 l by simp
  then show ?case using 1(1) prevIt_reposition[OF 1(2) prev_true_started[OF 1(1)]]
    by (subst blockRunPrev.simps, subst rollbackRun.simps) simp
qed

text \<open>On blocks that come highest first, stopping at the first block below a height is filtering.\<close>

lemma takeWhile_sorted:
  "sorted_wrt (\<lambda>a b. \<not> P a \<longrightarrow> \<not> P b) xs \<Longrightarrow> takeWhile P xs = filter P xs"
  by (induction xs) (auto simp: filter_empty_conv)

lemma blocksDown_sorted:
  assumes "blocks_wf B"
  shows "sorted_wrt (\<lambda>a b. bHeight (recBlock b) <s bHeight (recBlock a)) (blocksDown B)"
proof -
  have "sorted_wrt (\<lambda>x y. fst x < fst y) (entries B)"
    using keys_sorted_entries[of B] by (simp add: keys_sorted_def sorted_wrt_map)
  then have "sorted_wrt (\<lambda>x y. bHeight (recBlock (blockOf x)) <s bHeight (recBlock (blockOf y))) (entries B)"
  proof (rule sorted_wrt_mono_rel[rotated])
    fix x y assume "x \<in> set (entries B)" "y \<in> set (entries B)" "fst x < fst y"
    then show "bHeight (recBlock (blockOf x)) <s bHeight (recBlock (blockOf y))"
      using blocks_wfD[OF assms, of x] blocks_wfD[OF assms, of y] height_order unfolding block_entry_ok_def by metis
  qed
  then show ?thesis by (simp add: blocksDown_def sorted_wrt_map sorted_wrt_rev)
qed

lemma blocks_at_least:
  assumes "blocks_wf B"
  shows "takeWhile (\<lambda>b. \<not> bHeight (recBlock b) <s h) (blocksDown B) = filter (\<lambda>b. \<not> bHeight (recBlock b) <s h) (blocksDown B)"
  by (rule takeWhile_sorted, rule sorted_wrt_mono_rel[OF _ blocksDown_sorted[OF assms]])
    (simp add: word_sless_alt)

lemma reverse_run:
  assumes "blocks_wf (sBlocks ns)"
  shows "\<exists>it. blockRunPrev (\<lambda>b. \<not> bHeight (recBlock b) <s h) (makeReverseBlockIterator ns)
      = (filter (\<lambda>b. \<not> bHeight (recBlock b) <s h) (blocksDown (sBlocks ns)), it) \<and> biErr it = None"
    "\<exists>it. rollbackRun h (makeReverseBlockIterator ns)
      = (filter (\<lambda>b. \<not> bHeight (recBlock b) <s h) (blocksDown (sBlocks ns)), it) \<and> biErr it = None"
  using blockRunPrev_eq[OF prevIt_make[OF assms], of "\<lambda>b. \<not> bHeight (recBlock b) <s h"]
    rollbackRun_eq[OF prevIt_make[OF assms], of h] blocks_at_least[OF assms, of h]
  by (simp_all add: prevLeft_make blocksDown_def)

lemma mem_blocksDown:
  "blocks_wf B \<Longrightarrow> b \<in> set (blocksDown B) \<longleftrightarrow> (\<exists>k v. bucketGet B k = Some v \<and> block_entry_ok k v b)"
proof
  assume wf: "blocks_wf B"
  show "b \<in> set (blocksDown B) \<Longrightarrow> \<exists>k v. bucketGet B k = Some v \<and> block_entry_ok k v b"
  proof -
    assume "b \<in> set (blocksDown B)"
    then obtain k v where e: "(k, v) \<in> set (entries B)" "b = blockOf (k, v)" by (auto simp: blocksDown_def)
    then have "bucketGet B k = Some v" by (simp add: kv.mem_items_iff)
    moreover have "block_entry_ok k v b" using blocks_wfD[OF wf e(1)] by (simp add: e(2))
    ultimately show "\<exists>k v. bucketGet B k = Some v \<and> block_entry_ok k v b" by blast
  qed
  show "\<exists>k v. bucketGet B k = Some v \<and> block_entry_ok k v b \<Longrightarrow> b \<in> set (blocksDown B)"
    using blockOf_ok by (auto simp: blocksDown_def kv.mem_items_iff[symmetric])
qed

end
