(* ===== verification/Store_Rollback.thy ===== *)
theory Store_Rollback
  imports Store_Inv Block_Iter
begin

text \<open>
  \<open>rollback\<close> of \<open>wtxmgr/tx.go\<close>: detaching the blocks at and above a height.  One lemma
  per loop of the code, then the transaction, the blocks and the whole operation: it succeeds, and the
  store then holds exactly the chain below the height, with the detached transactions unmined again
  except for the coinbases and what spends them.
\<close>

section \<open>Rolling back one output\<close>

lemma readValue_flag: "fetchRawCreditAmountChange cv = Inr (a, ch) \<longleftrightarrow> 9 \<le> length cv \<and> a = uint64_of cv \<and> ch = flagChange cv"
  by (auto simp: fetchRawCreditAmountChange_def)

lemma existsRawUnspent_ledger:
  assumes "ledger ns bal" "sUnspent ns' = sUnspent ns"
  shows "existsRawUnspent ns' (canonicalOutPoint h i) = map_option (unspentCredKey (canonicalOutPoint h i)) (unspentAt ns h i)"
proof -
  have "existsRawUnspent ns' (canonicalOutPoint h i) = existsRawUnspent ns (canonicalOutPoint h i)"
    using assms(2) by (simp add: existsRawUnspent_def)
  then show ?thesis using existsUnspent_ledger[OF assms(1), of "\<lparr>opHash = h, opIndex = i\<rparr>"]
    by (auto simp: existsUnspent_def Let_def split: option.splits)
qed

text \<open>The credit of an output, if there is one, is deleted; the mined balance loses it if it was unspent.\<close>

definition dropCredit :: "store \<Rightarrow> hash \<Rightarrow> u32 \<Rightarrow> block \<Rightarrow> store" where
  "dropCredit ns h i b = (if creditAt ns h i b = None then ns else deleteStore ns h i b)"

lemma dropCredit_at:
  "creditAt (dropCredit ns h i b) h' i' b' = (if h' = h \<and> i' = i \<and> b' = b then None else creditAt ns h' i' b')"
  "sDebits (dropCredit ns h i b) = sDebits ns"
  by (auto simp: dropCredit_def deleteStore_at) (simp add: deleteStore_def)

lemma dropCredit_frame:
  "dropCredit ns h i b = ns\<lparr>sCredits := sCredits (dropCredit ns h i b), sUnspent := sUnspent (dropCredit ns h i b)\<rparr>"
  by (simp add: dropCredit_def deleteStore_def)

lemma dropCredit_books: "books E ns M \<Longrightarrow> books E (dropCredit ns h i b) M"
  using books_deleteStore by (auto simp: dropCredit_def)

text \<open>The balance after a credit of \<open>tx\<close> is dropped, as both loops of \<open>rollback\<close> compute it.\<close>

definition dropBalance :: "store \<Rightarrow> hash \<Rightarrow> u32 \<Rightarrow> block \<Rightarrow> amount \<Rightarrow> amount \<Rightarrow> amount" where
  "dropBalance ns h i b a bal = (if creditAt ns h i b \<noteq> None \<and> unspentAt ns h i \<noteq> None then bal - a else bal)"

lemma dropCredit_ledger:
  assumes "books E ns M" "ledger ns bal" "M h = Some (b, tx)" "unat i < length (TxOut tx)"
  shows "ledger (dropCredit ns h i b) (dropBalance ns h i b (Value (TxOut tx ! unat i)) bal)"
proof (cases "creditAt ns h i b")
  case (Some cv)
  obtain tx' where "M h = Some (b, tx')" "output_credit tx' i cv" by (rule creditAt_mined[OF assms(1) Some])
  then have "uint64_of cv = Value (TxOut tx ! unat i)" using assms(3) by (simp add: output_credit_def)
  then show ?thesis using ledger_deleteStore[OF assms(1,2) Some] Some
    by (cases "unspentAt ns h i") (simp_all add: dropCredit_def dropBalance_def)
qed (use assms(2) in \<open>simp add: dropCredit_def dropBalance_def\<close>)

lemma deleteStore_absent: "unspentAt ns h i = None \<Longrightarrow> deleteStore ns h i b = ns\<lparr>sCredits := bucketDelete (sCredits ns) (keyCredit h i b)\<rparr>"
  by (simp add: deleteStore_def unspentAt_def kv.del_absent)

lemma rollbackOutput_eq:
  assumes db: "db_ok E" and bk: "books E ns M" and l: "ledger ns bal"
  shows "rollbackOutput E h b (i, out) (ns, bal) = Inr (case creditAt ns h i b of
      None \<Rightarrow> (ns, bal)
    | Some cv \<Rightarrow> ((dropCredit ns h i b)\<lparr>sUnminedCredits := bucketPut (sUnminedCredits ns) (canonicalOutPoint h i)
          (valueUnminedCredit (uint64_of cv) (flagChange cv))\<rparr>, dropBalance ns h i b (Value out) bal))"
proof (cases "creditAt ns h i b")
  case None
  then show ?thesis by (simp add: rollbackOutput_def existsCredit_def creditAt_def Let_def)
next
  case (Some cv)
  let ?k = "canonicalOutPoint h i"
  have ck: "bucketGet (sCredits ns) (keyCredit h i b) = Some cv" using Some by (simp add: creditAt_def)
  have rd: "fetchRawCreditAmountChange cv = Inr (uint64_of cv, flagChange cv)"
    using creditAt_length[OF bk Some] by (simp add: fetchRawCreditAmountChange_def)
  note un = existsRawUnspent_ledger[OF l]
  show ?thesis
  proof (cases "unspentAt ns h i")
    case None
    then show ?thesis using Some ck rd db
      by (simp add: rollbackOutput_def existsCredit_def putRawUnminedCredit_def deleteRawCredit_def Let_def
          dropCredit_def dropBalance_def deleteStore_absent un)
  next
    case (Some v)
    then show ?thesis using \<open>creditAt ns h i b = Some cv\<close> ck rd db
      by (simp add: rollbackOutput_def existsCredit_def putRawUnminedCredit_def deleteRawCredit_def Let_def
          dropCredit_def dropBalance_def deleteStore_def deleteRawUnspent_def un)
  qed
qed

lemma rollbackCoinbaseOutput_eq:
  assumes db: "db_ok E" and l: "ledger ns bal"
  shows "rollbackCoinbaseOutput E h b (i, out) (ns, bal, cs) = Inr (dropCredit ns h i b, dropBalance ns h i b (Value out) bal,
    if creditAt ns h i b = None then cs else cs @ [\<lparr>opHash = h, opIndex = i\<rparr>])"
proof (cases "creditAt ns h i b")
  case None
  then show ?thesis
    by (simp add: rollbackCoinbaseOutput_def existsCredit_def creditAt_def dropCredit_def dropBalance_def Let_def)
next
  case (Some cv)
  then show ?thesis using db existsUnspent_ledger[OF l, of "\<lparr>opHash = h, opIndex = i\<rparr>"]
    by (cases "unspentAt ns h i")
      (simp add: rollbackCoinbaseOutput_def existsCredit_def creditAt_def dropCredit_def dropBalance_def
        deleteStore_absent deleteRawCredit_def Let_def,
       simp add: rollbackCoinbaseOutput_def existsCredit_def creditAt_def dropCredit_def dropBalance_def
        deleteStore_def deleteRawUnspent_def deleteRawCredit_def Let_def)
qed

section \<open>Rolling back all outputs\<close>

text \<open>What the loops over the outputs leave alone, and what they do to the credits.\<close>

definition outputs_dropped :: "hash \<Rightarrow> block \<Rightarrow> u32 set \<Rightarrow> store \<Rightarrow> store \<Rightarrow> bool" where
  "outputs_dropped h b I ns ns' \<longleftrightarrow>
     ns' = ns\<lparr>sCredits := sCredits ns', sUnspent := sUnspent ns', sUnminedCredits := sUnminedCredits ns'\<rparr>
     \<and> (\<forall>g i b'. creditAt ns' g i b' = (if g = h \<and> i \<in> I \<and> b' = b then None else creditAt ns g i b'))"

lemma outputs_dropped_refl: "outputs_dropped h b {} ns ns"
  by (simp add: outputs_dropped_def)

lemma outputs_dropped_trans:
  assumes "outputs_dropped h b I ns ns1" "outputs_dropped h b J ns1 ns2"
  shows "outputs_dropped h b (I \<union> J) ns ns2"
proof -
  obtain x y z where 1: "ns1 = ns\<lparr>sCredits := x, sUnspent := y, sUnminedCredits := z\<rparr>"
    using assms(1) unfolding outputs_dropped_def by blast
  obtain x' y' z' where 2: "ns2 = ns1\<lparr>sCredits := x', sUnspent := y', sUnminedCredits := z'\<rparr>"
    using assms(2) unfolding outputs_dropped_def by blast
  have "\<forall>g i b'. creditAt ns2 g i b' = (if g = h \<and> i \<in> I \<union> J \<and> b' = b then None else creditAt ns g i b')"
    using assms unfolding outputs_dropped_def by simp
  then show ?thesis unfolding outputs_dropped_def by (simp add: 1 2)
qed

lemma outputs_dropped_one: "outputs_dropped h b {i} ns (dropCredit ns h i b)"
  unfolding outputs_dropped_def using dropCredit_frame[of ns h i b] dropCredit_at[of ns h i b]
  by (auto simp: dropCredit_def deleteStore_def)

lemma unmined_credits_put:
  assumes "unmined_credits ns U" "U h = Some tx" "unat i < length (TxOut tx)"
    and "sUnminedCredits ns' = bucketPut (sUnminedCredits ns) (canonicalOutPoint h i) (valueUnminedCredit (Value (TxOut tx ! unat i)) ch)"
  shows "unmined_credits ns' U"
  using assms unfolding unmined_credits_def by (auto simp: bucketGet_upd)

lemma unmined_credits_mono:
  assumes "unmined_credits ns U" "sUnminedCredits ns' = sUnminedCredits ns" "\<And>h tx. U h = Some tx \<Longrightarrow> U' h = Some tx"
  shows "unmined_credits ns' U'"
  using assms unfolding unmined_credits_def by metis

lemma unminedCredits_wf_put:
  "unminedCredits_wf ns \<Longrightarrow> sUnminedCredits ns' = bucketPut (sUnminedCredits ns) (canonicalOutPoint h i) (valueUnminedCredit a ch)
    \<Longrightarrow> unminedCredits_wf ns'"
  unfolding unminedCredits_wf_def by (auto simp: bucketGet_upd split: if_splits)

lemma rollbackOutputs:
  assumes db: "db_ok E" and M: "M h = Some (b, tx)" and U: "U h = Some tx"
  shows "set os \<subseteq> set (indexed (TxOut tx)) \<Longrightarrow> length (TxOut tx) < 2 ^ 32 \<Longrightarrow> books E ns M \<Longrightarrow> ledger ns bal \<Longrightarrow>
    unmined_credits ns U \<Longrightarrow> unminedCredits_wf ns \<Longrightarrow>
    \<exists>ns' bal'. foldE (rollbackOutput E h b) os (ns, bal) = Inr (ns', bal') \<and> books E ns' M \<and> ledger ns' bal'
      \<and> unmined_credits ns' U \<and> unminedCredits_wf ns' \<and> outputs_dropped h b (fst ` set os) ns ns'"
proof (induction os arbitrary: ns bal)
  case Nil
  then show ?case using outputs_dropped_refl by auto
next
  case (Cons x os)
  obtain i out where x: "x = (i, out)" by fastforce
  have i: "unat i < length (TxOut tx)" "out = TxOut tx ! unat i"
    using Cons.prems(1) indexed_mem[OF Cons.prems(2), of i out] by (auto simp: x)
  define ns1 where "ns1 = fst (case creditAt ns h i b of None \<Rightarrow> (ns, bal)
    | Some cv \<Rightarrow> ((dropCredit ns h i b)\<lparr>sUnminedCredits := bucketPut (sUnminedCredits ns) (canonicalOutPoint h i)
          (valueUnminedCredit (uint64_of cv) (flagChange cv))\<rparr>, dropBalance ns h i b (Value out) bal))"
  have step: "rollbackOutput E h b x (ns, bal) = Inr (ns1, dropBalance ns h i b (Value out) bal)"
    unfolding x rollbackOutput_eq[OF db Cons.prems(3,4)] ns1_def
    by (auto simp: dropBalance_def split: option.splits)
  have P: "books E ns1 M \<and> ledger ns1 (dropBalance ns h i b (Value out) bal) \<and> unmined_credits ns1 U
      \<and> unminedCredits_wf ns1 \<and> outputs_dropped h b {i} ns ns1"
  proof (cases "creditAt ns h i b")
    case None
    then have "ns1 = ns" "dropBalance ns h i b (Value out) bal = bal" "dropCredit ns h i b = ns"
      by (simp_all add: ns1_def dropBalance_def dropCredit_def)
    then show ?thesis using Cons.prems outputs_dropped_one[of h b i ns] by simp
  next
    case (Some cv)
    obtain tx' where "M h = Some (b, tx')" "output_credit tx' i cv" by (rule creditAt_mined[OF Cons.prems(3) Some])
    then have v: "uint64_of cv = Value (TxOut tx ! unat i)" using M by (simp add: output_credit_def)
    have ns1: "ns1 = (dropCredit ns h i b)\<lparr>sUnminedCredits := bucketPut (sUnminedCredits ns) (canonicalOutPoint h i)
          (valueUnminedCredit (Value (TxOut tx ! unat i)) (flagChange cv))\<rparr>" using Some v by (simp add: ns1_def)
    have "books E ns1 M" using dropCredit_books[OF Cons.prems(3)] books_cong[of ns1 "dropCredit ns h i b"] by (simp add: ns1)
    moreover have "ledger ns1 (dropBalance ns h i b (Value out) bal)"
      using dropCredit_ledger[OF Cons.prems(3,4) M i(1)] ledger_cong[of ns1 "dropCredit ns h i b"] i(2) by (simp add: ns1)
    moreover have "unmined_credits ns1 U" by (rule unmined_credits_put[OF Cons.prems(5) U i(1)]) (simp add: ns1)
    moreover have "unminedCredits_wf ns1" by (rule unminedCredits_wf_put[OF Cons.prems(6)]) (simp add: ns1)
    moreover have "outputs_dropped h b {i} ns ns1"
    proof -
      obtain y z where d: "dropCredit ns h i b = ns\<lparr>sCredits := y, sUnspent := z\<rparr>" using dropCredit_frame by blast
      show ?thesis using outputs_dropped_one[of h b i ns] unfolding outputs_dropped_def ns1 creditAt_def d by simp
    qed
    ultimately show ?thesis by blast
  qed
  obtain ns' bal' where r: "foldE (rollbackOutput E h b) os (ns1, dropBalance ns h i b (Value out) bal) = Inr (ns', bal')"
    "books E ns' M" "ledger ns' bal'" "unmined_credits ns' U" "unminedCredits_wf ns'" "outputs_dropped h b (fst ` set os) ns1 ns'"
    using Cons.IH[of ns1 "dropBalance ns h i b (Value out) bal"] P Cons.prems(1,2) by auto
  have "outputs_dropped h b (fst ` set (x # os)) ns ns'"
    using outputs_dropped_trans[OF _ r(6), of "{i}" ns] P by (simp add: x)
  then show ?case using step r by auto
qed

lemma rollbackCoinbaseOutputs:
  assumes db: "db_ok E" and M: "M h = Some (b, tx)"
  shows "set os \<subseteq> set (indexed (TxOut tx)) \<Longrightarrow> length (TxOut tx) < 2 ^ 32 \<Longrightarrow> distinct (map fst os) \<Longrightarrow>
    books E ns M \<Longrightarrow> ledger ns bal \<Longrightarrow>
    \<exists>ns' bal' cs'. foldE (rollbackCoinbaseOutput E h b) os (ns, bal, cs) = Inr (ns', bal', cs') \<and> books E ns' M \<and> ledger ns' bal'
      \<and> sUnminedCredits ns' = sUnminedCredits ns \<and> outputs_dropped h b (fst ` set os) ns ns'
      \<and> set cs' = set cs \<union> {op. opHash op = h \<and> opIndex op \<in> fst ` set os \<and> creditAt ns h (opIndex op) b \<noteq> None}"
proof (induction os arbitrary: ns bal cs)
  case Nil
  then show ?case using outputs_dropped_refl by auto
next
  case (Cons x os)
  obtain i out where x: "x = (i, out)" by fastforce
  have i: "unat i < length (TxOut tx)" "out = TxOut tx ! unat i"
    using Cons.prems(1) indexed_mem[OF Cons.prems(2), of i out] by (auto simp: x)
  let ?ns1 = "dropCredit ns h i b" and ?bal1 = "dropBalance ns h i b (Value out) bal"
  let ?cs1 = "if creditAt ns h i b = None then cs else cs @ [\<lparr>opHash = h, opIndex = i\<rparr>]"
  have step: "rollbackCoinbaseOutput E h b x (ns, bal, cs) = Inr (?ns1, ?bal1, ?cs1)"
    unfolding x by (rule rollbackCoinbaseOutput_eq[OF db Cons.prems(5)])
  have P: "books E ?ns1 M" "ledger ?ns1 ?bal1" "sUnminedCredits ?ns1 = sUnminedCredits ns" "outputs_dropped h b {i} ns ?ns1"
    using dropCredit_books[OF Cons.prems(4)] dropCredit_ledger[OF Cons.prems(4,5) M i(1)] i(2) outputs_dropped_one
    by (simp_all add: dropCredit_def deleteStore_def)
  obtain ns' bal' cs' where r: "foldE (rollbackCoinbaseOutput E h b) os (?ns1, ?bal1, ?cs1) = Inr (ns', bal', cs')"
    "books E ns' M" "ledger ns' bal'" "sUnminedCredits ns' = sUnminedCredits ?ns1" "outputs_dropped h b (fst ` set os) ?ns1 ns'"
    "set cs' = set ?cs1 \<union> {op. opHash op = h \<and> opIndex op \<in> fst ` set os \<and> creditAt ?ns1 h (opIndex op) b \<noteq> None}"
    using Cons.IH[of ?ns1 ?bal1 ?cs1] P Cons.prems(1-3) by auto
  have "outputs_dropped h b (fst ` set (x # os)) ns ns'" using outputs_dropped_trans[OF P(4) r(5)] by (simp add: x)
  moreover have "set cs' = set cs \<union> {op. opHash op = h \<and> opIndex op \<in> fst ` set (x # os) \<and> creditAt ns h (opIndex op) b \<noteq> None}"
  proof -
    have ni: "i \<notin> fst ` set os" using Cons.prems(3) by (simp add: x)
    have "op = \<lparr>opHash = h, opIndex = i\<rparr> \<longleftrightarrow> opHash op = h \<and> opIndex op = i" for op :: outPoint by (cases op) auto
    then show ?thesis unfolding r(6) using ni by (auto simp: x dropCredit_at split: if_splits)
  qed
  ultimately show ?case using step r P(3) by auto
qed

section \<open>Rolling back the inputs\<close>

definition inputs_undone :: "hash \<Rightarrow> block \<Rightarrow> u32 set \<Rightarrow> store \<Rightarrow> store \<Rightarrow> bool" where
  "inputs_undone h b I ns ns' \<longleftrightarrow>
     ns' = ns\<lparr>sCredits := sCredits ns', sUnspent := sUnspent ns', sDebits := sDebits ns', sUnminedInputs := sUnminedInputs ns'\<rparr>
     \<and> (\<forall>k. bucketGet (sCredits ns') k = None \<longleftrightarrow> bucketGet (sCredits ns) k = None)
     \<and> (\<forall>k. bucketGet (sDebits ns') k = (if k \<in> (\<lambda>i. keyDebit h i b) ` I then None else bucketGet (sDebits ns) k))"

lemma inputs_undone_refl: "inputs_undone h b {} ns ns"
  by (simp add: inputs_undone_def)

lemma inputs_undone_trans:
  assumes "inputs_undone h b I ns ns1" "inputs_undone h b J ns1 ns2"
  shows "inputs_undone h b (I \<union> J) ns ns2"
proof -
  obtain x y z w where 1: "ns1 = ns\<lparr>sCredits := x, sUnspent := y, sDebits := z, sUnminedInputs := w\<rparr>"
    using assms(1) unfolding inputs_undone_def by blast
  obtain x' y' z' w' where 2: "ns2 = ns1\<lparr>sCredits := x', sUnspent := y', sDebits := z', sUnminedInputs := w'\<rparr>"
    using assms(2) unfolding inputs_undone_def by blast
  have "\<forall>k. bucketGet (sCredits ns2) k = None \<longleftrightarrow> bucketGet (sCredits ns) k = None"
    using assms unfolding inputs_undone_def by simp
  moreover have "\<forall>k. bucketGet (sDebits ns1) k = (if k \<in> (\<lambda>i. keyDebit h i b) ` I then None else bucketGet (sDebits ns) k)"
    "\<forall>k. bucketGet (sDebits ns2) k = (if k \<in> (\<lambda>i. keyDebit h i b) ` J then None else bucketGet (sDebits ns1) k)"
    using assms unfolding inputs_undone_def by blast+
  then have "\<forall>k. bucketGet (sDebits ns2) k = (if k \<in> (\<lambda>i. keyDebit h i b) ` (I \<union> J) then None else bucketGet (sDebits ns) k)"
    by (auto simp: image_Un)
  ultimately show ?thesis unfolding inputs_undone_def by (simp add: 1 2)
qed

text \<open>The part of \<open>rollbackInput\<close> that follows a debit.\<close>

lemma undoDebit:
  assumes db: "db_ok E" and bk: "books E ns M" and l: "ledger ns bal" and M: "M h = Some (b, tx)"
    and i: "(i, inp) \<in> set (indexed (TxIn tx))" "length (TxIn tx) < 2 ^ 32"
  shows "\<exists>ns' bal'. bindE (existsDebit ns h i b) (\<lambda>deb. case deb of
          None \<Rightarrow> Inr (ns, bal)
        | Some (debKey, credKey) \<Rightarrow>
            bindE (unspendRawCredit E ns credKey) (\<lambda>(amt, ns).
            bindE (deleteRawDebit E ns debKey) (\<lambda>ns.
            if amt = 0 then Inr (ns, bal)
            else
              bindE (fetchRawCreditUnspentValue credKey) (\<lambda>unspentVal.
              bindE (putRawUnspent E ns (inputKey inp) unspentVal) (\<lambda>ns.
              Inr (ns, bal + amt)))))) = Inr (ns', bal')
    \<and> books E ns' M \<and> ledger ns' bal' \<and> inputs_undone h b {i} ns ns' \<and> sUnminedInputs ns' = sUnminedInputs ns"
proof (cases "bucketGet (sDebits ns) (keyDebit h i b)")
  case None
  moreover have "inputs_undone h b {i} ns ns" using None by (simp add: inputs_undone_def)
  ultimately show ?thesis using bk l by (simp add: existsDebit_def)
next
  case (Some v)
  let ?op = "PreviousOutPoint inp" and ?dk = "keyDebit h i b"
  have i': "inp = TxIn tx ! unat i" using indexed_mem[OF i(2)] i(1) by simp
  obtain amt b' where v: "v = valueDebit amt (keyCredit (opHash ?op) (opIndex ?op) b')"
    and fl: "\<And>cv. creditAt ns (opHash ?op) (opIndex ?op) b' = Some cv \<Longrightarrow> flagSpent cv \<and> uint64_of cv = amt"
    using debit_get[OF bk Some] M i' by (metis option.inject prod.inject)
  let ?ck = "keyCredit (opHash ?op) (opIndex ?op) b'"
  have ed: "existsDebit ns h i b = Inr (Some (?dk, ?ck))"
    using Some by (simp add: existsDebit_def v valueDebit_def slice_def copyN_def)
  show ?thesis
  proof (cases "creditAt ns (opHash ?op) (opIndex ?op) b'")
    case None
    let ?ns' = "ns\<lparr>sDebits := bucketDelete (sDebits ns) ?dk\<rparr>"
    have "unspendRawCredit E ns ?ck = Inr (0, ns)" using None by (simp add: unspendRawCredit_def creditAt_def)
    moreover have "inputs_undone h b {i} ns ?ns'" by (simp add: inputs_undone_def bucketGet_upd)
    moreover have "ledger ?ns' bal" using l ledger_cong[of ?ns' ns] by simp
    ultimately show ?thesis using ed db books_dropDebit[OF bk, of ?dk] by (simp add: deleteRawDebit_def)
  next
    case (Some cv)
    note f = fl[OF Some]
    have ck: "bucketGet (sCredits ns) ?ck = Some cv" using Some by (simp add: creditAt_def)
    have un: "unspendRawCredit E ns ?ck = Inr (uint64_of cv, ns\<lparr>sCredits := bucketPut (sCredits ns) ?ck (valueRestoredCredit cv)\<rparr>)"
      using ck db creditAt_length[OF bk Some] by (simp add: unspendRawCredit_def Let_def uint64_of_def slice_def)
    let ?ns' = "restoreStore ns ?op b' cv ?dk"
    have "inputs_undone h b {i} ns ?ns'" using ck by (auto simp: inputs_undone_def restoreStore_def bucketGet_upd)
    moreover have "books E ?ns' M"
      by (rule books_restoreStore[OF bk Some, of ?dk amt]) (use \<open>bucketGet (sDebits ns) ?dk = Some v\<close> v in simp)
    moreover have "ledger ?ns' (bal + uint64_of cv)" using ledger_restoreStore[OF bk l Some] f by blast
    ultimately show ?thesis using ed un db
      by (intro exI[of _ ?ns'] exI[of _ "bal + uint64_of cv"])
        (simp add: deleteRawDebit_def putRawUnspent_def restoreStore_def inputKey_def)
  qed
qed

lemma rollbackInput_spec:
  assumes db: "db_ok E" and bk: "books E ns M" and l: "ledger ns bal" and M: "M h = Some (b, tx)"
    and i: "(i, inp) \<in> set (indexed (TxIn tx))" "length (TxIn tx) < 2 ^ 32" and s: "spends_indexed ns S"
  shows "\<exists>ns' bal'. rollbackInput E h b (i, inp) (ns, bal) = Inr (ns', bal')
    \<and> books E ns' M \<and> ledger ns' bal' \<and> inputs_undone h b {i} ns ns'
    \<and> spends_indexed ns' (\<lambda>k. if k = inputKey inp then insert h (S k) else S k)"
proof -
  let ?S = "\<lambda>k. if k = inputKey inp then insert h (S k) else S k"
  obtain ns0 where 0: "putRawUnminedInput E ns (inputKey inp) (hashBytes h) = Inr ns0"
    "ns0 = ns\<lparr>sUnminedInputs := sUnminedInputs ns0\<rparr>" "spends_indexed ns0 ?S"
    using spends_indexed_put[OF db s, of "inputKey inp" h] by blast
  obtain w where w: "ns0 = ns\<lparr>sUnminedInputs := w\<rparr>" using 0(2) by blast
  have bk0: "books E ns0 M" "ledger ns0 bal" using bk l books_cong[of ns0 ns] ledger_cong[of ns0 ns] by (simp_all add: w)
  obtain ns' bal' where r: "bindE (existsDebit ns0 h i b) (\<lambda>deb. case deb of
          None \<Rightarrow> Inr (ns0, bal)
        | Some (debKey, credKey) \<Rightarrow>
            bindE (unspendRawCredit E ns0 credKey) (\<lambda>(amt, ns).
            bindE (deleteRawDebit E ns debKey) (\<lambda>ns.
            if amt = 0 then Inr (ns, bal)
            else
              bindE (fetchRawCreditUnspentValue credKey) (\<lambda>unspentVal.
              bindE (putRawUnspent E ns (inputKey inp) unspentVal) (\<lambda>ns.
              Inr (ns, bal + amt)))))) = Inr (ns', bal')"
    "books E ns' M" "ledger ns' bal'" "inputs_undone h b {i} ns0 ns'" "sUnminedInputs ns' = sUnminedInputs ns0"
    using undoDebit[OF db bk0 M i] by (elim exE conjE)
  have "rollbackInput E h b (i, inp) (ns, bal) = Inr (ns', bal')"
    using 0(1) r(1) unfolding rollbackInput_def inputKey_def by (simp del: bindE_eq_Inr)
  moreover have "inputs_undone h b {i} ns ns'"
  proof -
    obtain x y z u where "ns' = ns0\<lparr>sCredits := x, sUnspent := y, sDebits := z, sUnminedInputs := u\<rparr>"
      using r(4) unfolding inputs_undone_def by blast
    then show ?thesis using r(4) by (simp add: inputs_undone_def w)
  qed
  moreover have "spends_indexed ns' ?S" using 0(3) r(5) by (simp add: spends_indexed_def fetchUnminedInputSpendTxHashes_def)
  ultimately show ?thesis using r(2,3) by blast
qed

lemma rollbackInputs:
  assumes db: "db_ok E" and M: "M h = Some (b, tx)" and n: "length (TxIn tx) < 2 ^ 32"
  shows "set xs \<subseteq> set (indexed (TxIn tx)) \<Longrightarrow> books E ns M \<Longrightarrow> ledger ns bal \<Longrightarrow> spends_indexed ns S \<Longrightarrow>
    \<exists>ns' bal'. foldE (rollbackInput E h b) xs (ns, bal) = Inr (ns', bal')
      \<and> books E ns' M \<and> ledger ns' bal' \<and> inputs_undone h b (fst ` set xs) ns ns'
      \<and> spends_indexed ns' (\<lambda>k. if k \<in> inputKey ` snd ` set xs then insert h (S k) else S k)"
proof (induction xs arbitrary: ns bal S)
  case Nil
  then show ?case using inputs_undone_refl by auto
next
  case (Cons x xs)
  obtain i inp where x: "x = (i, inp)" by fastforce
  have i: "(i, inp) \<in> set (indexed (TxIn tx))" using Cons.prems(1) by (simp add: x)
  let ?S = "\<lambda>k. if k = inputKey inp then insert h (S k) else S k"
  obtain ns1 bal1 where 1: "rollbackInput E h b x (ns, bal) = Inr (ns1, bal1)" "books E ns1 M" "ledger ns1 bal1"
    "inputs_undone h b {i} ns ns1" "spends_indexed ns1 ?S"
    using rollbackInput_spec[OF db Cons.prems(2,3) M i n Cons.prems(4)] unfolding x by blast
  obtain ns' bal' where 2: "foldE (rollbackInput E h b) xs (ns1, bal1) = Inr (ns', bal')" "books E ns' M" "ledger ns' bal'"
    "inputs_undone h b (fst ` set xs) ns1 ns'"
    "spends_indexed ns' (\<lambda>k. if k \<in> inputKey ` snd ` set xs then insert h (?S k) else ?S k)"
    using Cons.IH[OF _ 1(2,3,5)] Cons.prems(1) by auto
  have "inputs_undone h b (fst ` set (x # xs)) ns ns'" using inputs_undone_trans[OF 1(4) 2(4)] by (simp add: x)
  moreover have "(\<lambda>k. if k \<in> inputKey ` snd ` set xs then insert h (?S k) else ?S k)
      = (\<lambda>k. if k \<in> inputKey ` snd ` set (x # xs) then insert h (S k) else S k)" by (auto simp: fun_eq_iff x)
  ultimately show ?case using 1(1) 2 by simp
qed

section \<open>Rolling back one transaction\<close>

text \<open>What holds while blocks are being detached: everything but that debits have their credits and
  that the block records agree with the transactions.\<close>

definition rolling :: "env \<Rightarrow> (hash \<Rightarrow> nat) \<Rightarrow> store \<Rightarrow> amount \<Rightarrow> minedMap \<Rightarrow> txMap \<Rightarrow> bool" where
  "rolling E r ns bal M U \<longleftrightarrow> ledger ns bal \<and> books E ns M \<and> mempool E ns U \<and> unmined_credits ns U
     \<and> unminedCredits_wf ns \<and> mined_holds E ns M \<and> (\<forall>h b tx. M h = Some (b, tx) \<longrightarrow> wf_tx E r h tx)
     \<and> (\<forall>h. M h = None \<or> U h = None)"

text \<open>What rolling back the transactions of \<open>D\<close> leaves alone.\<close>

definition tx_rolled :: "hash set \<Rightarrow> store \<Rightarrow> store \<Rightarrow> bool" where
  "tx_rolled D ns ns' \<longleftrightarrow> sBlocks ns' = sBlocks ns \<and> sRoot ns' = sRoot ns \<and> sLockedOutputs ns' = sLockedOutputs ns
     \<and> (\<forall>g i b. g \<notin> D \<longrightarrow> creditAt ns' g i b = None \<longleftrightarrow> creditAt ns g i b = None)
     \<and> (\<forall>g i b. creditAt ns' g i b \<noteq> None \<longrightarrow> creditAt ns g i b \<noteq> None)
     \<and> (\<forall>k v. bucketGet (sDebits ns') k = Some v \<longrightarrow> bucketGet (sDebits ns) k = Some v)"

lemma tx_rolled_trans: "tx_rolled D ns ns1 \<Longrightarrow> tx_rolled D' ns1 ns2 \<Longrightarrow> tx_rolled (D \<union> D') ns ns2"
  unfolding tx_rolled_def by auto

lemma outputs_dropped_rolled:
  assumes "outputs_dropped h b I ns ns'" shows "tx_rolled {h} ns ns'"
proof -
  obtain x y z where n: "ns' = ns\<lparr>sCredits := x, sUnspent := y, sUnminedCredits := z\<rparr>"
    using assms unfolding outputs_dropped_def by blast
  have "creditAt ns' g i b' = (if g = h \<and> i \<in> I \<and> b' = b then None else creditAt ns g i b')" for g i b'
    using assms unfolding outputs_dropped_def by blast
  then show ?thesis unfolding tx_rolled_def by (simp add: n)
qed

lemma inputs_undone_rolled:
  assumes "inputs_undone h b I ns ns'" shows "tx_rolled {} ns ns'"
proof -
  obtain x y z w where n: "ns' = ns\<lparr>sCredits := x, sUnspent := y, sDebits := z, sUnminedInputs := w\<rparr>"
    using assms unfolding inputs_undone_def by blast
  have "bucketGet (sCredits ns') k = None \<longleftrightarrow> bucketGet (sCredits ns) k = None"
    "bucketGet (sDebits ns') k = (if k \<in> (\<lambda>i. keyDebit h i b) ` I then None else bucketGet (sDebits ns) k)" for k
    using assms unfolding inputs_undone_def by blast+
  then show ?thesis unfolding tx_rolled_def by (simp add: n creditAt_def split: if_splits)
qed

lemma mined_holds_delete:
  assumes "mined_holds E ns M" "M h = Some (b, tx)" "sTxRecords ns' = bucketDelete (sTxRecords ns) (keyTxRecord h b)"
  shows "mined_holds E ns' (M(h := None))"
  unfolding mined_holds_def assms(3)
proof (intro conjI allI impI)
  fix k v assume a: "bucketGet (bucketDelete (sTxRecords ns) (keyTxRecord h b)) k = Some v"
  then have g: "bucketGet (sTxRecords ns) k = Some v" and ne: "k \<noteq> keyTxRecord h b" by (auto simp: bucketGet_upd split: if_splits)
  then obtain g b' tx' where p: "k = keyTxRecord g b'" "M g = Some (b', tx')" using assms(1) unfolding mined_holds_def by blast
  then have "g \<noteq> h" using assms(2) ne by auto
  then show "\<exists>g b tx. k = keyTxRecord g b \<and> (M(h := None)) g = Some (b, tx)" using p by auto
next
  fix g b' tx' assume a: "(M(h := None)) g = Some (b', tx')"
  then have ne: "g \<noteq> h" and g: "M g = Some (b', tx')" by (auto split: if_splits)
  then have "bucketGet (bucketDelete (sTxRecords ns) (keyTxRecord h b)) (keyTxRecord g b') = bucketGet (sTxRecords ns) (keyTxRecord g b')"
    by simp
  then show "\<exists>v r. bucketGet (bucketDelete (sTxRecords ns) (keyTxRecord h b)) (keyTxRecord g b') = Some v
      \<and> readRawTxRecord E g v = Inr r \<and> MsgTx r = tx'" using assms(1) g unfolding mined_holds_def by auto
qed

text \<open>Once all its outputs and inputs are processed, a transaction has neither credits nor debits.\<close>

lemma books_forget_tx:
  assumes bk: "books E ns M" and M: "M h = Some (b, tx)"
    and n: "length (TxIn tx) < 2 ^ 32" "length (TxOut tx) < 2 ^ 32"
    and c: "\<And>i. i \<in> fst ` set (indexed (TxOut tx)) \<Longrightarrow> creditAt ns h i b = None"
    and d: "\<And>j. \<not> isCoinBaseTx E tx \<Longrightarrow> j \<in> fst ` set (indexed (TxIn tx)) \<Longrightarrow> bucketGet (sDebits ns) (keyDebit h j b) = None"
  shows "books E ns (M(h := None))"
proof (rule books_forget[OF bk])
  fix i b'
  show "creditAt ns h i b' = None"
  proof (rule ccontr)
    assume "creditAt ns h i b' \<noteq> None"
    then obtain cv where cv: "creditAt ns h i b' = Some cv" by blast
    obtain tx' where "M h = Some (b', tx')" "output_credit tx' i cv" by (rule creditAt_mined[OF bk cv])
    then have "b' = b" "unat i < length (TxOut tx)" using M by (auto simp: output_credit_def)
    moreover have "(i, TxOut tx ! unat i) \<in> set (indexed (TxOut tx))" if "unat i < length (TxOut tx)"
      using indexed_mem[OF n(2)] that by simp
    then have "i \<in> fst ` set (indexed (TxOut tx))" if "unat i < length (TxOut tx)" using that by force
    ultimately show False using c cv by auto
  qed
  fix j
  show "bucketGet (sDebits ns) (keyDebit h j b') = None"
  proof (rule ccontr)
    assume "bucketGet (sDebits ns) (keyDebit h j b') \<noteq> None"
    then obtain v where v: "bucketGet (sDebits ns) (keyDebit h j b') = Some v" by blast
    obtain tx' amt b'' where "M h = Some (b', tx')" "unat j < length (TxIn tx')" "\<not> isCoinBaseTx E tx'"
      by (rule debit_get[OF bk v])
    then have "b' = b" "unat j < length (TxIn tx)" "\<not> isCoinBaseTx E tx" using M by auto
    moreover have "(j, TxIn tx ! unat j) \<in> set (indexed (TxIn tx))" if "unat j < length (TxIn tx)"
      using indexed_mem[OF n(1)] that by simp
    then have "j \<in> fst ` set (indexed (TxIn tx))" if "unat j < length (TxIn tx)" using that by force
    ultimately show False using d v by auto
  qed
qed

lemma tx_rolled_fields:
  "sBlocks ns' = sBlocks ns \<Longrightarrow> sRoot ns' = sRoot ns \<Longrightarrow> sLockedOutputs ns' = sLockedOutputs ns \<Longrightarrow>
    sCredits ns' = sCredits ns \<Longrightarrow> sDebits ns' = sDebits ns \<Longrightarrow> tx_rolled {} ns ns'"
  by (simp add: tx_rolled_def creditAt_def)

lemma rollbackTx_coinbase:
  assumes db: "db_ok E" and R: "rolling E r ns bal M U" and M: "M h = Some (b, tx)" and cb: "isCoinBaseTx E tx"
  shows "\<exists>ns' bal' cs'. rollbackTx E b h (ns, bal, cs) = Inr (ns', bal', cs') \<and> rolling E r ns' bal' (M(h := None)) U
    \<and> tx_rolled {h} ns ns' \<and> set cs' = set cs \<union> {op. opHash op = h \<and> creditAt ns h (opIndex op) b \<noteq> None}"
proof -
  have bk: "books E ns M" "ledger ns bal" "mined_holds E ns M" and wf: "wf_tx E r h tx" using R M by (auto simp: rolling_def)
  then have n: "length (TxIn tx) < 2 ^ 32" "length (TxOut tx) < 2 ^ 32" by (simp_all add: wf_tx_def)
  obtain v rc where v: "bucketGet (sTxRecords ns) (keyTxRecord h b) = Some v" "readRawTxRecord E h v = Inr rc" "MsgTx rc = tx"
    using bk(3) M unfolding mined_holds_def by blast
  have hr: "Hash rc = h" by (rule readRawTxRecord_Hash[OF v(2)])
  let ?ns0 = "ns\<lparr>sTxRecords := bucketDelete (sTxRecords ns) (keyTxRecord h b)\<rparr>"
  have 0: "books E ?ns0 M" "ledger ?ns0 bal" using bk books_cong[of ?ns0 ns] ledger_cong[of ?ns0 ns] by simp_all
  obtain ns' bal' cs' where 1: "foldE (rollbackCoinbaseOutput E h b) (indexed (TxOut tx)) (?ns0, bal, cs) = Inr (ns', bal', cs')"
    "books E ns' M" "ledger ns' bal'" "sUnminedCredits ns' = sUnminedCredits ?ns0"
    "outputs_dropped h b (fst ` set (indexed (TxOut tx))) ?ns0 ns'"
    "set cs' = set cs \<union> {op. opHash op = h \<and> opIndex op \<in> fst ` set (indexed (TxOut tx)) \<and> creditAt ?ns0 h (opIndex op) b \<noteq> None}"
    using rollbackCoinbaseOutputs[OF db M order_refl n(2) distinct_indexed[OF n(2)] 0] by blast
  obtain x y z where f: "ns' = ?ns0\<lparr>sCredits := x, sUnspent := y, sUnminedCredits := z\<rparr>"
    using 1(5) unfolding outputs_dropped_def by blast
  have "creditAt ns' h i b = None" if "i \<in> fst ` set (indexed (TxOut tx))" for i
    using 1(5) that unfolding outputs_dropped_def by simp
  then have bk': "books E ns' (M(h := None))" using cb by (intro books_forget_tx[OF 1(2) M n]) auto
  have "mined_holds E ns' (M(h := None))" by (rule mined_holds_delete[OF bk(3) M]) (simp add: f)
  moreover have "mempool E ns' U" "unmined_credits ns' U" "unminedCredits_wf ns'"
    using R 1(4) mempool_cong[of ns' ns] by (simp_all add: rolling_def f unmined_credits_def unminedCredits_wf_def)
  ultimately have "rolling E r ns' bal' (M(h := None)) U" using R bk' 1(3) by (auto simp: rolling_def split: if_splits)
  moreover have "tx_rolled {h} ns ns'"
    using tx_rolled_trans[OF tx_rolled_fields outputs_dropped_rolled[OF 1(5)], of ns] by simp
  moreover have "set cs' = set cs \<union> {op. opHash op = h \<and> creditAt ns h (opIndex op) b \<noteq> None}"
  proof -
    have "i \<in> fst ` set (indexed (TxOut tx))" if c: "creditAt ns h i b \<noteq> None" for i
    proof -
      obtain cv where cv: "creditAt ns h i b = Some cv" using c by blast
      obtain tx' where "M h = Some (b, tx')" "output_credit tx' i cv" by (rule creditAt_mined[OF bk(1) cv])
      then have "(i, TxOut tx ! unat i) \<in> set (indexed (TxOut tx))" using M indexed_mem[OF n(2)] by (simp add: output_credit_def)
      then show ?thesis by force
    qed
    then show ?thesis unfolding 1(6) by (auto simp: creditAt_def)
  qed
  moreover have "rollbackTx E b h (ns, bal, cs) = Inr (ns', bal', cs')"
    using v hr cb 1(1) db by (simp add: rollbackTx_def existsRawTxRecord_def orNil_def deleteTxRecord_def Let_def)
  ultimately show ?thesis by blast
qed

lemma unmined_holds_put:
  assumes "unmined_holds E ns U" "readRawTxRecord E h v = Inr rc"
    and "sUnmined ns' = bucketPut (sUnmined ns) (hashBytes h) v"
  shows "unmined_holds E ns' (U(h \<mapsto> MsgTx rc))"
  unfolding unmined_holds_def
proof
  fix g
  show "case (U(h \<mapsto> MsgTx rc)) g of None \<Rightarrow> bucketGet (sUnmined ns') (hashBytes g) = None
      | Some tx \<Rightarrow> \<exists>v r. bucketGet (sUnmined ns') (hashBytes g) = Some v \<and> readRawTxRecord E g v = Inr r \<and> MsgTx r = tx"
    using assms(1)[unfolded unmined_holds_def, THEN spec, of g] assms(2,3) by (cases "g = h"; cases "U g") simp_all
qed

lemma spenders_put:
  assumes "U h = None"
  shows "(\<lambda>k. if k \<in> inputKeys tx then insert h (spenders U k) else spenders U k) = spenders (U(h \<mapsto> tx))"
  using assms by (auto simp: fun_eq_iff spenders_def)

lemma rollbackTx_regular:
  assumes db: "db_ok E" and R: "rolling E r ns bal M U" and M: "M h = Some (b, tx)" and cb: "\<not> isCoinBaseTx E tx"
  shows "\<exists>ns' bal'. rollbackTx E b h (ns, bal, cs) = Inr (ns', bal', cs) \<and> rolling E r ns' bal' (M(h := None)) (U(h \<mapsto> tx))
    \<and> tx_rolled {h} ns ns'"
proof -
  have bk: "books E ns M" "ledger ns bal" "mined_holds E ns M" "mempool E ns U" and wf: "wf_tx E r h tx" and U: "U h = None"
    using R M by (auto simp: rolling_def) (metis option.distinct(1))
  then have n: "length (TxIn tx) < 2 ^ 32" "length (TxOut tx) < 2 ^ 32" by (simp_all add: wf_tx_def)
  let ?U = "U(h \<mapsto> tx)"
  obtain v rc where v: "bucketGet (sTxRecords ns) (keyTxRecord h b) = Some v" "readRawTxRecord E h v = Inr rc" "MsgTx rc = tx"
    using bk(3) M unfolding mined_holds_def by blast
  have hr: "Hash rc = h" by (rule readRawTxRecord_Hash[OF v(2)])
  let ?ns1 = "ns\<lparr>sTxRecords := bucketDelete (sTxRecords ns) (keyTxRecord h b), sUnmined := bucketPut (sUnmined ns) (hashBytes h) v\<rparr>"
  have 1: "books E ?ns1 M" "ledger ?ns1 bal" "spends_indexed ?ns1 (spenders U)"
    using bk books_cong[of ?ns1 ns] ledger_cong[of ?ns1 ns]
    by (simp_all add: mempool_def spends_indexed_def fetchUnminedInputSpendTxHashes_def)
  obtain ns2 bal2 where 2: "foldE (rollbackInput E h b) (indexed (TxIn tx)) (?ns1, bal) = Inr (ns2, bal2)" "books E ns2 M" "ledger ns2 bal2"
    "inputs_undone h b (fst ` set (indexed (TxIn tx))) ?ns1 ns2"
    "spends_indexed ns2 (\<lambda>k. if k \<in> inputKey ` snd ` set (indexed (TxIn tx)) then insert h (spenders U k) else spenders U k)"
    using rollbackInputs[OF db M n(1) order_refl 1] by blast
  have "snd ` set (indexed (TxIn tx)) = set (TxIn tx)" using map_snd_indexed[of "TxIn tx"] by (metis set_map)
  then have si: "spends_indexed ns2 (spenders ?U)" using 2(5) spenders_put[where U = U and h = h and tx = tx, OF U] by (simp add: inputKeys_def)
  obtain x y z w where f2: "ns2 = ?ns1\<lparr>sCredits := x, sUnspent := y, sDebits := z, sUnminedInputs := w\<rparr>"
    using 2(4) unfolding inputs_undone_def by blast
  have uc: "unmined_credits ns U" "unminedCredits_wf ns" using R by (simp_all add: rolling_def)
  have uc2: "unmined_credits ns2 ?U" by (rule unmined_credits_mono[OF uc(1)]) (use U in \<open>auto simp: f2\<close>)
  have uw2: "unminedCredits_wf ns2" using uc(2) by (simp add: f2 unminedCredits_wf_def)
  obtain ns3 bal3 where 3: "foldE (rollbackOutput E h b) (indexed (TxOut tx)) (ns2, bal2) = Inr (ns3, bal3)" "books E ns3 M" "ledger ns3 bal3"
    "unmined_credits ns3 ?U" "unminedCredits_wf ns3" "outputs_dropped h b (fst ` set (indexed (TxOut tx))) ns2 ns3"
    using rollbackOutputs[OF db M _ order_refl n(2) 2(2,3) uc2 uw2] by auto
  obtain x' y' z' where f3: "ns3 = ns2\<lparr>sCredits := x', sUnspent := y', sUnminedCredits := z'\<rparr>"
    using 3(6) unfolding outputs_dropped_def by blast
  have "unmined_holds E ns3 ?U"
    using unmined_holds_put[of E ns U h v rc ns3] v bk(4) by (simp add: f3 f2 mempool_def)
  moreover have "spends_indexed ns3 (spenders ?U)" using si by (simp add: f3 spends_indexed_def fetchUnminedInputSpendTxHashes_def)
  ultimately have mp: "mempool E ns3 ?U" by (simp add: mempool_def)
  have "creditAt ns3 h i b = None" if "i \<in> fst ` set (indexed (TxOut tx))" for i
    using 3(6) that unfolding outputs_dropped_def by simp
  moreover have "bucketGet (sDebits ns3) (keyDebit h j b) = None" if "j \<in> fst ` set (indexed (TxIn tx))" for j
    using 2(4) that unfolding inputs_undone_def by (simp add: f3)
  ultimately have bk': "books E ns3 (M(h := None))" by (intro books_forget_tx[OF 3(2) M n]) auto
  have mh: "mined_holds E ns3 (M(h := None))" by (rule mined_holds_delete[OF bk(3) M]) (simp add: f3 f2)
  have "rolling E r ns3 bal3 (M(h := None)) ?U" using R bk' 3(3-5) mp mh by (auto simp: rolling_def split: if_splits)
  moreover have "tx_rolled {h} ns ns3"
    using tx_rolled_trans[OF tx_rolled_trans[OF tx_rolled_fields inputs_undone_rolled[OF 2(4)]] outputs_dropped_rolled[OF 3(6)], of ns] by simp
  moreover have "rollbackTx E b h (ns, bal, cs) = Inr (ns3, bal3, cs)"
    using v hr cb 2(1) 3(1) db
    by (simp add: rollbackTx_def existsRawTxRecord_def orNil_def deleteTxRecord_def putRawUnmined_def Let_def)
  ultimately show ?thesis by blast
qed

section \<open>Rolling back whole blocks\<close>

text \<open>The unmined transactions after those of \<open>D\<close> are detached: all but the coinbases come back.\<close>

definition returned :: "env \<Rightarrow> minedMap \<Rightarrow> hash set \<Rightarrow> txMap \<Rightarrow> txMap" where
  "returned E M D U = (\<lambda>h. if h \<in> D
     then (case M h of Some (b, tx) \<Rightarrow> if isCoinBaseTx E tx then None else Some tx | None \<Rightarrow> None) else U h)"

text \<open>The credits that are lost: those of the detached coinbases.\<close>

definition lostCoinbase :: "env \<Rightarrow> store \<Rightarrow> minedMap \<Rightarrow> hash set \<Rightarrow> outPoint set" where
  "lostCoinbase E ns M D = {op. opHash op \<in> D \<and> (\<exists>b tx. M (opHash op) = Some (b, tx) \<and> isCoinBaseTx E tx
     \<and> creditAt ns (opHash op) (opIndex op) b \<noteq> None)}"

lemma returned_step:
  assumes "M h = Some (b, tx)" "h \<notin> S" "U h = None"
  shows "returned E (M(h := None)) S (if isCoinBaseTx E tx then U else U(h \<mapsto> tx)) = returned E M (insert h S) U"
  using assms by (auto simp: returned_def fun_eq_iff)

lemma lost_step:
  assumes "M h = Some (b, tx)" "h \<notin> S" "tx_rolled {h} ns ns1"
  shows "(if isCoinBaseTx E tx then {op. opHash op = h \<and> creditAt ns h (opIndex op) b \<noteq> None} else {})
    \<union> lostCoinbase E ns1 (M(h := None)) S = lostCoinbase E ns M (insert h S)"
proof -
  have c: "creditAt ns1 g i b' = None \<longleftrightarrow> creditAt ns g i b' = None" if "g \<noteq> h" for g i b'
    using assms(3) that unfolding tx_rolled_def by blast
  show ?thesis unfolding lostCoinbase_def using assms(1,2) c by (intro set_eqI) (auto simp del: not_None_eq)
qed

lemma rollbackTxs:
  assumes db: "db_ok E"
  shows "distinct (map snd hs) \<Longrightarrow> \<forall>(b, h) \<in> set hs. \<exists>tx. M h = Some (b, tx) \<Longrightarrow> rolling E r ns bal M U \<Longrightarrow>
    \<exists>ns' bal' cs'. foldE (\<lambda>(b, h). rollbackTx E b h) hs (ns, bal, cs) = Inr (ns', bal', cs')
      \<and> rolling E r ns' bal' (M |` (- snd ` set hs)) (returned E M (snd ` set hs) U) \<and> tx_rolled (snd ` set hs) ns ns'
      \<and> set cs' = set cs \<union> lostCoinbase E ns M (snd ` set hs)"
proof (induction hs arbitrary: ns bal M U cs)
  case Nil
  then show ?case by (simp add: returned_def lostCoinbase_def tx_rolled_def)
next
  case (Cons x hs)
  obtain b h where x: "x = (b, h)" by fastforce
  obtain tx where M: "M h = Some (b, tx)" using Cons.prems(2) by (auto simp: x)
  have U: "U h = None" using Cons.prems(3) M by (auto simp: rolling_def) (metis option.distinct(1))
  have nh: "h \<notin> snd ` set hs" using Cons.prems(1) by (simp add: x)
  let ?M1 = "M(h := None)" and ?U1 = "if isCoinBaseTx E tx then U else U(h \<mapsto> tx)"
  obtain ns1 bal1 cs1 where 1: "rollbackTx E b h (ns, bal, cs) = Inr (ns1, bal1, cs1)" "rolling E r ns1 bal1 ?M1 ?U1"
    "tx_rolled {h} ns ns1" "set cs1 = set cs \<union>
      (if isCoinBaseTx E tx then {op. opHash op = h \<and> creditAt ns h (opIndex op) b \<noteq> None} else {})"
    using rollbackTx_coinbase[OF db Cons.prems(3) M, of cs] rollbackTx_regular[OF db Cons.prems(3) M, of cs]
    by (cases "isCoinBaseTx E tx") auto
  have d: "distinct (map snd hs)" using Cons.prems(1) by (simp add: x)
  have m1: "\<forall>(b, h) \<in> set hs. \<exists>tx. ?M1 h = Some (b, tx)" using Cons.prems(2) nh by (force simp: x)
  obtain ns' bal' cs' where 2: "foldE (\<lambda>(b, h). rollbackTx E b h) hs (ns1, bal1, cs1) = Inr (ns', bal', cs')"
    "rolling E r ns' bal' (?M1 |` (- snd ` set hs)) (returned E ?M1 (snd ` set hs) ?U1)" "tx_rolled (snd ` set hs) ns1 ns'"
    "set cs' = set cs1 \<union> lostCoinbase E ns1 ?M1 (snd ` set hs)"
    using Cons.IH[OF d m1 1(2), of cs1] by blast
  have "?M1 |` (- snd ` set hs) = M |` (- snd ` set (x # hs))" by (auto simp: x restrict_map_def fun_eq_iff)
  moreover have "tx_rolled (snd ` set (x # hs)) ns ns'" using tx_rolled_trans[OF 1(3) 2(3)] by (simp add: x)
  moreover have "set cs' = set cs \<union> lostCoinbase E ns M (snd ` set (x # hs))"
    unfolding 2(4) 1(4) Un_assoc lost_step[where M = M and h = h and b = b and tx = tx and E = E, OF M nh 1(3)] by (simp add: x)
  ultimately show ?case using 1(1) 2(1,2) returned_step[where M = M and h = h and b = b and tx = tx and E = E and U = U, OF M nh U] by (simp add: x)
qed

text \<open>The nested loop over blocks and their transactions, as one loop.\<close>

definition rollList :: "blockRecord list \<Rightarrow> (block \<times> hash) list" where
  "rollList bs = concat (map (\<lambda>b. map (Pair (recBlock b)) (recTransactions b)) bs)"

lemma foldE_map: "foldE f (map g xs) s = foldE (\<lambda>x. f (g x)) xs s"
  by (induction xs arbitrary: s) (auto intro: bindE_cong)

lemma rollList_fold:
  "foldE (\<lambda>b. foldE (rollbackTx E (recBlock b)) (recTransactions b)) bs s = foldE (\<lambda>(b, h). rollbackTx E b h) (rollList bs) s"
proof (induction bs arbitrary: s)
  case (Cons b bs)
  have "foldE (\<lambda>(b, h). rollbackTx E b h) (map (Pair (recBlock b)) (recTransactions b)) s
      = foldE (rollbackTx E (recBlock b)) (recTransactions b) s" by (simp add: foldE_map)
  moreover have "foldE (\<lambda>b. foldE (rollbackTx E (recBlock b)) (recTransactions b)) bs = foldE (\<lambda>(b, h). rollbackTx E b h) (rollList bs)"
    using Cons.IH by (rule ext)
  ultimately show ?case by (simp add: rollList_def foldE_append)
qed (simp add: rollList_def)

section \<open>What spends the lost coinbase outputs\<close>

definition opKey :: "outPoint \<Rightarrow> bytes" where
  "opKey op = canonicalOutPoint (opHash op) (opIndex op)"

lemma removeCoinbaseSpends_all:
  assumes db: "db_ok E" and ac: "acyclic (spend_rel U)"
  shows "mempool E ns (U |` (- doomed U A)) \<Longrightarrow>
    \<exists>ns'. foldE (removeCoinbaseSpends E) ops ns = Inr ns'
      \<and> mempool E ns' (U |` (- doomed U (A \<union> (\<Union>op \<in> set ops. spenders U (opKey op)))))
      \<and> removed (creditKeys U (doomed U (A \<union> (\<Union>op \<in> set ops. spenders U (opKey op))) - doomed U A)) ns ns'"
proof (induction ops arbitrary: ns A)
  case (Cons op ops)
  let ?R = "doomed U A" and ?B = "spenders U (opKey op)" and ?C = "\<Union>op \<in> set ops. spenders U (opKey op)"
  obtain hs where hs: "fetchUnminedInputSpendTxHashes ns (opKey op) = Inr hs" "set hs = ?B \<inter> - ?R"
    using mempool_spenders[OF Cons.prems, of "opKey op"] by (auto simp: spenders_restrict)
  have sub: "set hs \<subseteq> UNIV \<inter> dom U" using hs(2) by (auto simp: spenders_def)
  obtain ns1 where 1: "foldE (removeSpender (removeConflict E) E) hs ns = Inr ns1"
    "mempool E ns1 (U |` (- (?R \<union> doomed U (set hs))))" "removed (creditKeys U (doomed U (set hs) - ?R)) ns ns1"
    using removeSpenders_spec[OF removeConflict_removes[OF db ac] Cons.prems closed_doomed sub] by (auto simp: doomed_def)
  have sh: "?R \<union> doomed U (set hs) = doomed U (A \<union> ?B)" by (rule doomed_step) (use hs(2) in auto)
  then have sh': "doomed U (set hs) - ?R = doomed U (A \<union> ?B) - ?R" by blast
  obtain ns2 where 2: "foldE (removeCoinbaseSpends E) ops ns1 = Inr ns2" "mempool E ns2 (U |` (- doomed U (A \<union> ?B \<union> ?C)))"
    "removed (creditKeys U (doomed U (A \<union> ?B \<union> ?C) - doomed U (A \<union> ?B))) ns1 ns2"
    using Cons.IH[OF 1(2)[unfolded sh]] by blast
  have u: "A \<union> (\<Union>op \<in> set (op # ops). spenders U (opKey op)) = A \<union> ?B \<union> ?C" by auto
  have "doomed U (A \<union> ?B \<union> ?C) - ?R = (doomed U (A \<union> ?B) - ?R) \<union> (doomed U (A \<union> ?B \<union> ?C) - doomed U (A \<union> ?B))"
    unfolding doomed_Un by blast
  then have "removed (creditKeys U (doomed U (A \<union> ?B \<union> ?C) - ?R)) ns ns2"
    using removed_trans[OF 1(3)[unfolded sh'] 2(3)] by (simp only: creditKeys_Un)
  moreover have "removeCoinbaseSpends E op ns = Inr ns1" using hs(1) 1(1) by (simp add: removeCoinbaseSpends_def opKey_def)
  ultimately show ?case using 2(1,2) unfolding u by (intro exI[of _ ns2]) simp
qed simp

lemma deleteBlockRecords_eq:
  assumes "db_ok E"
  shows "foldE (\<lambda>h ns. deleteBlockRecord E ns h) hs ns
    = Inr (ns\<lparr>sBlocks := fold (\<lambda>h b. bucketDelete b (keyBlockRecord h)) hs (sBlocks ns)\<rparr>)"
  using assms by (induction hs arbitrary: ns) (simp_all add: deleteBlockRecord_def Let_def)

lemma bucketGet_deleteBlocks:
  "bucketGet (fold (\<lambda>h b. bucketDelete b (keyBlockRecord h)) hs B) k = (if k \<in> keyBlockRecord ` set hs then None else bucketGet B k)"
  by (induction hs arbitrary: B) (auto simp: bucketGet_upd)

section \<open>The blocks at or above a height\<close>

definition detached :: "minedMap \<Rightarrow> height \<Rightarrow> hash set" where
  "detached M ht = {h. \<exists>b tx. M h = Some (b, tx) \<and> \<not> bHeight b <s ht}"

lemma block_holds_entry: "block_holds M k v b \<Longrightarrow> block_entry_ok k v b"
  unfolding block_holds_def block_entry_ok_def by blast

lemma blocks_hold_wf: "blocks_hold ns M \<Longrightarrow> blocks_wf (sBlocks ns)"
  unfolding blocks_wf_def blocks_hold_def by (auto simp: kv.mem_items_iff) (meson block_holds_entry)

lemma mem_blocksDown_holds:
  assumes "blocks_hold ns M"
  shows "b \<in> set (blocksDown (sBlocks ns)) \<longleftrightarrow>
    (\<exists>k v. bucketGet (sBlocks ns) k = Some v \<and> block_holds M k v b)"
proof -
  have "block_holds M k v b" if g: "bucketGet (sBlocks ns) k = Some v" and o: "block_entry_ok k v b" for k v
  proof -
    obtain c where c: "block_holds M k v c" using assms g unfolding blocks_hold_def by blast
    then have "c = b" using o block_holds_entry[OF c] block_entry_okD(1) by (metis sum.inject(2))
    then show ?thesis using c by simp
  qed
  then show ?thesis unfolding mem_blocksDown[OF blocks_hold_wf[OF assms]] using block_holds_entry by blast
qed

lemma set_rollList: "(b, h) \<in> set (rollList bs) \<longleftrightarrow> (\<exists>r \<in> set bs. recBlock r = b \<and> h \<in> set (recTransactions r))"
  by (auto simp: rollList_def)

lemma rollList_distinct:
  "sorted_wrt (\<lambda>a b. recBlock a \<noteq> recBlock b) bs \<Longrightarrow>
    \<forall>r \<in> set bs. distinct (recTransactions r) \<and> (\<forall>h \<in> set (recTransactions r). \<exists>tx. M h = Some (recBlock r, tx)) \<Longrightarrow>
    distinct (map snd (rollList bs))"
proof (induction bs)
  case (Cons r bs)
  have "h \<notin> snd ` set (rollList bs)" if "h \<in> set (recTransactions r)" for h
  proof
    assume "h \<in> snd ` set (rollList bs)"
    then obtain r' where "r' \<in> set bs" "h \<in> set (recTransactions r')" by (auto simp: set_rollList)
    then have "recBlock r' = recBlock r" using Cons.prems(2) that by (metis list.set_intros option.inject prod.inject)
    then show False using Cons.prems(1) \<open>r' \<in> set bs\<close> by auto
  qed
  then show ?case using Cons by (auto simp: rollList_def comp_def)
qed (simp add: rollList_def)

lemma rollList_chain:
  assumes bh: "blocks_hold ns M"
    and bs_def: "bs = filter (\<lambda>b. \<not> bHeight (recBlock b) <s ht) (blocksDown (sBlocks ns))"
  shows "\<forall>(b, h) \<in> set (rollList bs). \<exists>tx. M h = Some (b, tx)" "snd ` set (rollList bs) = detached M ht"
    "distinct (map snd (rollList bs))"
proof -
  have mem: "(\<exists>tx. M h = Some (recBlock r, tx)) \<longleftrightarrow> h \<in> set (recTransactions r)" "distinct (recTransactions r)"
    if "r \<in> set bs" for r h
    using that mem_blocksDown_holds[OF bh] unfolding bs_def block_holds_def by auto
  then show 1: "\<forall>(b, h) \<in> set (rollList bs). \<exists>tx. M h = Some (b, tx)" by (auto simp: set_rollList)
  have "h \<in> snd ` set (rollList bs)" if "h \<in> detached M ht" for h
  proof -
    obtain b tx where M: "M h = Some (b, tx)" "\<not> bHeight b <s ht" using \<open>h \<in> detached M ht\<close> by (auto simp: detached_def)
    then obtain v r where r: "bucketGet (sBlocks ns) (keyBlockRecord (bHeight b)) = Some v"
      "block_holds M (keyBlockRecord (bHeight b)) v r" "recBlock r = b" using bh unfolding blocks_hold_def by blast
    then have "r \<in> set bs" using mem_blocksDown_holds[OF bh] M(2) by (auto simp: bs_def)
    then have "(b, h) \<in> set (rollList bs)" using mem(1)[of r h] M(1) r(3) by (auto simp: set_rollList)
    then show ?thesis by force
  qed
  moreover have "h \<in> detached M ht" if rl: "(b, h) \<in> set (rollList bs)" for b h
  proof -
    obtain r where r: "r \<in> set bs" "h \<in> set (recTransactions r)" using rl by (auto simp: set_rollList)
    then obtain tx where "M h = Some (recBlock r, tx)" using mem(1) by blast
    moreover have "\<not> bHeight (recBlock r) <s ht" using r(1) by (simp add: bs_def)
    ultimately show ?thesis unfolding detached_def by blast
  qed
  ultimately show "snd ` set (rollList bs) = detached M ht" by force
  have "sorted_wrt (\<lambda>a b. recBlock a \<noteq> recBlock b) bs"
    unfolding bs_def by (rule sorted_wrt_filter, rule sorted_wrt_mono_rel[OF _ blocksDown_sorted[OF blocks_hold_wf[OF bh]]])
      (auto simp: word_sless_alt)
  then show "distinct (map snd (rollList bs))" using mem by (intro rollList_distinct[of bs M]) auto
qed

section \<open>The whole operation\<close>

text \<open>The unmined transactions that are left: those that were there or come back, without what spends
  an output of a detached coinbase and the descendants of that.\<close>

definition rolledUnmined :: "env \<Rightarrow> store \<Rightarrow> minedMap \<Rightarrow> txMap \<Rightarrow> height \<Rightarrow> txMap" where
  "rolledUnmined E ns M U ht = (let D = detached M ht; V = returned E M D U
     in V |` (- doomed V (\<Union>op \<in> lostCoinbase E ns M D. spenders V (opKey op))))"

lemma block_holds_restrict:
  assumes "block_holds M k v b" "\<forall>h \<in> set (recTransactions b). h \<notin> D"
  shows "block_holds (M |` (- D)) k v b"
proof -
  have "\<forall>h. (\<exists>tx. M h = Some (recBlock b, tx)) \<longrightarrow> h \<notin> D" using assms unfolding block_holds_def by blast
  then have e: "{h. \<exists>tx. (M |` (- D)) h = Some (recBlock b, tx)} = {h. \<exists>tx. M h = Some (recBlock b, tx)}"
    by (auto simp: restrict_map_def)
  show ?thesis using assms(1) unfolding block_holds_def e .
qed

lemma blocks_hold_rolled:
  assumes bh: "blocks_hold ns M"
    and hs: "set hs = bHeight ` recBlock ` {r \<in> set (blocksDown (sBlocks ns)). \<not> bHeight (recBlock r) <s ht}"
    and ns': "sBlocks ns' = fold (\<lambda>h b. bucketDelete b (keyBlockRecord h)) hs (sBlocks ns)"
  shows "blocks_hold ns' (M |` (- detached M ht))"
proof -
  let ?D = "detached M ht"
  have low: "block_holds (M |` (- ?D)) k v b" if b: "block_holds M k v b" "bHeight (recBlock b) <s ht" for k v b
  proof (rule block_holds_restrict[OF b(1)], rule ballI)
    fix h assume "h \<in> set (recTransactions b)"
    then obtain tx where "M h = Some (recBlock b, tx)" using b(1) by (auto simp: block_holds_def)
    then show "h \<notin> ?D" using b(2) by (auto simp: detached_def)
  qed
  have key: "keyBlockRecord (bHeight (recBlock b)) \<notin> keyBlockRecord ` set hs" if "bHeight (recBlock b) <s ht" for b
    using that unfolding hs by auto
  show ?thesis
    unfolding blocks_hold_def
  proof (intro conjI allI impI)
    fix k v assume a: "bucketGet (sBlocks ns') k = Some v"
    then have g: "bucketGet (sBlocks ns) k = Some v" and nk: "k \<notin> keyBlockRecord ` set hs"
      by (auto simp: ns' bucketGet_deleteBlocks split: if_splits)
    then obtain b where b: "block_holds M k v b" using bh unfolding blocks_hold_def by blast
    then have "b \<in> set (blocksDown (sBlocks ns))" using mem_blocksDown_holds[OF bh] g by blast
    moreover have "k = keyBlockRecord (bHeight (recBlock b))" using b unfolding block_holds_def by blast
    ultimately have "bHeight (recBlock b) <s ht" using nk unfolding hs by blast
    then show "\<exists>b. block_holds (M |` (- ?D)) k v b" using low[OF b] by blast
  next
    fix h b tx assume a: "(M |` (- ?D)) h = Some (b, tx)"
    then have M: "M h = Some (b, tx)" and lt: "bHeight b <s ht" by (auto simp: restrict_map_def detached_def split: if_splits)
    then obtain v r where r: "bucketGet (sBlocks ns) (keyBlockRecord (bHeight b)) = Some v"
      "block_holds M (keyBlockRecord (bHeight b)) v r" "recBlock r = b" using bh unfolding blocks_hold_def by blast
    then show "\<exists>v r. bucketGet (sBlocks ns') (keyBlockRecord (bHeight b)) = Some v
        \<and> block_holds (M |` (- ?D)) (keyBlockRecord (bHeight b)) v r \<and> recBlock r = b"
      using low[OF r(2)] lt key[of r] by (auto simp: ns' bucketGet_deleteBlocks)
  qed
qed

text \<open>Below the height every debit still has its credit, as a transaction is never mined below what it spends.\<close>

lemma debits_backed_rolled:
  assumes bk: "books E ns M" "debits_backed ns" and od: "ordered M"
    and bk': "books E ns' (M |` (- detached M ht))" and r: "tx_rolled (detached M ht) ns ns'"
  shows "debits_backed ns'"
  unfolding debits_backed_def
proof (intro allI impI)
  fix k v assume g': "bucketGet (sDebits ns') k = Some v"
  then have g: "bucketGet (sDebits ns) k = Some v" using r unfolding tx_rolled_def by blast
  obtain op where op: "debit_of E (M |` (- detached M ht)) k op" "input_debit ns' op v"
    using bk' g' unfolding books_def debits_hold_def by blast
  obtain h b tx inp where h: "(M |` (- detached M ht)) h = Some (b, tx)" "inp \<in> set (TxIn tx)" "op = PreviousOutPoint inp"
    using op(1) unfolding debit_of_def by (metis nth_mem)
  obtain amt b' where v: "v = valueDebit amt (keyCredit (opHash op) (opIndex op) b')"
    using op(2) unfolding input_debit_def by blast
  then obtain cv where cv: "creditAt ns (opHash op) (opIndex op) b' = Some cv"
    using bk(2) g unfolding debits_backed_def creditAt_def by fastforce
  obtain tx' where tx': "M (opHash op) = Some (b', tx')" by (rule creditAt_mined[OF bk(1) cv])
  have M: "M h = Some (b, tx)" "bHeight b <s ht" using h(1) by (auto simp: restrict_map_def detached_def split: if_splits)
  have "bHeight b' \<le>s bHeight b" using od M(1) tx' h(2,3) unfolding ordered_def by blast
  then have "opHash op \<notin> detached M ht" using M(2) tx' by (auto simp: detached_def word_sless_alt word_sle_eq)
  then have "creditAt ns' (opHash op) (opIndex op) b' \<noteq> None" using r cv unfolding tx_rolled_def by simp
  then show "bucketGet (sCredits ns') (drop 8 v) \<noteq> None" by (simp add: v creditAt_def)
qed

lemma chain_wf_rolled:
  assumes "chain_wf E r M U"
  shows "chain_wf E r (M |` (- detached M ht)) (rolledUnmined E ns M U ht)"
    and "\<And>h tx. returned E M (detached M ht) U h = Some tx \<Longrightarrow> wf_tx E r h tx"
proof -
  let ?D = "detached M ht"
  have V: "wf_tx E r h tx \<and> (M |` (- ?D)) h = None" if rt: "returned E M ?D U h = Some tx" for h tx
  proof (cases "h \<in> ?D")
    case True
    then obtain b where "M h = Some (b, tx)" using rt by (auto simp: returned_def split: option.splits if_splits)
    then show ?thesis using True assms by (auto simp: chain_wf_def)
  next
    case False
    then have u: "U h = Some tx" using rt by (simp add: returned_def)
    then have "M h = None" using assms unfolding chain_wf_def by (metis option.distinct(1))
    then show ?thesis using u assms by (simp add: chain_wf_def restrict_map_def)
  qed
  then show "\<And>h tx. returned E M ?D U h = Some tx \<Longrightarrow> wf_tx E r h tx" by blast
  have sub: "returned E M ?D U h = Some tx" if "rolledUnmined E ns M U ht h = Some tx" for h tx
    using that by (auto simp: rolledUnmined_def Let_def restrict_map_def split: if_splits)
  have Msub: "M h = Some x" if "(M |` (- ?D)) h = Some x" for h x
    using that by (auto simp: restrict_map_def split: if_splits)
  have "ordered (M |` (- ?D))" using assms Msub unfolding chain_wf_def by (metis ordered_subset)
  moreover have "(M |` (- ?D)) h = None \<or> rolledUnmined E ns M U ht h = None" for h using V sub by (metis not_None_eq)
  moreover have "wf_tx E r h tx" if "(M |` (- ?D)) h = Some (b, tx)" for h b tx
    using Msub[OF that] assms unfolding chain_wf_def by blast
  ultimately show "chain_wf E r (M |` (- ?D)) (rolledUnmined E ns M U ht)"
    using V sub unfolding chain_wf_def by blast
qed

text \<open>The last steps: the block records, the spends of lost coinbases and the balance.\<close>

lemma rollback_tail:
  assumes db: "db_ok E" and R: "rolling E r ns1 bal M' V" and ac: "acyclic (spend_rel V)"
    and D: "D = doomed V (\<Union>op \<in> set cs. spenders V (opKey op))"
  shows "\<exists>ns'. bindE (foldE (\<lambda>h ns. deleteBlockRecord E ns h) hs ns1) (\<lambda>ns.
        bindE (foldE (removeCoinbaseSpends E) cs ns) (\<lambda>ns. putMinedBalance E ns bal)) = Inr ns'
    \<and> store_inv E ns' (V |` (- D)) \<and> books E ns' M' \<and> mined_holds E ns' M' \<and> unmined_credits ns' (V |` (- D))
    \<and> sBlocks ns' = fold (\<lambda>h b. bucketDelete b (keyBlockRecord h)) hs (sBlocks ns1)
    \<and> sLockedOutputs ns' = sLockedOutputs ns1 \<and> sCredits ns' = sCredits ns1 \<and> sDebits ns' = sDebits ns1"
proof -
  let ?ns2 = "ns1\<lparr>sBlocks := fold (\<lambda>h b. bucketDelete b (keyBlockRecord h)) hs (sBlocks ns1)\<rparr>"
  have r: "ledger ns1 bal" "books E ns1 M'" "mempool E ns1 V" "unmined_credits ns1 V" "unminedCredits_wf ns1" "mined_holds E ns1 M'"
    using R by (simp_all add: rolling_def)
  have m2: "mempool E ?ns2 (V |` (- doomed V {}))" using r(3) mempool_cong[of ?ns2 ns1] by (simp add: doomed_def)
  obtain ns3 where 3: "foldE (removeCoinbaseSpends E) cs ?ns2 = Inr ns3" "mempool E ns3 (V |` (- D))"
    "removed (creditKeys V D) ?ns2 ns3"
    using removeCoinbaseSpends_all[OF db ac m2, of cs] by (auto simp: D doomed_def[of V "{}"])
  let ?ns' = "ns3\<lparr>sRoot := bucketPut (sRoot ns3) rootMinedBalance (putUint64 bal)\<rparr>"
  note f = removed_mined[OF 3(3)]
  have "unmined_credits ?ns2 V" using r(4) by (simp add: unmined_credits_def)
  from unmined_credits_removed[OF this 3(3)] have uc: "unmined_credits ?ns' (V |` (- D))" by (simp add: unmined_credits_def)
  have "unminedCredits_wf ?ns2" using r(5) by (simp add: unminedCredits_wf_def)
  from removed_unminedCredits_wf[OF 3(3) this] have uw: "unminedCredits_wf ?ns'" by (simp add: unminedCredits_wf_def)
  have "ledger ?ns' bal" using r(1) ledger_cong[of ?ns' ns1] f by simp
  then have "ledger_ok ?ns'" by (simp add: ledger_ok_def fetchMinedBalance_def orNil_def glen_def)
  moreover have "mempool E ?ns' (V |` (- D))" using 3(2) mempool_cong[of ?ns' ns3] by simp
  ultimately have "store_inv E ?ns' (V |` (- D))" using uw by (simp add: store_inv_def)
  moreover have "books E ?ns' M'" using r(2) books_cong[of ?ns' ns1] f by simp
  moreover have "mined_holds E ?ns' M'" using r(6) f by (simp add: mined_holds_def)
  moreover have "bindE (foldE (\<lambda>h ns. deleteBlockRecord E ns h) hs ns1) (\<lambda>ns.
        bindE (foldE (removeCoinbaseSpends E) cs ns) (\<lambda>ns. putMinedBalance E ns bal)) = Inr ?ns'"
    using db 3(1) by (simp add: deleteBlockRecords_eq putMinedBalance_def)
  ultimately show ?thesis using uc f by auto
qed

lemma rolling_start:
  assumes "wallet_inv E r ns M U" "fetchMinedBalance ns = Inr bal" shows "rolling E r ns bal M U"
proof -
  note iv = wallet_invD[OF assms(1)]
  have "ledger ns bal" using iv(3) assms(2) by (simp add: ledger_ok_def)
  then show ?thesis using iv(2,4,5,7,9) iv(11)[unfolded chain_wf_def] unfolding rolling_def by simp
qed

lemma Rollback_spec:
  assumes db: "db_ok E" and inv: "wallet_inv E r ns M U"
  shows "\<exists>ns'. Rollback E ns ht = Inr ns'
    \<and> wallet_inv E r ns' (M |` (- detached M ht)) (rolledUnmined E ns M U ht)"
proof -
  note iv = wallet_invD[OF inv]
  let ?D = "detached M ht"
  let ?V = "returned E M ?D U"
  obtain bal where bal: "fetchMinedBalance ns = Inr bal" using iv(3) by (auto simp: ledger_ok_def)
  define bs where "bs = filter (\<lambda>b. \<not> bHeight (recBlock b) <s ht) (blocksDown (sBlocks ns))"
  obtain it where it: "rollbackRun ht (makeReverseBlockIterator ns) = (bs, it)" "biErr it = None"
    using reverse_run(2)[OF blocks_hold_wf[OF iv(8)], of ht] by (auto simp: bs_def)
  note rl = rollList_chain[OF iv(8) bs_def]
  obtain ns1 bal1 cs where 1: "foldE (\<lambda>(b, h). rollbackTx E b h) (rollList bs) (ns, bal, []) = Inr (ns1, bal1, cs)"
    "rolling E r ns1 bal1 (M |` (- ?D)) ?V" "tx_rolled ?D ns ns1" "set cs = lostCoinbase E ns M ?D"
    using rollbackTxs[OF db rl(3) rl(1) rolling_start[OF inv bal], of "[]"] unfolding rl(2) by auto
  have ac: "acyclic (spend_rel ?V)" by (rule ranked_acyclic, rule chain_wf_rolled(2)[OF iv(11)])
  let ?hs = "map (\<lambda>b. bHeight (recBlock b)) bs"
  have U': "rolledUnmined E ns M U ht = ?V |` (- doomed ?V (\<Union>op \<in> set cs. spenders ?V (opKey op)))"
    by (simp add: rolledUnmined_def Let_def 1(4))
  obtain ns' where 2: "bindE (foldE (\<lambda>h ns. deleteBlockRecord E ns h) ?hs ns1) (\<lambda>ns.
        bindE (foldE (removeCoinbaseSpends E) cs ns) (\<lambda>ns. putMinedBalance E ns bal1)) = Inr ns'"
    "store_inv E ns' (rolledUnmined E ns M U ht)" "books E ns' (M |` (- ?D))" "mined_holds E ns' (M |` (- ?D))"
    "unmined_credits ns' (rolledUnmined E ns M U ht)"
    "sBlocks ns' = fold (\<lambda>h b. bucketDelete b (keyBlockRecord h)) ?hs (sBlocks ns1)"
    "sLockedOutputs ns' = sLockedOutputs ns1" "sCredits ns' = sCredits ns1" "sDebits ns' = sDebits ns1"
    using rollback_tail[OF db 1(2) ac refl, where cs = cs and hs = ?hs]
    unfolding U' by (elim exE conjE)
  have "Rollback E ns ht = Inr ns'"
    using bal it 1(1) 2(1) by (simp add: Rollback_def rollList_fold del: bindE_eq_Inr)
  moreover have "tx_rolled {} ns1 ns1" by (simp add: tx_rolled_def)
  have "debits_backed ns1" by (rule debits_backed_rolled[OF iv(5,6) _ _ 1(3)]) (use iv(11) 1(2) in \<open>simp_all add: chain_wf_def rolling_def\<close>)
  then have "debits_backed ns'" using 2(8,9) by (simp add: debits_backed_def)
  moreover have "blocks_hold ns' (M |` (- ?D))"
    using 1(3) 2(6) by (intro blocks_hold_rolled[OF iv(8), of ?hs]) (auto simp: bs_def tx_rolled_def)
  moreover have "leases_wf ns'" using iv(10) 1(3) 2(7) by (simp add: leases_wf_def tx_rolled_def)
  ultimately show ?thesis using 2(2-5) chain_wf_rolled(1)[OF iv(11)] by (auto simp: wallet_inv_def)
qed

end
