(* ===== verification/Store_Balance.thy ===== *)
theory Store_Balance
  imports Store_Rollback
begin

text \<open>
  \<open>Balance\<close> of \<open>wtxmgr/tx.go\<close>, which starts from the recorded mined balance and subtracts
  what may not be spent, computes the sum it is meant to be: the values of the unspent outputs that are
  neither leased nor spent by an unmined transaction, have enough confirmations and, for a coinbase, are
  mature; without required confirmations, the unmined credits are added.
\<close>

section \<open>Sums over buckets keyed by outpoints\<close>

lemma outPoint_eta [simp]: "\<lparr>opHash = opHash op, opIndex = opIndex op\<rparr> = (op :: outPoint)"
  by (cases op) simp

lemma opKey_inj [simp]: "opKey a = opKey b \<longleftrightarrow> a = b"
  unfolding opKey_def by (rule outPoint_key_inj)

definition opsOf :: "bucket \<Rightarrow> outPoint set" where
  "opsOf B = {op. bucketGet B (opKey op) \<noteq> None}"

definition opKeyed :: "bucket \<Rightarrow> bool" where
  "opKeyed B \<longleftrightarrow> (\<forall>k v. bucketGet B k = Some v \<longrightarrow> (\<exists>op. k = opKey op))"

lemma opsOf_entries:
  assumes "opKeyed B"
  shows "set (entries B) = (\<lambda>op. (opKey op, the (bucketGet B (opKey op)))) ` opsOf B"
proof (intro set_eqI iffI)
  fix e assume "e \<in> set (entries B)"
  then have g: "bucketGet B (fst e) = Some (snd e)" using kv.mem_items_iff[of "fst e" "snd e" B] by simp
  then obtain op where "fst e = opKey op" using assms unfolding opKeyed_def by blast
  then show "e \<in> (\<lambda>op. (opKey op, the (bucketGet B (opKey op)))) ` opsOf B"
    using g by (intro image_eqI[of _ _ op]) (simp_all add: opsOf_def prod_eq_iff)
qed (auto simp: opsOf_def kv.mem_items_iff)

lemma finite_opsOf: "finite (opsOf B)"
proof (rule finite_imageD)
  show "finite (opKey ` opsOf B)"
  proof (rule finite_subset)
    show "opKey ` opsOf B \<subseteq> fst ` set (entries B)"
    proof (clarsimp simp: opsOf_def)
      fix op v assume "bucketGet B (opKey op) = Some v"
      then have "(opKey op, v) \<in> set (entries B)" by (simp add: kv.mem_items_iff)
      then show "opKey op \<in> fst ` set (entries B)" by force
    qed
  qed simp
qed (simp add: inj_on_def)

lemma sum_entries:
  fixes f :: "entry \<Rightarrow> 'm::comm_monoid_add"
  assumes "opKeyed B"
  shows "sum_list (map f (entries B)) = (\<Sum>op \<in> opsOf B. f (opKey op, the (bucketGet B (opKey op))))"
proof -
  have "distinct (entries B)" using kv.distinct_items[of B] by (simp add: distinct_map)
  then have "sum_list (map f (entries B)) = sum f (set (entries B))" by (simp add: sum_list_distinct_conv_sum_set)
  also have "\<dots> = (\<Sum>op \<in> opsOf B. f (opKey op, the (bucketGet B (opKey op))))"
    unfolding opsOf_entries[OF assms] by (subst sum.reindex) (auto simp: inj_on_def)
  finally show ?thesis .
qed

lemma foldE_sub:
  fixes g :: "'a \<Rightarrow> amount"
  assumes "\<And>x b. x \<in> set xs \<Longrightarrow> f x b = Inr (b - g x)"
  shows "foldE f xs b = Inr (b - sum_list (map g xs))"
  using assms by (induction xs arbitrary: b) (simp_all add: algebra_simps)

lemma foldE_add:
  fixes g :: "'a \<Rightarrow> amount"
  assumes "\<And>x b. x \<in> set xs \<Longrightarrow> f x b = Inr (b + g x)"
  shows "foldE f xs b = Inr (b + sum_list (map g xs))"
  using assms by (induction xs arbitrary: b) (simp_all add: algebra_simps)

section \<open>What the balance should be\<close>

definition minedValue :: "minedMap \<Rightarrow> outPoint \<Rightarrow> amount" where
  "minedValue M op = (case M (opHash op) of Some (_, tx) \<Rightarrow> Value (TxOut tx ! unat (opIndex op)) | None \<Rightarrow> 0)"

definition unminedValue :: "txMap \<Rightarrow> outPoint \<Rightarrow> amount" where
  "unminedValue U op = (case U (opHash op) of Some tx \<Rightarrow> Value (TxOut tx ! unat (opIndex op)) | None \<Rightarrow> 0)"

text \<open>Fewer confirmations than required, or an immature coinbase, at a chain height.\<close>

definition tooYoung :: "env \<Rightarrow> minedMap \<Rightarrow> int \<Rightarrow> int \<Rightarrow> outPoint \<Rightarrow> bool" where
  "tooYoung E M minConf sync op \<longleftrightarrow> (case M (opHash op) of
      Some (b, tx) \<Rightarrow> let confs = sync - sint (bHeight b) + 1 in
        confs < minConf \<or> isCoinBaseTx E tx \<and> confs < uint (coinbaseMaturity E)
    | None \<Rightarrow> False)"

definition available :: "env \<Rightarrow> store \<Rightarrow> outPoint \<Rightarrow> bool" where
  "available E ns op \<longleftrightarrow> \<not> leasedNow E ns op \<and> \<not> spentByUnmined ns op"

definition spendableMined :: "env \<Rightarrow> store \<Rightarrow> minedMap \<Rightarrow> int \<Rightarrow> int \<Rightarrow> outPoint set" where
  "spendableMined E ns M minConf sync = {op \<in> opsOf (sUnspent ns). available E ns op \<and> \<not> tooYoung E M minConf sync op}"

definition spendableUnmined :: "env \<Rightarrow> store \<Rightarrow> outPoint set" where
  "spendableUnmined E ns = {op \<in> opsOf (sUnminedCredits ns). available E ns op}"

definition spendableTotal :: "env \<Rightarrow> store \<Rightarrow> minedMap \<Rightarrow> txMap \<Rightarrow> int \<Rightarrow> int \<Rightarrow> amount" where
  "spendableTotal E ns M U minConf sync = sum (minedValue M) (spendableMined E ns M minConf sync)
     + (if minConf = 0 then sum (unminedValue U) (spendableUnmined E ns) else 0)"

section \<open>The first loop\<close>

lemma lockedNow_eq: "leases_wf ns \<Longrightarrow> lockedNow E ns op = Inr (leasedNow E ns op)"
  by (auto simp: lockedNow_def leasedNow_def isLockedOutput_lease split: option.splits)

lemma opKeyed_unspent:
  assumes "ledger ns bal" shows "opKeyed (sUnspent ns)"
  unfolding opKeyed_def
proof (intro allI impI)
  fix k v assume "bucketGet (sUnspent ns) k = Some v"
  then obtain h i where "k = canonicalOutPoint h i" using ledgerD[OF assms] by metis
  then show "\<exists>op. k = opKey op" by (intro exI[of _ "\<lparr>opHash = h, opIndex = i\<rparr>"]) (simp add: opKey_def)
qed

lemma opsOf_unspent:
  assumes "books E ns M" "ledger ns bal" "op \<in> opsOf (sUnspent ns)"
  obtains b tx cv where "unspentAt ns (opHash op) (opIndex op) = Some (valueUnspent b)" "M (opHash op) = Some (b, tx)"
    "creditAt ns (opHash op) (opIndex op) b = Some cv" "\<not> flagSpent cv" "unat (opIndex op) < length (TxOut tx)"
    "uint64_of cv = minedValue M op" "length cv = 9"
proof -
  obtain v where v: "unspentAt ns (opHash op) (opIndex op) = Some v" using assms(3) by (auto simp: opsOf_def opKey_def unspentAt_def)
  obtain b tx cv where "v = valueUnspent b" "M (opHash op) = Some (b, tx)" "creditAt ns (opHash op) (opIndex op) b = Some cv"
    "\<not> flagSpent cv" "output_credit tx (opIndex op) cv" "length cv = 9" by (rule unspentAt_mined[OF assms(1,2) v])
  then show thesis using that v by (simp add: output_credit_def minedValue_def)
qed

lemma ledger_sum:
  assumes bk: "books E ns M" and l: "ledger ns bal"
  shows "bal = sum (minedValue M) (opsOf (sUnspent ns))"
proof -
  have "bal = sum_list (map (unspentAmount ns) (entries (sUnspent ns)))" using l by (simp add: ledger_def unspentTotal_def)
  also have "\<dots> = (\<Sum>op \<in> opsOf (sUnspent ns). unspentAmount ns (opKey op, the (bucketGet (sUnspent ns) (opKey op))))"
    by (rule sum_entries[OF opKeyed_unspent[OF l]])
  also have "\<dots> = sum (minedValue M) (opsOf (sUnspent ns))"
  proof (rule sum.cong[OF refl])
    fix op assume "op \<in> opsOf (sUnspent ns)"
    from opsOf_unspent[OF bk l this] obtain b cv where
      "unspentAt ns (opHash op) (opIndex op) = Some (valueUnspent b)" "creditAt ns (opHash op) (opIndex op) b = Some cv"
      "uint64_of cv = minedValue M op" by metis
    then show "unspentAmount ns (opKey op, the (bucketGet (sUnspent ns) (opKey op))) = minedValue M op"
      by (simp add: unspentAmount_def unspentAt_def creditAt_def opKey_def)
  qed
  finally show ?thesis .
qed

lemma balance_first:
  assumes bk: "books E ns M" and l: "ledger ns bal" and lw: "leases_wf ns"
  shows "foldE (balanceUnspent E ns) (entries (sUnspent ns)) b
    = Inr (b - sum (minedValue M) {op \<in> opsOf (sUnspent ns). \<not> available E ns op})"
proof -
  let ?g = "\<lambda>e. case readCanonicalOutPoint (fst e) of Inr op \<Rightarrow> if available E ns op then 0 else minedValue M op | Inl _ \<Rightarrow> 0"
  have rd: "readCanonicalOutPoint (opKey op) = Inr op" for op by (cases op) (simp add: opKey_def)
  have step: "balanceUnspent E ns e c = Inr (c - ?g e)" if e: "e \<in> set (entries (sUnspent ns))" for e c
  proof -
    obtain op where op: "op \<in> opsOf (sUnspent ns)" "e = (opKey op, the (bucketGet (sUnspent ns) (opKey op)))"
      using e opsOf_entries[OF opKeyed_unspent[OF l]] by blast
    from opsOf_unspent[OF bk l op(1)] obtain b cv where
      u: "unspentAt ns (opHash op) (opIndex op) = Some (valueUnspent b)" "creditAt ns (opHash op) (opIndex op) b = Some cv"
      "uint64_of cv = minedValue M op" "length cv = 9" by metis
    then have ev: "e = (opKey op, valueUnspent b)" using op(2) by (simp add: unspentAt_def opKey_def)
    show ?thesis using u rd[of op] lw
      by (simp add: ev balanceUnspent_def unspent_codec.dec_enc lockedNow_eq available_def spentByUnmined_def
          existsCredit_def creditAt_def fetchRawCreditAmount_def orNil_def opKey_def Let_def)
  qed
  have "foldE (balanceUnspent E ns) (entries (sUnspent ns)) b = Inr (b - sum_list (map ?g (entries (sUnspent ns))))"
    by (rule foldE_sub) (rule step)
  also have "sum_list (map ?g (entries (sUnspent ns))) = (\<Sum>op \<in> opsOf (sUnspent ns). if available E ns op then 0 else minedValue M op)"
    by (subst sum_entries[OF opKeyed_unspent[OF l]]) (simp_all add: rd)
  also have "\<dots> = sum (minedValue M) {op \<in> opsOf (sUnspent ns). \<not> available E ns op}"
    unfolding sum.inter_filter[OF finite_opsOf] by (rule sum.cong) simp_all
  finally show ?thesis .
qed

section \<open>The second loop\<close>

text \<open>An output the second loop subtracts: available, unspent, and too young.\<close>

definition youngOutput :: "env \<Rightarrow> store \<Rightarrow> minedMap \<Rightarrow> int \<Rightarrow> int \<Rightarrow> outPoint \<Rightarrow> bool" where
  "youngOutput E ns M minConf sync op \<longleftrightarrow> available E ns op \<and> tooYoung E M minConf sync op
     \<and> (\<exists>b cv. creditAt ns (opHash op) (opIndex op) b = Some cv \<and> \<not> flagSpent cv)"

text \<open>The heights and confirmation counts for which the code's \<open>int32\<close> arithmetic does not overflow.\<close>

definition heights_ok :: "height \<Rightarrow> height \<Rightarrow> bool" where
  "heights_ok minConf sync \<longleftrightarrow> 0 \<le>s minConf \<and> 0 \<le>s sync \<and> sint sync + 1 < 2 ^ 31"

lemma sint_maturity: "sint (ucast (w :: 16 word) :: height) = uint w"
proof -
  have "uint w < 2 ^ 16" using uint_lt2p[of w] by simp
  then have "signed_take_bit 31 (uint w) = uint w" by (intro signed_take_bit_int_eq_self) (simp_all add: order_trans[of _ 0])
  then show ?thesis by (simp add: signed_ucast_eq)
qed

lemma sint_confs:
  assumes "0 \<le>s (sync :: height)" "sint sync + 1 < 2 ^ 31" "0 \<le>s h"
  shows "sint (sync - h + 1) = sint sync - sint h + 1"
proof -
  have b: "0 \<le> sint sync" "0 \<le> sint h" "sint h < 2 ^ 31" using assms sint_less[of h] by (simp_all add: word_sle_eq)
  have "sint (sync - h) = sint sync - sint h"
    using b assms(2) by (simp add: sint_word_ariths signed_take_bit_int_eq_self)
  then show ?thesis using b assms(2) by (simp add: sint_word_ariths signed_take_bit_int_eq_self)
qed

lemma balanceOutput_eq:
  assumes bk: "books E ns M" and lw: "leases_wf ns" and M: "M h = Some (b, tx)" and rt: "MsgTx rec = tx"
    and ho: "heights_ok minConf sync" and hb: "0 \<le>s bHeight b"
  shows "balanceOutput E ns minConf (ucast (coinbaseMaturity E)) sync h b rec (i, out) bal
    = Inr (bal - (if youngOutput E ns M (sint minConf) (sint sync) \<lparr>opHash = h, opIndex = i\<rparr>
        then minedValue M \<lparr>opHash = h, opIndex = i\<rparr> else 0))"
proof -
  let ?op = "\<lparr>opHash = h, opIndex = i\<rparr>"
  have cf: "sint (sync - bHeight b + 1) = sint sync - sint (bHeight b) + 1"
    using ho hb by (intro sint_confs) (simp_all add: heights_ok_def)
  have ty: "tooYoung E M (sint minConf) (sint sync) ?op \<longleftrightarrow> sync - bHeight b + 1 <s minConf
      \<or> isCoinBaseTx E tx \<and> sync - bHeight b + 1 <s ucast (coinbaseMaturity E)"
    by (simp add: tooYoung_def M word_sless_alt cf sint_maturity Let_def)
  have av: "available E ns ?op \<longleftrightarrow> \<not> leasedNow E ns ?op \<and> existsRawUnminedInput ns (canonicalOutPoint h i) = None"
    by (simp add: available_def spentByUnmined_def)
  show ?thesis
  proof (cases "creditAt ns h i b")
    case None
    have "creditAt ns h i b' = None" for b'
      using None creditAt_mined[OF bk, of h i b'] M by (cases "creditAt ns h i b'") force+
    then have "\<not> youngOutput E ns M (sint minConf) (sint sync) ?op" by (simp add: youngOutput_def)
    then show ?thesis using None lw
      by (simp add: balanceOutput_def lockedNow_eq existsCredit_def creditAt_def Let_def)
  next
    case (Some cv)
    obtain tx' where "M h = Some (b, tx')" "output_credit tx' i cv" by (rule creditAt_mined[OF bk Some])
    then have v: "uint64_of cv = minedValue M ?op" "9 \<le> length cv" using M by (simp_all add: output_credit_def minedValue_def)
    have "(\<exists>b cv. creditAt ns h i b = Some cv \<and> \<not> flagSpent cv) \<longleftrightarrow> \<not> flagSpent cv"
      using Some creditAt_block[OF bk Some] by (metis option.inject)
    then show ?thesis using Some lw v rt
      by (simp add: balanceOutput_def lockedNow_eq existsCredit_def creditAt_def youngOutput_def av ty
          fetchRawCreditAmountSpent_def Let_def)
  qed
qed

definition youngValue :: "env \<Rightarrow> store \<Rightarrow> minedMap \<Rightarrow> int \<Rightarrow> int \<Rightarrow> outPoint \<Rightarrow> amount" where
  "youngValue E ns M minConf sync op = (if youngOutput E ns M minConf sync op then minedValue M op else 0)"

definition outIndexes :: "minedMap \<Rightarrow> hash \<Rightarrow> u32 set" where
  "outIndexes M h = (case M h of Some (b, tx) \<Rightarrow> {i. unat i < length (TxOut tx)} | None \<Rightarrow> {})"

lemma indexed_indexes: "length xs < 2 ^ 32 \<Longrightarrow> fst ` set (indexed xs) = {i. unat i < length xs}"
  using indexed_mem[of xs] by force

lemma sum_indexed:
  fixes f :: "u32 \<Rightarrow> amount"
  assumes "length xs < 2 ^ 32"
  shows "sum_list (map (\<lambda>(i, _). f i) (indexed xs)) = sum f {i. unat i < length xs}"
proof -
  have "sum_list (map (\<lambda>(i, _). f i) (indexed xs)) = sum_list (map f (map fst (indexed xs)))"
    by (simp add: comp_def case_prod_unfold)
  also have "\<dots> = sum f (set (map fst (indexed xs)))" by (rule sum_list_distinct_conv_sum_set[OF distinct_indexed[OF assms]])
  finally show ?thesis using indexed_indexes[OF assms] by simp
qed

lemma balanceTx_eq:
  assumes bk: "books E ns M" and lw: "leases_wf ns" and mh: "mined_holds E ns M" and M: "M h = Some (b, tx)"
    and n: "length (TxOut tx) < 2 ^ 32" and ho: "heights_ok minConf sync" and hb: "0 \<le>s bHeight b"
  shows "bindE (fetchTxRecord E ns h b) (\<lambda>rec.
       foldE (balanceOutput E ns minConf (ucast (coinbaseMaturity E)) sync h b rec) (indexed (TxOut (MsgTx rec))) bal)
     = Inr (bal - (\<Sum>i \<in> outIndexes M h. youngValue E ns M (sint minConf) (sint sync) \<lparr>opHash = h, opIndex = i\<rparr>))"
proof -
  let ?Y = "\<lambda>i. youngValue E ns M (sint minConf) (sint sync) \<lparr>opHash = h, opIndex = i\<rparr>"
  obtain v rec where r: "bucketGet (sTxRecords ns) (keyTxRecord h b) = Some v" "readRawTxRecord E h v = Inr rec" "MsgTx rec = tx"
    using mh M unfolding mined_holds_def by blast
  have "foldE (balanceOutput E ns minConf (ucast (coinbaseMaturity E)) sync h b rec) (indexed (TxOut tx)) bal
      = Inr (bal - sum_list (map (\<lambda>(i, _). ?Y i) (indexed (TxOut tx))))"
    by (rule foldE_sub) (auto simp: balanceOutput_eq[OF bk lw M r(3) ho hb] youngValue_def)
  then show ?thesis using r sum_indexed[OF n, of ?Y] by (simp add: fetchTxRecord_def orNil_def outIndexes_def M)
qed

lemma sum_rollList:
  fixes g :: "hash \<Rightarrow> amount"
  assumes "distinct (map snd (rollList bs))"
  shows "sum_list (map (\<lambda>b. sum_list (map g (recTransactions b))) bs) = sum g (snd ` set (rollList bs))"
proof -
  have "sum_list (map (\<lambda>b. sum_list (map g (recTransactions b))) bs) = sum_list (map g (map snd (rollList bs)))"
    by (induction bs) (simp_all add: rollList_def comp_def)
  then show ?thesis using sum_list_distinct_conv_sum_set[OF assms, of g] by simp
qed

definition outputsOf :: "minedMap \<Rightarrow> hash set \<Rightarrow> outPoint set" where
  "outputsOf M D = {op. opHash op \<in> D \<and> opIndex op \<in> outIndexes M (opHash op)}"

lemma sum_outputs:
  fixes Y :: "outPoint \<Rightarrow> amount"
  assumes "finite D"
  shows "(\<Sum>h \<in> D. \<Sum>i \<in> outIndexes M h. Y \<lparr>opHash = h, opIndex = i\<rparr>) = sum Y (outputsOf M D)"
    and "finite (outputsOf M D)"
proof -
  let ?S = "Sigma D (outIndexes M)" and ?f = "\<lambda>(h, i). \<lparr>opHash = h, opIndex = i\<rparr>"
  have im: "?f ` ?S = outputsOf M D"
  proof (intro set_eqI iffI)
    fix op assume "op \<in> outputsOf M D"
    then show "op \<in> ?f ` ?S" by (intro image_eqI[of _ _ "(opHash op, opIndex op)"]) (auto simp: outputsOf_def)
  qed (auto simp: outputsOf_def)
  have fi: "finite ?S" using assms by (intro finite_SigmaI) simp_all
  then show "finite (outputsOf M D)" unfolding im[symmetric] by (rule finite_imageI)
  have "(\<Sum>h \<in> D. \<Sum>i \<in> outIndexes M h. Y \<lparr>opHash = h, opIndex = i\<rparr>) = (\<Sum>(h, i) \<in> ?S. Y \<lparr>opHash = h, opIndex = i\<rparr>)"
    using assms by (intro sum.Sigma) simp_all
  also have "\<dots> = sum Y (?f ` ?S)" by (subst sum.reindex) (auto simp: inj_on_def case_prod_unfold)
  finally show "(\<Sum>h \<in> D. \<Sum>i \<in> outIndexes M h. Y \<lparr>opHash = h, opIndex = i\<rparr>)
      = sum Y (outputsOf M D)" unfolding im .
qed

lemma balance_second:
  assumes inv: "wallet_inv E r ns M U" and ho: "heights_ok minConf sync"
    and bs: "bs = filter (\<lambda>b. \<not> bHeight (recBlock b) <s ht) (blocksDown (sBlocks ns))"
  shows "foldE (balanceBlock E ns minConf (ucast (coinbaseMaturity E)) sync) bs bal
    = Inr (bal - sum (youngValue E ns M (sint minConf) (sint sync))
        (outputsOf M (detached M ht)))"
    and "finite (outputsOf M (detached M ht))"
proof -
  note iv = wallet_invD[OF inv]
  note rl = rollList_chain[OF iv(8) bs]
  let ?g = "\<lambda>h. \<Sum>i \<in> outIndexes M h. youngValue E ns M (sint minConf) (sint sync) \<lparr>opHash = h, opIndex = i\<rparr>"
  have blk: "balanceBlock E ns minConf (ucast (coinbaseMaturity E)) sync b c = Inr (c - sum_list (map ?g (recTransactions b)))"
    if b: "b \<in> set bs" for b c
    unfolding balanceBlock_def
  proof (rule foldE_sub)
    fix h c assume h: "h \<in> set (recTransactions b)"
    have "(recBlock b, h) \<in> set (rollList bs)" using b h by (auto simp: set_rollList)
    then obtain tx where tx: "M h = Some (recBlock b, tx)" using rl(1) by auto
    have "length (TxOut tx) < 2 ^ 32" using iv(11) tx unfolding chain_wf_def wf_tx_def by blast
    moreover have "0 \<le>s bHeight (recBlock b)"
      using b mem_blocksDown_holds[OF iv(8), of b] unfolding bs block_holds_def by auto
    ultimately show "bindE (fetchTxRecord E ns h (recBlock b)) (\<lambda>rec.
       foldE (balanceOutput E ns minConf (ucast (coinbaseMaturity E)) sync h (recBlock b) rec) (indexed (TxOut (MsgTx rec))) c)
       = Inr (c - ?g h)" by (intro balanceTx_eq[OF iv(5) iv(10) iv(7) tx _ ho])
  qed
  have fin: "finite (detached M ht)" unfolding rl(2)[symmetric] by simp
  have "foldE (balanceBlock E ns minConf (ucast (coinbaseMaturity E)) sync) bs bal
      = Inr (bal - sum_list (map (\<lambda>b. sum_list (map ?g (recTransactions b))) bs))" by (rule foldE_sub) (rule blk)
  then show "foldE (balanceBlock E ns minConf (ucast (coinbaseMaturity E)) sync) bs bal
    = Inr (bal - sum (youngValue E ns M (sint minConf) (sint sync))
        (outputsOf M (detached M ht)))"
    using sum_rollList[OF rl(3), of ?g] sum_outputs(1)[OF fin] by (simp add: rl(2))
  show "finite (outputsOf M (detached M ht))" by (rule sum_outputs(2)[OF fin])
qed

text \<open>The outputs the second loop subtracts are the available ones in the unspent index that are too young.\<close>

lemma tooYoung_height:
  assumes ho: "heights_ok minConf sync" and M: "M (opHash op) = Some (b, tx)" "0 \<le>s bHeight b"
    and ty: "tooYoung E M (sint minConf) (sint sync) op"
    and st: "stop = (if minConf <s ucast (coinbaseMaturity E) then ucast (coinbaseMaturity E) else minConf)"
  shows "\<not> bHeight b <s sync - stop"
proof -
  have r: "0 \<le> sint minConf" "0 \<le> sint sync" "sint sync + 1 < 2 ^ 31" "0 \<le> sint (bHeight b)"
    using ho M(2) by (simp_all add: heights_ok_def word_sle_eq)
  have m: "uint (coinbaseMaturity E) \<le> sint stop" "sint minConf \<le> sint stop" "0 \<le> sint stop"
    using r(1) by (simp_all add: st word_sless_alt sint_maturity)
  have "sint stop < 2 ^ 31" using sint_less[of stop] by simp
  then have "sint (sync - stop) = sint sync - sint stop"
    using r m by (simp add: sint_word_ariths signed_take_bit_int_eq_self)
  moreover have "sint sync - sint (bHeight b) + 1 \<le> sint stop"
    using ty m by (auto simp: tooYoung_def M Let_def)
  ultimately show ?thesis by (simp add: word_sless_alt)
qed

lemma young_sum:
  assumes inv: "wallet_inv E r ns M U" and l: "ledger ns bal" and ho: "heights_ok minConf sync"
    and st: "stop = (if minConf <s ucast (coinbaseMaturity E) then ucast (coinbaseMaturity E) else minConf)"
    and fin: "finite (outputsOf M (detached M (sync - stop)))"
  shows "sum (youngValue E ns M (sint minConf) (sint sync)) (outputsOf M (detached M (sync - stop)))
    = sum (minedValue M) {op \<in> opsOf (sUnspent ns). available E ns op \<and> tooYoung E M (sint minConf) (sint sync) op}"
    (is "sum ?Y ?A = sum _ ?B")
proof (rule sum.mono_neutral_cong_right[OF fin])
  note iv = wallet_invD[OF inv]
  have y: "youngOutput E ns M (sint minConf) (sint sync) op \<and> op \<in> ?A" if op: "op \<in> ?B" for op
  proof -
    obtain b tx cv where u: "M (opHash op) = Some (b, tx)" "creditAt ns (opHash op) (opIndex op) b = Some cv"
      "\<not> flagSpent cv" "unat (opIndex op) < length (TxOut tx)" using opsOf_unspent[OF iv(5) l, of op] op by blast
    have "0 \<le>s bHeight b" using iv(8) u(1) unfolding blocks_hold_def block_holds_def by metis
    then have "\<not> bHeight b <s sync - stop" using tooYoung_height[where op = op and M = M, OF ho u(1) _ _ st] op by simp
    then show ?thesis using u op by (auto simp: outputsOf_def outIndexes_def detached_def youngOutput_def)
  qed
  then show "?B \<subseteq> ?A" by blast
  show "?Y op = minedValue M op" if "op \<in> ?B" for op using y[OF that] by (simp add: youngValue_def)
  show "\<forall>op \<in> ?A - ?B. ?Y op = 0"
  proof
    fix op assume op: "op \<in> ?A - ?B"
    show "?Y op = 0"
    proof (cases "youngOutput E ns M (sint minConf) (sint sync) op")
      case True
      then obtain b cv where c: "creditAt ns (opHash op) (opIndex op) b = Some cv" "\<not> flagSpent cv"
        and a: "available E ns op" "tooYoung E M (sint minConf) (sint sync) op" by (auto simp: youngOutput_def)
      then have "unspentAt ns (opHash op) (opIndex op) = None" using op by (auto simp: opsOf_def unspentAt_def opKey_def)
      then have "uint64_of cv = 0" using iv(5) c unfolding books_def unspent_complete_def by blast
      moreover obtain tx where "M (opHash op) = Some (b, tx)" "output_credit tx (opIndex op) cv" by (rule creditAt_mined[OF iv(5) c(1)])
      ultimately show ?thesis by (simp add: youngValue_def minedValue_def output_credit_def)
    qed (simp add: youngValue_def)
  qed
qed

section \<open>The third loop and the whole\<close>

lemma opsOf_unminedCredits:
  assumes "unmined_credits ns U" "op \<in> opsOf (sUnminedCredits ns)"
  shows "\<exists>ch. bucketGet (sUnminedCredits ns) (opKey op) = Some (valueUnminedCredit (unminedValue U op) ch)"
  using assms unfolding unmined_credits_def opsOf_def opKey_def unminedValue_def by fastforce

lemma opKeyed_unminedCredits: "unminedCredits_wf ns \<Longrightarrow> opKeyed (sUnminedCredits ns)"
  unfolding unminedCredits_wf_def opKeyed_def opKey_def by (metis outPoint.select_convs(1,2))

lemma balance_third:
  assumes uw: "unminedCredits_wf ns" and uc: "unmined_credits ns U" and lw: "leases_wf ns"
  shows "foldE (balanceUnmined E ns) (entries (sUnminedCredits ns)) b
    = Inr (b + sum (unminedValue U) (spendableUnmined E ns))"
proof -
  let ?g = "\<lambda>e. case readCanonicalOutPoint (fst e) of Inr op \<Rightarrow> if available E ns op then unminedValue U op else 0 | Inl _ \<Rightarrow> 0"
  have rd: "readCanonicalOutPoint (opKey op) = Inr op" for op by (simp add: opKey_def)
  have step: "balanceUnmined E ns e c = Inr (c + ?g e)" if e: "e \<in> set (entries (sUnminedCredits ns))" for e c
  proof -
    obtain op where op: "op \<in> opsOf (sUnminedCredits ns)" "e = (opKey op, the (bucketGet (sUnminedCredits ns) (opKey op)))"
      using e opsOf_entries[OF opKeyed_unminedCredits[OF uw]] by blast
    obtain ch where "e = (opKey op, valueUnminedCredit (unminedValue U op) ch)"
      using opsOf_unminedCredits[OF uc op(1)] op(2) by auto
    then show ?thesis using rd[of op] lw
      by (simp add: balanceUnmined_def lockedNow_eq available_def spentByUnmined_def fetchRawUnminedCreditAmount_def opKey_def)
  qed
  have "foldE (balanceUnmined E ns) (entries (sUnminedCredits ns)) b = Inr (b + sum_list (map ?g (entries (sUnminedCredits ns))))"
    by (rule foldE_add) (rule step)
  also have "sum_list (map ?g (entries (sUnminedCredits ns))) = (\<Sum>op \<in> opsOf (sUnminedCredits ns). if available E ns op then unminedValue U op else 0)"
    by (subst sum_entries[OF opKeyed_unminedCredits[OF uw]]) (simp_all add: rd)
  also have "\<dots> = sum (unminedValue U) (spendableUnmined E ns)"
    unfolding spendableUnmined_def sum.inter_filter[OF finite_opsOf] ..
  finally show ?thesis .
qed

lemma split_sum:
  fixes V :: "outPoint \<Rightarrow> amount"
  assumes "finite S"
  shows "sum V S - sum V {x \<in> S. \<not> P x} - sum V {x \<in> S. P x \<and> Q x} = sum V {x \<in> S. P x \<and> \<not> Q x}"
  unfolding sum.inter_filter[OF assms] sum_subtractf[symmetric] by (rule sum.cong) auto

lemma Balance_spec:
  assumes inv: "wallet_inv E r ns M U" and ho: "heights_ok minConf sync"
  shows "Balance E ns minConf sync = Inr (spendableTotal E ns M U (sint minConf) (sint sync))"
proof -
  note iv = wallet_invD[OF inv]
  obtain bal where bal: "fetchMinedBalance ns = Inr bal" "ledger ns bal" using iv(3) by (auto simp: ledger_ok_def)
  let ?stop = "if minConf <s ucast (coinbaseMaturity E) then ucast (coinbaseMaturity E) else minConf"
  let ?bs = "filter (\<lambda>b. \<not> bHeight (recBlock b) <s sync - ?stop) (blocksDown (sBlocks ns))"
  obtain it where it: "blockRunPrev (\<lambda>b. \<not> bHeight (recBlock b) <s sync - ?stop) (makeReverseBlockIterator ns) = (?bs, it)" "biErr it = None"
    using reverse_run(1)[OF blocks_hold_wf[OF iv(8)]] by blast
  note b2 = balance_second[OF inv ho refl, where ht = "sync - ?stop"]
  note ys = young_sum[OF inv bal(2) ho refl b2(2)]
  let ?b1 = "bal - sum (minedValue M) {op \<in> opsOf (sUnspent ns). \<not> available E ns op}"
  have s: "?b1 - sum (minedValue M) {op \<in> opsOf (sUnspent ns). available E ns op \<and> tooYoung E M (sint minConf) (sint sync) op}
      = sum (minedValue M) (spendableMined E ns M (sint minConf) (sint sync))"
    unfolding ledger_sum[OF iv(5) bal(2)] spendableMined_def by (rule split_sum[OF finite_opsOf])
  have z: "minConf = 0 \<longleftrightarrow> sint minConf = 0" by (metis signed_0 signed_word_eqI)
  show ?thesis
    using bal(1) balance_first[OF iv(5) bal(2) iv(10), where b = bal] it b2(1)[where bal = ?b1] ys s balance_third[OF iv(4,9,10)] z
    by (simp add: Balance_def Let_def spendableTotal_def del: bindE_eq_Inr)
qed

end
