(* ===== verification/Store_Steps.thy ===== *)
theory Store_Steps
  imports Store_Balance Tx_Create
begin

text \<open>
  The transaction store as a state machine.  A state is the store with the mined and the unmined
  transactions it has been told of; a step is one call of an operation of \<open>wtxmgr/tx.go\<close> or
  \<open>wtxmgr/unconfirmed.go\<close> that the caller is entitled to make.  Every operation keeps
  \<open>wallet_inv\<close>, so it holds in every state that is reached from a new store.
\<close>

section \<open>Unmined transactions\<close>

lemma prefix_entries_unknown:
  assumes "mined_holds E ns M" "M h = None"
  shows "prefix_entries (sTxRecords ns) (hashBytes h) = []"
proof -
  have "(k, v) \<notin> set (prefix_entries (sTxRecords ns) (hashBytes h))" for k v
    using assms unfolding mined_holds_def by (auto simp: prefix_entries_def kv.mem_items_iff)
  then show ?thesis by (metis list.set_intros(1) neq_Nil_conv surj_pair)
qed

lemma latestTxRecord_unknown: "mined_holds E ns M \<Longrightarrow> M h = None \<Longrightarrow> latestTxRecord ns h = None"
  by (simp add: latestTxRecord_last prefix_entries_unknown)

lemma TxDetails_unknown:
  assumes "wallet_inv E r ns M U" "M h = None" "U h = None" shows "TxDetails E ns h = Inr None"
  using latestTxRecord_unknown[OF wallet_invD(7)[OF assms(1)] assms(2)] mempool_get_None[OF wallet_invD(2)[OF assms(1)] assms(3)]
  by (simp add: TxDetails_def existsRawUnmined_def)

lemma unspentAt_unknown:
  assumes "wallet_inv E r ns M U" "M h = None" shows "unspentAt ns h i = None"
proof (rule ccontr)
  assume "unspentAt ns h i \<noteq> None"
  then obtain v where v: "unspentAt ns h i = Some v" by blast
  obtain bal where "ledger ns bal" using wallet_invD(3)[OF assms(1)] by (auto simp: ledger_ok_def)
  from unspentAt_mined[OF wallet_invD(5)[OF assms(1)] this v] show False using assms(2) by (metis option.distinct(1))
qed

text \<open>A transaction that the store has not seen, with a hash of higher rank than those it spends from.\<close>

definition receivable :: "env \<Rightarrow> (hash \<Rightarrow> nat) \<Rightarrow> minedMap \<Rightarrow> txMap \<Rightarrow> txRecord \<Rightarrow> bool" where
  "receivable E r M U rec \<longleftrightarrow> M (Hash rec) = None \<and> U (Hash rec) = None \<and> rec_ok E rec
     \<and> wf_tx E r (Hash rec) (MsgTx rec)"

lemma receivable_insertable:
  assumes "wallet_inv E r ns M U" "receivable E r M U rec" shows "insertable E ns rec"
  using TxDetails_unknown[OF assms(1)] unspentAt_unknown[OF assms(1)] assms(2)
  by (auto simp: insertable_def receivable_def outputKeys_def existsRawUnspent_def unspentAt_def glen_def Let_def split: option.splits)

lemma chain_wf_receive:
  "chain_wf E r M U \<Longrightarrow> receivable E r M U rec \<Longrightarrow> chain_wf E r M (U(Hash rec \<mapsto> MsgTx rec))"
  by (auto simp: chain_wf_def receivable_def)

lemma InsertTx_unmined_inv:
  assumes db: "db_ok E" and inv: "wallet_inv E r ns M U" and rc: "receivable E r M U rec"
  shows "\<exists>ns'. InsertTx E ns rec None = Inr ns' \<and> wallet_inv E r ns' M (U(Hash rec \<mapsto> MsgTx rec))"
proof -
  note iv = wallet_invD[OF inv]
  let ?U = "U(Hash rec \<mapsto> MsgTx rec)"
  obtain ns' where ns': "insertMemPoolTx E ns rec = Inr ns'" "mempool E ns' ?U"
    "ns' = ns\<lparr>sUnmined := sUnmined ns', sUnminedInputs := sUnminedInputs ns'\<rparr>"
    using insertMemPoolTx_spec[OF db iv(2) receivable_insertable[OF inv rc]] by blast
  then obtain x y where f: "ns' = ns\<lparr>sUnmined := x, sUnminedInputs := y\<rparr>" by blast
  have "store_inv E ns' ?U"
    using iv(1) ns'(2) ledger_ok_cong[of ns' ns] unminedCredits_wf_cong[of ns' ns] by (simp add: store_inv_def f)
  moreover have "books E ns' M" "debits_backed ns'" using iv(5,6) books_cong[of ns' ns] by (simp_all add: f)
  moreover have "mined_holds E ns' M" "blocks_hold ns' M" "leases_wf ns'"
    using iv(7,8,10) by (simp_all add: f mined_holds_def blocks_hold_def leases_wf_def)
  moreover have "unmined_credits ns' ?U"
    using iv(9) rc unfolding unmined_credits_def f receivable_def by simp (metis option.distinct(1))
  ultimately have "wallet_inv E r ns' M ?U" using chain_wf_receive[OF iv(11) rc] by (simp add: wallet_inv_def)
  then show ?thesis using ns'(1) by (simp add: InsertTx_def InsertTxCheckIfExists_def)
qed

lemma chain_wf_remove: "chain_wf E r M U \<Longrightarrow> chain_wf E r M (U |` (- D))"
  by (auto simp: chain_wf_def restrict_map_def)

lemma RemoveUnminedTx_inv:
  assumes db: "db_ok E" and inv: "wallet_inv E r ns M U" and u: "U (Hash rec) = Some (MsgTx rec)"
  shows "\<exists>ns'. RemoveUnminedTx E ns rec = Inr ns' \<and> wallet_inv E r ns' M (U |` (- descendants U (Hash rec)))"
proof -
  note iv = wallet_invD[OF inv]
  let ?U = "U |` (- descendants U (Hash rec))"
  obtain ns' where ns': "removeConflict E ns rec = Inr ns'" "mempool E ns' ?U"
    "removed (creditKeys U (descendants U (Hash rec))) ns ns'"
    using removeConflict_spec[OF db iv(2) wallet_acyclic[OF inv] u] by blast
  have "ledger_ok ns'" using iv(3) removed_mined[OF ns'(3)] ledger_ok_cong[of ns' ns] by simp
  then have "store_inv E ns' ?U"
    using ns'(2) removed_unminedCredits_wf[OF ns'(3) iv(4)] by (simp add: store_inv_def)
  then have "wallet_inv E r ns' M ?U"
    using iv removed_inv[OF ns'(3)] unmined_credits_removed[OF iv(9) ns'(3)] chain_wf_remove by (simp add: wallet_inv_def)
  then show ?thesis using ns'(1) by (simp add: RemoveUnminedTx_def)
qed

section \<open>Credits\<close>

lemma no_credit_mined:
  assumes "books E ns M" "M h = Some (b, tx)" "creditAt ns h i b = None" shows "no_credit ns h i"
  using assms(2,3) unfolding no_credit_def
  by (metis creditAt_mined[OF assms(1)] not_None_eq option.inject prod.inject)

lemma AddCredit_mined_inv:
  assumes db: "db_ok E" and inv: "wallet_inv E r ns M U" and M: "M (Hash rec) = Some (metaBlock block, MsgTx rec)"
    and i: "unat i < length (TxOut (MsgTx rec))"
  shows "\<exists>op ns'. AddCredit E notify ns rec (Some block) i change = Inr (op, ns') \<and> wallet_inv E r ns' M U"
proof (cases "creditAt ns (Hash rec) i (metaBlock block)")
  case (Some v)
  then have "AddCredit E notify ns rec (Some block) i change = Inr (None, ns)"
    using i by (simp add: AddCredit_def addCredit_def existsCredit_def creditAt_def Let_def)
  then show ?thesis using inv by blast
next
  case None
  note iv = wallet_invD[OF inv]
  have nc: "no_credit ns (Hash rec) i" by (rule no_credit_mined[OF iv(5) M None])
  define c where "c = newCredit (Hash rec) i (metaBlock block) (Value (TxOut (MsgTx rec) ! unat i)) change"
  have c: "credOutPoint c = \<lparr>opHash = Hash rec, opIndex = i\<rparr>" "credBlock c = metaBlock block"
    "credAmount c = Value (TxOut (MsgTx rec) ! unat i)" by (simp_all add: c_def newCredit_def)
  obtain bal where b: "fetchMinedBalance ns = Inr bal" using iv(3) by (auto simp: ledger_ok_def)
  let ?ns' = "(addUnspent ns c)\<lparr>sRoot := bucketPut (sRoot ns) rootMinedBalance (putUint64 (bal + credAmount c))\<rparr>"
  have "bucketGet (sCredits ns) (keyCredit (Hash rec) i (metaBlock block)) = None" using None by (simp add: creditAt_def)
  moreover have "fetchMinedBalance (ns\<lparr>sCredits := x\<rparr>) = Inr bal" for x using b by (simp add: fetchMinedBalance_def)
  ultimately have r: "AddCredit E notify ns rec (Some block) i change
      = Inr (if notify then Some \<lparr>opHash = Hash rec, opIndex = i\<rparr> else None, ?ns')"
    using i db by (simp add: AddCredit_def addCredit_def existsCredit_def putRawCredit_def putMinedBalance_def putUnspent_def
        addUnspent_def c_def newCredit_def Let_def)
  then have "store_inv E ?ns' U" using AddCredit_spec[OF db iv(1) i nc, of notify block change] by auto
  moreover have "books E ?ns' M" "debits_backed ?ns'"
    using books_addUnspent[OF iv(5,6), of c "MsgTx rec"] nc M i c books_cong[of ?ns' "addUnspent ns c"] by simp_all
  moreover have "mined_holds E ?ns' M" "blocks_hold ?ns' M" "leases_wf ?ns'" "unmined_credits ?ns' U"
    using iv(7-10) by (simp_all add: addUnspent_def mined_holds_def blocks_hold_def leases_wf_def unmined_credits_def Let_def)
  ultimately have "wallet_inv E r ?ns' M U" using iv(11) by (simp add: wallet_inv_def)
  then show ?thesis using r by blast
qed

lemma AddCredit_unmined_inv:
  assumes db: "db_ok E" and inv: "wallet_inv E r ns M U" and u: "U (Hash rec) = Some (MsgTx rec)"
    and i: "unat i < length (TxOut (MsgTx rec))"
  shows "\<exists>op ns'. AddCredit E notify ns rec None i change = Inr (op, ns') \<and> wallet_inv E r ns' M U"
proof (cases "existsRawUnminedCredit ns (canonicalOutPoint (Hash rec) i)")
  case (Some v)
  then have "AddCredit E notify ns rec None i change = Inr (None, ns)"
    using i by (simp add: AddCredit_def addCredit_def Let_def)
  then show ?thesis using inv by blast
next
  case None
  note iv = wallet_invD[OF inv]
  have "M (Hash rec) = None" using iv(11) u unfolding chain_wf_def by (metis option.distinct(1))
  then have l: "latestTxRecord ns (Hash rec) = None" by (rule latestTxRecord_unknown[OF iv(7)])
  let ?v = "valueUnminedCredit (Value (TxOut (MsgTx rec) ! unat i)) change"
  let ?ns' = "ns\<lparr>sUnminedCredits := bucketPut (sUnminedCredits ns) (canonicalOutPoint (Hash rec) i) ?v\<rparr>"
  have r: "AddCredit E notify ns rec None i change
      = Inr (if notify then Some \<lparr>opHash = Hash rec, opIndex = i\<rparr> else None, ?ns')"
    using i db l None by (simp add: AddCredit_def addCredit_def putRawUnminedCredit_def Let_def)
  have "unminedCredits_wf ?ns'" using iv(4) by (auto simp: unminedCredits_wf_def bucketGet_upd)
  moreover have "unmined_credits ?ns' U" using iv(9) u i by (auto simp: unmined_credits_def bucketGet_upd)
  moreover have "mempool E ?ns' U" "ledger_ok ?ns'"
    using iv(2,3) mempool_cong[of ?ns' ns] ledger_ok_cong[of ?ns' ns] by simp_all
  moreover have "books E ?ns' M" "debits_backed ?ns'" using iv(5,6) books_cong[of ?ns' ns] by simp_all
  ultimately have "wallet_inv E r ?ns' M U"
    using iv(7,8,10,11) by (simp add: wallet_inv_def store_inv_def mined_holds_def blocks_hold_def leases_wf_def)
  then show ?thesis using r by blast
qed

text \<open>The transaction is recorded where the caller of \<open>AddCredit\<close> says it is.\<close>

definition recorded :: "minedMap \<Rightarrow> txMap \<Rightarrow> txRecord \<Rightarrow> blockMeta option \<Rightarrow> bool" where
  "recorded M U rec blk \<longleftrightarrow> (case blk of None \<Rightarrow> U (Hash rec) = Some (MsgTx rec)
     | Some block \<Rightarrow> M (Hash rec) = Some (metaBlock block, MsgTx rec))"

lemma AddCredit_index: "AddCredit E notify ns rec blk i change = Inr x \<Longrightarrow> unat i < length (TxOut (MsgTx rec))"
  by (simp add: AddCredit_def split: if_splits)

lemma AddCredit_inv:
  assumes "db_ok E" "wallet_inv E r ns M U" "recorded M U rec blk" "unat i < length (TxOut (MsgTx rec))"
  shows "\<exists>op ns'. AddCredit E notify ns rec blk i change = Inr (op, ns') \<and> wallet_inv E r ns' M U"
proof (cases blk)
  case None
  then show ?thesis using AddCredit_unmined_inv[OF assms(1,2) _ assms(4)] assms(3) by (simp add: recorded_def)
next
  case (Some block)
  then have "M (Hash rec) = Some (metaBlock block, MsgTx rec)" using assms(3) by (simp add: recorded_def)
  from AddCredit_mined_inv[OF assms(1,2) this assms(4)] show ?thesis using Some by simp
qed

section \<open>Leases, labels and the clock\<close>

lemma wallet_inv_leases:
  assumes inv: "wallet_inv E r ns M U" and lw: "leases_wf ns'"
    and fr: "ns'\<lparr>sLockedOutputs := None\<rparr> = ns\<lparr>sLockedOutputs := None\<rparr>"
  shows "wallet_inv E r ns' M U"
proof -
  note iv = wallet_invD[OF inv]
  have "ns'\<lparr>sLockedOutputs := None\<rparr>\<lparr>sLockedOutputs := sLockedOutputs ns'\<rparr>
      = ns\<lparr>sLockedOutputs := None\<rparr>\<lparr>sLockedOutputs := sLockedOutputs ns'\<rparr>" by (simp only: fr)
  then obtain l where f: "ns' = ns\<lparr>sLockedOutputs := l\<rparr>" by simp
  have "store_inv E ns' U" using iv(1) mempool_cong[of ns' ns] ledger_ok_cong[of ns' ns] unminedCredits_wf_cong[of ns' ns]
    by (simp add: store_inv_def f)
  moreover have "books E ns' M" "debits_backed ns'" using iv(5,6) books_cong[of ns' ns] by (simp_all add: f)
  moreover have "mined_holds E ns' M" "blocks_hold ns' M" "unmined_credits ns' U"
    using iv(7-9) by (simp_all add: f mined_holds_def blocks_hold_def unmined_credits_def)
  ultimately show ?thesis using lw iv(11) by (simp add: wallet_inv_def)
qed

lemma wallet_inv_labels:
  assumes inv: "wallet_inv E r ns M U" shows "wallet_inv E r (ns\<lparr>sTxLabels := l\<rparr>) M U"
proof -
  let ?ns' = "ns\<lparr>sTxLabels := l\<rparr>"
  note iv = wallet_invD[OF inv]
  have "store_inv E ?ns' U" using iv(1) mempool_cong[of ?ns' ns] ledger_ok_cong[of ?ns' ns] unminedCredits_wf_cong[of ?ns' ns]
    by (simp add: store_inv_def)
  moreover have "books E ?ns' M" "debits_backed ?ns'" using iv(5,6) books_cong[of ?ns' ns] by simp_all
  moreover have "mined_holds E ?ns' M" "blocks_hold ?ns' M" "unmined_credits ?ns' U" "leases_wf ?ns'"
    using iv(7-10) by (simp_all add: mined_holds_def blocks_hold_def unmined_credits_def leases_wf_def)
  ultimately show ?thesis using iv(11) by (simp add: wallet_inv_def)
qed

lemma PutTxLabel_inv:
  "wallet_inv E r ns M U \<Longrightarrow> PutTxLabel E' ns h label = Inr ns' \<Longrightarrow> wallet_inv E r ns' M U"
  using wallet_inv_labels by (auto simp: PutTxLabel_def Let_def split: if_splits)

lemma LockOutput_inv:
  assumes "db_ok E'" "wallet_inv E r ns M U" "LockOutput E' ns lid op d = Inr (t, ns')"
  shows "wallet_inv E r ns' M U"
  using LockOutput_cases[OF wallet_invD(10)[OF assms(2)] assms(1), where lid = lid and op = op and d = d] assms(3)
  by (auto intro: wallet_inv_leases[OF assms(2)])

lemma UnlockOutput_inv:
  assumes "db_ok E'" "wallet_inv E r ns M U" "UnlockOutput E' ns lid op = Inr ns'"
  shows "wallet_inv E r ns' M U"
  using UnlockOutput_cases[OF wallet_invD(10)[OF assms(2)] assms(1), where lid = lid and op = op] assms(2,3)
  by (auto intro: wallet_inv_leases[OF assms(2)])

lemma unlockOutputs_inv:
  "foldE (\<lambda>op ns. unlockOutput E' ns op) ops ns = Inr ns' \<Longrightarrow> wallet_inv E r ns M U \<Longrightarrow> wallet_inv E r ns' M U"
proof (induction ops arbitrary: ns)
  case (Cons op ops)
  then obtain ns1 where 1: "unlockOutput E' ns op = Inr ns1" "foldE (\<lambda>op ns. unlockOutput E' ns op) ops ns1 = Inr ns'" by auto
  have "wallet_inv E r ns1 M U"
    by (rule wallet_inv_leases[OF Cons.prems(2)])
      (rule unlockOutput_effect[OF 1(1)], use unlockOutput_effect[OF 1(1)] wallet_invD(10)[OF Cons.prems(2)] in auto)
  then show ?case using Cons.IH 1(2) by blast
qed simp

lemma DeleteExpired_inv:
  "wallet_inv E r ns M U \<Longrightarrow> DeleteExpiredLockedOutputs E' ns = Inr ns' \<Longrightarrow> wallet_inv E r ns' M U"
  by (auto simp: DeleteExpiredLockedOutputs_def intro: unlockOutputs_inv)

text \<open>The invariant does not speak of the time.\<close>

lemma readRawTxRecord_clock: "readRawTxRecord (E\<lparr>clockNow := t\<rparr>) = readRawTxRecord E"
  by (simp add: readRawTxRecord_def fun_eq_iff)

lemma wf_tx_clock: "wf_tx (E\<lparr>clockNow := t\<rparr>) = wf_tx E" by (simp add: wf_tx_def fun_eq_iff)

lemma books_clock: "books (E\<lparr>clockNow := t\<rparr>) = books E"
  by (simp add: books_def debits_hold_def debit_of_def fun_eq_iff)

lemma mempool_clock: "mempool (E\<lparr>clockNow := t\<rparr>) = mempool E"
  by (simp add: mempool_def unmined_holds_def readRawTxRecord_clock fun_eq_iff cong: option.case_cong)

lemma wallet_inv_clock [simp]: "wallet_inv (E\<lparr>clockNow := t\<rparr>) r ns M U = wallet_inv E r ns M U"
  unfolding wallet_inv_def store_inv_def mined_holds_def chain_wf_def
  by (simp only: wf_tx_clock books_clock mempool_clock readRawTxRecord_clock)

lemma db_ok_clock [simp]: "db_ok (E\<lparr>clockNow := t\<rparr>) = db_ok E" by (simp add: db_ok_def wire_ok_def)

section \<open>A new store\<close>

lemma no_history_inv:
  assumes "no_history ns" shows "wallet_inv E r ns Map.empty Map.empty"
proof -
  have b: "sBlocks ns = bucketEmpty" "sTxRecords ns = bucketEmpty" "sCredits ns = bucketEmpty" "sUnspent ns = bucketEmpty"
    "sDebits ns = bucketEmpty" "sUnmined ns = bucketEmpty" "sUnminedCredits ns = bucketEmpty" "sUnminedInputs ns = bucketEmpty"
    "sLockedOutputs ns = Some bucketEmpty" "fetchMinedBalance ns = Inr 0" using assms by (simp_all add: no_history_def)
  have "mempool E ns Map.empty"
    by (simp add: mempool_def unmined_holds_def spends_indexed_def spenders_def fetchUnminedInputSpendTxHashes_def b)
  moreover have "ledger_ok ns"
    by (simp add: ledger_ok_def ledger_def ledger_wf_def unspentTotal_def b)
  ultimately show ?thesis
    by (simp add: wallet_inv_def store_inv_def unminedCredits_wf_def books_def credits_hold_def debits_hold_def debits_unique_def
        unspent_complete_def creditAt_def debits_backed_def mined_holds_def blocks_hold_def unmined_credits_def leases_wf_def
        chain_wf_def ordered_def b)
qed

section \<open>Steps and reachable states\<close>

type_synonym walletState = "store \<times> minedMap \<times> txMap"

inductive store_step :: "env \<Rightarrow> (hash \<Rightarrow> nat) \<Rightarrow> walletState \<Rightarrow> walletState \<Rightarrow> bool" for E r where
  step_mine: "mineable E r M U rec block \<Longrightarrow> InsertTx E ns rec (Some block) = Inr ns'
    \<Longrightarrow> store_step E r (ns, M, U) (ns', M(Hash rec \<mapsto> (metaBlock block, MsgTx rec)), survivors U rec)"
| step_receive: "receivable E r M U rec \<Longrightarrow> InsertTx E ns rec None = Inr ns'
    \<Longrightarrow> store_step E r (ns, M, U) (ns', M, U(Hash rec \<mapsto> MsgTx rec))"
| step_credit: "recorded M U rec blk \<Longrightarrow> AddCredit E notify ns rec blk i change = Inr (op, ns')
    \<Longrightarrow> store_step E r (ns, M, U) (ns', M, U)"
| step_remove: "U (Hash rec) = Some (MsgTx rec) \<Longrightarrow> RemoveUnminedTx E ns rec = Inr ns'
    \<Longrightarrow> store_step E r (ns, M, U) (ns', M, U |` (- descendants U (Hash rec)))"
| step_rollback: "Rollback E ns ht = Inr ns'
    \<Longrightarrow> store_step E r (ns, M, U) (ns', M |` (- detached M ht), rolledUnmined E ns M U ht)"
| step_lock: "LockOutput (E\<lparr>clockNow := now\<rparr>) ns lid op d = Inr (t, ns') \<Longrightarrow> store_step E r (ns, M, U) (ns', M, U)"
| step_unlock: "UnlockOutput (E\<lparr>clockNow := now\<rparr>) ns lid op = Inr ns' \<Longrightarrow> store_step E r (ns, M, U) (ns', M, U)"
| step_expire: "DeleteExpiredLockedOutputs (E\<lparr>clockNow := now\<rparr>) ns = Inr ns' \<Longrightarrow> store_step E r (ns, M, U) (ns', M, U)"
| step_label: "PutTxLabel E ns h label = Inr ns' \<Longrightarrow> store_step E r (ns, M, U) (ns', M, U)"

inductive reachable :: "env \<Rightarrow> (hash \<Rightarrow> nat) \<Rightarrow> walletState \<Rightarrow> bool" for E r where
  reachable_new: "no_history ns \<Longrightarrow> reachable E r (ns, Map.empty, Map.empty)"
| reachable_step: "reachable E r s \<Longrightarrow> store_step E r s s' \<Longrightarrow> reachable E r s'"

lemma store_step_inv:
  assumes "db_ok E"
  shows "store_step E r s s' \<Longrightarrow> (case s of (ns, M, U) \<Rightarrow> wallet_inv E r ns M U)
    \<Longrightarrow> (case s' of (ns, M, U) \<Rightarrow> wallet_inv E r ns M U)"
proof (induction rule: store_step.induct)
  case step_mine
  then show ?case by (auto dest: InsertTx_mined_inv[OF assms])
next
  case step_receive
  then show ?case by (auto dest: InsertTx_unmined_inv[OF assms])
next
  case (step_credit M U rec blk notify ns i change op ns')
  note s = this
  obtain op' ns1 where "AddCredit E notify ns rec blk i change = Inr (op', ns1)" "wallet_inv E r ns1 M U"
    using AddCredit_inv[where notify = notify and change = change and r = r and ns = ns, OF assms _ s(1) AddCredit_index[OF s(2)]]
      s(3) by auto
  then show ?case using s(2) by simp
next
  case step_remove
  then show ?case by (auto dest: RemoveUnminedTx_inv[OF assms])
next
  case (step_rollback ns ht ns' M U)
  then show ?case using Rollback_spec[OF assms, of r ns M U ht] by auto
next
  case step_lock
  then show ?case using LockOutput_inv[OF db_ok_clock[THEN iffD2, OF assms]] by auto
next
  case step_unlock
  then show ?case using UnlockOutput_inv[OF db_ok_clock[THEN iffD2, OF assms]] by auto
next
  case step_expire
  then show ?case using DeleteExpired_inv by auto
next
  case step_label
  then show ?case using PutTxLabel_inv by auto
qed

lemma reachable_inv:
  assumes "db_ok E" "reachable E r (ns, M, U)" shows "wallet_inv E r ns M U"
proof -
  have "case s of (ns, M, U) \<Rightarrow> wallet_inv E r ns M U" if "reachable E r s" for s
    using that by (induction rule: reachable.induct) (simp add: no_history_inv, rule store_step_inv[OF assms(1)])
  from this[OF assms(2)] show ?thesis by simp
qed

text \<open>The outputs of a state that satisfies the invariant can be listed.\<close>

lemma fetchTxRecord_mined:
  assumes "mined_holds E ns M" "M h = Some (b, tx)"
  shows "\<exists>rec. fetchTxRecord E ns h b = Inr rec \<and> MsgTx rec = tx"
  using assms unfolding mined_holds_def fetchTxRecord_def by (fastforce simp: Let_def orNil_def)

lemma fetchBlockTime_mined:
  assumes "blocks_hold ns M" "M h = Some (b, tx)" shows "\<exists>t. fetchBlockTime ns (bHeight b) = Inr t"
proof -
  obtain v rb where v: "bucketGet (sBlocks ns) (keyBlockRecord (bHeight b)) = Some v"
    "block_holds M (keyBlockRecord (bHeight b)) v rb" using assms unfolding blocks_hold_def by blast
  have "44 \<le> length v" using v(2) by (auto simp: block_holds_def block_value_ok_def)
  then show ?thesis using v(1) by (simp add: fetchBlockTime_def existsBlockRecord_def Let_def glen_def orNil_def)
qed

lemma wallet_inv_listable:
  assumes inv: "wallet_inv E r ns M U" shows "listable E ns"
  unfolding listable_def
proof (intro conjI allI impI)
  note iv = wallet_invD[OF inv]
  show "leases_wf ns" by (rule iv(10))
  obtain bal where l: "ledger ns bal" using iv(3) by (auto simp: ledger_ok_def)
  show "\<exists>rec t. fetchTxRecord E ns h b = Inr rec \<and> unat i < length (TxOut (MsgTx rec)) \<and> fetchBlockTime ns (bHeight b) = Inr t"
    if u: "unspentAt ns h i = Some (valueUnspent b)" for h i b
  proof -
    obtain b' tx cv where m: "valueUnspent b = valueUnspent b'" "M h = Some (b', tx)" "creditAt ns h i b' = Some cv"
      "\<not> flagSpent cv" "output_credit tx i cv" "length cv = 9" by (rule unspentAt_mined[OF iv(5) l u])
    have "b = b'" using m(1) by (metis unspent_codec.dec_enc sum.inject(2))
    then show ?thesis using fetchTxRecord_mined[OF iv(7) m(2)] fetchBlockTime_mined[OF iv(8) m(2)] m(5)
      by (auto simp: output_credit_def)
  qed
  show "\<exists>rec. readRawTxRecord E h v = Inr rec \<and> unat i < length (TxOut (MsgTx rec))"
    if c: "bucketGet (sUnminedCredits ns) (canonicalOutPoint h i) \<noteq> None" and v: "existsRawUnmined ns (hashBytes h) = Some v" for h i v
  proof -
    obtain w where "bucketGet (sUnminedCredits ns) (canonicalOutPoint h i) = Some w" using c by blast
    then obtain tx where tx: "U h = Some tx" "unat i < length (TxOut tx)" using iv(9) unfolding unmined_credits_def by blast
    obtain x y where "bucketGet (sUnmined ns) (hashBytes h) = Some x" "readRawTxRecord E h x = Inr y" "MsgTx y = tx"
      by (rule mempool_get[OF iv(2) tx(1)])
    then show ?thesis using tx(2) v by (auto simp: existsRawUnmined_def)
  qed
qed

section \<open>What the store says of the chain\<close>

text \<open>The mined and the unmined transactions, read from the store alone.\<close>

definition minedOf :: "env \<Rightarrow> store \<Rightarrow> minedMap" where
  "minedOf E ns h = (case latestTxRecord ns h of
      None \<Rightarrow> None
    | Some (k, v) \<Rightarrow> (case (readRawTxRecordBlock k, readRawTxRecord E h v) of
        (Inr b, Inr rec) \<Rightarrow> Some (b, MsgTx rec)
      | _ \<Rightarrow> None))"

definition unminedOf :: "env \<Rightarrow> store \<Rightarrow> txMap" where
  "unminedOf E ns h = (case bucketGet (sUnmined ns) (hashBytes h) of
      None \<Rightarrow> None
    | Some v \<Rightarrow> (case readRawTxRecord E h v of Inr rec \<Rightarrow> Some (MsgTx rec) | Inl _ \<Rightarrow> None))"

lemma latestTxRecord_mined:
  assumes mh: "mined_holds E ns M" and M: "M h = Some (b, tx)"
  shows "\<exists>v rec. latestTxRecord ns h = Some (keyTxRecord h b, v) \<and> readRawTxRecord E h v = Inr rec \<and> MsgTx rec = tx"
proof -
  obtain v rec where v: "bucketGet (sTxRecords ns) (keyTxRecord h b) = Some v" "readRawTxRecord E h v = Inr rec" "MsgTx rec = tx"
    using mh M unfolding mined_holds_def by blast
  let ?es = "prefix_entries (sTxRecords ns) (hashBytes h)"
  have only: "e = (keyTxRecord h b, v)" if "e \<in> set ?es" for e
  proof -
    obtain k w where e: "e = (k, w)" by fastforce
    then have g: "bucketGet (sTxRecords ns) k = Some w" "hasPrefix k (hashBytes h)"
      using that by (auto simp: prefix_entries_def kv.mem_items_iff)
    obtain h' b' tx' where k: "k = keyTxRecord h' b'" "M h' = Some (b', tx')" using mh g(1) unfolding mined_holds_def by blast
    then have "h' = h" using g(2) by simp
    then have "k = keyTxRecord h b" using k M by simp
    then show ?thesis using e g(1) v(1) by simp
  qed
  have "(keyTxRecord h b, v) \<in> set ?es" using v(1) by (simp add: prefix_entries_def kv.mem_items_iff)
  then have "?es \<noteq> []" by auto
  then have "latestTxRecord ns h = Some (last ?es)" by (simp add: latestTxRecord_last split: list.splits)
  moreover have "last ?es = (keyTxRecord h b, v)" using only last_in_set[OF \<open>?es \<noteq> []\<close>] by blast
  ultimately show ?thesis using v by simp
qed

lemma wallet_inv_minedOf:
  assumes "wallet_inv E r ns M U" shows "minedOf E ns = M"
proof
  note mh = wallet_invD(7)[OF assms]
  show "minedOf E ns h = M h" for h
  proof (cases "M h")
    case None
    then show ?thesis using latestTxRecord_unknown[OF mh] by (simp add: minedOf_def)
  next
    case (Some x)
    then obtain b tx where x: "M h = Some (b, tx)" by (cases x) auto
    then show ?thesis using latestTxRecord_mined[OF mh x] by (auto simp: minedOf_def)
  qed
qed

lemma wallet_inv_unminedOf:
  assumes "wallet_inv E r ns M U" shows "unminedOf E ns = U"
proof
  note m = wallet_invD(2)[OF assms]
  show "unminedOf E ns h = U h" for h
  proof (cases "U h")
    case None
    then show ?thesis using mempool_get_None[OF m] by (simp add: unminedOf_def)
  next
    case (Some tx)
    obtain v rec where "bucketGet (sUnmined ns) (hashBytes h) = Some v" "readRawTxRecord E h v = Inr rec" "MsgTx rec = tx"
      by (rule mempool_get[OF m Some])
    then show ?thesis using Some by (simp add: unminedOf_def)
  qed
qed

lemmas wallet_inv_abs = wallet_inv_minedOf wallet_inv_unminedOf

definition wallet_ok :: "env \<Rightarrow> (hash \<Rightarrow> nat) \<Rightarrow> store \<Rightarrow> bool" where
  "wallet_ok E r ns \<longleftrightarrow> wallet_inv E r ns (minedOf E ns) (unminedOf E ns)"

lemma wallet_ok_iff: "wallet_ok E r ns \<longleftrightarrow> (\<exists>M U. wallet_inv E r ns M U)"
  unfolding wallet_ok_def using wallet_inv_abs by metis

section \<open>Properties\<close>

text \<open>C24: recording a transaction as mined in a block succeeds and keeps the invariant of the whole store:
  the transaction joins the mined ones in its block, and the unmined transactions that are left are those
  that do not depend on an input it spends.\<close>

theorem InsertTx_mined_keeps_wallet:
  assumes "db_ok E" "wallet_inv E r ns M U" "mineable E r M U rec block"
  shows "\<exists>ns'. InsertTx E ns rec (Some block) = Inr ns'
    \<and> wallet_inv E r ns' (M(Hash rec \<mapsto> (metaBlock block, MsgTx rec))) (survivors U rec)"
  by (rule InsertTx_mined_inv[OF assms])

text \<open>C25: \<open>AddCredit\<close> for an output of a recorded transaction succeeds and keeps the invariant of
  the whole store; the first credit of a mined output puts it into the unspent index and is reported, and
  a second call changes nothing and reports nothing.\<close>

theorem AddCredit_keeps_wallet:
  assumes "db_ok E" "wallet_inv E r ns M U" "recorded M U rec blk" "unat i < length (TxOut (MsgTx rec))"
  shows "\<exists>op ns'. AddCredit E notify ns rec blk i change = Inr (op, ns') \<and> wallet_inv E r ns' M U
    \<and> (\<forall>block. blk = Some block \<and> no_credit ns (Hash rec) i \<longrightarrow>
         op = (if notify then Some \<lparr>opHash = Hash rec, opIndex = i\<rparr> else None)
         \<and> unspentAt ns' (Hash rec) i = Some (valueUnspent (metaBlock block))
         \<and> AddCredit E notify ns' rec blk i change = Inr (None, ns'))"
proof -
  obtain op ns' where 1: "AddCredit E notify ns rec blk i change = Inr (op, ns')" "wallet_inv E r ns' M U"
    using AddCredit_inv[OF assms] by blast
  have "op = (if notify then Some \<lparr>opHash = Hash rec, opIndex = i\<rparr> else None)
      \<and> unspentAt ns' (Hash rec) i = Some (valueUnspent (metaBlock block))
      \<and> AddCredit E notify ns' rec blk i change = Inr (None, ns')"
    if "blk = Some block" "no_credit ns (Hash rec) i" for block
    using AddCredit_spec[OF assms(1) wallet_invD(1)[OF assms(2)] assms(4) that(2), of notify block change] 1(1) that(1) by auto
  with 1 show ?thesis by blast
qed

text \<open>C3: \<open>Rollback\<close> to a height succeeds and keeps the invariant: the transactions mined at that
  height or above are no longer mined, they are unmined again except for the coinbases, and what
  spends the credits of a detached coinbase is removed with all that depends on it.\<close>

theorem Rollback_detaches:
  assumes "db_ok E" "wallet_inv E r ns M U"
  shows "\<exists>ns'. Rollback E ns ht = Inr ns'
    \<and> wallet_inv E r ns' (M |` (- detached M ht)) (rolledUnmined E ns M U ht)"
  by (rule Rollback_spec[OF assms])

text \<open>C4: \<open>Balance\<close> succeeds and returns the sum of the outputs that are spendable by its two
  height parameters: the unspent mined outputs, and with no confirmations required the unmined ones,
  that are neither leased nor spent by an unmined transaction, deep enough and, from a coinbase, mature.\<close>

theorem Balance_exact:
  assumes "wallet_inv E r ns M U" "heights_ok minConf sync"
  shows "Balance E ns minConf sync = Inr (spendableTotal E ns M U (sint minConf) (sint sync))"
  by (rule Balance_spec[OF assms])

text \<open>C1: the invariant holds in every state that calls of the store's operations reach from a new
  store, whatever their order, and in every such state the outputs can be listed at any time.\<close>

theorem reachable_wallet:
  assumes "db_ok E" "reachable E r (ns, M, U)"
  shows "wallet_inv E r ns M U \<and> (\<exists>spendable watched. UnspentOutputs (E\<lparr>clockNow := now\<rparr>) ns = Inr spendable
    \<and> OutputsToWatch (E\<lparr>clockNow := now\<rparr>) ns = Inr watched)"
proof -
  let ?E = "E\<lparr>clockNow := now\<rparr>"
  have inv: "wallet_inv E r ns M U" by (rule reachable_inv[OF assms])
  then have e: "wallet_inv ?E r ns M U" by simp
  note iv = wallet_invD[OF e]
  have wf: "ledger_wf ns" "unminedCredits_wf ns" using iv(3,4) by (auto simp: ledger_ok_def ledger_def)
  show ?thesis using inv fetchCredits_total[OF wallet_inv_listable[OF e] wf]
    unfolding UnspentOutputs_def OutputsToWatch_def by blast
qed

text \<open>C26: in a reachable state no call that the caller is entitled to make fails: mining, receiving,
  crediting an output that the transaction has, removing an unmined transaction, and rolling back.\<close>

theorem reachable_calls_succeed:
  assumes "db_ok E" "reachable E r (ns, M, U)"
  shows "(mineable E r M U rec block \<longrightarrow> (\<exists>ns'. InsertTx E ns rec (Some block) = Inr ns'))
    \<and> (receivable E r M U rec \<longrightarrow> (\<exists>ns'. InsertTx E ns rec None = Inr ns'))
    \<and> (recorded M U rec blk \<and> unat i < length (TxOut (MsgTx rec)) \<longrightarrow>
         (\<exists>res. AddCredit E notify ns rec blk i change = Inr res))
    \<and> (U (Hash rec) = Some (MsgTx rec) \<longrightarrow> (\<exists>ns'. RemoveUnminedTx E ns rec = Inr ns'))
    \<and> (\<exists>ns'. Rollback E ns ht = Inr ns')"
proof -
  note inv = reachable_inv[OF assms]
  show ?thesis
    using InsertTx_mined_inv[OF assms(1) inv] InsertTx_unmined_inv[OF assms(1) inv] RemoveUnminedTx_inv[OF assms(1) inv]
      AddCredit_inv[where i = i and notify = notify and change = change and blk = blk, OF assms(1) inv]
      Rollback_spec[OF assms(1) inv] by blast
qed

text \<open>A block above all the blocks of the mined transactions is detached alone.\<close>

definition on_top :: "minedMap \<Rightarrow> block \<Rightarrow> bool" where
  "on_top M blk \<longleftrightarrow> (\<forall>h b tx. M h = Some (b, tx) \<longrightarrow> bHeight b <s bHeight blk)"

lemma detached_top:
  assumes "on_top M blk" "M h = None"
  shows "detached (M(h \<mapsto> (blk, tx))) (bHeight blk) = {h}"
  using assms by (auto simp: on_top_def detached_def split: if_splits)

lemma rolledUnmined_top:
  assumes "on_top M blk" "M h = None" "\<not> isCoinBaseTx E tx"
  shows "rolledUnmined E ns (M(h \<mapsto> (blk, tx))) U (bHeight blk) = U(h \<mapsto> tx)"
proof -
  let ?M = "M(h \<mapsto> (blk, tx))"
  have "lostCoinbase E ns ?M {h} = {}" using assms(3) by (auto simp: lostCoinbase_def)
  moreover have "returned E ?M {h} U = U(h \<mapsto> tx)" using assms(3) by (auto simp: returned_def fun_eq_iff)
  ultimately show ?thesis unfolding rolledUnmined_def detached_top[where M = M and h = h, OF assms(1,2)] by (simp add: doomed_def Let_def)
qed

text \<open>A transaction that is mined in a new highest block, with its block then rolled back, is unmined,
  and the mined transactions are the ones of before.\<close>

lemma InsertTx_Rollback:
  assumes "db_ok E" "wallet_inv E r ns M U" "mineable E r M U rec block" "\<not> isCoinBaseTx E (MsgTx rec)"
    and "on_top M (metaBlock block)"
  shows "\<exists>ns1 ns2. InsertTx E ns rec (Some block) = Inr ns1 \<and> Rollback E ns1 (bHeight (metaBlock block)) = Inr ns2
    \<and> wallet_inv E r ns2 M ((survivors U rec)(Hash rec \<mapsto> MsgTx rec))"
proof -
  let ?blk = "metaBlock block"
  let ?M = "M(Hash rec \<mapsto> (?blk, MsgTx rec))"
  have h: "M (Hash rec) = None" using assms(3) by (simp add: mineable_def)
  obtain ns1 where 1: "InsertTx E ns rec (Some block) = Inr ns1" "wallet_inv E r ns1 ?M (survivors U rec)"
    using InsertTx_mined_inv[OF assms(1-3)] by blast
  have "?M |` (- {Hash rec}) = M" using h by (auto simp: restrict_map_def fun_eq_iff)
  then show ?thesis
    using Rollback_spec[OF assms(1) 1(2), of "bHeight ?blk"] 1(1)
    unfolding detached_top[where M = M and h = "Hash rec", OF assms(5) h]
      rolledUnmined_top[where M = M and h = "Hash rec", OF assms(5) h assms(4)] by simp
qed

text \<open>C2: read through \<open>minedOf\<close> and \<open>unminedOf\<close>, the operations of the store are those of an
  abstract chain view: mining adds to the mined transactions and drops the rivals from the unmined ones,
  receiving adds to the unmined ones, removing drops a transaction with its descendants, rolling back
  cuts the mined transactions at the height; and the result is again a well-formed store.\<close>

theorem store_refines_chain:
  assumes "db_ok E" "wallet_ok E r ns"
  defines "M \<equiv> minedOf E ns" and "U \<equiv> unminedOf E ns"
  shows "(mineable E r M U rec block \<and> InsertTx E ns rec (Some block) = Inr ns' \<longrightarrow> wallet_ok E r ns'
         \<and> minedOf E ns' = M(Hash rec \<mapsto> (metaBlock block, MsgTx rec)) \<and> unminedOf E ns' = survivors U rec)
    \<and> (receivable E r M U rec \<and> InsertTx E ns rec None = Inr ns' \<longrightarrow> wallet_ok E r ns'
         \<and> minedOf E ns' = M \<and> unminedOf E ns' = U(Hash rec \<mapsto> MsgTx rec))
    \<and> (U (Hash rec) = Some (MsgTx rec) \<and> RemoveUnminedTx E ns rec = Inr ns' \<longrightarrow> wallet_ok E r ns'
         \<and> minedOf E ns' = M \<and> unminedOf E ns' = U |` (- descendants U (Hash rec)))
    \<and> (Rollback E ns ht = Inr ns' \<longrightarrow> wallet_ok E r ns'
         \<and> minedOf E ns' = M |` (- detached M ht) \<and> unminedOf E ns' = rolledUnmined E ns M U ht)"
proof -
  have inv: "wallet_inv E r ns M U" using assms(2) by (simp add: wallet_ok_def M_def U_def)
  have abs: "wallet_ok E r ns' \<and> minedOf E ns' = M' \<and> unminedOf E ns' = U'" if "wallet_inv E r ns' M' U'" for M' U'
    using that wallet_inv_abs wallet_ok_iff by metis
  show ?thesis
    using InsertTx_mined_inv[OF assms(1) inv, of rec block] InsertTx_unmined_inv[OF assms(1) inv, of rec]
      RemoveUnminedTx_inv[OF assms(1) inv, of rec] Rollback_spec[OF assms(1) inv, of ht]
    by (auto intro!: abs simp del: wallet_inv_clock)
qed

end
