(* ===== verification/Witness_Steps.thy ===== *)
theory Witness_Steps
  imports Witness_Store Store_Steps
begin

text \<open>
  A run of the transaction store: the transaction A arrives, its output is credited, A is mined, a
  transaction B that spends it is mined in the next block, and that block is rolled back.
\<close>

section \<open>Ranks and the first states\<close>

definition rank1 :: "hash \<Rightarrow> nat" where
  "rank1 h = (if h = 1 \<or> h = 3 then 1 else if h = 2 then 2 else 0)"

definition block2 :: blockMeta where "block2 = \<lparr>metaBlock = \<lparr>bHash = 78, bHeight = 101\<rparr>, metaTime = 0\<rparr>"

lemma small_heights [simp]: "(0 :: height) \<le>s 100" "(0 :: height) \<le>s 101" by (simp_all add: word_sle_eq)

lemma wf_txs: "wf_tx env1 rank1 1 txA" "wf_tx env1 rank1 2 txB" "wf_tx env1 rank1 3 txC"
  by (simp_all add: wf_tx_def txA_def txB_def txC_def rank1_def env1_def)

lemma reach0: "reachable env1 rank1 (store0, Map.empty, Map.empty)"
  by (rule reachable_new) (simp add: no_history_def)

lemma wallet0: "wallet_inv env1 rank1 store0 Map.empty Map.empty" by (rule reachable_inv[OF env1_ok reach0])

lemma receivable_A: "receivable env1 rank1 Map.empty Map.empty recA"
  using wf_txs by (simp add: receivable_def)

lemma ordered_A: "ordered [1 \<mapsto> (metaBlock block1, txA)]"
  by (simp add: ordered_def txA_def)

lemma mineable_A: "mineable env1 rank1 Map.empty Map.empty recA block1"
  using wf_txs ordered_A by (simp add: mineable_def block1_def)

section \<open>An unmined credit\<close>

lemma unmined_A:
  obtains ns where "InsertTx env1 store0 recA None = Inr ns" "reachable env1 rank1 (ns, Map.empty, [1 \<mapsto> txA])"
    "sUnspent ns = bucketEmpty" "sUnminedCredits ns = bucketEmpty" "sLockedOutputs ns = Some bucketEmpty"
    "bucketGet (sUnminedInputs ns) (canonicalOutPoint 1 0) = None"
proof -
  obtain ns where 1: "InsertTx env1 store0 recA None = Inr ns"
    using InsertTx_unmined_inv[OF env1_ok wallet0 receivable_A] by blast
  have r: "reachable env1 rank1 (ns, Map.empty, [1 \<mapsto> txA])"
    using reachable_step[OF reach0 step_receive[OF receivable_A 1]] by simp
  obtain v where v: "valueTxRecord env1 recA = Inr v" using valueTxRecord_total[of env1 recA] by auto
  have td: "TxDetails env1 store0 1 = Inr None" using TxDetails_unknown[OF wallet0] by simp
  have "ns = store0\<lparr>sUnmined := bucketPut bucketEmpty (hashBytes 1) v,
      sUnminedInputs := bucketPut bucketEmpty (canonicalOutPoint 9 0) (hashBytes 1)\<rparr>"
    using 1 v td
    by (simp add: InsertTx_def InsertTxCheckIfExists_def insertMemPoolTx_def txA_def indexed_def existsRawUnspent_def glen_def
        putRawUnmined_def putRawUnminedInput_def orNil_def Let_def)
  then show thesis using that 1 r by simp
qed

lemma credited_A:
  obtains ns where "reachable env1 rank1 (ns, Map.empty, [1 \<mapsto> txA])" "Balance env1 ns 0 100 = Inr 700"
proof -
  obtain ns where n: "reachable env1 rank1 (ns, Map.empty, [1 \<mapsto> txA])" "sUnspent ns = bucketEmpty"
    "sUnminedCredits ns = bucketEmpty" "sLockedOutputs ns = Some bucketEmpty"
    "bucketGet (sUnminedInputs ns) (canonicalOutPoint 1 0) = None" using unmined_A by blast
  let ?ns = "ns\<lparr>sUnminedCredits := bucketPut bucketEmpty (canonicalOutPoint 1 0) (valueUnminedCredit 700 False)\<rparr>"
  let ?U = "[1 \<mapsto> txA]" and ?op = "\<lparr>opHash = 1, opIndex = 0\<rparr>"
  have u: "recorded Map.empty ?U recA None" by (simp add: recorded_def)
  have inv: "wallet_inv env1 rank1 ns Map.empty ?U" by (rule reachable_inv[OF env1_ok n(1)])
  have l: "latestTxRecord ns 1 = None" by (rule latestTxRecord_unknown[OF wallet_invD(7)[OF inv]]) simp
  have "AddCredit env1 False ns recA None 0 False = Inr (None, ?ns)"
    using l n(3) by (simp add: AddCredit_def addCredit_def txA_def existsRawUnminedCredit_def putRawUnminedCredit_def)
  then have r: "reachable env1 rank1 (?ns, Map.empty, ?U)" by (rule reachable_step[OF n(1) step_credit[OF u]])
  have o: "opsOf (sUnminedCredits ?ns) = {?op}" "opsOf (sUnspent ?ns) = {}"
    using n(2) by (auto simp: opsOf_def opKey_def bucketGet_upd split: if_splits)
  have "available env1 ?ns ?op"
    using n(4,5) by (simp add: available_def leasedNow_def isLockedOutput_def spentByUnmined_def existsRawUnminedInput_def)
  then have "spendableUnmined env1 ?ns = {?op}" "spendableMined env1 ?ns Map.empty 0 100 = {}"
    using o by (auto simp: spendableUnmined_def spendableMined_def)
  moreover have "unminedValue ?U ?op = 700" by (simp add: unminedValue_def txA_def)
  ultimately have "Balance env1 ?ns 0 100 = Inr 700"
    using Balance_spec[OF reachable_inv[OF env1_ok r], of 0 100] by (simp add: heights_ok_def spendableTotal_def)
  then show thesis using that r by blast
qed

lemma Balance_exact_witness:
  "\<exists>ns. Balance env1 ns 0 100 = Inr 700 \<and> spendableTotal env1 ns Map.empty [1 \<mapsto> txA] 0 100 = 700"
proof -
  obtain ns where n: "reachable env1 rank1 (ns, Map.empty, [1 \<mapsto> txA])" "Balance env1 ns 0 100 = Inr 700"
    by (rule credited_A)
  then show ?thesis using Balance_exact[OF reachable_inv[OF env1_ok n(1)], of 0 100] by (auto simp: heights_ok_def)
qed

section \<open>Mining and rolling back\<close>

lemma InsertTx_mined_keeps_wallet_witness:
  "\<exists>ns. InsertTx env1 store0 recA (Some block1) = Inr ns
    \<and> wallet_inv env1 rank1 ns [1 \<mapsto> (metaBlock block1, txA)] Map.empty"
proof -
  have "survivors Map.empty recA = Map.empty" by (simp add: survivors_def)
  then show ?thesis using InsertTx_mined_keeps_wallet[OF env1_ok wallet0 mineable_A] by simp
qed

lemma AddCredit_keeps_wallet_witness:
  "\<exists>ns ns' op. InsertTx env1 store0 recA (Some block1) = Inr ns
    \<and> AddCredit env1 True ns recA (Some block1) 0 False = Inr (op, ns')
    \<and> wallet_inv env1 rank1 ns' [1 \<mapsto> (metaBlock block1, txA)] Map.empty"
proof -
  have sv: "survivors Map.empty recA = Map.empty" by (simp add: survivors_def)
  obtain ns where 1: "InsertTx env1 store0 recA (Some block1) = Inr ns"
    "wallet_inv env1 rank1 ns [1 \<mapsto> (metaBlock block1, txA)] Map.empty"
    using InsertTx_mined_inv[OF env1_ok wallet0 mineable_A] by (auto simp: sv)
  have "recorded [1 \<mapsto> (metaBlock block1, txA)] Map.empty recA (Some block1)" by (simp add: recorded_def)
  then show ?thesis using AddCredit_keeps_wallet[OF env1_ok 1(2), of recA "Some block1" 0 True False] 1(1)
    by (auto simp: txA_def)
qed

text \<open>A in block 100 and B, which spends it, in block 101.\<close>

lemma mined_AB:
  obtains ns where "reachable env1 rank1 (ns, [1 \<mapsto> (metaBlock block1, txA), 2 \<mapsto> (metaBlock block2, txB)], Map.empty)"
proof -
  let ?MA = "[1 \<mapsto> (metaBlock block1, txA)]"
  have sv: "survivors Map.empty rec = Map.empty" for rec by (simp add: survivors_def)
  obtain ns1 where 1: "InsertTx env1 store0 recA (Some block1) = Inr ns1"
    using InsertTx_mined_inv[OF env1_ok wallet0 mineable_A] by blast
  have r1: "reachable env1 rank1 (ns1, ?MA, Map.empty)"
    using reachable_step[OF reach0 step_mine[OF mineable_A 1]] by (simp add: sv)
  have inv1: "wallet_inv env1 rank1 ns1 ?MA Map.empty" by (rule reachable_inv[OF env1_ok r1])
  have "{h. \<exists>tx. ?MA h = Some (metaBlock block2, tx)} = {}" by (auto simp: block1_def block2_def)
  moreover have "ordered (?MA(2 \<mapsto> (metaBlock block2, txB)))"
    by (auto simp: ordered_def txA_def txB_def block1_def block2_def split: if_splits)
  ultimately have m: "mineable env1 rank1 ?MA Map.empty recB block2"
    using wf_txs by (simp add: mineable_def) (simp add: block1_def block2_def)
  obtain ns2 where 2: "InsertTx env1 ns1 recB (Some block2) = Inr ns2"
    using InsertTx_mined_inv[OF env1_ok inv1 m] by blast
  from reachable_step[OF r1 step_mine[OF m 2]] show thesis using that by (simp add: sv)
qed

lemma mined_AB_inv:
  obtains ns where "wallet_inv env1 rank1 ns [1 \<mapsto> (metaBlock block1, txA), 2 \<mapsto> (metaBlock block2, txB)] Map.empty"
  using mined_AB reachable_inv[OF env1_ok] by metis

lemma detached_AB: "detached [1 \<mapsto> (metaBlock block1, txA), 2 \<mapsto> (metaBlock block2, txB)] 101 = {2}"
  by (auto simp: detached_def block1_def block2_def word_sless_alt split: if_splits)

lemma Rollback_detaches_witness:
  "\<exists>ns ns'. wallet_inv env1 rank1 ns [1 \<mapsto> (metaBlock block1, txA), 2 \<mapsto> (metaBlock block2, txB)] Map.empty
    \<and> Rollback env1 ns 101 = Inr ns' \<and> wallet_inv env1 rank1 ns' [1 \<mapsto> (metaBlock block1, txA)] [2 \<mapsto> txB]"
proof -
  let ?M = "[1 \<mapsto> (metaBlock block1, txA), 2 \<mapsto> (metaBlock block2, txB)]"
  obtain ns where ns: "wallet_inv env1 rank1 ns ?M Map.empty" by (rule mined_AB_inv)
  have "?M |` (- {2 :: hash}) = [1 \<mapsto> (metaBlock block1, txA)]" by (auto simp: restrict_map_def fun_eq_iff)
  moreover have "lostCoinbase env1 ns ?M {2} = {}" by (simp add: lostCoinbase_def env1_def)
  moreover have "returned env1 ?M {2} Map.empty = [2 \<mapsto> txB]" by (auto simp: returned_def env1_def fun_eq_iff)
  ultimately show ?thesis using Rollback_detaches[OF env1_ok ns, of 101] ns
    unfolding rolledUnmined_def detached_AB by (auto simp: doomed_def Let_def)
qed

lemma reachable_wallet_witness:
  "\<exists>ns spendable. wallet_inv env1 rank1 ns [1 \<mapsto> (metaBlock block1, txA), 2 \<mapsto> (metaBlock block2, txB)] Map.empty
    \<and> UnspentOutputs (env1\<lparr>clockNow := 7\<rparr>) ns = Inr spendable"
proof -
  obtain ns where "reachable env1 rank1 (ns, [1 \<mapsto> (metaBlock block1, txA), 2 \<mapsto> (metaBlock block2, txB)], Map.empty)"
    by (rule mined_AB)
  from reachable_wallet[OF env1_ok this] show ?thesis by blast
qed

lemma reachable_calls_succeed_witness:
  "(\<exists>ns. InsertTx env1 store0 recA (Some block1) = Inr ns) \<and> (\<exists>ns. InsertTx env1 store0 recA None = Inr ns)
    \<and> (\<exists>ns. Rollback env1 store0 100 = Inr ns)"
  using reachable_calls_succeed[OF env1_ok reach0, of recA block1] mineable_A receivable_A by blast

lemma store_refines_chain_witness:
  "\<exists>ns. InsertTx env1 store0 recA (Some block1) = Inr ns \<and> minedOf env1 ns = [1 \<mapsto> (metaBlock block1, txA)]
    \<and> unminedOf env1 ns = Map.empty"
proof -
  obtain ns where 1: "InsertTx env1 store0 recA (Some block1) = Inr ns"
    using InsertTx_mined_inv[OF env1_ok wallet0 mineable_A] by blast
  have a: "minedOf env1 store0 = Map.empty" "unminedOf env1 store0 = Map.empty" using wallet_inv_abs[OF wallet0] .
  have "wallet_ok env1 rank1 store0" using wallet0 wallet_ok_iff by blast
  from store_refines_chain[OF env1_ok this, of recA block1 ns] mineable_A 1 show ?thesis
    by (simp add: a survivors_def)
qed

end
