(* ===== verification/Mgr_Types.thy ===== *)
theory Mgr_Types
  imports Tx_Types
begin

text \<open>
  The data of package \<open>waddrmgr\<close>: its errors (error.go), key scopes and address schemas
  (scoped_manager.go), block stamps (sync.go), the account and address rows of db.go and the
  namespace db.go keeps them in.

  A Go string is the list of its bytes.  A Go struct that embeds another is a record that extends
  it.  The nested buckets have a fixed shape, so the namespace is a record: \<open>mgrMain\<close>,
  \<open>mgrSync\<close>, \<open>mgrSchema\<close> and \<open>mgrScopes\<close> are the four top-level buckets (\<open>None\<close> before
  they are created), and a scope bucket is the record \<open>scopeStore\<close>.  In the bucket
  \<open>addracctidx\<close>, whose keys are 32-byte hashes beside 4-byte sub-bucket names, the
  sub-buckets are the separate field \<open>scAcctAddrs\<close>.

  \<open>mgrEnv\<close> holds what the code calls: which writes the database refuses, the clock, and
  \<open>crypto/sha256\<close>, of which the code uses that it is a function to 32 bytes.
\<close>

section \<open>Errors\<close>

datatype mgrCode = ErrDatabase_mgr | ErrUpgrade | ErrKeyChain | ErrCrypto | ErrInvalidKeyType
  | ErrNoExist | ErrAlreadyExists_mgr | ErrCoinTypeTooHigh | ErrAccountNumTooHigh | ErrLocked
  | ErrWatchingOnly | ErrInvalidAccount | ErrAddressNotFound | ErrAccountNotFound
  | ErrDuplicateAddress | ErrDuplicateAccount | ErrTooManyAddresses | ErrWrongPassphrase
  | ErrWrongNet | ErrCallBackBreak | ErrEmptyPassphrase | ErrScopeNotFound
  | ErrBirthdayBlockNotSet | ErrBlockNotFound | ErrAccountNotCached

text \<open>
  \<open>ManagerError\<close> is the struct without its message.  The others are the errors that are not
  a \<open>ManagerError\<close>: one of the database or of \<open>bytes.Reader\<close> passed on unwrapped, one made
  with \<open>fmt.Errorf\<close>, one returned by a callback or a library, and a run-time panic.
\<close>

datatype mgrErr = ManagerError mgrCode | MgrDbErr | MgrEOF | MgrFmtErr | MgrCallback nat
  | ErrAddrMismatch | MgrPanic

type_synonym 'a mres = "mgrErr + 'a"

definition managerError :: "mgrCode \<Rightarrow> mgrErr" where
  "managerError c = ManagerError c"

definition IsError :: "mgrErr \<Rightarrow> mgrCode \<Rightarrow> bool" where
  "IsError e code = (case e of ManagerError c \<Rightarrow> c = code | _ \<Rightarrow> False)"

definition maybeConvertDbError :: "mgrErr \<Rightarrow> mgrErr" where
  "maybeConvertDbError e = (case e of
     ManagerError c \<Rightarrow> e
   | MgrPanic \<Rightarrow> MgrPanic
   | _ \<Rightarrow> managerError ErrDatabase_mgr)"

definition convertE :: "'a mres \<Rightarrow> 'a mres" where
  "convertE m = (case m of Inl e \<Rightarrow> Inl (maybeConvertDbError e) | Inr x \<Rightarrow> Inr x)"

lemma convertE_simps [simp]:
  "convertE (Inr x) = Inr x"
  "convertE (Inl e) = Inl (maybeConvertDbError e)"
  by (simp_all add: convertE_def)

lemma convertE_eq_Inr [simp]: "convertE m = Inr x \<longleftrightarrow> m = Inr x"
  by (cases m) simp_all

section \<open>Scopes, schemas and block stamps\<close>

type_synonym u8 = "8 word"
type_synonym gostring = bytes

record keyScope =
  Purpose :: u32
  Coin :: u32

text \<open>\<open>AddressType\<close> is a \<open>uint8\<close> (address.go) and \<open>accountType\<close>, \<open>addressType\<close> are too.\<close>

definition PubKeyHash :: u8 where "PubKeyHash = 0"
definition Script :: u8 where "Script = 1"
definition RawPubKey :: u8 where "RawPubKey = 2"
definition NestedWitnessPubKey :: u8 where "NestedWitnessPubKey = 3"
definition WitnessPubKey :: u8 where "WitnessPubKey = 4"
definition WitnessScript :: u8 where "WitnessScript = 5"
definition TaprootPubKey :: u8 where "TaprootPubKey = 6"
definition TaprootScript :: u8 where "TaprootScript = 7"

record scopeAddrSchema =
  ExternalAddrType :: u8
  InternalAddrType :: u8

record blockStamp =
  stampHeight :: height
  stampHash :: hash
  stampTime :: gotime

section \<open>Rows\<close>

definition accountDefault :: u8 where "accountDefault = 0"
definition accountWatchOnly :: u8 where "accountWatchOnly = 1"

record dbAccountRow =
  acctType :: u8
  acctRawData :: bytes

record dbDefaultAccountRow = dbAccountRow +
  defPubKeyEncrypted :: bytes
  defPrivKeyEncrypted :: bytes
  defNextExternalIndex :: u32
  defNextInternalIndex :: u32
  defName :: gostring

record dbWatchOnlyAccountRow = dbAccountRow +
  woPubKeyEncrypted :: bytes
  woMasterKeyFingerprint :: u32
  woNextExternalIndex :: u32
  woNextInternalIndex :: u32
  woName :: gostring
  woAddrSchema :: "scopeAddrSchema option"

datatype acctRowInterface =
    DefaultAccount dbDefaultAccountRow
  | WatchOnlyAccount dbWatchOnlyAccountRow

definition adtChain :: u8 where "adtChain = 0"
definition adtImport :: u8 where "adtImport = 1"
definition adtScript :: u8 where "adtScript = 2"
definition adtWitnessScript :: u8 where "adtWitnessScript = 3"
definition adtTaprootScript :: u8 where "adtTaprootScript = 4"
definition ssNone :: u8 where "ssNone = 0"
definition ssFull :: u8 where "ssFull = 2"

record dbAddressRow =
  addrType :: u8
  addrAccount :: u32
  addrTime :: "64 word"
  addrSyncStatus :: u8
  addrRawData :: bytes

record dbChainAddressRow = dbAddressRow +
  chainBranch :: u32
  chainIndex :: u32

record dbImportedAddressRow = dbAddressRow +
  impPubKey :: bytes
  impPrivKey :: bytes

record dbScriptAddressRow = dbAddressRow +
  scrHash :: bytes
  scrScript :: bytes

record dbWitnessScriptAddressRow = dbAddressRow +
  witVersion :: u8
  witIsSecret :: bool
  witHash :: bytes
  witScript :: bytes

datatype addrRowInterface =
    ChainAddress dbChainAddressRow
  | ImportedAddress dbImportedAddressRow
  | ScriptAddress dbScriptAddressRow
  | WitnessScriptAddress dbWitnessScriptAddressRow

section \<open>The namespace\<close>

record scopeStore =
  scKeys :: bucket
  scAcct :: bucket
  scAddr :: bucket
  scUsed :: bucket
  scAddrAcct :: bucket
  scAcctAddrs :: "(bytes \<times> bucket) list"
  scNameIdx :: bucket
  scIdIdx :: bucket
  scMeta :: bucket

record mgrStore =
  mgrMain :: "bucket option"
  mgrSync :: "bucket option"
  mgrSchema :: "bucket option"
  mgrScopes :: "(bytes \<times> scopeStore) list option"

datatype mbucket = MainB | SyncB | ScopesB | SchemaB | ScopeB bytes | AcctB bytes | AddrB bytes
  | UsedB bytes | AddrAcctB bytes | AcctAddrsB bytes bytes | NameIdxB bytes | IdIdxB bytes
  | MetaB bytes

datatype mgrOp = MgrPut mbucket bytes bytes | MgrDelete mbucket bytes | MgrCreate mbucket

record mgrEnv =
  mgrFails :: "mgrOp \<Rightarrow> bool"
  mgrNow :: gotime
  sha256 :: "bytes \<Rightarrow> bytes"

definition mgr_db_ok :: "'a mgrEnv_scheme \<Rightarrow> bool" where
  "mgr_db_ok E \<longleftrightarrow> (\<forall>op. \<not> mgrFails E op)"

text \<open>What the hash of the standard library guarantees: 32 bytes, and no collision met.\<close>

definition sha_ok :: "'a mgrEnv_scheme \<Rightarrow> bool" where
  "sha_ok E \<longleftrightarrow> (\<forall>x. length (sha256 E x) = 32)"

end
