(* ===== verification/Mgr_Codec.thy ===== *)
theory Mgr_Codec
  imports Mgr_Types
begin

text \<open>
  The byte formats of \<open>waddrmgr/db.go\<close>: the \<open>serialize...\<close> and \<open>deserialize...\<close> functions of
  account and address rows, and the little-endian helpers they use.

  Offsets and lengths are \<open>uint32\<close> as in the code, so their sums wrap.  \<open>goSlice d lo hi\<close> is
  \<open>d[lo:hi]\<close> (the slices read here have no spare capacity) and panics out of range;
  \<open>writeAt lo hi bs buf\<close> is \<open>copy(buf[lo:hi], bs)\<close>, also \<open>PutUint32(buf[lo:lo+4], v)\<close>.
  \<open>readBlob\<close> and \<open>writeBlob\<close> are the length-prefixed field that recurs in every format.  The
  watch-only account row goes through \<open>bytes.Reader\<close> and \<open>bytes.Buffer\<close> instead, whose short
  reads are errors rather than panics: \<open>readN\<close> and \<open>readLE32\<close>.

  \<open>row_codec\<close> states what the database layer needs of such a format, and is interpreted for
  account rows and for address rows.
\<close>

section \<open>Little-endian integers\<close>

definition uint32ToBytes :: "u32 \<Rightarrow> bytes" where
  "uint32ToBytes n = rev (putUint32 n)"
definition le32 :: "bytes \<Rightarrow> u32" where
  "le32 bs = uint32_of (rev (take 4 bs))"
definition putLE64 :: "64 word \<Rightarrow> bytes" where
  "putLE64 n = rev (putUint64 n)"
definition le64 :: "bytes \<Rightarrow> 64 word" where
  "le64 bs = uint64_of (rev (take 8 bs))"

lemma length_le [simp, codec_simps]: "length (uint32ToBytes n) = 4" "length (putLE64 m) = 8"
  by (simp_all add: uint32ToBytes_def putLE64_def)

lemma le32_uint32ToBytes [simp]: "le32 (uint32ToBytes n) = n" "le32 (uint32ToBytes n @ r) = n"
  by (simp_all add: le32_def uint32ToBytes_def)

lemma le64_putLE64 [simp]: "le64 (putLE64 n) = n" "le64 (putLE64 n @ r) = n"
  by (simp_all add: le64_def putLE64_def)

lemma uint32ToBytes_inj [simp]: "uint32ToBytes a = uint32ToBytes b \<longleftrightarrow> a = b"
  by (simp add: uint32ToBytes_def)

lemma uint32ToBytes_le32 [simp]: "length bs = 4 \<Longrightarrow> uint32ToBytes (le32 bs) = bs"
  by (simp add: uint32ToBytes_def le32_def)

definition stringToBytes :: "gostring \<Rightarrow> bytes" where
  "stringToBytes s = uint32ToBytes (word_of_nat (length s)) @ s"

lemma stringToBytes_inj [simp]: "stringToBytes a = stringToBytes b \<longleftrightarrow> a = b"
  by (auto simp: stringToBytes_def)

section \<open>Slices with \<open>uint32\<close> bounds\<close>

definition goSlice :: "bytes \<Rightarrow> u32 \<Rightarrow> u32 \<Rightarrow> bytes mres" where
  "goSlice d lo hi = (if lo \<le> hi \<and> unat hi \<le> length d
     then Inr (slice d (unat lo) (unat hi)) else Inl MgrPanic)"

definition readU32 :: "bytes \<Rightarrow> u32 \<Rightarrow> u32 mres" where
  "readU32 d off = bindE (goSlice d off (off + 4)) (\<lambda>b. Inr (le32 b))"

definition readBlob :: "bytes \<Rightarrow> u32 \<Rightarrow> (bytes \<times> u32) mres" where
  "readBlob d off = bindE (readU32 d off) (\<lambda>n.
     bindE (goSlice d (off + 4) (off + 4 + n)) (\<lambda>b. Inr (b, off + 4 + n)))"

definition writeAt :: "u32 \<Rightarrow> u32 \<Rightarrow> bytes \<Rightarrow> bytes \<Rightarrow> bytes mres" where
  "writeAt lo hi bs buf = (if lo \<le> hi \<and> unat hi \<le> length buf
     then Inr (patch buf (unat lo) (take (unat (hi - lo)) bs)) else Inl MgrPanic)"

definition writeBlob :: "u32 \<Rightarrow> u32 \<Rightarrow> bytes \<Rightarrow> bytes \<Rightarrow> (bytes \<times> u32) mres" where
  "writeBlob off n bs buf = bindE (writeAt off (off + 4) (uint32ToBytes n) buf) (\<lambda>buf.
     bindE (writeAt (off + 4) (off + 4 + n) bs buf) (\<lambda>buf. Inr (buf, off + 4 + n)))"

lemma unat_of_nat32: "m < 2 ^ 32 \<Longrightarrow> unat (word_of_nat m :: u32) = m"
  by (simp add: unat_of_nat)

lemma of_nat32_le: "a \<le> b \<Longrightarrow> b < 2 ^ 32 \<Longrightarrow> (word_of_nat a :: u32) \<le> word_of_nat b"
  by (simp add: word_le_nat_alt unat_of_nat32)

text \<open>Field \<open>bs\<close> stands at offset \<open>m\<close> of \<open>d\<close>.\<close>

definition field_at :: "bytes \<Rightarrow> nat \<Rightarrow> bytes \<Rightarrow> bool" where
  "field_at d m bs \<longleftrightarrow> m + length bs \<le> length d \<and> take (length bs) (drop m d) = bs"

lemma goSlice_at:
  assumes "field_at d m bs" "n = m + length bs" "n < 2 ^ 32"
  shows "goSlice d (word_of_nat m) (word_of_nat n) = Inr bs"
proof -
  have "unat (word_of_nat m :: u32) = m" "unat (word_of_nat n :: u32) = n"
    by (rule unat_of_nat32, use assms(2,3) in simp)+
  moreover have "(word_of_nat m :: u32) \<le> word_of_nat n"
    using assms(2,3) by (intro of_nat32_le) auto
  ultimately show ?thesis using assms(1,2) by (simp add: goSlice_def slice_def field_at_def)
qed

lemma readU32_at:
  assumes "field_at d m (uint32ToBytes v)" "m + 4 < 2 ^ 32"
  shows "readU32 d (word_of_nat m) = Inr v"
proof -
  have "goSlice d (word_of_nat m) (word_of_nat (m + 4)) = Inr (uint32ToBytes v)"
    by (rule goSlice_at[OF assms(1)]) (use assms(2) in simp_all)
  then show ?thesis by (simp add: readU32_def add.commute)
qed

definition blob :: "bytes \<Rightarrow> bytes" where
  "blob bs = uint32ToBytes (word_of_nat (length bs)) @ bs"

lemma length_blob [simp]: "length (blob bs) = 4 + length bs"
  by (simp add: blob_def)

lemma field_at_append: "field_at d m (a @ b) \<longleftrightarrow> field_at d m a \<and> field_at d (m + length a) b"
  by (auto simp: field_at_def take_add add.commute add.left_commute)

lemma readBlob_at:
  assumes "field_at d m (blob bs)" "m + 4 + length bs < 2 ^ 32"
  shows "readBlob d (word_of_nat m) = Inr (bs, word_of_nat (m + 4 + length bs))"
proof -
  have f: "field_at d m (uint32ToBytes (word_of_nat (length bs)))" "field_at d (m + 4) bs"
    using assms(1) by (simp_all add: blob_def field_at_append)
  have "readU32 d (word_of_nat m) = Inr (word_of_nat (length bs))"
    using readU32_at[OF f(1)] assms(2) by simp
  moreover have "goSlice d (word_of_nat (m + 4)) (word_of_nat (m + 4 + length bs)) = Inr bs"
    by (rule goSlice_at[OF f(2)]) (use assms(2) in simp_all)
  ultimately show ?thesis by (simp add: readBlob_def add_ac)
qed

text \<open>A buffer written up to \<open>pre\<close>, with room for \<open>k\<close> more bytes.\<close>

lemma writeAt_fill:
  assumes "length pre = m" "n = m + length bs" "length bs \<le> k" "n < 2 ^ 32"
  shows "writeAt (word_of_nat m) (word_of_nat n) bs (pre @ replicate k 0)
    = Inr ((pre @ bs) @ replicate (k - length bs) 0)"
proof -
  have u: "unat (word_of_nat m :: u32) = m" "unat (word_of_nat n :: u32) = n"
    by (rule unat_of_nat32, use assms(2,4) in simp)+
  have "(word_of_nat n :: u32) - word_of_nat m = word_of_nat (length bs)"
    by (simp add: assms(2))
  moreover have "(word_of_nat m :: u32) \<le> word_of_nat n"
    using assms(2,4) by (intro of_nat32_le) auto
  moreover have "unat (word_of_nat (length bs) :: u32) = length bs"
    using assms(2,4) by (intro unat_of_nat32) auto
  ultimately show ?thesis using assms u by (simp add: writeAt_def patch_def)
qed

lemma writeBlob_fill:
  assumes "length pre = m" "4 + length bs \<le> k" "m + 4 + length bs < 2 ^ 32"
  shows "writeBlob (word_of_nat m) (word_of_nat (length bs)) bs (pre @ replicate k 0)
    = Inr ((pre @ blob bs) @ replicate (k - (4 + length bs)) 0, word_of_nat (m + 4 + length bs))"
proof -
  let ?l = "uint32ToBytes (word_of_nat (length bs))"
  have "writeAt (word_of_nat m) (word_of_nat (m + 4)) ?l (pre @ replicate k 0)
      = Inr ((pre @ ?l) @ replicate (k - 4) 0)"
    using writeAt_fill[OF assms(1), of "m + 4" ?l k] assms(2,3) by simp
  moreover have "writeAt (word_of_nat (m + 4)) (word_of_nat (m + 4 + length bs)) bs
      ((pre @ ?l) @ replicate (k - 4) 0) = Inr (((pre @ ?l) @ bs) @ replicate (k - 4 - length bs) 0)"
    by (rule writeAt_fill) (use assms in simp_all)
  ultimately show ?thesis
    by (simp add: writeBlob_def blob_def add_ac)
qed

section \<open>Scopes and schemas\<close>

definition scopeToBytes :: "keyScope \<Rightarrow> bytes" where
  "scopeToBytes scope = uint32ToBytes (Purpose scope) @ uint32ToBytes (Coin scope)"

definition scopeFromBytes :: "bytes \<Rightarrow> keyScope" where
  "scopeFromBytes k = \<lparr>Purpose = le32 k, Coin = le32 (drop 4 k)\<rparr>"

lemma length_scopeToBytes [simp]: "length (scopeToBytes s) = 8"
  by (simp add: scopeToBytes_def)

lemma scopeFromBytes_scopeToBytes [simp]: "scopeFromBytes (scopeToBytes s) = s"
  by (simp add: scopeFromBytes_def scopeToBytes_def)

lemma scopeToBytes_inj [simp]: "scopeToBytes a = scopeToBytes b \<longleftrightarrow> a = b"
  by (metis scopeFromBytes_scopeToBytes)

lemma scopeToBytes_scopeFromBytes [simp]: "length k = 8 \<Longrightarrow> scopeToBytes (scopeFromBytes k) = k"
proof -
  assume l: "length k = 8"
  have "le32 k = le32 (take 4 k)" by (simp add: le32_def)
  then show ?thesis using l
    by (simp add: scopeToBytes_def scopeFromBytes_def)
qed

definition scopeSchemaToBytes :: "scopeAddrSchema \<Rightarrow> bytes" where
  "scopeSchemaToBytes schema = [InternalAddrType schema, ExternalAddrType schema]"

definition scopeSchemaFromBytes :: "bytes \<Rightarrow> scopeAddrSchema mres" where
  "scopeSchemaFromBytes b = (case b of
     i # e # _ \<Rightarrow> Inr \<lparr>ExternalAddrType = e, InternalAddrType = i\<rparr>
   | _ \<Rightarrow> Inl MgrPanic)"

lemma scopeSchemaFromBytes_ToBytes [simp]:
  "scopeSchemaFromBytes (scopeSchemaToBytes schema) = Inr schema"
  by (simp add: scopeSchemaFromBytes_def scopeSchemaToBytes_def)

section \<open>Account rows\<close>

definition deserializeAccountRow :: "bytes \<Rightarrow> dbAccountRow mres" where
  "deserializeAccountRow d =
     (if length d < 5 then Inl (managerError ErrDatabase_mgr)
      else let rdlen = le32 (slice d 1 5) in
        bindE (goSlice d 5 (5 + rdlen)) (\<lambda>raw. Inr \<lparr>acctType = d ! 0, acctRawData = raw\<rparr>))"

definition serializeAccountRow :: "'a dbAccountRow_scheme \<Rightarrow> bytes" where
  "serializeAccountRow row =
     acctType row # uint32ToBytes (word_of_nat (length (acctRawData row))) @ acctRawData row"

definition deserializeDefaultAccountRow :: "dbAccountRow \<Rightarrow> dbDefaultAccountRow mres" where
  "deserializeDefaultAccountRow row = (let d = acctRawData row in
     if length d < 20 then Inl (managerError ErrDatabase_mgr)
     else bindE (readBlob d 0) (\<lambda>(pub, offset).
       bindE (readBlob d offset) (\<lambda>(priv, offset).
       bindE (readU32 d offset) (\<lambda>nextExternal.
       bindE (readU32 d (offset + 4)) (\<lambda>nextInternal.
       bindE (readBlob d (offset + 8)) (\<lambda>(name, _).
       Inr \<lparr>acctType = acctType row, acctRawData = d,
         defPubKeyEncrypted = pub, defPrivKeyEncrypted = priv,
         defNextExternalIndex = nextExternal, defNextInternalIndex = nextInternal,
         defName = name\<rparr>))))))"

definition serializeDefaultAccountRow ::
  "bytes \<Rightarrow> bytes \<Rightarrow> u32 \<Rightarrow> u32 \<Rightarrow> gostring \<Rightarrow> bytes mres" where
  "serializeDefaultAccountRow pub priv nextExternal nextInternal name =
     (let pubLen = word_of_nat (length pub); privLen = word_of_nat (length priv);
          nameLen = word_of_nat (length name);
          rawData = replicate (unat (20 + pubLen + privLen + nameLen :: u32)) 0 in
      bindE (writeBlob 0 pubLen pub rawData) (\<lambda>(rawData, offset).
      bindE (writeBlob offset privLen priv rawData) (\<lambda>(rawData, offset).
      bindE (writeAt offset (offset + 4) (uint32ToBytes nextExternal) rawData) (\<lambda>rawData.
      bindE (writeAt (offset + 4) (offset + 8) (uint32ToBytes nextInternal) rawData) (\<lambda>rawData.
      bindE (writeBlob (offset + 8) nameLen name rawData) (\<lambda>(rawData, _).
      Inr rawData))))))"

text \<open>\<open>bytes.Reader\<close>: the rest of the data is the reader.\<close>

definition readN :: "nat \<Rightarrow> bytes \<Rightarrow> (bytes \<times> bytes) mres" where
  "readN n r = (if n \<le> length r then Inr (take n r, drop n r) else Inl MgrEOF)"

definition readLE32 :: "bytes \<Rightarrow> (u32 \<times> bytes) mres" where
  "readLE32 r = bindE (readN 4 r) (\<lambda>(b, r). Inr (le32 b, r))"

definition deserializeWatchOnlyAccountRow :: "dbAccountRow \<Rightarrow> dbWatchOnlyAccountRow mres" where
  "deserializeWatchOnlyAccountRow row =
     (if length (acctRawData row) < 21 then Inl (managerError ErrDatabase_mgr)
      else bindE (readLE32 (acctRawData row)) (\<lambda>(pubLen, r).
        bindE (readN (unat pubLen) r) (\<lambda>(pub, r).
        bindE (readLE32 r) (\<lambda>(fingerprint, r).
        bindE (readLE32 r) (\<lambda>(nextExternal, r).
        bindE (readLE32 r) (\<lambda>(nextInternal, r).
        bindE (readLE32 r) (\<lambda>(nameLen, r).
        bindE (readN (unat nameLen) r) (\<lambda>(name, r).
        bindE (readN 1 r) (\<lambda>(addrSchemaExists, r).
        bindE (if addrSchemaExists ! 0 \<noteq> 0
               then bindE (readN 2 r) (\<lambda>(b, _).
                 bindE (scopeSchemaFromBytes b) (\<lambda>schema. Inr (Some schema)))
               else Inr None) (\<lambda>addrSchema.
        Inr \<lparr>acctType = acctType row, acctRawData = acctRawData row,
          woPubKeyEncrypted = pub, woMasterKeyFingerprint = fingerprint,
          woNextExternalIndex = nextExternal, woNextInternalIndex = nextInternal,
          woName = name, woAddrSchema = addrSchema\<rparr>))))))))))"

definition serializeWatchOnlyAccountRow ::
  "bytes \<Rightarrow> u32 \<Rightarrow> u32 \<Rightarrow> u32 \<Rightarrow> gostring \<Rightarrow> scopeAddrSchema option \<Rightarrow> bytes" where
  "serializeWatchOnlyAccountRow pub fingerprint nextExternal nextInternal name addrSchema =
     uint32ToBytes (word_of_nat (length pub)) @ pub @ uint32ToBytes fingerprint
     @ uint32ToBytes nextExternal @ uint32ToBytes nextInternal
     @ uint32ToBytes (word_of_nat (length name)) @ name
     @ (case addrSchema of None \<Rightarrow> [0] | Some schema \<Rightarrow> 1 # scopeSchemaToBytes schema)"

section \<open>Address rows\<close>

definition deserializeAddressRow :: "bytes \<Rightarrow> dbAddressRow mres" where
  "deserializeAddressRow d =
     (if length d < 18 then Inl (managerError ErrDatabase_mgr)
      else let rdlen = le32 (slice d 14 18) in
        bindE (goSlice d 18 (18 + rdlen)) (\<lambda>raw. Inr \<lparr>addrType = d ! 0,
          addrAccount = le32 (slice d 1 5), addrTime = le64 (slice d 5 13),
          addrSyncStatus = d ! 13, addrRawData = raw\<rparr>))"

definition serializeAddressRow :: "'a dbAddressRow_scheme \<Rightarrow> bytes" where
  "serializeAddressRow row =
     addrType row # uint32ToBytes (addrAccount row) @ putLE64 (addrTime row)
     @ addrSyncStatus row # uint32ToBytes (word_of_nat (length (addrRawData row)))
     @ addrRawData row"

definition deserializeChainedAddress :: "dbAddressRow \<Rightarrow> dbChainAddressRow mres" where
  "deserializeChainedAddress row =
     (if length (addrRawData row) \<noteq> 8 then Inl (managerError ErrDatabase_mgr)
      else Inr (dbAddressRow.extend row
        \<lparr>chainBranch = le32 (slice (addrRawData row) 0 4),
         chainIndex = le32 (slice (addrRawData row) 4 8)\<rparr>))"

definition serializeChainedAddress :: "u32 \<Rightarrow> u32 \<Rightarrow> bytes" where
  "serializeChainedAddress branch index = uint32ToBytes branch @ uint32ToBytes index"

definition deserializeImportedAddress :: "dbAddressRow \<Rightarrow> dbImportedAddressRow mres" where
  "deserializeImportedAddress row = (let d = addrRawData row in
     if length d < 8 then Inl (managerError ErrDatabase_mgr)
     else bindE (readBlob d 0) (\<lambda>(pub, offset).
       bindE (readBlob d offset) (\<lambda>(priv, _).
       Inr (dbAddressRow.extend row \<lparr>impPubKey = pub, impPrivKey = priv\<rparr>))))"

definition serializeImportedAddress :: "bytes \<Rightarrow> bytes \<Rightarrow> bytes mres" where
  "serializeImportedAddress pub priv =
     (let pubLen = word_of_nat (length pub); privLen = word_of_nat (length priv);
          rawData = replicate (unat (8 + pubLen + privLen :: u32)) 0 in
      bindE (writeBlob 0 pubLen pub rawData) (\<lambda>(rawData, offset).
      bindE (writeBlob offset privLen priv rawData) (\<lambda>(rawData, _).
      Inr rawData)))"

definition deserializeScriptAddress :: "dbAddressRow \<Rightarrow> dbScriptAddressRow mres" where
  "deserializeScriptAddress row = (let d = addrRawData row in
     if length d < 8 then Inl (managerError ErrDatabase_mgr)
     else bindE (readBlob d 0) (\<lambda>(hash, offset).
       bindE (readBlob d offset) (\<lambda>(script, _).
       Inr (dbAddressRow.extend row \<lparr>scrHash = hash, scrScript = script\<rparr>))))"

definition serializeScriptAddress :: "bytes \<Rightarrow> bytes \<Rightarrow> bytes mres" where
  "serializeScriptAddress hash script =
     (let hashLen = word_of_nat (length hash); scriptLen = word_of_nat (length script);
          rawData = replicate (unat (8 + hashLen + scriptLen :: u32)) 0 in
      bindE (writeBlob 0 hashLen hash rawData) (\<lambda>(rawData, offset).
      bindE (writeBlob offset scriptLen script rawData) (\<lambda>(rawData, _).
      Inr rawData)))"

definition deserializeWitnessScriptAddress :: "dbAddressRow \<Rightarrow> dbWitnessScriptAddressRow mres" where
  "deserializeWitnessScriptAddress row = (let d = addrRawData row in
     if length d < 10 then Inl (managerError ErrDatabase_mgr)
     else bindE (readBlob d 2) (\<lambda>(hash, offset).
       bindE (readBlob d offset) (\<lambda>(script, _).
       Inr (dbAddressRow.extend row \<lparr>witVersion = d ! 0, witIsSecret = (d ! 1 = 1),
         witHash = hash, witScript = script\<rparr>))))"

definition serializeWitnessScriptAddress :: "u8 \<Rightarrow> bool \<Rightarrow> bytes \<Rightarrow> bytes \<Rightarrow> bytes mres" where
  "serializeWitnessScriptAddress version isSecret hash script =
     (let hashLen = word_of_nat (length hash); scriptLen = word_of_nat (length script);
          size = unat (10 + hashLen + scriptLen :: u32) in
      if size < 2 then Inl MgrPanic
      else let rawData = [version, if isSecret then 1 else 0] @ replicate (size - 2) 0 in
      bindE (writeBlob 2 hashLen hash rawData) (\<lambda>(rawData, offset).
      bindE (writeBlob offset scriptLen script rawData) (\<lambda>(rawData, _).
      Inr rawData)))"

section \<open>What is written\<close>

text \<open>The chain of writes fills the buffer field by field.\<close>

definition defaultRaw :: "bytes \<Rightarrow> bytes \<Rightarrow> u32 \<Rightarrow> u32 \<Rightarrow> gostring \<Rightarrow> bytes" where
  "defaultRaw pub priv nextExternal nextInternal name =
     blob pub @ blob priv @ uint32ToBytes nextExternal @ uint32ToBytes nextInternal @ blob name"

lemma serializeDefaultAccountRow_eq:
  assumes "20 + length pub + length priv + length name < 2 ^ 32"
  shows "serializeDefaultAccountRow pub priv nextExternal nextInternal name
    = Inr (defaultRaw pub priv nextExternal nextInternal name)"
proof -
  let ?n = "20 + length pub + length priv + length name"
  let ?ext = "uint32ToBytes nextExternal" and ?int = "uint32ToBytes nextInternal"
  define p where "p = 4 + length pub"
  define q where "q = p + 4 + length priv"
  have le: "p \<le> ?n" "q + 12 + length name = ?n" "?n < 2 ^ 32"
    using assms by (simp_all add: p_def q_def)
  have u: "unat (20 + word_of_nat (length pub) + word_of_nat (length priv)
      + word_of_nat (length name) :: u32) = ?n"
    using unat_of_nat32[OF le(3)] by simp
  have w1: "writeBlob 0 (word_of_nat (length pub)) pub (replicate ?n 0)
      = Inr (blob pub @ replicate (?n - p) 0, word_of_nat p)"
    using writeBlob_fill[of "[]" 0 pub ?n] assms by (simp add: p_def)
  have w2: "writeBlob (word_of_nat p) (word_of_nat (length priv)) priv (blob pub @ replicate (?n - p) 0)
      = Inr ((blob pub @ blob priv) @ replicate (?n - q) 0, word_of_nat q)"
    using writeBlob_fill[of "blob pub" p priv "?n - p"] assms by (simp add: p_def q_def)
  have w3: "writeAt (word_of_nat q) (word_of_nat (q + 4)) ?ext
        ((blob pub @ blob priv) @ replicate (?n - q) 0)
      = Inr ((blob pub @ blob priv @ ?ext) @ replicate (?n - (q + 4)) 0)"
    using writeAt_fill[of "blob pub @ blob priv" q "q + 4" ?ext "?n - q"] le by (simp add: p_def q_def)
  have w4: "writeAt (word_of_nat (q + 4)) (word_of_nat (q + 8)) ?int
        ((blob pub @ blob priv @ ?ext) @ replicate (?n - (q + 4)) 0)
      = Inr ((blob pub @ blob priv @ ?ext @ ?int) @ replicate (?n - (q + 8)) 0)"
    using writeAt_fill[of "blob pub @ blob priv @ ?ext" "q + 4" "q + 8" ?int "?n - (q + 4)"] le
    by (simp add: p_def q_def)
  have w5: "writeBlob (word_of_nat (q + 8)) (word_of_nat (length name)) name
        ((blob pub @ blob priv @ ?ext @ ?int) @ replicate (?n - (q + 8)) 0)
      = Inr (defaultRaw pub priv nextExternal nextInternal name, word_of_nat ?n)"
    using writeBlob_fill[of "blob pub @ blob priv @ ?ext @ ?int" "q + 8" name "?n - (q + 8)"] le
    by (simp add: p_def q_def defaultRaw_def add_ac)
  have o: "word_of_nat q + 4 = (word_of_nat (q + 4) :: u32)"
      "word_of_nat q + 8 = (word_of_nat (q + 8) :: u32)" by simp_all
  show ?thesis
    unfolding serializeDefaultAccountRow_def Let_def u w1 bindE_simps prod.case w2 o w3 w4 w5 ..
qed

lemma writeTwoBlobs:
  assumes "length pre = m" "k = 8 + length a + length b" "m + k < 2 ^ 32"
  shows "bindE (writeBlob (word_of_nat m) (word_of_nat (length a)) a (pre @ replicate k 0))
      (\<lambda>(d, off). bindE (writeBlob off (word_of_nat (length b)) b d) (\<lambda>(d, _). Inr d))
    = Inr (pre @ blob a @ blob b)"
proof -
  have w1: "writeBlob (word_of_nat m) (word_of_nat (length a)) a (pre @ replicate k 0)
      = Inr ((pre @ blob a) @ replicate (k - (4 + length a)) 0, word_of_nat (m + 4 + length a))"
    by (rule writeBlob_fill) (use assms in simp_all)
  have w2: "writeBlob (word_of_nat (m + 4 + length a)) (word_of_nat (length b)) b
        ((pre @ blob a) @ replicate (k - (4 + length a)) 0)
      = Inr (((pre @ blob a) @ blob b) @ replicate 0 0, word_of_nat (m + 4 + length a + 4 + length b))"
    using writeBlob_fill[of "pre @ blob a" "m + 4 + length a" b "k - (4 + length a)"] assms
    by simp
  show ?thesis unfolding w1 bindE_simps prod.case w2 by simp
qed

lemma serializeImportedAddress_eq:
  assumes "8 + length pub + length priv < 2 ^ 32"
  shows "serializeImportedAddress pub priv = Inr (blob pub @ blob priv)"
proof -
  have u: "unat (8 + word_of_nat (length pub) + word_of_nat (length priv) :: u32)
      = 8 + length pub + length priv" using unat_of_nat32[OF assms] by simp
  show ?thesis unfolding serializeImportedAddress_def Let_def u
    using writeTwoBlobs[of "[]" 0 _ pub priv] assms by simp
qed

lemma serializeScriptAddress_eq:
  "8 + length hash + length script < 2 ^ 32 \<Longrightarrow>
    serializeScriptAddress hash script = Inr (blob hash @ blob script)"
  using serializeImportedAddress_eq[of hash script]
  unfolding serializeScriptAddress_def serializeImportedAddress_def .

lemma serializeWitnessScriptAddress_eq:
  assumes "10 + length hash + length script < 2 ^ 32"
  shows "serializeWitnessScriptAddress version isSecret hash script
    = Inr ([version, if isSecret then 1 else 0] @ blob hash @ blob script)"
proof -
  have u: "unat (10 + word_of_nat (length hash) + word_of_nat (length script) :: u32)
      = 10 + length hash + length script" using unat_of_nat32[OF assms] by simp
  let ?pre = "[version, if isSecret then 1 else 0]"
  have k: "10 + length hash + length script - 2 = 8 + length hash + length script"
    and n: "\<not> 10 + length hash + length script < 2" by simp_all
  have w: "bindE (writeBlob 2 (word_of_nat (length hash)) hash
        (?pre @ replicate (8 + length hash + length script) 0))
      (\<lambda>(d, off). bindE (writeBlob off (word_of_nat (length script)) script d) (\<lambda>(d, _). Inr d))
    = Inr (?pre @ blob hash @ blob script)"
    using writeTwoBlobs[of ?pre 2 "8 + length hash + length script" hash script] assms by simp
  show ?thesis
    unfolding serializeWitnessScriptAddress_def Let_def u if_not_P[OF n] k by (rule w)
qed

section \<open>Round trips\<close>

lemma field_at_start: "field_at (a @ b) 0 a" "field_at a 0 a"
  by (simp_all add: field_at_def)

lemma readTwoBlobs:
  assumes "field_at d m (blob a @ blob b)" "m + 8 + length a + length b < 2 ^ 32"
  shows "readBlob d (word_of_nat m) = Inr (a, word_of_nat (m + 4 + length a))"
    and "readBlob d (word_of_nat (m + 4 + length a)) = Inr (b, word_of_nat (m + 8 + length a + length b))"
proof -
  show "readBlob d (word_of_nat m) = Inr (a, word_of_nat (m + 4 + length a))"
    by (rule readBlob_at) (use assms in \<open>simp_all add: field_at_append\<close>)
  show "readBlob d (word_of_nat (m + 4 + length a)) = Inr (b, word_of_nat (m + 8 + length a + length b))"
    using readBlob_at[of d "m + 4 + length a" b] assms by (simp add: field_at_append add_ac)
qed

lemma deserializeDefaultAccountRow_raw:
  assumes "acctRawData row = defaultRaw pub priv nextExternal nextInternal name"
    and "20 + length pub + length priv + length name < 2 ^ 32"
  shows "deserializeDefaultAccountRow row = Inr \<lparr>acctType = acctType row,
    acctRawData = acctRawData row, defPubKeyEncrypted = pub, defPrivKeyEncrypted = priv,
    defNextExternalIndex = nextExternal, defNextInternalIndex = nextInternal, defName = name\<rparr>"
proof -
  define d where "d = defaultRaw pub priv nextExternal nextInternal name"
  define q where "q = 8 + length pub + length priv"
  have "field_at d 0 d" by (rule field_at_start)
  then have "field_at d 0 (blob pub @ blob priv @ uint32ToBytes nextExternal
      @ uint32ToBytes nextInternal @ blob name)" by (simp add: d_def defaultRaw_def)
  then have f: "field_at d 0 (blob pub @ blob priv)" "field_at d q (uint32ToBytes nextExternal)"
      "field_at d (q + 4) (uint32ToBytes nextInternal)" "field_at d (q + 8) (blob name)"
    by (simp_all add: field_at_append q_def add_ac)
  have l: "\<not> length d < 20" by (simp add: d_def defaultRaw_def)
  have r1: "readBlob d 0 = Inr (pub, word_of_nat (4 + length pub))"
    and r2: "readBlob d (word_of_nat (4 + length pub)) = Inr (priv, word_of_nat q)"
    using readTwoBlobs[OF f(1)] assms(2) by (simp_all add: q_def)
  have r3: "readU32 d (word_of_nat q) = Inr nextExternal"
    by (rule readU32_at[OF f(2)]) (use assms(2) in \<open>simp add: q_def\<close>)
  have r4: "readU32 d (word_of_nat (q + 4)) = Inr nextInternal"
    by (rule readU32_at[OF f(3)]) (use assms(2) in \<open>simp add: q_def\<close>)
  have r5: "readBlob d (word_of_nat (q + 8)) = Inr (name, word_of_nat (q + 8 + 4 + length name))"
    by (rule readBlob_at[OF f(4)]) (use assms(2) in \<open>simp add: q_def\<close>)
  have o: "word_of_nat q + 4 = (word_of_nat (q + 4) :: u32)"
      "word_of_nat q + 8 = (word_of_nat (q + 8) :: u32)" by simp_all
  show ?thesis
    unfolding deserializeDefaultAccountRow_def Let_def assms(1) d_def[symmetric] if_not_P[OF l]
      r1 bindE_simps prod.case r2 o r3 r4 r5 ..
qed

lemma readN_append [simp]: "readN (length a) (a @ r) = Inr (a, r)"
  by (simp add: readN_def)

lemma readLE32_append [simp]: "readLE32 (uint32ToBytes v @ r) = Inr (v, r)"
  using readN_append[of "uint32ToBytes v" r] by (simp add: readLE32_def)

lemma deserializeWatchOnlyAccountRow_raw:
  assumes "acctRawData row = serializeWatchOnlyAccountRow pub fp nextExternal nextInternal name schema"
    and "length pub < 2 ^ 32" "length name < 2 ^ 32"
  shows "deserializeWatchOnlyAccountRow row = Inr \<lparr>acctType = acctType row,
    acctRawData = acctRawData row, woPubKeyEncrypted = pub, woMasterKeyFingerprint = fp,
    woNextExternalIndex = nextExternal, woNextInternalIndex = nextInternal, woName = name,
    woAddrSchema = schema\<rparr>"
proof -
  have "unat (word_of_nat (length pub) :: u32) = length pub"
    and "unat (word_of_nat (length name) :: u32) = length name"
    using assms(2,3) by (simp_all add: unat_of_nat)
  moreover have "\<not> length (acctRawData row) < 21"
    by (cases schema) (simp_all add: assms(1) serializeWatchOnlyAccountRow_def)
  moreover have "readN 2 (scopeSchemaToBytes s) = Inr (scopeSchemaToBytes s, [])" for s
    by (simp add: readN_def scopeSchemaToBytes_def)
  ultimately show ?thesis
    by (cases schema) (simp_all add: deserializeWatchOnlyAccountRow_def assms(1)
        serializeWatchOnlyAccountRow_def readN_def del: bindE_eq_Inr)
qed

section \<open>Stored rows\<close>

text \<open>\<open>fetchAccountInfo\<close> and \<open>fetchAddressByHash\<close> after the value has been read.\<close>

definition decodeAccountRow :: "bytes \<Rightarrow> acctRowInterface mres" where
  "decodeAccountRow d = bindE (deserializeAccountRow d) (\<lambda>row.
     if acctType row = accountDefault
     then bindE (deserializeDefaultAccountRow row) (\<lambda>r. Inr (DefaultAccount r))
     else if acctType row = accountWatchOnly
     then bindE (deserializeWatchOnlyAccountRow row) (\<lambda>r. Inr (WatchOnlyAccount r))
     else Inl (managerError ErrDatabase_mgr))"

definition decodeAddressRow :: "bytes \<Rightarrow> addrRowInterface mres" where
  "decodeAddressRow d = bindE (deserializeAddressRow d) (\<lambda>row.
     if addrType row = adtChain
     then bindE (deserializeChainedAddress row) (\<lambda>r. Inr (ChainAddress r))
     else if addrType row = adtImport
     then bindE (deserializeImportedAddress row) (\<lambda>r. Inr (ImportedAddress r))
     else if addrType row = adtScript
     then bindE (deserializeScriptAddress row) (\<lambda>r. Inr (ScriptAddress r))
     else if addrType row = adtWitnessScript \<or> addrType row = adtTaprootScript
     then bindE (deserializeWitnessScriptAddress row) (\<lambda>r. Inr (WitnessScriptAddress r))
     else Inl (managerError ErrDatabase_mgr))"

text \<open>The value stored for a row, and the rows whose sizes fit the format.\<close>

definition accountValue :: "acctRowInterface \<Rightarrow> bytes" where
  "accountValue r = (case r of
     DefaultAccount a \<Rightarrow> serializeAccountRow a
   | WatchOnlyAccount a \<Rightarrow> serializeAccountRow a)"

definition account_ok :: "acctRowInterface \<Rightarrow> bool" where
  "account_ok r = (case r of
     DefaultAccount a \<Rightarrow> acctType a = accountDefault
       \<and> acctRawData a = defaultRaw (defPubKeyEncrypted a) (defPrivKeyEncrypted a)
           (defNextExternalIndex a) (defNextInternalIndex a) (defName a)
       \<and> 25 + length (defPubKeyEncrypted a) + length (defPrivKeyEncrypted a) + length (defName a) < 2 ^ 32
   | WatchOnlyAccount a \<Rightarrow> acctType a = accountWatchOnly
       \<and> acctRawData a = serializeWatchOnlyAccountRow (woPubKeyEncrypted a)
           (woMasterKeyFingerprint a) (woNextExternalIndex a) (woNextInternalIndex a) (woName a)
           (woAddrSchema a)
       \<and> 28 + length (woPubKeyEncrypted a) + length (woName a) < 2 ^ 32)"

definition addressValue :: "addrRowInterface \<Rightarrow> bytes" where
  "addressValue r = (case r of
     ChainAddress a \<Rightarrow> serializeAddressRow a
   | ImportedAddress a \<Rightarrow> serializeAddressRow a
   | ScriptAddress a \<Rightarrow> serializeAddressRow a
   | WitnessScriptAddress a \<Rightarrow> serializeAddressRow a)"

definition address_ok :: "addrRowInterface \<Rightarrow> bool" where
  "address_ok r = (case r of
     ChainAddress a \<Rightarrow> addrType a = adtChain
       \<and> addrRawData a = serializeChainedAddress (chainBranch a) (chainIndex a)
   | ImportedAddress a \<Rightarrow> addrType a = adtImport
       \<and> addrRawData a = blob (impPubKey a) @ blob (impPrivKey a)
       \<and> 26 + length (impPubKey a) + length (impPrivKey a) < 2 ^ 32
   | ScriptAddress a \<Rightarrow> addrType a = adtScript
       \<and> addrRawData a = blob (scrHash a) @ blob (scrScript a)
       \<and> 26 + length (scrHash a) + length (scrScript a) < 2 ^ 32
   | WitnessScriptAddress a \<Rightarrow> addrType a \<in> {adtWitnessScript, adtTaprootScript}
       \<and> addrRawData a = [witVersion a, if witIsSecret a then 1 else 0]
           @ blob (witHash a) @ blob (witScript a)
       \<and> 28 + length (witHash a) + length (witScript a) < 2 ^ 32)"

lemma deserializeAccountRow_serialize:
  assumes "5 + length (acctRawData row) < 2 ^ 32"
  shows "deserializeAccountRow (serializeAccountRow row)
    = Inr \<lparr>acctType = acctType row, acctRawData = acctRawData row\<rparr>"
proof -
  let ?n = "length (acctRawData row)" and ?d = "serializeAccountRow row"
  have "slice ?d 1 5 = uint32ToBytes (word_of_nat ?n)"
    by (simp add: slice_def serializeAccountRow_def)
  moreover have "goSlice ?d (word_of_nat 5) (word_of_nat (5 + ?n)) = Inr (acctRawData row)"
    by (rule goSlice_at) (use assms in \<open>simp_all add: field_at_def serializeAccountRow_def\<close>)
  moreover have "\<not> length ?d < 5" "?d ! 0 = acctType row" by (simp_all add: serializeAccountRow_def)
  ultimately show ?thesis by (simp add: deserializeAccountRow_def Let_def)
qed

lemma deserializeAddressRow_serialize:
  assumes "18 + length (addrRawData row) < 2 ^ 32"
  shows "deserializeAddressRow (serializeAddressRow row)
    = Inr (dbAddressRow.truncate row)"
proof -
  let ?n = "length (addrRawData row)" and ?d = "serializeAddressRow row"
  have f: "slice ?d 14 18 = uint32ToBytes (word_of_nat ?n)"
      "slice ?d 1 5 = uint32ToBytes (addrAccount row)" "slice ?d 5 13 = putLE64 (addrTime row)"
      "?d ! 13 = addrSyncStatus row"
    by (simp_all add: slice_def serializeAddressRow_def nth_Cons' nth_append)
  moreover have "goSlice ?d (word_of_nat 18) (word_of_nat (18 + ?n)) = Inr (addrRawData row)"
    by (rule goSlice_at) (use assms in \<open>simp_all add: field_at_def serializeAddressRow_def\<close>)
  moreover have "\<not> length ?d < 18" "?d ! 0 = addrType row" by (simp_all add: serializeAddressRow_def)
  ultimately show ?thesis
    by (simp add: deserializeAddressRow_def Let_def dbAddressRow.truncate_def)
qed

lemma decode_accountValue: "account_ok r \<Longrightarrow> decodeAccountRow (accountValue r) = Inr r"
proof (cases r)
  case (DefaultAccount a)
  assume "account_ok r"
  with DefaultAccount have t: "acctType a = accountDefault"
    and raw: "acctRawData a = defaultRaw (defPubKeyEncrypted a) (defPrivKeyEncrypted a)
       (defNextExternalIndex a) (defNextInternalIndex a) (defName a)"
    and l: "25 + length (defPubKeyEncrypted a) + length (defPrivKeyEncrypted a)
       + length (defName a) < 2 ^ 32" by (simp_all add: account_ok_def)
  have "5 + length (acctRawData a) < 2 ^ 32" using l by (simp add: raw defaultRaw_def)
  from deserializeAccountRow_serialize[OF this]
    deserializeDefaultAccountRow_raw[of "\<lparr>acctType = acctType a, acctRawData = acctRawData a\<rparr>"] raw l t
  show ?thesis by (simp add: DefaultAccount decodeAccountRow_def accountValue_def)
next
  case (WatchOnlyAccount a)
  assume "account_ok r"
  with WatchOnlyAccount have t: "acctType a = accountWatchOnly"
    and raw: "acctRawData a = serializeWatchOnlyAccountRow (woPubKeyEncrypted a)
       (woMasterKeyFingerprint a) (woNextExternalIndex a) (woNextInternalIndex a) (woName a)
       (woAddrSchema a)"
    and l: "28 + length (woPubKeyEncrypted a) + length (woName a) < 2 ^ 32"
    by (simp_all add: account_ok_def)
  have "5 + length (acctRawData a) < 2 ^ 32"
    using l by (simp add: raw serializeWatchOnlyAccountRow_def scopeSchemaToBytes_def split: option.split)
  from deserializeAccountRow_serialize[OF this]
    deserializeWatchOnlyAccountRow_raw[of "\<lparr>acctType = acctType a, acctRawData = acctRawData a\<rparr>"] raw l t
  show ?thesis
    by (simp add: WatchOnlyAccount decodeAccountRow_def accountValue_def accountDefault_def accountWatchOnly_def)
qed

lemmas adt_defs = adtChain_def adtImport_def adtScript_def adtWitnessScript_def adtTaprootScript_def

lemma deserializeImportedAddress_raw:
  assumes "addrRawData row = blob a @ blob b" "8 + length a + length b < 2 ^ 32"
  shows "deserializeImportedAddress row
    = Inr (dbAddressRow.extend row \<lparr>impPubKey = a, impPrivKey = b\<rparr>)"
proof -
  have l: "\<not> length (addrRawData row) < 8" by (simp add: assms(1))
  have r: "readBlob (addrRawData row) 0 = Inr (a, word_of_nat (4 + length a))"
    "readBlob (addrRawData row) (word_of_nat (4 + length a)) = Inr (b, word_of_nat (8 + length a + length b))"
    using readTwoBlobs[of "addrRawData row" 0 a b] assms by (simp_all add: field_at_def)
  show ?thesis
    unfolding deserializeImportedAddress_def Let_def if_not_P[OF l] r bindE_simps prod.case ..
qed

lemma deserializeScriptAddress_raw:
  assumes "addrRawData row = blob a @ blob b" "8 + length a + length b < 2 ^ 32"
  shows "deserializeScriptAddress row
    = Inr (dbAddressRow.extend row \<lparr>scrHash = a, scrScript = b\<rparr>)"
proof -
  have l: "\<not> length (addrRawData row) < 8" by (simp add: assms(1))
  have r: "readBlob (addrRawData row) 0 = Inr (a, word_of_nat (4 + length a))"
    "readBlob (addrRawData row) (word_of_nat (4 + length a)) = Inr (b, word_of_nat (8 + length a + length b))"
    using readTwoBlobs[of "addrRawData row" 0 a b] assms by (simp_all add: field_at_def)
  show ?thesis
    unfolding deserializeScriptAddress_def Let_def if_not_P[OF l] r bindE_simps prod.case ..
qed

lemma deserializeWitnessScriptAddress_raw:
  assumes "addrRawData row = [v, s] @ blob a @ blob b" "10 + length a + length b < 2 ^ 32"
  shows "deserializeWitnessScriptAddress row = Inr (dbAddressRow.extend row
    \<lparr>witVersion = v, witIsSecret = (s = 1), witHash = a, witScript = b\<rparr>)"
proof -
  have l: "\<not> length (addrRawData row) < 10"
    and n: "addrRawData row ! 0 = v" "addrRawData row ! 1 = s" by (simp_all add: assms(1))
  have r: "readBlob (addrRawData row) 2 = Inr (a, word_of_nat (6 + length a))"
    "readBlob (addrRawData row) (word_of_nat (6 + length a)) = Inr (b, word_of_nat (10 + length a + length b))"
    using readTwoBlobs[of "addrRawData row" 2 a b] assms by (simp_all add: field_at_def)
  show ?thesis
    unfolding deserializeWitnessScriptAddress_def Let_def if_not_P[OF l] r bindE_simps prod.case n ..
qed

lemma decode_addressValue: "address_ok r \<Longrightarrow> decodeAddressRow (addressValue r) = Inr r"
proof (cases r)
  case (ChainAddress a)
  assume "address_ok r"
  with ChainAddress have t: "addrType a = adtChain"
    and raw: "addrRawData a = serializeChainedAddress (chainBranch a) (chainIndex a)"
    by (simp_all add: address_ok_def)
  have s: "deserializeAddressRow (serializeAddressRow a) = Inr (dbAddressRow.truncate a)"
    by (rule deserializeAddressRow_serialize) (simp add: raw serializeChainedAddress_def)
  have "slice (addrRawData a) 0 4 = uint32ToBytes (chainBranch a)"
    "slice (addrRawData a) 4 8 = uint32ToBytes (chainIndex a)" "length (addrRawData a) = 8"
    by (simp_all add: raw serializeChainedAddress_def slice_def)
  then show ?thesis using t
    by (simp add: ChainAddress decodeAddressRow_def addressValue_def s deserializeChainedAddress_def
        dbAddressRow.defs)
next
  case (ImportedAddress a)
  assume "address_ok r"
  with ImportedAddress have t: "addrType a = adtImport"
    and raw: "addrRawData a = blob (impPubKey a) @ blob (impPrivKey a)"
    and l: "26 + length (impPubKey a) + length (impPrivKey a) < 2 ^ 32"
    by (simp_all add: address_ok_def)
  have s: "deserializeAddressRow (serializeAddressRow a) = Inr (dbAddressRow.truncate a)"
    by (rule deserializeAddressRow_serialize) (use l in \<open>simp add: raw\<close>)
  have "deserializeImportedAddress (dbAddressRow.truncate a) = Inr a"
  proof -
    have "dbAddressRow.extend (dbAddressRow.truncate a) \<lparr>impPubKey = impPubKey a, impPrivKey = impPrivKey a\<rparr> = a"
      by (cases a) (simp add: dbAddressRow.defs)
    moreover have "addrRawData (dbAddressRow.truncate a) = blob (impPubKey a) @ blob (impPrivKey a)"
      using raw by (simp add: dbAddressRow.defs)
    ultimately show ?thesis using deserializeImportedAddress_raw[of "dbAddressRow.truncate a"] l by simp
  qed
  then show ?thesis using t
    by (simp add: ImportedAddress decodeAddressRow_def addressValue_def s dbAddressRow.truncate_def adt_defs)
next
  case (ScriptAddress a)
  assume "address_ok r"
  with ScriptAddress have t: "addrType a = adtScript"
    and raw: "addrRawData a = blob (scrHash a) @ blob (scrScript a)"
    and l: "26 + length (scrHash a) + length (scrScript a) < 2 ^ 32"
    by (simp_all add: address_ok_def)
  have s: "deserializeAddressRow (serializeAddressRow a) = Inr (dbAddressRow.truncate a)"
    by (rule deserializeAddressRow_serialize) (use l in \<open>simp add: raw\<close>)
  have "deserializeScriptAddress (dbAddressRow.truncate a) = Inr a"
  proof -
    have "dbAddressRow.extend (dbAddressRow.truncate a) \<lparr>scrHash = scrHash a, scrScript = scrScript a\<rparr> = a"
      by (cases a) (simp add: dbAddressRow.defs)
    moreover have "addrRawData (dbAddressRow.truncate a) = blob (scrHash a) @ blob (scrScript a)"
      using raw by (simp add: dbAddressRow.defs)
    ultimately show ?thesis using deserializeScriptAddress_raw[of "dbAddressRow.truncate a"] l by simp
  qed
  then show ?thesis using t
    by (simp add: ScriptAddress decodeAddressRow_def addressValue_def s dbAddressRow.truncate_def adt_defs)
next
  case (WitnessScriptAddress a)
  assume "address_ok r"
  with WitnessScriptAddress have t: "addrType a \<in> {adtWitnessScript, adtTaprootScript}"
    and raw: "addrRawData a = [witVersion a, if witIsSecret a then 1 else 0]
       @ blob (witHash a) @ blob (witScript a)"
    and l: "28 + length (witHash a) + length (witScript a) < 2 ^ 32"
    by (simp_all add: address_ok_def)
  have s: "deserializeAddressRow (serializeAddressRow a) = Inr (dbAddressRow.truncate a)"
    by (rule deserializeAddressRow_serialize) (use l in \<open>simp add: raw\<close>)
  have n: "addrType a \<noteq> adtChain" "addrType a \<noteq> adtImport" "addrType a \<noteq> adtScript"
    using t by (auto simp: adt_defs)
  have "deserializeWitnessScriptAddress (dbAddressRow.truncate a) = Inr a"
  proof -
    have "dbAddressRow.extend (dbAddressRow.truncate a) \<lparr>witVersion = witVersion a, witIsSecret = witIsSecret a, witHash = witHash a, witScript = witScript a\<rparr> = a"
      by (cases a) (simp add: dbAddressRow.defs)
    moreover have "addrRawData (dbAddressRow.truncate a) = [witVersion a, if witIsSecret a then 1 else 0] @ blob (witHash a) @ blob (witScript a)"
      using raw by (simp add: dbAddressRow.defs)
    ultimately show ?thesis
      using deserializeWitnessScriptAddress_raw[of "dbAddressRow.truncate a"] l
      by (cases "witIsSecret a") simp_all
  qed
  then show ?thesis using t n
    by (simp add: WitnessScriptAddress decodeAddressRow_def addressValue_def s dbAddressRow.truncate_def)
qed

section \<open>Tables of rows\<close>

definition row_at :: "(bytes \<Rightarrow> 'r mres) \<Rightarrow> bucket \<Rightarrow> bytes \<Rightarrow> 'r option" where
  "row_at dec b k = (case bucketGet b k of
     None \<Rightarrow> None
   | Some v \<Rightarrow> (case dec v of Inl _ \<Rightarrow> None | Inr r \<Rightarrow> Some r))"

definition rows_ok :: "('r \<Rightarrow> bytes) \<Rightarrow> ('r \<Rightarrow> bool) \<Rightarrow> bucket \<Rightarrow> bool" where
  "rows_ok enc ok b \<longleftrightarrow> (\<forall>k v. bucketGet b k = Some v \<longrightarrow> (\<exists>r. ok r \<and> v = enc r))"

locale row_codec =
  fixes enc :: "'r \<Rightarrow> bytes"
    and dec :: "bytes \<Rightarrow> 'r mres"
    and ok :: "'r \<Rightarrow> bool"
  assumes dec_enc: "ok r \<Longrightarrow> dec (enc r) = Inr r"
begin

lemma enc_inj: "ok r \<Longrightarrow> ok s \<Longrightarrow> enc r = enc s \<Longrightarrow> r = s"
  by (metis dec_enc sum.inject(2))

lemma row_put: "ok r \<Longrightarrow> row_at dec (bucketPut b k (enc r)) = (row_at dec b)(k \<mapsto> r)"
  by (rule ext) (simp add: row_at_def bucketGet_upd dec_enc)

lemma row_del: "row_at dec (bucketDelete b k) = (row_at dec b)(k := None)"
  by (rule ext) (simp add: row_at_def bucketGet_upd)

lemma row_of:
  assumes "rows_ok enc ok b" "row_at dec b k = Some r"
  shows "bucketGet b k = Some (enc r)" "ok r" "dec (enc r) = Inr r"
proof -
  obtain v where v: "bucketGet b k = Some v" "dec v = Inr r"
    using assms(2) by (auto simp: row_at_def split: option.splits sum.splits)
  moreover obtain r' where "ok r'" "v = enc r'" using assms(1) v(1) by (auto simp: rows_ok_def)
  ultimately show "bucketGet b k = Some (enc r)" "ok r" "dec (enc r) = Inr r"
    using dec_enc[of r'] by simp_all
qed

lemma row_none: "rows_ok enc ok b \<Longrightarrow> row_at dec b k = None \<longleftrightarrow> bucketGet b k = None"
proof (cases "bucketGet b k")
  case (Some v)
  assume "rows_ok enc ok b"
  with Some obtain r where "ok r" "v = enc r" by (auto simp: rows_ok_def)
  with Some show ?thesis by (simp add: row_at_def dec_enc)
qed (simp add: row_at_def)

lemma rows_ok_put: "rows_ok enc ok b \<Longrightarrow> ok r \<Longrightarrow> rows_ok enc ok (bucketPut b k (enc r))"
  by (auto simp: rows_ok_def bucketGet_upd)

lemma rows_ok_del: "rows_ok enc ok b \<Longrightarrow> rows_ok enc ok (bucketDelete b k)"
  by (auto simp: rows_ok_def bucketGet_upd)

lemma rows_ok_empty: "rows_ok enc ok bucketEmpty"
  by (simp add: rows_ok_def)

end

interpretation acctRows: row_codec accountValue decodeAccountRow account_ok
  by unfold_locales (rule decode_accountValue)

interpretation addrRows: row_codec addressValue decodeAddressRow address_ok
  by unfold_locales (rule decode_addressValue)

end
