(* ===== verification/Mgr_Db.thy ===== *)
theory Mgr_Db
  imports Mgr_Codec
begin

text \<open>
  The access functions of \<open>waddrmgr/db.go\<close> for the main bucket, the scopes and the accounts, and
  the creation of the namespace.  A function that takes a \<open>ReadWriteBucket\<close> returns the new
  namespace; a \<open>nil\<close> bucket is \<open>None\<close> and a method call on it a panic.  An error returned by a
  write is \<open>ErrDatabase\<close> where the code wraps it.  The deeper buckets of a scope exist as soon as
  the scope does (\<open>createScopedManagerNS\<close> makes them all).
\<close>

section \<open>Writes\<close>

definition allowed :: "'a mgrEnv_scheme \<Rightarrow> mgrOp \<Rightarrow> mgrErr \<Rightarrow> unit mres" where
  "allowed E op e = guardE (\<not> mgrFails E op) e"

lemma allowed_eq_Inr [simp]: "allowed E op e = Inr u \<longleftrightarrow> \<not> mgrFails E op"
  by (simp add: allowed_def)

lemma allowed_ok [simp]: "mgr_db_ok E \<Longrightarrow> allowed E op e = Inr ()"
  by (simp add: allowed_def mgr_db_ok_def)

definition ErrDb :: mgrErr where
  "ErrDb = managerError ErrDatabase_mgr"

definition mainBucket :: "mgrStore \<Rightarrow> bucket mres" where
  "mainBucket ns = (case mgrMain ns of None \<Rightarrow> Inl MgrPanic | Some b \<Rightarrow> Inr b)"

definition putMain :: "'a mgrEnv_scheme \<Rightarrow> bytes \<Rightarrow> bytes \<Rightarrow> mgrStore \<Rightarrow> mgrStore mres" where
  "putMain E k v ns = bindE (mainBucket ns) (\<lambda>b.
     bindE (allowed E (MgrPut MainB k v) ErrDb) (\<lambda>_.
     Inr (ns\<lparr>mgrMain := Some (bucketPut b k v)\<rparr>)))"

definition deleteMain :: "'a mgrEnv_scheme \<Rightarrow> bytes \<Rightarrow> mgrStore \<Rightarrow> mgrStore mres" where
  "deleteMain E k ns = bindE (mainBucket ns) (\<lambda>b.
     bindE (allowed E (MgrDelete MainB k) ErrDb) (\<lambda>_.
     Inr (ns\<lparr>mgrMain := Some (bucketDelete b k)\<rparr>)))"

text \<open>\<open>if v != nil { bucket.Put(k, v) }\<close>.\<close>

definition putMainOpt :: "'a mgrEnv_scheme \<Rightarrow> bytes \<Rightarrow> bytes option \<Rightarrow> mgrStore \<Rightarrow> mgrStore mres" where
  "putMainOpt E k v ns = (case v of None \<Rightarrow> Inr ns | Some v \<Rightarrow> putMain E k v ns)"

definition getMain :: "mgrStore \<Rightarrow> bytes \<Rightarrow> bytes option mres" where
  "getMain ns k = bindE (mainBucket ns) (\<lambda>b. Inr (bucketGet b k))"

definition requiredMain :: "mgrStore \<Rightarrow> bytes \<Rightarrow> bytes mres" where
  "requiredMain ns k = bindE (getMain ns k) (\<lambda>v. case v of
     None \<Rightarrow> Inl ErrDb
   | Some v \<Rightarrow> Inr v)"

section \<open>Keys of the main bucket\<close>

definition ascii :: "string \<Rightarrow> bytes" where
  "ascii s = map of_char s"

definition mgrVersionName :: bytes where "mgrVersionName = ascii ''mgrver''"
definition mgrCreateDateName :: bytes where "mgrCreateDateName = ascii ''mgrcreated''"
definition masterPrivKeyName :: bytes where "masterPrivKeyName = ascii ''mpriv''"
definition masterPubKeyName :: bytes where "masterPubKeyName = ascii ''mpub''"
definition cryptoPrivKeyName :: bytes where "cryptoPrivKeyName = ascii ''cpriv''"
definition cryptoPubKeyName :: bytes where "cryptoPubKeyName = ascii ''cpub''"
definition cryptoScriptKeyName :: bytes where "cryptoScriptKeyName = ascii ''cscript''"
definition watchingOnlyName :: bytes where "watchingOnlyName = ascii ''watchonly''"
definition masterHDPrivName :: bytes where "masterHDPrivName = ascii ''mhdpriv''"
definition masterHDPubName :: bytes where "masterHDPubName = ascii ''mhdpub''"
definition coinTypePrivKeyName :: bytes where "coinTypePrivKeyName = ascii ''ctpriv''"
definition coinTypePubKeyName :: bytes where "coinTypePubKeyName = ascii ''ctpub''"
definition lastAccountName :: bytes where "lastAccountName = ascii ''lastaccount''"

lemmas key_defs = mgrVersionName_def mgrCreateDateName_def masterPrivKeyName_def
  masterPubKeyName_def cryptoPrivKeyName_def cryptoPubKeyName_def cryptoScriptKeyName_def
  watchingOnlyName_def masterHDPrivName_def masterHDPubName_def coinTypePrivKeyName_def
  coinTypePubKeyName_def lastAccountName_def

section \<open>The main bucket\<close>

definition fetchManagerVersion :: "mgrStore \<Rightarrow> u32 mres" where
  "fetchManagerVersion ns = bindE (requiredMain ns mgrVersionName) (\<lambda>verBytes.
     if length verBytes < 4 then Inl MgrPanic else Inr (le32 verBytes))"

definition putManagerVersion :: "'a mgrEnv_scheme \<Rightarrow> mgrStore \<Rightarrow> u32 \<Rightarrow> mgrStore mres" where
  "putManagerVersion E ns version = putMain E mgrVersionName (uint32ToBytes version) ns"

definition fetchMasterKeyParams :: "mgrStore \<Rightarrow> (bytes \<times> bytes option) mres" where
  "fetchMasterKeyParams ns = bindE (requiredMain ns masterPubKeyName) (\<lambda>pubParams.
     bindE (getMain ns masterPrivKeyName) (\<lambda>privParams. Inr (pubParams, privParams)))"

definition putMasterKeyParams ::
  "'a mgrEnv_scheme \<Rightarrow> mgrStore \<Rightarrow> bytes option \<Rightarrow> bytes option \<Rightarrow> mgrStore mres" where
  "putMasterKeyParams E ns pubParams privParams =
     bindE (putMainOpt E masterPrivKeyName privParams ns)
       (putMainOpt E masterPubKeyName pubParams)"

definition putMasterHDKeys ::
  "'a mgrEnv_scheme \<Rightarrow> mgrStore \<Rightarrow> bytes option \<Rightarrow> bytes option \<Rightarrow> mgrStore mres" where
  "putMasterHDKeys E ns masterHDPrivEnc masterHDPubEnc =
     bindE (putMainOpt E masterHDPrivName masterHDPrivEnc ns)
       (putMainOpt E masterHDPubName masterHDPubEnc)"

definition fetchMasterHDKeys :: "mgrStore \<Rightarrow> (bytes option \<times> bytes option) mres" where
  "fetchMasterHDKeys ns = bindE (getMain ns masterHDPrivName) (\<lambda>priv.
     bindE (getMain ns masterHDPubName) (\<lambda>pub. Inr (priv, pub)))"

definition fetchCryptoKeys :: "mgrStore \<Rightarrow> (bytes \<times> bytes option \<times> bytes option) mres" where
  "fetchCryptoKeys ns = bindE (requiredMain ns cryptoPubKeyName) (\<lambda>pubKey.
     bindE (getMain ns cryptoPrivKeyName) (\<lambda>privKey.
     bindE (getMain ns cryptoScriptKeyName) (\<lambda>scriptKey. Inr (pubKey, privKey, scriptKey))))"

definition putCryptoKeys ::
  "'a mgrEnv_scheme \<Rightarrow> mgrStore \<Rightarrow> bytes option \<Rightarrow> bytes option \<Rightarrow> bytes option \<Rightarrow> mgrStore mres" where
  "putCryptoKeys E ns pubKeyEncrypted privKeyEncrypted scriptKeyEncrypted =
     bindE (putMainOpt E cryptoPubKeyName pubKeyEncrypted ns) (\<lambda>ns.
     bindE (putMainOpt E cryptoPrivKeyName privKeyEncrypted ns)
       (putMainOpt E cryptoScriptKeyName scriptKeyEncrypted))"

definition fetchWatchingOnly :: "mgrStore \<Rightarrow> bool mres" where
  "fetchWatchingOnly ns = bindE (getMain ns watchingOnlyName) (\<lambda>buf. case orNil buf of
     [b] \<Rightarrow> Inr (b \<noteq> 0)
   | _ \<Rightarrow> Inl ErrDb)"

definition putWatchingOnly :: "'a mgrEnv_scheme \<Rightarrow> mgrStore \<Rightarrow> bool \<Rightarrow> mgrStore mres" where
  "putWatchingOnly E ns watchingOnly =
     putMain E watchingOnlyName [if watchingOnly then 1 else 0] ns"

definition managerExists :: "mgrStore option \<Rightarrow> bool" where
  "managerExists ns = (case ns of None \<Rightarrow> False | Some ns \<Rightarrow> mgrMain ns \<noteq> None)"

section \<open>Scopes\<close>

definition scopeRoot :: "mgrStore \<Rightarrow> (bytes \<times> scopeStore) list mres" where
  "scopeRoot ns = (case mgrScopes ns of None \<Rightarrow> Inl MgrPanic | Some ss \<Rightarrow> Inr ss)"

definition fetchReadScopeBucket :: "mgrStore \<Rightarrow> keyScope \<Rightarrow> scopeStore mres" where
  "fetchReadScopeBucket ns scope = bindE (scopeRoot ns) (\<lambda>ss.
     case map_of ss (scopeToBytes scope) of
       None \<Rightarrow> Inl (managerError ErrScopeNotFound)
     | Some s \<Rightarrow> Inr s)"

definition fetchWriteScopeBucket :: "mgrStore \<Rightarrow> keyScope \<Rightarrow> scopeStore mres" where
  "fetchWriteScopeBucket ns scope = bindE (scopeRoot ns) (\<lambda>ss.
     case map_of ss (scopeToBytes scope) of
       None \<Rightarrow> Inl (managerError ErrScopeNotFound)
     | Some s \<Rightarrow> Inr s)"

text \<open>The scope bucket changed in place.\<close>

definition setScope :: "keyScope \<Rightarrow> scopeStore \<Rightarrow> mgrStore \<Rightarrow> mgrStore" where
  "setScope scope s ns = ns\<lparr>mgrScopes := map_option (upd_entry (scopeToBytes scope) s) (mgrScopes ns)\<rparr>"

definition scopeAt :: "mgrStore \<Rightarrow> keyScope \<Rightarrow> scopeStore option" where
  "scopeAt ns scope = Option.bind (mgrScopes ns) (\<lambda>ss. map_of ss (scopeToBytes scope))"

lemma fetchScope_eq_Inr [simp]:
  "fetchReadScopeBucket ns scope = Inr s \<longleftrightarrow> scopeAt ns scope = Some s"
  "fetchWriteScopeBucket ns scope = Inr s \<longleftrightarrow> scopeAt ns scope = Some s"
  by (auto simp: fetchReadScopeBucket_def fetchWriteScopeBucket_def scopeRoot_def scopeAt_def
      split: option.splits)

lemma fetchScope_at:
  "scopeAt ns scope = Some s \<Longrightarrow> fetchReadScopeBucket ns scope = Inr s"
  "scopeAt ns scope = Some s \<Longrightarrow> fetchWriteScopeBucket ns scope = Inr s"
  by simp_all

lemma scopeAt_set: "scopeAt ns scope = Some s \<Longrightarrow>
    scopeAt (setScope scope t ns) sc = (if sc = scope then Some t else scopeAt ns sc)"
  by (cases "mgrScopes ns") (auto simp: scopeAt_def setScope_def map_of_upd_entry)

lemma setScope_frame [simp]:
  "mgrMain (setScope scope s ns) = mgrMain ns" "mgrSync (setScope scope s ns) = mgrSync ns"
  "mgrSchema (setScope scope s ns) = mgrSchema ns"
  by (simp_all add: setScope_def)

definition putScope :: "'a mgrEnv_scheme \<Rightarrow> mgrOp \<Rightarrow> mgrErr \<Rightarrow> (scopeStore \<Rightarrow> scopeStore)
    \<Rightarrow> keyScope \<Rightarrow> mgrStore \<Rightarrow> mgrStore mres" where
  "putScope E op e f scope ns = bindE (fetchWriteScopeBucket ns scope) (\<lambda>s.
     bindE (allowed E op e) (\<lambda>_. Inr (setScope scope (f s) ns)))"

lemma putScope_eq_Inr: "putScope E op e f scope ns = Inr ns' \<longleftrightarrow>
    (\<exists>s. scopeAt ns scope = Some s \<and> \<not> mgrFails E op \<and> ns' = setScope scope (f s) ns)"
  by (auto simp: putScope_def)

definition fetchScopeAddrSchema :: "mgrStore \<Rightarrow> keyScope \<Rightarrow> scopeAddrSchema mres" where
  "fetchScopeAddrSchema ns scope = (case mgrSchema ns of
     None \<Rightarrow> Inl (managerError ErrScopeNotFound)
   | Some b \<Rightarrow> (case bucketGet b (scopeToBytes scope) of
       None \<Rightarrow> Inl (managerError ErrScopeNotFound)
     | Some schemaBytes \<Rightarrow> scopeSchemaFromBytes schemaBytes))"

definition fetchCoinTypeKeys :: "mgrStore \<Rightarrow> keyScope \<Rightarrow> (bytes \<times> bytes) mres" where
  "fetchCoinTypeKeys ns scope = bindE (fetchReadScopeBucket ns scope) (\<lambda>s.
     case bucketGet (scKeys s) coinTypePubKeyName of
       None \<Rightarrow> Inl ErrDb
     | Some pub \<Rightarrow> (case bucketGet (scKeys s) coinTypePrivKeyName of
         None \<Rightarrow> Inl ErrDb
       | Some priv \<Rightarrow> Inr (pub, priv)))"

definition putScopeKey :: "'a mgrEnv_scheme \<Rightarrow> keyScope \<Rightarrow> bytes \<Rightarrow> bytes option \<Rightarrow> mgrStore
    \<Rightarrow> mgrStore mres" where
  "putScopeKey E scope k v ns = (case v of
     None \<Rightarrow> Inr ns
   | Some v \<Rightarrow> putScope E (MgrPut (ScopeB (scopeToBytes scope)) k v) ErrDb
       (\<lambda>s. s\<lparr>scKeys := bucketPut (scKeys s) k v\<rparr>) scope ns)"

definition putCoinTypeKeys ::
  "'a mgrEnv_scheme \<Rightarrow> mgrStore \<Rightarrow> keyScope \<Rightarrow> bytes option \<Rightarrow> bytes option \<Rightarrow> mgrStore mres" where
  "putCoinTypeKeys E ns scope pubEnc privEnc = bindE (fetchWriteScopeBucket ns scope) (\<lambda>_.
     bindE (putScopeKey E scope coinTypePubKeyName pubEnc ns)
       (putScopeKey E scope coinTypePrivKeyName privEnc))"

text \<open>The callback carries a state \<open>'s\<close>.\<close>

definition forEachKeyScope ::
  "mgrStore \<Rightarrow> (keyScope \<Rightarrow> 's \<Rightarrow> 's mres) \<Rightarrow> 's \<Rightarrow> 's mres" where
  "forEachKeyScope ns fn st = bindE (scopeRoot ns) (\<lambda>ss.
     foldE (\<lambda>(k, _) st. if length k \<noteq> 8 then Inr st else fn (scopeFromBytes k) st) ss st)"

section \<open>Accounts\<close>

definition forEachAccount ::
  "mgrStore \<Rightarrow> keyScope \<Rightarrow> (u32 \<Rightarrow> 's \<Rightarrow> 's mres) \<Rightarrow> 's \<Rightarrow> 's mres" where
  "forEachAccount ns scope fn st = bindE (fetchReadScopeBucket ns scope) (\<lambda>s.
     foldE (\<lambda>(k, _) st. if length k < 4 then Inl MgrPanic else fn (le32 k) st)
       (entries (scAcct s)) st)"

definition fetchLastAccount :: "mgrStore \<Rightarrow> keyScope \<Rightarrow> u32 mres" where
  "fetchLastAccount ns scope = bindE (fetchReadScopeBucket ns scope) (\<lambda>s.
     case bucketGet (scMeta s) lastAccountName of
       None \<Rightarrow> Inr (- 1)
     | Some val \<Rightarrow> if length val \<noteq> 4 then Inl ErrDb else Inr (le32 val))"

definition fetchAccountName :: "mgrStore \<Rightarrow> keyScope \<Rightarrow> u32 \<Rightarrow> gostring mres" where
  "fetchAccountName ns scope account = bindE (fetchReadScopeBucket ns scope) (\<lambda>s.
     case bucketGet (scIdIdx s) (uint32ToBytes account) of
       None \<Rightarrow> Inl (managerError ErrAccountNotFound)
     | Some val \<Rightarrow> bindE (readBlob val 0) (\<lambda>(name, _). Inr name))"

definition fetchAccountByName :: "mgrStore \<Rightarrow> keyScope \<Rightarrow> gostring \<Rightarrow> u32 mres" where
  "fetchAccountByName ns scope name = bindE (fetchReadScopeBucket ns scope) (\<lambda>s.
     case bucketGet (scNameIdx s) (stringToBytes name) of
       None \<Rightarrow> Inl (managerError ErrAccountNotFound)
     | Some val \<Rightarrow> if length val < 4 then Inl MgrPanic else Inr (le32 val))"

definition fetchAccountInfo :: "mgrStore \<Rightarrow> keyScope \<Rightarrow> u32 \<Rightarrow> acctRowInterface mres" where
  "fetchAccountInfo ns scope account = bindE (fetchReadScopeBucket ns scope) (\<lambda>s.
     case bucketGet (scAcct s) (uint32ToBytes account) of
       None \<Rightarrow> Inl (managerError ErrAccountNotFound)
     | Some serializedRow \<Rightarrow> decodeAccountRow serializedRow)"

definition deleteAccountNameIndex ::
  "'a mgrEnv_scheme \<Rightarrow> mgrStore \<Rightarrow> keyScope \<Rightarrow> gostring \<Rightarrow> mgrStore mres" where
  "deleteAccountNameIndex E ns scope name = (let k = stringToBytes name in
     putScope E (MgrDelete (NameIdxB (scopeToBytes scope)) k) ErrDb
       (\<lambda>s. s\<lparr>scNameIdx := bucketDelete (scNameIdx s) k\<rparr>) scope ns)"

definition deleteAccountIDIndex ::
  "'a mgrEnv_scheme \<Rightarrow> mgrStore \<Rightarrow> keyScope \<Rightarrow> u32 \<Rightarrow> mgrStore mres" where
  "deleteAccountIDIndex E ns scope account = (let k = uint32ToBytes account in
     putScope E (MgrDelete (IdIdxB (scopeToBytes scope)) k) ErrDb
       (\<lambda>s. s\<lparr>scIdIdx := bucketDelete (scIdIdx s) k\<rparr>) scope ns)"

definition putAccountNameIndex ::
  "'a mgrEnv_scheme \<Rightarrow> mgrStore \<Rightarrow> keyScope \<Rightarrow> u32 \<Rightarrow> gostring \<Rightarrow> mgrStore mres" where
  "putAccountNameIndex E ns scope account name =
     (let k = stringToBytes name; v = uint32ToBytes account in
     putScope E (MgrPut (NameIdxB (scopeToBytes scope)) k v) ErrDb
       (\<lambda>s. s\<lparr>scNameIdx := bucketPut (scNameIdx s) k v\<rparr>) scope ns)"

definition putAccountIDIndex ::
  "'a mgrEnv_scheme \<Rightarrow> mgrStore \<Rightarrow> keyScope \<Rightarrow> u32 \<Rightarrow> gostring \<Rightarrow> mgrStore mres" where
  "putAccountIDIndex E ns scope account name =
     (let k = uint32ToBytes account; v = stringToBytes name in
     putScope E (MgrPut (IdIdxB (scopeToBytes scope)) k v) ErrDb
       (\<lambda>s. s\<lparr>scIdIdx := bucketPut (scIdIdx s) k v\<rparr>) scope ns)"

definition putAccountRow ::
  "'a mgrEnv_scheme \<Rightarrow> mgrStore \<Rightarrow> keyScope \<Rightarrow> u32 \<Rightarrow> dbAccountRow \<Rightarrow> mgrStore mres" where
  "putAccountRow E ns scope account row =
     (let k = uint32ToBytes account; v = serializeAccountRow row in
     putScope E (MgrPut (AcctB (scopeToBytes scope)) k v) ErrDb
       (\<lambda>s. s\<lparr>scAcct := bucketPut (scAcct s) k v\<rparr>) scope ns)"

definition putAccountInfo ::
  "'a mgrEnv_scheme \<Rightarrow> mgrStore \<Rightarrow> keyScope \<Rightarrow> u32 \<Rightarrow> dbAccountRow \<Rightarrow> gostring \<Rightarrow> mgrStore mres" where
  "putAccountInfo E ns scope account acctRow name =
     bindE (putAccountRow E ns scope account acctRow) (\<lambda>ns.
     bindE (putAccountIDIndex E ns scope account name) (\<lambda>ns.
     putAccountNameIndex E ns scope account name))"

definition putDefaultAccountInfo :: "'a mgrEnv_scheme \<Rightarrow> mgrStore \<Rightarrow> keyScope \<Rightarrow> u32 \<Rightarrow> bytes
    \<Rightarrow> bytes \<Rightarrow> u32 \<Rightarrow> u32 \<Rightarrow> gostring \<Rightarrow> mgrStore mres" where
  "putDefaultAccountInfo E ns scope account pub priv nextExternal nextInternal name =
     bindE (serializeDefaultAccountRow pub priv nextExternal nextInternal name) (\<lambda>rawData.
     putAccountInfo E ns scope account \<lparr>acctType = accountDefault, acctRawData = rawData\<rparr> name)"

definition putWatchOnlyAccountInfo :: "'a mgrEnv_scheme \<Rightarrow> mgrStore \<Rightarrow> keyScope \<Rightarrow> u32 \<Rightarrow> bytes
    \<Rightarrow> u32 \<Rightarrow> u32 \<Rightarrow> u32 \<Rightarrow> gostring \<Rightarrow> scopeAddrSchema option \<Rightarrow> mgrStore mres" where
  "putWatchOnlyAccountInfo E ns scope account pub fingerprint nextExternal nextInternal name schema =
     (let rawData = serializeWatchOnlyAccountRow pub fingerprint nextExternal nextInternal name schema
      in putAccountInfo E ns scope account
        \<lparr>acctType = accountWatchOnly, acctRawData = rawData\<rparr> name)"

definition putLastAccount :: "'a mgrEnv_scheme \<Rightarrow> mgrStore \<Rightarrow> keyScope \<Rightarrow> u32 \<Rightarrow> mgrStore mres" where
  "putLastAccount E ns scope account =
     putScope E (MgrPut (MetaB (scopeToBytes scope)) lastAccountName (uint32ToBytes account)) ErrDb
       (\<lambda>s. s\<lparr>scMeta := bucketPut (scMeta s) lastAccountName (uint32ToBytes account)\<rparr>) scope ns"

section \<open>Creation\<close>

definition emptyScope :: scopeStore where
  "emptyScope = \<lparr>scKeys = bucketEmpty, scAcct = bucketEmpty, scAddr = bucketEmpty,
     scUsed = bucketEmpty, scAddrAcct = bucketEmpty, scAcctAddrs = [], scNameIdx = bucketEmpty,
     scIdIdx = bucketEmpty, scMeta = bucketEmpty\<rparr>"

definition createScopedManagerNS :: "'a mgrEnv_scheme \<Rightarrow> mgrStore \<Rightarrow> keyScope \<Rightarrow> mgrStore mres" where
  "createScopedManagerNS E ns scope = (let k = scopeToBytes scope in
     bindE (scopeRoot ns) (\<lambda>ss.
     bindE (guardE (map_of ss k = None) ErrDb) (\<lambda>_.
     bindE (foldE (\<lambda>b _. allowed E (MgrCreate b) ErrDb)
       [ScopeB k, AcctB k, AddrB k, UsedB k, AddrAcctB k, NameIdxB k, IdIdxB k, MetaB k] ()) (\<lambda>_.
     Inr (setScope scope emptyScope ns)))))"

definition createTop :: "'a mgrEnv_scheme \<Rightarrow> mbucket \<Rightarrow> bool \<Rightarrow> unit mres" where
  "createTop E b ex = bindE (guardE (\<not> ex) ErrDb) (\<lambda>_. allowed E (MgrCreate b) ErrDb)"

definition createScope :: "'a mgrEnv_scheme \<Rightarrow> keyScope \<times> scopeAddrSchema \<Rightarrow> mgrStore \<Rightarrow> mgrStore mres" where
  "createScope E = (\<lambda>(scope, schema) ns. case mgrSchema ns of
     None \<Rightarrow> Inl MgrPanic
   | Some b \<Rightarrow> (let k = scopeToBytes scope; v = scopeSchemaToBytes schema in
       bindE (allowed E (MgrPut SchemaB k v) MgrDbErr) (\<lambda>_.
       bindE (createScopedManagerNS E (ns\<lparr>mgrSchema := Some (bucketPut b k v)\<rparr>) scope) (\<lambda>ns.
       putLastAccount E ns scope 0))))"

text \<open>\<open>defaultScopes\<close> is the map of the code in the order its iteration visits it.\<close>

definition createManagerNS ::
  "'a mgrEnv_scheme \<Rightarrow> u32 \<Rightarrow> mgrStore \<Rightarrow> (keyScope \<times> scopeAddrSchema) list \<Rightarrow> mgrStore mres" where
  "createManagerNS E latestMgrVersion ns defaultScopes =
     bindE (createTop E MainB (mgrMain ns \<noteq> None)) (\<lambda>_.
     bindE (createTop E SyncB (mgrSync ns \<noteq> None)) (\<lambda>_.
     bindE (createTop E ScopesB (mgrScopes ns \<noteq> None)) (\<lambda>_.
     bindE (createTop E SchemaB (mgrSchema ns \<noteq> None)) (\<lambda>_.
     bindE (foldE (createScope E) defaultScopes
       (ns\<lparr>mgrMain := Some bucketEmpty, mgrSync := Some bucketEmpty,
          mgrScopes := Some [], mgrSchema := Some bucketEmpty\<rparr>)) (\<lambda>ns.
     bindE (putManagerVersion E ns latestMgrVersion) (\<lambda>ns.
     putMain E mgrCreateDateName (putLE64 (timeWord (mgrNow E))) ns))))))"

end
