(* ===== verification/Mgr_Sync.thy ===== *)
theory Mgr_Sync
  imports Mgr_Db
begin

text \<open>
  The sync state of the address manager: the access functions of \<open>waddrmgr/db.go\<close> for the bucket
  \<open>sync\<close> (block hashes by height, the synced-to and start blocks, the birthday), the methods of
  \<open>sync.go\<close> and the migrations of \<open>migrations.go\<close> that work on it.  The bucket mixes 4-byte heights
  and longer names as keys.
\<close>

section \<open>The bucket\<close>

definition syncedToName :: bytes where "syncedToName = ascii ''syncedto''"
definition startBlockName :: bytes where "startBlockName = ascii ''startblock''"
definition birthdayName :: bytes where "birthdayName = ascii ''birthday''"
definition birthdayBlockName :: bytes where "birthdayBlockName = ascii ''birthdayblock''"
definition birthdayBlockVerifiedName :: bytes where
  "birthdayBlockVerifiedName = ascii ''birthdayblockverified''"

lemmas sync_key_defs = syncedToName_def startBlockName_def birthdayName_def birthdayBlockName_def
  birthdayBlockVerifiedName_def

definition syncBucket :: "mgrStore \<Rightarrow> bucket mres" where
  "syncBucket ns = (case mgrSync ns of None \<Rightarrow> Inl MgrPanic | Some b \<Rightarrow> Inr b)"

definition putSync :: "'a mgrEnv_scheme \<Rightarrow> bytes \<Rightarrow> bytes \<Rightarrow> mgrStore \<Rightarrow> mgrStore mres" where
  "putSync E k v ns = bindE (syncBucket ns) (\<lambda>b.
     bindE (allowed E (MgrPut SyncB k v) ErrDb) (\<lambda>_.
     Inr (ns\<lparr>mgrSync := Some (bucketPut b k v)\<rparr>)))"

definition deleteSync :: "'a mgrEnv_scheme \<Rightarrow> bytes \<Rightarrow> mgrStore \<Rightarrow> mgrStore mres" where
  "deleteSync E k ns = bindE (syncBucket ns) (\<lambda>b.
     bindE (allowed E (MgrDelete SyncB k) ErrDb) (\<lambda>_.
     Inr (ns\<lparr>mgrSync := Some (bucketDelete b k)\<rparr>)))"

definition MaxReorgDepth :: height where "MaxReorgDepth = 10000"

definition staleHeight :: "height \<Rightarrow> height" where
  "staleHeight height = height - MaxReorgDepth"

section \<open>Block hashes\<close>

definition fetchBlockHash :: "mgrStore \<Rightarrow> height \<Rightarrow> hash mres" where
  "fetchBlockHash ns height = bindE (syncBucket ns) (\<lambda>b.
     case bucketGet b (putUint32 height) of
       None \<Rightarrow> Inl (managerError ErrBlockNotFound)
     | Some hb \<Rightarrow> if length hb \<noteq> 32 then Inl ErrDb else Inr (hashOf hb))"

definition addBlockHash :: "'a mgrEnv_scheme \<Rightarrow> mgrStore \<Rightarrow> height \<Rightarrow> hash \<Rightarrow> mgrStore mres" where
  "addBlockHash E ns height hash = putSync E (putUint32 height) (hashBytes hash) ns"

definition deleteBlockHash :: "'a mgrEnv_scheme \<Rightarrow> mgrStore \<Rightarrow> height \<Rightarrow> mgrStore mres" where
  "deleteBlockHash E ns height = deleteSync E (putUint32 height) ns"

section \<open>The birthday block\<close>

definition FetchBirthdayBlock :: "mgrStore \<Rightarrow> blockStamp mres" where
  "FetchBirthdayBlock ns = bindE (syncBucket ns) (\<lambda>b.
     case bucketGet b birthdayBlockName of
       None \<Rightarrow> Inl (managerError ErrBirthdayBlockNotSet)
     | Some v \<Rightarrow> if length v \<noteq> 44 then Inl ErrDb
         else Inr \<lparr>stampHeight = uint32_of (slice v 0 4), stampHash = hashOf (slice v 4 36),
           stampTime = wordTime (uint64_of (slice v 36 44))\<rparr>)"

definition PutBirthdayBlock :: "'a mgrEnv_scheme \<Rightarrow> mgrStore \<Rightarrow> blockStamp \<Rightarrow> mgrStore mres" where
  "PutBirthdayBlock E ns block = putSync E birthdayBlockName
     (putUint32 (stampHeight block) @ hashBytes (stampHash block) @ putUint64 (timeWord (stampTime block))) ns"

definition DeleteBirthdayBlock :: "'a mgrEnv_scheme \<Rightarrow> mgrStore \<Rightarrow> mgrStore mres" where
  "DeleteBirthdayBlock E ns = deleteSync E birthdayBlockName ns"

definition fetchBirthdayBlockVerification :: "mgrStore \<Rightarrow> bool mres" where
  "fetchBirthdayBlockVerification ns = bindE (syncBucket ns) (\<lambda>b.
     case bucketGet b birthdayBlockVerifiedName of
       None \<Rightarrow> Inr False
     | Some v \<Rightarrow> if length v < 2 then Inl MgrPanic else Inr (uint16_of v \<noteq> 0))"

definition putBirthdayBlockVerification :: "'a mgrEnv_scheme \<Rightarrow> mgrStore \<Rightarrow> bool \<Rightarrow> mgrStore mres" where
  "putBirthdayBlockVerification E ns verified =
     putSync E birthdayBlockVerifiedName (putUint16 (if verified then 1 else 0)) ns"

definition fetchBirthday :: "mgrStore \<Rightarrow> gotime mres" where
  "fetchBirthday ns = bindE (syncBucket ns) (\<lambda>b.
     let v = orNil (bucketGet b birthdayName) in
     if length v \<noteq> 8 then Inl ErrDb else Inr (wordTime (uint64_of v)))"

definition putBirthday :: "'a mgrEnv_scheme \<Rightarrow> mgrStore \<Rightarrow> gotime \<Rightarrow> mgrStore mres" where
  "putBirthday E ns t = putSync E birthdayName (putUint64 (timeWord t)) ns"

section \<open>Synced-to and start blocks\<close>

definition fetchSyncedTo :: "mgrStore \<Rightarrow> blockStamp mres" where
  "fetchSyncedTo ns = bindE (syncBucket ns) (\<lambda>b.
     let buf = orNil (bucketGet b syncedToName) in
     if length buf < 36 then Inl ErrDb
     else Inr \<lparr>stampHeight = le32 (slice buf 0 4), stampHash = hashOf (slice buf 4 36),
       stampTime = (if length buf = 40 then fromUnix (uint (le32 (drop 36 buf))) else zeroTime)\<rparr>)"

definition updateSyncedTo :: "'a mgrEnv_scheme \<Rightarrow> mgrStore \<Rightarrow> blockStamp \<Rightarrow> mgrStore mres" where
  "updateSyncedTo E ns bs = putSync E syncedToName
     (uint32ToBytes (stampHeight bs) @ hashBytes (stampHash bs)
       @ uint32ToBytes (word_of_int (unixSec (stampTime bs)))) ns"

definition PutSyncedTo :: "'a mgrEnv_scheme \<Rightarrow> mgrStore \<Rightarrow> blockStamp \<Rightarrow> mgrStore mres" where
  "PutSyncedTo E ns bs =
     bindE (if 0 <s stampHeight bs then
         (case FetchBirthdayBlock ns of
            Inl e \<Rightarrow> if e = MgrPanic then Inl e else Inr ()
          | Inr _ \<Rightarrow> (case fetchBlockHash ns (stampHeight bs - 1) of
              Inl e \<Rightarrow> Inl (if e = MgrPanic then e else managerError ErrBlockNotFound)
            | Inr _ \<Rightarrow> Inr ()))
       else Inr ()) (\<lambda>_.
     bindE (addBlockHash E ns (stampHeight bs) (stampHash bs)) (\<lambda>ns.
     let stale = staleHeight (stampHeight bs) in
     bindE (if 0 <s stale then deleteBlockHash E ns stale else Inr ns) (\<lambda>ns.
     updateSyncedTo E ns bs)))"

definition FetchStartBlock :: "mgrStore \<Rightarrow> blockStamp mres" where
  "FetchStartBlock ns = bindE (syncBucket ns) (\<lambda>b.
     let buf = orNil (bucketGet b startBlockName) in
     if length buf \<noteq> 36 then Inl ErrDb
     else Inr \<lparr>stampHeight = le32 (slice buf 0 4), stampHash = hashOf (slice buf 4 36),
       stampTime = zeroTime\<rparr>)"

definition putStartBlock :: "'a mgrEnv_scheme \<Rightarrow> mgrStore \<Rightarrow> blockStamp \<Rightarrow> mgrStore mres" where
  "putStartBlock E ns bs = putSync E startBlockName
     (uint32ToBytes (stampHeight bs) @ hashBytes (stampHash bs)) ns"

section \<open>The manager's sync state\<close>

record syncState =
  startBlock :: blockStamp
  syncedTo :: blockStamp

definition newSyncState :: "blockStamp \<Rightarrow> blockStamp \<Rightarrow> syncState" where
  "newSyncState start synced = \<lparr>startBlock = start, syncedTo = synced\<rparr>"

definition SetSyncedTo ::
  "'a mgrEnv_scheme \<Rightarrow> syncState \<Rightarrow> mgrStore \<Rightarrow> blockStamp option \<Rightarrow> (syncState \<times> mgrStore) mres" where
  "SetSyncedTo E m ns bs = (let bs = (case bs of None \<Rightarrow> startBlock m | Some bs \<Rightarrow> bs) in
     bindE (PutSyncedTo E ns bs) (\<lambda>ns. Inr (m\<lparr>syncedTo := bs\<rparr>, ns)))"

definition SyncedTo :: "syncState \<Rightarrow> blockStamp" where
  "SyncedTo m = syncedTo m"

definition BlockHash :: "mgrStore \<Rightarrow> height \<Rightarrow> hash mres" where
  "BlockHash ns height = fetchBlockHash ns height"

definition SetBirthday :: "'a mgrEnv_scheme \<Rightarrow> mgrStore \<Rightarrow> gotime \<Rightarrow> gotime \<times> mgrStore mres" where
  "SetBirthday E ns birthday = (birthday, putBirthday E ns birthday)"

definition BirthdayBlock :: "mgrStore \<Rightarrow> (blockStamp \<times> bool) mres" where
  "BirthdayBlock ns = bindE (FetchBirthdayBlock ns) (\<lambda>block.
     bindE (fetchBirthdayBlockVerification ns) (\<lambda>verified. Inr (block, verified)))"

definition SetBirthdayBlock :: "'a mgrEnv_scheme \<Rightarrow> mgrStore \<Rightarrow> blockStamp \<Rightarrow> bool \<Rightarrow> mgrStore mres" where
  "SetBirthdayBlock E ns block verified = bindE (PutBirthdayBlock E ns block) (\<lambda>ns.
     putBirthdayBlockVerification E ns verified)"

section \<open>Migrations\<close>

text \<open>
  \<open>genesisTimes\<close> lists the genesis hash and time of each known network (package \<open>chaincfg\<close>).
  \<open>Time.Sub\<close> saturates at the 64-bit nanoseconds of a \<open>Duration\<close>.  The times are whole seconds, so
  the quotient of the code's floating-point division, cut to an \<open>int32\<close>, is the integer quotient
  rounded towards zero.
\<close>

definition quotTrunc :: "int \<Rightarrow> int \<Rightarrow> int" where
  "quotTrunc a b = (if 0 \<le> a then a div b else - ((- a) div b))"

definition estimateHeight :: "gotime \<Rightarrow> gotime \<Rightarrow> height" where
  "estimateHeight birthday genesis = (let d = unixSec birthday - unixSec genesis in
     word_of_int (quotTrunc (max (- 9223372036) (min 9223372036 d)) 600))"

text \<open>One turn of the loop per unit of fuel; \<open>None\<close> when it runs out.\<close>

fun searchBirthday :: "nat \<Rightarrow> mgrStore \<Rightarrow> height \<Rightarrow> (height \<times> hash) mres option" where
  "searchBirthday fuel ns height = (case fetchBlockHash ns height of
     Inr hash \<Rightarrow> Some (Inr (height, hash))
   | Inl e \<Rightarrow> if \<not> IsError e ErrBlockNotFound then Some (Inl e)
       else (case fuel of
         0 \<Rightarrow> None
       | Suc fuel \<Rightarrow> (let height = height - 144 in
           searchBirthday fuel ns (if height <s 0 then 0 else height))))"

definition populateBirthdayBlock ::
  "'a mgrEnv_scheme \<Rightarrow> nat \<Rightarrow> (hash \<times> gotime) list \<Rightarrow> mgrStore \<Rightarrow> mgrStore mres option" where
  "populateBirthdayBlock E fuel genesisTimes ns =
     (case fetchBirthday ns of Inl e \<Rightarrow> Some (Inl (if e = MgrPanic then e else MgrFmtErr))
      | Inr birthday \<Rightarrow>
     (case fetchBlockHash ns 0 of Inl e \<Rightarrow> Some (Inl (if e = MgrPanic then e else MgrFmtErr))
      | Inr genesisHash \<Rightarrow>
     (case map_of genesisTimes genesisHash of None \<Rightarrow> Some (Inl MgrFmtErr)
      | Some genesis \<Rightarrow>
        map_option (\<lambda>r. bindE r (\<lambda>(height, hash). PutBirthdayBlock E ns
          \<lparr>stampHeight = height, stampHash = hash, stampTime = zeroTime\<rparr>))
        (searchBirthday fuel ns (estimateHeight birthday genesis)))))"

definition resetSyncedBlockToBirthday :: "'a mgrEnv_scheme \<Rightarrow> mgrStore \<Rightarrow> mgrStore mres" where
  "resetSyncedBlockToBirthday E ns = (if mgrSync ns = None then Inl MgrFmtErr
     else bindE (FetchBirthdayBlock ns) (PutSyncedTo E ns))"

definition storeMaxReorgDepth :: "'a mgrEnv_scheme \<Rightarrow> mgrStore \<Rightarrow> mgrStore mres" where
  "storeMaxReorgDepth E ns = bindE (fetchSyncedTo ns) (\<lambda>synced.
     let maxStaleHeight = staleHeight (stampHeight synced) in
     if maxStaleHeight <s 1 then Inr ns
     else foldE (\<lambda>height ns. deleteBlockHash E ns (word_of_nat height))
       (rev [1..<Suc (unat maxStaleHeight)]) ns)"

end
