(* ===== verification/Mgr_Chain.thy ===== *)
theory Mgr_Chain
  imports Mgr_Sync
begin

text \<open>
  The sync bucket as a window on the chain.  Blocks are connected and disconnected one at a time,
  as the wallet does (\<open>connectBlock\<close> and \<open>disconnectBlock\<close> of \<open>wallet/chainntfns.go\<close> call
  \<open>SetSyncedTo\<close>); the theorems say which block hashes can be read back after any such history and
  that no step of it fails.
\<close>

section \<open>Effect of \<open>PutSyncedTo\<close>\<close>

text \<open>The names in the bucket have other lengths than the 4 bytes of a height.\<close>

lemma sync_name_lengths [simp]:
  "length syncedToName = 8" "length startBlockName = 10" "length birthdayName = 8"
  "length birthdayBlockName = 13" "length birthdayBlockVerifiedName = 21"
  by (simp_all add: sync_key_defs ascii_def)

lemma height_key_neq [simp]:
  "putUint32 h \<noteq> syncedToName" "putUint32 h \<noteq> birthdayBlockName" "putUint32 h \<noteq> startBlockName"
  "putUint32 h \<noteq> birthdayName" "putUint32 h \<noteq> birthdayBlockVerifiedName"
proof -
  have "putUint32 h \<noteq> k" if "length k \<noteq> 4" for k using that by auto
  then show "putUint32 h \<noteq> syncedToName" "putUint32 h \<noteq> birthdayBlockName"
    "putUint32 h \<noteq> startBlockName" "putUint32 h \<noteq> birthdayName" "putUint32 h \<noteq> birthdayBlockVerifiedName"
    by simp_all
qed

lemma sync_names_distinct [simp]:
  "syncedToName \<noteq> birthdayBlockName" "birthdayBlockName \<noteq> syncedToName"
  "syncedToName \<noteq> birthdayName" "birthdayBlockVerifiedName \<noteq> birthdayBlockName"
  "birthdayBlockName \<noteq> birthdayBlockVerifiedName"
  by (simp_all add: sync_key_defs ascii_def)

definition syncWrite :: "blockStamp \<Rightarrow> bucket \<Rightarrow> bucket" where
  "syncWrite bs b =
     (let b1 = bucketPut b (putUint32 (stampHeight bs)) (hashBytes (stampHash bs));
          stale = staleHeight (stampHeight bs);
          b2 = (if 0 <s stale then bucketDelete b1 (putUint32 stale) else b1) in
      bucketPut b2 syncedToName (uint32ToBytes (stampHeight bs) @ hashBytes (stampHash bs)
        @ uint32ToBytes (word_of_int (unixSec (stampTime bs)))))"

text \<open>The check on the previous block.\<close>

definition linked :: "mgrStore \<Rightarrow> blockStamp \<Rightarrow> bool" where
  "linked ns bs \<longleftrightarrow> 0 <s stampHeight bs \<longrightarrow> (\<exists>bb. FetchBirthdayBlock ns = Inr bb) \<longrightarrow>
     (\<exists>h. fetchBlockHash ns (stampHeight bs - 1) = Inr h)"

lemma FetchBirthdayBlock_no_panic: "mgrSync ns = Some b \<Longrightarrow> FetchBirthdayBlock ns \<noteq> Inl MgrPanic"
  by (auto simp: FetchBirthdayBlock_def syncBucket_def managerError_def ErrDb_def split: option.splits)

lemma PutSyncedTo_effect:
  assumes "mgrSync ns = Some b"
  shows "PutSyncedTo E ns bs = Inr ns' \<Longrightarrow> linked ns bs \<and> ns' = ns\<lparr>mgrSync := Some (syncWrite bs b)\<rparr>"
    and "mgr_db_ok E \<Longrightarrow> linked ns bs \<Longrightarrow> PutSyncedTo E ns bs = Inr (ns\<lparr>mgrSync := Some (syncWrite bs b)\<rparr>)"
proof -
  let ?pre = "(if 0 <s stampHeight bs then
         (case FetchBirthdayBlock ns of
            Inl e \<Rightarrow> if e = MgrPanic then Inl e else Inr ()
          | Inr _ \<Rightarrow> (case fetchBlockHash ns (stampHeight bs - 1) of
              Inl e \<Rightarrow> Inl (if e = MgrPanic then e else managerError ErrBlockNotFound)
            | Inr _ \<Rightarrow> Inr ()))
       else Inr ()) :: unit mres"
  have pre: "?pre = Inr () \<longleftrightarrow> linked ns bs"
    using FetchBirthdayBlock_no_panic[OF assms]
    by (auto simp: linked_def split: sum.splits)
  have sb: "syncBucket ns = Inr b" by (simp add: syncBucket_def assms)
  show "linked ns bs \<and> ns' = ns\<lparr>mgrSync := Some (syncWrite bs b)\<rparr>" if "PutSyncedTo E ns bs = Inr ns'"
    using that pre unfolding PutSyncedTo_def bindE_eq_Inr
    by (auto simp: addBlockHash_def deleteBlockHash_def updateSyncedTo_def putSync_def deleteSync_def
        syncBucket_def assms syncWrite_def Let_def split: if_splits)
  show "PutSyncedTo E ns bs = Inr (ns\<lparr>mgrSync := Some (syncWrite bs b)\<rparr>)"
    if "mgr_db_ok E" "linked ns bs"
  proof -
    have "?pre = Inr ()" using that(2) pre by simp
    then show ?thesis unfolding PutSyncedTo_def
      by (simp add: that(1) addBlockHash_def deleteBlockHash_def updateSyncedTo_def putSync_def
          deleteSync_def syncBucket_def assms syncWrite_def Let_def del: bindE_eq_Inr)
  qed
qed

section \<open>What is read back\<close>

definition hashStored :: "mgrStore \<Rightarrow> nat \<Rightarrow> bytes option" where
  "hashStored ns n = (case mgrSync ns of
     None \<Rightarrow> None
   | Some b \<Rightarrow> bucketGet b (putUint32 (word_of_nat n)))"

lemma height_key_inj: "n < 2 ^ 31 \<Longrightarrow> m < 2 ^ 31 \<Longrightarrow>
    putUint32 (word_of_nat n) = putUint32 (word_of_nat m) \<longleftrightarrow> n = m"
  by (auto simp: word_of_nat_eq_iff take_bit_nat_eq_self)

lemma sint_height: "n < 2 ^ 31 \<Longrightarrow> sint (word_of_nat n :: height) = int n"
  by (simp add: signed_of_nat signed_take_bit_int_eq_self)

lemma height_pos: "n < 2 ^ 31 \<Longrightarrow> 0 <s (word_of_nat n :: height) \<longleftrightarrow> 0 < n"
  by (simp add: word_sless_alt sint_height)

lemma staleHeight_nat: "10000 \<le> n \<Longrightarrow> staleHeight (word_of_nat n) = word_of_nat (n - 10000)"
  by (simp add: staleHeight_def MaxReorgDepth_def of_nat_diff)

lemma stale_pos: "n < 2 ^ 31 \<Longrightarrow> 0 <s staleHeight (word_of_nat n) \<longleftrightarrow> 10000 < n"
proof (cases "10000 \<le> n")
  case True
  assume "n < 2 ^ 31"
  then show ?thesis using True height_pos[of "n - 10000"] by (auto simp: staleHeight_nat)
next
  case False
  have "sint (word_of_int (int n - 10000) :: height) = int n - 10000"
    by (rule trans[OF sint_sbintrunc' signed_take_bit_int_eq_self]) (use False in auto)
  moreover have "staleHeight (word_of_nat n) = word_of_int (int n - 10000)"
    by (simp add: staleHeight_def MaxReorgDepth_def)
  ultimately show ?thesis using False by (simp add: word_sless_alt)
qed

lemma hashStored_write:
  assumes "mgrSync ns = Some b" "stampHeight bs = word_of_nat n" "n < 2 ^ 31" "m < 2 ^ 31"
  shows "hashStored (ns\<lparr>mgrSync := Some (syncWrite bs b)\<rparr>) m
    = (if m = n then Some (hashBytes (stampHash bs))
       else if 10000 < n \<and> m = n - 10000 then None else hashStored ns m)"
proof -
  have k: "putUint32 (word_of_nat m) = putUint32 (word_of_nat n) \<longleftrightarrow> m = n"
    using assms(3,4) by (rule height_key_inj[rotated])
  have d: "putUint32 (word_of_nat m) = putUint32 (staleHeight (word_of_nat n)) \<longleftrightarrow> m = n - 10000"
    if "10000 < n"
    using that height_key_inj[of m "n - 10000"] assms(3,4) staleHeight_nat[of n] by (simp del: of_nat_diff)
  have g: "bucketGet (syncWrite bs b) x = (if 10000 < n \<and> x = putUint32 (staleHeight (word_of_nat n)) then None
      else if x = putUint32 (word_of_nat n) then Some (hashBytes (stampHash bs)) else bucketGet b x)"
    if "x \<noteq> syncedToName" for x
    using that by (simp add: syncWrite_def assms(2) stale_pos[OF assms(3)] Let_def bucketGet_upd)
  have "hashStored (ns\<lparr>mgrSync := Some (syncWrite bs b)\<rparr>) m
      = bucketGet (syncWrite bs b) (putUint32 (word_of_nat m))" by (simp add: hashStored_def)
  also have "\<dots> = (if m = n then Some (hashBytes (stampHash bs))
       else if 10000 < n \<and> m = n - 10000 then None else bucketGet b (putUint32 (word_of_nat m)))"
    using g[OF height_key_neq(1), of "word_of_nat m"] d unfolding k by (cases "10000 < n") auto
  also have "bucketGet b (putUint32 (word_of_nat m)) = hashStored ns m"
    using assms(1) by (simp add: hashStored_def)
  finally show ?thesis .
qed

lemma fetchBlockHash_stored:
  "mgrSync ns = Some b \<Longrightarrow> fetchBlockHash ns (word_of_nat n) = (case hashStored ns n of
     None \<Rightarrow> Inl (managerError ErrBlockNotFound)
   | Some v \<Rightarrow> if length v \<noteq> 32 then Inl ErrDb else Inr (hashOf v))"
  by (simp add: fetchBlockHash_def syncBucket_def hashStored_def)

lemma fetchSyncedTo_write:
  "fetchSyncedTo (ns\<lparr>mgrSync := Some (syncWrite bs b)\<rparr>) = Inr (bs\<lparr>stampTime :=
    fromUnix (uint (word_of_int (unixSec (stampTime bs)) :: u32))\<rparr>)"
proof -
  let ?v = "uint32ToBytes (stampHeight bs) @ hashBytes (stampHash bs)
        @ uint32ToBytes (word_of_int (unixSec (stampTime bs)))"
  have g: "bucketGet (syncWrite bs b) syncedToName = Some ?v"
    by (simp add: syncWrite_def Let_def)
  have "slice ?v 0 4 = uint32ToBytes (stampHeight bs)" "slice ?v 4 36 = hashBytes (stampHash bs)"
    "drop 36 ?v = uint32ToBytes (word_of_int (unixSec (stampTime bs)))" "length ?v = 40"
    by (simp_all add: slice_def)
  then show ?thesis by (simp add: fetchSyncedTo_def syncBucket_def g Let_def)
qed

section \<open>The window\<close>

text \<open>
  The chain followed so far is \<open>c\<close>, its first block at height \<open>base\<close>; \<open>peak\<close> is the greatest height
  ever reached.  The hashes kept are those of the last \<open>MaxReorgDepth\<close> heights below \<open>peak\<close>, and the
  genesis block's.
\<close>

definition kept :: "nat \<Rightarrow> nat \<Rightarrow> bool" where
  "kept peak n \<longleftrightarrow> n \<le> peak \<and> (n = 0 \<or> peak < n + 10000)"

definition window :: "nat \<Rightarrow> mgrStore \<Rightarrow> hash list \<Rightarrow> nat \<Rightarrow> bool" where
  "window base ns c peak \<longleftrightarrow> mgrSync ns \<noteq> None \<and> c \<noteq> [] \<and> peak < 2 ^ 31
     \<and> base + length c \<le> Suc peak \<and> kept peak (base + length c - 1) \<and> peak < base + length c + 10000
     \<and> (\<forall>n. base \<le> n \<and> n < base + length c \<and> kept peak n \<longrightarrow>
          hashStored ns n = Some (hashBytes (c ! (n - base))))
     \<and> (\<forall>n < 2 ^ 31. hashStored ns n \<noteq> None \<longrightarrow> base \<le> n \<and> kept peak n)"

lemma windowD:
  assumes "window base ns c peak"
  shows "mgrSync ns \<noteq> None" "c \<noteq> []" "peak < 2 ^ 31" "base + length c \<le> Suc peak"
    "kept peak (base + length c - 1)" "peak < base + length c + 10000"
    "base \<le> n \<Longrightarrow> n < base + length c \<Longrightarrow> kept peak n \<Longrightarrow>
      hashStored ns n = Some (hashBytes (c ! (n - base)))"
    "n < 2 ^ 31 \<Longrightarrow> hashStored ns n \<noteq> None \<Longrightarrow> base \<le> n"
    "n < 2 ^ 31 \<Longrightarrow> hashStored ns n \<noteq> None \<Longrightarrow> kept peak n"
  using assms unfolding window_def by blast+

lemma windowI:
  assumes "mgrSync ns \<noteq> None" "c \<noteq> []" "peak < 2 ^ 31" "base + length c \<le> Suc peak"
    "kept peak (base + length c - 1)" "peak < base + length c + 10000"
    "\<And>n. base \<le> n \<Longrightarrow> n < base + length c \<Longrightarrow> kept peak n \<Longrightarrow>
      hashStored ns n = Some (hashBytes (c ! (n - base)))"
    "\<And>n. n < 2 ^ 31 \<Longrightarrow> hashStored ns n \<noteq> None \<Longrightarrow> base \<le> n \<and> kept peak n"
  shows "window base ns c peak"
  using assms unfolding window_def by blast

lemma window_start:
  assumes "mgrSync ns = Some b" "\<And>n. n < 2 ^ 31 \<Longrightarrow> hashStored ns n = None"
    and "stampHeight bs = word_of_nat base" "base < 2 ^ 31"
  shows "window base (ns\<lparr>mgrSync := Some (syncWrite bs b)\<rparr>) [stampHash bs] base"
  using assms(2,4) hashStored_write[OF assms(1,3,4)]
  by (auto simp: window_def kept_def split: if_splits)

lemma window_stored:
  assumes w: "window base ns c peak" and n: "base \<le> n" "n < base + length c" "kept peak n"
  shows "fetchBlockHash ns (word_of_nat n) = Inr (c ! (n - base))"
proof -
  obtain b where b: "mgrSync ns = Some b" using windowD(1)[OF w] by blast
  have "hashStored ns n = Some (hashBytes (c ! (n - base)))" by (rule windowD(7)[OF w n])
  then show ?thesis by (simp add: fetchBlockHash_stored[OF b])
qed

lemma window_absent:
  assumes w: "window base ns c peak" and n: "n < 2 ^ 31" "n < base \<or> \<not> kept peak n"
  shows "fetchBlockHash ns (word_of_nat n) = Inl (managerError ErrBlockNotFound)"
proof -
  obtain b where b: "mgrSync ns = Some b" using windowD(1)[OF w] by blast
  have "hashStored ns n = None" using windowD(8,9)[OF w n(1)] n(2) by force
  then show ?thesis by (simp add: fetchBlockHash_stored[OF b])
qed

lemma window_connect:
  assumes w: "window base ns c peak" and b: "mgrSync ns = Some b"
    and h: "stampHeight bs = word_of_nat (base + length c)" "base + length c < 2 ^ 31"
  shows "linked ns bs"
    and "window base (ns\<lparr>mgrSync := Some (syncWrite bs b)\<rparr>) (c @ [stampHash bs]) (max peak (base + length c))"
proof -
  let ?n = "base + length c" and ?c = "c @ [stampHash bs]"
  let ?ns = "ns\<lparr>mgrSync := Some (syncWrite bs b)\<rparr>" and ?p = "max peak (base + length c)"
  note wd = windowD[OF w]
  have lc: "Suc 0 \<le> length c" using wd(2) by (cases c) auto
  have "fetchBlockHash ns (word_of_nat (?n - 1)) = Inr (c ! (?n - 1 - base))"
    by (rule window_stored[OF w]) (use lc wd(5) in auto)
  moreover have "stampHeight bs - 1 = word_of_nat (?n - 1)" using lc h(1) by (cases ?n) auto
  ultimately show "linked ns bs" by (simp add: linked_def)
  have st: "hashStored ?ns m = (if m = ?n then Some (hashBytes (stampHash bs))
       else if 10000 < ?n \<and> m = ?n - 10000 then None else hashStored ns m)" if "m < 2 ^ 31" for m
    by (rule hashStored_write[OF b h that])
  have np: "?n \<le> ?p" "?p \<le> Suc peak" using wd(4) by auto
  show "window base ?ns ?c ?p"
  proof (rule windowI)
    show "?p < 2 ^ 31" using wd(3) h(2) by simp
    show "base + length ?c \<le> Suc ?p" by simp
    show "kept ?p (base + length ?c - 1)" using wd(4,6) by (auto simp: kept_def)
    show "?p < base + length ?c + 10000" using wd(6) by simp
  next
    fix n assume n: "base \<le> n" "n < base + length ?c" "kept ?p n"
    show "hashStored ?ns n = Some (hashBytes (?c ! (n - base)))"
    proof (cases "n = ?n")
      case True
      then show ?thesis using st[of n] h(2) by simp
    next
      case False
      with n have lt: "n < ?n" by simp
      then have "kept peak n" using n(3) wd(4) by (auto simp: kept_def)
      then have "hashStored ns n = Some (hashBytes (c ! (n - base)))" by (rule wd(7)[OF n(1) lt])
      moreover have "\<not> (10000 < ?n \<and> n = ?n - 10000)" using n(3) np(1) by (auto simp: kept_def)
      moreover have "?c ! (n - base) = c ! (n - base)"
        using lt n(1) less_diff_conv2[of base n "length c"] by (simp add: nth_append add.commute)
      ultimately show ?thesis using st[of n] lt h(2) by (simp del: nth_append_length)
    qed
  next
    fix n assume n: "n < 2 ^ 31" "hashStored ?ns n \<noteq> None"
    show "base \<le> n \<and> kept ?p n"
    proof (cases "n = ?n")
      case True
      then show ?thesis using wd(6) by (auto simp: kept_def)
    next
      case False
      then have "hashStored ns n \<noteq> None" and s: "10000 < ?n \<longrightarrow> n \<noteq> ?n - 10000"
        using n(2) unfolding st[OF n(1)] by (auto split: if_splits)
      then have "base \<le> n" "kept peak n" using wd(8,9) n(1) by blast+
      then show ?thesis using s np by (auto simp: kept_def)
    qed
  qed simp_all
qed

text \<open>Back to the block at \<open>base + j\<close>, under the hash of the stamp.\<close>

lemma window_rewind:
  assumes w: "window base ns c peak" and b: "mgrSync ns = Some b" and j: "j < length c"
    and h: "stampHeight bs = word_of_nat (base + j)"
    and k: "kept peak (base + j)" "peak \<le> base + j + 10000"
  shows "window base (ns\<lparr>mgrSync := Some (syncWrite bs b)\<rparr>) (take j c @ [stampHash bs]) peak"
proof -
  let ?n = "base + j" and ?ns = "ns\<lparr>mgrSync := Some (syncWrite bs b)\<rparr>" and ?c = "take j c @ [stampHash bs]"
  note wd = windowD[OF w]
  have n: "?n < 2 ^ 31" "?n \<le> peak" using wd(3,4) j by auto
  have lb: "base + length ?c = Suc ?n" using j by simp
  have st: "hashStored ?ns m = (if m = ?n then Some (hashBytes (stampHash bs))
       else if 10000 < ?n \<and> m = ?n - 10000 then None else hashStored ns m)" if "m < 2 ^ 31" for m
    by (rule hashStored_write[OF b h n(1) that])
  show ?thesis
  proof (rule windowI)
    show "base + length ?c \<le> Suc peak" unfolding lb using n(2) by simp
    show "kept peak (base + length ?c - 1)" unfolding lb using k by simp
    show "peak < base + length ?c + 10000" unfolding lb using k(2) by simp
  next
    fix m assume m: "base \<le> m" "m < base + length ?c" "kept peak m"
    have lt: "m < base + length c" "m < 2 ^ 31" using m(2) n(1) j unfolding lb by auto
    have "hashStored ns m = Some (hashBytes (c ! (m - base)))" by (rule wd(7)[OF m(1) lt(1) m(3)])
    moreover have "\<not> (10000 < ?n \<and> m = ?n - 10000)" using m(3) n(2) by (auto simp: kept_def)
    moreover have "?c ! (m - base) = (if m = ?n then stampHash bs else c ! (m - base))"
      using m(1,2) j unfolding lb by (auto simp: nth_append)
    ultimately show "hashStored ?ns m = Some (hashBytes (?c ! (m - base)))" unfolding st[OF lt(2)] by auto
  next
    fix m assume m: "m < 2 ^ 31" "hashStored ?ns m \<noteq> None"
    show "base \<le> m \<and> kept peak m"
    proof (cases "m = ?n")
      case True
      then show ?thesis using k by simp
    next
      case False
      then have "hashStored ns m \<noteq> None" using m(2) unfolding st[OF m(1)] by (auto split: if_splits)
      then show ?thesis using wd(8,9) m(1) by blast
    qed
  qed (use wd(3) in simp_all)
qed

text \<open>The check on the previous block when going back.\<close>

lemma window_linked:
  assumes w: "window base ns c peak" and j: "j < length c"
    and h: "stampHeight bs = word_of_nat (base + j)"
    and p: "FetchBirthdayBlock ns = Inl e \<or> base + j = 0 \<or> 0 < j \<and> kept peak (base + j - 1)"
  shows "linked ns bs"
proof (cases "FetchBirthdayBlock ns = Inl e \<or> base + j = 0")
  case True
  then show ?thesis by (auto simp: linked_def h)
next
  case False
  with p have p: "0 < j" "kept peak (base + j - 1)" by auto
  have "fetchBlockHash ns (word_of_nat (base + j - 1)) = Inr (c ! (base + j - 1 - base))"
    by (rule window_stored[OF w]) (use p j in auto)
  moreover have "stampHeight bs - 1 = word_of_nat (base + j - 1)" using p(1) h by (cases j) auto
  ultimately show ?thesis by (simp add: linked_def)
qed

end
