(* ===== verification/Wallet_Chain.thy ===== *)
theory Wallet_Chain
  imports Mgr_Chain Store_Steps
begin

text \<open>
  Following the chain: \<open>connectBlock\<close> and \<open>disconnectBlock\<close> of \<open>wallet/chainntfns.go\<close>, which move
  the address manager's sync state and roll the transaction store back together.  A state of the
  machine below is the wallet with the chain it follows and the hashes it has recorded for it; its steps
  are the two handlers and the operations of the transaction store.  The stamp that \<open>disconnectBlock\<close>
  syncs back to has no hash, so going back to a block records the zero hash for it, and the block can then
  not be disconnected itself.  Notifications to clients are left out;
  \<open>header\<close> stands for the chain client's \<open>GetBlockHeader\<close>, of which only the time is used.
\<close>

section \<open>The handlers\<close>

datatype backendErr = ErrTxAlreadyInMempool | ErrTxAlreadyKnown | ErrTxAlreadyConfirmed | ErrRejected nat

datatype walletErr = AddrErr mgrErr | TxErr goerr | ClientErr | BackendErr backendErr | ErrNoChainClient
  | ErrUnknownTransaction | ErrTxLabelExists | OtherErr

definition liftAddr :: "'a mres \<Rightarrow> walletErr + 'a" where
  "liftAddr m = (case m of Inl e \<Rightarrow> Inl (AddrErr e) | Inr x \<Rightarrow> Inr x)"

definition liftTx :: "'a res \<Rightarrow> walletErr + 'a" where
  "liftTx m = (case m of Inl e \<Rightarrow> Inl (TxErr e) | Inr x \<Rightarrow> Inr x)"

lemma lift_simps [simp]:
  "liftAddr (Inl e) = Inl (AddrErr e)" "liftAddr (Inr x) = Inr x"
  "liftTx (Inl e') = Inl (TxErr e')" "liftTx (Inr y) = Inr y"
  by (simp_all add: liftAddr_def liftTx_def)

lemma lift_eq_Inr [simp]: "liftAddr m = Inr x \<longleftrightarrow> m = Inr x" "liftTx m' = Inr y \<longleftrightarrow> m' = Inr y"
  by (cases m; simp) (cases m'; simp)

record walletChain =
  wSync :: syncState
  wAddrNs :: mgrStore
  wTxNs :: store
  wChainSynced :: bool

definition connectBlock :: "'a mgrEnv_scheme \<Rightarrow> walletChain \<Rightarrow> blockMeta \<Rightarrow> walletErr + walletChain" where
  "connectBlock E w b =
     (let bs = \<lparr>stampHeight = bHeight (metaBlock b), stampHash = bHash (metaBlock b), stampTime = metaTime b\<rparr> in
      bindE (liftAddr (SetSyncedTo E (wSync w) (wAddrNs w) (Some bs))) (\<lambda>(m, ns).
      Inr (w\<lparr>wSync := m, wAddrNs := ns\<rparr>)))"

definition disconnectBlock :: "'a mgrEnv_scheme \<Rightarrow> env \<Rightarrow> (hash \<Rightarrow> gotime option) \<Rightarrow> walletChain
    \<Rightarrow> blockMeta \<Rightarrow> walletErr + walletChain" where
  "disconnectBlock E T header w b = (let height = bHeight (metaBlock b) in
     if \<not> wChainSynced w then Inr w
     else if height \<le>s stampHeight (SyncedTo (wSync w)) then
       bindE (liftAddr (BlockHash (wAddrNs w) height)) (\<lambda>hash.
       if hash = bHash (metaBlock b) then
         bindE (liftAddr (BlockHash (wAddrNs w) (height - 1))) (\<lambda>hash.
         case header hash of
           None \<Rightarrow> Inl ClientErr
         | Some t \<Rightarrow>
             (let bs = \<lparr>stampHeight = height - 1, stampHash = 0, stampTime = t\<rparr> in
             bindE (liftAddr (SetSyncedTo E (wSync w) (wAddrNs w) (Some bs))) (\<lambda>(m, ns).
             bindE (liftTx (Rollback T (wTxNs w) height)) (\<lambda>tx.
             Inr (w\<lparr>wSync := m, wAddrNs := ns, wTxNs := tx\<rparr>)))))
       else Inr w)
     else Inr w)"

section \<open>The machine\<close>

text \<open>The wallet, the blocks of its chain, the hashes it has for them, the greatest height reached, and
  the mined and unmined transactions.\<close>

type_synonym following = "walletChain \<times> hash list \<times> hash list \<times> nat \<times> minedMap \<times> txMap"

text \<open>A step of the transaction store mines nothing outside the tip.\<close>

definition mines_at_tip :: "nat \<Rightarrow> hash list \<Rightarrow> minedMap \<Rightarrow> minedMap \<Rightarrow> bool" where
  "mines_at_tip base c M M' \<longleftrightarrow> (\<forall>h b tx. M' h = Some (b, tx) \<longrightarrow> M h = Some (b, tx)
     \<or> (bHeight b = word_of_nat (base + length c - 1) \<and> bHash b = last c))"

text \<open>
  A block is connected on top of the chain.  Disconnecting the block at height \<open>base + Suc j\<close>, whose recorded
  hash must be that of the block, goes back to the one at \<open>base + j\<close>, whose record must still be kept.  A block
  beyond the tip, or with another hash than the recorded one, is ignored.
\<close>

inductive follow_step :: "'a mgrEnv_scheme \<Rightarrow> env \<Rightarrow> (hash \<Rightarrow> nat) \<Rightarrow> (hash \<Rightarrow> gotime option) \<Rightarrow> nat
    \<Rightarrow> following \<Rightarrow> following \<Rightarrow> bool" for E T r header base where
  follow_connect: "bHeight (metaBlock b) = word_of_nat (base + length c) \<Longrightarrow> base + length c < 2 ^ 31
    \<Longrightarrow> connectBlock E w b = Inr w'
    \<Longrightarrow> follow_step E T r header base (w, c, d, peak, M, U)
          (w', c @ [bHash (metaBlock b)], d @ [bHash (metaBlock b)], max peak (base + length c), M, U)"
| follow_disconnect: "bHeight (metaBlock b) = word_of_nat (base + Suc j) \<Longrightarrow> Suc j < length c
    \<Longrightarrow> bHash (metaBlock b) = d ! Suc j \<Longrightarrow> kept peak (base + j) \<Longrightarrow> peak \<le> base + j + 10000
    \<Longrightarrow> disconnectBlock E T header w b = Inr w'
    \<Longrightarrow> follow_step E T r header base (w, c, d, peak, M, U)
          (w', take (Suc j) c, take j d @ [0], peak, M |` (- detached M (bHeight (metaBlock b))),
           rolledUnmined T (wTxNs w) M U (bHeight (metaBlock b)))"
| follow_ignored: "bHeight (metaBlock b) = word_of_nat (base + n) \<Longrightarrow> base + n < 2 ^ 31
    \<Longrightarrow> length c \<le> n \<or> kept peak (base + n) \<and> bHash (metaBlock b) \<noteq> d ! n
    \<Longrightarrow> disconnectBlock E T header w b = Inr w'
    \<Longrightarrow> follow_step E T r header base (w, c, d, peak, M, U) (w', c, d, peak, M, U)"
| follow_store: "store_step T r (wTxNs w, M, U) (ns', M', U') \<Longrightarrow> mines_at_tip base c M M'
    \<Longrightarrow> follow_step E T r header base (w, c, d, peak, M, U) (w\<lparr>wTxNs := ns'\<rparr>, c, d, peak, M', U')"

text \<open>What is recorded of a block is its hash, or zero.\<close>

definition recorded_hashes :: "hash list \<Rightarrow> hash list \<Rightarrow> bool" where
  "recorded_hashes c d \<longleftrightarrow> length d = length c \<and> (\<forall>n < length c. d ! n = c ! n \<or> d ! n = 0)"

definition on_chain :: "nat \<Rightarrow> hash list \<Rightarrow> minedMap \<Rightarrow> bool" where
  "on_chain base c M \<longleftrightarrow> (\<forall>h b tx. M h = Some (b, tx) \<longrightarrow>
     (\<exists>n. n < length c \<and> bHeight b = word_of_nat (base + n) \<and> bHash b = c ! n))"

definition follow_inv :: "env \<Rightarrow> (hash \<Rightarrow> nat) \<Rightarrow> nat \<Rightarrow> following \<Rightarrow> bool" where
  "follow_inv T r base = (\<lambda>(w, c, d, peak, M, U). window base (wAddrNs w) d peak
     \<and> stampHeight (SyncedTo (wSync w)) = word_of_nat (base + length c - 1)
     \<and> stampHash (SyncedTo (wSync w)) = last d
     \<and> wChainSynced w \<and> wallet_inv T r (wTxNs w) M U \<and> on_chain base c M \<and> recorded_hashes c d)"

lemma follow_invD:
  assumes "follow_inv T r base (w, c, d, peak, M, U)"
  shows "window base (wAddrNs w) d peak"
    "stampHeight (SyncedTo (wSync w)) = word_of_nat (base + length c - 1)"
    "stampHash (SyncedTo (wSync w)) = last d" "wChainSynced w"
    "wallet_inv T r (wTxNs w) M U" "on_chain base c M" "recorded_hashes c d" "length d = length c"
  using assms unfolding follow_inv_def prod.case recorded_hashes_def by blast+

lemma follow_invI:
  assumes "window base (wAddrNs w) d peak"
    "stampHeight (SyncedTo (wSync w)) = word_of_nat (base + length c - 1)"
    "stampHash (SyncedTo (wSync w)) = last d" "wChainSynced w"
    "wallet_inv T r (wTxNs w) M U" "on_chain base c M" "recorded_hashes c d"
  shows "follow_inv T r base (w, c, d, peak, M, U)"
  using assms unfolding follow_inv_def prod.case by blast

lemma window_sync: "window base ns c peak \<Longrightarrow> \<exists>b. mgrSync ns = Some b"
  using windowD(1) by blast

section \<open>Connecting\<close>

lemma connectBlock_effect:
  assumes w: "window base (wAddrNs w) c peak" and b: "mgrSync (wAddrNs w) = Some sb"
    and h: "bHeight (metaBlock b) = word_of_nat (base + length c)" "base + length c < 2 ^ 31"
  defines "bs \<equiv> \<lparr>stampHeight = bHeight (metaBlock b), stampHash = bHash (metaBlock b), stampTime = metaTime b\<rparr>"
  shows "connectBlock E w b = Inr w' \<Longrightarrow> w' = w\<lparr>wSync := (wSync w)\<lparr>syncedTo := bs\<rparr>,
      wAddrNs := (wAddrNs w)\<lparr>mgrSync := Some (syncWrite bs sb)\<rparr>\<rparr>"
    and "mgr_db_ok E \<Longrightarrow> \<exists>w'. connectBlock E w b = Inr w'"
proof -
  have l: "linked (wAddrNs w) bs" by (rule window_connect(1)[OF w b]) (use h in \<open>simp_all add: bs_def\<close>)
  show "w' = w\<lparr>wSync := (wSync w)\<lparr>syncedTo := bs\<rparr>,
      wAddrNs := (wAddrNs w)\<lparr>mgrSync := Some (syncWrite bs sb)\<rparr>\<rparr>" if "connectBlock E w b = Inr w'"
    using that PutSyncedTo_effect(1)[OF b]
    by (auto simp: connectBlock_def SetSyncedTo_def Let_def bs_def)
  show "\<exists>w'. connectBlock E w b = Inr w'" if "mgr_db_ok E"
    using PutSyncedTo_effect(2)[OF b that l]
    by (simp add: connectBlock_def SetSyncedTo_def Let_def bs_def)
qed

lemma on_chain_append: "on_chain base c M \<Longrightarrow> on_chain base (c @ [h]) M"
  by (fastforce simp: on_chain_def nth_append)

lemma recorded_append: "recorded_hashes c d \<Longrightarrow> recorded_hashes (c @ [h]) (d @ [h])"
  by (simp add: recorded_hashes_def nth_append less_Suc_eq)

lemma recorded_back: "recorded_hashes c d \<Longrightarrow> j < length c \<Longrightarrow> recorded_hashes (take (Suc j) c) (take j d @ [0])"
  by (simp add: recorded_hashes_def nth_append less_Suc_eq)

lemma connect_inv:
  assumes inv: "follow_inv T r base (w, c, d, peak, M, U)"
    and h: "bHeight (metaBlock b) = word_of_nat (base + length c)" "base + length c < 2 ^ 31"
    and res: "connectBlock E w b = Inr w'"
  shows "follow_inv T r base (w', c @ [bHash (metaBlock b)], d @ [bHash (metaBlock b)], max peak (base + length c), M, U)"
proof -
  note iv = follow_invD[OF inv]
  obtain sb where sb: "mgrSync (wAddrNs w) = Some sb" using window_sync[OF iv(1)] by blast
  let ?bs = "\<lparr>stampHeight = bHeight (metaBlock b), stampHash = bHash (metaBlock b), stampTime = metaTime b\<rparr>"
  have w': "w' = w\<lparr>wSync := (wSync w)\<lparr>syncedTo := ?bs\<rparr>,
      wAddrNs := (wAddrNs w)\<lparr>mgrSync := Some (syncWrite ?bs sb)\<rparr>\<rparr>"
    by (rule connectBlock_effect(1)[OF iv(1) sb _ _ res]) (use h iv(8) in simp_all)
  have "window base ((wAddrNs w)\<lparr>mgrSync := Some (syncWrite ?bs sb)\<rparr>)
      (d @ [stampHash ?bs]) (max peak (base + length d))"
    by (rule window_connect(2)[OF iv(1) sb]) (use h iv(8) in simp_all)
  then show ?thesis
    by (intro follow_invI) (use iv h in \<open>simp_all add: w' SyncedTo_def on_chain_append recorded_append\<close>)
qed

section \<open>Disconnecting\<close>

lemma kept_Suc: "kept peak (base + j) \<Longrightarrow> peak \<le> base + j + 10000 \<Longrightarrow> base + j < peak \<Longrightarrow> kept peak (base + Suc j)"
  by (auto simp: kept_def)

lemma height_le: "m < 2 ^ 31 \<Longrightarrow> n < 2 ^ 31 \<Longrightarrow> (word_of_nat m :: height) \<le>s word_of_nat n \<longleftrightarrow> m \<le> n"
  by (simp add: word_sle_eq sint_height)

lemma height_less: "m < 2 ^ 31 \<Longrightarrow> n < 2 ^ 31 \<Longrightarrow> (word_of_nat m :: height) <s word_of_nat n \<longleftrightarrow> m < n"
  by (simp add: word_sless_alt sint_height)

definition backTo :: "walletChain \<Rightarrow> blockStamp \<Rightarrow> bucket \<Rightarrow> store \<Rightarrow> walletChain" where
  "backTo w bs sb tx = w\<lparr>wSync := (wSync w)\<lparr>syncedTo := bs\<rparr>,
     wAddrNs := (wAddrNs w)\<lparr>mgrSync := Some (syncWrite bs sb)\<rparr>, wTxNs := tx\<rparr>"

lemma disconnectBlock_effect:
  assumes inv: "follow_inv T r base (w, c, d, peak, M, U)"
    and h: "bHeight (metaBlock b) = word_of_nat (base + Suc j)" "Suc j < length c"
      "bHash (metaBlock b) = d ! Suc j"
    and k: "kept peak (base + j)" "peak \<le> base + j + 10000"
    and sb: "mgrSync (wAddrNs w) = Some sb"
  shows "disconnectBlock E T header w b = Inr w' \<Longrightarrow> \<exists>t tx. header (d ! j) = Some t
      \<and> Rollback T (wTxNs w) (bHeight (metaBlock b)) = Inr tx
      \<and> w' = backTo w \<lparr>stampHeight = word_of_nat (base + j), stampHash = 0, stampTime = t\<rparr> sb tx"
    and "mgr_db_ok E \<Longrightarrow> db_ok T \<Longrightarrow> header (d ! j) = Some t \<Longrightarrow>
      FetchBirthdayBlock (wAddrNs w) = Inl e \<or> base + j = 0 \<or> 0 < j \<and> kept peak (base + j - 1) \<Longrightarrow>
      \<exists>w'. disconnectBlock E T header w b = Inr w'"
proof -
  note iv = follow_invD[OF inv] and wd = windowD[OF follow_invD(1)[OF inv]]
  have lj: "Suc j < length d" "j < length d" using h(2) iv(8) by simp_all
  let ?h = "bHeight (metaBlock b)"
  have n: "base + Suc j < 2 ^ 31" "base + length c - 1 < 2 ^ 31" "base + Suc j \<le> peak"
    using wd(3,4) h(2) iv(8) by auto
  have le: "?h \<le>s stampHeight (SyncedTo (wSync w))"
    unfolding h(1) iv(2) using height_le[OF n(1,2)] h(2) by auto
  have h1: "?h - 1 = word_of_nat (base + j)" by (simp add: h(1))
  have k': "kept peak (base + Suc j)" by (rule kept_Suc[OF k]) (use n(3) in simp)
  have g: "BlockHash (wAddrNs w) ?h = Inr (d ! Suc j)" "BlockHash (wAddrNs w) (?h - 1) = Inr (d ! j)"
    using window_stored[OF iv(1), of "base + Suc j"] window_stored[OF iv(1), of "base + j"] k' k(1) lj
    unfolding BlockHash_def h1 unfolding h(1) by auto
  have g2: "BlockHash (wAddrNs w) (word_of_nat base + word_of_nat j) = Inr (d ! j)"
    using g(2) h1 by simp
  let ?bs = "\<lambda>t. \<lparr>stampHeight = word_of_nat (base + j), stampHash = 0, stampTime = t\<rparr>"
  have run: "disconnectBlock E T header w b = (case header (d ! j) of None \<Rightarrow> Inl ClientErr
     | Some t \<Rightarrow> bindE (liftAddr (SetSyncedTo E (wSync w) (wAddrNs w) (Some (?bs t)))) (\<lambda>(m, ns).
         bindE (liftTx (Rollback T (wTxNs w) ?h)) (\<lambda>tx.
         Inr (w\<lparr>wSync := m, wAddrNs := ns, wTxNs := tx\<rparr>))))"
    using iv(4) le by (simp add: disconnectBlock_def Let_def g g2 h(3) h1 del: bindE_eq_Inr cong: option.case_cong)
  show "\<exists>t tx. header (d ! j) = Some t \<and> Rollback T (wTxNs w) ?h = Inr tx
      \<and> w' = backTo w (?bs t) sb tx" if "disconnectBlock E T header w b = Inr w'"
    using that PutSyncedTo_effect(1)[OF sb] unfolding run
    by (auto simp: SetSyncedTo_def Let_def backTo_def split: option.splits)
  show "\<exists>w'. disconnectBlock E T header w b = Inr w'" if ok: "mgr_db_ok E" "db_ok T" "header (d ! j) = Some t"
    "FetchBirthdayBlock (wAddrNs w) = Inl e \<or> base + j = 0 \<or> 0 < j \<and> kept peak (base + j - 1)"
  proof -
    have "linked (wAddrNs w) (?bs t)" by (rule window_linked[OF iv(1) _ _ ok(4)]) (use lj in simp_all)
    moreover obtain tx where "Rollback T (wTxNs w) ?h = Inr tx" using Rollback_spec[OF ok(2) iv(5)] by blast
    ultimately show ?thesis unfolding run
      using PutSyncedTo_effect(2)[OF sb ok(1)] by (simp add: ok(3) SetSyncedTo_def Let_def)
  qed
qed

lemma on_chain_rewind:
  assumes "on_chain base c M" "base + length c \<le> 2 ^ 31" "Suc j < length c"
  shows "on_chain base (take (Suc j) c) (M |` (- detached M (word_of_nat (base + Suc j))))"
  unfolding on_chain_def
proof (intro allI impI)
  fix h b tx
  assume "(M |` (- detached M (word_of_nat (base + Suc j)))) h = Some (b, tx)"
  then have m: "M h = Some (b, tx)" "bHeight b <s word_of_nat (base + Suc j)"
    by (auto simp: restrict_map_def detached_def split: if_splits)
  obtain n where n: "n < length c" "bHeight b = word_of_nat (base + n)" "bHash b = c ! n"
    using assms(1) m(1) unfolding on_chain_def by blast
  have "n < Suc j" using m(2) n assms(2,3) height_less[of "base + n" "base + Suc j"] by simp
  then show "\<exists>n < length (take (Suc j) c). bHeight b = word_of_nat (base + n) \<and> bHash b = take (Suc j) c ! n"
    using n by (intro exI[of _ n]) simp
qed

lemma disconnect_inv:
  assumes db: "db_ok T" and inv: "follow_inv T r base (w, c, d, peak, M, U)"
    and h: "bHeight (metaBlock b) = word_of_nat (base + Suc j)" "Suc j < length c"
      "bHash (metaBlock b) = d ! Suc j"
    and k: "kept peak (base + j)" "peak \<le> base + j + 10000"
    and res: "disconnectBlock E T header w b = Inr w'"
  shows "follow_inv T r base (w', take (Suc j) c, take j d @ [0], peak,
    M |` (- detached M (bHeight (metaBlock b))), rolledUnmined T (wTxNs w) M U (bHeight (metaBlock b)))"
proof -
  note iv = follow_invD[OF inv] and wd = windowD[OF follow_invD(1)[OF inv]]
  obtain sb where sb: "mgrSync (wAddrNs w) = Some sb" using window_sync[OF iv(1)] by blast
  obtain t tx where rb: "Rollback T (wTxNs w) (bHeight (metaBlock b)) = Inr tx"
    and w': "w' = backTo w \<lparr>stampHeight = word_of_nat (base + j), stampHash = 0, stampTime = t\<rparr> sb tx"
    using disconnectBlock_effect(1)[OF inv h k sb res] by blast
  have ti: "wallet_inv T r tx (M |` (- detached M (bHeight (metaBlock b))))
      (rolledUnmined T (wTxNs w) M U (bHeight (metaBlock b)))"
    using Rollback_spec[OF db iv(5), of "bHeight (metaBlock b)"] rb by auto
  let ?bs = "\<lparr>stampHeight = word_of_nat (base + j) :: height, stampHash = 0 :: hash, stampTime = t\<rparr>"
  have wi: "window base ((wAddrNs w)\<lparr>mgrSync := Some (syncWrite ?bs sb)\<rparr>) (take j d @ [stampHash ?bs]) peak"
    by (rule window_rewind[OF iv(1) sb _ _ k]) (use h(2) iv(8) in simp_all)
  have oc: "on_chain base (take (Suc j) c) (M |` (- detached M (bHeight (metaBlock b))))"
    unfolding h(1) by (rule on_chain_rewind[OF iv(6) _ h(2)]) (use wd(3,4) iv(8) in simp)
  show ?thesis
    by (intro follow_invI)
      (use wi ti oc iv(4) h(2) recorded_back[OF iv(7), of j] in \<open>simp_all add: w' backTo_def SyncedTo_def\<close>)
qed

text \<open>A block that is not recorded leaves the wallet as it is.\<close>

lemma disconnect_ignored:
  assumes inv: "follow_inv T r base (w, c, d, peak, M, U)"
    and h: "bHeight (metaBlock b) = word_of_nat (base + n)" "base + n < 2 ^ 31"
    and ig: "length c \<le> n \<or> kept peak (base + n) \<and> bHash (metaBlock b) \<noteq> d ! n"
  shows "disconnectBlock E T header w b = Inr w"
proof (cases "length c \<le> n")
  case True
  note iv = follow_invD[OF inv] and wd = windowD[OF follow_invD(1)[OF inv]]
  have "0 < length c" using wd(2) iv(8) by auto
  then have "base + length c - 1 < 2 ^ 31" "base + length c - 1 < base + n"
    using wd(3,4) iv(8) True h(2) by linarith+
  then have "\<not> bHeight (metaBlock b) \<le>s stampHeight (SyncedTo (wSync w))"
    unfolding h(1) iv(2) using height_le[OF h(2)] by simp
  then show ?thesis by (simp add: disconnectBlock_def Let_def)
next
  case False
  note iv = follow_invD[OF inv]
  have "BlockHash (wAddrNs w) (bHeight (metaBlock b)) = Inr (d ! n)"
    using window_stored[OF iv(1), of "base + n"] ig False iv(8) unfolding BlockHash_def h(1) by simp
  moreover have "bHash (metaBlock b) \<noteq> d ! n" using ig False by simp
  ultimately show ?thesis by (simp add: disconnectBlock_def Let_def not_sym)
qed

text \<open>When the tip is recorded with the zero hash, the tip itself is not disconnected.\<close>

lemma tip_stays:
  assumes inv: "follow_inv T r base (w, c, d, peak, M, U)"
    and z: "last d = 0" "bHash (metaBlock b) \<noteq> 0" "bHeight (metaBlock b) = word_of_nat (base + length c - 1)"
  shows "disconnectBlock E T header w b = Inr w"
proof -
  note iv = follow_invD[OF inv] and wd = windowD[OF follow_invD(1)[OF inv]]
  have ne: "c \<noteq> []" "d \<noteq> []" using wd(2) iv(8) by auto
  then have n: "base + length c - 1 = base + (length c - 1)" by (simp add: Suc_leI)
  have "d ! (length c - 1) = 0" using z(1) ne iv(8) by (simp add: last_conv_nth)
  moreover have "base + (length c - 1) < 2 ^ 31" "kept peak (base + (length c - 1))"
    using wd(3-5) iv(8) n ne by auto
  ultimately show ?thesis
    by (intro disconnect_ignored[OF inv, of b "length c - 1"]) (use z n in simp_all)
qed

section \<open>Invariant\<close>

lemma follow_step_inv:
  assumes db: "db_ok T"
  shows "follow_step E T r header base s s' \<Longrightarrow> follow_inv T r base s \<Longrightarrow> follow_inv T r base s'"
proof (induction rule: follow_step.induct)
  case (follow_connect b c w w' d peak M U)
  then show ?case by (intro connect_inv)
next
  case (follow_disconnect b j c d peak w w' M U)
  then show ?case by (intro disconnect_inv[OF db])
next
  case (follow_ignored b n c peak d w w' M U)
  have "w' = w" using follow_ignored.hyps(4)
    by (simp add: disconnect_ignored[OF follow_ignored.prems follow_ignored.hyps(1-3)])
  then show ?case using follow_ignored.prems by simp
next
  case (follow_store w M U ns' M' U' c d peak)
  note iv = follow_invD[OF follow_store.prems]
  have "wallet_inv T r ns' M' U'"
    using store_step_inv[OF db follow_store.hyps(1)] iv(5) by simp
  moreover have "on_chain base c M'"
    unfolding on_chain_def
  proof (intro allI impI)
    fix h b tx
    assume "M' h = Some (b, tx)"
    then consider "M h = Some (b, tx)"
      | "bHeight b = word_of_nat (base + length c - 1)" "bHash b = last c"
      using follow_store.hyps(2) unfolding mines_at_tip_def by blast
    then show "\<exists>n < length c. bHeight b = word_of_nat (base + n) \<and> bHash b = c ! n"
    proof cases
      case 1
      then show ?thesis using iv(6) unfolding on_chain_def by blast
    next
      case 2
      have "c \<noteq> []" using windowD(2)[OF iv(1)] iv(8) by auto
      then have "length c - 1 < length c" "base + length c - 1 = base + (length c - 1)"
        "last c = c ! (length c - 1)" by (simp_all add: last_conv_nth Suc_leI)
      then show ?thesis using 2 by metis
    qed
  qed
  ultimately show ?case using iv by (intro follow_invI) simp_all
qed

text \<open>The wallet starts at one block: the manager has stored no block hash and the store no history.\<close>

inductive following_chain :: "'a mgrEnv_scheme \<Rightarrow> env \<Rightarrow> (hash \<Rightarrow> nat) \<Rightarrow> (hash \<Rightarrow> gotime option) \<Rightarrow> nat
    \<Rightarrow> following \<Rightarrow> bool" for E T r header base where
  following_start: "mgrSync ns = Some sb \<Longrightarrow> (\<forall>n < 2 ^ 31. hashStored ns n = None) \<Longrightarrow> base < 2 ^ 31
    \<Longrightarrow> stampHeight bs = word_of_nat base \<Longrightarrow> SetSyncedTo E m ns (Some bs) = Inr (m', ns')
    \<Longrightarrow> no_history tx
    \<Longrightarrow> following_chain E T r header base
          (\<lparr>wSync = m', wAddrNs = ns', wTxNs = tx, wChainSynced = True\<rparr>, [stampHash bs], [stampHash bs], base,
           Map.empty, Map.empty)"
| following_step: "following_chain E T r header base s \<Longrightarrow> follow_step E T r header base s s'
    \<Longrightarrow> following_chain E T r header base s'"

lemma following_inv:
  assumes "db_ok T" "following_chain E T r header base s" shows "follow_inv T r base s"
  using assms(2)
proof (induction rule: following_chain.induct)
  case (following_start ns sb bs m m' ns' tx)
  have w: "window base (ns\<lparr>mgrSync := Some (syncWrite bs sb)\<rparr>) [stampHash bs] base"
    by (rule window_start[OF following_start.hyps(1) _ following_start.hyps(4,3)])
      (use following_start.hyps(2) in blast)
  have p: "PutSyncedTo E ns bs = Inr ns'" and "m' = m\<lparr>syncedTo := bs\<rparr>"
    using following_start.hyps(5) unfolding SetSyncedTo_def Let_def option.case bindE_eq_Inr by blast+
  moreover have "ns' = ns\<lparr>mgrSync := Some (syncWrite bs sb)\<rparr>"
    using PutSyncedTo_effect(1)[OF following_start.hyps(1) p] by blast
  moreover have "wallet_inv T r tx Map.empty Map.empty" by (rule no_history_inv[OF following_start.hyps(6)])
  moreover have "on_chain base [stampHash bs] Map.empty" by (simp add: on_chain_def)
  moreover have "recorded_hashes [stampHash bs] [stampHash bs]" by (simp add: recorded_hashes_def)
  ultimately show ?case using w following_start.hyps(4)
    by (intro follow_invI) (simp_all add: SyncedTo_def)
next
  case (following_step s s')
  show ?case by (rule follow_step_inv[OF assms(1) following_step.hyps(2) following_step.IH])
qed

section \<open>Properties\<close>

text \<open>C5: however blocks are connected on top of the wallet's chain \<open>c\<close> and disconnected from it, and whatever
  the transaction store records of the tip in between, the wallet is synced to the height of the last
  block of \<open>c\<close>, every transaction it holds as mined is in a block of \<open>c\<close>, and the manager answers
  \<open>BlockHash\<close> with the recorded hashes \<open>d\<close>: for the heights less than 10000 below the greatest one
  reached and for the genesis block; a height below the first block or further back is
  \<open>ErrBlockNotFound\<close>.  A recorded hash is that of the block of \<open>c\<close> at its height or, since the stamp that
  \<open>disconnectBlock\<close> goes back to has no hash, zero, and the synced hash is the last recorded one.  When
  the recorded tip is zero, the tip itself is not disconnected.\<close>

theorem wallet_follows_chain:
  assumes "db_ok T" "following_chain E T r header base (w, c, d, peak, M, U)"
  shows "stampHeight (SyncedTo (wSync w)) = word_of_nat (base + length c - 1)
    \<and> stampHash (SyncedTo (wSync w)) = last d
    \<and> length d = length c \<and> (\<forall>n < length c. d ! n = c ! n \<or> d ! n = 0)
    \<and> (\<forall>h b tx. minedOf T (wTxNs w) h = Some (b, tx) \<longrightarrow>
         (\<exists>n < length c. bHeight b = word_of_nat (base + n) \<and> bHash b = c ! n))
    \<and> (\<forall>n < length c. kept peak (base + n) \<longrightarrow> BlockHash (wAddrNs w) (word_of_nat (base + n)) = Inr (d ! n))
    \<and> (\<forall>n < 2 ^ 31. n < base \<or> \<not> kept peak n \<longrightarrow>
         BlockHash (wAddrNs w) (word_of_nat n) = Inl (managerError ErrBlockNotFound))
    \<and> (\<forall>b. last d = 0 \<and> bHash (metaBlock b) \<noteq> 0 \<and> bHeight (metaBlock b) = word_of_nat (base + length c - 1)
         \<longrightarrow> disconnectBlock E T header w b = Inr w)"
proof -
  note inv = following_inv[OF assms] and iv = follow_invD[OF following_inv[OF assms]]
  have "BlockHash (wAddrNs w) (word_of_nat (base + n)) = Inr (d ! n)"
    if "n < length c" "kept peak (base + n)" for n
    using window_stored[OF iv(1), of "base + n"] that iv(8) by (simp add: BlockHash_def)
  moreover have "BlockHash (wAddrNs w) (word_of_nat n) = Inl (managerError ErrBlockNotFound)"
    if "n < 2 ^ 31" "n < base \<or> \<not> kept peak n" for n
    using window_absent[OF iv(1) that] by (simp add: BlockHash_def)
  moreover have "minedOf T (wTxNs w) = M" by (rule wallet_inv_minedOf[OF iv(5)])
  moreover have "disconnectBlock E T header w b = Inr w"
    if "last d = 0" "bHash (metaBlock b) \<noteq> 0" "bHeight (metaBlock b) = word_of_nat (base + length c - 1)" for b
    by (rule tip_stays[OF inv that])
  ultimately show ?thesis
    using iv(2,3,6,7) unfolding on_chain_def recorded_hashes_def by blast
qed

text \<open>In such a state the next block can always be connected; the wallet is then synced to it, in
  memory and in the database, and nothing else changes.\<close>

lemma connectBlock_extends:
  assumes "mgr_db_ok E" "db_ok T" "following_chain E T r header base (w, c, d, peak, M, U)"
    and "bHeight (metaBlock b) = word_of_nat (base + length c)" "base + length c < 2 ^ 31"
  shows "\<exists>w'. connectBlock E w b = Inr w'
    \<and> SyncedTo (wSync w') = \<lparr>stampHeight = bHeight (metaBlock b), stampHash = bHash (metaBlock b), stampTime = metaTime b\<rparr>
    \<and> (\<exists>t. fetchSyncedTo (wAddrNs w') = Inr ((SyncedTo (wSync w'))\<lparr>stampTime := t\<rparr>))
    \<and> wTxNs w' = wTxNs w \<and> startBlock (wSync w') = startBlock (wSync w)"
proof -
  note iv = follow_invD[OF following_inv[OF assms(2,3)]]
  obtain sb where sb: "mgrSync (wAddrNs w) = Some sb" using window_sync[OF iv(1)] by blast
  have h: "bHeight (metaBlock b) = word_of_nat (base + length d)" "base + length d < 2 ^ 31"
    using assms(4,5) iv(8) by simp_all
  obtain w' where w': "connectBlock E w b = Inr w'"
    using connectBlock_effect(2)[OF iv(1) sb h assms(1)] by blast
  then show ?thesis
    using connectBlock_effect(1)[OF iv(1) sb h w'] by (simp add: SyncedTo_def fetchSyncedTo_write)
qed

text \<open>C27: when the wallet follows its chain (a state of the machine of \<open>following_chain\<close>), a block whose
  hash is the recorded one can be disconnected when its predecessor's record is kept, the chain client knows
  the header of that record, and (once a birthday block is set) the record before that is kept too.  The wallet is then synced to the predecessor's
  height, in memory and in the database, and of its mined transactions it holds those below the block.
  The hash it is synced to and answers for the predecessor is zero, so a call that disconnects the
  predecessor too, as in a reorganisation of two blocks, changes nothing.\<close>

theorem disconnectBlock_rewinds:
  assumes "mgr_db_ok E" "db_ok T" "following_chain E T r header base (w, c, d, peak, M, U)"
    and "bHeight (metaBlock b) = word_of_nat (base + Suc j)" "Suc j < length c" "bHash (metaBlock b) = d ! Suc j"
    and "kept peak (base + j)" "peak \<le> base + j + 10000" "header (d ! j) = Some t"
    and "FetchBirthdayBlock (wAddrNs w) = Inl e \<or> base + j = 0 \<or> 0 < j \<and> kept peak (base + j - 1)"
  shows "\<exists>w'. disconnectBlock E T header w b = Inr w'
    \<and> SyncedTo (wSync w') = \<lparr>stampHeight = word_of_nat (base + j), stampHash = 0, stampTime = t\<rparr>
    \<and> (\<exists>t'. fetchSyncedTo (wAddrNs w') = Inr ((SyncedTo (wSync w'))\<lparr>stampTime := t'\<rparr>))
    \<and> BlockHash (wAddrNs w') (word_of_nat (base + j)) = Inr 0
    \<and> minedOf T (wTxNs w') = (minedOf T (wTxNs w)) |` (- detached (minedOf T (wTxNs w)) (bHeight (metaBlock b)))
    \<and> (\<forall>b'. bHeight (metaBlock b') = word_of_nat (base + j) \<and> bHash (metaBlock b') \<noteq> 0
         \<longrightarrow> disconnectBlock E T header w' b' = Inr w')"
proof -
  note inv = following_inv[OF assms(2,3)] and iv = follow_invD[OF following_inv[OF assms(2,3)]]
  obtain sb where sb: "mgrSync (wAddrNs w) = Some sb" using window_sync[OF iv(1)] by blast
  obtain w' where w': "disconnectBlock E T header w b = Inr w'"
    using disconnectBlock_effect(2)[where header = header, OF inv assms(4-8) sb assms(1,2,9,10)] by blast
  obtain tx where eq: "w' = backTo w \<lparr>stampHeight = word_of_nat (base + j), stampHash = 0, stampTime = t\<rparr> sb tx"
    using disconnectBlock_effect(1)[OF inv assms(4-8) sb w'] assms(9) by auto
  note inv' = disconnect_inv[OF assms(2) inv assms(4-8) w'] and
    iv' = follow_invD[OF disconnect_inv[OF assms(2) inv assms(4-8) w']]
  have lj: "length (take j d @ [0]) = Suc j" "length (take (Suc j) c) = Suc j" using assms(5) iv(8) by simp_all
  have "minedOf T (wTxNs w') = M |` (- detached M (bHeight (metaBlock b)))" "minedOf T (wTxNs w) = M"
    by (rule wallet_inv_minedOf[OF iv'(5)], rule wallet_inv_minedOf[OF iv(5)])
  moreover have "SyncedTo (wSync w') = \<lparr>stampHeight = word_of_nat (base + j), stampHash = 0, stampTime = t\<rparr>"
    "\<exists>t'. fetchSyncedTo (wAddrNs w') = Inr ((SyncedTo (wSync w'))\<lparr>stampTime := t'\<rparr>)"
    by (simp_all add: eq backTo_def SyncedTo_def fetchSyncedTo_write)
  moreover have "BlockHash (wAddrNs w') (word_of_nat (base + j)) = Inr 0"
    using window_stored[OF iv'(1), of "base + j"] assms(7) lj by (simp add: BlockHash_def nth_append)
  moreover have "disconnectBlock E T header w' b' = Inr w'"
    if "bHeight (metaBlock b') = word_of_nat (base + j)" "bHash (metaBlock b') \<noteq> 0" for b'
    by (rule tip_stays[OF inv']) (use that lj in simp_all)
  ultimately show ?thesis using w' by simp
qed

end
