(* ===== verification/Mgr_Birthday.thy ===== *)
theory Mgr_Birthday
  imports Mgr_Chain
begin

text \<open>
  The birthday block of the wallet, and the migrations that work on the sync bucket: what they leave in
  it, and that the search for a birthday block ends.
\<close>

section \<open>Round trip\<close>

lemma putSync_ok: "mgr_db_ok E \<Longrightarrow> mgrSync ns = Some b \<Longrightarrow>
    putSync E k v ns = Inr (ns\<lparr>mgrSync := Some (bucketPut b k v)\<rparr>)"
  by (simp add: putSync_def syncBucket_def)

definition birthdayValue :: "blockStamp \<Rightarrow> bytes" where
  "birthdayValue block = putUint32 (stampHeight block) @ hashBytes (stampHash block)
     @ putUint64 (timeWord (stampTime block))"

lemma FetchBirthdayBlock_value:
  assumes "mgrSync ns = Some b" "bucketGet b birthdayBlockName = Some (birthdayValue block)"
  shows "FetchBirthdayBlock ns = Inr (block\<lparr>stampTime := wordTime (timeWord (stampTime block))\<rparr>)"
proof -
  let ?v = "birthdayValue block"
  have "slice ?v 0 4 = putUint32 (stampHeight block)" "slice ?v 4 36 = hashBytes (stampHash block)"
    "slice ?v 36 44 = putUint64 (timeWord (stampTime block))" "length ?v = 44"
    by (simp_all add: slice_def birthdayValue_def)
  then show ?thesis by (simp add: FetchBirthdayBlock_def syncBucket_def assms)
qed

lemma PutBirthdayBlock_value:
  "mgr_db_ok E \<Longrightarrow> mgrSync ns = Some b \<Longrightarrow>
    PutBirthdayBlock E ns block = Inr (ns\<lparr>mgrSync := Some (bucketPut b birthdayBlockName (birthdayValue block))\<rparr>)"
  by (simp add: PutBirthdayBlock_def putSync_ok birthdayValue_def)

text \<open>The birthday block that \<open>SetBirthdayBlock\<close> stores is read back by \<open>BirthdayBlock\<close> with its
  verification flag, its time cut to seconds, and no block hash is touched.\<close>

lemma SetBirthdayBlock_BirthdayBlock:
  assumes "mgr_db_ok E" "mgrSync ns = Some b"
    and "- (2 ^ 63) \<le> unixSec (stampTime block)" "unixSec (stampTime block) < 2 ^ 63"
  shows "\<exists>ns'. SetBirthdayBlock E ns block verified = Inr ns'
    \<and> BirthdayBlock ns' = Inr (block\<lparr>stampTime := stampTime block - stampTime block mod 1000000000\<rparr>, verified)
    \<and> (\<forall>h. fetchBlockHash ns' h = fetchBlockHash ns h)"
proof -
  let ?b = "bucketPut (bucketPut b birthdayBlockName (birthdayValue block)) birthdayBlockVerifiedName
    (putUint16 (if verified then 1 else 0))"
  let ?ns = "ns\<lparr>mgrSync := Some ?b\<rparr>"
  have s: "SetBirthdayBlock E ns block verified = Inr ?ns"
    by (simp add: SetBirthdayBlock_def PutBirthdayBlock_value[OF assms(1,2)] putBirthdayBlockVerification_def
        putSync_ok[OF assms(1)])
  have "FetchBirthdayBlock ?ns = Inr (block\<lparr>stampTime := stampTime block - stampTime block mod 1000000000\<rparr>)"
    using FetchBirthdayBlock_value[of ?ns ?b block] wordTime_timeWord[OF assms(3,4)] by simp
  moreover have "fetchBirthdayBlockVerification ?ns = Inr verified"
    by (simp add: fetchBirthdayBlockVerification_def syncBucket_def)
  moreover have "fetchBlockHash ?ns h = fetchBlockHash ns h" for h
    using assms(2) by (simp add: fetchBlockHash_def syncBucket_def)
  ultimately show ?thesis using s by (simp add: BirthdayBlock_def)
qed

section \<open>Searching the birthday block\<close>

declare searchBirthday.simps [simp del]

text \<open>Every value under a height is a hash.\<close>

definition hashes_ok :: "mgrStore \<Rightarrow> bool" where
  "hashes_ok ns \<longleftrightarrow> (\<forall>h. fetchBlockHash ns h = Inl (managerError ErrBlockNotFound)
     \<or> (\<exists>x. fetchBlockHash ns h = Inr x))"

lemma searchBirthday_hit: "fetchBlockHash ns h = Inr x \<Longrightarrow> searchBirthday fuel ns h = Some (Inr (h, x))"
  by (subst searchBirthday.simps) simp

lemma searchBirthday_miss:
  "fetchBlockHash ns h = Inl (managerError ErrBlockNotFound) \<Longrightarrow>
    searchBirthday (Suc fuel) ns h = searchBirthday fuel ns (if h - 144 <s 0 then 0 else h - 144)"
  by (subst searchBirthday.simps) (simp add: IsError_def managerError_def Let_def)

lemma word_step_back: "n < 2 ^ 31 \<Longrightarrow>
    (if (word_of_nat n :: height) - 144 <s 0 then 0 else word_of_nat n - 144) = (word_of_nat (n - 144) :: height)"
proof (cases "144 \<le> n")
  case True
  assume n: "n < 2 ^ 31"
  have e: "(word_of_nat n :: height) - 144 = word_of_nat (n - 144)" using True by (simp add: of_nat_diff)
  have "\<not> word_of_nat (n - 144) <s (0 :: height)" using n by (simp add: word_sless_alt sint_height)
  then show ?thesis unfolding e by (simp only: if_False)
next
  case False
  have e: "(word_of_nat n :: height) - 144 = word_of_int (int n - 144)" by simp
  have "sint (word_of_int (int n - 144) :: height) = int n - 144"
    by (rule trans[OF sint_sbintrunc' signed_take_bit_int_eq_self]) (use False in auto)
  then have "word_of_int (int n - 144) <s (0 :: height)" using False by (simp add: word_sless_alt)
  then show ?thesis unfolding e using False by simp
qed

lemma searchBirthday_finds:
  assumes "hashes_ok ns" "fetchBlockHash ns 0 = Inr g" "n < 2 ^ 31" "n \<le> 144 * fuel"
  shows "\<exists>k x. searchBirthday fuel ns (word_of_nat n) = Some (Inr (word_of_nat (n - 144 * k), x))
    \<and> fetchBlockHash ns (word_of_nat (n - 144 * k)) = Inr x"
  using assms(3,4)
proof (induction fuel arbitrary: n)
  case 0
  then show ?case using searchBirthday_hit[of ns 0 g 0] assms(2)
    by - (rule exI[of _ 0], rule exI[of _ g], simp)
next
  case (Suc fuel)
  consider x where "fetchBlockHash ns (word_of_nat n) = Inr x"
    | "fetchBlockHash ns (word_of_nat n) = Inl (managerError ErrBlockNotFound)"
    using assms(1) unfolding hashes_ok_def by blast
  then show ?case
  proof cases
    case 1
    then show ?thesis using searchBirthday_hit[OF 1, of "Suc fuel"] 1
      by - (rule exI[of _ 0], rule exI[of _ x], simp)
  next
    case 2
    have "searchBirthday (Suc fuel) ns (word_of_nat n) = searchBirthday fuel ns (word_of_nat (n - 144))"
      using searchBirthday_miss[OF 2, of fuel] unfolding word_step_back[OF Suc.prems(1)] .
    moreover have "n - 144 < 2 ^ 31" "n - 144 \<le> 144 * fuel" using Suc.prems by auto
    from Suc.IH[OF this]
    obtain k x where "searchBirthday fuel ns (word_of_nat (n - 144)) = Some (Inr (word_of_nat (n - 144 - 144 * k), x))"
        "fetchBlockHash ns (word_of_nat (n - 144 - 144 * k)) = Inr x" by blast
    moreover have "n - 144 - 144 * k = n - 144 * Suc k" by simp
    ultimately show ?thesis by metis
  qed
qed

lemma estimateHeight_range:
  "\<exists>n. n \<le> 15372286 \<and> (estimateHeight t g = word_of_nat n \<or> estimateHeight t g = word_of_int (- int n))"
proof -
  define d where "d = max (- 9223372036) (min 9223372036 (unixSec t - unixSec g))"
  have r: "- 9223372036 \<le> d" "d \<le> 9223372036" by (auto simp: d_def)
  have e: "estimateHeight t g = word_of_int (quotTrunc d 600)" by (simp add: estimateHeight_def d_def Let_def)
  show ?thesis
  proof (cases "0 \<le> d")
    case True
    then have q: "quotTrunc d 600 = int (nat (d div 600))" "d div 600 \<le> 15372286"
      using r(2) by (simp_all add: quotTrunc_def)
    then show ?thesis unfolding e q(1) by (intro exI[of _ "nat (d div 600)"]) auto
  next
    case False
    then have q: "quotTrunc d 600 = - int (nat ((- d) div 600))" "(- d) div 600 \<le> 15372286"
      using r(1) by (simp_all add: quotTrunc_def)
    then show ?thesis unfolding e q(1) by (intro exI[of _ "nat ((- d) div 600)"]) auto
  qed
qed

text \<open>The migration \<open>populateBirthdayBlock\<close> ends, whatever the birthday of the wallet: with the genesis
  hash of a known network stored and no value malformed, after at most 106,755 turns of its loop it has
  stored as birthday block a block whose hash the wallet has.\<close>

lemma populateBirthdayBlock_ends:
  assumes "mgr_db_ok E" "hashes_ok ns" "fetchBirthday ns = Inr t" "fetchBlockHash ns 0 = Inr g"
    and "map_of genesisTimes g = Some gt" "106755 \<le> fuel"
  shows "\<exists>ns' block. populateBirthdayBlock E fuel genesisTimes ns = Some (Inr ns')
    \<and> FetchBirthdayBlock ns' = Inr block \<and> fetchBlockHash ns (stampHeight block) = Inr (stampHash block)"
proof -
  let ?h = "estimateHeight t gt"
  obtain b where b: "mgrSync ns = Some b"
    using assms(3) by (cases "mgrSync ns") (auto simp: fetchBirthday_def syncBucket_def)
  have search: "\<exists>h x. searchBirthday fuel ns ?h = Some (Inr (h, x)) \<and> fetchBlockHash ns h = Inr x"
  proof -
    obtain n where n: "n \<le> 15372286" "?h = word_of_nat n \<or> ?h = word_of_int (- int n)"
      using estimateHeight_range by blast
    show ?thesis
    proof (cases "?h = word_of_nat n")
      case True
      then show ?thesis using searchBirthday_finds[OF assms(2,4), of n fuel] n(1) assms(6) by auto
    next
      case False
      with n have h: "?h = word_of_int (- int n)" "0 < n" by (auto intro: gr0I)
      obtain f where f: "fuel = Suc f" using assms(6) by (cases fuel) auto
      consider x where "fetchBlockHash ns ?h = Inr x"
        | "fetchBlockHash ns ?h = Inl (managerError ErrBlockNotFound)"
        using assms(2) unfolding hashes_ok_def by blast
      then show ?thesis
      proof cases
        case 1
        then show ?thesis using searchBirthday_hit by blast
      next
        case 2
        have e: "?h - 144 = word_of_int (- int n - 144)" by (simp add: h(1))
        have "sint (word_of_int (- int n - 144) :: height) = - int n - 144"
          by (rule trans[OF sint_sbintrunc' signed_take_bit_int_eq_self]) (use n(1) in auto)
        then have "?h - 144 <s 0" unfolding e by (simp add: word_sless_alt)
        then have "searchBirthday fuel ns ?h = searchBirthday f ns 0"
          unfolding f using searchBirthday_miss[OF 2, of f] by simp
        then show ?thesis using searchBirthday_hit[OF assms(4), of f] assms(4) by auto
      qed
    qed
  qed
  then obtain h x where s: "searchBirthday fuel ns ?h = Some (Inr (h, x))" "fetchBlockHash ns h = Inr x"
    by blast
  let ?block = "\<lparr>stampHeight = h, stampHash = x, stampTime = zeroTime\<rparr>"
  let ?ns = "ns\<lparr>mgrSync := Some (bucketPut b birthdayBlockName (birthdayValue ?block))\<rparr>"
  have "populateBirthdayBlock E fuel genesisTimes ns = Some (Inr ?ns)"
    by (simp add: populateBirthdayBlock_def assms s PutBirthdayBlock_value[OF assms(1) b])
  moreover have "FetchBirthdayBlock ?ns = Inr (?block\<lparr>stampTime := wordTime (timeWord zeroTime)\<rparr>)"
    using FetchBirthdayBlock_value[of ?ns _ ?block] by simp
  ultimately show ?thesis using s(2) by auto
qed

section \<open>Pruning old hashes\<close>

lemma hashStored_delete:
  assumes "mgrSync ns = Some b" "n < 2 ^ 31" "m < 2 ^ 31"
  shows "hashStored (ns\<lparr>mgrSync := Some (bucketDelete b (putUint32 (word_of_nat n)))\<rparr>) m
    = (if m = n then None else hashStored ns m)"
  using assms height_key_inj[OF assms(3,2)] by (simp add: hashStored_def bucketGet_upd del: putUint_inj)

lemma deleteBlockHashes:
  assumes "mgr_db_ok E" "mgrSync ns = Some b" "\<forall>n \<in> set hs. n < 2 ^ 31"
  shows "\<exists>ns'. foldE (\<lambda>height ns. deleteBlockHash E ns (word_of_nat height)) hs ns = Inr ns'
    \<and> mgrSync ns' \<noteq> None
    \<and> (\<forall>m < 2 ^ 31. hashStored ns' m = (if m \<in> set hs then None else hashStored ns m))
    \<and> (\<forall>k. length k \<noteq> 4 \<longrightarrow> bucketGet (the (mgrSync ns')) k = bucketGet b k)"
  using assms(2,3)
proof (induction hs arbitrary: ns b)
  case (Cons n hs)
  let ?b = "bucketDelete b (putUint32 (word_of_nat n))" and ?k = "putUint32 (word_of_nat n)"
  let ?ns = "ns\<lparr>mgrSync := Some ?b\<rparr>"
  have d: "deleteBlockHash E ns (word_of_nat n) = Inr ?ns"
    using Cons.prems(1) assms(1) by (simp add: deleteBlockHash_def deleteSync_def syncBucket_def)
  obtain ns' where ns': "foldE (\<lambda>height ns. deleteBlockHash E ns (word_of_nat height)) hs ?ns = Inr ns'"
    "mgrSync ns' \<noteq> None"
    "\<forall>m < 2 ^ 31. hashStored ns' m = (if m \<in> set hs then None else hashStored ?ns m)"
    "\<forall>k. length k \<noteq> 4 \<longrightarrow> bucketGet (the (mgrSync ns')) k = bucketGet ?b k"
    using Cons.IH[of ?ns ?b] Cons.prems(2) by auto
  have "hashStored ns' m = (if m \<in> set (n # hs) then None else hashStored ns m)" if "m < 2 ^ 31" for m
    using ns'(3) that hashStored_delete[OF Cons.prems(1) _ that, of n] Cons.prems(2) by auto
  moreover have "bucketGet (the (mgrSync ns')) k = bucketGet b k" if "length k \<noteq> 4" for k
    using ns'(4) that by (auto simp: bucketGet_upd)
  ultimately show ?case using ns'(1,2) by (auto simp: d)
qed simp

text \<open>The migration \<open>storeMaxReorgDepth\<close> removes the block hashes of the heights from 1 to 10000
  below the synced-to block and no other hash.\<close>

lemma storeMaxReorgDepth_prunes:
  assumes "mgr_db_ok E" "fetchSyncedTo ns = Inr tip" "stampHeight tip = word_of_nat n" "n < 2 ^ 31"
  shows "\<exists>ns'. storeMaxReorgDepth E ns = Inr ns' \<and> fetchSyncedTo ns' = Inr tip
    \<and> (\<forall>m < 2 ^ 31. hashStored ns' m = (if 1 \<le> m \<and> m + 10000 \<le> n then None else hashStored ns m))"
proof (cases "10000 < n")
  case True
  obtain b where b: "mgrSync ns = Some b"
    using assms(2) by (cases "mgrSync ns") (auto simp: fetchSyncedTo_def syncBucket_def)
  have sh: "staleHeight (word_of_nat n) = word_of_nat (n - 10000)" using True by (simp add: staleHeight_nat)
  have u: "unat (word_of_nat (n - 10000) :: height) = n - 10000"
    using assms(4) by (intro unat_of_nat32) simp
  have ns1: "\<not> (word_of_nat (n - 10000) :: height) <s 1"
    using True assms(4) sint_height[of "n - 10000"] sint_height[of 1] by (simp add: word_sless_alt del: of_nat_diff)
  let ?hs = "rev [1..<Suc (n - 10000)]"
  have mem: "m \<in> set ?hs \<longleftrightarrow> 1 \<le> m \<and> m + 10000 \<le> n" for m
    using True unfolding set_rev set_upt by auto
  obtain ns' where ns': "foldE (\<lambda>height ns. deleteBlockHash E ns (word_of_nat height)) ?hs ns = Inr ns'"
    "mgrSync ns' \<noteq> None"
    "\<forall>m < 2 ^ 31. hashStored ns' m = (if m \<in> set ?hs then None else hashStored ns m)"
    "\<forall>k. length k \<noteq> 4 \<longrightarrow> bucketGet (the (mgrSync ns')) k = bucketGet b k"
    using deleteBlockHashes[OF assms(1) b, of ?hs] assms(4) unfolding Ball_def mem by auto
  have "storeMaxReorgDepth E ns = Inr ns'"
    using ns'(1) ns1 unfolding storeMaxReorgDepth_def assms(2) bindE_simps Let_def assms(3) sh u by simp
  moreover have "fetchSyncedTo ns' = Inr tip"
  proof -
    obtain b' where "mgrSync ns' = Some b'" using ns'(2) by blast
    moreover have "bucketGet b' syncedToName = bucketGet b syncedToName"
      using ns'(4)[rule_format, of syncedToName] calculation by simp
    ultimately show ?thesis using assms(2) b by (simp add: fetchSyncedTo_def syncBucket_def)
  qed
  ultimately show ?thesis using ns'(3) unfolding mem by blast
next
  case False
  have "storeMaxReorgDepth E ns = Inr ns"
  proof -
    have "staleHeight (word_of_nat n) <s 1"
    proof -
      have "\<not> 0 <s staleHeight (word_of_nat n)" using stale_pos[OF assms(4)] False by simp
      then show ?thesis by (simp add: word_sless_alt)
    qed
    then show ?thesis by (simp add: storeMaxReorgDepth_def assms(2,3))
  qed
  then show ?thesis using False assms(2) by auto
qed

end
