(* ===== verification/Mgr_Addr.thy ===== *)
theory Mgr_Addr
  imports Mgr_Db
begin

text \<open>
  The addresses of a scope in \<open>waddrmgr/db.go\<close>: the bucket \<open>addr\<close> maps the SHA-256 of an address id
  to its row, \<open>addracctidx\<close> maps it to its account and holds one sub-bucket per account with the
  hashes of that account's addresses, \<open>usedaddrs\<close> flags used addresses.  Also
  \<open>deletePrivateKeys\<close>, which rewrites the rows without their private parts.
\<close>

section \<open>Reading\<close>

definition fetchAddressByHash :: "mgrStore \<Rightarrow> keyScope \<Rightarrow> bytes \<Rightarrow> addrRowInterface mres" where
  "fetchAddressByHash ns scope addrHash = bindE (fetchReadScopeBucket ns scope) (\<lambda>s.
     case bucketGet (scAddr s) addrHash of
       None \<Rightarrow> Inl (managerError ErrAddressNotFound)
     | Some serializedRow \<Rightarrow> decodeAddressRow serializedRow)"

definition fetchAddress ::
  "'a mgrEnv_scheme \<Rightarrow> mgrStore \<Rightarrow> keyScope \<Rightarrow> bytes \<Rightarrow> addrRowInterface mres" where
  "fetchAddress E ns scope addressID = fetchAddressByHash ns scope (sha256 E addressID)"

definition fetchAddressUsed :: "'a mgrEnv_scheme \<Rightarrow> mgrStore \<Rightarrow> keyScope \<Rightarrow> bytes \<Rightarrow> bool mres" where
  "fetchAddressUsed E ns scope addressID = (case fetchReadScopeBucket ns scope of
     Inl e \<Rightarrow> if e = MgrPanic then Inl e else Inr False
   | Inr s \<Rightarrow> Inr (bucketGet (scUsed s) (sha256 E addressID) \<noteq> None))"

definition existsAddress :: "'a mgrEnv_scheme \<Rightarrow> mgrStore \<Rightarrow> keyScope \<Rightarrow> bytes \<Rightarrow> bool mres" where
  "existsAddress E ns scope addressID = (case fetchReadScopeBucket ns scope of
     Inl e \<Rightarrow> if e = MgrPanic then Inl e else Inr False
   | Inr s \<Rightarrow> Inr (bucketGet (scAddr s) (sha256 E addressID) \<noteq> None))"

definition fetchAddrAccount :: "'a mgrEnv_scheme \<Rightarrow> mgrStore \<Rightarrow> keyScope \<Rightarrow> bytes \<Rightarrow> u32 mres" where
  "fetchAddrAccount E ns scope addressID = bindE (fetchReadScopeBucket ns scope) (\<lambda>s.
     case bucketGet (scAddrAcct s) (sha256 E addressID) of
       None \<Rightarrow> Inl (managerError ErrAddressNotFound)
     | Some val \<Rightarrow> if length val < 4 then Inl MgrPanic else Inr (le32 val))"

text \<open>The sub-bucket of an account is \<open>None\<close> until its first address.\<close>

definition acctAddrs :: "scopeStore \<Rightarrow> u32 \<Rightarrow> bucket option" where
  "acctAddrs s account = map_of (scAcctAddrs s) (uint32ToBytes account)"

definition forEachAccountAddress ::
  "mgrStore \<Rightarrow> keyScope \<Rightarrow> u32 \<Rightarrow> (addrRowInterface \<Rightarrow> 's \<Rightarrow> 's mres) \<Rightarrow> 's \<Rightarrow> 's mres" where
  "forEachAccountAddress ns scope account fn st = bindE (fetchReadScopeBucket ns scope) (\<lambda>s.
     case acctAddrs s account of
       None \<Rightarrow> Inr st
     | Some b \<Rightarrow> convertE (foldE (\<lambda>(k, _) st.
         bindE (fetchAddressByHash ns scope k) (\<lambda>row. fn row st)) (entries b) st))"

definition forEachActiveAddress ::
  "mgrStore \<Rightarrow> keyScope \<Rightarrow> (addrRowInterface \<Rightarrow> 's \<Rightarrow> 's mres) \<Rightarrow> 's \<Rightarrow> 's mres" where
  "forEachActiveAddress ns scope fn st = bindE (fetchReadScopeBucket ns scope) (\<lambda>s.
     convertE (foldE (\<lambda>(k, _) st.
       bindE (fetchAddressByHash ns scope k) (\<lambda>row. fn row st)) (entries (scAddr s)) st))"

section \<open>Writing\<close>

definition markAddressUsed ::
  "'a mgrEnv_scheme \<Rightarrow> mgrStore \<Rightarrow> keyScope \<Rightarrow> bytes \<Rightarrow> mgrStore mres" where
  "markAddressUsed E ns scope addressID = bindE (fetchWriteScopeBucket ns scope) (\<lambda>s.
     let k = sha256 E addressID in
     if bucketGet (scUsed s) k \<noteq> None then Inr ns
     else putScope E (MgrPut (UsedB (scopeToBytes scope)) k [0]) ErrDb
       (\<lambda>s. s\<lparr>scUsed := bucketPut (scUsed s) k [0]\<rparr>) scope ns)"

definition putAddrAccountIndex ::
  "'a mgrEnv_scheme \<Rightarrow> mgrStore \<Rightarrow> keyScope \<Rightarrow> u32 \<Rightarrow> bytes \<Rightarrow> mgrStore mres" where
  "putAddrAccountIndex E ns scope account addrHash =
     (let sk = scopeToBytes scope; ak = uint32ToBytes account in
     bindE (putScope E (MgrPut (AddrAcctB sk) addrHash ak) MgrDbErr
       (\<lambda>s. s\<lparr>scAddrAcct := bucketPut (scAddrAcct s) addrHash ak\<rparr>) scope ns) (\<lambda>ns.
     bindE (fetchWriteScopeBucket ns scope) (\<lambda>s.
     bindE (if acctAddrs s account = None
            then allowed E (MgrCreate (AcctAddrsB sk ak)) MgrDbErr else Inr ()) (\<lambda>_.
     let b = (case acctAddrs s account of None \<Rightarrow> bucketEmpty | Some b \<Rightarrow> b) in
     putScope E (MgrPut (AcctAddrsB sk ak) addrHash [0]) ErrDb
       (\<lambda>s. s\<lparr>scAcctAddrs := upd_entry ak (bucketPut b addrHash [0]) (scAcctAddrs s)\<rparr>) scope ns))))"

definition putAddress ::
  "'a mgrEnv_scheme \<Rightarrow> mgrStore \<Rightarrow> keyScope \<Rightarrow> bytes \<Rightarrow> dbAddressRow \<Rightarrow> mgrStore mres" where
  "putAddress E ns scope addressID row =
     (let addrHash = sha256 E addressID; v = serializeAddressRow row in
     bindE (putScope E (MgrPut (AddrB (scopeToBytes scope)) addrHash v) ErrDb
       (\<lambda>s. s\<lparr>scAddr := bucketPut (scAddr s) addrHash v\<rparr>) scope ns) (\<lambda>ns.
     putAddrAccountIndex E ns scope (addrAccount row) addrHash))"

definition addressRow :: "'a mgrEnv_scheme \<Rightarrow> u8 \<Rightarrow> u32 \<Rightarrow> u8 \<Rightarrow> bytes \<Rightarrow> dbAddressRow" where
  "addressRow E ty account status rawData = \<lparr>addrType = ty, addrAccount = account,
     addrTime = timeWord (mgrNow E), addrSyncStatus = status, addrRawData = rawData\<rparr>"

definition InternalBranch_mgr :: u32 where "InternalBranch_mgr = 1"
definition ExternalBranch_mgr :: u32 where "ExternalBranch_mgr = 0"

text \<open>The row of the account with the next index of the branch moved past \<open>index\<close>.\<close>

definition advanceIndex :: "u32 \<Rightarrow> u32 \<Rightarrow> dbAccountRow \<Rightarrow> dbAccountRow mres" where
  "advanceIndex branch index row =
     (if acctType row = accountDefault then
        bindE (deserializeDefaultAccountRow row) (\<lambda>a.
        bindE (serializeDefaultAccountRow (defPubKeyEncrypted a) (defPrivKeyEncrypted a)
            (if branch = InternalBranch_mgr then defNextExternalIndex a else index + 1)
            (if branch = InternalBranch_mgr then index + 1 else defNextInternalIndex a)
            (defName a)) (\<lambda>raw.
        Inr (row\<lparr>acctRawData := raw\<rparr>)))
      else if acctType row = accountWatchOnly then
        bindE (deserializeWatchOnlyAccountRow row) (\<lambda>a.
        Inr (row\<lparr>acctRawData := serializeWatchOnlyAccountRow (woPubKeyEncrypted a)
            (woMasterKeyFingerprint a)
            (if branch = InternalBranch_mgr then woNextExternalIndex a else index + 1)
            (if branch = InternalBranch_mgr then index + 1 else woNextInternalIndex a)
            (woName a) (woAddrSchema a)\<rparr>))
      else Inr row)"

definition putChainedAddress :: "'a mgrEnv_scheme \<Rightarrow> mgrStore \<Rightarrow> keyScope \<Rightarrow> bytes \<Rightarrow> u32 \<Rightarrow> u8
    \<Rightarrow> u32 \<Rightarrow> u32 \<Rightarrow> u8 \<Rightarrow> mgrStore mres" where
  "putChainedAddress E ns scope addressID account status branch index ty =
     bindE (fetchWriteScopeBucket ns scope) (\<lambda>_.
     bindE (putAddress E ns scope addressID
       (addressRow E ty account status (serializeChainedAddress branch index))) (\<lambda>ns.
     let k = uint32ToBytes account in
     bindE (fetchWriteScopeBucket ns scope) (\<lambda>s.
     bindE (deserializeAccountRow (orNil (bucketGet (scAcct s) k))) (\<lambda>row.
     bindE (advanceIndex branch index row) (\<lambda>row.
     let v = serializeAccountRow row in
     putScope E (MgrPut (AcctB (scopeToBytes scope)) k v) ErrDb
       (\<lambda>s. s\<lparr>scAcct := bucketPut (scAcct s) k v\<rparr>) scope ns)))))"

definition putImportedAddress :: "'a mgrEnv_scheme \<Rightarrow> mgrStore \<Rightarrow> keyScope \<Rightarrow> bytes \<Rightarrow> u32 \<Rightarrow> u8
    \<Rightarrow> bytes \<Rightarrow> bytes \<Rightarrow> mgrStore mres" where
  "putImportedAddress E ns scope addressID account status pub priv =
     bindE (serializeImportedAddress pub priv) (\<lambda>rawData.
     putAddress E ns scope addressID (addressRow E adtImport account status rawData))"

definition putScriptAddress :: "'a mgrEnv_scheme \<Rightarrow> mgrStore \<Rightarrow> keyScope \<Rightarrow> bytes \<Rightarrow> u32 \<Rightarrow> u8
    \<Rightarrow> bytes \<Rightarrow> bytes \<Rightarrow> mgrStore mres" where
  "putScriptAddress E ns scope addressID account status hash script =
     bindE (serializeScriptAddress hash script) (\<lambda>rawData.
     putAddress E ns scope addressID (addressRow E adtScript account status rawData))"

definition witnessVersionV1 :: u8 where "witnessVersionV1 = 1"

definition putWitnessScriptAddress :: "'a mgrEnv_scheme \<Rightarrow> mgrStore \<Rightarrow> keyScope \<Rightarrow> bytes \<Rightarrow> u32
    \<Rightarrow> u8 \<Rightarrow> u8 \<Rightarrow> bool \<Rightarrow> bytes \<Rightarrow> bytes \<Rightarrow> mgrStore mres" where
  "putWitnessScriptAddress E ns scope addressID account status version isSecret hash script =
     bindE (serializeWitnessScriptAddress version isSecret hash script) (\<lambda>rawData.
     putAddress E ns scope addressID (addressRow E
       (if version = witnessVersionV1 then adtTaprootScript else adtWitnessScript)
       account status rawData))"

section \<open>Removing the private keys\<close>

text \<open>
  What \<open>deletePrivateKeys\<close> writes back for a row: \<open>None\<close> where it leaves the row alone.
\<close>

definition stripAccount :: "bytes \<Rightarrow> bytes option mres" where
  "stripAccount v = bindE (deserializeAccountRow v) (\<lambda>row.
     if acctType row = accountDefault then
       bindE (deserializeDefaultAccountRow row) (\<lambda>a.
       bindE (serializeDefaultAccountRow (defPubKeyEncrypted a) [] (defNextExternalIndex a)
         (defNextInternalIndex a) (defName a)) (\<lambda>raw.
       Inr (Some (serializeAccountRow (row\<lparr>acctRawData := raw\<rparr>)))))
     else Inr None)"

definition stripAddress :: "bytes \<Rightarrow> bytes option mres" where
  "stripAddress v = bindE (deserializeAddressRow v) (\<lambda>row.
     if addrType row = adtImport then
       bindE (deserializeImportedAddress row) (\<lambda>a.
       bindE (serializeImportedAddress (impPubKey a) []) (\<lambda>raw.
       Inr (Some (serializeAddressRow (row\<lparr>addrRawData := raw\<rparr>)))))
     else if addrType row = adtScript then
       bindE (deserializeScriptAddress row) (\<lambda>a.
       bindE (serializeScriptAddress (scrHash a) []) (\<lambda>raw.
       Inr (Some (serializeAddressRow (row\<lparr>addrRawData := raw\<rparr>)))))
     else if addrType row = adtWitnessScript then
       bindE (deserializeWitnessScriptAddress row) (\<lambda>a.
       if \<not> witIsSecret a then Inr None
       else bindE (serializeWitnessScriptAddress (witVersion a) (witIsSecret a) (witHash a) []) (\<lambda>raw.
       Inr (Some (serializeAddressRow (row\<lparr>addrRawData := raw\<rparr>)))))
     else Inr None)"

definition rewriteRows :: "'a mgrEnv_scheme \<Rightarrow> mbucket \<Rightarrow> (bytes \<Rightarrow> bytes option mres) \<Rightarrow> bucket
    \<Rightarrow> bucket mres" where
  "rewriteRows E where strip b = foldE (\<lambda>(k, v) b. bindE (strip v) (\<lambda>w. case w of
       None \<Rightarrow> Inr b
     | Some w \<Rightarrow> bindE (allowed E (MgrPut where k w) ErrDb) (\<lambda>_. Inr (bucketPut b k w))))
     (entries b) b"

definition stripScope :: "'a mgrEnv_scheme \<Rightarrow> bytes \<Rightarrow> scopeStore \<Rightarrow> scopeStore mres" where
  "stripScope E sk s =
     bindE (allowed E (MgrDelete (ScopeB sk) coinTypePrivKeyName) ErrDb) (\<lambda>_.
     bindE (convertE (rewriteRows E (AcctB sk) stripAccount (scAcct s))) (\<lambda>acct.
     bindE (convertE (rewriteRows E (AddrB sk) stripAddress (scAddr s))) (\<lambda>addr.
     Inr (s\<lparr>scKeys := bucketDelete (scKeys s) coinTypePrivKeyName, scAcct := acct, scAddr := addr\<rparr>))))"

definition deletePrivateKeys :: "'a mgrEnv_scheme \<Rightarrow> mgrStore \<Rightarrow> mgrStore mres" where
  "deletePrivateKeys E ns =
     bindE (deleteMain E masterPrivKeyName ns) (\<lambda>ns.
     bindE (deleteMain E cryptoPrivKeyName ns) (\<lambda>ns.
     bindE (deleteMain E cryptoScriptKeyName ns) (\<lambda>ns.
     bindE (deleteMain E masterHDPrivName ns) (\<lambda>ns.
     bindE (scopeRoot ns) (\<lambda>ss.
     bindE (convertE (foldE (\<lambda>(k, s) ss. if length k \<noteq> 8 then Inr ss
       else bindE (stripScope E k s) (\<lambda>s. Inr (upd_entry k s ss))) ss ss)) (\<lambda>ss.
     Inr (ns\<lparr>mgrScopes := Some ss\<rparr>)))))))"

end
