(* ===== verification/Mgr_Books.thy ===== *)
theory Mgr_Books
  imports Mgr_Addr
begin

text \<open>
  The account tables of a scope as one map.  \<open>books s M\<close> says that the buckets of \<open>s\<close> hold the map
  \<open>M\<close> from account ids to rows: every stored row decodes, the id index gives the name of each
  account, and the name index is its inverse, so two accounts never share a name.  Each write of
  \<open>db.go\<close> is then an update of the map.
\<close>

section \<open>Updates in place\<close>

lemma upd_entry_twice [simp]: "upd_entry k v (upd_entry k w es) = upd_entry k v es"
  by (induction k w es rule: upd_entry.induct) auto

lemma setScope_twice [simp]: "setScope sc t (setScope sc s ns) = setScope sc t ns"
  by (cases "mgrScopes ns") (simp_all add: setScope_def)

lemma scopeAt_setScope [simp]:
  "scopeAt ns sc = Some s \<Longrightarrow> scopeAt (setScope sc t ns) sc = Some t"
  by (simp add: scopeAt_set)

lemma putScope_ok: "mgr_db_ok E \<Longrightarrow> scopeAt ns sc = Some s \<Longrightarrow>
    putScope E op e f sc ns = Inr (setScope sc (f s) ns)"
  by (simp add: putScope_eq_Inr mgr_db_ok_def)

text \<open>Every write to a scope replaces that scope and nothing else.\<close>

definition writes :: "(mgrStore \<Rightarrow> mgrStore mres) \<Rightarrow> keyScope \<Rightarrow> (scopeStore \<Rightarrow> scopeStore) \<Rightarrow> bool" where
  "writes op sc f \<longleftrightarrow> (\<forall>ns ns'. op ns = Inr ns' \<longrightarrow>
     (\<exists>s. scopeAt ns sc = Some s \<and> ns' = setScope sc (f s) ns))"

lemma writesD: "writes op sc f \<Longrightarrow> op ns = Inr ns' \<Longrightarrow>
    \<exists>s. scopeAt ns sc = Some s \<and> ns' = setScope sc (f s) ns"
  by (auto simp: writes_def)

lemma writes_putScope: "writes (putScope E op e f sc) sc f"
  by (auto simp: writes_def putScope_eq_Inr)

lemma writes_bind:
  assumes "writes a sc f" "writes b sc g"
  shows "writes (\<lambda>ns. bindE (a ns) b) sc (\<lambda>s. g (f s))"
  unfolding writes_def
proof (intro allI impI)
  fix ns ns'
  assume "bindE (a ns) b = Inr ns'"
  then obtain m where "a ns = Inr m" "b m = Inr ns'" by auto
  then obtain s t where "scopeAt ns sc = Some s" "m = setScope sc (f s) ns"
      "scopeAt m sc = Some t" "ns' = setScope sc (g t) m"
    using writesD[OF assms(1)] writesD[OF assms(2)] by metis
  then show "\<exists>s. scopeAt ns sc = Some s \<and> ns' = setScope sc (g (f s)) ns" by auto
qed

section \<open>The map of accounts\<close>

definition rowName :: "acctRowInterface \<Rightarrow> gostring" where
  "rowName r = (case r of DefaultAccount a \<Rightarrow> defName a | WatchOnlyAccount a \<Rightarrow> woName a)"

definition accountOf :: "scopeStore \<Rightarrow> bytes \<Rightarrow> acctRowInterface option" where
  "accountOf s = row_at decodeAccountRow (scAcct s)"

definition books :: "scopeStore \<Rightarrow> (bytes \<Rightarrow> acctRowInterface option) \<Rightarrow> bool" where
  "books s M \<longleftrightarrow> accountOf s = M \<and> rows_ok accountValue account_ok (scAcct s)
     \<and> (\<forall>k r. M k = Some r \<longrightarrow> length k = 4)
     \<and> (\<forall>k. bucketGet (scIdIdx s) k = map_option (\<lambda>r. stringToBytes (rowName r)) (M k))
     \<and> (\<forall>x k. bucketGet (scNameIdx s) x = Some k
          \<longleftrightarrow> (\<exists>r. M k = Some r \<and> x = stringToBytes (rowName r)))"

definition name_free :: "(bytes \<Rightarrow> acctRowInterface option) \<Rightarrow> bytes \<Rightarrow> gostring \<Rightarrow> bool" where
  "name_free M k name \<longleftrightarrow> (\<forall>k' r'. M k' = Some r' \<longrightarrow> k' \<noteq> k \<longrightarrow> rowName r' \<noteq> name)"

lemma books_parts:
  assumes "books s M"
  shows "accountOf s = M" "rows_ok accountValue account_ok (scAcct s)"
    "M k = Some r \<Longrightarrow> length k = 4"
    "bucketGet (scIdIdx s) k = map_option (\<lambda>r. stringToBytes (rowName r)) (M k)"
    "bucketGet (scNameIdx s) x = Some k \<longleftrightarrow> (\<exists>r. M k = Some r \<and> x = stringToBytes (rowName r))"
  using assms unfolding books_def by blast+

lemma booksD:
  assumes "books s M" "M k = Some r"
  shows "bucketGet (scAcct s) k = Some (accountValue r)" "account_ok r" "length k = 4"
    "bucketGet (scIdIdx s) k = Some (stringToBytes (rowName r))"
    "bucketGet (scNameIdx s) (stringToBytes (rowName r)) = Some k"
proof -
  note p = books_parts[OF assms(1)]
  have ro: "row_at decodeAccountRow (scAcct s) k = Some r"
    using p(1) assms(2) by (simp add: accountOf_def)
  from acctRows.row_of(1,2)[OF p(2) ro]
  show "bucketGet (scAcct s) k = Some (accountValue r)" "account_ok r" .
  show "length k = 4" using assms(2) by (rule p(3))
  show "bucketGet (scIdIdx s) k = Some (stringToBytes (rowName r))" unfolding p(4) assms(2) by simp
  show "bucketGet (scNameIdx s) (stringToBytes (rowName r)) = Some k" unfolding p(5) using assms(2) by blast
qed

lemma books_None:
  assumes "books s M" "M k = None"
  shows "bucketGet (scAcct s) k = None" "bucketGet (scIdIdx s) k = None"
proof -
  note p = books_parts[OF assms(1)]
  have "row_at decodeAccountRow (scAcct s) k = None" using p(1) assms(2) by (simp add: accountOf_def)
  then show "bucketGet (scAcct s) k = None" using acctRows.row_none[OF p(2)] by blast
  show "bucketGet (scIdIdx s) k = None" unfolding p(4) assms(2) by simp
qed

lemma books_names_inj:
  assumes "books s M" "M k = Some r" "M k' = Some r'" "rowName r = rowName r'"
  shows "k = k'"
  using booksD(5)[OF assms(1,2)] booksD(5)[OF assms(1,3)] assms(4) by simp

text \<open>What \<open>putAccountInfo\<close> does to the scope, after the old name is gone from the name index.\<close>

definition enterAccount :: "bytes \<Rightarrow> bytes \<Rightarrow> gostring \<Rightarrow> scopeStore \<Rightarrow> scopeStore" where
  "enterAccount k v name s = s\<lparr>scAcct := bucketPut (scAcct s) k v,
     scIdIdx := bucketPut (scIdIdx s) k (stringToBytes name),
     scNameIdx := bucketPut (scNameIdx s) (stringToBytes name) k\<rparr>"

definition forgetName :: "bytes \<Rightarrow> (bytes \<Rightarrow> acctRowInterface option) \<Rightarrow> scopeStore \<Rightarrow> scopeStore" where
  "forgetName k M s = (case M k of
     None \<Rightarrow> s
   | Some r \<Rightarrow> s\<lparr>scNameIdx := bucketDelete (scNameIdx s) (stringToBytes (rowName r))\<rparr>)"

lemma books_enter:
  assumes b: "books s M" and r: "account_ok r" "length k = 4" and free: "name_free M k (rowName r)"
  shows "books (enterAccount k (accountValue r) (rowName r) (forgetName k M s)) (M(k \<mapsto> r))"
proof -
  let ?s = "enterAccount k (accountValue r) (rowName r) (forgetName k M s)"
  note p = books_parts[OF b]
  have fn: "scAcct (forgetName k M s) = scAcct s" "scIdIdx (forgetName k M s) = scIdIdx s"
    by (simp_all add: forgetName_def split: option.split)
  have gf: "bucketGet (scNameIdx (forgetName k M s)) x = Some k'
      \<longleftrightarrow> k' \<noteq> k \<and> (\<exists>r. M k' = Some r \<and> x = stringToBytes (rowName r))" for x k'
  proof (cases "M k")
    case None
    have "bucketGet (scNameIdx s) x = Some k' \<longleftrightarrow> k' \<noteq> k \<and> (\<exists>r. M k' = Some r \<and> x = stringToBytes (rowName r))"
      unfolding p(5) using None by auto
    then show ?thesis unfolding forgetName_def None option.case .
  next
    case (Some r0)
    have g: "bucketGet (scNameIdx (forgetName k M s)) x
        = (if x = stringToBytes (rowName r0) then None else bucketGet (scNameIdx s) x)"
      by (simp add: forgetName_def Some bucketGet_upd)
    have inj: "k' = k" if "M k' = Some r'" "rowName r' = rowName r0" for k' r'
      using books_names_inj[OF b that(1) Some that(2)] .
    show ?thesis
    proof (cases "x = stringToBytes (rowName r0)")
      case True
      then show ?thesis unfolding g using inj by auto
    next
      case False
      then have "bucketGet (scNameIdx (forgetName k M s)) x = Some k'
          \<longleftrightarrow> (\<exists>r. M k' = Some r \<and> x = stringToBytes (rowName r))"
        unfolding g p(5)[symmetric] by simp
      with False Some show ?thesis by auto
    qed
  qed
  have "accountOf ?s = M(k \<mapsto> r)"
    using p(1) acctRows.row_put[OF r(1)] by (simp add: accountOf_def enterAccount_def fn)
  moreover have "rows_ok accountValue account_ok (scAcct ?s)"
    using acctRows.rows_ok_put[OF p(2) r(1)] by (simp add: enterAccount_def fn)
  moreover have "\<forall>k' r'. (M(k \<mapsto> r)) k' = Some r' \<longrightarrow> length k' = 4"
    using p(3) r(2) by auto
  moreover have "\<forall>k'. bucketGet (scIdIdx ?s) k'
      = map_option (\<lambda>r. stringToBytes (rowName r)) ((M(k \<mapsto> r)) k')"
    by (simp add: enterAccount_def bucketGet_upd fn p(4))
  moreover have "bucketGet (scNameIdx ?s) x = Some k'
      \<longleftrightarrow> (\<exists>r'. (M(k \<mapsto> r)) k' = Some r' \<and> x = stringToBytes (rowName r'))" for x k'
  proof -
    have g: "bucketGet (scNameIdx ?s) x = (if x = stringToBytes (rowName r) then Some k
        else bucketGet (scNameIdx (forgetName k M s)) x)"
      by (simp add: enterAccount_def bucketGet_upd)
    show ?thesis
    proof (cases "x = stringToBytes (rowName r)")
      case True
      have "k' = k" if "M k' = Some r'" "rowName r' = rowName r" for r'
        using free that unfolding name_free_def by blast
      with True show ?thesis unfolding g by (auto dest: sym)
    next
      case False
      then have "bucketGet (scNameIdx ?s) x = Some k'
          \<longleftrightarrow> k' \<noteq> k \<and> (\<exists>r'. M k' = Some r' \<and> x = stringToBytes (rowName r'))"
        unfolding g gf[symmetric] by simp
      with False show ?thesis by auto
    qed
  qed
  ultimately show ?thesis unfolding books_def by blast
qed

lemma books_row:
  assumes b: "books s M" and r: "M k = Some r0" "account_ok r" "rowName r = rowName r0"
  shows "books (s\<lparr>scAcct := bucketPut (scAcct s) k (accountValue r)\<rparr>) (M(k \<mapsto> r))"
proof -
  let ?s = "s\<lparr>scAcct := bucketPut (scAcct s) k (accountValue r)\<rparr>"
  note p = books_parts[OF b]
  have "accountOf ?s = M(k \<mapsto> r)"
    using p(1) acctRows.row_put[OF r(2)] by (simp add: accountOf_def)
  moreover have "rows_ok accountValue account_ok (scAcct ?s)"
    using acctRows.rows_ok_put[OF p(2) r(2)] by simp
  moreover have "\<forall>k' r'. (M(k \<mapsto> r)) k' = Some r' \<longrightarrow> length k' = 4"
    using p(3) r(1) by auto
  moreover have "\<forall>k'. bucketGet (scIdIdx ?s) k'
      = map_option (\<lambda>r. stringToBytes (rowName r)) ((M(k \<mapsto> r)) k')"
    using r by (simp add: p(4))
  moreover have "bucketGet (scNameIdx ?s) x = Some k'
      \<longleftrightarrow> (\<exists>r'. (M(k \<mapsto> r)) k' = Some r' \<and> x = stringToBytes (rowName r'))" for x k'
    using p(5)[of x k'] r(1,3) by (cases "k' = k") simp_all
  ultimately show ?thesis unfolding books_def by blast
qed

section \<open>Lookups\<close>

text \<open>The scope \<open>sc\<close> of the namespace holds the accounts \<open>M\<close>.\<close>

definition accounts_at :: "mgrStore \<Rightarrow> keyScope \<Rightarrow> (bytes \<Rightarrow> acctRowInterface option) \<Rightarrow> bool" where
  "accounts_at ns sc M \<longleftrightarrow> (\<exists>s. scopeAt ns sc = Some s \<and> books s M)"

lemma rowName_fits: "account_ok r \<Longrightarrow> 4 + length (rowName r) < 2 ^ 32"
  by (auto simp: account_ok_def rowName_def split: acctRowInterface.splits)

lemma fetchAccountInfo_spec:
  assumes "accounts_at ns sc M"
  shows "fetchAccountInfo ns sc a = (case M (uint32ToBytes a) of
    None \<Rightarrow> Inl (managerError ErrAccountNotFound) | Some r \<Rightarrow> Inr r)"
proof -
  obtain s where s: "scopeAt ns sc = Some s" and b: "books s M"
    using assms unfolding accounts_at_def by blast
  show ?thesis
  proof (cases "M (uint32ToBytes a)")
    case None
    then show ?thesis
      by (simp add: fetchAccountInfo_def fetchScope_at[OF s] books_None[OF b])
  next
    case (Some r)
    then show ?thesis
      by (simp add: fetchAccountInfo_def fetchScope_at[OF s] booksD[OF b] decode_accountValue)
  qed
qed

lemma fetchAccountName_spec:
  assumes "accounts_at ns sc M"
  shows "fetchAccountName ns sc a = (case M (uint32ToBytes a) of
    None \<Rightarrow> Inl (managerError ErrAccountNotFound) | Some r \<Rightarrow> Inr (rowName r))"
proof -
  obtain s where s: "scopeAt ns sc = Some s" and b: "books s M"
    using assms unfolding accounts_at_def by blast
  show ?thesis
  proof (cases "M (uint32ToBytes a)")
    case None
    then show ?thesis
      by (simp add: fetchAccountName_def fetchScope_at[OF s] books_None[OF b])
  next
    case (Some r)
    have "readBlob (stringToBytes (rowName r)) (word_of_nat 0)
        = Inr (rowName r, word_of_nat (0 + 4 + length (rowName r)))"
      by (rule readBlob_at)
        (use rowName_fits[OF booksD(2)[OF b Some]] in \<open>simp_all add: field_at_def blob_def stringToBytes_def\<close>)
    then have "readBlob (stringToBytes (rowName r)) 0 = Inr (rowName r, word_of_nat (4 + length (rowName r)))"
      by simp
    then show ?thesis
      by (simp add: fetchAccountName_def fetchScope_at[OF s] booksD(4)[OF b Some] Some del: of_nat_add)
  qed
qed

lemma fetchAccountByName_spec:
  assumes "accounts_at ns sc M"
  shows "fetchAccountByName ns sc name = Inr a
      \<longleftrightarrow> (\<exists>r. M (uint32ToBytes a) = Some r \<and> rowName r = name)"
    and "(\<And>k r. M k = Some r \<Longrightarrow> rowName r \<noteq> name) \<Longrightarrow>
      fetchAccountByName ns sc name = Inl (managerError ErrAccountNotFound)"
proof -
  obtain s where s: "scopeAt ns sc = Some s" and b: "books s M"
    using assms unfolding accounts_at_def by blast
  note p = books_parts[OF b]
  show "fetchAccountByName ns sc name = Inr a
      \<longleftrightarrow> (\<exists>r. M (uint32ToBytes a) = Some r \<and> rowName r = name)"
  proof (cases "bucketGet (scNameIdx s) (stringToBytes name)")
    case None
    then have "\<not> (\<exists>r. M (uint32ToBytes a) = Some r \<and> stringToBytes name = stringToBytes (rowName r))"
      using p(5)[of "stringToBytes name" "uint32ToBytes a"] by simp
    with None show ?thesis by (auto simp: fetchAccountByName_def fetchScope_at[OF s])
  next
    case (Some k)
    then obtain r where r: "M k = Some r" "rowName r = name" using p(5)[of "stringToBytes name" k] by auto
    have l: "length k = 4" using p(3)[OF r(1)] .
    have "fetchAccountByName ns sc name = Inr a \<longleftrightarrow> k = uint32ToBytes a"
      using Some l uint32ToBytes_le32[of k]
      by (auto simp: fetchAccountByName_def fetchScope_at[OF s])
    moreover have "(\<exists>r'. M (uint32ToBytes a) = Some r' \<and> rowName r' = name) \<longleftrightarrow> k = uint32ToBytes a"
      using r books_names_inj[OF b r(1)] by blast
    ultimately show ?thesis by blast
  qed
  assume no: "\<And>k r. M k = Some r \<Longrightarrow> rowName r \<noteq> name"
  have "bucketGet (scNameIdx s) (stringToBytes name) = None"
  proof (cases "bucketGet (scNameIdx s) (stringToBytes name)")
    case (Some k)
    then obtain r where "M k = Some r" "rowName r = name" using p(5)[of "stringToBytes name" k] by auto
    with no show ?thesis by blast
  qed
  then show "fetchAccountByName ns sc name = Inl (managerError ErrAccountNotFound)"
    by (simp add: fetchAccountByName_def fetchScope_at[OF s])
qed

section \<open>Writing an account\<close>

lemma writes_putAccountInfo:
  "writes (\<lambda>ns. putAccountInfo E ns sc a row name) sc
    (enterAccount (uint32ToBytes a) (serializeAccountRow row) name)"
proof -
  have "writes (\<lambda>ns. bindE (bindE (putAccountRow E ns sc a row) (\<lambda>ns. putAccountIDIndex E ns sc a name))
      (\<lambda>ns. putAccountNameIndex E ns sc a name)) sc (\<lambda>s.
        (\<lambda>s. s\<lparr>scNameIdx := bucketPut (scNameIdx s) (stringToBytes name) (uint32ToBytes a)\<rparr>)
        ((\<lambda>s. s\<lparr>scIdIdx := bucketPut (scIdIdx s) (uint32ToBytes a) (stringToBytes name)\<rparr>)
        ((\<lambda>s. s\<lparr>scAcct := bucketPut (scAcct s) (uint32ToBytes a) (serializeAccountRow row)\<rparr>) s)))"
    unfolding putAccountRow_def putAccountIDIndex_def putAccountNameIndex_def Let_def
    by (intro writes_bind writes_putScope)
  then show ?thesis by (simp add: putAccountInfo_def writes_def enterAccount_def) blast
qed

lemma putAccountInfo_ok:
  assumes "mgr_db_ok E" "scopeAt ns sc = Some s"
  shows "putAccountInfo E ns sc a row name
    = Inr (setScope sc (enterAccount (uint32ToBytes a) (serializeAccountRow row) name s) ns)"
  using assms by (simp add: putAccountInfo_def putAccountRow_def putAccountIDIndex_def
      putAccountNameIndex_def Let_def putScope_ok[OF assms(1)] enterAccount_def)

definition defaultAccount :: "bytes \<Rightarrow> bytes \<Rightarrow> u32 \<Rightarrow> u32 \<Rightarrow> gostring \<Rightarrow> acctRowInterface" where
  "defaultAccount pub priv nextExternal nextInternal name = DefaultAccount
     \<lparr>acctType = accountDefault, acctRawData = defaultRaw pub priv nextExternal nextInternal name,
      defPubKeyEncrypted = pub, defPrivKeyEncrypted = priv, defNextExternalIndex = nextExternal,
      defNextInternalIndex = nextInternal, defName = name\<rparr>"

definition watchOnlyAccount :: "bytes \<Rightarrow> u32 \<Rightarrow> u32 \<Rightarrow> u32 \<Rightarrow> gostring \<Rightarrow> scopeAddrSchema option
    \<Rightarrow> acctRowInterface" where
  "watchOnlyAccount pub fp nextExternal nextInternal name schema = WatchOnlyAccount
     \<lparr>acctType = accountWatchOnly,
      acctRawData = serializeWatchOnlyAccountRow pub fp nextExternal nextInternal name schema,
      woPubKeyEncrypted = pub, woMasterKeyFingerprint = fp, woNextExternalIndex = nextExternal,
      woNextInternalIndex = nextInternal, woName = name, woAddrSchema = schema\<rparr>"

lemma account_ok_made:
  "account_ok (defaultAccount pub priv e i name)
    \<longleftrightarrow> 25 + length pub + length priv + length name < 2 ^ 32"
  "account_ok (watchOnlyAccount pub fp e i name schema) \<longleftrightarrow> 28 + length pub + length name < 2 ^ 32"
  by (simp_all add: account_ok_def defaultAccount_def watchOnlyAccount_def)

lemma rowName_made [simp]:
  "rowName (defaultAccount pub priv e i name) = name"
  "rowName (watchOnlyAccount pub fp e i name schema) = name"
  by (simp_all add: rowName_def defaultAccount_def watchOnlyAccount_def)

lemma putDefaultAccountInfo_enter:
  assumes "account_ok (defaultAccount pub priv e i name)"
    and "putDefaultAccountInfo E ns sc a pub priv e i name = Inr ns'"
  shows "\<exists>s. scopeAt ns sc = Some s \<and> ns' = setScope sc (enterAccount (uint32ToBytes a)
    (accountValue (defaultAccount pub priv e i name)) name s) ns"
proof -
  have "putAccountInfo E ns sc a \<lparr>acctType = accountDefault, acctRawData = defaultRaw pub priv e i name\<rparr> name = Inr ns'"
    using assms by (simp add: putDefaultAccountInfo_def account_ok_made serializeDefaultAccountRow_eq)
  from writesD[OF writes_putAccountInfo this] show ?thesis
    by (simp add: accountValue_def defaultAccount_def serializeAccountRow_def)
qed

lemma putWatchOnlyAccountInfo_enter:
  assumes "putWatchOnlyAccountInfo E ns sc a pub fp e i name schema = Inr ns'"
  shows "\<exists>s. scopeAt ns sc = Some s \<and> ns' = setScope sc (enterAccount (uint32ToBytes a)
    (accountValue (watchOnlyAccount pub fp e i name schema)) name s) ns"
  using writesD[OF writes_putAccountInfo assms[unfolded putWatchOnlyAccountInfo_def Let_def]]
  by (simp add: accountValue_def watchOnlyAccount_def serializeAccountRow_def)

end
