(* ===== verification/Mgr_Tables.thy ===== *)
theory Mgr_Tables
  imports Mgr_Books
begin

text \<open>
  The address tables of a scope as one map.  \<open>tables s D\<close> says that \<open>D\<close> maps the hash of an address
  to its row, that every stored row decodes, and that both directions of \<open>addracctidx\<close> agree with
  the account written in the row.
\<close>

definition rowBase :: "addrRowInterface \<Rightarrow> dbAddressRow" where
  "rowBase r = (case r of
     ChainAddress a \<Rightarrow> dbAddressRow.truncate a
   | ImportedAddress a \<Rightarrow> dbAddressRow.truncate a
   | ScriptAddress a \<Rightarrow> dbAddressRow.truncate a
   | WitnessScriptAddress a \<Rightarrow> dbAddressRow.truncate a)"

definition rowAccount :: "addrRowInterface \<Rightarrow> u32" where
  "rowAccount r = addrAccount (rowBase r)"

definition addressOf :: "scopeStore \<Rightarrow> bytes \<Rightarrow> addrRowInterface option" where
  "addressOf s = row_at decodeAddressRow (scAddr s)"

definition in_account :: "scopeStore \<Rightarrow> u32 \<Rightarrow> bytes \<Rightarrow> bool" where
  "in_account s a h = (case acctAddrs s a of None \<Rightarrow> False | Some b \<Rightarrow> bucketGet b h \<noteq> None)"

definition tables :: "scopeStore \<Rightarrow> (bytes \<Rightarrow> addrRowInterface option) \<Rightarrow> bool" where
  "tables s D \<longleftrightarrow> addressOf s = D \<and> rows_ok addressValue address_ok (scAddr s)
     \<and> (\<forall>h. bucketGet (scAddrAcct s) h = map_option (\<lambda>r. uint32ToBytes (rowAccount r)) (D h))
     \<and> (\<forall>a h. in_account s a h \<longleftrightarrow> (\<exists>r. D h = Some r \<and> rowAccount r = a))"

lemma tables_parts:
  assumes "tables s D"
  shows "addressOf s = D" "rows_ok addressValue address_ok (scAddr s)"
    "bucketGet (scAddrAcct s) h = map_option (\<lambda>r. uint32ToBytes (rowAccount r)) (D h)"
    "in_account s a h \<longleftrightarrow> (\<exists>r. D h = Some r \<and> rowAccount r = a)"
  using assms unfolding tables_def by blast+

lemma tablesD:
  assumes "tables s D" "D h = Some r"
  shows "bucketGet (scAddr s) h = Some (addressValue r)" "address_ok r"
    "bucketGet (scAddrAcct s) h = Some (uint32ToBytes (rowAccount r))"
proof -
  note p = tables_parts[OF assms(1)]
  have ro: "row_at decodeAddressRow (scAddr s) h = Some r"
    using p(1) assms(2) by (simp add: addressOf_def)
  from addrRows.row_of(1,2)[OF p(2) ro]
  show "bucketGet (scAddr s) h = Some (addressValue r)" "address_ok r" .
  show "bucketGet (scAddrAcct s) h = Some (uint32ToBytes (rowAccount r))" unfolding p(3) assms(2) by simp
qed

lemma tables_None:
  assumes "tables s D" "D h = None"
  shows "bucketGet (scAddr s) h = None" "bucketGet (scAddrAcct s) h = None"
proof -
  note p = tables_parts[OF assms(1)]
  have "row_at decodeAddressRow (scAddr s) h = None" using p(1) assms(2) by (simp add: addressOf_def)
  then show "bucketGet (scAddr s) h = None" using addrRows.row_none[OF p(2)] by blast
  show "bucketGet (scAddrAcct s) h = None" unfolding p(3) assms(2) by simp
qed

section \<open>Storing an address\<close>

definition enterAddress :: "bytes \<Rightarrow> bytes \<Rightarrow> u32 \<Rightarrow> scopeStore \<Rightarrow> scopeStore" where
  "enterAddress h v a s = s\<lparr>scAddr := bucketPut (scAddr s) h v,
     scAddrAcct := bucketPut (scAddrAcct s) h (uint32ToBytes a),
     scAcctAddrs := upd_entry (uint32ToBytes a)
       (bucketPut (case acctAddrs s a of None \<Rightarrow> bucketEmpty | Some b \<Rightarrow> b) h [0]) (scAcctAddrs s)\<rparr>"

lemma acctAddrs_enter:
  "acctAddrs (enterAddress h v a s) a' = (if a' = a
     then Some (bucketPut (case acctAddrs s a of None \<Rightarrow> bucketEmpty | Some b \<Rightarrow> b) h [0])
     else acctAddrs s a')"
  by (simp add: enterAddress_def acctAddrs_def map_of_upd_entry)

lemma in_account_enter:
  "in_account (enterAddress h v a s) a' h' \<longleftrightarrow> (a' = a \<and> h' = h) \<or> in_account s a' h'"
  by (simp add: in_account_def acctAddrs_enter bucketGet_upd split: option.split)

lemma tables_enter:
  assumes t: "tables s D" and r: "address_ok r"
    and same: "\<And>r0. D h = Some r0 \<Longrightarrow> rowAccount r0 = rowAccount r"
  shows "tables (enterAddress h (addressValue r) (rowAccount r) s) (D(h \<mapsto> r))"
proof -
  let ?s = "enterAddress h (addressValue r) (rowAccount r) s"
  note p = tables_parts[OF t]
  have "addressOf ?s = D(h \<mapsto> r)"
    using p(1) addrRows.row_put[OF r] by (simp add: addressOf_def enterAddress_def)
  moreover have "rows_ok addressValue address_ok (scAddr ?s)"
    using addrRows.rows_ok_put[OF p(2) r] by (simp add: enterAddress_def)
  moreover have "\<forall>h'. bucketGet (scAddrAcct ?s) h'
      = map_option (\<lambda>r. uint32ToBytes (rowAccount r)) ((D(h \<mapsto> r)) h')"
    by (simp add: enterAddress_def bucketGet_upd p(3))
  moreover have "in_account ?s a h' \<longleftrightarrow> (\<exists>r'. (D(h \<mapsto> r)) h' = Some r' \<and> rowAccount r' = a)" for a h'
    unfolding in_account_enter p(4) using same by (cases "h' = h") auto
  ultimately show ?thesis unfolding tables_def by blast
qed

lemma writes_putAddress:
  "writes (\<lambda>ns. putAddress E ns sc addressID row) sc
    (enterAddress (sha256 E addressID) (serializeAddressRow row) (addrAccount row))"
  unfolding writes_def
proof (intro allI impI)
  fix ns ns'
  assume "putAddress E ns sc addressID row = Inr ns'"
  then obtain m s t where m: "scopeAt ns sc = Some s"
      "m = setScope sc (s\<lparr>scAddr := bucketPut (scAddr s) (sha256 E addressID) (serializeAddressRow row)\<rparr>) ns"
    and r: "putAddrAccountIndex E m sc (addrAccount row) (sha256 E addressID) = Inr ns'"
    by (auto simp: putAddress_def Let_def putScope_eq_Inr)
  then show "\<exists>s. scopeAt ns sc = Some s \<and> ns' = setScope sc
      (enterAddress (sha256 E addressID) (serializeAddressRow row) (addrAccount row) s) ns"
    by (auto simp: putAddrAccountIndex_def Let_def putScope_eq_Inr enterAddress_def acctAddrs_def
        split: if_splits)
qed

lemma putAddress_ok:
  assumes "mgr_db_ok E" "scopeAt ns sc = Some s"
  shows "putAddress E ns sc addressID row = Inr (setScope sc
    (enterAddress (sha256 E addressID) (serializeAddressRow row) (addrAccount row) s) ns)"
  using assms by (simp add: putAddress_def putAddrAccountIndex_def Let_def putScope_ok[OF assms(1)]
      enterAddress_def acctAddrs_def fetchScope_at)

section \<open>Rows made by the put functions\<close>

definition chainRow :: "dbAddressRow \<Rightarrow> u32 \<Rightarrow> u32 \<Rightarrow> addrRowInterface" where
  "chainRow b branch index = ChainAddress (dbAddressRow.extend
     (b\<lparr>addrRawData := serializeChainedAddress branch index\<rparr>) \<lparr>chainBranch = branch, chainIndex = index\<rparr>)"

definition importedRow :: "dbAddressRow \<Rightarrow> bytes \<Rightarrow> bytes \<Rightarrow> addrRowInterface" where
  "importedRow b pub priv = ImportedAddress (dbAddressRow.extend
     (b\<lparr>addrRawData := blob pub @ blob priv\<rparr>) \<lparr>impPubKey = pub, impPrivKey = priv\<rparr>)"

definition scriptRow :: "dbAddressRow \<Rightarrow> bytes \<Rightarrow> bytes \<Rightarrow> addrRowInterface" where
  "scriptRow b hash script = ScriptAddress (dbAddressRow.extend
     (b\<lparr>addrRawData := blob hash @ blob script\<rparr>) \<lparr>scrHash = hash, scrScript = script\<rparr>)"

definition witnessRow :: "dbAddressRow \<Rightarrow> u8 \<Rightarrow> bool \<Rightarrow> bytes \<Rightarrow> bytes \<Rightarrow> addrRowInterface" where
  "witnessRow b version isSecret hash script = WitnessScriptAddress (dbAddressRow.extend
     (b\<lparr>addrRawData := [version, if isSecret then 1 else 0] @ blob hash @ blob script\<rparr>)
     \<lparr>witVersion = version, witIsSecret = isSecret, witHash = hash, witScript = script\<rparr>)"

lemmas row_defs = chainRow_def importedRow_def scriptRow_def witnessRow_def

lemma rowAccount_made [simp]:
  "rowAccount (chainRow b branch index) = addrAccount b"
  "rowAccount (importedRow b pub priv) = addrAccount b"
  "rowAccount (scriptRow b hash script) = addrAccount b"
  "rowAccount (witnessRow b version isSecret hash script) = addrAccount b"
  by (simp_all add: row_defs rowAccount_def rowBase_def dbAddressRow.defs)

lemma address_ok_made:
  "address_ok (chainRow b branch index) \<longleftrightarrow> addrType b = adtChain"
  "address_ok (importedRow b pub priv)
    \<longleftrightarrow> addrType b = adtImport \<and> 26 + length pub + length priv < 2 ^ 32"
  "address_ok (scriptRow b hash script)
    \<longleftrightarrow> addrType b = adtScript \<and> 26 + length hash + length script < 2 ^ 32"
  "address_ok (witnessRow b version isSecret hash script)
    \<longleftrightarrow> addrType b \<in> {adtWitnessScript, adtTaprootScript} \<and> 28 + length hash + length script < 2 ^ 32"
  by (simp_all add: row_defs address_ok_def dbAddressRow.defs)

lemma addressValue_made:
  "addressValue (chainRow b branch index)
    = serializeAddressRow (b\<lparr>addrRawData := serializeChainedAddress branch index\<rparr>)"
  "addressValue (importedRow b pub priv) = serializeAddressRow (b\<lparr>addrRawData := blob pub @ blob priv\<rparr>)"
  "addressValue (scriptRow b hash script) = serializeAddressRow (b\<lparr>addrRawData := blob hash @ blob script\<rparr>)"
  "addressValue (witnessRow b version isSecret hash script) = serializeAddressRow
    (b\<lparr>addrRawData := [version, if isSecret then 1 else 0] @ blob hash @ blob script\<rparr>)"
  by (simp_all add: row_defs addressValue_def serializeAddressRow_def dbAddressRow.defs)

section \<open>Advancing an account\<close>

definition advanceRow :: "u32 \<Rightarrow> u32 \<Rightarrow> acctRowInterface \<Rightarrow> acctRowInterface" where
  "advanceRow branch index r = (case r of
     DefaultAccount a \<Rightarrow> defaultAccount (defPubKeyEncrypted a) (defPrivKeyEncrypted a)
       (if branch = InternalBranch_mgr then defNextExternalIndex a else index + 1)
       (if branch = InternalBranch_mgr then index + 1 else defNextInternalIndex a) (defName a)
   | WatchOnlyAccount a \<Rightarrow> watchOnlyAccount (woPubKeyEncrypted a) (woMasterKeyFingerprint a)
       (if branch = InternalBranch_mgr then woNextExternalIndex a else index + 1)
       (if branch = InternalBranch_mgr then index + 1 else woNextInternalIndex a) (woName a)
       (woAddrSchema a))"

lemma advanceRow_ok: "account_ok r \<Longrightarrow> account_ok (advanceRow branch index r)"
  by (cases r) (simp_all add: advanceRow_def account_ok_made, simp_all add: account_ok_def)

lemma rowName_advance [simp]: "rowName (advanceRow branch index r) = rowName r"
  by (simp add: advanceRow_def split: acctRowInterface.split) (simp add: rowName_def)

text \<open>\<open>deserializeAccountRow\<close> and then the type-specific reader recover the row they stored.\<close>

lemma deserialize_accountValue:
  assumes "account_ok r"
  shows "\<exists>row. deserializeAccountRow (accountValue r) = Inr row
    \<and> (case r of
         DefaultAccount a \<Rightarrow> acctType row = accountDefault \<and> deserializeDefaultAccountRow row = Inr a
       | WatchOnlyAccount a \<Rightarrow> acctType row = accountWatchOnly \<and> deserializeWatchOnlyAccountRow row = Inr a)"
proof -
  obtain row where row: "deserializeAccountRow (accountValue r) = Inr row"
    and d: "(if acctType row = accountDefault
      then bindE (deserializeDefaultAccountRow row) (\<lambda>a. Inr (DefaultAccount a))
      else if acctType row = accountWatchOnly
      then bindE (deserializeWatchOnlyAccountRow row) (\<lambda>a. Inr (WatchOnlyAccount a))
      else Inl (managerError ErrDatabase_mgr)) = Inr r"
    using decode_accountValue[OF assms] unfolding decodeAccountRow_def bindE_eq_Inr by blast
  show ?thesis
    by (rule exI[of _ row]) (use row d in \<open>cases r; auto split: if_splits\<close>)
qed

lemma advanceIndex_spec:
  assumes "account_ok r" "deserializeAccountRow (accountValue r) = Inr row"
  shows "\<exists>row'. advanceIndex branch index row = Inr row'
    \<and> serializeAccountRow row' = accountValue (advanceRow branch index r)"
proof (cases r)
  case (DefaultAccount a)
  with deserialize_accountValue[OF assms(1)] assms(2)
  have "acctType row = accountDefault" "deserializeDefaultAccountRow row = Inr a" by auto
  moreover have "25 + length (defPubKeyEncrypted a) + length (defPrivKeyEncrypted a) + length (defName a) < 2 ^ 32"
    using assms(1) by (simp add: account_ok_def DefaultAccount)
  ultimately show ?thesis
    by (simp add: advanceIndex_def serializeDefaultAccountRow_eq advanceRow_def DefaultAccount
        accountValue_def defaultAccount_def serializeAccountRow_def)
next
  case (WatchOnlyAccount a)
  with deserialize_accountValue[OF assms(1)] assms(2)
  have "acctType row = accountWatchOnly" "deserializeWatchOnlyAccountRow row = Inr a" by auto
  then show ?thesis
    by (simp add: advanceIndex_def advanceRow_def WatchOnlyAccount accountDefault_def accountWatchOnly_def
        accountValue_def watchOnlyAccount_def serializeAccountRow_def)
qed

definition advanceScope :: "bytes \<Rightarrow> acctRowInterface \<Rightarrow> scopeStore \<Rightarrow> scopeStore" where
  "advanceScope k r s = s\<lparr>scAcct := bucketPut (scAcct s) k (accountValue r)\<rparr>"

lemma books_frame: "scAcct t = scAcct s \<Longrightarrow> scIdIdx t = scIdIdx s \<Longrightarrow> scNameIdx t = scNameIdx s \<Longrightarrow>
    books t M \<longleftrightarrow> books s M"
  by (simp add: books_def accountOf_def)

lemma tables_frame: "scAddr t = scAddr s \<Longrightarrow> scAddrAcct t = scAddrAcct s \<Longrightarrow>
    scAcctAddrs t = scAcctAddrs s \<Longrightarrow> tables t D \<longleftrightarrow> tables s D"
  by (simp add: tables_def addressOf_def in_account_def acctAddrs_def)

lemma books_enterAddress [simp]: "books (enterAddress h v a s) M \<longleftrightarrow> books s M"
  by (rule books_frame) (simp_all add: enterAddress_def)

lemma tables_enterAccount [simp]: "tables (enterAccount k v name s) D \<longleftrightarrow> tables s D"
  by (rule tables_frame) (simp_all add: enterAccount_def)

lemma tables_forgetName [simp]: "tables (forgetName k M s) D \<longleftrightarrow> tables s D"
  by (rule tables_frame) (simp_all add: forgetName_def split: option.split)

lemma tables_advance [simp]: "tables (advanceScope k r s) D \<longleftrightarrow> tables s D"
  by (rule tables_frame) (simp_all add: advanceScope_def)

definition chainedRow :: "'a mgrEnv_scheme \<Rightarrow> u32 \<Rightarrow> u8 \<Rightarrow> u32 \<Rightarrow> u32 \<Rightarrow> addrRowInterface" where
  "chainedRow E account status branch index =
     chainRow (addressRow E adtChain account status []) branch index"

definition chainedScope :: "'a mgrEnv_scheme \<Rightarrow> bytes \<Rightarrow> u32 \<Rightarrow> u8 \<Rightarrow> u32 \<Rightarrow> u32 \<Rightarrow> acctRowInterface
    \<Rightarrow> scopeStore \<Rightarrow> scopeStore" where
  "chainedScope E addressID account status branch index r s =
     advanceScope (uint32ToBytes account) (advanceRow branch index r)
      (enterAddress (sha256 E addressID) (addressValue (chainedRow E account status branch index)) account s)"

lemma putChainedAddress_enter:
  assumes s: "scopeAt ns sc = Some s" and b: "books s M"
    and r: "M (uint32ToBytes account) = Some r"
  shows "mgr_db_ok E \<Longrightarrow> putChainedAddress E ns sc addressID account status branch index adtChain
      = Inr (setScope sc (chainedScope E addressID account status branch index r s) ns)"
    and "putChainedAddress E ns sc addressID account status branch index adtChain = Inr ns'
      \<Longrightarrow> ns' = setScope sc (chainedScope E addressID account status branch index r s) ns"
proof -
  let ?row = "addressRow E adtChain account status (serializeChainedAddress branch index)"
  let ?v = "addressValue (chainedRow E account status branch index)"
  let ?s = "enterAddress (sha256 E addressID) ?v account s"
  let ?t = "chainedScope E addressID account status branch index r s"
  have v: "serializeAddressRow ?row = ?v" "addrAccount ?row = account"
    by (simp_all add: chainedRow_def addressValue_made addressRow_def)
  have sa: "scAcct ?s = scAcct s" by (simp add: enterAddress_def)
  note g = booksD(1,2)[OF b r]
  obtain row where row: "deserializeAccountRow (accountValue r) = Inr row"
    using deserialize_accountValue[OF g(2)] by blast
  obtain row' where row': "advanceIndex branch index row = Inr row'"
      "serializeAccountRow row' = accountValue (advanceRow branch index r)"
    using advanceIndex_spec[OF g(2) row] by blast
  show "putChainedAddress E ns sc addressID account status branch index adtChain = Inr (setScope sc ?t ns)"
    if ok: "mgr_db_ok E"
    using putAddress_ok[OF ok s, of addressID ?row] s
    by (simp add: putChainedAddress_def Let_def v sa g row row' putScope_ok[OF ok] chainedScope_def advanceScope_def
        fetchScope_at del: bindE_eq_Inr)
  show "ns' = setScope sc ?t ns"
    if res: "putChainedAddress E ns sc addressID account status branch index adtChain = Inr ns'"
  proof -
    obtain m where m: "putAddress E ns sc addressID ?row = Inr m"
      using res by (auto simp: putChainedAddress_def)
    from writesD[OF writes_putAddress m] s v have m': "m = setScope sc ?s ns" by auto
    with s have "scopeAt m sc = Some ?s" by simp
    with res m m' show ?thesis
      by (auto simp: putChainedAddress_def Let_def g sa row row' putScope_eq_Inr chainedScope_def advanceScope_def)
  qed
qed

lemma chainedScope_keeps:
  assumes b: "books s M" and t: "tables s D" and r: "M (uint32ToBytes account) = Some r"
    and same: "\<And>r0. D (sha256 E addressID) = Some r0 \<Longrightarrow> rowAccount r0 = account"
  shows "books (chainedScope E addressID account status branch index r s)
      (M(uint32ToBytes account \<mapsto> advanceRow branch index r))"
    and "tables (chainedScope E addressID account status branch index r s)
      (D(sha256 E addressID \<mapsto> chainedRow E account status branch index))"
proof -
  have a: "rowAccount (chainedRow E account status branch index) = account"
    "address_ok (chainedRow E account status branch index)"
    by (simp_all add: chainedRow_def address_ok_made addressRow_def)
  show "books (chainedScope E addressID account status branch index r s)
      (M(uint32ToBytes account \<mapsto> advanceRow branch index r))"
    unfolding chainedScope_def advanceScope_def
    by (rule books_row[where ?r0.0 = r]) (simp_all add: b r advanceRow_ok booksD(2)[OF b r])
  have "tables (enterAddress (sha256 E addressID)
      (addressValue (chainedRow E account status branch index))
      (rowAccount (chainedRow E account status branch index)) s)
      (D(sha256 E addressID \<mapsto> chainedRow E account status branch index))"
    by (rule tables_enter[OF t a(2)]) (simp add: a(1) same)
  then show "tables (chainedScope E addressID account status branch index r s)
      (D(sha256 E addressID \<mapsto> chainedRow E account status branch index))"
    by (simp add: chainedScope_def a(1))
qed

end
