(* ===== verification/Mgr_Strip.thy ===== *)
theory Mgr_Strip
  imports Mgr_Tables
begin

text \<open>
  What \<open>deletePrivateKeys\<close> leaves in the database: the same accounts and addresses, without their
  private parts.
\<close>

section \<open>Rewriting the rows of a bucket\<close>

definition rewritten :: "('r \<Rightarrow> 'r option) \<Rightarrow> 'r \<Rightarrow> 'r" where
  "rewritten f r = (case f r of None \<Rightarrow> r | Some r' \<Rightarrow> r')"

context row_codec
begin

lemma rewrite_entries:
  assumes db: "mgr_db_ok E"
    and st: "\<And>r. ok r \<Longrightarrow> strip (enc r) = Inr (map_option enc (f r))"
    and fok: "\<And>r. ok r \<Longrightarrow> ok (rewritten f r)"
  shows "rows_ok enc ok b \<Longrightarrow> distinct (map fst es) \<Longrightarrow> (\<forall>(k, v) \<in> set es. bucketGet b k = Some v) \<Longrightarrow>
    \<exists>b'. foldE (\<lambda>(k, v) b. bindE (strip v) (\<lambda>w. case w of
       None \<Rightarrow> Inr b
     | Some w \<Rightarrow> bindE (allowed E (MgrPut wh k w) ErrDb) (\<lambda>_. Inr (bucketPut b k w)))) es b = Inr b'
     \<and> rows_ok enc ok b'
     \<and> (\<forall>k. row_at dec b' k = (if k \<in> fst ` set es then map_option (rewritten f) (row_at dec b k)
          else row_at dec b k))"
proof (induction es arbitrary: b)
  case (Cons e es)
  obtain k v where e: "e = (k, v)" by (cases e)
  have v: "bucketGet b k = Some v" using Cons.prems(3) e by simp
  then obtain r where r: "ok r" "v = enc r" using Cons.prems(1) unfolding rows_ok_def by blast
  have rk: "row_at dec b k = Some r" by (simp add: row_at_def v r dec_enc)
  define b1 where "b1 = bucketPut b k (enc (rewritten f r))"
  have same: "bucketPut b k (enc r) = b" using kv.put_same v r(2) by simp
  have step: "bindE (strip v) (\<lambda>w. case w of
       None \<Rightarrow> Inr b
     | Some w \<Rightarrow> bindE (allowed E (MgrPut wh k w) ErrDb) (\<lambda>_. Inr (bucketPut b k w))) = Inr b1"
    using st[OF r(1)] db same by (cases "f r") (simp_all add: r(2) b1_def rewritten_def)
  have b1: "rows_ok enc ok b1" "row_at dec b1 = (row_at dec b)(k \<mapsto> rewritten f r)"
    unfolding b1_def using rows_ok_put[OF Cons.prems(1) fok[OF r(1)]] row_put[OF fok[OF r(1)]] by simp_all
  have "\<forall>(k', v') \<in> set es. bucketGet b1 k' = Some v'"
    using Cons.prems(2,3) e unfolding b1_def by (force simp: bucketGet_upd)
  then obtain b' where b': "foldE (\<lambda>(k, v) b. bindE (strip v) (\<lambda>w. case w of
       None \<Rightarrow> Inr b
     | Some w \<Rightarrow> bindE (allowed E (MgrPut wh k w) ErrDb) (\<lambda>_. Inr (bucketPut b k w)))) es b1 = Inr b'"
     "rows_ok enc ok b'" "\<forall>k. row_at dec b' k = (if k \<in> fst ` set es then map_option (rewritten f) (row_at dec b1 k)
          else row_at dec b1 k)"
    using Cons.IH[OF b1(1)] Cons.prems(2) by auto
  have nk: "k \<notin> fst ` set es" using Cons.prems(2) e by simp
  have "\<forall>k'. row_at dec b' k' = (if k' \<in> fst ` set (e # es) then map_option (rewritten f) (row_at dec b k')
          else row_at dec b k')"
    using b'(3) nk rk unfolding b1(2) e by auto
  moreover have "foldE (\<lambda>(k, v) b. bindE (strip v) (\<lambda>w. case w of
       None \<Rightarrow> Inr b
     | Some w \<Rightarrow> bindE (allowed E (MgrPut wh k w) ErrDb) (\<lambda>_. Inr (bucketPut b k w)))) (e # es) b = Inr b'"
    unfolding e foldE.simps prod.case step bindE_simps by (rule b'(1))
  ultimately show ?case using b'(2) by blast
qed simp

lemma rewriteRows_spec:
  assumes db: "mgr_db_ok E"
    and st: "\<And>r. ok r \<Longrightarrow> strip (enc r) = Inr (map_option enc (f r))"
    and fok: "\<And>r. ok r \<Longrightarrow> ok (rewritten f r)"
    and b: "rows_ok enc ok b"
  shows "\<exists>b'. rewriteRows E wh strip b = Inr b' \<and> rows_ok enc ok b'
    \<and> row_at dec b' = map_option (rewritten f) \<circ> row_at dec b"
proof -
  have "\<forall>(k, v) \<in> set (entries b). bucketGet b k = Some v" by (auto simp: kv.mem_items_iff)
  from rewrite_entries[OF db st fok b kv.distinct_items this, of wh]
  obtain b' where b': "rewriteRows E wh strip b = Inr b'" "rows_ok enc ok b'"
    "\<forall>k. row_at dec b' k = (if k \<in> fst ` set (entries b) then map_option (rewritten f) (row_at dec b k)
          else row_at dec b k)"
    unfolding rewriteRows_def by blast
  have "row_at dec b k = None" if "k \<notin> fst ` set (entries b)" for k
  proof -
    have "bucketGet b k = None" using that by (simp add: bucketGet_def map_of_eq_None_iff)
    then show ?thesis by (simp add: row_at_def)
  qed
  then have "row_at dec b' = map_option (rewritten f) \<circ> row_at dec b" using b'(3) by (auto simp: fun_eq_iff)
  then show ?thesis using b' by blast
qed

end

section \<open>Rows without private parts\<close>

definition publicAccount :: "acctRowInterface \<Rightarrow> acctRowInterface option" where
  "publicAccount r = (case r of
     DefaultAccount a \<Rightarrow> Some (defaultAccount (defPubKeyEncrypted a) [] (defNextExternalIndex a)
       (defNextInternalIndex a) (defName a))
   | WatchOnlyAccount _ \<Rightarrow> None)"

definition publicAddress :: "addrRowInterface \<Rightarrow> addrRowInterface option" where
  "publicAddress r = (case r of
     ChainAddress _ \<Rightarrow> None
   | ImportedAddress a \<Rightarrow> Some (importedRow (rowBase r) (impPubKey a) [])
   | ScriptAddress a \<Rightarrow> Some (scriptRow (rowBase r) (scrHash a) [])
   | WitnessScriptAddress a \<Rightarrow> if addrType a = adtWitnessScript \<and> witIsSecret a
       then Some (witnessRow (rowBase r) (witVersion a) True (witHash a) []) else None)"

lemma publicAccount_ok: "account_ok r \<Longrightarrow> account_ok (rewritten publicAccount r)"
proof (cases r)
  case (DefaultAccount a)
  assume "account_ok r"
  with DefaultAccount have "25 + length (defPubKeyEncrypted a) + length (defPrivKeyEncrypted a)
      + length (defName a) < 2 ^ 32" by (simp add: account_ok_def)
  with DefaultAccount show ?thesis by (simp add: rewritten_def publicAccount_def account_ok_made)
qed (simp add: rewritten_def publicAccount_def)

lemma rowName_public [simp]: "rowName (rewritten publicAccount r) = rowName r"
  by (cases r) (simp_all add: rewritten_def publicAccount_def, simp_all add: rowName_def)

lemma rowAccount_public [simp]: "rowAccount (rewritten publicAddress r) = rowAccount r"
  by (cases r) (simp_all add: rewritten_def publicAddress_def, simp_all add: rowAccount_def)

lemma stripAccount_spec: "account_ok r \<Longrightarrow> stripAccount (accountValue r) = Inr (map_option accountValue (publicAccount r))"
proof -
  assume ok: "account_ok r"
  from deserialize_accountValue[OF ok]
  obtain row where row: "deserializeAccountRow (accountValue r) = Inr row"
    and c: "case r of
         DefaultAccount a \<Rightarrow> acctType row = accountDefault \<and> deserializeDefaultAccountRow row = Inr a
       | WatchOnlyAccount a \<Rightarrow> acctType row = accountWatchOnly \<and> deserializeWatchOnlyAccountRow row = Inr a"
    by blast
  show ?thesis
  proof (cases r)
    case (DefaultAccount a)
    have "25 + length (defPubKeyEncrypted a) + length (defPrivKeyEncrypted a) + length (defName a) < 2 ^ 32"
      using ok by (simp add: account_ok_def DefaultAccount)
    then show ?thesis using c row DefaultAccount
      by (simp add: stripAccount_def serializeDefaultAccountRow_eq publicAccount_def
          accountValue_def defaultAccount_def serializeAccountRow_def)
  next
    case (WatchOnlyAccount a)
    then show ?thesis using c row
      by (simp add: stripAccount_def publicAccount_def accountDefault_def accountWatchOnly_def)
  qed
qed

lemma publicAddress_ok: "address_ok r \<Longrightarrow> address_ok (rewritten publicAddress r)"
proof (cases r)
  case (ImportedAddress a)
  assume "address_ok r"
  with ImportedAddress have "addrType a = adtImport" "26 + length (impPubKey a) + length (impPrivKey a) < 2 ^ 32"
    by (simp_all add: address_ok_def)
  with ImportedAddress show ?thesis
    by (simp add: rewritten_def publicAddress_def address_ok_made rowBase_def dbAddressRow.defs)
next
  case (ScriptAddress a)
  assume "address_ok r"
  with ScriptAddress have "addrType a = adtScript" "26 + length (scrHash a) + length (scrScript a) < 2 ^ 32"
    by (simp_all add: address_ok_def)
  with ScriptAddress show ?thesis
    by (simp add: rewritten_def publicAddress_def address_ok_made rowBase_def dbAddressRow.defs)
next
  case (WitnessScriptAddress a)
  assume ok: "address_ok r"
  with WitnessScriptAddress have "28 + length (witHash a) + length (witScript a) < 2 ^ 32"
    by (simp add: address_ok_def)
  with WitnessScriptAddress ok show ?thesis
    by (simp add: rewritten_def publicAddress_def address_ok_made rowBase_def dbAddressRow.defs)
qed (simp add: rewritten_def publicAddress_def)

text \<open>An address row decodes twice: the common part, and then the part of its type.\<close>

lemma deserialize_addressValue:
  assumes "address_ok r"
  shows "\<exists>row. deserializeAddressRow (addressValue r) = Inr row \<and> row = rowBase r \<and> (case r of
       ChainAddress a \<Rightarrow> addrType row = adtChain
     | ImportedAddress a \<Rightarrow> addrType row = adtImport \<and> deserializeImportedAddress row = Inr a
     | ScriptAddress a \<Rightarrow> addrType row = adtScript \<and> deserializeScriptAddress row = Inr a
     | WitnessScriptAddress a \<Rightarrow> addrType row \<in> {adtWitnessScript, adtTaprootScript}
         \<and> deserializeWitnessScriptAddress row = Inr a)"
proof -
  have fits: "18 + length (addrRawData (rowBase r)) < 2 ^ 32" using assms
    by (cases r) (auto simp: address_ok_def rowBase_def dbAddressRow.defs serializeChainedAddress_def)
  have val: "addressValue r = serializeAddressRow (rowBase r)"
    by (cases r) (simp_all add: addressValue_def rowBase_def serializeAddressRow_def dbAddressRow.defs)
  have trunc: "dbAddressRow.truncate (rowBase r) = rowBase r"
    by (cases r) (simp_all add: rowBase_def dbAddressRow.defs)
  have d: "deserializeAddressRow (addressValue r) = Inr (rowBase r)"
    using deserializeAddressRow_serialize[OF fits] unfolding val trunc .
  from decode_addressValue[OF assms] d
  have dec: "decodeAddressRow (serializeAddressRow (rowBase r)) = Inr r"
    "deserializeAddressRow (serializeAddressRow (rowBase r)) = Inr (rowBase r)" by (simp_all add: val)
  show ?thesis
  proof (cases r)
    case (ChainAddress a)
    with d assms show ?thesis by (simp add: address_ok_def rowBase_def dbAddressRow.defs)
  next
    case (ImportedAddress a)
    with d dec assms show ?thesis
      by (auto simp: address_ok_def rowBase_def dbAddressRow.defs decodeAddressRow_def adt_defs)
  next
    case (ScriptAddress a)
    with d dec assms show ?thesis
      by (auto simp: address_ok_def rowBase_def dbAddressRow.defs decodeAddressRow_def adt_defs)
  next
    case (WitnessScriptAddress a)
    with d dec assms show ?thesis
      by (auto simp: address_ok_def rowBase_def dbAddressRow.defs decodeAddressRow_def adt_defs)
  qed
qed

lemma stripAddress_spec:
  assumes ok: "address_ok r"
  shows "stripAddress (addressValue r) = Inr (map_option addressValue (publicAddress r))"
proof -
  obtain row where row: "deserializeAddressRow (addressValue r) = Inr row" "row = rowBase r"
    and c: "case r of
       ChainAddress a \<Rightarrow> addrType row = adtChain
     | ImportedAddress a \<Rightarrow> addrType row = adtImport \<and> deserializeImportedAddress row = Inr a
     | ScriptAddress a \<Rightarrow> addrType row = adtScript \<and> deserializeScriptAddress row = Inr a
     | WitnessScriptAddress a \<Rightarrow> addrType row \<in> {adtWitnessScript, adtTaprootScript}
         \<and> deserializeWitnessScriptAddress row = Inr a"
    using deserialize_addressValue[OF ok] by blast
  show ?thesis
  proof (cases r)
    case (ChainAddress a)
    then show ?thesis using row(1) c by (simp add: stripAddress_def publicAddress_def adt_defs)
  next
    case (ImportedAddress a)
    have "8 + length (impPubKey a) + length ([] :: bytes) < 2 ^ 32"
      using ok by (simp add: address_ok_def ImportedAddress)
    from serializeImportedAddress_eq[OF this] show ?thesis using row c ImportedAddress
      by (simp add: stripAddress_def publicAddress_def addressValue_made)
  next
    case (ScriptAddress a)
    have "8 + length (scrHash a) + length ([] :: bytes) < 2 ^ 32"
      using ok by (simp add: address_ok_def ScriptAddress)
    from serializeScriptAddress_eq[OF this] show ?thesis using row c ScriptAddress
      by (simp add: stripAddress_def publicAddress_def addressValue_made adt_defs)
  next
    case (WitnessScriptAddress a)
    have l: "10 + length (witHash a) + length ([] :: bytes) < 2 ^ 32"
      using ok by (simp add: address_ok_def WitnessScriptAddress)
    have t: "addrType row = addrType a"
      by (simp add: row(2) WitnessScriptAddress rowBase_def dbAddressRow.defs)
    show ?thesis
    proof (cases "addrType a = adtWitnessScript \<and> witIsSecret a")
      case True
      with serializeWitnessScriptAddress_eq[OF l, of "witVersion a" True] show ?thesis
        using row c WitnessScriptAddress t
        by (simp add: stripAddress_def publicAddress_def addressValue_made adt_defs)
    next
      case False
      then show ?thesis using row(1) c WitnessScriptAddress t
        by (auto simp: stripAddress_def publicAddress_def adt_defs)
    qed
  qed
qed

section \<open>The scopes\<close>

lemma books_public:
  assumes b: "books s M" and t: "accountOf t = map_option (rewritten publicAccount) \<circ> M"
    "rows_ok accountValue account_ok (scAcct t)" "scIdIdx t = scIdIdx s" "scNameIdx t = scNameIdx s"
  shows "books t (map_option (rewritten publicAccount) \<circ> M)"
proof -
  note p = books_parts[OF b]
  have "\<forall>k r. (map_option (rewritten publicAccount) \<circ> M) k = Some r \<longrightarrow> length k = 4"
    using p(3) by auto
  moreover have "\<forall>k. bucketGet (scIdIdx t) k
      = map_option (\<lambda>r. stringToBytes (rowName r)) ((map_option (rewritten publicAccount) \<circ> M) k)"
    by (simp add: t(3) p(4) option.map_comp comp_def)
  moreover have "bucketGet (scNameIdx t) x = Some k \<longleftrightarrow>
      (\<exists>r. (map_option (rewritten publicAccount) \<circ> M) k = Some r \<and> x = stringToBytes (rowName r))" for x k
    unfolding t(4) p(5) by auto
  ultimately show ?thesis using t(1,2) unfolding books_def by blast
qed

lemma tables_public:
  assumes b: "tables s D" and t: "addressOf t = map_option (rewritten publicAddress) \<circ> D"
    "rows_ok addressValue address_ok (scAddr t)" "scAddrAcct t = scAddrAcct s" "scAcctAddrs t = scAcctAddrs s"
  shows "tables t (map_option (rewritten publicAddress) \<circ> D)"
proof -
  note p = tables_parts[OF b]
  have "\<forall>h. bucketGet (scAddrAcct t) h
      = map_option (\<lambda>r. uint32ToBytes (rowAccount r)) ((map_option (rewritten publicAddress) \<circ> D) h)"
    by (simp add: t(3) p(3) option.map_comp comp_def)
  moreover have "in_account t = in_account s" by (simp add: in_account_def acctAddrs_def t(4) fun_eq_iff)
  then have "in_account t a h \<longleftrightarrow>
      (\<exists>r. (map_option (rewritten publicAddress) \<circ> D) h = Some r \<and> rowAccount r = a)" for a h
    using p(4) by auto
  ultimately show ?thesis using t(1,2) unfolding tables_def by blast
qed

definition public_scope :: "(bytes \<Rightarrow> acctRowInterface option) \<Rightarrow> (bytes \<Rightarrow> addrRowInterface option)
    \<Rightarrow> scopeStore \<Rightarrow> bool" where
  "public_scope M D s \<longleftrightarrow> books s (map_option (rewritten publicAccount) \<circ> M)
     \<and> tables s (map_option (rewritten publicAddress) \<circ> D)
     \<and> bucketGet (scKeys s) coinTypePrivKeyName = None"

lemma stripScope_spec:
  assumes db: "mgr_db_ok E" and b: "books s M" and t: "tables s D"
  shows "\<exists>s'. stripScope E sk s = Inr s' \<and> public_scope M D s'"
proof -
  obtain acct where a: "rewriteRows E (AcctB sk) stripAccount (scAcct s) = Inr acct"
      "rows_ok accountValue account_ok acct"
      "row_at decodeAccountRow acct = map_option (rewritten publicAccount) \<circ> row_at decodeAccountRow (scAcct s)"
    using acctRows.rewriteRows_spec[OF db stripAccount_spec publicAccount_ok books_parts(2)[OF b]] by blast
  obtain addr where d: "rewriteRows E (AddrB sk) stripAddress (scAddr s) = Inr addr"
      "rows_ok addressValue address_ok addr"
      "row_at decodeAddressRow addr = map_option (rewritten publicAddress) \<circ> row_at decodeAddressRow (scAddr s)"
    using addrRows.rewriteRows_spec[OF db stripAddress_spec publicAddress_ok tables_parts(2)[OF t]] by blast
  define s' where "s' = s\<lparr>scKeys := bucketDelete (scKeys s) coinTypePrivKeyName, scAcct := acct, scAddr := addr\<rparr>"
  have run: "stripScope E sk s = Inr s'"
    by (simp add: stripScope_def db a(1) d(1) s'_def)
  have "books s' (map_option (rewritten publicAccount) \<circ> M)"
    by (rule books_public[OF b]) (use a books_parts(1)[OF b] in \<open>simp_all add: s'_def accountOf_def\<close>)
  moreover have "tables s' (map_option (rewritten publicAddress) \<circ> D)"
    by (rule tables_public[OF t]) (use d tables_parts(1)[OF t] in \<open>simp_all add: s'_def addressOf_def\<close>)
  moreover have "bucketGet (scKeys s') coinTypePrivKeyName = None" by (simp add: s'_def bucketGet_upd)
  ultimately show ?thesis using run by (auto simp: public_scope_def)
qed

text \<open>The parts of a row that only an unlocked manager can decrypt.\<close>

definition accountSecret :: "acctRowInterface \<Rightarrow> bytes" where
  "accountSecret r = (case r of DefaultAccount a \<Rightarrow> defPrivKeyEncrypted a | WatchOnlyAccount _ \<Rightarrow> [])"

definition addressSecret :: "addrRowInterface \<Rightarrow> bytes" where
  "addressSecret r = (case r of
     ChainAddress _ \<Rightarrow> []
   | ImportedAddress a \<Rightarrow> impPrivKey a
   | ScriptAddress a \<Rightarrow> scrScript a
   | WitnessScriptAddress a \<Rightarrow> if witIsSecret a then witScript a else [])"

lemma accountSecret_public [simp]: "accountSecret (rewritten publicAccount r) = []"
  by (cases r) (simp_all add: rewritten_def publicAccount_def defaultAccount_def accountSecret_def
      dbAccountRow.defs)

text \<open>There is no case for a Taproot script: its row stays, secret or not.\<close>

lemma rewritten_taproot:
  "addrType (rowBase r) = adtTaprootScript \<Longrightarrow> address_ok r \<Longrightarrow> rewritten publicAddress r = r"
  by (cases r) (auto simp: rewritten_def publicAddress_def address_ok_def rowBase_def
      dbAddressRow.defs adt_defs)

lemma addressSecret_public:
  assumes "address_ok r" "addrType (rowBase r) \<noteq> adtTaprootScript"
  shows "addressSecret (rewritten publicAddress r) = []"
  using assms by (cases r) (auto simp: rewritten_def publicAddress_def addressSecret_def row_defs
      address_ok_def rowBase_def dbAddressRow.defs)

lemma type_public [simp]: "addrType (rowBase (rewritten publicAddress r)) = addrType (rowBase r)"
  by (cases r) (simp_all add: rewritten_def publicAddress_def row_defs, simp_all add: rowBase_def
      dbAddressRow.defs)

lemma strip_scopes:
  assumes db: "mgr_db_ok E"
  shows "distinct (map fst es) \<Longrightarrow> (\<forall>(k, s) \<in> set es. length k = 8 \<and> books s (M k) \<and> tables s (D k)) \<Longrightarrow>
    \<exists>ss'. foldE (\<lambda>(k, s) ss. if length k \<noteq> 8 then Inr ss
       else bindE (stripScope E k s) (\<lambda>s. Inr (upd_entry k s ss))) es ss = Inr ss'
     \<and> (\<forall>k. if k \<in> fst ` set es then \<exists>s'. map_of ss' k = Some s' \<and> public_scope (M k) (D k) s'
          else map_of ss' k = map_of ss k)"
proof (induction es arbitrary: ss)
  case (Cons e es)
  obtain k s where e: "e = (k, s)" by (cases e)
  have k: "length k = 8" "books s (M k)" "tables s (D k)" using Cons.prems(2) e by auto
  obtain s1 where s1: "stripScope E k s = Inr s1" "public_scope (M k) (D k) s1"
    using stripScope_spec[OF db k(2,3)] by blast
  obtain ss' where ss': "foldE (\<lambda>(k, s) ss. if length k \<noteq> 8 then Inr ss
       else bindE (stripScope E k s) (\<lambda>s. Inr (upd_entry k s ss))) es (upd_entry k s1 ss) = Inr ss'"
    and post: "\<And>k'. if k' \<in> fst ` set es then \<exists>s'. map_of ss' k' = Some s' \<and> public_scope (M k') (D k') s'
          else map_of ss' k' = map_of (upd_entry k s1 ss) k'"
    using Cons.IH[of "upd_entry k s1 ss"] Cons.prems by auto
  have run: "foldE (\<lambda>(k, s) ss. if length k \<noteq> 8 then Inr ss
       else bindE (stripScope E k s) (\<lambda>s. Inr (upd_entry k s ss))) (e # es) ss = Inr ss'"
    using ss' k(1) s1(1) by (simp add: e)
  have "k \<notin> fst ` set es" using Cons.prems(1) e by simp
  then have at: "map_of ss' k = Some s1" using post[of k] by (simp add: map_of_upd_entry)
  have "if k' \<in> fst ` set (e # es) then \<exists>s'. map_of ss' k' = Some s' \<and> public_scope (M k') (D k') s'
      else map_of ss' k' = map_of ss k'" for k'
    using post[of k'] at s1(2) by (cases "k' = k") (auto simp: e map_of_upd_entry)
  with run show ?case by blast
qed simp

text \<open>
  A scope with the accounts of \<open>M\<close> and the addresses of \<open>D\<close>, but without their private parts.
\<close>

definition stripped_scope :: "(bytes \<Rightarrow> acctRowInterface option) \<Rightarrow> (bytes \<Rightarrow> addrRowInterface option)
    \<Rightarrow> scopeStore \<Rightarrow> bool" where
  "stripped_scope M D s \<longleftrightarrow> bucketGet (scKeys s) coinTypePrivKeyName = None
     \<and> (\<exists>A. books s A \<and> dom A = dom M \<and> (\<forall>r \<in> ran A. accountSecret r = []))
     \<and> (\<exists>B. tables s B \<and> dom B = dom D
          \<and> (\<forall>h r. B h = Some r \<longrightarrow>
               (if addrType (rowBase r) = adtTaprootScript then D h = Some r else addressSecret r = [])))"

lemma stripped_public:
  assumes p: "public_scope M D s" and t: "tables s0 D"
  shows "stripped_scope M D s"
proof -
  let ?A = "map_option (rewritten publicAccount) \<circ> M"
    and ?B = "map_option (rewritten publicAddress) \<circ> D"
  have "if addrType (rowBase r) = adtTaprootScript then D h = Some r else addressSecret r = []"
    if row: "?B h = Some r" for h r
  proof -
    obtain r0 where r0: "D h = Some r0" "r = rewritten publicAddress r0" using row by auto
    have "address_ok r0" using tablesD(2)[OF t r0(1)] .
    with r0 show ?thesis using rewritten_taproot[of r0] addressSecret_public[of r0] type_public[of r0]
      by auto
  qed
  moreover have "dom ?A = dom M" "dom ?B = dom D" "\<forall>r \<in> ran ?A. accountSecret r = []"
    by (auto simp: dom_def ran_def)
  ultimately show ?thesis using p unfolding public_scope_def stripped_scope_def by blast
qed

text \<open>
  C23: \<open>deletePrivateKeys\<close> leaves a namespace in which no private key is stored.  The master, crypto
  and HD private keys are gone from the main bucket and the coin type private key from every scope;
  every scope holds the same accounts and addresses as before, in tables and indexes that agree, and
  no account row and no address row has a private part, except that a row of a Taproot script is
  left as it was, its script included.
\<close>

theorem deletePrivateKeys_strips:
  assumes db: "mgr_db_ok E" and main: "mgrMain ns = Some b" and ss: "mgrScopes ns = Some ss"
    and dist: "distinct (map fst ss)"
    and ok: "\<forall>(k, s) \<in> set ss. length k = 8 \<and> books s (M k) \<and> tables s (D k)"
  shows "\<exists>ns' b' ss'. deletePrivateKeys E ns = Inr ns' \<and> mgrMain ns' = Some b' \<and> mgrScopes ns' = Some ss'
    \<and> (\<forall>k \<in> {masterPrivKeyName, cryptoPrivKeyName, cryptoScriptKeyName, masterHDPrivName}.
         bucketGet b' k = None)
    \<and> (\<forall>k \<in> fst ` set ss. \<exists>s'. map_of ss' k = Some s' \<and> stripped_scope (M k) (D k) s')"
proof -
  define b' where "b' = bucketDelete (bucketDelete (bucketDelete (bucketDelete b masterPrivKeyName)
    cryptoPrivKeyName) cryptoScriptKeyName) masterHDPrivName"
  obtain ss' where fold: "foldE (\<lambda>(k, s) ss. if length k \<noteq> 8 then Inr ss
       else bindE (stripScope E k s) (\<lambda>s. Inr (upd_entry k s ss))) ss ss = Inr ss'"
    and post: "\<And>k. if k \<in> fst ` set ss then \<exists>s'. map_of ss' k = Some s' \<and> public_scope (M k) (D k) s'
          else map_of ss' k = map_of ss k"
    using strip_scopes[OF db dist ok, of ss] by blast
  have run: "deletePrivateKeys E ns = Inr (ns\<lparr>mgrMain := Some b', mgrScopes := Some ss'\<rparr>)"
    using fold by (simp add: deletePrivateKeys_def deleteMain_def mainBucket_def main db scopeRoot_def
        ss b'_def)
  have gone: "\<forall>k \<in> {masterPrivKeyName, cryptoPrivKeyName, cryptoScriptKeyName, masterHDPrivName}.
         bucketGet b' k = None" by (simp add: b'_def bucketGet_upd)
  have "\<forall>k \<in> fst ` set ss. \<exists>s'. map_of ss' k = Some s' \<and> stripped_scope (M k) (D k) s'"
  proof
    fix k
    assume k: "k \<in> fst ` set ss"
    then obtain s where "tables s (D k)" using ok by auto
    with k post[of k] show "\<exists>s'. map_of ss' k = Some s' \<and> stripped_scope (M k) (D k) s'"
      using stripped_public by auto
  qed
  with gone show ?thesis unfolding run by simp
qed

end
