(* ===== verification/Witness_Chain.thy ===== *)
theory Witness_Chain
  imports Witness_Steps Wallet_Chain Mgr_Birthday Mgr_Strip
begin

text \<open>
  The properties of the chain handlers and of the address manager's database at concrete inputs: a
  wallet that starts at height 100 and connects one block, and a scope with one account and one
  imported key.
\<close>

section \<open>Following the chain\<close>

definition envM :: mgrEnv where
  "envM = \<lparr>mgrFails = \<lambda>_. False, mgrNow = 0, sha256 = \<lambda>_. replicate 32 0\<rparr>"

lemma envM_ok [simp]: "mgr_db_ok envM" by (simp add: mgr_db_ok_def envM_def)

definition nsM :: mgrStore where
  "nsM = \<lparr>mgrMain = Some bucketEmpty, mgrSync = Some bucketEmpty, mgrSchema = Some bucketEmpty, mgrScopes = Some []\<rparr>"

definition stamp0 :: blockStamp where "stamp0 = \<lparr>stampHeight = 100, stampHash = 77, stampTime = 0\<rparr>"

definition header1 :: "hash \<Rightarrow> gotime option" where "header1 h = Some 0"

lemma birthday_kept: "bucketGet (syncWrite bs b) birthdayBlockName = bucketGet b birthdayBlockName"
  by (simp add: syncWrite_def Let_def bucketGet_upd not_sym[OF height_key_neq(2)])

lemma follow0:
  obtains w where "following_chain envM env1 rank1 header1 100 (w, [77], [77], 100, Map.empty, Map.empty)"
    "FetchBirthdayBlock (wAddrNs w) = Inl (managerError ErrBirthdayBlockNotSet)"
proof -
  let ?ns = "nsM\<lparr>mgrSync := Some (syncWrite stamp0 bucketEmpty)\<rparr>"
  have s: "mgrSync nsM = Some bucketEmpty" by (simp add: nsM_def)
  have b: "FetchBirthdayBlock nsM = Inl (managerError ErrBirthdayBlockNotSet)"
    by (simp add: FetchBirthdayBlock_def syncBucket_def s)
  have "linked nsM stamp0" using b by (simp add: linked_def)
  from PutSyncedTo_effect(2)[OF s envM_ok this]
  have "SetSyncedTo envM (newSyncState stamp0 stamp0) nsM (Some stamp0) = Inr (newSyncState stamp0 stamp0, ?ns)"
    by (simp add: SetSyncedTo_def newSyncState_def)
  then have "following_chain envM env1 rank1 header1 100
      (\<lparr>wSync = newSyncState stamp0 stamp0, wAddrNs = ?ns, wTxNs = store0, wChainSynced = True\<rparr>,
       [stampHash stamp0], [stampHash stamp0], 100, Map.empty, Map.empty)"
    by (intro following_start[OF s]) (simp_all add: hashStored_def nsM_def stamp0_def no_history_def)
  moreover have "FetchBirthdayBlock ?ns = Inl (managerError ErrBirthdayBlockNotSet)"
    by (simp add: FetchBirthdayBlock_def syncBucket_def birthday_kept)
  ultimately show thesis using that by (simp add: stamp0_def)
qed

lemma follow1:
  obtains w where "following_chain envM env1 rank1 header1 100 (w, [77, 78], [77, 78], 101, Map.empty, Map.empty)"
    "FetchBirthdayBlock (wAddrNs w) = Inl (managerError ErrBirthdayBlockNotSet)"
proof -
  obtain w where w: "following_chain envM env1 rank1 header1 100 (w, [77], [77], 100, Map.empty, Map.empty)"
    "FetchBirthdayBlock (wAddrNs w) = Inl (managerError ErrBirthdayBlockNotSet)" by (rule follow0)
  note iv = follow_invD[OF following_inv[OF env1_ok w(1)]]
  have h: "bHeight (metaBlock block2) = word_of_nat (100 + length [77 :: hash])" by (simp add: block2_def)
  obtain sb where sb: "mgrSync (wAddrNs w) = Some sb" using window_sync[OF iv(1)] by blast
  obtain w' where w': "connectBlock envM w block2 = Inr w'"
    using connectBlock_effect(2)[OF iv(1) sb h _ envM_ok] by auto
  have "following_chain envM env1 rank1 header1 100
      (w', [77] @ [bHash (metaBlock block2)], [77] @ [bHash (metaBlock block2)], max 100 (100 + length [77 :: hash]), Map.empty, Map.empty)"
    by (rule following_step[OF w(1) follow_connect[OF h _ w']]) simp
  moreover have "FetchBirthdayBlock (wAddrNs w') = Inl (managerError ErrBirthdayBlockNotSet)"
    using connectBlock_effect(1)[OF iv(1) sb h _ w'] w(2) sb
    by (simp add: FetchBirthdayBlock_def syncBucket_def birthday_kept)
  ultimately show thesis using that by (simp add: block2_def)
qed

lemma wallet_follows_chain_witness:
  "\<exists>w :: walletChain. BlockHash (wAddrNs w) 100 = Inr 77 \<and> BlockHash (wAddrNs w) 101 = Inr 78
    \<and> stampHash (SyncedTo (wSync w)) = 78"
proof -
  obtain w where w: "following_chain envM env1 rank1 header1 100 (w, [77, 78], [77, 78], 101, Map.empty, Map.empty)"
    by (rule follow1)
  note p = wallet_follows_chain[OF env1_ok w]
  have "stampHash (SyncedTo (wSync w)) = 78" using p by simp
  moreover have "BlockHash (wAddrNs w) (word_of_nat (100 + n)) = Inr ([77, 78] ! n)" if "n < 2" for n
    using p that by (simp add: kept_def)
  from this[of 0, simplified] this[of 1, simplified] have "BlockHash (wAddrNs w) 100 = Inr 77" "BlockHash (wAddrNs w) 101 = Inr 78"
    by simp_all
  ultimately show ?thesis by blast
qed

lemma disconnectBlock_rewinds_witness:
  "\<exists>w w' :: walletChain. disconnectBlock envM env1 header1 w block2 = Inr w' \<and> BlockHash (wAddrNs w) 100 = Inr 77
    \<and> BlockHash (wAddrNs w') 100 = Inr 0 \<and> stampHash (SyncedTo (wSync w')) = 0"
proof -
  obtain w where w: "following_chain envM env1 rank1 header1 100 (w, [77, 78], [77, 78], 101, Map.empty, Map.empty)"
    "FetchBirthdayBlock (wAddrNs w) = Inl (managerError ErrBirthdayBlockNotSet)" by (rule follow1)
  have p: "\<exists>w'. disconnectBlock envM env1 header1 w block2 = Inr w'
    \<and> SyncedTo (wSync w') = \<lparr>stampHeight = word_of_nat (100 + 0), stampHash = 0, stampTime = 0\<rparr>
    \<and> BlockHash (wAddrNs w') (word_of_nat (100 + 0)) = Inr 0"
    using disconnectBlock_rewinds[OF envM_ok env1_ok w(1), of block2 0 0] w(2)
    by (auto simp: block2_def kept_def header1_def)
  have iv: "window 100 (wAddrNs w) [77, 78] 101" using follow_invD(1)[OF following_inv[OF env1_ok w(1)]] .
  have "fetchBlockHash (wAddrNs w) (word_of_nat 100) = Inr ([77, 78] ! (100 - 100))"
    by (rule window_stored[OF iv]) (simp_all add: kept_def)
  then have "BlockHash (wAddrNs w) 100 = Inr 77" by (simp add: BlockHash_def)
  with p show ?thesis by fastforce
qed

section \<open>The birthday block and the stored hashes\<close>

text \<open>A namespace that knows the genesis block and the birthday of the wallet.\<close>

definition nsG :: mgrStore where
  "nsG = nsM\<lparr>mgrSync := Some (bucketPut (bucketPut (bucketPut bucketEmpty birthdayName (putUint64 0))
     (putUint32 0) (hashBytes 77)) syncedToName (uint32ToBytes 20000 @ hashBytes 78 @ uint32ToBytes 0))\<rparr>"

lemma hash_nsG: "fetchBlockHash nsG h = (if h = 0 then Inr 77 else Inl (managerError ErrBlockNotFound))"
  by (simp add: fetchBlockHash_def syncBucket_def nsG_def bucketGet_upd)

section \<open>Removing the private keys\<close>

definition rowA :: acctRowInterface where "rowA = defaultAccount [1] [2] 0 0 [97]"

definition keyRow :: addrRowInterface where
  "keyRow = importedRow (addressRow envM adtImport 0 ssNone []) [3] [4]"

definition scopeS :: scopeStore where
  "scopeS = enterAddress (replicate 32 0) (addressValue keyRow) 0
     (enterAccount (uint32ToBytes 0) (accountValue rowA) [97] emptyScope)"

lemma empty_scope: "books emptyScope Map.empty" "tables emptyScope Map.empty"
  by (auto simp: books_def tables_def emptyScope_def accountOf_def addressOf_def row_at_def fun_eq_iff
      in_account_def acctAddrs_def rows_ok_def)

lemma scopeS: "books scopeS [uint32ToBytes 0 \<mapsto> rowA]" "tables scopeS [replicate 32 0 \<mapsto> keyRow]"
proof -
  have n: "rowName rowA = [97]" by (simp add: rowA_def)
  have "account_ok rowA" by (simp add: rowA_def account_ok_made)
  from books_enter[OF empty_scope(1) this, of "uint32ToBytes 0"] n
  show "books scopeS [uint32ToBytes 0 \<mapsto> rowA]"
    by (simp add: scopeS_def forgetName_def name_free_def)
  have "address_ok keyRow" "rowAccount keyRow = 0" by (simp_all add: keyRow_def address_ok_made addressRow_def)
  then show "tables scopeS [replicate 32 0 \<mapsto> keyRow]"
    using tables_enter[of "enterAccount (uint32ToBytes 0) (accountValue rowA) [97] emptyScope" Map.empty keyRow
        "replicate 32 0"] empty_scope(2)
    by (simp add: scopeS_def)
qed

lemma deletePrivateKeys_strips_witness:
  "\<exists>ns' b ss. deletePrivateKeys envM (nsM\<lparr>mgrScopes := Some [(replicate 8 0, scopeS)]\<rparr>) = Inr ns'
    \<and> mgrMain ns' = Some b \<and> bucketGet b masterPrivKeyName = None \<and> mgrScopes ns' = Some ss
    \<and> (\<exists>s. map_of ss (replicate 8 0) = Some s
         \<and> stripped_scope [uint32ToBytes 0 \<mapsto> rowA] [replicate 32 0 \<mapsto> keyRow] s)"
  using deletePrivateKeys_strips[OF envM_ok, of "nsM\<lparr>mgrScopes := Some [(replicate 8 0, scopeS)]\<rparr>" bucketEmpty
      "[(replicate 8 0, scopeS)]" "\<lambda>_. [uint32ToBytes 0 \<mapsto> rowA]" "\<lambda>_. [replicate 32 0 \<mapsto> keyRow]"] scopeS
  by (auto simp: nsM_def)

end
