(* ===== verification/Snacl.thy ===== *)
theory Snacl
  imports Mgr_Codec
begin

text \<open>
  Package \<open>snacl\<close> (\<open>snacl/snacl.go\<close>): symmetric keys, and keys derived from a passphrase.
  A key is the list of its bytes, a pointer to one an option.  \<open>snaclEnv\<close> holds what the package calls:
  \<open>nonceFor\<close> is the nonce that \<open>crypto/rand\<close> delivers for the encryption of a message under a
  key (\<open>None\<close> when it fails), \<open>randomRead k\<close> the \<open>k\<close>-th reading of 32 bytes from it,
  \<open>secretbox\<close> and \<open>unbox\<close> are \<open>Seal\<close> and \<open>Open\<close> of \<open>nacl/secretbox\<close>,
  \<open>scryptKey\<close> is \<open>scrypt.Key\<close> for 32 bytes and \<open>sha512\<close> the hash used by the callers.
\<close>

section \<open>What the package calls\<close>

record snaclEnv = mgrEnv +
  nonceFor :: "bytes \<Rightarrow> bytes \<Rightarrow> bytes option"
  randomRead :: "nat \<Rightarrow> bytes option"
  secretbox :: "bytes \<Rightarrow> bytes \<Rightarrow> bytes \<Rightarrow> bytes"
  unbox :: "bytes \<Rightarrow> bytes \<Rightarrow> bytes \<Rightarrow> bytes option"
  scryptKey :: "bytes \<Rightarrow> bytes \<Rightarrow> 64 word \<times> 64 word \<times> 64 word \<Rightarrow> bytes option"
  sha512 :: "bytes \<Rightarrow> bytes"

text \<open>
  What the libraries document: an opened box is the message sealed, a box is 16 bytes longer, a nonce
  has 24 bytes and a reading, a derived key and a digest have 32; the random source does not fail.
\<close>

definition snacl_ok :: "'a snaclEnv_scheme \<Rightarrow> bool" where
  "snacl_ok E \<longleftrightarrow> (\<forall>nonce key m. unbox E nonce key (secretbox E nonce key m) = Some m)
     \<and> (\<forall>nonce key m. length (secretbox E nonce key m) = length m + 16)
     \<and> (\<forall>key m. \<exists>nonce. nonceFor E key m = Some nonce \<and> length nonce = 24)
     \<and> (\<forall>k. \<exists>r. randomRead E k = Some r \<and> length r = 32)
     \<and> (\<forall>p s c key. scryptKey E p s c = Some key \<longrightarrow> length key = 32)
     \<and> (\<forall>x. length (sha256 E x) = 32)"

lemma snacl_okD:
  assumes "snacl_ok E"
  shows "unbox E nonce key (secretbox E nonce key m) = Some m"
    "\<exists>nonce. nonceFor E key m = Some nonce \<and> length nonce = 24"
    "\<exists>r. randomRead E k = Some r \<and> length r = 32"
    "scryptKey E p s c = Some dk \<Longrightarrow> length dk = 32"
    "length (sha256 E x) = 32"
    "length (secretbox E nonce key m) = length m + 16"
  using assms unfolding snacl_ok_def by blast+

datatype snaclErr = ErrInvalidPassword | ErrMalformed | ErrDecryptFailed | ErrLibrary | SnaclPanic

section \<open>Keys\<close>

text \<open>\<open>copy(dst[:], src)\<close> into an array.\<close>

definition copyInto :: "bytes \<Rightarrow> bytes \<Rightarrow> bytes" where
  "copyInto dst src = take (length dst) src @ drop (length src) dst"

lemma copyInto_same [simp]: "length src = length dst \<Longrightarrow> copyInto dst src = src"
  by (simp add: copyInto_def)

lemma length_copyInto [simp]: "length (copyInto dst src) = length dst"
  by (simp add: copyInto_def)

definition zeroKey :: bytes where "zeroKey = replicate 32 0"

lemma length_zeroKey [simp]: "length zeroKey = 32" by (simp add: zeroKey_def)

definition CryptoKey_Encrypt :: "'a snaclEnv_scheme \<Rightarrow> bytes \<Rightarrow> bytes \<Rightarrow> snaclErr + bytes" where
  "CryptoKey_Encrypt E ck inp = (case nonceFor E ck inp of
     None \<Rightarrow> Inl ErrLibrary
   | Some nonce \<Rightarrow> Inr (nonce @ secretbox E nonce ck inp))"

definition CryptoKey_Decrypt :: "'a snaclEnv_scheme \<Rightarrow> bytes \<Rightarrow> bytes \<Rightarrow> snaclErr + bytes" where
  "CryptoKey_Decrypt E ck inp =
     (if length inp < 24 then Inl ErrMalformed
      else (case unbox E (take 24 inp) ck (drop 24 inp) of
          None \<Rightarrow> Inl ErrDecryptFailed
        | Some opened \<Rightarrow> Inr opened))"

definition GenerateCryptoKey :: "'a snaclEnv_scheme \<Rightarrow> nat \<Rightarrow> snaclErr + bytes" where
  "GenerateCryptoKey E k = (case randomRead E k of None \<Rightarrow> Inl ErrLibrary | Some key \<Rightarrow> Inr key)"

lemma Encrypt_ok:
  assumes "snacl_ok E"
  shows "\<exists>c. CryptoKey_Encrypt E ck inp = Inr c \<and> CryptoKey_Decrypt E ck c = Inr inp \<and> 24 \<le> length c"
proof -
  obtain nonce where "nonceFor E ck inp = Some nonce" "length nonce = 24"
    using snacl_okD(2)[OF assms, of ck inp] by blast
  then show ?thesis by (simp add: CryptoKey_Encrypt_def CryptoKey_Decrypt_def snacl_okD(1)[OF assms])
qed

lemma Decrypt_Encrypt: "snacl_ok E \<Longrightarrow> CryptoKey_Encrypt E ck inp = Inr c \<Longrightarrow> CryptoKey_Decrypt E ck c = Inr inp"
  using Encrypt_ok[of E ck inp] by auto

section \<open>Keys derived from a passphrase\<close>

record parameters =
  pSalt :: bytes
  pDigest :: bytes
  pN :: "64 word"
  pR :: "64 word"
  pP :: "64 word"

record secretKey =
  skKey :: "bytes option"
  skParameters :: parameters

definition scryptOf :: "'a snaclEnv_scheme \<Rightarrow> parameters \<Rightarrow> bytes \<Rightarrow> bytes option" where
  "scryptOf E p password = scryptKey E password (pSalt p) (pN p, pR p, pP p)"

text \<open>
  The functions that change the key return it with the error, since \<open>DeriveKey\<close> leaves the key of a
  wrong passphrase behind.
\<close>

definition deriveKey_sk :: "'a snaclEnv_scheme \<Rightarrow> secretKey \<Rightarrow> bytes \<Rightarrow> secretKey \<times> snaclErr option" where
  "deriveKey_sk E sk password = (case scryptOf E (skParameters sk) password of
     None \<Rightarrow> (sk, Some ErrLibrary)
   | Some key \<Rightarrow> (case skKey sk of
       None \<Rightarrow> (sk, Some SnaclPanic)
     | Some old \<Rightarrow> (sk\<lparr>skKey := Some (copyInto old key)\<rparr>, None)))"

definition Marshal :: "secretKey \<Rightarrow> bytes" where
  "Marshal sk = (let params = skParameters sk in
     pSalt params @ pDigest params @ putLE64 (pN params) @ putLE64 (pR params) @ putLE64 (pP params))"

definition Unmarshal :: "secretKey \<Rightarrow> bytes \<Rightarrow> secretKey \<times> snaclErr option" where
  "Unmarshal sk marshalled =
     (let sk = (case skKey sk of None \<Rightarrow> sk\<lparr>skKey := Some zeroKey\<rparr> | Some _ \<Rightarrow> sk) in
     if length marshalled \<noteq> 32 + 32 + 24 then (sk, Some ErrMalformed)
     else (sk\<lparr>skParameters := \<lparr>pSalt = slice marshalled 0 32, pDigest = slice marshalled 32 64,
       pN = le64 (slice marshalled 64 72), pR = le64 (slice marshalled 72 80),
       pP = le64 (slice marshalled 80 88)\<rparr>\<rparr>, None))"

definition SecretKey_Zero :: "secretKey \<Rightarrow> secretKey" where
  "SecretKey_Zero sk = sk\<lparr>skKey := map_option (\<lambda>_. zeroKey) (skKey sk)\<rparr>"

definition DeriveKey :: "'a snaclEnv_scheme \<Rightarrow> secretKey \<Rightarrow> bytes \<Rightarrow> secretKey \<times> snaclErr option" where
  "DeriveKey E sk password = (case deriveKey_sk E sk password of
     (sk, Some e) \<Rightarrow> (sk, Some e)
   | (sk, None) \<Rightarrow> (case skKey sk of
       None \<Rightarrow> (sk, Some SnaclPanic)
     | Some key \<Rightarrow> if sha256 E key \<noteq> pDigest (skParameters sk) then (sk, Some ErrInvalidPassword)
         else (sk, None)))"

definition SecretKey_Encrypt :: "'a snaclEnv_scheme \<Rightarrow> secretKey \<Rightarrow> bytes \<Rightarrow> snaclErr + bytes" where
  "SecretKey_Encrypt E sk inp = (case skKey sk of
     None \<Rightarrow> Inl SnaclPanic
   | Some key \<Rightarrow> CryptoKey_Encrypt E key inp)"

definition SecretKey_Decrypt :: "'a snaclEnv_scheme \<Rightarrow> secretKey \<Rightarrow> bytes \<Rightarrow> snaclErr + bytes" where
  "SecretKey_Decrypt E sk inp = (case skKey sk of
     None \<Rightarrow> Inl SnaclPanic
   | Some key \<Rightarrow> CryptoKey_Decrypt E key inp)"

text \<open>The salt is the \<open>k\<close>-th reading of the random source.\<close>

definition NewSecretKey :: "'a snaclEnv_scheme \<Rightarrow> nat \<Rightarrow> bytes \<Rightarrow> 64 word \<times> 64 word \<times> 64 word
    \<Rightarrow> snaclErr + secretKey" where
  "NewSecretKey E k password = (\<lambda>(n, r, p). case randomRead E k of
     None \<Rightarrow> Inl ErrLibrary
   | Some salt \<Rightarrow>
      (let sk = \<lparr>skKey = Some zeroKey, skParameters = \<lparr>pSalt = salt, pDigest = replicate 32 0,
         pN = n, pR = r, pP = p\<rparr>\<rparr> in
      case deriveKey_sk E sk password of
        (_, Some e) \<Rightarrow> Inl e
      | (sk, None) \<Rightarrow> (case skKey sk of
          None \<Rightarrow> Inl SnaclPanic
        | Some key \<Rightarrow> Inr (sk\<lparr>skParameters := (skParameters sk)\<lparr>pDigest := sha256 E key\<rparr>\<rparr>))))"

section \<open>What a secret key promises\<close>

definition params_ok :: "parameters \<Rightarrow> bool" where
  "params_ok p \<longleftrightarrow> length (pSalt p) = 32 \<and> length (pDigest p) = 32"

text \<open>
  The passphrase \<open>pw\<close> opens the key with parameters \<open>p\<close>, and then the key is \<open>key\<close>.
\<close>

definition opens :: "'a snaclEnv_scheme \<Rightarrow> parameters \<Rightarrow> bytes \<Rightarrow> bytes \<Rightarrow> bool" where
  "opens E p pw key \<longleftrightarrow> scryptOf E p pw = Some key \<and> sha256 E key = pDigest p"

lemma slice_at: "length a = m \<Longrightarrow> length b = n - m \<Longrightarrow> slice (a @ b @ c) m n = b"
  by (simp add: slice_def)

lemma Unmarshal_stored:
  assumes "params_ok (skParameters sk)"
  shows "Unmarshal sk' (Marshal sk)
      = (\<lparr>skKey = Some (case skKey sk' of None \<Rightarrow> zeroKey | Some key \<Rightarrow> key), skParameters = skParameters sk\<rparr>, None)"
proof -
  let ?p = "skParameters sk" and ?m = "Marshal sk"
  have l: "length (pSalt ?p) = 32" "length (pDigest ?p) = 32" using assms by (simp_all add: params_ok_def)
  have "length ?m = 88" by (simp add: Marshal_def Let_def l)
  moreover have "slice ?m 0 32 = pSalt ?p" "slice ?m 32 64 = pDigest ?p"
    "slice ?m 64 72 = putLE64 (pN ?p)" "slice ?m 72 80 = putLE64 (pR ?p)" "slice ?m 80 88 = putLE64 (pP ?p)"
    by (simp_all add: Marshal_def Let_def slice_def l)
  ultimately show ?thesis
    by (cases "skKey sk'"; cases sk') (simp_all add: Unmarshal_def Let_def)
qed

text \<open>The parameters of a secret key read back as they were stored, the numbers at their 64 bits;
  any other length is refused as malformed with the parameters unchanged.\<close>

lemma Marshal_Unmarshal:
  assumes "params_ok (skParameters sk)"
  shows "Unmarshal sk' (Marshal sk)
      = (\<lparr>skKey = Some (case skKey sk' of None \<Rightarrow> zeroKey | Some key \<Rightarrow> key), skParameters = skParameters sk\<rparr>, None)
    \<and> (length m \<noteq> 88 \<longrightarrow> snd (Unmarshal sk' m) = Some ErrMalformed
        \<and> skParameters (fst (Unmarshal sk' m)) = skParameters sk')"
  by (rule conjI[OF Unmarshal_stored[OF assms]]) (cases "skKey sk'"; simp add: Unmarshal_def Let_def)

lemma DeriveKey_opens:
  assumes "snacl_ok E" "skKey sk = Some old" "length old = 32" "opens E (skParameters sk) pw key"
  shows "DeriveKey E sk pw = (sk\<lparr>skKey := Some key\<rparr>, None)"
proof -
  have k: "scryptOf E (skParameters sk) pw = Some key" "sha256 E key = pDigest (skParameters sk)"
    using assms(4) by (simp_all add: opens_def)
  have "length key = 32" using snacl_okD(4)[OF assms(1)] k(1) unfolding scryptOf_def by blast
  then show ?thesis by (simp add: DeriveKey_def deriveKey_sk_def k assms(2,3))
qed

lemma DeriveKey_wrong:
  assumes "snacl_ok E" "skKey sk = Some old" "length old = 32" "\<not> (\<exists>key. opens E (skParameters sk) pw key)"
  shows "\<exists>sk' e. DeriveKey E sk pw = (sk', Some e) \<and> skParameters sk' = skParameters sk
    \<and> (\<exists>key. skKey sk' = Some key \<and> length key = 32)
    \<and> (e = ErrInvalidPassword \<longleftrightarrow> scryptOf E (skParameters sk) pw \<noteq> None)"
proof (cases "scryptOf E (skParameters sk) pw")
  case None
  then show ?thesis by (simp add: DeriveKey_def deriveKey_sk_def assms(2,3))
next
  case (Some key)
  have "length key = 32" using snacl_okD(4)[OF assms(1)] Some unfolding scryptOf_def by blast
  moreover have "sha256 E key \<noteq> pDigest (skParameters sk)" using assms(4) Some by (simp add: opens_def)
  ultimately show ?thesis by (simp add: DeriveKey_def deriveKey_sk_def Some assms(2,3))
qed

text \<open>A new secret key is opened by its passphrase, and only by one with the same digest.\<close>

lemma NewSecretKey_opens:
  assumes "snacl_ok E" "NewSecretKey E k pw c = Inr sk"
  shows "\<exists>key. skKey sk = Some key \<and> length key = 32 \<and> opens E (skParameters sk) pw key
    \<and> params_ok (skParameters sk)"
proof -
  obtain n r p where c: "c = (n, r, p)" by (cases c)
  obtain salt where s: "randomRead E k = Some salt" "length salt = 32"
    using snacl_okD(3)[OF assms(1), of k] by blast
  obtain key where k: "scryptKey E pw salt (n, r, p) = Some key"
    using assms(2) s by (auto simp: NewSecretKey_def c deriveKey_sk_def scryptOf_def Let_def split: option.splits)
  have l: "length key = 32" using snacl_okD(4)[OF assms(1) k] .
  with assms(2) s k show ?thesis
    by (auto simp: NewSecretKey_def c deriveKey_sk_def scryptOf_def Let_def opens_def params_ok_def
        snacl_okD(5)[OF assms(1)])
qed

end
