(* ===== verification/Mgr_Keys.thy ===== *)
theory Mgr_Keys
  imports Snacl Mgr_Sync Mgr_Addr "HOL-Library.AList"
begin

text \<open>
  The state in memory of the address manager (\<open>manager.go\<close>, \<open>scoped_manager.go\<close>, \<open>address.go\<close>)
  and the libraries behind it.  A managed address is reached through pointers from the cache of its
  scoped manager, from the account it was derived for and from the list of keys to derive at the next
  unlock, so managed addresses live in the list \<open>mgHeap\<close> and a pointer is an index into it; Go maps
  are association lists.  An operation is a function from the manager to its result and the manager
  it leaves, also when the result is an error; the namespace is passed in and out with the result.

  \<open>hdEnv\<close> holds what the code calls.  \<open>'k\<close> is an extended key of package \<open>hdkeychain\<close>, \<open>'a\<close> an
  address of \<open>chainutil\<close>; a public or private key is its serialization (compressed where it is public).
\<close>

section \<open>Operations that keep their state on an error\<close>

type_synonym ('e, 'm, 'r) op = "'m \<Rightarrow> ('e + 'r) \<times> 'm"
type_synonym ('m, 'r) mop = "(mgrErr, 'm, 'r) op"

definition retM :: "'r \<Rightarrow> ('e, 'm, 'r) op" where "retM r m = (Inr r, m)"

definition failM :: "'e \<Rightarrow> ('e, 'm, 'r) op" where "failM e m = (Inl e, m)"

definition bindM :: "('e, 'm, 'r) op \<Rightarrow> ('r \<Rightarrow> ('e, 'm, 's) op) \<Rightarrow> ('e, 'm, 's) op" where
  "bindM f g m = (case f m of
     (Inl e, m) \<Rightarrow> (Inl e, m)
   | (Inr r, m) \<Rightarrow> g r m)"

definition getM :: "('e, 'm, 'm) op" where "getM m = (Inr m, m)"

definition modifyM :: "('m \<Rightarrow> 'm) \<Rightarrow> ('e, 'm, unit) op" where "modifyM f m = (Inr (), f m)"

definition liftM :: "'e + 'r \<Rightarrow> ('e, 'm, 'r) op" where "liftM r m = (r, m)"

definition guardM :: "bool \<Rightarrow> 'e \<Rightarrow> ('e, 'm, unit) op" where
  "guardM b e m = (if b then Inr () else Inl e, m)"

text \<open>\<open>if err != nil { return maybeConvertDbError(err) }\<close>.\<close>

definition convertM :: "('m, 'r) mop \<Rightarrow> ('m, 'r) mop" where
  "convertM f m = (let (r, m) = f m in (convertE r, m))"

fun foldM_mop :: "('x \<Rightarrow> 's \<Rightarrow> ('e, 'm, 's) op) \<Rightarrow> 'x list \<Rightarrow> 's \<Rightarrow> ('e, 'm, 's) op" where
  "foldM_mop f [] s = retM s"
| "foldM_mop f (x # xs) s = bindM (f x s) (foldM_mop f xs)"

named_theorems mop_simps

lemma mop_run [mop_simps]:
  "retM r m = (Inr r, m)" "failM e m = (Inl e, m)" "getM m = (Inr m, m)" "modifyM f m = (Inr (), f m)"
  "liftM x m = (x, m)"
  by (simp_all add: retM_def failM_def getM_def modifyM_def liftM_def)

lemma guardM_run [mop_simps]:
  "guardM True e m = (Inr (), m)" "guardM False e m = (Inl e, m)"
  "b \<Longrightarrow> guardM b e m = (Inr (), m)" "\<not> b \<Longrightarrow> guardM b e m = (Inl e, m)"
  by (simp_all add: guardM_def)

lemma bindM_run [mop_simps]:
  "f m = (Inr r, m') \<Longrightarrow> bindM f g m = g r m'"
  "f m = (Inl e, m') \<Longrightarrow> bindM f g m = (Inl e, m')"
  by (simp_all add: bindM_def)

lemma bindM_Inr: "bindM f g m = (Inr s, m'') \<longleftrightarrow> (\<exists>r m'. f m = (Inr r, m') \<and> g r m' = (Inr s, m''))"
  by (auto simp: bindM_def split: prod.splits sum.splits)

lemma bindM_cases:
  assumes "bindM f g m = (r, m'')"
  obtains (fails) e where "f m = (Inl e, m'')" "r = Inl e"
  | (goes) x m' where "f m = (Inr x, m')" "g x m' = (r, m'')"
  using assms by (auto simp: bindM_def split: prod.splits sum.splits)

lemma convertM_Inr [simp]: "convertM f m = (Inr r, m') \<longleftrightarrow> f m = (Inr r, m')"
  by (cases "f m") (simp add: convertM_def)

text \<open>A property of the state that a run of operations keeps.\<close>

definition keeps :: "('m \<Rightarrow> bool) \<Rightarrow> ('e, 'm, 'r) op \<Rightarrow> bool" where
  "keeps P f \<longleftrightarrow> (\<forall>m. P m \<longrightarrow> P (snd (f m)))"

named_theorems keepers

lemma keeps_simple [keepers]:
  "keeps P (retM r)" "keeps P (failM e)" "keeps P getM" "keeps P (liftM x)" "keeps P (guardM b e)"
  by (simp_all add: keeps_def mop_run guardM_def)

lemma keeps_bind [keepers]:
  assumes "keeps P f" "\<And>r. keeps P (g r)" shows "keeps P (bindM f g)"
  unfolding keeps_def
proof (intro allI impI)
  fix m
  assume "P m"
  then have "P (snd (f m))" using assms(1) by (simp add: keeps_def)
  then show "P (snd (bindM f g m))"
    using assms(2) by (cases "f m"; cases "fst (f m)") (simp_all add: bindM_def keeps_def)
qed

lemma keeps_modify: "(\<And>m. P m \<Longrightarrow> P (f m)) \<Longrightarrow> keeps P (modifyM f)"
  by (simp add: keeps_def mop_run)

lemma keeps_convert [keepers]: "keeps P f \<Longrightarrow> keeps P (convertM f)"
  by (auto simp: keeps_def convertM_def Let_def case_prod_beta)

lemma keeps_fold [keepers]: "(\<And>x s. keeps P (f x s)) \<Longrightarrow> keeps P (foldM_mop f xs s)"
  by (induction xs arbitrary: s) (simp_all add: keepers)

lemma keepsD: "keeps P f \<Longrightarrow> P m \<Longrightarrow> P (snd (f m))"
  by (simp add: keeps_def)

section \<open>The libraries\<close>

datatype deriveErr = InvalidChild | DeriveFailed

record ('k, 'a) hdEnv = snaclEnv +
  newKey :: "bytes \<Rightarrow> 'k option"
  keyString :: "'k \<Rightarrow> bytes"
  deriveChild :: "'k \<Rightarrow> u32 \<Rightarrow> deriveErr + 'k"
  neuter :: "'k \<Rightarrow> 'k option"
  isPrivate :: "'k \<Rightarrow> bool"
  childIndex :: "'k \<Rightarrow> u32"
  ecPrivKey :: "'k \<Rightarrow> bytes option"
  ecPubKey :: "'k \<Rightarrow> bytes option"
  pubOf :: "bytes \<Rightarrow> bytes"
  uncompressed :: "bytes \<Rightarrow> bytes"
  parsePubKey :: "bytes \<Rightarrow> bytes option"
  hash160 :: "bytes \<Rightarrow> bytes"
  taprootKey :: "bytes \<Rightarrow> bytes"
  xOnlyKey :: "bytes \<Rightarrow> bytes option"
  addrPubKeyHash :: "bytes \<Rightarrow> 'a option"
  addrWitnessPubKeyHash :: "bytes \<Rightarrow> 'a option"
  addrScript :: "bytes \<Rightarrow> 'a option"
  addrScriptHash :: "bytes \<Rightarrow> 'a option"
  addrWitnessScriptHash :: "bytes \<Rightarrow> 'a option"
  addrTaproot :: "bytes \<Rightarrow> 'a option"
  payToAddr :: "'a \<Rightarrow> bytes option"
  pubKeyToHash :: "'a \<Rightarrow> 'a"
  scriptAddress :: "'a \<Rightarrow> bytes"
  addrString :: "'a \<Rightarrow> bytes"
  signVerifies :: "u8 \<Rightarrow> bytes \<Rightarrow> bytes \<Rightarrow> bool"

definition HardenedKeyStart :: u32 where "HardenedKeyStart = 2 ^ 31"
definition MaxAccountNum :: u32 where "MaxAccountNum = HardenedKeyStart - 2"
definition MaxAddressesPerAccount :: u32 where "MaxAddressesPerAccount = HardenedKeyStart - 1"
definition ImportedAddrAccount :: u32 where "ImportedAddrAccount = MaxAccountNum + 1"
definition maxCoinType :: u32 where "maxCoinType = HardenedKeyStart - 1"
definition DefaultAccountNum :: u32 where "DefaultAccountNum = 0"
definition ImportedAddrAccountName :: gostring where "ImportedAddrAccountName = ascii ''imported''"
definition defaultAccountName :: gostring where "defaultAccountName = ascii ''default''"

section \<open>Addresses and accounts\<close>

record derivationPath =
  InternalAccount :: u32
  pathAccount :: u32
  pathBranch :: u32
  pathIndex :: u32
  pathFingerprint :: u32

definition ImportedDerivationPath :: derivationPath where
  "ImportedDerivationPath = \<lparr>InternalAccount = ImportedAddrAccount, pathAccount = 0, pathBranch = 0,
     pathIndex = 0, pathFingerprint = 0\<rparr>"

text \<open>The encrypted and the clear text private part are \<open>[]\<close> where the slice is \<open>nil\<close>.\<close>

record 'a managedAddress =
  maPath :: derivationPath
  maAddress :: "'a option"
  maImported :: bool
  maInternal :: bool
  maCompressed :: bool
  maAddrType :: u8
  maPubKey :: bytes
  maPrivKeyEncrypted :: bytes
  maPrivKeyCT :: bytes

record 'a scriptAddress_mgr =
  saAccount :: u32
  saAddress :: 'a
  saScriptEncrypted :: bytes
  saScriptClearText :: bytes

record 'a witnessScriptAddress = "'a scriptAddress_mgr" +
  waVersion :: u8
  waIsSecret :: bool

datatype 'a managedAddr =
    PubKeyAddr "'a managedAddress"
  | ScriptAddr "'a scriptAddress_mgr"
  | WitnessScriptAddr "'a witnessScriptAddress"
  | TaprootScriptAddr "'a witnessScriptAddress" bytes

record 'k accountInfo =
  acctName :: gostring
  aiType :: u8
  acctKeyEncrypted :: bytes
  acctKeyPriv :: "'k option"
  acctKeyPub :: "'k option"
  nextExternalIndex :: u32
  lastExternalAddr :: "nat option"
  nextInternalIndex :: u32
  lastInternalAddr :: "nat option"
  aiAddrSchema :: "scopeAddrSchema option"
  masterKeyFingerprint :: u32

record unlockDeriveInfo =
  udAddr :: nat
  udBranch :: u32
  udIndex :: u32

record 'k scopedKeyManager =
  smScope :: keyScope
  smAddrSchema :: scopeAddrSchema
  smAddrs :: "(bytes \<times> nat) list"
  smAcctInfo :: "(u32 \<times> 'k accountInfo) list"
  smDeriveOnUnlock :: "unlockDeriveInfo list"
  smPrivKeyCache :: "(derivationPath \<times> bytes) list"

record ('k, 'a) manager =
  mgScoped :: "(keyScope \<times> 'k scopedKeyManager) list"
  mgExternalSchemas :: "(u8 \<times> keyScope list) list"
  mgInternalSchemas :: "(u8 \<times> keyScope list) list"
  mgSyncState :: syncState
  mgWatchingOnly :: bool
  mgBirthday :: gotime
  mgLocked :: bool
  mgClosed :: bool
  mgMasterKeyPub :: secretKey
  mgMasterKeyPriv :: "secretKey option"
  mgCryptoKeyPub :: bytes
  mgCryptoKeyPrivEncrypted :: bytes
  mgCryptoKeyPriv :: "bytes option"
  mgCryptoKeyScriptEncrypted :: bytes
  mgCryptoKeyScript :: "bytes option"
  mgSalt :: bytes
  mgHashedPass :: bytes
  mgHeap :: "'a managedAddr list"

definition WatchOnly :: "('k, 'a) manager \<Rightarrow> bool" where "WatchOnly m = mgWatchingOnly m"

definition IsLocked :: "('k, 'a) manager \<Rightarrow> bool" where "IsLocked m = mgLocked m"

text \<open>The scoped manager of a scope, which the code reaches by its receiver.\<close>

definition scopedOf :: "('k, 'a) manager \<Rightarrow> keyScope \<Rightarrow> 'k scopedKeyManager mres" where
  "scopedOf m scope = (case map_of (mgScoped m) scope of
     None \<Rightarrow> Inl MgrPanic
   | Some s \<Rightarrow> Inr s)"

definition setScoped :: "keyScope \<Rightarrow> ('k scopedKeyManager \<Rightarrow> 'k scopedKeyManager)
    \<Rightarrow> ('k, 'a) manager \<Rightarrow> ('k, 'a) manager" where
  "setScoped scope f m = m\<lparr>mgScoped := map (\<lambda>(k, s). (k, if k = scope then f s else s)) (mgScoped m)\<rparr>"

definition getScoped :: "keyScope \<Rightarrow> (('k, 'a) manager, 'k scopedKeyManager) mop" where
  "getScoped scope = bindM getM (\<lambda>m. liftM (scopedOf m scope))"

text \<open>A new managed address is put at the end of the heap.\<close>

definition allocAddr :: "'a managedAddr \<Rightarrow> (('k, 'a) manager, nat) mop" where
  "allocAddr ma m = (Inr (length (mgHeap m)), m\<lparr>mgHeap := mgHeap m @ [ma]\<rparr>)"

definition setAddr :: "nat \<Rightarrow> ('a managedAddr \<Rightarrow> 'a managedAddr) \<Rightarrow> ('k, 'a) manager \<Rightarrow> ('k, 'a) manager" where
  "setAddr r f m = m\<lparr>mgHeap := (mgHeap m)[r := f (mgHeap m ! r)]\<rparr>"

text \<open>\<open>s.addrs[addrKey(...)] = ma\<close>.\<close>

definition cacheAddr :: "keyScope \<Rightarrow> bytes \<Rightarrow> nat \<Rightarrow> ('k, 'a) manager \<Rightarrow> ('k, 'a) manager" where
  "cacheAddr scope key r = setScoped scope (\<lambda>s. s\<lparr>smAddrs := AList.update key r (smAddrs s)\<rparr>)"

text \<open>\<open>Address()\<close> of a managed address; its methods on the \<open>nil\<close> interface panic.\<close>

definition addressOf_ma :: "'a managedAddr \<Rightarrow> 'a mres" where
  "addressOf_ma ma = (case ma of
     PubKeyAddr a \<Rightarrow> (case maAddress a of None \<Rightarrow> Inl MgrPanic | Some addr \<Rightarrow> Inr addr)
   | ScriptAddr a \<Rightarrow> Inr (saAddress a)
   | WitnessScriptAddr a \<Rightarrow> Inr (saAddress a)
   | TaprootScriptAddr a _ \<Rightarrow> Inr (saAddress a))"

definition internal_ma :: "'a managedAddr \<Rightarrow> bool" where
  "internal_ma ma = (case ma of PubKeyAddr a \<Rightarrow> maInternal a | _ \<Rightarrow> False)"

definition internalAccount_ma :: "'a managedAddr \<Rightarrow> u32" where
  "internalAccount_ma ma = (case ma of
     PubKeyAddr a \<Rightarrow> InternalAccount (maPath a)
   | ScriptAddr a \<Rightarrow> saAccount a
   | WitnessScriptAddr a \<Rightarrow> saAccount a
   | TaprootScriptAddr a _ \<Rightarrow> saAccount a)"

section \<open>Lookups in the scoped managers\<close>

lemma getScoped_run: "map_of (mgScoped m) sc = Some s \<Longrightarrow> getScoped sc m = (Inr s, m)"
  by (simp add: getScoped_def scopedOf_def bindM_def mop_run)

lemma bind_getScoped: "map_of (mgScoped m) sc = Some s \<Longrightarrow> bindM (getScoped sc) g m = g s m"
  by (rule bindM_run(1)[OF getScoped_run])

lemma map_of_setScoped: "map_of (mgScoped (setScoped sc f m)) sc' =
    map_option (\<lambda>s. if sc' = sc then f s else s) (map_of (mgScoped m) sc')"
proof -
  have "map_of (map (\<lambda>(k, s). (k, if k = sc then f s else s)) xs) sc' =
      map_option (\<lambda>s. if sc' = sc then f s else s) (map_of xs sc')" for xs
    by (induction xs) auto
  then show ?thesis by (simp add: setScoped_def)
qed

lemma setScoped_cong:
  assumes "distinct (map fst (mgScoped m))" "map_of (mgScoped m) sc = Some s" "f s = g s"
  shows "setScoped sc f m = setScoped sc g m"
proof -
  have "(k, if k = sc then f t else t) = (k, if k = sc then g t else t)" if "(k, t) \<in> set (mgScoped m)" for k t
    using map_of_is_SomeI[OF assms(1) that] assms(2,3) by auto
  then have "map (\<lambda>(k, s). (k, if k = sc then f s else s)) (mgScoped m) = map (\<lambda>(k, s). (k, if k = sc then g s else s)) (mgScoped m)"
    by (intro map_cong[OF refl]) (simp only: split_paired_all prod.case)
  then show ?thesis by (simp add: setScoped_def)
qed

lemma setScoped_same: "distinct (map fst (mgScoped m)) \<Longrightarrow> map_of (mgScoped m) sc = Some s \<Longrightarrow> f s = s \<Longrightarrow> setScoped sc f m = m"
  using setScoped_cong[of m sc s f "\<lambda>s. s"] by (simp add: setScoped_def)

lemma distinct_setScoped [simp]: "map fst (mgScoped (setScoped sc f m)) = map fst (mgScoped m)"
  by (simp add: setScoped_def case_prod_beta comp_def)

lemma setScoped_twice: "setScoped sc g (setScoped sc f m) = setScoped sc (\<lambda>s. g (f s)) m"
  by (simp add: setScoped_def case_prod_beta comp_def)

lemma setScoped_frame [simp]:
  "mgHeap (setScoped sc f m) = mgHeap m" "mgCryptoKeyPriv (setScoped sc f m) = mgCryptoKeyPriv m"
  "mgCryptoKeyPub (setScoped sc f m) = mgCryptoKeyPub m" "mgLocked (setScoped sc f m) = mgLocked m"
  "mgWatchingOnly (setScoped sc f m) = mgWatchingOnly m"
  by (simp_all add: setScoped_def)

end
