(* ===== verification/Mgr_Address.thy ===== *)
theory Mgr_Address
  imports Mgr_Keys
begin

text \<open>
  The managed addresses of \<open>waddrmgr/address.go\<close>: how one is made from a key or a script, the check
  of a new one against its private key, and the private parts it decrypts and forgets.  An error that
  the code wraps with \<open>fmt.Errorf\<close> is no longer a \<open>ManagerError\<close>.
\<close>

section \<open>Encryption under a key of the manager\<close>

text \<open>A key that \<open>ConvertToWatchingOnly\<close> has set to \<open>nil\<close> panics.\<close>

definition encryptWith :: "('k, 'a, 'm) hdEnv_scheme \<Rightarrow> bytes option \<Rightarrow> bytes \<Rightarrow> bytes mres" where
  "encryptWith E key inp = (case key of
     None \<Rightarrow> Inl MgrPanic
   | Some ck \<Rightarrow> (case CryptoKey_Encrypt E ck inp of
       Inl _ \<Rightarrow> Inl (managerError ErrCrypto)
     | Inr c \<Rightarrow> Inr c))"

definition decryptWith :: "('k, 'a, 'm) hdEnv_scheme \<Rightarrow> bytes option \<Rightarrow> bytes \<Rightarrow> bytes mres" where
  "decryptWith E key inp = (case key of
     None \<Rightarrow> Inl MgrPanic
   | Some ck \<Rightarrow> (case CryptoKey_Decrypt E ck inp of
       Inl _ \<Rightarrow> Inl (managerError ErrCrypto)
     | Inr p \<Rightarrow> Inr p))"

text \<open>An error of a library is passed on.\<close>

definition libErr :: mgrErr where "libErr = MgrCallback 0"

definition fromLib :: "'r option \<Rightarrow> 'r mres" where
  "fromLib x = (case x of None \<Rightarrow> Inl libErr | Some r \<Rightarrow> Inr r)"

lemma fromLib_eq_Inr [simp]: "fromLib x = Inr r \<longleftrightarrow> x = Some r"
  by (cases x) (simp_all add: fromLib_def)

text \<open>\<open>hdkeychain.ErrInvalidChild\<close>, which the code looks for, is told apart.\<close>

definition invalidChildErr :: mgrErr where "invalidChildErr = MgrCallback 1"

definition fromDerive :: "deriveErr + 'r \<Rightarrow> 'r mres" where
  "fromDerive x = (case x of
     Inl InvalidChild \<Rightarrow> Inl invalidChildErr
   | Inl DeriveFailed \<Rightarrow> Inl libErr
   | Inr r \<Rightarrow> Inr r)"

lemma fromDerive_eq_Inr [simp]: "fromDerive x = Inr r \<longleftrightarrow> x = Inr r"
  by (auto simp: fromDerive_def split: sum.splits deriveErr.splits)

definition wrapped :: "'r mres \<Rightarrow> 'r mres" where
  "wrapped x = (case x of Inl e \<Rightarrow> Inl (if e = MgrPanic then e else MgrFmtErr) | Inr r \<Rightarrow> Inr r)"

lemma wrapped_eq_Inr [simp]: "wrapped x = Inr r \<longleftrightarrow> x = Inr r"
  by (cases x) (simp_all add: wrapped_def)

lemma encryptWith_ok: "snacl_ok E \<Longrightarrow> \<exists>c. encryptWith E (Some ck) inp = Inr c \<and> decryptWith E (Some ck) c = Inr inp"
  using Encrypt_ok[of E ck inp] by (auto simp: encryptWith_def decryptWith_def)

section \<open>Derivation\<close>

definition deriveKey :: "('k, 'a, 'm) hdEnv_scheme \<Rightarrow> 'k accountInfo \<Rightarrow> u32 \<Rightarrow> u32 \<Rightarrow> bool \<Rightarrow> 'k mres" where
  "deriveKey E acctInfo branch index private =
     (case (if private then acctKeyPriv acctInfo else acctKeyPub acctInfo) of
        None \<Rightarrow> Inl MgrPanic
      | Some acctKey \<Rightarrow> (case deriveChild E acctKey branch of
          Inl _ \<Rightarrow> Inl (managerError ErrKeyChain)
        | Inr branchKey \<Rightarrow> (case deriveChild E branchKey index of
            Inl _ \<Rightarrow> Inl (managerError ErrKeyChain)
          | Inr addressKey \<Rightarrow> Inr addressKey)))"

section \<open>Making a managed address\<close>

definition newManagedAddressWithoutPrivKey :: "('k, 'a, 'm) hdEnv_scheme \<Rightarrow> derivationPath \<Rightarrow> bytes \<Rightarrow> bool
    \<Rightarrow> u8 \<Rightarrow> 'a managedAddress mres" where
  "newManagedAddressWithoutPrivKey E derivationPath pubKey compressed atype =
     (let pubKeyHash = hash160 E (if compressed then pubKey else uncompressed E pubKey) in
      bindE (if atype = NestedWitnessPubKey then
            bindE (fromLib (addrWitnessPubKeyHash E pubKeyHash)) (\<lambda>witAddr.
            bindE (fromLib (payToAddr E witAddr)) (\<lambda>witnessProgram.
            bindE (fromLib (addrScript E witnessProgram)) (\<lambda>a. Inr (Some a))))
          else if atype = PubKeyHash then bindE (fromLib (addrPubKeyHash E pubKeyHash)) (\<lambda>a. Inr (Some a))
          else if atype = WitnessPubKey then
            bindE (fromLib (addrWitnessPubKeyHash E pubKeyHash)) (\<lambda>a. Inr (Some a))
          else if atype = TaprootPubKey then
            bindE (fromLib (addrTaproot E (taprootKey E pubKey))) (\<lambda>a. Inr (Some a))
          else Inr None) (\<lambda>address.
      Inr \<lparr>maPath = derivationPath, maAddress = address, maImported = False, maInternal = False,
        maCompressed = compressed, maAddrType = atype, maPubKey = pubKey,
        maPrivKeyEncrypted = [], maPrivKeyCT = []\<rparr>))"

definition sameAddress :: "('k, 'a, 'm) hdEnv_scheme \<Rightarrow> 'a option \<Rightarrow> 'a option \<Rightarrow> bool mres" where
  "sameAddress E a b = (case (a, b) of
     (Some a, Some b) \<Rightarrow> Inr (addrString E a = addrString E b)
   | _ \<Rightarrow> Inl MgrPanic)"

text \<open>The random message that is signed is left out: \<open>signVerifies\<close> is for any.\<close>

definition Validate :: "('k, 'a, 'm) hdEnv_scheme \<Rightarrow> 'a managedAddress \<Rightarrow> bytes \<Rightarrow> unit mres" where
  "Validate E a priv = (let basePubKey = pubOf E priv in
     if maPubKey a \<noteq> basePubKey then Inl MgrFmtErr
     else bindE (wrapped (newManagedAddressWithoutPrivKey E (maPath a) (maPubKey a) (maCompressed a)
         (maAddrType a))) (\<lambda>addr.
       bindE (sameAddress E (maAddress addr) (maAddress a)) (\<lambda>same.
       if \<not> same then Inl ErrAddrMismatch
       else if maAddrType a \<notin> {NestedWitnessPubKey, PubKeyHash, WitnessPubKey, TaprootPubKey}
         then Inl MgrFmtErr
       else guardE (signVerifies E (maAddrType a) (maPrivKeyCT a) basePubKey) MgrFmtErr)))"

definition newManagedAddress :: "('k, 'a, 'm) hdEnv_scheme \<Rightarrow> bytes option \<Rightarrow> derivationPath \<Rightarrow> bytes \<Rightarrow> bool
    \<Rightarrow> u8 \<Rightarrow> 'k accountInfo option \<Rightarrow> 'a managedAddress mres" where
  "newManagedAddress E cryptoKeyPriv derivationPath privKey compressed atype acctInfo =
     bindE (encryptWith E cryptoKeyPriv privKey) (\<lambda>privKeyEncrypted.
     bindE (newManagedAddressWithoutPrivKey E derivationPath (pubOf E privKey) compressed atype) (\<lambda>ma.
     let ma = ma\<lparr>maPrivKeyEncrypted := privKeyEncrypted, maPrivKeyCT := privKey\<rparr> in
     bindE (guardE (randomRead E 0 \<noteq> None) MgrFmtErr) (\<lambda>_.
     bindE (wrapped (Validate E ma privKey)) (\<lambda>_.
     case Option.bind acctInfo acctKeyPriv of
       None \<Rightarrow> Inr ma
     | Some _ \<Rightarrow>
         bindE (wrapped (deriveKey E (the acctInfo) (pathBranch derivationPath) (pathIndex derivationPath) True))
           (\<lambda>rederivedKey.
         bindE (wrapped (fromLib (ecPrivKey E rederivedKey))) (\<lambda>freshPrivKey.
         bindE (wrapped (Validate E ma freshPrivKey)) (\<lambda>_. Inr ma)))))))"

definition newManagedAddressFromExtKey :: "('k, 'a, 'm) hdEnv_scheme \<Rightarrow> bytes option \<Rightarrow> derivationPath \<Rightarrow> 'k
    \<Rightarrow> u8 \<Rightarrow> 'k accountInfo option \<Rightarrow> 'a managedAddress mres" where
  "newManagedAddressFromExtKey E cryptoKeyPriv derivationPath key atype acctInfo =
     (if isPrivate E key then
        bindE (fromLib (ecPrivKey E key)) (\<lambda>privKey.
        newManagedAddress E cryptoKeyPriv derivationPath privKey True atype acctInfo)
      else
        bindE (fromLib (ecPubKey E key)) (\<lambda>pubKey.
        newManagedAddressWithoutPrivKey E derivationPath pubKey True atype))"

definition newScriptAddress :: "('k, 'a, 'm) hdEnv_scheme \<Rightarrow> u32 \<Rightarrow> bytes \<Rightarrow> bytes \<Rightarrow> 'a managedAddr mres" where
  "newScriptAddress E account scriptHash scriptEncrypted =
     bindE (fromLib (addrScriptHash E scriptHash)) (\<lambda>address.
     Inr (ScriptAddr \<lparr>saAccount = account, saAddress = address, saScriptEncrypted = scriptEncrypted,
       saScriptClearText = []\<rparr>))"

definition newWitnessScriptAddress :: "('k, 'a, 'm) hdEnv_scheme \<Rightarrow> u32 \<Rightarrow> bytes \<Rightarrow> bytes \<Rightarrow> u8 \<Rightarrow> bool
    \<Rightarrow> 'a managedAddr mres" where
  "newWitnessScriptAddress E account scriptIdent scriptEncrypted witnessVersion isSecretScript =
     (if witnessVersion = 0 then
        bindE (fromLib (addrWitnessScriptHash E scriptIdent)) (\<lambda>address.
        Inr (WitnessScriptAddr \<lparr>saAccount = account, saAddress = address,
          saScriptEncrypted = scriptEncrypted, saScriptClearText = [],
          waVersion = witnessVersion, waIsSecret = isSecretScript\<rparr>))
      else if witnessVersion = witnessVersionV1 then
        bindE (fromLib (addrTaproot E scriptIdent)) (\<lambda>address.
        bindE (wrapped (fromLib (xOnlyKey E scriptIdent))) (\<lambda>tweakedPubKey.
        Inr (TaprootScriptAddr \<lparr>saAccount = account, saAddress = address,
          saScriptEncrypted = scriptEncrypted, saScriptClearText = [],
          waVersion = witnessVersion, waIsSecret = isSecretScript\<rparr> tweakedPubKey)))
      else Inl MgrFmtErr)"

section \<open>Private parts\<close>

definition managedAddress_unlock :: "('k, 'a, 'm) hdEnv_scheme \<Rightarrow> bytes option \<Rightarrow> 'a managedAddress
    \<Rightarrow> (bytes \<times> 'a managedAddress) mres" where
  "managedAddress_unlock E key a =
     (if maPrivKeyEncrypted a = [] then Inl (managerError ErrWatchingOnly)
      else if maPrivKeyCT a = [] then
        bindE (decryptWith E key (maPrivKeyEncrypted a)) (\<lambda>privKey.
        Inr (privKey, a\<lparr>maPrivKeyCT := privKey\<rparr>))
      else Inr (maPrivKeyCT a, a))"

definition managedAddress_lock :: "'a managedAddress \<Rightarrow> 'a managedAddress" where
  "managedAddress_lock a = a\<lparr>maPrivKeyCT := []\<rparr>"

definition scriptAddress_unlock :: "('k, 'a, 'm) hdEnv_scheme \<Rightarrow> bytes option \<Rightarrow> ('a, 'x) scriptAddress_mgr_scheme
    \<Rightarrow> (bytes \<times> ('a, 'x) scriptAddress_mgr_scheme) mres" where
  "scriptAddress_unlock E key a =
     (if saScriptClearText a = [] then
        bindE (decryptWith E key (saScriptEncrypted a)) (\<lambda>script.
        Inr (script, a\<lparr>saScriptClearText := script\<rparr>))
      else Inr (saScriptClearText a, a))"

definition scriptAddress_lock :: "('a, 'x) scriptAddress_mgr_scheme \<Rightarrow> ('a, 'x) scriptAddress_mgr_scheme" where
  "scriptAddress_lock a = a\<lparr>saScriptClearText := []\<rparr>"

definition setClearTextScript :: "bytes \<Rightarrow> 'a managedAddr \<Rightarrow> 'a managedAddr" where
  "setClearTextScript script ma = (case ma of
     PubKeyAddr a \<Rightarrow> PubKeyAddr a
   | ScriptAddr a \<Rightarrow> ScriptAddr (a\<lparr>saScriptClearText := script\<rparr>)
   | WitnessScriptAddr a \<Rightarrow> WitnessScriptAddr (a\<lparr>saScriptClearText := script\<rparr>)
   | TaprootScriptAddr a k \<Rightarrow> TaprootScriptAddr (a\<lparr>saScriptClearText := script\<rparr>) k)"

text \<open>\<open>PrivKey\<close> and \<open>Script\<close> of the managed address at \<open>r\<close>.\<close>

definition PrivKey :: "('k, 'a, 'm) hdEnv_scheme \<Rightarrow> nat \<Rightarrow> (('k, 'a) manager, bytes) mop" where
  "PrivKey E r = bindM getM (\<lambda>m.
     if WatchOnly m then failM (managerError ErrWatchingOnly)
     else if IsLocked m then failM (managerError ErrLocked)
     else (case mgHeap m ! r of
         PubKeyAddr a \<Rightarrow>
           bindM (liftM (managedAddress_unlock E (mgCryptoKeyPriv m) a)) (\<lambda>(key, a).
           bindM (modifyM (setAddr r (\<lambda>_. PubKeyAddr a))) (\<lambda>_. retM key))
       | _ \<Rightarrow> failM MgrPanic))"

definition witnessScript :: "('k, 'a, 'm) hdEnv_scheme \<Rightarrow> nat \<Rightarrow> 'a witnessScriptAddress
    \<Rightarrow> ('a witnessScriptAddress \<Rightarrow> 'a managedAddr) \<Rightarrow> (('k, 'a) manager, bytes) mop" where
  "witnessScript E r a con = bindM getM (\<lambda>m.
     if waIsSecret a \<and> WatchOnly m then failM (managerError ErrWatchingOnly)
     else if waIsSecret a \<and> IsLocked m then failM (managerError ErrLocked)
     else
       bindM (liftM (scriptAddress_unlock E
         (if waIsSecret a then mgCryptoKeyScript m else Some (mgCryptoKeyPub m)) a)) (\<lambda>(script, a).
       bindM (modifyM (setAddr r (\<lambda>_. con a))) (\<lambda>_. retM script)))"

definition ScriptOf :: "('k, 'a, 'm) hdEnv_scheme \<Rightarrow> nat \<Rightarrow> (('k, 'a) manager, bytes) mop" where
  "ScriptOf E r = bindM getM (\<lambda>m. case mgHeap m ! r of
     PubKeyAddr _ \<Rightarrow> failM MgrPanic
   | ScriptAddr a \<Rightarrow>
       if WatchOnly m then failM (managerError ErrWatchingOnly)
       else if IsLocked m then failM (managerError ErrLocked)
       else
         bindM (liftM (scriptAddress_unlock E (mgCryptoKeyScript m) a)) (\<lambda>(script, a).
         bindM (modifyM (setAddr r (\<lambda>_. ScriptAddr a))) (\<lambda>_. retM script))
   | WitnessScriptAddr a \<Rightarrow> witnessScript E r a WitnessScriptAddr
   | TaprootScriptAddr a k \<Rightarrow> witnessScript E r a (\<lambda>a. TaprootScriptAddr a k))"

end
