(* ===== verification/Mgr_Scoped.thy ===== *)
theory Mgr_Scoped
  imports Mgr_Address
begin

text \<open>
  A scoped key manager of \<open>waddrmgr/scoped_manager.go\<close>: the account information it caches, the managed
  addresses it makes from database rows and caches by their script address, and the private keys it
  caches by path.  \<open>scope\<close> says which scoped manager of the root manager an operation works on.
\<close>

section \<open>Addresses of an account\<close>

definition accountAddrType :: "'k scopedKeyManager \<Rightarrow> 'k accountInfo \<Rightarrow> bool \<Rightarrow> u8" where
  "accountAddrType s acctInfo internal =
     (let addrSchema = (case aiAddrSchema acctInfo of None \<Rightarrow> smAddrSchema s | Some schema \<Rightarrow> schema) in
      if internal then InternalAddrType addrSchema else ExternalAddrType addrSchema)"

definition keyToManaged :: "('k, 'a, 'm) hdEnv_scheme \<Rightarrow> keyScope \<Rightarrow> 'k \<Rightarrow> derivationPath
    \<Rightarrow> 'k accountInfo \<Rightarrow> (('k, 'a) manager, nat) mop" where
  "keyToManaged E scope derivedKey derivationPath acctInfo =
     bindM (getScoped scope) (\<lambda>s.
     bindM getM (\<lambda>m.
     let internal = (pathBranch derivationPath = InternalBranch_mgr) in
     bindM (liftM (newManagedAddressFromExtKey E (mgCryptoKeyPriv m) derivationPath derivedKey
       (accountAddrType s acctInfo internal) (Some acctInfo))) (\<lambda>ma.
     bindM (allocAddr (PubKeyAddr (if internal then ma\<lparr>maInternal := True\<rparr> else ma))) (\<lambda>r.
     bindM (if isPrivate E derivedKey then retM ()
       else modifyM (setScoped scope (\<lambda>s. s\<lparr>smDeriveOnUnlock := smDeriveOnUnlock s
         @ [\<lparr>udAddr = r, udBranch = pathBranch derivationPath, udIndex = pathIndex derivationPath\<rparr>]\<rparr>))) (\<lambda>_.
     retM r)))))"

section \<open>The accounts in memory\<close>

definition decryptKey :: "('k, 'a, 'm) hdEnv_scheme \<Rightarrow> bytes option \<Rightarrow> bytes \<Rightarrow> 'k mres" where
  "decryptKey E cryptoKey encryptedKey = bindE (decryptWith E cryptoKey encryptedKey) (\<lambda>serializedKey.
     case newKey E serializedKey of None \<Rightarrow> Inl (managerError ErrCrypto) | Some key \<Rightarrow> Inr key)"

text \<open>The account of a row, and whether its private key is known.\<close>

definition accountOfRow :: "('k, 'a, 'm) hdEnv_scheme \<Rightarrow> ('k, 'a) manager \<Rightarrow> acctRowInterface
    \<Rightarrow> ('k accountInfo \<times> bool) mres" where
  "accountOfRow E m rowInterface =
     (let hasPrivateKey = (\<not> IsLocked m \<and> \<not> WatchOnly m) in
      case rowInterface of
        DefaultAccount row \<Rightarrow>
          bindE (decryptKey E (Some (mgCryptoKeyPub m)) (defPubKeyEncrypted row)) (\<lambda>pub.
          bindE (if hasPrivateKey then
              bindE (decryptKey E (mgCryptoKeyPriv m) (defPrivKeyEncrypted row)) (\<lambda>priv. Inr (Some priv))
            else Inr None) (\<lambda>priv.
          Inr (\<lparr>acctName = defName row, aiType = acctType row, acctKeyEncrypted = defPrivKeyEncrypted row,
            acctKeyPriv = priv, acctKeyPub = Some pub,
            nextExternalIndex = defNextExternalIndex row, lastExternalAddr = None,
            nextInternalIndex = defNextInternalIndex row, lastInternalAddr = None,
            aiAddrSchema = None, masterKeyFingerprint = 0\<rparr>, hasPrivateKey)))
      | WatchOnlyAccount row \<Rightarrow>
          bindE (decryptKey E (Some (mgCryptoKeyPub m)) (woPubKeyEncrypted row)) (\<lambda>pub.
          Inr (\<lparr>acctName = woName row, aiType = acctType row, acctKeyEncrypted = [],
            acctKeyPriv = None, acctKeyPub = Some pub,
            nextExternalIndex = woNextExternalIndex row, lastExternalAddr = None,
            nextInternalIndex = woNextInternalIndex row, lastInternalAddr = None,
            aiAddrSchema = woAddrSchema row, masterKeyFingerprint = woMasterKeyFingerprint row\<rparr>, False)))"

definition lastAddress :: "('k, 'a, 'm) hdEnv_scheme \<Rightarrow> keyScope \<Rightarrow> u32 \<Rightarrow> 'k accountInfo \<Rightarrow> u32 \<Rightarrow> u32 \<Rightarrow> bool
    \<Rightarrow> (('k, 'a) manager, nat) mop" where
  "lastAddress E scope account acctInfo branch nextIndex hasPrivateKey =
     (let index = (if 0 < nextIndex then nextIndex - 1 else nextIndex) in
      case acctKeyPub acctInfo of
        None \<Rightarrow> failM MgrPanic
      | Some pub \<Rightarrow>
          bindM (liftM (deriveKey E acctInfo branch index hasPrivateKey)) (\<lambda>key.
          keyToManaged E scope key \<lparr>InternalAccount = account, pathAccount = childIndex E pub,
            pathBranch = branch, pathIndex = index, pathFingerprint = masterKeyFingerprint acctInfo\<rparr> acctInfo))"

definition loadAccountInfo :: "('k, 'a, 'm) hdEnv_scheme \<Rightarrow> mgrStore \<Rightarrow> keyScope \<Rightarrow> u32
    \<Rightarrow> (('k, 'a) manager, 'k accountInfo) mop" where
  "loadAccountInfo E ns scope account =
     bindM (getScoped scope) (\<lambda>s. case map_of (smAcctInfo s) account of
       Some acctInfo \<Rightarrow> retM acctInfo
     | None \<Rightarrow>
         bindM (convertM (liftM (fetchAccountInfo ns scope account))) (\<lambda>rowInterface.
         bindM getM (\<lambda>m.
         bindM (liftM (accountOfRow E m rowInterface)) (\<lambda>(acctInfo, hasPrivateKey).
         bindM (lastAddress E scope account acctInfo ExternalBranch_mgr (nextExternalIndex acctInfo)
           hasPrivateKey) (\<lambda>lastExtAddr.
         let acctInfo = acctInfo\<lparr>lastExternalAddr := Some lastExtAddr\<rparr> in
         bindM (lastAddress E scope account acctInfo InternalBranch_mgr (nextInternalIndex acctInfo)
           hasPrivateKey) (\<lambda>lastIntAddr.
         let acctInfo = acctInfo\<lparr>lastInternalAddr := Some lastIntAddr\<rparr> in
         bindM (modifyM (setScoped scope (\<lambda>s. s\<lparr>smAcctInfo := AList.update account acctInfo (smAcctInfo s)\<rparr>))) (\<lambda>_.
         retM acctInfo)))))))"

definition InvalidateAccountCache :: "keyScope \<Rightarrow> u32 \<Rightarrow> ('k, 'a) manager \<Rightarrow> ('k, 'a) manager" where
  "InvalidateAccountCache scope account =
     setScoped scope (\<lambda>s. s\<lparr>smAcctInfo := AList.delete account (smAcctInfo s)\<rparr>)"

definition IsWatchOnlyAccount_scoped :: "('k, 'a, 'm) hdEnv_scheme \<Rightarrow> mgrStore \<Rightarrow> keyScope \<Rightarrow> u32
    \<Rightarrow> (('k, 'a) manager, bool) mop" where
  "IsWatchOnlyAccount_scoped E ns scope account =
     bindM (loadAccountInfo E ns scope account) (\<lambda>acctInfo. retM (acctKeyPriv acctInfo = None))"

definition LastExternalAddress :: "('k, 'a, 'm) hdEnv_scheme \<Rightarrow> mgrStore \<Rightarrow> keyScope \<Rightarrow> u32
    \<Rightarrow> (('k, 'a) manager, nat option) mop" where
  "LastExternalAddress E ns scope account =
     (if MaxAccountNum < account then failM (managerError ErrAccountNumTooHigh)
      else bindM (loadAccountInfo E ns scope account) (\<lambda>acctInfo.
        if 0 < nextExternalIndex acctInfo then retM (lastExternalAddr acctInfo)
        else failM (managerError ErrAddressNotFound)))"

definition LastInternalAddress :: "('k, 'a, 'm) hdEnv_scheme \<Rightarrow> mgrStore \<Rightarrow> keyScope \<Rightarrow> u32
    \<Rightarrow> (('k, 'a) manager, nat option) mop" where
  "LastInternalAddress E ns scope account =
     (if MaxAccountNum < account then failM (managerError ErrAccountNumTooHigh)
      else bindM (loadAccountInfo E ns scope account) (\<lambda>acctInfo.
        if 0 < nextInternalIndex acctInfo then retM (lastInternalAddr acctInfo)
        else failM (managerError ErrAddressNotFound)))"

section \<open>Derivation by path\<close>

definition deriveKeyFromPath :: "('k, 'a, 'm) hdEnv_scheme \<Rightarrow> mgrStore \<Rightarrow> keyScope \<Rightarrow> u32 \<Rightarrow> u32 \<Rightarrow> u32 \<Rightarrow> bool
    \<Rightarrow> (('k, 'a) manager, 'k \<times> 'k option \<times> u32) mop" where
  "deriveKeyFromPath E ns scope internalAccount branch index private =
     bindM (loadAccountInfo E ns scope internalAccount) (\<lambda>acctInfo.
     let private = (private \<and> acctKeyPriv acctInfo \<noteq> None) in
     bindM (liftM (deriveKey E acctInfo branch index private)) (\<lambda>addrKey.
     retM (addrKey, if private then acctKeyPriv acctInfo else acctKeyPub acctInfo,
       masterKeyFingerprint acctInfo)))"

definition DeriveFromKeyPath :: "('k, 'a, 'm) hdEnv_scheme \<Rightarrow> mgrStore \<Rightarrow> keyScope \<Rightarrow> derivationPath
    \<Rightarrow> (('k, 'a) manager, nat) mop" where
  "DeriveFromKeyPath E ns scope kp = bindM getM (\<lambda>m.
     bindM (deriveKeyFromPath E ns scope (InternalAccount kp) (pathBranch kp) (pathIndex kp)
       (\<not> IsLocked m \<and> \<not> WatchOnly m)) (\<lambda>(addrKey, _).
     bindM (loadAccountInfo E ns scope (InternalAccount kp)) (\<lambda>acctInfo.
     keyToManaged E scope addrKey kp acctInfo)))"

text \<open>
  The cache of private keys keeps the \<open>defaultPrivKeyCacheSize\<close> keys used last, the latest first.
\<close>

definition defaultPrivKeyCacheSize :: nat where "defaultPrivKeyCacheSize = 10000"

definition lruPut :: "derivationPath \<Rightarrow> bytes \<Rightarrow> (derivationPath \<times> bytes) list \<Rightarrow> (derivationPath \<times> bytes) list" where
  "lruPut kp key cache = take defaultPrivKeyCacheSize ((kp, key) # AList.delete kp cache)"

definition DeriveFromKeyPathCache :: "('k, 'a, 'm) hdEnv_scheme \<Rightarrow> keyScope \<Rightarrow> derivationPath
    \<Rightarrow> (('k, 'a) manager, bytes) mop" where
  "DeriveFromKeyPathCache E scope kp = bindM (getScoped scope) (\<lambda>s.
     case map_of (smPrivKeyCache s) kp of
       Some privKey \<Rightarrow>
         bindM (modifyM (setScoped scope (\<lambda>s. s\<lparr>smPrivKeyCache := lruPut kp privKey (smPrivKeyCache s)\<rparr>)))
           (\<lambda>_. retM privKey)
     | None \<Rightarrow> (case map_of (smAcctInfo s) (InternalAccount kp) of
         None \<Rightarrow> failM (managerError ErrAccountNotCached)
       | Some acctInfo \<Rightarrow> bindM getM (\<lambda>m.
           bindM (liftM (deriveKey E acctInfo (pathBranch kp) (pathIndex kp)
             (\<not> IsLocked m \<and> \<not> WatchOnly m))) (\<lambda>addrKey.
           bindM (liftM (fromLib (ecPrivKey E addrKey))) (\<lambda>privKey.
           bindM (modifyM (setScoped scope (\<lambda>s. s\<lparr>smPrivKeyCache := lruPut kp privKey (smPrivKeyCache s)\<rparr>)))
             (\<lambda>_. retM privKey))))))"

section \<open>Managed addresses of database rows\<close>

definition chainAddressRowToManaged :: "('k, 'a, 'm) hdEnv_scheme \<Rightarrow> mgrStore \<Rightarrow> keyScope \<Rightarrow> dbChainAddressRow
    \<Rightarrow> (('k, 'a) manager, nat) mop" where
  "chainAddressRowToManaged E ns scope row = bindM getM (\<lambda>m.
     bindM (deriveKeyFromPath E ns scope (addrAccount row) (chainBranch row) (chainIndex row)
       (\<not> IsLocked m \<and> \<not> WatchOnly m)) (\<lambda>(addressKey, acctKey, fingerprint).
     bindM (loadAccountInfo E ns scope (addrAccount row)) (\<lambda>acctInfo.
     case acctKey of
       None \<Rightarrow> failM MgrPanic
     | Some acctKey \<Rightarrow> keyToManaged E scope addressKey
         \<lparr>InternalAccount = addrAccount row, pathAccount = childIndex E acctKey,
          pathBranch = chainBranch row, pathIndex = chainIndex row, pathFingerprint = fingerprint\<rparr> acctInfo)))"

definition importedAddressRowToManaged :: "('k, 'a, 'm) hdEnv_scheme \<Rightarrow> keyScope \<Rightarrow> dbImportedAddressRow
    \<Rightarrow> (('k, 'a) manager, nat) mop" where
  "importedAddressRowToManaged E scope row =
     bindM (getScoped scope) (\<lambda>s.
     bindM getM (\<lambda>m.
     bindM (liftM (decryptWith E (Some (mgCryptoKeyPub m)) (impPubKey row))) (\<lambda>pubBytes.
     case parsePubKey E pubBytes of
       None \<Rightarrow> failM (managerError ErrCrypto)
     | Some pubKey \<Rightarrow>
         bindM (liftM (newManagedAddressWithoutPrivKey E ImportedDerivationPath pubKey (length pubBytes = 33)
           (ExternalAddrType (smAddrSchema s)))) (\<lambda>ma.
         allocAddr (PubKeyAddr (ma\<lparr>maPrivKeyEncrypted := impPrivKey row, maImported := True\<rparr>))))))"

definition scriptAddressRowToManaged :: "('k, 'a, 'm) hdEnv_scheme \<Rightarrow> dbScriptAddressRow
    \<Rightarrow> (('k, 'a) manager, nat) mop" where
  "scriptAddressRowToManaged E row = bindM getM (\<lambda>m.
     bindM (liftM (decryptWith E (Some (mgCryptoKeyPub m)) (scrHash row))) (\<lambda>hash.
     bindM (liftM (newScriptAddress E (addrAccount row) hash (scrScript row))) allocAddr))"

definition witnessScriptAddressRowToManaged :: "('k, 'a, 'm) hdEnv_scheme \<Rightarrow> dbWitnessScriptAddressRow
    \<Rightarrow> (('k, 'a) manager, nat) mop" where
  "witnessScriptAddressRowToManaged E row = bindM getM (\<lambda>m.
     bindM (liftM (decryptWith E (Some (mgCryptoKeyPub m)) (witHash row))) (\<lambda>hash.
     bindM (liftM (newWitnessScriptAddress E (addrAccount row) hash (witScript row) (witVersion row)
       (witIsSecret row))) allocAddr))"

definition rowInterfaceToManaged :: "('k, 'a, 'm) hdEnv_scheme \<Rightarrow> mgrStore \<Rightarrow> keyScope \<Rightarrow> addrRowInterface
    \<Rightarrow> (('k, 'a) manager, nat) mop" where
  "rowInterfaceToManaged E ns scope rowInterface = (case rowInterface of
     ChainAddress row \<Rightarrow> chainAddressRowToManaged E ns scope row
   | ImportedAddress row \<Rightarrow> importedAddressRowToManaged E scope row
   | ScriptAddress row \<Rightarrow> scriptAddressRowToManaged E row
   | WitnessScriptAddress row \<Rightarrow> witnessScriptAddressRowToManaged E row)"

definition loadAndCacheAddress :: "('k, 'a, 'm) hdEnv_scheme \<Rightarrow> mgrStore \<Rightarrow> keyScope \<Rightarrow> 'a
    \<Rightarrow> (('k, 'a) manager, nat) mop" where
  "loadAndCacheAddress E ns scope address =
     bindM (convertM (liftM (fetchAddress E ns scope (scriptAddress E address)))) (\<lambda>rowInterface.
     bindM (rowInterfaceToManaged E ns scope rowInterface) (\<lambda>r.
     bindM getM (\<lambda>m.
     bindM (liftM (addressOf_ma (mgHeap m ! r))) (\<lambda>addr.
     bindM (modifyM (cacheAddr scope (scriptAddress E addr) r)) (\<lambda>_. retM r)))))"

definition existsAddress_scoped :: "('k, 'a, 'm) hdEnv_scheme \<Rightarrow> mgrStore \<Rightarrow> keyScope \<Rightarrow> bytes
    \<Rightarrow> (('k, 'a) manager, bool) mop" where
  "existsAddress_scoped E ns scope addressID = bindM (getScoped scope) (\<lambda>s.
     if map_of (smAddrs s) addressID \<noteq> None then retM True
     else liftM (existsAddress E ns scope addressID))"

definition Address_scoped :: "('k, 'a, 'm) hdEnv_scheme \<Rightarrow> mgrStore \<Rightarrow> keyScope \<Rightarrow> 'a
    \<Rightarrow> (('k, 'a) manager, nat) mop" where
  "Address_scoped E ns scope address = (let address = pubKeyToHash E address in
     bindM (getScoped scope) (\<lambda>s. case map_of (smAddrs s) (scriptAddress E address) of
       Some ma \<Rightarrow> retM ma
     | None \<Rightarrow> loadAndCacheAddress E ns scope address))"

definition AddrAccount_scoped :: "('k, 'a, 'm) hdEnv_scheme \<Rightarrow> mgrStore \<Rightarrow> keyScope \<Rightarrow> 'a \<Rightarrow> u32 mres" where
  "AddrAccount_scoped E ns scope address = convertE (fetchAddrAccount E ns scope (scriptAddress E address))"

definition MarkUsed_scoped :: "('k, 'a, 'm) hdEnv_scheme \<Rightarrow> mgrStore \<Rightarrow> keyScope \<Rightarrow> 'a
    \<Rightarrow> (('k, 'a) manager, mgrStore) mop" where
  "MarkUsed_scoped E ns scope address = (let addressID = scriptAddress E address in
     bindM (convertM (liftM (markAddressUsed E ns scope addressID))) (\<lambda>ns.
     bindM (modifyM (setScoped scope (\<lambda>s. s\<lparr>smAddrs := AList.delete addressID (smAddrs s)\<rparr>))) (\<lambda>_.
     retM ns)))"

end
