(* ===== verification/Mgr_Account.thy ===== *)
theory Mgr_Account
  imports Mgr_Scoped
begin

text \<open>
  Making and renaming accounts (\<open>scoped_manager.go\<close>, with the derivation of account keys in
  \<open>manager.go\<close>).  The name of a raw account is the decimal number after \<open>act:\<close>.
\<close>

section \<open>Names and keys\<close>

definition isReservedAccountName :: "gostring \<Rightarrow> bool" where
  "isReservedAccountName name \<longleftrightarrow> name = ImportedAddrAccountName"

definition isReservedAccountNum :: "u32 \<Rightarrow> bool" where
  "isReservedAccountNum acct \<longleftrightarrow> acct = ImportedAddrAccount"

definition ValidateAccountName :: "gostring \<Rightarrow> unit mres" where
  "ValidateAccountName name =
     (if name = [] then Inl (managerError ErrInvalidAccount)
      else if isReservedAccountName name then Inl (managerError ErrInvalidAccount)
      else Inr ())"

definition deriveCoinTypeKey :: "('k, 'a, 'm) hdEnv_scheme \<Rightarrow> 'k \<Rightarrow> keyScope \<Rightarrow> 'k mres" where
  "deriveCoinTypeKey E masterNode scope =
     (if maxCoinType < Coin scope then Inl (managerError ErrCoinTypeTooHigh)
      else bindE (fromDerive (deriveChild E masterNode (Purpose scope + HardenedKeyStart))) (\<lambda>purpose.
        fromDerive (deriveChild E purpose (Coin scope + HardenedKeyStart))))"

definition deriveAccountKey :: "('k, 'a, 'm) hdEnv_scheme \<Rightarrow> 'k \<Rightarrow> u32 \<Rightarrow> 'k mres" where
  "deriveAccountKey E coinTypeKey account =
     (if MaxAccountNum < account then Inl (managerError ErrAccountNumTooHigh)
      else fromDerive (deriveChild E coinTypeKey (account + HardenedKeyStart)))"

definition lookupAccount :: "mgrStore \<Rightarrow> keyScope \<Rightarrow> gostring \<Rightarrow> u32 mres" where
  "lookupAccount ns scope name = fetchAccountByName ns scope name"

text \<open>\<open>err == nil\<close> of a lookup whose error is not returned; a panic is not caught.\<close>

definition nameTaken :: "mgrStore \<Rightarrow> keyScope \<Rightarrow> gostring \<Rightarrow> bool mres" where
  "nameTaken ns scope name = (case lookupAccount ns scope name of
     Inr _ \<Rightarrow> Inr True
   | Inl e \<Rightarrow> if e = MgrPanic then Inl e else Inr False)"

text \<open>An error of the next call is replaced by one of the manager.\<close>

definition failing :: "mgrCode \<Rightarrow> 'r mres \<Rightarrow> 'r mres" where
  "failing c x = (case x of Inl e \<Rightarrow> Inl (if e = MgrPanic then e else managerError c) | Inr r \<Rightarrow> Inr r)"

lemma failing_eq_Inr [simp]: "failing c x = Inr r \<longleftrightarrow> x = Inr r"
  by (cases x) (simp_all add: failing_def)

section \<open>New accounts\<close>

text \<open>The keys of a new account, encrypted: the public and the private one.\<close>

definition accountKeys :: "('k, 'a, 'm) hdEnv_scheme \<Rightarrow> ('k, 'a) manager \<Rightarrow> mgrStore \<Rightarrow> keyScope \<Rightarrow> u32
    \<Rightarrow> (bytes \<times> bytes) mres" where
  "accountKeys E m ns scope account =
     bindE (fetchCoinTypeKeys ns scope) (\<lambda>(_, coinTypePrivEnc).
     bindE (failing ErrLocked (decryptWith E (mgCryptoKeyPriv m) coinTypePrivEnc)) (\<lambda>serializedKeyPriv.
     bindE (failing ErrKeyChain (fromLib (newKey E serializedKeyPriv))) (\<lambda>coinTypeKeyPriv.
     bindE (failing ErrKeyChain (deriveAccountKey E coinTypeKeyPriv account)) (\<lambda>acctKeyPriv.
     bindE (failing ErrKeyChain (fromLib (neuter E acctKeyPriv))) (\<lambda>acctKeyPub.
     bindE (encryptWith E (Some (mgCryptoKeyPub m)) (keyString E acctKeyPub)) (\<lambda>acctPubEnc.
     bindE (encryptWith E (mgCryptoKeyPriv m) (keyString E acctKeyPriv)) (\<lambda>acctPrivEnc.
     Inr (acctPubEnc, acctPrivEnc))))))))"

definition newAccount :: "('k, 'a, 'm) hdEnv_scheme \<Rightarrow> ('k, 'a) manager \<Rightarrow> mgrStore \<Rightarrow> keyScope \<Rightarrow> u32
    \<Rightarrow> gostring \<Rightarrow> mgrStore mres" where
  "newAccount E m ns scope account name =
     bindE (ValidateAccountName name) (\<lambda>_.
     bindE (nameTaken ns scope name) (\<lambda>taken.
     bindE (guardE (\<not> taken) (managerError ErrDuplicateAccount)) (\<lambda>_.
     bindE (accountKeys E m ns scope account) (\<lambda>(acctPubEnc, acctPrivEnc).
     bindE (putDefaultAccountInfo E ns scope account acctPubEnc acctPrivEnc 0 0 name) (\<lambda>ns.
     putLastAccount E ns scope account)))))"

fun decimal :: "nat \<Rightarrow> gostring" where
  "decimal n = (if n < 10 then [48 + word_of_nat n]
     else decimal (n div 10) @ [48 + word_of_nat (n mod 10)])"

declare decimal.simps [simp del]

definition rawAccountName :: "u32 \<Rightarrow> gostring" where
  "rawAccountName number = ascii ''act:'' @ decimal (unat number)"

definition NewRawAccount :: "('k, 'a, 'm) hdEnv_scheme \<Rightarrow> ('k, 'a) manager \<Rightarrow> mgrStore \<Rightarrow> keyScope \<Rightarrow> u32
    \<Rightarrow> mgrStore mres" where
  "NewRawAccount E m ns scope number =
     (if WatchOnly m then Inl (managerError ErrWatchingOnly)
      else if IsLocked m then Inl (managerError ErrLocked)
      else newAccount E m ns scope number (rawAccountName number))"

definition NewAccount :: "('k, 'a, 'm) hdEnv_scheme \<Rightarrow> ('k, 'a) manager \<Rightarrow> mgrStore \<Rightarrow> keyScope \<Rightarrow> gostring
    \<Rightarrow> (u32 \<times> mgrStore) mres" where
  "NewAccount E m ns scope name =
     (if WatchOnly m then Inl (managerError ErrWatchingOnly)
      else if IsLocked m then Inl (managerError ErrLocked)
      else bindE (fetchLastAccount ns scope) (\<lambda>account.
        bindE (newAccount E m ns scope (account + 1) name) (\<lambda>ns. Inr (account + 1, ns))))"

text \<open>Only the string of the public key is used.\<close>

definition newAccountWatchingOnly :: "('k, 'a, 'm) hdEnv_scheme \<Rightarrow> ('k, 'a) manager \<Rightarrow> mgrStore \<Rightarrow> keyScope \<Rightarrow> u32
    \<Rightarrow> gostring \<Rightarrow> 'k \<Rightarrow> u32 \<Rightarrow> scopeAddrSchema option \<Rightarrow> mgrStore mres" where
  "newAccountWatchingOnly E m ns scope account name pubKey fingerprint schema =
     bindE (ValidateAccountName name) (\<lambda>_.
     bindE (nameTaken ns scope name) (\<lambda>taken.
     bindE (guardE (\<not> taken) (managerError ErrDuplicateAccount)) (\<lambda>_.
     bindE (encryptWith E (Some (mgCryptoKeyPub m)) (keyString E pubKey)) (\<lambda>acctPubEnc.
     bindE (putWatchOnlyAccountInfo E ns scope account acctPubEnc fingerprint 0 0 name schema) (\<lambda>ns.
     putLastAccount E ns scope account)))))"

definition NewRawAccountWatchingOnly :: "('k, 'a, 'm) hdEnv_scheme \<Rightarrow> ('k, 'a) manager \<Rightarrow> mgrStore \<Rightarrow> keyScope
    \<Rightarrow> u32 \<Rightarrow> 'k \<Rightarrow> u32 \<Rightarrow> scopeAddrSchema option \<Rightarrow> mgrStore mres" where
  "NewRawAccountWatchingOnly E m ns scope number pubKey fingerprint schema =
     newAccountWatchingOnly E m ns scope number (rawAccountName number) pubKey fingerprint schema"

definition NewAccountWatchingOnly :: "('k, 'a, 'm) hdEnv_scheme \<Rightarrow> ('k, 'a) manager \<Rightarrow> mgrStore \<Rightarrow> keyScope
    \<Rightarrow> gostring \<Rightarrow> 'k \<Rightarrow> u32 \<Rightarrow> scopeAddrSchema option \<Rightarrow> (u32 \<times> mgrStore) mres" where
  "NewAccountWatchingOnly E m ns scope name pubKey fingerprint schema =
     bindE (fetchLastAccount ns scope) (\<lambda>account.
     bindE (newAccountWatchingOnly E m ns scope (account + 1) name pubKey fingerprint schema) (\<lambda>ns.
     Inr (account + 1, ns)))"

section \<open>Renaming\<close>

definition renameCached :: "keyScope \<Rightarrow> u32 \<Rightarrow> gostring \<Rightarrow> ('k, 'a) manager \<Rightarrow> ('k, 'a) manager" where
  "renameCached scope account name = setScoped scope (\<lambda>s. case map_of (smAcctInfo s) account of
     None \<Rightarrow> s
   | Some acctInfo \<Rightarrow>
       s\<lparr>smAcctInfo := AList.update account (acctInfo\<lparr>acctName := name\<rparr>) (smAcctInfo s)\<rparr>)"

definition renameRow :: "'e mgrEnv_scheme \<Rightarrow> mgrStore \<Rightarrow> keyScope \<Rightarrow> u32 \<Rightarrow> gostring \<Rightarrow> mgrStore mres" where
  "renameRow E ns scope account name =
     bindE (fetchAccountInfo ns scope account) (\<lambda>rowInterface.
     bindE (deleteAccountIDIndex E ns scope account) (\<lambda>ns. case rowInterface of
         DefaultAccount row \<Rightarrow>
           bindE (deleteAccountNameIndex E ns scope (defName row)) (\<lambda>ns.
           putDefaultAccountInfo E ns scope account (defPubKeyEncrypted row) (defPrivKeyEncrypted row)
             (defNextExternalIndex row) (defNextInternalIndex row) name)
       | WatchOnlyAccount row \<Rightarrow>
           bindE (deleteAccountNameIndex E ns scope (woName row)) (\<lambda>ns.
           putWatchOnlyAccountInfo E ns scope account (woPubKeyEncrypted row) (woMasterKeyFingerprint row)
             (woNextExternalIndex row) (woNextInternalIndex row) name (woAddrSchema row))))"

definition RenameAccount :: "'e mgrEnv_scheme \<Rightarrow> mgrStore \<Rightarrow> keyScope \<Rightarrow> u32 \<Rightarrow> gostring
    \<Rightarrow> (('k, 'a) manager, mgrStore) mop" where
  "RenameAccount E ns scope account name =
     (if isReservedAccountNum account then failM (managerError ErrInvalidAccount)
      else bindM (liftM (nameTaken ns scope name)) (\<lambda>taken.
        if taken then failM (managerError ErrDuplicateAccount)
        else bindM (liftM (ValidateAccountName name)) (\<lambda>_.
          bindM (liftM (renameRow E ns scope account name)) (\<lambda>ns.
          bindM (modifyM (renameCached scope account name)) (\<lambda>_. retM ns)))))"

end
