(* ===== verification/Mgr_Lock.thy ===== *)
theory Mgr_Lock
  imports Mgr_Account
begin

text \<open>
  Locking and unlocking the address manager (\<open>waddrmgr/manager.go\<close>): which keys each operation
  clears and restores, the change of a passphrase, the conversion to watching-only, and encryption
  under a key of the manager.  A pointer or interface that is \<open>nil\<close> is \<open>None\<close> and a method call on
  it a panic.  \<open>append\<close> of an empty passphrase to the salt returns the salt itself, which is then
  zeroed with the salted passphrase.
\<close>

section \<open>Locking\<close>

definition zeroPass :: bytes where "zeroPass = replicate 64 0"

definition lockScoped :: "'k scopedKeyManager \<Rightarrow> 'k scopedKeyManager" where
  "lockScoped s = s\<lparr>smAcctInfo := map (\<lambda>(account, acctInfo). (account, acctInfo\<lparr>acctKeyPriv := None\<rparr>))
     (smAcctInfo s)\<rparr>"

definition lockAddr :: "'a managedAddr \<Rightarrow> 'a managedAddr" where
  "lockAddr ma = (case ma of
     PubKeyAddr a \<Rightarrow> PubKeyAddr (managedAddress_lock a)
   | ScriptAddr a \<Rightarrow> ScriptAddr (scriptAddress_lock a)
   | _ \<Rightarrow> ma)"

text \<open>The managed addresses that a scoped manager caches.\<close>

definition cachedRefs :: "('k, 'a) manager \<Rightarrow> nat list" where
  "cachedRefs m = concat (map (\<lambda>(_, s). map snd (smAddrs s)) (mgScoped m))"

definition mapCached :: "('a managedAddr \<Rightarrow> 'a managedAddr) \<Rightarrow> ('k, 'a) manager \<Rightarrow> ('k, 'a) manager" where
  "mapCached f m = m\<lparr>mgHeap := map (\<lambda>r. if r \<in> set (cachedRefs m) then f (mgHeap m ! r) else mgHeap m ! r)
     [0..<length (mgHeap m)]\<rparr>"

definition mapScoped :: "('k scopedKeyManager \<Rightarrow> 'k scopedKeyManager) \<Rightarrow> ('k, 'a) manager \<Rightarrow> ('k, 'a) manager" where
  "mapScoped f m = m\<lparr>mgScoped := map (\<lambda>(scope, s). (scope, f s)) (mgScoped m)\<rparr>"

definition lockKeys :: "('k, 'a) manager \<Rightarrow> ('k, 'a) manager" where
  "lockKeys m = m\<lparr>mgCryptoKeyScript := Some zeroKey, mgCryptoKeyPriv := Some zeroKey,
     mgMasterKeyPriv := map_option SecretKey_Zero (mgMasterKeyPriv m), mgHashedPass := zeroPass,
     mgLocked := True\<rparr>"

definition hasPrivateKeys :: "('k, 'a) manager \<Rightarrow> bool" where
  "hasPrivateKeys m \<longleftrightarrow> mgCryptoKeyScript m \<noteq> None \<and> mgCryptoKeyPriv m \<noteq> None
     \<and> (case mgMasterKeyPriv m of None \<Rightarrow> False | Some sk \<Rightarrow> skKey sk \<noteq> None)"

definition lock :: "(('k, 'a) manager, unit) mop" where
  "lock = bindM (modifyM (\<lambda>m. mapCached lockAddr (mapScoped lockScoped m))) (\<lambda>_.
     bindM getM (\<lambda>m. bindM (guardM (hasPrivateKeys m) MgrPanic) (\<lambda>_. modifyM lockKeys)))"

definition Lock :: "(('k, 'a) manager, unit) mop" where
  "Lock = bindM getM (\<lambda>m.
     if WatchOnly m then failM (managerError ErrWatchingOnly)
     else if IsLocked m then failM (managerError ErrLocked)
     else lock)"

definition zeroSensitivePublicData :: "'k scopedKeyManager \<Rightarrow> 'k scopedKeyManager" where
  "zeroSensitivePublicData s = s\<lparr>smAcctInfo := map (\<lambda>(account, acctInfo). (account, acctInfo\<lparr>acctKeyPub := None\<rparr>))
     (smAcctInfo s)\<rparr>"

definition Close :: "(('k, 'a) manager, unit) mop" where
  "Close = bindM getM (\<lambda>m.
     if mgClosed m then retM ()
     else bindM (modifyM (mapScoped zeroSensitivePublicData)) (\<lambda>_.
       bindM (if \<not> WatchOnly m \<and> \<not> IsLocked m then lock else retM ()) (\<lambda>_.
       modifyM (\<lambda>m. m\<lparr>mgCryptoKeyPub := zeroKey, mgMasterKeyPub := SecretKey_Zero (mgMasterKeyPub m),
         mgClosed := True\<rparr>))))"

text \<open>\<open>if err != nil { m.lock(); return err }\<close>.\<close>

definition lockOnError :: "(('k, 'a) manager, 'r) mop \<Rightarrow> (('k, 'a) manager, 'r) mop" where
  "lockOnError f m = (case f m of
     (Inr r, m) \<Rightarrow> (Inr r, m)
   | (Inl e, m) \<Rightarrow> if e = MgrPanic then (Inl e, m) else bindM lock (\<lambda>_. failM e) m)"

section \<open>Unlocking\<close>

definition unlockAccount :: "('k, 'a, 'm) hdEnv_scheme \<Rightarrow> keyScope \<Rightarrow> u32 \<Rightarrow> (('k, 'a) manager, unit) mop" where
  "unlockAccount E scope account = bindM (getScoped scope) (\<lambda>s.
     case map_of (smAcctInfo s) account of
       None \<Rightarrow> retM ()
     | Some acctInfo \<Rightarrow> bindM getM (\<lambda>m.
         bindM (liftM (decryptWith E (mgCryptoKeyPriv m) (acctKeyEncrypted acctInfo))) (\<lambda>decrypted.
         case newKey E decrypted of
           None \<Rightarrow> failM (managerError ErrKeyChain)
         | Some key \<Rightarrow> modifyM (setScoped scope (\<lambda>s. s\<lparr>smAcctInfo :=
             AList.update account (acctInfo\<lparr>acctKeyPriv := Some key\<rparr>) (smAcctInfo s)\<rparr>)))))"

definition deriveOnUnlock :: "('k, 'a, 'm) hdEnv_scheme \<Rightarrow> mgrStore \<Rightarrow> keyScope \<Rightarrow> unlockDeriveInfo
    \<Rightarrow> (('k, 'a) manager, unit) mop" where
  "deriveOnUnlock E ns scope info = bindM getM (\<lambda>m.
     bindM (deriveKeyFromPath E ns scope (internalAccount_ma (mgHeap m ! udAddr info)) (udBranch info)
       (udIndex info) True) (\<lambda>(addressKey, _).
     case ecPrivKey E addressKey of
       None \<Rightarrow> failM MgrPanic
     | Some privKeyBytes \<Rightarrow> bindM getM (\<lambda>m.
         bindM (liftM (encryptWith E (mgCryptoKeyPriv m) privKeyBytes)) (\<lambda>privKeyEncrypted.
         bindM (modifyM (setAddr (udAddr info) (\<lambda>ma. case ma of
             PubKeyAddr a \<Rightarrow> PubKeyAddr (a\<lparr>maPrivKeyEncrypted := privKeyEncrypted, maPrivKeyCT := privKeyBytes\<rparr>)
           | _ \<Rightarrow> ma))) (\<lambda>_.
         modifyM (setScoped scope (\<lambda>s. s\<lparr>smDeriveOnUnlock := tl (smDeriveOnUnlock s)\<rparr>)))))))"

definition unlockScoped :: "('k, 'a, 'm) hdEnv_scheme \<Rightarrow> mgrStore \<Rightarrow> keyScope \<Rightarrow> (('k, 'a) manager, unit) mop" where
  "unlockScoped E ns scope =
     bindM (getScoped scope) (\<lambda>s.
     bindM (foldM_mop (\<lambda>(account, _) _. unlockAccount E scope account) (smAcctInfo s) ()) (\<lambda>_.
     bindM (getScoped scope) (\<lambda>s.
     foldM_mop (\<lambda>info _. deriveOnUnlock E ns scope info) (smDeriveOnUnlock s) ())))"

definition deriveMaster :: "('k, 'a, 'm) hdEnv_scheme \<Rightarrow> bytes \<Rightarrow> (('k, 'a) manager, secretKey) mop" where
  "deriveMaster E passphrase = bindM getM (\<lambda>m. case mgMasterKeyPriv m of
     None \<Rightarrow> failM MgrPanic
   | Some sk \<Rightarrow> (let (sk, err) = DeriveKey E sk passphrase in
       bindM (modifyM (\<lambda>m. m\<lparr>mgMasterKeyPriv := Some sk\<rparr>)) (\<lambda>_. case err of
         None \<Rightarrow> retM sk
       | Some SnaclPanic \<Rightarrow> failM MgrPanic
       | Some ErrInvalidPassword \<Rightarrow> failM (managerError ErrWrongPassphrase)
       | Some _ \<Rightarrow> failM (managerError ErrCrypto))))"

definition masterDecrypt :: "('k, 'a, 'm) hdEnv_scheme \<Rightarrow> secretKey \<Rightarrow> bytes \<Rightarrow> bytes mres" where
  "masterDecrypt E sk inp = (case SecretKey_Decrypt E sk inp of
     Inl e \<Rightarrow> Inl (if e = SnaclPanic then MgrPanic else managerError ErrCrypto)
   | Inr x \<Rightarrow> Inr x)"

definition masterEncrypt :: "('k, 'a, 'm) hdEnv_scheme \<Rightarrow> secretKey \<Rightarrow> bytes \<Rightarrow> bytes mres" where
  "masterEncrypt E sk inp = (case SecretKey_Encrypt E sk inp of
     Inl e \<Rightarrow> Inl (if e = SnaclPanic then MgrPanic else managerError ErrCrypto)
   | Inr x \<Rightarrow> Inr x)"

text \<open>The hash of the salted passphrase, and the salt after it is taken.\<close>

definition saltedHash :: "('k, 'a, 'm) hdEnv_scheme \<Rightarrow> bytes \<Rightarrow> bytes \<Rightarrow> bytes \<times> bytes" where
  "saltedHash E salt passphrase =
     (sha512 E (salt @ passphrase), if passphrase = [] then replicate (length salt) 0 else salt)"

definition unlockKeys :: "('k, 'a, 'm) hdEnv_scheme \<Rightarrow> mgrStore \<Rightarrow> bytes \<Rightarrow> (('k, 'a) manager, unit) mop" where
  "unlockKeys E ns passphrase =
     bindM (deriveMaster E passphrase) (\<lambda>sk.
     bindM getM (\<lambda>m.
     bindM (liftM (masterDecrypt E sk (mgCryptoKeyPrivEncrypted m))) (\<lambda>decryptedKey.
     case mgCryptoKeyPriv m of
       None \<Rightarrow> failM MgrPanic
     | Some key \<Rightarrow>
         bindM (modifyM (\<lambda>m. m\<lparr>mgCryptoKeyPriv := Some (copyInto key decryptedKey)\<rparr>)) (\<lambda>_.
         foldM_mop (\<lambda>(scope, _) _. unlockScoped E ns scope) (mgScoped m) ()))))"

definition Unlock :: "('k, 'a, 'm) hdEnv_scheme \<Rightarrow> mgrStore \<Rightarrow> bytes \<Rightarrow> (('k, 'a) manager, unit) mop" where
  "Unlock E ns passphrase = bindM getM (\<lambda>m.
     if WatchOnly m then failM (managerError ErrWatchingOnly)
     else if \<not> IsLocked m then
       (let (hashedPassphrase, salt) = saltedHash E (mgSalt m) passphrase in
       bindM (modifyM (\<lambda>m. m\<lparr>mgSalt := salt\<rparr>)) (\<lambda>_.
       if hashedPassphrase \<noteq> mgHashedPass m
       then bindM lock (\<lambda>_. failM (managerError ErrWrongPassphrase)) else retM ()))
     else
       bindM (lockOnError (unlockKeys E ns passphrase)) (\<lambda>_.
       modifyM (\<lambda>m. let (hashedPassphrase, salt) = saltedHash E (mgSalt m) passphrase in
         m\<lparr>mgLocked := False, mgHashedPass := hashedPassphrase, mgSalt := salt\<rparr>)))"

section \<open>Watching only\<close>

definition stripCached :: "'a managedAddr \<Rightarrow> 'a managedAddr" where
  "stripCached ma = (case ma of
     PubKeyAddr a \<Rightarrow> PubKeyAddr (a\<lparr>maPrivKeyEncrypted := []\<rparr>)
   | ScriptAddr a \<Rightarrow> ScriptAddr (a\<lparr>saScriptEncrypted := []\<rparr>)
   | _ \<Rightarrow> ma)"

definition stripScoped :: "'k scopedKeyManager \<Rightarrow> 'k scopedKeyManager" where
  "stripScoped s = s\<lparr>smAcctInfo := map (\<lambda>(account, acctInfo). (account, acctInfo\<lparr>acctKeyEncrypted := []\<rparr>))
     (smAcctInfo s)\<rparr>"

definition dropKeys :: "('k, 'a) manager \<Rightarrow> ('k, 'a) manager" where
  "dropKeys m = m\<lparr>mgCryptoKeyScriptEncrypted := [], mgCryptoKeyScript := None,
     mgCryptoKeyPrivEncrypted := [], mgCryptoKeyPriv := None, mgMasterKeyPriv := None,
     mgWatchingOnly := True\<rparr>"

definition ConvertToWatchingOnly :: "('k, 'a, 'm) hdEnv_scheme \<Rightarrow> mgrStore \<Rightarrow> (('k, 'a) manager, mgrStore) mop" where
  "ConvertToWatchingOnly E ns = bindM getM (\<lambda>m.
     if WatchOnly m then retM ns
     else
       bindM (convertM (liftM (deletePrivateKeys E ns))) (\<lambda>ns.
       bindM (convertM (liftM (putWatchingOnly E ns True))) (\<lambda>ns.
       bindM (if IsLocked m then retM () else lock) (\<lambda>_.
       bindM (modifyM (\<lambda>m. dropKeys (mapCached stripCached (mapScoped stripScoped m)))) (\<lambda>_.
       retM ns)))))"

section \<open>Changing a passphrase\<close>

text \<open>The old passphrase is tried on a fresh key with the parameters of the master key.\<close>

definition checkPassphrase :: "('k, 'a, 'm) hdEnv_scheme \<Rightarrow> parameters \<Rightarrow> bytes \<Rightarrow> secretKey mres" where
  "checkPassphrase E params oldPassphrase =
     (case DeriveKey E \<lparr>skKey = Some zeroKey, skParameters = params\<rparr> oldPassphrase of
        (secretKey, None) \<Rightarrow> Inr secretKey
      | (_, Some ErrInvalidPassword) \<Rightarrow> Inl (managerError ErrWrongPassphrase)
      | (_, Some SnaclPanic) \<Rightarrow> Inl MgrPanic
      | (_, Some _) \<Rightarrow> Inl (managerError ErrCrypto))"

text \<open>
  \<open>newSecretKey\<close> with the generator it has outside of tests; \<open>config\<close> holds the scrypt options and
  \<open>k\<close> counts the readings of the random source.
\<close>

type_synonym scryptOptions = "64 word \<times> 64 word \<times> 64 word"

definition newSecretKey :: "('k, 'a, 'm) hdEnv_scheme \<Rightarrow> nat \<Rightarrow> bytes \<Rightarrow> scryptOptions \<Rightarrow> secretKey mres" where
  "newSecretKey E k passphrase config = (case NewSecretKey E k passphrase config of
     Inl e \<Rightarrow> Inl (if e = SnaclPanic then MgrPanic else managerError ErrCrypto)
   | Inr sk \<Rightarrow> Inr sk)"

definition readSalt :: "('k, 'a, 'm) hdEnv_scheme \<Rightarrow> nat \<Rightarrow> bytes mres" where
  "readSalt E k = (case randomRead E k of None \<Rightarrow> Inl (managerError ErrCrypto) | Some salt \<Rightarrow> Inr salt)"

definition changePrivate :: "('k, 'a, 'm) hdEnv_scheme \<Rightarrow> nat \<Rightarrow> mgrStore \<Rightarrow> secretKey \<Rightarrow> secretKey \<Rightarrow> bytes
    \<Rightarrow> (('k, 'a) manager, mgrStore) mop" where
  "changePrivate E k ns secretKey newMasterKey newPassphrase =
     bindM (liftM (readSalt E k)) (\<lambda>passphraseSalt.
     bindM getM (\<lambda>m.
     bindM (liftM (masterDecrypt E secretKey (mgCryptoKeyPrivEncrypted m))) (\<lambda>decPriv.
     bindM (liftM (masterEncrypt E newMasterKey decPriv)) (\<lambda>encPriv.
     bindM (liftM (masterDecrypt E secretKey (mgCryptoKeyScriptEncrypted m))) (\<lambda>decScript.
     bindM (liftM (masterEncrypt E newMasterKey decScript)) (\<lambda>encScript.
     let newKeyParams = Marshal newMasterKey;
       (newMasterKey, hashedPassphrase, passphraseSalt) = (if IsLocked m
         then (SecretKey_Zero newMasterKey, zeroPass, passphraseSalt)
         else (newMasterKey, saltedHash E passphraseSalt newPassphrase)) in
     bindM (convertM (liftM (putCryptoKeys E ns None (Some encPriv) (Some encScript)))) (\<lambda>ns.
     bindM (convertM (liftM (putMasterKeyParams E ns None (Some newKeyParams)))) (\<lambda>ns.
     bindM (modifyM (\<lambda>m. m\<lparr>mgCryptoKeyPrivEncrypted := copyInto (mgCryptoKeyPrivEncrypted m) encPriv,
       mgCryptoKeyScriptEncrypted := copyInto (mgCryptoKeyScriptEncrypted m) encScript,
       mgMasterKeyPriv := Some newMasterKey, mgSalt := passphraseSalt,
       mgHashedPass := hashedPassphrase\<rparr>)) (\<lambda>_.
     retM ns)))))))))"

definition changePublic :: "('k, 'a, 'm) hdEnv_scheme \<Rightarrow> mgrStore \<Rightarrow> secretKey \<Rightarrow> (('k, 'a) manager, mgrStore) mop" where
  "changePublic E ns newMasterKey = bindM getM (\<lambda>m.
     bindM (liftM (masterEncrypt E newMasterKey (mgCryptoKeyPub m))) (\<lambda>encryptedPub.
     bindM (convertM (liftM (putCryptoKeys E ns (Some encryptedPub) None None))) (\<lambda>ns.
     bindM (convertM (liftM (putMasterKeyParams E ns (Some (Marshal newMasterKey)) None))) (\<lambda>ns.
     bindM (modifyM (\<lambda>m. m\<lparr>mgMasterKeyPub := newMasterKey\<rparr>)) (\<lambda>_.
     retM ns)))))"

definition ChangePassphrase :: "('k, 'a, 'm) hdEnv_scheme \<Rightarrow> nat \<Rightarrow> mgrStore \<Rightarrow> bytes \<Rightarrow> bytes \<Rightarrow> bool
    \<Rightarrow> scryptOptions \<Rightarrow> (('k, 'a) manager, mgrStore) mop" where
  "ChangePassphrase E k ns oldPassphrase newPassphrase private config = bindM getM (\<lambda>m.
     if private \<and> WatchOnly m then failM (managerError ErrWatchingOnly)
     else
       (case (if private then mgMasterKeyPriv m else Some (mgMasterKeyPub m)) of
          None \<Rightarrow> failM MgrPanic
        | Some sk \<Rightarrow>
            bindM (liftM (checkPassphrase E (skParameters sk) oldPassphrase)) (\<lambda>secretKey.
            bindM (liftM (newSecretKey E k newPassphrase config)) (\<lambda>newMasterKey.
            if private then changePrivate E (Suc k) ns secretKey newMasterKey newPassphrase
            else changePublic E ns newMasterKey))))"

section \<open>Encryption for the callers\<close>

definition CKTPrivate :: u8 where "CKTPrivate = 0"
definition CKTScript :: u8 where "CKTScript = 1"
definition CKTPublic :: u8 where "CKTPublic = 2"

definition selectCryptoKey :: "('k, 'a) manager \<Rightarrow> u8 \<Rightarrow> bytes option mres" where
  "selectCryptoKey m keyType =
     (if (keyType = CKTPrivate \<or> keyType = CKTScript) \<and> (IsLocked m \<or> WatchOnly m)
        then Inl (managerError ErrLocked)
      else if keyType = CKTPrivate then Inr (mgCryptoKeyPriv m)
      else if keyType = CKTScript then Inr (mgCryptoKeyScript m)
      else if keyType = CKTPublic then Inr (Some (mgCryptoKeyPub m))
      else Inl (managerError ErrInvalidKeyType))"

definition Encrypt :: "('k, 'a, 'm) hdEnv_scheme \<Rightarrow> ('k, 'a) manager \<Rightarrow> u8 \<Rightarrow> bytes \<Rightarrow> bytes mres" where
  "Encrypt E m keyType inp = bindE (selectCryptoKey m keyType) (\<lambda>cryptoKey. encryptWith E cryptoKey inp)"

definition Decrypt :: "('k, 'a, 'm) hdEnv_scheme \<Rightarrow> ('k, 'a) manager \<Rightarrow> u8 \<Rightarrow> bytes \<Rightarrow> bytes mres" where
  "Decrypt E m keyType inp = bindE (selectCryptoKey m keyType) (\<lambda>cryptoKey. decryptWith E cryptoKey inp)"

end
