(* ===== verification/Mgr_Create.thy ===== *)
theory Mgr_Create
  imports Mgr_Lock
begin

text \<open>
  Creating and opening the address manager (\<open>waddrmgr/manager.go\<close>) and its key scopes.  The readings
  of the random source are counted from \<open>k\<close>; the genesis block and the scrypt options are arguments.
\<close>

section \<open>Default scopes\<close>

definition KeyScopeBIP0049Plus :: keyScope where "KeyScopeBIP0049Plus = \<lparr>Purpose = 49, Coin = 0\<rparr>"
definition KeyScopeBIP0084 :: keyScope where "KeyScopeBIP0084 = \<lparr>Purpose = 84, Coin = 0\<rparr>"
definition KeyScopeBIP0086 :: keyScope where "KeyScopeBIP0086 = \<lparr>Purpose = 86, Coin = 0\<rparr>"
definition KeyScopeBIP0044 :: keyScope where "KeyScopeBIP0044 = \<lparr>Purpose = 44, Coin = 0\<rparr>"

definition DefaultKeyScopes :: "keyScope list" where
  "DefaultKeyScopes = [KeyScopeBIP0049Plus, KeyScopeBIP0084, KeyScopeBIP0086, KeyScopeBIP0044]"

definition ScopeAddrMap :: "(keyScope \<times> scopeAddrSchema) list" where
  "ScopeAddrMap =
     [(KeyScopeBIP0049Plus, \<lparr>ExternalAddrType = NestedWitnessPubKey, InternalAddrType = WitnessPubKey\<rparr>),
      (KeyScopeBIP0084, \<lparr>ExternalAddrType = WitnessPubKey, InternalAddrType = WitnessPubKey\<rparr>),
      (KeyScopeBIP0086, \<lparr>ExternalAddrType = TaprootPubKey, InternalAddrType = TaprootPubKey\<rparr>),
      (KeyScopeBIP0044, \<lparr>ExternalAddrType = PubKeyHash, InternalAddrType = PubKeyHash\<rparr>)]"

definition KeyScopeBIP0049AddrSchema :: scopeAddrSchema where
  "KeyScopeBIP0049AddrSchema = \<lparr>ExternalAddrType = NestedWitnessPubKey, InternalAddrType = NestedWitnessPubKey\<rparr>"

definition IsDefaultScope :: "keyScope \<Rightarrow> bool" where
  "IsDefaultScope scope \<longleftrightarrow> scope \<in> set DefaultKeyScopes"

definition latestMgrVersion :: u32 where "latestMgrVersion = 8"

definition DefaultScryptOptions :: scryptOptions where "DefaultScryptOptions = (262144, 8, 1)"

section \<open>The keys of a scope\<close>

definition checkBranchKeys :: "('k, 'a, 'm) hdEnv_scheme \<Rightarrow> 'k \<Rightarrow> unit mres" where
  "checkBranchKeys E acctKey =
     bindE (fromDerive (deriveChild E acctKey ExternalBranch_mgr)) (\<lambda>_.
     bindE (fromDerive (deriveChild E acctKey InternalBranch_mgr)) (\<lambda>_. Inr ()))"

text \<open>An invalid child makes the seed unusable.\<close>

definition unusableSeed :: "'r mres \<Rightarrow> 'r mres" where
  "unusableSeed x = (case x of
     Inl e \<Rightarrow> Inl (if e = invalidChildErr then managerError ErrKeyChain else e)
   | Inr r \<Rightarrow> Inr r)"

lemma unusableSeed_eq_Inr [simp]: "unusableSeed x = Inr r \<longleftrightarrow> x = Inr r"
  by (cases x) (simp_all add: unusableSeed_def)

definition createManagerKeyScope :: "('k, 'a, 'm) hdEnv_scheme \<Rightarrow> mgrStore \<Rightarrow> keyScope \<Rightarrow> 'k \<Rightarrow> bytes
    \<Rightarrow> bytes option \<Rightarrow> mgrStore mres" where
  "createManagerKeyScope E ns scope root cryptoKeyPub cryptoKeyPriv =
     bindE (failing ErrKeyChain (deriveCoinTypeKey E root scope)) (\<lambda>coinTypeKeyPriv.
     bindE (unusableSeed (deriveAccountKey E coinTypeKeyPriv 0)) (\<lambda>acctKeyPriv.
     bindE (unusableSeed (checkBranchKeys E acctKeyPriv)) (\<lambda>_.
     bindE (failing ErrKeyChain (fromLib (neuter E acctKeyPriv))) (\<lambda>acctKeyPub.
     bindE (failing ErrKeyChain (fromLib (neuter E coinTypeKeyPriv))) (\<lambda>coinTypeKeyPub.
     bindE (encryptWith E (Some cryptoKeyPub) (keyString E coinTypeKeyPub)) (\<lambda>coinTypePubEnc.
     bindE (encryptWith E cryptoKeyPriv (keyString E coinTypeKeyPriv)) (\<lambda>coinTypePrivEnc.
     bindE (encryptWith E (Some cryptoKeyPub) (keyString E acctKeyPub)) (\<lambda>acctPubEnc.
     bindE (encryptWith E cryptoKeyPriv (keyString E acctKeyPriv)) (\<lambda>acctPrivEnc.
     bindE (putCoinTypeKeys E ns scope (Some coinTypePubEnc) (Some coinTypePrivEnc)) (\<lambda>ns.
     bindE (putDefaultAccountInfo E ns scope DefaultAccountNum acctPubEnc acctPrivEnc 0 0 defaultAccountName) (\<lambda>ns.
     putDefaultAccountInfo E ns scope ImportedAddrAccount [] [] 0 0 ImportedAddrAccountName)))))))))))"

section \<open>Create\<close>

definition newCryptoKey :: "('k, 'a, 'm) hdEnv_scheme \<Rightarrow> nat \<Rightarrow> bytes mres" where
  "newCryptoKey E k = (case GenerateCryptoKey E k of
     Inl e \<Rightarrow> Inl (managerError ErrCrypto)
   | Inr key \<Rightarrow> Inr key)"

text \<open>What \<open>Create\<close> makes and stores for a manager with private keys; the keys to store are returned.\<close>

definition createPrivate :: "('k, 'a, 'm) hdEnv_scheme \<Rightarrow> nat \<Rightarrow> mgrStore \<Rightarrow> 'k \<Rightarrow> bytes \<Rightarrow> scryptOptions \<Rightarrow> bytes
    \<Rightarrow> (bytes \<times> bytes \<times> bytes \<times> mgrStore) mres" where
  "createPrivate E k ns rootKey privPassphrase config cryptoKeyPub =
     bindE (newSecretKey E k privPassphrase config) (\<lambda>masterKeyPriv.
     bindE (readSalt E (k + 1)) (\<lambda>_.
     bindE (newCryptoKey E (k + 2)) (\<lambda>cryptoKeyPriv.
     bindE (newCryptoKey E (k + 3)) (\<lambda>cryptoKeyScript.
     bindE (masterEncrypt E masterKeyPriv cryptoKeyPriv) (\<lambda>cryptoKeyPrivEnc.
     bindE (masterEncrypt E masterKeyPriv cryptoKeyScript) (\<lambda>cryptoKeyScriptEnc.
     bindE (failing ErrKeyChain (fromLib (neuter E rootKey))) (\<lambda>rootPubKey.
     bindE (foldE (\<lambda>defaultScope ns. convertE
       (createManagerKeyScope E ns defaultScope rootKey cryptoKeyPub (Some cryptoKeyPriv)))
       DefaultKeyScopes ns) (\<lambda>ns.
     bindE (failing ErrDatabase_mgr (encryptWith E (Some cryptoKeyPriv) (keyString E rootKey))) (\<lambda>masterHDPrivKeyEnc.
     bindE (failing ErrDatabase_mgr (encryptWith E (Some cryptoKeyPub) (keyString E rootPubKey))) (\<lambda>masterHDPubKeyEnc.
     bindE (convertE (putMasterHDKeys E ns (Some masterHDPrivKeyEnc) (Some masterHDPubKeyEnc))) (\<lambda>ns.
     Inr (Marshal masterKeyPriv, cryptoKeyPrivEnc, cryptoKeyScriptEnc, ns))))))))))))"

definition createKeys :: "('k, 'a, 'm) hdEnv_scheme \<Rightarrow> nat \<Rightarrow> mgrStore \<Rightarrow> 'k option \<Rightarrow> bytes \<Rightarrow> scryptOptions \<Rightarrow> bytes
    \<Rightarrow> (bytes option \<times> bytes option \<times> bytes option \<times> mgrStore) mres" where
  "createKeys E k ns rootKey privPassphrase config cryptoKeyPub = (case rootKey of
     None \<Rightarrow> Inr (None, None, None, ns)
   | Some rootKey \<Rightarrow> bindE (createPrivate E k ns rootKey privPassphrase config cryptoKeyPub)
       (\<lambda>(params, priv, script, ns). Inr (Some params, Some priv, Some script, ns)))"

text \<open>The sync state at the genesis block, and the birthday two days early.\<close>

definition createSync :: "('k, 'a, 'm) hdEnv_scheme \<Rightarrow> mgrStore \<Rightarrow> blockStamp \<Rightarrow> gotime \<Rightarrow> mgrStore mres" where
  "createSync E ns createdAt birthday =
     (let syncInfo = newSyncState createdAt createdAt in
     bindE (convertE (PutSyncedTo E ns (syncedTo syncInfo))) (\<lambda>ns.
     bindE (convertE (putStartBlock E ns (startBlock syncInfo))) (\<lambda>ns.
     putBirthday E ns (birthday - 172800 * 1000000000))))"

definition Create :: "('k, 'a, 'm) hdEnv_scheme \<Rightarrow> nat \<Rightarrow> mgrStore \<Rightarrow> 'k option \<Rightarrow> bytes \<Rightarrow> bytes
    \<Rightarrow> hash \<times> gotime \<Rightarrow> scryptOptions option \<Rightarrow> gotime \<Rightarrow> mgrStore mres" where
  "Create E k ns rootKey pubPassphrase privPassphrase genesis config birthday =
     (if managerExists (Some ns) then Inl (managerError ErrAlreadyExists_mgr)
      else if rootKey \<noteq> None \<and> privPassphrase = [] then Inl (managerError ErrEmptyPassphrase)
      else
        bindE (convertE (createManagerNS E latestMgrVersion ns (if rootKey = None then [] else ScopeAddrMap))) (\<lambda>ns.
        let config = (case config of None \<Rightarrow> DefaultScryptOptions | Some c \<Rightarrow> c) in
        bindE (newSecretKey E k pubPassphrase config) (\<lambda>masterKeyPub.
        bindE (newCryptoKey E (k + 1)) (\<lambda>cryptoKeyPub.
        bindE (masterEncrypt E masterKeyPub cryptoKeyPub) (\<lambda>cryptoKeyPubEnc.
        bindE (createKeys E (k + 2) ns rootKey privPassphrase config cryptoKeyPub)
          (\<lambda>(privParams, cryptoKeyPrivEnc, cryptoKeyScriptEnc, ns).
        bindE (convertE (putMasterKeyParams E ns (Some (Marshal masterKeyPub)) privParams)) (\<lambda>ns.
        bindE (convertE (putCryptoKeys E ns (Some cryptoKeyPubEnc) cryptoKeyPrivEnc cryptoKeyScriptEnc)) (\<lambda>ns.
        bindE (convertE (putWatchingOnly E ns (rootKey = None))) (\<lambda>ns.
        createSync E ns \<lparr>stampHeight = 0, stampHash = fst genesis, stampTime = snd genesis\<rparr> birthday)))))))))"

section \<open>Open\<close>

definition freshScoped :: "keyScope \<Rightarrow> scopeAddrSchema \<Rightarrow> 'k scopedKeyManager" where
  "freshScoped scope schema = \<lparr>smScope = scope, smAddrSchema = schema, smAddrs = [], smAcctInfo = [],
     smDeriveOnUnlock = [], smPrivKeyCache = []\<rparr>"

text \<open>\<open>m.externalAddrSchemas[t] = append(m.externalAddrSchemas[t], scope)\<close>.\<close>

definition addScope :: "u8 \<Rightarrow> keyScope \<Rightarrow> (u8 \<times> keyScope list) list \<Rightarrow> (u8 \<times> keyScope list) list" where
  "addScope t scope m = AList.update t ((case map_of m t of None \<Rightarrow> [] | Some ss \<Rightarrow> ss) @ [scope]) m"

definition registerScope :: "keyScope \<Rightarrow> scopeAddrSchema \<Rightarrow> ('k, 'a) manager \<Rightarrow> ('k, 'a) manager" where
  "registerScope scope schema m = m\<lparr>
     mgExternalSchemas := addScope (ExternalAddrType schema) scope (mgExternalSchemas m),
     mgInternalSchemas := addScope (InternalAddrType schema) scope (mgInternalSchemas m)\<rparr>"

definition newManager :: "secretKey \<Rightarrow> secretKey \<Rightarrow> bytes \<Rightarrow> bytes \<Rightarrow> bytes \<Rightarrow> syncState \<Rightarrow> gotime \<Rightarrow> bytes
    \<Rightarrow> (keyScope \<times> 'k scopedKeyManager) list \<Rightarrow> bool \<Rightarrow> ('k, 'a) manager" where
  "newManager masterKeyPub masterKeyPriv cryptoKeyPub cryptoKeyPrivEncrypted cryptoKeyScriptEncrypted
     syncInfo birthday privPassphraseSalt scopedManagers watchingOnly =
     fold (\<lambda>(scope, s). registerScope (smScope s) (smAddrSchema s)) scopedManagers
      \<lparr>mgScoped = scopedManagers, mgExternalSchemas = [], mgInternalSchemas = [], mgSyncState = syncInfo,
       mgWatchingOnly = watchingOnly, mgBirthday = birthday, mgLocked = True, mgClosed = False,
       mgMasterKeyPub = masterKeyPub, mgMasterKeyPriv = Some masterKeyPriv,
       mgCryptoKeyPub = cryptoKeyPub, mgCryptoKeyPrivEncrypted = cryptoKeyPrivEncrypted,
       mgCryptoKeyPriv = Some zeroKey, mgCryptoKeyScriptEncrypted = cryptoKeyScriptEncrypted,
       mgCryptoKeyScript = Some zeroKey, mgSalt = privPassphraseSalt, mgHashedPass = zeroPass, mgHeap = []\<rparr>"

definition emptySecretKey :: secretKey where
  "emptySecretKey = \<lparr>skKey = None, skParameters = \<lparr>pSalt = replicate 32 0, pDigest = replicate 32 0,
     pN = 0, pR = 0, pP = 0\<rparr>\<rparr>"

definition unmarshalKey :: "bytes \<Rightarrow> secretKey mres" where
  "unmarshalKey params = (case Unmarshal emptySecretKey params of
     (sk, None) \<Rightarrow> Inr sk
   | (_, Some _) \<Rightarrow> Inl (managerError ErrCrypto))"

definition loadScopes :: "mgrStore \<Rightarrow> (keyScope \<times> 'k scopedKeyManager) list mres" where
  "loadScopes ns = forEachKeyScope ns (\<lambda>scope scopedManagers.
     bindE (fetchScopeAddrSchema ns scope) (\<lambda>scopeSchema.
     Inr (AList.update scope (freshScoped scope scopeSchema) scopedManagers))) []"

definition checkVersion :: "u32 \<Rightarrow> unit mres" where
  "checkVersion version =
     (if version < latestMgrVersion then Inl (managerError ErrUpgrade)
      else if latestMgrVersion < version then Inl (managerError ErrUpgrade)
      else Inr ())"

definition openMaster :: "('k, 'a, 'm) hdEnv_scheme \<Rightarrow> bytes \<Rightarrow> bytes \<Rightarrow> secretKey mres" where
  "openMaster E params pubPassphrase = bindE (unmarshalKey params) (\<lambda>masterKeyPub.
     case DeriveKey E masterKeyPub pubPassphrase of
       (masterKeyPub, None) \<Rightarrow> Inr masterKeyPub
     | (_, Some _) \<Rightarrow> Inl (managerError ErrWrongPassphrase))"

definition loadManager :: "('k, 'a, 'm) hdEnv_scheme \<Rightarrow> nat \<Rightarrow> mgrStore \<Rightarrow> bytes \<Rightarrow> ('k, 'a) manager mres" where
  "loadManager E k ns pubPassphrase =
     bindE (failing ErrDatabase_mgr (fetchManagerVersion ns)) (\<lambda>version.
     bindE (checkVersion version) (\<lambda>_.
     bindE (convertE (fetchWatchingOnly ns)) (\<lambda>watchingOnly.
     bindE (convertE (fetchMasterKeyParams ns)) (\<lambda>(masterKeyPubParams, masterKeyPrivParams).
     bindE (convertE (fetchCryptoKeys ns)) (\<lambda>(cryptoKeyPubEnc, cryptoKeyPrivEnc, cryptoKeyScriptEnc).
     bindE (convertE (fetchSyncedTo ns)) (\<lambda>syncedTo.
     bindE (convertE (FetchStartBlock ns)) (\<lambda>startBlock.
     bindE (convertE (fetchBirthday ns)) (\<lambda>birthday.
     bindE (if watchingOnly then Inr emptySecretKey else unmarshalKey (orNil masterKeyPrivParams)) (\<lambda>masterKeyPriv.
     bindE (openMaster E masterKeyPubParams pubPassphrase) (\<lambda>masterKeyPub.
     bindE (masterDecrypt E masterKeyPub cryptoKeyPubEnc) (\<lambda>cryptoKeyPubCT.
     bindE (readSalt E k) (\<lambda>privPassphraseSalt.
     bindE (loadScopes ns) (\<lambda>scopedManagers.
     Inr (newManager masterKeyPub masterKeyPriv (copyInto zeroKey cryptoKeyPubCT) (orNil cryptoKeyPrivEnc)
       (orNil cryptoKeyScriptEnc) (newSyncState startBlock syncedTo) birthday privPassphraseSalt
       scopedManagers watchingOnly))))))))))))))"

definition Open :: "('k, 'a, 'm) hdEnv_scheme \<Rightarrow> nat \<Rightarrow> mgrStore \<Rightarrow> bytes \<Rightarrow> ('k, 'a) manager mres" where
  "Open E k ns pubPassphrase =
     (if \<not> managerExists (Some ns) then Inl (managerError ErrNoExist)
      else loadManager E k ns pubPassphrase)"

section \<open>A new scope\<close>

text \<open>The master key of a manager that is not watching only.\<close>

definition fetchRootKey :: "('k, 'a, 'm) hdEnv_scheme \<Rightarrow> ('k, 'a) manager \<Rightarrow> mgrStore \<Rightarrow> 'k mres" where
  "fetchRootKey E m ns =
     (if IsLocked m then Inl (managerError ErrLocked)
      else bindE (fetchMasterHDKeys ns) (\<lambda>(masterRootPrivEnc, _). case masterRootPrivEnc of
          None \<Rightarrow> Inl (managerError ErrWatchingOnly)
        | Some masterRootPrivEnc \<Rightarrow>
            bindE (failing ErrLocked (decryptWith E (mgCryptoKeyPriv m) masterRootPrivEnc)) (\<lambda>serializedMasterRootPriv.
            failing ErrKeyChain (fromLib (newKey E serializedMasterRootPriv)))))"

definition putScopeSchema :: "('k, 'a, 'm) hdEnv_scheme \<Rightarrow> mgrStore \<Rightarrow> keyScope \<Rightarrow> scopeAddrSchema \<Rightarrow> mgrStore mres" where
  "putScopeSchema E ns scope addrSchema = (case mgrSchema ns of
     None \<Rightarrow> Inl (managerError ErrDatabase_mgr)
   | Some b \<Rightarrow> (let k = scopeToBytes scope; v = scopeSchemaToBytes addrSchema in
       bindE (allowed E (MgrPut SchemaB k v) MgrDbErr) (\<lambda>_. Inr (ns\<lparr>mgrSchema := Some (bucketPut b k v)\<rparr>))))"

definition NewScopedKeyManager :: "('k, 'a, 'm) hdEnv_scheme \<Rightarrow> mgrStore \<Rightarrow> keyScope \<Rightarrow> scopeAddrSchema
    \<Rightarrow> (('k, 'a) manager, mgrStore) mop" where
  "NewScopedKeyManager E ns scope addrSchema = bindM getM (\<lambda>m.
     bindM (liftM (if WatchOnly m then Inr None
       else bindE (fetchRootKey E m ns) (\<lambda>rootPriv. Inr (Some rootPriv)))) (\<lambda>rootPriv.
     bindM (liftM (createScopedManagerNS E ns scope)) (\<lambda>ns.
     bindM (liftM (putScopeSchema E ns scope addrSchema)) (\<lambda>ns.
     bindM (liftM (case rootPriv of
         Some root \<Rightarrow> createManagerKeyScope E ns scope root (mgCryptoKeyPub m) (mgCryptoKeyPriv m)
       | None \<Rightarrow> putDefaultAccountInfo E ns scope ImportedAddrAccount [] [] 0 0 ImportedAddrAccountName)) (\<lambda>ns.
     bindM (modifyM (\<lambda>m. registerScope scope addrSchema
       (m\<lparr>mgScoped := AList.update scope (freshScoped scope addrSchema) (mgScoped m)\<rparr>))) (\<lambda>_.
     retM ns))))))"

definition NeuterRootKey :: "('k, 'a, 'm) hdEnv_scheme \<Rightarrow> mgrStore \<Rightarrow> mgrStore mres" where
  "NeuterRootKey E ns = bindE (fetchMasterHDKeys ns) (\<lambda>(masterRootPrivEnc, _).
     if masterRootPrivEnc = None then Inr ns
     else bindE (mainBucket ns) (\<lambda>b.
       bindE (allowed E (MgrDelete MainB masterHDPrivName) MgrDbErr) (\<lambda>_.
       Inr (ns\<lparr>mgrMain := Some (bucketDelete b masterHDPrivName)\<rparr>))))"

end
