(* ===== verification/Mgr_Directory.thy ===== *)
theory Mgr_Directory
  imports Mgr_Account Mgr_Tables
begin

text \<open>
  The accounts of a scope as a directory: a map from numbers to rows in which no two rows share a name,
  with the number handed out last.  Making, renaming and advancing accounts are updates of the directory.
\<close>

section \<open>The directory\<close>

definition directory :: "scopeStore \<Rightarrow> (bytes \<Rightarrow> acctRowInterface option) \<Rightarrow> u32 \<Rightarrow> bool" where
  "directory s M n \<longleftrightarrow> books s M
     \<and> bucketGet (scMeta s) lastAccountName = Some (uint32ToBytes n)
     \<and> (\<forall>a. M (uint32ToBytes a) \<noteq> None \<longrightarrow> a = ImportedAddrAccount \<or> a \<le> n)
     \<and> n < ImportedAddrAccount"

definition directory_at :: "mgrStore \<Rightarrow> keyScope \<Rightarrow> (bytes \<Rightarrow> acctRowInterface option) \<Rightarrow> u32 \<Rightarrow> bool" where
  "directory_at ns sc M n \<longleftrightarrow> (\<exists>s. scopeAt ns sc = Some s \<and> directory s M n)"

lemma directoryD:
  assumes "directory s M n"
  shows "books s M" "bucketGet (scMeta s) lastAccountName = Some (uint32ToBytes n)"
    "M (uint32ToBytes a) \<noteq> None \<Longrightarrow> a \<noteq> ImportedAddrAccount \<Longrightarrow> a \<le> n"
    "n < ImportedAddrAccount"
  using assms unfolding directory_def by blast+

lemma directoryI:
  assumes "books s M" "bucketGet (scMeta s) lastAccountName = Some (uint32ToBytes n)"
    "\<And>a. M (uint32ToBytes a) \<noteq> None \<Longrightarrow> a = ImportedAddrAccount \<or> a \<le> n"
    "n < ImportedAddrAccount"
  shows "directory s M n"
  using assms unfolding directory_def by blast

lemma directory_accounts: "directory_at ns sc M n \<Longrightarrow> accounts_at ns sc M"
  unfolding directory_at_def accounts_at_def by (blast dest: directoryD(1))

lemma fetchLastAccount_directory: "directory_at ns sc M n \<Longrightarrow> fetchLastAccount ns sc = Inr n"
  by (auto simp: directory_at_def fetchLastAccount_def fetchScope_at dest: directoryD(2))

definition taken :: "(bytes \<Rightarrow> acctRowInterface option) \<Rightarrow> gostring \<Rightarrow> bool" where
  "taken M name \<longleftrightarrow> (\<exists>r \<in> ran M. rowName r = name)"

lemma nameTaken_spec: "accounts_at ns sc M \<Longrightarrow> nameTaken ns sc name = Inr (taken M name)"
proof -
  assume a: "accounts_at ns sc M"
  show ?thesis
  proof (cases "taken M name")
    case True
    then obtain k r where kr: "M k = Some r" "rowName r = name" by (auto simp: taken_def ran_def)
    obtain s where "books s M" using a unfolding accounts_at_def by blast
    then have "length k = 4" using kr(1) by (rule booksD(3))
    then have "M (uint32ToBytes (le32 k)) = Some r" using kr by simp
    then have "fetchAccountByName ns sc name = Inr (le32 k)"
      using fetchAccountByName_spec(1)[OF a, of name "le32 k"] kr(2) by blast
    then show ?thesis using True by (simp add: nameTaken_def lookupAccount_def)
  next
    case False
    then have "\<And>k r. M k = Some r \<Longrightarrow> rowName r \<noteq> name" by (auto simp: taken_def ran_def)
    from fetchAccountByName_spec(2)[OF a this] False show ?thesis
      by (simp add: nameTaken_def lookupAccount_def managerError_def)
  qed
qed

lemma taken_free: "\<not> taken M name \<Longrightarrow> name_free M k name"
  by (auto simp: taken_def name_free_def ran_def)

section \<open>Writing\<close>

definition withLast :: "u32 \<Rightarrow> scopeStore \<Rightarrow> scopeStore" where
  "withLast a s = s\<lparr>scMeta := bucketPut (scMeta s) lastAccountName (uint32ToBytes a)\<rparr>"

lemma books_withLast [simp]: "books (withLast a s) M \<longleftrightarrow> books s M"
  by (rule books_frame) (simp_all add: withLast_def)

lemma putLastAccount_effect:
  "writes (\<lambda>ns. putLastAccount E ns sc a) sc (withLast a)"
  "mgr_db_ok E \<Longrightarrow> scopeAt ns sc = Some s \<Longrightarrow> putLastAccount E ns sc a = Inr (setScope sc (withLast a s) ns)"
  by (simp_all add: putLastAccount_def writes_putScope[unfolded writes_def] writes_def putScope_ok
      withLast_def[abs_def] putScope_eq_Inr)

text \<open>A new row under the next number.\<close>

lemma directory_enter:
  assumes d: "directory s M n" and r: "account_ok r" "\<not> taken M (rowName r)"
    and a: "M (uint32ToBytes a) = None" "n \<le> a" "a < ImportedAddrAccount"
  shows "directory (withLast a (enterAccount (uint32ToBytes a) (accountValue r) (rowName r) s))
    (M(uint32ToBytes a \<mapsto> r)) a"
proof (rule directoryI)
  have "books (enterAccount (uint32ToBytes a) (accountValue r) (rowName r) (forgetName (uint32ToBytes a) M s))
      (M(uint32ToBytes a \<mapsto> r))"
    by (rule books_enter[OF directoryD(1)[OF d] r(1) _ taken_free[OF r(2)]]) simp
  then show "books (withLast a (enterAccount (uint32ToBytes a) (accountValue r) (rowName r) s)) (M(uint32ToBytes a \<mapsto> r))"
    using a(1) by (simp add: forgetName_def)
next
  fix b
  assume "(M(uint32ToBytes a \<mapsto> r)) (uint32ToBytes b) \<noteq> None"
  then show "b = ImportedAddrAccount \<or> b \<le> a"
    using directoryD(3)[OF d, of b] a(2) by (auto split: if_splits intro: order_trans)
qed (simp_all add: withLast_def a(3))

lemma next_number:
  assumes "directory s M n"
  shows "n \<le> n + 1" "n + 1 < ImportedAddrAccount \<Longrightarrow> M (uint32ToBytes (n + 1)) = None"
proof -
  have "n \<noteq> - 1" using directoryD(4)[OF assms] by (metis leD word_order.extremum)
  then have "n < n + 1" using inc_less_eq_self_iff_eq[of n] by (simp add: not_le)
  then show "n \<le> n + 1" by simp
  show "M (uint32ToBytes (n + 1)) = None" if "n + 1 < ImportedAddrAccount"
    using directoryD(3)[OF assms, of "n + 1"] \<open>n < n + 1\<close> that by (metis leD less_irrefl)
qed

section \<open>New accounts\<close>

lemma setScope_directory:
  "scopeAt ns sc = Some s \<Longrightarrow> directory t M n \<Longrightarrow> directory_at (setScope sc t ns) sc M n"
  by (auto simp: directory_at_def)

text \<open>A checked name that is free passes the guards of \<open>newAccount\<close>.\<close>

definition valid_name :: "gostring \<Rightarrow> bool" where
  "valid_name name \<longleftrightarrow> name \<noteq> [] \<and> \<not> isReservedAccountName name"

lemma ValidateAccountName_iff: "ValidateAccountName name = (if valid_name name then Inr () else Inl (managerError ErrInvalidAccount))"
  by (simp add: ValidateAccountName_def valid_name_def)

lemma newAccount_effect:
  assumes "accounts_at ns sc M" "accountKeys E m ns sc a = Inr (pub, priv)"
    "account_ok (defaultAccount pub priv 0 0 name)"
  shows "newAccount E m ns sc a name = Inr ns' \<Longrightarrow> valid_name name \<and> \<not> taken M name
      \<and> (\<exists>s. scopeAt ns sc = Some s \<and> ns' = setScope sc (withLast a (enterAccount (uint32ToBytes a)
           (accountValue (defaultAccount pub priv 0 0 name)) name s)) ns)"
    and "mgr_db_ok E \<Longrightarrow> newAccount E m ns sc a name =
      (if \<not> valid_name name then Inl (managerError ErrInvalidAccount)
       else if taken M name then Inl (managerError ErrDuplicateAccount)
       else Inr (setScope sc (withLast a (enterAccount (uint32ToBytes a)
           (accountValue (defaultAccount pub priv 0 0 name)) name (the (scopeAt ns sc)))) ns))"
proof -
  note t = nameTaken_spec[OF assms(1)]
  obtain s where s: "scopeAt ns sc = Some s" using assms(1) unfolding accounts_at_def by blast
  show "valid_name name \<and> \<not> taken M name
      \<and> (\<exists>s. scopeAt ns sc = Some s \<and> ns' = setScope sc (withLast a (enterAccount (uint32ToBytes a)
           (accountValue (defaultAccount pub priv 0 0 name)) name s)) ns)"
    if run: "newAccount E m ns sc a name = Inr ns'"
  proof -
    have v: "valid_name name" "\<not> taken M name" using run t[of name]
      by (auto simp: newAccount_def ValidateAccountName_iff split: if_splits)
    obtain ns1 where ns1: "putDefaultAccountInfo E ns sc a pub priv 0 0 name = Inr ns1"
      "putLastAccount E ns1 sc a = Inr ns'"
      using run t[of name] assms(2) by (auto simp: newAccount_def)
    from putDefaultAccountInfo_enter[OF assms(3) ns1(1)] s
    have "ns1 = setScope sc (enterAccount (uint32ToBytes a) (accountValue (defaultAccount pub priv 0 0 name)) name s) ns"
      by simp
    with writesD[OF putLastAccount_effect(1) ns1(2)] s v show ?thesis by auto
  qed
  show "newAccount E m ns sc a name =
      (if \<not> valid_name name then Inl (managerError ErrInvalidAccount)
       else if taken M name then Inl (managerError ErrDuplicateAccount)
       else Inr (setScope sc (withLast a (enterAccount (uint32ToBytes a)
           (accountValue (defaultAccount pub priv 0 0 name)) name (the (scopeAt ns sc)))) ns))"
    if db: "mgr_db_ok E"
  proof -
    let ?r = "defaultAccount pub priv 0 0 name"
    have p: "putDefaultAccountInfo E ns sc a pub priv 0 0 name = Inr (setScope sc
        (enterAccount (uint32ToBytes a) (accountValue ?r) name s) ns)"
      using serializeDefaultAccountRow_eq[of pub priv name] assms(3)[unfolded account_ok_made]
        putAccountInfo_ok[OF db s]
      by (simp add: putDefaultAccountInfo_def accountValue_def defaultAccount_def serializeAccountRow_def)
    show ?thesis
      by (simp add: newAccount_def ValidateAccountName_iff t assms(2) p putLastAccount_effect(2)[OF db] s
          guardE_def)
  qed
qed

text \<open>
  C20: \<open>NewAccount\<close> on a directory of accounts.  A watching-only or locked manager refuses; the empty
  and the reserved name are invalid; a name in use is a duplicate; otherwise the new account has the
  number after the last one, which no account has had, zero indexes and the keys derived for that
  number, and the directory has one more row and is otherwise unchanged.
\<close>

theorem NewAccount_spec:
  assumes "mgr_db_ok E" "directory_at ns sc M n" "n + 1 < ImportedAddrAccount"
    and "accountKeys E m ns sc (n + 1) = Inr (pub, priv)"
    and "25 + length pub + length priv + length name < 2 ^ 32"
  shows "if WatchOnly m then NewAccount E m ns sc name = Inl (managerError ErrWatchingOnly)
    else if IsLocked m then NewAccount E m ns sc name = Inl (managerError ErrLocked)
    else if name = [] \<or> name = ImportedAddrAccountName then
      NewAccount E m ns sc name = Inl (managerError ErrInvalidAccount)
    else if \<exists>r \<in> ran M. rowName r = name then
      NewAccount E m ns sc name = Inl (managerError ErrDuplicateAccount)
    else M (uint32ToBytes (n + 1)) = None
      \<and> (\<exists>ns'. NewAccount E m ns sc name = Inr (n + 1, ns')
          \<and> directory_at ns' sc (M(uint32ToBytes (n + 1) \<mapsto> defaultAccount pub priv 0 0 name)) (n + 1)
          \<and> (\<forall>sc'. sc' \<noteq> sc \<longrightarrow> scopeAt ns' sc' = scopeAt ns sc'))"
proof -
  let ?r = "defaultAccount pub priv 0 0 name"
  obtain s where s: "scopeAt ns sc = Some s" and d: "directory s M n"
    using assms(2) unfolding directory_at_def by blast
  have ok: "account_ok ?r" using assms(5) by (simp add: account_ok_made)
  note e = newAccount_effect(2)[OF directory_accounts[OF assms(2)] assms(4) ok assms(1)]
  note l = fetchLastAccount_directory[OF assms(2)] and nx = next_number[OF d]
  let ?ns = "setScope sc (withLast (n + 1) (enterAccount (uint32ToBytes (n + 1)) (accountValue ?r) name s)) ns"
  have "directory_at ?ns sc (M(uint32ToBytes (n + 1) \<mapsto> ?r)) (n + 1)" if "\<not> taken M name"
    using directory_enter[OF d ok, of "n + 1"] that nx assms(3) by (intro setScope_directory[OF s]) simp
  then show ?thesis
    using nx(2)[OF assms(3)]
    by (auto simp: NewAccount_def l e s valid_name_def isReservedAccountName_def taken_def scopeAt_set)
qed

section \<open>Renaming an account\<close>

definition renamed :: "gostring \<Rightarrow> acctRowInterface \<Rightarrow> acctRowInterface" where
  "renamed name r = (case r of
     DefaultAccount a \<Rightarrow> defaultAccount (defPubKeyEncrypted a) (defPrivKeyEncrypted a)
       (defNextExternalIndex a) (defNextInternalIndex a) name
   | WatchOnlyAccount a \<Rightarrow> watchOnlyAccount (woPubKeyEncrypted a) (woMasterKeyFingerprint a)
       (woNextExternalIndex a) (woNextInternalIndex a) name (woAddrSchema a))"

lemma rowName_renamed [simp]: "rowName (renamed name r) = name"
  by (cases r) (simp_all add: renamed_def)

lemma put_deleted [simp]: "bucketPut (bucketDelete b k) k v = bucketPut b k v"
  by (rule kv.ext) (auto simp: bucketGet_upd)

lemma renameRow_effect:
  assumes db: "mgr_db_ok E" and s: "scopeAt ns sc = Some s" and b: "books s M"
    and r: "M (uint32ToBytes a) = Some r" "account_ok (renamed name r)"
  shows "renameRow E ns sc a name = Inr (setScope sc (enterAccount (uint32ToBytes a)
    (accountValue (renamed name r)) name (forgetName (uint32ToBytes a) M s)) ns)"
proof -
  have f: "fetchAccountInfo ns sc a = Inr r"
    using fetchAccountInfo_spec[of ns sc M a] s b r(1) by (auto simp: accounts_at_def)
  let ?k = "uint32ToBytes a"
  let ?t = "s\<lparr>scIdIdx := bucketDelete (scIdIdx s) ?k,
    scNameIdx := bucketDelete (scNameIdx s) (stringToBytes (rowName r))\<rparr>"
  have t: "scopeAt (setScope sc ?t ns) sc = Some ?t" using s by simp
  have p: "putAccountInfo E (setScope sc ?t ns) sc a row name
      = Inr (setScope sc (enterAccount ?k (serializeAccountRow row) name (forgetName ?k M s)) ns)" for row :: dbAccountRow
    using putAccountInfo_ok[OF db t, of a row name]
    by (simp add: enterAccount_def forgetName_def r(1))
  show ?thesis
  proof (cases r)
    case (DefaultAccount row)
    have "25 + length (defPubKeyEncrypted row) + length (defPrivKeyEncrypted row) + length name < 2 ^ 32"
      using r(2) by (simp add: renamed_def DefaultAccount account_ok_made)
    then have e: "serializeDefaultAccountRow (defPubKeyEncrypted row) (defPrivKeyEncrypted row)
        (defNextExternalIndex row) (defNextInternalIndex row) name = Inr (defaultRaw (defPubKeyEncrypted row)
        (defPrivKeyEncrypted row) (defNextExternalIndex row) (defNextInternalIndex row) name)"
      by (intro serializeDefaultAccountRow_eq) simp
    show ?thesis
      using p s by (simp add: renameRow_def f DefaultAccount deleteAccountIDIndex_def deleteAccountNameIndex_def
          Let_def putScope_ok[OF db] putDefaultAccountInfo_def e rowName_def renamed_def accountValue_def
          defaultAccount_def serializeAccountRow_def)
  next
    case (WatchOnlyAccount row)
    show ?thesis
      using p s by (simp add: renameRow_def f WatchOnlyAccount deleteAccountIDIndex_def deleteAccountNameIndex_def
          Let_def putScope_ok[OF db] putWatchOnlyAccountInfo_def rowName_def renamed_def accountValue_def
          watchOnlyAccount_def serializeAccountRow_def)
  qed
qed

lemma directory_update:
  assumes d: "directory s M n" and r: "M (uint32ToBytes a) = Some r0" "account_ok r"
    and free: "name_free M (uint32ToBytes a) (rowName r)"
  shows "directory (enterAccount (uint32ToBytes a) (accountValue r) (rowName r)
    (forgetName (uint32ToBytes a) M s)) (M(uint32ToBytes a \<mapsto> r)) n"
proof (rule directoryI)
  show "books (enterAccount (uint32ToBytes a) (accountValue r) (rowName r) (forgetName (uint32ToBytes a) M s))
      (M(uint32ToBytes a \<mapsto> r))"
    by (rule books_enter[OF directoryD(1)[OF d] r(2) _ free]) simp
next
  show "bucketGet (scMeta (enterAccount (uint32ToBytes a) (accountValue r) (rowName r)
      (forgetName (uint32ToBytes a) M s))) lastAccountName = Some (uint32ToBytes n)"
    using directoryD(2)[OF d] by (simp add: enterAccount_def forgetName_def split: option.split)
next
  fix b
  assume "(M(uint32ToBytes a \<mapsto> r)) (uint32ToBytes b) \<noteq> None"
  then show "b = ImportedAddrAccount \<or> b \<le> n"
    using directoryD(3)[OF d] r(1) by (cases "b = a") auto
qed (rule directoryD(4)[OF d])

text \<open>
  C21: \<open>RenameAccount\<close> on a directory of accounts.  The reserved account, a name in use, an empty or
  reserved name and a missing account are errors that change nothing; otherwise exactly the name of that
  account changes, in its row and in both indexes, and the copy in memory is renamed with it.
\<close>

theorem RenameAccount_spec:
  assumes "mgr_db_ok E" "directory_at ns sc M n"
    and "\<And>r. M (uint32ToBytes a) = Some r \<Longrightarrow> account_ok (renamed name r)"
  shows "if a = ImportedAddrAccount then
      RenameAccount E ns sc a name m = (Inl (managerError ErrInvalidAccount), m)
    else if \<exists>r \<in> ran M. rowName r = name then
      RenameAccount E ns sc a name m = (Inl (managerError ErrDuplicateAccount), m)
    else if name = [] \<or> name = ImportedAddrAccountName then
      RenameAccount E ns sc a name m = (Inl (managerError ErrInvalidAccount), m)
    else (case M (uint32ToBytes a) of
        None \<Rightarrow> RenameAccount E ns sc a name m = (Inl (managerError ErrAccountNotFound), m)
      | Some r \<Rightarrow> \<exists>ns'. RenameAccount E ns sc a name m = (Inr ns', renameCached sc a name m)
          \<and> directory_at ns' sc (M(uint32ToBytes a \<mapsto> renamed name r)) n
          \<and> (\<forall>sc'. sc' \<noteq> sc \<longrightarrow> scopeAt ns' sc' = scopeAt ns sc'))"
proof -
  obtain s where s: "scopeAt ns sc = Some s" and d: "directory s M n"
    using assms(2) unfolding directory_at_def by blast
  note acc = directory_accounts[OF assms(2)]
  have missing: "renameRow E ns sc a name = Inl (managerError ErrAccountNotFound)" if "M (uint32ToBytes a) = None"
    using fetchAccountInfo_spec[OF acc, of a] that by (simp add: renameRow_def)
  have run: "RenameAccount E ns sc a name m = (if a = ImportedAddrAccount then (Inl (managerError ErrInvalidAccount), m)
      else if taken M name then (Inl (managerError ErrDuplicateAccount), m)
      else if \<not> valid_name name then (Inl (managerError ErrInvalidAccount), m)
      else (case renameRow E ns sc a name of Inl e \<Rightarrow> (Inl e, m) | Inr ns' \<Rightarrow> (Inr ns', renameCached sc a name m)))"
    by (auto simp: RenameAccount_def isReservedAccountNum_def bindM_def mop_run nameTaken_spec[OF acc]
        ValidateAccountName_iff split: sum.split)
  show ?thesis
  proof (cases "M (uint32ToBytes a)")
    case None
    then show ?thesis
      unfolding run missing[OF None] by (simp add: taken_def valid_name_def isReservedAccountName_def)
  next
    case (Some r)
    let ?ns = "setScope sc (enterAccount (uint32ToBytes a) (accountValue (renamed name r)) name
      (forgetName (uint32ToBytes a) M s)) ns"
    have "renameRow E ns sc a name = Inr ?ns"
      by (rule renameRow_effect[OF assms(1) s directoryD(1)[OF d] Some assms(3)[OF Some]])
    moreover have "directory_at ?ns sc (M(uint32ToBytes a \<mapsto> renamed name r)) n" if "\<not> taken M name"
      using directory_update[OF d Some assms(3)[OF Some]] taken_free[OF that]
      by (intro setScope_directory[OF s]) simp
    ultimately show ?thesis
      unfolding run by (auto simp: taken_def valid_name_def isReservedAccountName_def scopeAt_set[OF s] Some)
  qed
qed

end
