(* ===== verification/Mgr_Open.thy ===== *)
theory Mgr_Open
  imports Mgr_Create Mgr_Chain Mgr_Directory
begin

text \<open>
  What \<open>Create\<close> stores, \<open>Open\<close> reads back, and the passphrases open: the public one the manager, the
  private one its keys.
\<close>

section \<open>What a scope operation leaves alone\<close>

definition scopeKeys :: "mgrStore \<Rightarrow> bytes set option" where
  "scopeKeys ns = map_option (\<lambda>ss. fst ` set ss) (mgrScopes ns)"

definition scope_only :: "mgrStore \<Rightarrow> mgrStore \<Rightarrow> bool" where
  "scope_only ns ns' \<longleftrightarrow> mgrMain ns' = mgrMain ns \<and> mgrSync ns' = mgrSync ns
     \<and> mgrSchema ns' = mgrSchema ns \<and> scopeKeys ns' = scopeKeys ns"

lemma scope_only_refl: "scope_only ns ns" by (simp add: scope_only_def)

lemma scope_only_trans: "scope_only a b \<Longrightarrow> scope_only b c \<Longrightarrow> scope_only a c"
  by (simp add: scope_only_def)

lemma scope_only_set: "scopeAt ns sc = Some s \<Longrightarrow> scope_only ns (setScope sc t ns)"
  by (cases "mgrScopes ns")
    (auto simp: scope_only_def scopeKeys_def setScope_def scopeAt_def fst_set_upd_entry
      intro!: insert_absorb dest: map_of_SomeD intro: rev_image_eqI)

lemma scope_only_writes: "writes op sc f \<Longrightarrow> op ns = Inr ns' \<Longrightarrow> scope_only ns ns'"
  by (auto dest: writesD intro: scope_only_set)

lemma scope_only_putCoinTypeKeys: "putCoinTypeKeys E ns sc pub priv = Inr ns' \<Longrightarrow> scope_only ns ns'"
  by (auto simp: putCoinTypeKeys_def putScopeKey_def putScope_eq_Inr split: option.splits
      intro!: scope_only_set scope_only_refl intro: scope_only_trans[OF scope_only_set])

lemma scope_only_putDefaultAccountInfo:
  "putDefaultAccountInfo E ns sc a pub priv x y name = Inr ns' \<Longrightarrow> scope_only ns ns'"
  by (auto simp: putDefaultAccountInfo_def dest!: scope_only_writes[OF writes_putAccountInfo])

lemma scope_only_createManagerKeyScope:
  "createManagerKeyScope E ns sc root pub priv = Inr ns' \<Longrightarrow> scope_only ns ns'"
  unfolding createManagerKeyScope_def
  by (auto dest!: scope_only_putCoinTypeKeys scope_only_putDefaultAccountInfo intro: scope_only_trans)

section \<open>The main bucket\<close>

definition mainAt :: "mgrStore \<Rightarrow> bytes \<Rightarrow> bytes option" where
  "mainAt ns k = Option.bind (mgrMain ns) (\<lambda>b. bucketGet b k)"

lemma getMain_at: "getMain ns k = Inr v \<longleftrightarrow> mgrMain ns \<noteq> None \<and> v = mainAt ns k"
  by (auto simp: getMain_def mainBucket_def mainAt_def split: option.splits)

lemma putMain_at: "putMain E k v ns = Inr ns' \<Longrightarrow>
    (\<exists>b. mgrMain ns = Some b \<and> ns' = ns\<lparr>mgrMain := Some (bucketPut b k v)\<rparr>)"
  by (auto simp: putMain_def mainBucket_def split: option.splits)

lemma mainAt_put: "putMain E k v ns = Inr ns' \<Longrightarrow> mainAt ns' x = (if x = k then Some v else mainAt ns x)
    \<and> mgrMain ns' \<noteq> None \<and> mgrSync ns' = mgrSync ns \<and> mgrSchema ns' = mgrSchema ns \<and> mgrScopes ns' = mgrScopes ns"
  by (auto dest!: putMain_at simp: mainAt_def bucketGet_upd)

lemma putMainOpt_at: "putMainOpt E k v ns = Inr ns' \<Longrightarrow> mainAt ns' x = (if x = k \<and> v \<noteq> None then v else mainAt ns x)
    \<and> (mgrMain ns \<noteq> None \<longrightarrow> mgrMain ns' \<noteq> None) \<and> mgrSync ns' = mgrSync ns \<and> mgrSchema ns' = mgrSchema ns \<and> mgrScopes ns' = mgrScopes ns"
  by (cases v) (use mainAt_put[of E k _ ns ns' x] in \<open>auto simp: putMainOpt_def\<close>)

lemma main_names_distinct [simp]:
  "distinct [mgrVersionName, mgrCreateDateName, masterPrivKeyName, masterPubKeyName, cryptoPrivKeyName,
     cryptoPubKeyName, cryptoScriptKeyName, watchingOnlyName, masterHDPrivName, masterHDPubName]"
  by (simp add: key_defs ascii_def)

section \<open>Creation of the namespace\<close>

lemma createScope_effect:
  assumes "createScope E (sc, schema) ns = Inr ns'"
  shows "\<exists>b. mgrSchema ns = Some b
    \<and> mgrSchema ns' = Some (bucketPut b (scopeToBytes sc) (scopeSchemaToBytes schema))
    \<and> mgrMain ns' = mgrMain ns \<and> mgrSync ns' = mgrSync ns
    \<and> scopeKeys ns' = map_option (insert (scopeToBytes sc)) (scopeKeys ns)"
proof -
  obtain b where b: "mgrSchema ns = Some b" using assms by (auto simp: createScope_def split: option.splits)
  let ?m = "ns\<lparr>mgrSchema := Some (bucketPut b (scopeToBytes sc) (scopeSchemaToBytes schema))\<rparr>"
  obtain ns1 where ns1: "createScopedManagerNS E ?m sc = Inr ns1" "putLastAccount E ns1 sc 0 = Inr ns'"
    using assms b by (auto simp: createScope_def Let_def)
  from ns1(1) have e: "ns1 = setScope sc emptyScope ?m"
    by (auto simp: createScopedManagerNS_def Let_def)
  have "scopeKeys ns1 = map_option (insert (scopeToBytes sc)) (scopeKeys ns)"
    unfolding e by (cases "mgrScopes ns") (simp_all add: scopeKeys_def setScope_def fst_set_upd_entry)
  moreover have "scope_only ns1 ns'" by (rule scope_only_writes[OF putLastAccount_effect(1) ns1(2)])
  ultimately show ?thesis using b e by (auto simp: scope_only_def)
qed

definition schemaAt :: "mgrStore \<Rightarrow> keyScope \<Rightarrow> bytes option" where
  "schemaAt ns sc = Option.bind (mgrSchema ns) (\<lambda>b. bucketGet b (scopeToBytes sc))"

lemma createScopes_effect:
  assumes "foldE (createScope E) xs ns = Inr ns'" "mgrSchema ns \<noteq> None"
  shows "mgrMain ns' = mgrMain ns \<and> mgrSync ns' = mgrSync ns \<and> mgrSchema ns' \<noteq> None
    \<and> scopeKeys ns' = map_option (\<lambda>S. scopeToBytes ` fst ` set xs \<union> S) (scopeKeys ns)
    \<and> (\<forall>sc. schemaAt ns' sc = (case map_of (rev xs) sc of
         None \<Rightarrow> schemaAt ns sc | Some schema \<Rightarrow> Some (scopeSchemaToBytes schema)))"
  using assms
proof (induction xs arbitrary: ns)
  case Nil
  then show ?case by (cases "scopeKeys ns") simp_all
next
  case (Cons x xs)
  obtain sc schema where x: "x = (sc, schema)" by (cases x)
  obtain m where m: "createScope E (sc, schema) ns = Inr m" "foldE (createScope E) xs m = Inr ns'"
    using Cons.prems(1) x by auto
  obtain b where b: "mgrSchema ns = Some b"
      "mgrSchema m = Some (bucketPut b (scopeToBytes sc) (scopeSchemaToBytes schema))"
      "mgrMain m = mgrMain ns" "mgrSync m = mgrSync ns"
      "scopeKeys m = map_option (insert (scopeToBytes sc)) (scopeKeys ns)"
    using createScope_effect[OF m(1)] by blast
  note ih = Cons.IH[OF m(2)]
  have s: "schemaAt m sc' = (if sc' = sc then Some (scopeSchemaToBytes schema) else schemaAt ns sc')" for sc'
    by (simp add: schemaAt_def b bucketGet_upd)
  show ?case
    using ih b s by (cases "scopeKeys ns") (auto simp: x map_add_def split: option.splits)
qed

lemma createManagerNS_effect:
  assumes "createManagerNS E version ns scopes = Inr ns'"
  shows "mgrMain ns' \<noteq> None" "mainAt ns' mgrVersionName = Some (uint32ToBytes version)"
    "k \<noteq> mgrVersionName \<Longrightarrow> k \<noteq> mgrCreateDateName \<Longrightarrow> mainAt ns' k = None"
    "mgrSync ns' = Some bucketEmpty" "mgrSchema ns' \<noteq> None"
    "scopeKeys ns' = Some (scopeToBytes ` fst ` set scopes)"
    "schemaAt ns' sc = map_option scopeSchemaToBytes (map_of (rev scopes) sc)"
proof -
  let ?m = "ns\<lparr>mgrMain := Some bucketEmpty, mgrSync := Some bucketEmpty,
          mgrScopes := Some [], mgrSchema := Some bucketEmpty\<rparr>"
  obtain m1 m2 where m: "foldE (createScope E) scopes ?m = Inr m1" "putManagerVersion E m1 version = Inr m2"
      "putMain E mgrCreateDateName (putLE64 (timeWord (mgrNow E))) m2 = Inr ns'"
    using assms by (auto simp: createManagerNS_def)
  note p = createScopes_effect[OF m(1), simplified] mainAt_put[OF m(2)[unfolded putManagerVersion_def]] mainAt_put[OF m(3)]
  have n: "mainAt m1 k = None" for k using p(1) by (simp add: mainAt_def)
  have d: "mgrCreateDateName \<noteq> mgrVersionName" by (simp add: key_defs ascii_def)
  show "mgrMain ns' \<noteq> None" "mainAt ns' mgrVersionName = Some (uint32ToBytes version)"
    "mgrSync ns' = Some bucketEmpty" "mgrSchema ns' \<noteq> None"
    using p d by simp_all
  show "k \<noteq> mgrVersionName \<Longrightarrow> k \<noteq> mgrCreateDateName \<Longrightarrow> mainAt ns' k = None" using p n by simp
  show "scopeKeys ns' = Some (scopeToBytes ` fst ` set scopes)" using p by (simp add: scopeKeys_def)
  show "schemaAt ns' sc = map_option scopeSchemaToBytes (map_of (rev scopes) sc)"
    using p by (simp add: schemaAt_def split: option.splits)
qed

section \<open>Creation of the keys\<close>

lemma foldE_scope_only:
  assumes "\<And>x ns ns'. f x ns = Inr ns' \<Longrightarrow> scope_only ns ns'" "foldE f xs ns = Inr ns'"
  shows "scope_only ns ns'"
  by (rule foldE_invariant[OF assms(2), where P = "scope_only ns"])
    (auto intro: scope_only_refl scope_only_trans assms(1))

text \<open>What is stored of the private keys: the parameters, both encrypted keys and the master key.\<close>

definition stored_private :: "('k, 'a, 'm) hdEnv_scheme \<Rightarrow> nat \<Rightarrow> bytes \<Rightarrow> scryptOptions \<Rightarrow> 'k
    \<Rightarrow> bytes option \<Rightarrow> bytes option \<Rightarrow> bytes option \<Rightarrow> bool" where
  "stored_private E k pass config root params priv stored \<longleftrightarrow>
     (\<exists>mk ck cpriv chd. newSecretKey E k pass config = Inr mk \<and> newCryptoKey E (k + 2) = Inr ck
        \<and> params = Some (Marshal mk) \<and> masterEncrypt E mk ck = Inr cpriv \<and> priv = Some cpriv
        \<and> encryptWith E (Some ck) (keyString E root) = Inr chd \<and> stored = Some chd)"

lemma failing_encrypt: "failing c (encryptWith E ck x) = Inr y \<longleftrightarrow> encryptWith E ck x = Inr y"
  by simp

lemma createPrivate_effect:
  assumes "createPrivate E k ns root pass config ckPub = Inr (params, priv, script, ns')"
  shows "scope_only ns (ns'\<lparr>mgrMain := mgrMain ns\<rparr>)"
    "mgrMain ns \<noteq> None \<longrightarrow> mgrMain ns' \<noteq> None"
    "x \<noteq> masterHDPrivName \<Longrightarrow> x \<noteq> masterHDPubName \<Longrightarrow> mainAt ns' x = mainAt ns x"
    "stored_private E k pass config root (Some params) (Some priv) (mainAt ns' masterHDPrivName)"
proof -
  obtain mk ck script' pub m hp hq m' where c: "newSecretKey E k pass config = Inr mk"
      "newCryptoKey E (k + 2) = Inr ck" "masterEncrypt E mk ck = Inr priv"
      "foldE (\<lambda>sc ns. convertE (createManagerKeyScope E ns sc root ckPub (Some ck))) DefaultKeyScopes ns = Inr m"
      "encryptWith E (Some ck) (keyString E root) = Inr hp"
      "putMainOpt E masterHDPrivName (Some hp) m = Inr m'" "putMainOpt E masterHDPubName (Some hq) m' = Inr ns'"
      "params = Marshal mk"
    using assms by (auto simp: createPrivate_def putMasterHDKeys_def)
  have so: "scope_only ns m"
    by (rule foldE_scope_only[OF _ c(4)]) (auto dest: scope_only_createManagerKeyScope)
  note p = putMainOpt_at[OF c(6)] putMainOpt_at[OF c(7)]
  have d: "masterHDPrivName \<noteq> masterHDPubName" by (simp add: key_defs ascii_def)
  show "scope_only ns (ns'\<lparr>mgrMain := mgrMain ns\<rparr>)" using so p by (simp add: scope_only_def scopeKeys_def)
  show "mgrMain ns \<noteq> None \<longrightarrow> mgrMain ns' \<noteq> None" using so p by (simp add: scope_only_def)
  have "mainAt m x = mainAt ns x" for x using so by (simp add: mainAt_def scope_only_def)
  then show "x \<noteq> masterHDPrivName \<Longrightarrow> x \<noteq> masterHDPubName \<Longrightarrow> mainAt ns' x = mainAt ns x" using p by simp
  have "mainAt ns' masterHDPrivName = Some hp" using p d by simp
  then show "stored_private E k pass config root (Some params) (Some priv) (mainAt ns' masterHDPrivName)"
    unfolding stored_private_def using c by blast
qed

lemma createKeys_effect:
  assumes "createKeys E k ns root pass config ckPub = Inr (params, priv, script, ns')" "mgrMain ns \<noteq> None"
  shows "mgrMain ns' \<noteq> None" "mgrSync ns' = mgrSync ns" "mgrSchema ns' = mgrSchema ns" "scopeKeys ns' = scopeKeys ns"
    "x \<noteq> masterHDPrivName \<Longrightarrow> x \<noteq> masterHDPubName \<Longrightarrow> mainAt ns' x = mainAt ns x"
    "case root of None \<Rightarrow> params = None \<and> priv = None
      | Some root \<Rightarrow> stored_private E k pass config root params priv (mainAt ns' masterHDPrivName)"
  using assms createPrivate_effect[of E k ns "the root" pass config ckPub "the params" "the priv" "the script" ns']
  by (auto simp: createKeys_def scope_only_def scopeKeys_def split: option.splits)

section \<open>The effect of \<open>Create\<close>\<close>

lemma createSync_effect:
  assumes "createSync E ns block birthday = Inr ns'" "mgrSync ns = Some b"
  shows "mgrMain ns' = mgrMain ns" "mgrSchema ns' = mgrSchema ns" "mgrScopes ns' = mgrScopes ns"
    "fetchSyncedTo ns' = Inr (block\<lparr>stampTime := fromUnix (uint (word_of_int (unixSec (stampTime block)) :: u32))\<rparr>)"
    "FetchStartBlock ns' = Inr (block\<lparr>stampTime := zeroTime\<rparr>)"
    "fetchBirthday ns' = Inr (wordTime (timeWord (birthday - 172800 * 1000000000)))"
proof -
  obtain m1 m2 where m: "PutSyncedTo E ns block = Inr m1" "putStartBlock E m1 block = Inr m2"
      "putBirthday E m2 (birthday - 172800 * 1000000000) = Inr ns'"
    using assms(1) by (auto simp: createSync_def newSyncState_def)
  from PutSyncedTo_effect(1)[OF assms(2) m(1)] have m1: "m1 = ns\<lparr>mgrSync := Some (syncWrite block b)\<rparr>" by simp
  let ?b = "bucketPut (bucketPut (syncWrite block b) startBlockName
      (uint32ToBytes (stampHeight block) @ hashBytes (stampHash block))) birthdayName
      (putUint64 (timeWord (birthday - 172800 * 1000000000)))"
  have ns': "ns' = ns\<lparr>mgrSync := Some ?b\<rparr>"
    using m m1 by (auto simp: putStartBlock_def putBirthday_def putSync_def syncBucket_def)
  show "mgrMain ns' = mgrMain ns" "mgrSchema ns' = mgrSchema ns" "mgrScopes ns' = mgrScopes ns" by (simp_all add: ns')
  have d: "startBlockName \<noteq> syncedToName" "birthdayName \<noteq> syncedToName" "startBlockName \<noteq> birthdayName"
    by (simp_all add: sync_key_defs ascii_def)
  show "fetchSyncedTo ns' = Inr (block\<lparr>stampTime := fromUnix (uint (word_of_int (unixSec (stampTime block)) :: u32))\<rparr>)"
    using fetchSyncedTo_write[where ns = ns and bs = block and b = b] d
    by (simp add: ns' fetchSyncedTo_def syncBucket_def bucketGet_upd)
  show "FetchStartBlock ns' = Inr (block\<lparr>stampTime := zeroTime\<rparr>)"
    by (simp add: ns' FetchStartBlock_def syncBucket_def bucketGet_upd d slice_def Let_def)
  show "fetchBirthday ns' = Inr (wordTime (timeWord (birthday - 172800 * 1000000000)))"
    by (simp add: ns' fetchBirthday_def syncBucket_def)
qed

lemma Create_effect:
  assumes "Create E k ns root pub pass genesis config birthday = Inr ns'"
  shows "\<not> managerExists (Some ns)" "root \<noteq> None \<Longrightarrow> pass \<noteq> []" "mgrMain ns' \<noteq> None"
    "mainAt ns' mgrVersionName = Some (uint32ToBytes latestMgrVersion)"
    "mainAt ns' watchingOnlyName = Some [if root = None then 1 else 0]"
    "\<exists>mk ck cpub. newSecretKey E k pub (case config of None \<Rightarrow> DefaultScryptOptions | Some c \<Rightarrow> c) = Inr mk
       \<and> newCryptoKey E (k + 1) = Inr ck \<and> masterEncrypt E mk ck = Inr cpub
       \<and> mainAt ns' masterPubKeyName = Some (Marshal mk) \<and> mainAt ns' cryptoPubKeyName = Some cpub"
    "root = Some r \<Longrightarrow> stored_private E (k + 2) pass (case config of None \<Rightarrow> DefaultScryptOptions | Some c \<Rightarrow> c) r
       (mainAt ns' masterPrivKeyName) (mainAt ns' cryptoPrivKeyName) (mainAt ns' masterHDPrivName)"
    "scopeKeys ns' = Some (scopeToBytes ` fst ` set (if root = None then [] else ScopeAddrMap))"
    "schemaAt ns' sc = map_option scopeSchemaToBytes (map_of (if root = None then [] else ScopeAddrMap) sc)"
    "fetchSyncedTo ns' = Inr \<lparr>stampHeight = 0, stampHash = fst genesis,
       stampTime = fromUnix (uint (word_of_int (unixSec (snd genesis)) :: u32))\<rparr>"
    "FetchStartBlock ns' = Inr \<lparr>stampHeight = 0, stampHash = fst genesis, stampTime = zeroTime\<rparr>"
    "fetchBirthday ns' = Inr (wordTime (timeWord (birthday - 172800 * 1000000000)))"
proof -
  let ?c = "case config of None \<Rightarrow> DefaultScryptOptions | Some c \<Rightarrow> c"
    and ?scopes = "if root = None then [] else ScopeAddrMap"
    and ?block = "\<lparr>stampHeight = 0, stampHash = fst genesis, stampTime = snd genesis\<rparr>"
  show "\<not> managerExists (Some ns)" "root \<noteq> None \<Longrightarrow> pass \<noteq> []"
    using assms by (auto simp: Create_def split: if_splits)
  obtain n1 mk ck cpub pp cp cs n2 n3 n4 n5 where c: "createManagerNS E latestMgrVersion ns ?scopes = Inr n1"
      "newSecretKey E k pub ?c = Inr mk" "newCryptoKey E (k + 1) = Inr ck" "masterEncrypt E mk ck = Inr cpub"
      "createKeys E (k + 2) n1 root pass ?c ck = Inr (pp, cp, cs, n2)"
      "putMasterKeyParams E n2 (Some (Marshal mk)) pp = Inr n3" "putCryptoKeys E n3 (Some cpub) cp cs = Inr n4"
      "putWatchingOnly E n4 (root = None) = Inr n5" "createSync E n5 ?block birthday = Inr ns'"
    using assms by (auto simp: Create_def Let_def split: if_splits)
  note ns = createManagerNS_effect[OF c(1)]
  note keys = createKeys_effect[OF c(5) ns(1)]
  obtain m1 where m1: "putMainOpt E masterPrivKeyName pp n2 = Inr m1" "putMainOpt E masterPubKeyName (Some (Marshal mk)) m1 = Inr n3"
    using c(6) by (auto simp: putMasterKeyParams_def)
  obtain m2 m3 where m2: "putMainOpt E cryptoPubKeyName (Some cpub) n3 = Inr m2" "putMainOpt E cryptoPrivKeyName cp m2 = Inr m3"
      "putMainOpt E cryptoScriptKeyName cs m3 = Inr n4"
    using c(7) by (auto simp: putCryptoKeys_def)
  note p = putMainOpt_at[OF m1(1)] putMainOpt_at[OF m1(2)] putMainOpt_at[OF m2(1)] putMainOpt_at[OF m2(2)]
    putMainOpt_at[OF m2(3)] mainAt_put[OF c(8)[unfolded putWatchingOnly_def]]
  have "mgrSync n5 = mgrSync n2" using p by simp
  then have "mgrSync n5 = Some bucketEmpty" using keys(2) ns(4) by simp
  note sy = createSync_effect[OF c(9) this]
  have other: "mgrSchema ns' = mgrSchema n1" "scopeKeys ns' = scopeKeys n1"
    using p sy keys(3,4) by (simp_all add: scopeKeys_def)
  have at: "mainAt ns' x = mainAt n5 x" for x by (simp add: mainAt_def sy)
  note d = key_defs ascii_def
  have n1: "mainAt n1 x = None" if "x \<noteq> mgrVersionName" "x \<noteq> mgrCreateDateName" for x by (rule ns(3)[OF that])
  show "mgrMain ns' \<noteq> None" using p sy by simp
  show "mainAt ns' mgrVersionName = Some (uint32ToBytes latestMgrVersion)"
    using p keys(5)[of mgrVersionName] ns(2) by (simp add: at d)
  show "mainAt ns' watchingOnlyName = Some [if root = None then 1 else 0]" using p by (simp add: at)
  have "mainAt ns' masterPubKeyName = Some (Marshal mk)" using p by (simp add: at d)
  moreover have "mainAt ns' cryptoPubKeyName = Some cpub" using p by (simp add: at d)
  ultimately show "\<exists>mk ck cpub. newSecretKey E k pub ?c = Inr mk
       \<and> newCryptoKey E (k + 1) = Inr ck \<and> masterEncrypt E mk ck = Inr cpub
       \<and> mainAt ns' masterPubKeyName = Some (Marshal mk) \<and> mainAt ns' cryptoPubKeyName = Some cpub"
    using c(2-4) by blast
  show "stored_private E (k + 2) pass ?c r (mainAt ns' masterPrivKeyName) (mainAt ns' cryptoPrivKeyName)
      (mainAt ns' masterHDPrivName)" if r: "root = Some r"
  proof -
    have s: "stored_private E (k + 2) pass ?c r pp cp (mainAt n2 masterHDPrivName)" using keys(6) r by simp
    then obtain a b where "pp = Some a" "cp = Some b" unfolding stored_private_def by blast
    then have "mainAt ns' masterPrivKeyName = pp" "mainAt ns' cryptoPrivKeyName = cp"
        "mainAt ns' masterHDPrivName = mainAt n2 masterHDPrivName"
      using p by (simp_all add: at d)
    then show ?thesis using s by simp
  qed
  show "scopeKeys ns' = Some (scopeToBytes ` fst ` set ?scopes)" using other ns(6) by simp
  have "map_of (rev ?scopes) = map_of ?scopes"
    by (simp add: ScopeAddrMap_def KeyScopeBIP0049Plus_def KeyScopeBIP0084_def KeyScopeBIP0086_def
        KeyScopeBIP0044_def fun_eq_iff)
  then show "schemaAt ns' sc = map_option scopeSchemaToBytes (map_of ?scopes sc)"
    using other(1) ns(7)[of sc] by (simp add: schemaAt_def)
  show "fetchSyncedTo ns' = Inr \<lparr>stampHeight = 0, stampHash = fst genesis,
       stampTime = fromUnix (uint (word_of_int (unixSec (snd genesis)) :: u32))\<rparr>"
    "FetchStartBlock ns' = Inr \<lparr>stampHeight = 0, stampHash = fst genesis, stampTime = zeroTime\<rparr>"
    "fetchBirthday ns' = Inr (wordTime (timeWord (birthday - 172800 * 1000000000)))"
    using sy by simp_all
qed

section \<open>What \<open>Open\<close> reads\<close>

lemma fetchScopeAddrSchema_at: "schemaAt ns sc = Some (scopeSchemaToBytes schema) \<Longrightarrow>
    fetchScopeAddrSchema ns sc = Inr schema"
  by (cases "mgrSchema ns") (auto simp: schemaAt_def fetchScopeAddrSchema_def)

lemma foldE_fresh:
  assumes "\<forall>(k, _) \<in> set ss. length k = 8 \<and> fetchScopeAddrSchema ns (scopeFromBytes k) = Inr (schema (scopeFromBytes k))"
  shows "\<exists>sms. foldE (\<lambda>(k, _) st. if length k \<noteq> 8 then Inr st
        else bindE (fetchScopeAddrSchema ns (scopeFromBytes k)) (\<lambda>sch.
          Inr (AList.update (scopeFromBytes k) (freshScoped (scopeFromBytes k) sch) st))) ss init = Inr sms
    \<and> map_of sms = (\<lambda>sc. if sc \<in> scopeFromBytes ` fst ` set ss then Some (freshScoped sc (schema sc)) else map_of init sc)
    \<and> (distinct (map fst init) \<longrightarrow> distinct (map fst sms))"
  using assms
proof (induction ss arbitrary: init)
  case (Cons x ss)
  obtain k s where x: "x = (k, s)" by (cases x)
  let ?sc = "scopeFromBytes k"
  let ?init = "AList.update ?sc (freshScoped ?sc (schema ?sc)) init"
  have "distinct (map fst init) \<longrightarrow> distinct (map fst ?init)" by (simp add: AList.distinct_update)
  moreover have "map_of ?init = (map_of init)(?sc \<mapsto> freshScoped ?sc (schema ?sc))" by (simp add: AList.update_conv')
  ultimately show ?case
    using Cons.IH[of ?init] Cons.prems by (auto simp: x fun_eq_iff simp del: AList.update_conv')
qed auto

lemma loadScopes_spec:
  assumes "scopeKeys ns = Some (scopeToBytes ` S)"
    and "\<And>sc. sc \<in> S \<Longrightarrow> schemaAt ns sc = Some (scopeSchemaToBytes (schema sc))"
  shows "\<exists>sms. loadScopes ns = Inr sms \<and> distinct (map fst sms)
    \<and> map_of sms = (\<lambda>sc. if sc \<in> S then Some (freshScoped sc (schema sc)) else None)"
proof -
  obtain ss where ss: "mgrScopes ns = Some ss" "fst ` set ss = scopeToBytes ` S"
    using assms(1) by (auto simp: scopeKeys_def)
  have "\<forall>(k, _) \<in> set ss. length k = 8 \<and> fetchScopeAddrSchema ns (scopeFromBytes k) = Inr (schema (scopeFromBytes k))"
  proof clarify
    fix k and s :: scopeStore
    assume "(k, s) \<in> set ss"
    then have "k \<in> scopeToBytes ` S" using ss(2) by (metis fst_conv image_eqI)
    then obtain sc where "sc \<in> S" "k = scopeToBytes sc" by blast
    then show "length k = 8 \<and> fetchScopeAddrSchema ns (scopeFromBytes k) = Inr (schema (scopeFromBytes k))"
      using assms(2) by (simp add: fetchScopeAddrSchema_at)
  qed
  moreover have "scopeFromBytes ` fst ` set ss = S" unfolding ss(2) by (simp add: image_image)
  ultimately show ?thesis
    using foldE_fresh[of ss ns schema "[]", unfolded map_of.simps, simplified]
    unfolding loadScopes_def forEachKeyScope_def scopeRoot_def ss(1) by auto
qed

lemma requiredMain_at: "mgrMain ns \<noteq> None \<Longrightarrow> mainAt ns k = Some v \<Longrightarrow> requiredMain ns k = Inr v"
  by (auto simp: requiredMain_def getMain_def mainBucket_def mainAt_def split: option.splits)

lemma getMain_ok: "mgrMain ns \<noteq> None \<Longrightarrow> getMain ns k = Inr (mainAt ns k)"
  by (auto simp: getMain_def mainBucket_def mainAt_def split: option.splits)

lemma newSecretKey_opens:
  assumes "snacl_ok E" "newSecretKey E k pw c = Inr sk"
  shows "\<exists>key. skKey sk = Some key \<and> length key = 32 \<and> opens E (skParameters sk) pw key \<and> params_ok (skParameters sk)"
  using NewSecretKey_opens[OF assms(1)] assms(2) by (auto simp: newSecretKey_def split: sum.splits)

lemma master_round:
  assumes "snacl_ok E" "masterEncrypt E sk x = Inr y" "skKey sk = skKey sk'"
  shows "masterDecrypt E sk' y = Inr x"
  using assms Decrypt_Encrypt[OF assms(1)]
  by (auto simp: masterEncrypt_def masterDecrypt_def SecretKey_Encrypt_def SecretKey_Decrypt_def split: sum.splits option.splits)

lemma unmarshalKey_stored: "params_ok (skParameters sk) \<Longrightarrow>
    unmarshalKey (Marshal sk) = Inr \<lparr>skKey = Some zeroKey, skParameters = skParameters sk\<rparr>"
  using Unmarshal_stored[of sk emptySecretKey] by (simp add: unmarshalKey_def emptySecretKey_def)

end
