(* ===== verification/Mgr_Unlock.thy ===== *)
theory Mgr_Unlock
  imports Mgr_Open
begin

text \<open>
  What locking and unlocking do to the keys in memory.
\<close>

section \<open>Restoring the account keys\<close>

definition restoreAccount :: "('k accountInfo \<Rightarrow> 'k) \<Rightarrow> 'k accountInfo \<Rightarrow> 'k accountInfo" where
  "restoreAccount kf i = i\<lparr>acctKeyPriv := Some (kf i)\<rparr>"

definition restoreScoped :: "('k accountInfo \<Rightarrow> 'k) \<Rightarrow> 'k scopedKeyManager \<Rightarrow> 'k scopedKeyManager" where
  "restoreScoped kf s = s\<lparr>smAcctInfo := map (\<lambda>(a, i). (a, restoreAccount kf i)) (smAcctInfo s)\<rparr>"

definition account_opens :: "('k, 'a, 'm) hdEnv_scheme \<Rightarrow> bytes \<Rightarrow> ('k accountInfo \<Rightarrow> 'k) \<Rightarrow> 'k accountInfo \<Rightarrow> bool" where
  "account_opens E ck kf i \<longleftrightarrow>
     (\<exists>p. decryptWith E (Some ck) (acctKeyEncrypted i) = Inr p \<and> newKey E p = Some (kf i))"

definition scope_opens :: "('k, 'a, 'm) hdEnv_scheme \<Rightarrow> bytes \<Rightarrow> ('k accountInfo \<Rightarrow> 'k) \<Rightarrow> 'k scopedKeyManager \<Rightarrow> bool" where
  "scope_opens E ck kf s \<longleftrightarrow> distinct (map fst (smAcctInfo s)) \<and> smDeriveOnUnlock s = []
     \<and> (\<forall>(a, i) \<in> set (smAcctInfo s). account_opens E ck kf i)"

lemma update_middle: "a \<notin> fst ` set xs \<Longrightarrow> AList.update a v (xs @ (a, w) # ys) = xs @ (a, v) # ys"
  by (induction xs) auto

lemma unlockAccounts_run:
  assumes "distinct (map fst (mgScoped m))"
    and "map_of (mgScoped m) sc = Some s" "smAcctInfo s = map (\<lambda>(a, i). (a, restoreAccount kf i)) xs @ ys"
    and "distinct (map fst (xs @ ys))" "mgCryptoKeyPriv m = Some ck"
    and "\<forall>(a, i) \<in> set ys. account_opens E ck kf i"
  shows "foldM_mop (\<lambda>(account, _) _. unlockAccount E sc account) ys () m
    = (Inr (), setScoped sc (\<lambda>s. s\<lparr>smAcctInfo := map (\<lambda>(a, i). (a, restoreAccount kf i)) (xs @ ys)\<rparr>) m)"
  using assms
proof (induction ys arbitrary: xs s m)
  case Nil
  then show ?case by (simp add: mop_run setScoped_same)
next
  case (Cons y ys)
  obtain a i where y: "y = (a, i)" by (cases y)
  let ?r = "map (\<lambda>(a, i). (a, restoreAccount kf i))"
  have na: "a \<notin> fst ` set (?r xs)" using Cons.prems(4) by (force simp: y)
  have "map_of (?r xs) a = None" using na by (simp add: map_of_eq_None_iff)
  then have l: "map_of (smAcctInfo s) a = Some i" by (simp only: Cons.prems(3) y map_of_append map_add_def) simp
  obtain p where p: "decryptWith E (Some ck) (acctKeyEncrypted i) = Inr p" "newKey E p = Some (kf i)"
    using Cons.prems(6) by (auto simp: y account_opens_def)
  let ?u = "\<lambda>s. s\<lparr>smAcctInfo := AList.update a (restoreAccount kf i) (smAcctInfo s)\<rparr>"
  have run: "unlockAccount E sc a m = (Inr (), setScoped sc ?u m)"
    by (simp add: unlockAccount_def bind_getScoped[OF Cons.prems(2)] l mop_simps p Cons.prems(5) restoreAccount_def)
  have s': "smAcctInfo (?u s) = ?r (xs @ [y]) @ ys"
    using update_middle[OF na, of "restoreAccount kf i" i ys] by (simp add: Cons.prems(3) y)
  have "foldM_mop (\<lambda>(account, _) _. unlockAccount E sc account) ys () (setScoped sc ?u m)
    = (Inr (), setScoped sc (\<lambda>s. s\<lparr>smAcctInfo := ?r ((xs @ [y]) @ ys)\<rparr>) (setScoped sc ?u m))"
    by (rule Cons.IH[OF _ _ s']) (use Cons.prems in \<open>auto simp: map_of_setScoped y\<close>)
  then show ?case by (simp add: y bindM_run(1) run setScoped_twice)
qed

lemma unlockScoped_run:
  assumes "distinct (map fst (mgScoped m))" "map_of (mgScoped m) sc = Some s" "mgCryptoKeyPriv m = Some ck"
    and "scope_opens E ck kf s"
  shows "unlockScoped E ns sc m = (Inr (), setScoped sc (restoreScoped kf) m)"
proof -
  note o = assms(4)[unfolded scope_opens_def]
  let ?m = "setScoped sc (restoreScoped kf) m"
  have m: "?m = setScoped sc (\<lambda>t. t\<lparr>smAcctInfo := map (\<lambda>(a, i). (a, restoreAccount kf i)) (smAcctInfo s)\<rparr>) m"
    by (rule setScoped_cong[OF assms(1,2)]) (simp add: restoreScoped_def)
  have f: "foldM_mop (\<lambda>(account, _) _. unlockAccount E sc account) (smAcctInfo s) () m = (Inr (), ?m)"
    using unlockAccounts_run[OF assms(1,2) _ _ assms(3), where xs = "[]" and ys = "smAcctInfo s" and kf = kf and E = E] o
    unfolding m by simp
  have "map_of (mgScoped ?m) sc = Some (restoreScoped kf s)" by (simp add: map_of_setScoped assms(2))
  note g = bind_getScoped[OF this]
  show ?thesis
    using o by (simp add: unlockScoped_def bind_getScoped[OF assms(2)] bindM_run(1) f g)
      (simp add: restoreScoped_def mop_run)
qed

section \<open>Restoring every scope\<close>

lemma setScoped_middle:
  assumes "mgScoped m = xs @ (sc, s) # ys" "distinct (map fst (mgScoped m))"
  shows "setScoped sc f m = m\<lparr>mgScoped := xs @ (sc, f s) # ys\<rparr>"
proof -
  have "map (\<lambda>(k, s). (k, if k = sc then f s else s)) zs = zs" if "sc \<notin> fst ` set zs" for zs
    using that by (induction zs) auto
  then show ?thesis using assms by (simp add: setScoped_def)
qed

lemma unlockScopes_run:
  assumes "mgScoped m = map (\<lambda>(sc, s). (sc, restoreScoped kf s)) xs @ ys" "distinct (map fst (mgScoped m))"
    and "mgCryptoKeyPriv m = Some ck" "\<forall>(sc, s) \<in> set ys. scope_opens E ck kf s"
  shows "foldM_mop (\<lambda>(sc, _) _. unlockScoped E ns sc) ys () m
    = (Inr (), m\<lparr>mgScoped := map (\<lambda>(sc, s). (sc, restoreScoped kf s)) (xs @ ys)\<rparr>)"
  using assms
proof (induction ys arbitrary: xs m)
  case Nil
  then show ?case by (simp add: mop_run)
next
  case (Cons y ys)
  obtain sc s where y: "y = (sc, s)" by (cases y)
  let ?r = "map (\<lambda>(sc, s). (sc, restoreScoped kf s))"
  have m: "map_of (mgScoped m) sc = Some s"
    using Cons.prems(2) by (intro map_of_is_SomeI) (simp_all add: Cons.prems(1) y)
  have so: "scope_opens E ck kf s" using Cons.prems(4) by (simp add: y)
  let ?m = "m\<lparr>mgScoped := ?r (xs @ [y]) @ ys\<rparr>"
  have run: "unlockScoped E ns sc m = (Inr (), ?m)"
    using unlockScoped_run[OF Cons.prems(2) m Cons.prems(3) so] setScoped_middle[OF _ Cons.prems(2)] Cons.prems(1)
    by (simp add: y)
  have "foldM_mop (\<lambda>(sc, _) _. unlockScoped E ns sc) ys () ?m
    = (Inr (), ?m\<lparr>mgScoped := ?r ((xs @ [y]) @ ys)\<rparr>)"
    by (rule Cons.IH) (use Cons.prems in \<open>auto simp: y\<close>)
  then show ?case by (simp add: y bindM_run(1) run)
qed

section \<open>The passphrase of the private keys\<close>

text \<open>The passphrase \<open>pw\<close> opens the master key of the manager, which keeps the crypto key \<open>ck\<close>.\<close>

definition guarded :: "('k, 'a, 'm) hdEnv_scheme \<Rightarrow> parameters \<Rightarrow> bytes \<Rightarrow> bytes \<Rightarrow> bytes \<Rightarrow> bool" where
  "guarded E params encrypted pw ck \<longleftrightarrow>
     (\<exists>key. opens E params pw key \<and> CryptoKey_Decrypt E key encrypted = Inr ck) \<and> length ck = 32"

definition master_ready :: "('k, 'a) manager \<Rightarrow> secretKey \<Rightarrow> bool" where
  "master_ready m sk \<longleftrightarrow> mgMasterKeyPriv m = Some sk \<and> (\<exists>old. skKey sk = Some old \<and> length old = 32)
     \<and> (\<exists>old. mgCryptoKeyPriv m = Some old \<and> length old = 32) \<and> mgCryptoKeyScript m \<noteq> None"

lemma master_readyD:
  assumes "master_ready m sk"
  shows "mgMasterKeyPriv m = Some sk" "\<exists>old. skKey sk = Some old \<and> length old = 32"
    "\<exists>old. mgCryptoKeyPriv m = Some old \<and> length old = 32" "hasPrivateKeys m"
  using assms by (auto simp: master_ready_def hasPrivateKeys_def)

definition unlockedWith :: "('k, 'a, 'm) hdEnv_scheme \<Rightarrow> secretKey \<Rightarrow> bytes \<Rightarrow> bytes \<Rightarrow> bytes \<Rightarrow> ('k accountInfo \<Rightarrow> 'k)
    \<Rightarrow> ('k, 'a) manager \<Rightarrow> ('k, 'a) manager" where
  "unlockedWith E sk key pw ck kf m = (mapScoped (restoreScoped kf) m)\<lparr>
     mgMasterKeyPriv := Some (sk\<lparr>skKey := Some key\<rparr>), mgCryptoKeyPriv := Some ck, mgLocked := False,
     mgHashedPass := fst (saltedHash E (mgSalt m) pw), mgSalt := snd (saltedHash E (mgSalt m) pw)\<rparr>"

definition scopes_open :: "('k, 'a, 'm) hdEnv_scheme \<Rightarrow> bytes \<Rightarrow> ('k accountInfo \<Rightarrow> 'k) \<Rightarrow> ('k, 'a) manager \<Rightarrow> bool" where
  "scopes_open E ck kf m \<longleftrightarrow> distinct (map fst (mgScoped m))
     \<and> (\<forall>(sc, s) \<in> set (mgScoped m). scope_opens E ck kf s)"

lemma Unlock_run:
  assumes "snacl_ok E" "\<not> WatchOnly m" "IsLocked m" "master_ready m sk"
    and "opens E (skParameters sk) pw key" "CryptoKey_Decrypt E key (mgCryptoKeyPrivEncrypted m) = Inr ck"
    and "length ck = 32" "scopes_open E ck kf m"
  shows "Unlock E ns pw m = (Inr (), unlockedWith E sk key pw ck kf m)"
proof -
  note sk = master_readyD[OF assms(4)]
  obtain old old' where o: "skKey sk = Some old" "length old = 32" "mgCryptoKeyPriv m = Some old'" "length old' = 32"
    using sk(2,3) by blast
  let ?sk = "sk\<lparr>skKey := Some key\<rparr>"
  let ?m = "m\<lparr>mgMasterKeyPriv := Some ?sk\<rparr>"
  have d: "deriveMaster E pw m = (Inr ?sk, ?m)"
    by (simp add: deriveMaster_def mop_simps sk(1) DeriveKey_opens[OF assms(1) o(1,2) assms(5)])
  have k: "masterDecrypt E ?sk (mgCryptoKeyPrivEncrypted m) = Inr ck"
    by (simp add: masterDecrypt_def SecretKey_Decrypt_def assms(6))
  let ?m' = "?m\<lparr>mgCryptoKeyPriv := Some ck\<rparr>"
  have f: "foldM_mop (\<lambda>(sc, _) _. unlockScoped E ns sc) (mgScoped m) () ?m'
      = (Inr (), ?m'\<lparr>mgScoped := map (\<lambda>(sc, s). (sc, restoreScoped kf s)) (mgScoped m)\<rparr>)"
    using unlockScopes_run[of ?m' kf "[]" "mgScoped m" ck E ns] assms(8) by (simp add: scopes_open_def)
  have "unlockKeys E ns pw m = (Inr (), ?m'\<lparr>mgScoped := map (\<lambda>(sc, s). (sc, restoreScoped kf s)) (mgScoped m)\<rparr>)"
    by (simp add: unlockKeys_def bindM_run(1) d mop_simps k o f copyInto_def assms(7))
  then show ?thesis
    using assms(2,3) by (simp add: Unlock_def mop_simps lockOnError_def unlockedWith_def saltedHash_def mapScoped_def)
qed

section \<open>What a locked manager holds\<close>

text \<open>The addresses that \<open>lock\<close> clears: those of public keys, and scripts that are not witness programs.\<close>

definition addr_clear :: "'a managedAddr \<Rightarrow> bool" where
  "addr_clear ma \<longleftrightarrow> (case ma of PubKeyAddr a \<Rightarrow> maPrivKeyCT a = [] | ScriptAddr a \<Rightarrow> saScriptClearText a = [] | _ \<Rightarrow> True)"

definition locked_clear :: "('k, 'a) manager \<Rightarrow> bool" where
  "locked_clear m \<longleftrightarrow> IsLocked m \<and> mgCryptoKeyPriv m = Some zeroKey \<and> mgCryptoKeyScript m = Some zeroKey
     \<and> mgHashedPass m = zeroPass \<and> (\<exists>sk. mgMasterKeyPriv m = Some sk \<and> skKey sk = Some zeroKey)
     \<and> (\<forall>(sc, s) \<in> set (mgScoped m). \<forall>(a, i) \<in> set (smAcctInfo s). acctKeyPriv i = None)
     \<and> (\<forall>r \<in> set (cachedRefs m). r < length (mgHeap m) \<longrightarrow> addr_clear (mgHeap m ! r))"

lemma addr_clear_lockAddr [simp]: "addr_clear (lockAddr ma)"
  by (cases ma) (simp_all add: addr_clear_def lockAddr_def managedAddress_lock_def scriptAddress_lock_def)

text \<open>What \<open>lock\<close> leaves in memory: the witness and taproot scripts, every address that no scope caches, and
  the caches of the scopes, that of derived private keys among them.\<close>

definition lock_leaves :: "('k, 'a) manager \<Rightarrow> ('k, 'a) manager \<Rightarrow> bool" where
  "lock_leaves m m1 \<longleftrightarrow> length (mgHeap m1) = length (mgHeap m)
     \<and> (\<forall>r < length (mgHeap m). r \<notin> set (cachedRefs m) \<or> (\<exists>a. mgHeap m ! r = WitnessScriptAddr a)
          \<or> (\<exists>a x. mgHeap m ! r = TaprootScriptAddr a x) \<longrightarrow> mgHeap m1 ! r = mgHeap m ! r)
     \<and> map (\<lambda>(sc, s). (sc, smAddrs s, smPrivKeyCache s)) (mgScoped m1)
         = map (\<lambda>(sc, s). (sc, smAddrs s, smPrivKeyCache s)) (mgScoped m)"

lemma lockScoped_addrs [simp]: "smAddrs (lockScoped s) = smAddrs s" by (simp add: lockScoped_def)

lemma cachedRefs_mapScoped: "(\<And>s. smAddrs (f s) = smAddrs s) \<Longrightarrow> cachedRefs (mapScoped f m) = cachedRefs m"
  by (simp add: cachedRefs_def mapScoped_def split_def comp_def)

definition lockState :: "('k, 'a) manager \<Rightarrow> ('k, 'a) manager" where
  "lockState m = lockKeys (mapCached lockAddr (mapScoped lockScoped m))"

lemma hasPrivateKeys_frame [simp]: "hasPrivateKeys (mapCached f (mapScoped g m)) = hasPrivateKeys m"
  by (simp add: hasPrivateKeys_def mapCached_def mapScoped_def)

lemma lock_run: "hasPrivateKeys m \<Longrightarrow> lock m = (Inr (), lockState m)"
  by (simp add: lock_def mop_simps lockState_def)


lemma cachedRefs_frame [simp]: "cachedRefs (m\<lparr>mgHeap := h\<rparr>) = cachedRefs m" "cachedRefs (lockKeys m) = cachedRefs m"
  by (simp_all add: cachedRefs_def lockKeys_def)

lemma lockState_clear: "hasPrivateKeys m \<Longrightarrow> locked_clear (lockState m)"
proof -
  assume h: "hasPrivateKeys m"
  then obtain sk key where k: "mgMasterKeyPriv m = Some sk" "skKey sk = Some key"
    by (auto simp: hasPrivateKeys_def split: option.splits)
  have c: "cachedRefs (lockState m) = cachedRefs (mapScoped lockScoped m)"
    by (simp add: lockState_def mapCached_def)
  have "mgHeap (lockState m) = mgHeap (mapCached lockAddr (mapScoped lockScoped m))"
    by (simp add: lockState_def lockKeys_def)
  then have "addr_clear (mgHeap (lockState m) ! r)"
    if "r \<in> set (cachedRefs (lockState m))" "r < length (mgHeap (lockState m))" for r
    using that unfolding c by (simp add: mapCached_def)
  moreover have "\<forall>(sc, s) \<in> set (mgScoped (lockState m)). \<forall>(a, i) \<in> set (smAcctInfo s). acctKeyPriv i = None"
    by (auto simp: lockState_def lockKeys_def mapCached_def mapScoped_def lockScoped_def)
  ultimately show ?thesis
    by (auto simp: locked_clear_def lockState_def lockKeys_def mapCached_def mapScoped_def IsLocked_def
        SecretKey_Zero_def k)
qed

lemma lockState_leaves: "lock_leaves m (lockState m)"
proof -
  have "cachedRefs (mapScoped lockScoped m) = cachedRefs m" by (simp add: cachedRefs_mapScoped)
  then have "mgHeap (lockState m) = map (\<lambda>r. if r \<in> set (cachedRefs m) then lockAddr (mgHeap m ! r) else mgHeap m ! r)
      [0..<length (mgHeap m)]"
    by (simp add: lockState_def lockKeys_def mapCached_def) (simp add: mapScoped_def)
  moreover have "mgScoped (lockState m) = map (\<lambda>(sc, s). (sc, lockScoped s)) (mgScoped m)"
    by (simp add: lockState_def lockKeys_def mapCached_def mapScoped_def)
  ultimately show ?thesis by (auto simp: lock_leaves_def lockAddr_def lockScoped_def)
qed



section \<open>Locking and unlocking again\<close>

text \<open>The wrong passphrase.\<close>

lemma Unlock_wrong:
  assumes "snacl_ok E" "\<not> WatchOnly m" "IsLocked m" "master_ready m sk" "\<nexists>key. opens E (skParameters sk) pw key"
  shows "\<exists>m'. Unlock E ns pw m = (Inl (managerError (if scryptOf E (skParameters sk) pw = None then ErrCrypto
      else ErrWrongPassphrase)), m') \<and> locked_clear m'
    \<and> mgCryptoKeyPrivEncrypted m' = mgCryptoKeyPrivEncrypted m
    \<and> (\<exists>sk'. master_ready m' sk' \<and> skParameters sk' = skParameters sk)"
proof -
  note sk = master_readyD[OF assms(4)]
  obtain old where o: "skKey sk = Some old" "length old = 32" using sk(2) by blast
  obtain sk' e where d: "DeriveKey E sk pw = (sk', Some e)" "skParameters sk' = skParameters sk"
      "\<exists>key. skKey sk' = Some key \<and> length key = 32"
      "e = ErrInvalidPassword \<longleftrightarrow> scryptOf E (skParameters sk) pw \<noteq> None"
    using DeriveKey_wrong[OF assms(1) o assms(5)] by blast
  have ne: "e = ErrInvalidPassword \<or> e = ErrLibrary"
    using d(1) o by (auto simp: DeriveKey_def deriveKey_sk_def split: option.splits if_splits)
  let ?m = "m\<lparr>mgMasterKeyPriv := Some sk'\<rparr>"
  let ?e = "managerError (if scryptOf E (skParameters sk) pw = None then ErrCrypto else ErrWrongPassphrase)"
  have "deriveMaster E pw m = (Inl ?e, ?m)"
    using ne d(1,4) by (auto simp: deriveMaster_def mop_simps sk(1))
  then have u: "unlockKeys E ns pw m = (Inl ?e, ?m)" by (simp add: unlockKeys_def bindM_run(2))
  have h: "hasPrivateKeys ?m" using sk(4) d(3) by (auto simp: hasPrivateKeys_def)
  have "Unlock E ns pw m = (Inl ?e, lockState ?m)"
    using assms(2,3) by (simp add: Unlock_def mop_simps u lockOnError_def bindM_run lock_run[OF h] managerError_def)
  moreover have "master_ready (lockState ?m) (SecretKey_Zero sk')"
    using d(3) by (auto simp: master_ready_def lockState_def lockKeys_def mapCached_def mapScoped_def SecretKey_Zero_def)
  moreover have "skParameters (SecretKey_Zero sk') = skParameters sk" by (simp add: SecretKey_Zero_def d(2))
  moreover have "mgCryptoKeyPrivEncrypted (lockState ?m) = mgCryptoKeyPrivEncrypted m"
    by (simp add: lockState_def lockKeys_def mapCached_def mapScoped_def)
  ultimately show ?thesis using lockState_clear[OF h] by blast
qed

end
