(* ===== verification/Mgr_Passphrase.thy ===== *)
theory Mgr_Passphrase
  imports Mgr_Unlock
begin

text \<open>
  A created manager opens under its public passphrase and unlocks under its private one; a changed
  passphrase takes the place of the old one in memory and in the database.
\<close>

section \<open>The opened manager\<close>

lemma registerScopes_frame:
  "\<exists>e i. fold (\<lambda>(scope, s). registerScope (smScope s) (smAddrSchema s)) xs m
    = m\<lparr>mgExternalSchemas := e, mgInternalSchemas := i\<rparr>"
proof (induction xs arbitrary: m)
  case Nil
  have "m = m\<lparr>mgExternalSchemas := mgExternalSchemas m, mgInternalSchemas := mgInternalSchemas m\<rparr>" by simp
  then show ?case unfolding fold.simps id_apply by blast
next
  case (Cons x xs)
  obtain sc s where x: "x = (sc, s)" by (cases x)
  obtain e i where "fold (\<lambda>(scope, s). registerScope (smScope s) (smAddrSchema s)) xs (registerScope (smScope s) (smAddrSchema s) m)
      = registerScope (smScope s) (smAddrSchema s) m\<lparr>mgExternalSchemas := e, mgInternalSchemas := i\<rparr>"
    using Cons.IH by blast
  then have "fold (\<lambda>(scope, s). registerScope (smScope s) (smAddrSchema s)) (x # xs) m
      = m\<lparr>mgExternalSchemas := e, mgInternalSchemas := i\<rparr>"
    by (simp add: x registerScope_def)
  then show ?case by blast
qed

lemma registerScopes_sel [simp]:
  fixes xs :: "(keyScope \<times> 'k scopedKeyManager) list" and m :: "('k, 'a) manager"
  defines "m' \<equiv> fold (\<lambda>(scope, s). registerScope (smScope s) (smAddrSchema s)) xs m"
  shows "mgScoped m' = mgScoped m" "mgSyncState m' = mgSyncState m" "mgWatchingOnly m' = mgWatchingOnly m"
    "mgBirthday m' = mgBirthday m" "mgLocked m' = mgLocked m" "mgMasterKeyPub m' = mgMasterKeyPub m"
    "mgMasterKeyPriv m' = mgMasterKeyPriv m" "mgCryptoKeyPub m' = mgCryptoKeyPub m"
    "mgCryptoKeyPrivEncrypted m' = mgCryptoKeyPrivEncrypted m" "mgCryptoKeyPriv m' = mgCryptoKeyPriv m"
    "mgCryptoKeyScript m' = mgCryptoKeyScript m" "mgCryptoKeyScriptEncrypted m' = mgCryptoKeyScriptEncrypted m"
proof -
  obtain e i where "m' = m\<lparr>mgExternalSchemas := e, mgInternalSchemas := i\<rparr>"
    unfolding m'_def using registerScopes_frame by blast
  then show "mgScoped m' = mgScoped m" "mgSyncState m' = mgSyncState m" "mgWatchingOnly m' = mgWatchingOnly m"
    "mgBirthday m' = mgBirthday m" "mgLocked m' = mgLocked m" "mgMasterKeyPub m' = mgMasterKeyPub m"
    "mgMasterKeyPriv m' = mgMasterKeyPriv m" "mgCryptoKeyPub m' = mgCryptoKeyPub m"
    "mgCryptoKeyPrivEncrypted m' = mgCryptoKeyPrivEncrypted m" "mgCryptoKeyPriv m' = mgCryptoKeyPriv m"
    "mgCryptoKeyScript m' = mgCryptoKeyScript m" "mgCryptoKeyScriptEncrypted m' = mgCryptoKeyScriptEncrypted m"
    by simp_all
qed

lemma newManager_sel [simp]:
  "mgScoped (newManager pubKey privKey ck cpriv cscript sync birthday salt scoped watch) = scoped"
  "mgSyncState (newManager pubKey privKey ck cpriv cscript sync birthday salt scoped watch) = sync"
  "mgWatchingOnly (newManager pubKey privKey ck cpriv cscript sync birthday salt scoped watch) = watch"
  "mgBirthday (newManager pubKey privKey ck cpriv cscript sync birthday salt scoped watch) = birthday"
  "mgLocked (newManager pubKey privKey ck cpriv cscript sync birthday salt scoped watch) = True"
  "mgMasterKeyPub (newManager pubKey privKey ck cpriv cscript sync birthday salt scoped watch) = pubKey"
  "mgMasterKeyPriv (newManager pubKey privKey ck cpriv cscript sync birthday salt scoped watch) = Some privKey"
  "mgCryptoKeyPub (newManager pubKey privKey ck cpriv cscript sync birthday salt scoped watch) = ck"
  "mgCryptoKeyPrivEncrypted (newManager pubKey privKey ck cpriv cscript sync birthday salt scoped watch) = cpriv"
  "mgCryptoKeyPriv (newManager pubKey privKey ck cpriv cscript sync birthday salt scoped watch) = Some zeroKey"
  "mgCryptoKeyScript (newManager pubKey privKey ck cpriv cscript sync birthday salt scoped watch) = Some zeroKey"
  by (simp_all add: newManager_def)

lemma openMaster_stored:
  assumes "snacl_ok E" "params_ok (skParameters sk)"
  shows "opens E (skParameters sk) pw key \<Longrightarrow> openMaster E (Marshal sk) pw = Inr \<lparr>skKey = Some key, skParameters = skParameters sk\<rparr>"
    and "\<nexists>key. opens E (skParameters sk) pw key \<Longrightarrow> openMaster E (Marshal sk) pw = Inl (managerError ErrWrongPassphrase)"
proof -
  let ?sk = "\<lparr>skKey = Some zeroKey, skParameters = skParameters sk\<rparr>"
  note u = unmarshalKey_stored[OF assms(2)]
  show "openMaster E (Marshal sk) pw = Inr \<lparr>skKey = Some key, skParameters = skParameters sk\<rparr>"
    if "opens E (skParameters sk) pw key"
    using DeriveKey_opens[OF assms(1), of ?sk zeroKey pw key] that by (simp add: openMaster_def u)
  show "openMaster E (Marshal sk) pw = Inl (managerError ErrWrongPassphrase)"
    if "\<nexists>key. opens E (skParameters sk) pw key"
    using DeriveKey_wrong[OF assms(1), of ?sk zeroKey pw] that by (auto simp: openMaster_def u)
qed

text \<open>What is left of \<open>Open\<close> once the database has been read.\<close>

definition openWith :: "('k, 'a, 'm) hdEnv_scheme \<Rightarrow> mgrStore \<Rightarrow> bytes \<Rightarrow> bytes \<Rightarrow> syncState \<Rightarrow> gotime \<Rightarrow> bytes
    \<Rightarrow> (keyScope \<times> 'k scopedKeyManager) list \<Rightarrow> bool \<Rightarrow> secretKey \<Rightarrow> bytes \<Rightarrow> ('k, 'a) manager mres" where
  "openWith E ns pubParams pubEnc sync birthday salt scoped watch mkPriv pw =
     bindE (openMaster E pubParams pw) (\<lambda>masterKeyPub.
     bindE (masterDecrypt E masterKeyPub pubEnc) (\<lambda>cryptoKeyPubCT.
     Inr (newManager masterKeyPub mkPriv (copyInto zeroKey cryptoKeyPubCT) (orNil (mainAt ns cryptoPrivKeyName))
       (orNil (mainAt ns cryptoScriptKeyName)) sync birthday salt scoped watch)))"

lemma Open_reads:
  assumes "mgrMain ns \<noteq> None" "mainAt ns mgrVersionName = Some (uint32ToBytes latestMgrVersion)"
    and "mainAt ns watchingOnlyName = Some [if watch then 1 else 0]" "mainAt ns masterPubKeyName = Some pubParams"
    and "mainAt ns cryptoPubKeyName = Some pubEnc" "fetchSyncedTo ns = Inr synced" "FetchStartBlock ns = Inr start"
    and "fetchBirthday ns = Inr birthday" "readSalt E j = Inr salt" "loadScopes ns = Inr scoped"
    and "if watch then mkPriv = emptySecretKey else unmarshalKey (orNil (mainAt ns masterPrivKeyName)) = Inr mkPriv"
  shows "Open E j ns pw = openWith E ns pubParams pubEnc (newSyncState start synced) birthday salt scoped watch mkPriv pw"
proof -
  note r = requiredMain_at[OF assms(1)] getMain_ok[OF assms(1)]
  have v: "failing ErrDatabase_mgr (fetchManagerVersion ns) = Inr latestMgrVersion"
    by (simp add: fetchManagerVersion_def r assms(2))
  have w: "fetchWatchingOnly ns = Inr watch" by (simp add: fetchWatchingOnly_def r assms(3))
  have p: "fetchMasterKeyParams ns = Inr (pubParams, mainAt ns masterPrivKeyName)"
    by (simp add: fetchMasterKeyParams_def r assms(4))
  have k: "fetchCryptoKeys ns = Inr (pubEnc, mainAt ns cryptoPrivKeyName, mainAt ns cryptoScriptKeyName)"
    by (simp add: fetchCryptoKeys_def r assms(5))
  have m: "(if watch then Inr emptySecretKey else unmarshalKey (orNil (mainAt ns masterPrivKeyName))) = Inr mkPriv"
    using assms(11) by simp
  have "checkVersion latestMgrVersion = Inr ()" by (simp add: checkVersion_def)
  moreover have "managerExists (Some ns)" using assms(1) by (simp add: managerExists_def)
  ultimately show ?thesis
    by (simp add: Open_def loadManager_def v w p k m assms(6-10) openWith_def del: bindE_eq_Inr)
qed

lemma Open_created:
  assumes "snacl_ok E" "Create E k ns root pub pass genesis config birthday = Inr ns'"
  shows "\<exists>m. Open E j ns' pub = Inr m \<and> IsLocked m \<and> (WatchOnly m \<longleftrightarrow> root = None)
    \<and> SyncedTo (mgSyncState m) = \<lparr>stampHeight = 0, stampHash = fst genesis,
         stampTime = fromUnix (uint (word_of_int (unixSec (snd genesis)) :: u32))\<rparr>
    \<and> mgBirthday m = wordTime (timeWord (birthday - 172800 * 1000000000))
    \<and> map_of (mgScoped m) = (\<lambda>sc. map_option (freshScoped sc) (map_of (if root = None then [] else ScopeAddrMap) sc))
    \<and> distinct (map fst (mgScoped m))
    \<and> (\<forall>pw. (\<nexists>key. opens E (skParameters (mgMasterKeyPub m)) pw key) \<longrightarrow> Open E j ns' pw = Inl (managerError ErrWrongPassphrase))
    \<and> (\<forall>r. root = Some r \<longrightarrow> (\<exists>sk ck hdk. master_ready m sk \<and> guarded E (skParameters sk) (mgCryptoKeyPrivEncrypted m) pass ck
         \<and> mainAt ns' masterHDPrivName = Some hdk \<and> decryptWith E (Some ck) hdk = Inr (keyString E r)))"
proof -
  let ?c = "case config of None \<Rightarrow> DefaultScryptOptions | Some c \<Rightarrow> c"
    and ?scopes = "if root = None then [] else ScopeAddrMap"
  note c = Create_effect[OF assms(2)]
  obtain mk ck cpub where mk: "newSecretKey E k pub ?c = Inr mk" "newCryptoKey E (k + 1) = Inr ck"
      "masterEncrypt E mk ck = Inr cpub" "mainAt ns' masterPubKeyName = Some (Marshal mk)" "mainAt ns' cryptoPubKeyName = Some cpub"
    using c(6) by blast
  obtain key where key: "skKey mk = Some key" "opens E (skParameters mk) pub key" "params_ok (skParameters mk)"
    using newSecretKey_opens[OF assms(1) mk(1)] by blast
  obtain salt where salt: "readSalt E j = Inr salt" using snacl_okD(3)[OF assms(1), of j] by (auto simp: readSalt_def)
  let ?S = "fst ` set ?scopes" and ?schema = "\<lambda>sc. the (map_of ?scopes sc)"
  have at: "schemaAt ns' sc = Some (scopeSchemaToBytes (?schema sc))" if "sc \<in> ?S" for sc
    using that c(9)[of sc] by (metis domD dom_map_of_conv_image_fst option.map(2) option.sel)
  obtain sms :: "(keyScope \<times> 'a scopedKeyManager) list" where sms: "loadScopes ns' = Inr sms" "distinct (map fst sms)"
      "map_of sms = (\<lambda>sc. if sc \<in> ?S then Some (freshScoped sc (?schema sc)) else None)"
    using loadScopes_spec[OF c(8) at] by blast
  have sms': "map_of sms = (\<lambda>sc. map_option (freshScoped sc) (map_of ?scopes sc))"
  proof
    fix sc
    have "sc \<in> ?S \<longleftrightarrow> map_of ?scopes sc \<noteq> None" by (simp only: map_of_eq_None_iff not_not)
    then show "map_of sms sc = map_option (freshScoped sc) (map_of ?scopes sc)"
      unfolding sms(3) by (cases "map_of ?scopes sc") simp_all
  qed
  let ?sync = "newSyncState \<lparr>stampHeight = 0, stampHash = fst genesis, stampTime = zeroTime\<rparr>
        \<lparr>stampHeight = 0, stampHash = fst genesis, stampTime = fromUnix (uint (word_of_int (unixSec (snd genesis)) :: u32))\<rparr>"
  let ?load = "\<lambda>pw mkPriv. openWith E ns' (Marshal mk) cpub ?sync
       (wordTime (timeWord (birthday - 172800 * 1000000000))) salt sms (root = None) mkPriv pw"
  note reads = Open_reads[OF c(3,4,5) mk(4,5) c(10,11,12) salt sms(1)]
  obtain mkPriv where load: "\<And>pw. Open E j ns' pw = ?load pw mkPriv"
    and priv: "\<And>r. root = Some r \<Longrightarrow> \<exists>ck hdk old. skKey mkPriv = Some old \<and> length old = 32
      \<and> guarded E (skParameters mkPriv) (orNil (mainAt ns' cryptoPrivKeyName)) pass ck
      \<and> mainAt ns' masterHDPrivName = Some hdk \<and> decryptWith E (Some ck) hdk = Inr (keyString E r)"
  proof (cases root)
    case None
    then have "Open E j ns' pw = ?load pw emptySecretKey" for pw by (intro reads) simp
    then show thesis using that[of emptySecretKey] None by blast
  next
    case (Some r)
    obtain mkp ckp cpriv chd where st: "newSecretKey E (k + 2) pass ?c = Inr mkp" "newCryptoKey E (k + 2 + 2) = Inr ckp"
        "mainAt ns' masterPrivKeyName = Some (Marshal mkp)" "masterEncrypt E mkp ckp = Inr cpriv"
        "mainAt ns' cryptoPrivKeyName = Some cpriv" "encryptWith E (Some ckp) (keyString E r) = Inr chd"
        "mainAt ns' masterHDPrivName = Some chd"
      using c(7)[OF Some] unfolding stored_private_def by blast
    obtain kp where kp: "skKey mkp = Some kp" "opens E (skParameters mkp) pass kp" "params_ok (skParameters mkp)"
      using newSecretKey_opens[OF assms(1) st(1)] by blast
    let ?sk = "\<lparr>skKey = Some zeroKey, skParameters = skParameters mkp\<rparr>"
    have "Open E j ns' pw = ?load pw ?sk" for pw
      by (rule reads) (simp add: Some st(3) unmarshalKey_stored[OF kp(3)])
    moreover have "guarded E (skParameters mkp) cpriv pass ckp"
    proof -
      have "CryptoKey_Decrypt E kp cpriv = Inr ckp"
        using st(4) kp(1) Decrypt_Encrypt[OF assms(1)] by (auto simp: masterEncrypt_def SecretKey_Encrypt_def split: sum.splits)
      moreover have "length ckp = 32"
        using st(2) snacl_okD(3)[OF assms(1), of "k + 2 + 2"] by (auto simp: newCryptoKey_def GenerateCryptoKey_def)
      ultimately show ?thesis unfolding guarded_def using kp(2) by blast
    qed
    moreover have "decryptWith E (Some ckp) chd = Inr (keyString E r)"
      using encryptWith_ok[OF assms(1), of ckp "keyString E r"] st(6) by auto
    ultimately show thesis using that[of ?sk] st(5,7) Some by auto
  qed
  let ?pub = "\<lparr>skKey = Some key, skParameters = skParameters mk\<rparr>"
  have om: "openMaster E (Marshal mk) pub = Inr ?pub" "masterDecrypt E ?pub cpub = Inr ck"
    using openMaster_stored(1)[OF assms(1) key(3,2)] master_round[OF assms(1) mk(3), of ?pub] key(1) by simp_all
  let ?m = "newManager ?pub mkPriv (copyInto zeroKey ck) (orNil (mainAt ns' cryptoPrivKeyName))
       (orNil (mainAt ns' cryptoScriptKeyName)) ?sync (wordTime (timeWord (birthday - 172800 * 1000000000))) salt sms (root = None)"
  have "Open E j ns' pub = Inr ?m" by (simp add: load openWith_def om)
  moreover have "Open E j ns' pw = Inl (managerError ErrWrongPassphrase)" if "\<nexists>key. opens E (skParameters mk) pw key" for pw
    using openMaster_stored(2)[OF assms(1) key(3) that] by (simp add: load openWith_def)
  moreover have "\<exists>sk ck hdk. master_ready ?m sk \<and> guarded E (skParameters sk) (mgCryptoKeyPrivEncrypted ?m) pass ck
      \<and> mainAt ns' masterHDPrivName = Some hdk \<and> decryptWith E (Some ck) hdk = Inr (keyString E r)" if "root = Some r" for r
    using priv[OF that] by (simp add: master_ready_def) blast
  ultimately show ?thesis
    using key(3) sms(2) sms'
    by (intro exI[of _ ?m]) (auto simp: IsLocked_def WatchOnly_def SyncedTo_def newSyncState_def)
qed

text \<open>
  C22: a manager that \<open>Create\<close> has made opens under its public passphrase, locked and synced to the genesis
  block, with a birthday two days before the one given and with the default scopes, or with none and
  watching only when there was no root key; a passphrase that does not open its public master key is
  answered with \<open>ErrWrongPassphrase\<close>.
\<close>

theorem Create_Open:
  assumes "snacl_ok E" "Create E k ns root pub pass genesis config birthday = Inr ns'"
  shows "\<exists>m. Open E j ns' pub = Inr m \<and> IsLocked m \<and> (WatchOnly m \<longleftrightarrow> root = None)
    \<and> SyncedTo (mgSyncState m) = \<lparr>stampHeight = 0, stampHash = fst genesis,
         stampTime = fromUnix (uint (word_of_int (unixSec (snd genesis)) :: u32))\<rparr>
    \<and> mgBirthday m = wordTime (timeWord (birthday - 172800 * 1000000000))
    \<and> (\<forall>sc. map_of (mgScoped m) sc = map_option (freshScoped sc) (map_of (if root = None then [] else ScopeAddrMap) sc))
    \<and> (\<forall>pw. (\<nexists>key. opens E (skParameters (mgMasterKeyPub m)) pw key)
         \<longrightarrow> Open E j ns' pw = Inl (managerError ErrWrongPassphrase))"
  using Open_created[OF assms, of j] by (auto simp: fun_eq_iff)

lemma scopes_open_fresh:
  assumes "distinct (map fst (mgScoped m))" "\<And>sc s. map_of (mgScoped m) sc = Some s \<Longrightarrow> \<exists>schema. s = freshScoped sc schema"
  shows "scopes_open E ck kf m"
  using assms by (fastforce simp: scopes_open_def scope_opens_def freshScoped_def)

text \<open>
  C6: the private passphrase of a created manager unlocks it, and then the root key that was given to
  \<open>Create\<close> is read back from the database; a passphrase that does not open the private master key is an
  error that leaves the manager locked and clear of keys.
\<close>

theorem Create_Unlock:
  assumes "snacl_ok E" "Create E k ns (Some r) pub pass genesis config birthday = Inr ns'"
    and "Open E j ns' pub = Inr m" "newKey E (keyString E r) = Some r"
  shows "(\<exists>m'. Unlock E ns' pass m = (Inr (), m') \<and> \<not> IsLocked m' \<and> fetchRootKey E m' ns' = Inr r)
    \<and> (\<exists>sk. mgMasterKeyPriv m = Some sk \<and> (\<forall>pw. (\<nexists>key. opens E (skParameters sk) pw key) \<longrightarrow>
         (\<exists>e m'. Unlock E ns' pw m = (Inl e, m') \<and> e \<in> {managerError ErrWrongPassphrase, managerError ErrCrypto}
           \<and> locked_clear m')))"
proof -
  note c = Open_created[OF assms(1,2), of j]
  from c assms(3) have m: "IsLocked m" "\<not> WatchOnly m" "distinct (map fst (mgScoped m))"
      "map_of (mgScoped m) = (\<lambda>sc. map_option (freshScoped sc) (map_of ScopeAddrMap sc))" by auto
  from c assms(3) obtain sk ck hdk where sk: "master_ready m sk"
      "guarded E (skParameters sk) (mgCryptoKeyPrivEncrypted m) pass ck"
      "mainAt ns' masterHDPrivName = Some hdk" "decryptWith E (Some ck) hdk = Inr (keyString E r)" by auto
  obtain key where key: "opens E (skParameters sk) pass key" "CryptoKey_Decrypt E key (mgCryptoKeyPrivEncrypted m) = Inr ck"
      "length ck = 32" using sk(2) by (auto simp: guarded_def)
  let ?kf = "\<lambda>i. the (acctKeyPriv i)" and ?m = "unlockedWith E sk key pass ck (\<lambda>i. the (acctKeyPriv i)) m"
  have "scopes_open E ck ?kf m" by (rule scopes_open_fresh[OF m(3)]) (auto simp: m(4))
  from Unlock_run[OF assms(1) m(2,1) sk(1) key this]
  have u: "Unlock E ns' pass m = (Inr (), ?m)" .
  have "fetchMasterHDKeys ns' = Inr (Some hdk, mainAt ns' masterHDPubName)"
    using getMain_ok[OF Create_effect(3)[OF assms(2)]] by (simp add: fetchMasterHDKeys_def sk(3))
  then have "fetchRootKey E ?m ns' = Inr r"
    by (simp add: fetchRootKey_def unlockedWith_def IsLocked_def sk(4) assms(4))
  moreover have "\<not> IsLocked ?m" by (simp add: unlockedWith_def IsLocked_def)
  moreover have "\<exists>e m'. Unlock E ns' pw m = (Inl e, m') \<and> e \<in> {managerError ErrWrongPassphrase, managerError ErrCrypto}
      \<and> locked_clear m'" if "\<nexists>key. opens E (skParameters sk) pw key" for pw
    using Unlock_wrong[OF assms(1) m(2,1) sk(1) that, of ns'] by auto
  ultimately show ?thesis using u master_readyD(1)[OF sk(1)] by blast
qed

section \<open>Locking and unlocking\<close>

text \<open>The manager holds the private keys that are stored encrypted under \<open>ck\<close>.\<close>

definition holds_keys :: "('k, 'a, 'm) hdEnv_scheme \<Rightarrow> bytes \<Rightarrow> ('k, 'a) manager \<Rightarrow> bool" where
  "holds_keys E ck m \<longleftrightarrow> mgCryptoKeyPriv m = Some ck \<and> distinct (map fst (mgScoped m))
     \<and> (\<forall>(sc, s) \<in> set (mgScoped m). distinct (map fst (smAcctInfo s)) \<and> smDeriveOnUnlock s = []
         \<and> (\<forall>(a, i) \<in> set (smAcctInfo s). \<exists>key. acctKeyPriv i = Some key
              \<and> decryptKey E (Some ck) (acctKeyEncrypted i) = Inr key))"

definition storedKey :: "('k, 'a, 'm) hdEnv_scheme \<Rightarrow> bytes \<Rightarrow> 'k accountInfo \<Rightarrow> 'k" where
  "storedKey E ck i = projr (decryptKey E (Some ck) (acctKeyEncrypted i))"

lemma decryptKey_Inr: "decryptKey E ck x = Inr key \<longleftrightarrow> (\<exists>p. decryptWith E ck x = Inr p \<and> newKey E p = Some key)"
  by (auto simp: decryptKey_def split: option.splits)

lemma holds_keysD:
  assumes "holds_keys E ck m" "(sc, s) \<in> set (mgScoped m)"
  shows "distinct (map fst (smAcctInfo s))" "smDeriveOnUnlock s = []"
    "(a, i) \<in> set (smAcctInfo s) \<Longrightarrow> acctKeyPriv i = Some (storedKey E ck i) \<and> decryptKey E (Some ck) (acctKeyEncrypted i) = Inr (storedKey E ck i)"
  using assms by (fastforce simp: holds_keys_def storedKey_def)+

lemma scope_opens_locked:
  assumes "holds_keys E ck m" "(sc, s) \<in> set (mgScoped m)"
  shows "scope_opens E ck (storedKey E ck) (lockScoped s)"
proof -
  note h = holds_keysD[OF assms]
  have "account_opens E ck (storedKey E ck) (i\<lparr>acctKeyPriv := None\<rparr>)" if "(a, i) \<in> set (smAcctInfo s)" for a i
    using h(3)[OF that] by (simp add: account_opens_def decryptKey_Inr storedKey_def)
  then show ?thesis using h(1,2) by (auto simp: scope_opens_def lockScoped_def split_def comp_def)
qed

lemma holds_keys_locked: "holds_keys E ck m \<Longrightarrow> scopes_open E ck (storedKey E ck) (mapScoped lockScoped m)"
  using scope_opens_locked[of E ck m] by (auto simp: scopes_open_def mapScoped_def split_def comp_def holds_keys_def)

lemma restore_locked:
  assumes "holds_keys E ck m" "(sc, s) \<in> set (mgScoped m)"
  shows "restoreScoped (storedKey E ck) (lockScoped s) = s"
proof -
  have "(a, restoreAccount (storedKey E ck) (i\<lparr>acctKeyPriv := None\<rparr>)) = (a, i)" if "(a, i) \<in> set (smAcctInfo s)" for a i
    using holds_keysD(3)[OF assms that] by (simp add: restoreAccount_def storedKey_def)
  then have "map (\<lambda>(a, i). (a, restoreAccount (storedKey E ck) i)) (map (\<lambda>(a, i). (a, i\<lparr>acctKeyPriv := None\<rparr>)) (smAcctInfo s))
      = smAcctInfo s" unfolding map_map by (intro map_idI) auto
  then show ?thesis by (simp add: restoreScoped_def lockScoped_def)
qed

text \<open>
  C8: for an unlocked manager that is not watching only, whose master key is set up, which holds the private
  key of every account its scopes cache (none waiting to be derived), and whose crypto key is guarded by the
  passphrase, under the documented behaviour of the encryption: \<open>Lock\<close> zeroes the crypto keys, the master key
  and the hash of the passphrase and clears the private keys of the cached accounts, the clear text keys of the
  cached public key addresses and the clear text scripts that are not witness programs, and \<open>Unlock\<close> with
  the passphrase then restores the crypto key and the same private key in every cached account of every
  scope, while the addresses stay as \<open>Lock\<close> left them.  \<open>Lock\<close> does not touch the witness and taproot scripts,
  the addresses that no scope caches or the cache of derived private keys.
\<close>

theorem Lock_Unlock:
  assumes "snacl_ok E" "\<not> WatchOnly m" "\<not> IsLocked m" "master_ready m sk" "holds_keys E ck m"
    and "guarded E (skParameters sk) (mgCryptoKeyPrivEncrypted m) pw ck"
  shows "\<exists>m1 m2. Lock m = (Inr (), m1) \<and> locked_clear m1 \<and> lock_leaves m m1
    \<and> Unlock E ns pw m1 = (Inr (), m2) \<and> \<not> IsLocked m2 \<and> mgScoped m2 = mgScoped m
    \<and> mgCryptoKeyPriv m2 = mgCryptoKeyPriv m \<and> mgHeap m2 = mgHeap m1"
proof -
  obtain key where key: "opens E (skParameters sk) pw key" "CryptoKey_Decrypt E key (mgCryptoKeyPrivEncrypted m) = Inr ck"
      "length ck = 32" using assms(6) by (auto simp: guarded_def)
  note h = master_readyD[OF assms(4)]
  let ?m = "lockState m" and ?sk = "SecretKey_Zero sk"
  have l: "Lock m = (Inr (), ?m)"
    using assms(2,3) lock_run[OF h(4)] by (simp add: Lock_def mop_simps)
  have e: "mgCryptoKeyPrivEncrypted ?m = mgCryptoKeyPrivEncrypted m" "WatchOnly ?m = WatchOnly m" "IsLocked ?m"
      "mgScoped ?m = mgScoped (mapScoped lockScoped m)" "skParameters ?sk = skParameters sk"
    by (simp_all add: lockState_def lockKeys_def mapCached_def mapScoped_def WatchOnly_def IsLocked_def SecretKey_Zero_def)
  have r: "master_ready ?m ?sk" using h(1,2)
    by (auto simp: master_ready_def lockState_def lockKeys_def mapCached_def mapScoped_def SecretKey_Zero_def)
  have so: "scopes_open E ck (storedKey E ck) ?m"
    using holds_keys_locked[OF assms(5)] by (simp add: scopes_open_def e(4))
  let ?m2 = "unlockedWith E ?sk key pw ck (storedKey E ck) ?m"
  have "Unlock E ns pw ?m = (Inr (), ?m2)"
    by (rule Unlock_run[OF assms(1) _ e(3) r _ _ key(3) so]) (use assms(2) key e in simp_all)
  moreover have "mgScoped ?m2 = mgScoped m"
    using restore_locked[OF assms(5)] by (auto simp: unlockedWith_def mapScoped_def e(4) intro!: map_idI)
  moreover have "mgCryptoKeyPriv ?m2 = mgCryptoKeyPriv m" "\<not> IsLocked ?m2" "mgHeap ?m2 = mgHeap ?m"
    using assms(5) by (simp_all add: unlockedWith_def IsLocked_def holds_keys_def mapScoped_def)
  ultimately show ?thesis using l lockState_clear[OF h(4)] lockState_leaves[of m] by blast
qed

section \<open>Changing the private passphrase\<close>

lemma checkPassphrase_run:
  assumes "snacl_ok E"
  shows "opens E params old key \<Longrightarrow> checkPassphrase E params old = Inr \<lparr>skKey = Some key, skParameters = params\<rparr>"
    and "\<nexists>key. opens E params old key \<Longrightarrow> \<exists>e. checkPassphrase E params old = Inl e"
proof -
  let ?sk = "\<lparr>skKey = Some zeroKey, skParameters = params\<rparr>"
  show "checkPassphrase E params old = Inr \<lparr>skKey = Some key, skParameters = params\<rparr>" if "opens E params old key"
    using DeriveKey_opens[OF assms, of ?sk zeroKey old key] that by (simp add: checkPassphrase_def)
  show "\<exists>e. checkPassphrase E params old = Inl e" if "\<nexists>key. opens E params old key"
    using DeriveKey_wrong[OF assms, of ?sk zeroKey old] that
    by (auto simp: checkPassphrase_def split: snaclErr.split)
qed

lemma masterEncrypt_ok:
  assumes "snacl_ok E" "skKey sk = Some key"
  shows "\<exists>c. masterEncrypt E sk x = Inr c \<and> CryptoKey_Decrypt E key c = Inr x \<and> length c = 40 + length x"
proof -
  obtain nonce where n: "nonceFor E key x = Some nonce" "length nonce = 24" using snacl_okD(2)[OF assms(1)] by blast
  let ?c = "nonce @ secretbox E nonce key x"
  have "masterEncrypt E sk x = Inr ?c" by (simp add: masterEncrypt_def SecretKey_Encrypt_def assms(2) CryptoKey_Encrypt_def n(1))
  moreover have "CryptoKey_Decrypt E key ?c = Inr x" by (simp add: CryptoKey_Decrypt_def n(2) snacl_okD(1)[OF assms(1)])
  moreover have "length ?c = 40 + length x" using n(2) snacl_okD(6)[OF assms(1)] by simp
  ultimately show ?thesis by blast
qed

lemma putMain_run: "mgr_db_ok E \<Longrightarrow> mgrMain ns = Some b \<Longrightarrow> putMain E k v ns = Inr (ns\<lparr>mgrMain := Some (bucketPut b k v)\<rparr>)"
  by (simp add: putMain_def mainBucket_def)

text \<open>The namespace after the private keys and parameters have been replaced.\<close>

lemma putPrivate_run:
  assumes "mgr_db_ok E" "mgrMain ns \<noteq> None"
  shows "\<exists>ns' ns''. putCryptoKeys E ns None (Some encPriv) (Some encScript) = Inr ns'
    \<and> putMasterKeyParams E ns' None (Some params) = Inr ns''
    \<and> mainAt ns'' masterPrivKeyName = Some params \<and> mainAt ns'' cryptoPrivKeyName = Some encPriv
    \<and> mainAt ns'' cryptoScriptKeyName = Some encScript"
proof -
  obtain b where b: "mgrMain ns = Some b" using assms(2) by blast
  have "masterPrivKeyName \<noteq> cryptoPrivKeyName" "masterPrivKeyName \<noteq> cryptoScriptKeyName" "cryptoPrivKeyName \<noteq> cryptoScriptKeyName"
    by (simp_all add: key_defs ascii_def)
  then show ?thesis
    by (simp add: putCryptoKeys_def putMasterKeyParams_def putMainOpt_def putMain_run[OF assms(1)] b mainAt_def bucketGet_upd)
qed

text \<open>
  C10: \<open>ChangePassphrase\<close> of the private passphrase.  An old passphrase that does not open the master key is
  refused and nothing changes.  Otherwise the new passphrase guards the same crypto key, in memory and in
  the database, and the manager stays locked or unlocked as it was, with all its keys.
\<close>

theorem ChangePassphrase_private:
  assumes "snacl_ok E" "mgr_db_ok E" "mgrMain ns \<noteq> None" "\<not> WatchOnly m" "master_ready m sk"
    and "newSecretKey E k new config = Inr mk"
    and "length (mgCryptoKeyPrivEncrypted m) = 72" "length (mgCryptoKeyScriptEncrypted m) = 72"
  shows "((\<nexists>key. opens E (skParameters sk) old key) \<longrightarrow> (\<exists>e. ChangePassphrase E k ns old new True config m = (Inl e, m)))
    \<and> (\<forall>key ck cs. opens E (skParameters sk) old key \<longrightarrow> CryptoKey_Decrypt E key (mgCryptoKeyPrivEncrypted m) = Inr ck \<longrightarrow>
        CryptoKey_Decrypt E key (mgCryptoKeyScriptEncrypted m) = Inr cs \<longrightarrow> length ck = 32 \<longrightarrow> length cs = 32 \<longrightarrow>
        (\<exists>ns' m' sk'. ChangePassphrase E k ns old new True config m = (Inr ns', m')
           \<and> master_ready m' sk' \<and> guarded E (skParameters sk') (mgCryptoKeyPrivEncrypted m') new ck
           \<and> guarded E (skParameters sk') (mgCryptoKeyScriptEncrypted m') new cs
           \<and> mainAt ns' masterPrivKeyName = Some (Marshal sk') \<and> mainAt ns' cryptoPrivKeyName = Some (mgCryptoKeyPrivEncrypted m')
           \<and> IsLocked m' = IsLocked m \<and> mgScoped m' = mgScoped m \<and> mgCryptoKeyPriv m' = mgCryptoKeyPriv m))"
proof (intro conjI allI impI)
  note h = master_readyD[OF assms(5)]
  have run: "ChangePassphrase E k ns old new True config m = (case checkPassphrase E (skParameters sk) old of
      Inl e \<Rightarrow> (Inl e, m)
    | Inr secretKey \<Rightarrow> changePrivate E (Suc k) ns secretKey mk new m)"
    using assms(4) by (auto simp: ChangePassphrase_def mop_simps h(1) assms(6) bindM_def split: sum.split)
  show "\<exists>e. ChangePassphrase E k ns old new True config m = (Inl e, m)" if "\<nexists>key. opens E (skParameters sk) old key"
    using checkPassphrase_run(2)[OF assms(1) that] run by auto
  fix key ck cs
  assume o: "opens E (skParameters sk) old key" "CryptoKey_Decrypt E key (mgCryptoKeyPrivEncrypted m) = Inr ck"
    "CryptoKey_Decrypt E key (mgCryptoKeyScriptEncrypted m) = Inr cs" "length ck = 32" "length cs = 32"
  let ?sk = "\<lparr>skKey = Some key, skParameters = skParameters sk\<rparr>"
  obtain nk where nk: "skKey mk = Some nk" "length nk = 32" "opens E (skParameters mk) new nk"
    using newSecretKey_opens[OF assms(1,6)] by blast
  obtain encPriv where ep: "masterEncrypt E mk ck = Inr encPriv" "CryptoKey_Decrypt E nk encPriv = Inr ck" "length encPriv = 72"
    using masterEncrypt_ok[OF assms(1) nk(1), of ck] o(4) by auto
  obtain encScript where es: "masterEncrypt E mk cs = Inr encScript" "CryptoKey_Decrypt E nk encScript = Inr cs" "length encScript = 72"
    using masterEncrypt_ok[OF assms(1) nk(1), of cs] o(5) by auto
  obtain salt where salt: "readSalt E (Suc k) = Inr salt" using snacl_okD(3)[OF assms(1), of "Suc k"] by (auto simp: readSalt_def)
  obtain ns1 ns2 where p: "putCryptoKeys E ns None (Some encPriv) (Some encScript) = Inr ns1"
      "putMasterKeyParams E ns1 None (Some (Marshal mk)) = Inr ns2" "mainAt ns2 masterPrivKeyName = Some (Marshal mk)"
      "mainAt ns2 cryptoPrivKeyName = Some encPriv"
    using putPrivate_run[OF assms(2,3)] by blast
  have d: "masterDecrypt E ?sk (mgCryptoKeyPrivEncrypted m) = Inr ck" "masterDecrypt E ?sk (mgCryptoKeyScriptEncrypted m) = Inr cs"
    by (simp_all add: masterDecrypt_def SecretKey_Decrypt_def o)
  let ?mk = "if IsLocked m then SecretKey_Zero mk else mk"
  let ?m = "m\<lparr>mgCryptoKeyPrivEncrypted := encPriv, mgCryptoKeyScriptEncrypted := encScript, mgMasterKeyPriv := Some ?mk,
      mgSalt := (if IsLocked m then salt else snd (saltedHash E salt new)),
      mgHashedPass := (if IsLocked m then zeroPass else fst (saltedHash E salt new))\<rparr>"
  have "changePrivate E (Suc k) ns ?sk mk new m = (Inr ns2, ?m)"
    using assms(7,8) by (simp add: changePrivate_def mop_simps salt d ep es p saltedHash_def Let_def convertM_def)
  then have "ChangePassphrase E k ns old new True config m = (Inr ns2, ?m)"
    using run checkPassphrase_run(1)[OF assms(1) o(1)] by simp
  moreover have "master_ready ?m ?mk" using assms(5) nk(1,2) by (auto simp: master_ready_def SecretKey_Zero_def)
  moreover have "skParameters ?mk = skParameters mk" "Marshal ?mk = Marshal mk" by (simp_all add: SecretKey_Zero_def Marshal_def)
  moreover have "guarded E (skParameters mk) encPriv new ck" "guarded E (skParameters mk) encScript new cs"
    using nk(3) ep(2) es(2) o(4,5) unfolding guarded_def by blast+
  ultimately show "\<exists>ns' m' sk'. ChangePassphrase E k ns old new True config m = (Inr ns', m')
           \<and> master_ready m' sk' \<and> guarded E (skParameters sk') (mgCryptoKeyPrivEncrypted m') new ck
           \<and> guarded E (skParameters sk') (mgCryptoKeyScriptEncrypted m') new cs
           \<and> mainAt ns' masterPrivKeyName = Some (Marshal sk') \<and> mainAt ns' cryptoPrivKeyName = Some (mgCryptoKeyPrivEncrypted m')
           \<and> IsLocked m' = IsLocked m \<and> mgScoped m' = mgScoped m \<and> mgCryptoKeyPriv m' = mgCryptoKeyPriv m"
    using p(3,4) by (intro exI[of _ ns2] exI[of _ ?m] exI[of _ ?mk]) (simp add: IsLocked_def)
qed

section \<open>The empty passphrase\<close>

text \<open>
  The salt is zeroed by the first \<open>Unlock\<close> with the empty passphrase, so that the second one takes the
  passphrase for a wrong one and locks the manager.
\<close>

lemma Unlock_empty_twice:
  assumes "snacl_ok E" "\<not> WatchOnly m" "IsLocked m" "master_ready m sk" "scopes_open E ck kf m" "length ck = 32"
    and "opens E (skParameters sk) [] key" "CryptoKey_Decrypt E key (mgCryptoKeyPrivEncrypted m) = Inr ck"
    and "sha512 E (mgSalt m) \<noteq> sha512 E (replicate (length (mgSalt m)) 0)"
  shows "\<exists>m1 m2. Unlock E ns [] m = (Inr (), m1) \<and> \<not> IsLocked m1
    \<and> Unlock E ns [] m1 = (Inl (managerError ErrWrongPassphrase), m2) \<and> IsLocked m2"
proof -
  let ?m1 = "unlockedWith E sk key [] ck kf m"
  have u: "Unlock E ns [] m = (Inr (), ?m1)" by (rule Unlock_run[OF assms(1-4,7,8,6,5)])
  have s: "mgSalt ?m1 = replicate (length (mgSalt m)) 0" "mgHashedPass ?m1 = sha512 E (mgSalt m)" "\<not> IsLocked ?m1" "\<not> WatchOnly ?m1"
    using assms(2) by (simp_all add: unlockedWith_def saltedHash_def IsLocked_def WatchOnly_def mapScoped_def)
  let ?m = "?m1\<lparr>mgSalt := replicate (length (mgSalt m)) 0\<rparr>"
  have h: "hasPrivateKeys ?m"
    using assms(4) by (auto simp: master_ready_def hasPrivateKeys_def unlockedWith_def mapScoped_def)
  have "Unlock E ns [] ?m1 = (Inl (managerError ErrWrongPassphrase), lockState ?m)"
    using assms(9)[symmetric] s by (simp add: Unlock_def mop_simps saltedHash_def lock_run[OF h])
  moreover have "IsLocked (lockState ?m)" using lockState_clear[OF h] by (simp add: locked_clear_def)
  ultimately show ?thesis using u s(3) by blast
qed

end
