(* ===== verification/Mgr_Creates.thy ===== *)
theory Mgr_Creates
  imports Mgr_Passphrase
begin

text \<open>
  \<open>Create\<close> returns: over a database that takes its writes, libraries that keep their contract and a root
  key from which the keys of the default scopes derive, no step of it fails.
\<close>

section \<open>Steps that return\<close>

lemma encryptWith_runs:
  assumes "snacl_ok E" shows "\<exists>c. encryptWith E (Some ck) x = Inr c \<and> length c = length x + 40"
proof -
  obtain nonce where "nonceFor E ck x = Some nonce" "length nonce = 24" using snacl_okD(2)[OF assms] by blast
  then show ?thesis by (simp add: encryptWith_def CryptoKey_Encrypt_def snacl_okD(6)[OF assms])
qed

lemma masterEncrypt_runs:
  assumes "snacl_ok E" "skKey sk = Some key" shows "\<exists>c. masterEncrypt E sk x = Inr c"
  using Encrypt_ok[OF assms(1), of key x] by (auto simp: masterEncrypt_def SecretKey_Encrypt_def assms(2))

lemma random_runs: "snacl_ok E \<Longrightarrow> \<exists>key. newCryptoKey E k = Inr key" "snacl_ok E \<Longrightarrow> \<exists>salt. readSalt E k = Inr salt"
  using snacl_okD(3)[of E k] by (auto simp: newCryptoKey_def GenerateCryptoKey_def readSalt_def)

lemma putMain_runs:
  assumes "mgr_db_ok E" "mgrMain ns \<noteq> None"
  shows "\<exists>ns'. putMain E k v ns = Inr ns' \<and> mgrMain ns' \<noteq> None \<and> mgrSync ns' = mgrSync ns \<and> mgrScopes ns' = mgrScopes ns"
  using assms by (auto simp: putMain_def mainBucket_def)

lemma putMainOpt_runs:
  assumes "mgr_db_ok E" "mgrMain ns \<noteq> None"
  shows "\<exists>ns'. putMainOpt E k v ns = Inr ns' \<and> mgrMain ns' \<noteq> None \<and> mgrSync ns' = mgrSync ns \<and> mgrScopes ns' = mgrScopes ns"
  using putMain_runs[OF assms] assms(2) by (cases v) (simp_all add: putMainOpt_def)

lemma scopeAt_known: "scopeAt ns sc \<noteq> None \<longleftrightarrow> (\<exists>S. scopeKeys ns = Some S \<and> scopeToBytes sc \<in> S)"
  by (cases "mgrScopes ns") (simp_all add: scopeKeys_def scopeAt_def map_of_eq_None_iff flip: not_None_eq)

lemma scope_known: "scope_only ns ns' \<Longrightarrow> scopeAt ns sc \<noteq> None \<Longrightarrow> scopeAt ns' sc \<noteq> None"
  unfolding scopeAt_known by (simp add: scope_only_def)

lemma putDefaultAccountInfo_runs:
  assumes "mgr_db_ok E" "scopeAt ns sc \<noteq> None" "25 + length pub + length priv + length name < 2 ^ 32"
  shows "\<exists>ns'. putDefaultAccountInfo E ns sc a pub priv e i name = Inr ns' \<and> scope_only ns ns'"
proof -
  have "\<exists>ns'. putDefaultAccountInfo E ns sc a pub priv e i name = Inr ns'"
    using assms by (auto simp: putDefaultAccountInfo_def serializeDefaultAccountRow_eq account_ok_made putAccountInfo_def putAccountRow_def
        putAccountIDIndex_def putAccountNameIndex_def Let_def putScope_ok scopeAt_set)
  then show ?thesis using scope_only_putDefaultAccountInfo by blast
qed

lemma putCoinTypeKeys_runs:
  assumes "mgr_db_ok E" "scopeAt ns sc \<noteq> None"
  shows "\<exists>ns'. putCoinTypeKeys E ns sc (Some pub) (Some priv) = Inr ns' \<and> scope_only ns ns'"
proof -
  have "\<exists>ns'. putCoinTypeKeys E ns sc (Some pub) (Some priv) = Inr ns'"
    using assms by (auto simp: putCoinTypeKeys_def putScopeKey_def putScope_ok scopeAt_set fetchScope_at)
  then show ?thesis using scope_only_putCoinTypeKeys by blast
qed

section \<open>The keys of a scope\<close>

text \<open>The keys of the default account of a scope derive from the root key, and are of sane length.\<close>

definition scope_derives :: "('k, 'a, 'm) hdEnv_scheme \<Rightarrow> 'k \<Rightarrow> keyScope \<Rightarrow> bool" where
  "scope_derives E root sc \<longleftrightarrow> (\<exists>coin acct coinPub acctPub. deriveCoinTypeKey E root sc = Inr coin
     \<and> deriveAccountKey E coin 0 = Inr acct \<and> checkBranchKeys E acct = Inr ()
     \<and> neuter E coin = Some coinPub \<and> neuter E acct = Some acctPub
     \<and> length (keyString E acct) < 2 ^ 16 \<and> length (keyString E acctPub) < 2 ^ 16)"

lemma createManagerKeyScope_runs:
  assumes "snacl_ok E" "mgr_db_ok E" "scope_derives E root sc" "scopeAt ns sc \<noteq> None"
  shows "\<exists>ns'. createManagerKeyScope E ns sc root pub (Some priv) = Inr ns' \<and> scope_only ns ns'"
proof -
  obtain coin acct coinPub acctPub where d: "deriveCoinTypeKey E root sc = Inr coin" "deriveAccountKey E coin 0 = Inr acct"
    "checkBranchKeys E acct = Inr ()" "neuter E coin = Some coinPub" "neuter E acct = Some acctPub"
    "length (keyString E acct) < 2 ^ 16" "length (keyString E acctPub) < 2 ^ 16"
    using assms(3) unfolding scope_derives_def by blast
  note enc = encryptWith_runs[OF assms(1)]
  obtain c1 c2 c3 c4 where c: "encryptWith E (Some pub) (keyString E coinPub) = Inr c1"
      "encryptWith E (Some priv) (keyString E coin) = Inr c2"
      "encryptWith E (Some pub) (keyString E acctPub) = Inr c3" "length c3 = length (keyString E acctPub) + 40"
      "encryptWith E (Some priv) (keyString E acct) = Inr c4" "length c4 = length (keyString E acct) + 40"
    using enc[of pub "keyString E coinPub"] enc[of priv "keyString E coin"] enc[of pub "keyString E acctPub"]
      enc[of priv "keyString E acct"] by auto
  obtain n1 where n1: "putCoinTypeKeys E ns sc (Some c1) (Some c2) = Inr n1" "scope_only ns n1"
    using putCoinTypeKeys_runs[OF assms(2,4)] by blast
  have len: "25 + length c3 + length c4 + length defaultAccountName < 2 ^ 32" "25 + length [] + length [] + length ImportedAddrAccountName < 2 ^ 32"
    using c(4,6) d(6,7) by (simp_all add: defaultAccountName_def ImportedAddrAccountName_def ascii_def)
  obtain n2 where n2: "putDefaultAccountInfo E n1 sc DefaultAccountNum c3 c4 0 0 defaultAccountName = Inr n2" "scope_only n1 n2"
    using putDefaultAccountInfo_runs[OF assms(2) scope_known[OF n1(2) assms(4)] len(1)] by blast
  obtain n3 where n3: "putDefaultAccountInfo E n2 sc ImportedAddrAccount [] [] 0 0 ImportedAddrAccountName = Inr n3"
    using putDefaultAccountInfo_runs[OF assms(2) scope_known[OF scope_only_trans[OF n1(2) n2(2)] assms(4)] len(2)] by blast
  have "createManagerKeyScope E ns sc root pub (Some priv) = Inr n3"
    by (simp add: createManagerKeyScope_def d c n1(1) n2(1) n3 failing_def unusableSeed_def fromLib_def)
  then show ?thesis using scope_only_createManagerKeyScope[of E ns sc root pub "Some priv" n3] by simp
qed

lemma createScopes_keys_run:
  assumes "snacl_ok E" "mgr_db_ok E" "\<And>sc. sc \<in> set scs \<Longrightarrow> scope_derives E root sc \<and> scopeAt ns sc \<noteq> None"
  shows "\<exists>ns'. foldE (\<lambda>sc ns. convertE (createManagerKeyScope E ns sc root pub (Some priv))) scs ns = Inr ns' \<and> scope_only ns ns'"
  using assms(3)
proof (induction scs arbitrary: ns)
  case Nil
  then show ?case by (simp add: scope_only_refl)
next
  case (Cons sc scs)
  obtain n1 where n1: "createManagerKeyScope E ns sc root pub (Some priv) = Inr n1" "scope_only ns n1"
    using createManagerKeyScope_runs[OF assms(1,2)] Cons.prems by (meson list.set_intros(1))
  obtain ns' where "foldE (\<lambda>sc ns. convertE (createManagerKeyScope E ns sc root pub (Some priv))) scs n1 = Inr ns'" "scope_only n1 ns'"
    using Cons.IH[of n1] Cons.prems scope_known[OF n1(2)] by (meson list.set_intros(2))
  then show ?case using n1 scope_only_trans by (auto simp: convertE_def)
qed

section \<open>The namespace\<close>

lemma createScope_runs:
  assumes "mgr_db_ok E" "mgrSchema ns \<noteq> None" "scopeKeys ns = Some S" "scopeToBytes sc \<notin> S"
  shows "\<exists>ns'. createScope E (sc, schema) ns = Inr ns'"
proof -
  obtain b where b: "mgrSchema ns = Some b" using assms(2) by blast
  let ?n = "ns\<lparr>mgrSchema := Some (bucketPut b (scopeToBytes sc) (scopeSchemaToBytes schema))\<rparr>"
  obtain ss where ss: "mgrScopes ns = Some ss" "map_of ss (scopeToBytes sc) = None"
    using assms(3,4) by (auto simp: scopeKeys_def map_of_eq_None_iff)
  have "createScopedManagerNS E ?n sc = Inr (setScope sc emptyScope ?n)"
    using assms(1) ss by (simp add: createScopedManagerNS_def Let_def scopeRoot_def guardE_def)
  moreover have "scopeAt (setScope sc emptyScope ?n) sc = Some emptyScope"
    using ss by (simp add: setScope_def scopeAt_def map_of_upd_entry)
  ultimately show ?thesis
    using putLastAccount_effect(2)[OF assms(1)] by (simp add: createScope_def b Let_def assms(1))
qed

lemma createScopes_run:
  assumes "mgr_db_ok E" "mgrSchema ns \<noteq> None" "scopeKeys ns = Some S" "distinct (map fst xs)"
    and "\<forall>sc \<in> fst ` set xs. scopeToBytes sc \<notin> S"
  shows "\<exists>ns'. foldE (createScope E) xs ns = Inr ns'"
  using assms(2-)
proof (induction xs arbitrary: ns S)
  case (Cons x xs)
  obtain sc schema where x: "x = (sc, schema)" by (cases x)
  have "scopeToBytes sc \<notin> S" using Cons.prems(4) x by auto
  then obtain n1 where n1: "createScope E (sc, schema) ns = Inr n1"
    using createScope_runs[OF assms(1) Cons.prems(1,2)] by blast
  have "\<exists>ns'. foldE (createScope E) xs n1 = Inr ns'"
    using createScope_effect[OF n1] Cons.prems by (intro Cons.IH[of n1 "insert (scopeToBytes sc) S"]) (auto simp: x scopeToBytes_inj)
  then show ?case by (simp add: x n1)
qed simp

lemma createManagerNS_runs:
  assumes "mgr_db_ok E" "mgrMain ns = None" "mgrSync ns = None" "mgrScopes ns = None" "mgrSchema ns = None" "distinct (map fst xs)"
  shows "\<exists>ns'. createManagerNS E v ns xs = Inr ns'"
proof -
  let ?n = "ns\<lparr>mgrMain := Some bucketEmpty, mgrSync := Some bucketEmpty, mgrScopes := Some [], mgrSchema := Some bucketEmpty\<rparr>"
  obtain n1 where n1: "foldE (createScope E) xs ?n = Inr n1"
    using createScopes_run[OF assms(1), of ?n "{}" xs] assms(6) by (auto simp: scopeKeys_def)
  have "mgrMain n1 \<noteq> None" using createScopes_effect[OF n1] by simp
  then show ?thesis
    using assms(1-5) n1 putMain_runs[OF assms(1)] by (auto simp: createManagerNS_def createTop_def guardE_def putManagerVersion_def) metis
qed

section \<open>Create\<close>

lemma createKeys_runs:
  assumes "snacl_ok E" "mgr_db_ok E" "mgrMain ns \<noteq> None" "newSecretKey E k pass config = Inr mk" "neuter E root \<noteq> None"
    and "\<And>sc. sc \<in> set DefaultKeyScopes \<Longrightarrow> scope_derives E root sc \<and> scopeAt ns sc \<noteq> None"
  shows "\<exists>r. createKeys E k ns (Some root) pass config ckPub = Inr r"
proof -
  obtain rootPub where rp: "neuter E root = Some rootPub" using assms(5) by blast
  obtain key where key: "skKey mk = Some key" using newSecretKey_opens[OF assms(1,4)] by blast
  obtain salt ck cs where r: "readSalt E (k + 1) = Inr salt" "newCryptoKey E (k + 2) = Inr ck" "newCryptoKey E (k + 3) = Inr cs"
    using random_runs[OF assms(1)] by meson
  obtain e1 e2 where e: "masterEncrypt E mk ck = Inr e1" "masterEncrypt E mk cs = Inr e2"
    using masterEncrypt_runs[OF assms(1) key] by meson
  obtain c1 c2 where c: "encryptWith E (Some ck) (keyString E root) = Inr c1" "encryptWith E (Some ckPub) (keyString E rootPub) = Inr c2"
    using encryptWith_runs[OF assms(1)] by meson
  obtain n1 where n1: "foldE (\<lambda>sc ns. convertE (createManagerKeyScope E ns sc root ckPub (Some ck))) DefaultKeyScopes ns = Inr n1"
      "scope_only ns n1" using createScopes_keys_run[OF assms(1,2,6)] by blast
  then have "mgrMain n1 \<noteq> None" using assms(3) by (simp add: scope_only_def)
  then obtain n2 n3 where "putMainOpt E masterHDPrivName (Some c1) n1 = Inr n2" "putMainOpt E masterHDPubName (Some c2) n2 = Inr n3"
    using putMainOpt_runs[OF assms(2)] by meson
  then have "createPrivate E k ns root pass config ckPub = Inr (Marshal mk, e1, e2, n3)"
    using n1(1) by (simp add: createPrivate_def assms(4) rp r[simplified] e c putMasterHDKeys_def failing_def fromLib_def)
  then show ?thesis by (simp add: createKeys_def)
qed

lemma createSync_runs:
  assumes "mgr_db_ok E" "mgrSync ns = Some b" "stampHeight block = 0"
  shows "\<exists>ns'. createSync E ns block birthday = Inr ns'"
proof -
  have "PutSyncedTo E ns block = Inr (ns\<lparr>mgrSync := Some (syncWrite block b)\<rparr>)"
    by (rule PutSyncedTo_effect(2)[OF assms(2,1)]) (simp add: linked_def assms(3))
  then show ?thesis
    using assms(1) by (simp add: createSync_def newSyncState_def convertE_def putStartBlock_def putBirthday_def putSync_def syncBucket_def)
qed

lemma Create_runs:
  assumes "snacl_ok E" "mgr_db_ok E" "mgrMain ns = None" "mgrSync ns = None" "mgrScopes ns = None" "mgrSchema ns = None"
    and keys: "\<And>pw i. \<exists>mk. newSecretKey E i pw (case config of None \<Rightarrow> DefaultScryptOptions | Some c \<Rightarrow> c) = Inr mk"
    and pass: "pass \<noteq> []" and root: "neuter E root \<noteq> None" "\<And>sc. sc \<in> set DefaultKeyScopes \<Longrightarrow> scope_derives E root sc"
  shows "\<exists>ns'. Create E k ns (Some root) pub pass genesis config birthday = Inr ns'"
proof -
  let ?c = "case config of None \<Rightarrow> DefaultScryptOptions | Some c \<Rightarrow> c"
    and ?block = "\<lparr>stampHeight = 0, stampHash = fst genesis, stampTime = snd genesis\<rparr>"
  have d: "distinct (map fst ScopeAddrMap)" "fst ` set ScopeAddrMap = set DefaultKeyScopes"
    by (simp_all add: ScopeAddrMap_def DefaultKeyScopes_def KeyScopeBIP0049Plus_def KeyScopeBIP0084_def KeyScopeBIP0086_def KeyScopeBIP0044_def)
  obtain n1 where n1: "createManagerNS E latestMgrVersion ns ScopeAddrMap = Inr n1"
    using createManagerNS_runs[OF assms(2-6) d(1)] by blast
  note e1 = createManagerNS_effect[OF n1]
  obtain mk mp where mk: "newSecretKey E k pub ?c = Inr mk" "newSecretKey E (k + 2) pass ?c = Inr mp" using keys by meson
  obtain ck where ck: "newCryptoKey E (k + 1) = Inr ck" using random_runs(1)[OF assms(1)] by meson
  obtain key where "skKey mk = Some key" using newSecretKey_opens[OF assms(1) mk(1)] by blast
  then obtain cpub where cpub: "masterEncrypt E mk ck = Inr cpub" using masterEncrypt_runs[OF assms(1)] by meson
  have "scopeAt n1 sc \<noteq> None" if "sc \<in> set DefaultKeyScopes" for sc
    unfolding scopeAt_known using e1(6) that d(2) by (simp add: image_iff)
  then obtain pp cp cs n2 where n2: "createKeys E (k + 2) n1 (Some root) pass ?c ck = Inr (pp, cp, cs, n2)"
    using createKeys_runs[OF assms(1,2) e1(1) mk(2) root(1)] root(2) by (metis surj_pair)
  note e2 = createKeys_effect[OF n2 e1(1)]
  obtain n3 where n3: "putMasterKeyParams E n2 (Some (Marshal mk)) pp = Inr n3" "mgrMain n3 \<noteq> None" "mgrSync n3 = mgrSync n2"
    unfolding putMasterKeyParams_def
    using putMainOpt_runs[OF assms(2) e2(1)] putMainOpt_runs[OF assms(2)] by (metis bindE_simps(2))
  obtain n4 where n4: "putCryptoKeys E n3 (Some cpub) cp cs = Inr n4" "mgrMain n4 \<noteq> None" "mgrSync n4 = mgrSync n3"
    unfolding putCryptoKeys_def
    using putMainOpt_runs[OF assms(2) n3(2)] putMainOpt_runs[OF assms(2)] by (metis bindE_simps(2))
  obtain n5 where n5: "putWatchingOnly E n4 False = Inr n5" "mgrSync n5 = mgrSync n4"
    using putMain_runs[OF assms(2) n4(2)] by (auto simp: putWatchingOnly_def)
  have "mgrSync n5 = Some bucketEmpty" using n3(3) n4(3) n5(2) e2(2) e1(4) by simp
  then obtain ns' where "createSync E n5 ?block birthday = Inr ns'" using createSync_runs[OF assms(2), of n5 bucketEmpty ?block] by auto
  then have "Create E k ns (Some root) pub pass genesis config birthday = Inr ns'"
    using assms(3) pass by (simp add: Create_def Let_def managerExists_def n1 mk(1) ck[simplified] cpub n2[simplified] n3(1) n4(1) n5(1))
  then show ?thesis ..
qed

end
