(* ===== verification/Mgr_Next.thy ===== *)
theory Mgr_Next
  imports Mgr_Scoped
begin

text \<open>
  The next addresses of an account (\<open>waddrmgr/scoped_manager.go\<close>).  The search for the next valid child
  may not end, so its result is an option, \<open>None\<close> when the code does not return.  The closure that
  \<open>nextAddresses\<close> hands to \<open>OnCommit\<close> is the value \<open>addrCommit\<close>; \<open>onCommit\<close> runs it.
\<close>

section \<open>Children\<close>

partial_function (option) nextValid :: "('k, 'a, 'm) hdEnv_scheme \<Rightarrow> 'k \<Rightarrow> u32 \<Rightarrow> ('k \<times> u32) mres option" where
  "nextValid E branchKey nextIndex = (case deriveChild E branchKey nextIndex of
     Inr key \<Rightarrow> Some (Inr (key, nextIndex))
   | Inl DeriveFailed \<Rightarrow> Some (Inl (managerError ErrKeyChain))
   | Inl InvalidChild \<Rightarrow> nextValid E branchKey (nextIndex + 1))"

text \<open>\<open>makeAddr\<close> makes the managed address of a child from its key and index.\<close>

type_synonym ('k, 'a) makeAddr = "'k \<Rightarrow> u32 \<Rightarrow> 'a managedAddress mres"
type_synonym 'a children = "('a managedAddress \<times> u32) list \<times> u32"

definition thenE :: "'r mres option \<Rightarrow> ('r \<Rightarrow> 's mres option) \<Rightarrow> 's mres option" where
  "thenE x f = (case x of None \<Rightarrow> None | Some (Inl e) \<Rightarrow> Some (Inl e) | Some (Inr r) \<Rightarrow> f r)"

fun nextChildren :: "('k, 'a, 'm) hdEnv_scheme \<Rightarrow> ('k, 'a) makeAddr \<Rightarrow> 'k \<Rightarrow> nat \<Rightarrow> u32 \<Rightarrow> 'a children mres option" where
  "nextChildren E makeAddr branchKey 0 nextIndex = Some (Inr ([], nextIndex))"
| "nextChildren E makeAddr branchKey (Suc n) nextIndex =
     thenE (nextValid E branchKey nextIndex) (\<lambda>(key, index).
     thenE (Some (makeAddr key index)) (\<lambda>addr.
     thenE (nextChildren E makeAddr branchKey n (index + 1)) (\<lambda>(infos, nextIndex).
     Some (Inr ((addr, index) # infos, nextIndex)))))"

partial_function (option) extendChildren :: "('k, 'a, 'm) hdEnv_scheme \<Rightarrow> ('k, 'a) makeAddr \<Rightarrow> 'k \<Rightarrow> u32 \<Rightarrow> u32
    \<Rightarrow> 'a children mres option" where
  "extendChildren E makeAddr branchKey lastIndex nextIndex =
     (if lastIndex < nextIndex then Some (Inr ([], nextIndex))
      else (case nextValid E branchKey nextIndex of
          None \<Rightarrow> None
        | Some (Inl e) \<Rightarrow> Some (Inl e)
        | Some (Inr (key, index)) \<Rightarrow> (case makeAddr key index of
            Inl e \<Rightarrow> Some (Inl e)
          | Inr addr \<Rightarrow> Option.bind (extendChildren E makeAddr branchKey lastIndex (index + 1)) (\<lambda>r.
              Some (bindE r (\<lambda>(infos, nextIndex). Inr ((addr, index) # infos, nextIndex)))))))"

section \<open>The account, its keys and indexes\<close>

definition addrBranch :: "bool \<Rightarrow> u32" where
  "addrBranch internal = (if internal then InternalBranch_mgr else ExternalBranch_mgr)"

definition nextIndexOf :: "bool \<Rightarrow> 'k accountInfo \<Rightarrow> u32" where
  "nextIndexOf internal acctInfo = (if internal then nextInternalIndex acctInfo else nextExternalIndex acctInfo)"

text \<open>The key to derive from: the private one when the manager is unlocked and not \<open>watchOnly\<close>.\<close>

definition chooseKey :: "('k, 'a) manager \<Rightarrow> bool \<Rightarrow> 'k accountInfo \<Rightarrow> 'k mres" where
  "chooseKey m watchOnly acctInfo =
     (case (if \<not> IsLocked m \<and> \<not> watchOnly then acctKeyPriv acctInfo else acctKeyPub acctInfo) of
        None \<Rightarrow> Inl MgrPanic
      | Some key \<Rightarrow> Inr key)"

definition deriveBranch :: "('k, 'a, 'm) hdEnv_scheme \<Rightarrow> 'k \<Rightarrow> bool \<Rightarrow> 'k mres" where
  "deriveBranch E acctKey internal = (case deriveChild E acctKey (addrBranch internal) of
     Inl _ \<Rightarrow> Inl (managerError ErrKeyChain)
   | Inr branchKey \<Rightarrow> Inr branchKey)"

text \<open>The managed address of a child; \<open>account'\<close> is the number of the account in its own key.\<close>

definition childAddr :: "('k, 'a, 'm) hdEnv_scheme \<Rightarrow> ('k, 'a) manager \<Rightarrow> 'k accountInfo \<Rightarrow> u32 \<Rightarrow> u32 \<Rightarrow> u32 \<Rightarrow> bool \<Rightarrow> u8
    \<Rightarrow> ('k, 'a) makeAddr" where
  "childAddr E m acctInfo account account' fingerprint internal atype key index =
     bindE (newManagedAddressFromExtKey E (mgCryptoKeyPriv m)
       \<lparr>InternalAccount = account, pathAccount = account', pathBranch = addrBranch internal,
        pathIndex = index, pathFingerprint = fingerprint\<rparr> key atype (Some acctInfo)) (\<lambda>addr.
     Inr (if internal then addr\<lparr>maInternal := True\<rparr> else addr))"

section \<open>Storing and caching\<close>

record addrCommit =
  acScope :: keyScope
  acAccount :: u32
  acInternal :: bool
  acWatchOnly :: bool
  acNextIndex :: u32
  acInfos :: "unlockDeriveInfo list"

definition putInfo :: "('k, 'a, 'm) hdEnv_scheme \<Rightarrow> keyScope \<Rightarrow> u32 \<Rightarrow> unlockDeriveInfo \<Rightarrow> mgrStore
    \<Rightarrow> (('k, 'a) manager, 'a \<times> mgrStore) mop" where
  "putInfo E scope account info ns = bindM getM (\<lambda>m.
     bindM (liftM (addressOf_ma (mgHeap m ! udAddr info))) (\<lambda>address.
     bindM (convertM (liftM (putChainedAddress E ns scope (scriptAddress E address) account ssFull
       (udBranch info) (udIndex info) adtChain))) (\<lambda>ns. retM (address, ns))))"

text \<open>\<open>nextAddresses\<close> reads each address back from the database.\<close>

definition putAndCheck :: "('k, 'a, 'm) hdEnv_scheme \<Rightarrow> keyScope \<Rightarrow> u32 \<Rightarrow> unlockDeriveInfo \<Rightarrow> mgrStore
    \<Rightarrow> (('k, 'a) manager, mgrStore) mop" where
  "putAndCheck E scope account info ns =
     bindM (putInfo E scope account info ns) (\<lambda>(address, ns).
     bindM (convertM (loadAndCacheAddress E ns scope address)) (\<lambda>r.
     bindM getM (\<lambda>m.
     bindM (liftM (addressOf_ma (mgHeap m ! r))) (\<lambda>diskAddress.
     if addrString E address \<noteq> addrString E diskAddress then
       bindM (modifyM (setScoped scope (\<lambda>s. s\<lparr>smAddrs := AList.delete (scriptAddress E diskAddress) (smAddrs s)\<rparr>)))
         (\<lambda>_. failM ErrAddrMismatch)
     else retM ns))))"

definition cacheInfo :: "('k, 'a, 'm) hdEnv_scheme \<Rightarrow> addrCommit \<Rightarrow> unlockDeriveInfo \<Rightarrow> (('k, 'a) manager, unit) mop" where
  "cacheInfo E c info = bindM getM (\<lambda>m.
     bindM (liftM (addressOf_ma (mgHeap m ! udAddr info))) (\<lambda>address.
     bindM (modifyM (cacheAddr (acScope c) (scriptAddress E address) (udAddr info))) (\<lambda>_.
     if IsLocked m \<and> \<not> acWatchOnly c
     then modifyM (setScoped (acScope c) (\<lambda>s. s\<lparr>smDeriveOnUnlock := smDeriveOnUnlock s @ [info]\<rparr>))
     else retM ())))"

definition setNextIndex :: "bool \<Rightarrow> u32 \<Rightarrow> nat \<Rightarrow> 'k accountInfo \<Rightarrow> 'k accountInfo" where
  "setNextIndex internal nextIndex ma acctInfo = (if internal
     then acctInfo\<lparr>nextInternalIndex := nextIndex, lastInternalAddr := Some ma\<rparr>
     else acctInfo\<lparr>nextExternalIndex := nextIndex, lastExternalAddr := Some ma\<rparr>)"

definition onCommit :: "('k, 'a, 'm) hdEnv_scheme \<Rightarrow> addrCommit \<Rightarrow> (('k, 'a) manager, unit) mop" where
  "onCommit E c =
     bindM (foldM_mop (\<lambda>info _. cacheInfo E c info) (acInfos c) ()) (\<lambda>_.
     if acInfos c = [] then failM MgrPanic
     else modifyM (setScoped (acScope c) (\<lambda>s. case map_of (smAcctInfo s) (acAccount c) of
         None \<Rightarrow> s
       | Some acctInfo \<Rightarrow> s\<lparr>smAcctInfo := AList.update (acAccount c)
           (setNextIndex (acInternal c) (acNextIndex c) (udAddr (last (acInfos c))) acctInfo) (smAcctInfo s)\<rparr>)))"

text \<open>The addresses get their place in memory, in the order they were derived.\<close>

fun allocInfos :: "bool \<Rightarrow> ('a managedAddress \<times> u32) list \<Rightarrow> (('k, 'a) manager, unlockDeriveInfo list) mop" where
  "allocInfos internal [] = retM []"
| "allocInfos internal ((addr, index) # infos) =
     bindM (allocAddr (PubKeyAddr addr)) (\<lambda>r.
     bindM (allocInfos internal infos) (\<lambda>is.
     retM (\<lparr>udAddr = r, udBranch = addrBranch internal, udIndex = index\<rparr> # is)))"

section \<open>nextAddresses\<close>

type_synonym ('m, 'r) mopt = "'m \<Rightarrow> ((mgrErr + 'r) \<times> 'm) option"

definition bindO :: "('m, 'r) mop \<Rightarrow> ('r \<Rightarrow> ('m, 's) mopt) \<Rightarrow> ('m, 's) mopt" where
  "bindO f g m = (case f m of (Inl e, m) \<Rightarrow> Some (Inl e, m) | (Inr r, m) \<Rightarrow> g r m)"

definition awaitM :: "'r mres option \<Rightarrow> ('r \<Rightarrow> ('m, 's) mop) \<Rightarrow> ('m, 's) mopt" where
  "awaitM x f m = map_option (\<lambda>x. bindM (liftM x) f m) x"

definition doneM :: "('m, 'r) mop \<Rightarrow> ('m, 'r) mopt" where "doneM f m = Some (f m)"

definition nextAddresses :: "('k, 'a, 'm) hdEnv_scheme \<Rightarrow> mgrStore \<Rightarrow> keyScope \<Rightarrow> u32 \<Rightarrow> u32 \<Rightarrow> bool
    \<Rightarrow> (('k, 'a) manager, nat list \<times> addrCommit \<times> mgrStore) mopt" where
  "nextAddresses E ns scope account numAddresses internal =
     bindO (loadAccountInfo E ns scope account) (\<lambda>acctInfo.
     bindO getM (\<lambda>m.
     let watchOnly = (WatchOnly m \<or> acctKeyEncrypted acctInfo = []);
       nextIndex = nextIndexOf internal acctInfo in
     bindO (guardM (\<not> (MaxAddressesPerAccount < numAddresses
       \<or> MaxAddressesPerAccount < nextIndex + numAddresses)) (managerError ErrTooManyAddresses)) (\<lambda>_.
     bindO (liftM (chooseKey m watchOnly acctInfo)) (\<lambda>acctKey.
     bindO (liftM (deriveBranch E acctKey internal)) (\<lambda>branchKey.
     bindO (getScoped scope) (\<lambda>s.
     awaitM (nextChildren E (childAddr E m acctInfo account (childIndex E acctKey) (masterKeyFingerprint acctInfo)
       internal (accountAddrType s acctInfo internal)) branchKey (unat numAddresses) nextIndex) (\<lambda>(infos, nextIndex).
     bindM (allocInfos internal infos) (\<lambda>infos.
     bindM (foldM_mop (putAndCheck E scope account) infos ns) (\<lambda>ns.
     retM (map udAddr infos, \<lparr>acScope = scope, acAccount = account, acInternal = internal,
       acWatchOnly = watchOnly, acNextIndex = nextIndex, acInfos = infos\<rparr>, ns))))))))))"

definition extendAddresses :: "('k, 'a, 'm) hdEnv_scheme \<Rightarrow> mgrStore \<Rightarrow> keyScope \<Rightarrow> u32 \<Rightarrow> u32 \<Rightarrow> bool
    \<Rightarrow> (('k, 'a) manager, mgrStore) mopt" where
  "extendAddresses E ns scope account lastIndex internal =
     bindO (loadAccountInfo E ns scope account) (\<lambda>acctInfo.
     bindO getM (\<lambda>m.
     let watchOnly = (WatchOnly m \<or> acctKeyPriv acctInfo \<noteq> None);
       nextIndex = nextIndexOf internal acctInfo in
     if lastIndex < nextIndex then doneM (retM ns)
     else bindO (guardM (lastIndex \<le> MaxAddressesPerAccount) (managerError ErrTooManyAddresses)) (\<lambda>_.
     bindO (liftM (chooseKey m watchOnly acctInfo)) (\<lambda>acctKey.
     bindO (liftM (deriveBranch E acctKey internal)) (\<lambda>branchKey.
     bindO (liftM (case acctKeyPub acctInfo of None \<Rightarrow> Inl MgrPanic | Some pub \<Rightarrow> Inr (childIndex E pub))) (\<lambda>account'.
     bindO (getScoped scope) (\<lambda>s.
     awaitM (extendChildren E (childAddr E m acctInfo account account' 0 internal (accountAddrType s acctInfo internal))
       branchKey lastIndex nextIndex) (\<lambda>(infos, nextIndex).
     bindM (allocInfos internal infos) (\<lambda>infos.
     bindM (foldM_mop (\<lambda>info ns. bindM (putInfo E scope account info ns) (\<lambda>(_, ns). retM ns)) infos ns) (\<lambda>ns.
     bindM (onCommit E \<lparr>acScope = scope, acAccount = account, acInternal = internal, acWatchOnly = watchOnly,
       acNextIndex = nextIndex, acInfos = infos\<rparr>) (\<lambda>_. retM ns)))))))))))"

definition chainedOf :: "u32 \<Rightarrow> ('m, 'r) mopt \<Rightarrow> ('m, 'r) mopt" where
  "chainedOf account f = (if MaxAccountNum < account then doneM (failM (managerError ErrAccountNumTooHigh)) else f)"

definition NextExternalAddresses :: "('k, 'a, 'm) hdEnv_scheme \<Rightarrow> mgrStore \<Rightarrow> keyScope \<Rightarrow> u32 \<Rightarrow> u32
    \<Rightarrow> (('k, 'a) manager, nat list \<times> addrCommit \<times> mgrStore) mopt" where
  "NextExternalAddresses E ns scope account numAddresses =
     chainedOf account (nextAddresses E ns scope account numAddresses False)"

definition NextInternalAddresses :: "('k, 'a, 'm) hdEnv_scheme \<Rightarrow> mgrStore \<Rightarrow> keyScope \<Rightarrow> u32 \<Rightarrow> u32
    \<Rightarrow> (('k, 'a) manager, nat list \<times> addrCommit \<times> mgrStore) mopt" where
  "NextInternalAddresses E ns scope account numAddresses =
     chainedOf account (nextAddresses E ns scope account numAddresses True)"

definition ExtendExternalAddresses :: "('k, 'a, 'm) hdEnv_scheme \<Rightarrow> mgrStore \<Rightarrow> keyScope \<Rightarrow> u32 \<Rightarrow> u32
    \<Rightarrow> (('k, 'a) manager, mgrStore) mopt" where
  "ExtendExternalAddresses E ns scope account lastIndex =
     chainedOf account (extendAddresses E ns scope account lastIndex False)"

definition ExtendInternalAddresses :: "('k, 'a, 'm) hdEnv_scheme \<Rightarrow> mgrStore \<Rightarrow> keyScope \<Rightarrow> u32 \<Rightarrow> u32
    \<Rightarrow> (('k, 'a) manager, mgrStore) mopt" where
  "ExtendInternalAddresses E ns scope account lastIndex =
     chainedOf account (extendAddresses E ns scope account lastIndex True)"

end
