(* ===== verification/Mgr_Load.thy ===== *)
theory Mgr_Load
  imports Mgr_Next "HOL-Library.Sublist"
begin

text \<open>
  What loading accounts and addresses into memory leaves alone.  \<open>loading\<close> is the interface: a property
  of the manager that survives a new managed address, a change of the address cache or of the list of
  pending derivations, and a newly cached account survives every operation that reads through the caches.
\<close>

locale loading =
  fixes P :: "('k, 'a) manager \<Rightarrow> bool"
  assumes alloc: "P m \<Longrightarrow> P (m\<lparr>mgHeap := mgHeap m @ [ma]\<rparr>)"
    and pending: "P m \<Longrightarrow> P (setScoped sc (\<lambda>s. s\<lparr>smDeriveOnUnlock := f s\<rparr>) m)"
    and addrs: "P m \<Longrightarrow> P (setScoped sc (\<lambda>s. s\<lparr>smAddrs := g s\<rparr>) m)"
    and account: "P m \<Longrightarrow> P (setScoped sc (\<lambda>s. s\<lparr>smAcctInfo := AList.update a i (smAcctInfo s)\<rparr>) m)"
begin

lemma keeps_getScoped: "keeps P (getScoped sc)"
  by (simp add: getScoped_def keepers)

lemma keeps_alloc: "keeps P (allocAddr ma)"
  by (simp add: keeps_def allocAddr_def alloc)

lemma keeps_set:
  "keeps P (modifyM (setScoped sc (\<lambda>s. s\<lparr>smDeriveOnUnlock := f s\<rparr>)))"
  "keeps P (modifyM (setScoped sc (\<lambda>s. s\<lparr>smAddrs := g s\<rparr>)))"
  "keeps P (modifyM (setScoped sc (\<lambda>s. s\<lparr>smAcctInfo := AList.update a i (smAcctInfo s)\<rparr>)))"
  "keeps P (modifyM (cacheAddr sc k r))"
  by (simp_all add: keeps_def mop_run pending addrs account cacheAddr_def)

lemmas basics = keeps_getScoped keeps_alloc keeps_set keepers

lemma keeps_keyToManaged: "keeps P (keyToManaged E sc key path acct)"
  unfolding keyToManaged_def Let_def by (intro basics allI impI) (simp add: basics)

lemma keeps_lastAddress: "keeps P (lastAddress E sc acct i branch idx priv)"
  by (simp add: lastAddress_def Let_def basics keeps_keyToManaged split: option.split)

lemma keeps_loadAccountInfo: "keeps P (loadAccountInfo E ns sc a)"
  unfolding loadAccountInfo_def Let_def
  by (intro basics) (simp add: basics keeps_lastAddress split: option.split prod.split)

lemma keeps_deriveKeyFromPath: "keeps P (deriveKeyFromPath E ns sc a b i priv)"
  by (simp add: deriveKeyFromPath_def Let_def basics keeps_loadAccountInfo)

lemma keeps_rowInterfaceToManaged: "keeps P (rowInterfaceToManaged E ns sc row)"
  by (simp add: rowInterfaceToManaged_def chainAddressRowToManaged_def importedAddressRowToManaged_def
      scriptAddressRowToManaged_def witnessScriptAddressRowToManaged_def basics keeps_deriveKeyFromPath
      keeps_loadAccountInfo keeps_keyToManaged split: addrRowInterface.split option.split prod.split)

lemma keeps_loadAndCacheAddress: "keeps P (loadAndCacheAddress E ns sc address)"
  by (simp add: loadAndCacheAddress_def basics keeps_rowInterfaceToManaged)

lemma keeps_Address_scoped: "keeps P (Address_scoped E ns sc address)"
  by (simp add: Address_scoped_def Let_def basics keeps_loadAndCacheAddress split: option.split)

lemma keeps_putInfo: "keeps P (putInfo E sc a info ns)"
  by (simp add: putInfo_def basics)

lemma keeps_putAndCheck: "keeps P (putAndCheck E sc a info ns)"
  by (simp add: putAndCheck_def basics keeps_putInfo keeps_loadAndCacheAddress split: prod.split)

lemma keeps_allocInfos: "keeps P (allocInfos internal infos)"
  by (induction internal infos rule: allocInfos.induct) (simp_all add: basics)

lemma keeps_cacheInfo: "keeps P (cacheInfo E c info)"
  by (simp add: cacheInfo_def basics)

end

section \<open>Memory only grows\<close>

definition heap_from :: "'a managedAddr list \<Rightarrow> ('k, 'a) manager \<Rightarrow> bool" where
  "heap_from h m \<longleftrightarrow> prefix h (mgHeap m)"

interpretation heap: loading "heap_from h" for h
  by unfold_locales (auto simp: heap_from_def setScoped_def)

lemma heap_from_nth: "heap_from h m \<Longrightarrow> r < length h \<Longrightarrow> mgHeap m ! r = h ! r \<and> r < length (mgHeap m)"
  by (auto simp: heap_from_def prefix_def nth_append)

section \<open>Cached accounts stay\<close>

definition acctCached :: "keyScope \<Rightarrow> u32 \<Rightarrow> ('k, 'a) manager \<Rightarrow> bool" where
  "acctCached sc a m \<longleftrightarrow> (case map_of (mgScoped m) sc of
     None \<Rightarrow> False
   | Some s \<Rightarrow> map_of (smAcctInfo s) a \<noteq> None)"

interpretation cached: loading "acctCached sc a" for sc a
  by unfold_locales (auto simp: acctCached_def map_of_setScoped AList.update_conv' split: option.splits)

definition scopeKnown :: "keyScope \<Rightarrow> ('k, 'a) manager \<Rightarrow> bool" where
  "scopeKnown sc m \<longleftrightarrow> map_of (mgScoped m) sc \<noteq> None"

interpretation known: loading "scopeKnown sc" for sc
  by unfold_locales (auto simp: scopeKnown_def map_of_setScoped)

lemma getScoped_Inr: "getScoped sc m = (Inr s, m') \<longleftrightarrow> m' = m \<and> map_of (mgScoped m) sc = Some s"
  by (auto simp: getScoped_def bindM_def mop_run scopedOf_def split: option.splits)

lemma loadAccountInfo_entry:
  assumes "loadAccountInfo E ns sc a m = (Inr acctInfo, m')"
  obtains s where "map_of (mgScoped m') sc = Some s" "map_of (smAcctInfo s) a = Some acctInfo"
proof -
  obtain s where s: "map_of (mgScoped m) sc = Some s"
    using assms by (auto simp: loadAccountInfo_def bindM_Inr getScoped_Inr)
  then have k: "scopeKnown sc m" by (simp add: scopeKnown_def)
  have "\<exists>s. map_of (mgScoped m') sc = Some s \<and> map_of (smAcctInfo s) a = Some acctInfo"
  proof (cases "map_of (smAcctInfo s) a")
    case (Some i)
    then show ?thesis using assms s by (simp add: loadAccountInfo_def bind_getScoped mop_run)
  next
    case None
    then obtain i hp r1 m1 r2 m2 where
      "lastAddress E sc a i ExternalBranch_mgr (nextExternalIndex i) hp m = (Inr r1, m1)"
      and l: "lastAddress E sc a (i\<lparr>lastExternalAddr := Some r1\<rparr>) InternalBranch_mgr (nextInternalIndex i) hp m1 = (Inr r2, m2)"
      and i: "acctInfo = i\<lparr>lastExternalAddr := Some r1, lastInternalAddr := Some r2\<rparr>"
      and m': "m' = setScoped sc (\<lambda>s. s\<lparr>smAcctInfo := AList.update a
          (i\<lparr>lastExternalAddr := Some r1, lastInternalAddr := Some r2\<rparr>) (smAcctInfo s)\<rparr>) m2"
      using assms s by (auto simp: loadAccountInfo_def bind_getScoped bindM_Inr mop_run Let_def)
    then have "scopeKnown sc m2"
      using keepsD[OF known.keeps_lastAddress, of sc m E sc a i]
        keepsD[OF known.keeps_lastAddress, of sc m1 E sc a "i\<lparr>lastExternalAddr := Some r1\<rparr>"] k
      by (metis snd_conv)
    then show ?thesis by (auto simp: i m' map_of_setScoped scopeKnown_def AList.update_conv')
  qed
  then show thesis using that by blast
qed

lemma loadAccountInfo_cached:
  assumes "loadAccountInfo E ns sc a m = (Inr acctInfo, m')"
  shows "acctCached sc a m'"
  using assms by (rule loadAccountInfo_entry) (simp add: acctCached_def)

end
