(* ===== verification/Mgr_Derive.thy ===== *)
theory Mgr_Derive
  imports Mgr_Load Mgr_Directory
begin

text \<open>
  Which children the next addresses of an account are made from, and what storing them does to the
  tables of the scope.
\<close>

section \<open>The search for valid children\<close>

definition validChild :: "('k, 'a, 'm) hdEnv_scheme \<Rightarrow> 'k \<Rightarrow> nat \<Rightarrow> bool" where
  "validChild E branchKey j = (case deriveChild E branchKey (word_of_nat j) of Inl _ \<Rightarrow> False | Inr _ \<Rightarrow> True)"

definition only_invalid :: "('k, 'a, 'm) hdEnv_scheme \<Rightarrow> 'k \<Rightarrow> bool" where
  "only_invalid E branchKey \<longleftrightarrow> (\<forall>i. deriveChild E branchKey i \<noteq> Inl DeriveFailed)"

lemma nextValid_skip: "deriveChild E key i = Inl InvalidChild \<Longrightarrow> nextValid E key i = nextValid E key (i + 1)"
  by (subst nextValid.simps) simp

lemma nextValid_hit: "deriveChild E key i = Inr k \<Longrightarrow> nextValid E key i = Some (Inr (k, i))"
  by (subst nextValid.simps) simp

lemma not_valid: "only_invalid E key \<Longrightarrow> \<not> validChild E key i \<Longrightarrow> deriveChild E key (word_of_nat i) = Inl InvalidChild"
  unfolding only_invalid_def validChild_def by (auto split: sum.splits) (metis deriveErr.exhaust)

lemma nextChildren_skip:
  assumes "deriveChild E key i = Inl InvalidChild"
  shows "nextChildren E makeAddr key (Suc n) i = nextChildren E makeAddr key (Suc n) (i + 1)"
  using nextValid_skip[OF assms] by simp

text \<open>C11: the search of \<open>nextAddresses\<close> is equivalent to its reference definition: among the indexes from
  the account's next index up to any limit that has enough of them, it takes the first \<open>n\<close> whose child key
  exists, in order, makes an address of each, and leaves the index after the last one taken as the next.
  An index whose child is invalid is skipped, and nothing else is.\<close>

theorem nextChildren_first_valid:
  assumes "only_invalid E key"
    and "\<And>j k. deriveChild E key (word_of_nat j) = Inr k \<Longrightarrow> makeAddr k (word_of_nat j) = Inr (addr j)"
    and "length (take n (filter (validChild E key) [i..<lim])) = n"
  shows "nextChildren E makeAddr key n (word_of_nat i) = Some (Inr
     (map (\<lambda>j. (addr j, word_of_nat j)) (take n (filter (validChild E key) [i..<lim])),
      word_of_nat (if n = 0 then i else Suc (last (take n (filter (validChild E key) [i..<lim]))))))"
  using assms(3)
proof (induction "lim - i" arbitrary: i n)
  case 0
  then show ?case by (cases n) simp_all
next
  case (Suc d)
  then have r: "[i..<lim] = i # [Suc i..<lim]" "d = lim - Suc i" by (simp_all add: upt_conv_Cons)
  show ?case
  proof (cases "n = 0 \<or> validChild E key i")
    case False
    then obtain n' where n: "n = Suc n'" by (cases n) auto
    have v: "\<not> validChild E key i" using False by simp
    show ?thesis
      using Suc.hyps(1)[OF r(2), of n] Suc.prems v nextChildren_skip[OF not_valid[OF assms(1) v]]
      by (simp add: r(1) n add.commute del: nextChildren.simps)
  next
    case True
    show ?thesis
    proof (cases n)
      case (Suc n')
      with True have v: "validChild E key i" by simp
      then obtain k where k: "deriveChild E key (word_of_nat i) = Inr k" by (auto simp: validChild_def split: sum.splits)
      show ?thesis
        using Suc.hyps(1)[OF r(2), of n'] Suc.prems v Suc
        by (auto simp: r(1) nextValid_hit[OF k] thenE_def assms(2)[OF k] add.commute)
    qed simp
  qed
qed

text \<open>What holds of the children whenever the search returns them.\<close>

lemma nextValid_value: "nextValid E key i = Some y \<Longrightarrow> \<forall>k j. y = Inr (k, j) \<longrightarrow> deriveChild E key j = Inr k"
proof (erule nextValid.raw_induct[rotated])
  fix nv :: "('a, 'b, 'c) hdEnv_scheme \<Rightarrow> 'a \<Rightarrow> u32 \<Rightarrow> ('a \<times> u32) mres option"
    and E :: "('a, 'b, 'c) hdEnv_scheme" and key i y
  assume ih: "\<And>E key i y. nv E key i = Some y \<Longrightarrow> \<forall>k j. y = Inr (k, j) \<longrightarrow> deriveChild E key j = Inr k"
    and y: "(case deriveChild E key i of
        Inl InvalidChild \<Rightarrow> nv E key (i + 1) | Inl DeriveFailed \<Rightarrow> Some (Inl (managerError ErrKeyChain))
      | Inr k \<Rightarrow> Some (Inr (k, i))) = Some y"
  show "\<forall>k j. y = Inr (k, j) \<longrightarrow> deriveChild E key j = Inr k"
  proof (cases "deriveChild E key i")
    case (Inl e)
    show ?thesis
    proof (cases e)
      case InvalidChild
      have "nv E key (i + 1) = Some y" using y unfolding Inl InvalidChild by simp
      then show ?thesis by (rule ih)
    next
      case DeriveFailed
      then show ?thesis using Inl y by auto
    qed
  next
    case (Inr k)
    then show ?thesis using y by auto
  qed
qed

lemma nextValid_sound: "nextValid E key i = Some (Inr (k, j)) \<Longrightarrow> deriveChild E key j = Inr k"
  by (drule nextValid_value) simp

lemma nextChildren_sound:
  assumes "nextChildren E makeAddr key n i = Some (Inr (infos, next))"
  shows "length infos = n \<and> (\<forall>(addr, j) \<in> set infos. \<exists>k. deriveChild E key j = Inr k \<and> makeAddr k j = Inr addr)
    \<and> next = (if n = 0 then i else snd (last infos) + 1)"
  using assms
proof (induction n arbitrary: i infos)
  case (Suc n)
  from Suc.prems obtain k j addr infos' where *: "nextValid E key i = Some (Inr (k, j))" "makeAddr k j = Inr addr"
      "nextChildren E makeAddr key n (j + 1) = Some (Inr (infos', next))" "infos = (addr, j) # infos'"
    by (auto simp: thenE_def split: option.splits sum.splits)
  have "n = 0 \<longleftrightarrow> infos' = []" using Suc.IH[OF *(3)] by auto
  then show ?case using Suc.IH[OF *(3)] nextValid_sound[OF *(1)] *(2,4) by auto
qed simp

section \<open>Advancing an account\<close>

lemma advanceRow_twice [simp]: "advanceRow branch j (advanceRow branch i r) = advanceRow branch j r"
  by (cases r) (simp_all add: advanceRow_def defaultAccount_def watchOnlyAccount_def)

definition storedIndex :: "bool \<Rightarrow> acctRowInterface \<Rightarrow> u32" where
  "storedIndex internal r = (case r of
     DefaultAccount a \<Rightarrow> if internal then defNextInternalIndex a else defNextExternalIndex a
   | WatchOnlyAccount a \<Rightarrow> if internal then woNextInternalIndex a else woNextExternalIndex a)"

lemma storedIndex_advance: "storedIndex internal (advanceRow (addrBranch internal') j r) =
    (if internal' = internal then j + 1 else storedIndex internal r)"
  by (cases r) (simp_all add: advanceRow_def storedIndex_def addrBranch_def defaultAccount_def watchOnlyAccount_def
      InternalBranch_mgr_def ExternalBranch_mgr_def)

section \<open>Storing the addresses\<close>

text \<open>The scope holds the accounts \<open>M\<close> and the addresses \<open>D\<close>.\<close>

definition scope_holds :: "mgrStore \<Rightarrow> keyScope \<Rightarrow> (bytes \<Rightarrow> acctRowInterface option) \<Rightarrow> (bytes \<Rightarrow> addrRowInterface option) \<Rightarrow> bool" where
  "scope_holds ns sc M D \<longleftrightarrow> (\<exists>s. scopeAt ns sc = Some s \<and> books s M \<and> tables s D)"

definition putAll :: "('k, 'a, 'm) hdEnv_scheme \<Rightarrow> keyScope \<Rightarrow> u32 \<Rightarrow> u32 \<Rightarrow> (bytes \<times> u32) list \<Rightarrow> mgrStore \<Rightarrow> mgrStore mres" where
  "putAll E sc account branch ids ns =
     foldE (\<lambda>(i, j) ns. putChainedAddress E ns sc i account ssFull branch j adtChain) ids ns"

fun enterAll :: "('k, 'a, 'm) hdEnv_scheme \<Rightarrow> u32 \<Rightarrow> u32 \<Rightarrow> (bytes \<times> u32) list \<Rightarrow> (bytes \<Rightarrow> addrRowInterface option)
    \<Rightarrow> bytes \<Rightarrow> addrRowInterface option" where
  "enterAll E account branch [] D = D"
| "enterAll E account branch ((i, j) # ids) D =
     enterAll E account branch ids (D(sha256 E i \<mapsto> chainedRow E account ssFull branch j))"

definition not_foreign :: "('k, 'a, 'm) hdEnv_scheme \<Rightarrow> u32 \<Rightarrow> bytes \<Rightarrow> (bytes \<Rightarrow> addrRowInterface option) \<Rightarrow> bool" where
  "not_foreign E account i D \<longleftrightarrow> (\<forall>r. D (sha256 E i) = Some r \<longrightarrow> rowAccount r = account)"

lemma putAll_effect:
  assumes "putAll E sc account branch ids ns = Inr ns'" "scope_holds ns sc M D"
    and "M (uint32ToBytes account) = Some r" "\<forall>(i, j) \<in> set ids. not_foreign E account i D"
  shows "scope_holds ns' sc (if ids = [] then M else M(uint32ToBytes account \<mapsto> advanceRow branch (snd (last ids)) r))
    (enterAll E account branch ids D)"
  using assms
proof (induction ids arbitrary: ns M D r)
  case (Cons x ids)
  obtain i j where x: "x = (i, j)" by (cases x)
  obtain m where m: "putChainedAddress E ns sc i account ssFull branch j adtChain = Inr m"
      "putAll E sc account branch ids m = Inr ns'" using Cons.prems(1) by (auto simp: x putAll_def)
  obtain s where s: "scopeAt ns sc = Some s" "books s M" "tables s D" using Cons.prems(2) by (auto simp: scope_holds_def)
  let ?D = "D(sha256 E i \<mapsto> chainedRow E account ssFull branch j)"
    and ?M = "M(uint32ToBytes account \<mapsto> advanceRow branch j r)"
  have same: "rowAccount r0 = account" if "D (sha256 E i) = Some r0" for r0
    using Cons.prems(4) that by (auto simp: x not_foreign_def)
  note e = putChainedAddress_enter(2)[OF s(1,2) Cons.prems(3) m(1)]
  have h: "scope_holds m sc ?M ?D"
    unfolding scope_holds_def e
    using chainedScope_keeps[OF s(2,3) Cons.prems(3) same, where E = E and status = ssFull and branch = branch and index = j and addressID = i]
      s(1) by auto
  have f: "\<forall>(i', j') \<in> set ids. not_foreign E account i' ?D"
    using Cons.prems(4) by (fastforce simp: x not_foreign_def chainedRow_def addressRow_def split: if_splits)
  have "scope_holds ns' sc (if ids = [] then ?M
      else ?M(uint32ToBytes account \<mapsto> advanceRow branch (snd (last ids)) (advanceRow branch j r))) (enterAll E account branch ids ?D)"
    by (rule Cons.IH[OF m(2) h _ f]) simp
  then show ?case
    by (cases "ids = []") (simp_all only: x enterAll.simps last.simps list.simps if_False if_True snd_conv
        fun_upd_upd advanceRow_twice simp_thms)
qed (simp add: putAll_def)

lemma fetchAddress_tables:
  assumes "scopeAt ns sc = Some s" "tables s D"
  shows "fetchAddress E ns sc i = (case D (sha256 E i) of None \<Rightarrow> Inl (managerError ErrAddressNotFound) | Some r \<Rightarrow> Inr r)"
proof -
  have "row_at decodeAddressRow (scAddr s) (sha256 E i) = D (sha256 E i)"
    using tables_parts(1)[OF assms(2)] by (auto simp: addressOf_def)
  then show ?thesis
    using tablesD(1)[OF assms(2), of "sha256 E i"] tables_None(1)[OF assms(2), of "sha256 E i"]
    by (auto simp: fetchAddress_def fetchAddressByHash_def fetchScope_at[OF assms(1)] row_at_def split: option.splits sum.splits)
qed

section \<open>What \<open>nextAddresses\<close> does\<close>

text \<open>The id and the index of an address in memory.\<close>

definition infoId :: "('k, 'a, 'm) hdEnv_scheme \<Rightarrow> 'a managedAddr list \<Rightarrow> unlockDeriveInfo \<Rightarrow> bytes \<times> u32" where
  "infoId E h info = (scriptAddress E (projr (addressOf_ma (h ! udAddr info))), udIndex info)"

definition infosAt :: "bool \<Rightarrow> nat \<Rightarrow> ('a managedAddress \<times> u32) list \<Rightarrow> unlockDeriveInfo list" where
  "infosAt internal base infos = map2 (\<lambda>k (_, j). \<lparr>udAddr = k, udBranch = addrBranch internal, udIndex = j\<rparr>)
     [base..<base + length infos] infos"

lemma allocInfos_run: "allocInfos internal infos m
    = (Inr (infosAt internal (length (mgHeap m)) infos), m\<lparr>mgHeap := mgHeap m @ map (\<lambda>(addr, _). PubKeyAddr addr) infos\<rparr>)"
proof (induction internal infos arbitrary: m rule: allocInfos.induct)
  case (2 internal addr j infos)
  then show ?case by (simp add: bindM_def allocAddr_def mop_run infosAt_def upt_conv_Cons del: upt_Suc)
qed (simp add: mop_run infosAt_def)

lemma putInfo_Inr: "putInfo E sc a info ns m = (Inr (addr, ns'), m') \<longleftrightarrow> m' = m
    \<and> addressOf_ma (mgHeap m ! udAddr info) = Inr addr
    \<and> putChainedAddress E ns sc (scriptAddress E addr) a ssFull (udBranch info) (udIndex info) adtChain = Inr ns'"
  by (auto simp: putInfo_def bindM_Inr mop_run)

lemma putAndCheck_Inr: "putAndCheck E sc a info ns m = (Inr ns', m') \<Longrightarrow>
    \<exists>addr. addressOf_ma (mgHeap m ! udAddr info) = Inr addr
      \<and> putChainedAddress E ns sc (scriptAddress E addr) a ssFull (udBranch info) (udIndex info) adtChain = Inr ns'"
  by (auto simp: putAndCheck_def bindM_Inr putInfo_Inr mop_run split: if_splits)

lemma putChecks_putAll:
  assumes "foldM_mop (putAndCheck E sc a) infos ns m = (Inr ns', m')" "heap_from h m"
    and "\<forall>info \<in> set infos. udAddr info < length h \<and> udBranch info = branch"
  shows "putAll E sc a branch (map (infoId E h) infos) ns = Inr ns'"
  using assms
proof (induction infos arbitrary: ns m)
  case (Cons info infos)
  then obtain n1 m1 where p: "putAndCheck E sc a info ns m = (Inr n1, m1)" "foldM_mop (putAndCheck E sc a) infos n1 m1 = (Inr ns', m')"
    by (auto simp: bindM_Inr)
  have "heap_from h m1" using keepsD[OF heap.keeps_putAndCheck Cons.prems(2), of E sc a info ns] p(1) by simp
  note ih = Cons.IH[OF p(2) this]
  have "mgHeap m ! udAddr info = h ! udAddr info" using heap_from_nth[OF Cons.prems(2)] Cons.prems(3) by simp
  then show ?case using putAndCheck_Inr[OF p(1)] ih Cons.prems(3) by (auto simp: putAll_def infoId_def)
qed (simp add: putAll_def mop_run)

lemma bindO_Inr: "bindO f g m = Some (Inr s, m'') \<longleftrightarrow> (\<exists>r m'. f m = (Inr r, m') \<and> g r m' = Some (Inr s, m''))"
  by (auto simp: bindO_def split: prod.splits sum.splits)

lemma awaitM_Some: "awaitM x f m = Some (Inr s, m') \<longleftrightarrow> (\<exists>r. x = Some (Inr r) \<and> f r m = (Inr s, m'))"
  by (auto simp: awaitM_def bindM_Inr mop_run)

lemma nextAddresses_Inr:
  assumes "nextAddresses E ns sc a n internal m = Some (Inr (refs, c, ns'), m')"
  obtains acctInfo m1 acctKey branchKey s infos nxt where
    "loadAccountInfo E ns sc a m = (Inr acctInfo, m1)"
    "chooseKey m1 (WatchOnly m1 \<or> acctKeyEncrypted acctInfo = []) acctInfo = Inr acctKey"
    "deriveBranch E acctKey internal = Inr branchKey"
    "nextChildren E (childAddr E m1 acctInfo a (childIndex E acctKey) (masterKeyFingerprint acctInfo) internal
       (accountAddrType s acctInfo internal)) branchKey (unat n) (nextIndexOf internal acctInfo) = Some (Inr (infos, nxt))"
    "foldM_mop (putAndCheck E sc a) (infosAt internal (length (mgHeap m1)) infos) ns
       (m1\<lparr>mgHeap := mgHeap m1 @ map (\<lambda>(addr, _). PubKeyAddr addr) infos\<rparr>) = (Inr ns', m')"
    "refs = map udAddr (infosAt internal (length (mgHeap m1)) infos)"
    "c = \<lparr>acScope = sc, acAccount = a, acInternal = internal, acWatchOnly = (WatchOnly m1 \<or> acctKeyEncrypted acctInfo = []),
       acNextIndex = nxt, acInfos = infosAt internal (length (mgHeap m1)) infos\<rparr>"
proof -
  from assms obtain acctInfo m1 acctKey branchKey s infos nxt where
    *: "loadAccountInfo E ns sc a m = (Inr acctInfo, m1)"
      "chooseKey m1 (WatchOnly m1 \<or> acctKeyEncrypted acctInfo = []) acctInfo = Inr acctKey"
      "deriveBranch E acctKey internal = Inr branchKey"
    and r: "awaitM (nextChildren E (childAddr E m1 acctInfo a (childIndex E acctKey) (masterKeyFingerprint acctInfo) internal
       (accountAddrType s acctInfo internal)) branchKey (unat n) (nextIndexOf internal acctInfo)) (\<lambda>(infos, nextIndex).
     bindM (allocInfos internal infos) (\<lambda>infos.
     bindM (foldM_mop (putAndCheck E sc a) infos ns) (\<lambda>ns.
     retM (map udAddr infos, \<lparr>acScope = sc, acAccount = a, acInternal = internal,
       acWatchOnly = (WatchOnly m1 \<or> acctKeyEncrypted acctInfo = []), acNextIndex = nextIndex, acInfos = infos\<rparr>, ns)))) m1
     = Some (Inr (refs, c, ns'), m')"
    unfolding nextAddresses_def Let_def bindO_Inr mop_run getScoped_Inr by (auto simp: guardM_def mop_run split: if_splits)
  from r obtain infos nxt where **: "nextChildren E (childAddr E m1 acctInfo a (childIndex E acctKey) (masterKeyFingerprint acctInfo) internal
       (accountAddrType s acctInfo internal)) branchKey (unat n) (nextIndexOf internal acctInfo) = Some (Inr (infos, nxt))"
    "foldM_mop (putAndCheck E sc a) (infosAt internal (length (mgHeap m1)) infos) ns
       (m1\<lparr>mgHeap := mgHeap m1 @ map (\<lambda>(addr, _). PubKeyAddr addr) infos\<rparr>) = (Inr ns', m')"
    "refs = map udAddr (infosAt internal (length (mgHeap m1)) infos)"
    "c = \<lparr>acScope = sc, acAccount = a, acInternal = internal, acWatchOnly = (WatchOnly m1 \<or> acctKeyEncrypted acctInfo = []),
       acNextIndex = nxt, acInfos = infosAt internal (length (mgHeap m1)) infos\<rparr>"
    by (auto simp: awaitM_Some bindM_Inr allocInfos_run mop_run)
  show thesis by (rule that[OF * **])
qed

lemma infosAt_facts:
  "length (infosAt internal base infos) = length infos"
  "infos \<noteq> [] \<Longrightarrow> udIndex (last (infosAt internal base infos)) = snd (last infos)"
  "info \<in> set (infosAt internal base infos) \<Longrightarrow>
     udAddr info < base + length infos \<and> base \<le> udAddr info \<and> udBranch info = addrBranch internal"
proof -
  show l: "length (infosAt internal base infos) = length infos" by (simp add: infosAt_def)
  show "udIndex (last (infosAt internal base infos)) = snd (last infos)" if "infos \<noteq> []"
    using that l by (cases infos rule: rev_cases) (auto simp: infosAt_def last_conv_nth split: prod.split)
  show "udAddr info < base + length infos \<and> base \<le> udAddr info \<and> udBranch info = addrBranch internal"
    if "info \<in> set (infosAt internal base infos)"
    using that by (auto simp: infosAt_def dest!: set_zip_leftD)
qed

text \<open>What \<open>nextAddresses\<close> returns, stores and leaves to its commit.\<close>

lemma nextAddresses_result:
  assumes "nextAddresses E ns sc a n internal m = Some (Inr (refs, c, ns'), m')"
  shows "refs = map udAddr (acInfos c)" "length (acInfos c) = unat n"
    "acScope c = sc" "acAccount c = a" "acInternal c = internal"
    "0 < n \<Longrightarrow> acNextIndex c = udIndex (last (acInfos c)) + 1"
    "putAll E sc a (addrBranch internal) (map (infoId E (mgHeap m')) (acInfos c)) ns = Inr ns'"
    "acctCached sc a m'"
proof -
  from nextAddresses_Inr[OF assms] obtain acctInfo m1 acctKey branchKey s infos nxt where
    l: "loadAccountInfo E ns sc a m = (Inr acctInfo, m1)"
    and ch: "nextChildren E (childAddr E m1 acctInfo a (childIndex E acctKey) (masterKeyFingerprint acctInfo) internal
       (accountAddrType s acctInfo internal)) branchKey (unat n) (nextIndexOf internal acctInfo) = Some (Inr (infos, nxt))"
    and put: "foldM_mop (putAndCheck E sc a) (infosAt internal (length (mgHeap m1)) infos) ns
       (m1\<lparr>mgHeap := mgHeap m1 @ map (\<lambda>(addr, _). PubKeyAddr addr) infos\<rparr>) = (Inr ns', m')"
    and c: "refs = map udAddr (infosAt internal (length (mgHeap m1)) infos)"
    "c = \<lparr>acScope = sc, acAccount = a, acInternal = internal, acWatchOnly = (WatchOnly m1 \<or> acctKeyEncrypted acctInfo = []),
       acNextIndex = nxt, acInfos = infosAt internal (length (mgHeap m1)) infos\<rparr>" by metis
  let ?h = "mgHeap m1 @ map (\<lambda>(addr, _). PubKeyAddr addr) infos" and ?is = "infosAt internal (length (mgHeap m1)) infos"
  let ?m = "m1\<lparr>mgHeap := ?h\<rparr>"
  note ok = nextChildren_sound[OF ch]
  show "refs = map udAddr (acInfos c)" "acScope c = sc" "acAccount c = a" "acInternal c = internal" by (simp_all add: c)
  show "length (acInfos c) = unat n" using ok by (simp add: c infosAt_facts)
  show "acNextIndex c = udIndex (last (acInfos c)) + 1" if "0 < n"
  proof -
    have "unat n \<noteq> 0" using that by (simp add: unat_eq_0 word_neq_0_conv)
    then have "infos \<noteq> []" "nxt = snd (last infos) + 1" using ok by auto
    then show ?thesis by (simp add: c infosAt_facts)
  qed
  have from_h: "heap_from ?h m'"
    using keepsD[OF keeps_fold[where f = "putAndCheck E sc a" and xs = ?is and s = ns, OF heap.keeps_putAndCheck[of ?h]], of ?m] put
    by (simp add: heap_from_def)
  have "putAll E sc a (addrBranch internal) (map (infoId E ?h) ?is) ns = Inr ns'"
    by (rule putChecks_putAll[OF put]) (auto simp: heap_from_def dest: infosAt_facts(3))
  moreover have "map (infoId E ?h) ?is = map (infoId E (mgHeap m')) ?is"
    using heap_from_nth[OF from_h] by (auto simp: infoId_def dest: infosAt_facts(3))
  ultimately show "putAll E sc a (addrBranch internal) (map (infoId E (mgHeap m')) (acInfos c)) ns = Inr ns'" by (simp add: c)
  have "acctCached sc a ?m" using loadAccountInfo_cached[OF l] by (simp add: acctCached_def)
  then show "acctCached sc a m'"
    using keepsD[OF keeps_fold[where f = "putAndCheck E sc a" and xs = ?is and s = ns, OF cached.keeps_putAndCheck[of sc a]], of ?m] put
    by simp
qed

lemma onCommit_index:
  assumes "acctCached (acScope c) (acAccount c) m" "onCommit E c m = (Inr (), m')"
  obtains s acctInfo where "map_of (mgScoped m') (acScope c) = Some s" "map_of (smAcctInfo s) (acAccount c) = Some acctInfo"
    "nextIndexOf (acInternal c) acctInfo = acNextIndex c"
proof -
  obtain m1 where m1: "foldM_mop (\<lambda>info _. cacheInfo E c info) (acInfos c) () m = (Inr (), m1)"
    and m': "m' = setScoped (acScope c) (\<lambda>s. case map_of (smAcctInfo s) (acAccount c) of None \<Rightarrow> s
       | Some acctInfo \<Rightarrow> s\<lparr>smAcctInfo := AList.update (acAccount c)
           (setNextIndex (acInternal c) (acNextIndex c) (udAddr (last (acInfos c))) acctInfo) (smAcctInfo s)\<rparr>) m1"
    using assms(2) by (auto simp: onCommit_def bindM_Inr mop_run split: if_splits)
  have "acctCached (acScope c) (acAccount c) m1"
    using keepsD[OF keeps_fold[where f = "\<lambda>info _. cacheInfo E c info" and xs = "acInfos c" and s = "()",
          OF cached.keeps_cacheInfo[of "acScope c" "acAccount c"]], of m] assms(1) m1
    by simp
  then obtain s acctInfo where "map_of (mgScoped m1) (acScope c) = Some s" "map_of (smAcctInfo s) (acAccount c) = Some acctInfo"
    by (auto simp: acctCached_def split: option.splits)
  then show thesis
    using that by (auto simp: m' map_of_setScoped AList.update_conv' nextIndexOf_def setNextIndex_def)
qed

text \<open>C9: the next addresses of an account.  When \<open>nextAddresses\<close> returns for \<open>n > 0\<close> it hands out \<open>n\<close>
  addresses, and the database it leaves holds exactly: the account's row with its next index one after the last
  index used and nothing else of it changed, and a chained row for each of the addresses, with every other
  account, address and index as before (as long as no address belongs to another account already).  The commit
  brings the account in memory to the same next index, so memory and database agree on it.\<close>

theorem nextAddresses_stores:
  assumes nextAddrs: "nextAddresses E ns sc a n internal m = Some (Inr (refs, c, ns'), m')" and "0 < n"
    and holds: "scope_holds ns sc M D" and row: "M (uint32ToBytes a) = Some r"
    and fresh: "\<forall>info \<in> set (acInfos c). not_foreign E a (fst (infoId E (mgHeap m') info)) D"
    and commit: "onCommit E c m' = (Inr (), m'')"
  shows "length refs = unat n \<and> refs = map udAddr (acInfos c)
    \<and> scope_holds ns' sc (M(uint32ToBytes a \<mapsto> advanceRow (addrBranch internal) (udIndex (last (acInfos c))) r))
        (enterAll E a (addrBranch internal) (map (infoId E (mgHeap m')) (acInfos c)) D)
    \<and> (\<exists>s acctInfo. map_of (mgScoped m'') sc = Some s \<and> map_of (smAcctInfo s) a = Some acctInfo
        \<and> nextIndexOf internal acctInfo
          = storedIndex internal (advanceRow (addrBranch internal) (udIndex (last (acInfos c))) r))"
proof -
  note res = nextAddresses_result[OF nextAddrs]
  let ?ids = "map (infoId E (mgHeap m')) (acInfos c)"
  have ne: "acInfos c \<noteq> []" using res(2) \<open>0 < n\<close> by (auto simp: unat_eq_0 word_neq_0_conv)
  have "scope_holds ns' sc (if ?ids = [] then M else M(uint32ToBytes a \<mapsto> advanceRow (addrBranch internal) (snd (last ?ids)) r))
    (enterAll E a (addrBranch internal) ?ids D)"
    using fresh by (intro putAll_effect[OF res(7) holds row]) auto
  moreover have "snd (last ?ids) = udIndex (last (acInfos c))" using ne by (simp add: last_map infoId_def)
  moreover obtain s acctInfo where "map_of (mgScoped m'') sc = Some s" "map_of (smAcctInfo s) a = Some acctInfo"
    "nextIndexOf internal acctInfo = acNextIndex c"
    by (rule onCommit_index[OF _ commit]) (simp_all add: res(3-5,8))
  ultimately show ?thesis
    using res(1,2) res(6)[OF \<open>0 < n\<close>] ne by (simp add: storedIndex_advance)
qed

end
