(* ===== verification/Mgr_Import.thy ===== *)
theory Mgr_Import
  imports Mgr_Scoped
begin

text \<open>
  Importing keys and scripts (\<open>waddrmgr/scoped_manager.go\<close>) and the key of a taproot script
  (\<open>waddrmgr/tapscript.go\<close>, \<open>waddrmgr/tlv.go\<close>).  The operations return the managed address and the
  namespace.  A WIF key of \<open>chainutil\<close> is the record \<open>wif\<close>; \<open>nil\<close> for the encrypted private key is \<open>[]\<close>.
\<close>

section \<open>Public keys\<close>

record wif =
  wifForNet :: bool
  wifPrivKey :: bytes
  wifCompress :: bool

definition SerializePubKey :: "('k, 'a, 'm) hdEnv_scheme \<Rightarrow> wif \<Rightarrow> bytes" where
  "SerializePubKey E w = (let pubKey = pubOf E (wifPrivKey w) in
     if wifCompress w then pubKey else uncompressed E pubKey)"

definition pubKeyAddressID :: "('k, 'a, 'm) hdEnv_scheme \<Rightarrow> u8 \<Rightarrow> bytes \<Rightarrow> bytes mres" where
  "pubKeyAddressID E atype serializedPubKey =
     (if atype = PubKeyHash \<or> atype = WitnessPubKey then Inr (hash160 E serializedPubKey)
      else if atype = NestedWitnessPubKey then
        bindE (fromLib (addrWitnessPubKeyHash E (hash160 E serializedPubKey))) (\<lambda>p2wkhAddr.
        bindE (fromLib (payToAddr E p2wkhAddr)) (\<lambda>witnessScript. Inr (hash160 E witnessScript)))
      else if atype = TaprootPubKey then
        bindE (fromLib (parsePubKey E serializedPubKey)) (\<lambda>internalPubKey. Inr (taprootKey E internalPubKey))
      else Inl MgrFmtErr)"

definition isBefore :: "blockStamp \<Rightarrow> ('k, 'a) manager \<Rightarrow> bool" where
  "isBefore bs m \<longleftrightarrow> stampHeight bs <s stampHeight (startBlock (mgSyncState m))"

definition setStartBlock :: "blockStamp \<Rightarrow> ('k, 'a) manager \<Rightarrow> ('k, 'a) manager" where
  "setStartBlock bs m = m\<lparr>mgSyncState := (mgSyncState m)\<lparr>startBlock := bs\<rparr>\<rparr>"

definition importPublicKey :: "('k, 'a, 'm) hdEnv_scheme \<Rightarrow> mgrStore \<Rightarrow> keyScope \<Rightarrow> bytes \<Rightarrow> bytes \<Rightarrow> u8
    \<Rightarrow> blockStamp option \<Rightarrow> (('k, 'a) manager, mgrStore) mop" where
  "importPublicKey E ns scope serializedPubKey encryptedPrivKey atype bs =
     bindM (liftM (pubKeyAddressID E atype serializedPubKey)) (\<lambda>addressID.
     bindM (existsAddress_scoped E ns scope addressID) (\<lambda>alreadyExists.
     if alreadyExists then failM (managerError ErrDuplicateAddress)
     else
       bindM getM (\<lambda>m.
       bindM (liftM (encryptWith E (Some (mgCryptoKeyPub m)) serializedPubKey)) (\<lambda>encryptedPubKey.
       bindM (liftM (putImportedAddress E ns scope addressID ImportedAddrAccount ssNone
         encryptedPubKey encryptedPrivKey)) (\<lambda>ns.
       case bs of
         None \<Rightarrow> retM ns
       | Some bs \<Rightarrow>
           if isBefore bs m then
             bindM (liftM (putStartBlock E ns bs)) (\<lambda>ns.
             bindM (modifyM (setStartBlock bs)) (\<lambda>_. retM ns))
           else retM ns)))))"

definition cacheImported :: "('k, 'a, 'm) hdEnv_scheme \<Rightarrow> keyScope \<Rightarrow> 'a managedAddress \<Rightarrow> (('k, 'a) manager, nat) mop" where
  "cacheImported E scope managedAddr = (let ma = PubKeyAddr (managedAddr\<lparr>maImported := True\<rparr>) in
     bindM (liftM (addressOf_ma ma)) (\<lambda>address.
     bindM (allocAddr ma) (\<lambda>r.
     bindM (modifyM (cacheAddr scope (scriptAddress E address) r)) (\<lambda>_. retM r))))"

definition toImportedPrivateManagedAddress :: "('k, 'a, 'm) hdEnv_scheme \<Rightarrow> keyScope \<Rightarrow> wif \<Rightarrow> (('k, 'a) manager, nat) mop" where
  "toImportedPrivateManagedAddress E scope w =
     bindM (getScoped scope) (\<lambda>s.
     bindM getM (\<lambda>m.
     bindM (liftM (newManagedAddress E (mgCryptoKeyPriv m) ImportedDerivationPath (wifPrivKey w) (wifCompress w)
       (ExternalAddrType (smAddrSchema s)) None)) (cacheImported E scope)))"

definition toImportedPublicManagedAddress :: "('k, 'a, 'm) hdEnv_scheme \<Rightarrow> keyScope \<Rightarrow> bytes \<Rightarrow> bool
    \<Rightarrow> (('k, 'a) manager, nat) mop" where
  "toImportedPublicManagedAddress E scope pubKey compressed =
     bindM (getScoped scope) (\<lambda>s.
     bindM (liftM (newManagedAddressWithoutPrivKey E ImportedDerivationPath pubKey compressed
       (ExternalAddrType (smAddrSchema s)))) (cacheImported E scope))"

definition ImportPrivateKey :: "('k, 'a, 'm) hdEnv_scheme \<Rightarrow> mgrStore \<Rightarrow> keyScope \<Rightarrow> wif \<Rightarrow> blockStamp option
    \<Rightarrow> (('k, 'a) manager, nat \<times> mgrStore) mop" where
  "ImportPrivateKey E ns scope w bs =
     (if \<not> wifForNet w then failM (managerError ErrWrongNet)
      else bindM getM (\<lambda>m.
        if IsLocked m \<and> \<not> WatchOnly m then failM (managerError ErrLocked)
        else
          bindM (liftM (if WatchOnly m then Inr [] else encryptWith E (mgCryptoKeyPriv m) (wifPrivKey w))) (\<lambda>encryptedPrivKey.
          bindM (getScoped scope) (\<lambda>s.
          bindM (importPublicKey E ns scope (SerializePubKey E w) encryptedPrivKey (ExternalAddrType (smAddrSchema s)) bs) (\<lambda>ns.
          bindM (if \<not> WatchOnly m then toImportedPrivateManagedAddress E scope w
            else toImportedPublicManagedAddress E scope (pubOf E (wifPrivKey w)) (wifCompress w)) (\<lambda>r.
          retM (r, ns)))))))"

definition ImportPublicKey :: "('k, 'a, 'm) hdEnv_scheme \<Rightarrow> mgrStore \<Rightarrow> keyScope \<Rightarrow> bytes \<Rightarrow> blockStamp option
    \<Rightarrow> (('k, 'a) manager, nat \<times> mgrStore) mop" where
  "ImportPublicKey E ns scope pubKey bs =
     bindM (getScoped scope) (\<lambda>s.
     bindM (importPublicKey E ns scope pubKey [] (ExternalAddrType (smAddrSchema s)) bs) (\<lambda>ns.
     bindM (toImportedPublicManagedAddress E scope pubKey True) (\<lambda>r.
     retM (r, ns))))"

section \<open>Scripts\<close>

text \<open>The new row and the managed address of a script; \<open>kind\<close> is its address type.\<close>

definition putScriptRow :: "('k, 'a, 'm) hdEnv_scheme \<Rightarrow> mgrStore \<Rightarrow> keyScope \<Rightarrow> bytes \<Rightarrow> u8 \<Rightarrow> u8 \<Rightarrow> bool
    \<Rightarrow> bytes \<Rightarrow> bytes \<Rightarrow> mgrStore mres" where
  "putScriptRow E ns scope scriptIdent kind witnessVersion isSecretScript encryptedHash encryptedScript =
     (if kind = WitnessScript \<or> kind = TaprootScript then
        putWitnessScriptAddress E ns scope scriptIdent ImportedAddrAccount ssNone witnessVersion isSecretScript
          encryptedHash encryptedScript
      else putScriptAddress E ns scope scriptIdent ImportedAddrAccount ssNone encryptedHash encryptedScript)"

definition newScriptOf :: "('k, 'a, 'm) hdEnv_scheme \<Rightarrow> bytes \<Rightarrow> u8 \<Rightarrow> u8 \<Rightarrow> bool \<Rightarrow> bytes \<Rightarrow> 'a managedAddr mres" where
  "newScriptOf E scriptIdent kind witnessVersion isSecretScript encryptedScript =
     (if kind = WitnessScript \<or> kind = TaprootScript then
        newWitnessScriptAddress E ImportedAddrAccount scriptIdent encryptedScript witnessVersion isSecretScript
      else newScriptAddress E ImportedAddrAccount scriptIdent encryptedScript)"

definition importScriptAddress :: "('k, 'a, 'm) hdEnv_scheme \<Rightarrow> mgrStore \<Rightarrow> keyScope \<Rightarrow> bytes mres \<Rightarrow> bytes
    \<Rightarrow> blockStamp option \<Rightarrow> u8 \<Rightarrow> u8 \<Rightarrow> bool \<Rightarrow> (('k, 'a) manager, nat \<times> mgrStore) mop" where
  "importScriptAddress E ns scope identity script bs kind witnessVersion isSecretScript = bindM getM (\<lambda>m.
     if isSecretScript \<and> IsLocked m then failM (managerError ErrLocked)
     else if isSecretScript \<and> WatchOnly m then failM (managerError ErrWatchingOnly)
     else
       bindM (liftM identity) (\<lambda>scriptIdent.
       bindM (existsAddress_scoped E ns scope scriptIdent) (\<lambda>alreadyExists.
       if alreadyExists then failM (managerError ErrDuplicateAddress)
       else
         bindM (liftM (encryptWith E (Some (mgCryptoKeyPub m)) scriptIdent)) (\<lambda>encryptedHash.
         bindM (liftM (encryptWith E (if isSecretScript then mgCryptoKeyScript m else Some (mgCryptoKeyPub m)) script))
           (\<lambda>encryptedScript.
         case bs of
           None \<Rightarrow> failM MgrPanic
         | Some bs \<Rightarrow>
             bindM (convertM (liftM (putScriptRow E ns scope scriptIdent kind witnessVersion isSecretScript
               encryptedHash encryptedScript))) (\<lambda>ns.
             bindM (liftM (newScriptOf E scriptIdent kind witnessVersion isSecretScript encryptedScript)) (\<lambda>managedAddr.
             bindM (if isBefore bs m then convertM (liftM (putStartBlock E ns bs)) else retM ns) (\<lambda>ns.
             bindM (allocAddr (setClearTextScript script managedAddr)) (\<lambda>r.
             bindM (modifyM (cacheAddr scope scriptIdent r)) (\<lambda>_.
             bindM (if isBefore bs m then modifyM (setStartBlock bs) else retM ()) (\<lambda>_.
             retM (r, ns))))))))))))"

definition ImportScript :: "('k, 'a, 'm) hdEnv_scheme \<Rightarrow> mgrStore \<Rightarrow> keyScope \<Rightarrow> bytes \<Rightarrow> blockStamp option
    \<Rightarrow> (('k, 'a) manager, nat \<times> mgrStore) mop" where
  "ImportScript E ns scope script bs =
     importScriptAddress E ns scope (Inr (hash160 E script)) script bs Script 0 True"

definition ImportWitnessScript :: "('k, 'a, 'm) hdEnv_scheme \<Rightarrow> mgrStore \<Rightarrow> keyScope \<Rightarrow> bytes \<Rightarrow> blockStamp option
    \<Rightarrow> u8 \<Rightarrow> bool \<Rightarrow> (('k, 'a) manager, nat \<times> mgrStore) mop" where
  "ImportWitnessScript E ns scope script bs witnessVersion isSecretScript =
     importScriptAddress E ns scope (Inr (sha256 E script)) script bs WitnessScript witnessVersion isSecretScript"

section \<open>Taproot scripts\<close>

text \<open>
  \<open>tapLib\<close> holds what \<open>txscript\<close> and \<open>tlv\<close> provide: the parts of a control block \<open>'c\<close>, the root hash of a
  tree of leaves, the output key of an internal key and a root, the x-only serialization of a key, and the bytes
  of a number and of a stream of records.
\<close>

record tapLeaf =
  LeafVersion :: u8
  leafScript :: bytes

record 'c tapscript =
  tapType :: u8
  ControlBlock :: "'c option"
  Leaves :: "tapLeaf list"
  RevealedScript :: bytes
  RootHash :: bytes
  FullOutputKey :: "bytes option"

record 'c tapLib =
  internalKeyOf :: "'c \<Rightarrow> bytes option"
  controlRoot :: "'c \<Rightarrow> bytes \<Rightarrow> bytes"
  controlBytes :: "'c \<Rightarrow> bytes option"
  treeRoot :: "tapLeaf list \<Rightarrow> bytes"
  outputKey :: "bytes \<Rightarrow> bytes \<Rightarrow> bytes"
  schnorrBytes :: "bytes \<Rightarrow> bytes"
  varIntBytes :: "nat \<Rightarrow> bytes"
  encodeStream :: "(nat \<times> bytes) list \<Rightarrow> bytes option"

definition TapscriptTypeFullTree :: u8 where "TapscriptTypeFullTree = 0"
definition TapscriptTypePartialReveal :: u8 where "TapscriptTypePartialReveal = 1"
definition TaprootKeySpendRootHash :: u8 where "TaprootKeySpendRootHash = 2"
definition TaprootFullKeyOnly :: u8 where "TaprootFullKeyOnly = 3"

text \<open>The \<open>nil\<close> full output key is passed on, as \<open>None\<close>.\<close>

definition TaprootKey :: "'c tapLib \<Rightarrow> 'c tapscript \<Rightarrow> bytes option mres" where
  "TaprootKey T t =
     (case Option.bind (ControlBlock t) (internalKeyOf T) of
        None \<Rightarrow> if tapType t = TaprootFullKeyOnly then Inr (FullOutputKey t) else Inl MgrFmtErr
      | Some internalKey \<Rightarrow>
          if tapType t = TapscriptTypeFullTree then
            (if Leaves t = [] then Inl MgrFmtErr else Inr (Some (outputKey T internalKey (treeRoot T (Leaves t)))))
          else if tapType t = TapscriptTypePartialReveal then
            (if RevealedScript t = [] then Inl MgrFmtErr
             else Inr (Some (outputKey T internalKey (controlRoot T (the (ControlBlock t)) (RevealedScript t)))))
          else if tapType t = TaprootKeySpendRootHash then
            (if RootHash t = [] then Inl MgrFmtErr else Inr (Some (outputKey T internalKey (RootHash t))))
          else if tapType t = TaprootFullKeyOnly then Inr (FullOutputKey t)
          else Inl MgrFmtErr)"

definition leafEncoder :: "'c tapLib \<Rightarrow> tapLeaf \<Rightarrow> bytes mres" where
  "leafEncoder T c =
     bindE (fromLib (encodeStream T ((1, [LeafVersion c]) # (if leafScript c = [] then [] else [(2, leafScript c)])))) (\<lambda>leafTLVBytes.
     Inr (varIntBytes T (length leafTLVBytes) @ leafTLVBytes))"

definition leavesEncoder :: "'c tapLib \<Rightarrow> tapLeaf list \<Rightarrow> bytes mres" where
  "leavesEncoder T leaves = foldE (\<lambda>c w. bindE (leafEncoder T c) (\<lambda>b. Inr (w @ b))) leaves []"

definition tlvEncodeTaprootScript :: "'c tapLib \<Rightarrow> 'c tapscript \<Rightarrow> bytes mres" where
  "tlvEncodeTaprootScript T s =
     bindE (case ControlBlock s of
         None \<Rightarrow> Inr []
       | Some c \<Rightarrow> if internalKeyOf T c = None then Inl MgrFmtErr
           else bindE (wrapped (fromLib (controlBytes T c))) (\<lambda>blockBytes. Inr [(2, blockBytes)])) (\<lambda>block.
     bindE (if Leaves s = [] then Inr [] else bindE (leavesEncoder T (Leaves s)) (\<lambda>b. Inr [(3, b)])) (\<lambda>leaves.
     fromLib (encodeStream T ([(1, [tapType s])] @ block @ leaves
       @ (if RevealedScript s = [] then [] else [(4, RevealedScript s)])
       @ (if RootHash s = [] then [] else [(5, RootHash s)])
       @ (case FullOutputKey s of None \<Rightarrow> [] | Some k \<Rightarrow> [(6, schnorrBytes T k)])))))"

definition ImportTaprootScript :: "('k, 'a, 'm) hdEnv_scheme \<Rightarrow> 'c tapLib \<Rightarrow> mgrStore \<Rightarrow> keyScope \<Rightarrow> 'c tapscript
    \<Rightarrow> blockStamp option \<Rightarrow> u8 \<Rightarrow> bool \<Rightarrow> (('k, 'a) manager, nat \<times> mgrStore) mop" where
  "ImportTaprootScript E T ns scope tapscript bs witnessVersion isSecretScript =
     bindM (liftM (wrapped (TaprootKey T tapscript))) (\<lambda>taprootKey.
     bindM (liftM (wrapped (tlvEncodeTaprootScript T tapscript))) (\<lambda>script.
     importScriptAddress E ns scope (case taprootKey of None \<Rightarrow> Inl MgrPanic | Some k \<Rightarrow> Inr (schnorrBytes T k))
       script bs TaprootScript witnessVersion isSecretScript))"

end
