(* ===== verification/Mgr_Root.thy ===== *)
theory Mgr_Root
  imports Mgr_Account
begin

text \<open>
  Looking up and iterating over accounts and addresses, in one scope (\<open>waddrmgr/scoped_manager.go\<close>) and over
  all scopes (\<open>waddrmgr/manager.go\<close>).  The code ranges over the Go map of scoped managers; \<open>order\<close> is the order
  in which it visits the scopes.  A callback carries a state \<open>'s\<close>.
\<close>

section \<open>Scopes\<close>

definition FetchScopedKeyManager :: "('k, 'a) manager \<Rightarrow> keyScope \<Rightarrow> 'k scopedKeyManager mres" where
  "FetchScopedKeyManager m scope = (case map_of (mgScoped m) scope of
     None \<Rightarrow> Inl (managerError ErrScopeNotFound)
   | Some sm \<Rightarrow> Inr sm)"

definition ScopesForExternalAddrType :: "('k, 'a) manager \<Rightarrow> u8 \<Rightarrow> keyScope list" where
  "ScopesForExternalAddrType m atype = (case map_of (mgExternalSchemas m) atype of None \<Rightarrow> [] | Some ss \<Rightarrow> ss)"

definition ScopesForInternalAddrTypes :: "('k, 'a) manager \<Rightarrow> u8 \<Rightarrow> keyScope list" where
  "ScopesForInternalAddrTypes m atype = (case map_of (mgInternalSchemas m) atype of None \<Rightarrow> [] | Some ss \<Rightarrow> ss)"

definition IsWatchOnlyAccount_mgr :: "('k, 'a, 'm) hdEnv_scheme \<Rightarrow> mgrStore \<Rightarrow> keyScope \<Rightarrow> u32
    \<Rightarrow> (('k, 'a) manager, bool) mop" where
  "IsWatchOnlyAccount_mgr E ns keyScope account = bindM getM (\<lambda>m.
     if WatchOnly m \<or> account = ImportedAddrAccount then retM True
     else bindM (liftM (FetchScopedKeyManager m keyScope)) (\<lambda>_. IsWatchOnlyAccount_scoped E ns keyScope account))"

section \<open>Finding an address or an account\<close>

text \<open>The first scope that knows the address, and the managed address there; errors are passed over.\<close>

fun findOwner :: "('k, 'a, 'm) hdEnv_scheme \<Rightarrow> mgrStore \<Rightarrow> keyScope list \<Rightarrow> 'a
    \<Rightarrow> (('k, 'a) manager, keyScope \<times> nat) mop" where
  "findOwner E ns [] address m = (Inl (managerError ErrAddressNotFound), m)"
| "findOwner E ns (sc # scs) address m = (case Address_scoped E ns sc address m of
     (Inl e, m) \<Rightarrow> if e = MgrPanic then (Inl e, m) else findOwner E ns scs address m
   | (Inr r, m) \<Rightarrow> (Inr (sc, r), m))"

definition Address_mgr :: "('k, 'a, 'm) hdEnv_scheme \<Rightarrow> mgrStore \<Rightarrow> keyScope list \<Rightarrow> 'a \<Rightarrow> (('k, 'a) manager, nat) mop" where
  "Address_mgr E ns order address = bindM (findOwner E ns order address) (\<lambda>(_, r). retM r)"

definition MarkUsed_mgr :: "('k, 'a, 'm) hdEnv_scheme \<Rightarrow> mgrStore \<Rightarrow> keyScope list \<Rightarrow> 'a \<Rightarrow> (('k, 'a) manager, mgrStore) mop" where
  "MarkUsed_mgr E ns order address =
     bindM (findOwner E ns order address) (\<lambda>(sc, _). MarkUsed_scoped E ns sc address)"

definition AddrAccount_mgr :: "('k, 'a, 'm) hdEnv_scheme \<Rightarrow> mgrStore \<Rightarrow> keyScope list \<Rightarrow> 'a
    \<Rightarrow> (('k, 'a) manager, keyScope \<times> u32) mop" where
  "AddrAccount_mgr E ns order address =
     bindM (findOwner E ns order address) (\<lambda>(sc, _).
     bindM (liftM (AddrAccount_scoped E ns sc address)) (\<lambda>accNo. retM (sc, accNo)))"

fun LookupAccount_mgr :: "mgrStore \<Rightarrow> keyScope list \<Rightarrow> gostring \<Rightarrow> (keyScope \<times> u32) mres" where
  "LookupAccount_mgr ns [] name = Inl (managerError ErrAccountNotFound)"
| "LookupAccount_mgr ns (sc # scs) name = (case lookupAccount ns sc name of
     Inl e \<Rightarrow> if e = MgrPanic then Inl e else LookupAccount_mgr ns scs name
   | Inr acct \<Rightarrow> Inr (sc, acct))"

section \<open>Visiting addresses\<close>

text \<open>\<open>forEachAccountAddress\<close> and \<open>forEachActiveAddress\<close> for callbacks that work on the manager.\<close>

definition visitRows :: "mgrStore \<Rightarrow> keyScope \<Rightarrow> (scopeStore \<Rightarrow> bucket option)
    \<Rightarrow> (addrRowInterface \<Rightarrow> 's \<Rightarrow> (('k, 'a) manager, 's) mop) \<Rightarrow> 's \<Rightarrow> (('k, 'a) manager, 's) mop" where
  "visitRows ns scope sub fn st =
     bindM (liftM (fetchReadScopeBucket ns scope)) (\<lambda>s.
     case sub s of
       None \<Rightarrow> retM st
     | Some b \<Rightarrow> convertM (foldM_mop (\<lambda>(k, _) st.
         bindM (liftM (fetchAddressByHash ns scope k)) (\<lambda>row. fn row st)) (entries b) st))"

definition ForEachAccountAddress_scoped :: "('k, 'a, 'm) hdEnv_scheme \<Rightarrow> mgrStore \<Rightarrow> u32
    \<Rightarrow> (nat \<Rightarrow> 's \<Rightarrow> (('k, 'a) manager, 's) mop) \<Rightarrow> keyScope \<Rightarrow> 's \<Rightarrow> (('k, 'a) manager, 's) mop" where
  "ForEachAccountAddress_scoped E ns account fn scope st =
     convertM (visitRows ns scope (\<lambda>s. acctAddrs s account) (\<lambda>row st.
       bindM (rowInterfaceToManaged E ns scope row) (\<lambda>managedAddr. fn managedAddr st)) st)"

definition visitActive :: "('k, 'a, 'm) hdEnv_scheme \<Rightarrow> mgrStore \<Rightarrow> ('a managedAddr \<Rightarrow> bool)
    \<Rightarrow> ('a \<Rightarrow> 's \<Rightarrow> (('k, 'a) manager, 's) mop) \<Rightarrow> keyScope \<Rightarrow> 's \<Rightarrow> (('k, 'a) manager, 's) mop" where
  "visitActive E ns wanted fn scope st =
     convertM (visitRows ns scope (\<lambda>s. Some (scAddr s)) (\<lambda>row st.
       bindM (rowInterfaceToManaged E ns scope row) (\<lambda>managedAddr.
       bindM getM (\<lambda>m.
       if \<not> wanted (mgHeap m ! managedAddr) then retM st
       else bindM (liftM (addressOf_ma (mgHeap m ! managedAddr))) (\<lambda>address. fn address st)))) st)"

definition ForEachActiveAddress_scoped :: "('k, 'a, 'm) hdEnv_scheme \<Rightarrow> mgrStore
    \<Rightarrow> ('a \<Rightarrow> 's \<Rightarrow> (('k, 'a) manager, 's) mop) \<Rightarrow> keyScope \<Rightarrow> 's \<Rightarrow> (('k, 'a) manager, 's) mop" where
  "ForEachActiveAddress_scoped E ns = visitActive E ns (\<lambda>_. True)"

definition ForEachInternalActiveAddress :: "('k, 'a, 'm) hdEnv_scheme \<Rightarrow> mgrStore
    \<Rightarrow> ('a \<Rightarrow> 's \<Rightarrow> (('k, 'a) manager, 's) mop) \<Rightarrow> keyScope \<Rightarrow> 's \<Rightarrow> (('k, 'a) manager, 's) mop" where
  "ForEachInternalActiveAddress E ns = visitActive E ns internal_ma"

definition ForEachAccountAddress_mgr :: "('k, 'a, 'm) hdEnv_scheme \<Rightarrow> mgrStore \<Rightarrow> keyScope list \<Rightarrow> u32
    \<Rightarrow> (nat \<Rightarrow> 's \<Rightarrow> (('k, 'a) manager, 's) mop) \<Rightarrow> 's \<Rightarrow> (('k, 'a) manager, 's) mop" where
  "ForEachAccountAddress_mgr E ns order account fn = foldM_mop (ForEachAccountAddress_scoped E ns account fn) order"

definition ForEachActiveAddress_mgr :: "('k, 'a, 'm) hdEnv_scheme \<Rightarrow> mgrStore \<Rightarrow> keyScope list
    \<Rightarrow> ('a \<Rightarrow> 's \<Rightarrow> (('k, 'a) manager, 's) mop) \<Rightarrow> 's \<Rightarrow> (('k, 'a) manager, 's) mop" where
  "ForEachActiveAddress_mgr E ns order fn = foldM_mop (ForEachActiveAddress_scoped E ns fn) order"

text \<open>Outside the default scopes only the internal addresses are relevant.\<close>

definition ForEachRelevantActiveAddress :: "('k, 'a, 'm) hdEnv_scheme \<Rightarrow> (keyScope \<Rightarrow> bool) \<Rightarrow> mgrStore \<Rightarrow> keyScope list
    \<Rightarrow> ('a \<Rightarrow> 's \<Rightarrow> (('k, 'a) manager, 's) mop) \<Rightarrow> 's \<Rightarrow> (('k, 'a) manager, 's) mop" where
  "ForEachRelevantActiveAddress E isDefaultKeyScope ns order fn = foldM_mop (\<lambda>sc.
     if isDefaultKeyScope sc then ForEachActiveAddress_scoped E ns fn sc
     else ForEachInternalActiveAddress E ns fn sc) order"

end
