(* ===== verification/Witness_Mgr.thy ===== *)
theory Witness_Mgr
  imports Witness_Chain Mgr_Creates Mgr_Derive Mgr_Import Mgr_Root
begin

text \<open>
  The properties of the address manager at concrete inputs.  \<open>envK\<close> is a toy of the libraries that keeps
  their contract: a key is the path it was derived along, its child number 2 is invalid, a box is the
  message after half of the key, and an address is the bytes it is made from.
\<close>

definition envK :: "(bytes, bytes) hdEnv" where
  "envK = \<lparr>mgrFails = \<lambda>_. False, mgrNow = 0, sha256 = \<lambda>x. take 32 (x @ replicate 32 0),
     nonceFor = \<lambda>_ _. Some (replicate 24 9), randomRead = \<lambda>_. Some (replicate 32 5),
     secretbox = \<lambda>_ k m. take 16 (k @ replicate 16 0) @ m,
     unbox = \<lambda>_ k c. if take 16 c = take 16 (k @ replicate 16 0) then Some (drop 16 c) else None,
     scryptKey = \<lambda>p s _. Some (take 32 (p @ replicate 32 0)), sha512 = \<lambda>x. x,
     newKey = Some, keyString = \<lambda>k. k, deriveChild = \<lambda>k i. if i = 2 then Inl InvalidChild else Inr (ucast i # k),
     neuter = Some, isPrivate = \<lambda>_. False, childIndex = \<lambda>_. 0, ecPrivKey = Some, ecPubKey = Some,
     pubOf = \<lambda>k. k, uncompressed = \<lambda>k. k, parsePubKey = Some, hash160 = \<lambda>x. x, taprootKey = \<lambda>x. x, xOnlyKey = Some,
     addrPubKeyHash = Some, addrWitnessPubKeyHash = Some, addrScript = Some, addrScriptHash = Some,
     addrWitnessScriptHash = Some, addrTaproot = Some, payToAddr = Some, pubKeyToHash = \<lambda>a. a,
     scriptAddress = \<lambda>a. a, addrString = \<lambda>a. a, signVerifies = \<lambda>_ _ _. True\<rparr>"

lemma envK_ok: "mgr_db_ok envK" "snacl_ok envK"
  by (auto simp: mgr_db_ok_def snacl_ok_def envK_def min_def)

section \<open>Secret keys\<close>

definition keyP :: bytes where "keyP = 2 # replicate 31 0"
definition ckK :: bytes where "ckK = replicate 32 6"

definition skP :: secretKey where
  "skP = \<lparr>skKey = Some zeroKey, skParameters = \<lparr>pSalt = replicate 32 5, pDigest = keyP, pN = 2 ^ 18, pR = 8, pP = 1\<rparr>\<rparr>"

definition encK :: bytes where "encK = replicate 24 9 @ take 16 keyP @ ckK"

lemma lengths [simp]: "length keyP = 32" "length ckK = 32" "length encK = 72" "skKey skP = Some zeroKey"
  by (simp_all add: keyP_def ckK_def encK_def skP_def)

lemma opens_keyP: "opens envK (skParameters skP) [2] keyP"
  by (simp add: opens_def scryptOf_def skP_def envK_def keyP_def numeral_eq_Suc)

lemma decrypt_encK: "CryptoKey_Decrypt envK keyP encK = Inr ckK"
  by (simp add: CryptoKey_Decrypt_def encK_def keyP_def envK_def)

lemma guarded_encK: "guarded envK (skParameters skP) encK [2] ckK"
  unfolding guarded_def using opens_keyP decrypt_encK by auto

section \<open>A manager\<close>

definition acctK :: "bytes accountInfo" where
  "acctK = \<lparr>acctName = [97], aiType = 0, acctKeyEncrypted = replicate 24 9 @ take 16 ckK @ [7], acctKeyPriv = Some [7],
     acctKeyPub = Some [7], nextExternalIndex = 2, lastExternalAddr = None, nextInternalIndex = 0, lastInternalAddr = None,
     aiAddrSchema = None, masterKeyFingerprint = 0\<rparr>"

definition scopedK :: "bytes scopedKeyManager" where
  "scopedK = \<lparr>smScope = KeyScopeBIP0084, smAddrSchema = \<lparr>ExternalAddrType = WitnessPubKey, InternalAddrType = WitnessPubKey\<rparr>,
     smAddrs = [], smAcctInfo = [(0, acctK)], smDeriveOnUnlock = [], smPrivKeyCache = []\<rparr>"

definition mgrK :: "bool \<Rightarrow> (bytes, bytes) manager" where
  "mgrK locked = \<lparr>mgScoped = [(KeyScopeBIP0084, scopedK)], mgExternalSchemas = [], mgInternalSchemas = [],
     mgSyncState = newSyncState stamp0 stamp0, mgWatchingOnly = False, mgBirthday = 0, mgLocked = locked, mgClosed = False,
     mgMasterKeyPub = skP, mgMasterKeyPriv = Some skP, mgCryptoKeyPub = ckK, mgCryptoKeyPrivEncrypted = encK,
     mgCryptoKeyPriv = Some ckK, mgCryptoKeyScriptEncrypted = encK, mgCryptoKeyScript = Some ckK,
     mgSalt = replicate 32 5, mgHashedPass = zeroPass, mgHeap = []\<rparr>"

lemma mgrK_ready: "master_ready (mgrK b) skP" "\<not> WatchOnly (mgrK b)" "IsLocked (mgrK b) = b"
  "mgCryptoKeyPrivEncrypted (mgrK b) = encK" "mgCryptoKeyScriptEncrypted (mgrK b) = encK"
  by (simp_all add: master_ready_def mgrK_def WatchOnly_def IsLocked_def)

lemma mgrK_holds: "holds_keys envK ckK (mgrK b)"
  by (simp add: holds_keys_def mgrK_def scopedK_def acctK_def decryptKey_def decryptWith_def CryptoKey_Decrypt_def envK_def ckK_def)


text \<open>The same manager with two cached addresses, of a public key and of a witness script, and an address
  of a public key that is not cached.\<close>

definition keyAddrK :: "bytes managedAddress" where
  "keyAddrK = \<lparr>maPath = ImportedDerivationPath, maAddress = Some [1], maImported = True, maInternal = False,
     maCompressed = True, maAddrType = WitnessPubKey, maPubKey = [1], maPrivKeyEncrypted = [2], maPrivKeyCT = [3]\<rparr>"

definition scriptAddrK :: "bytes witnessScriptAddress" where
  "scriptAddrK = \<lparr>saAccount = ImportedAddrAccount, saAddress = [4], saScriptEncrypted = [5], saScriptClearText = [6],
     waVersion = 0, waIsSecret = True\<rparr>"

definition mgrA :: "(bytes, bytes) manager" where
  "mgrA = (mgrK False)\<lparr>mgScoped := [(KeyScopeBIP0084, scopedK\<lparr>smAddrs := [([1], 0), ([4], 1)]\<rparr>)],
     mgHeap := [PubKeyAddr keyAddrK, WitnessScriptAddr scriptAddrK, PubKeyAddr keyAddrK]\<rparr>"

lemma mgrA: "master_ready mgrA skP" "\<not> WatchOnly mgrA" "\<not> IsLocked mgrA" "mgCryptoKeyPrivEncrypted mgrA = encK"
  "holds_keys envK ckK mgrA"
  by (simp_all add: master_ready_def mgrA_def mgrK_def WatchOnly_def IsLocked_def
      holds_keys_def scopedK_def acctK_def decryptKey_def decryptWith_def CryptoKey_Decrypt_def envK_def ckK_def)

lemma Lock_Unlock_witness:
  "\<exists>m1 m2. Lock mgrA = (Inr (), m1) \<and> addr_clear (mgHeap m1 ! 0)
    \<and> mgHeap m1 ! 1 = WitnessScriptAddr scriptAddrK \<and> mgHeap m1 ! 2 = PubKeyAddr keyAddrK
    \<and> Unlock envK nsM [2] m1 = (Inr (), m2) \<and> mgScoped m2 = mgScoped mgrA"
proof -
  have g: "guarded envK (skParameters skP) (mgCryptoKeyPrivEncrypted mgrA) [2] ckK" by (simp add: mgrA(4) guarded_encK)
  obtain m1 m2 where l: "Lock mgrA = (Inr (), m1)" "locked_clear m1" "lock_leaves mgrA m1"
      "Unlock envK nsM [2] m1 = (Inr (), m2)" "mgScoped m2 = mgScoped mgrA"
    using Lock_Unlock[OF envK_ok(2) mgrA(2,3,1,5) g, of nsM] by blast
  have heap: "mgHeap mgrA = [PubKeyAddr keyAddrK, WitnessScriptAddr scriptAddrK, PubKeyAddr keyAddrK]"
      "cachedRefs mgrA = [0, 1]" by (simp_all add: mgrA_def cachedRefs_def)
  have "map (\<lambda>(sc, s). (sc, smAddrs s, smPrivKeyCache s)) (mgScoped m1)
      = [(KeyScopeBIP0084, [([1], 0), ([4], 1)], [])]" and len: "length (mgHeap m1) = 3"
    using l(3) by (simp_all add: lock_leaves_def mgrA_def scopedK_def)
  then have "0 \<in> set (cachedRefs m1)" by (auto simp: cachedRefs_def map_eq_Cons_conv)
  then have "addr_clear (mgHeap m1 ! 0)" using l(2) len by (auto simp: locked_clear_def)
  moreover have "mgHeap m1 ! 1 = WitnessScriptAddr scriptAddrK" "mgHeap m1 ! 2 = PubKeyAddr keyAddrK"
    using l(3) unfolding lock_leaves_def heap by auto
  ultimately show ?thesis using l by blast
qed

lemma ChangePassphrase_private_witness:
  "\<exists>ns' m' sk'. ChangePassphrase envK 0 nsM [2] [4] True (16, 8, 1) (mgrK True) = (Inr ns', m')
    \<and> guarded envK (skParameters sk') (mgCryptoKeyPrivEncrypted m') [4] ckK \<and> mainAt ns' masterPrivKeyName = Some (Marshal sk')"
proof -
  have main: "mgrMain nsM \<noteq> None" by (simp add: nsM_def)
  obtain mk where mk: "newSecretKey envK 0 [4] (16, 8, 1) = Inr mk"
    by (simp add: newSecretKey_def NewSecretKey_def deriveKey_sk_def scryptOf_def envK_def Let_def)
  show ?thesis
    using ChangePassphrase_private[OF envK_ok(2,1) main mgrK_ready(2,1) mk, of True "[2]"] opens_keyP decrypt_encK
    unfolding mgrK_ready(4,5) by fastforce
qed

section \<open>Creating\<close>

definition ns0 :: mgrStore where
  "ns0 = \<lparr>mgrMain = None, mgrSync = None, mgrSchema = None, mgrScopes = None\<rparr>"

lemma created: "\<exists>ns'. Create envK 0 ns0 (Some [7]) [1] [2] (77, 0) None 0 = Inr ns'"
proof (rule Create_runs[OF envK_ok(2,1)])
  show "\<exists>mk. newSecretKey envK i pw (case None of None \<Rightarrow> DefaultScryptOptions | Some c \<Rightarrow> c) = Inr mk" for i pw
    by (simp add: newSecretKey_def NewSecretKey_def deriveKey_sk_def scryptOf_def envK_def Let_def DefaultScryptOptions_def)
  show "scope_derives envK [7] sc" if "sc \<in> set DefaultKeyScopes" for sc
    using that unfolding scope_derives_def
    by (auto simp: DefaultKeyScopes_def KeyScopeBIP0049Plus_def KeyScopeBIP0084_def KeyScopeBIP0086_def KeyScopeBIP0044_def
        deriveCoinTypeKey_def deriveAccountKey_def checkBranchKeys_def envK_def maxCoinType_def HardenedKeyStart_def MaxAccountNum_def
        fromDerive_def ExternalBranch_mgr_def InternalBranch_mgr_def)
qed (simp_all add: ns0_def envK_def)

lemma Create_Open_witness:
  "\<exists>ns' m. Create envK 0 ns0 (Some [7]) [1] [2] (77, 0) None 0 = Inr ns' \<and> Open envK 9 ns' [1] = Inr m
    \<and> IsLocked m \<and> stampHash (SyncedTo (mgSyncState m)) = 77"
proof -
  obtain ns' where ns': "Create envK 0 ns0 (Some [7]) [1] [2] (77, 0) None 0 = Inr ns'" using created by blast
  from Create_Open[OF envK_ok(2) ns', of 9] obtain m where "Open envK 9 ns' [1] = Inr m" "IsLocked m"
      "stampHash (SyncedTo (mgSyncState m)) = 77" by auto
  then show ?thesis using ns' by blast
qed

lemma Create_Unlock_witness:
  "\<exists>ns' m m'. Create envK 0 ns0 (Some [7]) [1] [2] (77, 0) None 0 = Inr ns' \<and> Open envK 9 ns' [1] = Inr m
    \<and> Unlock envK ns' [2] m = (Inr (), m') \<and> fetchRootKey envK m' ns' = Inr [7]"
proof -
  obtain ns' where ns': "Create envK 0 ns0 (Some [7]) [1] [2] (77, 0) None 0 = Inr ns'" using created by blast
  from Open_created[OF envK_ok(2) ns', of 9] obtain m where m: "Open envK 9 ns' [1] = Inr m" by auto
  from Create_Unlock[OF envK_ok(2) ns' m] show ?thesis using ns' m by (auto simp: envK_def)
qed

section \<open>Accounts and addresses\<close>

definition scopeK :: scopeStore where
  "scopeK = (withLast 0 (enterAccount (uint32ToBytes 0) (accountValue rowA) [97] emptyScope))\<lparr>scKeys :=
     bucketPut (bucketPut bucketEmpty coinTypePubKeyName [3]) coinTypePrivKeyName (replicate 24 9 @ take 16 ckK @ [7])\<rparr>"

definition nsK :: mgrStore where
  "nsK = nsM\<lparr>mgrScopes := Some [(scopeToBytes KeyScopeBIP0084, scopeK)]\<rparr>"

lemma scopeK_at: "scopeAt nsK KeyScopeBIP0084 = Some scopeK"
  by (simp add: nsK_def scopeAt_def)

lemma scopeK_books: "books scopeK [uint32ToBytes 0 \<mapsto> rowA]" "tables scopeK Map.empty"
proof -
  let ?s = "enterAccount (uint32ToBytes 0) (accountValue rowA) [97] emptyScope"
  have n: "rowName rowA = [97]" by (simp add: rowA_def)
  have "account_ok rowA" by (simp add: rowA_def account_ok_made)
  from books_enter[OF empty_scope(1) this, of "uint32ToBytes 0"] n
  have b: "books ?s [uint32ToBytes 0 \<mapsto> rowA]" by (simp add: forgetName_def name_free_def)
  show "books scopeK [uint32ToBytes 0 \<mapsto> rowA]"
    using b by (rule books_frame[THEN iffD1, rotated -1]) (simp_all add: scopeK_def withLast_def)
  show "tables scopeK Map.empty"
    using empty_scope(2) unfolding scopeK_def by (simp add: tables_def withLast_def enterAccount_def addressOf_def in_account_def acctAddrs_def)
qed

lemma directoryK: "directory_at nsK KeyScopeBIP0084 [uint32ToBytes 0 \<mapsto> rowA] 0"
proof -
  have "directory scopeK [uint32ToBytes 0 \<mapsto> rowA] 0"
  proof (rule directoryI[OF scopeK_books(1)])
    show "bucketGet (scMeta scopeK) lastAccountName = Some (uint32ToBytes 0)" by (simp add: scopeK_def withLast_def)
  qed (auto simp: ImportedAddrAccount_def MaxAccountNum_def HardenedKeyStart_def split: if_splits)
  then show ?thesis using scopeK_at by (auto simp: directory_at_def)
qed

lemma encryptK: "encryptWith envK (Some ckK) x = Inr (replicate 24 9 @ take 16 ckK @ x)"
  "decryptWith envK (Some ckK) (replicate 24 9 @ take 16 ckK @ x) = Inr x"
  by (simp_all add: encryptWith_def decryptWith_def CryptoKey_Encrypt_def CryptoKey_Decrypt_def envK_def ckK_def)

lemma accountKeysK: "accountKeys envK (mgrK False) nsK KeyScopeBIP0084 1
    = Inr (replicate 24 9 @ take 16 ckK @ [1, 7], replicate 24 9 @ take 16 ckK @ [1, 7])"
proof -
  have d: "coinTypePubKeyName \<noteq> coinTypePrivKeyName" by (simp add: key_defs ascii_def)
  have "fetchCoinTypeKeys nsK KeyScopeBIP0084 = Inr ([3], replicate 24 9 @ take 16 ckK @ [7])"
    by (simp add: fetchCoinTypeKeys_def fetchScope_at[OF scopeK_at] scopeK_def bucketGet_upd d)
  moreover have "deriveAccountKey envK [7] 1 = Inr [1, 7]" "newKey envK k = Some k" "neuter envK k = Some k" "keyString envK k = k" for k
    by (simp_all add: deriveAccountKey_def envK_def MaxAccountNum_def HardenedKeyStart_def fromDerive_def)
  moreover have "mgCryptoKeyPriv (mgrK False) = Some ckK" "mgCryptoKeyPub (mgrK False) = ckK" by (simp_all add: mgrK_def)
  ultimately show ?thesis by (simp add: accountKeys_def encryptK del: append_assoc)
qed

lemma NewAccount_spec_witness:
  "\<exists>ns'. NewAccount envK (mgrK False) nsK KeyScopeBIP0084 [98] = Inr (1, ns')
    \<and> NewAccount envK (mgrK False) nsK KeyScopeBIP0084 [97] = Inl (managerError ErrDuplicateAccount)"
proof -
  have l: "(0 :: u32) + 1 < ImportedAddrAccount" "ImportedAddrAccountName \<noteq> [b]" for b
    by (simp_all add: ImportedAddrAccount_def MaxAccountNum_def HardenedKeyStart_def ImportedAddrAccountName_def ascii_def)
  have r: "rowName rowA = [97]" by (simp add: rowA_def)
  note spec = NewAccount_spec[OF envK_ok(1) directoryK l(1), of "mgrK False", simplified, OF accountKeysK]
  show ?thesis
    using spec[of "[98]"] spec[of "[97]"] l(2) by (auto simp: mgrK_ready r eq_commute[of "[_]" ImportedAddrAccountName])
qed

lemma RenameAccount_spec_witness:
  "\<exists>ns'. RenameAccount envK nsK KeyScopeBIP0084 0 [98] (mgrK False) = (Inr ns', renameCached KeyScopeBIP0084 0 [98] (mgrK False))"
proof -
  have l: "(0 :: u32) \<noteq> ImportedAddrAccount" "ImportedAddrAccountName \<noteq> [98]"
    by (simp_all add: ImportedAddrAccount_def MaxAccountNum_def HardenedKeyStart_def ImportedAddrAccountName_def ascii_def)
  have r: "rowName rowA = [97]" by (simp add: rowA_def)
  note spec = RenameAccount_spec[OF envK_ok(1) directoryK, where a = 0 and name = "[98]" and m = "mgrK False"]
  have ok: "account_ok (renamed [98] r)" if "[uint32ToBytes 0 \<mapsto> rowA] (uint32ToBytes (0 :: u32)) = Some r" for r
  proof -
    have r: "renamed [98] rowA = defaultAccount [1] [2] 0 0 [98]" by (simp add: renamed_def rowA_def defaultAccount_def)
    show ?thesis using that by (auto simp: r account_ok_made)
  qed
  show ?thesis
    using spec[OF ok] l r by (auto simp: eq_commute[of "[_]" ImportedAddrAccountName])
qed

definition addrZ :: "bytes managedAddress" where
  "addrZ = \<lparr>maPath = ImportedDerivationPath, maAddress = None, maImported = False, maInternal = False,
     maCompressed = True, maAddrType = 0, maPubKey = [], maPrivKeyEncrypted = [], maPrivKeyCT = []\<rparr>"

lemma nextChildren_first_valid_witness:
  "nextChildren envK (\<lambda>k _. Inr (addrZ\<lparr>maPubKey := k\<rparr>)) [0, 7] 2 1
    = Some (Inr ([(addrZ\<lparr>maPubKey := [1, 0, 7]\<rparr>, 1), (addrZ\<lparr>maPubKey := [3, 0, 7]\<rparr>, 3)], 4))"
proof -
  have d: "deriveChild envK [0, 7] i = (if i = 2 then Inl InvalidChild else Inr [ucast i, 0, 7])" for i by (simp add: envK_def)
  have o: "only_invalid envK [0, 7]" by (simp add: only_invalid_def d)
  have v: "filter (validChild envK [0, 7]) [1..<5] = [1, 3, 4]"
    by (simp add: validChild_def d upt_conv_Cons)
  have "nextChildren envK (\<lambda>k _. Inr (addrZ\<lparr>maPubKey := k\<rparr>)) [0, 7] 2 (word_of_nat 1) = Some (Inr
      (map (\<lambda>j. (addrZ\<lparr>maPubKey := [ucast (word_of_nat j :: u32), 0, 7]\<rparr>, word_of_nat j)) (take 2 (filter (validChild envK [0, 7]) [1..<5])),
       word_of_nat (if (2 :: nat) = 0 then 1 else Suc (last (take 2 (filter (validChild envK [0, 7]) [1..<5]))))))"
    by (rule nextChildren_first_valid[OF o]) (auto simp: d v simp del: One_nat_def split: if_splits)
  then show ?thesis unfolding v by simp
qed

text \<open>The next external address of the account \<open>acctK\<close>, whose next index 2 is invalid.\<close>

definition addrN :: "bytes managedAddress" where
  "addrN = addrZ\<lparr>maPath := \<lparr>InternalAccount = 0, pathAccount = 0, pathBranch = 0, pathIndex = 3, pathFingerprint = 0\<rparr>,
     maAddress := Some [3, 0, 7], maAddrType := WitnessPubKey, maPubKey := [3, 0, 7]\<rparr>"

lemma loadK:
  assumes "map_of (mgScoped m) KeyScopeBIP0084 = Some s" "map_of (smAcctInfo s) 0 = Some acctK"
  shows "loadAccountInfo envK ns KeyScopeBIP0084 0 m = (Inr acctK, m)"
  using assms by (simp add: loadAccountInfo_def bind_getScoped mop_run)

lemma makeK: "newManagedAddressFromExtKey envK ck \<lparr>InternalAccount = 0, pathAccount = 0, pathBranch = 0, pathIndex = 3, pathFingerprint = 0\<rparr>
    [3, 0, 7] WitnessPubKey info = Inr addrN"
  by (simp add: newManagedAddressFromExtKey_def newManagedAddressWithoutPrivKey_def envK_def addrN_def addrZ_def fromLib_def
      WitnessPubKey_def NestedWitnessPubKey_def PubKeyHash_def)

lemma nextK: "nextChildren envK (childAddr envK m acctK 0 0 0 False WitnessPubKey) [0, 7] 1 2 = Some (Inr ([(addrN, 3)], 4))"
proof -
  have d: "deriveChild envK [0, 7] 2 = Inl InvalidChild" "deriveChild envK [0, 7] 3 = Inr [3, 0, 7]" by (simp_all add: envK_def)
  show ?thesis
    using makeK nextValid_skip[OF d(1)] nextValid_hit[OF d(2)]
    by (simp add: thenE_def childAddr_def addrBranch_def ExternalBranch_mgr_def)
qed

lemma childK: "childIndex envK k = 0" by (simp add: envK_def)

definition chainedK :: scopeStore where
  "chainedK = chainedScope envK [3, 0, 7] 0 ssFull 0 3 rowA scopeK"

lemma putK: "putChainedAddress envK nsK KeyScopeBIP0084 [3, 0, 7] 0 ssFull 0 3 adtChain = Inr (setScope KeyScopeBIP0084 chainedK nsK)"
  unfolding chainedK_def by (rule putChainedAddress_enter(1)[OF scopeK_at scopeK_books(1) _ envK_ok(1)]) simp

lemma fetchK: "fetchAddress envK (setScope KeyScopeBIP0084 chainedK nsK) KeyScopeBIP0084 [3, 0, 7] = Inr (chainedRow envK 0 ssFull 0 3)"
proof -
  have "tables chainedK (Map.empty(sha256 envK [3, 0, 7] \<mapsto> chainedRow envK 0 ssFull 0 3))"
    unfolding chainedK_def by (rule chainedScope_keeps(2)[OF scopeK_books]) simp_all
  from fetchAddress_tables[OF _ this, where ns = "setScope KeyScopeBIP0084 chainedK nsK" and E = envK and i = "[3, 0, 7]"]
  show ?thesis by (simp add: scopeAt_set[OF scopeK_at])
qed

lemma readK:
  assumes "map_of (mgScoped m) KeyScopeBIP0084 = Some scopedK" "IsLocked m"
  shows "\<exists>m'. loadAndCacheAddress envK (setScope KeyScopeBIP0084 chainedK nsK) KeyScopeBIP0084 [3, 0, 7] m = (Inr (length (mgHeap m)), m')
    \<and> mgHeap m' = mgHeap m @ [PubKeyAddr addrN]"
proof -
  let ?ns = "setScope KeyScopeBIP0084 chainedK nsK"
  let ?path = "\<lparr>InternalAccount = 0, pathAccount = 0, pathBranch = 0, pathIndex = 3, pathFingerprint = 0\<rparr>"
  have a: "map_of (smAcctInfo scopedK) 0 = Some acctK" by (simp add: scopedK_def)
  have k: "acctKeyPub acctK = Some [7]" "masterKeyFingerprint acctK = 0" "accountAddrType scopedK acctK False = WitnessPubKey"
    by (simp_all add: acctK_def accountAddrType_def scopedK_def)
  have "deriveKeyFromPath envK ?ns KeyScopeBIP0084 0 0 3 False m = (Inr ([3, 0, 7], Some [7], 0), m)"
    using loadK[OF assms(1) a] k by (simp add: deriveKeyFromPath_def bindM_run(1) mop_run deriveKey_def envK_def)
  moreover have "keyToManaged envK KeyScopeBIP0084 [3, 0, 7] ?path acctK m = (Inr (length (mgHeap m)),
      setScoped KeyScopeBIP0084 (\<lambda>s. s\<lparr>smDeriveOnUnlock := smDeriveOnUnlock s @ [\<lparr>udAddr = length (mgHeap m), udBranch = 0, udIndex = 3\<rparr>]\<rparr>)
        (m\<lparr>mgHeap := mgHeap m @ [PubKeyAddr addrN]\<rparr>))"
    using k(3) makeK by (simp add: keyToManaged_def bind_getScoped[OF assms(1)] bindM_run(1) mop_run allocAddr_def InternalBranch_mgr_def envK_def)
  ultimately have "rowInterfaceToManaged envK ?ns KeyScopeBIP0084 (chainedRow envK 0 ssFull 0 3) m = (Inr (length (mgHeap m)),
      setScoped KeyScopeBIP0084 (\<lambda>s. s\<lparr>smDeriveOnUnlock := smDeriveOnUnlock s @ [\<lparr>udAddr = length (mgHeap m), udBranch = 0, udIndex = 3\<rparr>]\<rparr>)
        (m\<lparr>mgHeap := mgHeap m @ [PubKeyAddr addrN]\<rparr>))"
    using loadK[OF assms(1) a, of ?ns] assms(2)
    by (simp add: rowInterfaceToManaged_def chainedRow_def chainRow_def chainAddressRowToManaged_def
        bindM_run(1) mop_run addressRow_def dbAddressRow.defs childK)
  moreover have "scriptAddress envK x = x" "maAddress addrN = Some [3, 0, 7]" for x by (simp_all add: envK_def addrN_def)
  ultimately show ?thesis
    by (simp add: loadAndCacheAddress_def convertM_def bindM_run(1) mop_run fetchK addressOf_ma_def cacheAddr_def)
qed

definition commitN :: addrCommit where
  "commitN = \<lparr>acScope = KeyScopeBIP0084, acAccount = 0, acInternal = False, acWatchOnly = False, acNextIndex = 4,
     acInfos = [\<lparr>udAddr = 0, udBranch = 0, udIndex = 3\<rparr>]\<rparr>"

lemma putAndCheckK:
  "\<exists>m'. putAndCheck envK KeyScopeBIP0084 0 \<lparr>udAddr = 0, udBranch = 0, udIndex = 3\<rparr> nsK ((mgrK True)\<lparr>mgHeap := [PubKeyAddr addrN]\<rparr>)
     = (Inr (setScope KeyScopeBIP0084 chainedK nsK), m') \<and> mgHeap m' = [PubKeyAddr addrN, PubKeyAddr addrN]"
proof -
  let ?m = "(mgrK True)\<lparr>mgHeap := [PubKeyAddr addrN]\<rparr>"
  have m: "map_of (mgScoped ?m) KeyScopeBIP0084 = Some scopedK" "IsLocked ?m" "mgHeap ?m = [PubKeyAddr addrN]"
    by (simp_all add: mgrK_def IsLocked_def)
  obtain m' where m': "loadAndCacheAddress envK (setScope KeyScopeBIP0084 chainedK nsK) KeyScopeBIP0084 [3, 0, 7] ?m = (Inr 1, m')"
      "mgHeap m' = [PubKeyAddr addrN, PubKeyAddr addrN]" using readK[OF m(1,2)] m(3) by auto
  have a: "scriptAddress envK x = x" "addressOf_ma (PubKeyAddr addrN) = Inr [3, 0, 7]" for x by (simp_all add: envK_def addrN_def addressOf_ma_def)
  have "putInfo envK KeyScopeBIP0084 0 \<lparr>udAddr = 0, udBranch = 0, udIndex = 3\<rparr> nsK ?m = (Inr ([3, 0, 7], setScope KeyScopeBIP0084 chainedK nsK), ?m)"
    by (simp add: putInfo_def bindM_run(1) mop_run convertM_def a putK)
  then show ?thesis using m' by (simp add: putAndCheck_def bindM_run(1) mop_run convertM_def a)
qed

lemma nextAddressesK: "\<exists>m'. nextAddresses envK nsK KeyScopeBIP0084 0 1 False (mgrK True)
    = Some (Inr ([0], commitN, setScope KeyScopeBIP0084 chainedK nsK), m') \<and> mgHeap m' = [PubKeyAddr addrN, PubKeyAddr addrN]"
proof -
  let ?m = "mgrK True"
  have m: "map_of (mgScoped ?m) KeyScopeBIP0084 = Some scopedK" "map_of (smAcctInfo scopedK) 0 = Some acctK" "mgHeap ?m = []"
    by (simp_all add: mgrK_def scopedK_def)
  have k: "WatchOnly ?m = False" "(acctKeyEncrypted acctK = []) = False" "nextIndexOf False acctK = 2" "masterKeyFingerprint acctK = 0"
    "accountAddrType scopedK acctK False = WitnessPubKey" "chooseKey ?m False acctK = Inr [7]" "deriveBranch envK [7] False = Inr [0, 7]"
    by (simp_all add: mgrK_def WatchOnly_def IsLocked_def acctK_def scopedK_def nextIndexOf_def accountAddrType_def chooseKey_def
        deriveBranch_def addrBranch_def ExternalBranch_mgr_def envK_def)
  have x: "MaxAddressesPerAccount = 2147483647" by (simp add: MaxAddressesPerAccount_def HardenedKeyStart_def)
  have i: "infosAt False 0 [(addrN, 3)] = [\<lparr>udAddr = 0, udBranch = 0, udIndex = 3\<rparr>]"
    by (simp add: infosAt_def addrBranch_def ExternalBranch_mgr_def)
  obtain m' where m': "putAndCheck envK KeyScopeBIP0084 0 \<lparr>udAddr = 0, udBranch = 0, udIndex = 3\<rparr> nsK (?m\<lparr>mgHeap := [PubKeyAddr addrN]\<rparr>)
     = (Inr (setScope KeyScopeBIP0084 chainedK nsK), m')" "mgHeap m' = [PubKeyAddr addrN, PubKeyAddr addrN]" using putAndCheckK by blast
  have f: "foldM_mop (putAndCheck envK KeyScopeBIP0084 0) [\<lparr>udAddr = 0, udBranch = 0, udIndex = 3\<rparr>] nsK (?m\<lparr>mgHeap := [PubKeyAddr addrN]\<rparr>)
     = (Inr (setScope KeyScopeBIP0084 chainedK nsK), m')"
    using m'(1) by (simp add: bindM_run(1) mop_run)
  have "nextAddresses envK nsK KeyScopeBIP0084 0 1 False ?m = Some (Inr ([0], commitN, setScope KeyScopeBIP0084 chainedK nsK), m')"
    by (simp add: nextAddresses_def bindO_def loadK[OF m(1,2)] mop_run Let_def k guardM_def x getScoped_run[OF m(1)] awaitM_def nextK childK
        bindM_run(1) allocInfos_run m(3) i f commitN_def del: nextChildren.simps foldM_mop.simps allocInfos.simps One_nat_def)
  then show ?thesis using m'(2) by blast
qed

lemma nextAddresses_stores_witness:
  "\<exists>m' m''. nextAddresses envK nsK KeyScopeBIP0084 0 1 False (mgrK True) = Some (Inr ([0], commitN, setScope KeyScopeBIP0084 chainedK nsK), m')
    \<and> onCommit envK commitN m' = (Inr (), m'')
    \<and> (\<exists>s acctInfo. map_of (mgScoped m'') KeyScopeBIP0084 = Some s \<and> map_of (smAcctInfo s) 0 = Some acctInfo
        \<and> nextExternalIndex acctInfo = 4)"
proof -
  obtain m' where m': "nextAddresses envK nsK KeyScopeBIP0084 0 1 False (mgrK True) = Some (Inr ([0], commitN, setScope KeyScopeBIP0084 chainedK nsK), m')"
    "mgHeap m' = [PubKeyAddr addrN, PubKeyAddr addrN]" using nextAddressesK by blast
  have "addressOf_ma (PubKeyAddr addrN) = Inr [3, 0, 7]" by (simp add: addrN_def addressOf_ma_def)
  then have "\<exists>m''. onCommit envK commitN m' = (Inr (), m'')"
    using m'(2) by (cases "IsLocked m'") (simp_all add: onCommit_def cacheInfo_def commitN_def bindM_def mop_run)
  then obtain m'' where m'': "onCommit envK commitN m' = (Inr (), m'')" by blast
  have h: "scope_holds nsK KeyScopeBIP0084 [uint32ToBytes 0 \<mapsto> rowA] Map.empty"
    unfolding scope_holds_def using scopeK_at scopeK_books by blast
  have "not_foreign envK 0 i Map.empty" for i by (simp add: not_foreign_def)
  from nextAddresses_stores[OF m'(1) _ h _ _ m''] this obtain s acctInfo where
    "map_of (mgScoped m'') KeyScopeBIP0084 = Some s" "map_of (smAcctInfo s) 0 = Some acctInfo"
    "nextIndexOf False acctInfo = storedIndex False (advanceRow (addrBranch False) (udIndex (last (acInfos commitN))) rowA)"
    by auto
  then show ?thesis using m'(1) m'' by (auto simp: storedIndex_advance commitN_def nextIndexOf_def)
qed

end
