(* ===== verification/Mgr_Props.thy ===== *)
theory Mgr_Props
  imports Mgr_Root Mgr_Create Mgr_Unlock Mgr_Load
begin

text \<open>
  The properties of an account (\<open>AccountProperties\<close> of \<open>waddrmgr/scoped_manager.go\<close>), with the version bytes of an
  exported account key, and the small lookups of a scope.  The network numbers of package \<open>wire\<close>, the name of the
  signet and \<open>ExtendedKey.CloneWithVersion\<close> are arguments.
\<close>

section \<open>Versions of extended keys\<close>

type_synonym hdVersion = "32 word"

definition HDVersionMainNetBIP0044 :: hdVersion where "HDVersionMainNetBIP0044 = 0x0488b21e"
definition HDVersionMainNetBIP0049 :: hdVersion where "HDVersionMainNetBIP0049 = 0x049d7cb2"
definition HDVersionMainNetBIP0084 :: hdVersion where "HDVersionMainNetBIP0084 = 0x04b24746"
definition HDVersionTestNetBIP0044 :: hdVersion where "HDVersionTestNetBIP0044 = 0x043587cf"
definition HDVersionTestNetBIP0049 :: hdVersion where "HDVersionTestNetBIP0049 = 0x044a5262"
definition HDVersionTestNetBIP0084 :: hdVersion where "HDVersionTestNetBIP0084 = 0x045f1cf6"
definition HDVersionSimNetBIP0044 :: hdVersion where "HDVersionSimNetBIP0044 = 0x0420bd3a"

lemmas hdVersion_defs = HDVersionMainNetBIP0044_def HDVersionMainNetBIP0049_def HDVersionMainNetBIP0084_def
  HDVersionTestNetBIP0044_def HDVersionTestNetBIP0049_def HDVersionTestNetBIP0084_def HDVersionSimNetBIP0044_def

record wireNets =
  MainNet :: u32
  TestNet :: u32
  TestNet3 :: u32
  SimNet :: u32
  sigNetName :: gostring

record chainParams =
  paramsName :: gostring
  paramsNet :: u32

definition SigNetWire :: "wireNets \<Rightarrow> chainParams \<Rightarrow> u32" where
  "SigNetWire N params = (if paramsName params = sigNetName N then paramsNet params else 0)"

text \<open>The three cases of a network: the version of each default scope, or that the scope is not supported.\<close>

definition scopeVersion :: "keyScope \<Rightarrow> hdVersion \<Rightarrow> hdVersion \<Rightarrow> hdVersion \<Rightarrow> hdVersion option" where
  "scopeVersion scope v44 v49 v84 =
     (if scope = KeyScopeBIP0044 \<or> scope = KeyScopeBIP0086 then Some v44
      else if scope = KeyScopeBIP0049Plus then Some v49
      else if scope = KeyScopeBIP0084 then Some v84
      else None)"

definition keyVersion :: "wireNets \<Rightarrow> chainParams \<Rightarrow> keyScope \<Rightarrow> hdVersion option" where
  "keyVersion N params scope =
     (let net = paramsNet params in
      if net = MainNet N then
        scopeVersion scope HDVersionMainNetBIP0044 HDVersionMainNetBIP0049 HDVersionMainNetBIP0084
      else if net = TestNet N \<or> net = TestNet3 N \<or> net = SigNetWire N params then
        scopeVersion scope HDVersionTestNetBIP0044 HDVersionTestNetBIP0049 HDVersionTestNetBIP0084
      else if net = SimNet N then
        scopeVersion scope HDVersionSimNetBIP0044 HDVersionMainNetBIP0049 HDVersionMainNetBIP0084
      else None)"

definition cloneKeyWithVersion :: "wireNets \<Rightarrow> chainParams \<Rightarrow> ('k \<Rightarrow> bytes \<Rightarrow> 'k option) \<Rightarrow> keyScope \<Rightarrow> 'k \<Rightarrow> 'k mres" where
  "cloneKeyWithVersion N params clone scope key = (case keyVersion N params scope of
     None \<Rightarrow> Inl MgrFmtErr
   | Some version \<Rightarrow> (case clone key (putUint32 version) of
       None \<Rightarrow> Inl MgrFmtErr
     | Some key \<Rightarrow> Inr key))"

section \<open>Lookups of a scope\<close>

definition LookupAccount_scoped :: "mgrStore \<Rightarrow> keyScope \<Rightarrow> gostring \<Rightarrow> u32 mres" where
  "LookupAccount_scoped ns scope name = lookupAccount ns scope name"

definition fetchUsed :: "'a mgrEnv_scheme \<Rightarrow> mgrStore \<Rightarrow> keyScope \<Rightarrow> bytes \<Rightarrow> bool mres" where
  "fetchUsed E ns scope addressID = fetchAddressUsed E ns scope addressID"

definition AccountName :: "mgrStore \<Rightarrow> keyScope \<Rightarrow> u32 \<Rightarrow> gostring mres" where
  "AccountName ns scope account = fetchAccountName ns scope account"

definition ForEachAccount :: "mgrStore \<Rightarrow> keyScope \<Rightarrow> (u32 \<Rightarrow> 's \<Rightarrow> 's mres) \<Rightarrow> 's \<Rightarrow> 's mres" where
  "ForEachAccount ns scope fn st = forEachAccount ns scope fn st"

definition LastAccount :: "mgrStore \<Rightarrow> keyScope \<Rightarrow> u32 mres" where
  "LastAccount ns scope = fetchLastAccount ns scope"

section \<open>Account properties\<close>

record 'k accountProperties =
  apAccountNumber :: u32
  apAccountName :: gostring
  apExternalKeyCount :: u32
  apInternalKeyCount :: u32
  apImportedKeyCount :: u32
  apAccountPubKey :: "'k option"
  apAccountPrivKey :: "'k option"
  apMasterKeyFingerprint :: u32
  apKeyScope :: keyScope
  apIsWatchOnly :: bool
  apAddrSchema :: "scopeAddrSchema option"

definition newProperties :: "keyScope \<Rightarrow> u32 \<Rightarrow> 'k accountProperties" where
  "newProperties scope account = \<lparr>apAccountNumber = account, apAccountName = [], apExternalKeyCount = 0,
     apInternalKeyCount = 0, apImportedKeyCount = 0, apAccountPubKey = None, apAccountPrivKey = None,
     apMasterKeyFingerprint = 0, apKeyScope = scope, apIsWatchOnly = False, apAddrSchema = None\<rparr>"

definition fillProperties :: "('k, 'a) manager \<Rightarrow> 'k accountInfo \<Rightarrow> 'k accountProperties \<Rightarrow> 'k accountProperties" where
  "fillProperties m acctInfo props = props\<lparr>apAccountName := acctName acctInfo,
     apExternalKeyCount := nextExternalIndex acctInfo, apInternalKeyCount := nextInternalIndex acctInfo,
     apAccountPubKey := acctKeyPub acctInfo, apAccountPrivKey := acctKeyPriv acctInfo,
     apMasterKeyFingerprint := masterKeyFingerprint acctInfo,
     apIsWatchOnly := WatchOnly m \<or> acctKeyPriv acctInfo = None,
     apAddrSchema := aiAddrSchema acctInfo\<rparr>"

text \<open>A nil public key, as \<open>Close\<close> leaves it in the cache, is dereferenced by \<open>CloneWithVersion\<close>.\<close>

definition exportKey :: "wireNets \<Rightarrow> chainParams \<Rightarrow> ('k \<Rightarrow> bytes \<Rightarrow> 'k option) \<Rightarrow> keyScope \<Rightarrow> 'k accountInfo
    \<Rightarrow> 'k accountProperties \<Rightarrow> 'k accountProperties mres" where
  "exportKey N params clone scope acctInfo props =
     (if aiType acctInfo = accountDefault \<and> IsDefaultScope scope then
        (case acctKeyPub acctInfo of
           None \<Rightarrow> if keyVersion N params scope = None then Inl MgrFmtErr else Inl MgrPanic
         | Some key \<Rightarrow> bindE (cloneKeyWithVersion N params clone scope key) (\<lambda>key.
             Inr (props\<lparr>apAccountPubKey := Some key\<rparr>)))
      else Inr props)"

definition AccountProperties :: "('k, 'a, 'm) hdEnv_scheme \<Rightarrow> wireNets \<Rightarrow> chainParams \<Rightarrow> ('k \<Rightarrow> bytes \<Rightarrow> 'k option)
    \<Rightarrow> mgrStore \<Rightarrow> keyScope \<Rightarrow> u32 \<Rightarrow> (('k, 'a) manager, 'k accountProperties) mop" where
  "AccountProperties E N params clone ns scope account =
     (let props = newProperties scope account in
      if account \<noteq> ImportedAddrAccount then
        bindM (loadAccountInfo E ns scope account) (\<lambda>acctInfo.
        bindM getM (\<lambda>m. liftM (exportKey N params clone scope acctInfo (fillProperties m acctInfo props))))
      else
        bindM getM (\<lambda>m.
        let props = props\<lparr>apAccountName := ImportedAddrAccountName, apIsWatchOnly := WatchOnly m\<rparr> in
        bindM (liftM (forEachAccountAddress ns scope ImportedAddrAccount (\<lambda>_ n. Inr (n + 1)) 0)) (\<lambda>importedKeyCount.
        retM (props\<lparr>apImportedKeyCount := importedKeyCount\<rparr>))))"

section \<open>A locked account looks watch-only\<close>

lemma lock_entry:
  assumes "map_of (mgScoped m) sc = Some s" "map_of (smAcctInfo s) a = Some acctInfo"
  obtains s' where "map_of (mgScoped (lockState m)) sc = Some s'"
    "map_of (smAcctInfo s') a = Some (acctInfo\<lparr>acctKeyPriv := None\<rparr>)"
  using assms that[of "lockScoped s"]
  by (simp add: lockState_def lockKeys_def mapCached_def mapScoped_def lockScoped_def map_of_map)

lemma loadAccountInfo_hit:
  "map_of (mgScoped m) sc = Some s \<Longrightarrow> map_of (smAcctInfo s) a = Some acctInfo
    \<Longrightarrow> loadAccountInfo E ns sc a m = (Inr acctInfo, m)"
  by (simp add: loadAccountInfo_def bind_getScoped mop_run)

text \<open>
  Locking hides an account.  When an unlocked manager returns the properties of an account other than the
  imported one, then after \<open>Lock\<close> it returns the same properties for it, but without the private key and as
  watch-only, whatever they said before.
\<close>
lemma Lock_hides_account:
  assumes a: "AccountProperties E N params clone ns scope account m = (Inr props, m')" "account \<noteq> ImportedAddrAccount"
    and m': "\<not> WatchOnly m'" "\<not> IsLocked m'" "hasPrivateKeys m'"
  shows "\<exists>m''. Lock m' = (Inr (), m'') \<and> AccountProperties E N params clone ns scope account m''
    = (Inr (props\<lparr>apAccountPrivKey := None, apIsWatchOnly := True\<rparr>), m'')"
proof -
  let ?new = "newProperties scope account" and ?m = "lockState m'"
  obtain acctInfo where l: "loadAccountInfo E ns scope account m = (Inr acctInfo, m')"
    and x: "exportKey N params clone scope acctInfo (fillProperties m' acctInfo ?new) = Inr props"
    using a by (auto simp: AccountProperties_def Let_def bindM_Inr mop_run)
  obtain s where "map_of (mgScoped m') scope = Some s" "map_of (smAcctInfo s) account = Some acctInfo"
    using l by (rule loadAccountInfo_entry)
  then obtain s' where s': "map_of (mgScoped ?m) scope = Some s'"
    "map_of (smAcctInfo s') account = Some (acctInfo\<lparr>acctKeyPriv := None\<rparr>)"
    by (rule lock_entry)
  have "exportKey N params clone scope (acctInfo\<lparr>acctKeyPriv := None\<rparr>)
      (fillProperties ?m (acctInfo\<lparr>acctKeyPriv := None\<rparr>) ?new)
    = Inr (props\<lparr>apAccountPrivKey := None, apIsWatchOnly := True\<rparr>)"
    using x by (auto simp: exportKey_def fillProperties_def split: if_splits option.splits sum.splits)
  then have "AccountProperties E N params clone ns scope account ?m
      = (Inr (props\<lparr>apAccountPrivKey := None, apIsWatchOnly := True\<rparr>), ?m)"
    using a(2) by (simp add: AccountProperties_def Let_def bindM_def loadAccountInfo_hit[OF s'] mop_run)
  moreover have "Lock m' = (Inr (), ?m)"
    using m' by (simp add: Lock_def bindM_def mop_run lock_run)
  ultimately show ?thesis by blast
qed

section \<open>Imported addresses are counted\<close>

lemma foldE_count: "(\<And>x n. x \<in> set xs \<Longrightarrow> f x n = Inr (n + 1)) \<Longrightarrow> foldE f xs n = Inr (n + word_of_nat (length xs))"
  for n :: "'b::len word"
  by (induction xs arbitrary: n) (simp_all add: add.commute add.left_commute)

lemma AccountProperties_imported:
  assumes s: "fetchReadScopeBucket ns scope = Inr s" and b: "acctAddrs s ImportedAddrAccount = Some b"
    and k: "\<And>k v. (k, v) \<in> set (entries b) \<Longrightarrow> \<exists>row. fetchAddressByHash ns scope k = Inr row"
  shows "AccountProperties E N params clone ns scope ImportedAddrAccount m
    = (Inr ((newProperties scope ImportedAddrAccount)\<lparr>apAccountName := ImportedAddrAccountName,
        apIsWatchOnly := WatchOnly m, apImportedKeyCount := word_of_nat (length (entries b))\<rparr>), m)"
proof -
  have "foldE (\<lambda>(k, _) st. bindE (fetchAddressByHash ns scope k) (\<lambda>row. Inr (st + 1))) (entries b) (0 :: u32)
      = Inr (0 + word_of_nat (length (entries b)))"
    using k by (intro foldE_count) auto
  then have "forEachAccountAddress ns scope ImportedAddrAccount (\<lambda>_ n. Inr (n + 1)) (0 :: u32)
      = Inr (word_of_nat (length (entries b)))"
    by (simp add: forEachAccountAddress_def s b)
  then show ?thesis by (simp add: AccountProperties_def Let_def bindM_def mop_run)
qed

end
