(* ===== verification/Recovery.thy ===== *)
theory Recovery
  imports Mgr_Props Tx_Types
begin

text \<open>
  Address recovery: \<open>wallet/recovery.go\<close> and the horizon expansion of \<open>wallet/wallet.go\<close>.
  A branch watches the child keys below its \<open>horizon\<close>; whenever keys are found it derives further
  ones so that a \<open>recoveryWindow\<close> of them lies beyond the last one found.  The keys are derived by the
  address manager (\<open>DeriveFromKeyPath\<close> of \<open>Mgr_Scoped\<close>).  Its errors are those of \<open>waddrmgr\<close>, so that the comparison
  with \<open>hdkeychain.ErrInvalidChild\<close> never holds, and a child that is invalid ends the expansion with an error.
  Indexes are \<open>uint32\<close>; the set of invalid children is a set, the Go maps are maps.  The state of a recovery is
  dropped by its caller when an operation fails, so an error carries no branch.
\<close>

datatype recErr = MgrFails mgrErr | ScriptError | RecPanic | RecDiverges

type_synonym ('k, 'a, 'r) rop = "(recErr, ('k, 'a) manager, 'r) op"

section \<open>One branch\<close>

text \<open>An address is \<open>None\<close> where the Go interface is \<open>nil\<close>.\<close>

record 'a branchState =
  recoveryWindow :: u32
  horizon :: u32
  nextUnfound :: u32
  addresses :: "u32 \<rightharpoonup> 'a option"
  invalidChildren :: "u32 set"

definition NewBranchRecoveryState :: "u32 \<Rightarrow> 'a branchState" where
  "NewBranchRecoveryState win = \<lparr>recoveryWindow = win, horizon = 0, nextUnfound = 0,
     addresses = Map.empty, invalidChildren = {}\<rparr>"

definition NumInvalidInHorizon :: "'a branchState \<Rightarrow> u32" where
  "NumInvalidInHorizon brs =
     word_of_nat (card {childIndex \<in> invalidChildren brs. nextUnfound brs \<le> childIndex \<and> childIndex < horizon brs})"

definition ExtendHorizon :: "'a branchState \<Rightarrow> u32 \<times> u32 \<times> 'a branchState" where
  "ExtendHorizon brs =
     (let curHorizon = horizon brs;
          nInvalid = NumInvalidInHorizon brs;
          minValidHorizon = nextUnfound brs + recoveryWindow brs + nInvalid
      in if minValidHorizon \<le> curHorizon then (curHorizon, 0, brs)
         else (curHorizon, minValidHorizon - curHorizon, brs\<lparr>horizon := minValidHorizon\<rparr>))"

definition AddAddr :: "u32 \<Rightarrow> 'a option \<Rightarrow> 'a branchState \<Rightarrow> 'a branchState" where
  "AddAddr index addr brs = brs\<lparr>addresses := (addresses brs)(index \<mapsto> addr)\<rparr>"

definition GetAddr :: "'a branchState \<Rightarrow> u32 \<Rightarrow> 'a option" where
  "GetAddr brs index = (case addresses brs index of None \<Rightarrow> None | Some addr \<Rightarrow> addr)"

definition ReportFound :: "u32 \<Rightarrow> 'a branchState \<Rightarrow> 'a branchState" where
  "ReportFound index brs =
     (if nextUnfound brs \<le> index
      then brs\<lparr>nextUnfound := index + 1,
               invalidChildren := {childIndex \<in> invalidChildren brs. \<not> childIndex < index}\<rparr>
      else brs)"

definition MarkInvalidChild :: "u32 \<Rightarrow> 'a branchState \<Rightarrow> 'a branchState" where
  "MarkInvalidChild index brs =
     brs\<lparr>invalidChildren := insert index (invalidChildren brs), horizon := horizon brs + 1\<rparr>"

section \<open>Deriving an address\<close>

definition externalKeyPath :: "u32 \<Rightarrow> derivationPath" where
  "externalKeyPath index = \<lparr>InternalAccount = DefaultAccountNum, pathAccount = DefaultAccountNum,
     pathBranch = ExternalBranch_mgr, pathIndex = index, pathFingerprint = 0\<rparr>"

definition internalKeyPath :: "u32 \<Rightarrow> derivationPath" where
  "internalKeyPath index = \<lparr>InternalAccount = DefaultAccountNum, pathAccount = DefaultAccountNum,
     pathBranch = InternalBranch_mgr, pathIndex = index, pathFingerprint = 0\<rparr>"

text \<open>\<open>Address()\<close> of a managed address.\<close>

definition Address_ma :: "'a managedAddr \<Rightarrow> 'a option" where
  "Address_ma ma = (case ma of
     PubKeyAddr a \<Rightarrow> maAddress a
   | ScriptAddr a \<Rightarrow> Some (saAddress a)
   | WitnessScriptAddr a \<Rightarrow> Some (saAddress a)
   | TaprootScriptAddr a _ \<Rightarrow> Some (saAddress a))"

text \<open>\<open>DeriveFromKeyPath\<close> and the test of its error: \<open>None\<close> is \<open>hdkeychain.ErrInvalidChild\<close>.\<close>

definition deriveAddr :: "('k, 'a, 'm) hdEnv_scheme \<Rightarrow> mgrStore \<Rightarrow> keyScope \<Rightarrow> derivationPath \<Rightarrow> ('k, 'a, 'a option option) rop" where
  "deriveAddr E ns scope keyPath m = (case DeriveFromKeyPath E ns scope keyPath m of
     (Inl e, m) \<Rightarrow> (if e = invalidChildErr then Inr None else Inl (MgrFails e), m)
   | (Inr r, m) \<Rightarrow> (Inr (Some (Address_ma (mgHeap m ! r))), m))"

text \<open>The loop \<open>for count < window\<close> of \<open>expandScopeHorizons\<close> for one branch, whose keys are derived by
  \<open>derive\<close>.  The fuel bounds the number of derivations; running out of it is a loop that does not end.\<close>

fun deriveLoop :: "nat \<Rightarrow> (u32 \<Rightarrow> ('k, 'a, 'a option option) rop) \<Rightarrow> u32 \<Rightarrow> u32 \<Rightarrow> u32 \<Rightarrow> 'a branchState
    \<Rightarrow> ('k, 'a, 'a branchState) rop" where
  "deriveLoop 0 derive win count index brs =
     (if count < win then failM RecDiverges else retM brs)"
| "deriveLoop (Suc fuel) derive win count index brs =
     (if count < win
      then bindM (derive index) (\<lambda>r. case r of
          None \<Rightarrow> deriveLoop fuel derive win count (index + 1) (MarkInvalidChild index brs)
        | Some addr \<Rightarrow> deriveLoop fuel derive win (count + 1) (index + 1) (AddAddr index addr brs))
      else retM brs)"

definition expandBranch :: "nat \<Rightarrow> (u32 \<Rightarrow> ('k, 'a, 'a option option) rop) \<Rightarrow> 'a branchState \<Rightarrow> ('k, 'a, 'a branchState) rop" where
  "expandBranch fuel derive brs =
     (case ExtendHorizon brs of (hor, win, brs) \<Rightarrow> deriveLoop fuel derive win 0 hor brs)"

section \<open>Scopes and the manager\<close>

record 'a scopeState =
  extBranch :: "'a branchState"
  intBranch :: "'a branchState"

definition NewScopeRecoveryState :: "u32 \<Rightarrow> 'a scopeState" where
  "NewScopeRecoveryState win =
     \<lparr>extBranch = NewBranchRecoveryState win, intBranch = NewBranchRecoveryState win\<rparr>"

definition expandScopeHorizons :: "nat \<Rightarrow> ('k, 'a, 'm) hdEnv_scheme \<Rightarrow> mgrStore \<Rightarrow> keyScope \<Rightarrow> 'a scopeState
    \<Rightarrow> ('k, 'a, 'a scopeState) rop" where
  "expandScopeHorizons fuel E ns scope st =
     bindM (expandBranch fuel (\<lambda>i. deriveAddr E ns scope (externalKeyPath i)) (extBranch st)) (\<lambda>ext.
     bindM (expandBranch fuel (\<lambda>i. deriveAddr E ns scope (internalKeyPath i)) (intBranch st)) (\<lambda>inter.
     retM \<lparr>extBranch = ext, intBranch = inter\<rparr>))"

record 'a recoveryState =
  rsWindow :: u32
  rsScopes :: "keyScope \<rightharpoonup> 'a scopeState"
  watchedOutPoints :: "outPoint \<rightharpoonup> 'a"

definition NewRecoveryState :: "u32 \<Rightarrow> 'a recoveryState" where
  "NewRecoveryState win = \<lparr>rsWindow = win, rsScopes = Map.empty, watchedOutPoints = Map.empty\<rparr>"

definition StateForScope :: "keyScope \<Rightarrow> 'a recoveryState \<Rightarrow> 'a scopeState \<times> 'a recoveryState" where
  "StateForScope keyScope rs =
     (case rsScopes rs keyScope of
        Some scopeState \<Rightarrow> (scopeState, rs)
      | None \<Rightarrow>
          let scopeState = NewScopeRecoveryState (rsWindow rs)
          in (scopeState, rs\<lparr>rsScopes := (rsScopes rs)(keyScope \<mapsto> scopeState)\<rparr>))"

definition AddWatchedOutPoint :: "outPoint \<Rightarrow> 'a \<Rightarrow> 'a recoveryState \<Rightarrow> 'a recoveryState" where
  "AddWatchedOutPoint op addr rs = rs\<lparr>watchedOutPoints := (watchedOutPoints rs)(op \<mapsto> addr)\<rparr>"

record 'a recoveryManager =
  rmWindow :: u32
  rmStarted :: bool
  rmBlockBatch :: "blockMeta list"
  rmState :: "'a recoveryState"

definition NewRecoveryManager :: "u32 \<Rightarrow> 'a recoveryManager" where
  "NewRecoveryManager win = \<lparr>rmWindow = win, rmStarted = False, rmBlockBatch = [],
     rmState = NewRecoveryState win\<rparr>"

definition AddToBlockBatch :: "hash \<Rightarrow> height \<Rightarrow> gotime \<Rightarrow> 'a recoveryManager \<Rightarrow> 'a recoveryManager" where
  "AddToBlockBatch h ht timestamp rm =
     rm\<lparr>rmStarted := True,
        rmBlockBatch := rmBlockBatch rm @ [\<lparr>metaBlock = \<lparr>bHash = h, bHeight = ht\<rparr>, metaTime = timestamp\<rparr>]\<rparr>"

definition ResetBlockBatch :: "'a recoveryManager \<Rightarrow> 'a recoveryManager" where
  "ResetBlockBatch rm = rm\<lparr>rmBlockBatch := []\<rparr>"

text \<open>Rederiving the known keys of a branch.\<close>

definition resurrectBranch :: "(u32 \<Rightarrow> ('k, 'a, 'a option option) rop) \<Rightarrow> u32 \<Rightarrow> 'a branchState \<Rightarrow> ('k, 'a, 'a branchState) rop" where
  "resurrectBranch derive keyCount brs =
     foldM_mop (\<lambda>i brs. bindM (derive i) (\<lambda>r. retM (case r of
         None \<Rightarrow> MarkInvalidChild i brs
       | Some addr \<Rightarrow> AddAddr i addr brs)))
     (map word_of_nat [0..<unat keyCount]) brs"

definition onMgr :: "(('k, 'a) manager, 'r) mop \<Rightarrow> ('k, 'a, 'r) rop" where
  "onMgr f m = (case f m of (Inl e, m) \<Rightarrow> (Inl (MgrFails e), m) | (Inr r, m) \<Rightarrow> (Inr r, m))"

definition resurrectScope :: "('k, 'a, 'm) hdEnv_scheme \<Rightarrow> wireNets \<Rightarrow> chainParams \<Rightarrow> ('k \<Rightarrow> bytes \<Rightarrow> 'k option) \<Rightarrow> mgrStore
    \<Rightarrow> keyScope \<Rightarrow> 'a scopeState \<Rightarrow> ('k, 'a, 'a scopeState) rop" where
  "resurrectScope E N params clone ns scope st =
     bindM (onMgr (AccountProperties E N params clone ns scope DefaultAccountNum)) (\<lambda>acctProperties.
     let externalCount = apExternalKeyCount acctProperties; internalCount = apInternalKeyCount acctProperties in
     bindM (resurrectBranch (\<lambda>i. deriveAddr E ns scope (externalKeyPath i)) externalCount (extBranch st)) (\<lambda>ext.
     bindM (resurrectBranch (\<lambda>i. deriveAddr E ns scope (internalKeyPath i)) internalCount (intBranch st)) (\<lambda>inter.
     retM \<lparr>extBranch = (if externalCount > 0 then ReportFound (externalCount - 1) ext else ext),
          intBranch = (if internalCount > 0 then ReportFound (internalCount - 1) inter else inter)\<rparr>)))"

text \<open>The scopes come in the order of the map iteration.\<close>

definition Resurrect :: "('k, 'a, 'm) hdEnv_scheme \<Rightarrow> wireNets \<Rightarrow> chainParams \<Rightarrow> ('k \<Rightarrow> bytes \<Rightarrow> 'k option)
    \<Rightarrow> (bytes \<Rightarrow> 'a list option) \<Rightarrow> mgrStore \<Rightarrow> keyScope list \<Rightarrow> creditInfo list \<Rightarrow> 'a recoveryManager
    \<Rightarrow> ('k, 'a, 'a recoveryManager) rop" where
  "Resurrect E N params clone extractAddrs ns scopes credits rm =
     bindM (foldM_mop (\<lambda>keyScope rs.
         case StateForScope keyScope rs of (scopeState, rs) \<Rightarrow>
         bindM (resurrectScope E N params clone ns keyScope scopeState) (\<lambda>scopeState.
         retM (rs\<lparr>rsScopes := (rsScopes rs)(keyScope \<mapsto> scopeState)\<rparr>))) scopes (rmState rm)) (\<lambda>rs.
     bindM (foldM_mop (\<lambda>credit rs.
         case extractAddrs (ciPkScript credit) of
           None \<Rightarrow> failM ScriptError
         | Some [] \<Rightarrow> failM RecPanic
         | Some (addr # _) \<Rightarrow> retM (AddWatchedOutPoint (ciOutPoint credit) addr rs)) credits rs) (\<lambda>rs.
     retM (rm\<lparr>rmState := rs\<rparr>)))"

section \<open>Sets of indexes\<close>

definition between :: "u32 \<Rightarrow> u32 \<Rightarrow> u32 set" where
  "between a b = {i. a \<le> i \<and> i < b}"

lemma between_empty [simp]: "between a a = {}" by (auto simp: between_def)

lemma between_Suc:
  assumes "unat a + 1 < 2 ^ 32" "a < b" shows "between a b = insert a (between (a + 1) b)"
proof -
  have u: "unat (a + 1) = unat a + 1" using assms(1) by (simp add: unat_word_ariths)
  have "a \<le> i \<longleftrightarrow> i = a \<or> a + 1 \<le> i" for i
    using u by (auto simp: word_le_nat_alt word_unat_eq_iff)
  then show ?thesis using assms(2) by (auto simp: between_def)
qed

section \<open>What the manager answers\<close>

text \<open>The answers depend on these parts of the manager only, which no derivation changes.\<close>

definition same_keys :: "keyScope \<Rightarrow> ('k, 'a) manager \<Rightarrow> ('k, 'a) manager \<Rightarrow> bool" where
  "same_keys sc m m' \<longleftrightarrow> mgLocked m' = mgLocked m \<and> mgWatchingOnly m' = mgWatchingOnly m
     \<and> mgCryptoKeyPriv m' = mgCryptoKeyPriv m
     \<and> (\<exists>s s'. map_of (mgScoped m) sc = Some s \<and> map_of (mgScoped m') sc = Some s'
          \<and> smAcctInfo s' = smAcctInfo s \<and> smAddrSchema s' = smAddrSchema s)"

definition accountKey :: "('k, 'a) manager \<Rightarrow> 'k accountInfo \<Rightarrow> 'k option" where
  "accountKey m i = (if \<not> IsLocked m \<and> \<not> WatchOnly m \<and> acctKeyPriv i \<noteq> None then acctKeyPriv i else acctKeyPub i)"

definition answer :: "('k, 'a, 'm) hdEnv_scheme \<Rightarrow> ('k, 'a) manager \<Rightarrow> 'k scopedKeyManager \<Rightarrow> 'k accountInfo
    \<Rightarrow> derivationPath \<Rightarrow> ('k \<times> 'a managedAddress) mres" where
  "answer E m s i kp =
     bindE (deriveKey E i (pathBranch kp) (pathIndex kp) (\<not> IsLocked m \<and> \<not> WatchOnly m \<and> acctKeyPriv i \<noteq> None)) (\<lambda>key.
     bindE (newManagedAddressFromExtKey E (mgCryptoKeyPriv m) kp key
       (accountAddrType s i (pathBranch kp = InternalBranch_mgr)) (Some i)) (\<lambda>ma. Inr (key, ma)))"

lemma DeriveFromKeyPath_run:
  assumes s: "map_of (mgScoped m) sc = Some s" and i: "map_of (smAcctInfo s) (InternalAccount kp) = Some i"
  shows "answer E m s i kp = Inl e \<Longrightarrow> DeriveFromKeyPath E ns sc kp m = (Inl e, m)"
    and "answer E m s i kp = Inr (key, ma) \<Longrightarrow> \<exists>r m'. DeriveFromKeyPath E ns sc kp m = (Inr r, m')
      \<and> Address_ma (mgHeap m' ! r) = maAddress ma \<and> same_keys sc m m'"
proof -
  note l = loadAccountInfo_hit[OF s i]
  define b where "b = (\<not> IsLocked m \<and> \<not> WatchOnly m \<and> acctKeyPriv i \<noteq> None)"
  have run: "DeriveFromKeyPath E ns sc kp m =
      bindM (liftM (deriveKey E i (pathBranch kp) (pathIndex kp) b))
        (\<lambda>key. keyToManaged E sc key kp i) m"
    by (cases "deriveKey E i (pathBranch kp) (pathIndex kp) b")
      (simp_all add: b_def DeriveFromKeyPath_def deriveKeyFromPath_def bindM_def l mop_run Let_def)
  have made: "keyToManaged E sc key kp i m = bindM (liftM (newManagedAddressFromExtKey E (mgCryptoKeyPriv m) kp key
       (accountAddrType s i (pathBranch kp = InternalBranch_mgr)) (Some i))) (\<lambda>ma.
     bindM (allocAddr (PubKeyAddr (if pathBranch kp = InternalBranch_mgr then ma\<lparr>maInternal := True\<rparr> else ma))) (\<lambda>r.
     bindM (if isPrivate E key then retM ()
       else modifyM (setScoped sc (\<lambda>s. s\<lparr>smDeriveOnUnlock := smDeriveOnUnlock s
         @ [\<lparr>udAddr = r, udBranch = pathBranch kp, udIndex = pathIndex kp\<rparr>]\<rparr>))) (\<lambda>_.
     retM r))) m" for key
    by (simp only: keyToManaged_def bind_getScoped[OF s] Let_def bindM_run(1)[where f = getM, OF mop_run(3)])
  show "DeriveFromKeyPath E ns sc kp m = (Inl e, m)" if "answer E m s i kp = Inl e"
    using that unfolding answer_def run b_def[symmetric]
    by (auto simp: bindE_eq_Inl bindM_def mop_run made)
  show "\<exists>r m'. DeriveFromKeyPath E ns sc kp m = (Inr r, m')
      \<and> Address_ma (mgHeap m' ! r) = maAddress ma \<and> same_keys sc m m'" if "answer E m s i kp = Inr (key, ma)"
  proof -
    have a: "deriveKey E i (pathBranch kp) (pathIndex kp) b = Inr key"
      "newManagedAddressFromExtKey E (mgCryptoKeyPriv m) kp key
         (accountAddrType s i (pathBranch kp = InternalBranch_mgr)) (Some i) = Inr ma"
      using that unfolding answer_def b_def[symmetric] by auto
    show ?thesis unfolding run
      by (simp add: bindM_def mop_run a made allocAddr_def same_keys_def Address_ma_def map_of_setScoped s)
  qed
qed

lemma library_errors:
  "fromLib x = Inl e \<Longrightarrow> e = libErr" "wrapped y = Inl e \<Longrightarrow> e = MgrPanic \<or> e = MgrFmtErr"
  "encryptWith E k b = Inl e \<Longrightarrow> e = MgrPanic \<or> e = managerError ErrCrypto"
  "deriveKey E i br n p = Inl e \<Longrightarrow> e = MgrPanic \<or> e = managerError ErrKeyChain"
  by (auto simp: fromLib_def wrapped_def encryptWith_def deriveKey_def split: option.splits sum.splits if_splits)

lemma newManagedAddressWithoutPrivKey_errors:
  "newManagedAddressWithoutPrivKey E kp pub z t = Inl e \<Longrightarrow> e = libErr"
  by (auto simp: newManagedAddressWithoutPrivKey_def Let_def bindE_eq_Inl dest: library_errors(1) split: if_splits)

lemma newManagedAddress_errors:
  assumes "newManagedAddress E ck kp priv z t i = Inl e" shows "e \<noteq> invalidChildErr"
proof -
  have "e \<in> {MgrPanic, MgrFmtErr, libErr, managerError ErrCrypto}"
    using assms library_errors(2,3) newManagedAddressWithoutPrivKey_errors
    unfolding newManagedAddress_def Let_def
    by (auto simp: bindE_eq_Inl guardE_def split: option.splits if_splits dest!: library_errors(2,3) newManagedAddressWithoutPrivKey_errors)
  then show ?thesis by (auto simp: libErr_def invalidChildErr_def managerError_def)
qed

lemma newManagedAddressFromExtKey_errors:
  assumes "newManagedAddressFromExtKey E ck kp key t i = Inl e" shows "e \<noteq> invalidChildErr"
proof (cases "isPrivate E key")
  case True
  then consider "fromLib (ecPrivKey E key) = Inl e" | priv where "newManagedAddress E ck kp priv True t i = Inl e"
    using assms by (auto simp: newManagedAddressFromExtKey_def bindE_eq_Inl)
  then show ?thesis
    using newManagedAddress_errors library_errors(1) by cases (fastforce simp: libErr_def invalidChildErr_def)+
next
  case False
  then have "e = libErr" using assms newManagedAddressWithoutPrivKey_errors library_errors(1)
    by (auto simp: newManagedAddressFromExtKey_def bindE_eq_Inl)
  then show ?thesis by (simp add: libErr_def invalidChildErr_def)
qed

lemma answer_errors: "answer E m s i kp = Inl e \<Longrightarrow> e \<noteq> invalidChildErr"
  using newManagedAddressFromExtKey_errors library_errors(4)
  unfolding answer_def bindE_eq_Inl by (fastforce simp: invalidChildErr_def managerError_def)

text \<open>Deriving a key leaves the answers as they were, and none is that a child is invalid.\<close>

lemma deriveAddr_steady:
  assumes s: "map_of (mgScoped m0) sc = Some s" and i: "map_of (smAcctInfo s) (InternalAccount kp) = Some i"
    and k: "same_keys sc m0 m"
  shows "fst (deriveAddr E ns sc kp m) = fst (deriveAddr E ns sc kp m0)"
    "same_keys sc m0 (snd (deriveAddr E ns sc kp m))" "fst (deriveAddr E ns sc kp m0) \<noteq> Inr None"
proof -
  obtain s' where s': "map_of (mgScoped m) sc = Some s'" "smAcctInfo s' = smAcctInfo s" "smAddrSchema s' = smAddrSchema s"
    "mgLocked m = mgLocked m0" "mgWatchingOnly m = mgWatchingOnly m0" "mgCryptoKeyPriv m = mgCryptoKeyPriv m0"
    using k s by (auto simp: same_keys_def)
  have i': "map_of (smAcctInfo s') (InternalAccount kp) = Some i" using i s'(2) by simp
  have ans: "answer E m s' i kp = answer E m0 s i kp"
  proof -
    have "accountAddrType s' i x = accountAddrType s i x" for x
      by (cases "aiAddrSchema i") (simp_all add: accountAddrType_def s'(3))
    then show ?thesis using s' by (simp add: answer_def IsLocked_def WatchOnly_def)
  qed
  have "fst (deriveAddr E ns sc kp m) = fst (deriveAddr E ns sc kp m0) \<and> same_keys sc m0 (snd (deriveAddr E ns sc kp m))
      \<and> fst (deriveAddr E ns sc kp m0) \<noteq> Inr None"
  proof (cases "answer E m0 s i kp")
    case (Inl e)
    then show ?thesis
      using DeriveFromKeyPath_run(1)[OF s i Inl] DeriveFromKeyPath_run(1)[OF s'(1) i' Inl[folded ans]] k answer_errors[OF Inl]
      by (simp add: deriveAddr_def)
  next
    case (Inr p)
    then obtain key ma where p: "answer E m0 s i kp = Inr (key, ma)" by (cases p) simp
    obtain r m1 where 1: "DeriveFromKeyPath E ns sc kp m0 = (Inr r, m1)" "Address_ma (mgHeap m1 ! r) = maAddress ma"
      using DeriveFromKeyPath_run(2)[OF s i p] by blast
    obtain r' m2 where 2: "DeriveFromKeyPath E ns sc kp m = (Inr r', m2)" "Address_ma (mgHeap m2 ! r') = maAddress ma"
      "same_keys sc m m2" using DeriveFromKeyPath_run(2)[OF s'(1) i' p[folded ans]] by blast
    have "same_keys sc m0 m2" using k 2(3) by (auto simp: same_keys_def)
    then show ?thesis using 1 2 by (simp add: deriveAddr_def)
  qed
  then show "fst (deriveAddr E ns sc kp m) = fst (deriveAddr E ns sc kp m0)"
    "same_keys sc m0 (snd (deriveAddr E ns sc kp m))" "fst (deriveAddr E ns sc kp m0) \<noteq> Inr None" by blast+
qed

lemma same_keys_refl: "map_of (mgScoped m) sc = Some s \<Longrightarrow> same_keys sc m m" by (simp add: same_keys_def)

section \<open>The derivation loop\<close>

definition steady :: "(u32 \<Rightarrow> ('k, 'a, 'a option option) rop) \<Rightarrow> (('k, 'a) manager \<Rightarrow> bool) \<Rightarrow> (u32 \<Rightarrow> recErr + 'a option option) \<Rightarrow> bool" where
  "steady derive P ans \<longleftrightarrow> (\<forall>j m. P m \<longrightarrow> fst (derive j m) = ans j \<and> P (snd (derive j m))) \<and> (\<forall>j. ans j \<noteq> Inr None)"

definition answered :: "(u32 \<Rightarrow> recErr + 'a option option) \<Rightarrow> u32 set \<Rightarrow> (u32 \<rightharpoonup> 'a option) \<Rightarrow> bool" where
  "answered ans A addrs \<longleftrightarrow> (\<forall>j\<in>A. \<exists>a. ans j = Inr (Some a) \<and> addrs j = Some a)"

lemma deriveLoop_runs:
  assumes st: "steady derive P ans"
  shows "P m \<Longrightarrow> n \<le> w \<Longrightarrow> unat w - unat n \<le> fuel \<Longrightarrow> unat t = unat c + (unat w - unat n) \<Longrightarrow>
    case deriveLoop fuel derive w n c brs m of
      (Inr brs', m') \<Rightarrow> P m' \<and> answered ans (between c t) (addresses brs')
        \<and> (\<forall>j. j \<notin> between c t \<longrightarrow> addresses brs' j = addresses brs j) \<and> brs' = brs\<lparr>addresses := addresses brs'\<rparr>
    | (Inl e, m') \<Rightarrow> P m' \<and> (\<exists>j\<in>between c t. ans j = Inl e \<and> (\<forall>k\<in>between c j. \<exists>a. ans k = Inr (Some a)))"
proof (induction fuel arbitrary: n c brs m)
  case 0
  then have "n = w" by (simp add: word_le_nat_alt word_unat_eq_iff)
  then have "t = c" using 0(4) by (simp add: word_unat_eq_iff)
  then show ?case using 0(1) \<open>n = w\<close> by (simp add: mop_run answered_def)
next
  case (Suc fuel)
  show ?case
  proof (cases "n < w")
    case False
    then have "n = w" using Suc.prems(2) by simp
    then have "t = c" using Suc.prems(4) by (simp add: word_unat_eq_iff)
    then show ?thesis using Suc.prems(1) \<open>n = w\<close> by (simp add: mop_run answered_def)
  next
    case True
    have un: "unat (n + 1) = unat n + 1"
      using True unsigned_less[of w, where ?'a = nat] by (simp add: word_less_nat_alt unat_word_ariths)
    have ct: "unat c + 1 \<le> unat t" using Suc.prems(4) True by (simp add: word_less_nat_alt)
    then have c1: "unat c + 1 < 2 ^ 32" using unsigned_less[of t, where ?'a = nat] by simp
    then have uc: "unat (c + 1) = unat c + 1" by (simp add: unat_word_ariths)
    have bt: "between c j = insert c (between (c + 1) j)" if "c < j" for j by (rule between_Suc[OF c1 that])
    have lt: "c < t" using ct by (simp add: word_less_nat_alt)
    obtain r m1 where d: "derive c m = (r, m1)" by fastforce
    have "fst (derive c m) = ans c \<and> P (snd (derive c m)) \<and> ans c \<noteq> Inr None"
      using st Suc.prems(1) unfolding steady_def by blast
    then have r: "r = ans c" "P m1" "ans c \<noteq> Inr None" by (simp_all add: d)
    show ?thesis
    proof (cases "ans c")
      case (Inl e)
      then have "c \<in> between c t \<and> ans c = Inl e \<and> (\<forall>k\<in>between c c. \<exists>a. ans k = Inr (Some a))" using lt by (simp add: between_def)
      then show ?thesis using True d r Inl by (auto simp: bindM_run(2))
    next
      case (Inr x)
      then obtain a where a: "ans c = Inr (Some a)" using r(3) by (cases x) auto
      have run: "deriveLoop (Suc fuel) derive w n c brs m = deriveLoop fuel derive w (n + 1) (c + 1) (AddAddr c a brs) m1"
        using True d r(1) a by (simp add: bindM_run(1))
      have "n + 1 \<le> w" using True un by (simp add: word_less_nat_alt word_le_nat_alt)
      note ih = Suc.IH[OF r(2) this _ , of "c + 1" "AddAddr c a brs"]
      have nc: "c \<notin> between (c + 1) t" using uc by (simp add: between_def word_le_nat_alt)
      have ih': "case deriveLoop fuel derive w (n + 1) (c + 1) (AddAddr c a brs) m1 of
          (Inr brs', m') \<Rightarrow> P m' \<and> answered ans (between (c + 1) t) (addresses brs')
            \<and> (\<forall>j. j \<notin> between (c + 1) t \<longrightarrow> addresses brs' j = addresses (AddAddr c a brs) j)
            \<and> brs' = (AddAddr c a brs)\<lparr>addresses := addresses brs'\<rparr>
        | (Inl e, m') \<Rightarrow> P m' \<and> (\<exists>j\<in>between (c + 1) t. ans j = Inl e \<and> (\<forall>k\<in>between (c + 1) j. \<exists>a. ans k = Inr (Some a)))"
        by (rule ih) (use Suc.prems(3,4) un uc True in \<open>simp_all add: word_less_nat_alt\<close>)
      have ins: "between c t = insert c (between (c + 1) t)" by (rule bt[OF lt])
      show ?thesis
      proof (cases "deriveLoop fuel derive w (n + 1) (c + 1) (AddAddr c a brs) m1")
        case (Pair y m2)
        show ?thesis
        proof (cases y)
          case (Inl e)
          then obtain j where j: "P m2" "j \<in> between (c + 1) t" "ans j = Inl e" "\<forall>k\<in>between (c + 1) j. \<exists>a. ans k = Inr (Some a)"
            using ih' Pair by auto
          have "c < j" using j(2) uc by (simp add: between_def word_le_nat_alt word_less_nat_alt)
          then have "\<forall>k\<in>between c j. \<exists>a. ans k = Inr (Some a)" using j(4) a bt by auto
          then show ?thesis using run Pair Inl j ins by auto
        next
          case (Inr b)
          then show ?thesis using run Pair ih' a nc unfolding ins by (auto simp: answered_def AddAddr_def)
        qed
      qed
    qed
  qed
qed

section \<open>The window is kept\<close>

text \<open>The keys of the branch between the last one found and the horizon are watched under the addresses the manager
  answers, and no child is marked invalid.\<close>

definition branch_ok :: "(u32 \<Rightarrow> recErr + 'a option option) \<Rightarrow> 'a branchState \<Rightarrow> bool" where
  "branch_ok ans brs \<longleftrightarrow> invalidChildren brs = {} \<and> answered ans (between (nextUnfound brs) (horizon brs)) (addresses brs)"

lemma branch_ok_new: "branch_ok ans (NewBranchRecoveryState w)"
  by (simp add: branch_ok_def NewBranchRecoveryState_def answered_def)

text \<open>The horizon that an expansion moves to.\<close>

definition newHorizon :: "'a branchState \<Rightarrow> u32" where
  "newHorizon brs = max (horizon brs) (nextUnfound brs + recoveryWindow brs)"

lemma expandBranch_spec:
  assumes st: "steady derive P ans" and m: "P m" and ok: "branch_ok ans brs"
    and fit: "unat (nextUnfound brs) + unat (recoveryWindow brs) < 2 ^ 32"
    and fuel: "unat (nextUnfound brs) + unat (recoveryWindow brs) \<le> fuel"
  shows "case expandBranch fuel derive brs m of
      (Inr brs', m') \<Rightarrow> P m' \<and> branch_ok ans brs' \<and> horizon brs' = newHorizon brs
        \<and> nextUnfound brs' = nextUnfound brs \<and> recoveryWindow brs' = recoveryWindow brs
        \<and> answered ans (between (horizon brs) (newHorizon brs)) (addresses brs')
    | (Inl e, m') \<Rightarrow> P m' \<and> (\<exists>j\<in>between (horizon brs) (newHorizon brs). ans j = Inl e
        \<and> (\<forall>k\<in>between (horizon brs) j. \<exists>a. ans k = Inr (Some a)))"
proof -
  let ?t = "nextUnfound brs + recoveryWindow brs" and ?h = "horizon brs"
  have inv: "NumInvalidInHorizon brs = 0" using ok by (simp add: NumInvalidInHorizon_def branch_ok_def)
  have ut: "unat ?t = unat (nextUnfound brs) + unat (recoveryWindow brs)" using fit by (simp add: unat_word_ariths)
  show ?thesis
  proof (cases "?t \<le> ?h")
    case True
    then have "expandBranch fuel derive brs m = (Inr brs, m)"
      by (cases fuel) (simp_all add: expandBranch_def ExtendHorizon_def Let_def inv mop_run)
    then show ?thesis using True ok m by (simp add: newHorizon_def answered_def max_absorb1)
  next
    case False
    let ?b0 = "brs\<lparr>horizon := ?t\<rparr>" and ?w = "?t - ?h"
    have uw: "unat ?w = unat ?t - unat ?h" using False by (simp add: unat_sub word_le_nat_alt)
    have nh: "newHorizon brs = ?t" using False by (simp add: newHorizon_def max_absorb2)
    have run: "expandBranch fuel derive brs m = deriveLoop fuel derive ?w 0 ?h ?b0 m"
      using False by (simp add: expandBranch_def ExtendHorizon_def Let_def inv)
    have loop: "case deriveLoop fuel derive ?w 0 ?h ?b0 m of
      (Inr brs', m') \<Rightarrow> P m' \<and> answered ans (between ?h ?t) (addresses brs')
        \<and> (\<forall>j. j \<notin> between ?h ?t \<longrightarrow> addresses brs' j = addresses ?b0 j) \<and> brs' = ?b0\<lparr>addresses := addresses brs'\<rparr>
    | (Inl e, m') \<Rightarrow> P m' \<and> (\<exists>j\<in>between ?h ?t. ans j = Inl e \<and> (\<forall>k\<in>between ?h j. \<exists>a. ans k = Inr (Some a)))"
      by (rule deriveLoop_runs[OF st m]) (use False uw ut fuel in \<open>simp_all add: word_le_nat_alt\<close>)
    have ok': "branch_ok ans brs'" if b: "brs' = ?b0\<lparr>addresses := addresses brs'\<rparr>" "answered ans (between ?h ?t) (addresses brs')"
        "\<forall>j. j \<notin> between ?h ?t \<longrightarrow> addresses brs' j = addresses ?b0 j" for brs'
    proof -
      have "addresses brs' j = addresses brs j" if "j \<in> between (nextUnfound brs) ?h" for j
      proof -
        have "j \<notin> between ?h ?t" using that by (auto simp: between_def)
        then show ?thesis using b(3) by simp
      qed
      then have "answered ans (between (nextUnfound brs) ?h) (addresses brs')" using ok
        by (auto simp: branch_ok_def answered_def)
      moreover have "between (nextUnfound brs) ?t \<subseteq> between (nextUnfound brs) ?h \<union> between ?h ?t" by (auto simp: between_def)
      moreover have f: "nextUnfound brs' = nextUnfound brs" "horizon brs' = ?t" "invalidChildren brs' = invalidChildren brs"
        by (subst b(1), simp)+
      ultimately show ?thesis using b(2) ok unfolding branch_ok_def f answered_def by blast
    qed
    have fr: "horizon brs' = ?t" "nextUnfound brs' = nextUnfound brs" "recoveryWindow brs' = recoveryWindow brs"
      if b: "brs' = ?b0\<lparr>addresses := addresses brs'\<rparr>" for brs' by (subst b, simp)+
    show ?thesis
    proof (cases "deriveLoop fuel derive ?w 0 ?h ?b0 m")
      case (Pair y m')
      show ?thesis
      proof (cases y)
        case (Inl e)
        then show ?thesis using run loop Pair by (simp add: nh)
      next
        case (Inr brs')
        then have b: "P m'" "answered ans (between ?h ?t) (addresses brs')"
          "\<forall>j. j \<notin> between ?h ?t \<longrightarrow> addresses brs' j = addresses ?b0 j" "brs' = ?b0\<lparr>addresses := addresses brs'\<rparr>"
          using loop Pair by simp_all
        show ?thesis using run Pair Inr b(1,2) ok'[OF b(4,2,3)] fr[OF b(4)] by (simp add: nh)
      qed
    qed
  qed
qed

lemma card_between: "card (between a b) = unat b - unat a"
proof -
  have "unat ` between a b = {unat a ..< unat b}"
  proof
    show "unat ` between a b \<subseteq> {unat a ..< unat b}" by (auto simp: between_def word_le_nat_alt word_less_nat_alt)
    show "{unat a ..< unat b} \<subseteq> unat ` between a b"
    proof
      fix n assume n: "n \<in> {unat a ..< unat b}"
      then have l: "n < 2 ^ 32" using unsigned_less[of b, where ?'a = nat] by simp
      then have u: "unat (word_of_nat n :: u32) = n" by (simp add: unat_of_nat)
      then have "word_of_nat n \<in> between a b" using n by (simp add: between_def word_le_nat_alt word_less_nat_alt)
      then show "n \<in> unat ` between a b" using u by force
    qed
  qed
  moreover have "inj_on unat (between a b)" by (simp add: inj_on_def word_unat_eq_iff)
  ultimately show ?thesis by (metis card_atLeastLessThan card_image)
qed

text \<open>The address of the child \<open>j\<close> of the branch, or the error instead, as the manager answers it.\<close>

definition childAnswer :: "('k, 'a, 'm) hdEnv_scheme \<Rightarrow> mgrStore \<Rightarrow> keyScope \<Rightarrow> (u32 \<Rightarrow> derivationPath) \<Rightarrow> ('k, 'a) manager
    \<Rightarrow> u32 \<Rightarrow> recErr + 'a option option" where
  "childAnswer E ns sc path m j = fst (deriveAddr E ns sc (path j) m)"

lemma keyPaths:
  assumes "path \<in> {externalKeyPath, internalKeyPath}"
  shows "InternalAccount (path j) = DefaultAccountNum" "pathIndex (path j) = j" "pathBranch (path j) = pathBranch (path k)"
  using assms by (auto simp: externalKeyPath_def internalKeyPath_def)

lemma childAnswer_steady:
  assumes "map_of (mgScoped m) sc = Some s" "map_of (smAcctInfo s) DefaultAccountNum = Some i"
    and "path \<in> {externalKeyPath, internalKeyPath}"
  shows "steady (\<lambda>j. deriveAddr E ns sc (path j)) (same_keys sc m) (childAnswer E ns sc path m)"
proof -
  have "map_of (smAcctInfo s) (InternalAccount (path j)) = Some i" for j using assms(2) keyPaths(1)[OF assms(3)] by simp
  then show ?thesis unfolding steady_def childAnswer_def
    using deriveAddr_steady[OF assms(1)] same_keys_refl[OF assms(1)] by blast
qed

lemma childAnswer_invalid:
  assumes s: "map_of (mgScoped m) sc = Some s" "map_of (smAcctInfo s) DefaultAccountNum = Some i"
    and path: "path \<in> {externalKeyPath, internalKeyPath}"
    and key: "accountKey m i = Some acctKey" "deriveChild E acctKey (pathBranch (path j)) = Inr branchKey"
      "deriveChild E branchKey j = Inl InvalidChild"
  shows "childAnswer E ns sc path m j = Inl (MgrFails (managerError ErrKeyChain))"
proof -
  let ?priv = "\<not> IsLocked m \<and> \<not> WatchOnly m \<and> acctKeyPriv i \<noteq> None"
  have "(if ?priv then acctKeyPriv i else acctKeyPub i) = Some acctKey" using key(1) by (simp add: accountKey_def)
  then have "deriveKey E i (pathBranch (path j)) j ?priv = Inl (managerError ErrKeyChain)"
    unfolding deriveKey_def by (simp add: key(2,3) del: not_None_eq)
  then have a: "answer E m s i (path j) = Inl (managerError ErrKeyChain)"
    unfolding answer_def by (simp add: keyPaths(2)[OF path] del: not_None_eq)
  have i: "map_of (smAcctInfo s) (InternalAccount (path j)) = Some i" using s(2) keyPaths(1)[OF path] by simp
  show ?thesis using DeriveFromKeyPath_run(1)[OF s(1) i a]
    by (simp add: childAnswer_def deriveAddr_def invalidChildErr_def managerError_def)
qed

text \<open>
  C38: The expansion of the external or the internal branch of the default account, whose keys are in memory, ends
  after at most as many derivations as there are keys to look at, when the branch watches what it claims to watch,
  as a new one does, and the indexes stay within 32 bits.  Either every key from the old horizon up to a
  recovery window beyond the last one found derives; then the horizon is there, at least \<open>recoveryWindow\<close> keys lie
  between the last one found and it, each is watched under the address the manager answers for its index, none is
  marked invalid, and the manager answers as before.  Or the expansion fails with the error of the first key that
  does not derive.  A child that is invalid is such a key: the manager's error for it is \<open>ErrKeyChain\<close>, not
  \<open>hdkeychain.ErrInvalidChild\<close>, so no invalid child is skipped and the recovery cannot get past it.
\<close>

theorem expandBranch_keeps_window:
  assumes "map_of (mgScoped m) sc = Some s" "map_of (smAcctInfo s) DefaultAccountNum = Some i"
    and "path \<in> {externalKeyPath, internalKeyPath}" "branch_ok (childAnswer E ns sc path m) brs"
    and "unat (nextUnfound brs) + unat (recoveryWindow brs) < 2 ^ 32"
    and "unat (nextUnfound brs) + unat (recoveryWindow brs) \<le> fuel"
  shows "(case expandBranch fuel (\<lambda>j. deriveAddr E ns sc (path j)) brs m of
      (Inr brs', m') \<Rightarrow> horizon brs' = newHorizon brs \<and> nextUnfound brs' = nextUnfound brs
        \<and> unat (recoveryWindow brs) \<le> card (between (nextUnfound brs') (horizon brs')) \<and> invalidChildren brs' = {}
        \<and> (\<forall>j \<in> between (nextUnfound brs') (horizon brs') \<union> between (horizon brs) (horizon brs').
             \<exists>a. childAnswer E ns sc path m j = Inr (Some a) \<and> addresses brs' j = Some a)
        \<and> childAnswer E ns sc path m' = childAnswer E ns sc path m
    | (Inl e, _) \<Rightarrow> \<exists>j \<in> between (horizon brs) (newHorizon brs). childAnswer E ns sc path m j = Inl e
        \<and> (\<forall>k \<in> between (horizon brs) j. \<exists>a. childAnswer E ns sc path m k = Inr (Some a)))
    \<and> (\<forall>j acctKey branchKey. j \<in> between (horizon brs) (newHorizon brs) \<longrightarrow> accountKey m i = Some acctKey \<longrightarrow>
        deriveChild E acctKey (pathBranch (path j)) = Inr branchKey \<longrightarrow> deriveChild E branchKey j = Inl InvalidChild \<longrightarrow>
        childAnswer E ns sc path m j = Inl (MgrFails (managerError ErrKeyChain))
        \<and> (\<exists>e. fst (expandBranch fuel (\<lambda>j. deriveAddr E ns sc (path j)) brs m) = Inl e))"
proof -
  let ?ans = "childAnswer E ns sc path m" and ?run = "expandBranch fuel (\<lambda>j. deriveAddr E ns sc (path j)) brs m"
  note st = childAnswer_steady[OF assms(1-3), of E ns]
  note x = expandBranch_spec[OF st same_keys_refl[OF assms(1)] assms(4-6)]
  have same: "childAnswer E ns sc path m' = ?ans" if "same_keys sc m m'" for m'
    using st that unfolding steady_def by (simp add: childAnswer_def[abs_def])
  have ut: "unat (nextUnfound brs + recoveryWindow brs) = unat (nextUnfound brs) + unat (recoveryWindow brs)"
    using assms(5) by (simp add: unat_word_ariths)
  have "nextUnfound brs + recoveryWindow brs \<le> newHorizon brs" by (simp add: newHorizon_def)
  then have win: "unat (recoveryWindow brs) \<le> card (between (nextUnfound brs) (newHorizon brs))"
    using ut by (simp add: card_between word_le_nat_alt)
  have inv: "\<exists>e. fst ?run = Inl e" if "j \<in> between (horizon brs) (newHorizon brs)" "?ans j = Inl e" for j e
  proof (cases "fst ?run")
    case (Inr brs')
    then have "answered ?ans (between (horizon brs) (newHorizon brs)) (addresses brs')" using x by (cases ?run) simp
    then show ?thesis using that by (auto simp: answered_def)
  qed simp
  show ?thesis
  proof (intro conjI allI impI)
    show "case ?run of
      (Inr brs', m') \<Rightarrow> horizon brs' = newHorizon brs \<and> nextUnfound brs' = nextUnfound brs
        \<and> unat (recoveryWindow brs) \<le> card (between (nextUnfound brs') (horizon brs')) \<and> invalidChildren brs' = {}
        \<and> (\<forall>j \<in> between (nextUnfound brs') (horizon brs') \<union> between (horizon brs) (horizon brs').
             \<exists>a. ?ans j = Inr (Some a) \<and> addresses brs' j = Some a)
        \<and> childAnswer E ns sc path m' = ?ans
    | (Inl e, _) \<Rightarrow> \<exists>j \<in> between (horizon brs) (newHorizon brs). ?ans j = Inl e
        \<and> (\<forall>k \<in> between (horizon brs) j. \<exists>a. ?ans k = Inr (Some a))"
      using x win same by (cases ?run) (auto simp: branch_ok_def answered_def split: sum.splits)
  next
    fix j acctKey branchKey
    assume j: "j \<in> between (horizon brs) (newHorizon brs)" "accountKey m i = Some acctKey"
      "deriveChild E acctKey (pathBranch (path j)) = Inr branchKey" "deriveChild E branchKey j = Inl InvalidChild"
    show "?ans j = Inl (MgrFails (managerError ErrKeyChain))" by (rule childAnswer_invalid[OF assms(1-3) j(2-4)])
    then show "\<exists>e. fst ?run = Inl e" by (rule inv[OF j(1)])
  qed
qed

text \<open>Reporting a found key moves the branch past it and keeps what it watches.\<close>

lemma ReportFound_keeps:
  assumes "branch_ok ans brs" "index + 1 \<noteq> 0"
  shows "branch_ok ans (ReportFound index brs) \<and> index < nextUnfound (ReportFound index brs)
    \<and> nextUnfound brs \<le> nextUnfound (ReportFound index brs)"
proof (cases "nextUnfound brs \<le> index")
  case True
  have "(unat index + 1) mod 2 ^ 32 \<noteq> 0" using assms(2) by (simp add: word_unat_eq_iff unat_word_ariths)
  then have "unat index + 1 < 2 ^ 32" using unsigned_less[of index, where ?'a = nat] by (cases "unat index + 1 = 2 ^ 32") auto
  then have lt: "index < index + 1" by (simp add: word_less_nat_alt unat_word_ariths)
  then have le: "nextUnfound brs \<le> index + 1" using True by simp
  then have "between (index + 1) (horizon brs) \<subseteq> between (nextUnfound brs) (horizon brs)" by (auto simp: between_def)
  then show ?thesis using assms(1) True lt le by (auto simp: ReportFound_def branch_ok_def answered_def)
next
  case False
  then show ?thesis using assms(1) by (auto simp: ReportFound_def)
qed

end
