(* ===== verification/Witness_Recovery.thy ===== *)
theory Witness_Recovery
  imports Witness_Mgr Recovery
begin

text \<open>
  The external branch of the manager of \<open>Witness_Mgr\<close>, of which the child 2 is invalid: a window of two keys is
  derived, one of three is not.
\<close>

definition derivesK :: "u32 \<Rightarrow> (bytes, bytes, bytes option option) rop" where
  "derivesK j = deriveAddr envK nsM KeyScopeBIP0084 (externalKeyPath j)"

lemma mgrK_account: "map_of (mgScoped (mgrK False)) KeyScopeBIP0084 = Some scopedK" "map_of (smAcctInfo scopedK) DefaultAccountNum = Some acctK"
  "accountKey (mgrK False) acctK = Some [7]"
  by (simp_all add: mgrK_def scopedK_def DefaultAccountNum_def accountKey_def IsLocked_def WatchOnly_def acctK_def)

lemma answerK: "childAnswer envK nsM KeyScopeBIP0084 externalKeyPath (mgrK False) j
  = (if j = 2 then Inl (MgrFails (managerError ErrKeyChain)) else Inr (Some (Some [ucast j, 0, 7])))"
proof -
  have i: "map_of (smAcctInfo scopedK) (InternalAccount (externalKeyPath j)) = Some acctK"
    using mgrK_account(2) by (simp add: externalKeyPath_def)
  have d: "deriveKey envK acctK 0 k b = (if k = 2 then Inl (managerError ErrKeyChain) else Inr [ucast k, 0, 7])" for b and k :: u32
    by (simp add: deriveKey_def envK_def acctK_def)
  show ?thesis
  proof (cases "j = 2")
    case True
    then have a: "answer envK (mgrK False) scopedK acctK (externalKeyPath j) = Inl (managerError ErrKeyChain)"
      by (simp add: answer_def externalKeyPath_def ExternalBranch_mgr_def d)
    show ?thesis using DeriveFromKeyPath_run(1)[OF mgrK_account(1) i a, of nsM] True
      by (simp add: childAnswer_def deriveAddr_def invalidChildErr_def managerError_def)
  next
    case False
    have made: "newManagedAddressFromExtKey envK ck (externalKeyPath j) [ucast j, 0, 7] WitnessPubKey (Some acctK)
        = Inr \<lparr>maPath = externalKeyPath j, maAddress = Some [ucast j, 0, 7], maImported = False, maInternal = False,
            maCompressed = True, maAddrType = WitnessPubKey, maPubKey = [ucast j, 0, 7], maPrivKeyEncrypted = [], maPrivKeyCT = []\<rparr>" for ck
      by (simp add: newManagedAddressFromExtKey_def newManagedAddressWithoutPrivKey_def envK_def fromLib_def
          WitnessPubKey_def NestedWitnessPubKey_def PubKeyHash_def TaprootPubKey_def)
    have "answer envK (mgrK False) scopedK acctK (externalKeyPath j) = Inr ([ucast j, 0, 7],
          \<lparr>maPath = externalKeyPath j, maAddress = Some [ucast j, 0, 7], maImported = False, maInternal = False,
            maCompressed = True, maAddrType = WitnessPubKey, maPubKey = [ucast j, 0, 7], maPrivKeyEncrypted = [], maPrivKeyCT = []\<rparr>)"
    proof -
      have "accountAddrType scopedK acctK False = WitnessPubKey" by (simp add: accountAddrType_def acctK_def scopedK_def)
      moreover have "pathBranch (externalKeyPath j) = 0" "pathIndex (externalKeyPath j) = j" "(0 :: u32) \<noteq> InternalBranch_mgr"
        by (simp_all add: externalKeyPath_def ExternalBranch_mgr_def InternalBranch_mgr_def)
      ultimately show ?thesis using False by (simp add: answer_def d made)
    qed
    from DeriveFromKeyPath_run(2)[OF mgrK_account(1) i this, of nsM] show ?thesis using False
      by (auto simp: childAnswer_def deriveAddr_def)
  qed
qed

lemma expandBranch_keeps_window_witness:
  "(\<exists>brs m. expandBranch 2 derivesK (NewBranchRecoveryState 2) (mgrK False) = (Inr brs, m) \<and> horizon brs = 2
      \<and> addresses brs 1 = Some (Some [1, 0, 7]))
   \<and> (\<exists>m. expandBranch 3 derivesK (NewBranchRecoveryState 3) (mgrK False) = (Inl (MgrFails (managerError ErrKeyChain)), m))"
proof -
  have w: "newHorizon (NewBranchRecoveryState w) = w" "nextUnfound (NewBranchRecoveryState w) = 0"
    "horizon (NewBranchRecoveryState w) = 0" "recoveryWindow (NewBranchRecoveryState w) = w" for w
    by (simp_all add: newHorizon_def NewBranchRecoveryState_def)
  have d: "derivesK = (\<lambda>j. deriveAddr envK nsM KeyScopeBIP0084 (externalKeyPath j))" by (rule ext) (simp add: derivesK_def)
  note e = expandBranch_keeps_window[OF mgrK_account(1,2) _ branch_ok_new, where path = externalKeyPath and E = envK and ns = nsM,
      folded d, unfolded answerK w]
  have b: "1 \<in> between 0 2" "2 \<notin> between 0 2" "2 \<in> between 0 3" by (simp_all add: between_def)
  have "\<exists>brs m. expandBranch 2 derivesK (NewBranchRecoveryState 2) (mgrK False) = (Inr brs, m) \<and> horizon brs = 2
      \<and> addresses brs 1 = Some (Some [1, 0, 7])"
  proof (cases "expandBranch 2 derivesK (NewBranchRecoveryState 2) (mgrK False)")
    case (Pair y m)
    have "case y of
      Inr brs' \<Rightarrow> horizon brs' = 2 \<and> nextUnfound brs' = 0
        \<and> (\<forall>j \<in> between (nextUnfound brs') (horizon brs') \<union> between 0 (horizon brs'). \<exists>a. (if j = 2
             then Inl (MgrFails (managerError ErrKeyChain)) else Inr (Some (Some [ucast j, 0, 7]))) = Inr (Some a) \<and> addresses brs' j = Some a)
    | Inl e \<Rightarrow> \<exists>j \<in> between 0 2. (if j = 2 then Inl (MgrFails (managerError ErrKeyChain)) else Inr (Some (Some [ucast j, 0, 7]))) = Inl e"
      using conjunct1[OF e[where fuel = 2 and w1 = 2]] Pair by (cases y) (auto split: if_splits)
    then show ?thesis using Pair b(1,2) by (cases y) (auto split: if_splits)
  qed
  moreover have "\<exists>m. expandBranch 3 derivesK (NewBranchRecoveryState 3) (mgrK False) = (Inl (MgrFails (managerError ErrKeyChain)), m)"
  proof (cases "expandBranch 3 derivesK (NewBranchRecoveryState 3) (mgrK False)")
    case (Pair y m)
    show ?thesis
      using conjunct1[OF e[where fuel = 3 and w1 = 3]] Pair b(3) by (cases y) (auto split: if_splits)
  qed
  ultimately show ?thesis by blast
qed

end
