(* ===== verification/Wallet_Tx.thy ===== *)
theory Wallet_Tx
  imports Mgr_Root Mgr_Create Wallet_Chain Coin_Select Kahn_Sort
begin

text \<open>
  The wallet over the address manager and the transaction store: recording relevant transactions
  (\<open>wallet/chainntfns.go\<close>), publishing, labels, leases and balances (\<open>wallet/wallet.go\<close>).  \<open>wallet\<close> is the
  manager in memory with the two namespaces of the database.  \<open>dbUpdate\<close> is \<open>walletdb.Update\<close>: an error undoes
  what was written, but not what the manager has cached.  Notifications to clients and logging are left out,
  except that \<open>addRelevantTx\<close> returns the addresses it logs as used.

  \<open>walletEnv\<close> holds \<open>txscript.ExtractPkScriptAddrs\<close> (the class of a script and its addresses), the chain client,
  and the order in which the Go map of scoped managers is visited.
\<close>

section \<open>The wallet\<close>

record ('k, 'a) wallet =
  wlManager :: "('k, 'a) manager"
  wlAddrNs :: mgrStore
  wlTxNs :: store
  wlLockedOutpoints :: "outPoint list"

datatype scriptClass = PubKeyTy | PubKeyHashTy | WitnessV0PubKeyHashTy | WitnessV0ScriptHashTy | MultiSigTy | OtherTy

record 'a backend =
  NotifyReceived :: "'a list \<Rightarrow> bool"
  SendRawTransaction :: "msgTx \<Rightarrow> backendErr option"

record 'a walletEnv =
  extractAddrs :: "bytes \<Rightarrow> (scriptClass \<times> 'a list) option"
  scopeOrder :: "keyScope list"
  chainClient :: "'a backend option"
  notifyUnspent :: bool

type_synonym ('k, 'a, 'r) wop = "(walletErr, ('k, 'a) wallet, 'r) op"

definition dbUpdate :: "('k, 'a, 'r) wop \<Rightarrow> ('k, 'a, 'r) wop" where
  "dbUpdate f w = (case f w of
     (Inl e, w') \<Rightarrow> (Inl e, w'\<lparr>wlAddrNs := wlAddrNs w, wlTxNs := wlTxNs w\<rparr>)
   | (Inr r, w') \<Rightarrow> (Inr r, w'))"

text \<open>An operation of the address manager on the namespace, and one of the transaction store.\<close>

definition mgrOn :: "(mgrStore \<Rightarrow> (('k, 'a) manager, 'r) mop) \<Rightarrow> ('k, 'a, 'r) wop" where
  "mgrOn f w = (let (r, m) = f (wlAddrNs w) (wlManager w) in (liftAddr r, w\<lparr>wlManager := m\<rparr>))"

definition mgrWrite :: "(mgrStore \<Rightarrow> (('k, 'a) manager, mgrStore) mop) \<Rightarrow> ('k, 'a, unit) wop" where
  "mgrWrite f = bindM (mgrOn f) (\<lambda>ns. modifyM (\<lambda>w. w\<lparr>wlAddrNs := ns\<rparr>))"

definition txRead :: "(store \<Rightarrow> 'r res) \<Rightarrow> ('k, 'a, 'r) wop" where
  "txRead f w = (liftTx (f (wlTxNs w)), w)"

definition txWrite :: "(store \<Rightarrow> ('r \<times> store) res) \<Rightarrow> ('k, 'a, 'r) wop" where
  "txWrite f w = (case f (wlTxNs w) of
     Inl e \<Rightarrow> (Inl (TxErr e), w)
   | Inr (r, ns) \<Rightarrow> (Inr r, w\<lparr>wlTxNs := ns\<rparr>))"

definition requireChainClient :: "'a walletEnv \<Rightarrow> ('k, 'a, 'a backend) wop" where
  "requireChainClient W = (case chainClient W of None \<Rightarrow> failM ErrNoChainClient | Some c \<Rightarrow> retM c)"

section \<open>Relevant transactions\<close>

text \<open>\<open>w.Manager.Address\<close>; an address that is not found is \<open>None\<close>.\<close>

definition lookupAddress :: "('k, 'a, 'm) hdEnv_scheme \<Rightarrow> 'a walletEnv \<Rightarrow> 'a \<Rightarrow> ('k, 'a, nat option) wop" where
  "lookupAddress E W addr w = (case Address_mgr E (wlAddrNs w) (scopeOrder W) addr (wlManager w) of
     (Inl e, m) \<Rightarrow> (if e = managerError ErrAddressNotFound then Inr None else Inl (AddrErr e), w\<lparr>wlManager := m\<rparr>)
   | (Inr ma, m) \<Rightarrow> (Inr (Some ma), w\<lparr>wlManager := m\<rparr>))"

definition creditAddress :: "('k, 'a, 'm) hdEnv_scheme \<Rightarrow> env \<Rightarrow> 'a walletEnv \<Rightarrow> txRecord \<Rightarrow> blockMeta option \<Rightarrow> u32
    \<Rightarrow> 'a \<Rightarrow> (u32 \<times> 'a) list \<Rightarrow> ('k, 'a, (u32 \<times> 'a) list) wop" where
  "creditAddress E T W rec block i addr marked =
     bindM (lookupAddress E W addr) (\<lambda>ma. case ma of
       None \<Rightarrow> retM marked
     | Some ma \<Rightarrow>
         bindM (mgrOn (\<lambda>ns. AddrAccount_mgr E ns (scopeOrder W) addr)) (\<lambda>(scope, _).
         if \<not> IsDefaultScope scope then retM marked
         else
           bindM getM (\<lambda>w.
           bindM (txWrite (\<lambda>ns. AddCredit T (notifyUnspent W) ns rec block i (internal_ma (mgHeap (wlManager w) ! ma)))) (\<lambda>_.
           bindM (mgrWrite (\<lambda>ns. MarkUsed_mgr E ns (scopeOrder W) addr)) (\<lambda>_.
           retM (marked @ [(i, addr)]))))))"

definition creditOutput :: "('k, 'a, 'm) hdEnv_scheme \<Rightarrow> env \<Rightarrow> 'a walletEnv \<Rightarrow> txRecord \<Rightarrow> blockMeta option
    \<Rightarrow> u32 \<times> txOut \<Rightarrow> (u32 \<times> 'a) list \<Rightarrow> ('k, 'a, (u32 \<times> 'a) list) wop" where
  "creditOutput E T W rec block = (\<lambda>(i, output) marked. case extractAddrs W (PkScript output) of
     None \<Rightarrow> retM marked
   | Some (_, addrs) \<Rightarrow> foldM_mop (creditAddress E T W rec block i) addrs marked)"

definition addRelevantTx :: "('k, 'a, 'm) hdEnv_scheme \<Rightarrow> env \<Rightarrow> 'a walletEnv \<Rightarrow> txRecord \<Rightarrow> blockMeta option
    \<Rightarrow> ('k, 'a, (u32 \<times> 'a) list) wop" where
  "addRelevantTx E T W rec block =
     bindM (txWrite (\<lambda>ns. InsertTxCheckIfExists T ns rec block)) (\<lambda>exists.
     if exists then retM []
     else foldM_mop (creditOutput E T W rec block) (indexed (TxOut (MsgTx rec))) [])"

section \<open>Publishing\<close>

definition removeUnmined :: "env \<Rightarrow> msgTx \<Rightarrow> ('k, 'a, unit) wop" where
  "removeUnmined T tx = dbUpdate (txWrite (\<lambda>ns.
     bindE (NewTxRecordFromMsgTx T tx (clockNow T)) (\<lambda>txRec.
     bindE (RemoveUnminedTx T ns txRec) (\<lambda>ns. Inr ((), ns)))))"

text \<open>An error of the operation is only logged.\<close>

definition ignoreErr :: "('k, 'a, unit) wop \<Rightarrow> ('k, 'a, unit) wop" where
  "ignoreErr f w = (Inr (), snd (f w))"

definition publishTransaction :: "env \<Rightarrow> 'a walletEnv \<Rightarrow> msgTx \<Rightarrow> ('k, 'a, hash) wop" where
  "publishTransaction T W tx =
     bindM (requireChainClient W) (\<lambda>client.
     case SendRawTransaction client tx of
       None \<Rightarrow> retM (txHashOf T tx)
     | Some ErrTxAlreadyInMempool \<Rightarrow> retM (txHashOf T tx)
     | Some ErrTxAlreadyKnown \<Rightarrow> bindM (ignoreErr (removeUnmined T tx)) (\<lambda>_. retM (txHashOf T tx))
     | Some ErrTxAlreadyConfirmed \<Rightarrow> bindM (ignoreErr (removeUnmined T tx)) (\<lambda>_. retM (txHashOf T tx))
     | Some rpcErr \<Rightarrow> bindM (ignoreErr (removeUnmined T tx)) (\<lambda>_. failM (BackendErr rpcErr)))"

definition ourAddresses :: "('k, 'a, 'm) hdEnv_scheme \<Rightarrow> 'a walletEnv \<Rightarrow> msgTx \<Rightarrow> ('k, 'a, 'a list) wop" where
  "ourAddresses E W tx = foldM_mop (\<lambda>txOut ours. case extractAddrs W (PkScript txOut) of
       None \<Rightarrow> retM ours
     | Some (_, addrs) \<Rightarrow> foldM_mop (\<lambda>addr ours. bindM (lookupAddress E W addr) (\<lambda>ma.
         retM (if ma = None then ours else ours @ [addr]))) addrs ours) (TxOut tx) []"

definition reliablyPublishTransaction :: "('k, 'a, 'm) hdEnv_scheme \<Rightarrow> env \<Rightarrow> 'a walletEnv \<Rightarrow> msgTx \<Rightarrow> bytes
    \<Rightarrow> ('k, 'a, hash) wop" where
  "reliablyPublishTransaction E T W tx label =
     bindM (requireChainClient W) (\<lambda>client.
     bindM (liftM (liftTx (NewTxRecordFromMsgTx T tx (clockNow T)))) (\<lambda>txRec.
     bindM (dbUpdate (
       bindM (ourAddresses E W tx) (\<lambda>ourAddrs.
       bindM (if label \<noteq> [] then txWrite (\<lambda>ns. bindE (PutTxLabel T ns (txHashOf T tx) label) (\<lambda>ns. Inr ((), ns)))
         else retM ()) (\<lambda>_.
       bindM (addRelevantTx E T W txRec None) (\<lambda>_. retM ourAddrs))))) (\<lambda>ourAddrs.
     if \<not> NotifyReceived client ourAddrs then failM ClientErr
     else publishTransaction T W tx)))"

definition PublishTransaction :: "('k, 'a, 'm) hdEnv_scheme \<Rightarrow> env \<Rightarrow> 'a walletEnv \<Rightarrow> msgTx \<Rightarrow> bytes \<Rightarrow> ('k, 'a, unit) wop" where
  "PublishTransaction E T W tx label = bindM (reliablyPublishTransaction E T W tx label) (\<lambda>_. retM ())"

fun resendTxs :: "env \<Rightarrow> 'a walletEnv \<Rightarrow> msgTx list \<Rightarrow> ('k, 'a, unit) wop" where
  "resendTxs T W [] w = (Inr (), w)"
| "resendTxs T W (tx # txs) w = resendTxs T W txs (snd (publishTransaction T W tx w))"

text \<open>\<open>order\<close> is the order in which \<open>DependencySort\<close> visits its map.\<close>

definition resendUnminedTxs :: "env \<Rightarrow> 'a walletEnv \<Rightarrow> hash list \<Rightarrow> ('k, 'a, unit) wop" where
  "resendUnminedTxs T W order w = (case UnminedTxs T (wlTxNs w) order of
     Inl e \<Rightarrow> (Inr (), w)
   | Inr txs \<Rightarrow> resendTxs T W txs w)"

definition RemoveDescendants :: "env \<Rightarrow> msgTx \<Rightarrow> ('k, 'a, unit) wop" where
  "RemoveDescendants T tx = bindM (liftM (liftTx (NewTxRecordFromMsgTx T tx (clockNow T)))) (\<lambda>txRecord.
     dbUpdate (txWrite (\<lambda>ns. bindE (RemoveUnminedTx T ns txRecord) (\<lambda>ns. Inr ((), ns)))))"

end
