(* ===== verification/Wallet_Relevant.thy ===== *)
theory Wallet_Relevant
  imports Wallet_Tx
begin

text \<open>
  What recording and publishing a transaction leave in the store: the invariant of the store, the credits of
  the new transaction, and nothing of a transaction that the backend refuses.
\<close>

section \<open>Runs\<close>

lemma foldM_invariant:
  assumes "foldM_mop f xs s m = (Inr s', m')" "P s m"
    and "\<And>x s m s' m'. x \<in> set xs \<Longrightarrow> P s m \<Longrightarrow> f x s m = (Inr s', m') \<Longrightarrow> P s' m'"
  shows "P s' m'"
  using assms
proof (induction xs arbitrary: s m)
  case (Cons x xs)
  then obtain s1 m1 where "f x s m = (Inr s1, m1)" "foldM_mop f xs s1 m1 = (Inr s', m')"
    by (auto simp: bindM_Inr)
  then show ?case using Cons by (metis list.set_intros)
qed (simp add: mop_run)

lemma foldM_one: "f x s m = (Inr s', m') \<Longrightarrow> foldM_mop f [x] s m = (Inr s', m')"
  by (simp add: bindM_def mop_run)

lemma bind_now:
  "bindM getM g m = g m m" "bindM (retM x) f m = f x m" "bindM (liftM (Inr x)) f m = f x m"
  by (simp_all add: bindM_def mop_run)

lemma mgrOn_frame: "mgrOn f w = (r, w') \<Longrightarrow> wlTxNs w' = wlTxNs w \<and> wlAddrNs w' = wlAddrNs w"
  by (auto simp: mgrOn_def split: prod.splits)

lemma mgrWrite_frame: "mgrWrite f w = (r, w') \<Longrightarrow> wlTxNs w' = wlTxNs w"
  by (auto simp: mgrWrite_def bindM_def mop_run dest!: mgrOn_frame split: prod.splits sum.splits)

lemma lookupAddress_frame: "lookupAddress E W addr w = (r, w') \<Longrightarrow> wlTxNs w' = wlTxNs w"
  by (auto simp: lookupAddress_def split: prod.splits sum.splits)

lemma txWrite_Inr: "txWrite f w = (Inr r, w') \<longleftrightarrow> (\<exists>ns. f (wlTxNs w) = Inr (r, ns) \<and> w' = w\<lparr>wlTxNs := ns\<rparr>)"
  by (auto simp: txWrite_def split: sum.splits)

section \<open>Credits\<close>

definition creditRecorded :: "store \<Rightarrow> txRecord \<Rightarrow> blockMeta option \<Rightarrow> u32 \<Rightarrow> bool" where
  "creditRecorded ns rec blk i \<longleftrightarrow> (case blk of
     None \<Rightarrow> bucketGet (sUnminedCredits ns) (canonicalOutPoint (Hash rec) i) \<noteq> None
   | Some block \<Rightarrow> creditAt ns (Hash rec) i (metaBlock block) \<noteq> None)"

lemma AddCredit_records:
  assumes db: "db_ok T" and inv: "wallet_inv T r ns M U" and rc: "recorded M U rec blk"
    and run: "AddCredit T notify ns rec blk i change = Inr (op, ns')"
  shows "creditRecorded ns' rec blk j \<longleftrightarrow> creditRecorded ns rec blk j \<or> j = i"
proof (cases blk)
  case None
  then have u: "U (Hash rec) = Some (MsgTx rec)" using rc by (simp add: recorded_def)
  have "M (Hash rec) = None" using wallet_invD(11)[OF inv] u unfolding chain_wf_def by (metis option.distinct(1))
  then have l: "latestTxRecord ns (Hash rec) = None" by (rule latestTxRecord_unknown[OF wallet_invD(7)[OF inv]])
  have len: "unat i < length (TxOut (MsgTx rec))" by (rule AddCredit_index[OF run])
  show ?thesis
  proof (cases "existsRawUnminedCredit ns (canonicalOutPoint (Hash rec) i) = None")
    case True
    then have "sUnminedCredits ns' = bucketPut (sUnminedCredits ns) (canonicalOutPoint (Hash rec) i)
        (valueUnminedCredit (Value (TxOut (MsgTx rec) ! unat i)) change)"
      using run None l db len by (simp add: AddCredit_def addCredit_def Let_def putRawUnminedCredit_def not_le)
        (auto simp: bindE_def)
    then show ?thesis using None by (auto simp: creditRecorded_def bucketGet_upd)
  next
    case False
    then have "ns' = ns" using run None len by (simp add: AddCredit_def addCredit_def Let_def not_le)
    then show ?thesis using False None by (auto simp: creditRecorded_def existsRawUnminedCredit_def)
  qed
next
  case (Some block)
  have len: "unat i < length (TxOut (MsgTx rec))" by (rule AddCredit_index[OF run])
  show ?thesis
  proof (cases "creditAt ns (Hash rec) i (metaBlock block)")
    case None
    then have e: "existsCredit ns (Hash rec) i (metaBlock block) = (keyCredit (Hash rec) i (metaBlock block), None)"
      by (simp add: existsCredit_def creditAt_def existsRawCredit_def Let_def)
    obtain v where "sCredits ns' = bucketPut (sCredits ns) (keyCredit (Hash rec) i (metaBlock block)) v"
      using run Some len db e
      by (simp add: AddCredit_def addCredit_def Let_def not_le putRawCredit_def putUnspent_def putMinedBalance_def)
        (auto simp: bindE_def split: sum.splits)
    then show ?thesis using Some by (auto simp: creditRecorded_def creditAt_def bucketGet_upd)
  next
    case (Some v)
    then have e: "existsCredit ns (Hash rec) i (metaBlock block) = (keyCredit (Hash rec) i (metaBlock block), Some v)"
      by (simp add: existsCredit_def creditAt_def existsRawCredit_def Let_def)
    then have "ns' = ns" using run \<open>blk = Some block\<close> len by (simp add: AddCredit_def addCredit_def Let_def not_le)
    then show ?thesis using Some \<open>blk = Some block\<close> by (auto simp: creditRecorded_def)
  qed
qed

text \<open>What the loop over the outputs keeps: the store, and the credits it has recorded so far.\<close>

definition crediting :: "env \<Rightarrow> (hash \<Rightarrow> nat) \<Rightarrow> minedMap \<Rightarrow> txMap \<Rightarrow> txRecord \<Rightarrow> blockMeta option \<Rightarrow> store
    \<Rightarrow> (u32 \<times> 'a) list \<Rightarrow> ('k, 'a) wallet \<Rightarrow> bool" where
  "crediting T r M U rec blk ns marked w \<longleftrightarrow> wallet_inv T r (wlTxNs w) M U
     \<and> (\<forall>i. creditRecorded (wlTxNs w) rec blk i \<longleftrightarrow> creditRecorded ns rec blk i \<or> i \<in> fst ` set marked)"

lemma creditAddress_run:
  assumes "lookupAddress E W addr w = (Inr (Some ma), w1)"
    and "mgrOn (\<lambda>ns. AddrAccount_mgr E ns (scopeOrder W) addr) w1 = (Inr (scope, acct), w2)" "IsDefaultScope scope"
    and "AddCredit T (notifyUnspent W) (wlTxNs w2) rec blk i (internal_ma (mgHeap (wlManager w2) ! ma)) = Inr (op, ns)"
    and "mgrWrite (\<lambda>ns. MarkUsed_mgr E ns (scopeOrder W) addr) (w2\<lparr>wlTxNs := ns\<rparr>) = (Inr u, w3)"
  shows "creditAddress E T W rec blk i addr marked w = (Inr (marked @ [(i, addr)]), w3)"
  using assms by (simp add: creditAddress_def bindM_def mop_run txWrite_def)

lemma creditAddress_cases:
  assumes run: "creditAddress E T W rec blk i addr marked w = (Inr marked', w')"
  obtains (skips) "wlTxNs w' = wlTxNs w" "marked' = marked"
  | (credits) op change where "AddCredit T (notifyUnspent W) (wlTxNs w) rec blk i change = Inr (op, wlTxNs w')"
    "marked' = marked @ [(i, addr)]"
proof -
  obtain ma w1 where 1: "lookupAddress E W addr w = (Inr ma, w1)" using run unfolding creditAddress_def bindM_Inr by blast
  note f1 = lookupAddress_frame[OF 1]
  show thesis
  proof (cases ma)
    case None
    then show ?thesis using run 1 f1 by (intro skips) (simp_all add: creditAddress_def bindM_def mop_run)
  next
    case (Some a)
    let ?owner = "mgrOn (\<lambda>ns. AddrAccount_mgr E ns (scopeOrder W) addr)"
    let ?add = "\<lambda>w ns. AddCredit T (notifyUnspent W) ns rec blk i (internal_ma (mgHeap (wlManager w) ! a))"
    let ?go = "\<lambda>(scope, _::u32). if \<not> IsDefaultScope scope then retM marked
        else bindM getM (\<lambda>w. bindM (txWrite (?add w)) (\<lambda>_.
          bindM (mgrWrite (\<lambda>ns. MarkUsed_mgr E ns (scopeOrder W) addr)) (\<lambda>_. retM (marked @ [(i, addr)]))))"
    have "bindM ?owner ?go w1 = (Inr marked', w')"
      using run Some by (simp add: creditAddress_def bindM_run(1)[where f = "lookupAddress E W addr", OF 1])
    then obtain p w2 where p: "?owner w1 = (Inr p, w2)" "?go p w2 = (Inr marked', w')" unfolding bindM_Inr by blast
    obtain scope acct where sc: "p = (scope, acct)" by (cases p)
    note 2 = p(1)[unfolded sc] and go = p(2)[unfolded sc prod.case]
    have f2: "wlTxNs w2 = wlTxNs w" using f1 mgrOn_frame[OF 2] by simp
    show ?thesis
    proof (cases "IsDefaultScope scope")
      case False
      then show ?thesis using go f2 by (intro skips) (simp_all add: mop_run)
    next
      case True
      let ?mark = "bindM (mgrWrite (\<lambda>ns. MarkUsed_mgr E ns (scopeOrder W) addr)) (\<lambda>_. retM (marked @ [(i, addr)]))"
      have "bindM (txWrite (?add w2)) (\<lambda>_. ?mark) w2 = (Inr marked', w')"
        using go True by (simp only: bind_now(1) not_True_eq_False if_False)
      then obtain op w3 where 3: "txWrite (?add w2) w2 = (Inr op, w3)" "?mark w3 = (Inr marked', w')"
        unfolding bindM_Inr by blast
      obtain u where 4: "mgrWrite (\<lambda>ns. MarkUsed_mgr E ns (scopeOrder W) addr) w3 = (Inr u, w')"
        "marked' = marked @ [(i, addr)]"
        using 3(2) unfolding bindM_Inr retM_def prod.inject sum.inject by blast
      obtain ns3 where "?add w2 (wlTxNs w2) = Inr (op, ns3)" "w3 = w2\<lparr>wlTxNs := ns3\<rparr>" using 3(1)[unfolded txWrite_Inr] by blast
      then show ?thesis using f2 mgrWrite_frame[OF 4(1)] 4(2) by (intro credits) simp_all
    qed
  qed
qed

lemma creditAddress_step:
  assumes db: "db_ok T" and rc: "recorded M U rec blk" and inv: "crediting T r M U rec blk ns marked w"
    and run: "creditAddress E T W rec blk i addr marked w = (Inr marked', w')"
  shows "crediting T r M U rec blk ns marked' w' \<and> (marked' = marked \<or> marked' = marked @ [(i, addr)])"
  using run
proof (cases rule: creditAddress_cases)
  case skips
  then show ?thesis using inv by (simp add: crediting_def)
next
  case (credits op change)
  have inv': "wallet_inv T r (wlTxNs w) M U" using inv by (simp add: crediting_def)
  have "wallet_inv T r (wlTxNs w') M U"
    using AddCredit_inv[OF db inv' rc AddCredit_index[OF credits(1)]] credits(1) by (metis Pair_inject sum.inject(2))
  then show ?thesis
    using inv AddCredit_records[OF db inv' rc credits(1)] credits(2) by (auto simp: crediting_def)
qed

text \<open>The output at index \<open>i\<close> pays to the address.\<close>

definition paysTo :: "'a walletEnv \<Rightarrow> txRecord \<Rightarrow> u32 \<Rightarrow> 'a \<Rightarrow> bool" where
  "paysTo W rec i addr \<longleftrightarrow> (\<exists>out c addrs. (i, out) \<in> set (indexed (TxOut (MsgTx rec)))
     \<and> extractAddrs W (PkScript out) = Some (c, addrs) \<and> addr \<in> set addrs)"

lemma creditOutput_step:
  assumes db: "db_ok T" and rc: "recorded M U rec blk"
    and inv: "crediting T r M U rec blk ns marked w" "\<forall>(i, addr)\<in>set marked. paysTo W rec i addr"
    and out: "(i, out) \<in> set (indexed (TxOut (MsgTx rec)))"
    and run: "creditOutput E T W rec blk (i, out) marked w = (Inr marked', w')"
  shows "crediting T r M U rec blk ns marked' w' \<and> (\<forall>(i, addr)\<in>set marked'. paysTo W rec i addr)"
proof (cases "extractAddrs W (PkScript out)")
  case None
  then show ?thesis using run inv by (simp add: creditOutput_def mop_run)
next
  case (Some p)
  then obtain c addrs where p: "extractAddrs W (PkScript out) = Some (c, addrs)" by (cases p) simp
  then have f: "foldM_mop (creditAddress E T W rec blk i) addrs marked w = (Inr marked', w')"
    using run by (simp add: creditOutput_def)
  show ?thesis
  proof (rule foldM_invariant[OF f, where P = "\<lambda>marked w. crediting T r M U rec blk ns marked w
      \<and> (\<forall>(i, addr)\<in>set marked. paysTo W rec i addr)"])
    fix addr s m s' m'
    assume a: "addr \<in> set addrs" "crediting T r M U rec blk ns s m \<and> (\<forall>(i, addr)\<in>set s. paysTo W rec i addr)"
      "creditAddress E T W rec blk i addr s m = (Inr s', m')"
    have "paysTo W rec i addr" using out p a(1) unfolding paysTo_def by blast
    moreover have "crediting T r M U rec blk ns s' m'" "s' = s \<or> s' = s @ [(i, addr)]"
      using creditAddress_step[OF db rc conjunct1[OF a(2)] a(3)] by simp_all
    ultimately show "crediting T r M U rec blk ns s' m' \<and> (\<forall>(i, addr)\<in>set s'. paysTo W rec i addr)"
      using a(2) by (elim disjE) simp_all
  qed (use inv in simp)
qed

text \<open>The transactions of the store after the new one is recorded.\<close>

definition minedWith :: "minedMap \<Rightarrow> txRecord \<Rightarrow> blockMeta option \<Rightarrow> minedMap" where
  "minedWith M rec blk = (case blk of None \<Rightarrow> M | Some block \<Rightarrow> M(Hash rec \<mapsto> (metaBlock block, MsgTx rec)))"

definition unminedWith :: "txMap \<Rightarrow> txRecord \<Rightarrow> blockMeta option \<Rightarrow> txMap" where
  "unminedWith U rec blk = (case blk of None \<Rightarrow> U(Hash rec \<mapsto> MsgTx rec) | Some block \<Rightarrow> survivors U rec)"

definition addable :: "env \<Rightarrow> (hash \<Rightarrow> nat) \<Rightarrow> minedMap \<Rightarrow> txMap \<Rightarrow> txRecord \<Rightarrow> blockMeta option \<Rightarrow> bool" where
  "addable T r M U rec blk \<longleftrightarrow> (case blk of None \<Rightarrow> receivable T r M U rec | Some block \<Rightarrow> mineable T r M U rec block)"

lemma InsertTx_addable:
  assumes "db_ok T" "wallet_inv T r ns M U" "addable T r M U rec blk"
  shows "\<exists>ns'. InsertTx T ns rec blk = Inr ns' \<and> wallet_inv T r ns' (minedWith M rec blk) (unminedWith U rec blk)"
  using assms(3) InsertTx_mined_inv[OF assms(1,2)] InsertTx_unmined_inv[OF assms(1,2)]
  by (cases blk) (simp_all add: addable_def minedWith_def unminedWith_def)

lemma recordedWith: "recorded (minedWith M rec blk) (unminedWith U rec blk) rec blk"
  by (cases blk) (simp_all add: recorded_def minedWith_def unminedWith_def)

lemma addRelevantTx_cases:
  assumes "addRelevantTx E T W rec blk w = (Inr marked, w')"
  obtains (known) "InsertTxCheckIfExists T (wlTxNs w) rec blk = Inr (True, wlTxNs w)" "marked = []" "w' = w"
  | (new) ns where "InsertTxCheckIfExists T (wlTxNs w) rec blk = Inr (False, ns)"
    "foldM_mop (creditOutput E T W rec blk) (indexed (TxOut (MsgTx rec))) [] (w\<lparr>wlTxNs := ns\<rparr>) = (Inr marked, w')"
proof -
  obtain ex ns where i: "InsertTxCheckIfExists T (wlTxNs w) rec blk = Inr (ex, ns)"
    "(if ex then retM [] else foldM_mop (creditOutput E T W rec blk) (indexed (TxOut (MsgTx rec))) [])
       (w\<lparr>wlTxNs := ns\<rparr>) = (Inr marked, w')"
    using assms unfolding addRelevantTx_def bindM_Inr txWrite_Inr by blast
  show thesis
  proof (cases ex)
    case True
    then have "ns = wlTxNs w" using i(1) by (auto simp: InsertTxCheckIfExists_def split: sum.splits if_splits)
    then show ?thesis using i True by (intro known) (simp_all add: mop_run)
  next
    case False
    then show ?thesis using i by (intro new) simp_all
  qed
qed

lemma addRelevantTx_crediting:
  assumes "db_ok T" "wallet_inv T r (wlTxNs w) M U" "addable T r M U rec blk"
    and ins: "InsertTxCheckIfExists T (wlTxNs w) rec blk = Inr (False, ns)"
    and loop: "foldM_mop (creditOutput E T W rec blk) (indexed (TxOut (MsgTx rec))) [] (w\<lparr>wlTxNs := ns\<rparr>) = (Inr marked, w')"
  shows "crediting T r (minedWith M rec blk) (unminedWith U rec blk) rec blk ns marked w'
    \<and> (\<forall>(i, addr)\<in>set marked. paysTo W rec i addr)"
proof (rule foldM_invariant[OF loop, where P = "\<lambda>marked w.
      crediting T r (minedWith M rec blk) (unminedWith U rec blk) rec blk ns marked w
      \<and> (\<forall>(i, addr)\<in>set marked. paysTo W rec i addr)"])
  have "InsertTx T (wlTxNs w) rec blk = Inr ns" using ins by (simp add: InsertTx_def)
  then show "crediting T r (minedWith M rec blk) (unminedWith U rec blk) rec blk ns [] (w\<lparr>wlTxNs := ns\<rparr>)
      \<and> (\<forall>(i, addr)\<in>set []. paysTo W rec i addr)"
    using InsertTx_addable[OF assms(1,2,3)] by (simp add: crediting_def)
next
  fix x s m s' m'
  assume "x \<in> set (indexed (TxOut (MsgTx rec)))" "creditOutput E T W rec blk x s m = (Inr s', m')"
    "crediting T r (minedWith M rec blk) (unminedWith U rec blk) rec blk ns s m \<and> (\<forall>(i, addr)\<in>set s. paysTo W rec i addr)"
  then show "crediting T r (minedWith M rec blk) (unminedWith U rec blk) rec blk ns s' m'
      \<and> (\<forall>(i, addr)\<in>set s'. paysTo W rec i addr)"
    using creditOutput_step[OF assms(1) recordedWith, of r M rec blk U ns s m W "fst x" "snd x" E s' m'] by simp
qed


section \<open>Publishing\<close>

lemma addRelevantTx_inv:
  assumes "db_ok T" "wallet_inv T r (wlTxNs w) M U" "addable T r M U rec blk"
    and "addRelevantTx E T W rec blk w = (Inr marked, w')"
  shows "wallet_inv T r (wlTxNs w') (minedWith M rec blk) (unminedWith U rec blk)"
  using assms(4)
proof (cases rule: addRelevantTx_cases)
  case known
  then show ?thesis using InsertTx_addable[OF assms(1-3)] by (simp add: InsertTx_def)
next
  case (new ns)
  then show ?thesis using addRelevantTx_crediting[OF assms(1-3) new] by (simp add: crediting_def)
qed

text \<open>Without the transaction and all that spends from it.\<close>

definition forgotten :: "txMap \<Rightarrow> hash \<Rightarrow> txMap" where
  "forgotten U h = U |` (- descendants U h)"

lemma removeUnmined_run:
  assumes "db_ok T" "wallet_inv T r (wlTxNs w) M U" "NewTxRecordFromMsgTx T tx (clockNow T) = Inr rec" "U (Hash rec) = Some tx"
  shows "\<exists>ns. removeUnmined T tx w = (Inr (), w\<lparr>wlTxNs := ns\<rparr>) \<and> wallet_inv T r ns M (forgotten U (txHashOf T tx))
    \<and> removed (creditKeys U (descendants U (txHashOf T tx))) (wlTxNs w) ns"
proof -
  have rec: "MsgTx rec = tx" "Hash rec = txHashOf T tx"
    using assms(3) by (auto simp: NewTxRecordFromMsgTx_def split: option.splits)
  then obtain ns where ns: "RemoveUnminedTx T (wlTxNs w) rec = Inr ns" "wallet_inv T r ns M (forgotten U (Hash rec))"
    using RemoveUnminedTx_inv[OF assms(1,2), of rec] assms(4) by (auto simp: forgotten_def)
  have "removed (creditKeys U (descendants U (Hash rec))) (wlTxNs w) ns"
    using removeConflict_spec[OF assms(1) wallet_invD(2)[OF assms(2)] wallet_acyclic[OF assms(2)], of rec] assms(4) rec ns(1)
    by (auto simp: RemoveUnminedTx_def)
  then show ?thesis using assms(3) rec ns by (auto simp: removeUnmined_def dbUpdate_def txWrite_def)
qed

lemma publishTransaction_spec:
  assumes "db_ok T" "wallet_inv T r (wlTxNs w) M U" "NewTxRecordFromMsgTx T tx (clockNow T) = Inr rec" "U (Hash rec) = Some tx"
    and "chainClient W = Some c"
  shows "\<exists>ns. wallet_inv T r ns M (forgotten U (txHashOf T tx))
    \<and> removed (creditKeys U (descendants U (txHashOf T tx))) (wlTxNs w) ns \<and> publishTransaction T W tx w =
    (case SendRawTransaction c tx of
       None \<Rightarrow> (Inr (txHashOf T tx), w)
     | Some e \<Rightarrow> if e = ErrTxAlreadyInMempool then (Inr (txHashOf T tx), w)
         else if e \<in> {ErrTxAlreadyKnown, ErrTxAlreadyConfirmed} then (Inr (txHashOf T tx), w\<lparr>wlTxNs := ns\<rparr>)
         else (Inl (BackendErr e), w\<lparr>wlTxNs := ns\<rparr>))"
proof -
  obtain ns where ns: "removeUnmined T tx w = (Inr (), w\<lparr>wlTxNs := ns\<rparr>)" "wallet_inv T r ns M (forgotten U (txHashOf T tx))"
      "removed (creditKeys U (descendants U (txHashOf T tx))) (wlTxNs w) ns"
    using removeUnmined_run[OF assms(1-4)] by blast
  have "publishTransaction T W tx w =
    (case SendRawTransaction c tx of
       None \<Rightarrow> (Inr (txHashOf T tx), w)
     | Some e \<Rightarrow> if e = ErrTxAlreadyInMempool then (Inr (txHashOf T tx), w)
         else if e \<in> {ErrTxAlreadyKnown, ErrTxAlreadyConfirmed} then (Inr (txHashOf T tx), w\<lparr>wlTxNs := ns\<rparr>)
         else (Inl (BackendErr e), w\<lparr>wlTxNs := ns\<rparr>))"
    using assms(5) ns(1)
    by (simp add: publishTransaction_def requireChainClient_def ignoreErr_def bindM_def mop_run
        split: option.splits backendErr.splits)
  then show ?thesis using ns(2,3) by blast
qed

lemma ourAddresses_frame:
  fixes w :: "('k, 'a) wallet"
  assumes "ourAddresses E W tx w = (Inr ours, w')" shows "wlTxNs w' = wlTxNs w \<and> wlAddrNs w' = wlAddrNs w"
proof -
  have look: "wlTxNs m' = wlTxNs m \<and> wlAddrNs m' = wlAddrNs m"
    if "bindM (lookupAddress E W addr) (\<lambda>ma. retM (if ma = None then s else s @ [addr])) m = (Inr s', m')" for addr s m s' m'
    using that by (auto simp: bindM_Inr retM_def lookupAddress_def split: prod.splits sum.splits)
  let ?P = "\<lambda>(s :: 'a list) (m :: ('k, 'a) wallet). wlTxNs m = wlTxNs w \<and> wlAddrNs m = wlAddrNs w"
  show ?thesis
  proof (rule foldM_invariant[OF assms[unfolded ourAddresses_def], where P = ?P])
    fix out s m s' m'
    assume m: "?P s m" and run: "(case extractAddrs W (PkScript out) of None \<Rightarrow> retM s
      | Some (_, addrs) \<Rightarrow> foldM_mop (\<lambda>addr ours. bindM (lookupAddress E W addr) (\<lambda>ma.
          retM (if ma = None then ours else ours @ [addr]))) addrs s) m = (Inr s', m')"
    show "?P s' m'"
    proof (cases "extractAddrs W (PkScript out)")
      case None
      then show ?thesis using run m by (simp add: mop_run)
    next
      case (Some p)
      obtain c addrs where p: "p = (c, addrs)" by (cases p)
      show ?thesis
        using run m unfolding Some p option.case prod.case
        by (rule foldM_invariant[where P = ?P]) (use look in fastforce)
    qed
  qed simp
qed

text \<open>The database transaction of a publication: the label and the relevant transaction, or nothing.\<close>

definition recordForPublishing :: "('k, 'a, 'm) hdEnv_scheme \<Rightarrow> env \<Rightarrow> 'a walletEnv \<Rightarrow> msgTx \<Rightarrow> bytes \<Rightarrow> txRecord
    \<Rightarrow> ('k, 'a, 'a list) wop" where
  "recordForPublishing E T W tx label txRec =
     bindM (ourAddresses E W tx) (\<lambda>ourAddrs.
     bindM (if label \<noteq> [] then txWrite (\<lambda>ns. bindE (PutTxLabel T ns (txHashOf T tx) label) (\<lambda>ns. Inr ((), ns)))
       else retM ()) (\<lambda>_.
     bindM (addRelevantTx E T W txRec None) (\<lambda>_. retM ourAddrs)))"

lemma reliablyPublish_run:
  assumes "NewTxRecordFromMsgTx T tx (clockNow T) = Inr rec" "chainClient W = Some c"
  shows "reliablyPublishTransaction E T W tx label w = bindM (dbUpdate (recordForPublishing E T W tx label rec)) (\<lambda>ourAddrs.
      if \<not> NotifyReceived c ourAddrs then failM ClientErr else publishTransaction T W tx) w"
  by (simp only: reliablyPublishTransaction_def requireChainClient_def assms option.case lift_simps
      recordForPublishing_def bind_now)

lemma recordForPublishing_inv:
  assumes "db_ok T" "wallet_inv T r (wlTxNs w) M U" "receivable T r M U rec"
    and "recordForPublishing E T W tx label rec w = (Inr ours, w')"
  shows "wallet_inv T r (wlTxNs w') M (U(Hash rec \<mapsto> MsgTx rec))"
proof -
  let ?label = "if label \<noteq> [] then txWrite (\<lambda>ns. bindE (PutTxLabel T ns (txHashOf T tx) label) (\<lambda>ns. Inr ((), ns))) else retM ()"
  obtain o' w1 u w2 marked where 1: "ourAddresses E W tx w = (Inr o', w1)" "?label w1 = (Inr u, w2)"
    "addRelevantTx E T W rec None w2 = (Inr marked, w')"
    using assms(4) unfolding recordForPublishing_def bindM_Inr retM_def prod.inject by blast
  have "wallet_inv T r (wlTxNs w1) M U" using ourAddresses_frame[OF 1(1)] assms(2) by simp
  then have "wallet_inv T r (wlTxNs w2) M U"
    using 1(2) PutTxLabel_inv by (auto simp: txWrite_Inr mop_run split: if_splits)
  from addRelevantTx_inv[OF assms(1) this _ 1(3)] assms(3) show ?thesis
    by (simp add: addable_def minedWith_def unminedWith_def)
qed

lemma forgotten_fresh: "forgotten (U(h \<mapsto> tx)) h = U |` (- descendants (U(h \<mapsto> tx)) h)"
  by (rule ext) (auto simp: forgotten_def restrict_map_def descendants_self)

section \<open>What publishing leaves alone\<close>

text \<open>The stores differ in the unmined transactions, their credits and their inputs at most.\<close>

definition unminedOnly :: "store \<Rightarrow> store \<Rightarrow> bool" where
  "unminedOnly ns ns' \<longleftrightarrow> ns' = ns\<lparr>sUnmined := sUnmined ns', sUnminedCredits := sUnminedCredits ns',
     sUnminedInputs := sUnminedInputs ns'\<rparr>"

lemma unminedOnly_refl [simp]: "unminedOnly ns ns" by (simp add: unminedOnly_def)

lemma unminedOnly_trans: "unminedOnly ns1 ns2 \<Longrightarrow> unminedOnly ns2 ns3 \<Longrightarrow> unminedOnly ns1 ns3"
  unfolding unminedOnly_def by (cases ns1; cases ns2; cases ns3) simp

lemma unminedOnly_labels: "unminedOnly ns ns' \<Longrightarrow> sTxLabels ns' = sTxLabels ns"
  by (cases ns; cases ns') (simp add: unminedOnly_def)

lemma AddCredit_only: "AddCredit T notify ns rec None i change = Inr (op, ns') \<Longrightarrow> unminedOnly ns ns'"
  by (auto simp: AddCredit_def addCredit_def putRawUnminedCredit_def unminedOnly_def Let_def split: if_splits)

lemma putInputs_only:
  "foldE (\<lambda>input ns. putRawUnminedInput T ns (f input) v) ins ns = Inr ns' \<Longrightarrow> unminedOnly ns ns'"
proof (induction ins arbitrary: ns)
  case (Cons x ins)
  then obtain ns1 where "putRawUnminedInput T ns (f x) v = Inr ns1" "unminedOnly ns1 ns'" by auto
  moreover from this(1) have "unminedOnly ns ns1" by (auto simp: putRawUnminedInput_def unminedOnly_def Let_def)
  ultimately show ?case using unminedOnly_trans by blast
qed simp

lemma insertMemPoolTx_only:
  assumes "insertMemPoolTx T ns rec = Inr ns'" shows "unminedOnly ns ns'"
proof -
  consider "ns' = ns" | v ns1 where "putRawUnmined T ns (hashBytes (Hash rec)) v = Inr ns1"
      "foldE (\<lambda>input ns. putRawUnminedInput T ns
           (canonicalOutPoint (opHash (PreviousOutPoint input)) (opIndex (PreviousOutPoint input)))
           (hashBytes (Hash rec))) (TxIn (MsgTx rec)) ns1 = Inr ns'"
    using assms unfolding insertMemPoolTx_def Let_def by (auto split: sum.splits option.splits if_splits)
  then show ?thesis
  proof cases
    case (2 v ns1)
    have "unminedOnly ns ns1" using 2(1) by (auto simp: putRawUnmined_def unminedOnly_def)
    then show ?thesis using putInputs_only[OF 2(2)] unminedOnly_trans by blast
  qed simp
qed

lemma addRelevantTx_only:
  assumes "addRelevantTx E T W rec None w = (Inr marked, w')" shows "unminedOnly (wlTxNs w) (wlTxNs w')"
  using assms
proof (cases rule: addRelevantTx_cases)
  case known
  then show ?thesis by simp
next
  case (new ns)
  have addr: "unminedOnly (wlTxNs w) (wlTxNs m')" if "unminedOnly (wlTxNs w) (wlTxNs m)"
    "creditAddress E T W rec None i addr s m = (Inr s', m')" for i addr s m s' m'
    using that(2) by (cases rule: creditAddress_cases)
      (use that(1) AddCredit_only unminedOnly_trans in \<open>simp, blast\<close>)
  show ?thesis
  proof (rule foldM_invariant[OF new(2), where P = "\<lambda>_ m. unminedOnly (wlTxNs w) (wlTxNs m)"])
    show "unminedOnly (wlTxNs w) (wlTxNs (w\<lparr>wlTxNs := ns\<rparr>))"
      using new(1) insertMemPoolTx_only by (auto simp: InsertTxCheckIfExists_def split: sum.splits if_splits)
  next
    fix io s m s' m'
    assume m: "unminedOnly (wlTxNs w) (wlTxNs m)" and run: "creditOutput E T W rec None io s m = (Inr s', m')"
    obtain i out where io: "io = (i, out)" by (cases io)
    show "unminedOnly (wlTxNs w) (wlTxNs m')"
    proof (cases "extractAddrs W (PkScript out)")
      case None
      then show ?thesis using m run by (simp add: creditOutput_def io mop_run)
    next
      case (Some p)
      then obtain c addrs where "extractAddrs W (PkScript out) = Some (c, addrs)" by (cases p) simp
      then have "foldM_mop (creditAddress E T W rec None i) addrs s m = (Inr s', m')"
        using run by (simp add: creditOutput_def io)
      then show ?thesis
        by (rule foldM_invariant[where P = "\<lambda>_ m. unminedOnly (wlTxNs w) (wlTxNs m)"]) (use m addr in auto)
    qed
  qed
qed

text \<open>The label given is that of the transaction; without one the labels are as they were.\<close>

definition labelled :: "env \<Rightarrow> msgTx \<Rightarrow> bytes \<Rightarrow> store \<Rightarrow> store \<Rightarrow> bool" where
  "labelled T tx label ns ns' \<longleftrightarrow> (if label = [] then sTxLabels ns' = sTxLabels ns
     else FetchTxLabel ns' (txHashOf T tx) = Inr label
       \<and> (\<forall>h. h \<noteq> txHashOf T tx \<longrightarrow> TxLabel ns' h = TxLabel ns h))"

lemma labels_cong: "sTxLabels ns' = sTxLabels ns \<Longrightarrow> FetchTxLabel ns' = FetchTxLabel ns \<and> TxLabel ns' = TxLabel ns"
  by (simp add: FetchTxLabel_def TxLabel_def fun_eq_iff)

lemma PutTxLabel_only: "PutTxLabel T ns h label = Inr ns' \<Longrightarrow> ns' = ns\<lparr>sTxLabels := sTxLabels ns'\<rparr>"
  by (auto simp: PutTxLabel_def Let_def split: if_splits)

lemma recordForPublishing_only:
  assumes "recordForPublishing E T W tx label rec w = (Inr ours, w')"
  shows "labelled T tx label (wlTxNs w) (wlTxNs w')"
    and "unminedOnly ((wlTxNs w)\<lparr>sTxLabels := sTxLabels (wlTxNs w')\<rparr>) (wlTxNs w')"
proof -
  let ?label = "if label \<noteq> [] then txWrite (\<lambda>ns. bindE (PutTxLabel T ns (txHashOf T tx) label) (\<lambda>ns. Inr ((), ns))) else retM ()"
  obtain o' w1 u w2 marked where 1: "ourAddresses E W tx w = (Inr o', w1)" "?label w1 = (Inr u, w2)"
    "addRelevantTx E T W rec None w2 = (Inr marked, w')"
    using assms unfolding recordForPublishing_def bindM_Inr retM_def prod.inject by blast
  have w1: "wlTxNs w1 = wlTxNs w" using ourAddresses_frame[OF 1(1)] by simp
  note o = addRelevantTx_only[OF 1(3)]
  have l: "sTxLabels (wlTxNs w') = sTxLabels (wlTxNs w2)" by (rule unminedOnly_labels[OF o])
  have put: "PutTxLabel T (wlTxNs w) (txHashOf T tx) label = Inr (wlTxNs w2)" if "label \<noteq> []"
    using 1(2) that w1 by (auto simp: txWrite_Inr)
  have no: "w2 = w1" if "label = []" using 1(2) that by (simp add: mop_run)
  show "labelled T tx label (wlTxNs w) (wlTxNs w')"
    using labels_cong[OF l] no w1 l PutTxLabel_FetchTxLabel[OF put] unfolding labelled_def by auto
  have "wlTxNs w2 = (wlTxNs w)\<lparr>sTxLabels := sTxLabels (wlTxNs w')\<rparr>"
  proof (cases "label = []")
    case True
    then show ?thesis using no l w1 by simp
  next
    case False
    show ?thesis unfolding l by (rule PutTxLabel_only[OF put[OF False]])
  qed
  then show "unminedOnly ((wlTxNs w)\<lparr>sTxLabels := sTxLabels (wlTxNs w')\<rparr>) (wlTxNs w')" using o by simp
qed

section \<open>The outcomes\<close>

definition staysIn :: "env \<Rightarrow> (hash \<Rightarrow> nat) \<Rightarrow> minedMap \<Rightarrow> txMap \<Rightarrow> msgTx \<Rightarrow> ('k, 'a) wallet \<Rightarrow> bool" where
  "staysIn T r M U tx w \<longleftrightarrow> wallet_inv T r (wlTxNs w) M (U(txHashOf T tx \<mapsto> tx))"

text \<open>The wallet \<open>w'\<close> is \<open>w1\<close> without the transaction, what spends from it and their credits.\<close>

definition goneFrom :: "env \<Rightarrow> (hash \<Rightarrow> nat) \<Rightarrow> minedMap \<Rightarrow> txMap \<Rightarrow> msgTx \<Rightarrow> ('k, 'a) wallet \<Rightarrow> ('k, 'a) wallet \<Rightarrow> bool" where
  "goneFrom T r M U tx w1 w' \<longleftrightarrow> (\<exists>ns. w' = w1\<lparr>wlTxNs := ns\<rparr>
     \<and> wallet_inv T r ns M (U |` (- descendants (U(txHashOf T tx \<mapsto> tx)) (txHashOf T tx)))
     \<and> removed (creditKeys (U(txHashOf T tx \<mapsto> tx)) (descendants (U(txHashOf T tx \<mapsto> tx)) (txHashOf T tx))) (wlTxNs w1) ns)"

text \<open>
  C13: Publishing a new transaction ends in one of five ways.  The database refuses and nothing is written.
  Otherwise the wallet first becomes \<open>w1\<close>, in which the transaction is recorded as unmined under its label,
  and of the store only the unmined transactions, their credits and inputs and the label of this one have
  changed: then the client cannot be asked for notifications and \<open>w1\<close> stays, although an error is
  returned; the backend takes the transaction and \<open>w1\<close> stays; or the backend knows it already, or refuses
  it, and of \<open>w1\<close> the transaction, all that spends from it and their credits are removed, and nothing
  else: the label of the transaction and the used flags of the addresses it pays to are left as written.
\<close>

theorem reliablyPublish_outcomes:
  assumes "db_ok T" "wallet_inv T r (wlTxNs w) M U" "NewTxRecordFromMsgTx T tx (clockNow T) = Inr rec"
    and "receivable T r M U rec" "chainClient W = Some c"
    and "reliablyPublishTransaction E T W tx label w = (res, w')"
  shows "(\<exists>e. res = Inl e) \<and> wlTxNs w' = wlTxNs w \<and> wlAddrNs w' = wlAddrNs w
    \<or> (\<exists>ours w1. dbUpdate (recordForPublishing E T W tx label rec) w = (Inr ours, w1) \<and> staysIn T r M U tx w1
        \<and> labelled T tx label (wlTxNs w) (wlTxNs w1)
        \<and> unminedOnly ((wlTxNs w)\<lparr>sTxLabels := sTxLabels (wlTxNs w1)\<rparr>) (wlTxNs w1)
        \<and> (if \<not> NotifyReceived c ours then res = Inl ClientErr \<and> w' = w1
           else case SendRawTransaction c tx of
             None \<Rightarrow> res = Inr (txHashOf T tx) \<and> w' = w1
           | Some ErrTxAlreadyInMempool \<Rightarrow> res = Inr (txHashOf T tx) \<and> w' = w1
           | Some (ErrRejected n) \<Rightarrow> res = Inl (BackendErr (ErrRejected n)) \<and> goneFrom T r M U tx w1 w'
           | Some _ \<Rightarrow> res = Inr (txHashOf T tx) \<and> goneFrom T r M U tx w1 w'))"
proof -
  let ?h = "txHashOf T tx" and ?written = "recordForPublishing E T W tx label rec"
  have rec: "MsgTx rec = tx" "Hash rec = ?h"
    using assms(3) by (auto simp: NewTxRecordFromMsgTx_def split: option.splits)
  have run: "bindM (dbUpdate ?written) (\<lambda>ourAddrs.
      if \<not> NotifyReceived c ourAddrs then failM ClientErr else publishTransaction T W tx) w = (res, w')"
    using assms(6) unfolding reliablyPublish_run[OF assms(3,5)] .
  obtain x w1 where x: "?written w = (x, w1)" by fastforce
  show ?thesis
  proof (cases x)
    case (Inl e)
    then have "dbUpdate ?written w = (Inl e, w1\<lparr>wlAddrNs := wlAddrNs w, wlTxNs := wlTxNs w\<rparr>)"
      using x by (simp add: dbUpdate_def)
    then show ?thesis using run by (auto simp: bindM_def)
  next
    case (Inr ours)
    then have r: "?written w = (Inr ours, w1)" using x by simp
    have d: "dbUpdate ?written w = (Inr ours, w1)" using r by (simp add: dbUpdate_def)
    have inv: "wallet_inv T r (wlTxNs w1) M (U(?h \<mapsto> tx))"
      using recordForPublishing_inv[OF assms(1,2,4) r] rec by simp
    have run': "(if \<not> NotifyReceived c ours then failM ClientErr else publishTransaction T W tx) w1 = (res, w')"
      using run by (simp only: bindM_run(1)[where f = "dbUpdate ?written", OF d])
    obtain ns where ns: "wallet_inv T r ns M (forgotten (U(?h \<mapsto> tx)) ?h)"
      "removed (creditKeys (U(?h \<mapsto> tx)) (descendants (U(?h \<mapsto> tx)) ?h)) (wlTxNs w1) ns"
      "publishTransaction T W tx w1 =
        (case SendRawTransaction c tx of None \<Rightarrow> (Inr ?h, w1)
         | Some e \<Rightarrow> if e = ErrTxAlreadyInMempool then (Inr ?h, w1)
             else if e \<in> {ErrTxAlreadyKnown, ErrTxAlreadyConfirmed} then (Inr ?h, w1\<lparr>wlTxNs := ns\<rparr>)
             else (Inl (BackendErr e), w1\<lparr>wlTxNs := ns\<rparr>))"
      using publishTransaction_spec[OF assms(1) inv assms(3) _ assms(5)] rec by auto
    have go: "goneFrom T r M U tx w1 (w1\<lparr>wlTxNs := ns\<rparr>)"
      unfolding goneFrom_def using ns(1,2) by (intro exI[of _ ns]) (simp add: forgotten_fresh)
    have "if \<not> NotifyReceived c ours then res = Inl ClientErr \<and> w' = w1
           else case SendRawTransaction c tx of
             None \<Rightarrow> res = Inr ?h \<and> w' = w1
           | Some ErrTxAlreadyInMempool \<Rightarrow> res = Inr ?h \<and> w' = w1
           | Some (ErrRejected n) \<Rightarrow> res = Inl (BackendErr (ErrRejected n)) \<and> goneFrom T r M U tx w1 w'
           | Some _ \<Rightarrow> res = Inr ?h \<and> goneFrom T r M U tx w1 w'"
      using run' ns(3) go by (auto simp: mop_run split: if_splits option.splits backendErr.splits)
    then show ?thesis using d recordForPublishing_only[OF r] inv unfolding staysIn_def by blast
  qed
qed

end
