(* ===== verification/Witness_Tx.thy ===== *)
theory Witness_Tx
  imports Witness_Mgr Wallet_Relevant
begin

text \<open>
  A wallet at work: transaction A pays to the address that \<open>chainedK\<close> holds, so it is recorded with its output
  as a credit, and published.
\<close>

definition wR :: "(bytes, bytes) wallet" where
  "wR = \<lparr>wlManager = (mgrK True)\<lparr>mgScoped := [(KeyScopeBIP0084, scopedK\<lparr>smAddrs := [([3, 0, 7], 0)]\<rparr>)],
       mgHeap := [PubKeyAddr addrN]\<rparr>,
     wlAddrNs = setScope KeyScopeBIP0084 chainedK nsK, wlTxNs = store0, wlLockedOutpoints = []\<rparr>"

definition WR :: "bytes walletEnv" where
  "WR = \<lparr>extractAddrs = \<lambda>_. Some (WitnessV0PubKeyHashTy, [[3, 0, 7]]), scopeOrder = [KeyScopeBIP0084],
     chainClient = Some \<lparr>NotifyReceived = \<lambda>_. True, SendRawTransaction = \<lambda>_. Some (ErrRejected 1)\<rparr>, notifyUnspent = True\<rparr>"

definition recP :: txRecord where "recP = recA\<lparr>Received := 50000000000\<rparr>"

lemma recP_fields: "Hash recP = 1" "MsgTx recP = txA" "SerializedTx recP = Some [1]"
  by (simp_all add: recP_def recA_def)

lemma recP_new: "NewTxRecordFromMsgTx env1 txA (clockNow env1) = Inr recP"
  by (simp add: NewTxRecordFromMsgTx_def env1_def recP_def recA_def)

lemma receivable_P: "receivable env1 rank1 Map.empty Map.empty recP"
  using wf_txs by (simp add: receivable_def recP_fields rec_ok_def env1_def)

text \<open>A wallet whose manager and addresses are those of \<open>wR\<close>.\<close>

definition knowing :: "(bytes, bytes) wallet \<Rightarrow> bool" where
  "knowing w \<longleftrightarrow> wlManager w = wlManager wR \<and> wlAddrNs w = wlAddrNs wR"

lemma knownR: "Address_scoped envK ns KeyScopeBIP0084 [3, 0, 7] (wlManager wR) = (Inr 0, wlManager wR)"
  by (simp add: Address_scoped_def wR_def bind_getScoped mop_run envK_def Let_def)

lemma ownerR: "findOwner envK ns [KeyScopeBIP0084] [3, 0, 7] (wlManager wR) = (Inr (KeyScopeBIP0084, 0), wlManager wR)"
  by (simp add: knownR)

lemma lookupR: "knowing w \<Longrightarrow> lookupAddress envK WR [3, 0, 7] w = (Inr (Some 0), w)"
  using ownerR by (simp add: lookupAddress_def knowing_def WR_def Address_mgr_def bindM_def mop_run del: findOwner.simps)

lemma accountR: "AddrAccount_scoped envK (wlAddrNs wR) KeyScopeBIP0084 [3, 0, 7] = Inr 0"
proof -
  have "scopeAt (wlAddrNs wR) KeyScopeBIP0084 = Some chainedK" by (simp add: wR_def scopeAt_set[OF scopeK_at])
  then show ?thesis
    by (simp add: AddrAccount_scoped_def fetchAddrAccount_def fetchScope_at chainedK_def chainedScope_def advanceScope_def
        enterAddress_def envK_def convertE_def le32_uint32ToBytes)
qed

lemma ownedR: "knowing w \<Longrightarrow> mgrOn (\<lambda>ns. AddrAccount_mgr envK ns (scopeOrder WR) [3, 0, 7]) w = (Inr (KeyScopeBIP0084, 0), w)"
  using ownerR accountR by (simp add: mgrOn_def knowing_def WR_def AddrAccount_mgr_def bindM_def mop_run del: findOwner.simps)

lemma markR: "knowing w \<Longrightarrow> \<exists>w'. mgrWrite (\<lambda>ns. MarkUsed_mgr envK ns (scopeOrder WR) [3, 0, 7]) w = (Inr (), w')"
proof -
  assume w: "knowing w"
  have "scopeAt (wlAddrNs wR) KeyScopeBIP0084 = Some chainedK" by (simp add: wR_def scopeAt_set[OF scopeK_at])
  then have "\<exists>ns. markAddressUsed envK (wlAddrNs wR) KeyScopeBIP0084 (scriptAddress envK [3, 0, 7]) = Inr ns"
    by (auto simp: markAddressUsed_def fetchScope_at putScope_ok envK_ok(1) Let_def)
  then obtain ns where "markAddressUsed envK (wlAddrNs wR) KeyScopeBIP0084 (scriptAddress envK [3, 0, 7]) = Inr ns" by blast
  then show ?thesis using w ownerR
    by (simp add: mgrWrite_def mgrOn_def knowing_def WR_def MarkUsed_mgr_def MarkUsed_scoped_def bindM_def mop_run convertM_def
        Let_def del: findOwner.simps)
qed

text \<open>The run that credits output 0 of A.\<close>

lemma addsR:
  assumes a: "addable env1 rank1 Map.empty Map.empty rec blk" and r: "MsgTx rec = txA"
    and ns: "InsertTxCheckIfExists env1 store0 rec blk = Inr (False, ns)"
  shows "\<exists>w'. addRelevantTx envK env1 WR rec blk wR = (Inr [(0, [3, 0, 7])], w')"
proof -
  have st: "wlTxNs wR = store0" by (simp add: wR_def)
  have inv: "wallet_inv env1 rank1 ns (minedWith Map.empty rec blk) (unminedWith Map.empty rec blk)"
    using InsertTx_addable[OF env1_ok wallet0 a] ns by (auto simp: InsertTx_def)
  let ?w1 = "wR\<lparr>wlTxNs := ns\<rparr>"
  have k: "knowing ?w1" by (simp add: knowing_def)
  obtain op ns2 where add: "AddCredit env1 (notifyUnspent WR) (wlTxNs ?w1) rec blk 0 (internal_ma (mgHeap (wlManager ?w1) ! 0)) = Inr (op, ns2)"
    using AddCredit_inv[OF env1_ok inv recordedWith, where i = 0 and notify = "notifyUnspent WR"
        and change = "internal_ma (mgHeap (wlManager ?w1) ! 0)"] r by (auto simp: txA_def)
  obtain w' where w': "mgrWrite (\<lambda>ns. MarkUsed_mgr envK ns (scopeOrder WR) [3, 0, 7]) (?w1\<lparr>wlTxNs := ns2\<rparr>) = (Inr (), w')"
    using markR[of "?w1\<lparr>wlTxNs := ns2\<rparr>"] by (auto simp: knowing_def)
  have "IsDefaultScope KeyScopeBIP0084" by (simp add: IsDefaultScope_def DefaultKeyScopes_def)
  from creditAddress_run[OF lookupR[OF k] ownedR[OF k] this add w', of "[]"]
  have c: "creditAddress envK env1 WR rec blk 0 [3, 0, 7] [] ?w1 = (Inr [(0, [3, 0, 7])], w')" by simp
  let ?out = "\<lparr>Value = 700, PkScript = [1]\<rparr>"
  have o: "indexed (TxOut (MsgTx rec)) = [(0, ?out)]" using r by (simp add: txA_def indexed_def)
  have "extractAddrs WR [1] = Some (WitnessV0PubKeyHashTy, [[3, 0, 7]])" by (simp add: WR_def)
  then have "creditOutput envK env1 WR rec blk (0, ?out) [] ?w1 = (Inr [(0, [3, 0, 7])], w')"
    using foldM_one[where f = "creditAddress envK env1 WR rec blk 0", OF c] by (simp add: creditOutput_def del: foldM_mop.simps)
  then have f: "foldM_mop (creditOutput envK env1 WR rec blk) (indexed (TxOut (MsgTx rec))) [] ?w1 = (Inr [(0, [3, 0, 7])], w')"
    unfolding o by (rule foldM_one)
  have i: "txWrite (\<lambda>ns. InsertTxCheckIfExists env1 ns rec blk) wR = (Inr False, ?w1)"
    using ns st by (simp add: txWrite_def)
  have "addRelevantTx envK env1 WR rec blk wR = (Inr [(0, [3, 0, 7])], w')"
    using f by (simp add: addRelevantTx_def bindM_run(1)[where f = "txWrite (\<lambda>ns. InsertTxCheckIfExists env1 ns rec blk)", OF i])
  then show ?thesis by blast
qed



lemma insertP: "\<exists>ns. InsertTxCheckIfExists env1 store0 recP None = Inr (False, ns)"
proof -
  obtain ns where "insertMemPoolTx env1 store0 recP = Inr ns"
    using insertMemPoolTx_spec[OF env1_ok mempool0 receivable_insertable[OF wallet0 receivable_P]] by blast
  then show ?thesis by (simp add: InsertTxCheckIfExists_def)
qed

lemma removed_labels: "removed K ns ns' \<Longrightarrow> sTxLabels ns' = sTxLabels ns"
  by (cases ns; cases ns') (simp add: removed_def)

lemma reliablyPublish_outcomes_witness:
  "\<exists>w'. reliablyPublishTransaction envK env1 WR txA [] wR = (Inl (BackendErr (ErrRejected 1)), w')
    \<and> wallet_inv env1 rank1 (wlTxNs w') Map.empty Map.empty \<and> sTxLabels (wlTxNs w') = sTxLabels (wlTxNs wR)"
proof -
  have inv: "wallet_inv env1 rank1 (wlTxNs wR) Map.empty Map.empty" using wallet0 by (simp add: wR_def)
  have a: "addable env1 rank1 Map.empty Map.empty recP None" using receivable_P by (simp add: addable_def)
  obtain ns where ns: "InsertTxCheckIfExists env1 store0 recP None = Inr (False, ns)" using insertP by blast
  obtain w1 where w1: "addRelevantTx envK env1 WR recP None wR = (Inr [(0, [3, 0, 7])], w1)"
    using addsR[OF a _ ns] recP_fields by auto
  have h: "txHashOf env1 txA = 1" by (simp add: env1_def)
  have c: "chainClient WR = Some \<lparr>NotifyReceived = \<lambda>_. True, SendRawTransaction = \<lambda>_. Some (ErrRejected 1)\<rparr>" by (simp add: WR_def)
  have o: "ourAddresses envK WR txA wR = (Inr [[3, 0, 7]], wR)"
  proof -
    have k: "knowing wR" by (simp add: knowing_def)
    have "(case extractAddrs WR [1] of None \<Rightarrow> retM ([] :: bytes list)
      | Some (_, addrs) \<Rightarrow> foldM_mop (\<lambda>addr ours. bindM (lookupAddress envK WR addr) (\<lambda>ma.
          retM (if ma = None then ours else ours @ [addr]))) addrs []) wR = (Inr [[3, 0, 7]], wR)"
      by (simp add: WR_def[THEN arg_cong, of extractAddrs] bindM_def lookupR[OF k] mop_run)
    then show ?thesis unfolding ourAddresses_def txA_def by (simp add: bindM_def mop_run split: prod.splits sum.splits)
  qed
  have "recordForPublishing envK env1 WR txA [] recP wR = (Inr [[3, 0, 7]], w1)"
    by (simp add: recordForPublishing_def bindM_run(1)[where f = "ourAddresses envK WR txA", OF o] bind_now
        bindM_run(1)[where f = "addRelevantTx envK env1 WR recP None", OF w1] mop_run(1))
  then have d: "dbUpdate (recordForPublishing envK env1 WR txA [] recP) wR = (Inr [[3, 0, 7]], w1)" by (simp add: dbUpdate_def)
  obtain res w' where r: "reliablyPublishTransaction envK env1 WR txA [] wR = (res, w')" by fastforce
  have "res = fst (publishTransaction env1 WR txA w1)"
    using r by (simp add: reliablyPublish_run[OF recP_new c]
        bindM_run(1)[where f = "dbUpdate (recordForPublishing envK env1 WR txA [] recP)", OF d])
  then have "res = Inl (BackendErr (ErrRejected 1))"
    using c by (simp add: publishTransaction_def requireChainClient_def bind_now bindM_def ignoreErr_def mop_run)
  moreover have "Map.empty |` (- D) = Map.empty" for D :: "hash set" by (rule ext) (simp add: restrict_map_def)
  moreover note reliablyPublish_outcomes[OF env1_ok inv recP_new receivable_P c r]
  ultimately have "wallet_inv env1 rank1 (wlTxNs w') Map.empty Map.empty \<and> sTxLabels (wlTxNs w') = sTxLabels (wlTxNs wR)"
    using inv removed_labels by (auto simp: goneFrom_def labelled_def)
  then show ?thesis using r \<open>res = Inl (BackendErr (ErrRejected 1))\<close> by blast
qed

end
