(* ===== verification/Wallet_Ops.thy ===== *)
theory Wallet_Ops
  imports Wallet_Relevant Mgr_Props Mgr_Next
begin

text \<open>
  The operations of \<open>wallet/wallet.go\<close> that its clients call: balances, listings, labels, locked outpoints and
  leases, accounts and addresses.  They run on the wallet of \<open>Wallet_Tx\<close>.  A view of the database writes nothing,
  but may fill the caches of the manager.  Amounts are not converted to floating point and hashes not to text; the
  notifications of clients are left out.
\<close>

section \<open>Views\<close>

definition panicW :: walletErr where "panicW = AddrErr MgrPanic"

text \<open>A call whose error only decides a branch; a panic is not caught.\<close>

definition tryW :: "('k, 'a, 'r) wop \<Rightarrow> ('k, 'a, 'r option) wop" where
  "tryW f w = (case f w of
     (Inl e, w') \<Rightarrow> (if e = panicW then Inl e else Inr None, w')
   | (Inr r, w') \<Rightarrow> (Inr (Some r), w'))"

definition syncedHeight :: "('k, 'a) wallet \<Rightarrow> height" where
  "syncedHeight w = stampHeight (SyncedTo (mgSyncState (wlManager w)))"

definition fetchManager :: "keyScope \<Rightarrow> ('k, 'a, unit) wop" where
  "fetchManager scope = bindM getM (\<lambda>w. bindM (liftM (liftAddr (FetchScopedKeyManager (wlManager w) scope))) (\<lambda>_. retM ()))"

definition nsRead :: "(mgrStore \<Rightarrow> 'r mres) \<Rightarrow> ('k, 'a, 'r) wop" where
  "nsRead f w = (liftAddr (f (wlAddrNs w)), w)"

section \<open>Locked outpoints and leases\<close>

definition LockedOutpoint :: "outPoint \<Rightarrow> ('k, 'a) wallet \<Rightarrow> bool" where
  "LockedOutpoint op w \<longleftrightarrow> op \<in> set (wlLockedOutpoints w)"

definition LockOutpoint :: "outPoint \<Rightarrow> ('k, 'a) wallet \<Rightarrow> ('k, 'a) wallet" where
  "LockOutpoint op w = w\<lparr>wlLockedOutpoints := List.insert op (wlLockedOutpoints w)\<rparr>"

definition UnlockOutpoint :: "outPoint \<Rightarrow> ('k, 'a) wallet \<Rightarrow> ('k, 'a) wallet" where
  "UnlockOutpoint op w = w\<lparr>wlLockedOutpoints := removeAll op (wlLockedOutpoints w)\<rparr>"

definition ResetLockedOutpoints :: "('k, 'a) wallet \<Rightarrow> ('k, 'a) wallet" where
  "ResetLockedOutpoints w = w\<lparr>wlLockedOutpoints := []\<rparr>"

definition LockedOutpoints :: "('k, 'a) wallet \<Rightarrow> (hash \<times> u32) list" where
  "LockedOutpoints w = map (\<lambda>op. (opHash op, opIndex op)) (wlLockedOutpoints w)"

definition LeaseOutput :: "env \<Rightarrow> lockID \<Rightarrow> outPoint \<Rightarrow> int \<Rightarrow> ('k, 'a, gotime) wop" where
  "LeaseOutput T lid op duration = dbUpdate (txWrite (\<lambda>ns. LockOutput T ns lid op duration))"

definition ReleaseOutput :: "env \<Rightarrow> lockID \<Rightarrow> outPoint \<Rightarrow> ('k, 'a, unit) wop" where
  "ReleaseOutput T lid op = dbUpdate (txWrite (\<lambda>ns. bindE (UnlockOutput T ns lid op) (\<lambda>ns. Inr ((), ns))))"

text \<open>Leased outputs with their value and script; the outputs of unknown transactions are passed over.\<close>

definition leasedResult :: "env \<Rightarrow> lockedOutput \<Rightarrow> (lockedOutput \<times> txOut) list \<Rightarrow> ('k, 'a, (lockedOutput \<times> txOut) list) wop" where
  "leasedResult T output results =
     bindM (txRead (\<lambda>ns. TxDetails T ns (opHash (lockOutpoint output)))) (\<lambda>details. case details of
       None \<Rightarrow> retM results
     | Some details \<Rightarrow>
         let outs = TxOut (MsgTx (tdTxRecord details)); i = unat (opIndex (lockOutpoint output)) in
         if i < length outs then retM (results @ [(output, outs ! i)]) else failM panicW)"

definition ListLeasedOutputs :: "env \<Rightarrow> ('k, 'a, (lockedOutput \<times> txOut) list) wop" where
  "ListLeasedOutputs T = bindM (txRead (ListLockedOutputs T)) (\<lambda>outputs. foldM_mop (leasedResult T) outputs [])"

section \<open>Labels\<close>

definition LabelTransaction :: "env \<Rightarrow> hash \<Rightarrow> bytes \<Rightarrow> bool \<Rightarrow> ('k, 'a, unit) wop" where
  "LabelTransaction T hash label overwrite =
     bindM (txRead (\<lambda>ns. TxDetails T ns hash)) (\<lambda>dbTx.
     if dbTx = None then failM ErrUnknownTransaction
     else bindM getM (\<lambda>w.
       bindM (case FetchTxLabel (wlTxNs w) hash of
           Inr _ \<Rightarrow> if overwrite then retM () else failM ErrTxLabelExists
         | Inl e \<Rightarrow> if e = ErrNoLabelBucket \<or> e = ErrTxLabelNotFound then retM () else failM (TxErr e)) (\<lambda>_.
       dbUpdate (txWrite (\<lambda>ns. bindE (PutTxLabel T ns hash label) (\<lambda>ns. Inr ((), ns)))))))"

section \<open>Balances\<close>

definition CalculateBalance :: "env \<Rightarrow> height \<Rightarrow> ('k, 'a, amount) wop" where
  "CalculateBalance T confirms = bindM getM (\<lambda>w. txRead (\<lambda>ns. Balance T ns confirms (syncedHeight w)))"

record balances =
  balTotal :: amount
  balSpendable :: amount
  balImmatureReward :: amount

text \<open>
  The account of an output in any scope: that of its first address.  An output without addresses counts for
  account 0; \<open>None\<close> is an output that is passed over.
\<close>

definition outputAccount :: "('k, 'a, 'm) hdEnv_scheme \<Rightarrow> 'a walletEnv \<Rightarrow> bytes \<Rightarrow> ('k, 'a, u32 option) wop" where
  "outputAccount E W pkScript = (case extractAddrs W pkScript of
     None \<Rightarrow> retM None
   | Some (_, []) \<Rightarrow> retM (Some 0)
   | Some (_, addr # _) \<Rightarrow>
       bindM (tryW (mgrOn (\<lambda>ns. AddrAccount_mgr E ns (scopeOrder W) addr))) (\<lambda>r. retM (map_option snd r)))"

definition maturity :: "env \<Rightarrow> height" where
  "maturity T = ucast (coinbaseMaturity T)"

definition tallyOutput :: "env \<Rightarrow> height \<Rightarrow> height \<Rightarrow> creditInfo \<Rightarrow> balances \<Rightarrow> balances" where
  "tallyOutput T confirms synced output bals =
     (let h = bHeight (metaBlock (ciBlockMeta output));
        bals = bals\<lparr>balTotal := balTotal bals + ciAmount output\<rparr> in
      if ciFromCoinBase output \<and> \<not> hasMinConfs (maturity T) h synced
      then bals\<lparr>balImmatureReward := balImmatureReward bals + ciAmount output\<rparr>
      else if hasMinConfs confirms h synced then bals\<lparr>balSpendable := balSpendable bals + ciAmount output\<rparr>
      else bals)"

definition CalculateAccountBalances :: "('k, 'a, 'm) hdEnv_scheme \<Rightarrow> env \<Rightarrow> 'a walletEnv \<Rightarrow> u32 \<Rightarrow> height
    \<Rightarrow> ('k, 'a, balances) wop" where
  "CalculateAccountBalances E T W account confirms = bindM getM (\<lambda>w.
     bindM (txRead (UnspentOutputs T)) (\<lambda>unspent.
     foldM_mop (\<lambda>output bals. bindM (outputAccount E W (ciPkScript output)) (\<lambda>outputAcct.
         retM (if outputAcct \<noteq> Some account then bals else tallyOutput T confirms (syncedHeight w) output bals)))
       unspent \<lparr>balTotal = 0, balSpendable = 0, balImmatureReward = 0\<rparr>))"

record accountBalanceResult =
  abrNumber :: u32
  abrName :: gostring
  abrBalance :: amount

definition addBalance :: "amount \<Rightarrow> accountBalanceResult \<Rightarrow> accountBalanceResult" where
  "addBalance amt r = r\<lparr>abrBalance := abrBalance r + amt\<rparr>"

text \<open>The results before the balances: one per account up to the last, and the imported account; their number
  wraps like the \<open>uint32\<close> it is.\<close>

definition accountResults :: "mgrStore \<Rightarrow> keyScope \<Rightarrow> u32 \<Rightarrow> accountBalanceResult list mres" where
  "accountResults ns scope lastAcct =
     (let n = unat (lastAcct + 2) in
      if n = 0 then Inl MgrPanic
      else bindE (mapE (\<lambda>i. bindE (AccountName ns scope (word_of_nat i)) (\<lambda>name.
             Inr \<lparr>abrNumber = word_of_nat i, abrName = name, abrBalance = 0\<rparr>)) [0..<n - 1]) (\<lambda>results.
           Inr (results @ [\<lparr>abrNumber = ImportedAddrAccount, abrName = ImportedAddrAccountName, abrBalance = 0\<rparr>])))"

definition countsFor :: "env \<Rightarrow> height \<Rightarrow> height \<Rightarrow> creditInfo \<Rightarrow> bool" where
  "countsFor T requiredConfs synced output =
     (let h = bHeight (metaBlock (ciBlockMeta output)) in
      hasMinConfs requiredConfs h synced \<and> \<not> (ciFromCoinBase output \<and> \<not> hasMinConfs (maturity T) h synced))"

text \<open>The account of an output in one scope.\<close>

definition scopeAccount :: "('k, 'a, 'm) hdEnv_scheme \<Rightarrow> 'a walletEnv \<Rightarrow> mgrStore \<Rightarrow> keyScope \<Rightarrow> creditInfo \<Rightarrow> u32 option mres" where
  "scopeAccount E W ns scope output = (case extractAddrs W (ciPkScript output) of
     Some (_, addr # _) \<Rightarrow> (case AddrAccount_scoped E ns scope addr of
         Inl e \<Rightarrow> if e = MgrPanic then Inl e else Inr None
       | Inr acct \<Rightarrow> Inr (Some acct))
   | _ \<Rightarrow> Inr None)"

definition addToAccount :: "('k, 'a, 'm) hdEnv_scheme \<Rightarrow> env \<Rightarrow> 'a walletEnv \<Rightarrow> mgrStore \<Rightarrow> keyScope \<Rightarrow> height \<Rightarrow> height \<Rightarrow> u32
    \<Rightarrow> creditInfo \<Rightarrow> accountBalanceResult list \<Rightarrow> walletErr + accountBalanceResult list" where
  "addToAccount E T W ns scope requiredConfs synced lastAcct output results =
     (if \<not> countsFor T requiredConfs synced output then Inr results
      else bindE (liftAddr (scopeAccount E W ns scope output)) (\<lambda>acct. case acct of
          None \<Rightarrow> Inr results
        | Some outputAcct \<Rightarrow>
            if outputAcct = ImportedAddrAccount then
              Inr (results[length results - 1 := addBalance (ciAmount output) (results ! (length results - 1))])
            else if lastAcct < outputAcct then Inl OtherErr
            else if unat outputAcct < length results then
              Inr (results[unat outputAcct := addBalance (ciAmount output) (results ! unat outputAcct)])
            else Inl panicW))"

definition AccountBalances :: "('k, 'a, 'm) hdEnv_scheme \<Rightarrow> env \<Rightarrow> 'a walletEnv \<Rightarrow> keyScope \<Rightarrow> height
    \<Rightarrow> ('k, 'a, accountBalanceResult list) wop" where
  "AccountBalances E T W scope requiredConfs = bindM (fetchManager scope) (\<lambda>_. bindM getM (\<lambda>w.
     bindM (nsRead (\<lambda>ns. LastAccount ns scope)) (\<lambda>lastAcct.
     bindM (nsRead (\<lambda>ns. accountResults ns scope lastAcct)) (\<lambda>results.
     bindM (txRead (UnspentOutputs T)) (\<lambda>unspentOutputs.
     liftM (foldE (addToAccount E T W (wlAddrNs w) scope requiredConfs (syncedHeight w) lastAcct) unspentOutputs results))))))"

section \<open>What the balances add up to\<close>

text \<open>The result an output is added to.\<close>

definition slotOf :: "('k, 'a, 'm) hdEnv_scheme \<Rightarrow> env \<Rightarrow> 'a walletEnv \<Rightarrow> mgrStore \<Rightarrow> keyScope \<Rightarrow> height \<Rightarrow> height \<Rightarrow> nat
    \<Rightarrow> creditInfo \<Rightarrow> nat option" where
  "slotOf E T W ns scope requiredConfs synced n output =
     (if countsFor T requiredConfs synced output then
        (case scopeAccount E W ns scope output of
           Inr (Some acct) \<Rightarrow> Some (if acct = ImportedAddrAccount then n - 1 else unat acct)
         | _ \<Rightarrow> None)
      else None)"

lemma addToAccount_slot:
  assumes "addToAccount E T W ns scope requiredConfs synced lastAcct output results = Inr results'" "results \<noteq> []"
  shows "length results' = length results \<and> (\<forall>i<length results. results' ! i =
    (if slotOf E T W ns scope requiredConfs synced (length results) output = Some i
     then addBalance (ciAmount output) (results ! i) else results ! i))"
proof (cases "countsFor T requiredConfs synced output")
  case False
  then show ?thesis using assms by (simp add: addToAccount_def slotOf_def)
next
  case True
  obtain acct where a: "scopeAccount E W ns scope output = Inr acct"
    using assms(1) True by (cases "scopeAccount E W ns scope output") (simp_all add: addToAccount_def)
  show ?thesis
  proof (cases acct)
    case None
    then show ?thesis using assms True a by (simp add: addToAccount_def slotOf_def)
  next
    case (Some n)
    define k where "k = (if n = ImportedAddrAccount then length results - 1 else unat n)"
    have "results' = results[k := addBalance (ciAmount output) (results ! k)] \<and> k < length results"
      using assms True a Some unfolding k_def addToAccount_def by (cases "n = ImportedAddrAccount") (auto split: if_splits)
    moreover have "slotOf E T W ns scope requiredConfs synced (length results) output = Some k"
      using True a Some by (simp add: slotOf_def k_def)
    ultimately show ?thesis by (simp add: nth_list_update)
  qed
qed

lemma addBalance_simps [simp]: "addBalance 0 r = r" "addBalance a (addBalance b r) = addBalance (b + a) r"
  by (simp_all add: addBalance_def add.assoc)

lemma balances_fold:
  assumes "foldE (addToAccount E T W ns scope requiredConfs synced lastAcct) us results = Inr results'" "results \<noteq> []"
  shows "length results' = length results \<and> (\<forall>i<length results. results' ! i = addBalance
    (\<Sum>output\<leftarrow>filter (\<lambda>output. slotOf E T W ns scope requiredConfs synced (length results) output = Some i) us. ciAmount output)
    (results ! i))"
  using assms
proof (induction us arbitrary: results)
  case (Cons cred us)
  then obtain r1 where r1: "addToAccount E T W ns scope requiredConfs synced lastAcct cred results = Inr r1"
    "foldE (addToAccount E T W ns scope requiredConfs synced lastAcct) us r1 = Inr results'" by auto
  note st = addToAccount_slot[OF r1(1) Cons.prems(2)]
  then have "r1 \<noteq> []" using Cons.prems(2) by auto
  from Cons.IH[OF r1(2) this] st show ?case by auto
qed simp

text \<open>The sum of the counted outputs whose account in the scope is one of \<open>P\<close>.\<close>

definition belongs :: "('k, 'a, 'm) hdEnv_scheme \<Rightarrow> env \<Rightarrow> 'a walletEnv \<Rightarrow> mgrStore \<Rightarrow> keyScope \<Rightarrow> height \<Rightarrow> height
    \<Rightarrow> (u32 \<Rightarrow> bool) \<Rightarrow> creditInfo \<Rightarrow> bool" where
  "belongs E T W ns scope requiredConfs synced P output \<longleftrightarrow> countsFor T requiredConfs synced output
     \<and> (\<exists>acct. scopeAccount E W ns scope output = Inr (Some acct) \<and> P acct)"

definition accountSum :: "('k, 'a, 'm) hdEnv_scheme \<Rightarrow> env \<Rightarrow> 'a walletEnv \<Rightarrow> mgrStore \<Rightarrow> keyScope \<Rightarrow> height \<Rightarrow> height
    \<Rightarrow> creditInfo list \<Rightarrow> (u32 \<Rightarrow> bool) \<Rightarrow> amount" where
  "accountSum E T W ns scope requiredConfs synced us P =
     (\<Sum>output\<leftarrow>filter (belongs E T W ns scope requiredConfs synced P) us. ciAmount output)"

text \<open>On success no counted output belongs to an account beyond the last one.\<close>

lemma counted_bound:
  assumes "foldE (addToAccount E T W ns scope requiredConfs synced lastAcct) us results = Inr results'" "output \<in> set us"
    and "countsFor T requiredConfs synced output" "scopeAccount E W ns scope output = Inr (Some acct)"
  shows "acct = ImportedAddrAccount \<or> acct \<le> lastAcct"
  using assms(1,2)
proof (induction us arbitrary: results)
  case (Cons cred us)
  then obtain r1 where r1: "addToAccount E T W ns scope requiredConfs synced lastAcct cred results = Inr r1"
    "foldE (addToAccount E T W ns scope requiredConfs synced lastAcct) us r1 = Inr results'" by auto
  show ?case
  proof (cases "output = cred")
    case True
    then show ?thesis using r1(1) assms(3,4) by (auto simp: addToAccount_def not_less split: if_splits)
  next
    case False
    then show ?thesis using Cons.IH[OF r1(2)] Cons.prems(2) by simp
  qed
qed simp

lemma slotOf_eq:
  "slotOf E T W ns scope requiredConfs synced n output = Some i \<longleftrightarrow>
     belongs E T W ns scope requiredConfs synced (\<lambda>a. if a = ImportedAddrAccount then i = n - 1 else unat a = i) output"
  by (auto simp: slotOf_def belongs_def split: sum.splits option.splits if_splits)

lemma belongs_cong:
  assumes "\<And>a. countsFor T requiredConfs synced output \<Longrightarrow> scopeAccount E W ns scope output = Inr (Some a) \<Longrightarrow> P a \<longleftrightarrow> Q a"
  shows "belongs E T W ns scope requiredConfs synced P output = belongs E T W ns scope requiredConfs synced Q output"
  using assms by (auto simp: belongs_def)

lemma accountResults_nth:
  assumes "accountResults ns scope lastAcct = Inr base" "lastAcct \<noteq> -1"
  shows "length base = unat lastAcct + 2"
    and "i \<le> unat lastAcct \<Longrightarrow> \<exists>name. AccountName ns scope (word_of_nat i) = Inr name
      \<and> base ! i = \<lparr>abrNumber = word_of_nat i, abrName = name, abrBalance = 0\<rparr>"
    and "base ! (unat lastAcct + 1) = \<lparr>abrNumber = ImportedAddrAccount, abrName = ImportedAddrAccountName, abrBalance = 0\<rparr>"
proof -
  have nz: "unat (lastAcct + 2) \<noteq> 0" using assms(1) by (auto simp: accountResults_def Let_def split: if_splits)
  have n: "unat (lastAcct + 2) = unat lastAcct + 2"
  proof -
    have suc: "unat (a + 1) = Suc (unat a)" if "a + 1 \<noteq> 0" for a :: u32
      using unatSuc[of a] that by (simp add: add.commute)
    have two: "lastAcct + 2 = lastAcct + 1 + 1" by (simp add: add.assoc)
    have "lastAcct + 1 + 1 \<noteq> 0" using nz unfolding two by auto
    moreover have "lastAcct + 1 \<noteq> 0" using assms(2) by (simp add: add_eq_0_iff2)
    ultimately show ?thesis unfolding two using suc[of "lastAcct + 1"] suc[of lastAcct] by linarith
  qed
  obtain rs where rs: "list_all2 (\<lambda>i r. bindE (AccountName ns scope (word_of_nat i)) (\<lambda>name.
      Inr \<lparr>abrNumber = word_of_nat i, abrName = name, abrBalance = 0\<rparr>) = Inr r) [0..<unat lastAcct + 1] rs"
    "base = rs @ [\<lparr>abrNumber = ImportedAddrAccount, abrName = ImportedAddrAccountName, abrBalance = 0\<rparr>]"
    using assms(1) by (auto simp: accountResults_def Let_def n mapE_eq_Inr)
  have l: "length rs = unat lastAcct + 1" using list_all2_lengthD[OF rs(1)] by simp
  then show "length base = unat lastAcct + 2"
    "base ! (unat lastAcct + 1) = \<lparr>abrNumber = ImportedAddrAccount, abrName = ImportedAddrAccountName, abrBalance = 0\<rparr>"
    by (simp_all add: rs(2) nth_append)
  show "\<exists>name. AccountName ns scope (word_of_nat i) = Inr name
      \<and> base ! i = \<lparr>abrNumber = word_of_nat i, abrName = name, abrBalance = 0\<rparr>" if "i \<le> unat lastAcct"
    using list_all2_nthD[OF rs(1), of i] that l by (auto simp: rs(2) nth_append simp del: upt_Suc)
qed

text \<open>
  C18: \<open>AccountBalances\<close> changes nothing.  When the scope has a last account, it returns the accounts up to it under
  their numbers and names, and the imported account at the end; the balance of each is the sum of the unspent
  outputs with enough confirmations, mature where they are coinbase outputs, whose first address belongs to
  that account of the scope.  In a scope without a last account, which is recorded as -1, the number of results
  wraps to one: the imported account, which is also given the outputs of account 0.
\<close>
theorem AccountBalances_sums:
  assumes "AccountBalances E T W scope requiredConfs w = (Inr results, w')"
  shows "w' = w \<and> (\<exists>lastAcct us total. LastAccount (wlAddrNs w) scope = Inr lastAcct \<and> UnspentOutputs T (wlTxNs w) = Inr us
    \<and> total = accountSum E T W (wlAddrNs w) scope requiredConfs (syncedHeight w) us
    \<and> (if lastAcct = -1 then results = [\<lparr>abrNumber = ImportedAddrAccount, abrName = ImportedAddrAccountName,
            abrBalance = total (\<lambda>a. a = 0 \<or> a = ImportedAddrAccount)\<rparr>]
       else length results = unat lastAcct + 2
         \<and> (\<forall>i \<le> unat lastAcct. \<exists>name. AccountName (wlAddrNs w) scope (word_of_nat i) = Inr name
              \<and> results ! i = \<lparr>abrNumber = word_of_nat i, abrName = name,
                  abrBalance = total (\<lambda>a. a = word_of_nat i \<and> a \<noteq> ImportedAddrAccount)\<rparr>)
         \<and> results ! (unat lastAcct + 1) = \<lparr>abrNumber = ImportedAddrAccount, abrName = ImportedAddrAccountName,
              abrBalance = total (\<lambda>a. a = ImportedAddrAccount)\<rparr>))"
proof -
  let ?total = "accountSum E T W (wlAddrNs w) scope requiredConfs (syncedHeight w)"
  obtain lastAcct base us where r: "LastAccount (wlAddrNs w) scope = Inr lastAcct"
    "accountResults (wlAddrNs w) scope lastAcct = Inr base" "UnspentOutputs T (wlTxNs w) = Inr us"
    "foldE (addToAccount E T W (wlAddrNs w) scope requiredConfs (syncedHeight w) lastAcct) us base = Inr results" "w' = w"
    using assms by (auto simp: AccountBalances_def bindM_Inr fetchManager_def nsRead_def txRead_def mop_run)
  have "base \<noteq> []" using r(2) by (auto simp: accountResults_def Let_def split: if_splits)
  note b = balances_fold[OF r(4) this] and bound = counted_bound[OF r(4)]
  have sl: "results ! i = addBalance (?total us Q) (base ! i)"
    if "i < length base" "\<And>a output. output \<in> set us \<Longrightarrow> countsFor T requiredConfs (syncedHeight w) output \<Longrightarrow>
      scopeAccount E W (wlAddrNs w) scope output = Inr (Some a) \<Longrightarrow>
      (if a = ImportedAddrAccount then i = length base - 1 else unat a = i) \<longleftrightarrow> Q a" for i Q
  proof -
    have "filter (\<lambda>output. slotOf E T W (wlAddrNs w) scope requiredConfs (syncedHeight w) (length base) output = Some i) us
        = filter (belongs E T W (wlAddrNs w) scope requiredConfs (syncedHeight w) Q) us"
      unfolding slotOf_eq by (intro filter_cong refl belongs_cong that(2))
    then show ?thesis using b that(1) by (simp add: accountSum_def)
  qed
  have "if lastAcct = -1 then results = [\<lparr>abrNumber = ImportedAddrAccount, abrName = ImportedAddrAccountName,
            abrBalance = ?total us (\<lambda>a. a = 0 \<or> a = ImportedAddrAccount)\<rparr>]
       else length results = unat lastAcct + 2
         \<and> (\<forall>i \<le> unat lastAcct. \<exists>name. AccountName (wlAddrNs w) scope (word_of_nat i) = Inr name
              \<and> results ! i = \<lparr>abrNumber = word_of_nat i, abrName = name,
                  abrBalance = ?total us (\<lambda>a. a = word_of_nat i \<and> a \<noteq> ImportedAddrAccount)\<rparr>)
         \<and> results ! (unat lastAcct + 1) = \<lparr>abrNumber = ImportedAddrAccount, abrName = ImportedAddrAccountName,
              abrBalance = ?total us (\<lambda>a. a = ImportedAddrAccount)\<rparr>"
  proof (cases "lastAcct = -1")
    case True
    then have base: "base = [\<lparr>abrNumber = ImportedAddrAccount, abrName = ImportedAddrAccountName, abrBalance = 0\<rparr>]"
      using r(2) by (simp add: accountResults_def)
    then have "results ! 0 = addBalance (?total us (\<lambda>a. a = 0 \<or> a = ImportedAddrAccount)) (base ! 0)"
      by (intro sl) (auto simp: unat_eq_0)
    moreover have "length results = 1" using b base by simp
    ultimately show ?thesis using True base by (cases results) (simp_all add: addBalance_def)
  next
    case False
    note ar = accountResults_nth[OF r(2) False]
    have "results ! (unat lastAcct + 1) = addBalance (?total us (\<lambda>a. a = ImportedAddrAccount)) (base ! (unat lastAcct + 1))"
    proof (rule sl)
      fix a cred
      assume "cred \<in> set us" "countsFor T requiredConfs (syncedHeight w) cred"
        "scopeAccount E W (wlAddrNs w) scope cred = Inr (Some a)"
      then have "a = ImportedAddrAccount \<or> unat a \<le> unat lastAcct" using bound by (simp add: word_le_nat_alt)
      then show "(if a = ImportedAddrAccount then unat lastAcct + 1 = length base - 1 else unat a = unat lastAcct + 1)
          \<longleftrightarrow> a = ImportedAddrAccount" using ar(1) by auto
    qed (simp add: ar(1))
    moreover have "results ! i = addBalance (?total us (\<lambda>a. a = word_of_nat i \<and> a \<noteq> ImportedAddrAccount)) (base ! i)"
      if "i \<le> unat lastAcct" for i
    proof (rule sl)
      have "i < 2 ^ 32" using that unsigned_less[of lastAcct, where 'a = nat] by simp
      then have "unat a = i \<longleftrightarrow> a = word_of_nat i" for a :: u32 by (auto simp: unat_of_nat take_bit_nat_eq_self)
      then show "(if a = ImportedAddrAccount then i = length base - 1 else unat a = i)
          \<longleftrightarrow> a = word_of_nat i \<and> a \<noteq> ImportedAddrAccount" for a using that ar(1) by auto
    qed (use that ar(1) in simp)
    ultimately show ?thesis using False ar b by (fastforce simp: addBalance_def)
  qed
  then show ?thesis using r by blast
qed

section \<open>Labels of transactions\<close>

lemma bind_if: "bindM (if b then retM x else failM e) f w = (if b then f x w else (Inl e, w))"
  "bindM (failM e) f w = (Inl e, w)"
  by (simp_all add: bindM_def mop_run)

lemma txRead_bind: "f (wlTxNs w) = Inr r \<Longrightarrow> bindM (txRead f) g w = g r w"
  by (simp add: bindM_def txRead_def)

text \<open>
  C40: A transaction can be labelled only when it is known, and again only with \<open>overwrite\<close>; a failed call changes
  nothing, and after a successful one the label reads back and no other label has changed.
\<close>
theorem LabelTransaction_spec:
  assumes "TxDetails T (wlTxNs w) hash = Inr dbTx"
  shows "case LabelTransaction T hash label overwrite w of
      (Inl e, w') \<Rightarrow> w' = w \<and> (dbTx = None \<longrightarrow> e = ErrUnknownTransaction)
    | (Inr _, w') \<Rightarrow> dbTx \<noteq> None \<and> (overwrite \<or> (\<forall>l. FetchTxLabel (wlTxNs w) hash \<noteq> Inr l))
        \<and> FetchTxLabel (wlTxNs w') hash = Inr label \<and> wlAddrNs w' = wlAddrNs w
        \<and> (\<forall>h. h \<noteq> hash \<longrightarrow> TxLabel (wlTxNs w') h = TxLabel (wlTxNs w) h)"
proof (cases dbTx)
  case None
  then show ?thesis using assms by (simp add: LabelTransaction_def bindM_def txRead_def mop_run)
next
  case (Some d)
  let ?put = "dbUpdate (txWrite (\<lambda>ns. bindE (PutTxLabel T ns hash label) (\<lambda>ns. Inr ((), ns)))) w"
  have put: "case ?put of (Inl e, w') \<Rightarrow> w' = w
    | (Inr _, w') \<Rightarrow> \<exists>ns. PutTxLabel T (wlTxNs w) hash label = Inr ns \<and> w' = w\<lparr>wlTxNs := ns\<rparr>"
    by (cases "PutTxLabel T (wlTxNs w) hash label") (simp_all add: dbUpdate_def txWrite_def)
  have run: "LabelTransaction T hash label overwrite w = (case FetchTxLabel (wlTxNs w) hash of
      Inr _ \<Rightarrow> if overwrite then ?put else (Inl ErrTxLabelExists, w)
    | Inl e \<Rightarrow> if e = ErrNoLabelBucket \<or> e = ErrTxLabelNotFound then ?put else (Inl (TxErr e), w))"
    unfolding LabelTransaction_def txRead_bind[where f = "\<lambda>ns. TxDetails T ns hash", OF assms]
    by (simp add: Some bind_now bind_if split: sum.split)
  consider (go) "LabelTransaction T hash label overwrite w = ?put" "overwrite \<or> (\<forall>l. FetchTxLabel (wlTxNs w) hash \<noteq> Inr l)"
    | (stop) e where "LabelTransaction T hash label overwrite w = (Inl e, w)"
  proof (cases "FetchTxLabel (wlTxNs w) hash")
    case (Inl e)
    then show ?thesis using run that(1) that(2)[of "TxErr e"]
      by (cases "e = ErrNoLabelBucket \<or> e = ErrTxLabelNotFound") simp_all
  next
    case (Inr l)
    then show ?thesis using run that(1) that(2)[of ErrTxLabelExists] by (cases overwrite) simp_all
  qed
  then show ?thesis
  proof cases
    case go
    show ?thesis
    proof (cases ?put)
      case (Pair r w')
      then show ?thesis
      proof (cases r)
        case (Inr u)
        then obtain ns where "PutTxLabel T (wlTxNs w) hash label = Inr ns" "w' = w\<lparr>wlTxNs := ns\<rparr>"
          using put Pair by auto
        then show ?thesis using PutTxLabel_FetchTxLabel[of T "wlTxNs w" hash label ns] go Pair Inr Some by simp
      qed (use put go Pair Some in simp)
    qed
  qed (simp add: Some)
qed

end
