(* ===== verification/Witness_Ops.thy ===== *)
theory Witness_Ops
  imports Witness_Tx Wallet_Ops
begin

text \<open>
  The client operations of \<open>Wallet_Ops\<close> on the wallet of \<open>Witness_Tx\<close> once the unconfirmed transaction A pays 700
  to its address: the balance of its account, and the label of a transaction that is not known.
\<close>

section \<open>An unconfirmed payment\<close>

definition creditP :: "gotime \<Rightarrow> creditInfo" where
  "creditP t = \<lparr>ciOutPoint = \<lparr>opHash = 1, opIndex = 0\<rparr>, ciBlockMeta = \<lparr>metaBlock = \<lparr>bHash = 0, bHeight = - 1\<rparr>, metaTime = zeroTime\<rparr>,
     ciAmount = 700, ciPkScript = [1], ciReceived = t, ciFromCoinBase = False\<rparr>"

definition storeP :: "bytes \<Rightarrow> store" where
  "storeP v = store0\<lparr>sUnmined := bucketPut bucketEmpty (hashBytes 1) v,
     sUnminedCredits := bucketPut bucketEmpty (canonicalOutPoint 1 0) (valueUnminedCredit 700 False)\<rparr>"

lemma entries_one: "entries (bucketPut bucketEmpty k v) = [(k, v)]" "entries bucketEmpty = []"
  by (simp_all add: entries_put)

lemma unspentP:
  assumes "readRawTxRecord env1 1 v = Inr rec" "MsgTx rec = txA"
  shows "UnspentOutputs env1 (storeP v) = Inr [creditP (Received rec)]"
proof -
  have "isLockedOutput (storeP v) op t = Inr (0, zeroTime, False)" for op t
    by (simp add: isLockedOutput_def storeP_def store0_def)
  moreover have "existsRawUnminedInput (storeP v) k = None" for k
    by (simp add: existsRawUnminedInput_def storeP_def store0_def)
  moreover have "isCoinBaseTx env1 tx = False" "TxOut txA = [\<lparr>Value = 700, PkScript = [1]\<rparr>]" for tx
    by (simp_all add: env1_def txA_def)
  ultimately have "fetchUnminedCredit env1 (storeP v) False False True (canonicalOutPoint 1 0, x) = Inr [creditP (Received rec)]" for x
    using assms
    by (simp add: fetchUnminedCredit_def skipCredit_def existsRawUnmined_def storeP_def
        txOutAt_def wrapErr_def creditP_def)
  then show ?thesis by (simp add: UnspentOutputs_def fetchCredits_def entries_one storeP_def store0_def)
qed

definition wP :: "bytes \<Rightarrow> (bytes, bytes) wallet" where
  "wP v = wR\<lparr>wlTxNs := storeP v\<rparr>"

lemma wP_ns: "wlAddrNs (wP v) = wlAddrNs wR" "wlTxNs (wP v) = storeP v" "wlManager (wP v) = wlManager wR"
  "syncedHeight (wP v) = 100"
  by (simp_all add: wP_def syncedHeight_def wR_def mgrK_def stamp0_def newSyncState_def SyncedTo_def)

lemma baseP: "LastAccount (wlAddrNs wR) KeyScopeBIP0084 = Inr 0"
  "accountResults (wlAddrNs wR) KeyScopeBIP0084 0 = Inr [\<lparr>abrNumber = 0, abrName = [97], abrBalance = 0\<rparr>,
     \<lparr>abrNumber = ImportedAddrAccount, abrName = ImportedAddrAccountName, abrBalance = 0\<rparr>]"
proof -
  have s: "scopeAt (wlAddrNs wR) KeyScopeBIP0084 = Some chainedK" by (simp add: wR_def scopeAt_set[OF scopeK_at])
  have "scMeta chainedK = scMeta scopeK" by (simp add: chainedK_def chainedScope_def advanceScope_def enterAddress_def)
  then show "LastAccount (wlAddrNs wR) KeyScopeBIP0084 = Inr 0"
    by (simp add: LastAccount_def fetchLastAccount_def fetchScope_at[OF s] scopeK_def withLast_def le32_uint32ToBytes)
  have "books chainedK ([uint32ToBytes 0 \<mapsto> rowA](uint32ToBytes 0 \<mapsto> advanceRow 0 3 rowA))"
    unfolding chainedK_def by (rule chainedScope_keeps(1)[OF scopeK_books]) simp_all
  then have "accounts_at (wlAddrNs wR) KeyScopeBIP0084 ([uint32ToBytes 0 \<mapsto> rowA](uint32ToBytes 0 \<mapsto> advanceRow 0 3 rowA))"
    using s by (auto simp: accounts_at_def)
  from fetchAccountName_spec[OF this, of 0]
  have "AccountName (wlAddrNs wR) KeyScopeBIP0084 0 = Inr [97]"
    by (simp add: AccountName_def advanceRow_def rowA_def defaultAccount_def rowName_def)
  then show "accountResults (wlAddrNs wR) KeyScopeBIP0084 0 = Inr [\<lparr>abrNumber = 0, abrName = [97], abrBalance = 0\<rparr>,
     \<lparr>abrNumber = ImportedAddrAccount, abrName = ImportedAddrAccountName, abrBalance = 0\<rparr>]"
    by (simp add: accountResults_def)
qed

lemma slotP: "scopeAccount envK WR (wlAddrNs wR) KeyScopeBIP0084 (creditP t) = Inr (Some 0)" "countsFor env1 0 100 (creditP t)"
  using accountR by (simp_all add: scopeAccount_def WR_def creditP_def countsFor_def hasMinConfs_def calcConf_def)

lemma AccountBalances_sums_witness:
  "\<exists>v results. AccountBalances envK env1 WR KeyScopeBIP0084 0 (wP v) = (Inr results, wP v)
    \<and> length results = 2 \<and> abrBalance (results ! 0) = 700 \<and> abrBalance (results ! 1) = 0"
proof -
  obtain v where v: "valueTxRecord env1 recA = Inr v" using valueTxRecord_total[of env1 recA] by auto
  obtain rec where r: "readRawTxRecord env1 1 v = Inr rec" "MsgTx rec = txA" using readRawTxRecord_value[OF v] by auto
  have i: "(0 :: u32) \<noteq> ImportedAddrAccount" by (simp add: ImportedAddrAccount_def MaxAccountNum_def HardenedKeyStart_def)
  have f: "FetchScopedKeyManager (wlManager wR) KeyScopeBIP0084 = Inr (scopedK\<lparr>smAddrs := [([3, 0, 7], 0)]\<rparr>)"
    by (simp add: FetchScopedKeyManager_def wR_def)
  let ?base = "[\<lparr>abrNumber = 0, abrName = [97], abrBalance = 0\<rparr>,
     \<lparr>abrNumber = ImportedAddrAccount, abrName = ImportedAddrAccountName, abrBalance = 0\<rparr>]"
  have "\<exists>results. AccountBalances envK env1 WR KeyScopeBIP0084 0 (wP v) = (Inr results, wP v)"
    by (simp add: AccountBalances_def bindM_def fetchManager_def nsRead_def txRead_def mop_run wP_ns f baseP unspentP[OF r]
        addToAccount_def slotP i)
  then obtain results where a: "AccountBalances envK env1 WR KeyScopeBIP0084 0 (wP v) = (Inr results, wP v)" by blast
  have total: "accountSum envK env1 WR (wlAddrNs wR) KeyScopeBIP0084 0 100 [creditP (Received rec)] P = (if P 0 then 700 else 0)" for P
    by (simp add: accountSum_def belongs_def slotP) (simp add: creditP_def)
  have "length results = 2 \<and> abrBalance (results ! 0) = 700 \<and> abrBalance (results ! 1) = 0"
    using AccountBalances_sums[OF a] i by (auto simp: wP_ns baseP unspentP[OF r] total)
  then show ?thesis using a by blast
qed

section \<open>An unknown transaction\<close>

lemma LabelTransaction_spec_witness:
  "fst (LabelTransaction env1 1 [120] True wR) = Inl ErrUnknownTransaction \<and> snd (LabelTransaction env1 1 [120] True wR) = wR"
proof -
  have "TxDetails env1 (wlTxNs wR) 1 = Inr None" using TxDetails_unknown[OF wallet0] by (simp add: wR_def)
  from LabelTransaction_spec[OF this, where label = "[120]" and overwrite = True] show ?thesis by (auto split: prod.splits sum.splits)
qed

end
