(* ===== verification/Wallet_Birthday.thy ===== *)
theory Wallet_Birthday
  imports Wallet_Chain Mgr_Birthday
begin

text \<open>
  The birthday block of the wallet against the chain: \<open>locateBirthdayBlock\<close> (\<open>wallet/wallet.go\<close>), a binary
  search over heights, and \<open>birthdaySanityCheck\<close> with the store it works on (\<open>wallet/chainntfns.go\<close>).
  \<open>chainConn\<close> holds the answers of the chain client; they do not change during a search.  The search is a
  partial function, so that its end is a theorem.
\<close>

section \<open>The chain\<close>

record chainConn =
  GetBestBlock :: "(hash \<times> height) option"
  GetBlockHash :: "64 word \<Rightarrow> hash option"
  GetBlockHeader :: "hash \<Rightarrow> gotime option"

definition birthdayBlockDelta :: int where
  "birthdayBlockDelta = 7200000000000"

text \<open>The hash and the time of the block at a height.\<close>

definition blockAt :: "chainConn \<Rightarrow> height \<Rightarrow> walletErr + blockStamp" where
  "blockAt C mid = (case GetBlockHash C (scast mid) of
     None \<Rightarrow> Inl ClientErr
   | Some hash \<Rightarrow> (case GetBlockHeader C hash of
       None \<Rightarrow> Inl ClientErr
     | Some timestamp \<Rightarrow> Inr \<lparr>stampHeight = mid, stampHash = hash, stampTime = timestamp\<rparr>))"

section \<open>The search\<close>

definition midpoint :: "height \<Rightarrow> height \<Rightarrow> height" where
  "midpoint left right = left + word_of_int (quotTrunc (sint (right - left)) 2)"

text \<open>
  \<open>Time.Sub\<close> saturates at the 64-bit nanoseconds of a \<open>Duration\<close>, far beyond two hours, so the comparisons
  are those of the unbounded difference.
\<close>

partial_function (option) birthdayLoop :: "chainConn \<Rightarrow> gotime \<Rightarrow> height \<Rightarrow> height \<Rightarrow> height \<Rightarrow> (walletErr + blockStamp) option" where
  "birthdayLoop C birthday bestHeight left right =
     (let mid = midpoint left right in
      case blockAt C mid of
        Inl e \<Rightarrow> Some (Inl e)
      | Inr bs \<Rightarrow>
          if mid = 0 \<or> mid = bestHeight \<or> mid = left then Some (Inr bs)
          else if stampTime bs - birthday > birthdayBlockDelta then birthdayLoop C birthday bestHeight left mid
          else if stampTime bs - birthday < - birthdayBlockDelta then birthdayLoop C birthday bestHeight mid right
          else Some (Inr bs))"

definition locateBirthdayBlock :: "chainConn \<Rightarrow> gotime \<Rightarrow> (walletErr + blockStamp) option" where
  "locateBirthdayBlock C birthday = (case GetBestBlock C of
     None \<Rightarrow> Some (Inl ClientErr)
   | Some (_, bestHeight) \<Rightarrow> birthdayLoop C birthday bestHeight 0 bestHeight)"

section \<open>The check\<close>

definition storeBirthdayBlock :: "'a mgrEnv_scheme \<Rightarrow> blockStamp \<Rightarrow> walletChain \<Rightarrow> walletErr + walletChain" where
  "storeBirthdayBlock E block w =
     bindE (liftAddr (SetBirthdayBlock E (wAddrNs w) block True)) (\<lambda>ns.
     bindE (liftAddr (SetSyncedTo E (wSync w) ns (Some block))) (\<lambda>(m, ns).
     Inr (w\<lparr>wSync := m, wAddrNs := ns\<rparr>)))"

definition birthdaySanityCheck :: "'a mgrEnv_scheme \<Rightarrow> chainConn \<Rightarrow> gotime \<Rightarrow> walletChain
    \<Rightarrow> (walletErr + blockStamp \<times> walletChain) option" where
  "birthdaySanityCheck E C birthdayTimestamp w =
     (case liftAddr (BirthdayBlock (wAddrNs w)) of
        Inl e \<Rightarrow> Some (Inl e)
      | Inr (birthdayBlock, birthdayBlockVerified) \<Rightarrow>
          if birthdayBlockVerified then Some (Inr (birthdayBlock, w))
          else (case locateBirthdayBlock C birthdayTimestamp of
              None \<Rightarrow> None
            | Some (Inl e) \<Rightarrow> Some (Inl e)
            | Some (Inr newBirthdayBlock) \<Rightarrow>
                Some (bindE (storeBirthdayBlock E newBirthdayBlock w) (\<lambda>w. Inr (newBirthdayBlock, w)))))"

section \<open>The search ends\<close>

text \<open>The midpoint in whole numbers.\<close>

lemma midpoint_nat:
  assumes "l \<le> r" "r < 2 ^ 31"
  shows "midpoint (word_of_nat l) (word_of_nat r) = word_of_nat (l + (r - l) div 2)"
proof -
  have e: "(word_of_nat r - word_of_nat l :: height) = word_of_nat (r - l)"
    using assms(1) by (simp add: of_nat_diff)
  have "sint (word_of_nat (r - l) :: height) = int (r - l)"
    using assms(2) by (simp add: sint_height)
  moreover have "quotTrunc (int (r - l)) 2 = int ((r - l) div 2)" by (simp add: quotTrunc_def zdiv_int)
  ultimately show ?thesis unfolding midpoint_def e by simp
qed

lemma height_eq_iff: "m < 2 ^ 31 \<Longrightarrow> n < 2 ^ 31 \<Longrightarrow> (word_of_nat m :: height) = word_of_nat n \<longleftrightarrow> m = n"
  by (metis sint_height of_nat_eq_iff)

text \<open>What is found: a block of the chain at an end of the range, or within two hours of the birthday, or the
  last one that is too early, when the next one is already too late.\<close>

definition tooEarly :: "gotime \<Rightarrow> blockStamp \<Rightarrow> bool" where
  "tooEarly birthday bs \<longleftrightarrow> stampTime bs - birthday < - birthdayBlockDelta"

definition tooLate :: "gotime \<Rightarrow> blockStamp \<Rightarrow> bool" where
  "tooLate birthday bs \<longleftrightarrow> stampTime bs - birthday > birthdayBlockDelta"

definition birthdayFound :: "chainConn \<Rightarrow> gotime \<Rightarrow> nat \<Rightarrow> blockStamp \<Rightarrow> bool" where
  "birthdayFound C birthday best bs \<longleftrightarrow> (\<exists>n\<le>best. blockAt C (word_of_nat n) = Inr bs
     \<and> (n = 0 \<or> n = best \<or> (\<not> tooEarly birthday bs \<and> \<not> tooLate birthday bs)
        \<or> (tooEarly birthday bs \<and> (Suc n = best
             \<or> (\<exists>b. blockAt C (word_of_nat (Suc n)) = Inr b \<and> tooLate birthday b)))))"

lemma birthdayLoop_ends:
  assumes "l \<le> r" "r \<le> best" "best < 2 ^ 31"
    and "l \<noteq> 0 \<Longrightarrow> \<exists>b. blockAt C (word_of_nat l) = Inr b \<and> tooEarly birthday b"
    and "r \<noteq> best \<Longrightarrow> \<exists>b. blockAt C (word_of_nat r) = Inr b \<and> tooLate birthday b"
  shows "\<exists>res. birthdayLoop C birthday (word_of_nat best) (word_of_nat l) (word_of_nat r) = Some res
    \<and> (case res of Inl e \<Rightarrow> \<exists>n\<le>best. blockAt C (word_of_nat n) = Inl e | Inr bs \<Rightarrow> birthdayFound C birthday best bs)"
  using assms
proof (induction "r - l" arbitrary: l r rule: less_induct)
  case less
  let ?m = "l + (r - l) div 2"
  have m: "midpoint (word_of_nat l) (word_of_nat r) = word_of_nat ?m"
    using less.prems by (intro midpoint_nat) auto
  have le: "?m \<le> r" "?m \<le> best" "?m < 2 ^ 31" "l < 2 ^ 31" using less.prems by auto
  have eq: "(word_of_nat ?m :: height) = 0 \<longleftrightarrow> ?m = 0" "(word_of_nat ?m :: height) = word_of_nat best \<longleftrightarrow> ?m = best"
    "(word_of_nat ?m :: height) = word_of_nat l \<longleftrightarrow> ?m = l"
    using height_eq_iff[of ?m 0] height_eq_iff[of ?m best] height_eq_iff[of ?m l] le less.prems(3) by simp_all
  note step = birthdayLoop.simps[of C birthday "word_of_nat best" "word_of_nat l" "word_of_nat r",
      unfolded m Let_def eq]
  show ?case
  proof (cases "blockAt C (word_of_nat ?m)")
    case (Inl e)
    then show ?thesis using step le by auto
  next
    case (Inr bs)
    consider (stop) "?m = 0 \<or> ?m = best \<or> ?m = l" | (late) "\<not> (?m = 0 \<or> ?m = best \<or> ?m = l)" "tooLate birthday bs"
      | (early) "\<not> (?m = 0 \<or> ?m = best \<or> ?m = l)" "tooEarly birthday bs"
      | (found) "\<not> (?m = 0 \<or> ?m = best \<or> ?m = l)" "\<not> tooEarly birthday bs" "\<not> tooLate birthday bs" by blast
    then show ?thesis
    proof cases
      case stop
      have "birthdayFound C birthday best bs"
      proof (cases "?m = 0 \<or> ?m = best")
        case True
        then show ?thesis unfolding birthdayFound_def using Inr le by (intro exI[of _ ?m]) auto
      next
        case False
        then have l: "?m = l" "l \<noteq> 0" "l \<noteq> best" using stop by auto
        then have te: "tooEarly birthday bs" using less.prems(4) Inr by auto
        have "r \<le> Suc l" using l(1) less.prems(1) by simp
        moreover have "r \<noteq> l"
        proof
          assume "r = l"
          then obtain b where "blockAt C (word_of_nat l) = Inr b" "tooLate birthday b" using less.prems(5) l(3) by blast
          then show False using te Inr l(1) by (simp add: tooEarly_def tooLate_def birthdayBlockDelta_def)
        qed
        ultimately have r: "r = Suc l" using less.prems(1) by simp
        show ?thesis unfolding birthdayFound_def
          using Inr l(1) te less.prems(2,5) r by (intro exI[of _ l]) auto
      qed
      then show ?thesis using step stop Inr by simp
    next
      case late
      then have "?m - l < r - l" using less.prems(1) by (cases "r = l") auto
      then have "\<exists>res. birthdayLoop C birthday (word_of_nat best) (word_of_nat l) (word_of_nat ?m) = Some res
        \<and> (case res of Inl e \<Rightarrow> \<exists>n\<le>best. blockAt C (word_of_nat n) = Inl e | Inr bs \<Rightarrow> birthdayFound C birthday best bs)"
        using less.prems le late Inr by (intro less.hyps) auto
      then show ?thesis using step late Inr by (simp add: tooLate_def)
    next
      case early
      then have "l < ?m" using less.prems(1) by simp
      then have "r - ?m < r - l" using le by linarith
      then have "\<exists>res. birthdayLoop C birthday (word_of_nat best) (word_of_nat ?m) (word_of_nat r) = Some res
        \<and> (case res of Inl e \<Rightarrow> \<exists>n\<le>best. blockAt C (word_of_nat n) = Inl e | Inr bs \<Rightarrow> birthdayFound C birthday best bs)"
        using less.prems le early Inr by (intro less.hyps) auto
      then show ?thesis using step early Inr by (simp add: tooEarly_def birthdayBlockDelta_def)
    next
      case found
      then have "birthdayFound C birthday best bs" unfolding birthdayFound_def
        using Inr le by (intro exI[of _ ?m]) auto
      then show ?thesis using step found Inr by (simp add: tooEarly_def tooLate_def)
    qed
  qed
qed

text \<open>
  C34: Given a chain of any height that fits an \<open>int32\<close>, the binary search for the birthday block ends.  It
  returns an error only when the chain client fails for a height of the chain, and otherwise a block of the chain
  that is the first or the last one, or within two hours of the birthday, or more than two hours before it when
  the next block is the last one or already more than two hours after it.
\<close>
theorem locateBirthdayBlock_ends:
  assumes "GetBestBlock C = Some (hash, word_of_nat best)" "best < 2 ^ 31"
  shows "\<exists>res. locateBirthdayBlock C birthday = Some res
    \<and> (case res of Inl e \<Rightarrow> \<exists>n\<le>best. blockAt C (word_of_nat n) = Inl e
       | Inr bs \<Rightarrow> birthdayFound C birthday best bs)"
  using birthdayLoop_ends[of 0 best best C birthday] assms by (simp add: locateBirthdayBlock_def)

section \<open>The check\<close>

lemma BirthdayBlock_written:
  assumes "mgr_db_ok E" "mgrSync ns = Some b"
    and "- (2 ^ 63) \<le> unixSec (stampTime block)" "unixSec (stampTime block) < 2 ^ 63"
  obtains b' where "SetBirthdayBlock E ns block True = Inr (ns\<lparr>mgrSync := Some b'\<rparr>)"
    "\<And>bs. BirthdayBlock (ns\<lparr>mgrSync := Some (syncWrite bs b')\<rparr>)
       = Inr (block\<lparr>stampTime := stampTime block - stampTime block mod 1000000000\<rparr>, True)"
    "\<exists>bb. FetchBirthdayBlock (ns\<lparr>mgrSync := Some b'\<rparr>) = Inr bb"
    "\<And>h. fetchBlockHash (ns\<lparr>mgrSync := Some b'\<rparr>) h = fetchBlockHash ns h"
proof -
  let ?b = "bucketPut (bucketPut b birthdayBlockName (birthdayValue block)) birthdayBlockVerifiedName (putUint16 1)"
  have s: "SetBirthdayBlock E ns block True = Inr (ns\<lparr>mgrSync := Some ?b\<rparr>)"
    by (simp add: SetBirthdayBlock_def PutBirthdayBlock_value[OF assms(1,2)] putBirthdayBlockVerification_def
        putSync_ok[OF assms(1)])
  have d: "birthdayBlockVerifiedName \<noteq> syncedToName" by (simp add: sync_key_defs ascii_def)
  have g: "bucketGet (syncWrite bs ?b) birthdayBlockName = Some (birthdayValue block)"
    "bucketGet (syncWrite bs ?b) birthdayBlockVerifiedName = Some (putUint16 1)" for bs
    by (simp_all add: syncWrite_def Let_def bucketGet_upd not_sym[OF height_key_neq(2)] not_sym[OF height_key_neq(5)]
        d)
  have "BirthdayBlock (ns\<lparr>mgrSync := Some (syncWrite bs ?b)\<rparr>)
       = Inr (block\<lparr>stampTime := stampTime block - stampTime block mod 1000000000\<rparr>, True)" for bs
    using FetchBirthdayBlock_value[of "ns\<lparr>mgrSync := Some (syncWrite bs ?b)\<rparr>" _ block] g[of bs]
      wordTime_timeWord[OF assms(3,4)]
    by (simp add: BirthdayBlock_def fetchBirthdayBlockVerification_def syncBucket_def)
  moreover have "\<exists>bb. FetchBirthdayBlock (ns\<lparr>mgrSync := Some ?b\<rparr>) = Inr bb"
    using FetchBirthdayBlock_value[of "ns\<lparr>mgrSync := Some ?b\<rparr>" ?b block] by simp
  moreover have "fetchBlockHash (ns\<lparr>mgrSync := Some ?b\<rparr>) h = fetchBlockHash ns h" for h
    using assms(2) by (simp add: fetchBlockHash_def syncBucket_def)
  ultimately show thesis using that s by blast
qed

text \<open>
  C35: A wallet whose birthday block is not verified takes over the located block only when it is the genesis block
  or the hash of the block before it is stored: then the birthday block reads back as verified, with its time cut
  to seconds, the wallet is synced to it, and a later check with any other chain changes nothing.  Otherwise the
  check fails with \<open>ErrBlockNotFound\<close>.
\<close>
theorem birthdaySanityCheck_verifies:
  assumes "mgr_db_ok E" "mgrSync (wAddrNs w) = Some b" "BirthdayBlock (wAddrNs w) = Inr (old, False)"
    and l: "locateBirthdayBlock C birthday = Some (Inr block)"
    and t: "- (2 ^ 63) \<le> unixSec (stampTime block)" "unixSec (stampTime block) < 2 ^ 63"
  shows "if 0 <s stampHeight block \<and> (\<forall>h. fetchBlockHash (wAddrNs w) (stampHeight block - 1) \<noteq> Inr h)
    then birthdaySanityCheck E C birthday w = Some (Inl (AddrErr (managerError ErrBlockNotFound)))
    else \<exists>w'. birthdaySanityCheck E C birthday w = Some (Inr (block, w')) \<and> SyncedTo (wSync w') = block
      \<and> wTxNs w' = wTxNs w
      \<and> (let cut = block\<lparr>stampTime := stampTime block - stampTime block mod 1000000000\<rparr> in
          BirthdayBlock (wAddrNs w') = Inr (cut, True)
          \<and> (\<forall>C' birthday'. birthdaySanityCheck E C' birthday' w' = Some (Inr (cut, w'))))"
proof -
  obtain b' where b': "SetBirthdayBlock E (wAddrNs w) block True = Inr ((wAddrNs w)\<lparr>mgrSync := Some b'\<rparr>)"
    "\<And>bs. BirthdayBlock ((wAddrNs w)\<lparr>mgrSync := Some (syncWrite bs b')\<rparr>)
       = Inr (block\<lparr>stampTime := stampTime block - stampTime block mod 1000000000\<rparr>, True)"
    "\<exists>bb. FetchBirthdayBlock ((wAddrNs w)\<lparr>mgrSync := Some b'\<rparr>) = Inr bb"
    "\<And>h. fetchBlockHash ((wAddrNs w)\<lparr>mgrSync := Some b'\<rparr>) h = fetchBlockHash (wAddrNs w) h"
    using BirthdayBlock_written[OF assms(1,2) t] by blast
  let ?ns = "(wAddrNs w)\<lparr>mgrSync := Some b'\<rparr>"
  have s: "mgrSync ?ns = Some b'" by simp
  have link: "linked ?ns block \<longleftrightarrow> (0 <s stampHeight block \<longrightarrow> (\<exists>h. fetchBlockHash (wAddrNs w) (stampHeight block - 1) = Inr h))"
    using b'(3) by (simp add: linked_def b'(4))
  have check: "birthdaySanityCheck E C birthday w
      = Some (bindE (storeBirthdayBlock E block w) (\<lambda>w. Inr (block, w)))"
    by (simp add: birthdaySanityCheck_def assms(3) l)
  show ?thesis
  proof (cases "linked ?ns block")
    case True
    let ?w = "w\<lparr>wSync := (wSync w)\<lparr>syncedTo := block\<rparr>, wAddrNs := ?ns\<lparr>mgrSync := Some (syncWrite block b')\<rparr>\<rparr>"
    have "SetSyncedTo E (wSync w) ?ns (Some block) = Inr ((wSync w)\<lparr>syncedTo := block\<rparr>, ?ns\<lparr>mgrSync := Some (syncWrite block b')\<rparr>)"
      using PutSyncedTo_effect(2)[OF s assms(1) True] by (simp add: SetSyncedTo_def)
    then have "birthdaySanityCheck E C birthday w = Some (Inr (block, ?w))"
      unfolding check storeBirthdayBlock_def b'(1) by simp
    moreover have "BirthdayBlock (wAddrNs ?w)
        = Inr (block\<lparr>stampTime := stampTime block - stampTime block mod 1000000000\<rparr>, True)"
      using b'(2)[of block] by simp
    moreover from this have "birthdaySanityCheck E C' birthday' ?w
        = Some (Inr (block\<lparr>stampTime := stampTime block - stampTime block mod 1000000000\<rparr>, ?w))" for C' birthday'
      unfolding birthdaySanityCheck_def by simp
    moreover have "SyncedTo (wSync ?w) = block" "wTxNs ?w = wTxNs w" by (simp_all add: SyncedTo_def)
    moreover have "\<not> (0 <s stampHeight block \<and> (\<forall>h. fetchBlockHash (wAddrNs w) (stampHeight block - 1) \<noteq> Inr h))"
      using True unfolding link by blast
    ultimately show ?thesis by (simp only: if_False Let_def) blast
  next
    case False
    then obtain e where h: "0 <s stampHeight block" "fetchBlockHash (wAddrNs w) (stampHeight block - 1) = Inl e"
      unfolding link by (cases "fetchBlockHash (wAddrNs w) (stampHeight block - 1)") auto
    have "e \<noteq> MgrPanic" using h(2) assms(2)
      by (auto simp: fetchBlockHash_def syncBucket_def managerError_def ErrDb_def split: option.splits if_splits)
    then have "PutSyncedTo E ?ns block = Inl (managerError ErrBlockNotFound)"
      using h b'(3) by (auto simp: PutSyncedTo_def b'(4))
    then have "storeBirthdayBlock E block w = Inl (AddrErr (managerError ErrBlockNotFound))"
      by (simp add: storeBirthdayBlock_def b'(1) SetSyncedTo_def)
    then show ?thesis using h by (simp add: check)
  qed
qed

end
