(* ===== verification/Witness_Birthday.thy ===== *)
theory Witness_Birthday
  imports Witness_Chain Wallet_Birthday
begin

text \<open>
  The search for the birthday block and its check on a chain of three blocks, the middle one at the birthday.
\<close>

definition chain3 :: chainConn where
  "chain3 = \<lparr>GetBestBlock = Some (102, 2), GetBlockHash = (\<lambda>h. if h < 3 then Some (100 + ucast h) else None),
     GetBlockHeader = (\<lambda>h. Some (if h = 100 then 0 else if h = 101 then 10000000000000 else 20000000000000))\<rparr>"

definition block101 :: blockStamp where
  "block101 = \<lparr>stampHeight = 1, stampHash = 101, stampTime = 10000000000000\<rparr>"

lemma locate3: "locateBirthdayBlock chain3 10000000000000 = Some (Inr block101)"
proof -
  have m: "midpoint 0 2 = 1" by (simp add: midpoint_def quotTrunc_def)
  have "blockAt chain3 1 = Inr block101" by (simp add: blockAt_def chain3_def block101_def)
  then have "birthdayLoop chain3 10000000000000 2 0 2 = Some (Inr block101)"
    by (subst birthdayLoop.simps) (simp add: m block101_def birthdayBlockDelta_def)
  then show ?thesis by (simp add: locateBirthdayBlock_def chain3_def)
qed

lemma locateBirthdayBlock_ends_witness:
  "birthdayFound chain3 10000000000000 2 block101"
proof -
  have "GetBestBlock chain3 = Some (102, word_of_nat 2)" by (simp add: chain3_def)
  from locateBirthdayBlock_ends[OF this, of 10000000000000] show ?thesis by (simp add: locate3)
qed

definition wB :: walletChain where
  "wB = \<lparr>wSync = newSyncState stamp0 stamp0,
     wAddrNs = nsM\<lparr>mgrSync := Some (bucketPut (bucketPut bucketEmpty birthdayBlockName (birthdayValue stamp0))
       (putUint32 0) (hashBytes 100))\<rparr>,
     wTxNs = store0, wChainSynced = True\<rparr>"

lemma birthdaySanityCheck_verifies_witness:
  "\<exists>w'. birthdaySanityCheck envM chain3 10000000000000 wB = Some (Inr (block101, w'))
    \<and> BirthdayBlock (wAddrNs w') = Inr (block101, True)"
proof -
  let ?b = "bucketPut (bucketPut bucketEmpty birthdayBlockName (birthdayValue stamp0)) (putUint32 0) (hashBytes 100)"
  have s: "mgrSync (wAddrNs wB) = Some ?b" by (simp add: wB_def)
  have g: "bucketGet ?b birthdayBlockName = Some (birthdayValue stamp0)"
    "bucketGet ?b birthdayBlockVerifiedName = None"
    by (simp_all add: bucketGet_upd not_sym[OF height_key_neq(2)] not_sym[OF height_key_neq(5)] bucketGet_def)
  have o: "BirthdayBlock (wAddrNs wB) = Inr (stamp0\<lparr>stampTime := wordTime (timeWord (stampTime stamp0))\<rparr>, False)"
    using FetchBirthdayBlock_value[OF s g(1)] g(2)
    by (simp add: BirthdayBlock_def fetchBirthdayBlockVerification_def syncBucket_def s)
  have f: "fetchBlockHash (wAddrNs wB) 0 = Inr 100"
    by (simp add: fetchBlockHash_def syncBucket_def s)
  have t: "- (2 ^ 63) \<le> unixSec (stampTime block101)" "unixSec (stampTime block101) < 2 ^ 63"
    by (simp_all add: block101_def unixSec_def)
  have c: "\<not> (0 <s stampHeight block101 \<and> (\<forall>h. fetchBlockHash (wAddrNs wB) (stampHeight block101 - 1) \<noteq> Inr h))"
    using f by (simp add: block101_def)
  have "block101\<lparr>stampTime := stampTime block101 - stampTime block101 mod 1000000000\<rparr> = block101"
    by (simp add: block101_def)
  then show ?thesis
    using birthdaySanityCheck_verifies[OF envM_ok s o locate3 t, unfolded if_not_P[OF c] Let_def] by auto
qed

end
