(* ===== verification/Witness_Props.thy ===== *)
theory Witness_Props
  imports Witness_Mgr Mgr_Props
begin

text \<open>The properties of an account of an unlocked manager, whose exported public key carries the version bytes of its
  scope.\<close>

definition netsK :: wireNets where
  "netsK = \<lparr>MainNet = 1, TestNet = 2, TestNet3 = 3, SimNet = 4, sigNetName = [115]\<rparr>"

lemma AccountPropertiesK: "AccountProperties envK netsK \<lparr>paramsName = [109], paramsNet = 1\<rparr> (\<lambda>k v. Some (v @ k)) nsM
    KeyScopeBIP0084 0 (mgrK False)
  = (Inr ((fillProperties (mgrK False) acctK (newProperties KeyScopeBIP0084 0))
      \<lparr>apAccountPubKey := Some [0x04, 0xb2, 0x47, 0x46, 7]\<rparr>), mgrK False)"
proof -
  have s: "map_of (mgScoped (mgrK False)) KeyScopeBIP0084 = Some scopedK" by (simp add: mgrK_def)
  have a: "map_of (smAcctInfo scopedK) 0 = Some acctK" by (simp add: scopedK_def)
  have k: "putUint32 0x04b24746 = [0x04, 0xb2, 0x47, 0x46]"
  proof -
    have "nat_be (Suc (Suc (Suc (Suc 0)))) 0x04b24746 = [0x04, 0xb2, 0x47, 0x46]" by simp
    moreover have "Suc (Suc (Suc (Suc 0))) = 4" by simp
    ultimately show ?thesis by (simp add: putUint32_def)
  qed
  have v: "keyVersion netsK \<lparr>paramsName = [109], paramsNet = 1\<rparr> KeyScopeBIP0084 = Some 0x04b24746"
    by (simp add: keyVersion_def netsK_def scopeVersion_def hdVersion_defs KeyScopeBIP0084_def KeyScopeBIP0044_def
        KeyScopeBIP0086_def KeyScopeBIP0049Plus_def)
  have d: "IsDefaultScope KeyScopeBIP0084" by (simp add: IsDefaultScope_def DefaultKeyScopes_def)
  have "exportKey netsK \<lparr>paramsName = [109], paramsNet = 1\<rparr> (\<lambda>k v. Some (v @ k)) KeyScopeBIP0084 acctK props
      = Inr (props\<lparr>apAccountPubKey := Some [0x04, 0xb2, 0x47, 0x46, 7]\<rparr>)" for props
    by (simp add: exportKey_def d cloneKeyWithVersion_def v k acctK_def accountDefault_def)
  then show ?thesis
    by (simp add: AccountProperties_def ImportedAddrAccount_def MaxAccountNum_def HardenedKeyStart_def Let_def bindM_def loadAccountInfo_hit[OF s a] mop_run)
qed

end
