(* ===== verification/Chain_Queue.thy ===== *)
theory Chain_Queue
  imports Prelude "HOL-Library.Sublist"
begin

text \<open>
  The unbounded queue between the chain clients and the wallet (\<open>chain/queue.go\<close>): a goroutine moves items from
  the channel \<open>chanIn\<close> to the buffered channel \<open>chanOut\<close>, through a list when the buffer is full.  A step of the
  goroutine is one turn of its loop; the two channels' other ends belong to clients.
\<close>

section \<open>The queue\<close>

record 'x concurrentQueue =
  cqChanOut :: "'x list"
  cqCapacity :: nat
  cqOverflow :: "'x list"
  cqQuit :: bool
  cqRunning :: bool

definition NewConcurrentQueue :: "nat \<Rightarrow> 'x concurrentQueue" where
  "NewConcurrentQueue bufferSize =
     \<lparr>cqChanOut = [], cqCapacity = bufferSize, cqOverflow = [], cqQuit = False, cqRunning = True\<rparr>"

text \<open>What clients see: an item sent into \<open>chanIn\<close>, one received from \<open>chanOut\<close>, or nothing.\<close>

datatype 'x event = Sent 'x | Received 'x | Passed 'x | Quiet

text \<open>
  A send on \<open>chanOut\<close> goes into its buffer, or straight to a waiting receiver when the buffer is empty.  The
  \<open>default\<close> of the inner \<open>select\<close> is taken only when the send cannot happen, that is when the buffer is full (and,
  with no buffer at all, no receiver is waiting).  A \<open>select\<close> with several ready cases takes any of them.
\<close>

inductive queue_step :: "'x concurrentQueue \<Rightarrow> 'x event \<Rightarrow> 'x concurrentQueue \<Rightarrow> bool" where
  direct: "cqRunning q \<Longrightarrow> cqOverflow q = [] \<Longrightarrow> length (cqChanOut q) < cqCapacity q
    \<Longrightarrow> queue_step q (Sent item) (q\<lparr>cqChanOut := cqChanOut q @ [item]\<rparr>)"
| direct_handed: "cqRunning q \<Longrightarrow> cqOverflow q = [] \<Longrightarrow> cqChanOut q = []
    \<Longrightarrow> queue_step q (Passed item) q"
| direct_quit: "cqRunning q \<Longrightarrow> cqOverflow q = [] \<Longrightarrow> cqQuit q
    \<Longrightarrow> queue_step q (Sent item) (q\<lparr>cqRunning := False\<rparr>)"
| direct_full: "cqRunning q \<Longrightarrow> cqOverflow q = [] \<Longrightarrow> cqCapacity q \<le> length (cqChanOut q) \<Longrightarrow> \<not> cqQuit q
    \<Longrightarrow> queue_step q (Sent item) (q\<lparr>cqOverflow := cqOverflow q @ [item]\<rparr>)"
| push_back: "cqRunning q \<Longrightarrow> cqOverflow q \<noteq> []
    \<Longrightarrow> queue_step q (Sent item) (q\<lparr>cqOverflow := cqOverflow q @ [item]\<rparr>)"
| forward: "cqRunning q \<Longrightarrow> cqOverflow q = nextElement # rest \<Longrightarrow> length (cqChanOut q) < cqCapacity q
    \<Longrightarrow> queue_step q Quiet (q\<lparr>cqChanOut := cqChanOut q @ [nextElement], cqOverflow := rest\<rparr>)"
| forward_handed: "cqRunning q \<Longrightarrow> cqOverflow q = nextElement # rest \<Longrightarrow> cqChanOut q = []
    \<Longrightarrow> queue_step q (Received nextElement) (q\<lparr>cqOverflow := rest\<rparr>)"
| quit: "cqRunning q \<Longrightarrow> cqQuit q \<Longrightarrow> queue_step q Quiet (q\<lparr>cqRunning := False\<rparr>)"
| stop: "\<not> cqQuit q \<Longrightarrow> queue_step q Quiet (q\<lparr>cqQuit := True\<rparr>)"
| receive: "cqChanOut q = item # rest \<Longrightarrow> queue_step q (Received item) (q\<lparr>cqChanOut := rest\<rparr>)"

inductive_cases queue_stepE: "queue_step q ev q'"

text \<open>Runs, with the items sent in and received so far.\<close>

inductive queue_run :: "nat \<Rightarrow> 'x list \<Rightarrow> 'x list \<Rightarrow> 'x concurrentQueue \<Rightarrow> bool" for bufferSize where
  start: "queue_run bufferSize [] [] (NewConcurrentQueue bufferSize)"
| sent: "queue_run bufferSize ins outs q \<Longrightarrow> queue_step q (Sent item) q' \<Longrightarrow> queue_run bufferSize (ins @ [item]) outs q'"
| received: "queue_run bufferSize ins outs q \<Longrightarrow> queue_step q (Received item) q'
    \<Longrightarrow> queue_run bufferSize ins (outs @ [item]) q'"
| passed: "queue_run bufferSize ins outs q \<Longrightarrow> queue_step q (Passed item) q'
    \<Longrightarrow> queue_run bufferSize (ins @ [item]) (outs @ [item]) q'"
| quiet: "queue_run bufferSize ins outs q \<Longrightarrow> queue_step q Quiet q' \<Longrightarrow> queue_run bufferSize ins outs q'"

section \<open>The contract of a queue\<close>

text \<open>
  What a client relies on: \<open>content\<close> are the items under way in their order; while the queue runs, sending
  appends to it and receiving takes from its front.
\<close>

locale fifo =
  fixes step :: "'q \<Rightarrow> 'x event \<Rightarrow> 'q \<Rightarrow> bool" and content :: "'q \<Rightarrow> 'x list" and running :: "'q \<Rightarrow> bool"
  assumes send: "step q (Sent item) q' \<Longrightarrow> running q' \<Longrightarrow> running q \<and> content q' = content q @ [item]"
    and receive: "step q (Received item) q' \<Longrightarrow> content q = item # content q'"
    and pass: "step q (Passed item) q' \<Longrightarrow> content q = [] \<and> content q' = []"
    and quiet: "step q Quiet q' \<Longrightarrow> content q' = content q"
    and alive: "step q ev q' \<Longrightarrow> running q' \<Longrightarrow> running q"
    and stopped: "step q (Sent item) q' \<Longrightarrow> \<not> running q' \<Longrightarrow> content q' = content q"
    and dead: "step q ev q' \<Longrightarrow> \<not> running q \<Longrightarrow> (\<exists>item. ev = Received item) \<or> ev = Quiet"
begin

definition ordered :: "'x list \<Rightarrow> 'x list \<Rightarrow> 'q \<Rightarrow> bool" where
  "ordered ins outs q \<longleftrightarrow> prefix (outs @ content q) ins \<and> (running q \<longrightarrow> ins = outs @ content q)"

lemma ordered_sent: "ordered ins outs q \<Longrightarrow> step q (Sent item) q' \<Longrightarrow> ordered (ins @ [item]) outs q'"
  using send[of q item q'] stopped[of q item q'] by (cases "running q'") (auto simp: ordered_def)

lemma ordered_received: "ordered ins outs q \<Longrightarrow> step q (Received item) q' \<Longrightarrow> ordered ins (outs @ [item]) q'"
  using receive[of q item q'] alive[of q "Received item" q'] by (auto simp: ordered_def)

lemma ordered_passed:
  assumes "ordered ins outs q" "step q (Passed item) q'"
  shows "ordered (ins @ [item]) (outs @ [item]) q'"
proof -
  have "running q" using dead[OF assms(2)] by blast
  then show ?thesis using assms(1) pass[OF assms(2)] by (simp add: ordered_def)
qed

lemma ordered_quiet: "ordered ins outs q \<Longrightarrow> step q Quiet q' \<Longrightarrow> ordered ins outs q'"
  using quiet[of q q'] alive[of q Quiet q'] by (auto simp: ordered_def)

end

definition cqContent :: "'x concurrentQueue \<Rightarrow> 'x list" where
  "cqContent q = cqChanOut q @ cqOverflow q"

interpretation cq: fifo queue_step cqContent cqRunning
  by unfold_locales (auto simp: cqContent_def elim: queue_stepE)

section \<open>Order\<close>

lemma queue_capacity:
  assumes "queue_run n ins outs q"
  shows "cqCapacity q = n \<and> length (cqChanOut q) \<le> n"
  using assms by induction (auto simp: NewConcurrentQueue_def elim!: queue_stepE)

lemma queue_ordered: "queue_run bufferSize ins outs q \<Longrightarrow> cq.ordered ins outs q"
proof (induction rule: queue_run.induct)
  case start
  then show ?case unfolding cq.ordered_def by (simp add: cqContent_def NewConcurrentQueue_def)
qed (auto intro: cq.ordered_sent cq.ordered_received cq.ordered_passed cq.ordered_quiet)

text \<open>
  C36: In every run the clients receive the items in the order they were sent: those received and those still in the
  queue are a prefix of those sent.  As long as the goroutine runs nothing is lost: they are all of them.  The
  buffer of \<open>chanOut\<close> never holds more than its size.
\<close>
theorem queue_fifo:
  assumes "queue_run bufferSize ins outs q"
  shows "prefix (outs @ cqContent q) ins \<and> (cqRunning q \<longrightarrow> ins = outs @ cqContent q)
    \<and> length (cqChanOut q) \<le> bufferSize"
  using queue_ordered[OF assms] queue_capacity[OF assms] by (simp add: cq.ordered_def)

section \<open>Delivery\<close>

text \<open>
  A delivery from \<open>q\<close>: the clients only receive and nobody stops the queue; its number of steps, those of the
  goroutine among them, and the items received.
\<close>

inductive delivery :: "'x concurrentQueue \<Rightarrow> nat \<Rightarrow> 'x list \<Rightarrow> 'x concurrentQueue \<Rightarrow> bool" for q where
  delivery_start: "delivery q 0 [] q"
| delivery_receive: "delivery q n outs q' \<Longrightarrow> queue_step q' (Received item) q'' \<Longrightarrow> delivery q (Suc n) (outs @ [item]) q''"
| delivery_move: "delivery q n outs q' \<Longrightarrow> queue_step q' Quiet q'' \<Longrightarrow> cqQuit q'' = cqQuit q' \<Longrightarrow> cqRunning q'' = cqRunning q'
    \<Longrightarrow> delivery q (Suc n) outs q''"

text \<open>An item in the overflow is at most two steps away from its receiver, one in the buffer one.\<close>

definition stepsLeft :: "'x concurrentQueue \<Rightarrow> nat" where
  "stepsLeft q = 2 * length (cqOverflow q) + length (cqChanOut q)"

lemma queue_step_left:
  "queue_step q (Received item) q' \<Longrightarrow> Suc (stepsLeft q') \<le> stepsLeft q \<and> cqRunning q' = cqRunning q"
  "queue_step q Quiet q' \<Longrightarrow> cqQuit q' = cqQuit q \<Longrightarrow> cqRunning q' = cqRunning q \<Longrightarrow> Suc (stepsLeft q') \<le> stepsLeft q"
  by (auto simp: stepsLeft_def elim!: queue_stepE)

lemma delivery_left:
  assumes "delivery q n outs q'"
  shows "cqContent q = outs @ cqContent q' \<and> n + stepsLeft q' \<le> stepsLeft q \<and> cqRunning q' = cqRunning q"
  using assms
proof induction
  case (delivery_receive n outs q' item q'')
  then show ?case using cq.receive[OF delivery_receive.hyps(2)] queue_step_left(1)[OF delivery_receive.hyps(2)] by auto
next
  case (delivery_move n outs q' q'')
  then show ?case
    using cq.quiet[OF delivery_move.hyps(2)] queue_step_left(2)[OF delivery_move.hyps(2-4)] by auto
qed simp

lemma queue_receives:
  assumes "cqRunning q" "cqContent q = item # rest"
  shows "\<exists>q'. queue_step q (Received item) q'"
proof (cases "cqChanOut q")
  case Nil
  then show ?thesis using assms forward_handed[of q item rest] by (auto simp: cqContent_def)
next
  case (Cons x xs)
  then show ?thesis using assms(2) queue_step.receive[of q x xs] by (auto simp: cqContent_def)
qed

text \<open>Every delivery can be carried on until the queue is empty.\<close>

lemma delivery_completes:
  assumes "cqRunning q" "delivery q n outs q'"
  shows "\<exists>n' q''. delivery q n' (cqContent q) q'' \<and> cqContent q'' = []"
  using assms(2)
proof (induction "cqContent q'" arbitrary: n outs q')
  case Nil
  then show ?case using delivery_left[OF Nil.prems] by (metis append_Nil2)
next
  case (Cons item rest)
  have "cqRunning q'" using delivery_left[OF Cons.prems] assms(1) by simp
  then obtain q1 where q1: "queue_step q' (Received item) q1" using queue_receives Cons.hyps(2) by metis
  then have "cqContent q1 = rest" using cq.receive[OF q1] Cons.hyps(2) by simp
  then show ?case using Cons.hyps(1) delivery_receive[OF Cons.prems q1] by blast
qed

lemma queue_takes:
  assumes "cqRunning q"
  shows "\<exists>q'. queue_step q (Sent item) q' \<and> (\<not> cqQuit q \<longrightarrow> cqRunning q' \<and> cqContent q' = cqContent q @ [item])"
proof -
  have "\<exists>q'. queue_step q (Sent item) q' \<and> (cqRunning q' \<or> cqQuit q)"
  proof (cases "cqOverflow q = []")
    case True
    show ?thesis
    proof (cases "cqQuit q")
      case False
      then show ?thesis using True assms direct[of q item] direct_full[of q item]
        by (cases "length (cqChanOut q) < cqCapacity q") fastforce+
    qed (use True assms direct_quit[of q item] in blast)
  next
    case False
    then show ?thesis using push_back[OF assms, of item] assms by fastforce
  qed
  then obtain q' where q': "queue_step q (Sent item) q'" "cqRunning q' \<or> cqQuit q" by blast
  then show ?thesis using cq.send[OF q'(1)] by (intro exI[of _ q']) auto
qed

text \<open>
  C37: A running queue never blocks its clients.  From every state \<open>q\<close> it reaches it can take another item, which it
  keeps unless it is being stopped.  What has been sent and not yet received is what it holds, and when the clients
  only receive and nobody stops it, that is delivered in order and nothing else: every such delivery from \<open>q\<close> has
  handed over a prefix of it in a bounded number of steps, of which every item not yet delivered needs at most two,
  and the next item can be received; so it ends, and it can end with all of it delivered.
\<close>
theorem queue_never_blocks:
  assumes "queue_run bufferSize ins outs q" "cqRunning q"
  shows "(\<exists>q'. queue_step q (Sent item) q' \<and> (\<not> cqQuit q \<longrightarrow> cqRunning q' \<and> cqContent q' = cqContent q @ [item]))
    \<and> ins = outs @ cqContent q
    \<and> (\<forall>n got q'. delivery q n got q' \<longrightarrow> cqContent q = got @ cqContent q' \<and> n \<le> 2 * length (cqContent q)
        \<and> (cqContent q' \<noteq> [] \<longrightarrow> (\<exists>q''. queue_step q' (Received (cqContent q ! length got)) q'')))
    \<and> (\<exists>n q'. delivery q n (cqContent q) q' \<and> cqContent q' = [])"
proof (intro conjI)
  have "cqContent q = got @ cqContent q' \<and> n \<le> 2 * length (cqContent q)
      \<and> (cqContent q' \<noteq> [] \<longrightarrow> (\<exists>q''. queue_step q' (Received (cqContent q ! length got)) q''))"
    if d: "delivery q n got q'" for n got q'
  proof -
    note l = delivery_left[OF d]
    have "stepsLeft q \<le> 2 * length (cqContent q)" by (simp add: stepsLeft_def cqContent_def)
    moreover have "\<exists>q''. queue_step q' (Received (cqContent q ! length got)) q''" if "cqContent q' = x # xs" for x xs
      using queue_receives[of q' x xs] l assms(2) that by (simp add: nth_append)
    ultimately show ?thesis using l by (cases "cqContent q'") auto
  qed
  then show "\<forall>n got q'. delivery q n got q' \<longrightarrow> cqContent q = got @ cqContent q' \<and> n \<le> 2 * length (cqContent q)
        \<and> (cqContent q' \<noteq> [] \<longrightarrow> (\<exists>q''. queue_step q' (Received (cqContent q ! length got)) q''))" by blast
  show "ins = outs @ cqContent q" using queue_ordered[OF assms(1)] assms(2) by (simp add: cq.ordered_def)
  show "\<exists>q'. queue_step q (Sent item) q' \<and> (\<not> cqQuit q \<longrightarrow> cqRunning q' \<and> cqContent q' = cqContent q @ [item])"
    by (rule queue_takes[OF assms(2)])
  show "\<exists>n q'. delivery q n (cqContent q) q' \<and> cqContent q' = []"
    by (rule delivery_completes[OF assms(2) delivery_start])
qed

end
