(* ===== verification/Chain_Filter.thy ===== *)
theory Chain_Filter
  imports Mgr_Types Tx_Types
begin

text \<open>
  The search of a block for the addresses and outpoints of the wallet (\<open>chain/block_filterer.go\<close>), which recovery
  and rescans use.  \<open>extract\<close> is \<open>txscript.ExtractPkScriptAddrs\<close> and \<open>encode\<close> the text of an address
  (\<open>EncodeAddress\<close>), by which addresses are compared.  The two maps of a request are lists in the order in which they
  are visited.
\<close>

section \<open>The filterer\<close>

record scopedIndex =
  siScope :: keyScope
  siIndex :: u32

record 'a filterBlocksRequest =
  ExternalAddrs :: "(scopedIndex \<times> 'a) list"
  InternalAddrs :: "(scopedIndex \<times> 'a) list"
  reqWatched :: "outPoint \<rightharpoonup> 'a"

record 'a blockFilterer =
  ExReverseFilter :: "gostring \<rightharpoonup> scopedIndex"
  InReverseFilter :: "gostring \<rightharpoonup> scopedIndex"
  WatchedOutPoints :: "outPoint \<rightharpoonup> 'a"
  FoundExternal :: "keyScope \<rightharpoonup> u32 set"
  FoundInternal :: "keyScope \<rightharpoonup> u32 set"
  FoundOutPoints :: "outPoint \<rightharpoonup> 'a"
  RelevantTxns :: "msgTx list"

definition reverseFilter :: "('a \<Rightarrow> gostring) \<Rightarrow> (scopedIndex \<times> 'a) list \<Rightarrow> gostring \<rightharpoonup> scopedIndex" where
  "reverseFilter encode addrs = foldl (\<lambda>m (scopedIndex, addr). m(encode addr \<mapsto> scopedIndex)) Map.empty addrs"

definition NewBlockFilterer :: "('a \<Rightarrow> gostring) \<Rightarrow> 'a filterBlocksRequest \<Rightarrow> 'a blockFilterer" where
  "NewBlockFilterer encode req = \<lparr>ExReverseFilter = reverseFilter encode (ExternalAddrs req),
     InReverseFilter = reverseFilter encode (InternalAddrs req), WatchedOutPoints = reqWatched req,
     FoundExternal = Map.empty, FoundInternal = Map.empty, FoundOutPoints = Map.empty, RelevantTxns = []\<rparr>"

definition markFound :: "scopedIndex \<Rightarrow> (keyScope \<rightharpoonup> u32 set) \<Rightarrow> (keyScope \<rightharpoonup> u32 set)" where
  "markFound scopedIndex found = (case found (siScope scopedIndex) of
     None \<Rightarrow> found(siScope scopedIndex \<mapsto> {siIndex scopedIndex})
   | Some s \<Rightarrow> found(siScope scopedIndex \<mapsto> insert (siIndex scopedIndex) s))"

definition foundExternal :: "scopedIndex \<Rightarrow> 'a blockFilterer \<Rightarrow> 'a blockFilterer" where
  "foundExternal scopedIndex bf = bf\<lparr>FoundExternal := markFound scopedIndex (FoundExternal bf)\<rparr>"

definition foundInternal :: "scopedIndex \<Rightarrow> 'a blockFilterer \<Rightarrow> 'a blockFilterer" where
  "foundInternal scopedIndex bf = bf\<lparr>FoundInternal := markFound scopedIndex (FoundInternal bf)\<rparr>"

section \<open>Filtering\<close>

fun FilterOutputAddrs :: "('a \<Rightarrow> gostring) \<Rightarrow> 'a list \<Rightarrow> bool \<Rightarrow> 'a blockFilterer \<Rightarrow> bool \<times> 'a blockFilterer" where
  "FilterOutputAddrs encode [] isRelevant bf = (isRelevant, bf)"
| "FilterOutputAddrs encode (addr # addrs) isRelevant bf =
     (let addrStr = encode addr;
        (isRelevant, bf) = (case ExReverseFilter bf addrStr of
          None \<Rightarrow> (isRelevant, bf) | Some scopedIndex \<Rightarrow> (True, foundExternal scopedIndex bf));
        (isRelevant, bf) = (case InReverseFilter bf addrStr of
          None \<Rightarrow> (isRelevant, bf) | Some scopedIndex \<Rightarrow> (True, foundInternal scopedIndex bf))
      in FilterOutputAddrs encode addrs isRelevant bf)"

definition spendsKnown :: "'a blockFilterer \<Rightarrow> msgTx \<Rightarrow> bool" where
  "spendsKnown bf tx \<longleftrightarrow> (\<exists>inp\<in>set (TxIn tx). WatchedOutPoints bf (PreviousOutPoint inp) \<noteq> None
     \<or> FoundOutPoints bf (PreviousOutPoint inp) \<noteq> None)"

definition filterOutput :: "env \<Rightarrow> (bytes \<Rightarrow> 'a list option) \<Rightarrow> ('a \<Rightarrow> gostring) \<Rightarrow> msgTx \<Rightarrow> u32 \<times> txOut
    \<Rightarrow> bool \<times> 'a blockFilterer \<Rightarrow> bool \<times> 'a blockFilterer" where
  "filterOutput E extract encode tx = (\<lambda>(i, out) (isRelevant, bf). case extract (PkScript out) of
     None \<Rightarrow> (isRelevant, bf)
   | Some addrs \<Rightarrow>
       (case FilterOutputAddrs encode addrs False bf of
          (False, bf) \<Rightarrow> (isRelevant, bf)
        | (True, bf) \<Rightarrow> (True, bf\<lparr>FoundOutPoints :=
            (FoundOutPoints bf)(\<lparr>opHash = txHashOf E tx, opIndex = i\<rparr> \<mapsto> hd addrs)\<rparr>)))"

definition FilterTx :: "env \<Rightarrow> (bytes \<Rightarrow> 'a list option) \<Rightarrow> ('a \<Rightarrow> gostring) \<Rightarrow> msgTx \<Rightarrow> 'a blockFilterer
    \<Rightarrow> bool \<times> 'a blockFilterer" where
  "FilterTx E extract encode tx bf =
     fold (filterOutput E extract encode tx) (indexed (TxOut tx)) (spendsKnown bf tx, bf)"

fun filterTxs :: "env \<Rightarrow> (bytes \<Rightarrow> 'a list option) \<Rightarrow> ('a \<Rightarrow> gostring) \<Rightarrow> msgTx list \<Rightarrow> bool \<Rightarrow> 'a blockFilterer
    \<Rightarrow> bool \<times> 'a blockFilterer" where
  "filterTxs E extract encode [] hasRelevantTxns bf = (hasRelevantTxns, bf)"
| "filterTxs E extract encode (tx # txs) hasRelevantTxns bf =
     (case FilterTx E extract encode tx bf of
        (False, bf) \<Rightarrow> filterTxs E extract encode txs hasRelevantTxns bf
      | (True, bf) \<Rightarrow> filterTxs E extract encode txs True (bf\<lparr>RelevantTxns := RelevantTxns bf @ [tx]\<rparr>))"

definition FilterBlock :: "env \<Rightarrow> (bytes \<Rightarrow> 'a list option) \<Rightarrow> ('a \<Rightarrow> gostring) \<Rightarrow> msgTx list \<Rightarrow> 'a blockFilterer
    \<Rightarrow> bool \<times> 'a blockFilterer" where
  "FilterBlock E extract encode transactions bf = filterTxs E extract encode transactions False bf"

section \<open>What a transaction pays\<close>

definition ours :: "('a \<Rightarrow> gostring) \<Rightarrow> 'a blockFilterer \<Rightarrow> 'a \<Rightarrow> bool" where
  "ours encode bf addr \<longleftrightarrow> ExReverseFilter bf (encode addr) \<noteq> None \<or> InReverseFilter bf (encode addr) \<noteq> None"

definition paidAt :: "(bytes \<Rightarrow> 'a list option) \<Rightarrow> txOut \<Rightarrow> 'a set" where
  "paidAt extract out = (case extract (PkScript out) of None \<Rightarrow> {} | Some addrs \<Rightarrow> set addrs)"

definition payouts :: "env \<Rightarrow> (bytes \<Rightarrow> 'a list option) \<Rightarrow> ('a \<Rightarrow> gostring) \<Rightarrow> 'a blockFilterer \<Rightarrow> msgTx \<Rightarrow> outPoint set" where
  "payouts E extract encode bf tx = {\<lparr>opHash = txHashOf E tx, opIndex = i\<rparr> | i out.
     (i, out) \<in> set (indexed (TxOut tx)) \<and> (\<exists>addr\<in>paidAt extract out. ours encode bf addr)}"

definition paid :: "(bytes \<Rightarrow> 'a list option) \<Rightarrow> msgTx \<Rightarrow> 'a set" where
  "paid extract tx = (\<Union>out\<in>set (TxOut tx). paidAt extract out)"

definition isFound :: "(keyScope \<rightharpoonup> u32 set) \<Rightarrow> scopedIndex \<Rightarrow> bool" where
  "isFound found si \<longleftrightarrow> (\<exists>s. found (siScope si) = Some s \<and> siIndex si \<in> s)"

lemma isFound_mark: "isFound (markFound si found) sj \<longleftrightarrow> sj = si \<or> isFound found sj"
  by (cases si; cases sj) (auto simp: isFound_def markFound_def split: option.splits)

text \<open>Filterers with the same question.\<close>

definition sameFilter :: "'a blockFilterer \<Rightarrow> 'a blockFilterer \<Rightarrow> bool" where
  "sameFilter bf bf' \<longleftrightarrow> ExReverseFilter bf' = ExReverseFilter bf \<and> InReverseFilter bf' = InReverseFilter bf
     \<and> WatchedOutPoints bf' = WatchedOutPoints bf"

lemma sameFilter_refl [simp]: "sameFilter bf bf" by (simp add: sameFilter_def)

lemma sameFilter_trans: "sameFilter a b \<Longrightarrow> sameFilter b c \<Longrightarrow> sameFilter a c" by (simp add: sameFilter_def)

lemma sameFilter_cong:
  assumes "sameFilter bf bf'"
  shows "ours encode bf' = ours encode bf" "payouts E extract encode bf' = payouts E extract encode bf"
  using assms by (auto simp: sameFilter_def ours_def[abs_def] payouts_def[abs_def])

text \<open>What is found after the addresses of \<open>as\<close> were seen.\<close>

definition seen :: "('a \<Rightarrow> gostring) \<Rightarrow> 'a blockFilterer \<Rightarrow> 'a set \<Rightarrow> 'a blockFilterer \<Rightarrow> bool" where
  "seen encode bf as bf' \<longleftrightarrow> sameFilter bf bf'
     \<and> (\<forall>si. isFound (FoundExternal bf') si \<longleftrightarrow> isFound (FoundExternal bf) si
          \<or> (\<exists>addr\<in>as. ExReverseFilter bf (encode addr) = Some si))
     \<and> (\<forall>si. isFound (FoundInternal bf') si \<longleftrightarrow> isFound (FoundInternal bf) si
          \<or> (\<exists>addr\<in>as. InReverseFilter bf (encode addr) = Some si))"

lemma seen_none [simp]: "seen encode bf {} bf" by (simp add: seen_def)

lemma seen_trans: "seen encode a A b \<Longrightarrow> seen encode b B c \<Longrightarrow> seen encode a (A \<union> B) c"
  unfolding seen_def sameFilter_def by (elim conjE) (simp add: bex_Un disj_assoc)

lemma FilterOutputAddrs_spec:
  assumes "FilterOutputAddrs encode as r bf = (r', bf')"
  shows "seen encode bf (set as) bf' \<and> FoundOutPoints bf' = FoundOutPoints bf \<and> RelevantTxns bf' = RelevantTxns bf
    \<and> (r' \<longleftrightarrow> r \<or> (\<exists>addr\<in>set as. ours encode bf addr))"
  using assms
proof (induction as arbitrary: r bf)
  case (Cons a as)
  define b1 where "b1 = (case ExReverseFilter bf (encode a) of None \<Rightarrow> bf | Some si \<Rightarrow> foundExternal si bf)"
  define b2 where "b2 = (case InReverseFilter bf (encode a) of None \<Rightarrow> b1 | Some si \<Rightarrow> foundInternal si b1)"
  have f: "ExReverseFilter b1 = ExReverseFilter bf" "InReverseFilter b1 = InReverseFilter bf"
    by (simp_all add: b1_def foundExternal_def split: option.split)
  have s: "seen encode bf {a} b2" "FoundOutPoints b2 = FoundOutPoints bf" "RelevantTxns b2 = RelevantTxns bf"
    by (auto simp: seen_def sameFilter_def b1_def b2_def foundExternal_def foundInternal_def isFound_mark split: option.split)
  have "FilterOutputAddrs encode as (r \<or> ours encode bf a) b2 = (r', bf')"
    using Cons.prems f by (auto simp: Let_def b1_def b2_def ours_def split: option.splits prod.splits)
  note ih = Cons.IH[OF this]
  have "sameFilter bf b2" using s(1) by (simp add: seen_def)
  then have "ours encode b2 = ours encode bf" by (rule sameFilter_cong(1))
  moreover have "seen encode bf (set (a # as)) bf'" using seen_trans[OF s(1), of "set as" bf'] ih by simp
  ultimately show ?case using ih s(2,3) by simp
qed simp

section \<open>Transactions and blocks\<close>

lemma filterOutput_spec:
  assumes "filterOutput E extract encode tx (i, out) (r, bf) = (r', bf')"
  shows "seen encode bf (paidAt extract out) bf' \<and> RelevantTxns bf' = RelevantTxns bf
    \<and> dom (FoundOutPoints bf') = dom (FoundOutPoints bf)
        \<union> (if \<exists>addr\<in>paidAt extract out. ours encode bf addr then {\<lparr>opHash = txHashOf E tx, opIndex = i\<rparr>} else {})
    \<and> (r' \<longleftrightarrow> r \<or> (\<exists>addr\<in>paidAt extract out. ours encode bf addr))"
proof (cases "extract (PkScript out)")
  case None
  then show ?thesis using assms by (simp add: filterOutput_def paidAt_def)
next
  case (Some addrs)
  obtain f b1 where f: "FilterOutputAddrs encode addrs False bf = (f, b1)" by fastforce
  note sp = FilterOutputAddrs_spec[OF f]
  show ?thesis
  proof (cases f)
    case True
    then have "r'" "bf' = b1\<lparr>FoundOutPoints := (FoundOutPoints b1)(\<lparr>opHash = txHashOf E tx, opIndex = i\<rparr> \<mapsto> hd addrs)\<rparr>"
      using assms Some f by (simp_all add: filterOutput_def)
    then show ?thesis using sp True Some by (auto simp: paidAt_def seen_def sameFilter_def)
  next
    case False
    then have "r' = r" "bf' = b1" using assms Some f by (simp_all add: filterOutput_def)
    then show ?thesis using sp False Some by (simp add: paidAt_def)
  qed
qed

definition paidIn :: "env \<Rightarrow> (bytes \<Rightarrow> 'a list option) \<Rightarrow> ('a \<Rightarrow> gostring) \<Rightarrow> 'a blockFilterer \<Rightarrow> msgTx
    \<Rightarrow> (u32 \<times> txOut) list \<Rightarrow> outPoint set" where
  "paidIn E extract encode bf tx outs = {\<lparr>opHash = txHashOf E tx, opIndex = i\<rparr> | i out.
     (i, out) \<in> set outs \<and> (\<exists>addr\<in>paidAt extract out. ours encode bf addr)}"

lemma filterOutputs_spec:
  assumes "fold (filterOutput E extract encode tx) outs (r, bf) = (r', bf')"
  shows "seen encode bf (\<Union>(_, out)\<in>set outs. paidAt extract out) bf' \<and> RelevantTxns bf' = RelevantTxns bf
    \<and> dom (FoundOutPoints bf') = dom (FoundOutPoints bf) \<union> paidIn E extract encode bf tx outs
    \<and> (r' \<longleftrightarrow> r \<or> paidIn E extract encode bf tx outs \<noteq> {})"
  using assms
proof (induction outs arbitrary: r bf)
  case Nil
  then show ?case by (simp add: paidIn_def)
next
  case (Cons p outs)
  obtain i out where p: "p = (i, out)" by fastforce
  obtain r1 b1 where s1: "filterOutput E extract encode tx (i, out) (r, bf) = (r1, b1)" by fastforce
  note sp = filterOutput_spec[OF s1]
  have same: "sameFilter bf b1" using sp by (simp add: seen_def)
  have "fold (filterOutput E extract encode tx) outs (r1, b1) = (r', bf')" using Cons.prems p s1 by simp
  note ih = Cons.IH[OF this]
  have "paidIn E extract encode b1 tx outs = paidIn E extract encode bf tx outs"
    by (simp add: paidIn_def sameFilter_cong(1)[OF same])
  moreover have "paidIn E extract encode bf tx (p # outs) = paidIn E extract encode bf tx outs
      \<union> (if \<exists>addr\<in>paidAt extract out. ours encode bf addr then {\<lparr>opHash = txHashOf E tx, opIndex = i\<rparr>} else {})"
    by (auto simp: paidIn_def p)
  moreover have "seen encode bf (\<Union>(_, out)\<in>set (p # outs). paidAt extract out) bf'"
    using seen_trans[of encode bf "paidAt extract out" b1 "\<Union>(_, out)\<in>set outs. paidAt extract out" bf'] sp ih by (simp add: p)
  ultimately show ?case using sp ih by (auto split: if_splits)
qed

lemma set_indexed_out: "snd ` set (indexed xs) = set xs"
proof -
  have "map snd (indexed xs) = xs" by (simp add: indexed_def comp_def map_nth)
  then show ?thesis by (metis set_map)
qed

definition relevant :: "env \<Rightarrow> (bytes \<Rightarrow> 'a list option) \<Rightarrow> ('a \<Rightarrow> gostring) \<Rightarrow> 'a blockFilterer \<Rightarrow> outPoint set \<Rightarrow> msgTx \<Rightarrow> bool" where
  "relevant E extract encode bf found tx \<longleftrightarrow>
     (\<exists>inp\<in>set (TxIn tx). PreviousOutPoint inp \<in> dom (WatchedOutPoints bf) \<union> found)
     \<or> payouts E extract encode bf tx \<noteq> {}"

lemma FilterTx_spec:
  assumes "FilterTx E extract encode tx bf = (r, bf')"
  shows "seen encode bf (paid extract tx) bf' \<and> RelevantTxns bf' = RelevantTxns bf
    \<and> dom (FoundOutPoints bf') = dom (FoundOutPoints bf) \<union> payouts E extract encode bf tx
    \<and> (r \<longleftrightarrow> relevant E extract encode bf (dom (FoundOutPoints bf)) tx)"
proof -
  have p: "paid extract tx = (\<Union>(_, out)\<in>set (indexed (TxOut tx)). paidAt extract out)"
    unfolding paid_def set_indexed_out[of "TxOut tx", symmetric] by (auto simp: split_def)
  have q: "payouts E extract encode bf tx = paidIn E extract encode bf tx (indexed (TxOut tx))"
    by (simp add: payouts_def paidIn_def)
  show ?thesis using filterOutputs_spec[OF assms[unfolded FilterTx_def]]
    unfolding p q relevant_def spendsKnown_def by (auto simp: dom_def)
qed

text \<open>The transactions that are relevant, each with the payouts of those before it.\<close>

fun relevantTxs :: "env \<Rightarrow> (bytes \<Rightarrow> 'a list option) \<Rightarrow> ('a \<Rightarrow> gostring) \<Rightarrow> 'a blockFilterer \<Rightarrow> outPoint set \<Rightarrow> msgTx list
    \<Rightarrow> msgTx list" where
  "relevantTxs E extract encode bf found [] = []"
| "relevantTxs E extract encode bf found (tx # txs) =
     (if relevant E extract encode bf found tx then [tx] else [])
       @ relevantTxs E extract encode bf (found \<union> payouts E extract encode bf tx) txs"

lemma relevant_cong: "sameFilter bf bf' \<Longrightarrow> relevant E extract encode bf' = relevant E extract encode bf"
  using sameFilter_cong(2)[of bf bf' E _ encode] by (auto simp: relevant_def[abs_def] sameFilter_def)

lemma relevantTxs_cong:
  "sameFilter bf bf' \<Longrightarrow> relevantTxs E extract encode bf' found txs = relevantTxs E extract encode bf found txs"
  by (induction txs arbitrary: found) (simp_all add: relevant_cong sameFilter_cong(2))

lemma filterTxs_spec:
  assumes "filterTxs E extract encode txs r bf = (r', bf')"
  shows "seen encode bf (\<Union>tx\<in>set txs. paid extract tx) bf'
    \<and> RelevantTxns bf' = RelevantTxns bf @ relevantTxs E extract encode bf (dom (FoundOutPoints bf)) txs
    \<and> dom (FoundOutPoints bf') = dom (FoundOutPoints bf) \<union> (\<Union>tx\<in>set txs. payouts E extract encode bf tx)
    \<and> (r' \<longleftrightarrow> r \<or> relevantTxs E extract encode bf (dom (FoundOutPoints bf)) txs \<noteq> [])"
  using assms
proof (induction txs arbitrary: r bf)
  case (Cons tx txs)
  obtain f b1 where f: "FilterTx E extract encode tx bf = (f, b1)" by fastforce
  note sp = FilterTx_spec[OF f]
  define b2 where "b2 = (if f then b1\<lparr>RelevantTxns := RelevantTxns b1 @ [tx]\<rparr> else b1)"
  have run: "filterTxs E extract encode txs (r \<or> f) b2 = (r', bf')"
    using Cons.prems f by (cases f) (simp_all add: b2_def)
  have b2: "seen encode bf (paid extract tx) b2" "sameFilter bf b2" "FoundOutPoints b2 = FoundOutPoints b1"
    "RelevantTxns b2 = RelevantTxns bf @ (if f then [tx] else [])"
    using sp by (auto simp: b2_def seen_def sameFilter_def)
  note ih = Cons.IH[OF run]
  have "seen encode bf (\<Union>tx\<in>set (tx # txs). paid extract tx) bf'"
    using seen_trans[OF b2(1), of "\<Union>tx\<in>set txs. paid extract tx" bf'] ih by simp
  then show ?case
    using ih sp b2(3,4) by (simp add: relevantTxs_cong[OF b2(2)] sameFilter_cong[OF b2(2)] Un_assoc)
qed simp

text \<open>
  C16: Filtering a block with a new filterer finds exactly what concerns the wallet.  It collects, in their order,
  the transactions that pay to an address of the request or spend an outpoint that is watched or was paid to
  earlier in the same block, and returns whether there is one; the found outpoints are exactly the outputs of
  the block that pay to such an address, and the found external and internal indexes those of the addresses paid.
\<close>
theorem FilterBlock_exact:
  assumes "FilterBlock E extract encode txs (NewBlockFilterer encode req) = (hasRelevant, bf)"
  defines "bf0 \<equiv> NewBlockFilterer encode req"
  shows "(hasRelevant \<longleftrightarrow> RelevantTxns bf \<noteq> []) \<and> RelevantTxns bf = relevantTxs E extract encode bf0 {} txs
    \<and> dom (FoundOutPoints bf) = (\<Union>tx\<in>set txs. payouts E extract encode bf0 tx)
    \<and> (\<forall>si. isFound (FoundExternal bf) si \<longleftrightarrow>
         (\<exists>tx\<in>set txs. \<exists>addr\<in>paid extract tx. reverseFilter encode (ExternalAddrs req) (encode addr) = Some si))
    \<and> (\<forall>si. isFound (FoundInternal bf) si \<longleftrightarrow>
         (\<exists>tx\<in>set txs. \<exists>addr\<in>paid extract tx. reverseFilter encode (InternalAddrs req) (encode addr) = Some si))"
  using filterTxs_spec[OF assms(1)[unfolded FilterBlock_def]]
  by (auto simp: bf0_def NewBlockFilterer_def seen_def isFound_def)

end
