(* ===== verification/Chain_Mempool.thy ===== *)
theory Chain_Mempool
  imports Tx_Types "HOL-Library.Multiset"
begin

text \<open>
  The local copy of the backend's mempool (\<open>chain/mempool.go\<close>): the transactions with their marks and, when the
  backend cannot tell what spends an outpoint, an index of their inputs.  \<open>poolEnv\<close> holds what the mempool asks of
  the batch client: whether a batch is sent, the transaction of an id, the order in which the Go map of receivers is
  visited, and whether a shutdown is noticed before a transaction or during the wait after a batch.
\<close>

section \<open>Inputs by transaction\<close>

record cachedInputs =
  ciInputs :: "outPoint \<rightharpoonup> hash"
  ciTxids :: "hash \<rightharpoonup> outPoint set"

definition newCachedInputs :: cachedInputs where
  "newCachedInputs = \<lparr>ciInputs = Map.empty, ciTxids = Map.empty\<rparr>"

definition hasInput :: "cachedInputs \<Rightarrow> outPoint \<Rightarrow> hash option" where
  "hasInput c op = ciInputs c op"

text \<open>The input is filed under its transaction, and taken away from another one that had it.\<close>

definition addInput :: "outPoint \<Rightarrow> hash \<Rightarrow> cachedInputs \<Rightarrow> cachedInputs" where
  "addInput op txid c =
     (let txids = (case ciTxids c txid of None \<Rightarrow> (ciTxids c)(txid \<mapsto> {}) | Some _ \<Rightarrow> ciTxids c);
        txids = txids(txid \<mapsto> insert op (case txids txid of None \<Rightarrow> {} | Some s \<Rightarrow> s));
        txids = (case ciInputs c op of
          None \<Rightarrow> txids
        | Some oldTxid \<Rightarrow> if oldTxid = txid then txids
            else (case txids oldTxid of None \<Rightarrow> txids | Some s \<Rightarrow> txids(oldTxid \<mapsto> s - {op})))
      in \<lparr>ciInputs = (ciInputs c)(op \<mapsto> txid), ciTxids = txids\<rparr>)"

definition addInputs :: "msgTx \<Rightarrow> hash \<Rightarrow> cachedInputs \<Rightarrow> cachedInputs" where
  "addInputs tx txid = fold (\<lambda>inp. addInput (PreviousOutPoint inp) txid) (TxIn tx)"

definition removeInputsFromTx :: "hash \<Rightarrow> cachedInputs \<Rightarrow> cachedInputs" where
  "removeInputsFromTx txid c =
     \<lparr>ciInputs = ciInputs c |` (- (case ciTxids c txid of None \<Rightarrow> {} | Some s \<Rightarrow> s)),
      ciTxids = (ciTxids c)(txid := None)\<rparr>"

section \<open>The mempool\<close>

record mempool =
  mpTxs :: "hash \<rightharpoonup> bool"
  mpInputs :: "cachedInputs option"

definition newMempool :: "bool \<Rightarrow> mempool" where
  "newMempool hasPrevoutRPC =
     \<lparr>mpTxs = Map.empty, mpInputs = (if hasPrevoutRPC then None else Some newCachedInputs)\<rparr>"

definition containsTx :: "mempool \<Rightarrow> hash \<Rightarrow> bool" where
  "containsTx m h \<longleftrightarrow> mpTxs m h \<noteq> None"

definition containsInput :: "mempool \<Rightarrow> outPoint \<Rightarrow> hash option" where
  "containsInput m op = (case mpInputs m of None \<Rightarrow> None | Some c \<Rightarrow> hasInput c op)"

definition removeInputs :: "hash \<Rightarrow> mempool \<Rightarrow> mempool" where
  "removeInputs tx m = m\<lparr>mpInputs := map_option (removeInputsFromTx tx) (mpInputs m)\<rparr>"

definition updateInputs :: "env \<Rightarrow> msgTx \<Rightarrow> mempool \<Rightarrow> mempool" where
  "updateInputs E tx m = m\<lparr>mpInputs :=
     map_option (addInputs tx (txHashOf E tx)) (mpInputs m)\<rparr>"

definition addTx :: "env \<Rightarrow> msgTx \<Rightarrow> mempool \<Rightarrow> mempool" where
  "addTx E tx m = (if isCoinBaseTx E tx then m
     else updateInputs E tx (m\<lparr>mpTxs := (mpTxs m)(txHashOf E tx \<mapsto> True)\<rparr>))"

definition Clean :: "env \<Rightarrow> msgTx list \<Rightarrow> mempool \<Rightarrow> mempool" where
  "Clean E txs = fold (\<lambda>tx m. removeInputs (txHashOf E tx) (m\<lparr>mpTxs := (mpTxs m)(txHashOf E tx := None)\<rparr>)) txs"

definition unmarkAll :: "mempool \<Rightarrow> mempool" where
  "unmarkAll m = m\<lparr>mpTxs := (\<lambda>h. map_option (\<lambda>_. False) (mpTxs m h))\<rparr>"

definition mark :: "hash \<Rightarrow> mempool \<Rightarrow> mempool" where
  "mark h m = (if mpTxs m h = None then m else m\<lparr>mpTxs := (mpTxs m)(h \<mapsto> True)\<rparr>)"

text \<open>\<open>hashes\<close> is the order in which the map is visited; what is not in the map is not visited.\<close>

definition deleteUnmarked :: "hash list \<Rightarrow> mempool \<Rightarrow> mempool" where
  "deleteUnmarked hashes = fold (\<lambda>h m. if mpTxs m h = Some False
     then removeInputs h (m\<lparr>mpTxs := (mpTxs m)(h := None)\<rparr>) else m) hashes"

section \<open>Updating from the backend\<close>

record poolEnv =
  poolBatchSize :: u32
  poolSends :: "hash list \<Rightarrow> bool"
  poolRawTx :: "hash \<Rightarrow> msgTx option"
  poolOrder :: "hash list \<Rightarrow> hash list"
  poolQuit :: "hash \<Rightarrow> bool"
  poolQuitWait :: "hash \<Rightarrow> bool"

text \<open>Adds what the receivers of a batch return, and collects it when asked.\<close>

fun receiveTxs :: "env \<Rightarrow> poolEnv \<Rightarrow> bool \<Rightarrow> hash list \<Rightarrow> mempool \<times> msgTx list \<Rightarrow> mempool \<times> msgTx list" where
  "receiveTxs E P returnNew [] s = s"
| "receiveTxs E P returnNew (txid # results) (m, newTxes) = (case poolRawTx P txid of
     None \<Rightarrow> receiveTxs E P returnNew results (m, newTxes)
   | Some tx \<Rightarrow> receiveTxs E P returnNew results
       (addTx E tx m, if returnNew then newTxes @ [tx] else newTxes))"

definition processBatch :: "env \<Rightarrow> poolEnv \<Rightarrow> bool \<Rightarrow> hash list \<Rightarrow> mempool \<times> msgTx list \<Rightarrow> (mempool \<times> msgTx list) option" where
  "processBatch E P returnNew results s =
     (if poolSends P results then Some (receiveTxs E P returnNew (poolOrder P results) s) else None)"

text \<open>
  The loop over the ids: \<open>resp\<close> are the keys of the map of receivers.  The result is the mempool, with the new
  transactions or \<open>None\<close> after an error or a shutdown.
\<close>

fun batchLoop :: "env \<Rightarrow> poolEnv \<Rightarrow> bool \<Rightarrow> hash list \<Rightarrow> hash list \<Rightarrow> mempool \<times> msgTx list
    \<Rightarrow> mempool \<times> msgTx list option" where
  "batchLoop E P returnNew [] resp (m, newTxes) =
     (if resp = [] then (m, Some newTxes)
      else (case processBatch E P returnNew resp (m, newTxes) of
          None \<Rightarrow> (m, None)
        | Some (m, newTxes) \<Rightarrow> (m, Some newTxes)))"
| "batchLoop E P returnNew (txHash # txids) resp (m, newTxes) =
     (if poolQuit P txHash then (m, None)
      else let resp = (if txHash \<in> set resp then resp else resp @ [txHash]) in
        if word_of_nat (length resp) mod poolBatchSize P = 0 then
          (case processBatch E P returnNew resp (m, newTxes) of
             None \<Rightarrow> (m, None)
           | Some (m, newTxes) \<Rightarrow> if poolQuitWait P txHash then (m, None)
               else batchLoop E P returnNew txids [] (m, newTxes))
        else batchLoop E P returnNew txids resp (m, newTxes))"

text \<open>A batch size of zero divides by zero; the panic is \<open>None\<close>.\<close>

definition batchGetRawTxes :: "env \<Rightarrow> poolEnv \<Rightarrow> bool \<Rightarrow> hash list \<Rightarrow> mempool \<Rightarrow> (mempool \<times> msgTx list option) option" where
  "batchGetRawTxes E P returnNew txids m =
     (if poolBatchSize P = 0 then None else Some (batchLoop E P returnNew txids [] (m, [])))"

text \<open>
  Marks the known transactions and lists the others; \<open>None\<close> when a shutdown is noticed.
\<close>

fun scanTxids :: "poolEnv \<Rightarrow> hash list \<Rightarrow> mempool \<Rightarrow> hash list \<Rightarrow> mempool \<times> hash list option" where
  "scanTxids P [] m newTxids = (m, Some newTxids)"
| "scanTxids P (txHash # txids) m newTxids =
     (if poolQuit P txHash then (m, None)
      else if containsTx m txHash then scanTxids P txids (mark txHash m) newTxids
      else scanTxids P txids m (newTxids @ [txHash]))"

definition UpdateMempoolTxes :: "env \<Rightarrow> poolEnv \<Rightarrow> hash list option \<Rightarrow> hash list \<Rightarrow> mempool
    \<Rightarrow> (mempool \<times> msgTx list option) option" where
  "UpdateMempoolTxes E P raw visited m = (case raw of
     None \<Rightarrow> Some (m, None)
   | Some txids \<Rightarrow>
       (case scanTxids P txids (unmarkAll m) [] of
          (m, None) \<Rightarrow> Some (m, None)
        | (m, Some newTxids) \<Rightarrow> batchGetRawTxes E P True newTxids (deleteUnmarked visited m)))"

definition LoadMempool :: "env \<Rightarrow> poolEnv \<Rightarrow> hash list option \<Rightarrow> mempool \<Rightarrow> (mempool \<times> msgTx list option) option" where
  "LoadMempool E P raw m = (case raw of
     None \<Rightarrow> Some (m, None)
   | Some txids \<Rightarrow> batchGetRawTxes E P False txids m)"

section \<open>The index is exact\<close>

definition under :: "cachedInputs \<Rightarrow> hash \<Rightarrow> outPoint set" where
  "under c txid = (case ciTxids c txid of None \<Rightarrow> {} | Some s \<Rightarrow> s)"

definition inputs_ok :: "cachedInputs \<Rightarrow> bool" where
  "inputs_ok c \<longleftrightarrow> (\<forall>op txid. ciInputs c op = Some txid \<longleftrightarrow> op \<in> under c txid)"

lemma inputs_okD: "inputs_ok c \<Longrightarrow> ciInputs c op = Some txid \<longleftrightarrow> op \<in> under c txid"
  by (simp add: inputs_ok_def)

lemma inputs_ok_new [simp]: "inputs_ok newCachedInputs"
  by (simp add: inputs_ok_def newCachedInputs_def under_def)

lemma addInput_inputs [simp]: "ciInputs (addInput op txid c) = (ciInputs c)(op \<mapsto> txid)"
  by (simp add: addInput_def Let_def)

lemma under_addInput: "under (addInput op txid c) h =
    (if h = txid then insert op (under c h) else if ciInputs c op = Some h then under c h - {op} else under c h)"
  by (auto simp: under_def addInput_def Let_def split: option.splits)

lemma addInput_ok: "inputs_ok c \<Longrightarrow> inputs_ok (addInput op txid c)"
  by (auto simp: inputs_ok_def under_addInput)

lemma removed_simps:
  "under (removeInputsFromTx txid c) h = (if h = txid then {} else under c h)"
  "ciInputs (removeInputsFromTx txid c) op = (if op \<in> under c txid then None else ciInputs c op)"
  by (simp_all add: under_def removeInputsFromTx_def restrict_map_def)

lemma removeInputs_ok: "inputs_ok c \<Longrightarrow> inputs_ok (removeInputsFromTx txid c)"
  unfolding inputs_ok_def removed_simps by (metis empty_iff option.distinct(1) option.inject)

abbreviation prevouts :: "msgTx \<Rightarrow> outPoint set" where
  "prevouts tx \<equiv> PreviousOutPoint ` set (TxIn tx)"

lemma addInputs_spec:
  assumes "inputs_ok c"
  shows "inputs_ok (addInputs tx txid c)"
    "ciInputs (addInputs tx txid c) op = (if op \<in> prevouts tx then Some txid else ciInputs c op)"
    "h \<noteq> txid \<Longrightarrow> under (addInputs tx txid c) h \<subseteq> under c h"
    "under (addInputs tx txid c) txid = under c txid \<union> prevouts tx"
proof -
  have "inputs_ok (fold (\<lambda>inp. addInput (PreviousOutPoint inp) txid) inps c)
    \<and> ciInputs (fold (\<lambda>inp. addInput (PreviousOutPoint inp) txid) inps c) op
        = (if op \<in> PreviousOutPoint ` set inps then Some txid else ciInputs c op)
    \<and> (h \<noteq> txid \<longrightarrow> under (fold (\<lambda>inp. addInput (PreviousOutPoint inp) txid) inps c) h \<subseteq> under c h)
    \<and> under (fold (\<lambda>inp. addInput (PreviousOutPoint inp) txid) inps c) txid = under c txid \<union> PreviousOutPoint ` set inps"
    if "inputs_ok c" for inps c
    using that
  proof (induction inps arbitrary: c)
    case (Cons inp inps)
    show ?case using Cons.IH[OF addInput_ok[OF Cons.prems, of "PreviousOutPoint inp" txid]]
      by (auto simp: under_addInput split: if_splits)
  qed simp
  from this[OF assms, of "TxIn tx"] show "inputs_ok (addInputs tx txid c)"
    "ciInputs (addInputs tx txid c) op = (if op \<in> prevouts tx then Some txid else ciInputs c op)"
    "h \<noteq> txid \<Longrightarrow> under (addInputs tx txid c) h \<subseteq> under c h"
    "under (addInputs tx txid c) txid = under c txid \<union> prevouts tx"
    by (simp_all add: addInputs_def)
qed

section \<open>The mempool and its index\<close>

text \<open>
  Every transaction with inputs in the index is in the mempool, and \<open>txOf\<close> (the transactions by their hashes)
  spends them.
\<close>

definition pool_ok :: "(hash \<Rightarrow> msgTx) \<Rightarrow> mempool \<Rightarrow> bool" where
  "pool_ok txOf m \<longleftrightarrow> (\<forall>c. mpInputs m = Some c \<longrightarrow> inputs_ok c
     \<and> (\<forall>h. under c h \<subseteq> prevouts (txOf h) \<and> (under c h \<noteq> {} \<longrightarrow> mpTxs m h \<noteq> None)))"

lemma pool_okD:
  assumes "pool_ok txOf m" "mpInputs m = Some c"
  shows "inputs_ok c" "under c h \<subseteq> prevouts (txOf h)" "under c h \<noteq> {} \<Longrightarrow> mpTxs m h \<noteq> None"
  using assms by (auto simp: pool_ok_def)

lemma pool_ok_new: "pool_ok txOf (newMempool b)"
  by (simp add: pool_ok_def newMempool_def) (simp add: under_def newCachedInputs_def)

lemma pool_ok_marks:
  "pool_ok txOf m \<Longrightarrow> (\<And>h. mpTxs m h \<noteq> None \<Longrightarrow> mpTxs m' h \<noteq> None) \<Longrightarrow> mpInputs m' = mpInputs m \<Longrightarrow> pool_ok txOf m'"
  unfolding pool_ok_def by metis

lemma pool_ok_unmark: "pool_ok txOf m \<Longrightarrow> pool_ok txOf (unmarkAll m)"
  by (erule pool_ok_marks) (simp_all add: unmarkAll_def)

lemma pool_ok_mark: "pool_ok txOf m \<Longrightarrow> pool_ok txOf (mark h m)"
  by (erule pool_ok_marks) (auto simp: mark_def)

lemma pool_ok_remove:
  assumes "pool_ok txOf m"
  shows "pool_ok txOf (removeInputs h (m\<lparr>mpTxs := (mpTxs m)(h := None)\<rparr>))"
proof -
  have "inputs_ok (removeInputsFromTx h c) \<and> under (removeInputsFromTx h c) h' \<subseteq> prevouts (txOf h')
      \<and> (under (removeInputsFromTx h c) h' \<noteq> {} \<longrightarrow> h' \<noteq> h \<and> mpTxs m h' \<noteq> None)" if "mpInputs m = Some c" for c h'
    using pool_okD(1)[OF assms that] pool_okD(2,3)[OF assms that, of h'] by (simp add: removed_simps removeInputs_ok)
  then show ?thesis unfolding pool_ok_def by (auto simp: removeInputs_def)
qed

lemma pool_ok_Clean: "pool_ok txOf m \<Longrightarrow> pool_ok txOf (Clean E txs m)"
  unfolding Clean_def by (induction txs arbitrary: m) (simp_all add: pool_ok_remove)

lemma pool_ok_deleteUnmarked: "pool_ok txOf m \<Longrightarrow> pool_ok txOf (deleteUnmarked hs m)"
  unfolding deleteUnmarked_def by (induction hs arbitrary: m) (simp_all add: pool_ok_remove)

lemma pool_ok_add:
  assumes "pool_ok txOf m" "txOf (txHashOf E tx) = tx"
  shows "pool_ok txOf (addTx E tx m)"
proof (cases "isCoinBaseTx E tx \<or> mpInputs m = None")
  case True
  then show ?thesis using assms(1) by (auto simp: addTx_def updateInputs_def pool_ok_def)
next
  case False
  then obtain c where c: "mpInputs m = Some c" by blast
  let ?h = "txHashOf E tx"
  let ?c = "addInputs tx ?h c"
  note ok = pool_okD[OF assms(1) c]
  note sp = addInputs_spec[OF ok(1), where tx = tx and txid = ?h]
  have "under ?c h \<subseteq> prevouts (txOf h) \<and> (under ?c h \<noteq> {} \<longrightarrow> ((mpTxs m)(?h \<mapsto> True)) h \<noteq> None)" for h
  proof (cases "h = ?h")
    case True
    then show ?thesis using sp(4) ok(2)[of ?h] assms(2) by auto
  next
    case False
    then show ?thesis using sp(3)[OF False] ok(2)[of h] ok(3)[of h] by auto
  qed
  then show ?thesis using False c sp(1) by (simp add: pool_ok_def addTx_def updateInputs_def)
qed

section \<open>Batches\<close>

lemma receiveTxs_append: "receiveTxs E P b (xs @ ys) s = receiveTxs E P b ys (receiveTxs E P b xs s)"
  by (induction E P b xs s rule: receiveTxs.induct) (simp_all split: option.split)

lemma receiveTxs_invariant:
  assumes "Q m" "\<And>txid tx m. Q m \<Longrightarrow> poolRawTx P txid = Some tx \<Longrightarrow> Q (addTx E tx m)"
  shows "Q (fst (receiveTxs E P b results (m, newTxes)))"
  using assms(1) by (induction results arbitrary: m newTxes) (auto simp: assms(2) split: option.split)

lemma batchLoop_invariant:
  assumes "Q m" "\<And>txid tx m. Q m \<Longrightarrow> poolRawTx P txid = Some tx \<Longrightarrow> Q (addTx E tx m)"
  shows "Q (fst (batchLoop E P b txids resp (m, newTxes)))"
  using assms(1)
proof (induction txids arbitrary: resp m newTxes)
  case Nil
  have "Q (fst (receiveTxs E P b rs (m, newTxes)))" for rs
    by (rule receiveTxs_invariant[OF Nil assms(2)])
  then show ?case using Nil by (auto simp: processBatch_def split: prod.splits) (metis fst_conv)
next
  case (Cons txHash txids)
  have "Q (fst (receiveTxs E P b rs (m, newTxes)))" for rs
    by (rule receiveTxs_invariant[OF Cons.prems assms(2)])
  then show ?case using Cons.prems
    by (auto simp: Let_def processBatch_def intro!: Cons.IH split: prod.splits) (metis fst_conv)+
qed

text \<open>The answers of the backend belong to the ids that were asked, and are not coinbase transactions.\<close>

definition answers :: "env \<Rightarrow> poolEnv \<Rightarrow> bool" where
  "answers E P \<longleftrightarrow> (\<forall>h tx. poolRawTx P h = Some tx \<longrightarrow> txHashOf E tx = h \<and> \<not> isCoinBaseTx E tx)
     \<and> (\<forall>hs. mset (poolOrder P hs) = mset hs)"

lemma addTx_dom: "\<not> isCoinBaseTx E tx \<Longrightarrow> dom (mpTxs (addTx E tx m)) = insert (txHashOf E tx) (dom (mpTxs m))"
  by (simp add: addTx_def updateInputs_def)

lemma receiveTxs_spec:
  assumes "answers E P"
  shows "snd (receiveTxs E P True results (m, newTxes)) = newTxes @ List.map_filter (poolRawTx P) results
    \<and> dom (mpTxs (fst (receiveTxs E P True results (m, newTxes)))) = dom (mpTxs m) \<union> {h \<in> set results. poolRawTx P h \<noteq> None}"
proof (induction results arbitrary: m newTxes)
  case (Cons h results)
  show ?case
  proof (cases "poolRawTx P h")
    case None
    then show ?thesis using Cons.IH by (auto simp: List.map_filter_simps)
  next
    case (Some tx)
    then have "txHashOf E tx = h" "\<not> isCoinBaseTx E tx" using assms by (simp_all add: answers_def)
    then show ?thesis
      using Some Cons.IH[of "addTx E tx m" "newTxes @ [tx]"] by (auto simp: List.map_filter_simps addTx_dom)
  qed
qed (simp add: List.map_filter_simps)

lemma mset_map_filter: "mset xs = mset ys \<Longrightarrow> mset (List.map_filter f xs) = mset (List.map_filter f ys)"
  by (simp add: List.map_filter_def)

lemma batchLoop_spec:
  assumes "answers E P" "distinct (resp @ txids)"
    and "batchLoop E P True txids resp (m, newTxes) = (m', Some newTxes')"
  shows "mset newTxes' = mset (newTxes @ List.map_filter (poolRawTx P) (resp @ txids))
    \<and> dom (mpTxs m') = dom (mpTxs m) \<union> {h \<in> set (resp @ txids). poolRawTx P h \<noteq> None}"
  using assms(2,3)
proof (induction txids arbitrary: resp m newTxes)
  case Nil
  have o: "mset (poolOrder P resp) = mset resp" using assms(1) by (simp add: answers_def)
  then have "set (poolOrder P resp) = set resp" by (rule mset_eq_setD)
  then show ?case
    using Nil receiveTxs_spec[OF assms(1), of "poolOrder P resp" m newTxes] mset_map_filter[OF o, of "poolRawTx P"]
    by (auto simp: processBatch_def List.map_filter_simps split: if_splits prod.splits)
next
  case (Cons txHash txids)
  let ?resp = "resp @ [txHash]"
  have q: "\<not> poolQuit P txHash" "txHash \<notin> set resp" using Cons.prems by (auto split: if_splits)
  show ?case
  proof (cases "word_of_nat (length ?resp) mod poolBatchSize P = 0")
    case False
    then have "batchLoop E P True txids ?resp (m, newTxes) = (m', Some newTxes')"
      using Cons.prems(2) q by (simp add: Let_def)
    then show ?thesis using Cons.IH[of ?resp m newTxes] Cons.prems(1) by simp
  next
    case True
    obtain m1 n1 where r: "receiveTxs E P True (poolOrder P ?resp) (m, newTxes) = (m1, n1)" by fastforce
    have b: "batchLoop E P True txids [] (m1, n1) = (m', Some newTxes')"
      using Cons.prems(2) q True r by (auto simp: Let_def processBatch_def split: if_splits)
    have o: "mset (poolOrder P ?resp) = mset ?resp" using assms(1) by (simp add: answers_def)
    then have s: "set (poolOrder P ?resp) = set ?resp" by (rule mset_eq_setD)
    have "n1 = newTxes @ List.map_filter (poolRawTx P) (poolOrder P ?resp)"
      "dom (mpTxs m1) = dom (mpTxs m) \<union> {h \<in> set ?resp. poolRawTx P h \<noteq> None}"
      using receiveTxs_spec[OF assms(1), of "poolOrder P ?resp" m newTxes] unfolding r s by simp_all
    moreover have "mset (List.map_filter (poolRawTx P) (resp @ txHash # txids))
        = mset (List.map_filter (poolRawTx P) ?resp) + mset (List.map_filter (poolRawTx P) txids)"
      by (simp add: List.map_filter_def)
    ultimately show ?thesis using Cons.IH[OF _ b] Cons.prems(1) mset_map_filter[OF o, of "poolRawTx P"] by auto
  qed
qed

section \<open>Runs of the mempool\<close>

text \<open>\<open>txOf\<close> are the transactions that occur, by their hashes.\<close>

definition occurring :: "env \<Rightarrow> (hash \<Rightarrow> msgTx) \<Rightarrow> poolEnv \<Rightarrow> bool" where
  "occurring E txOf P \<longleftrightarrow> (\<forall>h tx. poolRawTx P h = Some tx \<longrightarrow> txOf (txHashOf E tx) = tx)"

inductive pool_run :: "env \<Rightarrow> (hash \<Rightarrow> msgTx) \<Rightarrow> bool \<Rightarrow> mempool \<Rightarrow> bool" for E txOf hasPrevoutRPC where
  new: "pool_run E txOf hasPrevoutRPC (newMempool hasPrevoutRPC)"
| added: "pool_run E txOf hasPrevoutRPC m \<Longrightarrow> txOf (txHashOf E tx) = tx \<Longrightarrow> pool_run E txOf hasPrevoutRPC (addTx E tx m)"
| cleaned: "pool_run E txOf hasPrevoutRPC m \<Longrightarrow> pool_run E txOf hasPrevoutRPC (Clean E txs m)"
| marked: "pool_run E txOf hasPrevoutRPC m \<Longrightarrow> pool_run E txOf hasPrevoutRPC (mark h m)"
| unmarked: "pool_run E txOf hasPrevoutRPC m \<Longrightarrow> pool_run E txOf hasPrevoutRPC (unmarkAll m)"
| deleted: "pool_run E txOf hasPrevoutRPC m \<Longrightarrow> pool_run E txOf hasPrevoutRPC (deleteUnmarked hs m)"
| loaded: "pool_run E txOf hasPrevoutRPC m \<Longrightarrow> occurring E txOf P \<Longrightarrow> LoadMempool E P raw m = Some (m', r)
    \<Longrightarrow> pool_run E txOf hasPrevoutRPC m'"
| updated: "pool_run E txOf hasPrevoutRPC m \<Longrightarrow> occurring E txOf P
    \<Longrightarrow> UpdateMempoolTxes E P raw visited m = Some (m', r) \<Longrightarrow> pool_run E txOf hasPrevoutRPC m'"

lemma batch_ok:
  assumes "occurring E txOf P" "pool_ok txOf m"
  shows "pool_ok txOf (fst (batchLoop E P b txids resp (m, newTxes)))"
  using assms(2) by (rule batchLoop_invariant) (use assms(1) in \<open>simp add: occurring_def pool_ok_add\<close>)

lemma scan_ok: "pool_ok txOf m \<Longrightarrow> pool_ok txOf (fst (scanTxids P txids m acc))"
  by (induction P txids m acc rule: scanTxids.induct) (simp_all add: pool_ok_mark)

lemma Load_ok:
  assumes "occurring E txOf P" "pool_ok txOf m" "LoadMempool E P raw m = Some (m', r)"
  shows "pool_ok txOf m'"
proof (cases raw)
  case None
  then show ?thesis using assms by (simp add: LoadMempool_def)
next
  case (Some txids)
  then have "m' = fst (batchLoop E P False txids [] (m, []))"
    using assms(3) by (auto simp: LoadMempool_def batchGetRawTxes_def split: if_splits)
  then show ?thesis using batch_ok[OF assms(1,2)] by simp
qed

lemma Update_ok:
  assumes "occurring E txOf P" "pool_ok txOf m" and run: "UpdateMempoolTxes E P raw visited m = Some (m', r)"
  shows "pool_ok txOf m'"
proof (cases raw)
  case None
  then show ?thesis using assms(2) run by (simp add: UpdateMempoolTxes_def)
next
  case (Some txids)
  obtain m1 new where sc: "scanTxids P txids (unmarkAll m) [] = (m1, new)" by fastforce
  then have q1: "pool_ok txOf m1"
    using scan_ok[OF pool_ok_unmark[OF assms(2)], of P txids "[]"] by simp
  show ?thesis
  proof (cases new)
    case None
    then show ?thesis using q1 run Some sc by (simp add: UpdateMempoolTxes_def)
  next
    case (Some newTxids)
    then have "m' = fst (batchLoop E P True newTxids [] (deleteUnmarked visited m1, []))"
      using run \<open>raw = Some txids\<close> sc by (auto simp: UpdateMempoolTxes_def batchGetRawTxes_def split: if_splits)
    then show ?thesis using batch_ok[OF assms(1) pool_ok_deleteUnmarked[OF q1]] by simp
  qed
qed

lemma pool_run_ok: "pool_run E txOf b m \<Longrightarrow> pool_ok txOf m"
proof (induction rule: pool_run.induct)
  case (loaded m P raw m' r)
  then show ?case using Load_ok by blast
next
  case (updated m P raw visited m' r)
  then show ?case using Update_ok by blast
qed (simp_all add: pool_ok_new pool_ok_add pool_ok_Clean pool_ok_mark pool_ok_unmark pool_ok_deleteUnmarked)

text \<open>
  C15: In every state the mempool reaches, a transaction that it names for an outpoint is in the mempool and spends
  the outpoint; and a transaction that is added becomes the one named for each of its inputs.
\<close>
theorem mempool_index_sound:
  assumes "pool_run E txOf hasPrevoutRPC m"
  shows "(containsInput m op = Some h \<longrightarrow> containsTx m h \<and> op \<in> prevouts (txOf h))
    \<and> (\<not> isCoinBaseTx E tx \<and> mpInputs m \<noteq> None \<and> op \<in> prevouts tx
      \<longrightarrow> containsInput (addTx E tx m) op = Some (txHashOf E tx))"
proof (rule conjI)
  have ok: "pool_ok txOf m" using assms by (rule pool_run_ok)
  show "containsInput m op = Some h \<longrightarrow> containsTx m h \<and> op \<in> prevouts (txOf h)"
  proof
    assume "containsInput m op = Some h"
    then obtain c where c: "mpInputs m = Some c" "ciInputs c op = Some h"
      by (auto simp: containsInput_def hasInput_def split: option.splits)
    then have "op \<in> under c h" using inputs_okD pool_okD(1)[OF ok c(1)] by blast
    then show "containsTx m h \<and> op \<in> prevouts (txOf h)"
      using pool_okD(2,3)[OF ok c(1), of h] by (auto simp: containsTx_def)
  qed
  show "\<not> isCoinBaseTx E tx \<and> mpInputs m \<noteq> None \<and> op \<in> prevouts tx
      \<longrightarrow> containsInput (addTx E tx m) op = Some (txHashOf E tx)"
  proof (intro impI, elim conjE exE)
    assume a: "\<not> isCoinBaseTx E tx" "mpInputs m \<noteq> None" "op \<in> prevouts tx"
    then obtain c where c: "mpInputs m = Some c" by blast
    show "containsInput (addTx E tx m) op = Some (txHashOf E tx)"
      using a c addInputs_spec(2)[OF pool_okD(1)[OF ok c], of tx "txHashOf E tx" op]
      by (simp add: containsInput_def hasInput_def addTx_def updateInputs_def)
  qed
qed

section \<open>An update announces what is new\<close>

lemma scanTxids_spec:
  assumes "scanTxids P txids m acc = (m', Some new)"
  shows "new = acc @ filter (\<lambda>h. \<not> containsTx m h) txids
    \<and> mpTxs m' = (\<lambda>h. if h \<in> set txids \<and> mpTxs m h \<noteq> None then Some True else mpTxs m h)"
  using assms
proof (induction P txids m acc rule: scanTxids.induct)
  case (2 P h txids m acc)
  have q: "\<not> poolQuit P h" using "2.prems" by (auto split: if_splits)
  show ?case
  proof (cases "containsTx m h")
    case True
    then have "scanTxids P txids (mark h m) acc = (m', Some new)" using "2.prems" q by simp
    moreover have "containsTx (mark h m) = containsTx m" by (auto simp: containsTx_def mark_def fun_eq_iff)
    ultimately show ?thesis using "2.IH"(1)[OF q True] True by (auto simp: mark_def containsTx_def)
  next
    case False
    then have "scanTxids P txids m (acc @ [h]) = (m', Some new)" using "2.prems" q by simp
    then show ?thesis using "2.IH"(2)[OF q False] False by (auto simp: containsTx_def)
  qed
qed simp

lemma deleteUnmarked_txs:
  "mpTxs (deleteUnmarked hs m) = (\<lambda>h. if h \<in> set hs \<and> mpTxs m h = Some False then None else mpTxs m h)"
proof (induction hs arbitrary: m)
  case (Cons h hs)
  have "mpTxs (deleteUnmarked (h # hs) m) = (if mpTxs m h = Some False
      then mpTxs (deleteUnmarked hs (removeInputs h (m\<lparr>mpTxs := (mpTxs m)(h := None)\<rparr>))) else mpTxs (deleteUnmarked hs m))"
    by (simp add: deleteUnmarked_def)
  then show ?case unfolding Cons.IH by (auto simp: removeInputs_def fun_eq_iff)
qed (simp add: deleteUnmarked_def)

text \<open>
  C14: An update that meets no error and no shutdown announces, each once, exactly the transactions of the
  backend's mempool that are not known yet and that the backend returns.  Afterwards the local mempool holds those
  and the known ones that the backend still has, and nothing else.
\<close>
theorem UpdateMempoolTxes_exact:
  assumes "answers E P" "distinct txids" "dom (mpTxs m) \<subseteq> set visited"
    and run: "UpdateMempoolTxes E P (Some txids) visited m = Some (m', Some newTxes)"
  shows "mset newTxes = mset (List.map_filter (poolRawTx P) (filter (\<lambda>h. \<not> containsTx m h) txids))
    \<and> dom (mpTxs m') = {h \<in> set txids. containsTx m h \<or> poolRawTx P h \<noteq> None}"
proof -
  let ?new = "filter (\<lambda>h. \<not> containsTx m h) txids"
  obtain m1 new where "scanTxids P txids (unmarkAll m) [] = (m1, Some new)"
    using run by (auto simp: UpdateMempoolTxes_def split: prod.splits option.splits)
  moreover have "containsTx (unmarkAll m) = containsTx m" by (auto simp: containsTx_def unmarkAll_def)
  ultimately have sc: "scanTxids P txids (unmarkAll m) [] = (m1, Some ?new)"
    "mpTxs m1 = (\<lambda>h. if h \<in> set txids \<and> mpTxs (unmarkAll m) h \<noteq> None then Some True else mpTxs (unmarkAll m) h)"
    using scanTxids_spec[of P txids "unmarkAll m" "[]" m1 new] by simp_all
  have b: "batchLoop E P True ?new [] (deleteUnmarked visited m1, []) = (m', Some newTxes)"
    using run sc(1) by (simp add: UpdateMempoolTxes_def batchGetRawTxes_def split: if_splits)
  have "dom (mpTxs (deleteUnmarked visited m1)) = {h \<in> set txids. containsTx m h}"
    using assms(3) unfolding deleteUnmarked_txs sc(2)
    by (auto simp: unmarkAll_def containsTx_def dom_def split: if_splits)
  then show ?thesis
    using batchLoop_spec[OF assms(1) _ b] assms(2) by auto
qed

end
