(* ===== verification/Witness_Chain_Clients.thy ===== *)
theory Witness_Chain_Clients
  imports Witness_Store Chain_Queue Chain_Filter Chain_Mempool
begin

text \<open>
  The queue, the block filterer and the local mempool at concrete inputs.
\<close>

section \<open>The queue\<close>

text \<open>With a buffer of one item, the second one goes to the overflow list.\<close>

lemma queue2: "\<exists>q. queue_run 1 [5, 6 :: nat] [] q \<and> cqRunning q \<and> cqChanOut q = [5] \<and> cqOverflow q = [6]"
proof -
  let ?q0 = "NewConcurrentQueue 1 :: nat concurrentQueue"
  let ?q1 = "?q0\<lparr>cqChanOut := cqChanOut ?q0 @ [5]\<rparr>"
  let ?q2 = "?q1\<lparr>cqOverflow := cqOverflow ?q1 @ [6]\<rparr>"
  have "queue_step ?q0 (Sent 5) ?q1" by (rule direct) (simp_all add: NewConcurrentQueue_def)
  then have "queue_run 1 ([] @ [5]) [] ?q1" by (rule sent[OF start])
  moreover have "queue_step ?q1 (Sent 6) ?q2" by (rule direct_full) (simp_all add: NewConcurrentQueue_def)
  ultimately have "queue_run 1 (([] @ [5]) @ [6]) [] ?q2" by (rule sent)
  then show ?thesis by (intro exI[of _ ?q2]) (simp add: NewConcurrentQueue_def)
qed

lemma queue_fifo_witness:
  "\<exists>q. queue_run 1 [5, 6 :: nat] [] q \<and> [5, 6] = cqContent q \<and> length (cqChanOut q) \<le> 1"
proof -
  obtain q where q: "queue_run 1 [5, 6 :: nat] [] q" "cqRunning q" using queue2 by blast
  then show ?thesis using queue_fifo[OF q(1)] by (intro exI[of _ q]) simp
qed

lemma queue_never_blocks_witness:
  "\<exists>q n q'. queue_run 1 [5, 6 :: nat] [] q \<and> delivery q n [5, 6] q' \<and> n \<le> 4 \<and> cqContent q' = []"
proof -
  obtain q where q: "queue_run 1 [5, 6 :: nat] [] q" "cqRunning q" using queue2 by blast
  note n = queue_never_blocks[OF q, of 0]
  have c: "cqContent q = [5, 6]" using n by simp
  obtain m q' where d: "delivery q m [5, 6] q'" "cqContent q' = []" using n unfolding c by blast
  have "m \<le> 4" using conjunct1[OF conjunct2[OF conjunct2[OF n]]] d(1) unfolding c by fastforce
  then show ?thesis using q(1) d by blast
qed

section \<open>The mempool\<close>

text \<open>A transaction is told by its lock time, and spends the outpoint of that index.\<close>

definition poolTx :: "nat \<Rightarrow> msgTx" where
  "poolTx n = \<lparr>Version = 1, TxIn = [\<lparr>PreviousOutPoint = \<lparr>opHash = 9, opIndex = word_of_nat n\<rparr>, SignatureScript = [],
     Witness = [], Sequence = 0\<rparr>], TxOut = [], LockTime = word_of_nat n\<rparr>"

definition envQ :: env where
  "envQ = env1\<lparr>txHashOf := (\<lambda>tx. ucast (LockTime tx)), isCoinBaseTx := (\<lambda>_. False)\<rparr>"

text \<open>Batches of one; the batch of transaction \<open>bad\<close> is not sent.\<close>

definition poolQ :: "hash \<Rightarrow> poolEnv" where
  "poolQ bad = \<lparr>poolBatchSize = 1, poolSends = (\<lambda>hs. bad \<notin> set hs),
     poolRawTx = (\<lambda>h. if h < 100 then Some (poolTx (unat h)) else None), poolOrder = (\<lambda>hs. hs),
     poolQuit = (\<lambda>_. False), poolQuitWait = (\<lambda>_. False)\<rparr>"

lemma answersQ: "answers envQ (poolQ bad)"
proof -
  have "ucast (ucast h :: u32) = h" if "h < 100" for h :: hash
  proof -
    have "unat h < 100" using that by (simp add: word_less_nat_alt)
    then show ?thesis by (simp add: word_unat_eq_iff unsigned_ucast_eq unsigned_take_bit_eq take_bit_nat_eq_self)
  qed
  then show ?thesis by (auto simp: answers_def poolQ_def envQ_def poolTx_def)
qed

lemma mempool_index_sound_witness:
  "containsInput (addTx envQ (poolTx 3) (newMempool False)) \<lparr>opHash = 9, opIndex = 3\<rparr> = Some 3
    \<and> containsTx (addTx envQ (poolTx 3) (newMempool False)) 3"
proof -
  have h: "txHashOf envQ (poolTx 3) = 3" by (simp add: envQ_def poolTx_def)
  have run: "pool_run envQ (\<lambda>_. poolTx 3) False (newMempool False)" by (rule new)
  have "containsInput (addTx envQ (poolTx 3) (newMempool False)) \<lparr>opHash = 9, opIndex = 3\<rparr> = Some 3"
    using mempool_index_sound[OF run, where tx = "poolTx 3" and op = "\<lparr>opHash = 9, opIndex = 3\<rparr>"] h
    by (simp add: envQ_def newMempool_def poolTx_def)
  moreover have "pool_run envQ (\<lambda>_. poolTx 3) False (addTx envQ (poolTx 3) (newMempool False))"
    by (rule added[OF run]) simp
  ultimately show ?thesis using mempool_index_sound by blast
qed

lemma UpdateMempoolTxes_exact_witness:
  "\<exists>m' newTxes. UpdateMempoolTxes envQ (poolQ 100) (Some [3, 7, 200]) [] (newMempool False) = Some (m', Some newTxes)
    \<and> mset newTxes = {#poolTx 3, poolTx 7#} \<and> dom (mpTxs m') = {3, 7}"
proof -
  obtain m' newTxes where run: "UpdateMempoolTxes envQ (poolQ 100) (Some [3, 7, 200]) [] (newMempool False) = Some (m', Some newTxes)"
    by (simp add: UpdateMempoolTxes_def batchGetRawTxes_def processBatch_def poolQ_def containsTx_def newMempool_def unmarkAll_def
        deleteUnmarked_def)
  have "dom (mpTxs (newMempool False)) \<subseteq> set []" by (simp add: newMempool_def)
  note ex = UpdateMempoolTxes_exact[OF answersQ _ this run]
  have "{h \<in> set [3, 7, 200]. containsTx (newMempool False) h \<or> poolRawTx (poolQ 100) h \<noteq> None} = {3, 7}"
    by (auto simp: containsTx_def newMempool_def poolQ_def)
  moreover have "List.map_filter (poolRawTx (poolQ 100)) (filter (\<lambda>h. \<not> containsTx (newMempool False) h) [3, 7, 200])
      = [poolTx 3, poolTx 7]"
    by (simp add: List.map_filter_def containsTx_def newMempool_def poolQ_def)
  ultimately show ?thesis using run ex by auto
qed

text \<open>
  A batch that fails loses what the batches before it added: the first transaction is in the mempool now, was
  not announced, and is not announced by the next update.
\<close>

lemma failed_batch_loses:
  "\<exists>m'. UpdateMempoolTxes envQ (poolQ 7) (Some [3, 7]) [] (newMempool True) = Some (m', None)
    \<and> containsTx m' 3 \<and> (\<exists>m''. UpdateMempoolTxes envQ (poolQ 100) (Some [3]) [3] m' = Some (m'', Some []))"
  by (simp add: UpdateMempoolTxes_def batchGetRawTxes_def processBatch_def poolQ_def containsTx_def newMempool_def unmarkAll_def
      deleteUnmarked_def addTx_def updateInputs_def envQ_def poolTx_def mark_def) (rule exI, rule TrueI)

section \<open>The filterer\<close>

text \<open>
  The first transaction pays to the external address 7 of index 4, the second spends that output; the third does
  not concern the wallet.  A script is the list of its addresses.
\<close>

definition payTx :: msgTx where
  "payTx = \<lparr>Version = 1, TxIn = [], TxOut = [\<lparr>Value = 5, PkScript = [7]\<rparr>], LockTime = 1\<rparr>"

definition spendTx :: msgTx where
  "spendTx = \<lparr>Version = 1, TxIn = [\<lparr>PreviousOutPoint = \<lparr>opHash = 1, opIndex = 0\<rparr>, SignatureScript = [],
     Witness = [], Sequence = 0\<rparr>], TxOut = [], LockTime = 2\<rparr>"

definition reqF :: "byte filterBlocksRequest" where
  "reqF = \<lparr>ExternalAddrs = [(\<lparr>siScope = \<lparr>Purpose = 84, Coin = 0\<rparr>, siIndex = 4\<rparr>, 7)], InternalAddrs = [],
     reqWatched = Map.empty\<rparr>"

lemma FilterBlock_exact_witness:
  "\<exists>bf. FilterBlock envQ Some (\<lambda>a. [a]) [payTx, spendTx, poolTx 3] (NewBlockFilterer (\<lambda>a. [a]) reqF) = (True, bf)
    \<and> RelevantTxns bf = [payTx, spendTx]
    \<and> isFound (FoundExternal bf) \<lparr>siScope = \<lparr>Purpose = 84, Coin = 0\<rparr>, siIndex = 4\<rparr>"
proof -
  obtain r bf where run: "FilterBlock envQ Some (\<lambda>a. [a]) [payTx, spendTx, poolTx 3] (NewBlockFilterer (\<lambda>a. [a]) reqF) = (r, bf)"
    by fastforce
  note ex = FilterBlock_exact[OF run]
  have pay: "payouts envQ Some (\<lambda>a. [a]) (NewBlockFilterer (\<lambda>a. [a]) reqF) payTx = {\<lparr>opHash = 1, opIndex = 0\<rparr>}"
    by (auto simp: payouts_def paidAt_def ours_def NewBlockFilterer_def reqF_def reverseFilter_def payTx_def indexed_def envQ_def)
  have none: "payouts envQ Some (\<lambda>a. [a]) (NewBlockFilterer (\<lambda>a. [a]) reqF) spendTx = {}"
    "payouts envQ Some (\<lambda>a. [a]) (NewBlockFilterer (\<lambda>a. [a]) reqF) (poolTx 3) = {}"
    by (simp_all add: payouts_def spendTx_def poolTx_def)
  have "relevantTxs envQ Some (\<lambda>a. [a]) (NewBlockFilterer (\<lambda>a. [a]) reqF) {} [payTx, spendTx, poolTx 3] = [payTx, spendTx]"
    by (simp add: relevant_def pay none) (simp add: NewBlockFilterer_def reqF_def payTx_def spendTx_def poolTx_def)
  then have "RelevantTxns bf = [payTx, spendTx]" "r" using ex by simp_all
  moreover have "7 \<in> paid Some payTx" by (simp add: paid_def paidAt_def payTx_def)
  then have "isFound (FoundExternal bf) \<lparr>siScope = \<lparr>Purpose = 84, Coin = 0\<rparr>, siIndex = 4\<rparr>"
    using ex by (auto simp: reverseFilter_def reqF_def)
  ultimately show ?thesis using run by auto
qed

end
