(* ===== verification/Seed_Bip39.thy ===== *)
theory Seed_Bip39
  imports Prelude
begin

text \<open>
  The seed words of BIP 39 (\<open>walletseed/bip39/bip39.go\<close>): the words of an entropy with its checksum, and the
  entropy of words.  A Go string is its bytes.  The package's word list and its reverse map are the record
  \<open>wordTable\<close>; a \<open>big.Int\<close>, never negative here, is a \<open>nat\<close>.  SHA-256, PBKDF2 and the random source are
  arguments of the operations that use them.
\<close>

section \<open>Strings\<close>

text \<open>The encodings of the characters that \<open>strings.Fields\<close> splits at; none is a prefix of another.\<close>

definition spaceChars :: "bytes list" where
  "spaceChars = [[9], [10], [11], [12], [13], [32], [0xC2, 0x85], [0xC2, 0xA0], [0xE1, 0x9A, 0x80],
     [0xE2, 0x80, 0x80], [0xE2, 0x80, 0x81], [0xE2, 0x80, 0x82], [0xE2, 0x80, 0x83], [0xE2, 0x80, 0x84],
     [0xE2, 0x80, 0x85], [0xE2, 0x80, 0x86], [0xE2, 0x80, 0x87], [0xE2, 0x80, 0x88], [0xE2, 0x80, 0x89],
     [0xE2, 0x80, 0x8A], [0xE2, 0x80, 0xA8], [0xE2, 0x80, 0xA9], [0xE2, 0x80, 0xAF], [0xE2, 0x81, 0x9F],
     [0xE3, 0x80, 0x80]]"

definition spaceWidth :: "bytes \<Rightarrow> nat" where
  "spaceWidth s = (case List.find (hasPrefix s) spaceChars of None \<Rightarrow> 0 | Some p \<Rightarrow> length p)"

fun fieldsFrom :: "bytes \<Rightarrow> bytes \<Rightarrow> bytes list" where
  "fieldsFrom cur [] = (if cur = [] then [] else [cur])"
| "fieldsFrom cur (b # bs) = (case spaceWidth (b # bs) of
     0 \<Rightarrow> fieldsFrom (cur @ [b]) bs
   | Suc k \<Rightarrow> (if cur = [] then [] else [cur]) @ fieldsFrom [] (drop k bs))"

definition stringFields :: "bytes \<Rightarrow> bytes list" where
  "stringFields s = fieldsFrom [] s"

fun joinSpace :: "bytes list \<Rightarrow> bytes" where
  "joinSpace [] = []"
| "joinSpace [w] = w"
| "joinSpace (w # ws) = w @ 32 # joinSpace ws"

fun splitSpace :: "bytes \<Rightarrow> bytes list" where
  "splitSpace [] = [[]]"
| "splitSpace (b # bs) = (if b = 32 then [] # splitSpace bs
     else case splitSpace bs of [] \<Rightarrow> [[b]] | w # ws \<Rightarrow> (b # w) # ws)"

section \<open>The word list\<close>

datatype seedErr = ErrInvalidMnemonic | ErrEntropyLengthInvalid | ErrValidatedSeedLengthMismatch
  | ErrChecksumIncorrect | WordNotFound bytes | RandErr | IndexPanic

record wordTable =
  wordList :: "bytes list"
  wordMap :: "bytes \<rightharpoonup> nat"

definition SetWordList :: "bytes list \<Rightarrow> wordTable" where
  "SetWordList list = \<lparr>wordList = list, wordMap = foldl (\<lambda>m (i, v). m(v \<mapsto> i)) Map.empty (enumerate 0 list)\<rparr>"

definition GetWordList :: "wordTable \<Rightarrow> bytes list" where
  "GetWordList T = wordList T"

definition GetWordIndex :: "wordTable \<Rightarrow> bytes \<Rightarrow> nat option" where
  "GetWordIndex T word = wordMap T word"

section \<open>Numbers and bytes\<close>

text \<open>\<open>big.Int.Bytes\<close>: the big-endian bytes of a number, without leading zeros; \<open>be_nat\<close> is \<open>SetBytes\<close>.\<close>

fun bigBytes :: "nat \<Rightarrow> bytes" where
  "bigBytes n = (if n = 0 then [] else bigBytes (n div 256) @ [word_of_nat (n mod 256)])"

declare bigBytes.simps [simp del]

definition padByteSlice :: "bytes \<Rightarrow> nat \<Rightarrow> bytes" where
  "padByteSlice s n = (if n \<le> length s then s else replicate (n - length s) 0 @ s)"

definition compareByteSlices :: "bytes \<Rightarrow> bytes \<Rightarrow> bool" where
  "compareByteSlices a b \<longleftrightarrow> (if length a \<noteq> length b then False else \<forall>i\<in>set [0..<length a]. a ! i = b ! i)"

definition last11BitsMask :: nat where "last11BitsMask = 2047"
definition shift11BitsMask :: nat where "shift11BitsMask = 2048"

definition wordLengthChecksumMasksMapping :: "nat \<rightharpoonup> nat" where
  "wordLengthChecksumMasksMapping = [12 \<mapsto> 15, 15 \<mapsto> 31, 18 \<mapsto> 63, 21 \<mapsto> 127, 24 \<mapsto> 255]"

definition wordLengthChecksumShiftMapping :: "nat \<rightharpoonup> nat" where
  "wordLengthChecksumShiftMapping = [12 \<mapsto> 16, 15 \<mapsto> 8, 18 \<mapsto> 4, 21 \<mapsto> 2]"

section \<open>Checksum\<close>

unbundle bit_operations_syntax

definition validateEntropyBitSize :: "int \<Rightarrow> seedErr + unit" where
  "validateEntropyBitSize bitSize =
     (if bitSize mod 32 \<noteq> 0 \<or> bitSize < 128 \<or> bitSize > 256 then Inl ErrEntropyLengthInvalid else Inr ())"

definition computeChecksum :: "(bytes \<Rightarrow> bytes) \<Rightarrow> bytes \<Rightarrow> bytes" where
  "computeChecksum sha256 data = sha256 data"

definition shiftBit :: "byte \<Rightarrow> nat \<Rightarrow> nat \<Rightarrow> nat" where
  "shiftBit firstChecksumByte n i = (let n = n * 2 in
     if firstChecksumByte AND (if i \<le> 7 then push_bit (7 - i) 1 else 0) > 0 then n OR 1 else n)"

definition addChecksum :: "(bytes \<Rightarrow> bytes) \<Rightarrow> bytes \<Rightarrow> bytes" where
  "addChecksum sha256 data =
     (let firstChecksumByte = computeChecksum sha256 data ! 0; checksumBitLength = length data div 4
      in bigBytes (foldl (shiftBit firstChecksumByte) (be_nat data) [0..<checksumBitLength]))"

section \<open>Words of an entropy\<close>

definition NewEntropy :: "(nat \<Rightarrow> bytes option) \<Rightarrow> int \<Rightarrow> seedErr + bytes" where
  "NewEntropy rand bitSize = bindE (validateEntropyBitSize bitSize) (\<lambda>_.
     case rand (nat (bitSize div 8)) of None \<Rightarrow> Inl RandErr | Some entropy \<Rightarrow> Inr entropy)"

text \<open>The loop over the words, from the last one down; \<open>acc\<close> holds those already found.\<close>

fun wordsLoop :: "wordTable \<Rightarrow> nat \<Rightarrow> nat \<Rightarrow> bytes list \<Rightarrow> seedErr + bytes list" where
  "wordsLoop T 0 entropyInt acc = Inr acc"
| "wordsLoop T (Suc i) entropyInt acc =
     (let word = entropyInt AND last11BitsMask;
          wordBytes = padByteSlice (bigBytes word) 2;
          k = unat (uint16_of wordBytes)
      in if k < length (wordList T) then wordsLoop T i (entropyInt div shift11BitsMask) (wordList T ! k # acc)
         else Inl IndexPanic)"

definition NewMnemonic :: "(bytes \<Rightarrow> bytes) \<Rightarrow> wordTable \<Rightarrow> bytes \<Rightarrow> seedErr + bytes" where
  "NewMnemonic sha256 T entropy =
     (let entropyBitLength = length entropy * 8;
          checksumBitLength = entropyBitLength div 32;
          sentenceLength = (entropyBitLength + checksumBitLength) div 11
      in bindE (validateEntropyBitSize (int entropyBitLength)) (\<lambda>_.
         bindE (wordsLoop T sentenceLength (be_nat (addChecksum sha256 entropy)) []) (\<lambda>words.
         Inr (joinSpace words))))"

section \<open>Entropy of words\<close>

definition splitMnemonicWords :: "bytes \<Rightarrow> bytes list option" where
  "splitMnemonicWords mnemonic = (let words = stringFields mnemonic; numOfWords = length words in
     if numOfWords mod 3 \<noteq> 0 \<or> numOfWords < 12 \<or> numOfWords > 24 then None else Some words)"

definition addWord :: "wordTable \<Rightarrow> bytes \<Rightarrow> nat \<Rightarrow> seedErr + nat" where
  "addWord T v b = (case wordMap T v of
     None \<Rightarrow> Inl (WordNotFound v)
   | Some index \<Rightarrow> Inr ((b * shift11BitsMask) OR be_nat (putUint16 (word_of_nat index))))"

definition EntropyFromMnemonic :: "(bytes \<Rightarrow> bytes) \<Rightarrow> wordTable \<Rightarrow> bytes \<Rightarrow> seedErr + bytes" where
  "EntropyFromMnemonic sha256 T mnemonic =
     (case splitMnemonicWords mnemonic of
        None \<Rightarrow> Inl ErrInvalidMnemonic
      | Some mnemonicSlice \<Rightarrow>
          bindE (foldE (addWord T) mnemonicSlice 0) (\<lambda>b.
          case wordLengthChecksumMasksMapping (length mnemonicSlice) of
            None \<Rightarrow> Inl IndexPanic
          | Some checksumMask \<Rightarrow>
              let checksum = b AND checksumMask;
                  b = b div (checksumMask + 1);
                  entropy = padByteSlice (bigBytes b) (length mnemonicSlice div 3 * 4);
                  entropyChecksum = unat (computeChecksum sha256 entropy ! 0)
              in bindE (if length mnemonicSlice \<noteq> 24 then
                     (case wordLengthChecksumShiftMapping (length mnemonicSlice) of
                        None \<Rightarrow> Inl IndexPanic | Some checksumShift \<Rightarrow> Inr (entropyChecksum div checksumShift))
                   else Inr entropyChecksum) (\<lambda>entropyChecksum.
                 if checksum \<noteq> entropyChecksum then Inl ErrChecksumIncorrect else Inr entropy)))"

definition MnemonicToByteArray :: "(bytes \<Rightarrow> bytes) \<Rightarrow> wordTable \<Rightarrow> bytes \<Rightarrow> bool list \<Rightarrow> seedErr + bytes" where
  "MnemonicToByteArray sha256 T mnemonic raw =
     (let mnemonicSlice = splitSpace mnemonic;
          entropyBitSize = length mnemonicSlice * 11;
          checksumBitSize = entropyBitSize mod 32;
          fullByteSize = (entropyBitSize - checksumBitSize) div 8 + 1
      in bindE (EntropyFromMnemonic sha256 T mnemonic) (\<lambda>rawEntropyBytes.
         if raw \<noteq> [] \<and> raw ! 0 then Inr rawEntropyBytes
         else Inr (padByteSlice (addChecksum sha256 rawEntropyBytes) fullByteSize)))"

definition IsMnemonicValid :: "(bytes \<Rightarrow> bytes) \<Rightarrow> wordTable \<Rightarrow> bytes \<Rightarrow> bool" where
  "IsMnemonicValid sha256 T mnemonic = (case EntropyFromMnemonic sha256 T mnemonic of Inl _ \<Rightarrow> False | Inr _ \<Rightarrow> True)"

text \<open>\<open>pbkdf2\<close> takes the password, the salt, the number of rounds and the length of the key.\<close>

definition NewSeed :: "(bytes \<Rightarrow> bytes \<Rightarrow> nat \<Rightarrow> nat \<Rightarrow> bytes) \<Rightarrow> bytes \<Rightarrow> bytes \<Rightarrow> bytes" where
  "NewSeed pbkdf2 mnemonic password =
     pbkdf2 mnemonic ([0x6d, 0x6e, 0x65, 0x6d, 0x6f, 0x6e, 0x69, 0x63] @ password) 2048 64"

definition NewSeedWithErrorChecking :: "(bytes \<Rightarrow> bytes) \<Rightarrow> (bytes \<Rightarrow> bytes \<Rightarrow> nat \<Rightarrow> nat \<Rightarrow> bytes) \<Rightarrow> wordTable
    \<Rightarrow> bytes \<Rightarrow> bytes \<Rightarrow> seedErr + bytes" where
  "NewSeedWithErrorChecking sha256 pbkdf2 T mnemonic password =
     bindE (MnemonicToByteArray sha256 T mnemonic []) (\<lambda>_. Inr (NewSeed pbkdf2 mnemonic password))"

end
