(* ===== verification/Seed_Roundtrip.thy ===== *)
theory Seed_Roundtrip
  imports Seed_Bip39
begin

text \<open>
  The words of an entropy give the entropy back, and every mnemonic that is accepted consists of the words of
  its entropy.  Both directions go through the digits of a number to the base 2048.
\<close>

section \<open>Splitting a sentence into its words\<close>

definition plainWord :: "bytes \<Rightarrow> bool" where
  "plainWord w \<longleftrightarrow> w \<noteq> [] \<and> (\<forall>k\<in>{..<length w}. spaceWidth (drop k w) = 0)"

lemma spaceWidth_0: "spaceWidth s = 0 \<longleftrightarrow> (\<forall>p\<in>set spaceChars. \<not> hasPrefix s p)"
proof -
  have ne: "\<forall>p\<in>set spaceChars. p \<noteq> []" by (simp add: spaceChars_def)
  show ?thesis unfolding spaceWidth_def using ne
    by (auto split: option.splits simp: find_None_iff find_Some_iff)
qed

lemma space_tail: "p \<in> set spaceChars \<Longrightarrow> 0 < n \<Longrightarrow> n < length p \<Longrightarrow> p ! n \<noteq> 32"
  unfolding spaceChars_def by (auto simp: less_Suc_eq)

lemma spaceWidth_append:
  assumes "x \<noteq> []" and "spaceWidth x = 0"
  shows "spaceWidth (x @ 32 # y) = 0"
  unfolding spaceWidth_0
proof (rule ballI, rule notI)
  fix p assume p: "p \<in> set spaceChars" and pre: "hasPrefix (x @ 32 # y) p"
  then obtain r where r: "x @ 32 # y = p @ r" unfolding hasPrefix_iff by blast
  show False
  proof (cases "length p \<le> length x")
    case True
    then have "hasPrefix x p" unfolding hasPrefix_iff using r by (metis append_eq_append_conv_if append_eq_conv_conj)
    then show False using assms(2) p unfolding spaceWidth_0 by blast
  next
    case False
    then have "p ! length x = 32" using r by (metis nth_append nth_append_length not_le)
    then show False using space_tail[OF p] False assms(1) by simp
  qed
qed

lemma spaceWidth_32 [simp]: "spaceWidth (32 # y) = 1"
  unfolding spaceWidth_def spaceChars_def by (simp add: hasPrefix_def)

lemma fieldsFrom_word:
  assumes "\<forall>k\<in>{..<length w}. spaceWidth (drop k w @ rest) = 0"
  shows "fieldsFrom cur (w @ rest) = fieldsFrom (cur @ w) rest"
  using assms
proof (induction w arbitrary: cur)
  case (Cons b w)
  have "spaceWidth (b # w @ rest) = 0" using Cons.prems by (auto dest: bspec[where x = 0])
  moreover have "\<forall>k\<in>{..<length w}. spaceWidth (drop k w @ rest) = 0"
    using Cons.prems by (metis drop_Suc_Cons lessThan_iff length_Cons Suc_less_eq)
  ultimately show ?case using Cons.IH[of "cur @ [b]"] by simp
qed simp

lemma stringFields_joinSpace: "\<forall>w\<in>set ws. plainWord w \<Longrightarrow> stringFields (joinSpace ws) = ws"
  unfolding stringFields_def
proof (induction ws rule: joinSpace.induct)
  case (2 w)
  then have "fieldsFrom [] (w @ []) = fieldsFrom ([] @ w) []"
    by (intro fieldsFrom_word) (simp add: plainWord_def)
  then show ?case using 2 by (simp add: plainWord_def)
next
  case (3 w v ws)
  then have w: "plainWord w" by simp
  have "spaceWidth (drop k w @ 32 # joinSpace (v # ws)) = 0" if "k < length w" for k
    using w that by (intro spaceWidth_append) (auto simp: plainWord_def)
  then have "fieldsFrom [] (w @ 32 # joinSpace (v # ws)) = fieldsFrom ([] @ w) (32 # joinSpace (v # ws))"
    by (intro fieldsFrom_word) simp
  then show ?case using 3 w by (simp add: plainWord_def)
qed simp

lemma fieldsFrom_plain:
  "\<forall>k<length cur. spaceWidth (drop k cur @ s) = 0 \<Longrightarrow> w \<in> set (fieldsFrom cur s) \<Longrightarrow> plainWord w"
proof (induction cur s rule: fieldsFrom.induct)
  case (1 cur)
  then show ?case by (auto simp: plainWord_def split: if_splits)
next
  case (2 cur b bs)
  show ?case
  proof (cases "spaceWidth (b # bs)")
    case 0
    have "\<forall>k<length (cur @ [b]). spaceWidth (drop k (cur @ [b]) @ bs) = 0"
      using 2(3) 0 by (auto simp: less_Suc_eq)
    then show ?thesis using 2(1)[OF 0] 2(4) 0 by simp
  next
    case (Suc n)
    have "plainWord cur" if "cur \<noteq> []"
      unfolding plainWord_def
    proof (intro conjI that ballI)
      fix k assume "k \<in> {..<length cur}"
      then have "spaceWidth (drop k cur @ b # bs) = 0" using 2(3) by simp
      then show "spaceWidth (drop k cur) = 0" unfolding spaceWidth_0 hasPrefix_iff by (metis append_assoc)
    qed
    then show ?thesis using 2(2)[OF Suc] 2(4) Suc by (auto split: if_splits)
  qed
qed

lemma stringFields_plain: "w \<in> set (stringFields s) \<Longrightarrow> plainWord w"
  unfolding stringFields_def by (rule fieldsFrom_plain[of "[]"]) simp_all

section \<open>Bytes of a number\<close>

lemma be_nat_snoc: "be_nat (bs @ [b]) = be_nat bs * 256 + unat b"
  by (simp add: be_nat_def)

lemma be_nat_bigBytes [simp]: "be_nat (bigBytes n) = n"
proof (induction n rule: bigBytes.induct)
  case (1 n)
  show ?case
  proof (cases "n = 0")
    case False
    have "be_nat (bigBytes (n div 256) @ [word_of_nat (n mod 256)]) = n div 256 * 256 + n mod 256"
      using 1[OF False] by (simp add: be_nat_snoc unat_of_nat)
    then show ?thesis using False by (subst bigBytes.simps) simp
  qed (simp add: bigBytes.simps be_nat_def)
qed

lemma length_bigBytes: "n < 256 ^ m \<Longrightarrow> length (bigBytes n) \<le> m"
proof (induction n arbitrary: m rule: bigBytes.induct)
  case (1 n)
  show ?case
  proof (cases "n = 0")
    case False
    then obtain k where m: "m = Suc k" using 1(2) by (cases m) auto
    have "n div 256 < 256 ^ k" using 1(2) m by (simp add: less_mult_imp_div_less)
    then have "length (bigBytes (n div 256)) \<le> k" by (rule 1(1)[OF False])
    then show ?thesis using False m by (subst bigBytes.simps) simp
  qed (simp add: bigBytes.simps)
qed

lemma be_nat_padByteSlice [simp]: "be_nat (padByteSlice bs n) = be_nat bs"
proof -
  have "foldl (\<lambda>a (b::byte). a * 256 + unat b) 0 (replicate k 0 @ bs) = be_nat bs" for k
    by (induction k) (simp_all add: be_nat_def)
  then show ?thesis unfolding padByteSlice_def be_nat_def by simp
qed

lemma length_padByteSlice: "length bs \<le> n \<Longrightarrow> length (padByteSlice bs n) = n"
  unfolding padByteSlice_def by simp

lemma pad_bigBytes: "n < 256 ^ m \<Longrightarrow> padByteSlice (bigBytes n) m = nat_be m n"
  by (metis be_nat_bigBytes be_nat_padByteSlice length_bigBytes length_padByteSlice nat_be_be_nat)

section \<open>The checksum\<close>

lemma nat_or_low:
  assumes "b < 2 ^ n"
  shows "(a * 2 ^ n) OR b = a * 2 ^ n + (b::nat)"
proof -
  have b: "take_bit n b = b" using assms by (simp add: take_bit_nat_eq_self_iff)
  have low: "bit b k \<Longrightarrow> k < n" for k using b by (metis bit_take_bit_iff)
  have "(push_bit n a) AND b = 0" by (intro bit_eqI) (auto simp: bit_simps dest: low)
  then show ?thesis by (simp add: push_bit_eq_mult disjunctive_add_eq_or)
qed

lemma checkBit:
  assumes "i \<le> 7"
  shows "(c::byte) AND push_bit (7 - i) 1 > 0 \<longleftrightarrow> odd (unat c div 2 ^ (7 - i))"
proof -
  have "odd (unat c div 2 ^ (7 - i)) \<longleftrightarrow> bit c (7 - i)"
    using assms by (simp add: bit_unsigned_iff flip: bit_iff_odd)
  moreover have "c AND 2 ^ (7 - i) = 0 \<longleftrightarrow> \<not> bit c (7 - i)" by (rule and_exp_eq_0_iff_not_bit)
  ultimately show ?thesis by (simp add: word_greater_zero_iff push_bit_eq_mult)
qed

lemma div_step: "x div 2 ^ n = x div 2 ^ Suc n * 2 + (x div 2 ^ n) mod (2::nat)"
proof -
  have "x div 2 ^ Suc n = x div 2 ^ n div 2" by (metis div_mult2_eq power_Suc2)
  then show ?thesis by simp
qed

lemma shiftBits: "k \<le> 8 \<Longrightarrow> foldl (shiftBit c) n [0..<k] = n * 2 ^ k + unat c div 2 ^ (8 - k)"
proof (induction k)
  case (Suc k)
  have "shiftBit c m k = m * 2 + (unat c div 2 ^ (7 - k)) mod 2" for m
    using Suc.prems nat_or_low[of 1 1 m] checkBit[of k c]
    by (simp add: shiftBit_def Let_def odd_iff_mod_2_eq_one)
  moreover have "8 - k = Suc (7 - k)" using Suc.prems by simp
  ultimately show ?case using Suc div_step[of "unat c" "7 - k"] by (simp add: algebra_simps)
qed (simp add: div_eq_0_iff unat_byte_less)

text \<open>The number whose digits to the base 2048 are the words of an entropy.\<close>

definition sealed :: "(bytes \<Rightarrow> bytes) \<Rightarrow> bytes \<Rightarrow> nat" where
  "sealed sha256 e = be_nat e * 2 ^ (length e div 4) + unat (sha256 e ! 0) div 2 ^ (8 - length e div 4)"

lemma be_nat_addChecksum: "length e \<le> 32 \<Longrightarrow> be_nat (addChecksum sha256 e) = sealed sha256 e"
  unfolding addChecksum_def sealed_def Let_def computeChecksum_def by (simp add: shiftBits)

section \<open>Digits to the base 2048\<close>

fun digits :: "nat \<Rightarrow> nat \<Rightarrow> nat list" where
  "digits 0 n = []"
| "digits (Suc i) n = digits i (n div 2048) @ [n mod 2048]"

definition undigits :: "nat list \<Rightarrow> nat" where
  "undigits ds = foldl (\<lambda>b d. b * 2048 + d) 0 ds"

lemma undigits_snoc [simp]: "undigits [] = 0" "undigits (ds @ [d]) = undigits ds * 2048 + d"
  by (simp_all add: undigits_def)

lemma length_digits [simp]: "length (digits i n) = i"
  by (induction i arbitrary: n) simp_all

lemma digits_less: "d \<in> set (digits i n) \<Longrightarrow> d < 2048"
  by (induction i arbitrary: n) auto

lemma undigits_digits: "n < 2048 ^ i \<Longrightarrow> undigits (digits i n) = n"
proof (induction i arbitrary: n)
  case (Suc i)
  then have "n div 2048 < 2048 ^ i" by (simp add: less_mult_imp_div_less)
  then show ?case using Suc.IH by simp
qed simp

lemma digits_undigits: "\<forall>d\<in>set ds. d < 2048 \<Longrightarrow> digits (length ds) (undigits ds) = ds"
  by (induction ds rule: rev_induct) simp_all

lemma undigits_less: "\<forall>d\<in>set ds. d < 2048 \<Longrightarrow> undigits ds < 2048 ^ length ds"
proof (induction ds rule: rev_induct)
  case (snoc d ds)
  then have "undigits ds * 2048 + 2048 \<le> 2048 ^ length ds * 2048" by simp
  then show ?case using snoc.prems by (simp add: algebra_simps)
qed simp

section \<open>The word list\<close>

definition list_ok :: "bytes list \<Rightarrow> bool" where
  "list_ok list \<longleftrightarrow> length list = 2048 \<and> distinct list \<and> (\<forall>w\<in>set list. plainWord w)"

lemma wordMap_iff:
  "distinct list \<Longrightarrow> wordMap (SetWordList list) v = Some i \<longleftrightarrow> i < length list \<and> list ! i = v"
  unfolding SetWordList_def
proof (induction list rule: rev_induct)
  case (snoc w list)
  then show ?case by (auto simp: enumerate_append_eq nth_append less_Suc_eq)
qed simp

lemma wordList_set [simp]: "wordList (SetWordList list) = list"
  by (simp add: SetWordList_def)

lemma and_mask: "(n::nat) AND last11BitsMask = n mod 2048"
proof -
  have "last11BitsMask = mask 11" by (simp add: last11BitsMask_def mask_eq_exp_minus_1)
  then have "n AND last11BitsMask = take_bit 11 n" by (simp add: take_bit_eq_mask)
  then show ?thesis by (simp add: take_bit_eq_mod)
qed

lemma wordIndex: "d < 2048 \<Longrightarrow> unat (uint16_of (padByteSlice (bigBytes (d AND last11BitsMask)) 2)) = d"
proof -
  assume d: "d < 2048"
  have "length (padByteSlice (bigBytes d) 2) = 2"
    using d by (intro length_padByteSlice length_bigBytes) simp
  then show ?thesis using d by (simp add: and_mask uint16_of_def unat_of_nat)
qed

lemma wordsLoop_digits:
  assumes "length list = 2048"
  shows "wordsLoop (SetWordList list) i n acc = Inr (map ((!) list) (digits i n) @ acc)"
proof (induction i arbitrary: n acc)
  case (Suc i)
  have "unat (uint16_of (padByteSlice (bigBytes (n AND last11BitsMask)) 2)) = n mod 2048"
    using wordIndex[of "n mod 2048"] by (simp add: and_mask)
  then show ?case using Suc assms by (simp add: Let_def shift11BitsMask_def)
qed simp

lemma addWord_index:
  assumes "distinct list" "length list = 2048" "d < 2048"
  shows "addWord (SetWordList list) (list ! d) b = Inr (b * 2048 + d)"
proof -
  have "wordMap (SetWordList list) (list ! d) = Some d" using assms by (simp add: wordMap_iff)
  moreover have "be_nat (putUint16 (word_of_nat d)) = d" using assms(3) by (simp add: putUint16_def unat_of_nat)
  ultimately show ?thesis using nat_or_low[of d 11 b] assms(3) by (simp add: addWord_def shift11BitsMask_def)
qed

lemma addWords_digits:
  assumes "distinct list" "length list = 2048" "\<forall>d\<in>set ds. d < 2048"
  shows "foldE (addWord (SetWordList list)) (map ((!) list) ds) 0 = Inr (undigits ds)"
  using assms(3)
  by (induction ds rule: rev_induct) (simp_all add: foldE_append addWord_index[OF assms(1,2)])

lemma addWords_Inr:
  assumes "distinct list" "length list = 2048"
    and "foldE (addWord (SetWordList list)) ws 0 = Inr b"
  shows "\<exists>ds. ws = map ((!) list) ds \<and> (\<forall>d\<in>set ds. d < 2048) \<and> b = undigits ds"
  using assms(3)
proof (induction ws arbitrary: b rule: rev_induct)
  case (snoc w ws)
  then obtain b' where b': "foldE (addWord (SetWordList list)) ws 0 = Inr b'"
    "addWord (SetWordList list) w b' = Inr b" by (auto simp: foldE_append bindE_eq_Inr)
  from snoc.IH[OF b'(1)] obtain ds where ds: "ws = map ((!) list) ds" "\<forall>d\<in>set ds. d < 2048" "b' = undigits ds"
    by blast
  from b'(2) obtain d where "wordMap (SetWordList list) w = Some d" by (auto simp: addWord_def split: option.splits)
  then have d: "d < 2048" "w = list ! d" using assms by (simp_all add: wordMap_iff)
  then have "b = b' * 2048 + d" using b'(2) addWord_index[OF assms(1,2) d(1)] by simp
  then show ?case using ds d by (intro exI[of _ "ds @ [d]"]) simp
qed simp

section \<open>Encoding and decoding\<close>

lemma and_pow: "(n::nat) AND (2 ^ k - 1) = n mod 2 ^ k"
proof -
  have "n AND (2 ^ k - 1) = take_bit k n" by (simp only: take_bit_eq_mask mask_eq_exp_minus_1)
  then show ?thesis by (simp add: take_bit_eq_mod)
qed

lemma pow_2048: "(2048::nat) ^ (3 * k) = 256 ^ (4 * k) * 2 ^ k"
proof -
  have "(256::nat) = 2 ^ 8" "(2048::nat) = 2 ^ 11" by simp_all
  then show ?thesis by (simp only: flip: power_mult power_add) simp
qed

lemma sealed_less:
  assumes "length e = 4 * k" "k \<le> 8"
  shows "sealed sha256 e < 2048 ^ (3 * k)"
proof -
  have "be_nat e < 256 ^ (4 * k)" using be_nat_less[of e] assms(1) by simp
  then have "be_nat e * 2 ^ k + 2 ^ k \<le> 256 ^ (4 * k) * 2 ^ k"
    by (metis Suc_leI add.commute mult_Suc mult_le_mono1)
  moreover have "unat (sha256 e ! 0) div 2 ^ (8 - k) < 2 ^ k"
    using unat_byte_less[of "sha256 e ! 0"] assms(2)
    by (simp add: less_mult_imp_div_less flip: power_add)
  ultimately show ?thesis using assms(1) by (simp add: sealed_def pow_2048)
qed

lemma NewMnemonic_digits:
  assumes "list_ok list" "length e = 4 * k" "k \<in> {4..8}"
  shows "NewMnemonic sha256 (SetWordList list) e
    = Inr (joinSpace (map ((!) list) (digits (3 * k) (sealed sha256 e))))"
proof -
  have "validateEntropyBitSize (int (length e * 8)) = Inr ()"
    using assms(2,3) by (auto simp: validateEntropyBitSize_def)
  moreover have "(length e * 8 + length e * 8 div 32) div 11 = 3 * k" using assms(2) by simp
  ultimately show ?thesis using assms
    by (simp add: NewMnemonic_def Let_def wordsLoop_digits be_nat_addChecksum list_ok_def)
qed

lemma range_48: "k \<in> {4..8} \<longleftrightarrow> k = 4 \<or> k = 5 \<or> k = 6 \<or> k = 7 \<or> k = (8::nat)"
  by auto

lemma mask_at: "k \<in> {4..8} \<Longrightarrow> wordLengthChecksumMasksMapping (3 * k) = Some (2 ^ k - 1)"
  unfolding range_48 by (elim disjE) (simp_all add: wordLengthChecksumMasksMapping_def)

lemma shift_at: "k \<in> {4..8} \<Longrightarrow> (if 3 * k \<noteq> 24 then
     (case wordLengthChecksumShiftMapping (3 * k) of None \<Rightarrow> Inl IndexPanic | Some s \<Rightarrow> Inr (c div s))
   else Inr c) = Inr (c div 2 ^ (8 - k))"
  unfolding range_48 by (elim disjE) (simp_all add: wordLengthChecksumShiftMapping_def)

lemma undigits_bound:
  fixes k :: nat
  assumes "\<forall>d\<in>set ds. d < 2048" "length ds = 3 * k"
  shows "undigits ds div 2 ^ k < 256 ^ (4 * k)"
proof -
  have "undigits ds < 2048 ^ (3 * k)" using undigits_less[OF assms(1)] assms(2) by simp
  also have "(2048::nat) ^ (3 * k) = 256 ^ (4 * k) * 2 ^ k" by (rule pow_2048)
  finally show ?thesis by (simp add: less_mult_imp_div_less)
qed

lemma EntropyFromMnemonic_digits:
  fixes k :: nat
  assumes "list_ok list" "splitMnemonicWords m = Some (map ((!) list) ds)" "\<forall>d\<in>set ds. d < 2048"
    and "length ds = 3 * k" "k \<in> {4..8}"
    and "e = nat_be (4 * k) (undigits ds div 2 ^ k)"
  shows "EntropyFromMnemonic sha256 (SetWordList list) m
    = (if undigits ds mod 2 ^ k \<noteq> unat (sha256 e ! 0) div 2 ^ (8 - k) then Inl ErrChecksumIncorrect else Inr e)"
proof -
  have "undigits ds div 2 ^ k < 256 ^ (4 * k)" using undigits_bound assms(3,4) by blast
  then have e: "padByteSlice (bigBytes (undigits ds div 2 ^ k)) (4 * k) = e"
    using assms(6) by (simp add: pad_bigBytes)
  have add: "foldE (addWord (SetWordList list)) (map ((!) list) ds) 0 = Inr (undigits ds)"
    using assms(1,3) by (simp add: addWords_digits list_ok_def)
  have k: "3 * k div 3 * 4 = 4 * k" "2 ^ k - 1 + 1 = (2 ^ k :: nat)" by simp_all
  show ?thesis
    unfolding EntropyFromMnemonic_def assms(2) option.case add bindE_simps length_map assms(4) mask_at[OF assms(5)] Let_def
      shift_at[OF assms(5)] and_pow computeChecksum_def k e
    by simp
qed

definition entropy_ok :: "bytes \<Rightarrow> bool" where
  "entropy_ok e \<longleftrightarrow> (\<exists>k\<in>{4..8}. length e = 4 * k)"

lemma sealed_split:
  assumes "length e = 4 * k" "k \<in> {4..8}"
  shows "sealed sha256 e mod 2 ^ k = unat (sha256 e ! 0) div 2 ^ (8 - k)" "sealed sha256 e div 2 ^ k = be_nat e"
proof -
  have "unat (sha256 e ! 0) div 2 ^ (8 - k) < 2 ^ k"
    using unat_byte_less[of "sha256 e ! 0"] assms(2) by (simp add: less_mult_imp_div_less flip: power_add)
  then show "sealed sha256 e mod 2 ^ k = unat (sha256 e ! 0) div 2 ^ (8 - k)" "sealed sha256 e div 2 ^ k = be_nat e"
    using assms(1) by (simp_all add: sealed_def)
qed

lemma split_words:
  assumes "list_ok list" "\<forall>d\<in>set ds. d < 2048" "length ds = 3 * k" "k \<in> {4..8}"
  shows "splitMnemonicWords (joinSpace (map ((!) list) ds)) = Some (map ((!) list) ds)"
proof -
  have "\<forall>w\<in>set (map ((!) list) ds). plainWord w" using assms(1,2) by (auto simp: list_ok_def)
  then have "stringFields (joinSpace (map ((!) list) ds)) = map ((!) list) ds" by (rule stringFields_joinSpace)
  then show ?thesis using assms(3,4) by (simp add: splitMnemonicWords_def Let_def)
qed

lemma words_number:
  assumes "splitMnemonicWords m = Some ws"
  shows "ws = stringFields m" "\<exists>k\<in>{4..8}. length ws = 3 * k"
proof -
  show w: "ws = stringFields m" using assms by (auto simp: splitMnemonicWords_def Let_def split: if_splits)
  have "length ws mod 3 = 0" "12 \<le> length ws" "length ws \<le> 24"
    using assms by (auto simp: splitMnemonicWords_def Let_def split: if_splits)
  then show "\<exists>k\<in>{4..8}. length ws = 3 * k" by (intro bexI[of _ "length ws div 3"]) auto
qed

text \<open>
  C17: With a list of 2048 different words without white space, the mnemonic made of any entropy of 128, 160,
  192, 224 or 256 bits is accepted and gives the entropy back; any other length is refused.
\<close>

theorem NewMnemonic_EntropyFromMnemonic:
  assumes "list_ok list"
  shows "if entropy_ok e
    then \<exists>m. NewMnemonic sha256 (SetWordList list) e = Inr m \<and> EntropyFromMnemonic sha256 (SetWordList list) m = Inr e
    else NewMnemonic sha256 (SetWordList list) e = Inl ErrEntropyLengthInvalid"
proof (cases "entropy_ok e")
  case True
  then obtain k where k: "k \<in> {4..8}" "length e = 4 * k" by (auto simp: entropy_ok_def)
  let ?ds = "digits (3 * k) (sealed sha256 e)"
  have u: "undigits ?ds = sealed sha256 e" using k by (intro undigits_digits sealed_less) simp_all
  have d: "\<forall>d\<in>set ?ds. d < 2048" by (auto dest: digits_less)
  have "e = nat_be (4 * k) (undigits ?ds div 2 ^ k)"
    unfolding u sealed_split(2)[OF k(2,1)] k(2)[symmetric] by simp
  then show ?thesis
    using True NewMnemonic_digits[OF assms k(2,1)] u sealed_split(1)[OF k(2,1)]
      EntropyFromMnemonic_digits[OF assms split_words[OF assms d length_digits k(1)] d length_digits k(1)]
    by simp
next
  case False
  have "int (length e * 8) mod 32 \<noteq> 0 \<or> int (length e * 8) < 128 \<or> int (length e * 8) > 256"
  proof (rule ccontr)
    assume *: "\<not> ?thesis"
    then have "length e = 4 * (length e div 4)" "4 \<le> length e div 4" "length e div 4 \<le> 8" by presburger+
    then have "length e = 4 * (length e div 4)" "length e div 4 \<in> {4..8}" by simp_all
    then show False using False unfolding entropy_ok_def by blast
  qed
  then show ?thesis using False by (auto simp: NewMnemonic_def Let_def validateEntropyBitSize_def)
qed

text \<open>
  C19: A mnemonic is accepted, with an entropy, exactly if the entropy has one of the five lengths and the
  mnemonic consists of the words that are made of it; only the white space between them is free.
\<close>

theorem EntropyFromMnemonic_iff:
  assumes "list_ok list"
  shows "EntropyFromMnemonic sha256 (SetWordList list) m = Inr e \<longleftrightarrow>
    entropy_ok e \<and> NewMnemonic sha256 (SetWordList list) e = Inr (joinSpace (stringFields m))"
proof
  assume r: "EntropyFromMnemonic sha256 (SetWordList list) m = Inr e"
  then obtain ws b where ws: "splitMnemonicWords m = Some ws" "foldE (addWord (SetWordList list)) ws 0 = Inr b"
    by (auto simp: EntropyFromMnemonic_def split: option.splits)
  obtain ds where ds: "ws = map ((!) list) ds" "\<forall>d\<in>set ds. d < 2048"
    using addWords_Inr[OF _ _ ws(2)] assms unfolding list_ok_def by blast
  obtain k where k: "k \<in> {4..8}" "length ds = 3 * k" using words_number(2)[OF ws(1)] ds(1) by auto
  define e' where "e' = nat_be (4 * k) (undigits ds div 2 ^ k)"
  from EntropyFromMnemonic_digits[OF assms ws(1)[unfolded ds(1)] ds(2) k(2,1) e'_def] r
  have e: "e = e'" "undigits ds mod 2 ^ k = unat (sha256 e ! 0) div 2 ^ (8 - k)" by (auto split: if_splits)
  have le: "length e = 4 * k" by (simp add: e(1) e'_def)
  have "undigits ds div 2 ^ k < 256 ^ (4 * k)" using undigits_bound[OF ds(2) k(2)] .
  then have "be_nat e = undigits ds div 2 ^ k" by (simp add: e(1) e'_def)
  then have "sealed sha256 e = undigits ds div 2 ^ k * 2 ^ k + undigits ds mod 2 ^ k"
    using e(2) le by (simp add: sealed_def)
  then have "sealed sha256 e = undigits ds" by (simp only: div_mult_mod_eq)
  moreover have "digits (3 * k) (undigits ds) = ds" using digits_undigits[OF ds(2)] k(2) by simp
  ultimately have "NewMnemonic sha256 (SetWordList list) e = Inr (joinSpace ws)"
    using NewMnemonic_digits[OF assms le k(1)] ds(1) by simp
  moreover have "entropy_ok e" using le k(1) unfolding entropy_ok_def by blast
  ultimately show "entropy_ok e \<and> NewMnemonic sha256 (SetWordList list) e = Inr (joinSpace (stringFields m))"
    using words_number(1)[OF ws(1)] by simp
next
  assume *: "entropy_ok e \<and> NewMnemonic sha256 (SetWordList list) e = Inr (joinSpace (stringFields m))"
  then obtain k where k: "k \<in> {4..8}" "length e = 4 * k" by (auto simp: entropy_ok_def)
  let ?ds = "digits (3 * k) (sealed sha256 e)"
  have u: "undigits ?ds = sealed sha256 e" using k by (intro undigits_digits sealed_less) simp_all
  have d: "\<forall>d\<in>set ?ds. d < 2048" by (auto dest: digits_less)
  have j: "joinSpace (stringFields m) = joinSpace (map ((!) list) ?ds)"
    using * NewMnemonic_digits[OF assms k(2,1)] by simp
  have "stringFields m = map ((!) list) ?ds"
    using arg_cong[OF j, of stringFields] assms d
    by (simp add: stringFields_joinSpace stringFields_plain list_ok_def)
  then have "splitMnemonicWords m = Some (map ((!) list) ?ds)"
    using k(1) by (simp add: splitMnemonicWords_def Let_def)
  moreover have "e = nat_be (4 * k) (undigits ?ds div 2 ^ k)"
    unfolding u sealed_split(2)[OF k(2,1)] k(2)[symmetric] by simp
  ultimately show "EntropyFromMnemonic sha256 (SetWordList list) m = Inr e"
    using EntropyFromMnemonic_digits[OF assms _ d length_digits k(1)] u sealed_split(1)[OF k(2,1)] by simp
qed

end
