(* ===== verification/Seed_English.thy ===== *)
theory Seed_English
  imports Seed_Roundtrip "HOL-Library.Char_ord"
begin

text \<open>
  The English word list of BIP 39 (\<open>walletseed/bip39/wordlists/english.go\<close>), in blocks of 128 lines, and the
  round trip of entropies and mnemonics over it.  The words ascend, so they are different.
\<close>

section \<open>The words\<close>

definition goBytes :: "string \<Rightarrow> bytes" where
  "goBytes s = map of_char s"

definition english_1 :: "string list" where
  "english_1 = [
    ''abandon'', ''ability'', ''able'', ''about'', ''above'', ''absent'', ''absorb'', ''abstract'', ''absurd'',
    ''abuse'', ''access'', ''accident'', ''account'', ''accuse'', ''achieve'', ''acid'', ''acoustic'',
    ''acquire'', ''across'', ''act'', ''action'', ''actor'', ''actress'', ''actual'', ''adapt'', ''add'',
    ''addict'', ''address'', ''adjust'', ''admit'', ''adult'', ''advance'', ''advice'', ''aerobic'',
    ''affair'', ''afford'', ''afraid'', ''again'', ''age'', ''agent'', ''agree'', ''ahead'', ''aim'', ''air'',
    ''airport'', ''aisle'', ''alarm'', ''album'', ''alcohol'', ''alert'', ''alien'', ''all'', ''alley'',
    ''allow'', ''almost'', ''alone'', ''alpha'', ''already'', ''also'', ''alter'', ''always'', ''amateur'',
    ''amazing'', ''among'', ''amount'', ''amused'', ''analyst'', ''anchor'', ''ancient'', ''anger'', ''angle'',
    ''angry'', ''animal'', ''ankle'', ''announce'', ''annual'', ''another'', ''answer'', ''antenna'',
    ''antique'', ''anxiety'', ''any'', ''apart'', ''apology'', ''appear'', ''apple'', ''approve'', ''april'',
    ''arch'', ''arctic'', ''area'', ''arena'', ''argue'', ''arm'', ''armed'', ''armor'', ''army'', ''around'',
    ''arrange'', ''arrest'', ''arrive'', ''arrow'', ''art'', ''artefact'', ''artist'', ''artwork'', ''ask'',
    ''aspect'', ''assault'', ''asset'', ''assist'', ''assume'', ''asthma'', ''athlete'', ''atom'', ''attack'',
    ''attend'', ''attitude'', ''attract'', ''auction'', ''audit'', ''august'', ''aunt'', ''author'', ''auto'',
    ''autumn'', ''average'', ''avocado'']"

definition english_2 :: "string list" where
  "english_2 = [
    ''avoid'', ''awake'', ''aware'', ''away'', ''awesome'', ''awful'', ''awkward'', ''axis'', ''baby'',
    ''bachelor'', ''bacon'', ''badge'', ''bag'', ''balance'', ''balcony'', ''ball'', ''bamboo'', ''banana'',
    ''banner'', ''bar'', ''barely'', ''bargain'', ''barrel'', ''base'', ''basic'', ''basket'', ''battle'',
    ''beach'', ''bean'', ''beauty'', ''because'', ''become'', ''beef'', ''before'', ''begin'', ''behave'',
    ''behind'', ''believe'', ''below'', ''belt'', ''bench'', ''benefit'', ''best'', ''betray'', ''better'',
    ''between'', ''beyond'', ''bicycle'', ''bid'', ''bike'', ''bind'', ''biology'', ''bird'', ''birth'',
    ''bitter'', ''black'', ''blade'', ''blame'', ''blanket'', ''blast'', ''bleak'', ''bless'', ''blind'',
    ''blood'', ''blossom'', ''blouse'', ''blue'', ''blur'', ''blush'', ''board'', ''boat'', ''body'', ''boil'',
    ''bomb'', ''bone'', ''bonus'', ''book'', ''boost'', ''border'', ''boring'', ''borrow'', ''boss'',
    ''bottom'', ''bounce'', ''box'', ''boy'', ''bracket'', ''brain'', ''brand'', ''brass'', ''brave'',
    ''bread'', ''breeze'', ''brick'', ''bridge'', ''brief'', ''bright'', ''bring'', ''brisk'', ''broccoli'',
    ''broken'', ''bronze'', ''broom'', ''brother'', ''brown'', ''brush'', ''bubble'', ''buddy'', ''budget'',
    ''buffalo'', ''build'', ''bulb'', ''bulk'', ''bullet'', ''bundle'', ''bunker'', ''burden'', ''burger'',
    ''burst'', ''bus'', ''business'', ''busy'', ''butter'', ''buyer'', ''buzz'', ''cabbage'', ''cabin'',
    ''cable'']"

definition english_3 :: "string list" where
  "english_3 = [
    ''cactus'', ''cage'', ''cake'', ''call'', ''calm'', ''camera'', ''camp'', ''can'', ''canal'', ''cancel'',
    ''candy'', ''cannon'', ''canoe'', ''canvas'', ''canyon'', ''capable'', ''capital'', ''captain'', ''car'',
    ''carbon'', ''card'', ''cargo'', ''carpet'', ''carry'', ''cart'', ''case'', ''cash'', ''casino'',
    ''castle'', ''casual'', ''cat'', ''catalog'', ''catch'', ''category'', ''cattle'', ''caught'', ''cause'',
    ''caution'', ''cave'', ''ceiling'', ''celery'', ''cement'', ''census'', ''century'', ''cereal'',
    ''certain'', ''chair'', ''chalk'', ''champion'', ''change'', ''chaos'', ''chapter'', ''charge'', ''chase'',
    ''chat'', ''cheap'', ''check'', ''cheese'', ''chef'', ''cherry'', ''chest'', ''chicken'', ''chief'',
    ''child'', ''chimney'', ''choice'', ''choose'', ''chronic'', ''chuckle'', ''chunk'', ''churn'', ''cigar'',
    ''cinnamon'', ''circle'', ''citizen'', ''city'', ''civil'', ''claim'', ''clap'', ''clarify'', ''claw'',
    ''clay'', ''clean'', ''clerk'', ''clever'', ''click'', ''client'', ''cliff'', ''climb'', ''clinic'',
    ''clip'', ''clock'', ''clog'', ''close'', ''cloth'', ''cloud'', ''clown'', ''club'', ''clump'',
    ''cluster'', ''clutch'', ''coach'', ''coast'', ''coconut'', ''code'', ''coffee'', ''coil'', ''coin'',
    ''collect'', ''color'', ''column'', ''combine'', ''come'', ''comfort'', ''comic'', ''common'', ''company'',
    ''concert'', ''conduct'', ''confirm'', ''congress'', ''connect'', ''consider'', ''control'', ''convince'',
    ''cook'', ''cool'', ''copper'']"

definition english_4 :: "string list" where
  "english_4 = [
    ''copy'', ''coral'', ''core'', ''corn'', ''correct'', ''cost'', ''cotton'', ''couch'', ''country'',
    ''couple'', ''course'', ''cousin'', ''cover'', ''coyote'', ''crack'', ''cradle'', ''craft'', ''cram'',
    ''crane'', ''crash'', ''crater'', ''crawl'', ''crazy'', ''cream'', ''credit'', ''creek'', ''crew'',
    ''cricket'', ''crime'', ''crisp'', ''critic'', ''crop'', ''cross'', ''crouch'', ''crowd'', ''crucial'',
    ''cruel'', ''cruise'', ''crumble'', ''crunch'', ''crush'', ''cry'', ''crystal'', ''cube'', ''culture'',
    ''cup'', ''cupboard'', ''curious'', ''current'', ''curtain'', ''curve'', ''cushion'', ''custom'', ''cute'',
    ''cycle'', ''dad'', ''damage'', ''damp'', ''dance'', ''danger'', ''daring'', ''dash'', ''daughter'',
    ''dawn'', ''day'', ''deal'', ''debate'', ''debris'', ''decade'', ''december'', ''decide'', ''decline'',
    ''decorate'', ''decrease'', ''deer'', ''defense'', ''define'', ''defy'', ''degree'', ''delay'',
    ''deliver'', ''demand'', ''demise'', ''denial'', ''dentist'', ''deny'', ''depart'', ''depend'',
    ''deposit'', ''depth'', ''deputy'', ''derive'', ''describe'', ''desert'', ''design'', ''desk'',
    ''despair'', ''destroy'', ''detail'', ''detect'', ''develop'', ''device'', ''devote'', ''diagram'',
    ''dial'', ''diamond'', ''diary'', ''dice'', ''diesel'', ''diet'', ''differ'', ''digital'', ''dignity'',
    ''dilemma'', ''dinner'', ''dinosaur'', ''direct'', ''dirt'', ''disagree'', ''discover'', ''disease'',
    ''dish'', ''dismiss'', ''disorder'', ''display'', ''distance'', ''divert'', ''divide'']"

definition english_5 :: "string list" where
  "english_5 = [
    ''divorce'', ''dizzy'', ''doctor'', ''document'', ''dog'', ''doll'', ''dolphin'', ''domain'', ''donate'',
    ''donkey'', ''donor'', ''door'', ''dose'', ''double'', ''dove'', ''draft'', ''dragon'', ''drama'',
    ''drastic'', ''draw'', ''dream'', ''dress'', ''drift'', ''drill'', ''drink'', ''drip'', ''drive'',
    ''drop'', ''drum'', ''dry'', ''duck'', ''dumb'', ''dune'', ''during'', ''dust'', ''dutch'', ''duty'',
    ''dwarf'', ''dynamic'', ''eager'', ''eagle'', ''early'', ''earn'', ''earth'', ''easily'', ''east'',
    ''easy'', ''echo'', ''ecology'', ''economy'', ''edge'', ''edit'', ''educate'', ''effort'', ''egg'',
    ''eight'', ''either'', ''elbow'', ''elder'', ''electric'', ''elegant'', ''element'', ''elephant'',
    ''elevator'', ''elite'', ''else'', ''embark'', ''embody'', ''embrace'', ''emerge'', ''emotion'',
    ''employ'', ''empower'', ''empty'', ''enable'', ''enact'', ''end'', ''endless'', ''endorse'', ''enemy'',
    ''energy'', ''enforce'', ''engage'', ''engine'', ''enhance'', ''enjoy'', ''enlist'', ''enough'',
    ''enrich'', ''enroll'', ''ensure'', ''enter'', ''entire'', ''entry'', ''envelope'', ''episode'', ''equal'',
    ''equip'', ''era'', ''erase'', ''erode'', ''erosion'', ''error'', ''erupt'', ''escape'', ''essay'',
    ''essence'', ''estate'', ''eternal'', ''ethics'', ''evidence'', ''evil'', ''evoke'', ''evolve'', ''exact'',
    ''example'', ''excess'', ''exchange'', ''excite'', ''exclude'', ''excuse'', ''execute'', ''exercise'',
    ''exhaust'', ''exhibit'', ''exile'', ''exist'', ''exit'']"

definition english_6 :: "string list" where
  "english_6 = [
    ''exotic'', ''expand'', ''expect'', ''expire'', ''explain'', ''expose'', ''express'', ''extend'',
    ''extra'', ''eye'', ''eyebrow'', ''fabric'', ''face'', ''faculty'', ''fade'', ''faint'', ''faith'',
    ''fall'', ''false'', ''fame'', ''family'', ''famous'', ''fan'', ''fancy'', ''fantasy'', ''farm'',
    ''fashion'', ''fat'', ''fatal'', ''father'', ''fatigue'', ''fault'', ''favorite'', ''feature'',
    ''february'', ''federal'', ''fee'', ''feed'', ''feel'', ''female'', ''fence'', ''festival'', ''fetch'',
    ''fever'', ''few'', ''fiber'', ''fiction'', ''field'', ''figure'', ''file'', ''film'', ''filter'',
    ''final'', ''find'', ''fine'', ''finger'', ''finish'', ''fire'', ''firm'', ''first'', ''fiscal'', ''fish'',
    ''fit'', ''fitness'', ''fix'', ''flag'', ''flame'', ''flash'', ''flat'', ''flavor'', ''flee'', ''flight'',
    ''flip'', ''float'', ''flock'', ''floor'', ''flower'', ''fluid'', ''flush'', ''fly'', ''foam'', ''focus'',
    ''fog'', ''foil'', ''fold'', ''follow'', ''food'', ''foot'', ''force'', ''forest'', ''forget'', ''fork'',
    ''fortune'', ''forum'', ''forward'', ''fossil'', ''foster'', ''found'', ''fox'', ''fragile'', ''frame'',
    ''frequent'', ''fresh'', ''friend'', ''fringe'', ''frog'', ''front'', ''frost'', ''frown'', ''frozen'',
    ''fruit'', ''fuel'', ''fun'', ''funny'', ''furnace'', ''fury'', ''future'', ''gadget'', ''gain'',
    ''galaxy'', ''gallery'', ''game'', ''gap'', ''garage'', ''garbage'', ''garden'', ''garlic'', ''garment'']"

definition english_7 :: "string list" where
  "english_7 = [
    ''gas'', ''gasp'', ''gate'', ''gather'', ''gauge'', ''gaze'', ''general'', ''genius'', ''genre'',
    ''gentle'', ''genuine'', ''gesture'', ''ghost'', ''giant'', ''gift'', ''giggle'', ''ginger'', ''giraffe'',
    ''girl'', ''give'', ''glad'', ''glance'', ''glare'', ''glass'', ''glide'', ''glimpse'', ''globe'',
    ''gloom'', ''glory'', ''glove'', ''glow'', ''glue'', ''goat'', ''goddess'', ''gold'', ''good'', ''goose'',
    ''gorilla'', ''gospel'', ''gossip'', ''govern'', ''gown'', ''grab'', ''grace'', ''grain'', ''grant'',
    ''grape'', ''grass'', ''gravity'', ''great'', ''green'', ''grid'', ''grief'', ''grit'', ''grocery'',
    ''group'', ''grow'', ''grunt'', ''guard'', ''guess'', ''guide'', ''guilt'', ''guitar'', ''gun'', ''gym'',
    ''habit'', ''hair'', ''half'', ''hammer'', ''hamster'', ''hand'', ''happy'', ''harbor'', ''hard'',
    ''harsh'', ''harvest'', ''hat'', ''have'', ''hawk'', ''hazard'', ''head'', ''health'', ''heart'',
    ''heavy'', ''hedgehog'', ''height'', ''hello'', ''helmet'', ''help'', ''hen'', ''hero'', ''hidden'',
    ''high'', ''hill'', ''hint'', ''hip'', ''hire'', ''history'', ''hobby'', ''hockey'', ''hold'', ''hole'',
    ''holiday'', ''hollow'', ''home'', ''honey'', ''hood'', ''hope'', ''horn'', ''horror'', ''horse'',
    ''hospital'', ''host'', ''hotel'', ''hour'', ''hover'', ''hub'', ''huge'', ''human'', ''humble'',
    ''humor'', ''hundred'', ''hungry'', ''hunt'', ''hurdle'', ''hurry'', ''hurt'', ''husband'']"

definition english_8 :: "string list" where
  "english_8 = [
    ''hybrid'', ''ice'', ''icon'', ''idea'', ''identify'', ''idle'', ''ignore'', ''ill'', ''illegal'',
    ''illness'', ''image'', ''imitate'', ''immense'', ''immune'', ''impact'', ''impose'', ''improve'',
    ''impulse'', ''inch'', ''include'', ''income'', ''increase'', ''index'', ''indicate'', ''indoor'',
    ''industry'', ''infant'', ''inflict'', ''inform'', ''inhale'', ''inherit'', ''initial'', ''inject'',
    ''injury'', ''inmate'', ''inner'', ''innocent'', ''input'', ''inquiry'', ''insane'', ''insect'',
    ''inside'', ''inspire'', ''install'', ''intact'', ''interest'', ''into'', ''invest'', ''invite'',
    ''involve'', ''iron'', ''island'', ''isolate'', ''issue'', ''item'', ''ivory'', ''jacket'', ''jaguar'',
    ''jar'', ''jazz'', ''jealous'', ''jeans'', ''jelly'', ''jewel'', ''job'', ''join'', ''joke'', ''journey'',
    ''joy'', ''judge'', ''juice'', ''jump'', ''jungle'', ''junior'', ''junk'', ''just'', ''kangaroo'',
    ''keen'', ''keep'', ''ketchup'', ''key'', ''kick'', ''kid'', ''kidney'', ''kind'', ''kingdom'', ''kiss'',
    ''kit'', ''kitchen'', ''kite'', ''kitten'', ''kiwi'', ''knee'', ''knife'', ''knock'', ''know'', ''lab'',
    ''label'', ''labor'', ''ladder'', ''lady'', ''lake'', ''lamp'', ''language'', ''laptop'', ''large'',
    ''later'', ''latin'', ''laugh'', ''laundry'', ''lava'', ''law'', ''lawn'', ''lawsuit'', ''layer'',
    ''lazy'', ''leader'', ''leaf'', ''learn'', ''leave'', ''lecture'', ''left'', ''leg'', ''legal'',
    ''legend'', ''leisure'', ''lemon'', ''lend'']"

definition english_9 :: "string list" where
  "english_9 = [
    ''length'', ''lens'', ''leopard'', ''lesson'', ''letter'', ''level'', ''liar'', ''liberty'', ''library'',
    ''license'', ''life'', ''lift'', ''light'', ''like'', ''limb'', ''limit'', ''link'', ''lion'', ''liquid'',
    ''list'', ''little'', ''live'', ''lizard'', ''load'', ''loan'', ''lobster'', ''local'', ''lock'',
    ''logic'', ''lonely'', ''long'', ''loop'', ''lottery'', ''loud'', ''lounge'', ''love'', ''loyal'',
    ''lucky'', ''luggage'', ''lumber'', ''lunar'', ''lunch'', ''luxury'', ''lyrics'', ''machine'', ''mad'',
    ''magic'', ''magnet'', ''maid'', ''mail'', ''main'', ''major'', ''make'', ''mammal'', ''man'', ''manage'',
    ''mandate'', ''mango'', ''mansion'', ''manual'', ''maple'', ''marble'', ''march'', ''margin'', ''marine'',
    ''market'', ''marriage'', ''mask'', ''mass'', ''master'', ''match'', ''material'', ''math'', ''matrix'',
    ''matter'', ''maximum'', ''maze'', ''meadow'', ''mean'', ''measure'', ''meat'', ''mechanic'', ''medal'',
    ''media'', ''melody'', ''melt'', ''member'', ''memory'', ''mention'', ''menu'', ''mercy'', ''merge'',
    ''merit'', ''merry'', ''mesh'', ''message'', ''metal'', ''method'', ''middle'', ''midnight'', ''milk'',
    ''million'', ''mimic'', ''mind'', ''minimum'', ''minor'', ''minute'', ''miracle'', ''mirror'', ''misery'',
    ''miss'', ''mistake'', ''mix'', ''mixed'', ''mixture'', ''mobile'', ''model'', ''modify'', ''mom'',
    ''moment'', ''monitor'', ''monkey'', ''monster'', ''month'', ''moon'', ''moral'', ''more'', ''morning'']"

definition english_10 :: "string list" where
  "english_10 = [
    ''mosquito'', ''mother'', ''motion'', ''motor'', ''mountain'', ''mouse'', ''move'', ''movie'', ''much'',
    ''muffin'', ''mule'', ''multiply'', ''muscle'', ''museum'', ''mushroom'', ''music'', ''must'', ''mutual'',
    ''myself'', ''mystery'', ''myth'', ''naive'', ''name'', ''napkin'', ''narrow'', ''nasty'', ''nation'',
    ''nature'', ''near'', ''neck'', ''need'', ''negative'', ''neglect'', ''neither'', ''nephew'', ''nerve'',
    ''nest'', ''net'', ''network'', ''neutral'', ''never'', ''news'', ''next'', ''nice'', ''night'', ''noble'',
    ''noise'', ''nominee'', ''noodle'', ''normal'', ''north'', ''nose'', ''notable'', ''note'', ''nothing'',
    ''notice'', ''novel'', ''now'', ''nuclear'', ''number'', ''nurse'', ''nut'', ''oak'', ''obey'', ''object'',
    ''oblige'', ''obscure'', ''observe'', ''obtain'', ''obvious'', ''occur'', ''ocean'', ''october'', ''odor'',
    ''off'', ''offer'', ''office'', ''often'', ''oil'', ''okay'', ''old'', ''olive'', ''olympic'', ''omit'',
    ''once'', ''one'', ''onion'', ''online'', ''only'', ''open'', ''opera'', ''opinion'', ''oppose'',
    ''option'', ''orange'', ''orbit'', ''orchard'', ''order'', ''ordinary'', ''organ'', ''orient'',
    ''original'', ''orphan'', ''ostrich'', ''other'', ''outdoor'', ''outer'', ''output'', ''outside'',
    ''oval'', ''oven'', ''over'', ''own'', ''owner'', ''oxygen'', ''oyster'', ''ozone'', ''pact'', ''paddle'',
    ''page'', ''pair'', ''palace'', ''palm'', ''panda'', ''panel'', ''panic'', ''panther'', ''paper'']"

definition english_11 :: "string list" where
  "english_11 = [
    ''parade'', ''parent'', ''park'', ''parrot'', ''party'', ''pass'', ''patch'', ''path'', ''patient'',
    ''patrol'', ''pattern'', ''pause'', ''pave'', ''payment'', ''peace'', ''peanut'', ''pear'', ''peasant'',
    ''pelican'', ''pen'', ''penalty'', ''pencil'', ''people'', ''pepper'', ''perfect'', ''permit'', ''person'',
    ''pet'', ''phone'', ''photo'', ''phrase'', ''physical'', ''piano'', ''picnic'', ''picture'', ''piece'',
    ''pig'', ''pigeon'', ''pill'', ''pilot'', ''pink'', ''pioneer'', ''pipe'', ''pistol'', ''pitch'',
    ''pizza'', ''place'', ''planet'', ''plastic'', ''plate'', ''play'', ''please'', ''pledge'', ''pluck'',
    ''plug'', ''plunge'', ''poem'', ''poet'', ''point'', ''polar'', ''pole'', ''police'', ''pond'', ''pony'',
    ''pool'', ''popular'', ''portion'', ''position'', ''possible'', ''post'', ''potato'', ''pottery'',
    ''poverty'', ''powder'', ''power'', ''practice'', ''praise'', ''predict'', ''prefer'', ''prepare'',
    ''present'', ''pretty'', ''prevent'', ''price'', ''pride'', ''primary'', ''print'', ''priority'',
    ''prison'', ''private'', ''prize'', ''problem'', ''process'', ''produce'', ''profit'', ''program'',
    ''project'', ''promote'', ''proof'', ''property'', ''prosper'', ''protect'', ''proud'', ''provide'',
    ''public'', ''pudding'', ''pull'', ''pulp'', ''pulse'', ''pumpkin'', ''punch'', ''pupil'', ''puppy'',
    ''purchase'', ''purity'', ''purpose'', ''purse'', ''push'', ''put'', ''puzzle'', ''pyramid'', ''quality'',
    ''quantum'', ''quarter'', ''question'', ''quick'', ''quit'', ''quiz'']"

definition english_12 :: "string list" where
  "english_12 = [
    ''quote'', ''rabbit'', ''raccoon'', ''race'', ''rack'', ''radar'', ''radio'', ''rail'', ''rain'',
    ''raise'', ''rally'', ''ramp'', ''ranch'', ''random'', ''range'', ''rapid'', ''rare'', ''rate'',
    ''rather'', ''raven'', ''raw'', ''razor'', ''ready'', ''real'', ''reason'', ''rebel'', ''rebuild'',
    ''recall'', ''receive'', ''recipe'', ''record'', ''recycle'', ''reduce'', ''reflect'', ''reform'',
    ''refuse'', ''region'', ''regret'', ''regular'', ''reject'', ''relax'', ''release'', ''relief'', ''rely'',
    ''remain'', ''remember'', ''remind'', ''remove'', ''render'', ''renew'', ''rent'', ''reopen'', ''repair'',
    ''repeat'', ''replace'', ''report'', ''require'', ''rescue'', ''resemble'', ''resist'', ''resource'',
    ''response'', ''result'', ''retire'', ''retreat'', ''return'', ''reunion'', ''reveal'', ''review'',
    ''reward'', ''rhythm'', ''rib'', ''ribbon'', ''rice'', ''rich'', ''ride'', ''ridge'', ''rifle'', ''right'',
    ''rigid'', ''ring'', ''riot'', ''ripple'', ''risk'', ''ritual'', ''rival'', ''river'', ''road'', ''roast'',
    ''robot'', ''robust'', ''rocket'', ''romance'', ''roof'', ''rookie'', ''room'', ''rose'', ''rotate'',
    ''rough'', ''round'', ''route'', ''royal'', ''rubber'', ''rude'', ''rug'', ''rule'', ''run'', ''runway'',
    ''rural'', ''sad'', ''saddle'', ''sadness'', ''safe'', ''sail'', ''salad'', ''salmon'', ''salon'',
    ''salt'', ''salute'', ''same'', ''sample'', ''sand'', ''satisfy'', ''satoshi'', ''sauce'', ''sausage'',
    ''save'', ''say'']"

definition english_13 :: "string list" where
  "english_13 = [
    ''scale'', ''scan'', ''scare'', ''scatter'', ''scene'', ''scheme'', ''school'', ''science'', ''scissors'',
    ''scorpion'', ''scout'', ''scrap'', ''screen'', ''script'', ''scrub'', ''sea'', ''search'', ''season'',
    ''seat'', ''second'', ''secret'', ''section'', ''security'', ''seed'', ''seek'', ''segment'', ''select'',
    ''sell'', ''seminar'', ''senior'', ''sense'', ''sentence'', ''series'', ''service'', ''session'',
    ''settle'', ''setup'', ''seven'', ''shadow'', ''shaft'', ''shallow'', ''share'', ''shed'', ''shell'',
    ''sheriff'', ''shield'', ''shift'', ''shine'', ''ship'', ''shiver'', ''shock'', ''shoe'', ''shoot'',
    ''shop'', ''short'', ''shoulder'', ''shove'', ''shrimp'', ''shrug'', ''shuffle'', ''shy'', ''sibling'',
    ''sick'', ''side'', ''siege'', ''sight'', ''sign'', ''silent'', ''silk'', ''silly'', ''silver'',
    ''similar'', ''simple'', ''since'', ''sing'', ''siren'', ''sister'', ''situate'', ''six'', ''size'',
    ''skate'', ''sketch'', ''ski'', ''skill'', ''skin'', ''skirt'', ''skull'', ''slab'', ''slam'', ''sleep'',
    ''slender'', ''slice'', ''slide'', ''slight'', ''slim'', ''slogan'', ''slot'', ''slow'', ''slush'',
    ''small'', ''smart'', ''smile'', ''smoke'', ''smooth'', ''snack'', ''snake'', ''snap'', ''sniff'',
    ''snow'', ''soap'', ''soccer'', ''social'', ''sock'', ''soda'', ''soft'', ''solar'', ''soldier'',
    ''solid'', ''solution'', ''solve'', ''someone'', ''song'', ''soon'', ''sorry'', ''sort'', ''soul'',
    ''sound'', ''soup'']"

definition english_14 :: "string list" where
  "english_14 = [
    ''source'', ''south'', ''space'', ''spare'', ''spatial'', ''spawn'', ''speak'', ''special'', ''speed'',
    ''spell'', ''spend'', ''sphere'', ''spice'', ''spider'', ''spike'', ''spin'', ''spirit'', ''split'',
    ''spoil'', ''sponsor'', ''spoon'', ''sport'', ''spot'', ''spray'', ''spread'', ''spring'', ''spy'',
    ''square'', ''squeeze'', ''squirrel'', ''stable'', ''stadium'', ''staff'', ''stage'', ''stairs'',
    ''stamp'', ''stand'', ''start'', ''state'', ''stay'', ''steak'', ''steel'', ''stem'', ''step'', ''stereo'',
    ''stick'', ''still'', ''sting'', ''stock'', ''stomach'', ''stone'', ''stool'', ''story'', ''stove'',
    ''strategy'', ''street'', ''strike'', ''strong'', ''struggle'', ''student'', ''stuff'', ''stumble'',
    ''style'', ''subject'', ''submit'', ''subway'', ''success'', ''such'', ''sudden'', ''suffer'', ''sugar'',
    ''suggest'', ''suit'', ''summer'', ''sun'', ''sunny'', ''sunset'', ''super'', ''supply'', ''supreme'',
    ''sure'', ''surface'', ''surge'', ''surprise'', ''surround'', ''survey'', ''suspect'', ''sustain'',
    ''swallow'', ''swamp'', ''swap'', ''swarm'', ''swear'', ''sweet'', ''swift'', ''swim'', ''swing'',
    ''switch'', ''sword'', ''symbol'', ''symptom'', ''syrup'', ''system'', ''table'', ''tackle'', ''tag'',
    ''tail'', ''talent'', ''talk'', ''tank'', ''tape'', ''target'', ''task'', ''taste'', ''tattoo'', ''taxi'',
    ''teach'', ''team'', ''tell'', ''ten'', ''tenant'', ''tennis'', ''tent'', ''term'', ''test'', ''text'',
    ''thank'', ''that'']"

definition english_15 :: "string list" where
  "english_15 = [
    ''theme'', ''then'', ''theory'', ''there'', ''they'', ''thing'', ''this'', ''thought'', ''three'',
    ''thrive'', ''throw'', ''thumb'', ''thunder'', ''ticket'', ''tide'', ''tiger'', ''tilt'', ''timber'',
    ''time'', ''tiny'', ''tip'', ''tired'', ''tissue'', ''title'', ''toast'', ''tobacco'', ''today'',
    ''toddler'', ''toe'', ''together'', ''toilet'', ''token'', ''tomato'', ''tomorrow'', ''tone'', ''tongue'',
    ''tonight'', ''tool'', ''tooth'', ''top'', ''topic'', ''topple'', ''torch'', ''tornado'', ''tortoise'',
    ''toss'', ''total'', ''tourist'', ''toward'', ''tower'', ''town'', ''toy'', ''track'', ''trade'',
    ''traffic'', ''tragic'', ''train'', ''transfer'', ''trap'', ''trash'', ''travel'', ''tray'', ''treat'',
    ''tree'', ''trend'', ''trial'', ''tribe'', ''trick'', ''trigger'', ''trim'', ''trip'', ''trophy'',
    ''trouble'', ''truck'', ''true'', ''truly'', ''trumpet'', ''trust'', ''truth'', ''try'', ''tube'',
    ''tuition'', ''tumble'', ''tuna'', ''tunnel'', ''turkey'', ''turn'', ''turtle'', ''twelve'', ''twenty'',
    ''twice'', ''twin'', ''twist'', ''two'', ''type'', ''typical'', ''ugly'', ''umbrella'', ''unable'',
    ''unaware'', ''uncle'', ''uncover'', ''under'', ''undo'', ''unfair'', ''unfold'', ''unhappy'', ''uniform'',
    ''unique'', ''unit'', ''universe'', ''unknown'', ''unlock'', ''until'', ''unusual'', ''unveil'',
    ''update'', ''upgrade'', ''uphold'', ''upon'', ''upper'', ''upset'', ''urban'', ''urge'', ''usage'',
    ''use'', ''used'', ''useful'']"

definition english_16 :: "string list" where
  "english_16 = [
    ''useless'', ''usual'', ''utility'', ''vacant'', ''vacuum'', ''vague'', ''valid'', ''valley'', ''valve'',
    ''van'', ''vanish'', ''vapor'', ''various'', ''vast'', ''vault'', ''vehicle'', ''velvet'', ''vendor'',
    ''venture'', ''venue'', ''verb'', ''verify'', ''version'', ''very'', ''vessel'', ''veteran'', ''viable'',
    ''vibrant'', ''vicious'', ''victory'', ''video'', ''view'', ''village'', ''vintage'', ''violin'',
    ''virtual'', ''virus'', ''visa'', ''visit'', ''visual'', ''vital'', ''vivid'', ''vocal'', ''voice'',
    ''void'', ''volcano'', ''volume'', ''vote'', ''voyage'', ''wage'', ''wagon'', ''wait'', ''walk'', ''wall'',
    ''walnut'', ''want'', ''warfare'', ''warm'', ''warrior'', ''wash'', ''wasp'', ''waste'', ''water'',
    ''wave'', ''way'', ''wealth'', ''weapon'', ''wear'', ''weasel'', ''weather'', ''web'', ''wedding'',
    ''weekend'', ''weird'', ''welcome'', ''west'', ''wet'', ''whale'', ''what'', ''wheat'', ''wheel'',
    ''when'', ''where'', ''whip'', ''whisper'', ''wide'', ''width'', ''wife'', ''wild'', ''will'', ''win'',
    ''window'', ''wine'', ''wing'', ''wink'', ''winner'', ''winter'', ''wire'', ''wisdom'', ''wise'', ''wish'',
    ''witness'', ''wolf'', ''woman'', ''wonder'', ''wood'', ''wool'', ''word'', ''work'', ''world'', ''worry'',
    ''worth'', ''wrap'', ''wreck'', ''wrestle'', ''wrist'', ''write'', ''wrong'', ''yard'', ''year'',
    ''yellow'', ''you'', ''young'', ''youth'', ''zebra'', ''zero'', ''zone'', ''zoo'']"

definition English :: "bytes list" where
  "English = map goBytes (concat [english_1, english_2, english_3, english_4, english_5, english_6, english_7, english_8,
     english_9, english_10, english_11, english_12, english_13, english_14, english_15, english_16])"

section \<open>The list is in order\<close>

fun charBits :: "char \<Rightarrow> bool list" where
  "charBits (Char b0 b1 b2 b3 b4 b5 b6 b7) = [b7, b6, b5, b4, b3, b2, b1, b0]"

fun lowerChar :: "char \<Rightarrow> bool" where
  "lowerChar (Char b0 b1 b2 b3 b4 b5 b6 b7) \<longleftrightarrow> b5 \<and> b6 \<and> \<not> b7"

text \<open>Every word has letters only and comes before the next one.\<close>

fun ascending :: "string list \<Rightarrow> bool" where
  "ascending (v # w # ws) \<longleftrightarrow> v \<noteq> [] \<and> list_all lowerChar v \<and> map charBits v < map charBits w \<and> ascending (w # ws)"
| "ascending ws = True"

definition block_ok :: "string list \<Rightarrow> string \<Rightarrow> bool" where
  "block_ok ws v \<longleftrightarrow> length ws = 128 \<and> ascending (ws @ [v])"

lemma block_1: "block_ok english_1 ''avoid''"
  unfolding english_1_def by (simp add: block_ok_def)

lemma block_2: "block_ok english_2 ''cactus''"
  unfolding english_2_def by (simp add: block_ok_def)

lemma block_3: "block_ok english_3 ''copy''"
  unfolding english_3_def by (simp add: block_ok_def)

lemma block_4: "block_ok english_4 ''divorce''"
  unfolding english_4_def by (simp add: block_ok_def)

lemma block_5: "block_ok english_5 ''exotic''"
  unfolding english_5_def by (simp add: block_ok_def)

lemma block_6: "block_ok english_6 ''gas''"
  unfolding english_6_def by (simp add: block_ok_def)

lemma block_7: "block_ok english_7 ''hybrid''"
  unfolding english_7_def by (simp add: block_ok_def)

lemma block_8: "block_ok english_8 ''length''"
  unfolding english_8_def by (simp add: block_ok_def)

lemma block_9: "block_ok english_9 ''mosquito''"
  unfolding english_9_def by (simp add: block_ok_def)

lemma block_10: "block_ok english_10 ''parade''"
  unfolding english_10_def by (simp add: block_ok_def)

lemma block_11: "block_ok english_11 ''quote''"
  unfolding english_11_def by (simp add: block_ok_def)

lemma block_12: "block_ok english_12 ''scale''"
  unfolding english_12_def by (simp add: block_ok_def)

lemma block_13: "block_ok english_13 ''source''"
  unfolding english_13_def by (simp add: block_ok_def)

lemma block_14: "block_ok english_14 ''theme''"
  unfolding english_14_def by (simp add: block_ok_def)

lemma block_15: "block_ok english_15 ''useless''"
  unfolding english_15_def by (simp add: block_ok_def)

lemma block_16: "block_ok english_16 ''zzz''"
  unfolding english_16_def by (simp add: block_ok_def)

section \<open>The list is fit for use\<close>

lemma lowerChar_of_char: "lowerChar c \<Longrightarrow> of_char c \<ge> (96::byte)"
  by (cases c) (auto simp: of_char_def)

lemma lowerChar_less: "lowerChar c \<Longrightarrow> of_char c < (128::byte)"
  by (cases c) (auto simp: of_char_def)

lemma charBits_inj: "charBits c = charBits d \<longleftrightarrow> c = d"
  by (cases c; cases d) auto

lemma wordBits_inj: "map charBits v = map charBits w \<longleftrightarrow> v = w"
  by (simp add: inj_map_eq_map inj_def charBits_inj)

lemma ascending_append:
  "ascending (vs @ [w]) \<Longrightarrow> ascending (w # ws) \<Longrightarrow> ascending (vs @ w # ws)"
proof (induction vs)
  case (Cons v vs)
  then show ?case by (cases vs) simp_all
qed simp

lemma ascending_sorted: "ascending ws \<Longrightarrow> sorted_wrt (<) (map (map charBits) ws)"
proof (induction ws rule: ascending.induct)
  case (1 v w ws)
  then show ?case using sorted_wrt2[of "(<)"] by (auto simp: transp_on_less)
qed simp_all

lemma ascending_letters: "ascending (ws @ [v]) \<Longrightarrow> w \<in> set ws \<Longrightarrow> w \<noteq> [] \<and> list_all lowerChar w"
proof (induction ws)
  case (Cons x ws)
  then show ?case by (cases ws) auto
qed simp

text \<open>Blocks that follow each other are one ascending list.\<close>

fun chained :: "string list list \<Rightarrow> bool" where
  "chained (b # c # bs) \<longleftrightarrow> block_ok b (hd c) \<and> chained (c # bs)"
| "chained [b] \<longleftrightarrow> block_ok b ''zzz''"
| "chained [] \<longleftrightarrow> True"

lemma chained_ascending:
  "chained bs \<Longrightarrow> bs \<noteq> [] \<Longrightarrow> ascending (concat bs @ [''zzz'']) \<and> length (concat bs) = 128 * length bs"
proof (induction bs rule: chained.induct)
  case (1 b c bs)
  then have "block_ok b (hd c)" "ascending (concat (c # bs) @ [''zzz''])" "c \<noteq> []"
    by (cases bs; auto simp: block_ok_def)+
  then show ?case using 1 ascending_append[of b "hd c" "tl c @ concat bs @ [''zzz'']"]
    by (cases c) (simp_all add: block_ok_def)
qed (simp_all add: block_ok_def)

lemma heads:
  "hd english_2 = ''avoid''"
  "hd english_3 = ''cactus''"
  "hd english_4 = ''copy''"
  "hd english_5 = ''divorce''"
  "hd english_6 = ''exotic''"
  "hd english_7 = ''gas''"
  "hd english_8 = ''hybrid''"
  "hd english_9 = ''length''"
  "hd english_10 = ''mosquito''"
  "hd english_11 = ''parade''"
  "hd english_12 = ''quote''"
  "hd english_13 = ''scale''"
  "hd english_14 = ''source''"
  "hd english_15 = ''theme''"
  "hd english_16 = ''useless''"
  by (simp_all add: english_2_def english_3_def english_4_def english_5_def english_6_def english_7_def english_8_def english_9_def english_10_def english_11_def english_12_def english_13_def english_14_def english_15_def english_16_def)

lemma english_chained: "chained [english_1, english_2, english_3, english_4, english_5, english_6, english_7, english_8, english_9, english_10, english_11, english_12, english_13, english_14, english_15, english_16]"
  by (simp add: block_1 block_2 block_3 block_4 block_5 block_6 block_7 block_8 block_9 block_10 block_11 block_12 block_13 block_14 block_15 block_16 heads)

lemma plain_letters:
  assumes "w \<noteq> []" "list_all lowerChar w"
  shows "plainWord (goBytes w)"
proof -
  have "spaceWidth (drop k (goBytes w)) = 0" if k: "k < length w" for k
  proof -
    have "96 \<le> (of_char (w ! k) :: byte)" using assms(2) k by (intro lowerChar_of_char) (simp add: list_all_length)
    moreover have "drop k (goBytes w) = of_char (w ! k) # drop (Suc k) (goBytes w)"
      using k by (simp add: goBytes_def Cons_nth_drop_Suc[symmetric])
    moreover have "(of_char (w ! k) :: byte) < 128" 
      using assms(2) k lowerChar_less[of "w ! k"] by (simp add: list_all_length)
    ultimately show ?thesis by (simp add: spaceWidth_0 spaceChars_def hasPrefix_def) (auto simp: word_le_nat_alt word_less_nat_alt)
  qed
  then show ?thesis using assms(1) by (simp add: plainWord_def goBytes_def)
qed

lemma goBytes_inj: "inj goBytes"
proof -
  have "unat (of_char c :: byte) = of_char c" for c
  proof -
    have "(of_char c :: byte) = of_nat (of_char c)" by (simp add: of_nat_of_char)
    moreover have "(of_char c :: nat) < 256" by (rule nat_of_char_less_256)
    ultimately show ?thesis by (simp add: unat_of_nat)
  qed
  then have "inj (of_char :: char \<Rightarrow> byte)" by (metis injI of_char_eq_iff)
  then show ?thesis unfolding goBytes_def by (simp add: inj_map)
qed

lemma ascending_ok:
  assumes "ascending (ws @ [v])" "length ws = 2048"
  shows "list_ok (map goBytes ws)"
proof -
  have "distinct ws"
    using ascending_sorted[OF assms(1)] by (simp add: sorted_wrt_append strict_sorted_iff distinct_map)
  then have "distinct (map goBytes ws)" using goBytes_inj by (simp add: distinct_map inj_on_def inj_def)
  moreover have "plainWord w" if "w \<in> set (map goBytes ws)" for w
    using that ascending_letters[OF assms(1)] plain_letters by auto
  ultimately show ?thesis using assms(2) by (simp add: list_ok_def)
qed

lemma English_ok: "list_ok English"
proof -
  have "ascending (concat [english_1, english_2, english_3, english_4, english_5, english_6, english_7, english_8, english_9, english_10, english_11, english_12, english_13, english_14, english_15, english_16] @ [''zzz''])" "length (concat [english_1, english_2, english_3, english_4, english_5, english_6, english_7, english_8, english_9, english_10, english_11, english_12, english_13, english_14, english_15, english_16]) = 2048"
    using chained_ascending[OF english_chained] by simp_all
  then show ?thesis unfolding English_def by (rule ascending_ok)
qed

section \<open>The round trip over the English words\<close>

lemma entropy_ok_16: "entropy_ok (replicate 16 b)"
  unfolding entropy_ok_def by (intro bexI[of _ 4]) simp_all

lemma NewMnemonic_EntropyFromMnemonic_witness:
  "\<exists>m. NewMnemonic (\<lambda>_. replicate 32 7) (SetWordList English) (replicate 16 1) = Inr m
     \<and> EntropyFromMnemonic (\<lambda>_. replicate 32 7) (SetWordList English) m = Inr (replicate 16 1)"
  using NewMnemonic_EntropyFromMnemonic[OF English_ok, of "replicate 16 1" "\<lambda>_. replicate 32 7"]
  by (simp only: entropy_ok_16 if_True)

lemma EntropyFromMnemonic_iff_witness:
  "\<exists>m. EntropyFromMnemonic (\<lambda>_. replicate 32 7) (SetWordList English) m = Inr (replicate 16 1)"
proof -
  let ?H = "\<lambda>_. replicate 32 7" and ?e = "replicate 16 1"
  let ?ws = "map ((!) English) (digits (3 * 4) (sealed ?H ?e))"
  have "\<forall>w\<in>set ?ws. plainWord w"
    using English_ok digits_less by (fastforce simp: list_ok_def simp del: digits.simps)
  then have "stringFields (joinSpace ?ws) = ?ws" by (rule stringFields_joinSpace)
  then have "NewMnemonic ?H (SetWordList English) ?e = Inr (joinSpace (stringFields (joinSpace ?ws)))"
    using NewMnemonic_digits[OF English_ok, of ?e 4 ?H] by simp
  then have "EntropyFromMnemonic ?H (SetWordList English) (joinSpace ?ws) = Inr ?e"
    using EntropyFromMnemonic_iff[OF English_ok] entropy_ok_16 by blast
  then show ?thesis by blast
qed

end
