(* ===== verification/Spec2Isabelle.thy ===== *)
theory Spec2Isabelle
  imports Witness_Wallet Witness_Mgr Witness_Recovery Witness_Ops Witness_Birthday Witness_Props Witness_Chain_Clients Seed_English
begin

text \<open>
  \<^bold>\<open>walletd\<close>, a wallet daemon: it keeps the transactions that concern the wallet's keys in a
  key/value database, derives and guards those keys, follows the chain, and authors transactions that
  spend what it owns.

  \<^bold>\<open>Parts of the program and their theories.\<close>
  The \<open>wtxmgr\<close> package records transactions and answers what is spendable.
  \<open>Tx_Types\<close> holds its records and errors (\<open>tx.go\<close>, \<open>query.go\<close>,
  \<open>error.go\<close>), \<open>Tx_Codec\<close> the bytes of every key and value, \<open>Tx_Db\<close> and
  \<open>Tx_Iter\<close> the reads, writes and iterators over the buckets (\<open>db.go\<close>),
  \<open>Tx_Lease\<close> labels and output leases, \<open>Tx_Query\<close> the queries (\<open>query.go\<close>),
  \<open>Tx_Unmined\<close> unmined transactions and their conflicts (\<open>unconfirmed.go\<close>),
  \<open>Tx_Store\<close> the operations of the store (\<open>tx.go\<close>: recording, crediting, rolling back,
  listing, balance), \<open>Tx_Create\<close> creation and migration (\<open>db.go\<close>,
  \<open>migrations.go\<close>, with \<open>Migration\<close> for \<open>walletdb/migration/manager.go\<close>), and
  \<open>Kahn_Sort\<close> the dependency sort (\<open>kahnsort.go\<close>).  Below them, \<open>Bucket\<close> is
  the bucket and cursor interface of \<open>walletdb/interface.go\<close>.

  The \<open>waddrmgr\<close> package keeps keys, accounts and addresses, over \<open>Snacl\<close> (\<open>snacl/snacl.go\<close>), which
  seals and opens secrets.  \<open>Mgr_Types\<close> holds its data and errors, \<open>Mgr_Codec\<close>, \<open>Mgr_Db\<close> and \<open>Mgr_Addr\<close> the
  rows, buckets and access functions of \<open>db.go\<close>, \<open>Mgr_Sync\<close> the sync state (\<open>sync.go\<close>) and the migrations
  that work on it, \<open>Mgr_Keys\<close> and \<open>Mgr_Address\<close> the state in memory and the managed addresses
  (\<open>address.go\<close>), \<open>Mgr_Scoped\<close>, \<open>Mgr_Account\<close>, \<open>Mgr_Next\<close>, \<open>Mgr_Import\<close> and \<open>Mgr_Props\<close> the scoped key
  manager (\<open>scoped_manager.go\<close>: caches and derivation, accounts, the next addresses, imports with
  \<open>tapscript.go\<close> and the encoder of \<open>tlv.go\<close>, account properties), and \<open>Mgr_Lock\<close>, \<open>Mgr_Create\<close> and
  \<open>Mgr_Root\<close> the manager itself (\<open>manager.go\<close>: locking, unlocking and passphrases, creation and opening,
  lookups over all scopes).

  The wallet package uses both.  \<open>Author\<close> models transaction sizes, fee rules and the authoring
  loop (\<open>wallet/txsizes\<close>, \<open>wallet/txrules\<close>, \<open>wallet/txauthor\<close>) with the input
  sources of \<open>wallet/createtx.go\<close>; \<open>Coin_Select\<close> the eligibility, selection and
  arrangement of coins; \<open>Recovery\<close> address recovery (\<open>wallet/recovery.go\<close> and the
  horizon expansion of \<open>wallet/wallet.go\<close>) over the scoped key managers; \<open>Wallet_Chain\<close> how blocks are connected and disconnected and
  \<open>Wallet_Birthday\<close> the birthday block (\<open>wallet/chainntfns.go\<close>, \<open>wallet/wallet.go\<close>); \<open>Wallet_Tx\<close> the recording
  and publishing of relevant transactions; \<open>Wallet_Ops\<close> balances, labels, locked outpoints and leases as
  clients ask for them.  \<open>Seed_Bip39\<close> and \<open>Seed_English\<close> are the seed words (\<open>walletseed/bip39\<close>).

  The \<open>chain\<close> package feeds the wallet.  Of it, \<open>Chain_Queue\<close> is the queue of notifications
  (\<open>queue.go\<close>), \<open>Chain_Filter\<close> the search of blocks for the wallet's addresses (\<open>block_filterer.go\<close>), and
  \<open>Chain_Mempool\<close> the local copy of the mempool (\<open>mempool.go\<close>).

  \<^bold>\<open>How state and operations correspond to the code.\<close>
  The namespace bucket of \<open>wtxmgr\<close> is the record \<open>store\<close>, one field per nested bucket, that of \<open>waddrmgr\<close> the
  record \<open>mgrStore\<close> with a \<open>scopeStore\<close> per key scope;
  an operation takes the store and returns the new one or an error, in the order of the Go code, with
  every early return a branch.  What the address manager keeps in memory is the record \<open>manager\<close>, with managed
  addresses on a heap because several caches refer to the same one; its operations are of type \<open>mop\<close> and
  return the result and the new manager, also when they fail.  The record \<open>wallet\<close> joins a manager and the two
  stores, and \<open>wop\<close> is the type of operations on it; \<open>dbUpdate\<close> is a database transaction, which undoes the writes of
  a failed call but not what it did to memory.
  \<open>env\<close> collects what \<open>wtxmgr\<close> does not define (the wire codec,
  the hash, the coinbase test, the clock and the writes the database refuses), \<open>mgrEnv\<close> and \<open>hdEnv\<close> the
  cryptography and key derivation under \<open>waddrmgr\<close>, \<open>walletEnv\<close> the chain client and script parsing.
  Amounts, heights and
  indexes are words of Go's width.  Go maps whose iteration order matters are association lists with the
  order as an argument, so the theorems hold for every order.

  \<^bold>\<open>What the lemmas show.\<close>
  \<open>wallet_inv\<close> of \<open>Store_Inv\<close> is the invariant of the whole transaction store, given the
  mined transactions \<open>M\<close> with their blocks and the unmined transactions \<open>U\<close>; its books of
  credits, debits and unspent outputs are in \<open>Store_Books\<close>, the iteration over the block records in
  \<open>Block_Iter\<close>.  \<open>Store_Inv\<close> shows that mining keeps it, \<open>Store_Rollback\<close> that a
  rollback detaches exactly the blocks from a height up, \<open>Store_Balance\<close> that \<open>Balance\<close> is the
  sum of the spendable outputs, and \<open>Store_Steps\<close> that every sequence of operations from a new store
  keeps the invariant, and that the operations refine those on \<open>M\<close> and \<open>U\<close>, which
  \<open>minedOf\<close> and \<open>unminedOf\<close> read from the store.
  \<open>Tx_Balance\<close>: the mined balance is the sum of the unspent credits, through every recording
  operation; \<open>Tx_Conflict\<close>: removing a conflict removes exactly it and its descendants, and the
  spend index stays exact; \<open>Tx_Listing\<close>: what is listed as spendable is exactly what is known,
  not leased and not spent; \<open>Tx_Spend\<close>: rolling an input back undoes spending it, and records
  read back as written; \<open>Key_Order\<close>: the byte order of keys is the order of heights, and the latest
  record of a transaction is found; \<open>Tx_Lease\<close>: leases exclude other owners until they expire;
  \<open>Kahn_Sort\<close>: the sort is a topological order and complete.

  \<open>Mgr_Books\<close>, \<open>Mgr_Tables\<close> and \<open>Mgr_Directory\<close> show the account and address tables of a scope as maps and
  the accounts as a directory in which no two share a name; \<open>Mgr_Account\<close> and its users follow each
  branch of making and renaming accounts; \<open>Mgr_Derive\<close>: the next addresses are made from the first valid
  children and end up in the tables and caches; \<open>Mgr_Open\<close>, \<open>Mgr_Creates\<close> and \<open>Mgr_Passphrase\<close>: a created
  manager opens and unlocks under its passphrases, and changed ones replace them; \<open>Mgr_Unlock\<close>: what locking
  clears, what it leaves and what unlocking restores, and that a failed unlock locks; \<open>Mgr_Strip\<close>: what the
  conversion to watching-only deletes; \<open>Mgr_Load\<close>: what loading keeps; \<open>Mgr_Chain\<close> and \<open>Mgr_Birthday\<close>: the
  sync bucket as a window on the chain, and the birthday block.
  \<open>Author\<close> and
  \<open>Coin_Select\<close>: what is authored pays its fee, the loops end, the selection is minimal;
  \<open>Recovery\<close>: the look-ahead window is kept, or the first key that does not derive, an invalid child among them,
  ends the recovery; \<open>Wallet_Chain\<close>: the wallet's view follows the chain, but a block that a disconnection comes
  back to is recorded with the zero hash;
  \<open>Wallet_Relevant\<close>: a relevant transaction is recorded with its credits, how publishing can end, and what each
  end leaves in the store;
  \<open>Wallet_Birthday\<close>: the search for the birthday block ends at a right block; \<open>Wallet_Ops\<close>: the balances of
  accounts are sums over their outputs, in a scope that has a last account and in one that has none; \<open>Seed_Roundtrip\<close>: words and entropy determine each other;
  the \<open>Chain\<close> theories: the queue keeps the order, never blocks and delivers what it
  holds in a bounded number of steps, the filter finds exactly what concerns the
  wallet, and the mempool follows the backend with an exact index.
  The theories \<open>Witness_Store\<close>, \<open>Witness_Steps\<close>, \<open>Witness_Wallet\<close>, \<open>Witness_Chain\<close>, \<open>Witness_Mgr\<close>,
  \<open>Witness_Recovery\<close>, \<open>Witness_Tx\<close>, \<open>Witness_Ops\<close>, \<open>Witness_Birthday\<close>, \<open>Witness_Props\<close> and \<open>Witness_Chain_Clients\<close> apply the
  theorems at concrete inputs.

  \<^bold>\<open>Interfaces.\<close>
  \<open>kv_bucket\<close> states the contract of a bucket, \<open>fixed_codec\<close> and \<open>exact_codec\<close>
  that of the fixed-width encodings, \<open>row_codec\<close> that of the rows of \<open>waddrmgr\<close>, \<open>prefix_iterator\<close> that of
  the bucket iterators,
  \<open>migration_manager\<close> what a migratable service owes the manager, \<open>input_source\<close> what an
  input source promises the authoring loop, \<open>loading\<close> what the loads into memory may not break, and \<open>fifo\<close>
  what the steps of a queue do to its content.  Each is interpreted on the definitions of the model that
  provide it.

  \<^bold>\<open>Bounds and fuel.\<close>
  \<open>removeConflict\<close> recurses on fuel, one more than the number of unmined transactions; a chain
  of spends visits each at most once when the spends are acyclic, so the fuel is enough, as its theorem
  shows.  The derivation loop of the recovery has fuel, as many derivations as the index after
  the last one found plus the window, which its theorem shows to suffice; the search for a birthday block in the
  migration has fuel too, and a lemma gives the amount.
  The authoring loop, the search for the next valid children and the binary search for the birthday block are
  partial functions; that they end is a theorem.

  \<^bold>\<open>Not modelled.\<close>
  The network clients of \<open>chain\<close>, RPC servers (\<open>rpc\<close>), the database engine under \<open>walletdb\<close>, the legacy key
  store, the word lists other than the English one and the PGP words, configuration and logging;
  of \<open>waddrmgr\<close>, the migrations to versions 2 and 5 (the latter changes a bucket while it iterates over it)
  and the decoding of stored taproot scripts; of \<open>wallet\<close>, the listings for RPC clients, signing, psbt,
  multisig, rescans and the goroutines.
  Concurrency is outside the model, the queue excepted: an operation runs alone, inside one database transaction.
\<close>

end
